(* ===== verification/Prelude.thy ===== *)
theory Prelude
  imports Main "HOL-Library.Word" "HOL-Library.Monad_Syntax"
begin

text \<open>
  Shared vocabulary of the development: the machine integer types of the C code, the
  fault monad, byte-array access with its bounds, and the lemma collections the component
  theories extend.

  A C function that can fail (a failed \<open>LWIP_ASSERT\<close>, which calls \<open>sys_assert\<close>
  and never returns, an access outside an object, a use of a dead object, a loop that does
  not end) is a function into \<^typ>\<open>'a option\<close>: \<^term>\<open>None\<close> is such an execution,
  \<^term>\<open>Some x\<close> a normal return of \<open>x\<close>. Error codes that the code returns are ordinary
  values inside \<^term>\<open>Some\<close>.
\<close>

unbundle bit_operations_syntax

type_synonym u8 = "8 word"
type_synonym u16 = "16 word"
type_synonym u32 = "32 word"

named_theorems word_nat "word comparisons and arithmetic read as natural numbers"
named_theorems c_def "definitions of the small C-level helpers"

section \<open>The fault monad\<close>

definition c_assert :: "bool \<Rightarrow> unit option" where
  "c_assert b = (if b then Some () else None)"

lemma c_assert_simps [simp]: "c_assert True = Some ()" "c_assert False = None"
  by (simp_all add: c_assert_def)

lemma c_assert_eq_Some [simp]: "c_assert b = Some x \<longleftrightarrow> b"
  by (simp add: c_assert_def)

lemma bind_c_assert [simp]: "Option.bind (c_assert b) f = (if b then f () else None)"
  by (simp add: c_assert_def)

lemma bindE: "Option.bind m f = Some r \<Longrightarrow> (\<And>x. m = Some x \<Longrightarrow> f x = Some r \<Longrightarrow> thesis) \<Longrightarrow> thesis"
  by (cases m) auto

section \<open>Machine words as natural numbers\<close>

lemma unat_u8_lt: "unat (x :: u8) < 256"
  using unsigned_less [of x] by simp

lemma unat_u16_lt: "unat (x :: u16) < 65536"
  using unsigned_less [of x] by simp

lemma unat_u32_lt: "unat (x :: u32) < 4294967296"
  using unsigned_less [of x] by simp

lemma unat_u16_le: "unat (x :: u16) \<le> 65535"
  using unat_u16_lt [of x] by simp

lemma unat_u16_add [word_nat]:
  "unat (a + b :: u16) = (if unat a + unat b < 65536 then unat a + unat b
     else unat a + unat b - 65536)"
  using unat_u16_lt [of a] unat_u16_lt [of b]
  by (simp add: unat_word_ariths mod_if)

lemma unat_u16_sub [word_nat]:
  "b \<le> a \<Longrightarrow> unat (a - b :: u16) = unat a - unat b"
  by (simp add: unat_sub)

lemmas [word_nat] = word_less_nat_alt word_le_nat_alt

lemma word_eq_unat: "(a :: 'a::len word) = b \<longleftrightarrow> unat a = unat b"
  by (simp add: word_unat_eq_iff)

lemma unat_of_nat_u16: "n < 65536 \<Longrightarrow> unat (of_nat n :: u16) = n"
  by (simp add: unat_of_nat take_bit_nat_eq_self)

lemma unat_ucast_mod:
  "unat (ucast (w :: 'a::len word) :: 'b::len word) = unat w mod 2 ^ LENGTH('b)"
  by (simp add: unsigned_ucast_eq take_bit_eq_mod)

section \<open>Byte arrays\<close>

text \<open>
  \<open>MEMCPY\<close> between two distinct arrays, and the elementwise reading of a slice.
\<close>

lemma map_nth_upt: "i + n \<le> length xs \<Longrightarrow> map (\<lambda>j. xs ! (i + j)) [0..<n] = take n (drop i xs)"
  by (rule nth_equalityI) (auto simp: nth_append)

lemma drop_map_upt: "drop k (map f [0..<n]) = map (\<lambda>i. f (k + i)) [0..<n - k]"
  by (rule nth_equalityI) auto

lemma take_map_upt: "k \<le> n \<Longrightarrow> take k (map f [0..<n]) = map f [0..<k]"
  by (rule nth_equalityI) auto

end
