(* ===== verification/CircBuf.thy ===== *)
theory CircBuf
  imports Prelude
begin

text \<open>
  The byte rings of \<open>CircBuf.c\<close> / \<open>CircBuf.h\<close>: \<open>CircBuffTx\<close> (UART to TCP) and
  \<open>CircBuffRx\<close> (TCP to UART), their write and the two read functions, and the older
  double buffer. \<open>buff_start\<close> always points to the start of a static array, so a ring
  carries that array, and \<open>read_ptr\<close> is an offset from \<open>buff_start\<close>.
\<close>

section \<open>Data\<close>

definition TX_BUFFER_SIZE :: u16 where "TX_BUFFER_SIZE = 10"
definition UART_BUFFER_SIZE :: u16 where "UART_BUFFER_SIZE = 8"
definition CIRC_BUFF_SIZE :: u16 where "CIRC_BUFF_SIZE = 100"
definition ABSIZE :: nat where "ABSIZE = 10"

lemmas [c_def] = TX_BUFFER_SIZE_def UART_BUFFER_SIZE_def CIRC_BUFF_SIZE_def ABSIZE_def

record CBuffer =
  cb_buf :: "u8 list"      \<comment> \<open>the array at \<open>buff_start\<close>\<close>
  cb_read :: nat           \<comment> \<open>\<open>read_ptr - buff_start\<close>\<close>
  cb_cap :: u16
  cb_size :: u16
  cb_windex :: u16

text \<open>The globals the read functions share with the main loop and the timer interrupt.\<close>

record cb_globals =
  tx_buff_ready_flag :: bool
  timeout_flag :: u8
  tx_flag :: u8
  tx_reduced_size :: u16
  uart_reduced_size :: u16

definition cb_globals_init :: cb_globals where
  "cb_globals_init = \<lparr> tx_buff_ready_flag = True, timeout_flag = 0, tx_flag = 0,
     tx_reduced_size = TX_BUFFER_SIZE, uart_reduced_size = TX_BUFFER_SIZE \<rparr>"

definition CircBuffInit :: "u8 list \<Rightarrow> u8 list \<Rightarrow> CBuffer \<times> CBuffer" where
  "CircBuffInit CTxBuff CRxBuff =
     (\<lparr> cb_buf = CTxBuff, cb_read = 0, cb_cap = CIRC_BUFF_SIZE, cb_size = 0, cb_windex = 0 \<rparr>,
      \<lparr> cb_buf = CRxBuff, cb_read = 0, cb_cap = CIRC_BUFF_SIZE, cb_size = 0, cb_windex = 0 \<rparr>)"

section \<open>Operations\<close>

text \<open>
  \<open>DMA_startTX2(src, dst, size)\<close>: the copy loop, \<open>src\<close> being the array \<open>buf\<close> from
  offset \<open>off\<close>. An index outside either array is a fault.
\<close>

function DMA_startTX2_from :: "nat \<Rightarrow> u8 list \<Rightarrow> nat \<Rightarrow> u8 list \<Rightarrow> nat \<Rightarrow> u8 list option" where
  "DMA_startTX2_from x buf off dst n =
     (if x < n then
        if off + x < length buf \<and> x < length dst
        then DMA_startTX2_from (Suc x) buf off (dst[x := buf ! (off + x)]) n
        else None
      else Some dst)"
  by pat_completeness auto
termination by (relation "measure (\<lambda>(x, buf, off, dst, n). n - x)") auto

declare DMA_startTX2_from.simps [simp del]

definition DMA_startTX2 :: "u8 list \<Rightarrow> nat \<Rightarrow> u8 list \<Rightarrow> u16 \<Rightarrow> u8 list option" where
  "DMA_startTX2 buf off dst sz = DMA_startTX2_from 0 buf off dst (unat sz)"

text \<open>
  \<open>CircBuffWrite\<close>: \<open>asize\<close> is a signed 32-bit difference of two \<open>uint16_t\<close>.
\<close>

definition CircBuffWrite :: "CBuffer \<Rightarrow> u8 \<Rightarrow> (bool \<times> CBuffer) option" where
  "CircBuffWrite b data =
     (let asize = uint (cb_cap b) - uint (cb_size b) in
      if asize > 0 then
        let w = (if cb_windex b = cb_cap b then 0 else cb_windex b) in
        if unat w < length (cb_buf b) then
          Some (True, b\<lparr>cb_buf := (cb_buf b)[unat w := data],
                        cb_windex := w + 1, cb_size := cb_size b + 1\<rparr>)
        else None
      else Some (False, b))"

text \<open>\<open>if (read_ptr >= buff_start + buff_cap) read_ptr = buff_start\<close>.\<close>

definition cb_wrap_read :: "CBuffer \<Rightarrow> CBuffer" where
  "cb_wrap_read b = (if cb_read b \<ge> unat (cb_cap b) then b\<lparr>cb_read := 0\<rparr> else b)"

text \<open>The two copying branches that both read functions contain.\<close>

definition cb_copy_short :: "CBuffer \<Rightarrow> u8 list \<Rightarrow> u16 \<Rightarrow> (CBuffer \<times> u8 list) option" where
  "cb_copy_short b dst len = do {
     dst' \<leftarrow> DMA_startTX2 (cb_buf b) (cb_read b) dst (cb_size b);
     Some (cb_wrap_read (b\<lparr>cb_windex := cb_windex b + (len - cb_size b), cb_size := 0,
             cb_read := cb_read b + unat len\<rparr>), dst') }"

definition cb_copy_full :: "CBuffer \<Rightarrow> u8 list \<Rightarrow> u16 \<Rightarrow> (CBuffer \<times> u8 list) option" where
  "cb_copy_full b dst len = do {
     dst' \<leftarrow> DMA_startTX2 (cb_buf b) (cb_read b) dst len;
     Some (cb_wrap_read (b\<lparr>cb_size := cb_size b - len, cb_read := cb_read b + unat len\<rparr>),
           dst') }"

definition CircBuffRead ::
  "CBuffer \<Rightarrow> u8 list \<Rightarrow> u16 \<Rightarrow> cb_globals \<Rightarrow> (bool \<times> CBuffer \<times> u8 list \<times> cb_globals) option" where
  "CircBuffRead b dst len g =
     (if tx_buff_ready_flag g then
        let g = g\<lparr>tx_buff_ready_flag := False\<rparr> in
        if cb_size b > 0 \<and> timeout_flag g = 1 then
          if cb_size b < len then do {
            (b', dst') \<leftarrow> cb_copy_short b dst len;
            Some (True, b', dst', g\<lparr>tx_reduced_size := cb_size b, timeout_flag := 0\<rparr>) }
          else do {
            (b', dst') \<leftarrow> cb_copy_full b dst len;
            Some (True, b', dst', g\<lparr>timeout_flag := 0\<rparr>) }
        else if cb_size b \<ge> len then do {
          (b', dst') \<leftarrow> cb_copy_full b dst len;
          Some (True, b', dst', g) }
        else Some (False, b, dst, g)
      else Some (False, b, dst, g))"

definition CircBuffRead4Uart ::
  "CBuffer \<Rightarrow> u8 list \<Rightarrow> u16 \<Rightarrow> cb_globals \<Rightarrow> (bool \<times> CBuffer \<times> u8 list \<times> cb_globals) option" where
  "CircBuffRead4Uart b dst len g =
     (if cb_size b > 0 \<and> timeout_flag g = 3 then
        if cb_size b < len then do {
          (b', dst') \<leftarrow> cb_copy_short b dst len;
          Some (True, b', dst', g\<lparr>uart_reduced_size := cb_size b, timeout_flag := 0\<rparr>) }
        else do {
          (b', dst') \<leftarrow> cb_copy_full b dst len;
          Some (True, b', dst', g\<lparr>timeout_flag := 0\<rparr>) }
      else if cb_size b \<ge> len then do {
        (b', dst') \<leftarrow> cb_copy_full b dst len;
        Some (True, b', dst', g) }
      else Some (False, b, dst, g))"

section \<open>The rings as byte queues\<close>

text \<open>
  The invariant of a ring that is read in chunks of \<open>c\<close> bytes, and the queue it holds:
  the \<open>size\<close> bytes from \<open>read_ptr\<close> on, wrapping at the end of the array.
\<close>

subsection \<open>The copy loop\<close>

lemma DMA_startTX2_from_Some:
  assumes "off + n \<le> length buf" "n \<le> length dst" "x \<le> n"
  shows "DMA_startTX2_from x buf off dst n =
     Some (take x dst @ take (n - x) (drop (off + x) buf) @ drop n dst)"
  using assms
proof (induction x buf off dst n rule: DMA_startTX2_from.induct)
  case (1 x buf off dst n)
  show ?case
  proof (cases "x < n")
    case True
    with 1 have "take (Suc x) (dst[x := buf ! (off + x)]) = take x dst @ [buf ! (off + x)]"
      by (simp add: take_Suc_conv_app_nth)
    moreover from True 1 have "take (n - x) (drop (off + x) buf) =
        buf ! (off + x) # take (n - Suc x) (drop (off + Suc x) buf)"
      by (simp add: Cons_nth_drop_Suc [symmetric] take_Cons' Suc_diff_Suc)
    ultimately show ?thesis
      using True 1 by (subst DMA_startTX2_from.simps) simp
  next
    case False
    with 1 show ?thesis by (subst DMA_startTX2_from.simps) simp
  qed
qed

lemma DMA_startTX2_from_None:
  assumes "length buf < off + n" "x < n" "n \<le> length dst"
  shows "DMA_startTX2_from x buf off dst n = None"
  using assms
proof (induction x buf off dst n rule: DMA_startTX2_from.induct)
  case (1 x buf off dst n)
  then show ?case
    by (subst DMA_startTX2_from.simps)
       (cases "Suc x < n"; auto simp: DMA_startTX2_from.simps)
qed

lemma DMA_startTX2_Some [simp]:
  "off + unat n \<le> length buf \<Longrightarrow> unat n \<le> length dst \<Longrightarrow>
   DMA_startTX2 buf off dst n = Some (take (unat n) (drop off buf) @ drop (unat n) dst)"
  by (simp add: DMA_startTX2_def DMA_startTX2_from_Some)

lemma DMA_startTX2_None [simp]:
  "length buf < off + unat n \<Longrightarrow> 0 < unat n \<Longrightarrow> unat n \<le> length dst \<Longrightarrow>
   DMA_startTX2 buf off dst n = None"
  by (simp add: DMA_startTX2_def DMA_startTX2_from_None)

definition cb_wf :: "nat \<Rightarrow> CBuffer \<Rightarrow> bool" where
  "cb_wf c b \<longleftrightarrow> length (cb_buf b) = 100 \<and> cb_cap b = 100 \<and> unat (cb_size b) \<le> 100 \<and>
     cb_read b < 100 \<and> c dvd cb_read b \<and> unat (cb_windex b) \<le> 100 \<and>
     unat (cb_windex b) mod 100 = (cb_read b + unat (cb_size b)) mod 100"

lemma cb_wfD:
  assumes "cb_wf c b"
  shows "length (cb_buf b) = 100" "cb_cap b = 100" "unat (cb_size b) \<le> 100"
    "cb_read b < 100" "c dvd cb_read b" "unat (cb_windex b) \<le> 100"
    "unat (cb_windex b) mod 100 = (cb_read b + unat (cb_size b)) mod 100"
  using assms unfolding cb_wf_def by blast+

definition cb_contents :: "CBuffer \<Rightarrow> u8 list" where
  "cb_contents b = map (\<lambda>i. cb_buf b ! ((cb_read b + i) mod 100)) [0..<unat (cb_size b)]"

lemma length_cb_contents [simp]: "length (cb_contents b) = unat (cb_size b)"
  by (simp add: cb_contents_def)

lemma cb_contents_prefix:
  assumes "cb_wf c b" "n \<le> unat (cb_size b)" "cb_read b + n \<le> 100"
  shows "take n (cb_contents b) = take n (drop (cb_read b) (cb_buf b))"
  using assms by (auto simp: cb_wf_def cb_contents_def intro!: nth_equalityI)

lemma CircBuffWrite_full:
  "cb_wf c b \<Longrightarrow> unat (cb_size b) = 100 \<Longrightarrow> CircBuffWrite b d = Some (False, b)"
  by (simp add: CircBuffWrite_def cb_wf_def uint_nat)

lemma mod_add_neq:
  assumes "i < s" "s < (100::nat)"
  shows "(r + i) mod 100 \<noteq> (r + s) mod 100"
proof
  assume "(r + i) mod 100 = (r + s) mod 100"
  then have "100 dvd (r + s) - (r + i)"
    using assms mod_eq_dvd_iff_nat [of "r + i" "r + s" 100] by simp
  with assms show False by (auto dest: dvd_imp_le)
qed

lemma cb_write_index:
  assumes "cb_wf c b" "w = (if cb_windex b = cb_cap b then 0 else cb_windex b)"
  shows "unat w = (cb_read b + unat (cb_size b)) mod 100"
proof -
  have "cb_windex b = cb_cap b \<longleftrightarrow> unat (cb_windex b) = 100"
    using assms(1) by (simp add: cb_wf_def word_eq_unat)
  with assms show ?thesis by (auto simp: cb_wf_def)
qed

lemma cb_put_wf:
  fixes d :: u8
  assumes wf: "cb_wf c b" and room: "unat (cb_size b) < 100"
    and w: "unat w = (cb_read b + unat (cb_size b)) mod 100"
  defines "b' \<equiv> b\<lparr>cb_buf := (cb_buf b)[unat w := d], cb_windex := w + 1,
     cb_size := cb_size b + 1\<rparr>"
  shows "cb_wf c b'" "cb_contents b' = cb_contents b @ [d]"
    "unat (cb_size b') = Suc (unat (cb_size b))"
proof -
  have "unat w < 100" using w by simp
  then have win: "unat (w + 1) = Suc (unat w)"
    by (simp add: unat_u16_add)
  have size: "unat (cb_size b + 1) = Suc (unat (cb_size b))"
    using room by (simp add: unat_u16_add)
  then show "unat (cb_size b') = Suc (unat (cb_size b))" by (simp add: b'_def)
  have "Suc (unat w) mod 100 = (cb_read b + Suc (unat (cb_size b))) mod 100"
    using w by (simp only: mod_Suc_eq add_Suc_right)
  then show "cb_wf c b'"
    using wf room size win \<open>unat w < 100\<close> by (simp add: cb_wf_def b'_def)
  have "unat w \<noteq> (cb_read b + i) mod 100" if "i < unat (cb_size b)" for i
    unfolding w using mod_add_neq [OF that room, of "cb_read b"] by (rule not_sym)
  then show "cb_contents b' = cb_contents b @ [d]"
    using wf size \<open>unat w < 100\<close>
    by (auto simp: cb_contents_def cb_wf_def b'_def simp flip: w)
qed

lemma CircBuffWrite_room:
  assumes wf: "cb_wf c b" and room: "unat (cb_size b) < 100"
  shows "\<exists>b'. CircBuffWrite b d = Some (True, b') \<and> cb_wf c b' \<and>
     cb_contents b' = cb_contents b @ [d] \<and> cb_read b' = cb_read b \<and>
     unat (cb_size b') = Suc (unat (cb_size b))"
proof -
  define w where "w = (if cb_windex b = cb_cap b then 0 else cb_windex b)"
  have w: "unat w = (cb_read b + unat (cb_size b)) mod 100"
    using wf w_def by (rule cb_write_index)
  have "CircBuffWrite b d = Some (True, b\<lparr>cb_buf := (cb_buf b)[unat w := d],
     cb_windex := w + 1, cb_size := cb_size b + 1\<rparr>)"
  proof -
    have "unat w < length (cb_buf b)" unfolding w cb_wfD(1) [OF wf] by simp
    moreover have "uint (cb_cap b) - uint (cb_size b) > 0"
    proof -
      have "int (unat (cb_size b)) < 100" using room by linarith
      then show ?thesis by (simp add: cb_wfD(2) [OF wf])
    qed
    ultimately show ?thesis
      unfolding CircBuffWrite_def Let_def w_def [symmetric] by (simp only: if_True)
  qed
  with cb_put_wf [OF wf room w, of d] show ?thesis by auto
qed
subsection \<open>Reading\<close>

lemma cb_wrap_read_contents:
  assumes "length (cb_buf b) = 100" "cb_cap b = 100" "cb_read b \<le> 100"
  shows "cb_contents (cb_wrap_read b) = cb_contents b"
  using assms by (auto simp: cb_wrap_read_def cb_contents_def)

lemma cb_wrap_read_wf:
  assumes "length (cb_buf b) = 100" "cb_cap b = 100" "unat (cb_size b) \<le> 100"
    "cb_read b \<le> 100" "c dvd cb_read b" "unat (cb_windex b) \<le> 100"
    "unat (cb_windex b) mod 100 = (cb_read b + unat (cb_size b)) mod 100"
  shows "cb_wf c (cb_wrap_read b)"
proof (cases "cb_read b = 100")
  case True
  with assms show ?thesis by (simp add: cb_wrap_read_def cb_wf_def)
next
  case False
  then have "cb_wrap_read b = b" using assms by (simp add: cb_wrap_read_def)
  with False assms show ?thesis by (simp add: cb_wf_def)
qed

lemma cb_copy_full_spec:
  assumes wf: "cb_wf c b" and c: "unat len = c" "c \<le> unat (cb_size b)"
    and room: "cb_read b + c \<le> 100" and dst: "c \<le> length dst"
  shows "\<exists>b'. cb_copy_full b dst len = Some (b', take c (cb_contents b) @ drop c dst) \<and>
     cb_wf c b' \<and> cb_contents b' = drop c (cb_contents b)"
proof -
  note wfD = cb_wfD [OF wf]
  let ?b' = "b\<lparr>cb_size := cb_size b - len, cb_read := cb_read b + unat len\<rparr>"
  have size: "unat (cb_size b - len) = unat (cb_size b) - c"
    using c by (simp add: unat_u16_sub word_le_nat_alt)
  have "cb_wf c (cb_wrap_read ?b')"
    using wfD c room by (intro cb_wrap_read_wf) (simp_all add: size)
  moreover have "cb_contents (cb_wrap_read ?b') = drop c (cb_contents b)"
    using wfD c room size
    by (simp add: cb_wrap_read_contents)
       (simp add: cb_contents_def drop_map_upt ac_simps)
  moreover have "cb_copy_full b dst len =
      Some (cb_wrap_read ?b', take c (cb_contents b) @ drop c dst)"
    using cb_contents_prefix [OF wf c(2) room] c room dst wfD(1)
    by (simp add: cb_copy_full_def)
  ultimately show ?thesis by blast
qed

lemma cb_copy_short_spec:
  assumes wf: "cb_wf c b" and c: "unat len = c" "unat (cb_size b) < c" "0 < unat (cb_size b)"
    and room: "cb_read b + c \<le> 100" and dst: "c \<le> length dst"
  shows "\<exists>b'. cb_copy_short b dst len =
       Some (b', cb_contents b @ drop (unat (cb_size b)) dst) \<and>
     cb_wf c b' \<and> cb_contents b' = []"
proof -
  note wfD = cb_wfD [OF wf]
  let ?b' = "b\<lparr>cb_windex := cb_windex b + (len - cb_size b), cb_size := 0,
     cb_read := cb_read b + unat len\<rparr>"
  have w: "unat (cb_windex b) = cb_read b + unat (cb_size b)"
    using wfD(6,7) c room by (cases "unat (cb_windex b) = 100") auto
  have "unat (len - cb_size b) = c - unat (cb_size b)"
    using c by (simp add: unat_u16_sub word_le_nat_alt)
  then have "unat (cb_windex b + (len - cb_size b)) = cb_read b + c"
    using w c room by (simp add: unat_u16_add)
  then have "cb_wf c (cb_wrap_read ?b')"
    using wfD c room by (intro cb_wrap_read_wf) simp_all
  moreover have "cb_contents (cb_wrap_read ?b') = []"
    by (simp add: cb_contents_def cb_wrap_read_def)
  moreover have "cb_contents b = take (unat (cb_size b)) (drop (cb_read b) (cb_buf b))"
    using cb_contents_prefix [OF wf order_refl] c room by simp
  then have "cb_copy_short b dst len =
      Some (cb_wrap_read ?b', cb_contents b @ drop (unat (cb_size b)) dst)"
    using c room dst wfD(1) by (simp add: cb_copy_short_def)
  ultimately show ?thesis by blast
qed

lemma chunk_room:
  assumes "c dvd r" "c dvd 100" "r < (100::nat)"
  shows "r + c \<le> 100"
proof -
  from assms have "c dvd 100 - r" by simp
  then show ?thesis using assms(3) by (auto dest: dvd_imp_le)
qed

text \<open>The queue-level reading of the two read functions.\<close>

definition ring_read_spec ::
  "u8 list \<Rightarrow> u8 list \<Rightarrow> nat \<Rightarrow> cb_globals \<Rightarrow> bool \<times> u8 list \<times> u8 list \<times> cb_globals" where
  "ring_read_spec q dst c g =
     (if \<not> tx_buff_ready_flag g then (False, q, dst, g)
      else let n = min c (length q); due = (timeout_flag g = 1);
               ok = (q \<noteq> [] \<and> due \<or> c \<le> length q) in
        if ok then
          (True, drop n q, take n q @ drop n dst,
           g\<lparr>tx_buff_ready_flag := False,
             timeout_flag := (if due then 0 else timeout_flag g),
             tx_reduced_size := (if length q < c then of_nat (length q)
                                 else tx_reduced_size g)\<rparr>)
        else (False, q, dst, g\<lparr>tx_buff_ready_flag := False\<rparr>))"

lemma CircBuffRead_refines:
  assumes wf: "cb_wf c b" and c: "unat len = c" "0 < c" "c dvd 100" and dst: "c \<le> length dst"
  shows "\<exists>r b' dst' g'. CircBuffRead b dst len g = Some (r, b', dst', g') \<and> cb_wf c b' \<and>
     (r, cb_contents b', dst', g') = ring_read_spec (cb_contents b) dst c g"
proof -
  have room: "cb_read b + c \<le> 100"
    using cb_wfD(4,5) [OF wf] c by (intro chunk_room)
  have len: "cb_size b < len \<longleftrightarrow> unat (cb_size b) < c" "cb_size b \<ge> len \<longleftrightarrow> c \<le> unat (cb_size b)"
    "cb_size b > 0 \<longleftrightarrow> 0 < unat (cb_size b)"
    using c by (simp_all add: word_less_nat_alt word_le_nat_alt)
  have ne: "cb_contents b \<noteq> [] \<longleftrightarrow> 0 < unat (cb_size b)"
    using length_cb_contents [of b] by (metis length_greater_0_conv)
  consider (idle) "\<not> tx_buff_ready_flag g"
    | (short) "tx_buff_ready_flag g" "0 < unat (cb_size b)" "timeout_flag g = 1" "unat (cb_size b) < c"
    | (full) "tx_buff_ready_flag g" "c \<le> unat (cb_size b)"
    | (none) "tx_buff_ready_flag g" "unat (cb_size b) < c"
        "\<not> (0 < unat (cb_size b) \<and> timeout_flag g = 1)"
    by linarith
  then show ?thesis
  proof cases
    case idle
    then have "CircBuffRead b dst len g = Some (False, b, dst, g)"
      and "ring_read_spec (cb_contents b) dst c g = (False, cb_contents b, dst, g)"
      by (simp_all add: CircBuffRead_def ring_read_spec_def)
    with wf show ?thesis by metis
  next
    case short
    from cb_copy_short_spec [OF wf c(1) short(4,2) room dst] obtain b' where
      b': "cb_copy_short b dst len = Some (b', cb_contents b @ drop (unat (cb_size b)) dst)"
      "cb_wf c b'" "cb_contents b' = []" by blast
    let ?g' = "g\<lparr>tx_buff_ready_flag := False, timeout_flag := 0, tx_reduced_size := cb_size b\<rparr>"
    have "CircBuffRead b dst len g =
        Some (True, b', cb_contents b @ drop (unat (cb_size b)) dst, ?g')"
      using short b' by (simp add: CircBuffRead_def len Let_def)
    moreover have "ring_read_spec (cb_contents b) dst c g =
        (True, [], cb_contents b @ drop (unat (cb_size b)) dst, ?g')"
      using short ne by (simp add: ring_read_spec_def Let_def)
    ultimately show ?thesis using b' by metis
  next
    case full
    from cb_copy_full_spec [OF wf c(1) full(2) room dst] obtain b' where
      b': "cb_copy_full b dst len = Some (b', take c (cb_contents b) @ drop c dst)"
      "cb_wf c b'" "cb_contents b' = drop c (cb_contents b)" by blast
    let ?g' = "g\<lparr>tx_buff_ready_flag := False,
      timeout_flag := (if timeout_flag g = 1 then 0 else timeout_flag g)\<rparr>"
    have "CircBuffRead b dst len g =
        Some (True, b', take c (cb_contents b) @ drop c dst, ?g')"
      using full b' c by (simp add: CircBuffRead_def len Let_def)
    moreover have "ring_read_spec (cb_contents b) dst c g =
        (True, drop c (cb_contents b), take c (cb_contents b) @ drop c dst, ?g')"
      using full ne c by (simp add: ring_read_spec_def Let_def)
    ultimately show ?thesis using b' by metis
  next
    case none
    let ?g' = "g\<lparr>tx_buff_ready_flag := False\<rparr>"
    have "CircBuffRead b dst len g = Some (False, b, dst, ?g')"
      using none by (auto simp add: CircBuffRead_def len Let_def)
    moreover have "ring_read_spec (cb_contents b) dst c g = (False, cb_contents b, dst, ?g')"
      using none ne by (auto simp add: ring_read_spec_def Let_def)
    ultimately show ?thesis using wf by metis
  qed
qed

end
