(* ===== verification/PitDriver.thy ===== *)
theory PitDriver
  imports Prelude
begin

text \<open>
  The periodic interrupt timer: the register accessors of \<open>fsl_pit_hal.h\<close>, the driver
  \<open>fsl_pit_driver.c\<close> and the interrupt side \<open>fsl_pit_irq.c\<close>, over one instance of four
  channels. The registers are the state; the counting itself is hardware, so the current
  counter values are inputs. The source clock frequency, which the clock manager computes
  from the board configuration, is an argument.
\<close>

section \<open>Registers\<close>

definition PIT_TIMER_COUNT :: nat where "PIT_TIMER_COUNT = 4"
definition HW_PIT_INSTANCE_COUNT :: nat where "HW_PIT_INSTANCE_COUNT = 1"

lemmas [c_def] = PIT_TIMER_COUNT_def HW_PIT_INSTANCE_COUNT_def

record 'cb pit =
  pit_gate :: bool                   \<comment> \<open>clock gate\<close>
  pit_mdis :: bool                   \<comment> \<open>\<open>MCR.MDIS\<close>: module disabled\<close>
  pit_frz :: bool                    \<comment> \<open>\<open>MCR.FRZ\<close>: frozen in debug mode\<close>
  pit_ldval :: "nat \<Rightarrow> u32"          \<comment> \<open>\<open>LDVALn\<close>\<close>
  pit_ten :: "nat \<Rightarrow> bool"           \<comment> \<open>\<open>TCTRLn.TEN\<close>: timer runs\<close>
  pit_tie :: "nat \<Rightarrow> bool"           \<comment> \<open>\<open>TCTRLn.TIE\<close>: interrupt enabled\<close>
  pit_chn :: "nat \<Rightarrow> bool"           \<comment> \<open>\<open>TCTRLn.CHN\<close>: chained\<close>
  pit_tif :: "nat \<Rightarrow> bool"           \<comment> \<open>\<open>TFLGn.TIF\<close>: interrupt flag\<close>
  pit_nvic :: "nat \<Rightarrow> bool"          \<comment> \<open>interrupt line enabled at the NVIC\<close>
  pitSourceClock :: "64 word"
  pitIsrCallbackTable :: "nat \<Rightarrow> 'cb option"

record pit_user_config =
  isInterruptEnabled :: bool
  isTimerChained :: bool
  periodUs :: u32

section \<open>Register accessors (\<open>fsl_pit_hal.h\<close>)\<close>

definition PIT_HAL_Enable :: "'cb pit \<Rightarrow> 'cb pit" where
  "PIT_HAL_Enable p = p\<lparr>pit_mdis := False\<rparr>"

definition PIT_HAL_Disable :: "'cb pit \<Rightarrow> 'cb pit" where
  "PIT_HAL_Disable p = p\<lparr>pit_mdis := True\<rparr>"

definition PIT_HAL_SetTimerRunInDebugCmd :: "bool \<Rightarrow> 'cb pit \<Rightarrow> 'cb pit" where
  "PIT_HAL_SetTimerRunInDebugCmd timerRun p = p\<lparr>pit_frz := \<not> timerRun\<rparr>"

definition PIT_HAL_SetTimerChainCmd :: "nat \<Rightarrow> bool \<Rightarrow> 'cb pit \<Rightarrow> 'cb pit option" where
  "PIT_HAL_SetTimerChainCmd ch enable p = do {
     c_assert (ch < PIT_TIMER_COUNT);
     Some (p\<lparr>pit_chn := (pit_chn p)(ch := enable)\<rparr>) }"

definition PIT_HAL_StartTimer :: "nat \<Rightarrow> 'cb pit \<Rightarrow> 'cb pit option" where
  "PIT_HAL_StartTimer ch p = do {
     c_assert (ch < PIT_TIMER_COUNT);
     Some (p\<lparr>pit_ten := (pit_ten p)(ch := True)\<rparr>) }"

definition PIT_HAL_StopTimer :: "nat \<Rightarrow> 'cb pit \<Rightarrow> 'cb pit option" where
  "PIT_HAL_StopTimer ch p = do {
     c_assert (ch < PIT_TIMER_COUNT);
     Some (p\<lparr>pit_ten := (pit_ten p)(ch := False)\<rparr>) }"

definition PIT_HAL_IsTimerRunning :: "nat \<Rightarrow> 'cb pit \<Rightarrow> bool option" where
  "PIT_HAL_IsTimerRunning ch p = do {
     c_assert (ch < PIT_TIMER_COUNT); Some (pit_ten p ch) }"

definition PIT_HAL_SetTimerPeriodByCount :: "nat \<Rightarrow> u32 \<Rightarrow> 'cb pit \<Rightarrow> 'cb pit option" where
  "PIT_HAL_SetTimerPeriodByCount ch count p = do {
     c_assert (ch < PIT_TIMER_COUNT);
     Some (p\<lparr>pit_ldval := (pit_ldval p)(ch := count)\<rparr>) }"

definition PIT_HAL_SetIntCmd :: "nat \<Rightarrow> bool \<Rightarrow> 'cb pit \<Rightarrow> 'cb pit option" where
  "PIT_HAL_SetIntCmd ch enable p = do {
     c_assert (ch < PIT_TIMER_COUNT);
     Some (p\<lparr>pit_tie := (pit_tie p)(ch := enable)\<rparr>) }"

definition PIT_HAL_ClearIntFlag :: "nat \<Rightarrow> 'cb pit \<Rightarrow> 'cb pit option" where
  "PIT_HAL_ClearIntFlag ch p = do {
     c_assert (ch < PIT_TIMER_COUNT);
     Some (p\<lparr>pit_tif := (pit_tif p)(ch := False)\<rparr>) }"

lemmas [c_def] = PIT_HAL_Enable_def PIT_HAL_Disable_def PIT_HAL_SetTimerRunInDebugCmd_def
  PIT_HAL_SetTimerChainCmd_def PIT_HAL_StartTimer_def PIT_HAL_StopTimer_def
  PIT_HAL_IsTimerRunning_def PIT_HAL_SetTimerPeriodByCount_def PIT_HAL_SetIntCmd_def
  PIT_HAL_ClearIntFlag_def

section \<open>Driver (\<open>fsl_pit_driver.c\<close>)\<close>

definition PIT_DRV_Init :: "nat \<Rightarrow> bool \<Rightarrow> u32 \<Rightarrow> 'cb pit \<Rightarrow> 'cb pit option" where
  "PIT_DRV_Init inst isRunInDebug freq p = do {
     c_assert (inst < HW_PIT_INSTANCE_COUNT);
     let p = p\<lparr>pit_gate := True\<rparr>;
     let p = PIT_HAL_Enable p;
     let p = PIT_HAL_SetTimerRunInDebugCmd isRunInDebug p;
     Some (p\<lparr>pitSourceClock := ucast freq\<rparr>) }"

text \<open>
  \<open>us * pitSourceClock / 1000000U - 1U\<close> is computed in 64 bits and cut to 32.
\<close>

definition PIT_DRV_SetTimerPeriodByUs :: "nat \<Rightarrow> nat \<Rightarrow> u32 \<Rightarrow> 'cb pit \<Rightarrow> 'cb pit option" where
  "PIT_DRV_SetTimerPeriodByUs inst ch us p = do {
     c_assert (inst < HW_PIT_INSTANCE_COUNT);
     let count = (ucast (ucast us * pitSourceClock p div 1000000 - 1) :: u32);
     PIT_HAL_SetTimerPeriodByCount ch count p }"

definition PIT_DRV_InitChannel :: "nat \<Rightarrow> nat \<Rightarrow> pit_user_config \<Rightarrow> 'cb pit \<Rightarrow> 'cb pit option" where
  "PIT_DRV_InitChannel inst ch config p = do {
     c_assert (inst < HW_PIT_INSTANCE_COUNT);
     p \<leftarrow> PIT_DRV_SetTimerPeriodByUs inst ch (periodUs config) p;
     p \<leftarrow> PIT_HAL_SetTimerChainCmd ch (isTimerChained config) p;
     p \<leftarrow> PIT_HAL_SetIntCmd ch (isInterruptEnabled config) p;
     Some (if isInterruptEnabled config then p\<lparr>pit_nvic := (pit_nvic p)(ch := True)\<rparr> else p) }"

text \<open>The loop of \<open>PIT_DRV_Deinit\<close> over the channels from \<open>i\<close> on.\<close>

function PIT_DRV_Deinit_from :: "nat \<Rightarrow> 'cb pit \<Rightarrow> 'cb pit option" where
  "PIT_DRV_Deinit_from i p =
     (if i < PIT_TIMER_COUNT then do {
        p \<leftarrow> PIT_HAL_SetIntCmd i False p;
        PIT_DRV_Deinit_from (Suc i) (p\<lparr>pit_nvic := (pit_nvic p)(i := False)\<rparr>) }
      else Some p)"
  by pat_completeness auto
termination by (relation "measure (\<lambda>(i, p). PIT_TIMER_COUNT - i)") auto

declare PIT_DRV_Deinit_from.simps [simp del]

definition PIT_DRV_Deinit :: "nat \<Rightarrow> 'cb pit \<Rightarrow> 'cb pit option" where
  "PIT_DRV_Deinit inst p = do {
     c_assert (inst < HW_PIT_INSTANCE_COUNT);
     p \<leftarrow> PIT_DRV_Deinit_from 0 p;
     let p = PIT_HAL_Disable p;
     Some (p\<lparr>pit_gate := False\<rparr>) }"

definition PIT_DRV_StartTimer :: "nat \<Rightarrow> nat \<Rightarrow> 'cb pit \<Rightarrow> 'cb pit option" where
  "PIT_DRV_StartTimer inst ch p = do {
     c_assert (inst < HW_PIT_INSTANCE_COUNT); PIT_HAL_StartTimer ch p }"

definition PIT_DRV_StopTimer :: "nat \<Rightarrow> nat \<Rightarrow> 'cb pit \<Rightarrow> 'cb pit option" where
  "PIT_DRV_StopTimer inst ch p = do {
     c_assert (inst < HW_PIT_INSTANCE_COUNT); PIT_HAL_StopTimer ch p }"

text \<open>
  \<open>PIT_DRV_ReadTimerUs\<close>: \<open>cval\<close> is the value read from \<open>CVALn\<close>. The complement is
  taken on 32 bits, before the widening to 64. A zero source clock divides by zero.
\<close>

definition PIT_DRV_ReadTimerUs :: "nat \<Rightarrow> nat \<Rightarrow> u32 \<Rightarrow> 'cb pit \<Rightarrow> u32 option" where
  "PIT_DRV_ReadTimerUs inst ch cval p = do {
     c_assert (inst < HW_PIT_INSTANCE_COUNT);
     c_assert (ch < PIT_TIMER_COUNT);
     c_assert (pitSourceClock p \<noteq> 0);
     let currentTime = (ucast (NOT cval) :: 64 word);
     Some (ucast (currentTime * 1000000 div pitSourceClock p)) }"

definition PIT_DRV_SetLifetimeTimerPeriodByUs :: "nat \<Rightarrow> 64 word \<Rightarrow> 'cb pit \<Rightarrow> 'cb pit option" where
  "PIT_DRV_SetLifetimeTimerPeriodByUs inst us p = do {
     c_assert (inst < HW_PIT_INSTANCE_COUNT);
     let lifeTimeCount = us * pitSourceClock p div 1000000 - 1;
     p \<leftarrow> PIT_HAL_SetTimerPeriodByCount 0 (ucast lifeTimeCount) p;
     PIT_HAL_SetTimerPeriodByCount 1 (ucast (drop_bit 32 lifeTimeCount)) p }"

definition PIT_HAL_ReadLifetimeTimerCount :: "u32 \<Rightarrow> u32 \<Rightarrow> 64 word" where
  "PIT_HAL_ReadLifetimeTimerCount valueH valueL = push_bit 32 (ucast valueH) + ucast valueL"

definition PIT_DRV_ReadLifetimeTimerUs :: "nat \<Rightarrow> u32 \<Rightarrow> u32 \<Rightarrow> 'cb pit \<Rightarrow> 64 word option" where
  "PIT_DRV_ReadLifetimeTimerUs inst valueH valueL p = do {
     c_assert (inst < HW_PIT_INSTANCE_COUNT);
     c_assert (pitSourceClock p div 1000 \<noteq> 0);
     let currentTime = NOT (PIT_HAL_ReadLifetimeTimerCount valueH valueL);
     Some (currentTime * 1000 div (pitSourceClock p div 1000)) }"

section \<open>Interrupts (\<open>fsl_pit_irq.c\<close>)\<close>

definition PIT_DRV_InstallCallback :: "nat \<Rightarrow> nat \<Rightarrow> 'cb \<Rightarrow> 'cb pit \<Rightarrow> 'cb pit option" where
  "PIT_DRV_InstallCallback inst ch cb p = do {
     c_assert (ch < PIT_TIMER_COUNT);
     c_assert (inst < HW_PIT_INSTANCE_COUNT);
     Some (p\<lparr>pitIsrCallbackTable := (pitIsrCallbackTable p)(ch := Some cb)\<rparr>) }"

text \<open>
  \<open>PITn_IRQHandler\<close>: clears the flag and yields the callback to run, if there is one.
\<close>

definition PIT_IRQHandler :: "nat \<Rightarrow> 'cb pit \<Rightarrow> ('cb option \<times> 'cb pit) option" where
  "PIT_IRQHandler ch p = do {
     p \<leftarrow> PIT_HAL_ClearIntFlag ch p;
     Some (pitIsrCallbackTable p ch, p) }"

section \<open>Lemmas\<close>

lemma unat_u64_lt: "unat (x :: 64 word) < 18446744073709551616"
  using unsigned_less [of x] by simp

lemma PIT_DRV_SetTimerPeriodByUs_count:
  assumes ch: "ch < 4"
    and lo: "1000000 \<le> unat us * unat (pitSourceClock p)"
    and hi: "unat us * unat (pitSourceClock p) div 1000000 \<le> 4294967296"
  shows "\<exists>p'. PIT_DRV_SetTimerPeriodByUs 0 ch us p = Some p' \<and>
     unat (pit_ldval p' ch) + 1 = unat us * unat (pitSourceClock p) div 1000000"
proof -
  let ?m = "unat us * unat (pitSourceClock p)"
  let ?q = "ucast us * pitSourceClock p div 1000000"
  have m: "?m < 18446744073709551616"
    using hi by (auto simp: div_le_mono less_mult_imp_div_less)
  have q: "unat ?q = ?m div 1000000"
    using m unat_u32_lt [of us]
    by (simp add: unat_div unat_word_ariths unat_ucast_mod)
  have pos: "1 \<le> ?m div 1000000" using lo by (simp add: Suc_le_eq div_greater_zero_iff)
  then have "1 \<le> ?q" by (simp add: word_le_nat_alt q)
  then have "unat (?q - 1) = ?m div 1000000 - 1"
    by (simp add: unat_sub q)
  then have "unat (ucast (?q - 1) :: u32) = ?m div 1000000 - 1"
    using hi pos by (simp add: unat_ucast_mod)
  then show ?thesis using ch pos
    by (simp add: PIT_DRV_SetTimerPeriodByUs_def PIT_HAL_SetTimerPeriodByCount_def c_def)
qed

end
