(* ===== verification/TimeoutTimer.thy ===== *)
theory TimeoutTimer
  imports CircBuf PitDriver
begin

text \<open>
  The idle timer of \<open>TimeoutTimer.c\<close> and the two pieces of \<open>CircBuf.c\<close> that use it:
  the timer is started by every byte read from the UART and stopped by its own interrupt
  once the ring is empty.
\<close>

section \<open>Device state\<close>

text \<open>The only callback the application installs on the PIT.\<close>

datatype isr_fn = TO_Timer_callbackIRQ_fn

record dev =
  CircBuffTx :: CBuffer
  CircBuffRx :: CBuffer
  tx_buffer :: "u8 list"
  tx_uart :: "u8 list"
  globals :: cb_globals
  pit_dev :: "isr_fn pit"

definition PIT_INSTANCE :: nat where "PIT_INSTANCE = 0"

section \<open>Timer operations\<close>

text \<open>\<open>1000*timeout_ms\<close> is an \<open>int\<close> product stored in a \<open>uint32_t\<close> field.\<close>

definition TO_Timer_init :: "u8 \<Rightarrow> u32 \<Rightarrow> dev \<Rightarrow> dev option" where
  "TO_Timer_init timeout_ms freq s = do {
     let config = \<lparr> isInterruptEnabled = True, isTimerChained = False,
                    periodUs = 1000 * ucast timeout_ms \<rparr>;
     p \<leftarrow> PIT_DRV_Init PIT_INSTANCE True freq (pit_dev s);
     p \<leftarrow> PIT_DRV_InitChannel PIT_INSTANCE 0 config p;
     p \<leftarrow> PIT_DRV_InstallCallback PIT_INSTANCE 0 TO_Timer_callbackIRQ_fn p;
     Some (s\<lparr>pit_dev := p\<rparr>) }"

definition TO_Timer_reset :: "dev \<Rightarrow> dev option" where
  "TO_Timer_reset s = do {
     p \<leftarrow> PIT_DRV_StartTimer PIT_INSTANCE 0 (pit_dev s); Some (s\<lparr>pit_dev := p\<rparr>) }"

definition TO_Timer_stop :: "dev \<Rightarrow> dev option" where
  "TO_Timer_stop s = do {
     p \<leftarrow> PIT_DRV_StopTimer PIT_INSTANCE 0 (pit_dev s); Some (s\<lparr>pit_dev := p\<rparr>) }"

definition TO_Timer_callbackIRQ :: "dev \<Rightarrow> dev option" where
  "TO_Timer_callbackIRQ s =
     (if cb_size (CircBuffTx s) > 0 then Some (s\<lparr>globals := (globals s)\<lparr>timeout_flag := 1\<rparr>\<rparr>)
      else TO_Timer_stop s)"

text \<open>The PIT channel 0 interrupt, which dispatches to the installed callback.\<close>

definition PIT0_IRQHandler :: "dev \<Rightarrow> dev option" where
  "PIT0_IRQHandler s = do {
     (cb, p) \<leftarrow> PIT_IRQHandler 0 (pit_dev s);
     let s = s\<lparr>pit_dev := p\<rparr>;
     case cb of None \<Rightarrow> Some s
     | Some TO_Timer_callbackIRQ_fn \<Rightarrow> TO_Timer_callbackIRQ s }"

text \<open>
  \<open>ReadUARTdata\<close>: \<open>CircBuffWrite\<close> gets the address of the data register and reads it
  only when it stores the byte; the result says whether the register was read.
\<close>

definition ReadUARTdata :: "u8 \<Rightarrow> dev \<Rightarrow> (bool \<times> dev) option" where
  "ReadUARTdata d s = do {
     s \<leftarrow> TO_Timer_reset s;
     (r, b) \<leftarrow> CircBuffWrite (CircBuffTx s) d;
     Some (r, s\<lparr>CircBuffTx := b\<rparr>) }"

section \<open>The older double buffer\<close>

text \<open>
  \<open>HalfBuffTx\<close>: pointers into one of two arrays of \<open>ABSIZE\<close> bytes, or null.
\<close>

datatype half_array = BuffA | BuffB

record HBuffer =
  hb_write_ptr :: "(half_array \<times> nat) option"
  hb_read_ptr :: "(half_array \<times> nat) option"
  hb_write_size :: u8
  hb_read_size :: u8
  hb_AorB :: u8

definition HalfBuffInit :: HBuffer where
  "HalfBuffInit = \<lparr> hb_write_ptr = Some (BuffA, 0), hb_read_ptr = None,
     hb_write_size = 0, hb_read_size = 0, hb_AorB = 65 \<rparr>"

definition DMA_startTX :: "u8 list \<Rightarrow> u8 list \<Rightarrow> HBuffer \<Rightarrow> u8 list \<Rightarrow> u8 list option" where
  "DMA_startTX buffA buffB h txb =
     (case hb_read_ptr h of None \<Rightarrow> None
      | Some (a, off) \<Rightarrow>
          DMA_startTX2_from 0 (case a of BuffA \<Rightarrow> buffA | BuffB \<Rightarrow> buffB) off txb ABSIZE)"

section \<open>Lemmas\<close>

lemma TO_Timer_reset_eq [simp]:
  "TO_Timer_reset s = Some (s\<lparr>pit_dev := (pit_dev s)\<lparr>pit_ten := (pit_ten (pit_dev s))(0 := True)\<rparr>\<rparr>)"
  by (simp add: TO_Timer_reset_def PIT_DRV_StartTimer_def PIT_INSTANCE_def c_def)

lemma TO_Timer_stop_eq [simp]:
  "TO_Timer_stop s = Some (s\<lparr>pit_dev := (pit_dev s)\<lparr>pit_ten := (pit_ten (pit_dev s))(0 := False)\<rparr>\<rparr>)"
  by (simp add: TO_Timer_stop_def PIT_DRV_StopTimer_def PIT_INSTANCE_def c_def)

end
