(* ===== verification/Bridge.thy ===== *)
theory Bridge
  imports TimeoutTimer
begin

text \<open>
  The data path of the device between the two callbacks of the TCP stack: the body of
  the endless loop of \<open>main\<close> and \<open>ReadInPoll\<close> of \<open>echo.c\<close>, run over sequences of
  events. The TCP stack enters through the bytes it delivers (\<open>TCP_UART_send\<close> writes
  them to \<open>CircBuffRx\<close>) and the blocks it is given (\<open>tcp_write\<close> in \<open>ReadInPoll\<close>).
\<close>

section \<open>Steps\<close>

text \<open>
  One pass through \<open>while(1)\<close> in \<open>main\<close>, without the two calls into the stack
  (\<open>ENET_receive\<close>, \<open>sys_check_timeouts\<close>), whose callbacks are events of their own.
  \<open>rdr\<close> is the content of the UART data register when \<open>S1.RDRF\<close> is set. The first
  component says whether that byte was taken.
\<close>

definition main_loop_body :: "u8 option \<Rightarrow> dev \<Rightarrow> (bool \<times> dev) option" where
  "main_loop_body rdr s = do {
     (taken, s) \<leftarrow> (case rdr of None \<Rightarrow> Some (False, s) | Some d \<Rightarrow> ReadUARTdata d s);
     (r, b, buf, g) \<leftarrow> CircBuffRead (CircBuffTx s) (tx_buffer s) TX_BUFFER_SIZE (globals s);
     let g = (if r then g\<lparr>tx_flag := 1\<rparr> else g);
     let s = s\<lparr>CircBuffTx := b, tx_buffer := buf, globals := g\<rparr>;
     (r, b, buf, g) \<leftarrow> CircBuffRead4Uart (CircBuffRx s) (tx_uart s) UART_BUFFER_SIZE (globals s);
     Some (taken, s\<lparr>CircBuffRx := b, tx_uart := buf, globals := g\<rparr>) }"

text \<open>
  \<open>ReadInPoll\<close>: the block it passes to \<open>tcp_write\<close>, if it calls it. Reading more than
  \<open>tx_buffer\<close> holds is a fault. The result of \<open>tcp_write\<close> is not looked at.
\<close>

definition ReadInPoll :: "dev \<Rightarrow> (u8 list option \<times> dev) option" where
  "ReadInPoll s =
     (let g = globals s in
      if tx_flag g = 1 then do {
        c_assert (unat (tx_reduced_size g) \<le> length (tx_buffer s));
        Some (Some (take (unat (tx_reduced_size g)) (tx_buffer s)),
          s\<lparr>globals := g\<lparr>tx_reduced_size := TX_BUFFER_SIZE, tx_flag := 0,
                       tx_buff_ready_flag := True\<rparr>\<rparr>) }
      else Some (None, s\<lparr>globals := g\<lparr>tx_buff_ready_flag := True\<rparr>\<rparr>))"

text \<open>
  The inner loop of \<open>TCP_UART_send\<close>: every byte of a segment goes to
  \<open>CircBuffWrite(&CircBuffRx, _)\<close>, whose result is dropped.
\<close>

fun CircBuffWrite_all :: "CBuffer \<Rightarrow> u8 list \<Rightarrow> CBuffer option" where
  "CircBuffWrite_all b [] = Some b"
| "CircBuffWrite_all b (d # ds) = do {
     (_, b) \<leftarrow> CircBuffWrite b d; CircBuffWrite_all b ds }"

datatype dev_event =
    Loop "u8 option"         \<comment> \<open>a pass of the main loop\<close>
  | TimerIrq                 \<comment> \<open>PIT channel 0\<close>
  | Poll                     \<comment> \<open>\<open>ReadInPoll\<close> from \<open>echo_poll\<close>\<close>
  | TcpData "u8 list"        \<comment> \<open>bytes of a received segment\<close>

text \<open>
  A step also yields the bytes taken from the UART and the bytes handed to \<open>tcp_write\<close>.
\<close>

fun dev_step :: "dev_event \<Rightarrow> dev \<Rightarrow> (u8 list \<times> u8 list \<times> dev) option" where
  "dev_step (Loop rdr) s = do {
     (taken, s) \<leftarrow> main_loop_body rdr s;
     Some (case rdr of Some d \<Rightarrow> if taken then [d] else [] | None \<Rightarrow> [], [], s) }"
| "dev_step TimerIrq s = do { s \<leftarrow> PIT0_IRQHandler s; Some ([], [], s) }"
| "dev_step Poll s = do {
     (blk, s) \<leftarrow> ReadInPoll s;
     Some ([], case blk of None \<Rightarrow> [] | Some bs \<Rightarrow> bs, s) }"
| "dev_step (TcpData bs) s = do {
     b \<leftarrow> CircBuffWrite_all (CircBuffRx s) bs; Some ([], [], s\<lparr>CircBuffRx := b\<rparr>) }"

fun dev_run :: "dev_event list \<Rightarrow> dev \<Rightarrow> (u8 list \<times> u8 list \<times> dev) option" where
  "dev_run [] s = Some ([], [], s)"
| "dev_run (e # es) s = do {
     (acc, sent, s) \<leftarrow> dev_step e s;
     (acc', sent', s) \<leftarrow> dev_run es s;
     Some (acc @ acc', sent @ sent', s) }"

text \<open>
  The state \<open>main\<close> reaches before its loop: \<open>CircBuffInit\<close> and \<open>TO_Timer_init(10)\<close>
  over the zeroed static arrays.
\<close>

definition dev_boot :: "u32 \<Rightarrow> isr_fn pit \<Rightarrow> dev option" where
  "dev_boot freq p =
     (let (tx, rx) = CircBuffInit (replicate 100 0) (replicate 100 0) in
      TO_Timer_init 10 freq
        \<lparr> CircBuffTx = tx, CircBuffRx = rx, tx_buffer = replicate 10 0,
          tx_uart = replicate 8 0, globals = cb_globals_init, pit_dev = p \<rparr>)"

section \<open>Byte queues as an interface\<close>

locale byte_queue =
  fixes inv :: "'q \<Rightarrow> bool" and contents :: "'q \<Rightarrow> 'a list" and capacity :: nat
    and put :: "'q \<Rightarrow> 'a \<Rightarrow> (bool \<times> 'q) option"
  assumes put_law: "inv q \<Longrightarrow> \<exists>q'. put q x = Some (length (contents q) < capacity, q') \<and> inv q' \<and>
      contents q' = contents q @ (if length (contents q) < capacity then [x] else [])"
    and bound_law: "inv q \<Longrightarrow> length (contents q) \<le> capacity"
begin

primrec put_all :: "'q \<Rightarrow> 'a list \<Rightarrow> 'q option" where
  "put_all q [] = Some q"
| "put_all q (x # xs) = Option.bind (put q x) (\<lambda>(_, q'). put_all q' xs)"

text \<open>Writing a block appends what fits and drops the rest.\<close>

lemma put_all_spec:
  "inv q \<Longrightarrow> \<exists>q'. put_all q xs = Some q' \<and> inv q' \<and>
     contents q' = contents q @ take (capacity - length (contents q)) xs"
proof (induction xs arbitrary: q)
  case Nil
  then show ?case by simp
next
  case (Cons x xs)
  from put_law [OF Cons.prems, of x] obtain q1 where
    q1: "put q x = Some (length (contents q) < capacity, q1)" "inv q1"
    "contents q1 = contents q @ (if length (contents q) < capacity then [x] else [])"
    by blast
  from Cons.IH [OF q1(2)] obtain q2 where q2: "put_all q1 xs = Some q2" "inv q2"
    "contents q2 = contents q1 @ take (capacity - length (contents q1)) xs" by blast
  show ?case
  proof (cases "length (contents q) < capacity")
    case True
    then have "capacity - length (contents q) = Suc (capacity - length (contents q1))"
      using q1 by simp
    with q1 q2 True show ?thesis by simp
  next
    case False
    with q1 q2 show ?thesis by simp
  qed
qed

end

lemma CircBuffWrite_law:
  "cb_wf c b \<Longrightarrow> \<exists>b'. CircBuffWrite b x = Some (length (cb_contents b) < 100, b') \<and> cb_wf c b' \<and>
      cb_contents b' = cb_contents b @ (if length (cb_contents b) < 100 then [x] else [])"
proof (cases "unat (cb_size b) < 100")
  case True
  assume "cb_wf c b"
  from CircBuffWrite_room [OF this True, of x] True show ?thesis by auto
next
  case False
  assume wf: "cb_wf c b"
  with False have "unat (cb_size b) = 100" using cb_wfD(3) [OF wf] by simp
  with CircBuffWrite_full [OF wf this, of x] wf show ?thesis by simp
qed

interpretation ring: byte_queue "cb_wf c" cb_contents 100 CircBuffWrite for c
proof unfold_locales
  fix q x
  assume wf: "cb_wf c q"
  show "\<exists>q'. CircBuffWrite q x = Some (length (cb_contents q) < 100, q') \<and> cb_wf c q' \<and>
      cb_contents q' = cb_contents q @ (if length (cb_contents q) < 100 then [x] else [])"
    using wf by (rule CircBuffWrite_law)
  show "length (cb_contents q) \<le> 100"
    using cb_wfD(3) [OF wf] by simp
qed

lemma CircBuffWrite_all_eq: "CircBuffWrite_all b ds = ring.put_all b ds"
  by (induction ds arbitrary: b) (auto simp: case_prod_beta')

section \<open>UART to TCP: no byte lost, duplicated or reordered\<close>

definition pending :: "dev \<Rightarrow> u8 list" where
  "pending s = (if tx_flag (globals s) = 1
     then take (unat (tx_reduced_size (globals s))) (tx_buffer s) else [])"

definition dev_inv :: "dev \<Rightarrow> bool" where
  "dev_inv s \<longleftrightarrow> cb_wf 10 (CircBuffTx s) \<and> length (tx_buffer s) = 10 \<and>
     timeout_flag (globals s) \<in> {0, 1} \<and>
     (tx_flag (globals s) = 1 \<longrightarrow> \<not> tx_buff_ready_flag (globals s)) \<and>
     (if tx_flag (globals s) = 1 then unat (tx_reduced_size (globals s)) \<le> 10
      else tx_reduced_size (globals s) = 10)"

definition in_flight :: "dev \<Rightarrow> u8 list" where
  "in_flight s = pending s @ cb_contents (CircBuffTx s)"

lemma CircBuffRead_tx:
  assumes inv: "dev_inv s"
    and rd: "CircBuffRead (CircBuffTx s) (tx_buffer s) TX_BUFFER_SIZE (globals s) = Some (r, b, buf, g)"
    and s': "s' = s\<lparr>CircBuffTx := b, tx_buffer := buf,
        globals := (if r then g\<lparr>tx_flag := 1\<rparr> else g)\<rparr>"
  shows "dev_inv s' \<and> in_flight s' = in_flight s"
proof -
  let ?q = "cb_contents (CircBuffTx s)" and ?g = "globals s"
  have wf: "cb_wf 10 (CircBuffTx s)" and len: "length (tx_buffer s) = 10"
    using inv by (simp_all add: dev_inv_def)
  have ql: "length ?q \<le> 100" using cb_wfD(3) [OF wf] by simp
  from CircBuffRead_refines [OF wf, of TX_BUFFER_SIZE "tx_buffer s" ?g] len rd
  have wf': "cb_wf 10 b" and spec: "(r, cb_contents b, buf, g) = ring_read_spec ?q (tx_buffer s) 10 ?g"
    by (simp_all add: TX_BUFFER_SIZE_def)
  show ?thesis
  proof (cases r)
    case False
    with spec have "cb_contents b = ?q" "buf = tx_buffer s"
      "g = ?g \<or> g = ?g\<lparr>tx_buff_ready_flag := False\<rparr>"
      by (auto simp: ring_read_spec_def Let_def split: if_splits)
    with inv wf' s' False show ?thesis
      by (auto simp: dev_inv_def in_flight_def pending_def)
  next
    case True
    with spec have rdy: "tx_buff_ready_flag ?g" and ne: "?q \<noteq> []"
      and q': "cb_contents b = drop (min 10 (length ?q)) ?q"
      and buf: "buf = take (min 10 (length ?q)) ?q @ drop (min 10 (length ?q)) (tx_buffer s)"
      and g: "g = ?g\<lparr>tx_buff_ready_flag := False,
             timeout_flag := (if timeout_flag ?g = 1 then 0 else timeout_flag ?g),
             tx_reduced_size := (if length ?q < 10 then of_nat (length ?q)
                                 else tx_reduced_size ?g)\<rparr>"
      by (auto simp: ring_read_spec_def Let_def simp del: length_cb_contents split: if_splits)
    from rdy inv have idle: "tx_flag ?g \<noteq> 1" and red: "tx_reduced_size ?g = 10"
      by (auto simp: dev_inv_def)
    have n: "unat (tx_reduced_size g) = min 10 (length ?q)"
      using red ql by (simp add: g unat_of_nat_u16)
    have "in_flight s' = in_flight s"
      using n idle by (simp add: s' True in_flight_def pending_def buf q')
    moreover have "dev_inv s'"
      using inv wf' len n by (auto simp: dev_inv_def s' True g buf)
    ultimately show ?thesis by simp
  qed
qed

lemma CircBuffRead4Uart_globals:
  "CircBuffRead4Uart b dst len g = Some (r, b', dst', g') \<Longrightarrow> timeout_flag g \<in> {0, 1} \<Longrightarrow> g' = g"
  by (auto simp: CircBuffRead4Uart_def split: if_splits bind_splits)

lemma ReadUARTdata_inv:
  assumes "dev_inv s" "ReadUARTdata d s = Some (taken, s')"
  shows "dev_inv s' \<and> in_flight s' = in_flight s @ (if taken then [d] else [])"
proof -
  have wf: "cb_wf 10 (CircBuffTx s)" using assms(1) by (simp add: dev_inv_def)
  from CircBuffWrite_law [OF wf, of d] assms show ?thesis
    by (auto simp: ReadUARTdata_def dev_inv_def in_flight_def pending_def split: if_splits)
qed

lemma main_loop_body_inv:
  assumes inv: "dev_inv s" and run: "main_loop_body rdr s = Some (taken, s')"
  shows "dev_inv s' \<and> in_flight s' =
     in_flight s @ (case rdr of Some d \<Rightarrow> if taken then [d] else [] | None \<Rightarrow> [])"
proof -
  from run obtain s1 r b buf g r2 b2 buf2 g2 where
    s1: "(case rdr of None \<Rightarrow> Some (False, s) | Some d \<Rightarrow> ReadUARTdata d s) = Some (taken, s1)"
    and rd: "CircBuffRead (CircBuffTx s1) (tx_buffer s1) TX_BUFFER_SIZE (globals s1) = Some (r, b, buf, g)"
    and rd2: "CircBuffRead4Uart (CircBuffRx s1) (tx_uart s1) UART_BUFFER_SIZE
        (if r then g\<lparr>tx_flag := 1\<rparr> else g) = Some (r2, b2, buf2, g2)"
    and s': "s' = s1\<lparr>CircBuffTx := b, tx_buffer := buf,
        globals := (if r then g\<lparr>tx_flag := 1\<rparr> else g)\<rparr>\<lparr>CircBuffRx := b2, tx_uart := buf2, globals := g2\<rparr>"
    by (auto simp: main_loop_body_def Let_def split: bind_splits)
  have 1: "dev_inv s1 \<and> in_flight s1 =
     in_flight s @ (case rdr of Some d \<Rightarrow> if taken then [d] else [] | None \<Rightarrow> [])"
    using s1 inv ReadUARTdata_inv [OF inv] by (auto split: option.splits)
  let ?s2 = "s1\<lparr>CircBuffTx := b, tx_buffer := buf, globals := (if r then g\<lparr>tx_flag := 1\<rparr> else g)\<rparr>"
  have 2: "dev_inv ?s2 \<and> in_flight ?s2 = in_flight s1"
    using 1 by (intro CircBuffRead_tx [OF _ rd refl]) simp
  then have "g2 = globals ?s2"
    using CircBuffRead4Uart_globals [OF rd2] by (simp add: dev_inv_def)
  then have "dev_inv s' = dev_inv ?s2" "in_flight s' = in_flight ?s2"
    by (simp_all add: s' dev_inv_def in_flight_def pending_def)
  with 1 2 show ?thesis by simp
qed

lemma PIT0_IRQHandler_inv:
  assumes "dev_inv s" "PIT0_IRQHandler s = Some s'"
  shows "dev_inv s' \<and> in_flight s' = in_flight s"
  using assms
  by (auto simp: PIT0_IRQHandler_def PIT_IRQHandler_def TO_Timer_callbackIRQ_def c_def Let_def
      dev_inv_def in_flight_def pending_def split: option.splits isr_fn.splits if_splits)

lemma dev_step_inv:
  assumes "dev_inv s" "dev_step e s = Some (acc, sent, s')"
  shows "dev_inv s' \<and> in_flight s @ acc = sent @ in_flight s'"
proof (cases e)
  case (Loop rdr)
  with assms main_loop_body_inv [OF assms(1)] show ?thesis
    by (auto split: bind_splits)
next
  case TimerIrq
  with assms PIT0_IRQHandler_inv [OF assms(1)] show ?thesis
    by (auto split: bind_splits)
next
  case Poll
  with assms show ?thesis
    by (auto simp: ReadInPoll_def Let_def dev_inv_def in_flight_def pending_def c_def
        split: bind_splits if_splits)
next
  case (TcpData bs)
  with assms show ?thesis
    by (auto simp: dev_inv_def in_flight_def pending_def split: bind_splits)
qed

lemma dev_run_inv:
  "dev_inv s \<Longrightarrow> dev_run es s = Some (acc, sent, s') \<Longrightarrow>
   dev_inv s' \<and> in_flight s @ acc = sent @ in_flight s'"
proof (induction es arbitrary: s acc sent)
  case Nil
  then show ?case by simp
next
  case (Cons e es)
  from Cons.prems obtain a1 t1 s1 a2 t2 where
    st: "dev_step e s = Some (a1, t1, s1)" "dev_run es s1 = Some (a2, t2, s')"
    and "acc = a1 @ a2" "sent = t1 @ t2"
    by (auto split: bind_splits)
  with dev_step_inv [OF Cons.prems(1) st(1)] Cons.IH [of s1 a2 t2] show ?case
    by (metis append_assoc)
qed

lemma cb_wf_init: "cb_wf c \<lparr> cb_buf = replicate 100 0, cb_read = 0, cb_cap = CIRC_BUFF_SIZE,
   cb_size = 0, cb_windex = 0 \<rparr>"
  by (simp add: cb_wf_def c_def)

lemma dev_boot_inv:
  "dev_boot freq p = Some s \<Longrightarrow> dev_inv s \<and> in_flight s = [] \<and> cb_wf 8 (CircBuffRx s) \<and>
     cb_contents (CircBuffRx s) = [] \<and> cb_read (CircBuffRx s) = 0 \<and> length (tx_uart s) = 8"
  using cb_wf_init
  by (auto simp: dev_boot_def CircBuffInit_def TO_Timer_init_def dev_inv_def in_flight_def
      pending_def cb_contents_def cb_globals_init_def TX_BUFFER_SIZE_def split: bind_splits)


section \<open>The steps return\<close>

lemma CircBuffRead4Uart_small:
  "unat (cb_size b) < unat len \<Longrightarrow> timeout_flag g \<in> {0, 1} \<Longrightarrow>
   CircBuffRead4Uart b dst len g = Some (False, b, dst, g)"
  by (auto simp: CircBuffRead4Uart_def word_le_nat_alt)

lemma main_loop_body_tx_total:
  assumes inv: "dev_inv s"
  shows "\<exists>taken s1. (case rdr of None \<Rightarrow> Some (False, s) | Some d \<Rightarrow> ReadUARTdata d s) = Some (taken, s1)
     \<and> dev_inv s1 \<and> CircBuffRx s1 = CircBuffRx s \<and> tx_uart s1 = tx_uart s \<and>
     (\<exists>r b buf g. CircBuffRead (CircBuffTx s1) (tx_buffer s1) TX_BUFFER_SIZE (globals s1) = Some (r, b, buf, g))"
proof -
  have wf: "cb_wf 10 (CircBuffTx s)" using inv by (simp add: dev_inv_def)
  have "\<exists>taken s1. (case rdr of None \<Rightarrow> Some (False, s) | Some d \<Rightarrow> ReadUARTdata d s) = Some (taken, s1)
     \<and> CircBuffRx s1 = CircBuffRx s \<and> tx_uart s1 = tx_uart s"
  proof (cases rdr)
    case None
    then show ?thesis by auto
  next
    case (Some d)
    from CircBuffWrite_law [OF wf, of d] obtain b' where
      "CircBuffWrite (CircBuffTx s) d = Some (length (cb_contents (CircBuffTx s)) < 100, b')" by blast
    with Some show ?thesis by (simp add: ReadUARTdata_def)
  qed
  then obtain taken s1 where s1:
    "(case rdr of None \<Rightarrow> Some (False, s) | Some d \<Rightarrow> ReadUARTdata d s) = Some (taken, s1)"
    "CircBuffRx s1 = CircBuffRx s" "tx_uart s1 = tx_uart s" by blast
  then have inv1: "dev_inv s1"
    using inv ReadUARTdata_inv [OF inv] by (auto split: option.splits)
  then have "\<exists>r b buf g. CircBuffRead (CircBuffTx s1) (tx_buffer s1) TX_BUFFER_SIZE (globals s1) = Some (r, b, buf, g)"
    using CircBuffRead_refines [of 10 "CircBuffTx s1" TX_BUFFER_SIZE "tx_buffer s1" "globals s1"]
    by (auto simp: dev_inv_def TX_BUFFER_SIZE_def)
  with s1 inv1 show ?thesis by blast
qed

lemma main_loop_body_eq:
  assumes inv: "dev_inv s"
  shows "\<exists>taken s2. dev_inv s2 \<and> CircBuffRx s2 = CircBuffRx s \<and> tx_uart s2 = tx_uart s \<and>
     main_loop_body rdr s = do {
       (r, b, buf, g) \<leftarrow> CircBuffRead4Uart (CircBuffRx s) (tx_uart s) UART_BUFFER_SIZE (globals s2);
       Some (taken, s2\<lparr>CircBuffRx := b, tx_uart := buf, globals := g\<rparr>) }"
proof -
  from main_loop_body_tx_total [OF inv, of rdr] obtain taken s1 r b buf g where 1:
    "(case rdr of None \<Rightarrow> Some (False, s) | Some d \<Rightarrow> ReadUARTdata d s) = Some (taken, s1)"
    "dev_inv s1" "CircBuffRx s1 = CircBuffRx s" "tx_uart s1 = tx_uart s"
    "CircBuffRead (CircBuffTx s1) (tx_buffer s1) TX_BUFFER_SIZE (globals s1) = Some (r, b, buf, g)"
    by blast
  let ?s2 = "s1\<lparr>CircBuffTx := b, tx_buffer := buf, globals := (if r then g\<lparr>tx_flag := 1\<rparr> else g)\<rparr>"
  have "dev_inv ?s2" using CircBuffRead_tx [OF 1(2,5) refl] by simp
  moreover have "main_loop_body rdr s = do {
       (r, b, buf, g) \<leftarrow> CircBuffRead4Uart (CircBuffRx s) (tx_uart s) UART_BUFFER_SIZE (globals ?s2);
       Some (taken, ?s2\<lparr>CircBuffRx := b, tx_uart := buf, globals := g\<rparr>) }"
    using 1 by (simp add: main_loop_body_def Let_def)
  ultimately show ?thesis using 1(3,4) by (intro exI [of _ taken] exI [of _ ?s2]) simp
qed

lemma dev_step_total:
  assumes inv: "dev_inv s" and idle: "cb_size (CircBuffRx s) = 0" and e: "\<forall>bs. e \<noteq> TcpData bs"
  shows "\<exists>acc sent s'. dev_step e s = Some (acc, sent, s') \<and> dev_inv s' \<and> cb_size (CircBuffRx s') = 0"
proof (cases e)
  case (Loop rdr)
  from main_loop_body_eq [OF inv, of rdr] obtain taken s2 where 2: "dev_inv s2"
    "CircBuffRx s2 = CircBuffRx s" "tx_uart s2 = tx_uart s"
    "main_loop_body rdr s = do {
       (r, b, buf, g) \<leftarrow> CircBuffRead4Uart (CircBuffRx s) (tx_uart s) UART_BUFFER_SIZE (globals s2);
       Some (taken, s2\<lparr>CircBuffRx := b, tx_uart := buf, globals := g\<rparr>) }" by blast
  have "CircBuffRead4Uart (CircBuffRx s) (tx_uart s) UART_BUFFER_SIZE (globals s2) =
      Some (False, CircBuffRx s, tx_uart s, globals s2)"
    using idle 2(1) by (intro CircBuffRead4Uart_small) (simp_all add: UART_BUFFER_SIZE_def dev_inv_def)
  with 2 idle main_loop_body_inv [OF inv] Loop show ?thesis by simp
next
  case TimerIrq
  then have "\<exists>s'. PIT0_IRQHandler s = Some s' \<and> CircBuffRx s' = CircBuffRx s"
    by (auto simp: PIT0_IRQHandler_def PIT_IRQHandler_def TO_Timer_callbackIRQ_def c_def Let_def
        split: option.splits isr_fn.splits)
  with TimerIrq idle PIT0_IRQHandler_inv [OF inv] show ?thesis by auto
next
  case Poll
  have "\<exists>blk s'. ReadInPoll s = Some (blk, s') \<and> CircBuffRx s' = CircBuffRx s"
    using inv by (auto simp: ReadInPoll_def Let_def dev_inv_def)
  with Poll idle dev_step_inv [OF inv, of Poll] show ?thesis by auto
next
  case (TcpData bs)
  with e show ?thesis by simp
qed

lemma dev_run_total:
  "dev_inv s \<Longrightarrow> cb_size (CircBuffRx s) = 0 \<Longrightarrow> \<forall>e \<in> set es. \<forall>bs. e \<noteq> TcpData bs \<Longrightarrow>
   \<exists>acc sent s'. dev_run es s = Some (acc, sent, s')"
proof (induction es arbitrary: s)
  case Nil
  then show ?case by simp
next
  case (Cons e es)
  from Cons.prems have "\<forall>bs. e \<noteq> TcpData bs" by simp
  from dev_step_total [OF Cons.prems(1,2) this] obtain a t s1 where
    1: "dev_step e s = Some (a, t, s1)" "dev_inv s1" "cb_size (CircBuffRx s1) = 0" by blast
  with Cons.IH [OF 1(2,3)] Cons.prems(3) show ?case by fastforce
qed

section \<open>TCP to UART\<close>

definition rx_rounds :: "u8 list list \<Rightarrow> dev_event list" where
  "rx_rounds chunks = concat (map (\<lambda>c. [TcpData c, Loop None]) chunks)"

definition rx_ready :: "nat \<Rightarrow> dev \<Rightarrow> bool" where
  "rx_ready k s \<longleftrightarrow> dev_inv s \<and> cb_wf 8 (CircBuffRx s) \<and> cb_contents (CircBuffRx s) = [] \<and>
     cb_read (CircBuffRx s) = 8 * k \<and> length (tx_uart s) = 8"

lemma rx_fill:
  assumes "rx_ready k s" "length c = 8"
  shows "\<exists>s1. dev_step (TcpData c) s = Some ([], [], s1) \<and> dev_inv s1 \<and> cb_wf 8 (CircBuffRx s1) \<and>
     cb_contents (CircBuffRx s1) = c \<and> cb_read (CircBuffRx s1) = 8 * k \<and> tx_uart s1 = tx_uart s"
proof -
  have keep: "CircBuffWrite_all b ds = Some b' \<Longrightarrow> cb_read b' = cb_read b" for b b' ds
    by (induction ds arbitrary: b) (auto simp: CircBuffWrite_def Let_def split: bind_splits if_splits)
  from assms ring.put_all_spec [of 8 "CircBuffRx s" c] obtain b where
    b: "CircBuffWrite_all (CircBuffRx s) c = Some b" "cb_wf 8 b" "cb_contents b = c"
    by (auto simp: rx_ready_def CircBuffWrite_all_eq)
  with assms keep [OF b(1)] show ?thesis
    by (auto simp: rx_ready_def dev_inv_def)
qed

lemma rx_drain:
  assumes inv: "dev_inv s1" and wf: "cb_wf 8 (CircBuffRx s1)" and len: "length (cb_contents (CircBuffRx s1)) = 8"
    and rd: "cb_read (CircBuffRx s1) = 8 * k" and uart: "length (tx_uart s1) = 8"
  shows "k < 12 \<Longrightarrow> \<exists>s'. dev_step (Loop None) s1 = Some ([], [], s') \<and> rx_ready (Suc k) s' \<and>
       tx_uart s' = cb_contents (CircBuffRx s1)"
    and "k = 12 \<Longrightarrow> dev_step (Loop None) s1 = None"
proof -
  let ?b = "CircBuffRx s1"
  from main_loop_body_eq [OF inv, of None] obtain taken s2 where 2: "dev_inv s2"
    "main_loop_body None s1 = do {
       (r, b, buf, g) \<leftarrow> CircBuffRead4Uart ?b (tx_uart s1) UART_BUFFER_SIZE (globals s2);
       Some (taken, s2\<lparr>CircBuffRx := b, tx_uart := buf, globals := g\<rparr>) }" by blast
  have size: "unat (cb_size ?b) = 8" using len by simp
  have rd4: "CircBuffRead4Uart ?b (tx_uart s1) UART_BUFFER_SIZE (globals s2) = do {
        (b', dst') \<leftarrow> cb_copy_full ?b (tx_uart s1) UART_BUFFER_SIZE;
        Some (True, b', dst', globals s2) }"
    using size 2(1) by (auto simp: CircBuffRead4Uart_def dev_inv_def UART_BUFFER_SIZE_def word_le_nat_alt)
  {
    assume k: "k < 12"
    from cb_copy_full_spec [OF wf, of UART_BUFFER_SIZE "tx_uart s1"] obtain b' where
      "cb_copy_full ?b (tx_uart s1) UART_BUFFER_SIZE = Some (b', cb_contents ?b)"
      "cb_wf 8 b'" "cb_contents b' = []"
      using size uart k rd by (auto simp: UART_BUFFER_SIZE_def)
    moreover from this(1) have "cb_read b' = 8 * Suc k"
      using rd k cb_wfD(2) [OF wf]
      by (auto simp: cb_copy_full_def cb_wrap_read_def UART_BUFFER_SIZE_def split: bind_splits if_splits)
    ultimately show "\<exists>s'. dev_step (Loop None) s1 = Some ([], [], s') \<and> rx_ready (Suc k) s' \<and>
       tx_uart s' = cb_contents ?b"
      using 2 rd4 len by (simp add: rx_ready_def dev_inv_def)
  next
    assume k: "k = 12"
    have "cb_copy_full ?b (tx_uart s1) UART_BUFFER_SIZE = None"
      using rd k uart cb_wfD(1) [OF wf] by (simp add: cb_copy_full_def UART_BUFFER_SIZE_def)
    with 2(2) rd4 show "dev_step (Loop None) s1 = None" by simp
  }
qed

lemma rx_round:
  assumes "rx_ready k s" "length c = 8"
  shows "k < 12 \<Longrightarrow> \<exists>s'. rx_ready (Suc k) s' \<and> tx_uart s' = c \<and>
       (\<forall>es. dev_run (TcpData c # Loop None # es) s = dev_run es s')"
    and "k = 12 \<Longrightarrow> dev_run (TcpData c # Loop None # es) s = None"
proof -
  from rx_fill [OF assms] obtain s1 where s1: "dev_step (TcpData c) s = Some ([], [], s1)"
    "dev_inv s1" "cb_wf 8 (CircBuffRx s1)" "cb_contents (CircBuffRx s1) = c"
    "cb_read (CircBuffRx s1) = 8 * k" "tx_uart s1 = tx_uart s" by blast
  note drain = rx_drain [OF s1(2,3) _ s1(5)]
  have len: "length (cb_contents (CircBuffRx s1)) = 8" "length (tx_uart s1) = 8"
    using s1 assms by (simp_all add: rx_ready_def)
  show "\<exists>s'. rx_ready (Suc k) s' \<and> tx_uart s' = c \<and>
       (\<forall>es. dev_run (TcpData c # Loop None # es) s = dev_run es s')" if k: "k < 12"
  proof -
    from drain(1) [OF len k] obtain s' where "dev_step (Loop None) s1 = Some ([], [], s')"
      "rx_ready (Suc k) s'" "tx_uart s' = c" using s1(4) by blast
    moreover from this(1) have "dev_run (TcpData c # Loop None # es) s = dev_run es s'" for es
      using s1(1) by (cases "dev_run es s'") (auto simp del: dev_step.simps)
    ultimately show ?thesis by blast
  qed
  show "dev_run (TcpData c # Loop None # es) s = None" if k: "k = 12"
    using drain(2) [OF len k] s1(1) by (simp del: dev_step.simps)
qed

lemma rx_rounds_ok:
  "rx_ready k s \<Longrightarrow> \<forall>c \<in> set chunks. length c = 8 \<Longrightarrow> k + length chunks \<le> 12 \<Longrightarrow>
   \<exists>s'. rx_ready (k + length chunks) s' \<and> (chunks \<noteq> [] \<longrightarrow> tx_uart s' = last chunks) \<and>
     (\<forall>es. dev_run (rx_rounds chunks @ es) s = dev_run es s')"
proof (induction chunks arbitrary: k s)
  case Nil
  then show ?case by (auto simp: rx_rounds_def)
next
  case (Cons c cs)
  from Cons.prems have "length c = 8" "k < 12" by auto
  from rx_round(1) [OF Cons.prems(1) this] obtain s1 where s1: "rx_ready (Suc k) s1"
    "tx_uart s1 = c" "\<And>es. dev_run (TcpData c # Loop None # es) s = dev_run es s1" by blast
  from Cons.IH [OF s1(1)] Cons.prems obtain s' where
    "rx_ready (Suc k + length cs) s'" "cs \<noteq> [] \<longrightarrow> tx_uart s' = last cs"
    "\<And>es. dev_run (rx_rounds cs @ es) s1 = dev_run es s'" by auto
  moreover have "rx_rounds (c # cs) = TcpData c # Loop None # rx_rounds cs"
    by (simp add: rx_rounds_def)
  ultimately show ?case using s1 by (cases "cs = []") (auto simp: rx_rounds_def)
qed

lemma rx_rounds_snoc: "rx_rounds (cs @ [c]) = rx_rounds cs @ [TcpData c, Loop None]"
  by (simp add: rx_rounds_def)

lemma rx_rounds_overrun:
  assumes "rx_ready 0 s" "\<forall>c \<in> set chunks. length c = 8" "length chunks = 13"
  shows "dev_run (rx_rounds chunks) s = None"
proof -
  from assms(3) have ne: "chunks \<noteq> []" by auto
  from rx_rounds_ok [OF assms(1), of "butlast chunks"] assms(2,3) obtain s' where
    s': "rx_ready 12 s'" "\<And>es. dev_run (rx_rounds (butlast chunks) @ es) s = dev_run es s'"
    by (auto dest: in_set_butlastD)
  have "rx_rounds chunks = rx_rounds (butlast chunks) @ [TcpData (last chunks), Loop None]"
    using rx_rounds_snoc [of "butlast chunks" "last chunks"] ne by simp
  then show ?thesis
    using s' rx_round(2) [OF s'(1), of "last chunks" "[]"] assms(2) ne by simp
qed

section \<open>Flushing a partial block\<close>


definition pit_reset :: "isr_fn pit" where
  "pit_reset = \<lparr> pit_gate = False, pit_mdis = True, pit_frz = False, pit_ldval = (\<lambda>_. 0),
     pit_ten = (\<lambda>_. False), pit_tie = (\<lambda>_. False), pit_chn = (\<lambda>_. False), pit_tif = (\<lambda>_. False),
     pit_nvic = (\<lambda>_. False), pitSourceClock = 0, pitIsrCallbackTable = (\<lambda>_. None) \<rparr>"

lemma dev_boot_total: "\<exists>s. dev_boot freq p = Some s"
  by (simp add: dev_boot_def CircBuffInit_def TO_Timer_init_def PIT_DRV_Init_def
      PIT_DRV_InitChannel_def PIT_DRV_SetTimerPeriodByUs_def PIT_DRV_InstallCallback_def
      PIT_INSTANCE_def c_def)

lemma dev_run_append_None: "dev_run es s = None \<Longrightarrow> dev_run (es @ fs) s = None"
  by (induction es arbitrary: s) (auto split: bind_splits)

lemma dev_boot_ready: "dev_boot freq p = Some s \<Longrightarrow> rx_ready 0 s"
  using dev_boot_inv [of freq p s] by (simp add: rx_ready_def)

section \<open>Properties\<close>

text \<open>C1: every byte taken from the UART data register is given to \<open>tcp_write\<close> exactly
  once and in the order of arrival: after any sequence of main loop passes, timer
  interrupts, polls and received segments, what was taken is what was handed over,
  followed by the block waiting in \<open>tx_buffer\<close> and the content of the ring.\<close>

theorem uart_to_tcp_in_order:
  assumes "dev_boot freq p = Some s0" and "dev_run es s0 = Some (acc, sent, s)"
  shows "acc = sent @ pending s @ cb_contents (CircBuffTx s)"
  using dev_run_inv [of s0 es acc sent s] dev_boot_inv [OF assms(1)] assms(2)
  by (simp add: in_flight_def)

theorem uart_to_tcp_in_order_witness:
  "\<exists>s0 acc sent s. dev_boot 60000000 pit_reset = Some s0 \<and>
     dev_run [Loop (Some 65), Loop (Some 66), TimerIrq, Poll, Loop None, Poll] s0 =
       Some (acc, sent, s) \<and> acc = sent @ pending s @ cb_contents (CircBuffTx s)"
proof -
  obtain s0 where s0: "dev_boot 60000000 pit_reset = Some s0" using dev_boot_total by blast
  let ?es = "[Loop (Some 65), Loop (Some 66), TimerIrq, Poll, Loop None, Poll]"
  have "cb_size (CircBuffRx s0) = 0"
    using dev_boot_inv [OF s0] by (simp add: cb_contents_def unat_eq_zero)
  then obtain acc sent s where "dev_run ?es s0 = Some (acc, sent, s)"
    using dev_run_total [of s0 ?es] dev_boot_inv [OF s0] by auto
  with s0 uart_to_tcp_in_order [OF s0 this] show ?thesis by blast
qed



text \<open>C2: the TCP to UART direction works for twelve blocks of eight bytes and then reads
  outside its array: 8 does not divide the ring's 100 bytes, and \<open>CircBuffRead4Uart\<close>
  copies a whole block from offset 96. Delivering blocks of eight bytes, each drained by a
  pass of the main loop, faults exactly from the thirteenth block on.\<close>

theorem rx_ring_overrun:
  assumes "dev_boot freq p = Some s" and "\<forall>c \<in> set chunks. length c = 8"
  shows "dev_run (rx_rounds chunks) s = None \<longleftrightarrow> 13 \<le> length chunks"
proof
  assume "13 \<le> length chunks"
  moreover have "rx_rounds chunks = rx_rounds (take 13 chunks) @ rx_rounds (drop 13 chunks)"
    by (simp add: rx_rounds_def flip: concat_append map_append)
  ultimately show "dev_run (rx_rounds chunks) s = None"
    using rx_rounds_overrun [OF dev_boot_ready [OF assms(1)], of "take 13 chunks"] assms(2)
    by (auto intro!: dev_run_append_None dest: in_set_takeD)
next
  assume "dev_run (rx_rounds chunks) s = None"
  with rx_rounds_ok [OF dev_boot_ready [OF assms(1)] assms(2)]
  show "13 \<le> length chunks" by (metis append_Nil2 dev_run.simps(1) add_0 not_less_eq_eq
      option.distinct(1) eval_nat_numeral(3) numeral_eq_Suc pred_numeral_simps(2,3) linorder_not_le less_Suc_eq_le)
qed

theorem rx_ring_overrun_witness:
  "\<exists>s. dev_boot 60000000 pit_reset = Some s \<and> dev_run (rx_rounds (replicate 13 (replicate 8 7))) s = None"
proof -
  obtain s where s: "dev_boot 60000000 pit_reset = Some s" using dev_boot_total by blast
  from rx_ring_overrun [OF s, of "replicate 13 (replicate 8 7)"] s show ?thesis by auto
qed

text \<open>the idle timer period is the configured number of milliseconds of the PIT source
  clock, with no overflow for any 8-bit setting and any 32-bit clock of at least 1 kHz, and
  the channel's interrupt reaches \<open>TO_Timer_callbackIRQ\<close>.\<close>

theorem TO_Timer_init_period:
  assumes "0 < timeout_ms" and "1000 \<le> freq"
  shows "\<exists>s'. TO_Timer_init timeout_ms freq s = Some s' \<and>
     unat (pit_ldval (pit_dev s') 0) + 1 = unat timeout_ms * unat freq div 1000 \<and>
     pit_tie (pit_dev s') 0 \<and> pit_nvic (pit_dev s') 0 \<and>
     PIT_IRQHandler 0 (pit_dev s') =
       Some (Some TO_Timer_callbackIRQ_fn, (pit_dev s')\<lparr>pit_tif := (pit_tif (pit_dev s'))(0 := False)\<rparr>)"
proof -
  let ?us = "1000 * ucast timeout_ms :: u32"
  let ?p = "PIT_HAL_SetTimerRunInDebugCmd True (PIT_HAL_Enable (pit_dev s\<lparr>pit_gate := True\<rparr>))
     \<lparr>pitSourceClock := ucast freq\<rparr>"
  have us: "unat ?us = 1000 * unat timeout_ms"
    using unat_u8_lt [of timeout_ms] by (simp add: unat_word_ariths unat_ucast_mod)
  have clk: "unat (pitSourceClock ?p) = unat freq"
    using unat_u32_lt [of freq] by (simp add: unat_ucast_mod)
  have pos: "1 \<le> unat timeout_ms" "1000 \<le> unat freq"
    using assms by (simp_all add: word_less_nat_alt word_le_nat_alt)
  have quo: "unat ?us * unat (pitSourceClock ?p) div 1000000 = unat timeout_ms * unat freq div 1000"
    unfolding us clk by (simp add: ac_simps flip: div_mult2_eq [of _ 1000 1000])
  have lo: "1000000 \<le> unat ?us * unat (pitSourceClock ?p)"
    using mult_le_mono [OF pos] unfolding us clk by (simp add: mult.commute)
  have "unat timeout_ms * unat freq \<le> 256 * 4294967296"
    using unat_u8_lt [of timeout_ms] unat_u32_lt [of freq] by (intro mult_le_mono) simp_all
  then have hi: "unat ?us * unat (pitSourceClock ?p) div 1000000 \<le> 4294967296"
    unfolding quo by simp
  from PIT_DRV_SetTimerPeriodByUs_count [OF _ lo hi, of 0] obtain p' where
    p': "PIT_DRV_SetTimerPeriodByUs 0 0 ?us ?p = Some p'"
    "unat (pit_ldval p' 0) + 1 = unat timeout_ms * unat freq div 1000"
    using quo by auto
  then show ?thesis
    by (simp add: TO_Timer_init_def PIT_DRV_Init_def PIT_DRV_InitChannel_def Let_def PIT_INSTANCE_def
        PIT_DRV_InstallCallback_def PIT_IRQHandler_def c_def)
qed


theorem TO_Timer_init_period_witness:
  "\<exists>s0 s'. TO_Timer_init 10 60000000 s0 = Some s' \<and> unat (pit_ldval (pit_dev s') 0) + 1 = 600000"
proof -
  from TO_Timer_init_period [of 10 60000000] obtain s' where
    "TO_Timer_init 10 60000000 undefined = Some s'" "unat (pit_ldval (pit_dev s') 0) + 1 = 600000"
    by auto
  then show ?thesis by blast
qed


text \<open>a received segment is appended to the ring as far as it fits: the first
  \<open>100 - size\<close> bytes are queued in order, and the rest is dropped without any error, since
  \<open>TCP_UART_send\<close> does not look at the result of \<open>CircBuffWrite\<close>.\<close>

theorem segment_truncated_to_room:
  assumes "cb_wf c b"
  shows "\<exists>b'. CircBuffWrite_all b ds = Some b' \<and> cb_wf c b' \<and>
     cb_contents b' = cb_contents b @ take (100 - length (cb_contents b)) ds"
  using ring.put_all_spec [OF assms] by (simp add: CircBuffWrite_all_eq)

theorem segment_truncated_to_room_witness:
  "\<exists>b'. CircBuffWrite_all (fst (CircBuffInit (replicate 100 0) (replicate 100 0))) (replicate 103 9) = Some b' \<and>
     cb_contents b' = replicate 100 9"
  using segment_truncated_to_room [OF cb_wf_init [of 8], of "replicate 103 9"]
  by (auto simp: CircBuffInit_def cb_contents_def)

text \<open>C4: reading a block of \<open>c\<close> bytes from a well-formed ring, \<open>c\<close> a divisor of its 100
  bytes, never leaves the array and is the queue operation: when the reader is ready it
  yields the oldest \<open>c\<close> bytes, or all of a shorter queue once the idle timer has expired,
  records a short length, and otherwise leaves the queue alone.\<close>

theorem CircBuffRead_is_queue_read:
  assumes "cb_wf c b" "unat len = c" "0 < c" "c dvd 100" "c \<le> length dst"
  shows "\<exists>r b' dst' g'. CircBuffRead b dst len g = Some (r, b', dst', g') \<and> cb_wf c b' \<and>
     (r, cb_contents b', dst', g') = ring_read_spec (cb_contents b) dst c g"
  using assms by (rule CircBuffRead_refines)

theorem CircBuffRead_is_queue_read_witness:
  "\<exists>r b' dst' g'. CircBuffRead (fst (CircBuffInit (replicate 100 0) (replicate 100 0)))
       (replicate 10 0) TX_BUFFER_SIZE cb_globals_init = Some (r, b', dst', g') \<and>
     \<not> r \<and> cb_contents b' = []"
  using CircBuffRead_is_queue_read [OF cb_wf_init [of 10], of TX_BUFFER_SIZE "replicate 10 0" cb_globals_init]
  by (auto simp: CircBuffInit_def TX_BUFFER_SIZE_def ring_read_spec_def cb_globals_init_def
      cb_contents_def)

end
