(* ===== verification/Allocator.thy ===== *)
theory Allocator
  imports Prelude
begin

text \<open>
  The contract of the two allocators of the stack, the pools of \<open>memp.c\<close> and the heap of
  \<open>mem.c\<close>: what their clients (the pbufs, the timers, the connections) rely on.
\<close>

section \<open>Allocators\<close>

locale allocator =
  fixes inv :: "'s \<Rightarrow> bool" and live :: "'s \<Rightarrow> 'a set"
    and alloc :: "'s \<Rightarrow> ('a option \<times> 's) option"
    and release :: "'a \<Rightarrow> 's \<Rightarrow> 's option"
  assumes alloc_law: "inv s \<Longrightarrow> \<exists>r s'. alloc s = Some (r, s') \<and> inv s' \<and>
      (case r of None \<Rightarrow> live s' = live s | Some a \<Rightarrow> a \<notin> live s \<and> live s' = insert a (live s))"
    and release_law: "inv s \<Longrightarrow> a \<in> live s \<Longrightarrow>
      \<exists>s'. release a s = Some s' \<and> inv s' \<and> live s' = live s - {a}"
begin

text \<open>\<open>n\<close> allocations in a row, and the release of a list of blocks.\<close>

fun alloc_n :: "nat \<Rightarrow> 's \<Rightarrow> ('a list \<times> 's) option" where
  "alloc_n 0 s = Some ([], s)"
| "alloc_n (Suc n) s = Option.bind (alloc s) (\<lambda>(r, s).
     case r of None \<Rightarrow> alloc_n n s
     | Some a \<Rightarrow> Option.bind (alloc_n n s) (\<lambda>(as, s). Some (a # as, s)))"

fun release_all :: "'a list \<Rightarrow> 's \<Rightarrow> 's option" where
  "release_all [] s = Some s"
| "release_all (a # as) s = Option.bind (release a s) (release_all as)"

text \<open>Blocks handed out are distinct from each other and from every live block.\<close>

lemma alloc_n_spec:
  "inv s \<Longrightarrow> \<exists>as s'. alloc_n n s = Some (as, s') \<and> inv s' \<and> distinct as \<and> length as \<le> n \<and>
     set as \<inter> live s = {} \<and> live s' = live s \<union> set as"
proof (induction n arbitrary: s)
  case 0
  then show ?case by simp
next
  case (Suc n)
  from alloc_law [OF Suc.prems] obtain r s1 where s1: "alloc s = Some (r, s1)" "inv s1"
    "case r of None \<Rightarrow> live s1 = live s | Some a \<Rightarrow> a \<notin> live s \<and> live s1 = insert a (live s)" by blast
  from Suc.IH [OF s1(2)] obtain as s2 where s2: "alloc_n n s1 = Some (as, s2)" "inv s2" "distinct as"
    "length as \<le> n" "set as \<inter> live s1 = {}" "live s2 = live s1 \<union> set as" by blast
  show ?case
  proof (cases r)
    case None
    then have "alloc_n (Suc n) s = Some (as, s2)" using s1 s2 by simp
    then show ?thesis using None s1 s2 by auto
  next
    case (Some a)
    then have "alloc_n (Suc n) s = Some (a # as, s2)" using s1 s2 by simp
    then show ?thesis using Some s1 s2 by auto
  qed
qed

lemma release_all_spec:
  "inv s \<Longrightarrow> distinct as \<Longrightarrow> set as \<subseteq> live s \<Longrightarrow>
   \<exists>s'. release_all as s = Some s' \<and> inv s' \<and> live s' = live s - set as"
proof (induction as arbitrary: s)
  case Nil
  then show ?case by simp
next
  case (Cons a as)
  then have "a \<in> live s" by simp
  from release_law [OF Cons.prems(1) this] obtain s1 where s1: "release a s = Some s1" "inv s1"
    "live s1 = live s - {a}" by blast
  moreover from this Cons.prems have "set as \<subseteq> live s1" by auto
  ultimately show ?case using Cons.IH [OF s1(2)] Cons.prems(2) by force
qed

text \<open>Whatever was allocated can be released again, in any order, and nothing else changes.\<close>

lemma alloc_release:
  assumes "inv s" "alloc_n n s = Some (as, s')" "distinct bs" "set bs = set as"
  shows "\<exists>s''. release_all bs s' = Some s'' \<and> inv s'' \<and> live s'' = live s"
proof -
  from alloc_n_spec [OF assms(1), of n] assms(2) have
    "inv s'" "set as \<inter> live s = {}" "live s' = live s \<union> set as" by auto
  with release_all_spec [of s' bs] assms(3,4) show ?thesis by force
qed

end

section \<open>Pools of a fixed capacity\<close>

locale pool_allocator = allocator +
  fixes capacity :: nat
  assumes finite_live: "inv s \<Longrightarrow> finite (live s)"
    and alloc_room: "inv s \<Longrightarrow> alloc s = Some (r, s') \<Longrightarrow> r = None \<longleftrightarrow> card (live s) \<ge> capacity"
    and live_bound: "inv s \<Longrightarrow> card (live s) \<le> capacity"
begin

text \<open>Exactly the free elements can be allocated, no fewer and no more.\<close>

lemma alloc_n_room:
  "inv s \<Longrightarrow> alloc_n n s = Some (as, s') \<Longrightarrow> length as = min n (capacity - card (live s))"
proof (induction n arbitrary: s as)
  case 0
  then show ?case by simp
next
  case (Suc n)
  from alloc_law [OF Suc.prems(1)] obtain r s1 where s1: "alloc s = Some (r, s1)" "inv s1"
    "case r of None \<Rightarrow> live s1 = live s | Some a \<Rightarrow> a \<notin> live s \<and> live s1 = insert a (live s)" by blast
  show ?case
  proof (cases r)
    case None
    with s1 Suc.prems have "alloc_n n s1 = Some (as, s')" by simp
    with Suc.IH [OF s1(2)] s1 None alloc_room [OF Suc.prems(1) s1(1)] show ?thesis by simp
  next
    case (Some a)
    with s1 Suc.prems obtain as1 where as1: "alloc_n n s1 = Some (as1, s')" "as = a # as1"
      by (auto split: bind_splits)
    have "card (live s1) = Suc (card (live s))"
      using Some s1(3) finite_live [OF Suc.prems(1)] by simp
    moreover have "card (live s) < capacity"
      using Some alloc_room [OF Suc.prems(1) s1(1)] by simp
    ultimately show ?thesis using Suc.IH [OF s1(2) as1(1)] as1(2) by simp
  qed
qed

end

end
