(* ===== verification/Memp.thy ===== *)
theory Memp
  imports Allocator
begin

text \<open>
  The fixed-size pools of \<open>core/memp.c\<close>, one per \<open>LWIP_MEMPOOL\<close> line of \<open>memp_std.h\<close> in
  this configuration. An element is its byte address in \<open>memp_memory\<close>; the \<open>next\<close> field that
  a free element holds is a map from addresses, with \<^term>\<open>None\<close> for \<open>NULL\<close>. The element
  sizes are \<open>sizeof\<close> values of the target and a parameter.
\<close>

section \<open>Pools\<close>

type_synonym memp_t = nat

definition MEMP_MAX :: nat where "MEMP_MAX = 10"
definition MEM_ALIGNMENT :: nat where "MEM_ALIGNMENT = 4"

definition MEMP_TCP_PCB :: memp_t where "MEMP_TCP_PCB = 2"
definition MEMP_TCP_SEG :: memp_t where "MEMP_TCP_SEG = 4"
definition MEMP_SYS_TIMEOUT :: memp_t where "MEMP_SYS_TIMEOUT = 7"
definition MEMP_PBUF :: memp_t where "MEMP_PBUF = 8"
definition MEMP_PBUF_POOL :: memp_t where "MEMP_PBUF_POOL = 9"

text \<open>
  \<open>memp_num\<close>: RAW_PCB, UDP_PCB, TCP_PCB, TCP_PCB_LISTEN, TCP_SEG, REASSDATA, FRAG_PBUF,
  SYS_TIMEOUT, PBUF, PBUF_POOL.
\<close>

definition memp_num :: "nat list" where
  "memp_num = [4, 6, 10, 6, 12, 5, 15, 10, 10, 10]"

record memp_state =
  memp_tab :: "memp_t \<Rightarrow> nat option"
  memp_next :: "nat \<Rightarrow> nat option"

section \<open>Operations\<close>

text \<open>The inner loop of \<open>memp_init\<close>: \<open>j\<close> elements are left, \<open>memp\<close> is the next one.\<close>

fun memp_carve :: "(memp_t \<Rightarrow> nat) \<Rightarrow> memp_t \<Rightarrow> nat \<Rightarrow> nat \<times> memp_state \<Rightarrow> nat \<times> memp_state" where
  "memp_carve memp_sizes i 0 (memp, s) = (memp, s)"
| "memp_carve memp_sizes i (Suc j) (memp, s) =
     memp_carve memp_sizes i j
       (memp + memp_sizes i,
        s\<lparr>memp_next := (memp_next s)(memp := memp_tab s i),
          memp_tab := (memp_tab s)(i := Some memp)\<rparr>)"

fun memp_init_from :: "(memp_t \<Rightarrow> nat) \<Rightarrow> memp_t list \<Rightarrow> nat \<times> memp_state \<Rightarrow> nat \<times> memp_state" where
  "memp_init_from memp_sizes [] ms = ms"
| "memp_init_from memp_sizes (i # is) (memp, s) =
     memp_init_from memp_sizes is
       (memp_carve memp_sizes i (memp_num ! i) (memp, s\<lparr>memp_tab := (memp_tab s)(i := None)\<rparr>))"

definition memp_init :: "(memp_t \<Rightarrow> nat) \<Rightarrow> nat \<Rightarrow> memp_state \<Rightarrow> memp_state" where
  "memp_init memp_sizes base s = snd (memp_init_from memp_sizes [0..<MEMP_MAX] (base, s))"

definition memp_malloc :: "memp_t \<Rightarrow> memp_state \<Rightarrow> (nat option \<times> memp_state) option" where
  "memp_malloc type s = do {
     c_assert (type < MEMP_MAX);
     case memp_tab s type of
       Some memp \<Rightarrow> do {
         let s = s\<lparr>memp_tab := (memp_tab s)(type := memp_next s memp)\<rparr>;
         c_assert (memp mod MEM_ALIGNMENT = 0);
         Some (Some memp, s) }
     | None \<Rightarrow> Some (None, s) }"

definition memp_free :: "memp_t \<Rightarrow> nat option \<Rightarrow> memp_state \<Rightarrow> memp_state option" where
  "memp_free type mem s = (case mem of None \<Rightarrow> Some s
     | Some memp \<Rightarrow> do {
         c_assert (memp mod MEM_ALIGNMENT = 0);
         Some (s\<lparr>memp_next := (memp_next s)(memp := memp_tab s type),
                 memp_tab := (memp_tab s)(type := Some memp)\<rparr>) })"

section \<open>Free lists\<close>

fun path :: "(nat \<Rightarrow> nat option) \<Rightarrow> nat option \<Rightarrow> nat list \<Rightarrow> bool" where
  "path nx p [] \<longleftrightarrow> p = None"
| "path nx p (x # xs) \<longleftrightarrow> p = Some x \<and> path nx (nx x) xs"

lemma path_unique: "path nx p xs \<Longrightarrow> path nx p ys \<Longrightarrow> xs = ys"
  by (induction xs arbitrary: p ys) (case_tac ys; auto)+

lemma path_cong: "path nx p xs \<Longrightarrow> (\<And>x. x \<in> set xs \<Longrightarrow> nx' x = nx x) \<Longrightarrow> path nx' p xs"
  by (induction xs arbitrary: p) auto

text \<open>The elements of pool \<open>i\<close>, carved one after the other from \<open>memp_memory\<close>.\<close>

definition pool_base :: "(memp_t \<Rightarrow> nat) \<Rightarrow> nat \<Rightarrow> memp_t \<Rightarrow> nat" where
  "pool_base memp_sizes base i = base + (\<Sum>k<i. memp_num ! k * memp_sizes k)"

definition pool_elems :: "(memp_t \<Rightarrow> nat) \<Rightarrow> nat \<Rightarrow> memp_t \<Rightarrow> nat set" where
  "pool_elems memp_sizes base i =
     (\<lambda>k. pool_base memp_sizes base i + k * memp_sizes i) ` {..<memp_num ! i}"

definition sizes_ok :: "(memp_t \<Rightarrow> nat) \<Rightarrow> nat \<Rightarrow> bool" where
  "sizes_ok memp_sizes base \<longleftrightarrow>
     base mod 4 = 0 \<and> (\<forall>i < MEMP_MAX. 0 < memp_sizes i \<and> memp_sizes i mod 4 = 0)"

definition memp_inv :: "(memp_t \<Rightarrow> nat) \<Rightarrow> nat \<Rightarrow> memp_state \<Rightarrow> bool" where
  "memp_inv memp_sizes base s \<longleftrightarrow>
     (\<forall>i < MEMP_MAX. \<exists>xs. path (memp_next s) (memp_tab s i) xs \<and> distinct xs \<and>
        set xs \<subseteq> pool_elems memp_sizes base i)"

text \<open>The elements of pool \<open>i\<close> that are not on its free list.\<close>

definition memp_free_list :: "memp_state \<Rightarrow> memp_t \<Rightarrow> nat list" where
  "memp_free_list s i = (THE xs. path (memp_next s) (memp_tab s i) xs)"

definition memp_live :: "(memp_t \<Rightarrow> nat) \<Rightarrow> nat \<Rightarrow> memp_t \<Rightarrow> memp_state \<Rightarrow> nat set" where
  "memp_live memp_sizes base i s =
     pool_elems memp_sizes base i - set (memp_free_list s i)"

lemma memp_free_list_eq: "path (memp_next s) (memp_tab s i) xs \<Longrightarrow> memp_free_list s i = xs"
  unfolding memp_free_list_def by (rule the_equality) (auto intro: path_unique)

lemma memp_invE:
  assumes "memp_inv memp_sizes base s" "i < MEMP_MAX"
  obtains xs where "path (memp_next s) (memp_tab s i) xs" "distinct xs"
    "set xs \<subseteq> pool_elems memp_sizes base i" "memp_free_list s i = xs"
  using assms memp_free_list_eq unfolding memp_inv_def by blast

lemma pool_base_mono:
  "i < j \<Longrightarrow> pool_base memp_sizes base i + memp_num ! i * memp_sizes i \<le> pool_base memp_sizes base j"
proof (induction j)
  case (Suc j)
  then show ?case by (cases "i = j") (auto simp: pool_base_def)
qed simp

lemma pool_elems_range:
  assumes "x \<in> pool_elems memp_sizes base i" "0 < memp_sizes i"
  shows "pool_base memp_sizes base i \<le> x"
    "x + memp_sizes i \<le> pool_base memp_sizes base i + memp_num ! i * memp_sizes i"
proof -
  from assms(1) obtain k where k: "x = pool_base memp_sizes base i + k * memp_sizes i" "k < memp_num ! i"
    by (auto simp: pool_elems_def)
  then show "pool_base memp_sizes base i \<le> x" by simp
  have "Suc k * memp_sizes i \<le> memp_num ! i * memp_sizes i"
    using k(2) by (intro mult_le_mono1) simp
  then show "x + memp_sizes i \<le> pool_base memp_sizes base i + memp_num ! i * memp_sizes i"
    using k(1) by simp
qed

lemma pool_elems_disjoint:
  assumes "sizes_ok memp_sizes base" "i < MEMP_MAX" "j < MEMP_MAX" "i \<noteq> j"
  shows "pool_elems memp_sizes base i \<inter> pool_elems memp_sizes base j = {}"
proof -
  have pos: "0 < memp_sizes i" "0 < memp_sizes j" using assms by (auto simp: sizes_ok_def)
  {
    fix x
    assume "x \<in> pool_elems memp_sizes base i" "x \<in> pool_elems memp_sizes base j"
    note r = pool_elems_range [OF this(1) pos(1)] pool_elems_range [OF this(2) pos(2)]
    have False using r pos assms(4) pool_base_mono [of i j memp_sizes base] pool_base_mono [of j i memp_sizes base]
      by (cases "i < j") auto
  }
  then show ?thesis by blast
qed

lemma pool_elems_card:
  "0 < memp_sizes i \<Longrightarrow> finite (pool_elems memp_sizes base i) \<and> card (pool_elems memp_sizes base i) = memp_num ! i"
  unfolding pool_elems_def by (auto simp: card_image inj_on_def)

lemma pool_elems_aligned:
  assumes "sizes_ok memp_sizes base" "i < MEMP_MAX" "x \<in> pool_elems memp_sizes base i"
  shows "x mod 4 = 0"
proof -
  have "4 dvd (\<Sum>k<i. memp_num ! k * memp_sizes k)"
    using assms(1,2) by (intro dvd_sum) (auto simp: sizes_ok_def mod_eq_0_iff_dvd)
  moreover have "4 dvd k * memp_sizes i" for k
    using assms(1,2) by (auto simp: sizes_ok_def mod_eq_0_iff_dvd)
  moreover have "4 dvd base" using assms(1) by (auto simp: sizes_ok_def mod_eq_0_iff_dvd)
  ultimately show ?thesis
    using assms(3) by (auto simp: pool_elems_def pool_base_def mod_eq_0_iff_dvd)
qed

section \<open>Allocation\<close>

lemma memp_malloc_spec:
  assumes ok: "sizes_ok memp_sizes base" and inv: "memp_inv memp_sizes base s" and i: "i < MEMP_MAX"
  shows "case memp_free_list s i of
      [] \<Rightarrow> memp_malloc i s = Some (None, s)
    | x # xs \<Rightarrow> \<exists>s'. memp_malloc i s = Some (Some x, s') \<and> memp_inv memp_sizes base s' \<and>
        memp_free_list s' i = xs \<and> (\<forall>j < MEMP_MAX. j \<noteq> i \<longrightarrow> memp_free_list s' j = memp_free_list s j)"
proof -
  from memp_invE [OF inv i] obtain ys where ys: "path (memp_next s) (memp_tab s i) ys" "distinct ys"
    "set ys \<subseteq> pool_elems memp_sizes base i" "memp_free_list s i = ys" by blast
  show ?thesis
  proof (cases ys)
    case Nil
    with ys i show ?thesis by (simp add: memp_malloc_def)
  next
    case (Cons x xs)
    let ?s' = "s\<lparr>memp_tab := (memp_tab s)(i := memp_next s x)\<rparr>"
    have "x mod MEM_ALIGNMENT = 0"
      using ys Cons pool_elems_aligned [OF ok i] by (simp add: MEM_ALIGNMENT_def)
    then have m: "memp_malloc i s = Some (Some x, ?s')"
      using ys Cons i by (simp add: memp_malloc_def Let_def)
    have px: "path (memp_next ?s') (memp_tab ?s' i) xs" using ys Cons by simp
    have "\<exists>zs. path (memp_next ?s') (memp_tab ?s' j) zs \<and> distinct zs \<and> set zs \<subseteq> pool_elems memp_sizes base j"
      if "j < MEMP_MAX" for j
    proof (cases "j = i")
      case True
      then show ?thesis using px ys Cons by auto
    next
      case False
      with inv that show ?thesis by (auto simp: memp_inv_def)
    qed
    then have "memp_inv memp_sizes base ?s'" by (simp add: memp_inv_def)
    moreover have "memp_free_list ?s' j = memp_free_list s j" if "j \<noteq> i" for j
      using that by (simp add: memp_free_list_def)
    ultimately show ?thesis using m ys Cons memp_free_list_eq [OF px] by auto
  qed
qed

lemma memp_free_spec:
  assumes ok: "sizes_ok memp_sizes base" and inv: "memp_inv memp_sizes base s" and i: "i < MEMP_MAX"
    and x: "x \<in> memp_live memp_sizes base i s"
  shows "\<exists>s'. memp_free i (Some x) s = Some s' \<and> memp_inv memp_sizes base s' \<and>
     memp_free_list s' i = x # memp_free_list s i \<and>
     (\<forall>j < MEMP_MAX. j \<noteq> i \<longrightarrow> memp_free_list s' j = memp_free_list s j)"
proof -
  let ?s' = "s\<lparr>memp_next := (memp_next s)(x := memp_tab s i), memp_tab := (memp_tab s)(i := Some x)\<rparr>"
  have xi: "x \<in> pool_elems memp_sizes base i" "x \<notin> set (memp_free_list s i)"
    using x by (auto simp: memp_live_def)
  have m: "memp_free i (Some x) s = Some ?s'"
    using pool_elems_aligned [OF ok i xi(1)] by (simp add: memp_free_def MEM_ALIGNMENT_def)
  have P: "\<exists>zs. path (memp_next ?s') (memp_tab ?s' j) zs \<and> distinct zs \<and>
      set zs \<subseteq> pool_elems memp_sizes base j \<and>
      zs = (if j = i then x # memp_free_list s i else memp_free_list s j)"
    if j: "j < MEMP_MAX" for j
  proof -
    from memp_invE [OF inv j] obtain ys where ys: "path (memp_next s) (memp_tab s j) ys" "distinct ys"
      "set ys \<subseteq> pool_elems memp_sizes base j" "memp_free_list s j = ys" by blast
    have "x \<notin> set ys"
      using ys xi pool_elems_disjoint [OF ok i j] by (cases "j = i") auto
    then have "path (memp_next ?s') (memp_tab s j) ys"
      using ys(1) by (auto intro: path_cong)
    with ys xi show ?thesis by auto
  qed
  then have "memp_inv memp_sizes base ?s'" unfolding memp_inv_def by blast
  moreover have "memp_free_list ?s' j = (if j = i then x # memp_free_list s i else memp_free_list s j)"
    if "j < MEMP_MAX" for j
    using P [OF that] memp_free_list_eq [of ?s' j] by blast
  ultimately show ?thesis using m i by auto
qed


section \<open>Initialisation\<close>

lemma memp_carve_spec:
  assumes "path (memp_next s) (memp_tab s i) xs" "\<forall>x \<in> set xs. x < m" "0 < memp_sizes i"
    "memp_carve memp_sizes i j (m, s) = (m', s')"
  shows "m' = m + j * memp_sizes i \<and>
    path (memp_next s') (memp_tab s' i) (rev (map (\<lambda>k. m + k * memp_sizes i) [0..<j]) @ xs) \<and>
    (\<forall>k. k \<noteq> i \<longrightarrow> memp_tab s' k = memp_tab s k) \<and> (\<forall>x < m. memp_next s' x = memp_next s x)"
  using assms
proof (induction j arbitrary: m s xs)
  case 0
  then show ?case by simp
next
  case (Suc j)
  let ?s1 = "s\<lparr>memp_next := (memp_next s)(m := memp_tab s i), memp_tab := (memp_tab s)(i := Some m)\<rparr>"
  have "path (memp_next ?s1) (memp_tab s i) xs"
    using Suc.prems(1) by (rule path_cong) (use Suc.prems(2) in auto)
  then have p: "path (memp_next ?s1) (memp_tab ?s1 i) (m # xs)" by simp
  have "\<forall>x \<in> set (m # xs). x < m + memp_sizes i" using Suc.prems(2,3) by auto
  from Suc.IH [OF p this Suc.prems(3)] Suc.prems(4)
  have IH: "m' = m + memp_sizes i + j * memp_sizes i"
    "path (memp_next s') (memp_tab s' i)
       (rev (map (\<lambda>k. m + memp_sizes i + k * memp_sizes i) [0..<j]) @ m # xs)"
    "\<forall>k. k \<noteq> i \<longrightarrow> memp_tab s' k = memp_tab ?s1 k"
    "\<forall>x < m + memp_sizes i. memp_next s' x = memp_next ?s1 x" by simp_all
  have "map (\<lambda>k. m + k * memp_sizes i) [0..<Suc j] =
      m # map (\<lambda>k. m + memp_sizes i + k * memp_sizes i) [0..<j]"
    by (simp add: upt_conv_Cons map_Suc_upt [symmetric] comp_def ac_simps del: upt_Suc)
  then have "rev (map (\<lambda>k. m + k * memp_sizes i) [0..<Suc j]) @ xs =
      rev (map (\<lambda>k. m + memp_sizes i + k * memp_sizes i) [0..<j]) @ m # xs" by simp
  then show ?case using IH by simp
qed

lemma memp_init_from_append:
  "memp_init_from memp_sizes (is @ js) ms = memp_init_from memp_sizes js (memp_init_from memp_sizes is ms)"
proof (induction "is" arbitrary: ms)
  case (Cons i "is")
  then show ?case by (cases ms) simp
qed simp

lemma memp_init_from_spec:
  assumes ok: "sizes_ok memp_sizes base" and n: "n \<le> MEMP_MAX"
    and run: "memp_init_from memp_sizes [0..<n] (base, s0) = (m, s)"
  shows "m = pool_base memp_sizes base n \<and>
    (\<forall>j < n. \<exists>xs. path (memp_next s) (memp_tab s j) xs \<and> distinct xs \<and> set xs = pool_elems memp_sizes base j)"
  using n run
proof (induction n arbitrary: m s)
  case 0
  then show ?case by (simp add: pool_base_def)
next
  case (Suc n)
  obtain m1 s1 where r1: "memp_init_from memp_sizes [0..<n] (base, s0) = (m1, s1)" by fastforce
  from Suc.IH [OF _ r1] Suc.prems have IH: "m1 = pool_base memp_sizes base n"
    "\<And>j. j < n \<Longrightarrow> \<exists>xs. path (memp_next s1) (memp_tab s1 j) xs \<and> distinct xs \<and> set xs = pool_elems memp_sizes base j"
    by simp_all
  let ?z = "memp_sizes n" and ?s2 = "s1\<lparr>memp_tab := (memp_tab s1)(n := None)\<rparr>"
  have pos: "0 < ?z" using ok Suc.prems by (simp add: sizes_ok_def)
  have "memp_carve memp_sizes n (memp_num ! n) (m1, ?s2) = (m, s)"
    using Suc.prems(2) r1 by (simp add: memp_init_from_append)
  from memp_carve_spec [of ?s2 n "[]", OF _ _ pos this] have c: "m = m1 + memp_num ! n * ?z"
    "path (memp_next s) (memp_tab s n) (rev (map (\<lambda>k. m1 + k * ?z) [0..<memp_num ! n]))"
    "\<forall>k. k \<noteq> n \<longrightarrow> memp_tab s k = memp_tab s1 k" "\<forall>x < m1. memp_next s x = memp_next s1 x" by simp_all
  have "\<exists>xs. path (memp_next s) (memp_tab s j) xs \<and> distinct xs \<and> set xs = pool_elems memp_sizes base j"
    if "j < Suc n" for j
  proof (cases "j = n")
    case True
    have "distinct (map (\<lambda>k. m1 + k * ?z) [0..<memp_num ! n])"
      using pos by (simp add: distinct_map inj_on_def)
    moreover have "set (map (\<lambda>k. m1 + k * ?z) [0..<memp_num ! n]) = pool_elems memp_sizes base n"
      by (simp add: IH(1) pool_elems_def lessThan_atLeast0)
    ultimately show ?thesis using c(2) True by (metis distinct_rev set_rev)
  next
    case False
    with that have j: "j < n" by simp
    from IH(2) [OF j] obtain xs where xs: "path (memp_next s1) (memp_tab s1 j) xs" "distinct xs"
      "set xs = pool_elems memp_sizes base j" by blast
    have posj: "0 < memp_sizes j" using ok j Suc.prems by (simp add: sizes_ok_def)
    have "x < m1" if "x \<in> set xs" for x
      using pool_elems_range(2) [of x memp_sizes base j, OF _ posj] that xs(3) posj
        pool_base_mono [OF j, of memp_sizes base] IH(1) by force
    with c(4) have "path (memp_next s) (memp_tab s1 j) xs"
      using xs(1) by (auto intro: path_cong)
    with xs c(3) False show ?thesis by auto
  qed
  moreover have "m = pool_base memp_sizes base (Suc n)" using c(1) IH(1) by (simp add: pool_base_def)
  ultimately show ?case by blast
qed

lemma memp_init_spec:
  assumes "sizes_ok memp_sizes base"
  shows "memp_inv memp_sizes base (memp_init memp_sizes base s) \<and>
    (\<forall>i < MEMP_MAX. memp_live memp_sizes base i (memp_init memp_sizes base s) = {})"
proof -
  obtain m s' where r: "memp_init_from memp_sizes [0..<MEMP_MAX] (base, s) = (m, s')" by fastforce
  from memp_init_from_spec [OF assms order_refl r] have
    P: "\<And>j. j < MEMP_MAX \<Longrightarrow> \<exists>xs. path (memp_next s') (memp_tab s' j) xs \<and> distinct xs \<and> set xs = pool_elems memp_sizes base j"
    by blast
  have "memp_inv memp_sizes base s'" unfolding memp_inv_def using P by blast
  moreover have "memp_live memp_sizes base i s' = {}" if "i < MEMP_MAX" for i
    using P [OF that] memp_free_list_eq [of s' i] by (auto simp: memp_live_def)
  ultimately show ?thesis using r by (simp add: memp_init_def)
qed

section \<open>The pools as allocators\<close>

text \<open>The pool of one type, at an index below \<open>MEMP_MAX\<close>; other indices are mapped to 0.\<close>

definition memp_idx :: "memp_t \<Rightarrow> memp_t" where
  "memp_idx i = (if i < MEMP_MAX then i else 0)"

lemma memp_idx_less: "memp_idx i < MEMP_MAX" by (simp add: memp_idx_def MEMP_MAX_def)

interpretation memp: pool_allocator
  "\<lambda>s. sizes_ok memp_sizes base \<and> memp_inv memp_sizes base s"
  "memp_live memp_sizes base (memp_idx i)" "memp_malloc (memp_idx i)"
  "\<lambda>x. memp_free (memp_idx i) (Some x)" "memp_num ! memp_idx i"
  for memp_sizes base i
proof unfold_locales
  let ?i = "memp_idx i"
  fix s
  assume inv: "sizes_ok memp_sizes base \<and> memp_inv memp_sizes base s"
  then have ok: "sizes_ok memp_sizes base" and minv: "memp_inv memp_sizes base s" by auto
  note i = memp_idx_less [of i]
  from memp_invE [OF minv i] obtain ys where ys: "distinct ys"
    "set ys \<subseteq> pool_elems memp_sizes base ?i" "memp_free_list s ?i = ys" by metis
  have pos: "0 < memp_sizes ?i" using ok i by (simp add: sizes_ok_def)
  note card = pool_elems_card [of memp_sizes ?i base, OF pos]
  have live: "card (memp_live memp_sizes base ?i s) = memp_num ! ?i - length ys"
    using card ys by (simp add: memp_live_def card_Diff_subset distinct_card)
  have len: "length ys \<le> memp_num ! ?i"
    using card ys by (metis card_mono distinct_card)
  note malloc = memp_malloc_spec [OF ok minv i]
  show "\<exists>r s'. memp_malloc ?i s = Some (r, s') \<and>
      (sizes_ok memp_sizes base \<and> memp_inv memp_sizes base s') \<and>
      (case r of None \<Rightarrow> memp_live memp_sizes base ?i s' = memp_live memp_sizes base ?i s
       | Some a \<Rightarrow> a \<notin> memp_live memp_sizes base ?i s \<and>
           memp_live memp_sizes base ?i s' = insert a (memp_live memp_sizes base ?i s))"
  proof (cases ys)
    case Nil
    then show ?thesis using malloc ys ok minv by simp
  next
    case (Cons x xs)
    with malloc ys obtain s' where s': "memp_malloc ?i s = Some (Some x, s')" "memp_inv memp_sizes base s'"
      "memp_free_list s' ?i = xs" by auto
    then show ?thesis using Cons ys ok by (auto simp: memp_live_def)
  qed
  show "\<exists>s'. memp_free ?i (Some a) s = Some s' \<and>
      (sizes_ok memp_sizes base \<and> memp_inv memp_sizes base s') \<and>
      memp_live memp_sizes base ?i s' = memp_live memp_sizes base ?i s - {a}"
    if "a \<in> memp_live memp_sizes base ?i s" for a
    using memp_free_spec [OF ok minv i that] ok by (auto simp: memp_live_def)
  show "finite (memp_live memp_sizes base ?i s)" using card by (simp add: memp_live_def)
  show "card (memp_live memp_sizes base ?i s) \<le> memp_num ! ?i" using live by simp
  show "(r = None) = (memp_num ! ?i \<le> card (memp_live memp_sizes base ?i s))"
    if "memp_malloc ?i s = Some (r, s')" for r s'
    using that malloc ys live len by (cases ys) auto
qed

section \<open>Properties\<close>

text \<open>C13: a pool hands out each of its elements once: after \<open>memp_init\<close>, exactly
  \<open>memp_num[type]\<close> calls of \<open>memp_malloc\<close> succeed, with pairwise distinct addresses inside
  the pool's part of \<open>memp_memory\<close>, and the next one returns \<open>NULL\<close>; once all of them are
  freed, in any order, nothing is live.\<close>

theorem memp_pool_exact:
  assumes "sizes_ok memp_sizes base" and "i < MEMP_MAX" and "memp_num ! i < n"
  shows "\<exists>as s'. memp.alloc_n i n (memp_init memp_sizes base s) = Some (as, s') \<and>
    length as = memp_num ! i \<and> distinct as \<and> set as \<subseteq> pool_elems memp_sizes base i \<and>
    memp_malloc i s' = Some (None, s') \<and>
    (\<forall>bs. distinct bs \<and> set bs = set as \<longrightarrow>
       (\<exists>s''. memp.release_all i bs s' = Some s'' \<and> memp_live memp_sizes base i s'' = {}))"
proof -
  have i: "memp_idx i = i" using assms(2) by (simp add: memp_idx_def)
  let ?s = "memp_init memp_sizes base s"
  have inv: "sizes_ok memp_sizes base \<and> memp_inv memp_sizes base ?s" and l0: "memp_live memp_sizes base i ?s = {}"
    using memp_init_spec [OF assms(1), of s] assms by auto
  from memp.alloc_n_spec [OF inv, of i n] obtain as s' where r: "memp.alloc_n i n ?s = Some (as, s')"
    "memp_inv memp_sizes base s'" "distinct as" "memp_live memp_sizes base i s' = set as"
    unfolding i l0 by auto
  have len: "length as = memp_num ! i"
    using memp.alloc_n_room [OF inv r(1)] assms(3) by (simp add: i l0)
  have inv': "sizes_ok memp_sizes base \<and> memp_inv memp_sizes base s'" using inv r by simp
  from memp.alloc_law [OF inv', of i] obtain q s2 where q: "memp_malloc i s' = Some (q, s2)"
    unfolding i by blast
  then have "q = None"
    using memp.alloc_room [OF inv', of i q s2] len r(3,4) by (simp add: i distinct_card)
  then have "memp_malloc i s' = Some (None, s')"
    using q by (auto simp: memp_malloc_def Let_def split: bind_splits option.splits if_splits)
  moreover have "set as \<subseteq> pool_elems memp_sizes base i" using r(4) by (auto simp: memp_live_def)
  moreover have "\<exists>s''. memp.release_all i bs s' = Some s'' \<and> memp_live memp_sizes base i s'' = {}"
    if "distinct bs" "set bs = set as" for bs
    using memp.alloc_release [OF inv r(1) that] unfolding i l0 by blast
  ultimately show ?thesis using r len by blast
qed

definition memp_zero :: memp_state where
  "memp_zero = \<lparr> memp_tab = (\<lambda>_. None), memp_next = (\<lambda>_. None) \<rparr>"

theorem memp_pool_exact_witness:
  "\<exists>as s'. memp.alloc_n MEMP_PBUF_POOL 11 (memp_init (\<lambda>_. 1536) 4096 memp_zero) = Some (as, s') \<and>
    length as = 10 \<and> memp_malloc MEMP_PBUF_POOL s' = Some (None, s')"
proof -
  have "sizes_ok (\<lambda>_. 1536) 4096" by (simp add: sizes_ok_def)
  from memp_pool_exact [OF this, of MEMP_PBUF_POOL 11 memp_zero] show ?thesis
    by (auto simp: MEMP_PBUF_POOL_def MEMP_MAX_def memp_num_def)
qed

end
