(* ===== verification/Mem.thy ===== *)
theory Mem
  imports Allocator
begin

text \<open>
  The heap of \<open>core/mem.c\<close> in this configuration: a doubly linked list of \<open>struct mem\<close>
  headers inside \<open>ram\<close>, linked by offsets of type \<open>mem_size_t\<close> (\<open>u16_t\<close>), with \<open>lfree\<close> the
  lowest free block. A header is found by its offset from \<open>ram\<close>; reading or updating a
  header where none was written is a fault. Offsets and sizes are natural numbers, cut to
  16 bits where the code stores them in a \<open>mem_size_t\<close>.
\<close>

section \<open>Data\<close>

record mem_hdr =
  m_next :: nat
  m_prev :: nat
  m_used :: bool

record mem_heap =
  hdrs :: "nat \<Rightarrow> mem_hdr option"
  lfree :: nat

definition MEM_SIZE_ALIGNED :: nat where "MEM_SIZE_ALIGNED = 12288"
definition SIZEOF_STRUCT_MEM :: nat where "SIZEOF_STRUCT_MEM = 8"
definition MIN_SIZE_ALIGNED :: nat where "MIN_SIZE_ALIGNED = 12"

lemmas [c_def] = MEM_SIZE_ALIGNED_def SIZEOF_STRUCT_MEM_def MIN_SIZE_ALIGNED_def

text \<open>\<open>LWIP_MEM_ALIGN_SIZE\<close>, stored in a \<open>mem_size_t\<close>.\<close>

definition mem_align_size :: "nat \<Rightarrow> nat" where
  "mem_align_size sz = (sz + 3) div 4 * 4 mod 65536"

definition mem_init :: "mem_heap \<Rightarrow> mem_heap" where
  "mem_init h = h\<lparr>
     hdrs := (hdrs h)(0 \<mapsto> \<lparr>m_next = MEM_SIZE_ALIGNED, m_prev = 0, m_used = False\<rparr>,
       MEM_SIZE_ALIGNED \<mapsto>
         \<lparr>m_next = MEM_SIZE_ALIGNED, m_prev = MEM_SIZE_ALIGNED, m_used = True\<rparr>),
     lfree := 0\<rparr>"

section \<open>Operations\<close>

definition put_hdr :: "nat \<Rightarrow> mem_hdr \<Rightarrow> mem_heap \<Rightarrow> mem_heap" where
  "put_hdr p m h = h\<lparr>hdrs := (hdrs h)(p \<mapsto> m)\<rparr>"

definition set_next :: "nat \<Rightarrow> nat \<Rightarrow> mem_heap \<Rightarrow> mem_heap option" where
  "set_next p v h = do { m \<leftarrow> hdrs h p; Some (put_hdr p (m\<lparr>m_next := v\<rparr>) h) }"

definition set_prev :: "nat \<Rightarrow> nat \<Rightarrow> mem_heap \<Rightarrow> mem_heap option" where
  "set_prev p v h = do { m \<leftarrow> hdrs h p; Some (put_hdr p (m\<lparr>m_prev := v\<rparr>) h) }"

definition set_used :: "nat \<Rightarrow> bool \<Rightarrow> mem_heap \<Rightarrow> mem_heap option" where
  "set_used p v h = do { m \<leftarrow> hdrs h p; Some (put_hdr p (m\<lparr>m_used := v\<rparr>) h) }"

definition plug_forward :: "nat \<Rightarrow> mem_heap \<Rightarrow> mem_heap option" where
  "plug_forward mem h = do {
     m \<leftarrow> hdrs h mem;
     let nmem = m_next m;
     n \<leftarrow> hdrs h nmem;
     if mem \<noteq> nmem \<and> \<not> m_used n \<and> nmem \<noteq> MEM_SIZE_ALIGNED then do {
       let h = (if lfree h = nmem then h\<lparr>lfree := mem\<rparr> else h);
       h \<leftarrow> set_next mem (m_next n) h;
       set_prev (m_next n) (mem mod 65536) h }
     else Some h }"

definition plug_backward :: "nat \<Rightarrow> mem_heap \<Rightarrow> mem_heap option" where
  "plug_backward mem h = do {
     m \<leftarrow> hdrs h mem;
     let pmem = m_prev m;
     p \<leftarrow> hdrs h pmem;
     if pmem \<noteq> mem \<and> \<not> m_used p then do {
       let h = (if lfree h = mem then h\<lparr>lfree := pmem\<rparr> else h);
       h \<leftarrow> set_next pmem (m_next m) h;
       set_prev (m_next m) (pmem mod 65536) h }
     else Some h }"

definition plug_holes :: "nat \<Rightarrow> mem_heap \<Rightarrow> mem_heap option" where
  "plug_holes mem h = do {
     c_assert (mem < MEM_SIZE_ALIGNED);
     m \<leftarrow> hdrs h mem;
     c_assert (\<not> m_used m);
     c_assert (m_next m \<le> MEM_SIZE_ALIGNED);
     h \<leftarrow> plug_forward mem h;
     plug_backward mem h }"

text \<open>\<open>mem_free(ram + rmem)\<close>; \<^term>\<open>None\<close> is \<open>NULL\<close>.\<close>

definition mem_free :: "nat option \<Rightarrow> mem_heap \<Rightarrow> mem_heap option" where
  "mem_free rmem h = (case rmem of None \<Rightarrow> Some h
     | Some rmem \<Rightarrow> do {
         c_assert (rmem mod 4 = 0);
         c_assert (rmem < MEM_SIZE_ALIGNED);
         c_assert (SIZEOF_STRUCT_MEM \<le> rmem);
         let mem = rmem - SIZEOF_STRUCT_MEM;
         m \<leftarrow> hdrs h mem;
         c_assert (m_used m);
         h \<leftarrow> set_used mem False h;
         let h = (if mem < lfree h then h\<lparr>lfree := mem\<rparr> else h);
         plug_holes mem h })"

text \<open>
  The search of \<open>mem_malloc\<close>. \<open>SIZEOF_STRUCT_MEM\<close> is a \<open>size_t\<close>, so the subtraction is
  an unsigned one on 32 bits.
\<close>

definition user_size :: "mem_hdr \<Rightarrow> nat \<Rightarrow> nat" where
  "user_size m ptr = (m_next m + 4294967296 - (ptr + SIZEOF_STRUCT_MEM)) mod 4294967296"

partial_function (option) mem_scan :: "nat \<Rightarrow> nat \<Rightarrow> mem_heap \<Rightarrow> nat option option" where
  "mem_scan sz ptr h =
     (if ptr < MEM_SIZE_ALIGNED - sz then
        Option.bind (hdrs h ptr) (\<lambda>m.
          if \<not> m_used m \<and> user_size m ptr \<ge> sz then Some (Some ptr)
          else mem_scan sz (m_next m) h)
      else Some None)"

text \<open>\<open>while (cur->used && cur != ram_end) cur = &ram[cur->next]\<close>.\<close>

partial_function (option) mem_next_free :: "nat \<Rightarrow> mem_heap \<Rightarrow> nat option" where
  "mem_next_free cur h =
     Option.bind (hdrs h cur) (\<lambda>m.
       if m_used m \<and> cur \<noteq> MEM_SIZE_ALIGNED then mem_next_free (m_next m) h else Some cur)"

text \<open>Taking the block at \<open>ptr\<close>: split it or take it whole.\<close>

definition mem_take :: "nat \<Rightarrow> nat \<Rightarrow> mem_heap \<Rightarrow> mem_heap option" where
  "mem_take sz ptr h = do {
     m \<leftarrow> hdrs h ptr;
     if user_size m ptr \<ge> sz + SIZEOF_STRUCT_MEM + MIN_SIZE_ALIGNED then do {
       let ptr2 = (ptr + SIZEOF_STRUCT_MEM + sz) mod 65536;
       let h = put_hdr ptr2 \<lparr>m_next = m_next m, m_prev = ptr, m_used = False\<rparr> h;
       h \<leftarrow> set_next ptr ptr2 h;
       h \<leftarrow> set_used ptr True h;
       if m_next m \<noteq> MEM_SIZE_ALIGNED then set_prev (m_next m) ptr2 h else Some h }
     else set_used ptr True h }"

definition mem_malloc :: "u16 \<Rightarrow> mem_heap \<Rightarrow> (nat option \<times> mem_heap) option" where
  "mem_malloc req h =
     (if req = 0 then Some (None, h)
      else
        let sz = mem_align_size (unat req);
            sz = (if sz < MIN_SIZE_ALIGNED then MIN_SIZE_ALIGNED else sz)
        in if sz > MEM_SIZE_ALIGNED then Some (None, h)
           else do {
             r \<leftarrow> mem_scan sz (lfree h) h;
             case r of None \<Rightarrow> Some (None, h)
             | Some mem \<Rightarrow> do {
                 h \<leftarrow> mem_take sz mem h;
                 h \<leftarrow> (if mem = lfree h then do {
                        cur \<leftarrow> mem_next_free (lfree h) h;
                        let h = h\<lparr>lfree := cur\<rparr>;
                        m \<leftarrow> hdrs h cur;
                        c_assert (cur = MEM_SIZE_ALIGNED \<or> \<not> m_used m);
                        Some h }
                      else Some h);
                 c_assert (mem + SIZEOF_STRUCT_MEM + sz \<le> MEM_SIZE_ALIGNED);
                 c_assert ((mem + SIZEOF_STRUCT_MEM) mod 4 = 0);
                 c_assert (mem mod 4 = 0);
                 Some (Some (mem + SIZEOF_STRUCT_MEM), h) } })"

definition mem_trim :: "nat \<Rightarrow> u16 \<Rightarrow> mem_heap \<Rightarrow> (nat option \<times> mem_heap) option" where
  "mem_trim rmem req h =
     (let newsize = mem_align_size (unat req);
          newsize = (if newsize < MIN_SIZE_ALIGNED then MIN_SIZE_ALIGNED else newsize)
      in if newsize > MEM_SIZE_ALIGNED then Some (None, h)
         else do {
           c_assert (rmem < MEM_SIZE_ALIGNED);
           c_assert (SIZEOF_STRUCT_MEM \<le> rmem);
           let ptr = rmem - SIZEOF_STRUCT_MEM;
           m \<leftarrow> hdrs h ptr;
           let sz = user_size m ptr mod 65536;
           c_assert (newsize \<le> sz);
           if newsize = sz then Some (Some rmem, h)
           else do {
             let mem2 = m_next m;
             m2 \<leftarrow> hdrs h mem2;
             if \<not> m_used m2 then do {
               let next = m_next m2;
               let ptr2 = (ptr + SIZEOF_STRUCT_MEM + newsize) mod 65536;
               let h = (if lfree h = mem2 then h\<lparr>lfree := ptr2\<rparr> else h);
               let h = put_hdr ptr2 \<lparr>m_next = next, m_prev = ptr, m_used = False\<rparr> h;
               h \<leftarrow> set_next ptr ptr2 h;
               h \<leftarrow> (if next \<noteq> MEM_SIZE_ALIGNED then set_prev next ptr2 h else Some h);
               Some (Some rmem, h) }
             else if newsize + SIZEOF_STRUCT_MEM + MIN_SIZE_ALIGNED \<le> sz then do {
               let ptr2 = (ptr + SIZEOF_STRUCT_MEM + newsize) mod 65536;
               let h = (if ptr2 < lfree h then h\<lparr>lfree := ptr2\<rparr> else h);
               let h = put_hdr ptr2 \<lparr>m_next = m_next m, m_prev = ptr, m_used = False\<rparr> h;
               h \<leftarrow> set_next ptr ptr2 h;
               h \<leftarrow> (if m_next m \<noteq> MEM_SIZE_ALIGNED then set_prev (m_next m) ptr2 h else Some h);
               Some (Some rmem, h) }
             else Some (Some rmem, h) } })"

text \<open>
  \<open>mem_calloc\<close>: the product is an \<open>int\<close>; it is cut to 16 bits for \<open>mem_malloc\<close> but not for
  \<open>memset\<close>, which faults when it leaves the block. The result holds the number of bytes
  zeroed.
\<close>

definition mem_calloc :: "u16 \<Rightarrow> u16 \<Rightarrow> mem_heap \<Rightarrow> ((nat \<times> nat) option \<times> mem_heap) option" where
  "mem_calloc count sz h = do {
     let n = unat count * unat sz;
     c_assert (n \<le> 2147483647);
     (p, h) \<leftarrow> mem_malloc (of_nat n) h;
     case p of None \<Rightarrow> Some (None, h)
     | Some p \<Rightarrow> do {
         m \<leftarrow> hdrs h (p - SIZEOF_STRUCT_MEM);
         c_assert (p + n \<le> m_next m);
         Some (Some (p, n), h) } }"

section \<open>The block list\<close>

text \<open>
  A heap seen as the list of its blocks, each with its data size and whether it is used.
\<close>

type_synonym blocks = "(nat \<times> bool) list"

fun end_of :: "nat \<Rightarrow> blocks \<Rightarrow> nat" where
  "end_of p [] = p"
| "end_of p ((sz, u) # bs) = end_of (p + 8 + sz) bs"

fun last_of :: "nat \<Rightarrow> nat \<Rightarrow> blocks \<Rightarrow> nat" where
  "last_of pv p [] = pv"
| "last_of pv p ((sz, u) # bs) = last_of p (p + 8 + sz) bs"

fun seg :: "(nat \<Rightarrow> mem_hdr option) \<Rightarrow> nat \<Rightarrow> nat \<Rightarrow> blocks \<Rightarrow> bool" where
  "seg h pv p [] \<longleftrightarrow> True"
| "seg h pv p ((sz, u) # bs) \<longleftrightarrow>
     h p = Some \<lparr>m_next = p + 8 + sz, m_prev = pv, m_used = u\<rparr> \<and> 12 \<le> sz \<and> 4 dvd sz \<and>
     seg h p (p + 8 + sz) bs"

fun first_free :: "nat \<Rightarrow> blocks \<Rightarrow> nat" where
  "first_free p [] = p"
| "first_free p ((sz, u) # bs) = (if u then first_free (p + 8 + sz) bs else p)"

definition no_holes :: "blocks \<Rightarrow> bool" where
  "no_holes bs = successively (\<lambda>a b. snd a \<or> snd b) bs"

definition heap_rel :: "mem_heap \<Rightarrow> blocks \<Rightarrow> bool" where
  "heap_rel h bs \<longleftrightarrow> seg (hdrs h) 0 0 bs \<and> end_of 0 bs = 12288 \<and>
     (\<exists>e. hdrs h 12288 = Some e \<and> m_used e) \<and> lfree h = first_free 0 bs \<and> no_holes bs"

lemma end_of_append [simp]: "end_of p (xs @ ys) = end_of (end_of p xs) ys"
  by (induction p xs rule: end_of.induct) auto

lemma last_of_append [simp]: "last_of pv p (xs @ ys) = last_of (last_of pv p xs) (end_of p xs) ys"
  by (induction pv p xs rule: last_of.induct) auto

lemma seg_append [simp]:
  "seg h pv p (xs @ ys) \<longleftrightarrow> seg h pv p xs \<and> seg h (last_of pv p xs) (end_of p xs) ys"
  by (induction h pv p xs rule: seg.induct) auto

lemma end_of_ge: "p \<le> end_of p bs"
  by (induction p bs rule: end_of.induct) auto

lemma seg_frame:
  "seg h pv p bs \<Longrightarrow> (\<And>a. p \<le> a \<Longrightarrow> a < end_of p bs \<Longrightarrow> h' a = h a) \<Longrightarrow> seg h' pv p bs"
proof (induction h pv p bs rule: seg.induct)
  case (2 h pv p sz u bs)
  have "p < end_of p ((sz, u) # bs)" using end_of_ge [of "p + 8 + sz" bs] by simp
  then have "h' p = h p" using 2(3) by simp
  moreover have "seg h' p (p + 8 + sz) bs"
    using 2(2) by (intro 2(1)) (auto intro: 2(3))
  ultimately show ?case using 2(2) by simp
qed simp

lemma seg_splice:
  assumes "seg h 0 0 (xs @ mid @ ys)" and e: "e = end_of 0 (xs @ mid)"
    and "seg h' (last_of 0 0 xs) (end_of 0 xs) mid'" "end_of (end_of 0 xs) mid' = e"
    and lo: "\<And>a. a < end_of 0 xs \<Longrightarrow> h' a = h a" and hi: "\<And>a. e < a \<Longrightarrow> h' a = h a"
    and hd: "\<And>sz u zs. ys = (sz, u) # zs \<Longrightarrow>
      h' e = Some \<lparr>m_next = e + 8 + sz, m_prev = last_of (last_of 0 0 xs) (end_of 0 xs) mid', m_used = u\<rparr>"
  shows "seg h' 0 0 (xs @ mid' @ ys)"
proof -
  have "seg h' 0 0 xs" using assms(1) by (auto intro: seg_frame lo)
  moreover have "seg h' (last_of (last_of 0 0 xs) (end_of 0 xs) mid') e ys"
  proof (cases ys)
    case (Cons b zs)
    obtain sz u where b: "b = (sz, u)" by fastforce
    have tl: "seg h e (e + 8 + sz) zs" and sz: "12 \<le> sz" "4 dvd sz" using assms(1) Cons b e by auto
    from tl have "seg h' e (e + 8 + sz) zs" by (rule seg_frame) (auto intro: hi)
    then show ?thesis using hd Cons b sz by simp
  qed simp
  ultimately show ?thesis using assms(3,4) by simp
qed

lemma seg_aligned: "seg h pv p bs \<Longrightarrow> 4 dvd p \<Longrightarrow> 4 dvd end_of p bs"
  by (induction h pv p bs rule: seg.induct) auto

lemma first_free_append:
  "first_free p (xs @ ys) = (if \<forall>b \<in> set xs. snd b then first_free (end_of p xs) ys else first_free p xs)"
  by (induction p xs rule: first_free.induct) auto

lemma first_free_less: "\<not> (\<forall>b \<in> set xs. snd b) \<Longrightarrow> first_free p xs < end_of p xs"
proof (induction p xs rule: first_free.induct)
  case (2 p sz u bs)
  then show ?case using end_of_ge [of "p + 8 + sz" bs] by auto
qed simp

lemma first_free_ge: "p \<le> first_free p xs"
  by (induction p xs rule: first_free.induct) auto

lemma first_free_le: "first_free p xs \<le> end_of p xs"
  using first_free_less [of xs p] first_free_append [of p xs "[]"] by (cases "\<forall>b \<in> set xs. snd b") auto


section \<open>Allocation\<close>

text \<open>The first block that fits, and the block list once it is taken.\<close>

fun find_fit :: "nat \<Rightarrow> nat \<Rightarrow> blocks \<Rightarrow> nat option" where
  "find_fit sz p [] = None"
| "find_fit sz p ((n, u) # bs) = (if \<not> u \<and> sz \<le> n then Some p else find_fit sz (p + 8 + n) bs)"

definition take_block :: "nat \<Rightarrow> nat \<Rightarrow> blocks" where
  "take_block sz n = (if sz + 20 \<le> n then [(sz, True), (n - sz - 8, False)] else [(n, True)])"

text \<open>The specification of \<open>mem_malloc\<close>: first fit.\<close>

fun first_fit :: "nat \<Rightarrow> nat \<Rightarrow> blocks \<Rightarrow> (nat \<times> blocks) option" where
  "first_fit sz p [] = None"
| "first_fit sz p ((n, u) # bs) =
     (if \<not> u \<and> sz \<le> n then Some (p, take_block sz n @ bs)
      else map_option (\<lambda>(q, bs'). (q, (n, u) # bs')) (first_fit sz (p + 8 + n) bs))"

lemma user_size_eq: "m_next m = ptr + 8 + n \<Longrightarrow> n < 4294967296 \<Longrightarrow> user_size m ptr = n"
  by (simp add: user_size_def SIZEOF_STRUCT_MEM_def)

lemma find_fit_bound: "find_fit sz p bs = Some q \<Longrightarrow> p \<le> q \<and> q + 8 + sz \<le> end_of p bs"
proof (induction sz p bs rule: find_fit.induct)
  case (2 sz p n u bs)
  then show ?case using end_of_ge [of "p + 8 + n" bs] by (auto split: if_splits)
qed simp

lemma mem_scan_spec:
  "seg (hdrs h) pv p bs \<Longrightarrow> end_of p bs = 12288 \<Longrightarrow> mem_scan sz p h = Some (find_fit sz p bs)"
proof (induction bs arbitrary: pv p)
  case Nil
  then have "\<not> p < 12288 - sz" by simp
  then show ?case by (subst mem_scan.simps) (simp add: c_def)
next
  case (Cons b bs)
  obtain n u where b: "b = (n, u)" by fastforce
  have hp: "hdrs h p = Some \<lparr>m_next = p + 8 + n, m_prev = pv, m_used = u\<rparr>"
    and tl: "seg (hdrs h) p (p + 8 + n) bs" "end_of (p + 8 + n) bs = 12288"
    using Cons.prems b by auto
  have "p + 8 + n \<le> 12288" using end_of_ge [of "p + 8 + n" bs] tl(2) by simp
  then have us: "user_size \<lparr>m_next = p + 8 + n, m_prev = pv, m_used = u\<rparr> p = n"
    by (intro user_size_eq) simp_all
  show ?case
  proof (cases "p < 12288 - sz")
    case True
    then show ?thesis
      using Cons.IH [OF tl] by (subst mem_scan.simps) (simp add: hp us b c_def)
  next
    case False
    have "find_fit sz p (b # bs) = None"
      using find_fit_bound [of sz p "b # bs"] Cons.prems(2) False by (cases "find_fit sz p (b # bs)") auto
    then show ?thesis using False by (subst mem_scan.simps) (simp add: c_def)
  qed
qed

lemma mem_next_free_spec:
  "seg (hdrs h) pv p bs \<Longrightarrow> end_of p bs = 12288 \<Longrightarrow> hdrs h 12288 = Some e \<Longrightarrow> m_used e \<Longrightarrow>
   mem_next_free p h = Some (first_free p bs)"
proof (induction bs arbitrary: pv p)
  case Nil
  then show ?case by (subst mem_next_free.simps) (simp add: c_def)
next
  case (Cons b bs)
  obtain n u where b: "b = (n, u)" by fastforce
  have hp: "hdrs h p = Some \<lparr>m_next = p + 8 + n, m_prev = pv, m_used = u\<rparr>"
    and tl: "seg (hdrs h) p (p + 8 + n) bs" "end_of (p + 8 + n) bs = 12288"
    using Cons.prems b by auto
  have "p \<noteq> 12288" using end_of_ge [of "p + 8 + n" bs] tl(2) by simp
  then show ?case
    using Cons.IH [OF tl Cons.prems(3,4)] by (subst mem_next_free.simps) (simp add: hp b c_def)
qed

lemma find_fit_first_free: "find_fit sz p bs = find_fit sz (first_free p bs) (dropWhile snd bs)"
  by (induction sz p bs rule: find_fit.induct) auto

lemma dropWhile_used: "\<exists>us. bs = us @ dropWhile snd bs \<and> (\<forall>b \<in> set us. snd b) \<and> first_free p bs = end_of p us"
proof (induction p bs rule: first_free.induct)
  case (2 p n u bs)
  show ?case
  proof (cases u)
    case True
    with 2 obtain us where "bs = us @ dropWhile snd bs" "\<forall>b \<in> set us. snd b"
      "first_free (p + 8 + n) bs = end_of (p + 8 + n) us" by auto
    with True show ?thesis by (intro exI [of _ "(n, u) # us"]) simp
  next
    case False
    then show ?thesis by (intro exI [of _ "[]"]) simp
  qed
qed simp

lemma find_fit_None: "find_fit sz p bs = None \<Longrightarrow> first_fit sz p bs = None"
  by (induction sz p bs rule: find_fit.induct) (auto split: if_splits)

lemma find_fit_Some:
  "find_fit sz p bs = Some q \<Longrightarrow> \<exists>xs n ys. bs = xs @ (n, False) # ys \<and> q = end_of p xs \<and> sz \<le> n \<and>
     first_fit sz p bs = Some (q, xs @ take_block sz n @ ys)"
proof (induction sz p bs rule: find_fit.induct)
  case (2 sz p n u bs)
  show ?case
  proof (cases "\<not> u \<and> sz \<le> n")
    case True
    with 2(2) show ?thesis by (intro exI [of _ "[]"] exI [of _ n] exI [of _ bs]) simp
  next
    case False
    with 2(2) have "find_fit sz (p + 8 + n) bs = Some q" by auto
    from 2(1) [OF False this] obtain xs n' ys where
      "bs = xs @ (n', False) # ys" "q = end_of (p + 8 + n) xs" "sz \<le> n'"
      "first_fit sz (p + 8 + n) bs = Some (q, xs @ take_block sz n' @ ys)" by blast
    with False show ?thesis
      by (intro exI [of _ "(n, u) # xs"] exI [of _ n'] exI [of _ ys]) auto
  qed
qed simp

lemma end_of_take_block: "sz \<le> n \<Longrightarrow> end_of p (take_block sz n @ ys) = end_of (p + 8 + n) ys"
  by (simp add: take_block_def ac_simps)

lemma no_holes_splice:
  assumes "no_holes (xs @ (n, u) # ys)" "mid \<noteq> []" "no_holes mid"
    and "xs \<noteq> [] \<Longrightarrow> snd (last xs) \<or> snd (hd mid)" "ys \<noteq> [] \<Longrightarrow> snd (last mid) \<or> snd (hd ys)"
  shows "no_holes (xs @ mid @ ys)"
  using assms by (auto simp: no_holes_def successively_append_iff successively_Cons)

lemma mem_take_spec:
  assumes seg: "seg (hdrs h) 0 0 (xs @ (n, False) # ys)" and fin: "end_of 0 (xs @ (n, False) # ys) = 12288"
    and e: "hdrs h 12288 = Some e" "m_used e" and sz: "sz \<le> n" "12 \<le> sz" "4 dvd sz"
  shows "\<exists>h'. mem_take sz (end_of 0 xs) h = Some h' \<and> lfree h' = lfree h \<and>
    seg (hdrs h') 0 0 (xs @ take_block sz n @ ys) \<and> (\<exists>e. hdrs h' 12288 = Some e \<and> m_used e)"
proof -
  let ?p = "end_of 0 xs" and ?pv = "last_of 0 0 xs"
  have hp: "hdrs h ?p = Some \<lparr>m_next = ?p + 8 + n, m_prev = ?pv, m_used = False\<rparr>"
    and n: "12 \<le> n" "4 dvd n" and tl: "seg (hdrs h) ?p (?p + 8 + n) ys" "end_of (?p + 8 + n) ys = 12288"
    using seg fin by simp_all
  have le: "?p + 8 + n \<le> 12288" using end_of_ge [of "?p + 8 + n" ys] tl(2) by simp
  have us: "user_size \<lparr>m_next = ?p + 8 + n, m_prev = ?pv, m_used = False\<rparr> ?p = n"
    using le by (intro user_size_eq) simp_all
  show ?thesis
  proof (cases "sz + 20 \<le> n")
    case False
    let ?h = "put_hdr ?p \<lparr>m_next = ?p + 8 + n, m_prev = ?pv, m_used = True\<rparr> h"
    have "mem_take sz ?p h = Some ?h" using False by (simp add: mem_take_def hp us c_def set_used_def)
    moreover have "seg (hdrs ?h) 0 0 (xs @ [(n, True)] @ ys)"
      by (rule seg_splice [OF _ refl, of "hdrs h" xs "[(n, False)]" ys])
        (use seg n tl in \<open>auto simp: put_hdr_def\<close>)
    ultimately show ?thesis using False e le by (auto simp: take_block_def put_hdr_def)
  next
    case True
    let ?p2 = "?p + 8 + sz"
    have m: "(?p + 8 + sz) mod 65536 = ?p2" using le sz by simp
    let ?h1 = "put_hdr ?p \<lparr>m_next = ?p2, m_prev = ?pv, m_used = True\<rparr>
      (put_hdr ?p2 \<lparr>m_next = ?p + 8 + n, m_prev = ?p, m_used = False\<rparr> h)"
    have ne: "?p \<noteq> ?p2" "?p2 \<noteq> ?p + 8 + n" "?p + 8 + n \<noteq> ?p" using True by simp_all
    obtain nx where hn: "hdrs h (?p + 8 + n) = Some nx"
    proof (cases ys)
      case Nil
      then have "?p + 8 + n = 12288" using tl(2) by simp
      with e(1) that show ?thesis by (simp only: option.sel)
    next
      case (Cons b bs)
      with tl(1) that show ?thesis by (cases b) simp
    qed
    let ?h2 = "if ?p + 8 + n \<noteq> 12288 then put_hdr (?p + 8 + n) (nx\<lparr>m_prev := ?p2\<rparr>) ?h1 else ?h1"
    have ys: "?p + 8 + n \<noteq> 12288 \<longleftrightarrow> ys \<noteq> []"
    proof (cases ys)
      case (Cons b bs)
      then show ?thesis using tl(2) end_of_ge [of "?p + 8 + n + 8 + fst b" bs] by (cases b) auto
    qed (use tl in simp)
    have "mem_take sz ?p h = Some ?h2"
      using True ne hn
      by (simp add: mem_take_def hp us c_def m set_used_def set_next_def set_prev_def put_hdr_def Let_def)
    moreover have "lfree ?h2 = lfree h" by (simp add: put_hdr_def)
    moreover have "seg (hdrs ?h2) 0 0 (xs @ [(sz, True), (n - sz - 8, False)] @ ys)"
      by (rule seg_splice [OF _ refl, of "hdrs h" xs "[(n, False)]" ys])
        (use seg n tl sz True ne ys hn in \<open>auto simp: put_hdr_def\<close>)
    moreover have "\<exists>e. hdrs ?h2 12288 = Some e \<and> m_used e"
      using e le True ne by (auto simp: put_hdr_def)
    ultimately show ?thesis using True by (auto simp: take_block_def)
  qed
qed


definition req_size :: "u16 \<Rightarrow> nat" where
  "req_size req = max 12 (mem_align_size (unat req))"

lemma req_size_props: "12 \<le> req_size req" "4 dvd req_size req"
proof -
  have "4 dvd (unat req + 3) div 4 * 4" by simp
  then have "4 dvd mem_align_size (unat req)"
    unfolding mem_align_size_def by (rule dvd_mod) simp
  then show "4 dvd req_size req" by (auto simp: req_size_def max_def)
qed (simp add: req_size_def)

lemma no_holes_take:
  assumes "no_holes (xs @ (n, False) # ys)"
  shows "no_holes (xs @ take_block sz n @ ys)"
proof -
  have "ys \<noteq> [] \<Longrightarrow> snd (hd ys)" "no_holes xs \<and> no_holes ys"
    using assms by (auto simp: no_holes_def successively_append_iff successively_Cons)
  with assms show ?thesis
    by (intro no_holes_splice [OF assms]) (auto simp: take_block_def no_holes_def)
qed

lemma first_free_taken:
  assumes "first_free 0 (xs @ (n, False) # ys) \<noteq> end_of 0 xs"
  shows "first_free 0 (xs @ mid) = first_free 0 (xs @ (n, False) # ys)"
  using assms by (auto simp: first_free_append)

text \<open>\<open>mem_malloc\<close> implements first fit on the block list.\<close>

lemma mem_malloc_spec:
  assumes rel: "heap_rel h bs" and req: "req \<noteq> 0"
  shows "case first_fit (req_size req) 0 bs of
      None \<Rightarrow> mem_malloc req h = Some (None, h)
    | Some (q, bs') \<Rightarrow> \<exists>h'. mem_malloc req h = Some (Some (q + 8), h') \<and> heap_rel h' bs'"
proof -
  define sz where "sz = req_size req"
  note props = req_size_props [of req, folded sz_def]
  from rel obtain e where seg: "seg (hdrs h) 0 0 bs" and fin: "end_of 0 bs = 12288"
    and e: "hdrs h 12288 = Some e" "m_used e" and lf: "lfree h = first_free 0 bs" and nh: "no_holes bs"
    by (auto simp: heap_rel_def)
  obtain us where us: "bs = us @ dropWhile snd bs" "\<forall>b \<in> set us. snd b" "first_free 0 bs = end_of 0 us"
    using dropWhile_used [of bs 0] by blast
  have "seg (hdrs h) (last_of 0 0 us) (end_of 0 us) (dropWhile snd bs)"
    "end_of (end_of 0 us) (dropWhile snd bs) = 12288"
    using seg fin us(1) by (metis seg_append) (metis fin us(1) end_of_append)
  then have "mem_scan sz (lfree h) h = Some (find_fit sz (lfree h) (dropWhile snd bs))"
    unfolding lf us(3) by (rule mem_scan_spec)
  also have "find_fit sz (lfree h) (dropWhile snd bs) = find_fit sz 0 bs"
    unfolding lf by (rule find_fit_first_free [symmetric])
  finally have scan: "mem_scan sz (lfree h) h = Some (find_fit sz 0 bs)" .
  have size: "(if mem_align_size (unat req) < MIN_SIZE_ALIGNED then MIN_SIZE_ALIGNED else mem_align_size (unat req)) = sz"
    by (simp add: sz_def req_size_def max_def c_def)
  show ?thesis
  proof (cases "find_fit sz 0 bs")
    case None
    then have "mem_malloc req h = Some (None, h)"
      unfolding mem_malloc_def Let_def size using req scan by simp
    then show ?thesis using find_fit_None [OF None] by (simp add: sz_def)
  next
    case (Some q)
    from find_fit_Some [OF this] obtain xs n ys where bs: "bs = xs @ (n, False) # ys" and q: "q = end_of 0 xs"
      and n: "sz \<le> n" and ff: "first_fit sz 0 bs = Some (q, xs @ take_block sz n @ ys)" by blast
    let ?bs' = "xs @ take_block sz n @ ys"
    from mem_take_spec [OF seg [unfolded bs] fin [unfolded bs] e n props] obtain h1 e1 where
      h1: "mem_take sz q h = Some h1" "lfree h1 = lfree h" "seg (hdrs h1) 0 0 ?bs'"
      "hdrs h1 12288 = Some e1" "m_used e1" unfolding q by blast
    have bnd: "q + 8 + sz \<le> 12288" using find_fit_bound [OF Some] fin by simp
    have al: "4 dvd q" using seg_aligned [of "hdrs h" 0 0 xs] seg bs q by simp
    have fin': "end_of 0 ?bs' = 12288" using fin end_of_take_block [OF n] by (simp add: bs)
    have nh': "no_holes ?bs'" using no_holes_take nh bs by simp
    have m4: "(q + 8) mod 4 = 0" "q mod 4 = 0" using al by (auto simp: mod_eq_0_iff_dvd)
    define adj where "adj = (if q = lfree h1 then do {
        cur \<leftarrow> mem_next_free (lfree h1) h1;
        let h = h1\<lparr>lfree := cur\<rparr>;
        m \<leftarrow> hdrs h cur;
        c_assert (cur = MEM_SIZE_ALIGNED \<or> \<not> m_used m);
        Some h } else Some h1)"
    have adj: "adj = Some (h1\<lparr>lfree := first_free 0 ?bs'\<rparr>)"
    proof (cases "q = lfree h1")
      case True
      let ?rest = "take_block sz n @ ys"
      let ?cur = "first_free (end_of 0 xs) ?rest"
      have allused: "\<forall>b \<in> set xs. snd b"
        using True h1(2) lf q first_free_less [of xs 0] by (auto simp: bs first_free_append split: if_splits)
      then have cur: "first_free 0 ?bs' = ?cur" by (simp add: first_free_append)
      have rest: "seg (hdrs h1) (last_of 0 0 xs) (end_of 0 xs) ?rest" "end_of (end_of 0 xs) ?rest = 12288"
        using h1(3) fin' by simp_all
      have nf: "mem_next_free (lfree h1) h1 = Some ?cur"
        using mem_next_free_spec [OF rest h1(4,5)] True q by simp
      have "\<exists>m. hdrs h1 ?cur = Some m \<and> (?cur = 12288 \<or> \<not> m_used m)"
      proof -
        obtain vs where vs: "?rest = vs @ dropWhile snd ?rest" "?cur = end_of (end_of 0 xs) vs"
          using dropWhile_used [of ?rest "end_of 0 xs"] by blast
        show ?thesis
        proof (cases "dropWhile snd ?rest")
          case Nil
          then have "?cur = 12288" using vs rest(2) by (metis append_Nil2)
          then show ?thesis using h1(4) by simp
        next
          case (Cons b cs)
          then have "\<not> snd b" by (metis hd_dropWhile list.discI list.sel(1))
          moreover have "seg (hdrs h1) (last_of (last_of 0 0 xs) (end_of 0 xs) vs) ?cur (b # cs)"
            using rest(1) vs Cons by (metis seg_append)
          ultimately show ?thesis by (cases b) auto
        qed
      qed
      then show ?thesis using True nf cur unfolding adj_def by (auto simp: c_def Let_def)
    next
      case False
      then have "first_free 0 ?bs' = lfree h1"
        using first_free_taken [of xs n ys "take_block sz n @ ys"] h1(2) lf q bs by simp
      with False show ?thesis by (simp add: adj_def)
    qed
    have "mem_malloc req h = Some (Some (q + 8), h1\<lparr>lfree := first_free 0 ?bs'\<rparr>)"
      unfolding mem_malloc_def Let_def size scan Some
      using req bnd m4 adj h1(1) unfolding adj_def Let_def by (simp add: c_def)
    moreover have "heap_rel (h1\<lparr>lfree := first_free 0 ?bs'\<rparr>) ?bs'"
      using h1 fin' nh' by (simp add: heap_rel_def)
    ultimately show ?thesis using ff by (auto simp: sz_def)
  qed
qed


section \<open>Release\<close>

text \<open>The specification of \<open>mem_free\<close>: the block becomes free and is joined with its neighbours.\<close>

fun join_right :: "nat \<Rightarrow> blocks \<Rightarrow> nat \<times> blocks" where
  "join_right n ((m, False) # ys) = (n + 8 + m, ys)"
| "join_right n ys = (n, ys)"

definition join_left :: "blocks \<Rightarrow> nat \<Rightarrow> blocks \<times> nat" where
  "join_left xs n = (if xs \<noteq> [] \<and> \<not> snd (last xs) then (butlast xs, fst (last xs) + 8 + n) else (xs, n))"

definition free_block :: "blocks \<Rightarrow> nat \<Rightarrow> blocks \<Rightarrow> blocks" where
  "free_block xs n ys =
     (let (n, ys) = join_right n ys; (xs, n) = join_left xs n in xs @ (n, False) # ys)"

lemma heads:
  assumes "seg (hdrs h) pv p ys" "end_of p ys = 12288" "hdrs h 12288 = Some e"
  shows "\<exists>m. hdrs h p = Some m" "p = 12288 \<longleftrightarrow> ys = []"
proof -
  show "p = 12288 \<longleftrightarrow> ys = []"
  proof (cases ys)
    case (Cons b bs)
    then show ?thesis using assms(2) end_of_ge [of "p + 8 + fst b" bs] by (cases b) auto
  qed (use assms in simp)
  then show "\<exists>m. hdrs h p = Some m" using assms by (cases ys) auto
qed

lemma plug_forward_spec:
  assumes seg: "seg (hdrs h) 0 0 (xs @ (n, False) # ys)" and fin: "end_of 0 (xs @ (n, False) # ys) = 12288"
    and e: "hdrs h 12288 = Some e" "m_used e" and lf: "lfree h \<le> end_of 0 xs"
    and jr: "join_right n ys = (n', ys')"
  shows "\<exists>h'. plug_forward (end_of 0 xs) h = Some h' \<and> lfree h' = lfree h \<and>
    seg (hdrs h') 0 0 (xs @ (n', False) # ys') \<and> (\<exists>e. hdrs h' 12288 = Some e \<and> m_used e)"
proof -
  let ?p = "end_of 0 xs" and ?pv = "last_of 0 0 xs"
  let ?q = "?p + 8 + n"
  have hp: "hdrs h ?p = Some \<lparr>m_next = ?q, m_prev = ?pv, m_used = False\<rparr>"
    and n: "12 \<le> n" "4 dvd n" and tl: "seg (hdrs h) ?p ?q ys" "end_of ?q ys = 12288"
    using seg fin by simp_all
  have le: "?q \<le> 12288" using end_of_ge [of ?q ys] tl(2) by simp
  show ?thesis
  proof (cases "\<exists>m zs. ys = (m, False) # zs")
    case False
    then have "n' = n" "ys' = ys" using jr by (cases "(n, ys)" rule: join_right.cases; auto)+
    moreover have "?q = 12288 \<or> (\<exists>m. hdrs h ?q = Some m \<and> m_used m)"
      using False tl heads(2) [OF tl e(1)] by (cases ys) auto
    then have "plug_forward ?p h = Some h"
      using heads(1) [OF tl e(1)] by (auto simp: plug_forward_def hp c_def)
    ultimately show ?thesis using seg e by auto
  next
    case True
    then obtain m zs where ys: "ys = (m, False) # zs" by blast
    then have n': "n' = n + 8 + m" "ys' = zs" using jr by simp_all
    let ?r = "?q + 8 + m"
    have hq: "hdrs h ?q = Some \<lparr>m_next = ?r, m_prev = ?p, m_used = False\<rparr>"
      and m: "12 \<le> m" "4 dvd m" and tl2: "seg (hdrs h) ?q ?r zs" "end_of ?r zs = 12288"
      using tl ys by simp_all
    obtain nx where nx: "hdrs h ?r = Some nx" using heads(1) [OF tl2 e(1)] by blast
    have rle: "?r \<le> 12288" using end_of_ge [of ?r zs] tl2(2) by simp
    let ?h = "put_hdr ?r (nx\<lparr>m_prev := ?p\<rparr>)
       (put_hdr ?p \<lparr>m_next = ?r, m_prev = ?pv, m_used = False\<rparr> h)"
    have "plug_forward ?p h = Some ?h"
      using lf rle nx by (simp add: plug_forward_def hp hq c_def set_next_def set_prev_def put_hdr_def)
    moreover have "lfree ?h = lfree h" by (simp add: put_hdr_def)
    moreover have "seg (hdrs ?h) 0 0 (xs @ [(n', False)] @ zs)"
      by (rule seg_splice [OF _ refl, of "hdrs h" xs "[(n, False), (m, False)]" zs])
        (use seg ys n m nx tl2 n' in \<open>auto simp: put_hdr_def ac_simps\<close>)
    moreover have "\<exists>e. hdrs ?h 12288 = Some e \<and> m_used e"
    proof (cases "?r = 12288")
      case True
      with nx e have "m_used nx" by (simp only: option.inject)
      then show ?thesis using True by (simp add: put_hdr_def)
    next
      case False
      then show ?thesis using e rle by (auto simp: put_hdr_def)
    qed
    ultimately show ?thesis using n' by auto
  qed
qed

lemma plug_backward_spec:
  assumes seg: "seg (hdrs h) 0 0 (xs @ (n, False) # ys)" and fin: "end_of 0 (xs @ (n, False) # ys) = 12288"
    and e: "hdrs h 12288 = Some e" "m_used e"
    and lf: "xs \<noteq> [] \<and> \<not> snd (last xs) \<Longrightarrow> lfree h \<noteq> end_of 0 xs"
    and jl: "join_left xs n = (xs', n')"
  shows "\<exists>h'. plug_backward (end_of 0 xs) h = Some h' \<and> lfree h' = lfree h \<and>
    seg (hdrs h') 0 0 (xs' @ (n', False) # ys) \<and> (\<exists>e. hdrs h' 12288 = Some e \<and> m_used e)"
proof -
  let ?p = "end_of 0 xs" and ?pv = "last_of 0 0 xs"
  let ?q = "?p + 8 + n"
  have hp: "hdrs h ?p = Some \<lparr>m_next = ?q, m_prev = ?pv, m_used = False\<rparr>"
    and n: "12 \<le> n" "4 dvd n" and tl: "seg (hdrs h) ?p ?q ys" "end_of ?q ys = 12288"
    using seg fin by simp_all
  have le: "?q \<le> 12288" using end_of_ge [of ?q ys] tl(2) by simp
  show ?thesis
  proof (cases "xs = []")
    case True
    then have "xs' = []" "n' = n" using jl by (simp_all add: join_left_def)
    moreover have "plug_backward ?p h = Some h" using True hp by (simp add: plug_backward_def)
    ultimately show ?thesis using seg True e by auto
  next
    case False
    then obtain ws m u where xs: "xs = ws @ [(m, u)]" by (metis append_butlast_last_id prod.exhaust)
    let ?w = "end_of 0 ws"
    have pv: "?pv = ?w" and p: "?p = ?w + 8 + m" by (simp_all add: xs)
    have hw: "hdrs h ?w = Some \<lparr>m_next = ?w + 8 + m, m_prev = last_of 0 0 ws, m_used = u\<rparr>"
      and m: "12 \<le> m" "4 dvd m" using seg xs by simp_all
    show ?thesis
    proof (cases u)
      case True
      then have "xs' = xs" "n' = n" using jl xs by (auto simp: join_left_def)
      moreover have "plug_backward ?p h = Some h" using hp hw True by (simp add: plug_backward_def pv)
      ultimately show ?thesis using seg e by auto
    next
      case u: False
      then have n': "xs' = ws" "n' = m + 8 + n" using jl xs by (auto simp: join_left_def)
      have lf': "lfree h \<noteq> ?p" using lf xs u by simp
      have wl: "?w < 12288" using p le by simp
      obtain nx where nx: "hdrs h ?q = Some nx" using heads(1) [OF tl e(1)] by blast
      let ?h = "put_hdr ?q (nx\<lparr>m_prev := ?w\<rparr>)
         (put_hdr ?w \<lparr>m_next = ?q, m_prev = last_of 0 0 ws, m_used = False\<rparr> h)"
      have "plug_backward ?p h = Some ?h"
        using hp hw nx u lf' le by (simp add: plug_backward_def pv p set_next_def set_prev_def put_hdr_def Let_def)
      moreover have "lfree ?h = lfree h" by (simp add: put_hdr_def)
      moreover have "seg (hdrs ?h) 0 0 (ws @ [(n', False)] @ ys)"
        by (rule seg_splice [OF _ refl, of "hdrs h" ws "[(m, u), (n, False)]" ys])
          (use seg xs n m nx tl n' u in \<open>auto simp: put_hdr_def ac_simps\<close>)
      moreover have "\<exists>e. hdrs ?h 12288 = Some e \<and> m_used e"
      proof (cases "?q = 12288")
        case True
        with nx e have "m_used nx" by (simp only: option.inject)
        then show ?thesis using True by (simp add: put_hdr_def)
      next
        case False
        then show ?thesis using e le wl by (auto simp: put_hdr_def)
      qed
      ultimately show ?thesis using n' by auto
    qed
  qed
qed

lemma join_right_props:
  "join_right n ys = (n', ys') \<Longrightarrow> end_of (p + 8 + n) ys = end_of (p + 8 + n') ys' \<and>
     (no_holes ys \<longrightarrow> no_holes ys' \<and> (ys' \<noteq> [] \<longrightarrow> snd (hd ys')))"
  by (cases "(n, ys)" rule: join_right.cases) (auto simp: no_holes_def successively_Cons ac_simps)

lemma join_left_props:
  "join_left xs n = (xs', n') \<Longrightarrow> end_of 0 xs + 8 + n = end_of 0 xs' + 8 + n' \<and>
     (no_holes xs \<longrightarrow> no_holes xs' \<and> (xs' \<noteq> [] \<longrightarrow> snd (last xs'))) \<and>
     first_free 0 (xs' @ (n', False) # ys) = first_free 0 (xs @ (n, False) # zs)"
proof (cases "xs \<noteq> [] \<and> \<not> snd (last xs)")
  case True
  assume jl: "join_left xs n = (xs', n')"
  from True obtain ws m where xs: "xs = ws @ [(m, False)]"
    by (metis append_butlast_last_id prod.exhaust snd_conv)
  with jl True have "xs' = ws" "n' = m + 8 + n" by (auto simp: join_left_def)
  then show ?thesis using xs
    by (auto simp: no_holes_def successively_append_iff first_free_append)
next
  case False
  assume "join_left xs n = (xs', n')"
  with False show ?thesis by (auto simp: join_left_def first_free_append)
qed

text \<open>\<open>mem_free\<close> of a used block joins it with its free neighbours.\<close>

lemma mem_free_spec:
  assumes rel: "heap_rel h bs" and bs: "bs = xs @ (n, True) # ys"
  shows "\<exists>h'. mem_free (Some (end_of 0 xs + 8)) h = Some h' \<and> heap_rel h' (free_block xs n ys)"
proof -
  let ?p = "end_of 0 xs"
  from rel bs obtain e where seg: "seg (hdrs h) 0 0 (xs @ (n, True) # ys)"
    and fin: "end_of 0 (xs @ (n, True) # ys) = 12288" and e: "hdrs h 12288 = Some e" "m_used e"
    and lf: "lfree h = first_free 0 (xs @ (n, True) # ys)" and nh: "no_holes (xs @ (n, True) # ys)"
    by (auto simp: heap_rel_def)
  have hp: "hdrs h ?p = Some \<lparr>m_next = ?p + 8 + n, m_prev = last_of 0 0 xs, m_used = True\<rparr>"
    and n: "12 \<le> n" "4 dvd n" and tl: "seg (hdrs h) ?p (?p + 8 + n) ys" "end_of (?p + 8 + n) ys = 12288"
    using seg fin by simp_all
  have le: "?p + 8 + n \<le> 12288" using end_of_ge [of "?p + 8 + n" ys] tl(2) by simp
  have al: "4 dvd ?p" using seg_aligned [of "hdrs h" 0 0 xs] seg by simp
  define h1 where "h1 = put_hdr ?p \<lparr>m_next = ?p + 8 + n, m_prev = last_of 0 0 xs, m_used = False\<rparr> h"
  define h2 where "h2 = (if ?p < lfree h1 then h1\<lparr>lfree := ?p\<rparr> else h1)"
  have hh: "hdrs h2 = (hdrs h)(?p \<mapsto> \<lparr>m_next = ?p + 8 + n, m_prev = last_of 0 0 xs, m_used = False\<rparr>)"
    by (simp add: h1_def h2_def put_hdr_def)
  have "seg (hdrs h2) 0 0 (xs @ [(n, False)] @ ys)"
    by (rule seg_splice [OF _ refl, of "hdrs h" xs "[(n, True)]" ys])
      (use seg n tl in \<open>auto simp: hh\<close>)
  then have seg2: "seg (hdrs h2) 0 0 (xs @ (n, False) # ys)" by simp
  have fin2: "end_of 0 (xs @ (n, False) # ys) = 12288" using fin by simp
  have e2: "hdrs h2 12288 = Some e" using e le by (auto simp: h1_def h2_def put_hdr_def)
  have lf2: "lfree h2 = first_free 0 (xs @ (n, False) # ys)"
    using lf first_free_less [of xs 0] first_free_ge [of "?p + 8 + n" ys]
    by (auto simp: h1_def h2_def put_hdr_def first_free_append split: if_splits)
  then have lf2': "lfree h2 \<le> ?p"
    using first_free_le [of 0 xs] by (auto simp: first_free_append)
  obtain n1 ys1 where jr: "join_right n ys = (n1, ys1)" by fastforce
  obtain xs2 n2 where jl: "join_left xs n1 = (xs2, n2)" by fastforce
  from plug_forward_spec [OF seg2 fin2 e2 e(2) lf2' jr] obtain h3 e3 where
    h3: "plug_forward ?p h2 = Some h3" "lfree h3 = lfree h2" "seg (hdrs h3) 0 0 (xs @ (n1, False) # ys1)"
      "hdrs h3 12288 = Some e3" "m_used e3" by blast
  have fin3: "end_of 0 (xs @ (n1, False) # ys1) = 12288"
    using join_right_props [OF jr, of ?p] fin2 by simp
  have lf3: "lfree h3 \<noteq> ?p" if "xs \<noteq> [] \<and> \<not> snd (last xs)"
  proof -
    have "\<not> (\<forall>b \<in> set xs. snd b)" using that by auto
    then show ?thesis using first_free_less [of xs 0] h3(2) lf2 by (auto simp: first_free_append)
  qed
  from plug_backward_spec [OF h3(3) fin3 h3(4,5) lf3 jl] obtain h4 where
    h4: "plug_backward ?p h3 = Some h4" "lfree h4 = lfree h3" "seg (hdrs h4) 0 0 (xs2 @ (n2, False) # ys1)"
      "\<exists>e. hdrs h4 12288 = Some e \<and> m_used e" by blast
  have "plug_holes ?p h2 = Some h4"
    using h3(1) h4(1) le seg2 by (simp add: plug_holes_def c_def)
  moreover have "(?p + 8) mod 4 = 0" using al by (auto simp: mod_eq_0_iff_dvd)
  ultimately have "mem_free (Some (?p + 8)) h = Some h4"
  proof -
    have "set_used ?p False h = Some h1" by (simp add: set_used_def hp h1_def)
    then show ?thesis using le n \<open>plug_holes ?p h2 = Some h4\<close> \<open>(?p + 8) mod 4 = 0\<close>
      by (simp add: mem_free_def c_def hp Let_def h2_def [symmetric])
  qed
  moreover have "heap_rel h4 (xs2 @ (n2, False) # ys1)"
  proof -
    have nx: "no_holes xs" "no_holes ys"
      using nh by (auto simp: no_holes_def successively_append_iff successively_Cons)
    note R = join_right_props [OF jr, of ?p] and L = join_left_props [OF jl, of ys1 ys]
    have "no_holes (xs2 @ (n2, False) # ys1)"
      using R L nx by (auto simp: no_holes_def successively_append_iff successively_Cons)
    moreover have "end_of 0 (xs2 @ (n2, False) # ys1) = 12288"
      using fin3 conjunct1 [OF L] by (simp only: end_of_append end_of.simps)
    moreover have "lfree h4 = first_free 0 (xs2 @ (n2, False) # ys1)"
      using h4(2) h3(2) lf2 L join_left_props [OF jl, of ys1 ys1] by (simp add: first_free_append)
    ultimately show ?thesis using h4 by (simp add: heap_rel_def)
  qed
  moreover have "free_block xs n ys = xs2 @ (n2, False) # ys1"
    by (simp add: free_block_def jr jl)
  ultimately show ?thesis by auto
qed


section \<open>Shrinking\<close>

fun trim_block :: "nat \<Rightarrow> nat \<Rightarrow> blocks \<Rightarrow> blocks" where
  "trim_block sz n ((m, False) # ys) =
     (if sz = n then (n, True) # (m, False) # ys else (sz, True) # (m + n - sz, False) # ys)"
| "trim_block sz n ys =
     (if sz + 20 \<le> n then (sz, True) # (n - sz - 8, False) # ys else (n, True) # ys)"

lemma mem_trim_spec:
  assumes rel: "heap_rel h bs" and bs: "bs = xs @ (n, True) # ys" and fit: "req_size req \<le> n"
  shows "\<exists>h'. mem_trim (end_of 0 xs + 8) req h = Some (Some (end_of 0 xs + 8), h') \<and>
    heap_rel h' (xs @ trim_block (req_size req) n ys)"
proof -
  let ?p = "end_of 0 xs" and ?pv = "last_of 0 0 xs"
  let ?q = "?p + 8 + n"
  define sz where "sz = req_size req"
  note props = req_size_props [of req, folded sz_def]
  from rel bs obtain e where seg: "seg (hdrs h) 0 0 (xs @ (n, True) # ys)"
    and fin: "end_of 0 (xs @ (n, True) # ys) = 12288" and e: "hdrs h 12288 = Some e" "m_used e"
    and lf: "lfree h = first_free 0 (xs @ (n, True) # ys)" and nh: "no_holes (xs @ (n, True) # ys)"
    by (auto simp: heap_rel_def)
  have hp: "hdrs h ?p = Some \<lparr>m_next = ?q, m_prev = ?pv, m_used = True\<rparr>"
    and n: "12 \<le> n" "4 dvd n" and tl: "seg (hdrs h) ?p ?q ys" "end_of ?q ys = 12288"
    using seg fin by simp_all
  have le: "?q \<le> 12288" using end_of_ge [of ?q ys] tl(2) by simp
  have us: "user_size \<lparr>m_next = ?q, m_prev = ?pv, m_used = True\<rparr> ?p = n"
    using le by (intro user_size_eq) simp_all
  have size: "(if mem_align_size (unat req) < MIN_SIZE_ALIGNED then MIN_SIZE_ALIGNED else mem_align_size (unat req)) = sz"
    by (simp add: sz_def req_size_def max_def c_def)
  have sz: "sz \<le> n" using fit by (simp add: sz_def)
  have m65: "(?p + 8 + sz) mod 65536 = ?p + 8 + sz" using le sz by simp
  have nhs: "no_holes xs" "no_holes ys" using nh
    by (auto simp: no_holes_def successively_append_iff successively_Cons)
  have lfx: "\<not> (\<forall>b \<in> set xs. snd b) \<Longrightarrow> lfree h < ?p \<and> lfree h = first_free 0 xs"
    "\<forall>b \<in> set xs. snd b \<Longrightarrow> lfree h = first_free ?q ys"
    using lf first_free_less [of xs 0] by (auto simp: first_free_append)
  have same: "mem_trim (?p + 8) req h = Some (Some (?p + 8), h) \<Longrightarrow>
      trim_block sz n ys = (n, True) # ys \<Longrightarrow> ?thesis"
    using rel bs by (auto simp: sz_def)
  show ?thesis
  proof (cases "sz = n")
    case True
    show ?thesis
    proof (rule same)
      show "mem_trim (?p + 8) req h = Some (Some (?p + 8), h)"
        unfolding mem_trim_def Let_def size using hp us le True n by (simp add: c_def)
      show "trim_block sz n ys = (n, True) # ys"
        using True by (cases "(sz, n, ys)" rule: trim_block.cases) auto
    qed
  next
    case ne: False
    then have lt: "sz < n" using sz by simp
    obtain m2 where m2: "hdrs h ?q = Some m2" using heads(1) [OF tl e(1)] by blast
    let ?p2 = "?p + 8 + sz"
    show ?thesis
    proof (cases "\<exists>m zs. ys = (m, False) # zs")
      case True
      then obtain m zs where ys: "ys = (m, False) # zs" by blast
      let ?r = "?q + 8 + m"
      have hq: "hdrs h ?q = Some \<lparr>m_next = ?r, m_prev = ?p, m_used = False\<rparr>"
        and m: "12 \<le> m" "4 dvd m" and tl2: "seg (hdrs h) ?q ?r zs" "end_of ?r zs = 12288"
        using tl ys by simp_all
      obtain nx where nx: "hdrs h ?r = Some nx" using heads(1) [OF tl2 e(1)] by blast
      have rle: "?r \<le> 12288" using end_of_ge [of ?r zs] tl2(2) by simp
      have r0: "?r \<noteq> 12288 \<longleftrightarrow> zs \<noteq> []" using heads(2) [OF tl2 e(1)] by blast
      define lf' where "lf' = (if lfree h = ?q then ?p2 else lfree h)"
      let ?h1 = "put_hdr ?p \<lparr>m_next = ?p2, m_prev = ?pv, m_used = True\<rparr>
         (put_hdr ?p2 \<lparr>m_next = ?r, m_prev = ?p, m_used = False\<rparr> (h\<lparr>lfree := lf'\<rparr>))"
      let ?h2 = "if ?r \<noteq> 12288 then put_hdr ?r (nx\<lparr>m_prev := ?p2\<rparr>) ?h1 else ?h1"
      have "mem_trim (?p + 8) req h = Some (Some (?p + 8), ?h2)"
        unfolding mem_trim_def Let_def size using hp us le lt hq nx n m65
        by (simp add: c_def set_next_def set_prev_def put_hdr_def lf'_def)
      moreover have "seg (hdrs ?h2) 0 0 (xs @ [(sz, True), (m + n - sz, False)] @ zs)"
        by (rule seg_splice [OF _ refl, of "hdrs h" xs "[(n, True), (m, False)]" zs])
          (use seg ys n m nx tl2 props lt r0 in \<open>auto simp: put_hdr_def ac_simps\<close>)
      moreover have "end_of 0 (xs @ [(sz, True), (m + n - sz, False)] @ zs) = 12288"
        using tl2(2) lt by (simp add: ac_simps)
      moreover have "lfree ?h2 = first_free 0 (xs @ [(sz, True), (m + n - sz, False)] @ zs)"
      proof (cases "\<forall>b \<in> set xs. snd b")
        case True
        then show ?thesis using lfx(2) lt ys by (simp add: put_hdr_def lf'_def first_free_append)
      next
        case False
        then have "lfree h < ?p" "lfree h = first_free 0 xs" using lfx(1) by simp_all
        then show ?thesis using False by (auto simp: put_hdr_def lf'_def first_free_append)
      qed
      moreover have "\<exists>e. hdrs ?h2 12288 = Some e \<and> m_used e"
        using e le rle lt m by (auto simp: put_hdr_def)
      moreover have "no_holes (xs @ [(sz, True), (m + n - sz, False)] @ zs)"
        using nhs ys by (auto simp: no_holes_def successively_append_iff successively_Cons)
      moreover have "trim_block sz n ys = [(sz, True), (m + n - sz, False)] @ zs"
        using ys ne by simp
      ultimately show ?thesis unfolding heap_rel_def sz_def [symmetric] by simp
    next
      case nofree: False
      have u2: "m_used m2"
      proof (cases ys)
        case Nil
        then have "?q = 12288" using tl(2) by simp
        with m2 e show ?thesis by (simp only: option.inject)
      next
        case (Cons b cs)
        with nofree tl m2 show ?thesis by (cases b) auto
      qed
      have tb: "trim_block sz n ys = (if sz + 20 \<le> n then (sz, True) # (n - sz - 8, False) # ys else (n, True) # ys)"
        using nofree by (cases "(sz, n, ys)" rule: trim_block.cases) auto
      show ?thesis
      proof (cases "sz + 20 \<le> n")
        case False
        show ?thesis
        proof (rule same)
          show "mem_trim (?p + 8) req h = Some (Some (?p + 8), h)"
            unfolding mem_trim_def Let_def size using hp us le lt m2 u2 n False by (simp add: c_def)
        qed (use tb False in simp)
      next
        case True
        have q0: "?q \<noteq> 12288 \<longleftrightarrow> ys \<noteq> []" using heads(2) [OF tl e(1)] by blast
        define lf' where "lf' = (if ?p2 < lfree h then ?p2 else lfree h)"
        let ?h1 = "put_hdr ?p \<lparr>m_next = ?p2, m_prev = ?pv, m_used = True\<rparr>
           (put_hdr ?p2 \<lparr>m_next = ?q, m_prev = ?p, m_used = False\<rparr> (h\<lparr>lfree := lf'\<rparr>))"
        let ?h2 = "if ?q \<noteq> 12288 then put_hdr ?q (m2\<lparr>m_prev := ?p2\<rparr>) ?h1 else ?h1"
        have "mem_trim (?p + 8) req h = Some (Some (?p + 8), ?h2)"
          unfolding mem_trim_def Let_def size using hp us le lt m2 u2 n m65 True
          by (simp add: c_def set_next_def set_prev_def put_hdr_def lf'_def)
        moreover have "seg (hdrs ?h2) 0 0 (xs @ [(sz, True), (n - sz - 8, False)] @ ys)"
          by (rule seg_splice [OF _ refl, of "hdrs h" xs "[(n, True)]" ys])
            (use seg n m2 tl props True q0 in \<open>auto simp: put_hdr_def\<close>)
        moreover have "end_of 0 (xs @ [(sz, True), (n - sz - 8, False)] @ ys) = 12288"
          using tl(2) True by (simp add: ac_simps)
        moreover have "lfree ?h2 = first_free 0 (xs @ [(sz, True), (n - sz - 8, False)] @ ys)"
        proof (cases "\<forall>b \<in> set xs. snd b")
          case allu: True
          then show ?thesis using lfx(2) first_free_ge [of ?q ys] True
            by (simp add: put_hdr_def lf'_def first_free_append)
        next
          case False
          then have "lfree h < ?p" "lfree h = first_free 0 xs" using lfx(1) by simp_all
          then show ?thesis using False by (auto simp: put_hdr_def lf'_def first_free_append)
        qed
        moreover have "\<exists>e. hdrs ?h2 12288 = Some e \<and> m_used e"
          using e le True by (auto simp: put_hdr_def)
        moreover have "no_holes (xs @ [(sz, True), (n - sz - 8, False)] @ ys)"
          using nhs nofree by (cases ys) (auto simp: no_holes_def successively_append_iff successively_Cons)
        moreover have "trim_block sz n ys = [(sz, True), (n - sz - 8, False)] @ ys"
          using tb True by simp
        ultimately show ?thesis unfolding heap_rel_def sz_def [symmetric] by simp
      qed
    qed
  qed
qed


section \<open>Live blocks\<close>

text \<open>The user addresses and data sizes of the used blocks.\<close>

fun used_at :: "nat \<Rightarrow> blocks \<Rightarrow> (nat \<times> nat) set" where
  "used_at p [] = {}"
| "used_at p ((n, u) # bs) = (if u then {(p + 8, n)} else {}) \<union> used_at (p + 8 + n) bs"

lemma used_at_append [simp]: "used_at p (xs @ ys) = used_at p xs \<union> used_at (end_of p xs) ys"
  by (induction p xs rule: used_at.induct) auto

lemma used_at_bounds: "(a, n) \<in> used_at p bs \<Longrightarrow> p + 8 \<le> a \<and> a + n \<le> end_of p bs"
proof (induction p bs rule: used_at.induct)
  case (2 p m u bs)
  then show ?case using end_of_ge [of "p + 8 + m" bs] by (auto split: if_splits)
qed simp

lemma used_at_split:
  "(a, n) \<in> used_at p bs \<Longrightarrow> \<exists>xs ys. bs = xs @ (n, True) # ys \<and> a = end_of p xs + 8"
proof (induction p bs rule: used_at.induct)
  case (2 p m u bs)
  show ?case
  proof (cases "(a, n) \<in> used_at (p + 8 + m) bs")
    case True
    from 2(1) [OF this] obtain xs ys where "bs = xs @ (n, True) # ys" "a = end_of (p + 8 + m) xs + 8" by blast
    then show ?thesis by (intro exI [of _ "(m, u) # xs"] exI [of _ ys]) simp
  next
    case False
    with 2(2) show ?thesis by (intro exI [of _ "[]"] exI [of _ bs]) (auto split: if_splits)
  qed
qed simp

lemma used_at_apart:
  "(a, n) \<in> used_at p bs \<Longrightarrow> (b, m) \<in> used_at p bs \<Longrightarrow> a \<noteq> b \<Longrightarrow> a + n + 8 \<le> b \<or> b + m + 8 \<le> a"
proof (induction p bs rule: used_at.induct)
  case (2 p k u bs)
  then show ?case using used_at_bounds [of _ _ "p + 8 + k" bs] by (fastforce split: if_splits)
qed simp

lemma used_at_fun: "(a, n) \<in> used_at p bs \<Longrightarrow> (a, m) \<in> used_at p bs \<Longrightarrow> n = m"
proof (induction p bs rule: used_at.induct)
  case (2 p k u bs)
  then show ?case using used_at_bounds [of _ _ "p + 8 + k" bs] by (fastforce split: if_splits)
qed simp

lemma used_at_aligned: "(a, n) \<in> used_at p bs \<Longrightarrow> seg h pv p bs \<Longrightarrow> 4 dvd p \<Longrightarrow> 4 dvd a"
  by (induction h pv p bs rule: seg.induct) (auto split: if_splits)

lemma first_fit_used:
  assumes "first_fit sz p bs = Some (q, bs')"
  shows "\<exists>n. sz \<le> n \<and> used_at p bs' = insert (q + 8, n) (used_at p bs) \<and> (\<forall>m. (q + 8, m) \<notin> used_at p bs)"
  using assms
proof (induction sz p bs arbitrary: bs' rule: first_fit.induct)
  case (2 sz p n u bs)
  show ?case
  proof (cases "\<not> u \<and> sz \<le> n")
    case True
    with 2(2) have q: "q = p" "bs' = take_block sz n @ bs" by auto
    have "(p + 8, m) \<notin> used_at (p + 8 + n) bs" for m
      using used_at_bounds [of "p + 8" m "p + 8 + n" bs] by auto
    moreover have "used_at p bs' = insert (q + 8, if sz + 20 \<le> n then sz else n) (used_at (p + 8 + n) bs)"
      using True q by (auto simp: take_block_def ac_simps)
    ultimately show ?thesis using True q
      by (intro exI [of _ "if sz + 20 \<le> n then sz else n"]) auto
  next
    case False
    with 2(2) obtain bs1 where bs1: "first_fit sz (p + 8 + n) bs = Some (q, bs1)" "bs' = (n, u) # bs1" by auto
    from 2(1) [OF False bs1(1)] obtain k where k: "sz \<le> k"
      "used_at (p + 8 + n) bs1 = insert (q + 8, k) (used_at (p + 8 + n) bs)"
      "\<forall>m. (q + 8, m) \<notin> used_at (p + 8 + n) bs" by blast
    then have "(q + 8, k) \<in> used_at (p + 8 + n) bs1" by simp
    from used_at_bounds [OF this] have "p \<noteq> q" by simp
    with k bs1 show ?thesis by (intro exI [of _ k]) auto
  qed
qed simp

lemma free_block_used:
  "used_at 0 (free_block xs n ys) = used_at 0 (xs @ (n, True) # ys) - {(end_of 0 xs + 8, n)}"
proof -
  obtain n1 ys1 where jr: "join_right n ys = (n1, ys1)" by fastforce
  obtain xs2 n2 where jl: "join_left xs n1 = (xs2, n2)" by fastforce
  have 1: "used_at (p + 8 + n) ys = used_at (p + 8 + n1) ys1" for p
    using jr by (cases "(n, ys)" rule: join_right.cases) (auto simp: ac_simps)
  have 2: "used_at 0 xs2 \<union> used_at (end_of 0 xs2 + 8 + n2) ys1 = used_at 0 xs \<union> used_at (end_of 0 xs + 8 + n1) ys1"
  proof (cases "xs \<noteq> [] \<and> \<not> snd (last xs)")
    case True
    then obtain ws m where xs: "xs = ws @ [(m, False)]"
      by (metis append_butlast_last_id prod.exhaust snd_conv)
    with jl have "xs2 = ws" "n2 = m + 8 + n1" by (auto simp: join_left_def)
    then show ?thesis using xs by (simp add: ac_simps)
  next
    case False
    then show ?thesis using jl by (auto simp: join_left_def)
  qed
  have "(end_of 0 xs + 8, n) \<notin> used_at 0 xs" "(end_of 0 xs + 8, n) \<notin> used_at (end_of 0 xs + 8 + n) ys"
    using used_at_bounds [of "end_of 0 xs + 8" n 0 xs] used_at_bounds [of "end_of 0 xs + 8" n "end_of 0 xs + 8 + n" ys]
    by auto
  then show ?thesis using 1 [of "end_of 0 xs"] 2 by (auto simp: free_block_def jr jl)
qed

lemma trim_block_used:
  assumes "sz \<le> n"
  shows "\<exists>k. sz \<le> k \<and> used_at p (trim_block sz n ys) = insert (p + 8, k) (used_at (p + 8 + n) ys)"
  using assms
  by (cases "(sz, n, ys)" rule: trim_block.cases) (auto simp: ac_simps intro: exI [of _ sz] exI [of _ n])

lemma heap_rel_unique:
  "heap_rel h bs \<Longrightarrow> heap_rel h bs' \<Longrightarrow> bs = bs'"
proof -
  have "bs = bs'" if "seg H pv p bs" "seg H pv' p bs'" "end_of p bs = 12288" "end_of p bs' = 12288" for H pv pv' p
    using that
  proof (induction bs arbitrary: pv pv' p bs')
    case Nil
    then show ?case
    proof (cases bs')
      case (Cons b cs)
      then show ?thesis using Nil end_of_ge [of "p + 8 + fst b" cs] by (cases b) auto
    qed simp
  next
    case (Cons b cs)
    obtain n u where b: "b = (n, u)" by fastforce
    show ?case
    proof (cases bs')
      case Nil
      then show ?thesis using Cons.prems b end_of_ge [of "p + 8 + n" cs] by auto
    next
      case (Cons b' cs')
      obtain n' u' where b': "b' = (n', u')" by fastforce
      then show ?thesis using Cons.prems Cons.IH b Cons by fastforce
    qed
  qed
  then show "heap_rel h bs \<Longrightarrow> heap_rel h bs' \<Longrightarrow> bs = bs'" unfolding heap_rel_def by blast
qed

lemma heap_rel_empty:
  assumes "heap_rel h bs" "used_at 0 bs = {}"
  shows "bs = [(12280, False)]"
proof -
  have all: "\<forall>b \<in> set bs. \<not> snd b"
  proof
    fix b
    assume "b \<in> set bs"
    then obtain xs ys where "bs = xs @ b # ys" by (metis split_list)
    with assms(2) show "\<not> snd b" by (cases b) (auto split: if_splits)
  qed
  show ?thesis
  proof (cases bs)
    case Nil
    with assms(1) show ?thesis by (simp add: heap_rel_def)
  next
    case (Cons b cs)
    with all assms(1) have "cs = []"
      by (cases cs) (auto simp: heap_rel_def no_holes_def)
    with Cons all assms(1) show ?thesis by (cases b) (auto simp: heap_rel_def)
  qed
qed

lemma mem_init_rel: "heap_rel (mem_init h) [(12280, False)]"
  by (simp add: heap_rel_def mem_init_def c_def no_holes_def)


section \<open>The heap as an allocator\<close>

definition mem_live :: "mem_heap \<Rightarrow> nat set" where
  "mem_live h = {a. \<exists>bs n. heap_rel h bs \<and> (a, n) \<in> used_at 0 bs}"

lemma mem_live_eq:
  assumes "heap_rel h bs"
  shows "mem_live h = fst ` used_at 0 bs"
proof -
  have "(\<exists>bs' n. heap_rel h bs' \<and> (a, n) \<in> used_at 0 bs') \<longleftrightarrow> (\<exists>n. (a, n) \<in> used_at 0 bs)" for a
    using assms heap_rel_unique [OF assms] by metis
  then have "mem_live h = {a. \<exists>n. (a, n) \<in> used_at 0 bs}" by (simp add: mem_live_def)
  then show ?thesis by force
qed

lemma used_at_remove:
  assumes "(a, n) \<in> used_at 0 bs"
  shows "fst ` (used_at 0 bs - {(a, n)}) = fst ` used_at 0 bs - {a}"
proof (rule set_eqI)
  fix b
  have "b \<in> fst ` (used_at 0 bs - {(a, n)}) \<longleftrightarrow> (\<exists>m. (b, m) \<in> used_at 0 bs \<and> (b, m) \<noteq> (a, n))"
    by force
  also have "\<dots> \<longleftrightarrow> (\<exists>m. (b, m) \<in> used_at 0 bs) \<and> b \<noteq> a"
    using used_at_fun [OF assms] by blast
  finally show "b \<in> fst ` (used_at 0 bs - {(a, n)}) \<longleftrightarrow> b \<in> fst ` used_at 0 bs - {a}" by force
qed

lemma mem_malloc_live:
  assumes rel: "heap_rel h bs"
  shows "\<exists>r h' bs'. mem_malloc req h = Some (r, h') \<and> heap_rel h' bs' \<and>
    (case r of None \<Rightarrow> used_at 0 bs' = used_at 0 bs
     | Some a \<Rightarrow> \<exists>n. req_size req \<le> n \<and> used_at 0 bs' = insert (a, n) (used_at 0 bs) \<and>
         (\<forall>m. (a, m) \<notin> used_at 0 bs))"
proof (cases "req = 0")
  case True
  then show ?thesis using rel by (intro exI [of _ None] exI [of _ h] exI [of _ bs]) (simp add: mem_malloc_def)
next
  case False
  note spec = mem_malloc_spec [OF rel False]
  show ?thesis
  proof (cases "first_fit (req_size req) 0 bs")
    case None
    with spec rel show ?thesis by (intro exI [of _ None] exI [of _ h] exI [of _ bs]) simp
  next
    case (Some qb)
    obtain q bs' where qb: "qb = (q, bs')" by fastforce
    with spec Some obtain h' where "mem_malloc req h = Some (Some (q + 8), h')" "heap_rel h' bs'" by auto
    then show ?thesis using first_fit_used [OF Some [unfolded qb]]
      by (intro exI [of _ "Some (q + 8)"] exI [of _ h'] exI [of _ bs']) auto
  qed
qed

lemma mem_free_live:
  assumes rel: "heap_rel h bs" and a: "(a, n) \<in> used_at 0 bs"
  shows "\<exists>h' bs'. mem_free (Some a) h = Some h' \<and> heap_rel h' bs' \<and> used_at 0 bs' = used_at 0 bs - {(a, n)}"
proof -
  from used_at_split [OF a] obtain xs ys where bs: "bs = xs @ (n, True) # ys" "a = end_of 0 xs + 8" by blast
  from mem_free_spec [OF rel bs(1)] free_block_used [of xs n ys] bs show ?thesis by auto
qed

lemma mem_trim_live:
  assumes rel: "heap_rel h bs" and a: "(a, n) \<in> used_at 0 bs" and fit: "req_size req \<le> n"
  shows "\<exists>h' bs' k. mem_trim a req h = Some (Some a, h') \<and> heap_rel h' bs' \<and> req_size req \<le> k \<and>
    used_at 0 bs' = insert (a, k) (used_at 0 bs - {(a, n)})"
proof -
  from used_at_split [OF a] obtain xs ys where bs: "bs = xs @ (n, True) # ys" "a = end_of 0 xs + 8" by blast
  from mem_trim_spec [OF rel bs(1) fit] obtain h' where h': "mem_trim a req h = Some (Some a, h')"
    "heap_rel h' (xs @ trim_block (req_size req) n ys)" using bs(2) by auto
  from trim_block_used [OF fit, of "end_of 0 xs" ys] obtain k where k: "req_size req \<le> k"
    "used_at (end_of 0 xs) (trim_block (req_size req) n ys) = insert (a, k) (used_at (end_of 0 xs + 8 + n) ys)"
    using bs(2) by auto
  have "(a, n) \<notin> used_at 0 xs" "(a, n) \<notin> used_at (end_of 0 xs + 8 + n) ys"
    using used_at_bounds [of a n 0 xs] used_at_bounds [of a n "end_of 0 xs + 8 + n" ys] bs(2) by auto
  then have "used_at 0 (xs @ trim_block (req_size req) n ys) = insert (a, k) (used_at 0 bs - {(a, n)})"
    using k(2) bs by auto
  with h' k(1) show ?thesis by blast
qed

interpretation mem: allocator "\<lambda>h. \<exists>bs. heap_rel h bs" mem_live "mem_malloc req"
  "\<lambda>a. mem_free (Some a)" for req
proof unfold_locales
  fix s
  assume "\<exists>bs. heap_rel s bs"
  then obtain bs where rel: "heap_rel s bs" by blast
  from mem_malloc_live [OF rel, of req] obtain r h' bs' where m: "mem_malloc req s = Some (r, h')" "heap_rel h' bs'"
    "case r of None \<Rightarrow> used_at 0 bs' = used_at 0 bs
     | Some a \<Rightarrow> \<exists>n. req_size req \<le> n \<and> used_at 0 bs' = insert (a, n) (used_at 0 bs) \<and> (\<forall>m. (a, m) \<notin> used_at 0 bs)"
    by blast
  then show "\<exists>r s'. mem_malloc req s = Some (r, s') \<and> (\<exists>bs. heap_rel s' bs) \<and>
      (case r of None \<Rightarrow> mem_live s' = mem_live s | Some a \<Rightarrow> a \<notin> mem_live s \<and> mem_live s' = insert a (mem_live s))"
    using mem_live_eq [OF rel] mem_live_eq [OF m(2)]
    by (intro exI [of _ r] exI [of _ h']) (auto split: option.splits)
  fix a
  assume "a \<in> mem_live s"
  then obtain n where a: "(a, n) \<in> used_at 0 bs" using mem_live_eq [OF rel] by auto
  from mem_free_live [OF rel a] obtain h' bs' where f: "mem_free (Some a) s = Some h'" "heap_rel h' bs'"
    "used_at 0 bs' = used_at 0 bs - {(a, n)}" by blast
  then show "\<exists>s'. mem_free (Some a) s = Some s' \<and> (\<exists>bs. heap_rel s' bs) \<and> mem_live s' = mem_live s - {a}"
    using mem_live_eq [OF rel] mem_live_eq [OF f(2)] used_at_remove [OF a] by auto
qed

section \<open>Runs of the heap\<close>

text \<open>
  A client of the heap: it allocates, and releases or shrinks any block it holds. The list
  holds its live blocks with the size asked for.
\<close>

datatype mem_op = Malloc u16 | Free nat | Trim nat u16

fun mem_step :: "mem_op \<Rightarrow> (nat \<times> u16) list \<Rightarrow> mem_heap \<Rightarrow> ((nat \<times> u16) list \<times> mem_heap) option" where
  "mem_step (Malloc r) L h = do {
     (p, h) \<leftarrow> mem_malloc r h;
     Some (case p of None \<Rightarrow> L | Some a \<Rightarrow> L @ [(a, r)], h) }"
| "mem_step (Free i) L h =
     (if i < length L then do {
        h \<leftarrow> mem_free (Some (fst (L ! i))) h; Some (take i L @ drop (Suc i) L, h) }
      else Some (L, h))"
| "mem_step (Trim i r) L h =
     (if i < length L \<and> r \<le> snd (L ! i) then do {
        (_, h) \<leftarrow> mem_trim (fst (L ! i)) r h; Some (L[i := (fst (L ! i), r)], h) }
      else Some (L, h))"

fun mem_run :: "mem_op list \<Rightarrow> (nat \<times> u16) list \<Rightarrow> mem_heap \<Rightarrow> ((nat \<times> u16) list \<times> mem_heap) option" where
  "mem_run [] L h = Some (L, h)"
| "mem_run (x # xs) L h = do { (L, h) \<leftarrow> mem_step x L h; mem_run xs L h }"

definition mem_holds :: "(nat \<times> u16) list \<Rightarrow> blocks \<Rightarrow> bool" where
  "mem_holds L bs \<longleftrightarrow> distinct (map fst L) \<and> fst ` used_at 0 bs = fst ` set L \<and>
     (\<forall>(a, r) \<in> set L. unat r \<le> 65532 \<and> (\<exists>n. (a, n) \<in> used_at 0 bs \<and> req_size r \<le> n))"

lemma mem_align_size_eq: "n \<le> 65532 \<Longrightarrow> mem_align_size n = (n + 3) div 4 * 4"
proof -
  assume "n \<le> 65532"
  then have "(n + 3) div 4 \<le> 16383" by simp
  then have "(n + 3) div 4 * 4 < 65536" by simp
  then show ?thesis by (simp add: mem_align_size_def)
qed

lemma req_size_ge: "unat r \<le> 65532 \<Longrightarrow> unat r \<le> req_size r"
  unfolding req_size_def by (simp add: mem_align_size_eq)

lemma req_size_mono: "r \<le> r' \<Longrightarrow> unat r' \<le> 65532 \<Longrightarrow> req_size r \<le> req_size r'"
proof -
  assume r: "r \<le> r'" "unat r' \<le> 65532"
  then have "unat r \<le> unat r'" by (simp add: word_le_nat_alt)
  then have "(unat r + 3) div 4 * 4 \<le> (unat r' + 3) div 4 * 4" by (simp add: div_le_mono)
  with r \<open>unat r \<le> unat r'\<close> show ?thesis by (simp add: req_size_def mem_align_size_eq max.coboundedI2)
qed

fun op_size_ok :: "mem_op \<Rightarrow> bool" where
  "op_size_ok (Malloc r) \<longleftrightarrow> unat r \<le> 65532"
| "op_size_ok _ \<longleftrightarrow> True"

lemma mem_step_holds:
  assumes rel: "heap_rel h bs" and L: "mem_holds L bs" and ok: "op_size_ok x"
  shows "\<exists>L' h' bs'. mem_step x L h = Some (L', h') \<and> heap_rel h' bs' \<and> mem_holds L' bs'"
proof (cases x)
  case (Malloc r)
  from mem_malloc_live [OF rel, of r] obtain p h' bs' where m: "mem_malloc r h = Some (p, h')" "heap_rel h' bs'"
    "case p of None \<Rightarrow> used_at 0 bs' = used_at 0 bs
     | Some a \<Rightarrow> \<exists>n. req_size r \<le> n \<and> used_at 0 bs' = insert (a, n) (used_at 0 bs) \<and> (\<forall>m. (a, m) \<notin> used_at 0 bs)"
    by blast
  show ?thesis
  proof (cases p)
    case None
    with m L have "mem_holds L bs'" by (simp add: mem_holds_def)
    with m None Malloc show ?thesis by auto
  next
    case (Some a)
    with m(3) obtain n where n: "req_size r \<le> n" "used_at 0 bs' = insert (a, n) (used_at 0 bs)"
      "\<forall>m. (a, m) \<notin> used_at 0 bs" by auto
    then have "a \<notin> fst ` used_at 0 bs" by auto
    then have "mem_holds (L @ [(a, r)]) bs'"
      using L n ok Malloc by (auto simp: mem_holds_def)
    with m Some Malloc show ?thesis by auto
  qed
next
  case (Free i)
  show ?thesis
  proof (cases "i < length L")
    case True
    obtain a r where ar: "L ! i = (a, r)" by fastforce
    have Ls: "L = take i L @ (a, r) # drop (Suc i) L" using True ar by (metis id_take_nth_drop)
    have "(a, r) \<in> set L" using True ar by (metis nth_mem)
    with L obtain n where n: "(a, n) \<in> used_at 0 bs" by (auto simp: mem_holds_def)
    from mem_free_live [OF rel n] obtain h' bs' where f: "mem_free (Some a) h = Some h'" "heap_rel h' bs'"
      "used_at 0 bs' = used_at 0 bs - {(a, n)}" by blast
    let ?L = "take i L @ drop (Suc i) L"
    have d: "distinct (map fst (take i L @ (a, r) # drop (Suc i) L))"
      using L Ls by (metis mem_holds_def)
    have sub: "set ?L \<subseteq> set L" by (metis Ls Un_subset_iff set_append set_drop_subset set_take_subset)
    have "fst ` used_at 0 bs' = fst ` used_at 0 bs - {a}"
      using f(3) used_at_remove [OF n] by simp
    also have "\<dots> = fst ` set L - {a}" using L by (simp add: mem_holds_def)
    also have "\<dots> = fst ` set ?L"
    proof -
      have "fst ` set L = insert a (fst ` set ?L)" by (subst Ls) auto
      moreover have "a \<notin> fst ` set ?L" using d by auto
      ultimately show ?thesis by simp
    qed
    finally have im: "fst ` used_at 0 bs' = fst ` set ?L" .
    have "\<exists>m. (b, m) \<in> used_at 0 bs' \<and> req_size s \<le> m" "unat s \<le> 65532" if b: "(b, s) \<in> set ?L" for b s
    proof -
      from b sub L obtain m where "(b, m) \<in> used_at 0 bs" "req_size s \<le> m" "unat s \<le> 65532"
        unfolding mem_holds_def by blast
      moreover have "b \<noteq> a" using b d by force
      ultimately show "\<exists>m. (b, m) \<in> used_at 0 bs' \<and> req_size s \<le> m" "unat s \<le> 65532" using f(3) by auto
    qed
    then have "mem_holds ?L bs'" using d im by (auto simp: mem_holds_def)
    with f True ar Free show ?thesis by auto
  qed (use assms Free in auto)
next
  case (Trim i r)
  show ?thesis
  proof (cases "i < length L \<and> r \<le> snd (L ! i)")
    case True
    obtain a r0 where ar: "L ! i = (a, r0)" by fastforce
    have inL: "(a, r0) \<in> set L" using True ar by (metis nth_mem)
    with L obtain n where n: "(a, n) \<in> used_at 0 bs" "req_size r0 \<le> n" "unat r0 \<le> 65532"
      by (auto simp: mem_holds_def)
    have rr: "r \<le> r0" using True ar by simp
    have fit: "req_size r \<le> n" using req_size_mono [OF rr n(3)] n(2) by simp
    from mem_trim_live [OF rel n(1) fit] obtain h' bs' k where t: "mem_trim a r h = Some (Some a, h')"
      "heap_rel h' bs'" "req_size r \<le> k" "used_at 0 bs' = insert (a, k) (used_at 0 bs - {(a, n)})" by blast
    let ?L = "L[i := (a, r)]"
    have map: "map fst ?L = map fst L"
      using True ar by (simp add: map_update) (metis fst_conv length_map list_update_id nth_map)
    have "fst ` used_at 0 bs' = fst ` used_at 0 bs"
      using t(4) used_at_remove [OF n(1)] n(1) by force
    then have im: "fst ` used_at 0 bs' = fst ` set ?L"
      using L map by (metis mem_holds_def set_map)
    have d: "distinct (map fst ?L)" using L map by (simp add: mem_holds_def)
    have "unat s \<le> 65532 \<and> (\<exists>m. (b, m) \<in> used_at 0 bs' \<and> req_size s \<le> m)" if b: "(b, s) \<in> set ?L" for b s
    proof (cases "b = a")
      case True
      have "(a, r) \<in> set ?L" using \<open>i < length L \<and> r \<le> snd (L ! i)\<close> by (metis set_update_memI)
      then have "s = r" using b d True by (metis distinct_map inj_on_eq_iff fst_conv prod.inject)
      moreover have "unat r \<le> 65532" using rr n(3) by (simp add: word_le_nat_alt)
      ultimately show ?thesis using t True by auto
    next
      case False
      then have "(b, s) \<in> set L" using b set_update_subset_insert [of L i "(a, r)"] by auto
      with L False t(4) show ?thesis by (fastforce simp: mem_holds_def)
    qed
    then have "mem_holds ?L bs'" using d im by (auto simp: mem_holds_def)
    with t True ar Trim show ?thesis by auto
  qed (use assms Trim in auto)
qed

lemma mem_run_holds:
  "heap_rel h bs \<Longrightarrow> mem_holds L bs \<Longrightarrow> \<forall>x \<in> set xs. op_size_ok x \<Longrightarrow>
   \<exists>L' h' bs'. mem_run xs L h = Some (L', h') \<and> heap_rel h' bs' \<and> mem_holds L' bs'"
proof (induction xs arbitrary: L h bs)
  case Nil
  then show ?case by auto
next
  case (Cons x xs)
  then have "op_size_ok x" by simp
  from mem_step_holds [OF Cons.prems(1,2) this] obtain L1 h1 bs1 where
    s: "mem_step x L h = Some (L1, h1)" "heap_rel h1 bs1" "mem_holds L1 bs1" by blast
  with Cons.IH [OF s(2,3)] Cons.prems(3) show ?case by auto
qed

section \<open>Properties\<close>

text \<open>C11: \<open>mem_malloc\<close> is first fit on the list of blocks: it returns the first free block,
  in address order, that holds the aligned size, splits it exactly when the rest can hold a
  header and 12 bytes, and returns \<open>NULL\<close> with the heap unchanged when no block fits; the
  linked list, the lowest free pointer and the absence of adjacent free blocks are kept.\<close>

theorem mem_malloc_first_fit:
  assumes "heap_rel h bs" and "req \<noteq> 0"
  shows "case first_fit (req_size req) 0 bs of
      None \<Rightarrow> mem_malloc req h = Some (None, h)
    | Some (q, bs') \<Rightarrow> \<exists>h'. mem_malloc req h = Some (Some (q + 8), h') \<and> heap_rel h' bs'"
  using assms by (rule mem_malloc_spec)

theorem mem_malloc_first_fit_witness:
  "\<exists>h'. mem_malloc 100 (mem_init \<lparr>hdrs = \<lambda>_. None, lfree = 0\<rparr>) = Some (Some 8, h') \<and>
    heap_rel h' [(100, True), (12172, False)]"
  using mem_malloc_first_fit [OF mem_init_rel, of 100 "\<lparr>hdrs = \<lambda>_. None, lfree = 0\<rparr>"]
  by (auto simp: req_size_def mem_align_size_def take_block_def)

text \<open>C12: \<open>mem_free\<close> of a used block makes it free and joins it with both neighbours when
  they are free, so the heap never holds two adjacent free blocks.\<close>

theorem mem_free_joins:
  assumes "heap_rel h (xs @ (n, True) # ys)"
  shows "\<exists>h'. mem_free (Some (end_of 0 xs + 8)) h = Some h' \<and> heap_rel h' (free_block xs n ys)"
  using mem_free_spec [OF assms refl] .

theorem mem_free_joins_witness:
  "\<exists>h1 h2. mem_malloc 100 (mem_init \<lparr>hdrs = \<lambda>_. None, lfree = 0\<rparr>) = Some (Some 8, h1) \<and>
    mem_free (Some 8) h1 = Some h2 \<and> heap_rel h2 [(12280, False)]"
proof -
  obtain h1 where h1: "mem_malloc 100 (mem_init \<lparr>hdrs = \<lambda>_. None, lfree = 0\<rparr>) = Some (Some 8, h1)"
    "heap_rel h1 ([] @ (100, True) # [(12172, False)])"
    using mem_malloc_spec [OF mem_init_rel, of 100 "\<lparr>hdrs = \<lambda>_. None, lfree = 0\<rparr>"]
    by (auto simp: req_size_def mem_align_size_def take_block_def)
  from mem_free_joins [OF h1(2)] h1(1) show ?thesis
    by (auto simp: free_block_def join_left_def)
qed

text \<open>C10: over any sequence of allocations, releases and shrinkings of blocks the client
  holds, starting from \<open>mem_init\<close>, no assertion of \<open>mem.c\<close> fails and no link is broken; the
  blocks held are 4-byte aligned, inside the heap, at least as large as asked for and
  pairwise apart by a header; and once everything is released the heap is one free block
  again, whatever the order was.\<close>

theorem mem_heap_safe:
  assumes "\<forall>x \<in> set xs. op_size_ok x"
  shows "\<exists>L h'. mem_run xs [] (mem_init h) = Some (L, h') \<and> distinct (map fst L) \<and>
    (\<forall>(a, r) \<in> set L. a mod 4 = 0 \<and> 8 \<le> a \<and> a + unat r \<le> 12288) \<and>
    (\<forall>(a, r) \<in> set L. \<forall>(b, s) \<in> set L. a \<noteq> b \<longrightarrow> a + unat r + 8 \<le> b \<or> b + unat s + 8 \<le> a) \<and>
    (L = [] \<longrightarrow> heap_rel h' [(12280, False)])"
proof -
  have "mem_holds [] [(12280, False)]" by (simp add: mem_holds_def)
  from mem_run_holds [OF mem_init_rel this assms] obtain L h' bs where
    run: "mem_run xs [] (mem_init h) = Some (L, h')" and rel: "heap_rel h' bs" and L: "mem_holds L bs" by blast
  have blk: "\<exists>n. (a, n) \<in> used_at 0 bs \<and> unat r \<le> n" if "(a, r) \<in> set L" for a r
    using that L req_size_ge [of r] by (fastforce simp: mem_holds_def)
  have 1: "a mod 4 = 0 \<and> 8 \<le> a \<and> a + unat r \<le> 12288" if ar: "(a, r) \<in> set L" for a r
  proof -
    from blk [OF ar] obtain n where n: "(a, n) \<in> used_at 0 bs" "unat r \<le> n" by blast
    have "4 dvd a" using used_at_aligned [OF n(1)] rel by (auto simp: heap_rel_def)
    with used_at_bounds [OF n(1)] n(2) rel show ?thesis by (auto simp: heap_rel_def mod_eq_0_iff_dvd)
  qed
  have 2: "a + unat r + 8 \<le> b \<or> b + unat s + 8 \<le> a" if "(a, r) \<in> set L" "(b, s) \<in> set L" "a \<noteq> b" for a r b s
    using blk [OF that(1)] blk [OF that(2)] used_at_apart [OF _ _ that(3)] by fastforce
  have "heap_rel h' [(12280, False)]" if "L = []"
    using rel L that heap_rel_empty [OF rel] by (auto simp: mem_holds_def)
  moreover have "\<forall>(a, r) \<in> set L. a mod 4 = 0 \<and> 8 \<le> a \<and> a + unat r \<le> 12288" using 1 by blast
  moreover have "\<forall>(a, r) \<in> set L. \<forall>(b, s) \<in> set L. a \<noteq> b \<longrightarrow> a + unat r + 8 \<le> b \<or> b + unat s + 8 \<le> a"
    using 2 by blast
  ultimately show ?thesis using run L unfolding mem_holds_def by blast
qed

theorem mem_heap_safe_witness:
  "\<exists>h'. mem_run [Malloc 100, Malloc 50, Trim 0 20, Free 0, Free 0] []
      (mem_init \<lparr>hdrs = \<lambda>_. None, lfree = 0\<rparr>) = Some ([], h') \<and> heap_rel h' [(12280, False)]"
proof -
  let ?xs = "[Malloc 100, Malloc 50, Trim 0 20, Free 0, Free 0]"
  let ?h = "\<lparr>hdrs = \<lambda>_. None, lfree = 0\<rparr> :: mem_heap"
  from mem_heap_safe [of ?xs ?h] obtain L h' where
    L: "mem_run ?xs [] (mem_init ?h) = Some (L, h')" "L = [] \<Longrightarrow> heap_rel h' [(12280, False)]" by auto
  then have "L = []" by (auto split: bind_splits option.splits if_splits)
  with L show ?thesis by auto
qed

text \<open>the size is aligned in a 16-bit variable, so a request of 65533 bytes or more wraps
  to 0 and is served by the minimal block of 12 bytes instead of being refused.\<close>

theorem mem_malloc_wraps:
  assumes "65533 \<le> req"
  shows "\<exists>h'. mem_malloc req (mem_init h) = Some (Some 8, h') \<and>
    hdrs h' 0 = Some \<lparr>m_next = 20, m_prev = 0, m_used = True\<rparr>"
proof -
  have "unat req = 65533 \<or> unat req = 65534 \<or> unat req = 65535"
    using assms unat_u16_lt [of req] by (simp add: word_le_nat_alt) linarith
  then have sz: "req_size req = 12" by (auto simp: req_size_def mem_align_size_def)
  have "req \<noteq> 0" using assms by (auto simp: word_le_nat_alt)
  from mem_malloc_spec [OF mem_init_rel this, of h] obtain h' where
    "mem_malloc req (mem_init h) = Some (Some 8, h')" "heap_rel h' [(12, True), (12260, False)]"
    by (auto simp: sz take_block_def)
  then show ?thesis by (auto simp: heap_rel_def)
qed

theorem mem_malloc_wraps_witness:
  "\<exists>h'. mem_malloc 65533 (mem_init \<lparr>hdrs = \<lambda>_. None, lfree = 0\<rparr>) = Some (Some 8, h')"
  using mem_malloc_wraps [of 65533] by auto

text \<open>\<open>mem_calloc\<close> cuts the product of its arguments to 16 bits for \<open>mem_malloc\<close> but zeroes
  the whole product: 256 objects of 257 bytes get a block of 256 bytes, and the \<open>memset\<close>
  leaves it.\<close>

theorem mem_calloc_overflow: "mem_calloc 256 257 (mem_init h) = None"
proof -
  have w: "(65792 :: u16) = 256" by simp
  have "mem_malloc 65792 (mem_init h) = mem_malloc 256 (mem_init h)" by (simp only: w)
  moreover obtain h' where "mem_malloc 256 (mem_init h) = Some (Some 8, h')"
    "heap_rel h' [(256, True), (12016, False)]"
    using mem_malloc_spec [OF mem_init_rel, of 256 h]
    by (auto simp: req_size_def mem_align_size_def take_block_def)
  ultimately show ?thesis
    by (simp add: mem_calloc_def heap_rel_def c_def Let_def)
qed

end
