(* ===== verification/Pbuf.thy ===== *)
theory Pbuf
  imports Memp Mem
begin

text \<open>
  Packet buffers: \<open>core/pbuf.c\<close> over the pools and the heap. A \<open>struct pbuf\<close> lives at an
  abstract address, either a pool element or a heap block; a payload pointer is an object
  and an offset into it. A pbuf that was given back to its allocator is no longer there,
  so every use of a dead pbuf is a fault, and so is every access outside an object.
\<close>

section \<open>Data\<close>

datatype err_t = ERR_OK | ERR_MEM | ERR_BUF | ERR_TIMEOUT | ERR_RTE | ERR_INPROGRESS | ERR_VAL
  | ERR_WOULDBLOCK | ERR_USE | ERR_ISCONN | ERR_ABRT | ERR_RST | ERR_CLSD | ERR_CONN | ERR_ARG | ERR_IF

datatype pbuf_layer = PBUF_TRANSPORT | PBUF_IP | PBUF_LINK | PBUF_RAW
datatype pbuf_type = PBUF_RAM | PBUF_ROM | PBUF_REF | PBUF_POOL

text \<open>A pool element, a heap block, or an object outside both (\<open>ExtAddr\<close>).\<close>

datatype addr = MempAddr nat | RamAddr nat | ExtAddr nat

type_synonym ptr = "addr \<times> int"

record pbuf =
  pb_next :: "addr option"
  pb_payload :: "ptr option"
  pb_tot_len :: u16
  pb_len :: u16
  pb_type :: pbuf_type
  pb_flags :: u8
  pb_ref :: u16

definition PBUF_FLAG_IS_CUSTOM :: u8 where "PBUF_FLAG_IS_CUSTOM = 0x02"

text \<open>
  The memory of the stack. \<open>stale_flags\<close> is what the flags byte of a dead pbuf holds;
  \<open>extent\<close> is the size of an object.
\<close>

record net =
  n_memp :: memp_state
  n_heap :: mem_heap
  pbufs :: "addr \<Rightarrow> pbuf option"
  stale_flags :: "addr \<Rightarrow> u8"
  extent :: "addr \<Rightarrow> nat option"
  cells :: "addr \<Rightarrow> nat \<Rightarrow> u8"

definition SIZEOF_STRUCT_PBUF :: nat where "SIZEOF_STRUCT_PBUF = 16"
definition PBUF_POOL_BUFSIZE_ALIGNED :: nat where "PBUF_POOL_BUFSIZE_ALIGNED = 1520"

lemmas [c_def] = SIZEOF_STRUCT_PBUF_def PBUF_POOL_BUFSIZE_ALIGNED_def

definition align4 :: "nat \<Rightarrow> nat" where "align4 n = (n + 3) div 4 * 4"

fun layer_offset :: "pbuf_layer \<Rightarrow> nat" where
  "layer_offset PBUF_TRANSPORT = 14 + 20 + 20"
| "layer_offset PBUF_IP = 14 + 20"
| "layer_offset PBUF_LINK = 14"
| "layer_offset PBUF_RAW = 0"

section \<open>Memory access\<close>

definition put_pbuf :: "addr \<Rightarrow> pbuf \<Rightarrow> net \<Rightarrow> net" where
  "put_pbuf a b s = s\<lparr>pbufs := (pbufs s)(a \<mapsto> b)\<rparr>"

definition mem_read :: "net \<Rightarrow> ptr \<Rightarrow> nat \<Rightarrow> u8 list option" where
  "mem_read s p n = (case p of (a, off) \<Rightarrow> case extent s a of None \<Rightarrow> None
     | Some e \<Rightarrow> if 0 \<le> off \<and> off + int n \<le> int e
         then Some (map (\<lambda>i. cells s a (nat off + i)) [0..<n]) else None)"

definition mem_write :: "net \<Rightarrow> ptr \<Rightarrow> u8 list \<Rightarrow> net option" where
  "mem_write s p bs = (case p of (a, off) \<Rightarrow> case extent s a of None \<Rightarrow> None
     | Some e \<Rightarrow> if 0 \<le> off \<and> off + int (length bs) \<le> int e
         then Some (s\<lparr>cells := (cells s)(a := (\<lambda>i. if nat off \<le> i \<and> i < nat off + length bs
                                            then bs ! (i - nat off) else cells s a i))\<rparr>)
         else None)"

definition ptr_add :: "ptr \<Rightarrow> nat \<Rightarrow> ptr" where
  "ptr_add p n = (fst p, snd p + int n)"

section \<open>Release\<close>

text \<open>
  The deallocation in \<open>pbuf_free\<close>, by the kind of the pbuf. \<open>cff\<close> is the
  \<open>custom_free_function\<close> stored in a custom pbuf.
\<close>

definition pbuf_dealloc ::
  "(addr \<Rightarrow> net \<Rightarrow> net option) \<Rightarrow> addr \<Rightarrow> pbuf \<Rightarrow> net \<Rightarrow> net option" where
  "pbuf_dealloc cff a b s =
     (let s = s\<lparr>pbufs := (pbufs s)(a := None), extent := (extent s)(a := None),
               stale_flags := (stale_flags s)(a := pb_flags b)\<rparr> in
      if pb_flags b AND PBUF_FLAG_IS_CUSTOM \<noteq> 0 then cff a s
      else case (pb_type b, a) of
          (PBUF_POOL, MempAddr x) \<Rightarrow> do {
            mp \<leftarrow> memp_free MEMP_PBUF_POOL (Some x) (n_memp s); Some (s\<lparr>n_memp := mp\<rparr>) }
        | (PBUF_ROM, MempAddr x) \<Rightarrow> do {
            mp \<leftarrow> memp_free MEMP_PBUF (Some x) (n_memp s); Some (s\<lparr>n_memp := mp\<rparr>) }
        | (PBUF_REF, MempAddr x) \<Rightarrow> do {
            mp \<leftarrow> memp_free MEMP_PBUF (Some x) (n_memp s); Some (s\<lparr>n_memp := mp\<rparr>) }
        | (PBUF_RAM, RamAddr x) \<Rightarrow> do {
            h \<leftarrow> mem_free (Some x) (n_heap s); Some (s\<lparr>n_heap := h\<rparr>) }
        | _ \<Rightarrow> None)"

partial_function (option) pbuf_free_loop ::
  "(addr \<Rightarrow> net \<Rightarrow> net option) \<Rightarrow> addr option \<Rightarrow> u8 \<Rightarrow> net \<Rightarrow> (u8 \<times> net) option" where
  "pbuf_free_loop cff p count s = (case p of None \<Rightarrow> Some (count, s)
     | Some a \<Rightarrow> Option.bind (pbufs s a) (\<lambda>b.
         if pb_ref b = 0 then None
         else let ref = pb_ref b - 1 in
           if ref = 0 then
             Option.bind (pbuf_dealloc cff a b s) (\<lambda>s. pbuf_free_loop cff (pb_next b) (count + 1) s)
           else Some (count, put_pbuf a (b\<lparr>pb_ref := ref\<rparr>) s)))"

definition pbuf_free ::
  "(addr \<Rightarrow> net \<Rightarrow> net option) \<Rightarrow> addr option \<Rightarrow> net \<Rightarrow> (u8 \<times> net) option" where
  "pbuf_free cff p s = do { c_assert (p \<noteq> None); pbuf_free_loop cff p 0 s }"

definition pbuf_ref :: "addr option \<Rightarrow> net \<Rightarrow> net option" where
  "pbuf_ref p s = (case p of None \<Rightarrow> Some s
     | Some a \<Rightarrow> do { b \<leftarrow> pbufs s a; Some (put_pbuf a (b\<lparr>pb_ref := pb_ref b + 1\<rparr>) s) })"

section \<open>Allocation\<close>

text \<open>
  The \<open>while\<close> loop for the tail of a \<open>PBUF_POOL\<close> chain: \<open>p\<close> is the head, \<open>r\<close> the last
  pbuf so far and \<open>rem\<close> the signed \<open>rem_len\<close>. The result says whether all was allocated.
\<close>

function pbuf_alloc_tail ::
  "(addr \<Rightarrow> net \<Rightarrow> net option) \<Rightarrow> addr \<Rightarrow> addr \<Rightarrow> int \<Rightarrow> net \<Rightarrow> (bool \<times> net) option" where
  "pbuf_alloc_tail cff p r rem_len s =
     (if rem_len > 0 then
        Option.bind (memp_malloc MEMP_PBUF_POOL (n_memp s)) (\<lambda>(q, mp).
          let s = s\<lparr>n_memp := mp\<rparr> in
          case q of
            None \<Rightarrow> Option.bind (pbuf_free cff (Some p) s) (\<lambda>(_, s). Some (False, s))
          | Some x \<Rightarrow>
              let q = MempAddr x; len = min rem_len (int PBUF_POOL_BUFSIZE_ALIGNED) in
              if rem_len < 0xffff \<and> x mod MEM_ALIGNMENT = 0 then
                Option.bind (pbufs s r) (\<lambda>rb.
                  let s = put_pbuf r (rb\<lparr>pb_next := Some q\<rparr>) s;
                      s = put_pbuf q \<lparr>pb_next = None, pb_payload = Some (q, int SIZEOF_STRUCT_PBUF),
                            pb_tot_len = of_int rem_len, pb_len = of_int len, pb_type = PBUF_POOL,
                            pb_flags = 0, pb_ref = 1\<rparr> s;
                      s = s\<lparr>extent := (extent s)(q \<mapsto> SIZEOF_STRUCT_PBUF + PBUF_POOL_BUFSIZE_ALIGNED)\<rparr>
                  in pbuf_alloc_tail cff p q (rem_len - len) s)
              else None)
      else Some (True, s))"
  by pat_completeness auto
termination
  by (relation "measure (\<lambda>(cff, p, r, rem_len, s). nat rem_len)") (auto simp: c_def min_def)

declare pbuf_alloc_tail.simps [simp del]

definition pbuf_alloc_pool ::
  "(addr \<Rightarrow> net \<Rightarrow> net option) \<Rightarrow> nat \<Rightarrow> u16 \<Rightarrow> net \<Rightarrow> (addr option \<times> net) option" where
  "pbuf_alloc_pool cff off len s = do {
     (x, mp) \<leftarrow> memp_malloc MEMP_PBUF_POOL (n_memp s);
     let s = s\<lparr>n_memp := mp\<rparr>;
     case x of None \<Rightarrow> Some (None, s)
     | Some x \<Rightarrow> do {
         let p = MempAddr x;
         let pay = align4 (SIZEOF_STRUCT_PBUF + off);
         c_assert ((x + pay) mod MEM_ALIGNMENT = 0);
         let plen = min (unat len) (PBUF_POOL_BUFSIZE_ALIGNED - align4 off);
         c_assert (pay + plen \<le> SIZEOF_STRUCT_PBUF + PBUF_POOL_BUFSIZE_ALIGNED);
         c_assert (PBUF_POOL_BUFSIZE_ALIGNED - align4 off > 0);
         let s = put_pbuf p \<lparr>pb_next = None, pb_payload = Some (p, int pay), pb_tot_len = len,
                   pb_len = of_nat plen, pb_type = PBUF_POOL, pb_flags = stale_flags s p, pb_ref = 1\<rparr> s;
         let s = s\<lparr>extent := (extent s)(p \<mapsto> SIZEOF_STRUCT_PBUF + PBUF_POOL_BUFSIZE_ALIGNED)\<rparr>;
         (ok, s) \<leftarrow> pbuf_alloc_tail cff p p (uint len - int plen) s;
         Some (if ok then Some p else None, s) } }"

text \<open>
  The size asked of \<open>mem_malloc\<close> is a sum that is cut to \<open>mem_size_t\<close>; the block it gives
  ends at the \<open>next\<close> of its header.
\<close>

definition pbuf_alloc_ram :: "nat \<Rightarrow> u16 \<Rightarrow> net \<Rightarrow> (addr option \<times> net) option" where
  "pbuf_alloc_ram off len s = do {
     (x, h) \<leftarrow> mem_malloc (of_nat (align4 (SIZEOF_STRUCT_PBUF + off) + align4 (unat len))) (n_heap s);
     let s = s\<lparr>n_heap := h\<rparr>;
     case x of None \<Rightarrow> Some (None, s)
     | Some x \<Rightarrow> do {
         let p = RamAddr x;
         let pay = align4 (SIZEOF_STRUCT_PBUF + off);
         m \<leftarrow> hdrs h (x - SIZEOF_STRUCT_MEM);
         c_assert (x + SIZEOF_STRUCT_PBUF \<le> m_next m);
         c_assert ((x + pay) mod MEM_ALIGNMENT = 0);
         let s = put_pbuf p \<lparr>pb_next = None, pb_payload = Some (p, int pay), pb_tot_len = len,
                   pb_len = len, pb_type = PBUF_RAM, pb_flags = stale_flags s p, pb_ref = 1\<rparr> s;
         Some (Some p, s\<lparr>extent := (extent s)(p \<mapsto> m_next m - x)\<rparr>) } }"

definition pbuf_alloc_ref :: "pbuf_type \<Rightarrow> u16 \<Rightarrow> net \<Rightarrow> (addr option \<times> net) option" where
  "pbuf_alloc_ref type len s = do {
     (x, mp) \<leftarrow> memp_malloc MEMP_PBUF (n_memp s);
     let s = s\<lparr>n_memp := mp\<rparr>;
     case x of None \<Rightarrow> Some (None, s)
     | Some x \<Rightarrow> do {
         let p = MempAddr x;
         let s = put_pbuf p \<lparr>pb_next = None, pb_payload = None, pb_tot_len = len, pb_len = len,
                   pb_type = type, pb_flags = stale_flags s p, pb_ref = 1\<rparr> s;
         Some (Some p, s\<lparr>extent := (extent s)(p \<mapsto> SIZEOF_STRUCT_PBUF)\<rparr>) } }"

text \<open>The reference count and the flags are set last, for every type.\<close>

definition pbuf_alloc ::
  "(addr \<Rightarrow> net \<Rightarrow> net option) \<Rightarrow> pbuf_layer \<Rightarrow> u16 \<Rightarrow> pbuf_type \<Rightarrow> net \<Rightarrow> (addr option \<times> net) option" where
  "pbuf_alloc cff layer len type s = do {
     (p, s) \<leftarrow> (case type of
         PBUF_POOL \<Rightarrow> pbuf_alloc_pool cff (layer_offset layer) len s
       | PBUF_RAM \<Rightarrow> pbuf_alloc_ram (layer_offset layer) len s
       | _ \<Rightarrow> pbuf_alloc_ref type len s);
     case p of None \<Rightarrow> Some (None, s)
     | Some a \<Rightarrow> do {
         b \<leftarrow> pbufs s a;
         Some (Some a, put_pbuf a (b\<lparr>pb_ref := 1, pb_flags := 0\<rparr>) s) } }"

text \<open>\<open>pbuf_alloced_custom\<close>: \<open>p\<close> is the caller's \<open>struct pbuf_custom\<close>.\<close>

definition pbuf_alloced_custom ::
  "pbuf_layer \<Rightarrow> u16 \<Rightarrow> pbuf_type \<Rightarrow> addr \<Rightarrow> ptr option \<Rightarrow> u16 \<Rightarrow> net \<Rightarrow> (addr option \<times> net) option" where
  "pbuf_alloced_custom l len type p payload_mem payload_mem_len s =
     (let off = align4 (layer_offset l) in
      if off + unat len > unat payload_mem_len then Some (None, s)
      else Some (Some p, put_pbuf p
        \<lparr>pb_next = None, pb_payload = map_option (\<lambda>m. ptr_add m off) payload_mem, pb_tot_len = len,
         pb_len = len, pb_type = type, pb_flags = PBUF_FLAG_IS_CUSTOM, pb_ref = 1\<rparr> s))"

section \<open>Chains\<close>

partial_function (option) pbuf_clen_loop :: "addr option \<Rightarrow> u8 \<Rightarrow> net \<Rightarrow> u8 option" where
  "pbuf_clen_loop p len s = (case p of None \<Rightarrow> Some len
     | Some a \<Rightarrow> Option.bind (pbufs s a) (\<lambda>b. pbuf_clen_loop (pb_next b) (len + 1) s))"

definition pbuf_clen :: "addr option \<Rightarrow> net \<Rightarrow> u8 option" where
  "pbuf_clen p s = pbuf_clen_loop p 0 s"

text \<open>The loop of \<open>pbuf_cat\<close>; \<open>t->tot_len\<close> is read again at every step.\<close>

partial_function (option) pbuf_cat_loop :: "addr \<Rightarrow> addr \<Rightarrow> net \<Rightarrow> net option" where
  "pbuf_cat_loop p t s =
     Option.bind (pbufs s p) (\<lambda>b. Option.bind (pbufs s t) (\<lambda>tb.
       case pb_next b of
         Some n \<Rightarrow> pbuf_cat_loop n t (put_pbuf p (b\<lparr>pb_tot_len := pb_tot_len b + pb_tot_len tb\<rparr>) s)
       | None \<Rightarrow>
           if pb_tot_len b = pb_len b
           then Some (put_pbuf p (b\<lparr>pb_tot_len := pb_tot_len b + pb_tot_len tb, pb_next := Some t\<rparr>) s)
           else None))"

definition pbuf_cat :: "addr option \<Rightarrow> addr option \<Rightarrow> net \<Rightarrow> net option" where
  "pbuf_cat h t s = (case (h, t) of (Some h, Some t) \<Rightarrow> pbuf_cat_loop h t s | _ \<Rightarrow> None)"

definition pbuf_chain :: "addr option \<Rightarrow> addr option \<Rightarrow> net \<Rightarrow> net option" where
  "pbuf_chain h t s = do { s \<leftarrow> pbuf_cat h t s; pbuf_ref t s }"

definition pbuf_dechain ::
  "(addr \<Rightarrow> net \<Rightarrow> net option) \<Rightarrow> addr \<Rightarrow> net \<Rightarrow> (addr option \<times> net) option" where
  "pbuf_dechain cff p s = do {
     b \<leftarrow> pbufs s p;
     case pb_next b of
       None \<Rightarrow> do { c_assert (pb_tot_len b = pb_len b); Some (None, s) }
     | Some q \<Rightarrow> do {
         qb \<leftarrow> pbufs s q;
         c_assert (unat (pb_tot_len qb) = unat (pb_tot_len b) - unat (pb_len b) \<and> pb_len b \<le> pb_tot_len b);
         let s = put_pbuf q (qb\<lparr>pb_tot_len := pb_tot_len b - pb_len b\<rparr>) s;
         b \<leftarrow> pbufs s p;
         let s = put_pbuf p (b\<lparr>pb_next := None, pb_tot_len := pb_len b\<rparr>) s;
         (tail_gone, s) \<leftarrow> pbuf_free cff (Some q) s;
         b \<leftarrow> pbufs s p;
         c_assert (pb_tot_len b = pb_len b);
         Some (if tail_gone > 0 then None else Some q, s) } }"

section \<open>Shrinking and header space\<close>

text \<open>
  The first loop of \<open>pbuf_realloc\<close>: the result is the new last pbuf and the length left for it.
\<close>

partial_function (option) realloc_skip ::
  "addr option \<Rightarrow> u16 \<Rightarrow> u16 \<Rightarrow> net \<Rightarrow> (addr \<times> u16 \<times> net) option" where
  "realloc_skip q rem_len grow s = (case q of None \<Rightarrow> None
     | Some a \<Rightarrow> Option.bind (pbufs s a) (\<lambda>b.
         if rem_len > pb_len b then
           realloc_skip (pb_next b) (rem_len - pb_len b) grow
             (put_pbuf a (b\<lparr>pb_tot_len := pb_tot_len b + grow\<rparr>) s)
         else Some (a, rem_len, s)))"

text \<open>
  The trimming of a \<open>PBUF_RAM\<close>: the argument of \<open>mem_trim\<close> is the distance from the pbuf
  to its payload cut to 16 bits plus the length, cut again to \<open>mem_size_t\<close>.
\<close>

definition realloc_trim :: "addr \<Rightarrow> pbuf \<Rightarrow> u16 \<Rightarrow> net \<Rightarrow> net option" where
  "realloc_trim a b rem_len s =
     (if pb_type b = PBUF_RAM \<and> rem_len \<noteq> pb_len b then
        (case (a, pb_payload b) of
           (RamAddr x, Some (a', off)) \<Rightarrow>
             if a' = a then do {
               (r, h) \<leftarrow> mem_trim x (of_int off + rem_len) (n_heap s);
               c_assert (r \<noteq> None);
               m \<leftarrow> hdrs h (x - SIZEOF_STRUCT_MEM);
               Some (s\<lparr>n_heap := h, extent := (extent s)(a \<mapsto> m_next m - x)\<rparr>) }
             else None
         | _ \<Rightarrow> None)
      else Some s)"

definition pbuf_realloc ::
  "(addr \<Rightarrow> net \<Rightarrow> net option) \<Rightarrow> addr option \<Rightarrow> u16 \<Rightarrow> net \<Rightarrow> net option" where
  "pbuf_realloc cff p new_len s = do {
     p \<leftarrow> p;
     pb \<leftarrow> pbufs s p;
     if new_len \<ge> pb_tot_len pb then Some s
     else do {
       (q, rem_len, s) \<leftarrow> realloc_skip (Some p) new_len (new_len - pb_tot_len pb) s;
       b \<leftarrow> pbufs s q;
       s \<leftarrow> realloc_trim q b rem_len s;
       b \<leftarrow> pbufs s q;
       let b = b\<lparr>pb_len := rem_len, pb_tot_len := rem_len\<rparr>;
       let s = put_pbuf q b s;
       s \<leftarrow> (if pb_next b \<noteq> None then do { (_, s) \<leftarrow> pbuf_free cff (pb_next b) s; Some s } else Some s);
       b \<leftarrow> pbufs s q;
       Some (put_pbuf q (b\<lparr>pb_next := None\<rparr>) s) } }"

text \<open>
  \<open>pbuf_header\<close>. For a pbuf that holds its payload the new payload must not lie before
  the end of the \<open>struct pbuf\<close>; a pbuf that refers to a payload elsewhere only shrinks.
\<close>

definition pbuf_header :: "addr option \<Rightarrow> 16 word \<Rightarrow> net \<Rightarrow> (u8 \<times> net) option" where
  "pbuf_header p header_size_increment s = do {
     a \<leftarrow> p;
     if header_size_increment = 0 then Some (0, s)
     else do {
       b \<leftarrow> pbufs s a;
       let inc = sint header_size_increment;
       let increment_magnitude = (of_int \<bar>inc\<bar> :: u16);
       c_assert (inc < 0 \<longrightarrow> increment_magnitude \<le> pb_len b);
       (pa, off) \<leftarrow> pb_payload b;
       let moved = b\<lparr>pb_payload := Some (pa, off - inc), pb_len := pb_len b + header_size_increment,
                    pb_tot_len := pb_tot_len b + header_size_increment\<rparr>;
       if pb_type b = PBUF_RAM \<or> pb_type b = PBUF_POOL then
         if pa = a then
           if off - inc < int SIZEOF_STRUCT_PBUF then Some (1, s) else Some (0, put_pbuf a moved s)
         else None
       else if inc < 0 \<and> increment_magnitude \<le> pb_len b then Some (0, put_pbuf a moved s)
       else Some (1, s) } }"

end
