(* ===== verification/PbufChain.thy ===== *)
theory PbufChain
  imports Pbuf
begin

text \<open>
  Chains of pbufs as lists: the links, the total lengths, the contents; concatenation; the
  invariant that ties every pbuf to its allocator, and what a release does to it.
\<close>

section \<open>Chains as lists\<close>

type_synonym chain = "(addr \<times> pbuf) list"

fun pchain :: "net \<Rightarrow> addr option \<Rightarrow> chain \<Rightarrow> bool" where
  "pchain s p [] \<longleftrightarrow> p = None"
| "pchain s p ((a, b) # xs) \<longleftrightarrow> p = Some a \<and> pbufs s a = Some b \<and> pchain s (pb_next b) xs"

text \<open>
  The total lengths of a chain whose last pbuf is followed by \<open>n\<close> more bytes; \<open>totals_to 0\<close>
  is the invariant of a packet.
\<close>

fun totals_to :: "nat \<Rightarrow> chain \<Rightarrow> bool" where
  "totals_to n [] \<longleftrightarrow> True"
| "totals_to n [(a, b)] \<longleftrightarrow> unat (pb_tot_len b) = unat (pb_len b) + n"
| "totals_to n ((a, b) # (c, d) # xs) \<longleftrightarrow>
     unat (pb_tot_len b) = unat (pb_len b) + unat (pb_tot_len d) \<and> totals_to n ((c, d) # xs)"

lemma pchain_cong:
  "pchain s p xs \<Longrightarrow> (\<And>a b. (a, b) \<in> set xs \<Longrightarrow> pbufs s' a = Some b) \<Longrightarrow> pchain s' p xs"
  by (induction s p xs rule: pchain.induct) auto

lemma pchain_lookup: "pchain s p xs \<Longrightarrow> (a, b) \<in> set xs \<Longrightarrow> pbufs s a = Some b"
  by (induction s p xs rule: pchain.induct) auto

lemma pchain_unique: "pchain s p xs \<Longrightarrow> pchain s p ys \<Longrightarrow> xs = ys"
proof (induction xs arbitrary: p ys)
  case Nil
  then show ?case by (cases ys) auto
next
  case (Cons x xs)
  obtain a b where x: "x = (a, b)" by (cases x)
  with Cons.prems(1) have p: "p = Some a" "pbufs s a = Some b" "pchain s (pb_next b) xs" by simp_all
  with Cons.prems(2) obtain zs where "ys = (a, b) # zs" "pchain s (pb_next b) zs" by (cases ys) auto
  with Cons.IH [OF p(3)] x show ?case by simp
qed

lemma pchain_suffix: "pchain s p (xs @ ys) \<Longrightarrow> \<exists>q. pchain s q ys"
  by (induction s p xs rule: pchain.induct) auto

lemma pchain_distinct: "pchain s p xs \<Longrightarrow> distinct (map fst xs)"
proof (induction s p xs rule: pchain.induct)
  case (2 s p a b xs)
  have pc: "p = Some a" "pchain s (pb_next b) xs" "pbufs s a = Some b" using 2 by auto
  have "a \<notin> fst ` set xs"
  proof
    assume "a \<in> fst ` set xs"
    then obtain b' where b': "(a, b') \<in> set xs" by auto
    with pchain_lookup [OF pc(2)] pc(3) have eq: "b' = b" by fastforce
    from b' obtain us vs where xs: "xs = us @ (a, b') # vs" by (auto dest: split_list)
    with pc(2) pchain_suffix [of s "pb_next b" us] obtain q where "pchain s q ((a, b') # vs)" by blast
    then have "pchain s (pb_next b) vs" using eq by simp
    with pchain_unique [OF _ pc(2)] have "vs = xs" by blast
    with xs have "length xs = length us + Suc (length xs)" by simp
    then show False by simp
  qed
  with 2 show ?case by simp
qed simp

lemma pchain_head: "pchain s (Some p) xs \<Longrightarrow> \<exists>b ys. xs = (p, b) # ys \<and> pbufs s p = Some b"
  by (cases xs) auto

lemma pbufs_put_pbuf [simp]: "pbufs (put_pbuf a b s) = (pbufs s)(a \<mapsto> b)"
  by (simp add: put_pbuf_def)

lemma put_pbuf_simps [simp]:
  "n_memp (put_pbuf a b s) = n_memp s" "n_heap (put_pbuf a b s) = n_heap s"
  "extent (put_pbuf a b s) = extent s" "cells (put_pbuf a b s) = cells s"
  "stale_flags (put_pbuf a b s) = stale_flags s"
  by (simp_all add: put_pbuf_def)

lemma pchain_put_other: "pchain s p xs \<Longrightarrow> a \<notin> fst ` set xs \<Longrightarrow> pchain (put_pbuf a b s) p xs"
  by (rule pchain_cong) (auto simp: pchain_lookup image_iff)

lemma pchain_cong_bufs: "pbufs s' = pbufs s \<Longrightarrow> pchain s' p xs = pchain s p xs"
  by (induction s p xs rule: pchain.induct) auto

lemma totals_append: 
  "totals_to n (xs @ (a, b) # ys) \<longleftrightarrow> totals_to (unat (pb_tot_len b)) xs \<and> totals_to n ((a, b) # ys)"
  by (induction n xs rule: totals_to.induct) auto

lemma totals_sum:
  "totals_to n ((a, b) # xs) \<Longrightarrow>
     unat (pb_tot_len b) = sum_list (map (\<lambda>(a, b). unat (pb_len b)) ((a, b) # xs)) + n"
  by (induction n "(a, b) # xs" arbitrary: a b xs rule: totals_to.induct) auto

section \<open>The contents of a chain\<close>

definition pb_data :: "net \<Rightarrow> pbuf \<Rightarrow> u8 list option" where
  "pb_data s b = Option.bind (pb_payload b) (\<lambda>p. mem_read s p (unat (pb_len b)))"

fun chain_data :: "net \<Rightarrow> chain \<Rightarrow> u8 list option" where
  "chain_data s [] = Some []"
| "chain_data s ((a, b) # xs) = do { d \<leftarrow> pb_data s b; ds \<leftarrow> chain_data s xs; Some (d @ ds) }"

lemma mem_read_length: "mem_read s p n = Some d \<Longrightarrow> length d = n"
  by (auto simp: mem_read_def split: prod.splits option.splits if_splits)

lemma pb_data_length: "pb_data s b = Some d \<Longrightarrow> length d = unat (pb_len b)"
  by (auto simp: pb_data_def mem_read_length split: bind_splits)

lemma chain_data_length:
  "chain_data s xs = Some d \<Longrightarrow> length d = sum_list (map (\<lambda>(a, b). unat (pb_len b)) xs)"
  by (induction s xs arbitrary: d rule: chain_data.induct) (auto simp: pb_data_length split: bind_splits)

lemma chain_data_append:
  "chain_data s (xs @ ys) = do { d \<leftarrow> chain_data s xs; e \<leftarrow> chain_data s ys; Some (d @ e) }"
  by (induction s xs rule: chain_data.induct) (auto split: bind_splits simp: bind_eq_None_conv)

lemma mem_read_cong:
  "extent s' = extent s \<Longrightarrow> cells s' = cells s \<Longrightarrow> mem_read s' = mem_read s"
  by (auto simp: mem_read_def fun_eq_iff split: option.splits)

lemma chain_data_cong:
  assumes "extent s' = extent s" "cells s' = cells s"
    "map (\<lambda>(a, b). (pb_payload b, pb_len b)) ys = map (\<lambda>(a, b). (pb_payload b, pb_len b)) xs"
  shows "chain_data s' ys = chain_data s xs"
  using assms(3)
proof (induction xs arbitrary: ys)
  case (Cons x xs)
  then show ?case using mem_read_cong [OF assms(1,2)] by (cases ys; cases x) (auto simp: pb_data_def)
qed simp

section \<open>Concatenation\<close>

fun cat_upd :: "u16 \<Rightarrow> addr \<Rightarrow> chain \<Rightarrow> chain" where
  "cat_upd u t [] = []"
| "cat_upd u t [(a, b)] = [(a, b\<lparr>pb_tot_len := pb_tot_len b + u, pb_next := Some t\<rparr>)]"
| "cat_upd u t ((a, b) # y # xs) = (a, b\<lparr>pb_tot_len := pb_tot_len b + u\<rparr>) # cat_upd u t (y # xs)"

lemma map_fst_cat_upd [simp]: "map fst (cat_upd u t xs) = map fst xs"
  by (induction u t xs rule: cat_upd.induct) auto

lemma fst_set_cat_upd [simp]: "fst ` set (cat_upd u t xs) = fst ` set xs"
  by (metis list.set_map map_fst_cat_upd)

lemma pbuf_cat_loop_spec:
  assumes "pchain s (Some p) xs" "totals_to 0 xs" "pbufs s t = Some tb" "t \<notin> fst ` set xs"
  shows "\<exists>s'. pbuf_cat_loop p t s = Some s' \<and>
     s' = s\<lparr>pbufs := pbufs s ++ map_of (cat_upd (pb_tot_len tb) t xs)\<rparr>"
  using assms
proof (induction xs arbitrary: s p)
  case Nil
  then show ?case by simp
next
  case (Cons x xs)
  obtain b where x: "x = (p, b)" "pbufs s p = Some b" "pchain s (pb_next b) xs" using Cons.prems(1) by (cases x) auto
  have pt: "p \<noteq> t" using Cons.prems(4) x by auto
  show ?case
  proof (cases xs)
    case Nil
    then have "pb_next b = None" using x by simp
    moreover have "pb_tot_len b = pb_len b" using Cons.prems(2) x Nil by (simp add: word_eq_unat)
    ultimately show ?thesis using x Nil Cons.prems(3)
      by (subst pbuf_cat_loop.simps) (simp add: put_pbuf_def)
  next
    case (Cons y ys)
    obtain n c where y: "y = (n, c)" by (cases y)
    have nx: "pb_next b = Some n" using x(3) local.Cons y by simp
    let ?s = "put_pbuf p (b\<lparr>pb_tot_len := pb_tot_len b + pb_tot_len tb\<rparr>) s"
    have d: "distinct (map fst ((p, b) # xs))" using pchain_distinct [OF Cons.prems(1)] x by simp
    have "pchain ?s (Some n) xs" using x(3) nx d by (simp add: pchain_put_other)
    moreover have "totals_to 0 xs" using Cons.prems(2) x local.Cons y by simp
    moreover have "pbufs ?s t = Some tb" using pt Cons.prems(3) by simp
    moreover have "t \<notin> fst ` set xs" using Cons.prems(4) by simp
    ultimately obtain s' where s': "pbuf_cat_loop n t ?s = Some s'"
      "s' = ?s\<lparr>pbufs := pbufs ?s ++ map_of (cat_upd (pb_tot_len tb) t xs)\<rparr>"
      using Cons.IH [of ?s n] by blast
    have c: "cat_upd (pb_tot_len tb) t (x # xs) =
        (p, b\<lparr>pb_tot_len := pb_tot_len b + pb_tot_len tb\<rparr>) # cat_upd (pb_tot_len tb) t xs"
      using local.Cons x by simp
    have notin: "p \<notin> dom (map_of (cat_upd (pb_tot_len tb) t xs))"
      using d by (simp add: dom_map_of_conv_image_fst)
    have "pbuf_cat_loop p t s = pbuf_cat_loop n t ?s"
      using x nx Cons.prems(3) by (subst pbuf_cat_loop.simps) simp
    moreover have "s' = s\<lparr>pbufs := pbufs s ++ map_of (cat_upd (pb_tot_len tb) t (x # xs))\<rparr>"
      using s'(2) notin unfolding c by (simp add: put_pbuf_def map_add_upd_left)
    ultimately show ?thesis using s'(1) by simp
  qed
qed

fun linked :: "addr option \<Rightarrow> chain \<Rightarrow> addr option \<Rightarrow> bool" where
  "linked p [] q \<longleftrightarrow> p = q"
| "linked p ((a, b) # xs) q \<longleftrightarrow> p = Some a \<and> linked (pb_next b) xs q"

lemma pchain_linked:
  "pchain s p xs \<longleftrightarrow> linked p xs None \<and> (\<forall>(a, b) \<in> set xs. pbufs s a = Some b)"
  by (induction s p xs rule: pchain.induct) auto

lemma linked_append: "linked p (xs @ ys) q \<longleftrightarrow> (\<exists>r. linked p xs r \<and> linked r ys q)"
  by (induction p xs q rule: linked.induct) auto

lemma linked_cat_upd: "linked p xs q \<Longrightarrow> xs \<noteq> [] \<Longrightarrow> linked p (cat_upd u t xs) (Some t)"
  by (induction u t xs arbitrary: p rule: cat_upd.induct) auto

lemma totals_cat_upd:
  "totals_to 0 xs \<Longrightarrow> xs \<noteq> [] \<Longrightarrow> unat (pb_tot_len (snd (hd xs))) + unat u < 65536 \<Longrightarrow>
     totals_to (unat u) (cat_upd u t xs) \<and>
     unat (pb_tot_len (snd (hd (cat_upd u t xs)))) = unat (pb_tot_len (snd (hd xs))) + unat u"
proof (induction u t xs rule: cat_upd.induct)
  case (2 u t a b)
  then show ?case by (simp add: unat_u16_add)
next
  case (3 u t a b y xs)
  obtain c d where y: "y = (c, d)" by (cases y)
  have IH: "totals_to (unat u) (cat_upd u t (y # xs)) \<and>
      unat (pb_tot_len (snd (hd (cat_upd u t (y # xs))))) = unat (pb_tot_len d) + unat u"
    using 3 y by simp
  obtain c' d' zs where c: "cat_upd u t (y # xs) = (c', d') # zs"
    by (cases xs) (auto simp: y)
  show ?case using IH c 3(2,4) by (simp add: unat_u16_add y)
qed simp

lemma cat_upd_same:
  "map (\<lambda>(a, b). (pb_payload b, pb_len b)) (cat_upd u t xs) = map (\<lambda>(a, b). (pb_payload b, pb_len b)) xs"
  "map (\<lambda>(a, b). pb_ref b) (cat_upd u t xs) = map (\<lambda>(a, b). pb_ref b) xs"
  by (induction u t xs rule: cat_upd.induct) auto

lemma map_of_chain: "distinct (map fst zs) \<Longrightarrow> (a, b) \<in> set zs \<Longrightarrow> (m ++ map_of zs) a = Some b"
  by (simp add: map_add_def map_of_is_SomeI)

lemma pbuf_cat_spec:
  assumes xs: "pchain s (Some h) xs" "totals_to 0 xs" and ys: "pchain s (Some t) ys" "totals_to 0 ys"
    and dj: "fst ` set xs \<inter> fst ` set ys = {}"
    and fit: "unat (pb_tot_len (snd (hd xs))) + unat (pb_tot_len (snd (hd ys))) < 65536"
    and u: "u = pb_tot_len (snd (hd ys))"
  shows "\<exists>s'. pbuf_cat (Some h) (Some t) s = Some s' \<and> s' = s\<lparr>pbufs := pbufs s ++ map_of (cat_upd u t xs)\<rparr> \<and>
    pchain s' (Some h) (cat_upd u t xs @ ys) \<and> totals_to 0 (cat_upd u t xs @ ys)"
proof -
  obtain tb ts where ts: "ys = (t, tb) # ts" "pbufs s t = Some tb" using pchain_head [OF ys(1)] by blast
  have ne: "xs \<noteq> []" using xs by auto
  have utb: "u = pb_tot_len tb" using ts u by simp
  have "t \<notin> fst ` set xs" using dj ts by auto
  from pbuf_cat_loop_spec [OF xs ts(2) this] obtain s' where s': "pbuf_cat_loop h t s = Some s'"
    "s' = s\<lparr>pbufs := pbufs s ++ map_of (cat_upd u t xs)\<rparr>" unfolding utb by blast
  have d: "distinct (map fst (cat_upd u t xs))" using pchain_distinct [OF xs(1)] by simp
  have l: "linked (Some h) (cat_upd u t xs @ ys) None"
    using linked_cat_upd [of "Some h" xs None u t] xs ys ne by (auto simp: linked_append pchain_linked)
  have "pbufs s' a = Some b" if "(a, b) \<in> set (cat_upd u t xs @ ys)" for a b
  proof (cases "(a, b) \<in> set (cat_upd u t xs)")
    case True
    then show ?thesis using d s' by (simp add: map_of_chain del: map_add_Some_iff)
  next
    case False
    with that have y: "(a, b) \<in> set ys" by simp
    then have "a \<notin> fst ` set xs" using dj by force
    then have "map_of (cat_upd u t xs) a = None" by (simp add: map_of_eq_None_iff)
    moreover have "pbufs s a = Some b" using pchain_lookup [OF ys(1) y] .
    ultimately show ?thesis using s' by (simp add: map_add_def)
  qed
  then have "pchain s' (Some h) (cat_upd u t xs @ ys)" using l by (auto simp: pchain_linked)
  moreover have "totals_to 0 (cat_upd u t xs @ ys)"
    using totals_cat_upd [OF xs(2) ne, of u t] fit ys(2) utb ts by (simp add: totals_append)
  ultimately show ?thesis using s' by (auto simp: pbuf_cat_def)
qed

text \<open>\<open>pbuf_cat\<close> joins two packets: the head's chain followed by the tail's, with the total
  lengths of every pbuf of the head raised, no reference count changed, and as contents the two
  contents one after the other.\<close>

theorem pbuf_cat_concat:
  assumes "pchain s (Some h) xs" "totals_to 0 xs" and "pchain s (Some t) ys" "totals_to 0 ys"
    and "fst ` set xs \<inter> fst ` set ys = {}"
    and "unat (pb_tot_len (snd (hd xs))) + unat (pb_tot_len (snd (hd ys))) < 65536"
    and "chain_data s xs = Some d" "chain_data s ys = Some e"
  shows "\<exists>s' zs. pbuf_cat (Some h) (Some t) s = Some s' \<and> pchain s' (Some h) zs \<and> totals_to 0 zs \<and>
    map fst zs = map fst (xs @ ys) \<and> map (\<lambda>(a, b). pb_ref b) zs = map (\<lambda>(a, b). pb_ref b) (xs @ ys) \<and>
    chain_data s' zs = Some (d @ e) \<and> (\<forall>a. a \<notin> fst ` set xs \<longrightarrow> pbufs s' a = pbufs s a)"
proof -
  let ?zs = "cat_upd (pb_tot_len (snd (hd ys))) t xs @ ys"
  from pbuf_cat_spec [OF assms(1-6) refl] obtain s' where s': "pbuf_cat (Some h) (Some t) s = Some s'"
    "s' = s\<lparr>pbufs := pbufs s ++ map_of (cat_upd (pb_tot_len (snd (hd ys))) t xs)\<rparr>"
    "pchain s' (Some h) ?zs" "totals_to 0 ?zs" by blast
  have "extent s' = extent s" "cells s' = cells s" using s'(2) by simp_all
  then have "chain_data s' ?zs = chain_data s (xs @ ys)"
    by (rule chain_data_cong) (simp add: cat_upd_same)
  then have "chain_data s' ?zs = Some (d @ e)" using assms(7,8) by (simp add: chain_data_append)
  moreover have "pbufs s' a = pbufs s a" if "a \<notin> fst ` set xs" for a
  proof -
    from that have "map_of (cat_upd (pb_tot_len (snd (hd ys))) t xs) a = None" by (simp add: map_of_eq_None_iff)
    then show ?thesis using s'(2) by (simp add: map_add_def)
  qed
  moreover have "map (\<lambda>(a, b). pb_ref b) ?zs = map (\<lambda>(a, b). pb_ref b) (xs @ ys)" by (simp add: cat_upd_same)
  ultimately show ?thesis using s'(1,3,4) by (intro exI [of _ s'] exI [of _ ?zs]) simp
qed

definition two_pbufs :: net where
  "two_pbufs = \<lparr> n_memp = \<lparr>memp_tab = (\<lambda>_. None), memp_next = (\<lambda>_. None)\<rparr>,
     n_heap = \<lparr>hdrs = (\<lambda>_. None), lfree = 0\<rparr>,
     pbufs = [ExtAddr 1 \<mapsto> \<lparr>pb_next = None, pb_payload = Some (ExtAddr 1, 0), pb_tot_len = 2, pb_len = 2,
                pb_type = PBUF_REF, pb_flags = 0, pb_ref = 1\<rparr>,
              ExtAddr 2 \<mapsto> \<lparr>pb_next = None, pb_payload = Some (ExtAddr 2, 1), pb_tot_len = 3, pb_len = 3,
                pb_type = PBUF_REF, pb_flags = 0, pb_ref = 1\<rparr>],
     stale_flags = (\<lambda>_. 0), extent = (\<lambda>_. Some 4),
     cells = (\<lambda>a i. of_nat (if a = ExtAddr 1 then 10 + i else 20 + i)) \<rparr>"

lemma two_pbufs_chains:
  "pchain two_pbufs (Some (ExtAddr 1)) [(ExtAddr 1, the (pbufs two_pbufs (ExtAddr 1)))]"
  "pchain two_pbufs (Some (ExtAddr 2)) [(ExtAddr 2, the (pbufs two_pbufs (ExtAddr 2)))]"
  "chain_data two_pbufs [(ExtAddr 1, the (pbufs two_pbufs (ExtAddr 1)))] = Some [10, 11]"
  "chain_data two_pbufs [(ExtAddr 2, the (pbufs two_pbufs (ExtAddr 2)))] = Some [21, 22, 23]"
  by (simp_all add: two_pbufs_def pb_data_def mem_read_def upt_rec)

theorem pbuf_cat_concat_witness:
  "\<exists>s' zs. pbuf_cat (Some (ExtAddr 1)) (Some (ExtAddr 2)) two_pbufs = Some s' \<and>
     pchain s' (Some (ExtAddr 1)) zs \<and> length zs = 2 \<and> chain_data s' zs = Some [10, 11, 21, 22, 23]"
proof -
  note C = two_pbufs_chains
  from pbuf_cat_concat [OF C(1) _ C(2) _ _ _ C(3,4)] obtain s' zs where
    A: "pbuf_cat (Some (ExtAddr 1)) (Some (ExtAddr 2)) two_pbufs = Some s'" "pchain s' (Some (ExtAddr 1)) zs"
    "map fst zs = [ExtAddr 1, ExtAddr 2]" "chain_data s' zs = Some [10, 11, 21, 22, 23]"
    by (simp add: two_pbufs_def) metis
  from arg_cong [OF A(3), of length] have "length zs = 2" by simp
  with A show ?thesis by blast
qed

section \<open>Release\<close>

text \<open>
  The invariant of the memory: the pools and the heap are well formed, every pbuf that is not
  a custom one lies in a live element of its allocator, no pbuf lies in a free element, and
  what dead elements hold in the place of their flags does not mark them as custom.
\<close>

definition pbuf_owned :: "(nat \<Rightarrow> nat) \<Rightarrow> nat \<Rightarrow> net \<Rightarrow> pbuf_type \<Rightarrow> addr \<Rightarrow> bool" where
  "pbuf_owned Z B s type a = (case (type, a) of
      (PBUF_POOL, MempAddr x) \<Rightarrow> x \<in> memp_live Z B MEMP_PBUF_POOL (n_memp s)
    | (PBUF_ROM, MempAddr x) \<Rightarrow> x \<in> memp_live Z B MEMP_PBUF (n_memp s)
    | (PBUF_REF, MempAddr x) \<Rightarrow> x \<in> memp_live Z B MEMP_PBUF (n_memp s)
    | (PBUF_RAM, RamAddr x) \<Rightarrow> x \<in> mem_live (n_heap s)
    | _ \<Rightarrow> False)"

definition is_custom :: "u8 \<Rightarrow> bool" where
  "is_custom f \<longleftrightarrow> f AND PBUF_FLAG_IS_CUSTOM \<noteq> 0"

definition pbuf_placed :: "(nat \<Rightarrow> nat) \<Rightarrow> nat \<Rightarrow> net \<Rightarrow> pbuf \<Rightarrow> addr \<Rightarrow> bool" where
  "pbuf_placed Z B s b a =
     (if is_custom (pb_flags b) then
        (case a of MempAddr x \<Rightarrow> x \<notin> pool_elems Z B MEMP_PBUF_POOL \<union> pool_elems Z B MEMP_PBUF
         | RamAddr x \<Rightarrow> x \<in> mem_live (n_heap s) | ExtAddr _ \<Rightarrow> True)
      else pbuf_owned Z B s (pb_type b) a)"

definition net_inv :: "(nat \<Rightarrow> nat) \<Rightarrow> nat \<Rightarrow> net \<Rightarrow> bool" where
  "net_inv Z B s \<longleftrightarrow> sizes_ok Z B \<and> memp_inv Z B (n_memp s) \<and> (\<exists>bs. heap_rel (n_heap s) bs) \<and>
     (\<forall>a b. pbufs s a = Some b \<longrightarrow> pbuf_placed Z B s b a) \<and>
     (\<forall>a. \<not> is_custom (stale_flags s a))"

text \<open>The live elements of the two pbuf pools and of the heap.\<close>

definition net_live :: "(nat \<Rightarrow> nat) \<Rightarrow> nat \<Rightarrow> net \<Rightarrow> addr set" where
  "net_live Z B s = MempAddr ` memp_live Z B MEMP_PBUF_POOL (n_memp s) \<union>
     MempAddr ` memp_live Z B MEMP_PBUF (n_memp s) \<union> RamAddr ` mem_live (n_heap s)"

lemma pbuf_idx: "MEMP_PBUF_POOL < MEMP_MAX" "MEMP_PBUF < MEMP_MAX" "MEMP_PBUF_POOL \<noteq> MEMP_PBUF"
  by (simp_all add: MEMP_PBUF_POOL_def MEMP_PBUF_def MEMP_MAX_def)

lemma is_custom_0 [simp]: "\<not> is_custom 0" by (simp add: is_custom_def)

lemma memp_live_apart:
  assumes "sizes_ok Z B" "i < MEMP_MAX" "j < MEMP_MAX" "i \<noteq> j" "x \<in> memp_live Z B i s"
  shows "x \<notin> memp_live Z B j t"
  using pool_elems_disjoint [OF assms(1-3)] assms(4,5) by (auto simp: memp_live_def)

lemma net_invI:
  assumes "sizes_ok Z B" "memp_inv Z B (n_memp s)" "\<exists>bs. heap_rel (n_heap s) bs"
    "\<And>a b. pbufs s a = Some b \<Longrightarrow> pbuf_placed Z B s b a"
    "\<And>a. \<not> is_custom (stale_flags s a)"
  shows "net_inv Z B s"
  using assms by (simp add: net_inv_def)

lemma net_invD:
  assumes "net_inv Z B s"
  shows "sizes_ok Z B" "memp_inv Z B (n_memp s)" "\<exists>bs. heap_rel (n_heap s) bs"
    "\<And>a b. pbufs s a = Some b \<Longrightarrow> pbuf_placed Z B s b a"
    "\<And>a. \<not> is_custom (stale_flags s a)"
  using assms by (auto simp: net_inv_def)

lemma memp_live_other:
  assumes "\<forall>j < MEMP_MAX. j \<noteq> i \<longrightarrow> memp_free_list t j = memp_free_list s j" "j < MEMP_MAX" "j \<noteq> i"
  shows "memp_live Z B j t = memp_live Z B j s"
  using assms by (simp add: memp_live_def)

text \<open>What \<open>memp_free\<close> and \<open>mem_free\<close> do to the set of live elements.\<close>

lemma net_memp_free:
  assumes inv: "sizes_ok Z B" "memp_inv Z B m" and i: "i = MEMP_PBUF_POOL \<or> i = MEMP_PBUF"
    and x: "x \<in> memp_live Z B i m"
  shows "\<exists>m'. memp_free i (Some x) m = Some m' \<and> memp_inv Z B m' \<and>
    (\<forall>j < MEMP_MAX. memp_live Z B j m' = memp_live Z B j m - {x})"
proof -
  have iM: "i < MEMP_MAX" using i pbuf_idx by auto
  from memp_free_spec [OF inv iM x] obtain m' where m': "memp_free i (Some x) m = Some m'" "memp_inv Z B m'"
    "memp_free_list m' i = x # memp_free_list m i"
    "\<forall>j < MEMP_MAX. j \<noteq> i \<longrightarrow> memp_free_list m' j = memp_free_list m j" by blast
  have "memp_live Z B j m' = memp_live Z B j m - {x}" if j: "j < MEMP_MAX" for j
  proof (cases "j = i")
    case True
    then show ?thesis using m'(3) by (auto simp: memp_live_def)
  next
    case False
    then show ?thesis using m'(4) j memp_live_apart [OF inv(1) iM j _ x] by (simp add: memp_live_def)
  qed
  with m' show ?thesis by blast
qed

lemma net_live_memp_free:
  assumes "\<forall>j < MEMP_MAX. memp_live Z B j m' = memp_live Z B j (n_memp s) - {x}"
    "n_memp s' = m'" "n_heap s' = n_heap s"
  shows "net_live Z B s' = net_live Z B s - {MempAddr x}"
  using assms pbuf_idx by (auto simp: net_live_def)

lemma owned_mono:
  assumes "pbuf_owned Z B s t a" "net_live Z B s' = net_live Z B s - {c}" "a \<noteq> c"
    "\<And>i. i = MEMP_PBUF_POOL \<or> i = MEMP_PBUF \<Longrightarrow> memp_live Z B i (n_memp s') = memp_live Z B i (n_memp s) - {x. MempAddr x = c}"
  shows "pbuf_owned Z B s' t a"
proof -
  have h: "RamAddr x \<in> net_live Z B u \<longleftrightarrow> x \<in> mem_live (n_heap u)" for u x by (auto simp: net_live_def)
  have "x \<in> mem_live (n_heap s')" if "x \<in> mem_live (n_heap s)" "RamAddr x \<noteq> c" for x
    using that h [of x s] h [of x s'] assms(2) by simp
  then show ?thesis
    using assms(1,3) assms(4) [of MEMP_PBUF_POOL] assms(4) [of MEMP_PBUF]
    by (cases t; cases a) (auto simp: pbuf_owned_def)
qed

lemma placed_mono:
  assumes "pbuf_placed Z B s b a" "net_live Z B s' = net_live Z B s - {c}" "a \<noteq> c"
    "\<And>i. i = MEMP_PBUF_POOL \<or> i = MEMP_PBUF \<Longrightarrow> memp_live Z B i (n_memp s') = memp_live Z B i (n_memp s) - {x. MempAddr x = c}"
  shows "pbuf_placed Z B s' b a"
proof -
  have h: "RamAddr x \<in> net_live Z B u \<longleftrightarrow> x \<in> mem_live (n_heap u)" for u x by (auto simp: net_live_def)
  have "x \<in> mem_live (n_heap s')" if "x \<in> mem_live (n_heap s)" "RamAddr x \<noteq> c" for x
    using that h [of x s] h [of x s'] assms(2) by simp
  then show ?thesis
    using assms(1,3) owned_mono [OF _ assms(2-4)]
    by (auto simp: pbuf_placed_def split: addr.splits)
qed

lemma pbuf_dealloc_spec:
  assumes inv: "net_inv Z B s" and b: "pbufs s a = Some b" and nc: "\<not> is_custom (pb_flags b)"
  shows "\<exists>s'. pbuf_dealloc cff a b s = Some s' \<and> net_inv Z B s' \<and> pbufs s' = (pbufs s)(a := None) \<and>
    net_live Z B s' = net_live Z B s - {a} \<and> a \<in> net_live Z B s \<and>
    cells s' = cells s \<and> extent s' = (extent s)(a := None)"
proof -
  note I = net_invD [OF inv]
  let ?s = "s\<lparr>pbufs := (pbufs s)(a := None), extent := (extent s)(a := None),
     stale_flags := (stale_flags s)(a := pb_flags b)\<rparr>"
  have own: "pbuf_owned Z B s (pb_type b) a" using I(4) [OF b] nc by (simp add: pbuf_placed_def)
  have nc': "pb_flags b AND PBUF_FLAG_IS_CUSTOM = 0" using nc by (simp add: is_custom_def)
  show ?thesis
  proof (cases "pb_type b = PBUF_RAM")
    case True
    then obtain x where x: "a = RamAddr x" "x \<in> mem_live (n_heap s)"
      using own by (auto simp: pbuf_owned_def split: addr.splits)
    from mem.release_law [OF I(3) x(2)] obtain h where h: "mem_free (Some x) (n_heap s) = Some h"
      "\<exists>bs. heap_rel h bs" "mem_live h = mem_live (n_heap s) - {x}" by blast
    let ?t = "?s\<lparr>n_heap := h\<rparr>"
    have r: "pbuf_dealloc cff a b s = Some ?t"
      using True x h nc' by (simp add: pbuf_dealloc_def Let_def)
    have L: "net_live Z B ?t = net_live Z B s - {a}" using x h by (auto simp: net_live_def)
    have "net_inv Z B ?t"
    proof (rule net_invI)
      fix c d assume c: "pbufs ?t c = Some d"
      then have ca: "c \<noteq> a" "pbufs s c = Some d" by (simp_all split: if_splits)
      show "pbuf_placed Z B ?t d c"
        by (rule placed_mono [OF I(4) [OF ca(2)] L ca(1)]) (simp add: x(1))
    next
      show "\<not> is_custom (stale_flags ?t c)" for c using I(5) nc by simp
    qed (use I h in auto)
    moreover have "a \<in> net_live Z B s" using x by (simp add: net_live_def)
    ultimately show ?thesis using r L by simp
  next
    case False
    define i where "i = (if pb_type b = PBUF_POOL then MEMP_PBUF_POOL else MEMP_PBUF)"
    obtain x where x: "a = MempAddr x" "x \<in> memp_live Z B i (n_memp s)"
      using own False by (cases "pb_type b") (auto simp: pbuf_owned_def i_def split: addr.splits)
    have i: "i = MEMP_PBUF_POOL \<or> i = MEMP_PBUF" by (simp add: i_def)
    from net_memp_free [OF I(1,2) i x(2)] obtain m where m: "memp_free i (Some x) (n_memp s) = Some m"
      "memp_inv Z B m" "\<forall>j < MEMP_MAX. memp_live Z B j m = memp_live Z B j (n_memp s) - {x}" by blast
    let ?t = "?s\<lparr>n_memp := m\<rparr>"
    have r: "pbuf_dealloc cff a b s = Some ?t"
      using False x m nc' by (cases "pb_type b") (simp_all add: pbuf_dealloc_def Let_def i_def)
    have L: "net_live Z B ?t = net_live Z B s - {a}" using net_live_memp_free [OF m(3), of ?t] x by simp
    have "net_inv Z B ?t"
    proof (rule net_invI)
      fix c d assume c: "pbufs ?t c = Some d"
      then have ca: "c \<noteq> a" "pbufs s c = Some d" by (simp_all split: if_splits)
      show "pbuf_placed Z B ?t d c"
        by (rule placed_mono [OF I(4) [OF ca(2)] L ca(1)]) (use m(3) pbuf_idx in \<open>auto simp: x(1)\<close>)
    next
      show "\<not> is_custom (stale_flags ?t c)" for c using I(5) nc by simp
    qed (use I m in auto)
    moreover have "a \<in> net_live Z B s" using x i by (auto simp: net_live_def)
    ultimately show ?thesis using r L by simp
  qed
qed

text \<open>
  What \<open>pbuf_free\<close> does to a chain: the pbufs with one reference at its head go, the next
  one loses a reference.
\<close>

fun gone :: "chain \<Rightarrow> chain" where
  "gone [] = []"
| "gone ((a, b) # xs) = (if pb_ref b = 1 then (a, b) # gone xs else [])"

fun after_free :: "chain \<Rightarrow> (addr \<Rightarrow> pbuf option) \<Rightarrow> (addr \<Rightarrow> pbuf option)" where
  "after_free [] m = m"
| "after_free ((a, b) # xs) m =
     (if pb_ref b = 1 then after_free xs (m(a := None)) else m(a \<mapsto> b\<lparr>pb_ref := pb_ref b - 1\<rparr>))"

definition chain_ok :: "chain \<Rightarrow> bool" where
  "chain_ok xs \<longleftrightarrow> (\<forall>(a, b) \<in> set xs. pb_ref b \<noteq> 0 \<and> \<not> is_custom (pb_flags b))"

lemma chain_ok_simps [simp]:
  "chain_ok []"
  "chain_ok ((a, b) # xs) \<longleftrightarrow> pb_ref b \<noteq> 0 \<and> \<not> is_custom (pb_flags b) \<and> chain_ok xs"
  "chain_ok (xs @ ys) \<longleftrightarrow> chain_ok xs \<and> chain_ok ys"
  by (auto simp: chain_ok_def)

lemma pbuf_owned_cong:
  "n_memp s' = n_memp s \<Longrightarrow> n_heap s' = n_heap s \<Longrightarrow> pbuf_owned Z B s' = pbuf_owned Z B s"
  by (auto simp: pbuf_owned_def fun_eq_iff split: pbuf_type.splits addr.splits)

lemma pbuf_placed_cong:
  "n_memp s' = n_memp s \<Longrightarrow> n_heap s' = n_heap s \<Longrightarrow> pb_type b' = pb_type b \<Longrightarrow> pb_flags b' = pb_flags b \<Longrightarrow>
   pbuf_placed Z B s' b' a = pbuf_placed Z B s b a"
  using pbuf_owned_cong [of s' s Z B] by (auto simp: pbuf_placed_def split: addr.splits)

lemma net_inv_put:
  assumes "net_inv Z B s" "pbufs s a = Some b" "pb_type b' = pb_type b" "pb_flags b' = pb_flags b"
  shows "net_inv Z B (put_pbuf a b' s)"
proof -
  have "pbuf_placed Z B (put_pbuf a b' s) d c" if "pbufs (put_pbuf a b' s) c = Some d" for c d
  proof (cases "c = a")
    case True
    then show ?thesis
      using that assms pbuf_placed_cong [of "put_pbuf a b' s" s b' b] by (simp add: net_inv_def)
  next
    case False
    then show ?thesis
      using that assms(1) pbuf_placed_cong [of "put_pbuf a b' s" s d d] by (simp add: net_inv_def)
  qed
  then show ?thesis using assms(1) by (simp add: net_inv_def)
qed

lemma net_live_put [simp]: "net_live Z B (put_pbuf a b s) = net_live Z B s"
  by (simp add: net_live_def)

lemma pbuf_free_loop_spec:
  assumes "net_inv Z B s" "pchain s p xs" "chain_ok xs"
  shows "\<exists>s'. pbuf_free_loop cff p k s = Some (k + of_nat (length (gone xs)), s') \<and> net_inv Z B s' \<and>
    pbufs s' = after_free xs (pbufs s) \<and> net_live Z B s' = net_live Z B s - fst ` set (gone xs) \<and>
    cells s' = cells s \<and> (\<forall>a. a \<notin> fst ` set (gone xs) \<longrightarrow> extent s' a = extent s a)"
  using assms
proof (induction xs arbitrary: s p k)
  case Nil
  then show ?case by (subst pbuf_free_loop.simps) simp
next
  case (Cons x xs)
  obtain a b where x: "x = (a, b)" by (cases x)
  with Cons.prems have b: "p = Some a" "pbufs s a = Some b" "pchain s (pb_next b) xs"
    "pb_ref b \<noteq> 0" "\<not> is_custom (pb_flags b)" "chain_ok xs" by auto
  show ?case
  proof (cases "pb_ref b = 1")
    case False
    then have "pb_ref b - 1 \<noteq> 0" by simp
    then have "pbuf_free_loop cff p k s = Some (k, put_pbuf a (b\<lparr>pb_ref := pb_ref b - 1\<rparr>) s)"
      using b by (subst pbuf_free_loop.simps) (simp add: Let_def)
    then show ?thesis using False x net_inv_put [OF Cons.prems(1) b(2)] by (simp add: fun_upd_def)
  next
    case True
    from pbuf_dealloc_spec [OF Cons.prems(1) b(2,5), of cff] obtain s1 where s1:
      "pbuf_dealloc cff a b s = Some s1" "net_inv Z B s1" "pbufs s1 = (pbufs s)(a := None)"
      "net_live Z B s1 = net_live Z B s - {a}" "cells s1 = cells s" "extent s1 = (extent s)(a := None)" by blast
    have "a \<notin> fst ` set xs" using pchain_distinct [OF Cons.prems(2)] x by simp
    then have "pchain s1 (pb_next b) xs"
      using b(3) s1(3) by (intro pchain_cong [OF b(3)]) (auto simp: pchain_lookup image_iff)
    from Cons.IH [OF s1(2) this b(6), of "k + 1"] obtain s2 where s2:
      "pbuf_free_loop cff (pb_next b) (k + 1) s1 = Some (k + 1 + of_nat (length (gone xs)), s2)" "net_inv Z B s2"
      "pbufs s2 = after_free xs (pbufs s1)" "net_live Z B s2 = net_live Z B s1 - fst ` set (gone xs)"
      "cells s2 = cells s1" "\<forall>a. a \<notin> fst ` set (gone xs) \<longrightarrow> extent s2 a = extent s1 a" by blast
    have "pbuf_free_loop cff p k s = Some (k + of_nat (length (gone (x # xs))), s2)"
      using True b s1 s2 x by (subst pbuf_free_loop.simps) (simp add: Let_def add_ac)
    moreover have "net_live Z B s2 = net_live Z B s - fst ` set (gone (x # xs))"
      using True x s1 s2 by auto
    ultimately show ?thesis using True x s1 s2 by simp
  qed
qed

lemma pbuf_free_spec:
  assumes "net_inv Z B s" "pchain s (Some p) xs" "chain_ok xs"
  shows "\<exists>s'. pbuf_free cff (Some p) s = Some (of_nat (length (gone xs)), s') \<and> net_inv Z B s' \<and>
    pbufs s' = after_free xs (pbufs s) \<and> net_live Z B s' = net_live Z B s - fst ` set (gone xs) \<and>
    cells s' = cells s \<and> (\<forall>a. a \<notin> fst ` set (gone xs) \<longrightarrow> extent s' a = extent s a)"
  using pbuf_free_loop_spec [OF assms, of cff 0] by (simp add: pbuf_free_def)

end
