(* ===== verification/PbufAlloc.thy ===== *)
theory PbufAlloc
  imports PbufChain
begin

text \<open>
  Allocation of pbufs: what the pools and the heap give, and the chain that results.
\<close>

lemma net_memp_malloc:
  assumes inv: "net_inv Z B s" and i: "i = MEMP_PBUF_POOL \<or> i = MEMP_PBUF"
  shows "case memp_free_list (n_memp s) i of
      [] \<Rightarrow> memp_malloc i (n_memp s) = Some (None, n_memp s)
    | x # F \<Rightarrow> \<exists>m'. memp_malloc i (n_memp s) = Some (Some x, m') \<and> memp_inv Z B m' \<and> x mod 4 = 0 \<and>
        x \<in> pool_elems Z B i \<and> MempAddr x \<notin> net_live Z B s \<and> pbufs s (MempAddr x) = None \<and>
        memp_free_list m' i = F \<and> x \<notin> set F \<and>
        (\<forall>j < MEMP_MAX. j \<noteq> i \<longrightarrow> memp_free_list m' j = memp_free_list (n_memp s) j) \<and>
        (\<forall>j < MEMP_MAX. memp_live Z B j m' = memp_live Z B j (n_memp s) \<union> (if j = i then {x} else {}))"
proof (cases "memp_free_list (n_memp s) i")
  case Nil
  have iM: "i < MEMP_MAX" using i pbuf_idx by auto
  from memp_malloc_spec [OF net_invD(1,2) [OF inv] iM] Nil show ?thesis by simp
next
  case (Cons x F)
  note I = net_invD [OF inv]
  have iM: "i < MEMP_MAX" using i pbuf_idx by auto
  from memp_malloc_spec [OF I(1,2) iM] Cons obtain m' where m': "memp_malloc i (n_memp s) = Some (Some x, m')"
    "memp_inv Z B m'" "memp_free_list m' i = F"
    "\<forall>j < MEMP_MAX. j \<noteq> i \<longrightarrow> memp_free_list m' j = memp_free_list (n_memp s) j" by auto
  from memp_invE [OF I(2) iM] Cons have F: "distinct (x # F)" "set (x # F) \<subseteq> pool_elems Z B i" by metis+
  have x: "x \<in> pool_elems Z B i" "x \<notin> memp_live Z B i (n_memp s)" using F Cons by (auto simp: memp_live_def)
  have xj: "x \<notin> pool_elems Z B j" if "j < MEMP_MAX" "j \<noteq> i" for j
    using pool_elems_disjoint [OF I(1) iM that(1)] that x(1) by auto
  have "x \<notin> memp_live Z B j (n_memp s)" if "j < MEMP_MAX" for j
    using xj [OF that] x by (cases "j = i") (auto simp: memp_live_def)
  then have nl: "MempAddr x \<notin> net_live Z B s" using pbuf_idx by (auto simp: net_live_def)
  have np: "pbufs s (MempAddr x) = None"
  proof (rule ccontr)
    assume "pbufs s (MempAddr x) \<noteq> None"
    then obtain b where "pbufs s (MempAddr x) = Some b" by blast
    from I(4) [OF this] nl x(1) i show False
      by (auto simp: pbuf_placed_def pbuf_owned_def net_live_def split: if_splits pbuf_type.splits)
  qed
  have "memp_live Z B j m' = memp_live Z B j (n_memp s) \<union> (if j = i then {x} else {})" if "j < MEMP_MAX" for j
    using m'(3,4) that F Cons by (auto simp: memp_live_def)
  then show ?thesis using Cons m' nl np x(1) F pool_elems_aligned [OF I(1) iM x(1)] by simp
qed

lemma placed_more:
  assumes "pbuf_placed Z B s b a" "\<And>x. x \<in> mem_live (n_heap s) \<Longrightarrow> x \<in> mem_live (n_heap s')"
    "\<And>i x. i = MEMP_PBUF_POOL \<or> i = MEMP_PBUF \<Longrightarrow> x \<in> memp_live Z B i (n_memp s) \<Longrightarrow> x \<in> memp_live Z B i (n_memp s')"
  shows "pbuf_placed Z B s' b a"
  using assms by (cases a; cases "pb_type b"; cases "is_custom (pb_flags b)") (simp_all add: pbuf_placed_def pbuf_owned_def)

lemma net_inv_new:
  assumes inv: "net_inv Z B s" and m: "memp_inv Z B m'" and i: "i = MEMP_PBUF_POOL \<or> i = MEMP_PBUF"
    and L: "\<forall>j < MEMP_MAX. memp_live Z B j m' = memp_live Z B j (n_memp s) \<union> (if j = i then {x} else {})"
    and b: "i = (if pb_type b = PBUF_POOL then MEMP_PBUF_POOL else MEMP_PBUF)" "pb_type b \<noteq> PBUF_RAM"
      "\<not> is_custom (pb_flags b)"
    and s': "s' = s\<lparr>n_memp := m', pbufs := (pbufs s)(MempAddr x \<mapsto> b), extent := e\<rparr>"
  shows "net_inv Z B s' \<and> net_live Z B s' = insert (MempAddr x) (net_live Z B s)"
proof
  note I = net_invD [OF inv]
  have Lp: "memp_live Z B MEMP_PBUF_POOL m' = memp_live Z B MEMP_PBUF_POOL (n_memp s) \<union> (if MEMP_PBUF_POOL = i then {x} else {})"
    "memp_live Z B MEMP_PBUF m' = memp_live Z B MEMP_PBUF (n_memp s) \<union> (if MEMP_PBUF = i then {x} else {})"
    using L pbuf_idx by blast+
  show "net_live Z B s' = insert (MempAddr x) (net_live Z B s)"
    using Lp i pbuf_idx by (auto simp: net_live_def s')
  show "net_inv Z B s'"
  proof (rule net_invI)
    fix c d assume c: "pbufs s' c = Some d"
    show "pbuf_placed Z B s' d c"
    proof (cases "c = MempAddr x")
      case True
      then have "d = b" using c by (simp add: s')
      then show ?thesis using True b Lp by (cases "pb_type b") (auto simp: pbuf_placed_def pbuf_owned_def s')
    next
      case False
      then have "pbufs s c = Some d" using c by (simp add: s')
      from I(4) [OF this] show ?thesis by (rule placed_more) (use Lp in \<open>auto simp: s'\<close>)
    qed
  qed (use I m s' in auto)
qed

text \<open>Pbufs of a chain whose payload lies inside their own object.\<close>

definition pb_room :: "net \<Rightarrow> addr \<Rightarrow> pbuf \<Rightarrow> bool" where
  "pb_room s a b \<longleftrightarrow> (\<exists>off e. pb_payload b = Some (a, off) \<and> 16 \<le> off \<and>
     extent s a = Some e \<and> off + int (unat (pb_len b)) \<le> int e)"

definition chain_room :: "net \<Rightarrow> chain \<Rightarrow> bool" where
  "chain_room s xs \<longleftrightarrow> (\<forall>(a, b) \<in> set xs. pb_room s a b)"

lemma chain_room_data: "chain_room s xs \<Longrightarrow> \<exists>d. chain_data s xs = Some d"
proof (induction xs)
  case (Cons x xs)
  obtain a b where x: "x = (a, b)" by (cases x)
  have "\<exists>d. pb_data s b = Some d"
    using Cons.prems x by (auto simp: chain_room_def pb_room_def pb_data_def mem_read_def)
  moreover have "chain_room s xs" using Cons.prems by (simp add: chain_room_def)
  ultimately show ?case using Cons.IH x by auto
qed simp

lemma chain_room_simps [simp]:
  "chain_room s []" "chain_room s (xs @ ys) \<longleftrightarrow> chain_room s xs \<and> chain_room s ys"
  "chain_room s ((a, b) # xs) \<longleftrightarrow> pb_room s a b \<and> chain_room s xs"
  by (auto simp: chain_room_def)

lemma chain_room_cong: "chain_room s xs \<Longrightarrow> (\<And>a. a \<in> fst ` set xs \<Longrightarrow> extent s' a = extent s a) \<Longrightarrow> chain_room s' xs"
  by (fastforce simp: chain_room_def pb_room_def)

definition all_one :: "chain \<Rightarrow> bool" where
  "all_one xs \<longleftrightarrow> (\<forall>(a, b) \<in> set xs. pb_ref b = 1 \<and> \<not> is_custom (pb_flags b))"

lemma all_one_simps [simp]:
  "all_one []" "all_one ((a, b) # xs) \<longleftrightarrow> pb_ref b = 1 \<and> \<not> is_custom (pb_flags b) \<and> all_one xs"
  "all_one (xs @ ys) \<longleftrightarrow> all_one xs \<and> all_one ys"
  by (auto simp: all_one_def)

lemma all_one_gone: "all_one xs \<Longrightarrow> gone xs = xs \<and> chain_ok xs"
  by (induction xs rule: gone.induct) auto

lemma after_free_all: "all_one xs \<Longrightarrow> after_free xs m = (\<lambda>a. if a \<in> fst ` set xs then None else m a)"
  by (induction xs m rule: after_free.induct) (auto simp: fun_eq_iff)


section \<open>The tail of a pool chain\<close>

lemma chain_extend:
  assumes pc: "pchain s (Some p) (xs @ [(r, rb)])" and q: "pbufs s q = None"
    and qb: "pb_next qb = None"
    and s1: "pbufs s1 = (pbufs s)(r \<mapsto> rb\<lparr>pb_next := Some q\<rparr>, q \<mapsto> qb)"
  shows "pchain s1 (Some p) (xs @ [(r, rb\<lparr>pb_next := Some q\<rparr>), (q, qb)])"
proof -
  have d: "r \<notin> fst ` set xs" using pchain_distinct [OF pc] by simp
  have look: "pbufs s a = Some b" if "(a, b) \<in> set (xs @ [(r, rb)])" for a b
    using pchain_lookup [OF pc that] .
  then have qn: "q \<noteq> r" "q \<notin> fst ` set xs" using q by force+
  have "pbufs s1 a = Some b" if "(a, b) \<in> set xs" for a b
  proof -
    have "a \<in> fst ` set xs" using that by force
    then have "a \<noteq> r" "a \<noteq> q" using d qn by auto
    then show ?thesis using look [of a b] that s1 by simp
  qed
  moreover have "linked (Some p) (xs @ [(r, rb\<lparr>pb_next := Some q\<rparr>), (q, qb)]) None"
    using pc qb by (auto simp: pchain_linked linked_append)
  ultimately show ?thesis using s1 qn by (auto simp: pchain_linked)
qed

definition tail_need :: "int \<Rightarrow> nat" where
  "tail_need rem = (nat rem + 1519) div 1520"

lemma tail_need_0: "0 \<le> rem \<Longrightarrow> tail_need rem = 0 \<longleftrightarrow> rem = 0"
proof -
  assume "0 \<le> rem"
  then show ?thesis unfolding tail_need_def by (cases "rem = 0") (auto simp: div_eq_0_iff)
qed

lemma tail_need_step: "0 < rem \<Longrightarrow> tail_need rem = Suc (tail_need (rem - min rem 1520))"
proof -
  assume r: "0 < rem"
  show ?thesis
  proof (cases "rem \<le> 1520")
    case True
    then have "nat rem + 1519 = 1520 + (nat rem - 1)" "nat rem - 1 < 1520" using r by auto
    then have "tail_need rem = 1" unfolding tail_need_def by simp
    then show ?thesis using True by (simp add: tail_need_def)
  next
    case False
    then have "nat rem + 1519 = 1520 + (nat (rem - 1520) + 1519)" by auto
    then have "tail_need rem = Suc (tail_need (rem - 1520))" unfolding tail_need_def by (simp only: div_add_self1)
    then show ?thesis using False by simp
  qed
qed

lemma unat_of_int_u16: "0 \<le> n \<Longrightarrow> n < 65536 \<Longrightarrow> unat (of_int n :: u16) = nat n"
proof -
  assume n: "0 \<le> n" "n < 65536"
  then have "(of_nat (nat n) :: u16) = of_int n" by (metis of_int_of_nat_eq int_nat_eq)
  moreover have "nat n < 65536" using n by simp
  ultimately show ?thesis using unat_of_nat_u16 [of "nat n"] by metis
qed

lemma pbuf_alloc_tail_spec:
  assumes "net_inv Z B s" "pchain s (Some p) (xs @ [(r, rb)])" "all_one (xs @ [(r, rb)])"
    "chain_room s (xs @ [(r, rb)])" "totals_to (nat rem) (xs @ [(r, rb)])" "0 \<le> rem" "rem < 65535"
    "memp_free_list (n_memp s) MEMP_PBUF_POOL = F"
  shows "if tail_need rem \<le> length F then
      \<exists>s' zs nx. pbuf_alloc_tail cff p r rem s = Some (True, s') \<and> net_inv Z B s' \<and>
        pchain s' (Some p) (xs @ (r, rb\<lparr>pb_next := nx\<rparr>) # zs) \<and>
        map fst zs = map MempAddr (take (tail_need rem) F) \<and> all_one zs \<and>
        chain_room s' (xs @ (r, rb\<lparr>pb_next := nx\<rparr>) # zs) \<and> totals_to 0 (xs @ (r, rb\<lparr>pb_next := nx\<rparr>) # zs) \<and>
        (\<forall>a. a \<notin> insert r (fst ` set zs) \<longrightarrow> pbufs s' a = pbufs s a) \<and>
        (\<forall>a. a \<in> fst ` set zs \<longrightarrow> a \<notin> net_live Z B s) \<and>
        net_live Z B s' = net_live Z B s \<union> fst ` set zs \<and> n_heap s' = n_heap s \<and> cells s' = cells s
    else \<exists>s'. pbuf_alloc_tail cff p r rem s = Some (False, s') \<and> net_inv Z B s' \<and>
        pbufs s' = (\<lambda>a. if a \<in> fst ` set (xs @ [(r, rb)]) then None else pbufs s a) \<and>
        net_live Z B s' = net_live Z B s - fst ` set (xs @ [(r, rb)]) \<and> cells s' = cells s"
  using assms
proof (induction F arbitrary: s xs r rb rem)
  case Nil
  note inv = Nil(1) and pc = Nil(2) and one = Nil(3) and room = Nil(4) and tot = Nil(5)
  show ?case
  proof (cases "rem = 0")
    case True
    have "pb_next rb = None" using pc by (auto simp: pchain_linked linked_append)
    then have rb: "rb\<lparr>pb_next := None\<rparr> = rb" by simp
    have "pbuf_alloc_tail cff p r rem s = Some (True, s)" using True by (simp add: pbuf_alloc_tail.simps)
    then show ?thesis using True Nil rb tail_need_0 [of rem]
      by simp (intro exI [of _ "[]"] exI [of _ None], simp)
  next
    case False
    then have r: "0 < rem" using Nil(6) by simp
    have "memp_malloc MEMP_PBUF_POOL (n_memp s) = Some (None, n_memp s)"
      using net_memp_malloc [OF inv, of MEMP_PBUF_POOL] Nil(8) by simp
    moreover from pbuf_free_spec [OF inv pc, of cff] all_one_gone [OF one] obtain s' where s':
      "pbuf_free cff (Some p) s = Some (of_nat (length (xs @ [(r, rb)])), s')" "net_inv Z B s'"
      "pbufs s' = after_free (xs @ [(r, rb)]) (pbufs s)"
      "net_live Z B s' = net_live Z B s - fst ` set (xs @ [(r, rb)])" "cells s' = cells s" by auto
    ultimately have "pbuf_alloc_tail cff p r rem s = Some (False, s')"
      using r by (simp add: pbuf_alloc_tail.simps)
    moreover have "\<not> tail_need rem \<le> length []" using False tail_need_0 Nil(6) by simp
    ultimately show ?thesis using s' after_free_all [OF one] by simp
  qed
next
  case (Cons x F)
  note inv = Cons.prems(1) and pc = Cons.prems(2) and one = Cons.prems(3) and room = Cons.prems(4)
    and tot = Cons.prems(5) and rem = Cons.prems(6,7) and fl = Cons.prems(8)
  show ?case
  proof (cases "rem = 0")
    case True
    have "pb_next rb = None" using pc by (auto simp: pchain_linked linked_append)
    then have rb: "rb\<lparr>pb_next := None\<rparr> = rb" by simp
    have "pbuf_alloc_tail cff p r rem s = Some (True, s)" using True by (simp add: pbuf_alloc_tail.simps)
    then show ?thesis using True Cons.prems rb tail_need_0 [of rem]
      by simp (intro exI [of _ "[]"] exI [of _ None], simp)
  next
    case False
    then have r: "0 < rem" using rem by simp
    from net_memp_malloc [OF inv, of MEMP_PBUF_POOL] fl obtain m' where m':
      "memp_malloc MEMP_PBUF_POOL (n_memp s) = Some (Some x, m')" "memp_inv Z B m'" "x mod 4 = 0"
      "MempAddr x \<notin> net_live Z B s" "pbufs s (MempAddr x) = None" "memp_free_list m' MEMP_PBUF_POOL = F"
      "\<forall>j < MEMP_MAX. memp_live Z B j m' = memp_live Z B j (n_memp s) \<union> (if j = MEMP_PBUF_POOL then {x} else {})"
      by auto
    define q where "q = MempAddr x"
    define len where "len = min rem 1520"
    define qb where "qb = \<lparr>pb_next = None, pb_payload = Some (q, 16),
       pb_tot_len = of_int rem, pb_len = of_int len, pb_type = PBUF_POOL, pb_flags = 0, pb_ref = 1\<rparr>"
    define rn where "rn = rb\<lparr>pb_next := Some q\<rparr>"
    define s1 where "s1 = s\<lparr>n_memp := m', pbufs := (pbufs s)(r \<mapsto> rn, q \<mapsto> qb),
       extent := (extent s)(q \<mapsto> 1536)\<rparr>"
    have rbs: "pbufs s r = Some rb" using pchain_lookup [OF pc, of r rb] by simp
    have rq: "r \<noteq> q" using rbs m'(5) q_def by auto
    have run: "pbuf_alloc_tail cff p r rem s = pbuf_alloc_tail cff p q (rem - len) s1"
      using r rem m'(1,3) rbs
      by (subst pbuf_alloc_tail.simps)
        (simp add: Let_def c_def MEM_ALIGNMENT_def q_def [symmetric] len_def s1_def qb_def rn_def put_pbuf_def)
    have inv1: "net_inv Z B s1 \<and> net_live Z B s1 = insert q (net_live Z B s)"
      
    proof -
      let ?s0 = "s\<lparr>n_memp := m', pbufs := (pbufs s)(q \<mapsto> qb), extent := (extent s)(q \<mapsto> 1536)\<rparr>"
      have n: "net_inv Z B ?s0 \<and> net_live Z B ?s0 = insert (MempAddr x) (net_live Z B s)"
        by (rule net_inv_new [OF inv m'(2) _ m'(7)]) (simp_all add: qb_def q_def)
      have "s1 = put_pbuf r rn ?s0" using rq by (simp add: s1_def put_pbuf_def fun_upd_twist)
      moreover have "net_inv Z B (put_pbuf r rn ?s0)"
        by (rule net_inv_put [of _ _ _ _ rb]) (use n rbs rq in \<open>auto simp: rn_def\<close>)
      ultimately show ?thesis using n q_def by simp
    qed
    have pc1: "pchain s1 (Some p) ((xs @ [(r, rn)]) @ [(q, qb)])"
      using chain_extend [OF pc m'(5), of qb s1] by (simp add: rn_def s1_def qb_def q_def)
    have len16: "unat (of_int len :: u16) = nat len" "unat (of_int rem :: u16) = nat rem"
      using rem by (simp_all add: unat_of_int_u16 len_def)
    have one1: "all_one ((xs @ [(r, rn)]) @ [(q, qb)])" using one by (simp add: rn_def qb_def)
    have room1: "chain_room s1 ((xs @ [(r, rn)]) @ [(q, qb)])"
      
    proof -
      have qn: "q \<notin> fst ` set (xs @ [(r, rb)])"
        using pchain_lookup [OF pc] m'(5) by (force simp: q_def)
      have "chain_room s1 (xs @ [(r, rb)])"
        by (rule chain_room_cong [OF room]) (use qn in \<open>auto simp: s1_def\<close>)
      then have "chain_room s1 (xs @ [(r, rn)])" by (simp add: pb_room_def rn_def)
      moreover have "pb_room s1 q qb" using len16 rem by (auto simp: pb_room_def qb_def s1_def len_def)
      ultimately show ?thesis by simp
    qed
    have tot1: "totals_to (nat (rem - len)) ((xs @ [(r, rn)]) @ [(q, qb)])"
      
    proof -
      have q': "unat (pb_tot_len qb) = unat (pb_len qb) + nat (rem - len)"
        using len16 rem by (simp add: qb_def len_def)
      have "totals_to (nat rem) (xs @ [(r, rn)])" using tot by (auto simp: totals_append rn_def)
      moreover have "unat (pb_tot_len qb) = nat rem" using len16 by (simp add: qb_def)
      ultimately show ?thesis using q' by (auto simp: totals_append)
    qed
    have rem1: "0 \<le> rem - len" "rem - len < 65535" using rem by (auto simp: len_def)
    have step: "tail_need rem = Suc (tail_need (rem - len))" using tail_need_step [OF r] by (simp add: len_def)
    have fl1: "memp_free_list (n_memp s1) MEMP_PBUF_POOL = F" using m'(6) by (simp add: s1_def)
    note IH = Cons.IH [OF conjunct1 [OF inv1] pc1 one1 room1 tot1 rem1 fl1, folded run]
    show ?thesis
    proof (cases "tail_need (rem - len) \<le> length F")
      case True
      from IH [unfolded if_P [OF True]] obtain s' zs nx where A: 
        "pbuf_alloc_tail cff p r rem s = Some (True, s')" "net_inv Z B s'"
        "pchain s' (Some p) ((xs @ [(r, rn)]) @ (q, qb\<lparr>pb_next := nx\<rparr>) # zs)"
        "map fst zs = map MempAddr (take (tail_need (rem - len)) F)" "all_one zs"
        "chain_room s' ((xs @ [(r, rn)]) @ (q, qb\<lparr>pb_next := nx\<rparr>) # zs)"
        "totals_to 0 ((xs @ [(r, rn)]) @ (q, qb\<lparr>pb_next := nx\<rparr>) # zs)"
        "\<forall>a. a \<notin> insert q (fst ` set zs) \<longrightarrow> pbufs s' a = pbufs s1 a"
        "\<forall>a. a \<in> fst ` set zs \<longrightarrow> a \<notin> net_live Z B s1"
        "net_live Z B s' = net_live Z B s1 \<union> fst ` set zs" "n_heap s' = n_heap s1" "cells s' = cells s1"
        by (elim exE conjE) (rule that; assumption)
      show ?thesis 
      proof -
        have t: "tail_need rem \<le> length (x # F)" using step True by simp
        let ?zs = "(q, qb\<lparr>pb_next := nx\<rparr>) # zs"
        have "all_one ?zs" using A(5) by (simp add: qb_def)
        moreover have "\<forall>a. a \<notin> insert r (fst ` set ?zs) \<longrightarrow> pbufs s' a = pbufs s a"
          using A(8) by (simp add: s1_def)
        moreover have "\<forall>a. a \<in> fst ` set ?zs \<longrightarrow> a \<notin> net_live Z B s"
          using A(9) conjunct2 [OF inv1] m'(4) by (auto simp: q_def)
        moreover have "net_live Z B s' = net_live Z B s \<union> fst ` set ?zs"
          using A(10) conjunct2 [OF inv1] by auto
        moreover have "map fst ?zs = map MempAddr (take (tail_need rem) (x # F))"
          using A(4) step by (simp add: q_def)
        moreover have e: "(xs @ [(r, rn)]) @ (q, qb\<lparr>pb_next := nx\<rparr>) # zs = xs @ (r, rb\<lparr>pb_next := Some q\<rparr>) # ?zs"
          by (simp add: rn_def)
        moreover have "n_heap s' = n_heap s" "cells s' = cells s" using A(11,12) by (simp_all add: s1_def)
        moreover note A(1,2) A(3,6,7) [unfolded e]
        ultimately show ?thesis unfolding if_P [OF t]
          by (intro exI [of _ s'] exI [of _ ?zs] exI [of _ "Some q"] conjI)
      qed
    next
      case False
      from IH [unfolded if_not_P [OF False]] obtain s' where A: 
        "pbuf_alloc_tail cff p r rem s = Some (False, s')" "net_inv Z B s'"
        "pbufs s' = (\<lambda>a. if a \<in> fst ` set ((xs @ [(r, rn)]) @ [(q, qb)]) then None else pbufs s1 a)"
        "net_live Z B s' = net_live Z B s1 - fst ` set ((xs @ [(r, rn)]) @ [(q, qb)])" "cells s' = cells s1" by blast
      show ?thesis 
      proof -
        have nt: "\<not> tail_need rem \<le> length (x # F)" using step False by simp
        have "pbufs s' = (\<lambda>a. if a \<in> fst ` set (xs @ [(r, rb)]) then None else pbufs s a)"
          using A(3) m'(5) by (auto simp: fun_eq_iff s1_def q_def)
        moreover have "net_live Z B s' = net_live Z B s - fst ` set (xs @ [(r, rb)])"
          using A(4) conjunct2 [OF inv1] m'(4) by (auto simp: q_def)
        ultimately show ?thesis using nt A(1,2,5) by (simp add: s1_def)
      qed
    qed
  qed
qed

section \<open>Allocation from the pool\<close>

definition pool_need :: "pbuf_layer \<Rightarrow> u16 \<Rightarrow> nat" where
  "pool_need layer len =
     Suc (tail_need (uint len - int (min (unat len) (1520 - align4 (layer_offset layer)))))"

lemma align4_layer: "align4 (16 + layer_offset l) = 16 + align4 (layer_offset l)"
  "align4 (layer_offset l) \<le> 56" "align4 (layer_offset l) mod 4 = 0"
  by (cases l; simp add: align4_def)+

lemma net_inv_flags:
  assumes "net_inv Z B s" "pbufs s a = Some b" "pb_type b' = pb_type b"
    "\<not> is_custom (pb_flags b)" "\<not> is_custom (pb_flags b')"
  shows "net_inv Z B (put_pbuf a b' s)"
proof -
  have "pbuf_placed Z B (put_pbuf a b' s) d c" if "pbufs (put_pbuf a b' s) c = Some d" for c d
  proof (cases "c = a")
    case True
    then have "pbuf_owned Z B s (pb_type b') c"
      using assms by (simp add: net_inv_def pbuf_placed_def)
    then show ?thesis
      using that True assms pbuf_owned_cong [of "put_pbuf a b' s" s] by (simp add: pbuf_placed_def)
  next
    case False
    then show ?thesis
      using that assms(1) pbuf_placed_cong [of "put_pbuf a b' s" s d d] by (simp add: net_inv_def)
  qed
  then show ?thesis using assms(1) by (simp add: net_inv_def)
qed

lemma pbuf_alloc_pool_spec:
  assumes inv: "net_inv Z B s" and F: "memp_free_list (n_memp s) MEMP_PBUF_POOL = F"
  shows "if pool_need layer len \<le> length F then
      \<exists>a s' xs. pbuf_alloc cff layer len PBUF_POOL s = Some (Some a, s') \<and> net_inv Z B s' \<and>
        pchain s' (Some a) xs \<and> totals_to 0 xs \<and> pb_tot_len (snd (hd xs)) = len \<and>
        pb_payload (snd (hd xs)) = Some (a, int (16 + align4 (layer_offset layer))) \<and>
        map fst xs = map MempAddr (take (pool_need layer len) F) \<and> all_one xs \<and> chain_room s' xs \<and>
        fst ` set xs \<inter> net_live Z B s = {} \<and> net_live Z B s' = net_live Z B s \<union> fst ` set xs \<and>
        (\<forall>c. c \<notin> fst ` set xs \<longrightarrow> pbufs s' c = pbufs s c) \<and> n_heap s' = n_heap s \<and> cells s' = cells s
    else \<exists>s'. pbuf_alloc cff layer len PBUF_POOL s = Some (None, s') \<and> net_inv Z B s' \<and>
        pbufs s' = pbufs s \<and> net_live Z B s' = net_live Z B s \<and> cells s' = cells s"
proof (cases F)
  case Nil
  have "memp_malloc MEMP_PBUF_POOL (n_memp s) = Some (None, n_memp s)"
    using net_memp_malloc [OF inv, of MEMP_PBUF_POOL] F Nil by simp
  then have "pbuf_alloc cff layer len PBUF_POOL s = Some (None, s)"
    by (simp add: pbuf_alloc_def pbuf_alloc_pool_def)
  then show ?thesis using inv Nil by (simp add: pool_need_def)
next
  case (Cons x F')
  from net_memp_malloc [OF inv, of MEMP_PBUF_POOL] F Cons obtain m' where m':
      "memp_malloc MEMP_PBUF_POOL (n_memp s) = Some (Some x, m')" "memp_inv Z B m'" "x mod 4 = 0"
      "MempAddr x \<notin> net_live Z B s" "pbufs s (MempAddr x) = None" "memp_free_list m' MEMP_PBUF_POOL = F'"
      "\<forall>j < MEMP_MAX. memp_live Z B j m' = memp_live Z B j (n_memp s) \<union> (if j = MEMP_PBUF_POOL then {x} else {})"
    by auto
  define a where "a = MempAddr x"
  define off where "off = align4 (layer_offset layer)"
  define plen where "plen = min (unat len) (1520 - off)"
  define b where "b = \<lparr>pb_next = None, pb_payload = Some (a, int (16 + off)), pb_tot_len = len,
    pb_len = of_nat plen, pb_type = PBUF_POOL, pb_flags = stale_flags s a, pb_ref = 1\<rparr>"
  define s1 where "s1 = s\<lparr>n_memp := m', pbufs := (pbufs s)(a \<mapsto> b), extent := (extent s)(a \<mapsto> 1536)\<rparr>"
  have off: "off \<le> 56" "off mod 4 = 0" using align4_layer by (simp_all add: off_def)
  have plen: "plen \<le> unat len" "16 + off + plen \<le> 1536" "unat (of_nat plen :: u16) = plen"
    using off unat_u16_lt [of len] by (auto simp: plen_def unat_of_nat_u16)
  define rem where "rem = uint len - int plen"
  have rem_eq: "rem = int (unat len - plen)" using plen(1) by (simp add: rem_def of_nat_diff)
  have "unat len - plen < 65535" using off unat_u16_lt [of len] by (auto simp: plen_def min_def)
  then have rem: "0 \<le> rem" "rem < 65535" unfolding rem_eq by simp_all
  have need: "pool_need layer len = Suc (tail_need rem)"
    by (simp add: pool_need_def rem_def plen_def off_def)
  have al: "(x + (16 + off)) mod 4 = 0" using m'(3) off(2) by presburger
  have run: "pbuf_alloc_pool cff (layer_offset layer) len s =
      (case pbuf_alloc_tail cff a a rem s1 of None \<Rightarrow> None
       | Some (ok, s') \<Rightarrow> Some (if ok then Some a else None, s'))"
    using m'(1,3) off plen al
    by (simp add: pbuf_alloc_pool_def Let_def c_def MEM_ALIGNMENT_def align4_layer(1) off_def [symmetric]
        plen_def [symmetric] a_def [symmetric] s1_def b_def rem_def put_pbuf_def mod_add_eq
        split: option.splits)
  have inv1: "net_inv Z B s1" "net_live Z B s1 = insert a (net_live Z B s)"
  proof -
    have "net_inv Z B s1 \<and> net_live Z B s1 = insert (MempAddr x) (net_live Z B s)"
      by (rule net_inv_new [OF inv m'(2) _ m'(7)])
        (use net_invD(5) [OF inv] in \<open>simp_all add: s1_def b_def a_def\<close>)
    then show "net_inv Z B s1" "net_live Z B s1 = insert a (net_live Z B s)" by (simp_all add: a_def)
  qed
  have nc: "\<not> is_custom (pb_flags b)" using net_invD(5) [OF inv] by (simp add: b_def)
  have pc1: "pchain s1 (Some a) ([] @ [(a, b)])" by (simp add: s1_def b_def)
  have one1: "all_one ([] @ [(a, b)])" using nc by (simp add: b_def)
  have room1: "chain_room s1 ([] @ [(a, b)])"
    using plen by (simp add: pb_room_def b_def s1_def)
  have "nat rem = unat len - plen" unfolding rem_eq by (rule nat_int)
  then have tot1: "totals_to (nat rem) ([] @ [(a, b)])"
    using plen by (simp add: b_def)
  have fl1: "memp_free_list (n_memp s1) MEMP_PBUF_POOL = F'" using m'(6) by (simp add: s1_def)
  note T = pbuf_alloc_tail_spec [OF inv1(1) pc1 one1 room1 tot1 rem fl1, of cff]
  show ?thesis
  proof (cases "tail_need rem \<le> length F'")
    case True
    from T [unfolded if_P [OF True]] obtain s' zs nx where A:
      "pbuf_alloc_tail cff a a rem s1 = Some (True, s')" "net_inv Z B s'"
      "pchain s' (Some a) ([] @ (a, b\<lparr>pb_next := nx\<rparr>) # zs)"
      "map fst zs = map MempAddr (take (tail_need rem) F')" "all_one zs"
      "chain_room s' ([] @ (a, b\<lparr>pb_next := nx\<rparr>) # zs)" "totals_to 0 ([] @ (a, b\<lparr>pb_next := nx\<rparr>) # zs)"
      "\<forall>c. c \<notin> insert a (fst ` set zs) \<longrightarrow> pbufs s' c = pbufs s1 c"
      "\<forall>c. c \<in> fst ` set zs \<longrightarrow> c \<notin> net_live Z B s1"
      "net_live Z B s' = net_live Z B s1 \<union> fst ` set zs" "n_heap s' = n_heap s1" "cells s' = cells s1"
      by (elim exE conjE) (rule that; assumption)
    define b' where "b' = b\<lparr>pb_next := nx\<rparr>"
    define b2 where "b2 = b'\<lparr>pb_ref := 1, pb_flags := 0\<rparr>"
    define t where "t = put_pbuf a b2 s'"
    have ba: "pbufs s' a = Some b'" using A(3) by (simp add: b'_def)
    have 1: "pbuf_alloc cff layer len PBUF_POOL s = Some (Some a, t)"
      using run A(1) ba by (simp add: pbuf_alloc_def t_def b2_def)
    have 2: "net_inv Z B t"
      unfolding t_def by (rule net_inv_flags [OF A(2) ba]) (use nc in \<open>simp_all add: b2_def b'_def\<close>)
    have an: "a \<notin> fst ` set zs" using pchain_distinct [OF A(3)] by simp
    have 3: "pchain t (Some a) ((a, b2) # zs)"
      using A(3) an pchain_put_other [of s' nx zs a b2] by (simp add: t_def b2_def b'_def)
    have 4: "totals_to 0 ((a, b2) # zs)" using A(7) by (cases zs) (auto simp: b2_def b'_def)
    have 5: "map fst ((a, b2) # zs) = map MempAddr (take (pool_need layer len) F)"
      using A(4) by (simp add: need Cons a_def)
    have 6: "all_one ((a, b2) # zs)" using A(5) by (simp add: b2_def)
    have 7: "chain_room t ((a, b2) # zs)"
    proof (rule chain_room_cong)
      show "chain_room s' ((a, b2) # zs)" using A(6) by (simp add: pb_room_def b2_def b'_def)
    qed (simp add: t_def)
    have 8: "fst ` set ((a, b2) # zs) \<inter> net_live Z B s = {}"
      using A(9) inv1(2) m'(4) by (auto simp: a_def)
    have 9: "net_live Z B t = net_live Z B s \<union> fst ` set ((a, b2) # zs)"
      using A(10) inv1(2) by (simp add: t_def)
    have 10: "\<forall>c. c \<notin> fst ` set ((a, b2) # zs) \<longrightarrow> pbufs t c = pbufs s c"
      using A(8) by (simp add: t_def s1_def)
    have 11: "n_heap t = n_heap s" "cells t = cells s" using A(11,12) by (simp_all add: t_def s1_def)
    have 12: "pb_tot_len (snd (hd ((a, b2) # zs))) = len"
      "pb_payload (snd (hd ((a, b2) # zs))) = Some (a, int (16 + align4 (layer_offset layer)))"
      by (simp_all add: b2_def b'_def b_def off_def)
    have "pool_need layer len \<le> length F" using True by (simp add: need Cons)
    from if_P [OF this] show ?thesis using 1 2 3 4 12 5 6 7 8 9 10 11 by metis
  next
    case False
    from T [unfolded if_not_P [OF False]] obtain s' where A:
      "pbuf_alloc_tail cff a a rem s1 = Some (False, s')" "net_inv Z B s'"
      "pbufs s' = (\<lambda>c. if c \<in> fst ` set ([] @ [(a, b)]) then None else pbufs s1 c)"
      "net_live Z B s' = net_live Z B s1 - fst ` set ([] @ [(a, b)])" "cells s' = cells s1" by blast
    have "\<not> pool_need layer len \<le> length F" using False by (simp add: need Cons)
    moreover have "pbuf_alloc cff layer len PBUF_POOL s = Some (None, s')"
      using run A(1) by (simp add: pbuf_alloc_def)
    moreover have "pbufs s' = pbufs s" using A(3) m'(5) by (auto simp: fun_eq_iff s1_def a_def)
    moreover have "net_live Z B s' = net_live Z B s" using A(4) inv1(2) m'(4) by (auto simp: a_def)
    ultimately show ?thesis using A(2,5) by (simp add: s1_def)
  qed
qed

section \<open>Allocation from the heap\<close>

lemma used_hdr:
  assumes "heap_rel h bs" "(x, n) \<in> used_at 0 bs"
  shows "8 \<le> x \<and> 4 dvd x \<and> (\<exists>m. hdrs h (x - 8) = Some m \<and> m_next m = x + n)"
proof -
  from used_at_split [OF assms(2)] obtain us vs where bs: "bs = us @ (n, True) # vs" "x = end_of 0 us + 8" by blast
  have "seg (hdrs h) 0 0 bs" using assms(1) by (simp add: heap_rel_def)
  moreover from this have "4 dvd x" using used_at_aligned [OF assms(2)] by simp
  ultimately show ?thesis using bs by simp
qed

lemma heap_fresh_pbuf:
  assumes "net_inv Z B s" "x \<notin> mem_live (n_heap s)"
  shows "pbufs s (RamAddr x) = None"
proof (rule ccontr)
  assume "pbufs s (RamAddr x) \<noteq> None"
  then obtain b where "pbufs s (RamAddr x) = Some b" by blast
  from net_invD(4) [OF assms(1) this] assms(2) show False
    by (auto simp: pbuf_placed_def pbuf_owned_def split: if_splits pbuf_type.splits)
qed

definition ram_need :: "pbuf_layer \<Rightarrow> u16 \<Rightarrow> nat" where
  "ram_need layer len = align4 (16 + layer_offset layer) + align4 (unat len)"

lemma align4_ge: "n \<le> align4 n" "4 dvd align4 n"
  by (simp_all add: align4_def)

lemma pbuf_alloc_ram_spec:
  assumes inv: "net_inv Z B s" and fit: "ram_need layer len \<le> 65532"
  shows "\<exists>r s'. pbuf_alloc cff layer len PBUF_RAM s = Some (r, s') \<and> net_inv Z B s' \<and> cells s' = cells s \<and>
    n_memp s' = n_memp s \<and>
    (case r of None \<Rightarrow> pbufs s' = pbufs s \<and> net_live Z B s' = net_live Z B s \<and> extent s' = extent s
     | Some a \<Rightarrow> \<exists>b. pchain s' (Some a) [(a, b)] \<and> pb_tot_len b = len \<and> pb_len b = len \<and>
         pb_payload b = Some (a, int (16 + align4 (layer_offset layer))) \<and> pb_type b = PBUF_RAM \<and>
         all_one [(a, b)] \<and> pb_room s' a b \<and> a \<notin> net_live Z B s \<and>
         net_live Z B s' = insert a (net_live Z B s) \<and>
         (\<forall>c. c \<noteq> a \<longrightarrow> pbufs s' c = pbufs s c \<and> extent s' c = extent s c))"
proof -
  note I = net_invD [OF inv]
  from I(3) obtain bs where bs: "heap_rel (n_heap s) bs" by blast
  let ?req = "of_nat (ram_need layer len) :: u16"
  have req: "unat ?req = ram_need layer len" using fit by (simp add: unat_of_nat_u16)
  have rs: "ram_need layer len \<le> req_size ?req" using req_size_ge [of ?req] fit req by simp
  from mem_malloc_live [OF bs, of ?req] obtain r h' bs' where m: "mem_malloc ?req (n_heap s) = Some (r, h')"
    "heap_rel h' bs'" "case r of None \<Rightarrow> used_at 0 bs' = used_at 0 bs
     | Some a \<Rightarrow> \<exists>n. req_size ?req \<le> n \<and> used_at 0 bs' = insert (a, n) (used_at 0 bs) \<and>
         (\<forall>m. (a, m) \<notin> used_at 0 bs)" by blast
  show ?thesis
  proof (cases r)
    case None
    let ?t = "s\<lparr>n_heap := h'\<rparr>"
    have "mem_live h' = mem_live (n_heap s)"
      using m(3) None mem_live_eq [OF m(2)] mem_live_eq [OF bs] by simp
    then have L: "net_live Z B ?t = net_live Z B s"
      and P: "\<And>b a. pbuf_placed Z B s b a \<Longrightarrow> pbuf_placed Z B ?t b a"
      by (simp_all add: net_live_def) (erule placed_more, simp_all)
    have "net_inv Z B ?t" by (rule net_invI) (use I P m(2) in auto)
    moreover have "pbuf_alloc cff layer len PBUF_RAM s = Some (None, ?t)"
      using m(1) None by (simp add: pbuf_alloc_def pbuf_alloc_ram_def c_def ram_need_def)
    ultimately show ?thesis using L None by auto
  next
    case (Some x)
    with m(3) obtain n where n: "req_size ?req \<le> n" "used_at 0 bs' = insert (x, n) (used_at 0 bs)"
      "\<forall>m. (x, m) \<notin> used_at 0 bs" by auto
    from used_hdr [OF m(2), of x n] n(2) obtain hd where hd: "8 \<le> x" "4 dvd x" "hdrs h' (x - 8) = Some hd"
      "m_next hd = x + n" by auto
    have live: "mem_live h' = insert x (mem_live (n_heap s))" "x \<notin> mem_live (n_heap s)"
      using n mem_live_eq [OF m(2)] mem_live_eq [OF bs] by force+
    define a where "a = RamAddr x"
    define pay where "pay = 16 + align4 (layer_offset layer)"
    define b where "b = \<lparr>pb_next = None, pb_payload = Some (a, int pay), pb_tot_len = len,
      pb_len = len, pb_type = PBUF_RAM, pb_flags = 0, pb_ref = 1\<rparr>"
    define t where "t = s\<lparr>n_heap := h', pbufs := (pbufs s)(a \<mapsto> b), extent := (extent s)(a \<mapsto> n)\<rparr>"
    have room: "16 \<le> n" "pay + unat len \<le> n" 
      using n(1) rs align4_ge(1) [of "unat len"] by (auto simp: pay_def ram_need_def align4_layer)
    have al: "(x + pay) mod 4 = 0" using hd(2) align4_layer(3) [of layer] by (auto simp: pay_def)
    have rq: "mem_malloc (of_nat (align4 (SIZEOF_STRUCT_PBUF + layer_offset layer) + align4 (unat len))) (n_heap s) =
        Some (Some x, h')"
      using m(1) Some by (simp only: ram_need_def c_def)
    have pe: "align4 (SIZEOF_STRUCT_PBUF + layer_offset layer) = pay" by (simp add: pay_def c_def align4_layer(1))
    have "pbuf_alloc_ram (layer_offset layer) len s =
        Some (Some a, t\<lparr>pbufs := (pbufs s)(a \<mapsto> b\<lparr>pb_flags := stale_flags s a\<rparr>)\<rparr>)"
      unfolding pbuf_alloc_ram_def rq unfolding pe
      using hd room al by (simp add: c_def MEM_ALIGNMENT_def a_def t_def b_def put_pbuf_def Let_def)
    then have run: "pbuf_alloc cff layer len PBUF_RAM s = Some (Some a, t)"
      by (simp add: pbuf_alloc_def t_def b_def put_pbuf_def)
    have L: "net_live Z B t = insert a (net_live Z B s)" using live by (auto simp: net_live_def t_def a_def)
    have "net_inv Z B t"
    proof (rule net_invI)
      fix c d assume c: "pbufs t c = Some d"
      show "pbuf_placed Z B t d c"
      proof (cases "c = a")
        case True
        then have "d = b" using c by (simp add: t_def)
        then show ?thesis using True live by (simp add: pbuf_placed_def pbuf_owned_def t_def b_def a_def)
      next
        case False
        then have "pbufs s c = Some d" using c by (simp add: t_def)
        from I(4) [OF this] show ?thesis by (rule placed_more) (use live in \<open>auto simp: t_def\<close>)
      qed
    qed (use I m t_def in auto)
    moreover have "pb_room t a b"
    proof -
      have "int pay + int (unat len) \<le> int n" "16 \<le> int pay" using room(2) by (linarith, simp add: pay_def)
      then show ?thesis by (simp add: pb_room_def b_def t_def)
    qed
    moreover have "a \<notin> net_live Z B s" using live by (auto simp: net_live_def a_def)
    ultimately show ?thesis using run L
      by (intro exI [of _ "Some a"] exI [of _ t]) (auto simp: t_def b_def pay_def)
  qed
qed

section \<open>Properties\<close>

text \<open>C14: \<open>pbuf_free\<close> gives back exactly the pbufs at the head of the chain that had one
  reference, returns how many, takes one reference from the next one and touches nothing else;
  every pbuf given back becomes free in its own pool or in the heap.\<close>

theorem pbuf_free_exact:
  assumes "net_inv Z B s" and "pchain s (Some p) xs" and "chain_ok xs"
  shows "\<exists>s'. pbuf_free cff (Some p) s = Some (of_nat (length (gone xs)), s') \<and> net_inv Z B s' \<and>
    pbufs s' = after_free xs (pbufs s) \<and> net_live Z B s' = net_live Z B s - fst ` set (gone xs) \<and>
    cells s' = cells s \<and> (\<forall>a. a \<notin> fst ` set (gone xs) \<longrightarrow> extent s' a = extent s a)"
  using pbuf_free_spec [OF assms] .

text \<open>C15: \<open>pbuf_alloc\<close> from the pool gives, exactly when enough elements are free, a chain of
  fresh elements whose lengths add up to the request, each pbuf with one reference and its
  payload inside its element, the first with room for the headers of the layer; otherwise it
  returns \<open>NULL\<close>, and everything it had taken is back in the pool.\<close>

theorem pbuf_alloc_pool_chain:
  assumes "net_inv Z B s" and "F = memp_free_list (n_memp s) MEMP_PBUF_POOL"
  shows "if pool_need layer len \<le> length F then
      \<exists>a s' xs. pbuf_alloc cff layer len PBUF_POOL s = Some (Some a, s') \<and> net_inv Z B s' \<and>
        pchain s' (Some a) xs \<and> totals_to 0 xs \<and> pb_tot_len (snd (hd xs)) = len \<and>
        pb_payload (snd (hd xs)) = Some (a, int (16 + align4 (layer_offset layer))) \<and>
        length xs = pool_need layer len \<and> all_one xs \<and> chain_room s' xs \<and>
        fst ` set xs \<inter> net_live Z B s = {} \<and> net_live Z B s' = net_live Z B s \<union> fst ` set xs \<and>
        (\<forall>c. c \<notin> fst ` set xs \<longrightarrow> pbufs s' c = pbufs s c)
    else \<exists>s'. pbuf_alloc cff layer len PBUF_POOL s = Some (None, s') \<and> net_inv Z B s' \<and>
        pbufs s' = pbufs s \<and> net_live Z B s' = net_live Z B s"
proof (cases "pool_need layer len \<le> length F")
  case True
  from pbuf_alloc_pool_spec [OF assms(1) assms(2) [symmetric], of layer len cff, unfolded if_P [OF True]]
  obtain a s' xs where A: "pbuf_alloc cff layer len PBUF_POOL s = Some (Some a, s')" "net_inv Z B s'"
        "pchain s' (Some a) xs" "totals_to 0 xs" "pb_tot_len (snd (hd xs)) = len"
        "pb_payload (snd (hd xs)) = Some (a, int (16 + align4 (layer_offset layer)))"
        "map fst xs = map MempAddr (take (pool_need layer len) F)" "all_one xs" "chain_room s' xs"
        "fst ` set xs \<inter> net_live Z B s = {}" "net_live Z B s' = net_live Z B s \<union> fst ` set xs"
        "\<forall>c. c \<notin> fst ` set xs \<longrightarrow> pbufs s' c = pbufs s c"
    by (elim exE conjE) (rule that; assumption)
  have "length xs = pool_need layer len" using arg_cong [OF A(7), of length] True by simp
  then show ?thesis unfolding if_P [OF True] using A(1-6,8-12) by blast
next
  case False
  from pbuf_alloc_pool_spec [OF assms(1) assms(2) [symmetric], of layer len cff, unfolded if_not_P [OF False]]
  show ?thesis unfolding if_not_P [OF False] by blast
qed

text \<open>\<open>pbuf_alloc\<close> from the heap, for requests that stay below 65533 bytes with the headers:
  it returns \<open>NULL\<close> and changes nothing, or a single fresh pbuf of the requested length whose
  payload lies inside its block.\<close>

theorem pbuf_alloc_ram_room:
  assumes "net_inv Z B s" and "ram_need layer len \<le> 65532"
  shows "\<exists>r s'. pbuf_alloc cff layer len PBUF_RAM s = Some (r, s') \<and> net_inv Z B s' \<and>
    (case r of None \<Rightarrow> pbufs s' = pbufs s \<and> net_live Z B s' = net_live Z B s
     | Some a \<Rightarrow> \<exists>b. pchain s' (Some a) [(a, b)] \<and> pb_tot_len b = len \<and> pb_len b = len \<and>
         pb_payload b = Some (a, int (16 + align4 (layer_offset layer))) \<and> pb_room s' a b \<and>
         a \<notin> net_live Z B s \<and> net_live Z B s' = insert a (net_live Z B s) \<and>
         (\<forall>c. c \<noteq> a \<longrightarrow> pbufs s' c = pbufs s c))"
  using pbuf_alloc_ram_spec [OF assms, of cff] by (fastforce split: option.splits)

text \<open>the size \<open>pbuf_alloc\<close> asks the heap for is cut to 16 bits: for 65533 bytes and more
  without headers a fresh heap gives a block of 16 bytes, and the pbuf returned claims a payload
  that lies outside it.\<close>

theorem pbuf_alloc_ram_wraps:
  assumes "net_inv Z B s" and "n_heap s = mem_init h" and "65533 \<le> len"
  shows "\<exists>s' b. pbuf_alloc cff PBUF_RAW len PBUF_RAM s = Some (Some (RamAddr 8), s') \<and>
    pbufs s' (RamAddr 8) = Some b \<and> pb_len b = len \<and> extent s' (RamAddr 8) = Some 16 \<and>
    \<not> pb_room s' (RamAddr 8) b \<and> pb_data s' b = None"
proof -
  have len: "unat len = 65533 \<or> unat len = 65534 \<or> unat len = 65535"
    using assms(3) unat_u16_lt [of len] by (simp add: word_le_nat_alt) linarith
  then have al: "align4 (unat len) = 65536" by (auto simp: align4_def)
  obtain h' where h': "mem_malloc 16 (mem_init h) = Some (Some 8, h')" "heap_rel h' [(16, True), (12256, False)]"
    using mem_malloc_spec [OF mem_init_rel, of 16 h] by (auto simp: req_size_def mem_align_size_def take_block_def)
  then have hd: "hdrs h' 0 = Some \<lparr>m_next = 24, m_prev = 0, m_used = True\<rparr>" by (simp add: heap_rel_def)
  have w: "(65552 :: u16) = 16" by simp
  have a16: "align4 16 = 16" by (simp add: align4_def)
  show ?thesis
    using h'(1) hd len
    by (simp add: pbuf_alloc_def pbuf_alloc_ram_def c_def assms(2) al a16 w MEM_ALIGNMENT_def Let_def
        pb_room_def pb_data_def mem_read_def del: of_nat_unat) (auto simp: word_eq_unat)
qed

section \<open>The memory after start-up\<close>

text \<open>\<open>mem_init\<close> and \<open>memp_init\<close> on zeroed memory, as \<open>lwip_init\<close> calls them.\<close>

definition net_boot :: "(nat \<Rightarrow> nat) \<Rightarrow> nat \<Rightarrow> net" where
  "net_boot Z B = \<lparr> n_memp = memp_init Z B memp_zero,
     n_heap = mem_init \<lparr>hdrs = (\<lambda>_. None), lfree = 0\<rparr>, pbufs = (\<lambda>_. None),
     stale_flags = (\<lambda>_. 0), extent = (\<lambda>_. None), cells = (\<lambda>_ _. 0) \<rparr>"

lemma net_boot_inv:
  assumes "sizes_ok Z B"
  shows "net_inv Z B (net_boot Z B)" "net_live Z B (net_boot Z B) = {}"
    "length (memp_free_list (n_memp (net_boot Z B)) MEMP_PBUF_POOL) = 10"
proof -
  note M = memp_init_spec [OF assms, of memp_zero]
  show "net_inv Z B (net_boot Z B)"
    using assms M mem_init_rel by (auto simp: net_inv_def net_boot_def)
  have "mem_live (mem_init h) = {}" for h using mem_live_eq [OF mem_init_rel] by simp
  then show "net_live Z B (net_boot Z B) = {}"
    using M pbuf_idx by (simp add: net_live_def net_boot_def)
  let ?m = "memp_init Z B memp_zero"
  from memp_invE [OF conjunct1 [OF M] pbuf_idx(1)] obtain F where F: "distinct F"
    "set F \<subseteq> pool_elems Z B MEMP_PBUF_POOL" "memp_free_list ?m MEMP_PBUF_POOL = F" by metis
  have "memp_live Z B MEMP_PBUF_POOL ?m = {}" using M pbuf_idx by blast
  then have "set F = pool_elems Z B MEMP_PBUF_POOL" using F by (auto simp: memp_live_def)
  moreover have "0 < Z MEMP_PBUF_POOL" using assms pbuf_idx by (simp add: sizes_ok_def)
  ultimately have "length F = memp_num ! MEMP_PBUF_POOL"
    using distinct_card [OF F(1)] pool_elems_card by simp
  then show "length (memp_free_list (n_memp (net_boot Z B)) MEMP_PBUF_POOL) = 10"
    using F(3) by (simp add: net_boot_def memp_num_def MEMP_PBUF_POOL_def)
qed

lemma sizes_1536: "sizes_ok (\<lambda>_. 1536) 4096" by (simp add: sizes_ok_def)

lemma need_2000: "pool_need PBUF_RAW 2000 = 2"
  by (simp add: pool_need_def align4_def tail_need_def)

abbreviation boot :: net where "boot \<equiv> net_boot (\<lambda>_. 1536) 4096"

theorem pbuf_alloc_pool_chain_witness:
  "\<exists>a s' xs. pbuf_alloc (\<lambda>_ _. None) PBUF_RAW 2000 PBUF_POOL boot = Some (Some a, s') \<and>
     pchain s' (Some a) xs \<and> length xs = 2 \<and> totals_to 0 xs \<and> chain_room s' xs"
  using pbuf_alloc_pool_chain [OF net_boot_inv(1) [OF sizes_1536] refl, of PBUF_RAW 2000 "\<lambda>_ _. None"]
  by (simp only: net_boot_inv(3) [OF sizes_1536] need_2000) (auto simp: numeral_2_eq_2)

theorem pbuf_alloc_ram_room_witness:
  "\<exists>r s'. pbuf_alloc (\<lambda>_ _. None) PBUF_TRANSPORT 1000 PBUF_RAM boot = Some (r, s') \<and>
     net_inv (\<lambda>_. 1536) 4096 s'"
  using pbuf_alloc_ram_room [OF net_boot_inv(1) [OF sizes_1536], of PBUF_TRANSPORT 1000 "\<lambda>_ _. None"]
  by (auto simp: ram_need_def align4_def)

theorem pbuf_alloc_ram_wraps_witness:
  "\<exists>s' b. pbuf_alloc (\<lambda>_ _. None) PBUF_RAW 65535 PBUF_RAM boot = Some (Some (RamAddr 8), s') \<and>
     pbufs s' (RamAddr 8) = Some b \<and> pb_len b = 65535 \<and> extent s' (RamAddr 8) = Some 16"
  using pbuf_alloc_ram_wraps [OF net_boot_inv(1) [OF sizes_1536],
    of "\<lparr>hdrs = (\<lambda>_. None), lfree = 0\<rparr>" 65535 "\<lambda>_ _. None"]
  by (auto simp: net_boot_def)

theorem pbuf_free_exact_witness:
  "\<exists>a s s'. pbuf_alloc (\<lambda>_ _. None) PBUF_RAW 2000 PBUF_POOL boot = Some (Some a, s) \<and>
     pbuf_free (\<lambda>_ _. None) (Some a) s = Some (2, s') \<and> net_live (\<lambda>_. 1536) 4096 s' = {}"
proof -
  let ?Z = "\<lambda>_. 1536" and ?F = "memp_free_list (n_memp boot) MEMP_PBUF_POOL"
  note B = net_boot_inv [OF sizes_1536]
  have need: "pool_need PBUF_RAW 2000 \<le> length ?F" by (simp only: B(3) need_2000)
  from pbuf_alloc_pool_spec [OF B(1) refl, of PBUF_RAW 2000 "\<lambda>_ _. None", unfolded if_P [OF need]]
  obtain a s xs where A: "pbuf_alloc (\<lambda>_ _. None) PBUF_RAW 2000 PBUF_POOL boot = Some (Some a, s)"
    "net_inv ?Z 4096 s" "pchain s (Some a) xs" "map fst xs = map MempAddr (take 2 ?F)" "all_one xs"
    "net_live ?Z 4096 s = net_live ?Z 4096 boot \<union> fst ` set xs" unfolding need_2000 by blast
  have "length (map fst xs) = 2" using B(3) by (simp add: A(4))
  then have "length xs = 2" by simp
  with pbuf_free_exact [OF A(2,3), of "\<lambda>_ _. None"] all_one_gone [OF A(5)] A(1,6) B(2) show ?thesis
    by auto
qed

end
