(* ===== verification/PbufData.thy ===== *)
theory PbufData
  imports PbufAlloc
begin

text \<open>
  The bytes of packets: copying into, out of and between chains, comparing and searching,
  and the header space in front of a payload.
\<close>

section \<open>Copying\<close>

text \<open>Reading and writing \<open>n\<close> bytes at \<open>((u8_t*)b->payload)[off]\<close>.\<close>

definition pay_read :: "net \<Rightarrow> pbuf \<Rightarrow> nat \<Rightarrow> nat \<Rightarrow> u8 list option" where
  "pay_read s b off n = Option.bind (pb_payload b) (\<lambda>p. mem_read s (ptr_add p off) n)"

definition pay_write :: "net \<Rightarrow> pbuf \<Rightarrow> nat \<Rightarrow> u8 list \<Rightarrow> net option" where
  "pay_write s b off bs = Option.bind (pb_payload b) (\<lambda>p. mem_write s (ptr_add p off) bs)"

text \<open>
  The \<open>do\<close> loop of \<open>pbuf_copy\<close>. A step copies one part; then the source and the target
  pointer move on, each with its checks.
\<close>

definition no_queue :: "addr option \<Rightarrow> net \<Rightarrow> bool option" where
  "no_queue p s = (case p of None \<Rightarrow> Some True
     | Some a \<Rightarrow> do { b \<leftarrow> pbufs s a; Some (pb_len b = pb_tot_len b \<longrightarrow> pb_next b = None) })"

partial_function (option) pbuf_copy_loop ::
  "addr option \<Rightarrow> addr option \<Rightarrow> u16 \<Rightarrow> u16 \<Rightarrow> net \<Rightarrow> (err_t \<times> net) option" where
  "pbuf_copy_loop p_to p_from offset_to offset_from s =
     Option.bind p_to (\<lambda>t. Option.bind p_from (\<lambda>f.
     Option.bind (pbufs s t) (\<lambda>tb. Option.bind (pbufs s f) (\<lambda>fb.
       let len = (if uint (pb_len tb) - uint offset_to \<ge> uint (pb_len fb) - uint offset_from
                  then pb_len fb - offset_from else pb_len tb - offset_to) in
     Option.bind (pay_read s fb (unat offset_from) (unat len)) (\<lambda>bs.
     Option.bind (pay_write s tb (unat offset_to) bs) (\<lambda>s.
       let offset_to = offset_to + len; offset_from = offset_from + len in
       if offset_to \<le> pb_len tb \<and> offset_from \<le> pb_len fb then
         let (offset_from, p_from) = (if offset_from \<ge> pb_len fb then (0, pb_next fb) else (offset_from, p_from));
             (offset_to, p_to) = (if offset_to = pb_len tb then (0, pb_next tb) else (offset_to, p_to)) in
         if p_to \<noteq> None \<or> p_from = None then
           Option.bind (no_queue p_from s) (\<lambda>ok1. Option.bind (no_queue p_to s) (\<lambda>ok2.
             if \<not> ok1 \<or> \<not> ok2 then None
             else if p_from = None then Some (ERR_OK, s)
             else pbuf_copy_loop p_to p_from offset_to offset_from s))
         else None
       else None))))))"

definition pbuf_copy :: "addr option \<Rightarrow> addr option \<Rightarrow> net \<Rightarrow> (err_t \<times> net) option" where
  "pbuf_copy p_to p_from s = do {
     t \<leftarrow> p_to; f \<leftarrow> p_from; tb \<leftarrow> pbufs s t; fb \<leftarrow> pbufs s f;
     c_assert (pb_tot_len tb \<ge> pb_tot_len fb);
     pbuf_copy_loop (Some t) (Some f) 0 0 s }"

text \<open>
  \<open>pbuf_copy_partial\<close> writes its bytes one part after the other from \<open>dataptr\<close> on: \<open>out\<close>
  is what it has written so far.
\<close>

partial_function (option) copy_partial_loop ::
  "addr option \<Rightarrow> u16 \<Rightarrow> u16 \<Rightarrow> u16 \<Rightarrow> u8 list \<Rightarrow> net \<Rightarrow> (u16 \<times> u8 list) option" where
  "copy_partial_loop p len offset copied_total out s =
     (if len = 0 then Some (copied_total, out)
      else case p of None \<Rightarrow> Some (copied_total, out)
      | Some a \<Rightarrow> Option.bind (pbufs s a) (\<lambda>b.
          if offset \<noteq> 0 \<and> offset \<ge> pb_len b
          then copy_partial_loop (pb_next b) len (offset - pb_len b) copied_total out s
          else let n = min (pb_len b - offset) len in
            Option.bind (pay_read s b (unat offset) (unat n)) (\<lambda>bs.
              copy_partial_loop (pb_next b) (len - n) 0 (copied_total + n) (out @ bs) s)))"

definition pbuf_copy_partial :: "addr option \<Rightarrow> u16 \<Rightarrow> u16 \<Rightarrow> net \<Rightarrow> (u16 \<times> u8 list) option" where
  "pbuf_copy_partial buf len offset s = do {
     c_assert (buf \<noteq> None); copy_partial_loop buf len offset 0 [] s }"

text \<open>\<open>pbuf_take\<close>: \<open>dat\<close> is the application's buffer.\<close>

partial_function (option) take_loop ::
  "addr option \<Rightarrow> u8 list \<Rightarrow> u16 \<Rightarrow> u16 \<Rightarrow> net \<Rightarrow> (u16 \<times> net) option" where
  "take_loop p dat total_copy_len copied_total s =
     (if total_copy_len = 0 then Some (copied_total, s)
      else case p of None \<Rightarrow> None
      | Some a \<Rightarrow> Option.bind (pbufs s a) (\<lambda>b.
          let n = min total_copy_len (pb_len b) in
          if unat copied_total + unat n \<le> length dat then
            Option.bind (pay_write s b 0 (take (unat n) (drop (unat copied_total) dat))) (\<lambda>s.
              take_loop (pb_next b) dat (total_copy_len - n) (copied_total + n) s)
          else None))"

definition pbuf_take :: "addr option \<Rightarrow> u8 list \<Rightarrow> u16 \<Rightarrow> net \<Rightarrow> (err_t \<times> net) option" where
  "pbuf_take buf dat len s = do {
     a \<leftarrow> buf;
     b \<leftarrow> pbufs s a;
     if pb_tot_len b < len then Some (ERR_ARG, s)
     else do {
       (copied_total, s) \<leftarrow> take_loop buf dat len 0 s;
       c_assert (copied_total = len);
       Some (ERR_OK, s) } }"

definition pbuf_coalesce ::
  "(addr \<Rightarrow> net \<Rightarrow> net option) \<Rightarrow> addr \<Rightarrow> pbuf_layer \<Rightarrow> net \<Rightarrow> (addr \<times> net) option" where
  "pbuf_coalesce cff p layer s = do {
     b \<leftarrow> pbufs s p;
     if pb_next b = None then Some (p, s)
     else do {
       (q, s) \<leftarrow> pbuf_alloc cff layer (pb_tot_len b) PBUF_RAM s;
       case q of None \<Rightarrow> Some (p, s)
       | Some q \<Rightarrow> do {
           (err, s) \<leftarrow> pbuf_copy (Some q) (Some p) s;
           c_assert (err = ERR_OK);
           (_, s) \<leftarrow> pbuf_free cff (Some p) s;
           Some (q, s) } } }"

section \<open>Searching\<close>

text \<open>The loop that finds the pbuf of a position, shared by \<open>pbuf_get_at\<close> and \<open>pbuf_memcmp\<close>.\<close>

partial_function (option) pbuf_skip :: "addr option \<Rightarrow> u16 \<Rightarrow> net \<Rightarrow> (addr option \<times> u16) option" where
  "pbuf_skip q k s = (case q of None \<Rightarrow> Some (None, k)
     | Some a \<Rightarrow> Option.bind (pbufs s a) (\<lambda>b.
         if pb_len b \<le> k then pbuf_skip (pb_next b) (k - pb_len b) s else Some (Some a, k)))"

definition pbuf_get_at :: "addr option \<Rightarrow> u16 \<Rightarrow> net \<Rightarrow> u8 option" where
  "pbuf_get_at p offset s = do {
     (q, copy_from) \<leftarrow> pbuf_skip p offset s;
     case q of None \<Rightarrow> Some 0
     | Some a \<Rightarrow> do {
         b \<leftarrow> pbufs s a;
         if pb_len b > copy_from then do { bs \<leftarrow> pay_read s b (unat copy_from) 1; Some (hd bs) }
         else Some 0 } }"

text \<open>The \<open>for\<close> loop of \<open>pbuf_memcmp\<close>, from index \<open>i\<close> over \<open>k\<close> more bytes.\<close>

fun memcmp_loop :: "addr option \<Rightarrow> u16 \<Rightarrow> u8 list \<Rightarrow> nat \<Rightarrow> nat \<Rightarrow> net \<Rightarrow> u16 option" where
  "memcmp_loop q start s2 i 0 s = Some 0"
| "memcmp_loop q start s2 i (Suc k) s =
     Option.bind (pbuf_get_at q (start + of_nat i) s) (\<lambda>a.
       if i < length s2 then
         if a \<noteq> s2 ! i then Some (of_nat i + 1) else memcmp_loop q start s2 (i + 1) k s
       else None)"

definition pbuf_memcmp :: "addr option \<Rightarrow> u16 \<Rightarrow> u8 list \<Rightarrow> u16 \<Rightarrow> net \<Rightarrow> u16 option" where
  "pbuf_memcmp p offset s2 n s = do {
     (q, start) \<leftarrow> pbuf_skip p offset s;
     case q of None \<Rightarrow> Some 0xffff
     | Some a \<Rightarrow> do {
         b \<leftarrow> pbufs s a;
         if pb_len b > start then memcmp_loop q start s2 0 (unat n) s else Some 0xffff } }"

partial_function (option) memfind_loop ::
  "addr option \<Rightarrow> u8 list \<Rightarrow> u16 \<Rightarrow> u16 \<Rightarrow> u16 \<Rightarrow> net \<Rightarrow> u16 option" where
  "memfind_loop p mem mem_len max_i i s =
     (if i \<le> max_i then
        Option.bind (pbuf_memcmp p i mem mem_len s) (\<lambda>plus.
          if plus = 0 then Some i else memfind_loop p mem mem_len max_i (i + plus) s)
      else Some 0xFFFF)"

definition pbuf_memfind :: "addr option \<Rightarrow> u8 list \<Rightarrow> u16 \<Rightarrow> u16 \<Rightarrow> net \<Rightarrow> u16 option" where
  "pbuf_memfind p mem mem_len start_offset s = do {
     a \<leftarrow> p; b \<leftarrow> pbufs s a;
     if unat (pb_tot_len b) \<ge> unat mem_len + unat start_offset
     then memfind_loop p mem mem_len (pb_tot_len b - mem_len) start_offset s
     else Some 0xFFFF }"

text \<open>\<open>substr\<close> is the string without its terminator, \<^term>\<open>None\<close> for \<open>NULL\<close>.\<close>

definition pbuf_strstr :: "addr option \<Rightarrow> u8 list option \<Rightarrow> net \<Rightarrow> u16 option" where
  "pbuf_strstr p substr s = (case substr of None \<Rightarrow> Some 0xFFFF
     | Some str \<Rightarrow> if str = [] then Some 0xFFFF else do {
         a \<leftarrow> p; b \<leftarrow> pbufs s a;
         if pb_tot_len b = 0xFFFF then Some 0xFFFF
         else if length str \<ge> 0xFFFF then Some 0xFFFF
         else pbuf_memfind p str (of_nat (length str)) 0 s })"

section \<open>Reading a chain\<close>

lemma mem_read_part:
  assumes "mem_read s p n = Some d" "k + m \<le> n"
  shows "mem_read s (ptr_add p k) m = Some (take m (drop k d))"
proof -
  obtain a off where p: "p = (a, off)" by (cases p)
  with assms(1) obtain e where e: "extent s a = Some e" "0 \<le> off" "off + int n \<le> int e"
    "d = map (\<lambda>i. cells s a (nat off + i)) [0..<n]"
    by (auto simp: mem_read_def split: option.splits if_splits)
  have "nat (off + int k) = nat off + k" using e(2) by simp
  moreover have "take m (drop k d) = map (\<lambda>i. cells s a (nat off + (k + i))) [0..<m]"
    using assms(2) e(4) by (simp add: drop_map_upt take_map_upt)
  ultimately show ?thesis using p e assms(2) by (simp add: mem_read_def ptr_add_def ac_simps)
qed

lemma pay_read_part:
  assumes "pb_data s b = Some d" "k + m \<le> unat (pb_len b)"
  shows "pay_read s b k m = Some (take m (drop k d))"
  using assms mem_read_part [of s _ "unat (pb_len b)" d k m]
  by (auto simp: pb_data_def pay_read_def split: bind_splits)

lemma chain_data_Cons:
  "chain_data s ((a, b) # xs) = Some d \<longleftrightarrow>
     (\<exists>d1 d2. pb_data s b = Some d1 \<and> chain_data s xs = Some d2 \<and> d = d1 @ d2)"
  by (auto split: bind_splits)

lemma unat_min_u16: "unat (min (a :: u16) b) = min (unat a) (unat b)"
  by (simp add: min_def word_le_nat_alt)

lemma copy_partial_loop_spec:
  assumes "pchain s p xs" "chain_data s xs = Some d"
  shows "copy_partial_loop p len off tot out s =
    Some (tot + of_nat (length (take (unat len) (drop (unat off) d))), out @ take (unat len) (drop (unat off) d))"
  using assms
proof (induction xs arbitrary: p d len off tot out)
  case Nil
  then show ?case by (subst copy_partial_loop.simps) simp
next
  case (Cons x xs)
  obtain a b where x: "x = (a, b)" by (cases x)
  from Cons.prems x have b: "p = Some a" "pbufs s a = Some b" "pchain s (pb_next b) xs" by auto
  from Cons.prems(2) x obtain d1 d2 where d: "pb_data s b = Some d1" "chain_data s xs = Some d2" "d = d1 @ d2"
    by (auto split: bind_splits)
  have l1: "length d1 = unat (pb_len b)" using pb_data_length [OF d(1)] .
  note IH = Cons.IH [OF b(3) d(2)]
  show ?case
  proof (cases "len = 0")
    case True
    then show ?thesis by (subst copy_partial_loop.simps) simp
  next
    case ln: False
    show ?thesis
    proof (cases "off \<noteq> 0 \<and> off \<ge> pb_len b")
      case True
      then have "unat (off - pb_len b) = unat off - length d1" using l1 by (simp add: unat_u16_sub)
      moreover have "drop (unat off) d = drop (unat off - length d1) d2"
        using True l1 d(3) by (simp add: word_le_nat_alt)
      ultimately show ?thesis using True ln b IH by (subst copy_partial_loop.simps) simp
    next
      case False
      then have o: "unat off \<le> length d1" using l1 by (auto simp: word_le_nat_alt)
      then have ol: "off \<le> pb_len b" using l1 by (simp add: word_le_nat_alt)
      define n where "n = min (pb_len b - off) len"
      have n: "unat n = min (length d1 - unat off) (unat len)"
        using l1 ol by (simp add: n_def unat_min_u16 unat_u16_sub)
      have nl: "n \<le> len" by (simp add: n_def)
      have rd: "pay_read s b (unat off) (unat n) = Some (take (unat n) (drop (unat off) d1))"
        by (rule pay_read_part [OF d(1)]) (use n l1 o in simp)
      let ?r1 = "take (unat n) (drop (unat off) d1)"
      have r1: "length ?r1 = unat n" using n by simp
      have split: "take (unat len) (drop (unat off) d) = ?r1 @ take (unat (len - n)) d2"
        using o n nl d(3) by (simp add: unat_u16_sub min_def)
      have "copy_partial_loop p len off tot out s =
          copy_partial_loop (pb_next b) (len - n) 0 (tot + n) (out @ ?r1) s"
        using False ln b rd by (subst copy_partial_loop.simps) (auto simp: n_def [symmetric] Let_def)
      also have "\<dots> = Some (tot + n + of_nat (length (take (unat (len - n)) d2)), out @ ?r1 @ take (unat (len - n)) d2)"
        using IH [of "len - n" 0 "tot + n" "out @ ?r1"] by simp
      finally show ?thesis unfolding split length_append r1 by (simp add: ac_simps)
    qed
  qed
qed

lemma pbuf_skip_spec:
  assumes "pchain s p xs" "chain_data s xs = Some d"
  shows "\<exists>r k' zs e. pbuf_skip p k s = Some (r, k') \<and> pchain s r zs \<and> chain_data s zs = Some e \<and>
    drop (unat k) d = drop (unat k') e \<and> unat k' \<le> unat k \<and>
    (case r of None \<Rightarrow> length d \<le> unat k | Some a \<Rightarrow> \<exists>b. pbufs s a = Some b \<and> k' < pb_len b \<and> unat k < length d)"
  using assms
proof (induction xs arbitrary: p d k)
  case Nil
  then show ?case by (subst pbuf_skip.simps) (auto intro!: exI [of _ "[]"])
next
  case (Cons x xs)
  obtain a b where x: "x = (a, b)" by (cases x)
  from Cons.prems x have b: "p = Some a" "pbufs s a = Some b" "pchain s (pb_next b) xs" by auto
  from Cons.prems(2) x obtain d1 d2 where d: "pb_data s b = Some d1" "chain_data s xs = Some d2" "d = d1 @ d2"
    by (auto split: bind_splits)
  have l1: "length d1 = unat (pb_len b)" using pb_data_length [OF d(1)] .
  show ?case
  proof (cases "pb_len b \<le> k")
    case True
    then have k: "unat (k - pb_len b) = unat k - length d1" "length d1 \<le> unat k"
      using l1 by (simp_all add: unat_u16_sub word_le_nat_alt)
    from Cons.IH [OF b(3) d(2), of "k - pb_len b"] obtain r k' zs e where
      A: "pbuf_skip (pb_next b) (k - pb_len b) s = Some (r, k')" "pchain s r zs" "chain_data s zs = Some e"
        "drop (unat (k - pb_len b)) d2 = drop (unat k') e" "unat k' \<le> unat (k - pb_len b)"
        "case r of None \<Rightarrow> length d2 \<le> unat (k - pb_len b)
         | Some a \<Rightarrow> \<exists>b'. pbufs s a = Some b' \<and> k' < pb_len b' \<and> unat (k - pb_len b) < length d2" by blast
    have "pbuf_skip p k s = Some (r, k')" using A(1) True b by (subst pbuf_skip.simps) simp
    moreover have "drop (unat k) d = drop (unat k') e" using A(4) k d(3) by simp
    moreover have "unat k' \<le> unat k" using A(5) k by simp
    ultimately show ?thesis using A(2,3,6) k d(3) by (fastforce split: option.splits)
  next
    case False
    then have "pbuf_skip p k s = Some (Some a, k)" using b by (subst pbuf_skip.simps) simp
    moreover have "unat k < length d" using False l1 d(3) by (simp add: word_le_nat_alt)
    ultimately show ?thesis using b False Cons.prems by (auto intro!: exI [of _ "x # xs"])
  qed
qed

lemma pbuf_get_at_spec:
  assumes "pchain s p xs" "chain_data s xs = Some d"
  shows "pbuf_get_at p k s = Some (if unat k < length d then d ! unat k else 0)"
proof -
  from pbuf_skip_spec [OF assms, of k] obtain r k' zs e where
    A: "pbuf_skip p k s = Some (r, k')" "pchain s r zs" "chain_data s zs = Some e"
        "drop (unat k) d = drop (unat k') e" 
        "case r of None \<Rightarrow> length d \<le> unat k
         | Some a \<Rightarrow> \<exists>b. pbufs s a = Some b \<and> k' < pb_len b \<and> unat k < length d" by blast
  show ?thesis
  proof (cases r)
    case None
    then show ?thesis using A by (simp add: pbuf_get_at_def)
  next
    case (Some a)
    with A obtain b where b: "pbufs s a = Some b" "k' < pb_len b" "unat k < length d" by auto
    from A(2) Some b obtain ws where zs: "zs = (a, b) # ws" by (cases zs) auto
    with A(3) obtain d1 d2 where d: "pb_data s b = Some d1" "e = d1 @ d2" by (auto split: bind_splits)
    have l1: "length d1 = unat (pb_len b)" using pb_data_length [OF d(1)] .
    have k': "unat k' < length d1" using b l1 by (simp add: word_less_nat_alt)
    then have "pay_read s b (unat k') 1 = Some [d1 ! unat k']"
      using pay_read_part [OF d(1), of "unat k'" 1] l1 by (simp add: take_Suc_conv_app_nth take_Suc hd_drop_conv_nth)
    moreover have "d ! unat k = d1 ! unat k'"
      using A(4) b(3) k' d(2) by (metis hd_drop_conv_nth length_append nth_append trans_less_add1)
    ultimately show ?thesis using A(1) Some b by (simp add: pbuf_get_at_def)
  qed
qed

section \<open>Comparing and finding\<close>

text \<open>One more than the first index from which two lists differ, 0 when they agree.\<close>

fun diff_at :: "nat \<Rightarrow> u8 list \<Rightarrow> u8 list \<Rightarrow> nat" where
  "diff_at i (x # xs) (y # ys) = (if x \<noteq> y then i + 1 else diff_at (i + 1) xs ys)"
| "diff_at i _ _ = 0"

lemma diff_at_0: "length xs = length ys \<Longrightarrow> diff_at i xs ys = 0 \<longleftrightarrow> xs = ys"
  by (induction i xs ys rule: diff_at.induct) auto

lemma diff_at_le: "diff_at i xs ys \<le> i + length xs"
  by (induction i xs ys rule: diff_at.induct) auto

lemma memcmp_loop_spec:
  assumes "pchain s q xs" "chain_data s xs = Some e" "unat start + i + k \<le> length e" "unat start + i + k < 65536"
    "i + k \<le> length s2"
  shows "memcmp_loop q start s2 i k s =
    Some (of_nat (diff_at i (take k (drop (unat start + i) e)) (take k (drop i s2))))"
  using assms(3-5)
proof (induction k arbitrary: i)
  case 0
  then show ?case by simp
next
  case (Suc k)
  have u: "unat (start + of_nat i) = unat start + i"
    using Suc.prems by (simp add: unat_u16_add unat_of_nat_u16)
  have g: "pbuf_get_at q (start + of_nat i) s = Some (e ! (unat start + i))"
    using pbuf_get_at_spec [OF assms(1,2), of "start + of_nat i"] u Suc.prems by simp
  have IH: "memcmp_loop q start s2 (i + 1) k s =
      Some (of_nat (diff_at (i + 1) (take k (drop (unat start + (i + 1)) e)) (take k (drop (i + 1) s2))))"
    by (rule Suc.IH) (use Suc.prems in auto)
  have "drop (unat start + i) e = e ! (unat start + i) # drop (unat start + (i + 1)) e"
    "drop i s2 = s2 ! i # drop (i + 1) s2"
    using Suc.prems by (simp_all add: Cons_nth_drop_Suc)
  then show ?case using g IH Suc.prems by simp
qed

lemma pbuf_memcmp_spec:
  assumes "pchain s p xs" "chain_data s xs = Some d" "unat n \<le> length s2" "unat off < length d"
    "unat off + unat n \<le> length d" "unat off + unat n < 65536"
  shows "pbuf_memcmp p off s2 n s = Some (of_nat (diff_at 0 (take (unat n) (drop (unat off) d)) (take (unat n) s2)))"
proof -
  from pbuf_skip_spec [OF assms(1,2), of off] obtain r k' zs e where
    A: "pbuf_skip p off s = Some (r, k')" "pchain s r zs" "chain_data s zs = Some e"
        "drop (unat off) d = drop (unat k') e" "unat k' \<le> unat off"
        "case r of None \<Rightarrow> length d \<le> unat off
         | Some a \<Rightarrow> \<exists>b. pbufs s a = Some b \<and> k' < pb_len b \<and> unat off < length d" by blast
  with assms(4) obtain a b where r: "r = Some a" "pbufs s a = Some b" "k' < pb_len b"
    by (cases r) auto
  have "length d - unat off = length e - unat k'" using A(4) by (metis length_drop)
  then have "unat k' + unat n \<le> length e" using assms(4,5) by simp
  then have "memcmp_loop r k' s2 0 (unat n) s =
      Some (of_nat (diff_at 0 (take (unat n) (drop (unat k') e)) (take (unat n) s2)))"
    using memcmp_loop_spec [OF A(2,3), of k' 0 "unat n" s2] assms A(5) by simp
  then show ?thesis using A(1,4) r by (simp add: pbuf_memcmp_def)
qed

lemma memfind_loop_spec:
  assumes "pchain s p xs" "chain_data s xs = Some d" "unat n = length mem" "0 < length mem"
    "length d < 65536" "length mem \<le> length d" "unat mx = length d - length mem"
  shows "\<exists>r. memfind_loop p mem n mx i s = Some r \<and>
    (r = 0xFFFF \<or> unat i \<le> unat r \<and> unat r + length mem \<le> length d \<and> take (length mem) (drop (unat r) d) = mem)"
proof (induction "length d - unat i" arbitrary: i rule: less_induct)
  case less
  show ?case
  proof (cases "i \<le> mx")
    case False
    then have "memfind_loop p mem n mx i s = Some 0xFFFF" by (subst memfind_loop.simps) simp
    then show ?thesis by simp
  next
    case True
    then have i: "unat i + length mem \<le> length d" using assms(6,7) by (simp add: word_le_nat_alt)
    let ?w = "take (length mem) (drop (unat i) d)"
    let ?k = "diff_at 0 ?w mem"
    have lw: "length ?w = length mem" using i by simp
    have k: "?k \<le> length mem" using diff_at_le [of 0 ?w mem] lw by simp
    have c: "pbuf_memcmp p i mem n s = Some (of_nat ?k)"
      using pbuf_memcmp_spec [OF assms(1,2), of n mem i] assms i by simp
    have uk: "unat (of_nat ?k :: u16) = ?k" using k assms by (simp add: unat_of_nat_u16)
    show ?thesis
    proof (cases "?k = 0")
      case True
      then have "memfind_loop p mem n mx i s = Some i" using c \<open>i \<le> mx\<close> by (subst memfind_loop.simps) simp
      moreover have "?w = mem" using True diff_at_0 [OF lw] by simp
      ultimately show ?thesis using i by auto
    next
      case False
      then have nz: "(of_nat ?k :: u16) \<noteq> 0" using uk by (metis unat_0)
      have ui: "unat (i + of_nat ?k) = unat i + ?k"
        using uk k i assms(5) by (simp add: unat_u16_add)
      have "\<exists>r. memfind_loop p mem n mx (i + of_nat ?k) s = Some r \<and>
          (r = 0xFFFF \<or> unat (i + of_nat ?k) \<le> unat r \<and> unat r + length mem \<le> length d \<and>
             take (length mem) (drop (unat r) d) = mem)"
        by (rule less) (use ui False i assms(4) in linarith)
      moreover have "memfind_loop p mem n mx i s = memfind_loop p mem n mx (i + of_nat ?k) s"
        using c \<open>i \<le> mx\<close> nz by (subst memfind_loop.simps) simp
      ultimately show ?thesis using ui by auto
    qed
  qed
qed

text \<open>C18: \<open>pbuf_memfind\<close> returns for every needle of at least one byte, and a position it
  returns is one where the needle is, at or after the start, inside the packet.\<close>

theorem pbuf_memfind_sound:
  assumes "pchain s (Some p) ((p, b) # xs)" and "chain_data s ((p, b) # xs) = Some d"
    and "length d = unat (pb_tot_len b)" and "unat n = length mem" "0 < length mem"
  shows "\<exists>r. pbuf_memfind (Some p) mem n start s = Some r \<and>
    (r = 0xFFFF \<or> unat start \<le> unat r \<and> unat r + length mem \<le> length d \<and>
       take (length mem) (drop (unat r) d) = mem)"
proof (cases "unat n + unat start \<le> unat (pb_tot_len b)")
  case True
  then have "n \<le> pb_tot_len b" by (simp add: word_le_nat_alt)
  then have "unat (pb_tot_len b - n) = length d - length mem" using assms(3,4) by (simp add: unat_u16_sub)
  moreover have "length d < 65536" using assms(3) unat_u16_lt [of "pb_tot_len b"] by simp
  ultimately show ?thesis
    using memfind_loop_spec [OF assms(1,2,4,5), of "pb_tot_len b - n" start] True assms
    by (simp add: pbuf_memfind_def)
next
  case False
  then show ?thesis using assms(1) by (simp add: pbuf_memfind_def)
qed

definition aaab :: net where
  "aaab = \<lparr> n_memp = \<lparr>memp_tab = (\<lambda>_. None), memp_next = (\<lambda>_. None)\<rparr>,
     n_heap = \<lparr>hdrs = (\<lambda>_. None), lfree = 0\<rparr>,
     pbufs = [ExtAddr 1 \<mapsto> \<lparr>pb_next = None, pb_payload = Some (ExtAddr 1, 0), pb_tot_len = 4, pb_len = 4,
                pb_type = PBUF_REF, pb_flags = 0, pb_ref = 1\<rparr>],
     stale_flags = (\<lambda>_. 0), extent = (\<lambda>_. Some 4),
     cells = (\<lambda>a i. if i < 3 then 0x61 else 0x62) \<rparr>"

lemma aaab_chain:
  "pchain aaab (Some (ExtAddr 1)) [(ExtAddr 1, the (pbufs aaab (ExtAddr 1)))]"
  "chain_data aaab [(ExtAddr 1, the (pbufs aaab (ExtAddr 1)))] = Some [0x61, 0x61, 0x61, 0x62]"
  by (simp_all add: aaab_def pb_data_def mem_read_def upt_rec)

theorem pbuf_memfind_sound_witness:
  "\<exists>r. pbuf_memfind (Some (ExtAddr 1)) [0x61, 0x62] 2 0 aaab = Some r \<and>
    (r = 0xFFFF \<or> take 2 (drop (unat r) [0x61, 0x61, 0x61, 0x62]) = [0x61, 0x62 :: u8])"
  using pbuf_memfind_sound [OF aaab_chain, of 2 "[0x61, 0x62]" 0] by (simp add: aaab_def) (metis length_Cons list.size(3) One_nat_def Suc_1)

text \<open>\<open>pbuf_memfind\<close> goes on after the byte at which a comparison failed, so it misses
  needles that start before it: \<open>aab\<close> is not found in the packet \<open>aaab\<close>.\<close>

theorem pbuf_memfind_misses:
  "pbuf_memfind (Some (ExtAddr 1)) [0x61, 0x61, 0x62] 3 0 aaab = Some 0xFFFF \<and>
   chain_data aaab [(ExtAddr 1, the (pbufs aaab (ExtAddr 1)))] = Some (0x61 # [0x61, 0x61, 0x62])"
proof -
  have b: "pbufs aaab (ExtAddr 1) = Some b \<Longrightarrow> pb_tot_len b = 4" for b by (auto simp: aaab_def)
  have "pbuf_memcmp (Some (ExtAddr 1)) 0 [0x61, 0x61, 0x62] 3 aaab = Some 3"
    using pbuf_memcmp_spec [OF aaab_chain, of 3 "[0x61, 0x61, 0x62]" 0] by simp
  then have "memfind_loop (Some (ExtAddr 1)) [0x61, 0x61, 0x62] 3 1 0 aaab =
      memfind_loop (Some (ExtAddr 1)) [0x61, 0x61, 0x62] 3 1 3 aaab"
    by (subst memfind_loop.simps) simp
  also have "\<dots> = Some 0xFFFF" by (subst memfind_loop.simps) (simp add: word_le_nat_alt)
  finally have "pbuf_memfind (Some (ExtAddr 1)) [0x61, 0x61, 0x62] 3 0 aaab = Some 0xFFFF"
    by (simp add: pbuf_memfind_def) (simp add: aaab_def)
  then show ?thesis using aaab_chain by simp
qed

text \<open>C17: \<open>pbuf_copy_partial\<close> copies exactly the bytes of the packet from the offset on, up
  to the length asked for and the end of the packet, and returns how many, however the packet
  is split.\<close>

theorem pbuf_copy_partial_is_slice:
  assumes "pchain s (Some p) xs" and "chain_data s xs = Some d"
  shows "pbuf_copy_partial (Some p) len off s =
    Some (of_nat (length (take (unat len) (drop (unat off) d))), take (unat len) (drop (unat off) d))"
  using copy_partial_loop_spec [OF assms] by (simp add: pbuf_copy_partial_def)

theorem pbuf_copy_partial_is_slice_witness:
  "pbuf_copy_partial (Some (ExtAddr 1)) 9 2 aaab = Some (2, [0x61, 0x62])"
  using pbuf_copy_partial_is_slice [OF aaab_chain, of 9 2] by simp

section \<open>Writing a chain\<close>

definition pay_obj :: "pbuf \<Rightarrow> addr option" where
  "pay_obj b = map_option fst (pb_payload b)"

lemma pay_write_spec:
  assumes "pb_data s b = Some d" "length bs \<le> unat (pb_len b)"
  shows "\<exists>c. pay_write s b 0 bs = Some (s\<lparr>cells := c\<rparr>) \<and> pb_data (s\<lparr>cells := c\<rparr>) b = Some (bs @ drop (length bs) d) \<and>
    (\<forall>b'. pay_obj b' \<noteq> pay_obj b \<longrightarrow> pb_data (s\<lparr>cells := c\<rparr>) b' = pb_data s b')"
proof -
  from assms(1) obtain a off where p: "pb_payload b = Some (a, off)"
    by (cases "pb_payload b") (auto simp: pb_data_def)
  with assms(1) obtain e where e: "extent s a = Some e" "0 \<le> off" "off + int (unat (pb_len b)) \<le> int e"
    "d = map (\<lambda>i. cells s a (nat off + i)) [0..<unat (pb_len b)]"
    by (auto simp: pb_data_def mem_read_def split: option.splits if_splits)
  define c where "c = (cells s)(a := (\<lambda>i. if nat off \<le> i \<and> i < nat off + length bs
                                            then bs ! (i - nat off) else cells s a i))"
  have le: "off + int (length bs) \<le> int e" using e(3) assms(2) by linarith
  have "pay_write s b 0 bs = Some (s\<lparr>cells := c\<rparr>)"
    using p e(1,2) le by (simp add: pay_write_def mem_write_def ptr_add_def c_def)
  moreover have "map (\<lambda>i. c a (nat off + i)) [0..<unat (pb_len b)] = bs @ drop (length bs) d"
    by (rule nth_equalityI) (use e(4) assms(2) in \<open>auto simp: c_def nth_append\<close>)
  then have "pb_data (s\<lparr>cells := c\<rparr>) b = Some (bs @ drop (length bs) d)"
    using p e(1-3) by (simp add: pb_data_def mem_read_def)
  moreover have "pb_data (s\<lparr>cells := c\<rparr>) b' = pb_data s b'" if "pay_obj b' \<noteq> pay_obj b" for b'
  proof (cases "pb_payload b'")
    case (Some q)
    note ne = that
    obtain a' off' where q: "q = (a', off')" by (cases q)
    then have "a' \<noteq> a" using ne p Some by (auto simp: pay_obj_def)
    with q show ?thesis using Some by (simp add: pb_data_def mem_read_def c_def split: option.splits)
  qed (simp add: pb_data_def)
  ultimately show ?thesis by blast
qed

lemma chain_data_other:
  assumes "\<forall>b. pay_obj b \<noteq> o1 \<longrightarrow> pb_data s' b = pb_data s b" "o1 \<notin> (\<lambda>(a, b). pay_obj b) ` set xs"
  shows "chain_data s' xs = chain_data s xs"
  using assms(2)
proof (induction xs)
  case (Cons x xs)
  obtain a b where "x = (a, b)" by (cases x)
  with Cons assms(1) show ?case by auto
qed simp

lemma take_loop_spec:
  assumes "pchain s p xs" "chain_data s xs = Some d" "distinct (map (\<lambda>(a, b). pay_obj b) xs)"
    "unat t \<le> length d" "unat c + unat t \<le> length dat" "unat c + unat t < 65536"
  shows "\<exists>C. take_loop p dat t c s = Some (c + t, s\<lparr>cells := C\<rparr>) \<and>
    chain_data (s\<lparr>cells := C\<rparr>) xs = Some (take (unat t) (drop (unat c) dat) @ drop (unat t) d) \<and>
    (\<forall>b. pay_obj b \<notin> (\<lambda>(a, b). pay_obj b) ` set xs \<longrightarrow> pb_data (s\<lparr>cells := C\<rparr>) b = pb_data s b)"
  using assms
proof (induction xs arbitrary: s p d t c)
  case Nil
  then have "t = 0" by (simp add: word_eq_unat)
  then have "take_loop p dat t c s = Some (c, s\<lparr>cells := cells s\<rparr>)" by (subst take_loop.simps) simp
  then show ?case using Nil \<open>t = 0\<close> by (intro exI [of _ "cells s"]) simp
next
  case (Cons x xs)
  obtain a b where x: "x = (a, b)" by (cases x)
  from Cons.prems x have b: "p = Some a" "pbufs s a = Some b" "pchain s (pb_next b) xs" by auto
  from Cons.prems(2) x obtain d1 d2 where d: "pb_data s b = Some d1" "chain_data s xs = Some d2" "d = d1 @ d2"
    by (auto split: bind_splits)
  have l1: "length d1 = unat (pb_len b)" using pb_data_length [OF d(1)] .
  have dis: "pay_obj b \<notin> (\<lambda>(a, b). pay_obj b) ` set xs" "distinct (map (\<lambda>(a, b). pay_obj b) xs)"
    using Cons.prems(3) x by auto
  show ?case
  proof (cases "t = 0")
    case True
    then have "take_loop p dat t c s = Some (c, s\<lparr>cells := cells s\<rparr>)" by (subst take_loop.simps) simp
    then show ?thesis using Cons.prems(2) True by (intro exI [of _ "cells s"]) simp
  next
    case False
    define n where "n = min t (pb_len b)"
    have n: "unat n = min (unat t) (length d1)" using l1 by (simp add: n_def unat_min_u16)
    have nt: "n \<le> t" "n \<le> pb_len b" by (simp_all add: n_def)
    have tn: "unat (t - n) = unat t - unat n" using nt by (simp add: unat_u16_sub)
    have cn: "unat (c + n) = unat c + unat n"
    proof -
      have "unat c + unat n < 65536" using Cons.prems(6) n by linarith
      then show ?thesis by (simp add: unat_u16_add)
    qed
    let ?w = "take (unat n) (drop (unat c) dat)"
    have lw: "length ?w = unat n" using n Cons.prems(5) by simp
    have "length ?w \<le> unat (pb_len b)" using lw n l1 by simp
    from pay_write_spec [OF d(1) this] obtain C1 where C1: "pay_write s b 0 ?w = Some (s\<lparr>cells := C1\<rparr>)"
      "pb_data (s\<lparr>cells := C1\<rparr>) b = Some (?w @ drop (length ?w) d1)"
      "\<forall>b'. pay_obj b' \<noteq> pay_obj b \<longrightarrow> pb_data (s\<lparr>cells := C1\<rparr>) b' = pb_data s b'" by blast
    let ?s1 = "s\<lparr>cells := C1\<rparr>"
    have pc1: "pchain ?s1 (pb_next b) xs" using b(3) pchain_cong_bufs [of ?s1 s] by simp
    have cd1: "chain_data ?s1 xs = Some d2" using chain_data_other [OF C1(3) dis(1)] d(2) by simp
    have "\<exists>C. take_loop (pb_next b) dat (t - n) (c + n) ?s1 = Some (c + n + (t - n), ?s1\<lparr>cells := C\<rparr>) \<and>
      chain_data (?s1\<lparr>cells := C\<rparr>) xs = Some (take (unat (t - n)) (drop (unat (c + n)) dat) @ drop (unat (t - n)) d2) \<and>
      (\<forall>b. pay_obj b \<notin> (\<lambda>(a, b). pay_obj b) ` set xs \<longrightarrow> pb_data (?s1\<lparr>cells := C\<rparr>) b = pb_data ?s1 b)"
      by (rule Cons.IH [OF pc1 cd1 dis(2)]) (use Cons.prems(4-6) d(3) tn cn n in auto)
    then obtain C where C: "take_loop (pb_next b) dat (t - n) (c + n) ?s1 = Some (c + t, s\<lparr>cells := C\<rparr>)"
      "chain_data (s\<lparr>cells := C\<rparr>) xs = Some (take (unat (t - n)) (drop (unat (c + n)) dat) @ drop (unat (t - n)) d2)"
      "\<forall>b. pay_obj b \<notin> (\<lambda>(a, b). pay_obj b) ` set xs \<longrightarrow> pb_data (s\<lparr>cells := C\<rparr>) b = pb_data ?s1 b"
      by auto
    have run: "take_loop p dat t c s = Some (c + t, s\<lparr>cells := C\<rparr>)"
      using False b C(1) C1(1) Cons.prems(5) n
      by (subst take_loop.simps) (simp add: n_def [symmetric] Let_def)
    have "pb_data (s\<lparr>cells := C\<rparr>) b = Some (?w @ drop (unat n) d1)" using C(3) dis(1) C1(2) lw by simp
    then have "chain_data (s\<lparr>cells := C\<rparr>) (x # xs) =
        Some ((?w @ drop (unat n) d1) @ take (unat (t - n)) (drop (unat (c + n)) dat) @ drop (unat (t - n)) d2)"
      using C(2) x by simp
    moreover have "(?w @ drop (unat n) d1) @ take (unat (t - n)) (drop (unat (c + n)) dat) @ drop (unat (t - n)) d2 =
        take (unat t) (drop (unat c) dat) @ drop (unat t) d"
    proof (cases "unat t \<le> length d1")
      case True
      then show ?thesis using tn n d(3) by simp
    next
      case False
      then have "unat n = length d1" using n by simp
      moreover have "take (unat t) (drop (unat c) dat) =
          take (length d1) (drop (unat c) dat) @ take (unat t - length d1) (drop (unat c + length d1) dat)"
        using False take_add [of "length d1" "unat t - length d1" "drop (unat c) dat"] by (simp add: add.commute)
      ultimately show ?thesis using tn cn d(3) False by simp
    qed
    ultimately have cd: "chain_data (s\<lparr>cells := C\<rparr>) (x # xs) = Some (take (unat t) (drop (unat c) dat) @ drop (unat t) d)"
      by simp
    have "pb_data (s\<lparr>cells := C\<rparr>) b' = pb_data s b'" if "pay_obj b' \<notin> (\<lambda>(a, b). pay_obj b) ` set (x # xs)" for b'
      using that C(3) C1(3) x by simp
    then show ?thesis using run cd by blast
  qed
qed

text \<open>C16: \<open>pbuf_take\<close> fills a packet with the application's data, in order across its pbufs,
  and leaves the bytes after the data alone; \<open>pbuf_copy_partial\<close> then gives the data back.\<close>

theorem pbuf_take_then_copy:
  assumes "pchain s (Some p) ((p, b) # xs)" and "chain_data s ((p, b) # xs) = Some d"
    and "distinct (map (\<lambda>(a, b). pay_obj b) ((p, b) # xs))" and "length d = unat (pb_tot_len b)"
    and "len \<le> pb_tot_len b" and "unat len \<le> length dat"
  shows "\<exists>s'. pbuf_take (Some p) dat len s = Some (ERR_OK, s') \<and> pbufs s' = pbufs s \<and>
    chain_data s' ((p, b) # xs) = Some (take (unat len) dat @ drop (unat len) d) \<and>
    pbuf_copy_partial (Some p) len 0 s' = Some (len, take (unat len) dat)"
proof -
  have le: "unat len \<le> length d" using assms(4,5) by (simp add: word_le_nat_alt)
  have "\<exists>C. take_loop (Some p) dat len 0 s = Some (0 + len, s\<lparr>cells := C\<rparr>) \<and>
    chain_data (s\<lparr>cells := C\<rparr>) ((p, b) # xs) = Some (take (unat len) (drop (unat (0 :: u16)) dat) @ drop (unat len) d) \<and>
    (\<forall>c. pay_obj c \<notin> (\<lambda>(a, b). pay_obj b) ` set ((p, b) # xs) \<longrightarrow> pb_data (s\<lparr>cells := C\<rparr>) c = pb_data s c)"
    by (rule take_loop_spec [OF assms(1-3) le]) (use assms(6) unat_u16_lt [of len] in simp_all)
  then obtain C where C: "take_loop (Some p) dat len 0 s = Some (len, s\<lparr>cells := C\<rparr>)"
    "chain_data (s\<lparr>cells := C\<rparr>) ((p, b) # xs) = Some (take (unat len) dat @ drop (unat len) d)" by auto
  have pc: "pchain (s\<lparr>cells := C\<rparr>) (Some p) ((p, b) # xs)"
    using assms(1) pchain_cong_bufs [of "s\<lparr>cells := C\<rparr>" s] by simp
  have "pbuf_take (Some p) dat len s = Some (ERR_OK, s\<lparr>cells := C\<rparr>)"
    using assms(1,5) C(1) by (simp add: pbuf_take_def)
  moreover have "pbuf_copy_partial (Some p) len 0 (s\<lparr>cells := C\<rparr>) = Some (len, take (unat len) dat)"
    using copy_partial_loop_spec [OF pc C(2), of len 0 0 "[]"] assms(6)
    by (simp add: pbuf_copy_partial_def)
  ultimately show ?thesis using C(2) by (intro exI [of _ "s\<lparr>cells := C\<rparr>"]) simp
qed

theorem pbuf_take_then_copy_witness:
  "\<exists>s'. pbuf_take (Some (ExtAddr 1)) [1, 2, 3] 3 aaab = Some (ERR_OK, s') \<and>
    pbuf_copy_partial (Some (ExtAddr 1)) 3 0 s' = Some (3, [1, 2, 3])"
  using pbuf_take_then_copy [OF aaab_chain, of 3 "[1, 2, 3]"] by (simp add: aaab_def)  metis

section \<open>Header space\<close>

text \<open>\<open>pbuf_header\<close> on a pbuf that holds its payload reveals \<open>n\<close> bytes in front of it
  exactly when they fit between the \<open>struct pbuf\<close> and the payload, and hiding them again gives
  back the same memory; when they do not fit it returns 1 and changes nothing.\<close>

theorem pbuf_header_roundtrip:
  assumes "pbufs s a = Some b" and "pb_payload b = Some (a, off)" and "pb_type b = PBUF_RAM \<or> pb_type b = PBUF_POOL"
    and "0 < sint (n :: 16 word)" and "unat (pb_len b) + unat n < 65536"
  shows "if 16 \<le> off - sint n then
      \<exists>s' b'. pbuf_header (Some a) n s = Some (0, s') \<and> pbufs s' a = Some b' \<and>
        pb_payload b' = Some (a, off - sint n) \<and> unat (pb_len b') = unat (pb_len b) + unat n \<and>
        pb_tot_len b' = pb_tot_len b + n \<and> pbuf_header (Some a) (- n) s' = Some (0, s)
    else pbuf_header (Some a) n s = Some (1, s)"
proof -
  have nz: "n \<noteq> 0" "- n \<noteq> 0" using assms(4) by auto
  have sn: "sint (- n) = - sint n"
  proof -
    have "sint n < 32768" using sint_lt [of n] by simp
    then have "signed_take_bit 15 (- sint n) = - sint n"
      using assms(4) by (intro signed_take_bit_int_eq_self) simp_all
    then show ?thesis by (simp add: sint_word_ariths)
  qed
  have un: "unat (of_int (sint n) :: u16) = unat n" by simp
  let ?b' = "b\<lparr>pb_payload := Some (a, off - sint n), pb_len := pb_len b + n, pb_tot_len := pb_tot_len b + n\<rparr>"
  show ?thesis
  proof (cases "16 \<le> off - sint n")
    case False
    then show ?thesis using assms nz by (auto simp: pbuf_header_def Let_def c_def)
  next
    case True
    have 1: "pbuf_header (Some a) n s = Some (0, put_pbuf a ?b' s)"
      using True assms nz by (auto simp: pbuf_header_def Let_def c_def)
    have len: "unat (pb_len b + n) = unat (pb_len b) + unat n" using assms(5) by (simp add: unat_u16_add)
    then have le: "n \<le> pb_len b + n" by (simp add: word_le_nat_alt)
    have be: "b\<lparr>pb_payload := Some (a, off)\<rparr> = b" unfolding assms(2) [symmetric] by simp
    have bk: "put_pbuf a (b\<lparr>pb_payload := Some (a, off)\<rparr>) (put_pbuf a ?b' s) = s"
      unfolding be using assms(1) by (simp add: put_pbuf_def fun_upd_idem)
    have 2: "pbuf_header (Some a) (- n) (put_pbuf a ?b' s) = Some (0, s)"
      using assms nz sn le bk True by (auto simp: pbuf_header_def Let_def c_def)
    show ?thesis using True 1 2 len by (auto simp: put_pbuf_def)
  qed
qed

definition one_pool_pbuf :: net where
  "one_pool_pbuf = aaab\<lparr>pbufs := [MempAddr 4096 \<mapsto> \<lparr>pb_next = None, pb_payload = Some (MempAddr 4096, 72),
     pb_tot_len = 100, pb_len = 100, pb_type = PBUF_POOL, pb_flags = 0, pb_ref = 1\<rparr>]\<rparr>"

theorem pbuf_header_roundtrip_witness:
  "\<exists>s' b'. pbuf_header (Some (MempAddr 4096)) 20 one_pool_pbuf = Some (0, s') \<and>
    pbufs s' (MempAddr 4096) = Some b' \<and> pb_payload b' = Some (MempAddr 4096, 52) \<and>
    pbuf_header (Some (MempAddr 4096)) (- 20) s' = Some (0, one_pool_pbuf)"
proof -
  let ?b = "\<lparr>pb_next = None, pb_payload = Some (MempAddr 4096, 72 :: int),
     pb_tot_len = 100, pb_len = 100, pb_type = PBUF_POOL, pb_flags = 0, pb_ref = 1\<rparr>"
  have "pbufs one_pool_pbuf (MempAddr 4096) = Some ?b" by (simp add: one_pool_pbuf_def)
  from pbuf_header_roundtrip [OF this, of 72 20] show ?thesis by auto
qed

end
