(* ===== verification/UartHal.thy ===== *)
theory UartHal
  imports Prelude
begin

text \<open>
  The UART register layer: \<open>hal/uart/fsl_uart_hal.h\<close> and \<open>fsl_uart_hal.c\<close> with the access
  macros of \<open>MK64F12_uart.h\<close> they use, for the features of the K64F (FIFO, fine adjust, stop
  bit, address match, DMA select, modem, infrared, extended data flags). The registers are
  hardware: reading and writing one of them is a parameter, so that reads and writes with side
  effects (the data register, the write-one-to-clear flags) are the hardware's business. One
  UART instance is modelled; its base address selects the access functions.
\<close>

section \<open>Registers and their access\<close>

datatype uart_reg = R_BDH | R_BDL | R_C1 | R_C2 | R_S1 | R_S2 | R_C3 | R_D | R_MA1 | R_MA2
  | R_C4 | R_C5 | R_ED | R_MODEM | R_IR | R_PFIFO | R_CFIFO | R_SFIFO | R_TWFIFO | R_TCFIFO
  | R_RWFIFO | R_RCFIFO

record 'h uart_hw =
  reg_rd :: "uart_reg \<Rightarrow> 'h \<Rightarrow> u8 \<times> 'h"
  reg_wr :: "uart_reg \<Rightarrow> u8 \<Rightarrow> 'h \<Rightarrow> 'h"

definition HW_SET :: "'h uart_hw \<Rightarrow> uart_reg \<Rightarrow> u8 \<Rightarrow> 'h \<Rightarrow> 'h" where
  "HW_SET H r v h = (let (x, h) = reg_rd H r h in reg_wr H r (x OR v) h)"

definition HW_CLR :: "'h uart_hw \<Rightarrow> uart_reg \<Rightarrow> u8 \<Rightarrow> 'h \<Rightarrow> 'h" where
  "HW_CLR H r v h = (let (x, h) = reg_rd H r h in reg_wr H r (x AND NOT v) h)"

text \<open>
  A single-bit field is read and written through its bit-band alias: the bus reads the byte,
  replaces the bit and writes the byte back.
\<close>

definition BR :: "'h uart_hw \<Rightarrow> uart_reg \<Rightarrow> nat \<Rightarrow> 'h \<Rightarrow> bool \<times> 'h" where
  "BR H r b h = (let (x, h) = reg_rd H r h in (bit x b, h))"

definition BW :: "'h uart_hw \<Rightarrow> uart_reg \<Rightarrow> nat \<Rightarrow> bool \<Rightarrow> 'h \<Rightarrow> 'h" where
  "BW H r b v h = (let (x, h) = reg_rd H r h in reg_wr H r (if v then set_bit b x else unset_bit b x) h)"

text \<open>A field of several bits from bit 0 on with mask \<open>m\<close> (\<open>SBR\<close>, \<open>BRFA\<close>, \<open>TNP\<close>).\<close>

definition BW_field :: "'h uart_hw \<Rightarrow> uart_reg \<Rightarrow> u8 \<Rightarrow> u8 \<Rightarrow> 'h \<Rightarrow> 'h" where
  "BW_field H r m v h = (let (x, h) = reg_rd H r h in reg_wr H r (x AND NOT m OR v AND m) h)"

section \<open>Enumerations\<close>

datatype uart_status_t = kStatus_UART_Success | kStatus_UART_BaudRateCalculationError
  | kStatus_UART_RxStandbyModeError | kStatus_UART_ClearStatusFlagError | kStatus_UART_TxNotDisabled
  | kStatus_UART_RxNotDisabled | kStatus_UART_TxOrRxNotDisabled | kStatus_UART_TxBusy
  | kStatus_UART_RxBusy | kStatus_UART_NoTransmitInProgress | kStatus_UART_NoReceiveInProgress
  | kStatus_UART_Timeout | kStatus_UART_Initialized | kStatus_UART_RxCallBackEnd

datatype uart_stop_bit_count_t = kUartOneStopBit | kUartTwoStopBit
datatype uart_parity_mode_t = kUartParityDisabled | kUartParityEven | kUartParityOdd
datatype uart_bit_count_per_char_t = kUart8BitsPerChar | kUart9BitsPerChar
datatype uart_operation_config_t = kUartOperates | kUartStops
datatype uart_receiver_source_t = kUartLoopBack | kUartSingleWire
datatype uart_wakeup_method_t = kUartIdleLineWake | kUartAddrMarkWake
datatype uart_break_char_length_t = kUartBreakChar10BitMinimum | kUartBreakChar13BitMinimum
datatype uart_singlewire_txdir_t = kUartSinglewireTxdirIn | kUartSinglewireTxdirOut
datatype uart_ir_tx_pulsewidth_t = kUartIrThreeSixteenthsWidth | kUartIrOneSixteenthWidth
  | kUartIrOneThirtysecondsWidth | kUartIrOneFourthWidth

fun parity_code :: "uart_parity_mode_t \<Rightarrow> u8" where
  "parity_code kUartParityDisabled = 0"
| "parity_code kUartParityEven = 2"
| "parity_code kUartParityOdd = 3"

fun pulsewidth_code :: "uart_ir_tx_pulsewidth_t \<Rightarrow> u8" where
  "pulsewidth_code kUartIrThreeSixteenthsWidth = 0"
| "pulsewidth_code kUartIrOneSixteenthWidth = 1"
| "pulsewidth_code kUartIrOneThirtysecondsWidth = 2"
| "pulsewidth_code kUartIrOneFourthWidth = 3"

datatype uart_status_flag_t = kUartTxDataRegEmpty | kUartTxComplete | kUartRxDataRegFull
  | kUartIdleLineDetect | kUartRxOverrun | kUartNoiseDetect | kUartFrameErr | kUartParityErr
  | kUartLineBreakDetect | kUartRxActiveEdgeDetect | kUartRxActive
  | kUartNoiseInCurrentWord | kUartParityErrInCurrentWord
  | kUartTxBuffEmpty | kUartRxBuffEmpty | kUartTxBuffOverflow | kUartRxBuffUnderflow

text \<open>\<open>reg << UART_SHIFT | bit\<close>\<close>

fun flag_code :: "uart_status_flag_t \<Rightarrow> u32" where
  "flag_code kUartTxDataRegEmpty = 0x007"
| "flag_code kUartTxComplete = 0x006"
| "flag_code kUartRxDataRegFull = 0x005"
| "flag_code kUartIdleLineDetect = 0x004"
| "flag_code kUartRxOverrun = 0x003"
| "flag_code kUartNoiseDetect = 0x002"
| "flag_code kUartFrameErr = 0x001"
| "flag_code kUartParityErr = 0x000"
| "flag_code kUartLineBreakDetect = 0x107"
| "flag_code kUartRxActiveEdgeDetect = 0x106"
| "flag_code kUartRxActive = 0x100"
| "flag_code kUartNoiseInCurrentWord = 0x207"
| "flag_code kUartParityErrInCurrentWord = 0x206"
| "flag_code kUartTxBuffEmpty = 0x307"
| "flag_code kUartRxBuffEmpty = 0x306"
| "flag_code kUartTxBuffOverflow = 0x301"
| "flag_code kUartRxBuffUnderflow = 0x300"

datatype uart_interrupt_t = kUartIntLinBreakDetect | kUartIntRxActiveEdge
  | kUartIntTxDataRegEmpty | kUartIntTxComplete | kUartIntRxDataRegFull | kUartIntIdleLine
  | kUartIntRxOverrun | kUartIntNoiseErrFlag | kUartIntFrameErrFlag | kUartIntParityErrFlag
  | kUartIntTxFifoOverflow | kUartIntRxFifoUnderflow

fun int_code :: "uart_interrupt_t \<Rightarrow> u32" where
  "int_code kUartIntLinBreakDetect = 0x007"
| "int_code kUartIntRxActiveEdge = 0x006"
| "int_code kUartIntTxDataRegEmpty = 0x107"
| "int_code kUartIntTxComplete = 0x106"
| "int_code kUartIntRxDataRegFull = 0x105"
| "int_code kUartIntIdleLine = 0x104"
| "int_code kUartIntRxOverrun = 0x203"
| "int_code kUartIntNoiseErrFlag = 0x202"
| "int_code kUartIntFrameErrFlag = 0x201"
| "int_code kUartIntParityErrFlag = 0x200"
| "int_code kUartIntTxFifoOverflow = 0x301"
| "int_code kUartIntRxFifoUnderflow = 0x300"

text \<open>\<open>(uint32_t)code >> UART_SHIFT\<close> and \<open>(uint8_t)code\<close>.\<close>

definition code_reg :: "u32 \<Rightarrow> nat" where "code_reg c = unat (ucast (drop_bit 8 c) :: u8)"
definition code_bit :: "u32 \<Rightarrow> nat" where "code_bit c = unat (ucast c :: u8)"

section \<open>Initialisation and line settings\<close>

definition UART_HAL_Init :: "'h uart_hw \<Rightarrow> 'h \<Rightarrow> 'h" where
  "UART_HAL_Init H h = (
     let h = reg_wr H R_BDH 0 h; h = reg_wr H R_BDL 4 h; h = reg_wr H R_C1 0 h;
         h = reg_wr H R_C2 0 h; h = reg_wr H R_S2 0 h; h = reg_wr H R_C3 0 h;
         h = reg_wr H R_D 0 h; h = reg_wr H R_MA1 0 h; h = reg_wr H R_MA2 0 h;
         h = reg_wr H R_C4 0 h; h = reg_wr H R_MODEM 0 h; h = reg_wr H R_IR 0 h;
         h = reg_wr H R_PFIFO 0 h; h = reg_wr H R_CFIFO 0 h; h = reg_wr H R_SFIFO 0xC0 h;
         h = reg_wr H R_TWFIFO 0 h
     in reg_wr H R_RWFIFO 1 h)"

definition UART_HAL_EnableTransmitter :: "'h uart_hw \<Rightarrow> 'h \<Rightarrow> 'h" where
  "UART_HAL_EnableTransmitter H = BW H R_C2 3 True"

definition UART_HAL_DisableTransmitter :: "'h uart_hw \<Rightarrow> 'h \<Rightarrow> 'h" where
  "UART_HAL_DisableTransmitter H = BW H R_C2 3 False"

definition UART_HAL_IsTransmitterEnabled :: "'h uart_hw \<Rightarrow> 'h \<Rightarrow> bool \<times> 'h" where
  "UART_HAL_IsTransmitterEnabled H = BR H R_C2 3"

definition UART_HAL_EnableReceiver :: "'h uart_hw \<Rightarrow> 'h \<Rightarrow> 'h" where
  "UART_HAL_EnableReceiver H = BW H R_C2 2 True"

definition UART_HAL_DisableReceiver :: "'h uart_hw \<Rightarrow> 'h \<Rightarrow> 'h" where
  "UART_HAL_DisableReceiver H = BW H R_C2 2 False"

definition UART_HAL_IsReceiverEnabled :: "'h uart_hw \<Rightarrow> 'h \<Rightarrow> bool \<times> 'h" where
  "UART_HAL_IsReceiverEnabled H = BR H R_C2 2"

text \<open>
  \<open>sbr\<close> and \<open>brfa\<close> are 16-bit variables: the quotient is cut before its range is checked. A
  divisor \<open>baudRate * 16\<close> of 0 is a division by zero.
\<close>

definition UART_HAL_SetBaudRate :: "'h uart_hw \<Rightarrow> u32 \<Rightarrow> u32 \<Rightarrow> 'h \<Rightarrow> (uart_status_t \<times> 'h) option" where
  "UART_HAL_SetBaudRate H sourceClockInHz baudRate h = do {
     c_assert (baudRate * 16 \<noteq> 0);
     let sbr = (ucast (sourceClockInHz div (baudRate * 16)) :: u16);
     if sbr > 0x1FFF \<or> sbr < 1 then Some (kStatus_UART_BaudRateCalculationError, h)
     else
       let h = BW_field H R_BDH 0x1F (ucast (drop_bit 8 sbr)) h;
           h = reg_wr H R_BDL (ucast sbr) h;
           brfa = (ucast (32 * sourceClockInHz div (baudRate * 16) - 32 * ucast sbr) :: u16);
           h = BW_field H R_C4 0x1F (ucast brfa) h
       in Some (kStatus_UART_Success, h) }"

definition UART_HAL_SetBaudRateDivisor :: "'h uart_hw \<Rightarrow> u16 \<Rightarrow> 'h \<Rightarrow> 'h option" where
  "UART_HAL_SetBaudRateDivisor H baudRateDivisor h = do {
     c_assert (baudRateDivisor < 0x1FFF \<and> baudRateDivisor > 1);
     let h = BW_field H R_BDH 0x1F (ucast (drop_bit 8 baudRateDivisor)) h;
     Some (reg_wr H R_BDL (ucast baudRateDivisor) h) }"

definition UART_HAL_SetBaudRateFineAdjust :: "'h uart_hw \<Rightarrow> u8 \<Rightarrow> 'h \<Rightarrow> 'h option" where
  "UART_HAL_SetBaudRateFineAdjust H baudFineAdjust h = do {
     c_assert (baudFineAdjust < 0x1F);
     Some (BW_field H R_C4 0x1F baudFineAdjust h) }"

definition UART_HAL_SetBitCountPerChar :: "'h uart_hw \<Rightarrow> uart_bit_count_per_char_t \<Rightarrow> 'h \<Rightarrow> 'h" where
  "UART_HAL_SetBitCountPerChar H bitCountPerChar = BW H R_C1 4 (bitCountPerChar = kUart9BitsPerChar)"

definition UART_HAL_SetParityMode :: "'h uart_hw \<Rightarrow> uart_parity_mode_t \<Rightarrow> 'h \<Rightarrow> 'h" where
  "UART_HAL_SetParityMode H parityMode = HW_SET H R_C1 (parity_code parityMode)"

definition UART_HAL_SetStopBitCount :: "'h uart_hw \<Rightarrow> uart_stop_bit_count_t \<Rightarrow> 'h \<Rightarrow> 'h" where
  "UART_HAL_SetStopBitCount H stopBitCount = BW H R_BDH 5 (stopBitCount = kUartTwoStopBit)"

definition UART_HAL_SetTxRxInversionCmd :: "'h uart_hw \<Rightarrow> bool \<Rightarrow> bool \<Rightarrow> 'h \<Rightarrow> 'h" where
  "UART_HAL_SetTxRxInversionCmd H rxInvertEnable txInvertEnable h =
     BW H R_C3 4 txInvertEnable (BW H R_S2 4 rxInvertEnable h)"

section \<open>Data transfer\<close>

definition UART_HAL_Putchar :: "'h uart_hw \<Rightarrow> u8 \<Rightarrow> 'h \<Rightarrow> 'h" where
  "UART_HAL_Putchar H data h = (let (_, h) = reg_rd H R_S1 h in reg_wr H R_D data h)"

definition UART_HAL_Putchar9 :: "'h uart_hw \<Rightarrow> u16 \<Rightarrow> 'h \<Rightarrow> 'h" where
  "UART_HAL_Putchar9 H data h = (
     let h = BW H R_C3 6 (bit data 8) h; (_, h) = reg_rd H R_S1 h in reg_wr H R_D (ucast data) h)"

definition UART_HAL_Getchar :: "'h uart_hw \<Rightarrow> 'h \<Rightarrow> u8 \<times> 'h" where
  "UART_HAL_Getchar H h = (let (_, h) = reg_rd H R_S1 h in reg_rd H R_D h)"

definition UART_HAL_Getchar9 :: "'h uart_hw \<Rightarrow> 'h \<Rightarrow> u16 \<times> 'h" where
  "UART_HAL_Getchar9 H h = (
     let (r8, h) = BR H R_C3 7 h; (_, h) = reg_rd H R_S1 h; (d, h) = reg_rd H R_D h
     in (push_bit 8 (of_bool r8) OR ucast d, h))"

definition UART_HAL_GetDataRegAddr :: "u32 \<Rightarrow> u32" where
  "UART_HAL_GetDataRegAddr baseAddr = baseAddr + 7"

section \<open>Interrupts and DMA requests\<close>

definition UART_HAL_SetIntMode :: "'h uart_hw \<Rightarrow> uart_interrupt_t \<Rightarrow> bool \<Rightarrow> 'h \<Rightarrow> 'h" where
  "UART_HAL_SetIntMode H interrupt enable h = (
     let reg = code_reg (int_code interrupt);
         temp = ucast (push_bit (code_bit (int_code interrupt)) (1 :: u32));
         op = (if enable then HW_SET else HW_CLR)
     in if reg = 0 then op H R_BDH temp h
        else if reg = 1 then op H R_C2 temp h
        else if reg = 2 then op H R_C3 temp h
        else if reg = 3 then op H R_CFIFO temp h
        else h)"

definition read_flag :: "'h uart_hw \<Rightarrow> uart_reg \<Rightarrow> nat \<Rightarrow> 'h \<Rightarrow> bool \<times> 'h" where
  "read_flag H r n h = (let (x, h) = reg_rd H r h in (drop_bit n x AND 1 \<noteq> 0, h))"

definition UART_HAL_GetIntMode :: "'h uart_hw \<Rightarrow> uart_interrupt_t \<Rightarrow> 'h \<Rightarrow> bool \<times> 'h" where
  "UART_HAL_GetIntMode H interrupt h = (
     let reg = code_reg (int_code interrupt); n = code_bit (int_code interrupt)
     in if reg = 0 then read_flag H R_BDH n h
        else if reg = 1 then read_flag H R_C2 n h
        else if reg = 2 then read_flag H R_C3 n h
        else if reg = 3 then read_flag H R_CFIFO n h
        else (False, h))"

definition UART_HAL_SetTxDataRegEmptyIntCmd :: "'h uart_hw \<Rightarrow> bool \<Rightarrow> 'h \<Rightarrow> 'h" where
  "UART_HAL_SetTxDataRegEmptyIntCmd H enable = BW H R_C2 7 enable"

definition UART_HAL_GetTxDataRegEmptyIntCmd :: "'h uart_hw \<Rightarrow> 'h \<Rightarrow> bool \<times> 'h" where
  "UART_HAL_GetTxDataRegEmptyIntCmd H = BR H R_C2 7"

definition UART_HAL_SetRxDataRegFullIntCmd :: "'h uart_hw \<Rightarrow> bool \<Rightarrow> 'h \<Rightarrow> 'h" where
  "UART_HAL_SetRxDataRegFullIntCmd H enable = BW H R_C2 5 enable"

definition UART_HAL_GetRxDataRegFullIntCmd :: "'h uart_hw \<Rightarrow> 'h \<Rightarrow> bool \<times> 'h" where
  "UART_HAL_GetRxDataRegFullIntCmd H = BR H R_C2 5"

definition UART_HAL_ConfigureDma :: "'h uart_hw \<Rightarrow> bool \<Rightarrow> bool \<Rightarrow> 'h \<Rightarrow> 'h" where
  "UART_HAL_ConfigureDma H txDmaConfig rxDmaConfig h = (
     let h = (if txDmaConfig then BW H R_C2 7 True (BW H R_C2 6 False (BW H R_C5 7 True h))
              else BW H R_C5 7 False (BW H R_C2 7 False h))
     in if rxDmaConfig then BW H R_C2 5 True (BW H R_C5 5 True h)
        else BW H R_C5 5 False (BW H R_C2 5 False h))"

definition UART_HAL_IsTxdmaEnabled :: "'h uart_hw \<Rightarrow> 'h \<Rightarrow> bool \<times> 'h" where
  "UART_HAL_IsTxdmaEnabled H h = (
     let (tcie, h) = BR H R_C2 6 h; (tdmas, h) = BR H R_C5 7 h
     in if tdmas then (let (tie, h) = BR H R_C2 7 h in (tie \<and> \<not> tcie, h)) else (False, h))"

definition UART_HAL_IsRxdmaEnabled :: "'h uart_hw \<Rightarrow> 'h \<Rightarrow> bool \<times> 'h" where
  "UART_HAL_IsRxdmaEnabled H h = (
     let (rdmas, h) = BR H R_C5 5 h in if rdmas then BR H R_C2 5 h else (False, h))"

section \<open>Modes\<close>

definition UART_HAL_SetBit10AsParitybit :: "'h uart_hw \<Rightarrow> bool \<Rightarrow> 'h \<Rightarrow> 'h" where
  "UART_HAL_SetBit10AsParitybit H enable = BW H R_C4 5 enable"

definition UART_HAL_IsBit10SetAsParitybit :: "'h uart_hw \<Rightarrow> 'h \<Rightarrow> bool \<times> 'h" where
  "UART_HAL_IsBit10SetAsParitybit H = BR H R_C4 5"

definition UART_HAL_IsCurrentDatawordReceivedWithNoise :: "'h uart_hw \<Rightarrow> 'h \<Rightarrow> bool \<times> 'h" where
  "UART_HAL_IsCurrentDatawordReceivedWithNoise H = BR H R_ED 7"

definition UART_HAL_IsCurrentDatawordReceivedWithParityerror :: "'h uart_hw \<Rightarrow> 'h \<Rightarrow> bool \<times> 'h" where
  "UART_HAL_IsCurrentDatawordReceivedWithParityerror H = BR H R_ED 6"

definition UART_HAL_SetWaitModeOperation :: "'h uart_hw \<Rightarrow> uart_operation_config_t \<Rightarrow> 'h \<Rightarrow> 'h" where
  "UART_HAL_SetWaitModeOperation H mode = BW H R_C1 6 (mode = kUartStops)"

definition UART_HAL_GetWaitModeOperation :: "'h uart_hw \<Rightarrow> 'h \<Rightarrow> uart_operation_config_t \<times> 'h" where
  "UART_HAL_GetWaitModeOperation H h =
     (let (b, h) = BR H R_C1 6 h in (if b then kUartStops else kUartOperates, h))"

definition UART_HAL_SetLoopCmd :: "'h uart_hw \<Rightarrow> bool \<Rightarrow> 'h \<Rightarrow> 'h" where
  "UART_HAL_SetLoopCmd H enable = BW H R_C1 7 enable"

definition UART_HAL_SetReceiverSource :: "'h uart_hw \<Rightarrow> uart_receiver_source_t \<Rightarrow> 'h \<Rightarrow> 'h" where
  "UART_HAL_SetReceiverSource H source = BW H R_C1 5 (source = kUartSingleWire)"

definition UART_HAL_SetTransmitterDir :: "'h uart_hw \<Rightarrow> uart_singlewire_txdir_t \<Rightarrow> 'h \<Rightarrow> 'h" where
  "UART_HAL_SetTransmitterDir H direction = BW H R_C3 5 (direction = kUartSinglewireTxdirOut)"

definition UART_HAL_PutReceiverInNormalMode :: "'h uart_hw \<Rightarrow> 'h \<Rightarrow> 'h" where
  "UART_HAL_PutReceiverInNormalMode H = HW_CLR H R_C2 0x02"

definition UART_HAL_IsReceiverInStandby :: "'h uart_hw \<Rightarrow> 'h \<Rightarrow> bool \<times> 'h" where
  "UART_HAL_IsReceiverInStandby H = BR H R_C2 1"

definition UART_HAL_SetReceiverWakeupMethod :: "'h uart_hw \<Rightarrow> uart_wakeup_method_t \<Rightarrow> 'h \<Rightarrow> 'h" where
  "UART_HAL_SetReceiverWakeupMethod H meth = BW H R_C1 3 (meth = kUartAddrMarkWake)"

definition UART_HAL_GetReceiverWakeupMethod :: "'h uart_hw \<Rightarrow> 'h \<Rightarrow> uart_wakeup_method_t \<times> 'h" where
  "UART_HAL_GetReceiverWakeupMethod H h =
     (let (b, h) = BR H R_C1 3 h in (if b then kUartAddrMarkWake else kUartIdleLineWake, h))"

definition UART_HAL_SetBreakCharTransmitLength :: "'h uart_hw \<Rightarrow> uart_break_char_length_t \<Rightarrow> 'h \<Rightarrow> 'h" where
  "UART_HAL_SetBreakCharTransmitLength H len = BW H R_S2 2 (len = kUartBreakChar13BitMinimum)"

definition UART_HAL_SetBreakCharDetectLength :: "'h uart_hw \<Rightarrow> uart_break_char_length_t \<Rightarrow> 'h \<Rightarrow> 'h" where
  "UART_HAL_SetBreakCharDetectLength H len = BW H R_S2 1 (len = kUartBreakChar13BitMinimum)"

definition UART_HAL_SetBreakCharCmd :: "'h uart_hw \<Rightarrow> bool \<Rightarrow> 'h \<Rightarrow> 'h" where
  "UART_HAL_SetBreakCharCmd H enable = BW H R_C2 0 enable"

definition UART_HAL_SetSendMsbFirstCmd :: "'h uart_hw \<Rightarrow> bool \<Rightarrow> 'h \<Rightarrow> 'h" where
  "UART_HAL_SetSendMsbFirstCmd H enable = BW H R_S2 5 enable"

definition UART_HAL_SetReceiverRtsCmd :: "'h uart_hw \<Rightarrow> bool \<Rightarrow> 'h \<Rightarrow> 'h" where
  "UART_HAL_SetReceiverRtsCmd H enable = BW H R_MODEM 3 enable"

definition UART_HAL_SetTransmitterRtsCmd :: "'h uart_hw \<Rightarrow> bool \<Rightarrow> 'h \<Rightarrow> 'h" where
  "UART_HAL_SetTransmitterRtsCmd H enable = BW H R_MODEM 1 enable"

definition UART_HAL_SetTransmitterRtsPolarityMode :: "'h uart_hw \<Rightarrow> bool \<Rightarrow> 'h \<Rightarrow> 'h" where
  "UART_HAL_SetTransmitterRtsPolarityMode H polarity = BW H R_MODEM 2 polarity"

definition UART_HAL_SetTransmitterCtsCmd :: "'h uart_hw \<Rightarrow> bool \<Rightarrow> 'h \<Rightarrow> 'h" where
  "UART_HAL_SetTransmitterCtsCmd H enable = BW H R_MODEM 0 enable"

definition UART_HAL_ConfigIdleLineDetect :: "'h uart_hw \<Rightarrow> u8 \<Rightarrow> u8 \<Rightarrow> 'h \<Rightarrow> 'h" where
  "UART_HAL_ConfigIdleLineDetect H idleLine rxWakeIdleDetect h =
     BW H R_S2 3 (bit rxWakeIdleDetect 0) (BW H R_C1 2 (bit idleLine 0) h)"

definition UART_HAL_SetMatchAddress :: "'h uart_hw \<Rightarrow> bool \<Rightarrow> bool \<Rightarrow> u8 \<Rightarrow> u8 \<Rightarrow> 'h \<Rightarrow> 'h" where
  "UART_HAL_SetMatchAddress H matchAddrMode1 matchAddrMode2 matchAddrValue1 matchAddrValue2 h = (
     let h = BW H R_C4 7 matchAddrMode1 h; h = BW H R_C4 6 matchAddrMode2 h;
         h = reg_wr H R_MA1 matchAddrValue1 h
     in reg_wr H R_MA2 matchAddrValue2 h)"

definition UART_HAL_SetInfraredOperation :: "'h uart_hw \<Rightarrow> bool \<Rightarrow> uart_ir_tx_pulsewidth_t \<Rightarrow> 'h \<Rightarrow> 'h" where
  "UART_HAL_SetInfraredOperation H enable pulseWidth h =
     BW_field H R_IR 0x03 (pulsewidth_code pulseWidth) (BW H R_IR 2 enable h)"

section \<open>Status flags\<close>

definition UART_HAL_GetStatusFlag :: "'h uart_hw \<Rightarrow> uart_status_flag_t \<Rightarrow> 'h \<Rightarrow> bool \<times> 'h" where
  "UART_HAL_GetStatusFlag H statusFlag h = (
     let reg = code_reg (flag_code statusFlag); n = code_bit (flag_code statusFlag)
     in if reg = 0 then read_flag H R_S1 n h
        else if reg = 1 then read_flag H R_S2 n h
        else if reg = 2 then read_flag H R_ED n h
        else if reg = 3 then read_flag H R_SFIFO n h
        else (False, h))"

definition UART_HAL_IsTxDataRegEmpty :: "'h uart_hw \<Rightarrow> 'h \<Rightarrow> bool \<times> 'h" where
  "UART_HAL_IsTxDataRegEmpty H = BR H R_S1 7"

definition UART_HAL_IsTxComplete :: "'h uart_hw \<Rightarrow> 'h \<Rightarrow> bool \<times> 'h" where
  "UART_HAL_IsTxComplete H = BR H R_S1 6"

definition UART_HAL_IsRxDataRegFull :: "'h uart_hw \<Rightarrow> 'h \<Rightarrow> bool \<times> 'h" where
  "UART_HAL_IsRxDataRegFull H = BR H R_S1 5"

text \<open>The two steps that clear a flag of \<open>S1\<close>: read \<open>S1\<close>, then the data register.\<close>

definition read_S1_D :: "'h uart_hw \<Rightarrow> 'h \<Rightarrow> 'h" where
  "read_S1_D H h = (let (_, h) = reg_rd H R_S1 h; (_, h) = reg_rd H R_D h in h)"

fun UART_HAL_ClearStatusFlag :: "'h uart_hw \<Rightarrow> uart_status_flag_t \<Rightarrow> 'h \<Rightarrow> uart_status_t \<times> 'h" where
  "UART_HAL_ClearStatusFlag H kUartTxDataRegEmpty h = (kStatus_UART_ClearStatusFlagError, h)"
| "UART_HAL_ClearStatusFlag H kUartTxComplete h = (kStatus_UART_ClearStatusFlagError, h)"
| "UART_HAL_ClearStatusFlag H kUartRxDataRegFull h = (kStatus_UART_ClearStatusFlagError, h)"
| "UART_HAL_ClearStatusFlag H kUartIdleLineDetect h = (kStatus_UART_Success, read_S1_D H h)"
| "UART_HAL_ClearStatusFlag H kUartRxOverrun h = (kStatus_UART_Success, read_S1_D H h)"
| "UART_HAL_ClearStatusFlag H kUartNoiseDetect h = (kStatus_UART_Success, read_S1_D H h)"
| "UART_HAL_ClearStatusFlag H kUartFrameErr h = (kStatus_UART_Success, read_S1_D H h)"
| "UART_HAL_ClearStatusFlag H kUartParityErr h = (kStatus_UART_Success, read_S1_D H h)"
| "UART_HAL_ClearStatusFlag H kUartLineBreakDetect h = (kStatus_UART_Success, HW_SET H R_S2 0x80 h)"
| "UART_HAL_ClearStatusFlag H kUartRxActiveEdgeDetect h = (kStatus_UART_Success, HW_SET H R_S2 0x40 h)"
| "UART_HAL_ClearStatusFlag H kUartRxActive h = (kStatus_UART_ClearStatusFlagError, h)"
| "UART_HAL_ClearStatusFlag H kUartNoiseInCurrentWord h = (kStatus_UART_ClearStatusFlagError, h)"
| "UART_HAL_ClearStatusFlag H kUartParityErrInCurrentWord h = (kStatus_UART_ClearStatusFlagError, h)"
| "UART_HAL_ClearStatusFlag H kUartTxBuffEmpty h = (kStatus_UART_ClearStatusFlagError, h)"
| "UART_HAL_ClearStatusFlag H kUartRxBuffEmpty h = (kStatus_UART_ClearStatusFlagError, h)"
| "UART_HAL_ClearStatusFlag H kUartTxBuffOverflow h = (kStatus_UART_Success, HW_SET H R_SFIFO 0x02 h)"
| "UART_HAL_ClearStatusFlag H kUartRxBuffUnderflow h = (kStatus_UART_Success, HW_SET H R_SFIFO 0x01 h)"

definition UART_HAL_ClearAllNonAutoclearStatusFlags :: "'h uart_hw \<Rightarrow> 'h \<Rightarrow> 'h" where
  "UART_HAL_ClearAllNonAutoclearStatusFlags H h = (
     let clear = (\<lambda>f h. snd (UART_HAL_ClearStatusFlag H f h));
         h = clear kUartIdleLineDetect h; h = clear kUartRxOverrun h;
         h = clear kUartNoiseDetect h; h = clear kUartFrameErr h; h = clear kUartParityErr h;
         h = clear kUartLineBreakDetect h; h = clear kUartRxActiveEdgeDetect h;
         h = clear kUartTxBuffOverflow h
     in clear kUartRxBuffUnderflow h)"

definition UART_HAL_PutReceiverInStandbyMode :: "'h uart_hw \<Rightarrow> 'h \<Rightarrow> uart_status_t \<times> 'h" where
  "UART_HAL_PutReceiverInStandbyMode H h = (
     let (rxWakeMethod, h) = UART_HAL_GetReceiverWakeupMethod H h;
         (uart_current_rx_state, h) = UART_HAL_GetStatusFlag H kUartRxActive h
     in if rxWakeMethod = kUartIdleLineWake \<and> \<not> uart_current_rx_state
        then (kStatus_UART_RxStandbyModeError, h)
        else (kStatus_UART_Success, HW_SET H R_C2 0x02 h))"

section \<open>FIFOs\<close>

definition UART_HAL_SetTxFifoCmd :: "'h uart_hw \<Rightarrow> bool \<Rightarrow> 'h \<Rightarrow> uart_status_t \<times> 'h" where
  "UART_HAL_SetTxFifoCmd H enable h = (
     let (txEnable, h) = BR H R_C2 3 h; (rxEnable, h) = BR H R_C2 2 h
     in if txEnable \<or> rxEnable then (kStatus_UART_TxOrRxNotDisabled, h)
        else (kStatus_UART_Success, BW H R_PFIFO 7 enable h))"

definition UART_HAL_SetRxFifoCmd :: "'h uart_hw \<Rightarrow> bool \<Rightarrow> 'h \<Rightarrow> uart_status_t \<times> 'h" where
  "UART_HAL_SetRxFifoCmd H enable h = (
     let (txEnable, h) = BR H R_C2 3 h; (rxEnable, h) = BR H R_C2 2 h
     in if txEnable \<or> rxEnable then (kStatus_UART_TxOrRxNotDisabled, h)
        else (kStatus_UART_Success, BW H R_PFIFO 3 enable h))"

definition UART_HAL_GetTxFifoSize :: "'h uart_hw \<Rightarrow> 'h \<Rightarrow> u8 \<times> 'h" where
  "UART_HAL_GetTxFifoSize H h = (let (x, h) = reg_rd H R_PFIFO h in (drop_bit 4 x AND 7, h))"

definition UART_HAL_GetRxFifoSize :: "'h uart_hw \<Rightarrow> 'h \<Rightarrow> u8 \<times> 'h" where
  "UART_HAL_GetRxFifoSize H h = (let (x, h) = reg_rd H R_PFIFO h in (x AND 7, h))"

definition UART_HAL_FlushTxFifo :: "'h uart_hw \<Rightarrow> 'h \<Rightarrow> uart_status_t \<times> 'h" where
  "UART_HAL_FlushTxFifo H h = (
     let (te, h) = BR H R_C2 3 h
     in if te then (kStatus_UART_TxNotDisabled, h) else (kStatus_UART_Success, BW H R_CFIFO 7 True h))"

definition UART_HAL_FlushRxFifo :: "'h uart_hw \<Rightarrow> 'h \<Rightarrow> uart_status_t \<times> 'h" where
  "UART_HAL_FlushRxFifo H h = (
     let (re, h) = BR H R_C2 2 h
     in if re then (kStatus_UART_RxNotDisabled, h) else (kStatus_UART_Success, BW H R_CFIFO 6 True h))"

definition UART_HAL_IsTxFifoEmpty :: "'h uart_hw \<Rightarrow> 'h \<Rightarrow> bool \<times> 'h" where
  "UART_HAL_IsTxFifoEmpty H = BR H R_SFIFO 7"

definition UART_HAL_IsRxFifoEmpty :: "'h uart_hw \<Rightarrow> 'h \<Rightarrow> bool \<times> 'h" where
  "UART_HAL_IsRxFifoEmpty H = BR H R_SFIFO 6"

definition UART_HAL_SetTxFifoWatermark :: "'h uart_hw \<Rightarrow> u8 \<Rightarrow> 'h \<Rightarrow> uart_status_t \<times> 'h" where
  "UART_HAL_SetTxFifoWatermark H watermark h = (
     let (te, h) = BR H R_C2 3 h
     in if te then (kStatus_UART_TxNotDisabled, h) else (kStatus_UART_Success, reg_wr H R_TWFIFO watermark h))"

definition UART_HAL_SetRxFifoWatermark :: "'h uart_hw \<Rightarrow> u8 \<Rightarrow> 'h \<Rightarrow> uart_status_t \<times> 'h" where
  "UART_HAL_SetRxFifoWatermark H watermark h = (
     let (re, h) = BR H R_C2 2 h
     in if re then (kStatus_UART_RxNotDisabled, h) else (kStatus_UART_Success, reg_wr H R_RWFIFO watermark h))"

definition UART_HAL_GetTxFifoWatermark :: "'h uart_hw \<Rightarrow> 'h \<Rightarrow> u8 \<times> 'h" where
  "UART_HAL_GetTxFifoWatermark H = reg_rd H R_TWFIFO"

definition UART_HAL_GetTxDatawordCountInFifo :: "'h uart_hw \<Rightarrow> 'h \<Rightarrow> u8 \<times> 'h" where
  "UART_HAL_GetTxDatawordCountInFifo H = reg_rd H R_TCFIFO"

definition UART_HAL_GetRxDatawordCountInFifo :: "'h uart_hw \<Rightarrow> 'h \<Rightarrow> u8 \<times> 'h" where
  "UART_HAL_GetRxDatawordCountInFifo H = reg_rd H R_RCFIFO"

definition UART_HAL_GetRxFifoWatermark :: "'h uart_hw \<Rightarrow> 'h \<Rightarrow> u8 \<times> 'h" where
  "UART_HAL_GetRxFifoWatermark H = reg_rd H R_RWFIFO"

end
