(* ===== verification/UartDriver.thy ===== *)
theory UartDriver
  imports UartHal
begin

text \<open>
  The UART driver \<open>fsl_uart_driver.c\<close> and the semaphores of the bare metal
  \<open>fsl_os_abstraction_bm.c\<close> it uses, for one instance. The driver's buffers are addresses of
  a byte memory; the receive callback, the clock frequency and what happens while the processor
  waits in a loop are parameters.
\<close>

section \<open>State\<close>

record semaphore =
  semCount :: u8
  isWaiting :: bool
  time_start :: u32
  sem_timeout :: u32

datatype osa_status_t = kStatus_OSA_Success | kStatus_OSA_Error | kStatus_OSA_Timeout | kStatus_OSA_Idle

record uart_state =
  txFifoEntryCount :: u8
  txBuff :: nat
  rxBuff :: nat
  txSize :: u32
  rxSize :: u32
  isTxBusy :: bool
  isRxBusy :: bool
  isTxBlocking :: bool
  isRxBlocking :: bool
  txIrqSync :: semaphore
  rxIrqSync :: semaphore
  rxCallback :: "nat option"
  rxCallbackParam :: nat

record uart_user_config =
  baudRate :: u32
  parityMode :: uart_parity_mode_t
  stopBitCount :: uart_stop_bit_count_t
  bitCountPerChar :: uart_bit_count_per_char_t

text \<open>
  \<open>drv\<close> is the object behind \<open>g_uartStatePtr[instance]\<close>, \<^term>\<open>None\<close> the null pointer;
  \<open>now_ms\<close> is the counter behind \<open>OSA_TimeGetMsec\<close>.
\<close>

record 'h uart_sys =
  hw :: 'h
  ram :: "nat \<Rightarrow> u8 option"
  drv :: "uart_state option"
  uart_gate :: bool
  uart_nvic :: bool
  now_ms :: u32

record 'h uart_env =
  chip :: "'h uart_hw"
  UartFreq :: u32
  rx_call :: "nat \<Rightarrow> nat \<Rightarrow> nat \<Rightarrow> (nat \<Rightarrow> u8 option) \<Rightarrow> uart_status_t \<times> (nat \<Rightarrow> u8 option)"
  elapse :: "'h uart_sys \<Rightarrow> 'h uart_sys option"

definition on_hw :: "('h \<Rightarrow> 'h) \<Rightarrow> 'h uart_sys \<Rightarrow> 'h uart_sys" where
  "on_hw f s = s\<lparr>hw := f (hw s)\<rparr>"

definition from_hw :: "('h \<Rightarrow> 'a \<times> 'h) \<Rightarrow> 'h uart_sys \<Rightarrow> 'a \<times> 'h uart_sys" where
  "from_hw f s = (let (x, h) = f (hw s) in (x, s\<lparr>hw := h\<rparr>))"

definition put_drv :: "uart_state \<Rightarrow> 'h uart_sys \<Rightarrow> 'h uart_sys" where
  "put_drv u s = s\<lparr>drv := Some u\<rparr>"

lemmas [c_def] = on_hw_def from_hw_def put_drv_def

section \<open>Semaphores\<close>

definition OSA_SemaCreate :: "u8 \<Rightarrow> semaphore" where
  "OSA_SemaCreate initValue = \<lparr> semCount = initValue, isWaiting = False, time_start = 0, sem_timeout = 0 \<rparr>"

definition OSA_SemaPost :: "semaphore \<Rightarrow> osa_status_t \<times> semaphore" where
  "OSA_SemaPost sem = (if semCount sem = 0xFF then (kStatus_OSA_Error, sem)
     else (kStatus_OSA_Success, sem\<lparr>semCount := semCount sem + 1\<rparr>))"

definition OSA_WAIT_FOREVER :: u32 where "OSA_WAIT_FOREVER = 0xFFFFFFFF"

text \<open>The millisecond counter has 16 bits.\<close>

definition time_diff :: "u32 \<Rightarrow> u32 \<Rightarrow> u32" where
  "time_diff t_start t_end = (if t_end \<ge> t_start then t_end - t_start else 0xFFFF - t_start + t_end + 1)"

text \<open>\<open>now\<close> is the value \<open>OSA_TimeGetMsec\<close> returns.\<close>

definition OSA_SemaWait :: "u32 \<Rightarrow> u32 \<Rightarrow> semaphore \<Rightarrow> osa_status_t \<times> semaphore" where
  "OSA_SemaWait now timeout sem =
     (if semCount sem \<noteq> 0 then
        (kStatus_OSA_Success, sem\<lparr>semCount := semCount sem - 1, isWaiting := False\<rparr>)
      else if timeout = 0 then (kStatus_OSA_Timeout, sem)
      else if isWaiting sem then
        (if sem_timeout sem < time_diff (time_start sem) now
         then (kStatus_OSA_Timeout, sem\<lparr>isWaiting := False\<rparr>) else (kStatus_OSA_Idle, sem))
      else if timeout \<noteq> OSA_WAIT_FOREVER then
        (kStatus_OSA_Idle, sem\<lparr>isWaiting := True, time_start := now, sem_timeout := timeout\<rparr>)
      else (kStatus_OSA_Idle, sem))"

section \<open>Initialisation\<close>

definition uart_state_zero :: uart_state where
  "uart_state_zero = \<lparr> txFifoEntryCount = 0, txBuff = 0, rxBuff = 0, txSize = 0, rxSize = 0,
     isTxBusy = False, isRxBusy = False, isTxBlocking = False, isRxBlocking = False,
     txIrqSync = OSA_SemaCreate 0, rxIrqSync = OSA_SemaCreate 0, rxCallback = None, rxCallbackParam = 0 \<rparr>"

text \<open>
  \<open>UART_DRV_Init\<close>. The results of the layer below are dropped, that of \<open>UART_HAL_SetBaudRate\<close>
  included. An instance that is in use is initialised again: the early return is commented out.
\<close>

definition UART_DRV_Init :: "'h uart_env \<Rightarrow> uart_user_config \<Rightarrow> 'h uart_sys \<Rightarrow> (uart_status_t \<times> 'h uart_sys) option" where
  "UART_DRV_Init E cfg s = (
     let H = chip E; s = s\<lparr>drv := Some uart_state_zero, uart_gate := True\<rparr>;
         s = on_hw (UART_HAL_Init H) s;
         u = uart_state_zero\<lparr>txIrqSync := OSA_SemaCreate 0, rxIrqSync := OSA_SemaCreate 0\<rparr>
     in do {
       (_, h) \<leftarrow> UART_HAL_SetBaudRate H (UartFreq E) (baudRate cfg) (hw s);
       let s = s\<lparr>hw := h\<rparr>;
       let s = on_hw (UART_HAL_SetBitCountPerChar H (bitCountPerChar cfg)) s;
       let s = on_hw (UART_HAL_SetParityMode H (parityMode cfg)) s;
       let s = on_hw (UART_HAL_SetStopBitCount H (stopBitCount cfg)) s;
       let (fifoSize, s) = from_hw (UART_HAL_GetTxFifoSize H) s;
       let n = (if fifoSize = 0 then 1 else push_bit (unat (fifoSize + 1)) 1);
       let s = put_drv (u\<lparr>txFifoEntryCount := n\<rparr>) s;
       let (_, s) = from_hw (UART_HAL_SetTxFifoWatermark H (if n > 1 then drop_bit 1 n else 0)) s;
       let (_, s) = from_hw (UART_HAL_SetRxFifoWatermark H 1) s;
       let (_, s) = from_hw (UART_HAL_SetTxFifoCmd H True) s;
       let (_, s) = from_hw (UART_HAL_SetRxFifoCmd H True) s;
       let (_, s) = from_hw (UART_HAL_FlushTxFifo H) s;
       let (_, s) = from_hw (UART_HAL_FlushRxFifo H) s;
       let s = s\<lparr>uart_nvic := True\<rparr>;
       let s = on_hw (UART_HAL_EnableTransmitter H) s;
       let s = on_hw (UART_HAL_EnableReceiver H) s;
       Some (kStatus_UART_Success, s) })"

text \<open>
  The waiting loops: \<open>elapse\<close> is what happens between two polls (the hardware, interrupts).
\<close>

partial_function (option) wait_tx_fifo :: "'h uart_env \<Rightarrow> 'h uart_sys \<Rightarrow> 'h uart_sys option" where
  "wait_tx_fifo E s = (case from_hw (UART_HAL_GetTxDatawordCountInFifo (chip E)) s of (n, s) \<Rightarrow>
     if n \<noteq> 0 then Option.bind (elapse E s) (wait_tx_fifo E) else Some s)"

partial_function (option) wait_tx_complete :: "'h uart_env \<Rightarrow> 'h uart_sys \<Rightarrow> 'h uart_sys option" where
  "wait_tx_complete E s = (case from_hw (UART_HAL_IsTxComplete (chip E)) s of (tc, s) \<Rightarrow>
     if \<not> tc then Option.bind (elapse E s) (wait_tx_complete E) else Some s)"

definition UART_DRV_Deinit :: "'h uart_env \<Rightarrow> 'h uart_sys \<Rightarrow> 'h uart_sys option" where
  "UART_DRV_Deinit E s = (let H = chip E in do {
     s \<leftarrow> wait_tx_fifo E s;
     s \<leftarrow> wait_tx_complete E s;
     let s = s\<lparr>uart_nvic := False\<rparr>;
     let s = on_hw (UART_HAL_DisableTransmitter H) s;
     let s = on_hw (UART_HAL_DisableReceiver H) s;
     let (_, s) = from_hw (UART_HAL_SetTxFifoCmd H False) s;
     let (_, s) = from_hw (UART_HAL_SetRxFifoCmd H False) s;
     let (_, s) = from_hw (UART_HAL_FlushTxFifo H) s;
     let (_, s) = from_hw (UART_HAL_FlushRxFifo H) s;
     Some (s\<lparr>drv := None, uart_gate := False\<rparr>) })"

definition UART_DRV_InstallRxCallback ::
  "nat option \<Rightarrow> nat \<Rightarrow> 'h uart_sys \<Rightarrow> (nat option \<times> 'h uart_sys) option" where
  "UART_DRV_InstallRxCallback f callbackParam s = do {
     u \<leftarrow> drv s;
     Some (rxCallback u, put_drv (u\<lparr>rxCallback := f, rxCallbackParam := callbackParam\<rparr>) s) }"

section \<open>Sending\<close>

definition UART_DRV_CompleteSendData :: "'h uart_env \<Rightarrow> 'h uart_sys \<Rightarrow> 'h uart_sys option" where
  "UART_DRV_CompleteSendData E s = do {
     u \<leftarrow> drv s;
     let s = on_hw (UART_HAL_SetTxDataRegEmptyIntCmd (chip E) False) s;
     let u = (if isTxBlocking u then u\<lparr>txIrqSync := snd (OSA_SemaPost (txIrqSync u))\<rparr> else u);
     Some (put_drv (u\<lparr>isTxBusy := False\<rparr>) s) }"

text \<open>
  The loop \<open>while(emptyEntryCountInFifo--)\<close> of \<open>UART_DRV_StartSendData\<close> and of the interrupt
  handler; the first component says that the transfer completed in it.
\<close>

fun tx_fill :: "'h uart_env \<Rightarrow> nat \<Rightarrow> 'h uart_sys \<Rightarrow> (bool \<times> 'h uart_sys) option" where
  "tx_fill E 0 s = Some (False, s)"
| "tx_fill E (Suc n) s = do {
     u \<leftarrow> drv s;
     b \<leftarrow> ram s (txBuff u);
     let s = on_hw (UART_HAL_Putchar (chip E) b) s;
     let u = u\<lparr>txBuff := txBuff u + 1, txSize := txSize u - 1\<rparr>;
     let s = put_drv u s;
     if txSize u = 0 then do { s \<leftarrow> UART_DRV_CompleteSendData E s; Some (True, s) }
     else tx_fill E n s }"

definition UART_DRV_StartSendData ::
  "'h uart_env \<Rightarrow> nat \<Rightarrow> u32 \<Rightarrow> 'h uart_sys \<Rightarrow> (uart_status_t \<times> 'h uart_sys) option" where
  "UART_DRV_StartSendData E buf len s = do {
     u \<leftarrow> drv s;
     if isTxBusy u then Some (kStatus_UART_TxBusy, s)
     else do {
       let u = u\<lparr>txBuff := buf, txSize := len, isTxBusy := True\<rparr>;
       let s = put_drv u s;
       let (cnt, s) = from_hw (UART_HAL_GetTxDatawordCountInFifo (chip E)) s;
       (done, s) \<leftarrow> tx_fill E (unat (txFifoEntryCount u - cnt)) s;
       if done then Some (kStatus_UART_Success, s)
       else Some (kStatus_UART_Success, on_hw (UART_HAL_SetTxDataRegEmptyIntCmd (chip E) True) s) } }"

definition UART_DRV_AbortSendingData :: "'h uart_env \<Rightarrow> 'h uart_sys \<Rightarrow> (uart_status_t \<times> 'h uart_sys) option" where
  "UART_DRV_AbortSendingData E s = do {
     u \<leftarrow> drv s;
     if \<not> isTxBusy u then Some (kStatus_UART_NoTransmitInProgress, s)
     else do { s \<leftarrow> UART_DRV_CompleteSendData E s; Some (kStatus_UART_Success, s) } }"

text \<open>\<open>do syncStatus = OSA_SemaWait(...) while (syncStatus == kStatus_OSA_Idle)\<close>\<close>

partial_function (option) wait_tx_sem ::
  "'h uart_env \<Rightarrow> u32 \<Rightarrow> 'h uart_sys \<Rightarrow> (osa_status_t \<times> 'h uart_sys) option" where
  "wait_tx_sem E timeout s = Option.bind (drv s) (\<lambda>u.
     case OSA_SemaWait (now_ms s) timeout (txIrqSync u) of (r, sem) \<Rightarrow>
       (let s = put_drv (u\<lparr>txIrqSync := sem\<rparr>) s in
        if r = kStatus_OSA_Idle then Option.bind (elapse E s) (wait_tx_sem E timeout) else Some (r, s)))"

definition UART_DRV_SendDataBlocking ::
  "'h uart_env \<Rightarrow> nat \<Rightarrow> u32 \<Rightarrow> u32 \<Rightarrow> 'h uart_sys \<Rightarrow> (uart_status_t \<times> 'h uart_sys) option" where
  "UART_DRV_SendDataBlocking E buf len timeout s = do {
     c_assert (buf \<noteq> 0);
     u \<leftarrow> drv s;
     (r, s) \<leftarrow> UART_DRV_StartSendData E buf len (put_drv (u\<lparr>isTxBlocking := True\<rparr>) s);
     if r = kStatus_UART_TxBusy then Some (kStatus_UART_TxBusy, s)
     else do {
       (syncStatus, s) \<leftarrow> wait_tx_sem E timeout s;
       (err, s) \<leftarrow> (if syncStatus \<noteq> kStatus_OSA_Success
         then do { (_, s) \<leftarrow> UART_DRV_AbortSendingData E s; Some (kStatus_UART_Timeout, s) }
         else Some (kStatus_UART_Success, s));
       s \<leftarrow> wait_tx_fifo E s;
       Some (err, s) } }"

definition UART_DRV_SendData ::
  "'h uart_env \<Rightarrow> nat \<Rightarrow> u32 \<Rightarrow> 'h uart_sys \<Rightarrow> (uart_status_t \<times> 'h uart_sys) option" where
  "UART_DRV_SendData E buf len s = do {
     u \<leftarrow> drv s;
     (r, s) \<leftarrow> UART_DRV_StartSendData E buf len (put_drv (u\<lparr>isTxBlocking := False\<rparr>) s);
     if r = kStatus_UART_TxBusy then Some (kStatus_UART_TxBusy, s) else Some (kStatus_UART_Success, s) }"

text \<open>The number of bytes not yet passed to the FIFO comes with the status.\<close>

definition UART_DRV_GetTransmitStatus ::
  "'h uart_env \<Rightarrow> 'h uart_sys \<Rightarrow> (uart_status_t \<times> u32 \<times> 'h uart_sys) option" where
  "UART_DRV_GetTransmitStatus E s = do {
     u \<leftarrow> drv s;
     if \<not> isTxBusy u then
       let (n, s) = from_hw (UART_HAL_GetTxDatawordCountInFifo (chip E)) s in
       Some (if n = 0 then kStatus_UART_Success else kStatus_UART_TxBusy, txSize u, s)
     else Some (kStatus_UART_TxBusy, txSize u, s) }"

section \<open>Receiving\<close>

definition UART_DRV_CompleteReceiveData :: "'h uart_env \<Rightarrow> 'h uart_sys \<Rightarrow> 'h uart_sys option" where
  "UART_DRV_CompleteReceiveData E s = do {
     u \<leftarrow> drv s;
     let s = on_hw (UART_HAL_SetRxDataRegFullIntCmd (chip E) False) s;
     let u = (if isRxBlocking u then u\<lparr>rxIrqSync := snd (OSA_SemaPost (rxIrqSync u))\<rparr> else u);
     Some (put_drv (u\<lparr>isRxBusy := False\<rparr>) s) }"

definition UART_DRV_StartReceiveData ::
  "'h uart_env \<Rightarrow> nat \<Rightarrow> u32 \<Rightarrow> 'h uart_sys \<Rightarrow> (uart_status_t \<times> 'h uart_sys) option" where
  "UART_DRV_StartReceiveData E buf len s = do {
     u \<leftarrow> drv s;
     if isRxBusy u then Some (kStatus_UART_RxBusy, s)
     else
       let s = put_drv (u\<lparr>rxBuff := buf, rxSize := len, isRxBusy := True\<rparr>) s in
       Some (kStatus_UART_Success, on_hw (UART_HAL_SetRxDataRegFullIntCmd (chip E) True) s) }"

definition UART_DRV_AbortReceivingData :: "'h uart_env \<Rightarrow> 'h uart_sys \<Rightarrow> (uart_status_t \<times> 'h uart_sys) option" where
  "UART_DRV_AbortReceivingData E s = do {
     u \<leftarrow> drv s;
     if \<not> isRxBusy u then Some (kStatus_UART_NoReceiveInProgress, s)
     else do { s \<leftarrow> UART_DRV_CompleteReceiveData E s; Some (kStatus_UART_Success, s) } }"

partial_function (option) wait_rx_sem ::
  "'h uart_env \<Rightarrow> u32 \<Rightarrow> 'h uart_sys \<Rightarrow> (osa_status_t \<times> 'h uart_sys) option" where
  "wait_rx_sem E timeout s = Option.bind (drv s) (\<lambda>u.
     case OSA_SemaWait (now_ms s) timeout (rxIrqSync u) of (r, sem) \<Rightarrow>
       (let s = put_drv (u\<lparr>rxIrqSync := sem\<rparr>) s in
        if r = kStatus_OSA_Idle then Option.bind (elapse E s) (wait_rx_sem E timeout) else Some (r, s)))"

definition UART_DRV_ReceiveDataBlocking ::
  "'h uart_env \<Rightarrow> nat \<Rightarrow> u32 \<Rightarrow> u32 \<Rightarrow> 'h uart_sys \<Rightarrow> (uart_status_t \<times> 'h uart_sys) option" where
  "UART_DRV_ReceiveDataBlocking E buf len timeout s = do {
     c_assert (buf \<noteq> 0);
     u \<leftarrow> drv s;
     (r, s) \<leftarrow> UART_DRV_StartReceiveData E buf len (put_drv (u\<lparr>isRxBlocking := True\<rparr>) s);
     if r = kStatus_UART_RxBusy then Some (kStatus_UART_RxBusy, s)
     else do {
       (syncStatus, s) \<leftarrow> wait_rx_sem E timeout s;
       if syncStatus \<noteq> kStatus_OSA_Success
       then do { (_, s) \<leftarrow> UART_DRV_AbortReceivingData E s; Some (kStatus_UART_Timeout, s) }
       else Some (kStatus_UART_Success, s) } }"

definition UART_DRV_ReceiveData ::
  "'h uart_env \<Rightarrow> nat \<Rightarrow> u32 \<Rightarrow> 'h uart_sys \<Rightarrow> (uart_status_t \<times> 'h uart_sys) option" where
  "UART_DRV_ReceiveData E buf len s = do {
     c_assert (buf \<noteq> 0);
     u \<leftarrow> drv s;
     (r, s) \<leftarrow> UART_DRV_StartReceiveData E buf len (put_drv (u\<lparr>isRxBlocking := False\<rparr>) s);
     if r = kStatus_UART_RxBusy then Some (kStatus_UART_RxBusy, s) else Some (kStatus_UART_Success, s) }"

definition UART_DRV_GetReceiveStatus :: "'h uart_sys \<Rightarrow> (uart_status_t \<times> u32) option" where
  "UART_DRV_GetReceiveStatus s = do {
     u \<leftarrow> drv s;
     Some (if isRxBusy u then kStatus_UART_RxBusy else kStatus_UART_Success, rxSize u) }"

section \<open>The interrupt handler\<close>

text \<open>
  The receive loop: one byte per pass while the FIFO holds one. The callback gets the address of
  the byte and may end the transfer.
\<close>

definition rx_store :: "nat \<Rightarrow> u8 \<Rightarrow> 'h uart_sys \<Rightarrow> 'h uart_sys option" where
  "rx_store a b s = (case ram s a of None \<Rightarrow> None | Some _ \<Rightarrow> Some (s\<lparr>ram := (ram s)(a \<mapsto> b)\<rparr>))"

definition rx_callback :: "'h uart_env \<Rightarrow> uart_state \<Rightarrow> 'h uart_sys \<Rightarrow> bool \<times> 'h uart_sys" where
  "rx_callback E u s = (case rxCallback u of None \<Rightarrow> (False, s)
     | Some f \<Rightarrow> (let (r, m) = rx_call E f (rxBuff u) (rxCallbackParam u) (ram s)
                 in (r \<noteq> kStatus_UART_Success, s\<lparr>ram := m\<rparr>)))"

partial_function (option) rx_drain :: "'h uart_env \<Rightarrow> 'h uart_sys \<Rightarrow> 'h uart_sys option" where
  "rx_drain E s = (case from_hw (UART_HAL_GetRxDatawordCountInFifo (chip E)) s of (n, s) \<Rightarrow>
     if n = 0 then Some s
     else (case from_hw (UART_HAL_Getchar (chip E)) s of (b, s) \<Rightarrow>
       Option.bind (drv s) (\<lambda>u. Option.bind (rx_store (rxBuff u) b s) (\<lambda>s.
         case rx_callback E u s of (rxCallbackEnd, s) \<Rightarrow>
           (let u = u\<lparr>rxBuff := rxBuff u + 1, rxSize := rxSize u - 1\<rparr>; s = put_drv u s in
            if rxSize u = 0 \<or> rxCallbackEnd then UART_DRV_CompleteReceiveData E s
            else rx_drain E s)))))"

definition irq_rx :: "'h uart_env \<Rightarrow> 'h uart_sys \<Rightarrow> 'h uart_sys option" where
  "irq_rx E s = (
     let (rie, s) = from_hw (UART_HAL_GetRxDataRegFullIntCmd (chip E)) s
     in if rie then (let (rdrf, s) = from_hw (UART_HAL_IsRxDataRegFull (chip E)) s
                     in if rdrf then rx_drain E s else Some s)
        else Some s)"

definition irq_tx :: "'h uart_env \<Rightarrow> 'h uart_sys \<Rightarrow> 'h uart_sys option" where
  "irq_tx E s = (
     let (tie, s) = from_hw (UART_HAL_GetTxDataRegEmptyIntCmd (chip E)) s
     in if tie then (let (tdre, s) = from_hw (UART_HAL_IsTxDataRegEmpty (chip E)) s
       in if tdre then do {
            u \<leftarrow> drv s;
            if txSize u \<noteq> 0 then do {
              let (cnt, s) = from_hw (UART_HAL_GetTxDatawordCountInFifo (chip E)) s;
              (_, s) \<leftarrow> tx_fill E (unat (txFifoEntryCount u - cnt)) s;
              Some s }
            else Some s }
          else Some s)
        else Some s)"

definition UART_DRV_IRQHandler :: "'h uart_env \<Rightarrow> 'h uart_sys \<Rightarrow> 'h uart_sys option" where
  "UART_DRV_IRQHandler E s = do {
     u \<leftarrow> drv s;
     if \<not> isTxBusy u \<and> \<not> isRxBusy u then Some s
     else do { s \<leftarrow> irq_rx E s; irq_tx E s } }"

end
