(* ===== verification/UartChip.thy ===== *)
theory UartChip
  imports UartDriver
begin

text \<open>
  The hardware interface of the UART: what the driver relies on of the registers and the two
  FIFOs, as a locale over an observation of the hardware state; the K64F instance with eight
  entries per FIFO satisfies it.
\<close>

section \<open>Observation and laws\<close>

text \<open>
  \<open>v_tx\<close> and \<open>v_rx\<close> are the FIFOs, oldest byte first; \<open>v_out\<close> are the bytes the transmitter has
  taken from its FIFO, \<open>v_in\<close> those the receiver has put into its own.
\<close>

record uart_view =
  v_reg :: "uart_reg \<Rightarrow> u8"
  v_tx :: "u8 list"
  v_rx :: "u8 list"
  v_out :: "u8 list"
  v_in :: "u8 list"

definition plain_regs :: "uart_reg set" where
  "plain_regs = {R_BDH, R_BDL, R_C1, R_C2, R_MA1, R_MA2, R_C4, R_TWFIFO, R_RWFIFO}"

definition set_reg :: "uart_reg \<Rightarrow> u8 \<Rightarrow> uart_view \<Rightarrow> uart_view" where
  "set_reg r x v = v\<lparr>v_reg := (v_reg v)(r := x)\<rparr>"

lemma set_reg_simps [simp]:
  "v_reg (set_reg r x v) = (v_reg v)(r := x)" "v_tx (set_reg r x v) = v_tx v" "v_rx (set_reg r x v) = v_rx v"
  "v_out (set_reg r x v) = v_out v" "v_in (set_reg r x v) = v_in v"
  "set_reg r x (set_reg r y v) = set_reg r x v" "set_reg r (v_reg v r) v = v"
  by (simp_all add: set_reg_def)

locale uart_chip =
  fixes H :: "'h uart_hw" and view :: "'h \<Rightarrow> uart_view" and depth :: nat
    and shift :: "'h \<Rightarrow> 'h" and arrive :: "u8 \<Rightarrow> 'h \<Rightarrow> 'h"
  assumes plain_rd: "r \<in> plain_regs \<Longrightarrow> reg_rd H r h = (v_reg (view h) r, h)"
    and plain_wr: "r \<in> plain_regs \<Longrightarrow> view (reg_wr H r x h) = set_reg r x (view h)"
    and S1_rd: "view (snd (reg_rd H R_S1 h)) = view h"
    and S1_TDRE: "bit (fst (reg_rd H R_S1 h)) 7 \<longleftrightarrow> length (v_tx (view h)) \<le> unat (v_reg (view h) R_TWFIFO)"
    and S1_RDRF: "bit (fst (reg_rd H R_S1 h)) 5 \<longleftrightarrow> unat (v_reg (view h) R_RWFIFO) \<le> length (v_rx (view h))"
    and D_wr: "length (v_tx (view h)) < depth \<Longrightarrow>
      view (reg_wr H R_D d h) = (view h)\<lparr>v_tx := v_tx (view h) @ [d]\<rparr>"
    and D_rd: "v_rx (view h) = d # q \<Longrightarrow>
      fst (reg_rd H R_D h) = d \<and> view (snd (reg_rd H R_D h)) = (view h)\<lparr>v_rx := q\<rparr>"
    and TCFIFO_rd: "fst (reg_rd H R_TCFIFO h) = of_nat (length (v_tx (view h)))"
      "view (snd (reg_rd H R_TCFIFO h)) = view h"
    and RCFIFO_rd: "fst (reg_rd H R_RCFIFO h) = of_nat (length (v_rx (view h)))"
      "view (snd (reg_rd H R_RCFIFO h)) = view h"
    and S2_rd: "reg_rd H R_S2 h = (v_reg (view h) R_S2, h)"
    and S2_wr: "view (reg_wr H R_S2 x h) =
      set_reg R_S2 ((v_reg (view h) R_S2 AND NOT x AND 0xC0) OR (x AND 0x3E) OR (v_reg (view h) R_S2 AND 1)) (view h)"
    and config_wr: "r \<in> {R_C3, R_MODEM, R_IR, R_SFIFO} \<Longrightarrow> \<exists>y. view (reg_wr H r x h) = set_reg r y (view h)"
    and SFIFO_rd: "view (snd (reg_rd H R_SFIFO h)) = view h"
    and PFIFO_rd: "reg_rd H R_PFIFO h = (v_reg (view h) R_PFIFO, h)"
    and PFIFO_wr: "view (reg_wr H R_PFIFO x h) =
      set_reg R_PFIFO ((v_reg (view h) R_PFIFO AND 0x77) OR (x AND 0x88)) (view h)"
    and CFIFO_rd: "view (snd (reg_rd H R_CFIFO h)) = view h" "fst (reg_rd H R_CFIFO h) AND 0xC0 = 0"
    and CFIFO_wr: "\<exists>y. view (reg_wr H R_CFIFO x h) = set_reg R_CFIFO y
      ((view h)\<lparr>v_tx := if bit x 7 then [] else v_tx (view h), v_rx := if bit x 6 then [] else v_rx (view h)\<rparr>)"
    and D_wr_full: "\<not> length (v_tx (view h)) < depth \<Longrightarrow> \<exists>y. view (reg_wr H R_D d h) = set_reg R_SFIFO y (view h)"
    and shift_some: "v_tx (view h) = d # q \<Longrightarrow>
      view (shift h) = (view h)\<lparr>v_tx := q, v_out := v_out (view h) @ [d]\<rparr>"
    and shift_none: "v_tx (view h) = [] \<Longrightarrow> view (shift h) = view h"
    and arrive_room: "length (v_rx (view h)) < depth \<Longrightarrow>
      view (arrive d h) = (view h)\<lparr>v_rx := v_rx (view h) @ [d], v_in := v_in (view h) @ [d]\<rparr>"
    and arrive_full: "\<not> length (v_rx (view h)) < depth \<Longrightarrow> view (arrive d h) = view h"
    and depth_pos: "0 < depth" "depth < 256"
begin

lemma plain_mem [simp]: "R_BDH \<in> plain_regs" "R_BDL \<in> plain_regs" "R_C1 \<in> plain_regs" "R_C2 \<in> plain_regs"
  "R_C4 \<in> plain_regs" "R_TWFIFO \<in> plain_regs" "R_RWFIFO \<in> plain_regs" "R_MA1 \<in> plain_regs" "R_MA2 \<in> plain_regs"
  by (simp_all add: plain_regs_def)

lemma BR_plain [simp]: "r \<in> plain_regs \<Longrightarrow> BR H r b h = (bit (v_reg (view h) r) b, h)"
  by (simp add: BR_def plain_rd)

lemma BW_plain: "r \<in> plain_regs \<Longrightarrow> view (BW H r b v h) =
    set_reg r (if v then set_bit b (v_reg (view h) r) else unset_bit b (v_reg (view h) r)) (view h)"
  by (simp add: BW_def plain_rd plain_wr)

lemma BW_field_plain: "r \<in> plain_regs \<Longrightarrow> view (BW_field H r m v h) =
    set_reg r (v_reg (view h) r AND NOT m OR v AND m) (view h)"
  by (simp add: BW_field_def plain_rd plain_wr)

lemma HW_SET_plain: "r \<in> plain_regs \<Longrightarrow> view (HW_SET H r v h) = set_reg r (v_reg (view h) r OR v) (view h)"
  by (simp add: HW_SET_def plain_rd plain_wr)

lemma Putchar_view: "length (v_tx (view h)) < depth \<Longrightarrow>
    view (UART_HAL_Putchar H d h) = (view h)\<lparr>v_tx := v_tx (view h) @ [d]\<rparr>"
  using D_wr [of "snd (reg_rd H R_S1 h)" d] by (simp add: UART_HAL_Putchar_def S1_rd case_prod_beta Let_def)

lemma Getchar_view: "v_rx (view h) = d # q \<Longrightarrow>
    \<exists>h'. UART_HAL_Getchar H h = (d, h') \<and> view h' = (view h)\<lparr>v_rx := q\<rparr>"
  using D_rd [of "snd (reg_rd H R_S1 h)" d q]
  by (auto simp: UART_HAL_Getchar_def S1_rd case_prod_beta Let_def prod_eq_iff)

end

section \<open>UART0 of the K64F\<close>

record k64_uart =
  k_reg :: "uart_reg \<Rightarrow> u8"
  k_tx :: "u8 list"
  k_rx :: "u8 list"
  k_out :: "u8 list"
  k_in :: "u8 list"

definition k64_S1 :: "k64_uart \<Rightarrow> u8" where
  "k64_S1 h = (if length (k_tx h) \<le> unat (k_reg h R_TWFIFO) then 0x80 else 0) OR
     (if k_tx h = [] then 0x40 else 0) OR
     (if unat (k_reg h R_RWFIFO) \<le> length (k_rx h) then 0x20 else 0)"

definition k64_rd :: "uart_reg \<Rightarrow> k64_uart \<Rightarrow> u8 \<times> k64_uart" where
  "k64_rd r h = (if r = R_S1 then (k64_S1 h, h)
     else if r = R_D then (case k_rx h of [] \<Rightarrow> (0, h\<lparr>k_reg := (k_reg h)(R_SFIFO := k_reg h R_SFIFO OR 1)\<rparr>)
       | d # q \<Rightarrow> (d, h\<lparr>k_rx := q\<rparr>))
     else if r = R_TCFIFO then (of_nat (length (k_tx h)), h)
     else if r = R_RCFIFO then (of_nat (length (k_rx h)), h)
     else if r = R_CFIFO then (k_reg h r AND 7, h)
     else (k_reg h r, h))"

definition k64_store :: "uart_reg \<Rightarrow> u8 \<Rightarrow> k64_uart \<Rightarrow> k64_uart" where
  "k64_store r x h = h\<lparr>k_reg := (k_reg h)(r := x)\<rparr>"

definition k64_wr :: "uart_reg \<Rightarrow> u8 \<Rightarrow> k64_uart \<Rightarrow> k64_uart" where
  "k64_wr r x h = (if r = R_D then
       (if length (k_tx h) < 8 then h\<lparr>k_tx := k_tx h @ [x]\<rparr> else k64_store R_SFIFO (k_reg h R_SFIFO OR 2) h)
     else if r = R_S2 then
       k64_store R_S2 ((k_reg h R_S2 AND NOT x AND 0xC0) OR (x AND 0x3E) OR (k_reg h R_S2 AND 1)) h
     else if r = R_SFIFO then k64_store R_SFIFO (k_reg h R_SFIFO AND NOT (x AND 7)) h
     else if r = R_CFIFO then (let h = k64_store R_CFIFO (x AND 7) h;
         h = (if bit x 7 then h\<lparr>k_tx := []\<rparr> else h) in if bit x 6 then h\<lparr>k_rx := []\<rparr> else h)
     else if r = R_PFIFO then k64_store R_PFIFO ((k_reg h R_PFIFO AND 0x77) OR (x AND 0x88)) h
     else if r \<in> {R_S1, R_ED, R_TCFIFO, R_RCFIFO} then h
     else k64_store r x h)"

definition k64_chip :: "k64_uart uart_hw" where
  "k64_chip = \<lparr> reg_rd = k64_rd, reg_wr = k64_wr \<rparr>"

definition k64_view :: "k64_uart \<Rightarrow> uart_view" where
  "k64_view h = \<lparr> v_reg = k_reg h, v_tx = k_tx h, v_rx = k_rx h, v_out = k_out h, v_in = k_in h \<rparr>"

definition k64_shift :: "k64_uart \<Rightarrow> k64_uart" where
  "k64_shift h = (case k_tx h of [] \<Rightarrow> h | d # q \<Rightarrow> h\<lparr>k_tx := q, k_out := k_out h @ [d]\<rparr>)"

definition k64_arrive :: "u8 \<Rightarrow> k64_uart \<Rightarrow> k64_uart" where
  "k64_arrive d h = (if length (k_rx h) < 8 then h\<lparr>k_rx := k_rx h @ [d], k_in := k_in h @ [d]\<rparr> else h)"

lemma k64_S1_bits: "bit (k64_S1 h) 7 \<longleftrightarrow> length (k_tx h) \<le> unat (k_reg h R_TWFIFO)"
  "bit (k64_S1 h) 5 \<longleftrightarrow> unat (k_reg h R_RWFIFO) \<le> length (k_rx h)"
  by (auto simp: k64_S1_def bit_or_iff)

interpretation k64: uart_chip k64_chip k64_view 8 k64_shift k64_arrive
  by unfold_locales (auto simp: Let_def and.assoc k64_chip_def k64_rd_def k64_wr_def k64_view_def k64_store_def k64_shift_def
      k64_arrive_def set_reg_def plain_regs_def k64_S1_bits split: list.splits if_splits)

end
