(* ===== verification/UartConfig.thy ===== *)
theory UartConfig
  imports UartChip
begin

text \<open>
  What the register layer and \<open>UART_DRV_Init\<close> configure: the baud rate divisor, the state in which
  the driver starts, and the side effects of clearing status flags, for any hardware that satisfies
  the laws of \<open>uart_chip\<close>.
\<close>

section \<open>Baud rate\<close>

definition divisor_of :: "uart_view \<Rightarrow> nat" where
  "divisor_of v = 32 * (256 * unat (v_reg v R_BDH AND 0x1F) + unat (v_reg v R_BDL)) + unat (v_reg v R_C4 AND 0x1F)"

lemma field_low: "(x AND NOT m OR v AND m) AND m = v AND (m :: u8)"
  by (rule bit_eqI) (auto simp: bit_simps)

lemma field_high: "(x AND NOT m OR v AND m) AND NOT m = x AND NOT (m :: u8)"
  by (rule bit_eqI) (auto simp: bit_simps)

lemma hi_byte: "unat (ucast (drop_bit 8 (w :: u16)) :: u8) = unat w div 256"
proof -
  have "unat (drop_bit 8 w) = unat w div 256" by (simp only: unat_drop_bit_eq drop_bit_eq_div) (simp add: unat_div)
  moreover have "unat w div 256 < 256" using unat_u16_lt [of w] by simp
  ultimately show ?thesis by (simp only: unat_ucast_mod) simp
qed

lemma and_1F: "x AND 0x1F = take_bit 5 (x :: u8)"
  by (simp add: take_bit_eq_mask mask_eq_decr_exp)

lemma unat_and_1F: "unat (x AND 0x1F :: u8) = unat x mod 32"
  by (simp add: and_1F unsigned_take_bit_eq take_bit_eq_mod unat_mod)

lemma unat_baud16: "unat baud < 2 ^ 28 \<Longrightarrow> unat (baud * 16 :: u32) = 16 * unat baud"
  by (simp add: unat_word_ariths)

lemma div_32: "(32 * n) div (16 * b) = 2 * n div (b :: nat)"
  using div_mult_mult1 [of "16 :: nat" "2 * n" b] by simp

lemma quot_split: "0 < b \<Longrightarrow> 2 * n div b = 32 * (n div (16 * b)) + (2 * n div b) mod (32 :: nat)"
proof -
  assume b: "0 < b"
  have "n div (16 * b) = (2 * n) div (32 * b)" using div_mult_mult1 [of 2 n "16 * b"] by simp
  also have "\<dots> = 2 * n div b div 32" by (simp add: div_mult2_eq mult.commute)
  finally show ?thesis by simp
qed

text \<open>What the two registers hold after the quotient has been cut to 16 bits.\<close>

context uart_chip
begin

lemma SetBaudRate_regs:
  assumes b: "0 < unat baud" "unat baud < 2 ^ 28" and c: "unat clk < 2 ^ 27"
    and sbr: "sbr = (unat clk div (16 * unat baud)) mod 65536"
  shows "if 1 \<le> sbr \<and> sbr \<le> 0x1FFF then
      (\<exists>h'. UART_HAL_SetBaudRate H clk baud h = Some (kStatus_UART_Success, h') \<and>
        divisor_of (view h') = 32 * sbr + (2 * unat clk div unat baud) mod 32 \<and>
        view h' = (view h)\<lparr>v_reg := (v_reg (view h))(R_BDH := v_reg (view h') R_BDH, R_BDL := v_reg (view h') R_BDL,
          R_C4 := v_reg (view h') R_C4)\<rparr> \<and>
        v_reg (view h') R_BDH AND NOT 0x1F = v_reg (view h) R_BDH AND NOT 0x1F \<and>
        v_reg (view h') R_C4 AND NOT 0x1F = v_reg (view h) R_C4 AND NOT 0x1F)
    else UART_HAL_SetBaudRate H clk baud h = Some (kStatus_UART_BaudRateCalculationError, h)"
proof -
  have b16: "unat (baud * 16) = 16 * unat baud" using b by (simp add: unat_baud16)
  let ?w = "ucast (clk div (baud * 16)) :: u16"
  have w: "unat ?w = sbr" using sbr b16 by (simp add: unat_ucast_mod unat_div)
  have nz: "baud * 16 \<noteq> 0" using b16 b by (metis mult_is_0 neq0_conv unat_0 zero_neq_numeral)
  have rng: "(?w > 0x1FFF \<or> ?w < 1) = (\<not> (1 \<le> sbr \<and> sbr \<le> 0x1FFF))"
    using w by (auto simp: word_less_nat_alt)
  show ?thesis
  proof (cases "1 \<le> sbr \<and> sbr \<le> 0x1FFF")
    case False
    then show ?thesis using rng nz by (auto simp: UART_HAL_SetBaudRate_def Let_def)
  next
    case True
    let ?brfa = "ucast (32 * clk div (baud * 16) - 32 * ucast ?w) :: u16"
    let ?h1 = "BW_field H R_BDH 0x1F (ucast (drop_bit 8 ?w)) h"
    let ?h2 = "reg_wr H R_BDL (ucast ?w) ?h1"
    let ?h3 = "BW_field H R_C4 0x1F (ucast ?brfa) ?h2"
    have run: "UART_HAL_SetBaudRate H clk baud h = Some (kStatus_UART_Success, ?h3)"
      using True rng nz by (auto simp: UART_HAL_SetBaudRate_def Let_def)
    have hi: "unat (ucast (drop_bit 8 ?w) :: u8) = sbr div 256"
      by (simp only: hi_byte w)
    have lo: "unat (ucast ?w :: u8) = sbr mod 256" using w by (simp add: unat_ucast_mod)
    have m: "unat (ucast ?brfa :: u8) mod 32 = (2 * unat clk div unat baud) mod 32"
    proof -
      let ?n = "unat clk" and ?b = "unat baud"
      have A: "unat (32 * clk div (baud * 16)) = 2 * ?n div ?b"
        using c b16 by (simp add: unat_div unat_word_ariths div_32)
      have B: "unat (32 * ucast ?w :: u32) = 32 * sbr"
        using w True by (simp add: unat_word_ariths unat_ucast_mod)
      have "32 * sbr \<le> 2 * ?n div ?b"
        using quot_split [OF b(1), of ?n] mod_less_eq_dividend [of "?n div (16 * ?b)" 65536] sbr by linarith
      then have "unat (32 * clk div (baud * 16) - 32 * ucast ?w) = 2 * ?n div ?b - 32 * sbr"
        using A B by (subst unat_sub) (simp_all add: word_le_nat_alt)
      then have "unat (ucast ?brfa :: u8) = (2 * ?n div ?b - 32 * sbr) mod 65536 mod 256"
        by (simp add: unat_ucast_mod)
      then have "unat (ucast ?brfa :: u8) mod 32 = (2 * ?n div ?b - 32 * sbr) mod 32"
        by (simp add: mod_mod_cancel)
      also have "\<dots> = (2 * ?n div ?b) mod 32"
        using mod_mult_self4 [of 32 sbr "2 * ?n div ?b - 32 * sbr"] le_add_diff_inverse [OF \<open>32 * sbr \<le> 2 * ?n div ?b\<close>]
        by simp
      finally show ?thesis .
    qed
    have v3: "view ?h3 = set_reg R_C4 (v_reg (view h) R_C4 AND NOT 0x1F OR ucast ?brfa AND 0x1F)
        (set_reg R_BDL (ucast ?w) (set_reg R_BDH (v_reg (view h) R_BDH AND NOT 0x1F OR ucast (drop_bit 8 ?w) AND 0x1F) (view h)))"
      by (simp add: BW_field_plain plain_wr)
    have d: "divisor_of (view ?h3) = 32 * (256 * (sbr div 256 mod 32) + sbr mod 256) + (2 * unat clk div unat baud) mod 32"
      unfolding v3 divisor_of_def using hi lo m
      by (simp only: set_reg_simps fun_upd_apply if_True if_False uart_reg.distinct simp_thms field_low unat_and_1F)
    have "sbr div 256 < 32" using True by (intro less_mult_imp_div_less) simp
    then have "sbr div 256 mod 32 = sbr div 256" by simp
    then have d': "divisor_of (view ?h3) = 32 * sbr + (2 * unat clk div unat baud) mod 32" using d by simp
    show ?thesis unfolding if_P [OF True]
    proof (intro exI [of _ ?h3] conjI)
      show "view ?h3 = (view h)\<lparr>v_reg := (v_reg (view h))(R_BDH := v_reg (view ?h3) R_BDH, R_BDL := v_reg (view ?h3) R_BDL,
          R_C4 := v_reg (view ?h3) R_C4)\<rparr>" unfolding v3 by (simp add: set_reg_def)
      show "v_reg (view ?h3) R_BDH AND NOT 0x1F = v_reg (view h) R_BDH AND NOT 0x1F"
        "v_reg (view ?h3) R_C4 AND NOT 0x1F = v_reg (view h) R_C4 AND NOT 0x1F" unfolding v3
        by (simp_all only: set_reg_simps fun_upd_apply if_True if_False uart_reg.distinct simp_thms field_high)
    qed (fact run d')+
  qed
qed

text \<open>What survives a write to the other registers.\<close>

lemma config_regs [simp]:
  "r \<noteq> R_C3 \<Longrightarrow> v_reg (view (reg_wr H R_C3 x h)) r = v_reg (view h) r"
  "r \<noteq> R_MODEM \<Longrightarrow> v_reg (view (reg_wr H R_MODEM x h)) r = v_reg (view h) r"
  "r \<noteq> R_IR \<Longrightarrow> v_reg (view (reg_wr H R_IR x h)) r = v_reg (view h) r"
  "r \<noteq> R_SFIFO \<Longrightarrow> v_reg (view (reg_wr H R_SFIFO x h)) r = v_reg (view h) r"
  "v_tx (view (reg_wr H R_SFIFO x h)) = v_tx (view h)" "v_rx (view (reg_wr H R_SFIFO x h)) = v_rx (view h)"
  using config_wr [of R_C3 x h] config_wr [of R_MODEM x h] config_wr [of R_IR x h] config_wr [of R_SFIFO x h]
  by auto

lemma D_regs [simp]: "r \<noteq> R_SFIFO \<Longrightarrow> v_reg (view (reg_wr H R_D x h)) r = v_reg (view h) r"
  using D_wr [of h x] D_wr_full [of h x] by (cases "length (v_tx (view h)) < depth") auto

lemma CFIFO_regs [simp]: "r \<noteq> R_CFIFO \<Longrightarrow> v_reg (view (reg_wr H R_CFIFO x h)) r = v_reg (view h) r"
  "v_tx (view (reg_wr H R_CFIFO x h)) = (if bit x 7 then [] else v_tx (view h))"
  "v_rx (view (reg_wr H R_CFIFO x h)) = (if bit x 6 then [] else v_rx (view h))"
  using CFIFO_wr [of x h] by auto

lemma CFIFO_flush_bits: "\<not> bit (fst (reg_rd H R_CFIFO h)) 7" "\<not> bit (fst (reg_rd H R_CFIFO h)) 6"
proof -
  have "\<not> bit (fst (reg_rd H R_CFIFO h) AND 0xC0) n" for n using CFIFO_rd(2) by simp
  from this [of 7] this [of 6] show "\<not> bit (fst (reg_rd H R_CFIFO h)) 7" "\<not> bit (fst (reg_rd H R_CFIFO h)) 6"
    by (simp_all add: bit_and_iff)
qed

lemma BW_CFIFO [simp]:
  "r \<noteq> R_CFIFO \<Longrightarrow> v_reg (view (BW H R_CFIFO b v h)) r = v_reg (view h) r"
  "v_tx (view (BW H R_CFIFO 7 True h)) = []" "v_rx (view (BW H R_CFIFO 7 True h)) = v_rx (view h)"
  "v_tx (view (BW H R_CFIFO 6 True h)) = v_tx (view h)" "v_rx (view (BW H R_CFIFO 6 True h)) = []"
  using CFIFO_flush_bits [of h] by (simp_all add: BW_def CFIFO_rd case_prod_beta bit_set_bit_iff)

lemma BW_PFIFO [simp]: "r \<noteq> R_PFIFO \<Longrightarrow> v_reg (view (BW H R_PFIFO b v h)) r = v_reg (view h) r"
  "v_tx (view (BW H R_PFIFO b v h)) = v_tx (view h)" "v_rx (view (BW H R_PFIFO b v h)) = v_rx (view h)"
  by (simp_all add: BW_def PFIFO_rd PFIFO_wr)

lemma HAL_Init_regs:
  "v_reg (view (UART_HAL_Init H h)) R_BDH = 0" "v_reg (view (UART_HAL_Init H h)) R_BDL = 4"
  "v_reg (view (UART_HAL_Init H h)) R_C1 = 0" "v_reg (view (UART_HAL_Init H h)) R_C2 = 0"
  "v_reg (view (UART_HAL_Init H h)) R_C4 = 0"
  "v_reg (view (UART_HAL_Init H h)) R_PFIFO = v_reg (view h) R_PFIFO AND 0x77"
  by (simp_all add: UART_HAL_Init_def Let_def plain_wr S2_wr PFIFO_wr)

end

lemma fifo_size_8: "x AND 0x70 = 0x20 \<Longrightarrow> drop_bit 4 (x AND 0x77) AND 7 = (2 :: u8)"
proof -
  assume "x AND 0x70 = 0x20"
  then have "drop_bit 4 (x AND 0x70) = drop_bit 4 (0x20 :: u8)" by (rule arg_cong)
  then have "drop_bit 4 x AND 7 = 2" by (simp add: drop_bit_and)
  then show ?thesis by (simp add: drop_bit_and and.assoc)
qed

lemma stop_bit_field: "set_bit 5 x AND 0x1F = x AND (0x1F :: u8)" "unset_bit 5 x AND 0x1F = x AND (0x1F :: u8)"
  "bit (set_bit 5 x) 5" "\<not> bit (unset_bit 5 x) 5"
proof -
  have b: "\<not> bit (0x1F :: u8) 5" by simp
  show "set_bit 5 x AND 0x1F = x AND (0x1F :: u8)" "unset_bit 5 x AND 0x1F = x AND (0x1F :: u8)"
    using b by (auto intro!: bit_eqI simp: bit_simps)
qed (simp_all add: bit_set_bit_iff bit_unset_bit_iff)

definition uart_C1 :: "uart_user_config \<Rightarrow> u8" where
  "uart_C1 cfg = (if bitCountPerChar cfg = kUart9BitsPerChar then 0x10 else 0) OR parity_code (parityMode cfg)"

context uart_chip
begin

lemma UART_DRV_Init_spec:
  assumes E: "chip E = H" and d8: "v_reg (view (hw s)) R_PFIFO AND 0x70 = 0x20"
    and b: "0 < unat (baudRate cfg)" "unat (baudRate cfg) < 2 ^ 28" and c: "unat (UartFreq E) < 2 ^ 27"
    and sbr: "sbr = (unat (UartFreq E) div (16 * unat (baudRate cfg))) mod 65536"
  shows "\<exists>h'. UART_DRV_Init E cfg s = Some (kStatus_UART_Success,
      s\<lparr>hw := h', drv := Some (uart_state_zero\<lparr>txFifoEntryCount := 8\<rparr>), uart_gate := True, uart_nvic := True\<rparr>) \<and>
    v_tx (view h') = [] \<and> v_rx (view h') = [] \<and> v_reg (view h') R_C1 = uart_C1 cfg \<and>
    v_reg (view h') R_C2 = 0x0C \<and> v_reg (view h') R_TWFIFO = 4 \<and> v_reg (view h') R_RWFIFO = 1 \<and>
    bit (v_reg (view h') R_BDH) 5 = (stopBitCount cfg = kUartTwoStopBit) \<and>
    divisor_of (view h') = (if 1 \<le> sbr \<and> sbr \<le> 0x1FFF
      then 32 * sbr + (2 * unat (UartFreq E) div unat (baudRate cfg)) mod 32 else 128)"
proof -
  let ?h0 = "UART_HAL_Init H (hw s)"
  note B = SetBaudRate_regs [OF b c sbr, of ?h0]
  obtain r h1 where h1: "UART_HAL_SetBaudRate H (UartFreq E) (baudRate cfg) ?h0 = Some (r, h1)"
    and div1: "divisor_of (view h1) = (if 1 \<le> sbr \<and> sbr \<le> 0x1FFF
      then 32 * sbr + (2 * unat (UartFreq E) div unat (baudRate cfg)) mod 32 else 128)"
    and regs1: "v_reg (view h1) R_C1 = 0" "v_reg (view h1) R_C2 = 0"
      "v_reg (view h1) R_PFIFO = v_reg (view (hw s)) R_PFIFO AND 0x77" "v_reg (view h1) R_BDH AND NOT 0x1F = 0"
  proof (cases "1 \<le> sbr \<and> sbr \<le> 0x1FFF")
    case True
    from B [unfolded if_P [OF True]] obtain h' where
      h': "UART_HAL_SetBaudRate H (UartFreq E) (baudRate cfg) ?h0 = Some (kStatus_UART_Success, h')"
      "divisor_of (view h') = 32 * sbr + 2 * unat (UartFreq E) div unat (baudRate cfg) mod 32"
      "view h' = (view ?h0)\<lparr>v_reg := (v_reg (view ?h0))(R_BDH := v_reg (view h') R_BDH,
          R_BDL := v_reg (view h') R_BDL, R_C4 := v_reg (view h') R_C4)\<rparr>"
      "v_reg (view h') R_BDH AND NOT 0x1F = v_reg (view ?h0) R_BDH AND NOT 0x1F" by blast
    from h'(3) have R: "v_reg (view h') = (v_reg (view ?h0))(R_BDH := v_reg (view h') R_BDH,
          R_BDL := v_reg (view h') R_BDL, R_C4 := v_reg (view h') R_C4)"
      by (metis uart_view.select_convs(1) uart_view.surjective uart_view.update_convs(1))
    show ?thesis
      by (rule that [OF h'(1)])
        (use True h'(2,4) fun_cong [OF R, of R_C1] fun_cong [OF R, of R_C2] fun_cong [OF R, of R_PFIFO] in \<open>simp_all add: HAL_Init_regs\<close>)
  next
    case False
    show ?thesis
      by (rule that [OF B [unfolded if_not_P [OF False]]])
        (use False in \<open>auto simp: HAL_Init_regs divisor_of_def\<close>)
  qed
  let ?reg = "\<lambda>h. v_reg (view h)"
  define h2 where "h2 = UART_HAL_SetStopBitCount H (stopBitCount cfg) (UART_HAL_SetParityMode H (parityMode cfg)
    (UART_HAL_SetBitCountPerChar H (bitCountPerChar cfg) h1))"
  have r2: "?reg h2 R_C1 = uart_C1 cfg" "?reg h2 R_C2 = 0" "?reg h2 R_PFIFO = v_reg (view (hw s)) R_PFIFO AND 0x77"
    "bit (?reg h2 R_BDH) 5 = (stopBitCount cfg = kUartTwoStopBit)" "divisor_of (view h2) = divisor_of (view h1)"
    by (simp_all add: h2_def UART_HAL_SetStopBitCount_def UART_HAL_SetParityMode_def UART_HAL_SetBitCountPerChar_def
        BW_plain HW_SET_plain regs1 uart_C1_def stop_bit_field divisor_of_def)
  have s2: "UART_HAL_GetTxFifoSize H h2 = (2, h2)"
    using r2(3) fifo_size_8 [OF d8] by (simp add: UART_HAL_GetTxFifoSize_def PFIFO_rd)
  define h3 where "h3 = reg_wr H R_TWFIFO 4 h2"
  have s3: "UART_HAL_SetTxFifoWatermark H 4 h2 = (kStatus_UART_Success, h3)"
    using r2(2) by (simp add: UART_HAL_SetTxFifoWatermark_def h3_def)
  define h4 where "h4 = reg_wr H R_RWFIFO 1 h3"
  have v4: "view h4 = set_reg R_RWFIFO 1 (set_reg R_TWFIFO 4 (view h2))" by (simp add: h4_def h3_def plain_wr)
  have s4: "UART_HAL_SetRxFifoWatermark H 1 h3 = (kStatus_UART_Success, h4)"
    using r2(2) by (simp add: UART_HAL_SetRxFifoWatermark_def h4_def h3_def plain_wr)
  define h5 where "h5 = BW H R_PFIFO 7 True h4"
  have s5: "UART_HAL_SetTxFifoCmd H True h4 = (kStatus_UART_Success, h5)"
    using r2(2) by (simp add: UART_HAL_SetTxFifoCmd_def v4 h5_def)
  define h6 where "h6 = BW H R_PFIFO 3 True h5"
  have s6: "UART_HAL_SetRxFifoCmd H True h5 = (kStatus_UART_Success, h6)"
    using r2(2) by (simp add: UART_HAL_SetRxFifoCmd_def v4 h5_def h6_def)
  define h7 where "h7 = BW H R_CFIFO 7 True h6"
  have s7: "UART_HAL_FlushTxFifo H h6 = (kStatus_UART_Success, h7)"
    using r2(2) by (simp add: UART_HAL_FlushTxFifo_def v4 h5_def h6_def h7_def)
  define h8 where "h8 = BW H R_CFIFO 6 True h7"
  have s8: "UART_HAL_FlushRxFifo H h7 = (kStatus_UART_Success, h8)"
    using r2(2) by (simp add: UART_HAL_FlushRxFifo_def v4 h5_def h6_def h7_def h8_def)
  have R8: "?reg h8 r = ?reg h4 r" if "r \<noteq> R_PFIFO" "r \<noteq> R_CFIFO" for r
    using that by (simp add: h5_def h6_def h7_def h8_def)
  have E8: "v_tx (view h8) = []" "v_rx (view h8) = []" by (simp_all add: h7_def h8_def)
  define h9 where "h9 = UART_HAL_EnableReceiver H (UART_HAL_EnableTransmitter H h8)"
  have v9: "view h9 = set_reg R_C2 0x0C (view h8)"
    using R8 [of R_C2] r2(2)
    by (simp add: h9_def UART_HAL_EnableReceiver_def UART_HAL_EnableTransmitter_def BW_plain v4)
  have run: "UART_DRV_Init E cfg s = Some (kStatus_UART_Success,
      s\<lparr>hw := h9, drv := Some (uart_state_zero\<lparr>txFifoEntryCount := 8\<rparr>), uart_gate := True, uart_nvic := True\<rparr>)"
    unfolding UART_DRV_Init_def E
    by (simp add: Let_def h1 c_def h2_def [symmetric] s2 s3 s4 s5 s6 s7 s8 h9_def uart_state_zero_def)
  show ?thesis
    by (intro exI [of _ h9] conjI run)
      (use E8 r2 div1 in \<open>simp_all add: v9 R8 v4 divisor_of_def\<close>)
qed

text \<open>Flags: clearing one of \<open>S2\<close> writes ones to all that are set; clearing one of \<open>S1\<close> takes a byte.\<close>

lemma S2_clear: "m \<in> {0x80, 0x40} \<Longrightarrow> v_reg (view (HW_SET H R_S2 m h)) R_S2 AND 0xC0 = 0"
proof -
  assume "m \<in> {0x80, 0x40}"
  have "bit ((x AND NOT (x OR m) AND 0xC0 OR (x OR m) AND 0x3E OR x AND 1) AND (0xC0 :: u8)) n = False" for x n
  proof -
    have "(0xC0 :: u8) AND 0x3E = 0" "(0xC0 :: u8) AND 1 = 0" by simp_all
    then have "\<not> (bit (0xC0 :: u8) n \<and> bit (0x3E :: u8) n)" "\<not> (bit (0xC0 :: u8) n \<and> bit (1 :: u8) n)"
      by (metis bit_and_iff bit_0_eq bot_apply bot_bool_def)+
    then show ?thesis by (auto simp only: bit_simps)
  qed
  then show ?thesis by (simp add: HW_SET_def S2_rd S2_wr bit_eq_iff)
qed

lemma read_S1_D_view: "v_rx (view h) = d # q \<Longrightarrow> view (read_S1_D H h) = (view h)\<lparr>v_rx := q\<rparr>"
  using D_rd [of "snd (reg_rd H R_S1 h)" d q] by (simp add: read_S1_D_def S1_rd case_prod_beta Let_def)

lemma HW_SET_rx [simp]:
  "v_rx (view (HW_SET H R_S2 m h)) = v_rx (view h)" "v_rx (view (HW_SET H R_SFIFO m h)) = v_rx (view h)"
  by (simp_all add: HW_SET_def S2_rd S2_wr SFIFO_rd case_prod_beta)

lemma ClearAll_rx:
  assumes "v_rx (view h) = a # b # c # d # e # q"
  shows "v_rx (view (UART_HAL_ClearAllNonAutoclearStatusFlags H h)) = q"
proof -
  let ?g = "read_S1_D H"
  have 1: "v_rx (view (?g h)) = b # c # d # e # q" using assms by (simp add: read_S1_D_view)
  then have 2: "v_rx (view (?g (?g h))) = c # d # e # q" by (simp add: read_S1_D_view)
  then have 3: "v_rx (view (?g (?g (?g h)))) = d # e # q" by (simp add: read_S1_D_view)
  then have 4: "v_rx (view (?g (?g (?g (?g h))))) = e # q" by (simp add: read_S1_D_view)
  then have "v_rx (view (?g (?g (?g (?g (?g h)))))) = q" by (simp add: read_S1_D_view)
  then show ?thesis by (simp add: UART_HAL_ClearAllNonAutoclearStatusFlags_def Let_def)
qed

end

section \<open>Properties\<close>

definition k64_boot :: k64_uart where
  "k64_boot = \<lparr> k_reg = (\<lambda>_. 0)(R_PFIFO := 0x22), k_tx = [], k_rx = [], k_out = [], k_in = [] \<rparr>"

text \<open>C25: when the divisor fits, \<open>UART_HAL_SetBaudRate\<close> programs the divisor in 1/32 steps that is
  exact up to one step, and touches nothing but the three divisor fields. The line then runs at
  \<open>2 * clock / d\<close>.\<close>

theorem SetBaudRate_accurate:
  assumes chip: "uart_chip H view depth shift arrive" and clk: "unat clk < 2 ^ 27"
    and fits: "16 * unat baud \<le> unat clk" "unat clk div (16 * unat baud) \<le> 0x1FFF" and pos: "0 < unat baud"
  shows "\<exists>h'. UART_HAL_SetBaudRate H clk baud h = Some (kStatus_UART_Success, h') \<and>
    divisor_of (view h') * unat baud \<le> 2 * unat clk \<and> 2 * unat clk < (divisor_of (view h') + 1) * unat baud \<and>
    32 \<le> divisor_of (view h') \<and>
    view h' = (view h)\<lparr>v_reg := (v_reg (view h))(R_BDH := v_reg (view h') R_BDH, R_BDL := v_reg (view h') R_BDL,
          R_C4 := v_reg (view h') R_C4)\<rparr> \<and>
    v_reg (view h') R_BDH AND NOT 0x1F = v_reg (view h) R_BDH AND NOT 0x1F \<and>
    v_reg (view h') R_C4 AND NOT 0x1F = v_reg (view h) R_C4 AND NOT 0x1F"
proof -
  let ?n = "unat clk" and ?b = "unat baud"
  let ?q = "?n div (16 * ?b)"
  have "16 * ?b < 2 ^ 28 * 16" using fits(1) clk by simp
  then have b28: "?b < 2 ^ 28" by simp
  have q: "1 \<le> ?q" using fits(1) pos by (simp add: Suc_le_eq div_greater_zero_iff)
  have sbr: "?q = ?q mod 65536" using fits(2) by simp
  from uart_chip.SetBaudRate_regs [OF chip pos b28 clk sbr, of h] q fits(2) obtain h' where
    h': "UART_HAL_SetBaudRate H clk baud h = Some (kStatus_UART_Success, h')"
    "divisor_of (view h') = 32 * ?q + (2 * ?n div ?b) mod 32"
    "view h' = (view h)\<lparr>v_reg := (v_reg (view h))(R_BDH := v_reg (view h') R_BDH, R_BDL := v_reg (view h') R_BDL,
          R_C4 := v_reg (view h') R_C4)\<rparr>"
    "v_reg (view h') R_BDH AND NOT 0x1F = v_reg (view h) R_BDH AND NOT 0x1F"
    "v_reg (view h') R_C4 AND NOT 0x1F = v_reg (view h) R_C4 AND NOT 0x1F" by auto
  have d: "divisor_of (view h') = 2 * ?n div ?b" using h'(2) quot_split [OF pos, of ?n] by simp
  have "divisor_of (view h') * ?b \<le> 2 * ?n" unfolding d by (rule div_times_less_eq_dividend)
  moreover have "2 * ?n < (divisor_of (view h') + 1) * ?b"
    unfolding d using dividend_less_div_times [OF pos, of "2 * ?n"] by (simp add: algebra_simps)
  moreover have "32 \<le> divisor_of (view h')" using h'(2) q by simp
  ultimately show ?thesis using h'(1,3-5) by blast
qed

theorem SetBaudRate_accurate_witness:
  "\<exists>h'. UART_HAL_SetBaudRate k64_chip 120000000 115200 k64_boot = Some (kStatus_UART_Success, h') \<and>
    divisor_of (k64_view h') * 115200 \<le> 240000000 \<and> 240000000 < (divisor_of (k64_view h') + 1) * 115200"
  using SetBaudRate_accurate [OF k64.uart_chip_axioms, of 120000000 115200 k64_boot] by auto

text \<open>a divisor that needs more than 16 bits is cut to 16 before its range is checked, so rates
  far below the slowest one are accepted and another rate is programmed: at 120 MHz the request
  for 110 Bd gives 2834 Bd.\<close>

theorem SetBaudRate_truncates:
  assumes chip: "uart_chip H view depth shift arrive" and clk: "unat clk < 2 ^ 27" and pos: "0 < unat baud"
    and q: "q = unat clk div (16 * unat baud)" "65536 \<le> q" "1 \<le> q mod 65536" "q mod 65536 \<le> 0x1FFF"
  shows "\<exists>h'. UART_HAL_SetBaudRate H clk baud h = Some (kStatus_UART_Success, h') \<and>
    divisor_of (view h') = 32 * (q mod 65536) + (2 * unat clk div unat baud) mod 32 \<and>
    divisor_of (view h') + 32 * 65536 \<le> 2 * unat clk div unat baud"
proof -
  let ?n = "unat clk" and ?b = "unat baud"
  have "16 * ?b \<le> ?n" using q by (metis div_less not_le not_numeral_le_zero)
  then have b28: "?b < 2 ^ 28" using clk by simp
  have sbr: "q mod 65536 = ?n div (16 * ?b) mod 65536" using q by simp
  from uart_chip.SetBaudRate_regs [OF chip pos b28 clk sbr, of h] q obtain h' where
    h': "UART_HAL_SetBaudRate H clk baud h = Some (kStatus_UART_Success, h')"
    "divisor_of (view h') = 32 * (q mod 65536) + (2 * ?n div ?b) mod 32" by auto
  have "q = 65536 * (q div 65536) + q mod 65536" by simp
  moreover have "1 \<le> q div 65536" using q(2) by (simp add: Suc_le_eq div_greater_zero_iff)
  ultimately have "q mod 65536 + 65536 \<le> q" by linarith
  then have "divisor_of (view h') + 32 * 65536 \<le> 2 * ?n div ?b"
    using h'(2) quot_split [OF pos, of ?n] q(1) by linarith
  then show ?thesis using h' by blast
qed

theorem SetBaudRate_truncates_witness:
  "\<exists>h'. UART_HAL_SetBaudRate k64_chip 120000000 110 k64_boot = Some (kStatus_UART_Success, h') \<and>
    240000000 div divisor_of (k64_view h') = 2834"
  using SetBaudRate_truncates [OF k64.uart_chip_axioms, of 120000000 110 68181 k64_boot] by auto

text \<open>\<open>UART_DRV_Init\<close> leaves the UART enabled with empty FIFOs of eight entries, the
  watermarks in the middle and at one byte, the character format of the configuration and no
  transfer in progress. It returns success even when the baud rate cannot be programmed, and then
  the line runs at the reset divisor of 4.\<close>

theorem UART_DRV_Init_ready:
  assumes chip: "uart_chip H view depth shift arrive" and E: "chip E = H"
    and size8: "v_reg (view (hw s)) R_PFIFO AND 0x70 = 0x20"
    and b: "0 < unat (baudRate cfg)" "unat (baudRate cfg) < 2 ^ 28" and clk: "unat (UartFreq E) < 2 ^ 27"
    and sbr: "sbr = (unat (UartFreq E) div (16 * unat (baudRate cfg))) mod 65536"
  shows "\<exists>h'. UART_DRV_Init E cfg s = Some (kStatus_UART_Success,
      s\<lparr>hw := h', drv := Some (uart_state_zero\<lparr>txFifoEntryCount := 8\<rparr>), uart_gate := True, uart_nvic := True\<rparr>) \<and>
    v_tx (view h') = [] \<and> v_rx (view h') = [] \<and> v_reg (view h') R_C1 = uart_C1 cfg \<and>
    v_reg (view h') R_C2 = 0x0C \<and> v_reg (view h') R_TWFIFO = 4 \<and> v_reg (view h') R_RWFIFO = 1 \<and>
    bit (v_reg (view h') R_BDH) 5 = (stopBitCount cfg = kUartTwoStopBit) \<and>
    divisor_of (view h') = (if 1 \<le> sbr \<and> sbr \<le> 0x1FFF
      then 32 * sbr + (2 * unat (UartFreq E) div unat (baudRate cfg)) mod 32 else 128)"
  by (rule uart_chip.UART_DRV_Init_spec [OF chip E size8 b clk sbr])

definition k64_env :: "k64_uart uart_env" where
  "k64_env = \<lparr> chip = k64_chip, UartFreq = 120000000, rx_call = (\<lambda>_ _ _ m. (kStatus_UART_Success, m)),
     elapse = (\<lambda>s. Some s) \<rparr>"

definition k64_sys :: "(nat \<Rightarrow> u8 option) \<Rightarrow> k64_uart uart_sys" where
  "k64_sys m = \<lparr> hw = k64_boot, ram = m, drv = None, uart_gate = False, uart_nvic = False, now_ms = 0 \<rparr>"

definition cfg_9600 :: uart_user_config where
  "cfg_9600 = \<lparr> baudRate = 9600, parityMode = kUartParityDisabled, stopBitCount = kUartOneStopBit,
     bitCountPerChar = kUart8BitsPerChar \<rparr>"

theorem UART_DRV_Init_ready_witness:
  "\<exists>h'. UART_DRV_Init k64_env cfg_9600 (k64_sys Map.empty) = Some (kStatus_UART_Success,
      (k64_sys Map.empty)\<lparr>hw := h', drv := Some (uart_state_zero\<lparr>txFifoEntryCount := 8\<rparr>), uart_gate := True, uart_nvic := True\<rparr>) \<and>
    v_reg (k64_view h') R_C1 = 0 \<and> divisor_of (k64_view h') = 25000"
proof -
  have "v_reg (k64_view (hw (k64_sys Map.empty))) R_PFIFO AND 0x70 = 0x20"
    by (simp add: k64_view_def k64_sys_def k64_boot_def)
  from UART_DRV_Init_ready [OF k64.uart_chip_axioms _ this, of k64_env cfg_9600 781]
  show ?thesis by (auto simp: k64_env_def cfg_9600_def uart_C1_def)
qed

text \<open>\<open>UART_HAL_ClearStatusFlag\<close> is not limited to the flag it is asked for: clearing the line
  break flag also clears a pending active edge and the reverse, since the flags that are read as
  set are written back as ones. \<open>UART_HAL_ClearAllNonAutoclearStatusFlags\<close> reads the data register
  for each of five flags and so discards the five oldest received bytes.\<close>

theorem ClearStatusFlag_takes_more:
  assumes chip: "uart_chip H view depth shift arrive" and f: "f \<in> {kUartLineBreakDetect, kUartRxActiveEdgeDetect}"
    and rx: "5 \<le> length (v_rx (view h))"
  shows "v_reg (view (snd (UART_HAL_ClearStatusFlag H f h))) R_S2 AND 0xC0 = 0 \<and>
    v_rx (view (UART_HAL_ClearAllNonAutoclearStatusFlags H h)) = drop 5 (v_rx (view h))"
proof
  show "v_reg (view (snd (UART_HAL_ClearStatusFlag H f h))) R_S2 AND 0xC0 = 0"
    using f uart_chip.S2_clear [OF chip] by auto
  obtain a b c d e q where x: "v_rx (view h) = a # b # c # d # e # q"
    using rx by (auto simp: numeral_eq_Suc Suc_le_length_iff)
  from uart_chip.ClearAll_rx [OF chip x] x
  show "v_rx (view (UART_HAL_ClearAllNonAutoclearStatusFlags H h)) = drop 5 (v_rx (view h))" by simp
qed

theorem ClearStatusFlag_takes_more_witness:
  "k_rx (UART_HAL_ClearAllNonAutoclearStatusFlags k64_chip (k64_boot\<lparr>k_rx := [1, 2, 3, 4, 5, 6]\<rparr>)) = [6] \<and>
   k_reg (snd (UART_HAL_ClearStatusFlag k64_chip kUartLineBreakDetect (k64_boot\<lparr>k_rx := [1, 2, 3, 4, 5, 6],
     k_reg := (\<lambda>_. 0xC0)\<rparr>))) R_S2 AND 0xC0 = 0"
  using ClearStatusFlag_takes_more [OF k64.uart_chip_axioms, of kUartLineBreakDetect "k64_boot\<lparr>k_rx := [1, 2, 3, 4, 5, 6]\<rparr>"]
    ClearStatusFlag_takes_more [OF k64.uart_chip_axioms, of kUartLineBreakDetect "k64_boot\<lparr>k_rx := [1, 2, 3, 4, 5, 6], k_reg := (\<lambda>_. 0xC0)\<rparr>"]
  by (simp add: k64_view_def k64_boot_def del: UART_HAL_ClearStatusFlag.simps)

end
