(* ===== verification/UartTransfer.thy ===== *)
theory UartTransfer
  imports UartConfig
begin

text \<open>
  Transfers of the UART driver: what the interrupt handler and the sending and receiving
  functions do, and the run of a transfer under any interleaving of the transmitter, the
  receiver and the interrupt handler.
\<close>

section \<open>Memory\<close>

definition mem_bytes :: "(nat \<Rightarrow> u8 option) \<Rightarrow> nat \<Rightarrow> nat \<Rightarrow> u8 list" where
  "mem_bytes m a n = map (\<lambda>i. the (m (a + i))) [0..<n]"

definition readable :: "(nat \<Rightarrow> u8 option) \<Rightarrow> nat \<Rightarrow> nat \<Rightarrow> bool" where
  "readable m a n \<longleftrightarrow> (\<forall>i<n. m (a + i) \<noteq> None)"

definition ram_put :: "nat \<Rightarrow> u8 list \<Rightarrow> (nat \<Rightarrow> u8 option) \<Rightarrow> nat \<Rightarrow> u8 option" where
  "ram_put a bs m = (\<lambda>x. if a \<le> x \<and> x < a + length bs then Some (bs ! (x - a)) else m x)"

lemma mem_bytes_simps [simp]: "mem_bytes m a 0 = []" "length (mem_bytes m a n) = n"
  by (simp_all add: mem_bytes_def)

lemma mem_bytes_Suc: "mem_bytes m a (Suc n) = the (m a) # mem_bytes m (a + 1) n"
  by (simp add: mem_bytes_def upt_conv_Cons map_Suc_upt [symmetric] del: upt_Suc)

lemma mem_bytes_split: "k \<le> n \<Longrightarrow> mem_bytes m a k @ mem_bytes m (a + k) (n - k) = mem_bytes m a n"
  by (rule nth_equalityI) (auto simp: mem_bytes_def nth_append)

lemma mem_bytes_cong: "(\<And>i. i < n \<Longrightarrow> m (a + i) = m' (a + i)) \<Longrightarrow> mem_bytes m a n = mem_bytes m' a n"
  by (simp add: mem_bytes_def)

lemma ram_put_Nil [simp]: "ram_put a [] m = m"
  by (rule ext) (auto simp: ram_put_def)

lemma ram_put_Cons: "ram_put (a + 1) bs (m(a \<mapsto> b)) = ram_put a (b # bs) m"
  by (rule ext) (auto simp: ram_put_def nth_Cons')

lemma ram_put_append: "ram_put (a + length bs) cs (ram_put a bs m) = ram_put a (bs @ cs) m"
  by (rule ext) (auto simp: ram_put_def nth_append)

lemma mem_bytes_put: "mem_bytes (ram_put a bs m) a (length bs) = bs"
  by (rule nth_equalityI) (auto simp: mem_bytes_def ram_put_def)

lemma readable_mono: "readable m a n \<Longrightarrow> k \<le> n \<Longrightarrow> readable m a k"
  by (simp add: readable_def)

lemma readable_Suc: "readable m a (Suc n) \<longleftrightarrow> m a \<noteq> None \<and> readable m (a + 1) n"
  by (auto simp: readable_def less_Suc_eq_0_disj)

lemma readable_drop: "readable m a n \<Longrightarrow> readable m (a + k) (n - k)"
  by (simp add: readable_def add.assoc)

lemma readable_put: "readable m a n \<Longrightarrow> readable (ram_put b bs m) a n"
  by (simp add: readable_def ram_put_def)

section \<open>One loop of the driver\<close>

definition tx_finish :: "uart_state \<Rightarrow> uart_state" where
  "tx_finish u = (if isTxBlocking u then u\<lparr>txIrqSync := snd (OSA_SemaPost (txIrqSync u))\<rparr> else u)\<lparr>isTxBusy := False\<rparr>"

definition rx_finish :: "uart_state \<Rightarrow> uart_state" where
  "rx_finish u = (if isRxBlocking u then u\<lparr>rxIrqSync := snd (OSA_SemaPost (rxIrqSync u))\<rparr> else u)\<lparr>isRxBusy := False\<rparr>"

definition tx_adv :: "nat \<Rightarrow> uart_state \<Rightarrow> uart_state" where
  "tx_adv k u = u\<lparr>txBuff := txBuff u + k, txSize := txSize u - of_nat k\<rparr>"

definition rx_adv :: "nat \<Rightarrow> uart_state \<Rightarrow> uart_state" where
  "rx_adv k u = u\<lparr>rxBuff := rxBuff u + k, rxSize := rxSize u - of_nat k\<rparr>"

text \<open>A remaining size of 0 is counted down through \<open>2 ^ 32 - 1\<close>.\<close>

definition tx_total :: "uart_state \<Rightarrow> nat" where
  "tx_total u = (if txSize u = 0 then 2 ^ 32 else unat (txSize u))"

definition rx_total :: "uart_state \<Rightarrow> nat" where
  "rx_total u = (if rxSize u = 0 then 2 ^ 32 else unat (rxSize u))"

lemma total_pos: "0 < tx_total u" "0 < rx_total u"
  by (simp_all add: tx_total_def rx_total_def unat_gt_0)

lemma of_nat_u8_zero: "n < 256 \<Longrightarrow> (of_nat n :: u8) = 0 \<longleftrightarrow> n = 0"
  by (simp only: word_eq_unat unat_of_nat) (simp add: take_bit_nat_eq_self)

lemma dec_zero: "(x :: u32) - 1 = 0 \<longleftrightarrow> (if x = 0 then 2 ^ 32 else unat x) = 1"
proof (cases "x = 0")
  case False
  then have "unat (x - 1) = unat x - 1" by (rule unat_minus_one)
  moreover have "0 < unat x" using False by (simp add: unat_gt_0)
  ultimately show ?thesis using False by (simp add: word_eq_unat) arith
qed simp

lemma dec_total: "(x :: u32) - 1 \<noteq> 0 \<Longrightarrow>
    (if x - 1 = 0 then 2 ^ 32 else unat (x - 1)) = (if x = 0 then 2 ^ 32 else unat x) - 1"
  by (auto simp: unat_minus_one unsigned_minus_1_eq_mask mask_eq_exp_minus_1)

context uart_chip
begin

lemma CompleteSendData_spec:
  "chip E = H \<Longrightarrow> drv s = Some u \<Longrightarrow> UART_DRV_CompleteSendData E s =
    Some (s\<lparr>hw := BW H R_C2 7 False (hw s), drv := Some (tx_finish u)\<rparr>)"
  by (simp add: UART_DRV_CompleteSendData_def tx_finish_def c_def UART_HAL_SetTxDataRegEmptyIntCmd_def)

lemma CompleteReceiveData_spec:
  "chip E = H \<Longrightarrow> drv s = Some u \<Longrightarrow> UART_DRV_CompleteReceiveData E s =
    Some (s\<lparr>hw := BW H R_C2 5 False (hw s), drv := Some (rx_finish u)\<rparr>)"
  by (simp add: UART_DRV_CompleteReceiveData_def rx_finish_def c_def UART_HAL_SetRxDataRegFullIntCmd_def)

lemma tx_fill_spec:
  assumes "chip E = H" "drv s = Some u" "readable (ram s) (txBuff u) (min n (tx_total u))"
    "length (v_tx (view (hw s))) + n \<le> depth" "k = min n (tx_total u)" "fin = (tx_total u \<le> n)"
  shows "\<exists>h'. tx_fill E n s = Some (fin, s\<lparr>hw := h', drv := Some ((if fin then tx_finish else id) (tx_adv k u))\<rparr>) \<and>
    view h' = (if fin then set_reg R_C2 (unset_bit 7 (v_reg (view (hw s)) R_C2)) else id)
      ((view (hw s))\<lparr>v_tx := v_tx (view (hw s)) @ mem_bytes (ram s) (txBuff u) k\<rparr>)"
  using assms
proof (induction n arbitrary: s u k)
  case 0
  then show ?case using total_pos [of u] by (auto simp: tx_adv_def intro!: exI [of _ "hw s"])
next
  case (Suc n)
  let ?v = "view (hw s)"
  obtain j where j: "min (Suc n) (tx_total u) = Suc j" "tx_total u = Suc n \<Longrightarrow> j = n"
    using total_pos [of u] by (cases "min (Suc n) (tx_total u)") auto
  from Suc.prems(3) j obtain b where b: "ram s (txBuff u) = Some b" and
    rd: "readable (ram s) (txBuff u + 1) j" by (auto simp: readable_Suc)
  let ?h1 = "UART_HAL_Putchar H b (hw s)"
  let ?u1 = "u\<lparr>txBuff := txBuff u + 1, txSize := txSize u - 1\<rparr>"
  let ?s1 = "s\<lparr>hw := ?h1, drv := Some ?u1\<rparr>"
  have v1: "view ?h1 = ?v\<lparr>v_tx := v_tx ?v @ [b]\<rparr>" using Suc.prems(4) by (intro Putchar_view) simp
  have adv: "tx_adv m ?u1 = tx_adv (Suc m) u" for m by (simp add: tx_adv_def)
  have step: "tx_fill E (Suc n) s = (if txSize u - 1 = 0 then
      do { s \<leftarrow> UART_DRV_CompleteSendData E ?s1; Some (True, s) } else tx_fill E n ?s1)"
    using Suc.prems(1,2) b by (simp add: c_def)
  show ?case
  proof (cases "txSize u - 1 = 0")
    case True
    then have one: "tx_total u = 1" using dec_zero [of "txSize u"] by (simp add: tx_total_def)
    then have k: "k = 1" "fin" using Suc.prems(5,6) by auto
    have "tx_fill E (Suc n) s = Some (True, ?s1\<lparr>hw := BW H R_C2 7 False ?h1, drv := Some (tx_finish ?u1)\<rparr>)"
      using step True CompleteSendData_spec [OF Suc.prems(1), of ?s1 ?u1] by simp
    then show ?thesis using k b adv [of 0] v1
      by (intro exI [of _ "BW H R_C2 7 False ?h1"]) (simp add: BW_plain mem_bytes_Suc tx_adv_def)
  next
    case False
    have "tx_total ?u1 = (if txSize u - 1 = 0 then 2 ^ 32 else unat (txSize u - 1))" by (simp add: tx_total_def)
    also have "\<dots> = tx_total u - 1" unfolding dec_total [OF False] by (simp add: tx_total_def)
    finally have t1: "tx_total ?u1 = tx_total u - 1" .
    have fin: "fin = (tx_total ?u1 \<le> n)" using t1 Suc.prems(6) total_pos [of u] by auto
    have j': "j = min n (tx_total ?u1)" using j t1 total_pos [of u] by auto
    have "\<exists>h'. tx_fill E n ?s1 = Some (fin, ?s1\<lparr>hw := h', drv := Some ((if fin then tx_finish else id) (tx_adv j ?u1))\<rparr>) \<and>
      view h' = (if fin then set_reg R_C2 (unset_bit 7 (v_reg (view (hw ?s1)) R_C2)) else id)
      ((view (hw ?s1))\<lparr>v_tx := v_tx (view (hw ?s1)) @ mem_bytes (ram ?s1) (txBuff ?u1) j\<rparr>)"
      by (rule Suc.IH) (use Suc.prems rd j' fin v1 in simp_all)
    then obtain h' where h': "tx_fill E n ?s1 = Some (fin, ?s1\<lparr>hw := h', drv := Some ((if fin then tx_finish else id) (tx_adv j ?u1))\<rparr>)"
      "view h' = (if fin then set_reg R_C2 (unset_bit 7 (v_reg (view (hw ?s1)) R_C2)) else id)
      ((view (hw ?s1))\<lparr>v_tx := v_tx (view (hw ?s1)) @ mem_bytes (ram ?s1) (txBuff ?u1) j\<rparr>)" by blast
    have k: "k = Suc j" using Suc.prems(5) j(1) by simp
    show ?thesis using h' step False v1 b
      by (intro exI [of _ h']) (simp add: k mem_bytes_Suc adv [simplified])
  qed
qed

lemma rx_drain_spec:
  assumes "chip E = H" "drv s = Some u" "rxCallback u = None" "length (v_rx (view (hw s))) < 256"
    "readable (ram s) (rxBuff u) (min (length (v_rx (view (hw s)))) (rx_total u))"
    "k = min (length (v_rx (view (hw s)))) (rx_total u)" "fin = (rx_total u \<le> length (v_rx (view (hw s))))"
  shows "\<exists>h'. rx_drain E s = Some (s\<lparr>hw := h', ram := ram_put (rxBuff u) (take k (v_rx (view (hw s)))) (ram s),
      drv := Some ((if fin then rx_finish else id) (rx_adv k u))\<rparr>) \<and>
    view h' = (if fin then set_reg R_C2 (unset_bit 5 (v_reg (view (hw s)) R_C2)) else id)
      ((view (hw s))\<lparr>v_rx := drop k (v_rx (view (hw s)))\<rparr>)"
  using assms
proof (induction "v_rx (view (hw s))" arbitrary: s u k)
  case Nil
  let ?h = "snd (reg_rd H R_RCFIFO (hw s))"
  have "rx_drain E s = Some (s\<lparr>hw := ?h\<rparr>)"
    using Nil RCFIFO_rd(1) [of "hw s"]
    by (subst rx_drain.simps) (simp add: c_def UART_HAL_GetRxDatawordCountInFifo_def case_prod_beta)
  then show ?case using Nil total_pos [of u]
    by (intro exI [of _ ?h]) (auto simp: rx_adv_def RCFIFO_rd Nil.hyps [symmetric])
next
  case (Cons d q)
  let ?v = "view (hw s)" and ?h0 = "snd (reg_rd H R_RCFIFO (hw s))"
  note rx = Cons.hyps(2) [symmetric]
  obtain h1 where h1: "UART_HAL_Getchar H ?h0 = (d, h1)" "view h1 = ?v\<lparr>v_rx := q\<rparr>"
    using Getchar_view [of ?h0 d q] rx by (auto simp: RCFIFO_rd)
  obtain j where j: "min (length (d # q)) (rx_total u) = Suc j"
    using total_pos [of u] by (cases "min (length (d # q)) (rx_total u)") auto
  from Cons.prems(5) j obtain b0 where b0: "ram s (rxBuff u) = Some b0" and
    rd: "readable (ram s) (rxBuff u + 1) j" unfolding rx by (auto simp: readable_Suc)
  let ?u1 = "u\<lparr>rxBuff := rxBuff u + 1, rxSize := rxSize u - 1\<rparr>"
  let ?s1 = "s\<lparr>hw := h1, ram := (ram s)(rxBuff u \<mapsto> d), drv := Some ?u1\<rparr>"
  have "of_nat (length (v_rx ?v)) \<noteq> (0 :: u8)"
    using Cons.prems(4) rx of_nat_u8_zero [of "length (v_rx ?v)"] by simp
  then have step: "rx_drain E s = (if rxSize u - 1 = 0 then UART_DRV_CompleteReceiveData E ?s1 else rx_drain E ?s1)"
    using Cons.prems(1-3) b0 h1(1) RCFIFO_rd(1) [of "hw s"]
    by (subst rx_drain.simps)
      (simp add: c_def UART_HAL_GetRxDatawordCountInFifo_def case_prod_beta rx_store_def rx_callback_def Let_def)
  have adv: "rx_adv m ?u1 = rx_adv (Suc m) u" for m by (simp add: rx_adv_def)
  show ?case
  proof (cases "rxSize u - 1 = 0")
    case True
    then have one: "rx_total u = 1" using dec_zero [of "rxSize u"] by (simp add: rx_total_def)
    then have k: "k = 1" "fin" using Cons.prems(6,7) rx by auto
    have "rx_drain E s = Some (?s1\<lparr>hw := BW H R_C2 5 False h1, drv := Some (rx_finish ?u1)\<rparr>)"
      using step True CompleteReceiveData_spec [OF Cons.prems(1), of ?s1 ?u1] by simp
    then show ?thesis using k adv [of 0] h1(2) ram_put_Cons [of "rxBuff u" "[]" "ram s" d]
      by (intro exI [of _ "BW H R_C2 5 False h1"]) (simp add: BW_plain rx_adv_def rx)
  next
    case False
    have "rx_total ?u1 = (if rxSize u - 1 = 0 then 2 ^ 32 else unat (rxSize u - 1))" by (simp add: rx_total_def)
    also have "\<dots> = rx_total u - 1" unfolding dec_total [OF False] by (simp add: rx_total_def)
    finally have t1: "rx_total ?u1 = rx_total u - 1" .
    have fin: "fin = (rx_total ?u1 \<le> length q)" using t1 Cons.prems(7) rx total_pos [of u] by auto
    have j': "j = min (length q) (rx_total ?u1)" using j t1 total_pos [of u] by auto
    have rd': "readable (ram ?s1) (rxBuff ?u1) j" using rd by (auto simp: readable_def)
    have "\<exists>h'. rx_drain E ?s1 = Some (?s1\<lparr>hw := h', ram := ram_put (rxBuff ?u1) (take j (v_rx (view (hw ?s1)))) (ram ?s1),
      drv := Some ((if fin then rx_finish else id) (rx_adv j ?u1))\<rparr>) \<and>
      view h' = (if fin then set_reg R_C2 (unset_bit 5 (v_reg (view (hw ?s1)) R_C2)) else id)
      ((view (hw ?s1))\<lparr>v_rx := drop j (v_rx (view (hw ?s1)))\<rparr>)"
      by (rule Cons.hyps(1)) (use Cons.prems rx rd' j' fin h1(2) in simp_all)
    then obtain h' where h': "rx_drain E ?s1 = Some (?s1\<lparr>hw := h', ram := ram_put (rxBuff ?u1) (take j (v_rx (view (hw ?s1)))) (ram ?s1),
      drv := Some ((if fin then rx_finish else id) (rx_adv j ?u1))\<rparr>)"
      "view h' = (if fin then set_reg R_C2 (unset_bit 5 (v_reg (view (hw ?s1)) R_C2)) else id)
      ((view (hw ?s1))\<lparr>v_rx := drop j (v_rx (view (hw ?s1)))\<rparr>)" by blast
    have k: "k = Suc j" using Cons.prems(6) j(1) rx by simp
    show ?thesis using h' step False h1(2) ram_put_Cons [of "rxBuff u" "take j q" "ram s" d]
      by (intro exI [of _ h']) (simp add: k rx adv [simplified])
  qed
qed

end

section \<open>The state of transfers\<close>

definition uart_ok :: "('h \<Rightarrow> uart_view) \<Rightarrow> nat \<Rightarrow> 'h uart_sys \<Rightarrow> bool" where
  "uart_ok view depth s \<longleftrightarrow> (case drv s of None \<Rightarrow> False | Some u \<Rightarrow>
     let v = view (hw s) in
     txFifoEntryCount u = of_nat depth \<and> length (v_tx v) \<le> depth \<and> length (v_rx v) \<le> depth \<and>
     rxCallback u = None \<and> v_reg v R_RWFIFO = 1 \<and>
     bit (v_reg v R_C2) 7 = isTxBusy u \<and> bit (v_reg v R_C2) 5 = isRxBusy u \<and>
     (isTxBusy u \<longrightarrow> txSize u \<noteq> 0 \<and> readable (ram s) (txBuff u) (unat (txSize u))) \<and>
     (isRxBusy u \<longrightarrow> rxSize u \<noteq> 0 \<and> readable (ram s) (rxBuff u) (unat (rxSize u))) \<and>
     (isTxBusy u \<and> isRxBusy u \<longrightarrow> txBuff u + unat (txSize u) \<le> rxBuff u \<or> rxBuff u + unat (rxSize u) \<le> txBuff u))"

text \<open>What the running transmission still has to pass to the FIFO.\<close>

definition to_send :: "'h uart_sys \<Rightarrow> u8 list" where
  "to_send s = (case drv s of None \<Rightarrow> []
     | Some u \<Rightarrow> if isTxBusy u then mem_bytes (ram s) (txBuff u) (unat (txSize u)) else [])"

lemma to_send_Some: "drv s = Some u \<Longrightarrow>
    to_send s = (if isTxBusy u then mem_bytes (ram s) (txBuff u) (unat (txSize u)) else [])"
  by (simp add: to_send_def)

lemma uart_okD:
  assumes "uart_ok view depth s" "drv s = Some u"
  shows "txFifoEntryCount u = of_nat depth" "length (v_tx (view (hw s))) \<le> depth" "length (v_rx (view (hw s))) \<le> depth"
    "rxCallback u = None" "v_reg (view (hw s)) R_RWFIFO = 1"
    "bit (v_reg (view (hw s)) R_C2) 7 = isTxBusy u" "bit (v_reg (view (hw s)) R_C2) 5 = isRxBusy u"
    "isTxBusy u \<Longrightarrow> txSize u \<noteq> 0" "isTxBusy u \<Longrightarrow> readable (ram s) (txBuff u) (unat (txSize u))"
    "isRxBusy u \<Longrightarrow> rxSize u \<noteq> 0" "isRxBusy u \<Longrightarrow> readable (ram s) (rxBuff u) (unat (rxSize u))"
    "isTxBusy u \<Longrightarrow> isRxBusy u \<Longrightarrow> txBuff u + unat (txSize u) \<le> rxBuff u \<or> rxBuff u + unat (rxSize u) \<le> txBuff u"
  using assms by (simp_all add: uart_ok_def Let_def)

lemma uart_ok_drv: "uart_ok view depth s \<Longrightarrow> \<exists>u. drv s = Some u"
  by (auto simp: uart_ok_def split: option.splits)

lemma finish_simps [simp]:
  "isTxBusy (tx_finish u) = False" "isRxBusy (tx_finish u) = isRxBusy u" "rxBuff (tx_finish u) = rxBuff u"
  "txBuff (tx_finish u) = txBuff u" "rxSize (tx_finish u) = rxSize u" "txFifoEntryCount (tx_finish u) = txFifoEntryCount u"
  "rxCallback (tx_finish u) = rxCallback u" "txSize (tx_finish u) = txSize u" "isTxBlocking (tx_finish u) = isTxBlocking u"
  "isRxBusy (rx_finish u) = False" "isTxBusy (rx_finish u) = isTxBusy u" "txBuff (rx_finish u) = txBuff u"
  "txSize (rx_finish u) = txSize u" "txFifoEntryCount (rx_finish u) = txFifoEntryCount u"
  "rxCallback (rx_finish u) = rxCallback u" "rxBuff (rx_finish u) = rxBuff u" "rxSize (rx_finish u) = rxSize u"
  "isTxBlocking (rx_finish u) = isTxBlocking u" "txIrqSync (rx_finish u) = txIrqSync u"
  "txIrqSync (tx_finish u) = (if isTxBlocking u then snd (OSA_SemaPost (txIrqSync u)) else txIrqSync u)"
  by (simp_all add: tx_finish_def rx_finish_def)

lemma adv_simps [simp]:
  "isTxBusy (tx_adv k u) = isTxBusy u" "isRxBusy (tx_adv k u) = isRxBusy u" "rxBuff (tx_adv k u) = rxBuff u"
  "rxSize (tx_adv k u) = rxSize u" "txFifoEntryCount (tx_adv k u) = txFifoEntryCount u" "rxCallback (tx_adv k u) = rxCallback u"
  "txBuff (tx_adv k u) = txBuff u + k" "isTxBlocking (tx_adv k u) = isTxBlocking u" "txIrqSync (tx_adv k u) = txIrqSync u"
  "isTxBusy (rx_adv k u) = isTxBusy u" "isRxBusy (rx_adv k u) = isRxBusy u" "txBuff (rx_adv k u) = txBuff u"
  "txSize (rx_adv k u) = txSize u" "txFifoEntryCount (rx_adv k u) = txFifoEntryCount u" "rxCallback (rx_adv k u) = rxCallback u"
  "rxBuff (rx_adv k u) = rxBuff u + k" "isTxBlocking (rx_adv k u) = isTxBlocking u" "txIrqSync (rx_adv k u) = txIrqSync u"
  by (simp_all add: tx_adv_def rx_adv_def)

lemma adv_size:
  "k \<le> unat (txSize u) \<Longrightarrow> unat (txSize (tx_adv k u)) = unat (txSize u) - k"
  "k \<le> unat (rxSize u) \<Longrightarrow> unat (rxSize (rx_adv k u)) = unat (rxSize u) - k"
proof -
  have "unat (x - of_nat k) = unat x - k" if "k \<le> unat x" for x :: u32
  proof -
    have "unat (of_nat k :: u32) = k"
      using that unat_u32_lt [of x] by (simp add: unat_of_nat take_bit_nat_eq_self)
    then show ?thesis using that by (simp add: unat_sub word_le_nat_alt)
  qed
  then show "k \<le> unat (txSize u) \<Longrightarrow> unat (txSize (tx_adv k u)) = unat (txSize u) - k"
    "k \<le> unat (rxSize u) \<Longrightarrow> unat (rxSize (rx_adv k u)) = unat (rxSize u) - k"
    by (simp_all add: tx_adv_def rx_adv_def)
qed

lemma unat_nz: "x \<noteq> 0 \<Longrightarrow> 0 < unat (x :: u32)"
  by (simp add: unat_gt_0)

context uart_chip
begin

lemma irq_rx_spec:
  assumes E: "chip E = H" and ok: "uart_ok view depth s" and u: "drv s = Some u"
    and k: "k = (if isRxBusy u then min (length (v_rx (view (hw s)))) (unat (rxSize u)) else 0)"
  shows "\<exists>h' u'. irq_rx E s = Some (s\<lparr>hw := h', ram := ram_put (rxBuff u) (take k (v_rx (view (hw s)))) (ram s), drv := Some u'\<rparr>) \<and>
    uart_ok view depth (s\<lparr>hw := h', ram := ram_put (rxBuff u) (take k (v_rx (view (hw s)))) (ram s), drv := Some u'\<rparr>) \<and>
    v_tx (view h') = v_tx (view (hw s)) \<and> v_out (view h') = v_out (view (hw s)) \<and> v_in (view h') = v_in (view (hw s)) \<and>
    v_rx (view h') = drop k (v_rx (view (hw s))) \<and> v_reg (view h') R_TWFIFO = v_reg (view (hw s)) R_TWFIFO \<and>
    isRxBusy u' = (isRxBusy u \<and> k < unat (rxSize u)) \<and> rxBuff u' = rxBuff u + k \<and>
    unat (rxSize u') = unat (rxSize u) - k \<and>
    txBuff u' = txBuff u \<and> txSize u' = txSize u \<and> isTxBusy u' = isTxBusy u \<and>
    isTxBlocking u' = isTxBlocking u \<and> txIrqSync u' = txIrqSync u"
proof -
  note ok' = uart_okD [OF ok u]
  let ?v = "view (hw s)" and ?h1 = "snd (reg_rd H R_S1 (hw s))"
  show ?thesis
  proof (cases "isRxBusy u \<and> v_rx ?v \<noteq> []")
    case False
    then have k0: "k = 0" using k by auto
    have "\<exists>h'. irq_rx E s = Some (s\<lparr>hw := h'\<rparr>) \<and> view h' = ?v"
    proof (cases "isRxBusy u")
      case True
      then have "v_rx ?v = []" using False by simp
      then have "\<not> bit (fst (reg_rd H R_S1 (hw s))) 5" using ok'(5) by (simp add: S1_RDRF)
      then show ?thesis using E ok'(7) True S1_rd [of "hw s"]
        by (intro exI [of _ ?h1]) (simp add: irq_rx_def c_def UART_HAL_GetRxDataRegFullIntCmd_def
            UART_HAL_IsRxDataRegFull_def BR_def [of H R_S1] case_prod_beta)
    next
      case False
      then show ?thesis using E ok'(7)
        by (intro exI [of _ "hw s"]) (simp add: irq_rx_def c_def UART_HAL_GetRxDataRegFullIntCmd_def)
    qed
    then obtain h' where h': "irq_rx E s = Some (s\<lparr>hw := h'\<rparr>)" "view h' = ?v" by blast
    have s': "s\<lparr>hw := h', ram := ram_put (rxBuff u) (take k (v_rx ?v)) (ram s), drv := Some u\<rparr> = s\<lparr>hw := h'\<rparr>"
      using u k0 by simp
    have ok2: "uart_ok view depth (s\<lparr>hw := h'\<rparr>)" using ok h'(2) u by (simp add: uart_ok_def)
    have "isRxBusy u \<Longrightarrow> 0 < unat (rxSize u)" using ok'(10) unat_nz by blast
    then show ?thesis using h' k0 ok2
      by (intro exI [of _ h'] exI [of _ u]) (unfold s', auto)
  next
    case True
    then have busy: "isRxBusy u" and ne: "v_rx ?v \<noteq> []" by simp_all
    have tot: "rx_total u = unat (rxSize u)" using ok'(10) [OF busy] by (simp add: rx_total_def)
    have kk: "k = min (length (v_rx ?v)) (unat (rxSize u))" using k busy by simp
    have rdrf: "bit (fst (reg_rd H R_S1 (hw s))) 5" using ok'(5) ne by (simp add: S1_RDRF Suc_le_eq)
    let ?s1 = "s\<lparr>hw := ?h1\<rparr>" and ?fin = "unat (rxSize u) \<le> length (v_rx ?v)"
    have run: "irq_rx E s = rx_drain E ?s1" using E ok'(7) busy rdrf
      by (simp add: irq_rx_def c_def UART_HAL_GetRxDataRegFullIntCmd_def UART_HAL_IsRxDataRegFull_def
          BR_def [of H R_S1] case_prod_beta)
    have "\<exists>h'. rx_drain E ?s1 = Some (?s1\<lparr>hw := h', ram := ram_put (rxBuff u) (take k (v_rx (view (hw ?s1)))) (ram ?s1),
      drv := Some ((if ?fin then rx_finish else id) (rx_adv k u))\<rparr>) \<and>
      view h' = (if ?fin then set_reg R_C2 (unset_bit 5 (v_reg (view (hw ?s1)) R_C2)) else id)
      ((view (hw ?s1))\<lparr>v_rx := drop k (v_rx (view (hw ?s1)))\<rparr>)"
      by (rule rx_drain_spec)
        (use E u ok'(3,4) depth_pos tot kk readable_mono [OF ok'(11) [OF busy], of k] in \<open>simp_all add: S1_rd\<close>)
    then obtain h' where h': "rx_drain E ?s1 = Some (s\<lparr>hw := h', ram := ram_put (rxBuff u) (take k (v_rx ?v)) (ram s),
      drv := Some ((if ?fin then rx_finish else id) (rx_adv k u))\<rparr>)"
      and v': "view h' = (if ?fin then set_reg R_C2 (unset_bit 5 (v_reg ?v R_C2)) else id) (?v\<lparr>v_rx := drop k (v_rx ?v)\<rparr>)"
      by (auto simp: S1_rd)
    let ?u' = "(if ?fin then rx_finish else id) (rx_adv k u)"
    have sz: "unat (rxSize (rx_adv k u)) = unat (rxSize u) - k" using kk by (intro adv_size) simp
    have ok2: "uart_ok view depth (s\<lparr>hw := h', ram := ram_put (rxBuff u) (take k (v_rx ?v)) (ram s), drv := Some ?u'\<rparr>)"
    proof -
      have nf: "rxSize (rx_adv k u) \<noteq> 0" if "\<not> ?fin" using that sz kk by (auto simp: word_eq_unat)
      have rd: "readable (ram s) (rxBuff u + k) (unat (rxSize u) - k)" using readable_drop [OF ok'(11) [OF busy]] .
      have dj: "txBuff u + unat (txSize u) \<le> rxBuff u + k \<or> rxBuff u + k + (unat (rxSize u) - k) \<le> txBuff u" if "isTxBusy u"
        using ok'(12) [OF that busy] kk by auto
      show ?thesis
        using ok' nf rd dj busy sz by (auto simp: uart_ok_def Let_def v' bit_unset_bit_iff readable_put)
    qed
    show ?thesis
      by (intro exI [of _ h'] exI [of _ ?u'])
        (use run h' v' ok2 sz busy kk in \<open>auto\<close>)
  qed
qed

lemma irq_tx_spec:
  assumes E: "chip E = H" and ok: "uart_ok view depth s" and u: "drv s = Some u"
    and k: "k = (if isTxBusy u \<and> length (v_tx (view (hw s))) \<le> unat (v_reg (view (hw s)) R_TWFIFO)
      then min (depth - length (v_tx (view (hw s)))) (unat (txSize u)) else 0)"
  shows "\<exists>h' u'. irq_tx E s = Some (s\<lparr>hw := h', drv := Some u'\<rparr>) \<and> uart_ok view depth (s\<lparr>hw := h', drv := Some u'\<rparr>) \<and>
    v_tx (view h') = v_tx (view (hw s)) @ mem_bytes (ram s) (txBuff u) k \<and>
    v_rx (view h') = v_rx (view (hw s)) \<and> v_out (view h') = v_out (view (hw s)) \<and> v_in (view h') = v_in (view (hw s)) \<and>
    v_reg (view h') R_TWFIFO = v_reg (view (hw s)) R_TWFIFO \<and>
    isTxBusy u' = (isTxBusy u \<and> k < unat (txSize u)) \<and> txBuff u' = txBuff u + k \<and>
    unat (txSize u') = unat (txSize u) - k \<and>
    rxBuff u' = rxBuff u \<and> rxSize u' = rxSize u \<and> isRxBusy u' = isRxBusy u \<and> isTxBlocking u' = isTxBlocking u \<and>
    txIrqSync u' = (if isTxBusy u \<and> \<not> isTxBusy u' \<and> isTxBlocking u then snd (OSA_SemaPost (txIrqSync u)) else txIrqSync u)"
proof -
  note ok' = uart_okD [OF ok u]
  let ?v = "view (hw s)" and ?h1 = "snd (reg_rd H R_S1 (hw s))"
  let ?h2 = "snd (reg_rd H R_TCFIFO ?h1)"
  show ?thesis
  proof (cases "isTxBusy u \<and> length (v_tx ?v) \<le> unat (v_reg ?v R_TWFIFO)")
    case False
    then have k0: "k = 0" using k by auto
    have "\<exists>h'. irq_tx E s = Some (s\<lparr>hw := h'\<rparr>) \<and> view h' = ?v"
    proof (cases "isTxBusy u")
      case True
      then have "\<not> bit (fst (reg_rd H R_S1 (hw s))) 7" using False by (simp add: S1_TDRE)
      then show ?thesis using E ok'(6) True S1_rd [of "hw s"]
        by (intro exI [of _ ?h1]) (simp add: irq_tx_def c_def UART_HAL_GetTxDataRegEmptyIntCmd_def
            UART_HAL_IsTxDataRegEmpty_def BR_def [of H R_S1] case_prod_beta)
    next
      case False
      then show ?thesis using E ok'(6)
        by (intro exI [of _ "hw s"]) (simp add: irq_tx_def c_def UART_HAL_GetTxDataRegEmptyIntCmd_def)
    qed
    then obtain h' where h': "irq_tx E s = Some (s\<lparr>hw := h'\<rparr>)" "view h' = ?v" by blast
    have s': "s\<lparr>hw := h', drv := Some u\<rparr> = s\<lparr>hw := h'\<rparr>" using u by simp
    have ok2: "uart_ok view depth (s\<lparr>hw := h'\<rparr>)" using ok h'(2) u by (simp add: uart_ok_def)
    have "isTxBusy u \<Longrightarrow> 0 < unat (txSize u)" using ok'(8) unat_nz by blast
    then show ?thesis using h' k0 ok2
      by (intro exI [of _ h'] exI [of _ u]) (unfold s', auto)
  next
    case True
    then have busy: "isTxBusy u" and tdre: "bit (fst (reg_rd H R_S1 (hw s))) 7" by (simp_all add: S1_TDRE)
    let ?n = "depth - length (v_tx ?v)"
    have tot: "tx_total u = unat (txSize u)" using ok'(8) [OF busy] by (simp add: tx_total_def)
    have kk: "k = min ?n (unat (txSize u))" using k True by simp
    let ?s1 = "s\<lparr>hw := ?h2\<rparr>" and ?fin = "unat (txSize u) \<le> ?n"
    have cnt: "unat (txFifoEntryCount u - fst (reg_rd H R_TCFIFO ?h1)) = ?n"
    proof -
      have "unat (of_nat depth :: u8) = depth" "unat (of_nat (length (v_tx ?v)) :: u8) = length (v_tx ?v)"
        using depth_pos ok'(2) by (simp_all add: unat_of_nat take_bit_nat_eq_self)
      then show ?thesis using ok'(1,2) by (simp add: TCFIFO_rd S1_rd unat_sub word_le_nat_alt)
    qed
    have run: "irq_tx E s = map_option snd (tx_fill E ?n ?s1)"
      using E ok'(6) busy tdre u ok'(8) cnt
      by (simp add: irq_tx_def c_def UART_HAL_GetTxDataRegEmptyIntCmd_def UART_HAL_IsTxDataRegEmpty_def
          UART_HAL_GetTxDatawordCountInFifo_def BR_def [of H R_S1] case_prod_beta map_option_case split: option.split)
    have "\<exists>h'. tx_fill E ?n ?s1 = Some (?fin, ?s1\<lparr>hw := h', drv := Some ((if ?fin then tx_finish else id) (tx_adv k u))\<rparr>) \<and>
      view h' = (if ?fin then set_reg R_C2 (unset_bit 7 (v_reg (view (hw ?s1)) R_C2)) else id)
      ((view (hw ?s1))\<lparr>v_tx := v_tx (view (hw ?s1)) @ mem_bytes (ram ?s1) (txBuff u) k\<rparr>)"
      by (rule tx_fill_spec)
        (use E u ok'(2) tot kk readable_mono [OF ok'(9) [OF busy], of k] in \<open>simp_all add: S1_rd TCFIFO_rd\<close>)
    then obtain h' where h': "tx_fill E ?n ?s1 = Some (?fin, s\<lparr>hw := h', drv := Some ((if ?fin then tx_finish else id) (tx_adv k u))\<rparr>)"
      and v': "view h' = (if ?fin then set_reg R_C2 (unset_bit 7 (v_reg ?v R_C2)) else id)
        (?v\<lparr>v_tx := v_tx ?v @ mem_bytes (ram s) (txBuff u) k\<rparr>)"
      by (auto simp: S1_rd TCFIFO_rd)
    let ?u' = "(if ?fin then tx_finish else id) (tx_adv k u)"
    have sz: "unat (txSize (tx_adv k u)) = unat (txSize u) - k" using kk by (intro adv_size) simp
    have ok2: "uart_ok view depth (s\<lparr>hw := h', drv := Some ?u'\<rparr>)"
    proof -
      have nf: "txSize (tx_adv k u) \<noteq> 0" if "\<not> ?fin" using that sz kk by (auto simp: word_eq_unat)
      have rd: "readable (ram s) (txBuff u + k) (unat (txSize u) - k)" using readable_drop [OF ok'(9) [OF busy]] .
      have dj: "txBuff u + k + (unat (txSize u) - k) \<le> rxBuff u \<or> rxBuff u + unat (rxSize u) \<le> txBuff u + k" if "isRxBusy u"
        using ok'(12) [OF busy that] kk by auto
      have len: "length (v_tx ?v) + k \<le> depth" using kk ok'(2) by simp
      show ?thesis
        using ok' nf rd dj len busy sz by (auto simp: uart_ok_def Let_def v' bit_unset_bit_iff)
    qed
    show ?thesis
      by (intro exI [of _ h'] exI [of _ ?u'])
        (use run h' v' ok2 sz busy kk in \<open>auto\<close>)
  qed
qed

lemma irq_spec:
  assumes E: "chip E = H" and ok: "uart_ok view depth s" and u: "drv s = Some u"
    and k: "k = (if isRxBusy u then min (length (v_rx (view (hw s)))) (unat (rxSize u)) else 0)"
  shows "\<exists>s' u'. UART_DRV_IRQHandler E s = Some s' \<and> uart_ok view depth s' \<and> drv s' = Some u' \<and>
    v_out (view (hw s')) = v_out (view (hw s)) \<and> v_in (view (hw s')) = v_in (view (hw s)) \<and>
    v_rx (view (hw s')) = drop k (v_rx (view (hw s))) \<and>
    ram s' = ram_put (rxBuff u) (take k (v_rx (view (hw s)))) (ram s) \<and>
    isRxBusy u' = (isRxBusy u \<and> k < unat (rxSize u)) \<and> rxBuff u' = rxBuff u + k \<and> unat (rxSize u') = unat (rxSize u) - k \<and>
    v_tx (view (hw s')) @ to_send s' = v_tx (view (hw s)) @ to_send s \<and>
    (v_tx (view (hw s)) = [] \<and> isTxBusy u \<longrightarrow> length (to_send s') < length (to_send s)) \<and>
    (isTxBusy u' \<longrightarrow> isTxBusy u) \<and> isTxBlocking u' = isTxBlocking u \<and>
    txIrqSync u' = (if isTxBusy u \<and> \<not> isTxBusy u' \<and> isTxBlocking u then snd (OSA_SemaPost (txIrqSync u)) else txIrqSync u)"
proof (cases "isTxBusy u \<or> isRxBusy u")
  case False
  then have "UART_DRV_IRQHandler E s = Some s" using u by (simp add: UART_DRV_IRQHandler_def)
  moreover have "k = 0" using k False by simp
  ultimately show ?thesis using ok u False by (intro exI [of _ s] exI [of _ u]) auto
next
  case True
  let ?v = "view (hw s)" and ?m = "ram_put (rxBuff u) (take k (v_rx (view (hw s)))) (ram s)"
  from irq_rx_spec [OF E ok u k] obtain h1 u1 where A:
    "irq_rx E s = Some (s\<lparr>hw := h1, ram := ?m, drv := Some u1\<rparr>)"
    "uart_ok view depth (s\<lparr>hw := h1, ram := ?m, drv := Some u1\<rparr>)"
    "v_tx (view h1) = v_tx ?v" "v_out (view h1) = v_out ?v" "v_in (view h1) = v_in ?v"
    "v_rx (view h1) = drop k (v_rx ?v)" "v_reg (view h1) R_TWFIFO = v_reg ?v R_TWFIFO"
    "isRxBusy u1 = (isRxBusy u \<and> k < unat (rxSize u))" "rxBuff u1 = rxBuff u + k"
    "unat (rxSize u1) = unat (rxSize u) - k"
    "txBuff u1 = txBuff u" "txSize u1 = txSize u" "isTxBusy u1 = isTxBusy u"
    "isTxBlocking u1 = isTxBlocking u" "txIrqSync u1 = txIrqSync u" by blast
  let ?s1 = "s\<lparr>hw := h1, ram := ?m, drv := Some u1\<rparr>"
  define j where "j = (if isTxBusy u1 \<and> length (v_tx (view (hw ?s1))) \<le> unat (v_reg (view (hw ?s1)) R_TWFIFO)
      then min (depth - length (v_tx (view (hw ?s1)))) (unat (txSize u1)) else 0)"
  have "drv ?s1 = Some u1" by simp
  from irq_tx_spec [OF E A(2) this j_def] obtain h2 u2 where B:
    "irq_tx E ?s1 = Some (?s1\<lparr>hw := h2, drv := Some u2\<rparr>)" "uart_ok view depth (?s1\<lparr>hw := h2, drv := Some u2\<rparr>)"
    "v_tx (view h2) = v_tx (view (hw ?s1)) @ mem_bytes (ram ?s1) (txBuff u1) j"
    "v_rx (view h2) = v_rx (view (hw ?s1))" "v_out (view h2) = v_out (view (hw ?s1))" "v_in (view h2) = v_in (view (hw ?s1))"
    "v_reg (view h2) R_TWFIFO = v_reg (view (hw ?s1)) R_TWFIFO"
    "isTxBusy u2 = (isTxBusy u1 \<and> j < unat (txSize u1))" "txBuff u2 = txBuff u1 + j" "unat (txSize u2) = unat (txSize u1) - j"
    "rxBuff u2 = rxBuff u1" "rxSize u2 = rxSize u1" "isRxBusy u2 = isRxBusy u1" "isTxBlocking u2 = isTxBlocking u1"
    "txIrqSync u2 = (if isTxBusy u1 \<and> \<not> isTxBusy u2 \<and> isTxBlocking u1 then snd (OSA_SemaPost (txIrqSync u1)) else txIrqSync u1)"
    by (elim exE conjE) (rule that; assumption)
  let ?s2 = "?s1\<lparr>hw := h2, drv := Some u2\<rparr>"
  have run: "UART_DRV_IRQHandler E s = Some ?s2"
    using u True A(1) B(1) by (auto simp: UART_DRV_IRQHandler_def)
  have jle: "j \<le> unat (txSize u)" using A(12) by (simp add: j_def)
  have keep: "mem_bytes ?m (txBuff u) (unat (txSize u)) = mem_bytes (ram s) (txBuff u) (unat (txSize u))" if "isTxBusy u"
  proof (rule mem_bytes_cong)
    fix i assume i: "i < unat (txSize u)"
    show "?m (txBuff u + i) = ram s (txBuff u + i)"
    proof (cases "isRxBusy u")
      case True
      from uart_okD(12) [OF ok u that True] show ?thesis using i k True by (auto simp: ram_put_def)
    next
      case False
      then show ?thesis using k by simp
    qed
  qed
  have send2: "to_send ?s2 = (if isTxBusy u \<and> j < unat (txSize u) then mem_bytes ?m (txBuff u + j) (unat (txSize u) - j) else [])"
    using A(11-13) B(8-10) by (simp add: to_send_def)
  have send: "mem_bytes ?m (txBuff u) j @ to_send ?s2 = to_send s"
  proof (cases "isTxBusy u")
    case True
    have "mem_bytes ?m (txBuff u) j @ mem_bytes ?m (txBuff u + j) (unat (txSize u) - j) = mem_bytes ?m (txBuff u) (unat (txSize u))"
      by (rule mem_bytes_split [OF jle])
    moreover have "to_send ?s2 = mem_bytes ?m (txBuff u + j) (unat (txSize u) - j)"
      using send2 True jle by auto
    ultimately show ?thesis using True u keep by (simp add: to_send_def)
  next
    case False
    then show ?thesis using send2 u A(13) by (simp add: to_send_def j_def)
  qed
  have less: "length (to_send ?s2) < length (to_send s)" if "v_tx ?v = []" "isTxBusy u"
  proof -
    have "0 < j" using that A(3,12,13) depth_pos(1) unat_nz [OF uart_okD(8) [OF ok u that(2)]] by (simp add: j_def)
    then show ?thesis using arg_cong [OF send, of length] by simp
  qed
  show ?thesis
    by (intro exI [of _ ?s2] exI [of _ u2])
      (use run A(3-6,8-15) B(2-15) send less in \<open>auto\<close>)
qed

lemma start_send_spec:
  assumes E: "chip E = H" and ok: "uart_ok view depth s" and u: "drv s = Some u" and idle: "\<not> isTxBusy u"
    and len: "len \<noteq> 0" and rd: "readable (ram s) buf (unat len)"
    and dj: "isRxBusy u \<Longrightarrow> buf + unat len \<le> rxBuff u \<or> rxBuff u + unat (rxSize u) \<le> buf"
  shows "\<exists>h' u'. UART_DRV_StartSendData E buf len s = Some (kStatus_UART_Success, s\<lparr>hw := h', drv := Some u'\<rparr>) \<and>
    uart_ok view depth (s\<lparr>hw := h', drv := Some u'\<rparr>) \<and> v_out (view h') = v_out (view (hw s)) \<and>
    v_in (view h') = v_in (view (hw s)) \<and> v_rx (view h') = v_rx (view (hw s)) \<and>
    v_tx (view h') @ to_send (s\<lparr>hw := h', drv := Some u'\<rparr>) = v_tx (view (hw s)) @ mem_bytes (ram s) buf (unat len) \<and>
    isTxBlocking u' = isTxBlocking u \<and>
    txIrqSync u' = (if \<not> isTxBusy u' \<and> isTxBlocking u then snd (OSA_SemaPost (txIrqSync u)) else txIrqSync u)"
proof -
  note ok' = uart_okD [OF ok u]
  let ?v = "view (hw s)" and ?h0 = "snd (reg_rd H R_TCFIFO (hw s))" and ?n = "depth - length (v_tx (view (hw s)))"
  let ?u0 = "u\<lparr>txBuff := buf, txSize := len, isTxBusy := True\<rparr>"
  let ?s0 = "s\<lparr>drv := Some ?u0, hw := ?h0\<rparr>" and ?fin = "unat len \<le> depth - length (v_tx (view (hw s)))"
  define k where "k = min ?n (unat len)"
  have tot: "tx_total ?u0 = unat len" using len by (simp add: tx_total_def)
  have cnt: "unat (txFifoEntryCount u - fst (reg_rd H R_TCFIFO (hw s))) = ?n"
  proof -
    have "unat (of_nat depth :: u8) = depth" "unat (of_nat (length (v_tx ?v)) :: u8) = length (v_tx ?v)"
      using depth_pos ok'(2) by (simp_all add: unat_of_nat take_bit_nat_eq_self)
    then show ?thesis using ok'(1,2) by (simp add: TCFIFO_rd unat_sub word_le_nat_alt)
  qed
  have "\<exists>h'. tx_fill E ?n ?s0 = Some (?fin, ?s0\<lparr>hw := h', drv := Some ((if ?fin then tx_finish else id) (tx_adv k ?u0))\<rparr>) \<and>
    view h' = (if ?fin then set_reg R_C2 (unset_bit 7 (v_reg (view (hw ?s0)) R_C2)) else id)
      ((view (hw ?s0))\<lparr>v_tx := v_tx (view (hw ?s0)) @ mem_bytes (ram ?s0) (txBuff ?u0) k\<rparr>)"
    by (rule tx_fill_spec)
      (use E ok'(2) tot readable_mono [OF rd, of k] in \<open>simp_all add: TCFIFO_rd k_def\<close>)
  then obtain h1 where h1: "tx_fill E ?n ?s0 = Some (?fin, s\<lparr>hw := h1, drv := Some ((if ?fin then tx_finish else id) (tx_adv k ?u0))\<rparr>)"
    and v1: "view h1 = (if ?fin then set_reg R_C2 (unset_bit 7 (v_reg ?v R_C2)) else id)
      (?v\<lparr>v_tx := v_tx ?v @ mem_bytes (ram s) buf k\<rparr>)" by (auto simp: TCFIFO_rd)
  let ?u' = "(if ?fin then tx_finish else id) (tx_adv k ?u0)"
  let ?h' = "if ?fin then h1 else BW H R_C2 7 True h1"
  have v': "view ?h' = set_reg R_C2 (if ?fin then unset_bit 7 (v_reg ?v R_C2) else set_bit 7 (v_reg ?v R_C2))
      (?v\<lparr>v_tx := v_tx ?v @ mem_bytes (ram s) buf k\<rparr>)" using v1 by (simp add: BW_plain)
  have run: "UART_DRV_StartSendData E buf len s = Some (kStatus_UART_Success, s\<lparr>hw := ?h', drv := Some ?u'\<rparr>)"
    using u idle E cnt h1
    by (simp add: UART_DRV_StartSendData_def c_def UART_HAL_GetTxDatawordCountInFifo_def case_prod_beta Let_def
        UART_HAL_SetTxDataRegEmptyIntCmd_def)
  have sz: "unat (txSize (tx_adv k ?u0)) = unat len - k" by (subst adv_size) (simp_all add: k_def)
  have ok2: "uart_ok view depth (s\<lparr>hw := ?h', drv := Some ?u'\<rparr>)"
  proof -
    have nf: "txSize (tx_adv k ?u0) \<noteq> 0" if "\<not> ?fin" using that sz by (auto simp: word_eq_unat k_def)
    have rd': "readable (ram s) (buf + k) (unat len - k)" using readable_drop [OF rd] .
    have dj': "buf + k + (unat len - k) \<le> rxBuff u \<or> rxBuff u + unat (rxSize u) \<le> buf + k" if "isRxBusy u"
      using dj [OF that] by (auto simp: k_def)
    have lenk: "length (v_tx ?v) + k \<le> depth" using ok'(2) by (simp add: k_def)
    show ?thesis
      using ok' nf rd' dj' lenk sz by (auto simp: uart_ok_def Let_def v' bit_unset_bit_iff bit_set_bit_iff)
  qed
  have "mem_bytes (ram s) buf k @ to_send (s\<lparr>hw := ?h', drv := Some ?u'\<rparr>) = mem_bytes (ram s) buf (unat len)"
    using mem_bytes_split [of k "unat len" "ram s" buf] sz by (auto simp: to_send_def k_def min_def)
  then show ?thesis
    by (intro exI [of _ ?h'] exI [of _ ?u']) (use run ok2 in \<open>auto simp: v'\<close>)
qed

end

section \<open>Runs\<close>

text \<open>The transmitter takes a byte, the receiver delivers one, or the interrupt handler runs.\<close>

inductive uart_step :: "'h uart_env \<Rightarrow> ('h \<Rightarrow> 'h) \<Rightarrow> (u8 \<Rightarrow> 'h \<Rightarrow> 'h) \<Rightarrow> 'h uart_sys \<Rightarrow> 'h uart_sys \<Rightarrow> bool"
  for E shift arrive where
  Shift: "uart_step E shift arrive s (on_hw shift s)"
| Arrive: "uart_step E shift arrive s (on_hw (arrive d) s)"
| Irq: "UART_DRV_IRQHandler E s = Some s' \<Longrightarrow> uart_step E shift arrive s s'"

definition tx_stream :: "('h \<Rightarrow> uart_view) \<Rightarrow> 'h uart_sys \<Rightarrow> u8 list" where
  "tx_stream view s = v_out (view (hw s)) @ v_tx (view (hw s)) @ to_send s"

text \<open>\<open>rx_run\<close>: a transfer into \<open>len\<close> bytes at \<open>buf\<close> that began with \<open>old\<close> in the FIFO and the
  log at \<open>n0\<close> bytes has stored \<open>k\<close> bytes.\<close>

definition rx_run :: "('h \<Rightarrow> uart_view) \<Rightarrow> (nat \<Rightarrow> u8 option) \<Rightarrow> nat \<Rightarrow> nat \<Rightarrow> u8 list \<Rightarrow> nat \<Rightarrow> nat \<Rightarrow> 'h uart_sys \<Rightarrow> bool" where
  "rx_run view m buf len old n0 k s \<longleftrightarrow> k \<le> len \<and> n0 \<le> length (v_in (view (hw s))) \<and>
     (\<exists>bs u. length bs = k \<and> ram s = ram_put buf bs m \<and> drv s = Some u \<and>
       bs @ v_rx (view (hw s)) = old @ drop n0 (v_in (view (hw s))) \<and>
       isRxBusy u = (k < len) \<and> (k < len \<longrightarrow> rxBuff u = buf + k \<and> unat (rxSize u) = len - k))"

context uart_chip
begin

lemma shift_view: "view (shift h) = (case v_tx (view h) of [] \<Rightarrow> view h
    | d # q \<Rightarrow> (view h)\<lparr>v_tx := q, v_out := v_out (view h) @ [d]\<rparr>)"
  using shift_some shift_none by (simp split: list.split)

lemma arrive_view: "view (arrive d h) = (if length (v_rx (view h)) < depth
    then (view h)\<lparr>v_rx := v_rx (view h) @ [d], v_in := v_in (view h) @ [d]\<rparr> else view h)"
  using arrive_room arrive_full by simp

lemma ok_shift: "uart_ok view depth s \<Longrightarrow> uart_ok view depth (on_hw shift s)"
  by (cases "v_tx (view (hw s))") (auto simp: uart_ok_def Let_def on_hw_def shift_view split: option.splits)

lemma ok_arrive: "uart_ok view depth s \<Longrightarrow> uart_ok view depth (on_hw (arrive d) s)"
  by (auto simp: uart_ok_def Let_def on_hw_def arrive_view split: option.splits)

lemma to_send_on_hw [simp]: "to_send (on_hw f s) = to_send s"
  by (simp add: to_send_def on_hw_def split: option.split)

lemma tx_stream_shift: "tx_stream view (on_hw shift s) = tx_stream view s"
  by (cases "v_tx (view (hw s))") (simp_all add: tx_stream_def, simp_all add: on_hw_def shift_view)

lemma tx_stream_arrive: "tx_stream view (on_hw (arrive d) s) = tx_stream view s"
  by (simp add: tx_stream_def) (simp add: on_hw_def arrive_view)

lemma step_inv:
  assumes E: "chip E = H" and st: "uart_step E shift arrive s s'" and ok: "uart_ok view depth s"
  shows "uart_ok view depth s' \<and> tx_stream view s' = tx_stream view s"
  using st
proof cases
  case Irq
  from uart_ok_drv [OF ok] obtain u where u: "drv s = Some u" by blast
  from irq_spec [OF E ok u refl] Irq show ?thesis by (auto simp: tx_stream_def)
qed (simp_all add: ok ok_shift ok_arrive tx_stream_shift tx_stream_arrive)

lemma steps_inv:
  assumes E: "chip E = H" and st: "(uart_step E shift arrive)\<^sup>*\<^sup>* s s'" and ok: "uart_ok view depth s"
  shows "uart_ok view depth s' \<and> tx_stream view s' = tx_stream view s"
  using st by induction (use ok step_inv [OF E] in auto)

lemma irq_returns:
  assumes "chip E = H" "uart_ok view depth s"
  shows "\<exists>s'. UART_DRV_IRQHandler E s = Some s'"
proof -
  from uart_ok_drv [OF assms(2)] obtain u where "drv s = Some u" by blast
  from irq_spec [OF assms this refl] show ?thesis by blast
qed

lemma step_rx_run:
  assumes E: "chip E = H" and st: "uart_step E shift arrive s s'" and ok: "uart_ok view depth s"
    and run: "rx_run view m buf len old n0 k s"
  shows "\<exists>k'. rx_run view m buf len old n0 k' s'"
  using st
proof cases
  case Shift
  then show ?thesis using run
    by (cases "v_tx (view (hw s))") (auto simp: rx_run_def on_hw_def shift_view intro!: exI [of _ k])
next
  case (Arrive d)
  then show ?thesis using run by (auto simp: rx_run_def on_hw_def arrive_view intro!: exI [of _ k])
next
  case Irq
  from run obtain bs u where R: "k \<le> len" "n0 \<le> length (v_in (view (hw s)))" "length bs = k" "ram s = ram_put buf bs m"
    "drv s = Some u" "bs @ v_rx (view (hw s)) = old @ drop n0 (v_in (view (hw s)))" "isRxBusy u = (k < len)"
    "k < len \<Longrightarrow> rxBuff u = buf + k \<and> unat (rxSize u) = len - k" by (auto simp: rx_run_def)
  define j where "j = (if isRxBusy u then min (length (v_rx (view (hw s)))) (unat (rxSize u)) else 0)"
  let ?q = "v_rx (view (hw s))"
  from irq_spec [OF E ok R(5) j_def] Irq obtain u' where I: "drv s' = Some u'"
    "v_in (view (hw s')) = v_in (view (hw s))" "v_rx (view (hw s')) = drop j ?q"
    "ram s' = ram_put (rxBuff u) (take j ?q) (ram s)"
    "isRxBusy u' = (isRxBusy u \<and> j < unat (rxSize u))" "rxBuff u' = rxBuff u + j" "unat (rxSize u') = unat (rxSize u) - j"
    by auto
  have "rx_run view m buf len old n0 (k + j) s'"
  proof (cases "k < len")
    case True
    note B = R(8) [OF True]
    have j: "j \<le> length ?q" "j \<le> len - k" using R(7) True B by (simp_all add: j_def)
    have "ram s' = ram_put buf (bs @ take j ?q) m" using I(4) R(3,4) B ram_put_append [of buf bs] by simp
    moreover have "(bs @ take j ?q) @ drop j ?q = old @ drop n0 (v_in (view (hw s)))" using R(6) by simp
    ultimately show ?thesis unfolding rx_run_def using I R(1-3,7) B j True
      by (intro conjI exI [of _ "bs @ take j ?q"] exI [of _ u']) auto
  next
    case False
    then have "j = 0" using R(7) by (simp add: j_def)
    then show ?thesis unfolding rx_run_def using I R False
      by (intro conjI exI [of _ bs] exI [of _ u']) auto
  qed
  then show ?thesis by blast
qed

lemma steps_rx_run:
  assumes E: "chip E = H" and st: "(uart_step E shift arrive)\<^sup>*\<^sup>* s s'" and ok: "uart_ok view depth s"
    and run: "rx_run view m buf len old n0 k s"
  shows "\<exists>k'. rx_run view m buf len old n0 k' s'"
  using st
proof induction
  case base
  then show ?case using run by blast
next
  case (step y z)
  then obtain k' where "rx_run view m buf len old n0 k' y" by blast
  moreover have "uart_ok view depth y" using steps_inv [OF E step.hyps(1) ok] by simp
  ultimately show ?case using step_rx_run [OF E step.hyps(2)] by blast
qed

lemma forever_nz: "OSA_WAIT_FOREVER \<noteq> 0"
  by (simp add: OSA_WAIT_FOREVER_def)

text \<open>Waiting: while the processor polls, the transmitter takes a byte and the handler runs.\<close>

lemma ok_view: "view h' = view (hw s) \<Longrightarrow> uart_ok view depth (s\<lparr>hw := h'\<rparr>) = uart_ok view depth s"
  by (simp add: uart_ok_def split: option.split)

lemma stream_view: "view h' = view (hw s) \<Longrightarrow> tx_stream view (s\<lparr>hw := h'\<rparr>) = tx_stream view s"
  by (simp add: tx_stream_def to_send_def split: option.split)

lemma elapse_spec:
  assumes E: "chip E = H" and E0: "chip E0 = H" and el: "elapse E s = UART_DRV_IRQHandler E0 (on_hw shift s)"
    and ok: "uart_ok view depth s" and u: "drv s = Some u"
  shows "\<exists>s' u'. elapse E s = Some s' \<and> uart_ok view depth s' \<and> drv s' = Some u' \<and> tx_stream view s' = tx_stream view s \<and>
    (isTxBusy u' \<longrightarrow> isTxBusy u) \<and> isTxBlocking u' = isTxBlocking u \<and>
    txIrqSync u' = (if isTxBusy u \<and> \<not> isTxBusy u' \<and> isTxBlocking u then snd (OSA_SemaPost (txIrqSync u)) else txIrqSync u) \<and>
    length (v_tx (view (hw s')) @ to_send s') = length (v_tx (view (hw s)) @ to_send s) - (if v_tx (view (hw s)) = [] then 0 else 1) \<and>
    (v_tx (view (hw s)) = [] \<and> isTxBusy u \<longrightarrow> length (to_send s') < length (to_send s))"
proof -
  let ?s = "on_hw shift s"
  have u1: "drv ?s = Some u" using u by (simp add: on_hw_def)
  from irq_spec [OF E0 ok_shift [OF ok] u1 refl] obtain s' u' where I:
    "UART_DRV_IRQHandler E0 ?s = Some s'" "uart_ok view depth s'" "drv s' = Some u'"
    "v_out (view (hw s')) = v_out (view (hw ?s))"
    "v_tx (view (hw s')) @ to_send s' = v_tx (view (hw ?s)) @ to_send ?s"
    "v_tx (view (hw ?s)) = [] \<and> isTxBusy u \<longrightarrow> length (to_send s') < length (to_send ?s)"
    "isTxBusy u' \<longrightarrow> isTxBusy u" "isTxBlocking u' = isTxBlocking u"
    "txIrqSync u' = (if isTxBusy u \<and> \<not> isTxBusy u' \<and> isTxBlocking u then snd (OSA_SemaPost (txIrqSync u)) else txIrqSync u)"
    by blast
  have str: "tx_stream view s' = tx_stream view s" using I(4,5) tx_stream_shift [of s] by (simp add: tx_stream_def)
  have tl: "v_tx (view (hw ?s)) = tl (v_tx (view (hw s)))"
    by (cases "v_tx (view (hw s))") (simp_all add: on_hw_def shift_view)
  have "length (v_tx (view (hw s')) @ to_send s') = length (v_tx (view (hw s)) @ to_send s) - (if v_tx (view (hw s)) = [] then 0 else 1)"
    using I(5) tl by (cases "v_tx (view (hw s))") auto
  moreover have "v_tx (view (hw s)) = [] \<and> isTxBusy u \<longrightarrow> length (to_send s') < length (to_send s)"
    using I(6) tl by simp
  ultimately show ?thesis using I(1-3,7-9) el str by (intro exI [of _ s'] exI [of _ u']) simp
qed

lemma wait_tx_fifo_spec:
  assumes E: "chip E = H" and E0: "chip E0 = H" and el: "\<And>s. elapse E s = UART_DRV_IRQHandler E0 (on_hw shift s)"
    and ok: "uart_ok view depth s" and u: "drv s = Some u" and idle: "\<not> isTxBusy u"
  shows "\<exists>s'. wait_tx_fifo E s = Some s' \<and> uart_ok view depth s' \<and> tx_stream view s' = tx_stream view s \<and>
    v_tx (view (hw s')) = [] \<and> to_send s' = []"
  using ok u idle
proof (induction "length (v_tx (view (hw s)))" arbitrary: s u rule: less_induct)
  case less
  let ?s = "s\<lparr>hw := snd (reg_rd H R_TCFIFO (hw s))\<rparr>"
  have ok1: "uart_ok view depth ?s" and st1: "tx_stream view ?s = tx_stream view s"
    using less.prems(1) ok_view stream_view TCFIFO_rd(2) by blast+
  have "length (v_tx (view (hw s))) < 256" using uart_okD(2) [OF less.prems(1,2)] depth_pos by simp
  note Z = of_nat_u8_zero [OF this]
  show ?case
  proof (cases "v_tx (view (hw s)) = []")
    case True
    then have "wait_tx_fifo E s = Some ?s" using E
      by (subst wait_tx_fifo.simps) (simp add: c_def UART_HAL_GetTxDatawordCountInFifo_def case_prod_beta TCFIFO_rd)
    then show ?thesis using ok1 st1 True less.prems(2,3) by (simp add: TCFIFO_rd to_send_def)
  next
    case False
    then have w: "wait_tx_fifo E s = Option.bind (elapse E ?s) (wait_tx_fifo E)" using E Z
      by (subst wait_tx_fifo.simps) (simp add: c_def UART_HAL_GetTxDatawordCountInFifo_def case_prod_beta TCFIFO_rd)
    have u1: "drv ?s = Some u" using less.prems(2) by simp
    from elapse_spec [OF E E0 el ok1 u1] obtain s' u' where S: "elapse E ?s = Some s'" "uart_ok view depth s'" "drv s' = Some u'"
      "tx_stream view s' = tx_stream view ?s" "isTxBusy u' \<longrightarrow> isTxBusy u"
      "length (v_tx (view (hw s')) @ to_send s') = length (v_tx (view (hw ?s)) @ to_send ?s) - (if v_tx (view (hw ?s)) = [] then 0 else 1)"
      by blast
    have "to_send ?s = []" "to_send s' = []" using less.prems(2,3) S(3,5) by (simp_all add: to_send_Some)
    then have "length (v_tx (view (hw s'))) < length (v_tx (view (hw s)))" using S(6) False by (simp add: TCFIFO_rd)
    from less.hyps [OF this S(2,3)] S(1,4,5) less.prems(3) st1 w show ?thesis by auto
  qed
qed

lemma wait_tx_sem_spec:
  assumes E: "chip E = H" and E0: "chip E0 = H" and el: "\<And>s. elapse E s = UART_DRV_IRQHandler E0 (on_hw shift s)"
    and ok: "uart_ok view depth s" and u: "drv s = Some u" and b: "isTxBlocking u"
    and sem: "txIrqSync u = \<lparr> semCount = (if isTxBusy u then 0 else 1), isWaiting = False, time_start = t0, sem_timeout = t1 \<rparr>"
  shows "\<exists>s' u'. wait_tx_sem E OSA_WAIT_FOREVER s = Some (kStatus_OSA_Success, s') \<and> uart_ok view depth s' \<and>
    drv s' = Some u' \<and> \<not> isTxBusy u' \<and> tx_stream view s' = tx_stream view s"
  using ok u b sem
proof (induction s arbitrary: u rule: wf_induct_rule [OF wf_measures [of
      "[\<lambda>s. length (v_tx (view (hw s)) @ to_send s), \<lambda>s. length (to_send s)]"]])
  case (1 s)
  have put: "put_drv (u\<lparr>txIrqSync := sem\<rparr>) s = s\<lparr>drv := Some (u\<lparr>txIrqSync := sem\<rparr>)\<rparr>" for sem by (simp add: put_drv_def)
  have sync: "uart_ok view depth (s\<lparr>drv := Some (u\<lparr>txIrqSync := sem\<rparr>)\<rparr>)" "tx_stream view (s\<lparr>drv := Some (u\<lparr>txIrqSync := sem\<rparr>)\<rparr>) = tx_stream view s" for sem
    using 1(2,3) by (simp_all add: uart_ok_def tx_stream_def to_send_def Let_def)
  show ?case
  proof (cases "isTxBusy u")
    case False
    let ?u' = "u\<lparr>txIrqSync := (txIrqSync u)\<lparr>semCount := 0, isWaiting := False\<rparr>\<rparr>"
    have "wait_tx_sem E OSA_WAIT_FOREVER s = Some (kStatus_OSA_Success, s\<lparr>drv := Some ?u'\<rparr>)"
      using 1(3,5) False by (subst wait_tx_sem.simps) (simp add: OSA_SemaWait_def put)
    then show ?thesis using sync False by (intro exI [of _ "s\<lparr>drv := Some ?u'\<rparr>"] exI [of _ ?u']) simp
  next
    case True
    have "u\<lparr>txIrqSync := \<lparr>semCount = 0, isWaiting = False, time_start = t0, sem_timeout = t1\<rparr>\<rparr> = u"
      using 1(5) True by (cases u) simp
    then have same: "s\<lparr>drv := Some (u\<lparr>txIrqSync := \<lparr>semCount = 0, isWaiting = False, time_start = t0, sem_timeout = t1\<rparr>\<rparr>)\<rparr> = s"
      using 1(3) by (cases s) simp
    have w: "wait_tx_sem E OSA_WAIT_FOREVER s = Option.bind (elapse E s) (wait_tx_sem E OSA_WAIT_FOREVER)"
      using 1(3,5) True forever_nz by (subst wait_tx_sem.simps) (simp add: OSA_SemaWait_def put same)
    from elapse_spec [OF E E0 el 1(2,3)] obtain s' u' where S: "elapse E s = Some s'" "uart_ok view depth s'" "drv s' = Some u'"
      "tx_stream view s' = tx_stream view s" "isTxBlocking u' = isTxBlocking u"
      "txIrqSync u' = (if isTxBusy u \<and> \<not> isTxBusy u' \<and> isTxBlocking u then snd (OSA_SemaPost (txIrqSync u)) else txIrqSync u)"
      "length (v_tx (view (hw s')) @ to_send s') = length (v_tx (view (hw s)) @ to_send s) - (if v_tx (view (hw s)) = [] then 0 else 1)"
      "v_tx (view (hw s)) = [] \<and> isTxBusy u \<longrightarrow> length (to_send s') < length (to_send s)" by blast
    have dec: "(s', s) \<in> measures [\<lambda>s. length (v_tx (view (hw s)) @ to_send s), \<lambda>s. length (to_send s)]"
      using S(7,8) True by (cases "v_tx (view (hw s))") (simp_all add: in_measures del: length_append)
    have "txIrqSync u' = \<lparr> semCount = (if isTxBusy u' then 0 else 1), isWaiting = False, time_start = t0, sem_timeout = t1 \<rparr>"
      using S(6) True 1(4,5) by (simp add: OSA_SemaPost_def)
    with 1(1) [OF dec S(2,3)] S(5) 1(4) show ?thesis using w S(1,4) by simp
  qed
qed

end

section \<open>Properties\<close>

text \<open>C22: a transmission that \<open>UART_DRV_SendData\<close> accepts puts its bytes on the line in order, behind
  those still in the FIFO: however the transmitter, the receiver and the interrupt handler
  interleave, what was sent, what is in the FIFO and what the driver still holds are always these
  bytes, the FIFO never overflows and the handler never faults.\<close>

theorem uart_send_in_order:
  assumes chip: "uart_chip H view depth shift arrive" and E: "chip E = H" and ok: "uart_ok view depth s"
    and u: "drv s = Some u" "\<not> isTxBusy u" and len: "len \<noteq> 0" and rd: "readable (ram s) buf (unat len)"
    and dj: "isRxBusy u \<Longrightarrow> buf + unat len \<le> rxBuff u \<or> rxBuff u + unat (rxSize u) \<le> buf"
  shows "\<exists>s1. UART_DRV_SendData E buf len s = Some (kStatus_UART_Success, s1) \<and>
    (\<forall>s2. (uart_step E shift arrive)\<^sup>*\<^sup>* s1 s2 \<longrightarrow>
      v_out (view (hw s2)) @ v_tx (view (hw s2)) @ to_send s2 =
        v_out (view (hw s)) @ v_tx (view (hw s)) @ mem_bytes (ram s) buf (unat len) \<and>
      length (v_tx (view (hw s2))) \<le> depth \<and> (\<exists>s3. UART_DRV_IRQHandler E s2 = Some s3))"
proof -
  let ?s = "put_drv (u\<lparr>isTxBlocking := False\<rparr>) s"
  have P: "drv ?s = Some (u\<lparr>isTxBlocking := False\<rparr>)" "hw ?s = hw s" "ram ?s = ram s" by (simp_all add: put_drv_def)
  have ok': "uart_ok view depth ?s" using ok u(1) P by (simp add: uart_ok_def Let_def)
  from uart_chip.start_send_spec [OF chip E ok' P(1) _ len, of buf] u(2) rd dj obtain h' u' where
    S: "UART_DRV_StartSendData E buf len ?s = Some (kStatus_UART_Success, ?s\<lparr>hw := h', drv := Some u'\<rparr>)"
    "uart_ok view depth (?s\<lparr>hw := h', drv := Some u'\<rparr>)" "v_out (view h') = v_out (view (hw ?s))"
    "v_tx (view h') @ to_send (?s\<lparr>hw := h', drv := Some u'\<rparr>) = v_tx (view (hw ?s)) @ mem_bytes (ram ?s) buf (unat len)"
    by (auto simp: P)
  let ?s1 = "?s\<lparr>hw := h', drv := Some u'\<rparr>"
  have "UART_DRV_SendData E buf len s = Some (kStatus_UART_Success, ?s1)"
    using u(1) S(1) by (simp add: UART_DRV_SendData_def)
  moreover have "tx_stream view ?s1 = v_out (view (hw s)) @ v_tx (view (hw s)) @ mem_bytes (ram s) buf (unat len)"
    using S(3,4) P by (simp add: tx_stream_def)
  ultimately show ?thesis
    using uart_chip.steps_inv [OF chip E _ S(2)] uart_chip.irq_returns [OF chip E] uart_okD(2) uart_ok_drv
    unfolding tx_stream_def by (metis (no_types, lifting))
qed

definition k64_ready :: "(nat \<Rightarrow> u8 option) \<Rightarrow> k64_uart uart_sys" where
  "k64_ready m = (k64_sys m)\<lparr>hw := k64_boot\<lparr>k_reg := (\<lambda>_. 0)(R_C2 := 0x0C, R_TWFIFO := 4, R_RWFIFO := 1)\<rparr>,
     drv := Some (uart_state_zero\<lparr>txFifoEntryCount := 8\<rparr>)\<rparr>"

lemma k64_ready_ok: "uart_ok k64_view 8 (k64_ready m)"
  by (simp add: uart_ok_def k64_ready_def k64_view_def k64_sys_def k64_boot_def uart_state_zero_def Let_def)

lemma k64_ready_simps [simp]:
  "drv (k64_ready m) = Some (uart_state_zero\<lparr>txFifoEntryCount := 8\<rparr>)" "ram (k64_ready m) = m"
  "v_out (k64_view (hw (k64_ready m))) = []" "v_tx (k64_view (hw (k64_ready m))) = []"
  "v_rx (k64_view (hw (k64_ready m))) = []" "v_in (k64_view (hw (k64_ready m))) = []"
  "k_out (hw (k64_ready m)) = []" "k_tx (hw (k64_ready m)) = []"
  by (simp_all add: k64_ready_def k64_view_def k64_sys_def k64_boot_def)

lemma k64_env_chip [simp]: "chip k64_env = k64_chip"
  by (simp add: k64_env_def)

definition ten_bytes :: "nat \<Rightarrow> u8 option" where
  "ten_bytes a = (if 100 \<le> a \<and> a < 110 then Some (of_nat (a - 100)) else None)"

lemma ten_bytes: "readable ten_bytes 100 (unat (10 :: u32))" "mem_bytes ten_bytes 100 10 = [0, 1, 2, 3, 4, 5, 6, 7, 8, 9]"
  by (simp_all add: readable_def ten_bytes_def mem_bytes_def upt_rec)

theorem uart_send_in_order_witness:
  "\<exists>s1. UART_DRV_SendData k64_env 100 10 (k64_ready ten_bytes) = Some (kStatus_UART_Success, s1) \<and>
    (\<forall>s2. (uart_step k64_env k64_shift k64_arrive)\<^sup>*\<^sup>* s1 s2 \<longrightarrow>
      k_out (hw s2) @ k_tx (hw s2) @ to_send s2 = [0, 1, 2, 3, 4, 5, 6, 7, 8, 9])"
proof -
  have "\<not> isTxBusy (uart_state_zero\<lparr>txFifoEntryCount := 8\<rparr>)" "(10 :: u32) \<noteq> 0"
    "isRxBusy (uart_state_zero\<lparr>txFifoEntryCount := 8\<rparr>) \<Longrightarrow> P" for P by (simp_all add: uart_state_zero_def)
  from uart_send_in_order [OF k64.uart_chip_axioms k64_env_chip k64_ready_ok [of ten_bytes] k64_ready_simps(1) this(1,2), where buf = 100] ten_bytes
  show ?thesis by (auto simp: k64_view_def uart_state_zero_def)
qed

text \<open>C24: \<open>UART_DRV_SendDataBlocking\<close> without a time limit returns success, and then every byte has
  left the FIFO: the loop that waits for the semaphore and the one that waits for the FIFO both
  end when the transmitter keeps taking bytes and the interrupt is served.\<close>

theorem uart_send_blocking_returns:
  assumes chip: "uart_chip H view depth shift arrive" and E: "chip E = H" "chip E0 = H"
    and el: "\<And>s. elapse E s = UART_DRV_IRQHandler E0 (on_hw shift s)"
    and ok: "uart_ok view depth s" and u: "drv s = Some u" "\<not> isTxBusy u" and sem: "txIrqSync u = OSA_SemaCreate 0"
    and len: "len \<noteq> 0" "buf \<noteq> 0" and rd: "readable (ram s) buf (unat len)"
    and dj: "isRxBusy u \<Longrightarrow> buf + unat len \<le> rxBuff u \<or> rxBuff u + unat (rxSize u) \<le> buf"
  shows "\<exists>s'. UART_DRV_SendDataBlocking E buf len OSA_WAIT_FOREVER s = Some (kStatus_UART_Success, s') \<and>
    v_out (view (hw s')) = v_out (view (hw s)) @ v_tx (view (hw s)) @ mem_bytes (ram s) buf (unat len) \<and>
    v_tx (view (hw s')) = []"
proof -
  let ?s = "put_drv (u\<lparr>isTxBlocking := True\<rparr>) s"
  have P: "drv ?s = Some (u\<lparr>isTxBlocking := True\<rparr>)" "hw ?s = hw s" "ram ?s = ram s" by (simp_all add: put_drv_def)
  have ok': "uart_ok view depth ?s" using ok u(1) P by (simp add: uart_ok_def Let_def)
  from uart_chip.start_send_spec [OF chip E(1) ok' P(1) _ len(1), of buf] u(2) rd dj obtain h' u' where
    S: "UART_DRV_StartSendData E buf len ?s = Some (kStatus_UART_Success, ?s\<lparr>hw := h', drv := Some u'\<rparr>)"
    "uart_ok view depth (?s\<lparr>hw := h', drv := Some u'\<rparr>)" "v_out (view h') = v_out (view (hw ?s))"
    "v_tx (view h') @ to_send (?s\<lparr>hw := h', drv := Some u'\<rparr>) = v_tx (view (hw ?s)) @ mem_bytes (ram ?s) buf (unat len)"
    "isTxBlocking u'" "txIrqSync u' = (if \<not> isTxBusy u' then snd (OSA_SemaPost (txIrqSync u)) else txIrqSync u)"
    by (auto simp: P)
  let ?s1 = "?s\<lparr>hw := h', drv := Some u'\<rparr>"
  have str: "tx_stream view ?s1 = v_out (view (hw s)) @ v_tx (view (hw s)) @ mem_bytes (ram s) buf (unat len)"
    using S(3,4) P by (simp add: tx_stream_def)
  have d1: "drv ?s1 = Some u'" by simp
  have sem1: "txIrqSync u' = \<lparr>semCount = (if isTxBusy u' then 0 else 1), isWaiting = False, time_start = 0, sem_timeout = 0\<rparr>"
    using S(6) sem by (simp add: OSA_SemaPost_def OSA_SemaCreate_def)
  from uart_chip.wait_tx_sem_spec [OF chip E el S(2) d1 S(5) sem1] obtain s2 u2 where
    W: "wait_tx_sem E OSA_WAIT_FOREVER ?s1 = Some (kStatus_OSA_Success, s2)" "uart_ok view depth s2" "drv s2 = Some u2"
    "\<not> isTxBusy u2" "tx_stream view s2 = tx_stream view ?s1" by blast
  from uart_chip.wait_tx_fifo_spec [OF chip E el W(2-4)] obtain s3 where
    F: "wait_tx_fifo E s2 = Some s3" "uart_ok view depth s3" "tx_stream view s3 = tx_stream view s2" "v_tx (view (hw s3)) = []"
    "to_send s3 = []" by blast
  have run: "UART_DRV_SendDataBlocking E buf len OSA_WAIT_FOREVER s = Some (kStatus_UART_Success, s3)"
    using u(1) len(2) S(1) W(1) F(1) by (simp add: UART_DRV_SendDataBlocking_def)
  have "v_out (view (hw s3)) = tx_stream view s3" using F(4,5) by (simp add: tx_stream_def)
  then show ?thesis using run F(3,4) W(5) str by auto
qed

definition k64_poll_env :: "k64_uart uart_env" where
  "k64_poll_env = k64_env\<lparr>elapse := (\<lambda>s. UART_DRV_IRQHandler k64_env (on_hw k64_shift s))\<rparr>"

theorem uart_send_blocking_returns_witness:
  "\<exists>s'. UART_DRV_SendDataBlocking k64_poll_env 100 10 OSA_WAIT_FOREVER (k64_ready ten_bytes) = Some (kStatus_UART_Success, s') \<and>
    k_out (hw s') = [0, 1, 2, 3, 4, 5, 6, 7, 8, 9]"
proof -
  have E: "chip k64_poll_env = k64_chip" by (simp add: k64_poll_env_def)
  have el: "elapse k64_poll_env s = UART_DRV_IRQHandler k64_env (on_hw k64_shift s)" for s by (simp add: k64_poll_env_def)
  have "\<not> isTxBusy (uart_state_zero\<lparr>txFifoEntryCount := 8\<rparr>)"
    "txIrqSync (uart_state_zero\<lparr>txFifoEntryCount := 8\<rparr>) = OSA_SemaCreate 0" "(10 :: u32) \<noteq> 0" "(100 :: nat) \<noteq> 0"
    "isRxBusy (uart_state_zero\<lparr>txFifoEntryCount := 8\<rparr>) \<Longrightarrow> P" for P by (simp_all add: uart_state_zero_def)
  from uart_send_blocking_returns [OF k64.uart_chip_axioms E k64_env_chip el k64_ready_ok [of ten_bytes] k64_ready_simps(1) this(1-4)]
    ten_bytes
  show ?thesis by (auto simp: k64_view_def uart_state_zero_def)
qed

text \<open>C23: a reception that \<open>UART_DRV_ReceiveData\<close> accepts stores the bytes in the order in which the
  receiver delivered them, the ones already in the FIFO first, and nothing outside the buffer: after
  \<open>k\<close> stored bytes the rest is in the FIFO, and the transfer is in progress exactly as long as
  \<open>k\<close> is less than the length.\<close>

theorem uart_receive_in_order:
  assumes chip: "uart_chip H view depth shift arrive" and E: "chip E = H" and ok: "uart_ok view depth s"
    and u: "drv s = Some u" "\<not> isRxBusy u" and len: "len \<noteq> 0" "buf \<noteq> 0" and wr: "readable (ram s) buf (unat len)"
    and dj: "isTxBusy u \<Longrightarrow> txBuff u + unat (txSize u) \<le> buf \<or> buf + unat len \<le> txBuff u"
  shows "\<exists>s1. UART_DRV_ReceiveData E buf len s = Some (kStatus_UART_Success, s1) \<and>
    (\<forall>s2. (uart_step E shift arrive)\<^sup>*\<^sup>* s1 s2 \<longrightarrow>
      (\<exists>k u2. k \<le> unat len \<and> drv s2 = Some u2 \<and> isRxBusy u2 = (k < unat len) \<and>
        mem_bytes (ram s2) buf k @ v_rx (view (hw s2)) =
          v_rx (view (hw s)) @ drop (length (v_in (view (hw s)))) (v_in (view (hw s2))) \<and>
        (\<forall>x. x < buf \<or> buf + k \<le> x \<longrightarrow> ram s2 x = ram s x)))"
proof -
  let ?u = "u\<lparr>isRxBlocking := False, rxBuff := buf, rxSize := len, isRxBusy := True\<rparr>"
  let ?s1 = "s\<lparr>drv := Some ?u, hw := BW H R_C2 5 True (hw s)\<rparr>"
  have run: "UART_DRV_ReceiveData E buf len s = Some (kStatus_UART_Success, ?s1)"
    using u E len(2) by (simp add: UART_DRV_ReceiveData_def UART_DRV_StartReceiveData_def c_def Let_def
        UART_HAL_SetRxDataRegFullIntCmd_def)
  have v1: "view (hw ?s1) = set_reg R_C2 (set_bit 5 (v_reg (view (hw s)) R_C2)) (view (hw s))"
    using uart_chip.BW_plain [OF chip uart_chip.plain_mem(4) [OF chip]] by simp
  have ok1: "uart_ok view depth ?s1"
    using uart_okD [OF ok u(1)] len wr dj by (auto simp: uart_ok_def Let_def v1 [simplified] bit_set_bit_iff)
  have start: "rx_run view (ram s) buf (unat len) (v_rx (view (hw s))) (length (v_in (view (hw s)))) 0 ?s1"
    using len(1) by (auto simp: rx_run_def v1 [simplified] unat_gt_0)
  show ?thesis
  proof (intro exI [of _ ?s1] conjI run allI impI)
    fix s2 assume "(uart_step E shift arrive)\<^sup>*\<^sup>* ?s1 s2"
    from uart_chip.steps_rx_run [OF chip E this ok1 start] obtain k bs u2 where R: "k \<le> unat len" "length bs = k"
      "ram s2 = ram_put buf bs (ram s)" "drv s2 = Some u2"
      "bs @ v_rx (view (hw s2)) = v_rx (view (hw s)) @ drop (length (v_in (view (hw s)))) (v_in (view (hw s2)))"
      "isRxBusy u2 = (k < unat len)" by (auto simp: rx_run_def)
    have "mem_bytes (ram s2) buf k = bs" using R(2,3) mem_bytes_put [of buf bs "ram s"] by simp
    moreover have "\<forall>x. x < buf \<or> buf + k \<le> x \<longrightarrow> ram s2 x = ram s x" using R(2,3) by (auto simp: ram_put_def)
    ultimately show "\<exists>k u2. k \<le> unat len \<and> drv s2 = Some u2 \<and> isRxBusy u2 = (k < unat len) \<and>
        mem_bytes (ram s2) buf k @ v_rx (view (hw s2)) =
          v_rx (view (hw s)) @ drop (length (v_in (view (hw s)))) (v_in (view (hw s2))) \<and>
        (\<forall>x. x < buf \<or> buf + k \<le> x \<longrightarrow> ram s2 x = ram s x)"
      using R by blast
  qed
qed

theorem uart_receive_in_order_witness:
  "\<exists>s1. UART_DRV_ReceiveData k64_env 100 3 (k64_ready ten_bytes) = Some (kStatus_UART_Success, s1) \<and>
    (\<forall>s2. (uart_step k64_env k64_shift k64_arrive)\<^sup>*\<^sup>* s1 s2 \<longrightarrow>
      (\<exists>k \<le> 3. mem_bytes (ram s2) 100 k @ k_rx (hw s2) = k_in (hw s2) \<and> ram s2 103 = Some 3))"
proof -
  have "\<not> isRxBusy (uart_state_zero\<lparr>txFifoEntryCount := 8\<rparr>)" "(3 :: u32) \<noteq> 0" "(100 :: nat) \<noteq> 0"
    "readable (ram (k64_ready ten_bytes)) 100 (unat (3 :: u32))"
    "isTxBusy (uart_state_zero\<lparr>txFifoEntryCount := 8\<rparr>) \<Longrightarrow> P" for P
    by (simp_all add: uart_state_zero_def readable_def ten_bytes_def)
  from uart_receive_in_order [OF k64.uart_chip_axioms k64_env_chip k64_ready_ok [of ten_bytes] k64_ready_simps(1) this(1-4)] this(5)
  obtain s1 where s1: "UART_DRV_ReceiveData k64_env 100 3 (k64_ready ten_bytes) = Some (kStatus_UART_Success, s1)"
    "\<And>s2. (uart_step k64_env k64_shift k64_arrive)\<^sup>*\<^sup>* s1 s2 \<Longrightarrow> \<exists>k u2. k \<le> 3 \<and> drv s2 = Some u2 \<and> isRxBusy u2 = (k < 3) \<and>
      mem_bytes (ram s2) 100 k @ v_rx (k64_view (hw s2)) = drop 0 (v_in (k64_view (hw s2))) \<and>
      (\<forall>x. x < 100 \<or> 100 + k \<le> x \<longrightarrow> ram s2 x = ten_bytes x)" by auto
  have "\<exists>k \<le> 3. mem_bytes (ram s2) 100 k @ k_rx (hw s2) = k_in (hw s2) \<and> ram s2 103 = Some 3"
    if "(uart_step k64_env k64_shift k64_arrive)\<^sup>*\<^sup>* s1 s2" for s2
    using s1(2) [OF that] by (auto simp: k64_view_def ten_bytes_def)
  then show ?thesis using s1(1) by blast
qed

text \<open>a request to send no bytes is not refused: the driver sends what lies behind the pointer
  until the FIFO is full and then keeps the transfer in progress with a remaining size that wrapped
  around to almost \<open>2 ^ 32\<close>.\<close>

theorem uart_send_nothing_overruns:
  assumes chip: "uart_chip H view depth shift arrive" and E: "chip E = H" and ok: "uart_ok view depth s"
    and u: "drv s = Some u" "\<not> isTxBusy u" and n: "n = depth - length (v_tx (view (hw s)))"
    and rd: "readable (ram s) buf n"
  shows "\<exists>s' u'. UART_DRV_SendData E buf 0 s = Some (kStatus_UART_Success, s') \<and>
    v_tx (view (hw s')) = v_tx (view (hw s)) @ mem_bytes (ram s) buf n \<and>
    drv s' = Some u' \<and> isTxBusy u' \<and> txSize u' = - of_nat n \<and> bit (v_reg (view (hw s')) R_C2) 7"
proof -
  let ?u0 = "u\<lparr>isTxBlocking := False, txBuff := buf, txSize := 0, isTxBusy := True\<rparr>"
  let ?h0 = "snd (reg_rd H R_TCFIFO (hw s))" and ?v = "view (hw s)"
  let ?s0 = "s\<lparr>drv := Some ?u0, hw := ?h0\<rparr>"
  note ok' = uart_okD [OF ok u(1)]
  have dp: "0 < depth" "depth < 256" using chip by (simp_all add: uart_chip_def)
  have TC: "fst (reg_rd H R_TCFIFO (hw s)) = of_nat (length (v_tx ?v))" "view ?h0 = ?v"
    using uart_chip.TCFIFO_rd [OF chip] by simp_all
  have cnt: "unat (txFifoEntryCount u - fst (reg_rd H R_TCFIFO (hw s))) = n"
  proof -
    have "unat (of_nat depth :: u8) = depth" "unat (of_nat (length (v_tx ?v)) :: u8) = length (v_tx ?v)"
      using dp ok'(2) by (simp_all add: unat_of_nat take_bit_nat_eq_self)
    then show ?thesis using ok'(1,2) n by (simp add: TC unat_sub word_le_nat_alt)
  qed
  have tot: "tx_total ?u0 = 2 ^ 32" by (simp add: tx_total_def)
  have nl: "n < 2 ^ 32" using n dp by simp
  have "\<exists>h'. tx_fill E n ?s0 = Some (False, ?s0\<lparr>hw := h', drv := Some ((if False then tx_finish else id) (tx_adv n ?u0))\<rparr>) \<and>
    view h' = (if False then set_reg R_C2 (unset_bit 7 (v_reg (view (hw ?s0)) R_C2)) else id)
      ((view (hw ?s0))\<lparr>v_tx := v_tx (view (hw ?s0)) @ mem_bytes (ram ?s0) (txBuff ?u0) n\<rparr>)"
    by (rule uart_chip.tx_fill_spec [OF chip]) (use E ok'(2) tot nl rd n TC in simp_all)
  then obtain h1 where h1: "tx_fill E n ?s0 = Some (False, s\<lparr>hw := h1, drv := Some (tx_adv n ?u0)\<rparr>)"
    "view h1 = ?v\<lparr>v_tx := v_tx ?v @ mem_bytes (ram s) buf n\<rparr>" using TC by auto
  let ?s' = "s\<lparr>hw := BW H R_C2 7 True h1, drv := Some (tx_adv n ?u0)\<rparr>"
  have "UART_DRV_SendData E buf 0 s = Some (kStatus_UART_Success, ?s')"
    using u E cnt h1(1)
    by (simp add: UART_DRV_SendData_def UART_DRV_StartSendData_def c_def UART_HAL_GetTxDatawordCountInFifo_def
        case_prod_beta Let_def UART_HAL_SetTxDataRegEmptyIntCmd_def)
  moreover have "view (BW H R_C2 7 True h1) = set_reg R_C2 (set_bit 7 (v_reg (view h1) R_C2)) (view h1)"
    using uart_chip.BW_plain [OF chip uart_chip.plain_mem(4) [OF chip]] by simp
  ultimately show ?thesis
    by (intro exI [of _ ?s'] exI [of _ "tx_adv n ?u0"]) (simp add: h1(2) bit_set_bit_iff, simp add: tx_adv_def)
qed

theorem uart_send_nothing_overruns_witness:
  "\<exists>s' u'. UART_DRV_SendData k64_env 100 0 (k64_ready ten_bytes) = Some (kStatus_UART_Success, s') \<and>
    k_tx (hw s') = [0, 1, 2, 3, 4, 5, 6, 7] \<and> drv s' = Some u' \<and> unat (txSize u') = 2 ^ 32 - 8"
proof -
  have "\<not> isTxBusy (uart_state_zero\<lparr>txFifoEntryCount := 8\<rparr>)" "8 = 8 - length (v_tx (k64_view (hw (k64_ready ten_bytes))))"
    "readable (ram (k64_ready ten_bytes)) 100 8"
    by (simp_all add: uart_state_zero_def readable_def ten_bytes_def)
  from uart_send_nothing_overruns [OF k64.uart_chip_axioms k64_env_chip k64_ready_ok k64_ready_simps(1) this]
  show ?thesis by (auto simp: k64_view_def mem_bytes_def ten_bytes_def upt_rec)
qed

end
