(* ===== verification/EchoApp.thy ===== *)
theory EchoApp
  imports Bridge PbufData UartTransfer
begin

text \<open>
  The application \<open>echo.c\<close>: the callbacks it registers with the TCP stack, the configuration of
  the UART from the first segment, the two sending loops and a pass of the main loop. The TCP
  functions are a parameter over the memory of the stack and a state of their own; so are the
  placement of objects in memory (for the driver, which gets plain addresses) and the contents
  of uninitialised locals. The LED outputs are left out.
\<close>

section \<open>State\<close>

datatype echo_states = ES_NONE | ES_ACCEPTED | ES_RECEIVED | ES_CLOSING

record echo_state =
  es_state :: echo_states
  es_retries :: u8
  es_pcb :: nat
  es_p :: "addr option"

definition SIZEOF_ECHO_STATE :: u16 where "SIZEOF_ECHO_STATE = 12"

text \<open>The functions whose address the application hands to the stack.\<close>

datatype echo_fn = Fn_echo_accept | Fn_echo_recv | Fn_echo_error | Fn_echo_poll | Fn_echo_sent
  | Fn_TCP_UART_sent

text \<open>
  The functions of the TCP stack, on the packet memory and the connection state \<open>'t\<close>. A pcb is a
  number.
\<close>

record 't tcp_fns =
  tcp_new :: "net \<times> 't \<Rightarrow> nat option \<times> net \<times> 't"
  tcp_bind :: "nat \<Rightarrow> u16 \<Rightarrow> net \<times> 't \<Rightarrow> err_t \<times> net \<times> 't"
  tcp_listen :: "nat \<Rightarrow> net \<times> 't \<Rightarrow> nat option \<times> net \<times> 't"
  tcp_accept :: "nat \<Rightarrow> echo_fn \<Rightarrow> 't \<Rightarrow> 't"
  tcp_setprio :: "nat \<Rightarrow> u8 \<Rightarrow> 't \<Rightarrow> 't"
  tcp_arg :: "nat \<Rightarrow> nat option \<Rightarrow> 't \<Rightarrow> 't"
  tcp_recv :: "nat \<Rightarrow> echo_fn option \<Rightarrow> 't \<Rightarrow> 't"
  tcp_sent :: "nat \<Rightarrow> echo_fn option \<Rightarrow> 't \<Rightarrow> 't"
  tcp_err :: "nat \<Rightarrow> echo_fn option \<Rightarrow> 't \<Rightarrow> 't"
  tcp_poll :: "nat \<Rightarrow> echo_fn option \<Rightarrow> u8 \<Rightarrow> 't \<Rightarrow> 't"
  tcp_sndbuf :: "nat \<Rightarrow> 't \<Rightarrow> u16"
  tcp_write :: "nat \<Rightarrow> u8 list \<Rightarrow> u8 \<Rightarrow> net \<times> 't \<Rightarrow> err_t \<times> net \<times> 't"
  tcp_recved :: "nat \<Rightarrow> u16 \<Rightarrow> net \<times> 't \<Rightarrow> net \<times> 't"
  tcp_close :: "nat \<Rightarrow> net \<times> 't \<Rightarrow> err_t \<times> net \<times> 't"
  tcp_abort :: "nat \<Rightarrow> net \<times> 't \<Rightarrow> net \<times> 't"

text \<open>
  \<open>phys\<close> is the address of a byte of an object and \<open>locate\<close> its inverse; \<open>stack_bytes\<close> and
  \<open>stack_word\<close> are what the uninitialised \<open>tempbuff\<close> and \<open>baudRate\<close> hold.
\<close>

record ('h, 't) app_env =
  tcp :: "'t tcp_fns"
  cff :: "addr \<Rightarrow> net \<Rightarrow> net option"
  uenv :: "'h uart_env"
  phys :: "ptr \<Rightarrow> nat"
  locate :: "nat \<Rightarrow> (addr \<times> nat) option"
  stack_bytes :: "u8 list"
  stack_word :: u32

record ('h, 't) app =
  a_net :: net
  a_tcp :: 't
  a_dev :: dev
  a_uart :: "'h uart_sys"
  a_es :: "nat \<Rightarrow> echo_state option"
  uart_ready :: u8
  echo_pcb :: "nat option"

definition on_tcp :: "('t \<Rightarrow> 't) \<Rightarrow> ('h, 't) app \<Rightarrow> ('h, 't) app" where
  "on_tcp f s = s\<lparr>a_tcp := f (a_tcp s)\<rparr>"

definition on_stack :: "(net \<times> 't \<Rightarrow> net \<times> 't) \<Rightarrow> ('h, 't) app \<Rightarrow> ('h, 't) app" where
  "on_stack f s = (let (n, t) = f (a_net s, a_tcp s) in s\<lparr>a_net := n, a_tcp := t\<rparr>)"

definition from_stack :: "(net \<times> 't \<Rightarrow> 'a \<times> net \<times> 't) \<Rightarrow> ('h, 't) app \<Rightarrow> 'a \<times> ('h, 't) app" where
  "from_stack f s = (let (x, n, t) = f (a_net s, a_tcp s) in (x, s\<lparr>a_net := n, a_tcp := t\<rparr>))"

definition put_es :: "nat \<Rightarrow> echo_state \<Rightarrow> ('h, 't) app \<Rightarrow> ('h, 't) app" where
  "put_es e es s = s\<lparr>a_es := (a_es s)(e \<mapsto> es)\<rparr>"

text \<open>The byte memory as the UART driver sees it: an object that is gone cannot be read.\<close>

definition net_ram :: "(nat \<Rightarrow> (addr \<times> nat) option) \<Rightarrow> net \<Rightarrow> nat \<Rightarrow> u8 option" where
  "net_ram loc n x = (case loc x of None \<Rightarrow> None
     | Some (a, i) \<Rightarrow> (case extent n a of None \<Rightarrow> None
         | Some e \<Rightarrow> if i < e then Some (cells n a i) else None))"

definition uart_mem :: "('h, 't) app_env \<Rightarrow> ('h, 't) app \<Rightarrow> 'h uart_sys" where
  "uart_mem A s = (a_uart s)\<lparr>ram := net_ram (locate A) (a_net s)\<rparr>"

section \<open>Setting up\<close>

text \<open>A listening pcb that could not be allocated is a null pointer for \<open>tcp_accept\<close>.\<close>

definition echo_init :: "('h, 't) app_env \<Rightarrow> ('h, 't) app \<Rightarrow> ('h, 't) app option" where
  "echo_init A s = (
     let (p, s) = from_stack (tcp_new (tcp A)) s; s = s\<lparr>echo_pcb := p\<rparr>
     in case p of None \<Rightarrow> Some s
        | Some pcb \<Rightarrow>
            (let (err, s) = from_stack (tcp_bind (tcp A) pcb 7) s
             in if err = ERR_OK then
                  (let (l, s) = from_stack (tcp_listen (tcp A) pcb) s; s = s\<lparr>echo_pcb := l\<rparr>
                   in case l of None \<Rightarrow> None
                      | Some l \<Rightarrow> Some (on_tcp (tcp_accept (tcp A) l Fn_echo_accept) s))
                else Some s))"

definition echo_accept :: "('h, 't) app_env \<Rightarrow> nat \<Rightarrow> ('h, 't) app \<Rightarrow> (err_t \<times> ('h, 't) app) option" where
  "echo_accept A newpcb s = do {
     let s = on_tcp (tcp_setprio (tcp A) newpcb 1) s;
     (x, h) \<leftarrow> mem_malloc SIZEOF_ECHO_STATE (n_heap (a_net s));
     let s = s\<lparr>a_net := (a_net s)\<lparr>n_heap := h\<rparr>\<rparr>;
     case x of None \<Rightarrow> Some (ERR_MEM, s)
     | Some e \<Rightarrow>
         let s = put_es e \<lparr> es_state = ES_ACCEPTED, es_retries = 0, es_pcb = newpcb, es_p = None \<rparr> s;
             s = on_tcp (tcp_arg (tcp A) newpcb (Some e)) s;
             s = on_tcp (tcp_recv (tcp A) newpcb (Some Fn_echo_recv)) s;
             s = on_tcp (tcp_err (tcp A) newpcb (Some Fn_echo_error)) s;
             s = on_tcp (tcp_poll (tcp A) newpcb (Some Fn_echo_poll) 0) s
         in Some (ERR_OK, s) }"

text \<open>\<open>mem_free(es)\<close>\<close>

definition free_es :: "nat \<Rightarrow> ('h, 't) app \<Rightarrow> ('h, 't) app option" where
  "free_es e s = do {
     h \<leftarrow> mem_free (Some e) (n_heap (a_net s));
     Some (s\<lparr>a_net := (a_net s)\<lparr>n_heap := h\<rparr>, a_es := (a_es s)(e := None)\<rparr>) }"

definition echo_close :: "('h, 't) app_env \<Rightarrow> nat \<Rightarrow> nat option \<Rightarrow> ('h, 't) app \<Rightarrow> ('h, 't) app option" where
  "echo_close A tpcb es s = do {
     let s = on_tcp (tcp_arg (tcp A) tpcb None) s;
     let s = on_tcp (tcp_sent (tcp A) tpcb None) s;
     let s = on_tcp (tcp_recv (tcp A) tpcb None) s;
     let s = on_tcp (tcp_err (tcp A) tpcb None) s;
     let s = on_tcp (tcp_poll (tcp A) tpcb None 0) s;
     s \<leftarrow> (case es of None \<Rightarrow> Some s | Some e \<Rightarrow> free_es e s);
     let (_, s) = from_stack (tcp_close (tcp A) tpcb) s;
     Some s }"

definition echo_error :: "nat option \<Rightarrow> ('h, 't) app \<Rightarrow> ('h, 't) app option" where
  "echo_error arg s = (case arg of None \<Rightarrow> Some s | Some e \<Rightarrow> free_es e s)"

section \<open>The sending loops\<close>

text \<open>\<open>do freed = pbuf_free(ptr) while (freed == 0)\<close>\<close>

partial_function (option) free_hard :: "(addr \<Rightarrow> net \<Rightarrow> net option) \<Rightarrow> addr \<Rightarrow> net \<Rightarrow> net option" where
  "free_hard c p n = Option.bind (pbuf_free c (Some p) n) (\<lambda>(freed, n).
     if freed = 0 then free_hard c p n else Some n)"

text \<open>
  What both loops do with a pbuf whose data was taken: continue with the next one under a
  reference of its own, give the first back and open the window.
\<close>

definition drop_head :: "('h, 't) app_env \<Rightarrow> nat \<Rightarrow> nat \<Rightarrow> addr \<Rightarrow> pbuf \<Rightarrow> ('h, 't) app \<Rightarrow> ('h, 't) app option" where
  "drop_head A tpcb e p b s = do {
     es \<leftarrow> a_es s e;
     let s = put_es e (es\<lparr>es_p := pb_next b\<rparr>) s;
     n \<leftarrow> pbuf_ref (pb_next b) (a_net s);
     n \<leftarrow> free_hard (cff A) p n;
     Some (on_stack (tcp_recved (tcp A) tpcb (pb_len b)) (s\<lparr>a_net := n\<rparr>)) }"

partial_function (option) echo_send :: "('h, 't) app_env \<Rightarrow> nat \<Rightarrow> nat \<Rightarrow> ('h, 't) app \<Rightarrow> ('h, 't) app option" where
  "echo_send A tpcb e s = Option.bind (a_es s e) (\<lambda>es. case es_p es of None \<Rightarrow> Some s
     | Some p \<Rightarrow> Option.bind (pbufs (a_net s) p) (\<lambda>b.
         if pb_len b \<le> tcp_sndbuf (tcp A) tpcb (a_tcp s) then
           Option.bind (pb_data (a_net s) b) (\<lambda>bs.
             case from_stack (tcp_write (tcp A) tpcb bs 1) s of (wr_err, s) \<Rightarrow>
               if wr_err = ERR_OK then Option.bind (drop_head A tpcb e p b s) (echo_send A tpcb e)
               else Some s)
         else Some s))"

text \<open>
  \<open>TCP_UART_send\<close> copies the payload into \<open>dat[8]\<close> and from there byte by byte into
  \<open>CircBuffRx\<close>, whose result is dropped. A longer payload leaves the array.
\<close>

partial_function (option) TCP_UART_send :: "('h, 't) app_env \<Rightarrow> nat \<Rightarrow> nat \<Rightarrow> ('h, 't) app \<Rightarrow> ('h, 't) app option" where
  "TCP_UART_send A tpcb e s = Option.bind (a_es s e) (\<lambda>es. case es_p es of None \<Rightarrow> Some s
     | Some p \<Rightarrow> Option.bind (pbufs (a_net s) p) (\<lambda>b.
         if pb_len b \<le> tcp_sndbuf (tcp A) tpcb (a_tcp s) then
           Option.bind (pb_data (a_net s) b) (\<lambda>dat.
             if length dat \<le> 8 then
               Option.bind (CircBuffWrite_all (CircBuffRx (a_dev s)) dat) (\<lambda>r.
                 Option.bind (drop_head A tpcb e p b (s\<lparr>a_dev := (a_dev s)\<lparr>CircBuffRx := r\<rparr>\<rparr>))
                   (TCP_UART_send A tpcb e))
             else None)
         else Some s))"

definition echo_sent :: "('h, 't) app_env \<Rightarrow> nat option \<Rightarrow> nat \<Rightarrow> ('h, 't) app \<Rightarrow> (err_t \<times> ('h, 't) app) option" where
  "echo_sent A arg tpcb s = do {
     e \<leftarrow> arg;
     es \<leftarrow> a_es s e;
     let es = es\<lparr>es_retries := 0\<rparr>;
     let s = put_es e es s;
     s \<leftarrow> (if es_p es \<noteq> None then echo_send A tpcb e (on_tcp (tcp_sent (tcp A) tpcb (Some Fn_echo_sent)) s)
          else if es_state es = ES_CLOSING then echo_close A tpcb (Some e) s
          else Some s);
     Some (ERR_OK, s) }"

definition TCP_UART_sent :: "('h, 't) app_env \<Rightarrow> nat option \<Rightarrow> nat \<Rightarrow> ('h, 't) app \<Rightarrow> (err_t \<times> ('h, 't) app) option" where
  "TCP_UART_sent A arg tpcb s = do {
     e \<leftarrow> arg;
     es \<leftarrow> a_es s e;
     let es = es\<lparr>es_retries := 0\<rparr>;
     let s = put_es e es s;
     s \<leftarrow> (if es_p es \<noteq> None then TCP_UART_send A tpcb e (on_tcp (tcp_sent (tcp A) tpcb (Some Fn_TCP_UART_sent)) s)
          else if es_state es = ES_CLOSING then echo_close A tpcb (Some e) s
          else Some s);
     Some (ERR_OK, s) }"

section \<open>Configuration of the UART\<close>

text \<open>The \<open>switch\<close> over \<open>tempbuff[0]\<close>; no case leaves the variable uninitialised.\<close>

definition echo_baud :: "u8 \<Rightarrow> u32 option" where
  "echo_baud c = (if c = 0 then Some 110 else if c = 1 then Some 150 else if c = 2 then Some 300
     else if c = 3 then Some 1200 else if c = 4 then Some 2400 else if c = 5 then Some 4800
     else if c = 6 then Some 9600 else if c = 7 then Some 19200 else if c = 8 then Some 38400
     else if c = 9 then Some 57600 else if c = 10 then Some 115200 else if c = 11 then Some 230400
     else if c = 12 then Some 460800 else if c = 13 then Some 921600 else None)"

definition conf_data_bits :: "'h uart_hw \<Rightarrow> u8 \<Rightarrow> 'h \<Rightarrow> 'h" where
  "conf_data_bits H c h = (if c = 3 then HW_CLR H R_C1 0x10 h else if c = 2 then HW_SET H R_C1 0x10 h else h)"

definition conf_parity :: "'h uart_hw \<Rightarrow> u8 \<Rightarrow> 'h \<Rightarrow> 'h" where
  "conf_parity H c h = (if c = 0 then HW_CLR H R_C1 0x02 h
     else if c = 2 then HW_CLR H R_C1 0x01 (HW_SET H R_C1 0x02 h)
     else if c = 1 then HW_SET H R_C1 0x01 (HW_SET H R_C1 0x02 h) else h)"

definition conf_stop_bits :: "'h uart_hw \<Rightarrow> u8 \<Rightarrow> 'h \<Rightarrow> 'h" where
  "conf_stop_bits H c h = (if c = 0 then HW_CLR H R_BDH 0x20 h else if c = 1 then HW_SET H R_BDH 0x20 h else h)"

text \<open>
  The registers of UART0 are set from the copied bytes while transmitter and receiver are off. The
  stop bits are taken from the byte of the parity.
\<close>

definition echo_configure :: "'h uart_env \<Rightarrow> u32 \<Rightarrow> u8 list \<Rightarrow> 'h \<Rightarrow> 'h option" where
  "echo_configure E junk tempbuff h = (let H = chip E in do {
     let h = HW_CLR H R_C2 0x0C h;
     let baudRate = (case echo_baud (tempbuff ! 0) of None \<Rightarrow> junk | Some b \<Rightarrow> b);
     (_, h) \<leftarrow> UART_HAL_SetBaudRate H (UartFreq E) baudRate h;
     let h = conf_data_bits H (tempbuff ! 1) h;
     let h = conf_parity H (tempbuff ! 2) h;
     let h = conf_stop_bits H (tempbuff ! 2) h;
     Some (HW_SET H R_C2 0x0C h) })"

section \<open>The callbacks\<close>

definition echo_recv :: "('h, 't) app_env \<Rightarrow> nat option \<Rightarrow> nat \<Rightarrow> addr option \<Rightarrow> err_t \<Rightarrow> ('h, 't) app \<Rightarrow>
    (err_t \<times> ('h, 't) app) option" where
  "echo_recv A arg tpcb p err s = do {
     e \<leftarrow> arg;
     es \<leftarrow> a_es s e;
     case p of
       None \<Rightarrow> do {
         let s = put_es e (es\<lparr>es_state := ES_CLOSING\<rparr>) s;
         s \<leftarrow> (if es_p es = None then echo_close A tpcb (Some e) s else Some s);
         Some (ERR_OK, s) }
     | Some p \<Rightarrow>
         if err \<noteq> ERR_OK then do {
           (_, n) \<leftarrow> pbuf_free (cff A) (Some p) (a_net s);
           Some (err, (put_es e (es\<lparr>es_p := None\<rparr>) s)\<lparr>a_net := n\<rparr>) }
         else if es_state es = ES_ACCEPTED then do {
           let s = put_es e (es\<lparr>es_state := ES_RECEIVED, es_p := Some p\<rparr>) s;
           b \<leftarrow> pbufs (a_net s) p;
           bs \<leftarrow> pb_data (a_net s) b;
           c_assert (length bs \<le> 4);
           h \<leftarrow> echo_configure (uenv A) (stack_word A) (bs @ drop (length bs) (stack_bytes A)) (hw (a_uart s));
           Some (ERR_OK, s\<lparr>a_uart := (a_uart s)\<lparr>hw := h\<rparr>, uart_ready := 1\<rparr>) }
         else if es_state es = ES_RECEIVED then
           (case es_p es of
             None \<Rightarrow> do {
               let s = put_es e (es\<lparr>es_p := Some p\<rparr>) s;
               let s = on_tcp (tcp_sent (tcp A) tpcb (Some Fn_TCP_UART_sent)) s;
               b \<leftarrow> pbufs (a_net s) p;
               q \<leftarrow> pb_payload b;
               (_, u) \<leftarrow> UART_DRV_SendData (uenv A) (phys A q) (ucast (pb_len b)) (uart_mem A s);
               s \<leftarrow> TCP_UART_send A tpcb e (s\<lparr>a_uart := u\<rparr>);
               Some (ERR_OK, s) }
           | Some ptr \<Rightarrow> do {
               n \<leftarrow> pbuf_chain (Some ptr) (Some p) (a_net s);
               Some (ERR_OK, s\<lparr>a_net := n\<rparr>) })
         else do {
           b \<leftarrow> pbufs (a_net s) p;
           let s = on_stack (tcp_recved (tcp A) tpcb (pb_tot_len b)) s;
           (_, n) \<leftarrow> pbuf_free (cff A) (Some p) (a_net s);
           Some (ERR_OK, (put_es e (es\<lparr>es_p := None\<rparr>) s)\<lparr>a_net := n\<rparr>) } }"

text \<open>\<open>ReadInPoll\<close> with its \<open>tcp_write\<close>, then the echo of a remaining pbuf.\<close>

definition app_ReadInPoll :: "('h, 't) app_env \<Rightarrow> nat \<Rightarrow> ('h, 't) app \<Rightarrow> ('h, 't) app option" where
  "app_ReadInPoll A tpcb s = do {
     (blk, d) \<leftarrow> ReadInPoll (a_dev s);
     let s = s\<lparr>a_dev := d\<rparr>;
     case blk of None \<Rightarrow> Some s
     | Some bs \<Rightarrow> (let (_, s) = from_stack (tcp_write (tcp A) tpcb bs 1) s in Some s) }"

definition echo_poll :: "('h, 't) app_env \<Rightarrow> nat option \<Rightarrow> nat \<Rightarrow> ('h, 't) app \<Rightarrow> (err_t \<times> ('h, 't) app) option" where
  "echo_poll A arg tpcb s = do {
     s \<leftarrow> app_ReadInPoll A tpcb s;
     case arg of None \<Rightarrow> Some (ERR_ABRT, on_stack (tcp_abort (tcp A) tpcb) s)
     | Some e \<Rightarrow> do {
         es \<leftarrow> a_es s e;
         s \<leftarrow> (if es_p es \<noteq> None then echo_send A tpcb e (on_tcp (tcp_sent (tcp A) tpcb (Some Fn_echo_sent)) s)
              else Some s);
         Some (ERR_OK, s) } }"

section \<open>The main loop\<close>

text \<open>
  One pass of \<open>while(1)\<close> without the calls into the stack: the UART status is polled and the data
  register is read only when \<open>ReadUARTdata\<close> takes the byte. The UART and PIT interrupts are events
  of their own.
\<close>

definition main_pass :: "('h, 't) app_env \<Rightarrow> ('h, 't) app \<Rightarrow> ('h, 't) app option" where
  "main_pass A s = (let H = chip (uenv A); (s1, h) = reg_rd H R_S1 (hw (a_uart s)); (d, h') = reg_rd H R_D h in do {
     (taken, dv) \<leftarrow> main_loop_body (if s1 AND 0x20 = 0x20 then Some d else None) (a_dev s);
     Some (s\<lparr>a_dev := dv, a_uart := (a_uart s)\<lparr>hw := if taken then h' else h\<rparr>\<rparr>) })"

definition app_uart_irq :: "('h, 't) app_env \<Rightarrow> ('h, 't) app \<Rightarrow> ('h, 't) app option" where
  "app_uart_irq A s = do { u \<leftarrow> UART_DRV_IRQHandler (uenv A) (uart_mem A s); Some (s\<lparr>a_uart := u\<rparr>) }"

definition app_pit_irq :: "('h, 't) app \<Rightarrow> ('h, 't) app option" where
  "app_pit_irq s = do { d \<leftarrow> PIT0_IRQHandler (a_dev s); Some (s\<lparr>a_dev := d\<rparr>) }"

end
