(* ===== verification/EchoProps.thy ===== *)
theory EchoProps
  imports EchoApp
begin

text \<open>
  The sending loop of the application and its callbacks. What it relies on of the TCP functions is
  \<open>tcp_laws\<close>; the properties of \<open>echo_send\<close> follow the chain of packet buffers the connection
  holds, those of \<open>echo_recv\<close> its two uses of a segment: as configuration and as data.
\<close>

section \<open>Giving back the head of a chain\<close>

definition refs_ok :: "chain \<Rightarrow> bool" where
  "refs_ok xs \<longleftrightarrow> (\<forall>(a, b) \<in> set xs. pb_ref b < 65535)"

lemma refs_ok_simps [simp]: "refs_ok []" "refs_ok ((a, b) # xs) \<longleftrightarrow> pb_ref b < 65535 \<and> refs_ok xs"
  by (auto simp: refs_ok_def)

lemma pchain_upd_other:
  assumes "pchain n q xs" "a \<notin> fst ` set xs" "pbufs n' = (pbufs n)(a := v)"
  shows "pchain n' q xs"
proof (rule pchain_cong [OF assms(1)])
  fix c d assume cd: "(c, d) \<in> set xs"
  then have "c \<noteq> a" using assms(2) by force
  then show "pbufs n' c = Some d" using pchain_lookup [OF assms(1) cd] assms(3) by simp
qed

lemma free_hard_spec:
  assumes "net_inv Z B n" "pchain n (Some p) ((p, b) # xs)" "chain_ok ((p, b) # xs)"
    "xs \<noteq> [] \<longrightarrow> pb_ref (snd (hd xs)) \<noteq> 1"
  shows "\<exists>n'. free_hard c p n = Some n' \<and> net_inv Z B n' \<and>
    pbufs n' = (case xs of [] \<Rightarrow> (pbufs n)(p := None)
      | (a, d) # ys \<Rightarrow> (pbufs n)(p := None, a \<mapsto> d\<lparr>pb_ref := pb_ref d - 1\<rparr>)) \<and>
    net_live Z B n' = net_live Z B n - {p} \<and> cells n' = cells n \<and> (\<forall>a. a \<noteq> p \<longrightarrow> extent n' a = extent n a)"
  using assms
proof (induction "unat (pb_ref b)" arbitrary: n b)
  case 0
  then show ?case by (simp add: unat_eq_zero)
next
  case (Suc k)
  let ?c = "(p, b) # xs"
  from pbuf_free_spec [OF Suc.prems(1-3), of c] obtain n1 where n1:
    "pbuf_free c (Some p) n = Some (of_nat (length (gone ?c)), n1)" "net_inv Z B n1"
    "pbufs n1 = after_free ?c (pbufs n)" "net_live Z B n1 = net_live Z B n - fst ` set (gone ?c)"
    "cells n1 = cells n" "\<forall>a. a \<notin> fst ` set (gone ?c) \<longrightarrow> extent n1 a = extent n a" by blast
  show ?case
  proof (cases "pb_ref b = 1")
    case True
    have g: "gone xs = []" using Suc.prems(4) by (cases xs) auto
    have "free_hard c p n = Some n1"
      using n1(1) True g by (subst free_hard.simps) simp
    moreover have "pbufs n1 = (case xs of [] \<Rightarrow> (pbufs n)(p := None)
      | (a, d) # ys \<Rightarrow> (pbufs n)(p := None, a \<mapsto> d\<lparr>pb_ref := pb_ref d - 1\<rparr>))"
      using n1(3) True Suc.prems(4) by (cases xs) auto
    ultimately show ?thesis using n1 True g by auto
  next
    case False
    let ?b = "b\<lparr>pb_ref := pb_ref b - 1\<rparr>"
    have n0: "pb_ref b \<noteq> 0" using Suc.hyps(2) by auto
    have step: "free_hard c p n = free_hard c p n1"
      using n1(1) False by (subst free_hard.simps) simp
    have nn: "pb_ref b - 1 \<noteq> 0" using False by simp
    have k: "k = unat (pb_ref ?b)" using Suc.hyps(2) n0 by (simp add: unat_minus_one)
    have pn1: "pbufs n1 = (pbufs n)(p \<mapsto> ?b)" using n1(3) False by simp
    have "p \<notin> fst ` set xs" using pchain_distinct [OF Suc.prems(2)] by simp
    then have "pchain n1 (pb_next b) xs"
      using Suc.prems(2) pchain_upd_other [OF _ _ pn1] by simp
    then have pc: "pchain n1 (Some p) ((p, ?b) # xs)" by (simp add: pn1)
    have "chain_ok ((p, ?b) # xs)" using Suc.prems(3) nn by simp
    from Suc.hyps(1) [OF k n1(2) pc this Suc.prems(4)] obtain n' where n':
      "free_hard c p n1 = Some n'" "net_inv Z B n'"
      "pbufs n' = (case xs of [] \<Rightarrow> (pbufs n1)(p := None)
        | (a, d) # ys \<Rightarrow> (pbufs n1)(p := None, a \<mapsto> d\<lparr>pb_ref := pb_ref d - 1\<rparr>))"
      "net_live Z B n' = net_live Z B n1 - {p}" "cells n' = cells n1" "\<forall>a. a \<noteq> p \<longrightarrow> extent n' a = extent n1 a" by blast
    have "pbufs n' = (case xs of [] \<Rightarrow> (pbufs n)(p := None)
        | (a, d) # ys \<Rightarrow> (pbufs n)(p := None, a \<mapsto> d\<lparr>pb_ref := pb_ref d - 1\<rparr>))"
      unfolding n'(3) pn1 by (simp split: list.split)
    moreover have "net_live Z B n' = net_live Z B n - {p}" "cells n' = cells n" "\<forall>a. a \<noteq> p \<longrightarrow> extent n' a = extent n a"
      using n'(4-6) n1(4-6) False by simp_all
    ultimately show ?thesis using step n'(1,2) by (intro exI [of _ n']) simp
  qed
qed

lemma drop_net_spec:
  assumes inv: "net_inv Z B n" and pc: "pchain n (Some p) ((p, b) # xs)" and ok: "chain_ok ((p, b) # xs)" "refs_ok xs"
  shows "\<exists>n'. Option.bind (pbuf_ref (pb_next b) n) (free_hard c p) = Some n' \<and> net_inv Z B n' \<and>
    pbufs n' = (pbufs n)(p := None) \<and> pchain n' (pb_next b) xs \<and>
    net_live Z B n' = net_live Z B n - {p} \<and> cells n' = cells n \<and> (\<forall>a. a \<noteq> p \<longrightarrow> extent n' a = extent n a)"
proof (cases xs)
  case Nil
  then have "pb_next b = None" using pc by simp
  with free_hard_spec [OF inv pc ok(1), of c] Nil show ?thesis by (auto simp: pbuf_ref_def)
next
  case (Cons x ys)
  obtain a d where x: "x = (a, d)" by (cases x)
  have A: "pb_next b = Some a" "pbufs n a = Some d" "pchain n (pb_next d) ys" using pc Cons x by auto
  let ?d = "d\<lparr>pb_ref := pb_ref d + 1\<rparr>" and ?n = "put_pbuf a (d\<lparr>pb_ref := pb_ref d + 1\<rparr>) n"
  have dist: "p \<noteq> a" "a \<notin> fst ` set ys" "p \<notin> fst ` set ys" using pchain_distinct [OF pc] Cons x by auto
  have lt: "unat (pb_ref d) < 65535" using ok(2) Cons x by (simp add: word_less_nat_alt)
  have ref: "pbuf_ref (pb_next b) n = Some ?n" using A by (simp add: pbuf_ref_def)
  have inv1: "net_inv Z B ?n" by (rule net_inv_put [OF inv A(2)]) simp_all
  have "pchain ?n (pb_next d) ys" using A(3) dist by (intro pchain_put_other)
  then have pc1: "pchain ?n (Some p) ((p, b) # (a, ?d) # ys)" using pc A dist Cons x by auto
  have u: "unat (pb_ref ?d) = unat (pb_ref d) + 1" using lt by (simp add: unat_u16_add)
  then have nz: "pb_ref ?d \<noteq> 0" by auto
  have "pb_ref d \<noteq> 0" using ok(1) Cons x by simp
  then have "0 < unat (pb_ref d)" by (simp add: unat_gt_0)
  then have n1: "pb_ref ?d \<noteq> 1" using u by auto
  have ok1: "chain_ok ((p, b) # (a, ?d) # ys)" using ok(1) nz Cons x by simp
  from free_hard_spec [OF inv1 pc1 ok1, of c] n1 obtain n' where n':
    "free_hard c p ?n = Some n'" "net_inv Z B n'"
    "pbufs n' = (pbufs ?n)(p := None, a \<mapsto> ?d\<lparr>pb_ref := pb_ref ?d - 1\<rparr>)"
    "net_live Z B n' = net_live Z B ?n - {p}" "cells n' = cells ?n" "\<forall>a. a \<noteq> p \<longrightarrow> extent n' a = extent ?n a" by auto
  have "pbufs n' = (pbufs n)(p := None)" using n'(3) A(2) dist by (auto simp: fun_eq_iff)
  moreover from this have "pchain n' (pb_next b) xs"
    using pc dist Cons x pchain_upd_other [of n "pb_next b" xs p n' None] by simp
  moreover have "Option.bind (pbuf_ref (pb_next b) n) (free_hard c p) = Some n'" unfolding ref using n'(1) by simp
  moreover have "net_live Z B n' = net_live Z B n - {p}" "cells n' = cells n" "\<forall>a. a \<noteq> p \<longrightarrow> extent n' a = extent n a"
    using n'(4-6) by simp_all
  ultimately show ?thesis using n'(2) by blast
qed

section \<open>What the application relies on of TCP\<close>

text \<open>
  \<open>owned t\<close> are the objects that belong to the stack and \<open>out pcb t\<close> is what it has accepted for
  the peer. A call leaves every object alone that exists and is not the stack's, and it does not
  take possession of it.
\<close>

definition keeps :: "('t \<Rightarrow> addr set) \<Rightarrow> net \<Rightarrow> 't \<Rightarrow> net \<Rightarrow> 't \<Rightarrow> bool" where
  "keeps owned n t n' t' \<longleftrightarrow> (\<forall>a. a \<notin> owned t \<and> (pbufs n a \<noteq> None \<or> extent n a \<noteq> None) \<longrightarrow>
     pbufs n' a = pbufs n a \<and> extent n' a = extent n a \<and> cells n' a = cells n a \<and> a \<notin> owned t')"

definition tcp_laws :: "'t tcp_fns \<Rightarrow> (nat \<Rightarrow> nat) \<Rightarrow> nat \<Rightarrow> ('t \<Rightarrow> addr set) \<Rightarrow> (nat \<Rightarrow> 't \<Rightarrow> u8 list) \<Rightarrow> bool" where
  "tcp_laws T Z B owned out \<longleftrightarrow>
     (\<forall>pcb bs f n t e n' t'. net_inv Z B n \<longrightarrow> tcp_write T pcb bs f (n, t) = (e, n', t') \<longrightarrow>
        net_inv Z B n' \<and> keeps owned n t n' t' \<and> out pcb t' = out pcb t @ (if e = ERR_OK then bs else [])) \<and>
     (\<forall>pcb l n t n' t'. net_inv Z B n \<longrightarrow> tcp_recved T pcb l (n, t) = (n', t') \<longrightarrow>
        net_inv Z B n' \<and> keeps owned n t n' t' \<and> out pcb t' = out pcb t) \<and>
     (\<forall>pcb f t. owned (tcp_sent T pcb f t) = owned t \<and> out pcb (tcp_sent T pcb f t) = out pcb t)"

lemma tcp_lawsD:
  assumes "tcp_laws T Z B owned out" "net_inv Z B n"
  shows "tcp_write T pcb bs f (n, t) = (e, n', t') \<Longrightarrow>
      net_inv Z B n' \<and> keeps owned n t n' t' \<and> out pcb t' = out pcb t @ (if e = ERR_OK then bs else [])"
    "tcp_recved T pcb l (n, t) = (n', t') \<Longrightarrow> net_inv Z B n' \<and> keeps owned n t n' t' \<and> out pcb t' = out pcb t"
  using assms unfolding tcp_laws_def by blast+

text \<open>Received packets hold their own payload and are not the stack's any more.\<close>

definition apart :: "('t \<Rightarrow> addr set) \<Rightarrow> 't \<Rightarrow> chain \<Rightarrow> bool" where
  "apart owned t xs \<longleftrightarrow> (\<forall>(a, b) \<in> set xs. a \<notin> owned t \<and> (\<exists>off. pb_payload b = Some (a, off)))"

lemma apart_simps [simp]: "apart owned t []"
  "apart owned t ((a, b) # xs) \<longleftrightarrow> a \<notin> owned t \<and> (\<exists>off. pb_payload b = Some (a, off)) \<and> apart owned t xs"
  by (auto simp: apart_def)

lemma chain_data_keep:
  assumes "apart owned t xs" "\<forall>a \<in> fst ` set xs. extent n' a = extent n a \<and> cells n' a = cells n a"
  shows "chain_data n' xs = chain_data n xs"
  using assms
proof (induction xs)
  case (Cons x xs)
  obtain a b where x: "x = (a, b)" by (cases x)
  with Cons.prems obtain off where "pb_payload b = Some (a, off)" by auto
  moreover have e: "extent n' a = extent n a" "cells n' a = cells n a" using Cons.prems(2) x by simp_all
  ultimately have "pb_data n' b = pb_data n b" by (simp add: pb_data_def mem_read_def split: option.split)
  moreover have "chain_data n' xs = chain_data n xs" using Cons.prems x by (intro Cons.IH) auto
  ultimately show ?case using x by simp
qed simp

lemma keeps_chain:
  assumes k: "keeps owned n t n' t'" and pc: "pchain n q xs" and ap: "apart owned t xs"
  shows "pchain n' q xs" "apart owned t' xs" "chain_data n' xs = chain_data n xs"
proof -
  have *: "pbufs n' a = Some b" "extent n' a = extent n a" "cells n' a = cells n a" "a \<notin> owned t'" if ab: "(a, b) \<in> set xs" for a b
  proof -
    have "a \<notin> owned t" using ap ab by (auto simp: apart_def)
    moreover have "pbufs n a = Some b" using pchain_lookup [OF pc ab] .
    ultimately show "pbufs n' a = Some b" "extent n' a = extent n a" "cells n' a = cells n a" "a \<notin> owned t'"
      using k by (auto simp: keeps_def)
  qed
  show "pchain n' q xs" using pchain_cong [OF pc] *(1) by blast
  show "apart owned t' xs" using ap *(4) by (auto simp: apart_def)
  have "extent n' a = extent n a \<and> cells n' a = cells n a" if "a \<in> fst ` set xs" for a
  proof -
    from that obtain b where "(a, b) \<in> set xs" by (metis fst_conv imageE prod.collapse)
    then show ?thesis using *(2,3) by blast
  qed
  then show "chain_data n' xs = chain_data n xs" using chain_data_keep [OF ap] by blast
qed

text \<open>One packet buffer leaves the chain.\<close>

lemma drop_head_spec:
  assumes L: "tcp_laws (tcp A) Z B owned out" and inv: "net_inv Z B (a_net s)"
    and es: "a_es s e = Some es" and pc: "pchain (a_net s) (Some p) ((p, b) # xs)"
    and ok: "chain_ok ((p, b) # xs)" "refs_ok xs" and ap: "apart owned (a_tcp s) ((p, b) # xs)"
  shows "\<exists>n t. drop_head A pcb e p b s = Some (s\<lparr>a_es := (a_es s)(e \<mapsto> es\<lparr>es_p := pb_next b\<rparr>), a_net := n, a_tcp := t\<rparr>) \<and>
    net_inv Z B n \<and> pchain n (pb_next b) xs \<and> chain_data n xs = chain_data (a_net s) xs \<and> apart owned t xs \<and>
    out pcb t = out pcb (a_tcp s)"
proof -
  from drop_net_spec [OF inv pc ok, of "cff A"] obtain n1 where n1:
    "Option.bind (pbuf_ref (pb_next b) (a_net s)) (free_hard (cff A) p) = Some n1" "net_inv Z B n1"
    "pchain n1 (pb_next b) xs" "cells n1 = cells (a_net s)" "\<forall>a. a \<noteq> p \<longrightarrow> extent n1 a = extent (a_net s) a" by blast
  obtain n t where rc: "tcp_recved (tcp A) pcb (pb_len b) (n1, a_tcp s) = (n, t)" by fastforce
  have ap1: "apart owned (a_tcp s) xs" using ap by simp
  from tcp_lawsD(2) [OF L n1(2) rc] have K: "net_inv Z B n" "keeps owned n1 (a_tcp s) n t" "out pcb t = out pcb (a_tcp s)" by auto
  note C = keeps_chain [OF K(2) n1(3) ap1]
  have "p \<notin> fst ` set xs" using pchain_distinct [OF pc] by simp
  then have "chain_data n1 xs = chain_data (a_net s) xs"
    using n1(4,5) by (intro chain_data_keep [OF ap1]) auto
  moreover have "drop_head A pcb e p b s = Some (s\<lparr>a_es := (a_es s)(e \<mapsto> es\<lparr>es_p := pb_next b\<rparr>), a_net := n, a_tcp := t\<rparr>)"
    using es n1(1) rc by (auto simp: drop_head_def put_es_def on_stack_def split: bind_splits)
  ultimately show ?thesis using C K by auto
qed

lemma echo_send_spec:
  assumes L: "tcp_laws (tcp A) Z B owned out" and inv: "net_inv Z B (a_net s)"
    and es: "a_es s e = Some es" and pc: "pchain (a_net s) (es_p es) xs"
    and ok: "chain_ok xs" "refs_ok xs" and ap: "apart owned (a_tcp s) xs" and d: "chain_data (a_net s) xs = Some d"
  shows "\<exists>s' k q r. echo_send A pcb e s = Some s' \<and> k \<le> length xs \<and> a_es s' = (a_es s)(e \<mapsto> es\<lparr>es_p := q\<rparr>) \<and>
    pchain (a_net s') q (drop k xs) \<and> net_inv Z B (a_net s') \<and> chain_data (a_net s') (drop k xs) = Some r \<and>
    out pcb (a_tcp s') @ r = out pcb (a_tcp s) @ d \<and> apart owned (a_tcp s') (drop k xs) \<and>
    a_dev s' = a_dev s \<and> a_uart s' = a_uart s \<and>
    (\<forall>p b ys bs. xs = (p, b) # ys \<and> pb_len b \<le> tcp_sndbuf (tcp A) pcb (a_tcp s) \<and> pb_data (a_net s) b = Some bs \<and>
       fst (tcp_write (tcp A) pcb bs 1 (a_net s, a_tcp s)) = ERR_OK \<longrightarrow> 0 < k)"
  using inv es pc ok ap d
proof (induction xs arbitrary: s es d)
  case Nil
  then have "es\<lparr>es_p := None\<rparr> = es" by (cases es) simp
  then have "(a_es s)(e \<mapsto> es\<lparr>es_p := None\<rparr>) = a_es s" using Nil by auto
  moreover have "echo_send A pcb e s = Some s" using Nil by (subst echo_send.simps) simp
  ultimately show ?case using Nil by (intro exI [of _ s] exI [of _ 0] exI [of _ None] exI [of _ "[]"]) simp
next
  case (Cons x xs)
  obtain p b where x: "x = (p, b)" by (cases x)
  have hd: "es_p es = Some p" "pbufs (a_net s) p = Some b" using Cons.prems(3) x by simp_all
  from Cons.prems(7) x obtain d1 d2 where dd: "pb_data (a_net s) b = Some d1" "chain_data (a_net s) xs = Some d2" "d = d1 @ d2"
    by (auto split: bind_splits)
  have same: "(a_es s)(e \<mapsto> es\<lparr>es_p := Some p\<rparr>) = a_es s"
  proof -
    have "es\<lparr>es_p := Some p\<rparr> = es" using hd by (cases es) simp
    then show ?thesis using Cons.prems(2) by auto
  qed
  show ?case
  proof (cases "pb_len b \<le> tcp_sndbuf (tcp A) pcb (a_tcp s)")
    case False
    then have "echo_send A pcb e s = Some s" using hd Cons.prems(2) by (subst echo_send.simps) simp
    then show ?thesis using Cons.prems hd x False same
      by (intro exI [of _ s] exI [of _ 0] exI [of _ "Some p"] exI [of _ d]) simp
  next
    case True
    obtain er n1 t1 where w: "tcp_write (tcp A) pcb d1 1 (a_net s, a_tcp s) = (er, n1, t1)" by (metis prod_cases3)
    from tcp_lawsD(1) [OF L Cons.prems(1) w] have W: "net_inv Z B n1" "keeps owned (a_net s) (a_tcp s) n1 t1"
      "out pcb t1 = out pcb (a_tcp s) @ (if er = ERR_OK then d1 else [])" by auto
    let ?s1 = "s\<lparr>a_net := n1, a_tcp := t1\<rparr>"
    note C1 = keeps_chain [OF W(2) Cons.prems(3,6)]
    have step: "echo_send A pcb e s = (if er = ERR_OK then Option.bind (drop_head A pcb e p b ?s1) (echo_send A pcb e) else Some ?s1)"
      using hd Cons.prems(2) True dd w by (subst echo_send.simps) (simp add: from_stack_def)
    show ?thesis
    proof (cases "er = ERR_OK")
      case False
      then show ?thesis using step W C1 Cons.prems x hd same w dd(1)
        by (intro exI [of _ ?s1] exI [of _ 0] exI [of _ "Some p"] exI [of _ d]) simp
    next
      case ok: True
      have inv1: "net_inv Z B (a_net ?s1)" and es1: "a_es ?s1 e = Some es" and pc1: "pchain (a_net ?s1) (Some p) ((p, b) # xs)"
        and ok1: "chain_ok ((p, b) # xs)" "refs_ok xs" and ap1: "apart owned (a_tcp ?s1) ((p, b) # xs)"
        using W C1 Cons.prems x hd by simp_all
      from drop_head_spec [OF L inv1 es1 pc1 ok1 ap1, of pcb] obtain n2 t2 where D:
        "drop_head A pcb e p b ?s1 = Some (?s1\<lparr>a_es := (a_es ?s1)(e \<mapsto> es\<lparr>es_p := pb_next b\<rparr>), a_net := n2, a_tcp := t2\<rparr>)"
        "net_inv Z B n2" "pchain n2 (pb_next b) xs" "chain_data n2 xs = chain_data n1 xs" "apart owned t2 xs"
        "out pcb t2 = out pcb t1" by auto
      let ?s2 = "?s1\<lparr>a_es := (a_es ?s1)(e \<mapsto> es\<lparr>es_p := pb_next b\<rparr>), a_net := n2, a_tcp := t2\<rparr>"
      let ?es2 = "es\<lparr>es_p := pb_next b\<rparr>"
      have d2: "chain_data n2 xs = Some d2"
        using D(4) dd(2) keeps_chain(3) [OF W(2), of "pb_next b" xs] Cons.prems(3,6) x by simp
      have "\<exists>s' k q r. echo_send A pcb e ?s2 = Some s' \<and> k \<le> length xs \<and> a_es s' = (a_es ?s2)(e \<mapsto> ?es2\<lparr>es_p := q\<rparr>) \<and>
        pchain (a_net s') q (drop k xs) \<and> net_inv Z B (a_net s') \<and> chain_data (a_net s') (drop k xs) = Some r \<and>
        out pcb (a_tcp s') @ r = out pcb (a_tcp ?s2) @ d2 \<and> apart owned (a_tcp s') (drop k xs) \<and>
        a_dev s' = a_dev ?s2 \<and> a_uart s' = a_uart ?s2"
        using Cons.IH [of ?s2 ?es2 d2] D d2 ok1 by fastforce
      then obtain s' k q r where I: "echo_send A pcb e ?s2 = Some s'" "k \<le> length xs" "a_es s' = (a_es ?s2)(e \<mapsto> ?es2\<lparr>es_p := q\<rparr>)"
        "pchain (a_net s') q (drop k xs)" "net_inv Z B (a_net s')" "chain_data (a_net s') (drop k xs) = Some r"
        "out pcb (a_tcp s') @ r = out pcb (a_tcp ?s2) @ d2" "apart owned (a_tcp s') (drop k xs)"
        "a_dev s' = a_dev ?s2" "a_uart s' = a_uart ?s2" by blast
      show ?thesis
        by (intro exI [of _ s'] exI [of _ "Suc k"] exI [of _ q] exI [of _ r])
          (use step ok D(1) I D(6) W(3) dd(3) in simp)
    qed
  qed
qed

section \<open>The configuration packet\<close>

lemma echo_baud_range: "echo_baud c = Some b \<Longrightarrow> 0 < unat b \<and> unat b < 2 ^ 28"
  by (auto simp: echo_baud_def split: if_splits)

lemma HW_CLR_plain:
  assumes "uart_chip H view depth shift arrive" "r \<in> plain_regs"
  shows "view (HW_CLR H r m h) = set_reg r (v_reg (view h) r AND NOT m) (view h)"
  using uart_chip.plain_rd [OF assms, of h] uart_chip.plain_wr [OF assms] by (simp add: HW_CLR_def)

lemma and_not_or: "(x AND NOT m) OR m = x OR (m :: u8)"
  by (rule bit_word_eqI) (auto simp: bit_simps)

lemma and_not_disj: "m AND k = 0 \<Longrightarrow> (x AND NOT m) AND k = x AND (k :: u8)"
  by (rule bit_word_eqI) (auto simp: bit_simps dest!: arg_cong [where f = bit] fun_cong)

lemma or_disj: "m AND k = 0 \<Longrightarrow> (x OR m) AND k = x AND (k :: u8)"
  by (simp add: word_ao_dist)

lemmas u8_masks = and_not_or [of _ "0x0C", simplified] and_not_disj [of "0x20" "0x1F", simplified] or_disj [of "0x20" "0x1F", simplified]
  and_not_disj [of "0x10" "0xEC", simplified] or_disj [of "0x10" "0xEC", simplified]
  and_not_disj [of "0x02" "0xEC", simplified] or_disj [of "0x02" "0xEC", simplified]
  and_not_disj [of "0x01" "0xEC", simplified] or_disj [of "0x01" "0xEC", simplified]
text \<open>
  What the four bytes mean: the second selects 8 or 9 data bits, the third the parity and, where
  it is 0 or 1, one or two stop bits as well; the bytes in the FIFOs and all other registers stay.
\<close>

definition line_set :: "u8 \<Rightarrow> u8 \<Rightarrow> nat \<Rightarrow> uart_view \<Rightarrow> uart_view \<Rightarrow> bool" where
  "line_set c1 c2 dv v v' \<longleftrightarrow>
     v_tx v' = v_tx v \<and> v_rx v' = v_rx v \<and> v_out v' = v_out v \<and> v_in v' = v_in v \<and>
     (\<forall>r. r \<notin> {R_C1, R_C2, R_C4, R_BDH, R_BDL} \<longrightarrow> v_reg v' r = v_reg v r) \<and>
     v_reg v' R_C2 = v_reg v R_C2 OR 0x0C \<and>
     bit (v_reg v' R_C1) 4 = (if c1 = 3 then False else if c1 = 2 then True else bit (v_reg v R_C1) 4) \<and>
     bit (v_reg v' R_C1) 1 = (if c2 = 0 then False else if c2 = 1 \<or> c2 = 2 then True else bit (v_reg v R_C1) 1) \<and>
     bit (v_reg v' R_C1) 0 = (if c2 = 1 then True else if c2 = 2 then False else bit (v_reg v R_C1) 0) \<and>
     v_reg v' R_C1 AND 0xEC = v_reg v R_C1 AND 0xEC \<and>
     bit (v_reg v' R_BDH) 5 = (if c2 = 0 then False else if c2 = 1 then True else bit (v_reg v R_BDH) 5) \<and>
     divisor_of v' = dv"

lemma conf_spec:
  assumes chip: "uart_chip H view depth shift arrive" and E: "chip E = H" and clk: "unat (UartFreq E) < 2 ^ 27"
    and b: "echo_baud (t ! 0) = Some baud" and q: "q = (unat (UartFreq E) div (16 * unat baud)) mod 65536"
  shows "\<exists>h'. echo_configure E junk t h = Some h' \<and> line_set (t ! 1) (t ! 2)
    (if 1 \<le> q \<and> q \<le> 0x1FFF then 32 * q + (2 * unat (UartFreq E) div unat baud) mod 32 else divisor_of (view h)) (view h) (view h')"
proof -
  define c1 c2 where c: "c1 = t ! 1" "c2 = t ! 2"
  have P: "R_C1 \<in> plain_regs" "R_C2 \<in> plain_regs" "R_BDH \<in> plain_regs" by (simp_all add: plain_regs_def)
  note CLR = HW_CLR_plain [OF chip] note ST = uart_chip.HW_SET_plain [OF chip]
  let ?h1 = "HW_CLR H R_C2 0x0C h"
  define fits where "fits \<longleftrightarrow> 1 \<le> q \<and> q \<le> 0x1FFF"
  from uart_chip.SetBaudRate_regs [OF chip _ _ clk q, of ?h1] echo_baud_range [OF b] obtain r h2 where
    h2: "UART_HAL_SetBaudRate H (UartFreq E) baud ?h1 = Some (r, h2)"
    "view h2 = (view ?h1)\<lparr>v_reg := (v_reg (view ?h1))(R_BDH := v_reg (view h2) R_BDH, R_BDL := v_reg (view h2) R_BDL,
          R_C4 := v_reg (view h2) R_C4)\<rparr>"
    "v_reg (view h2) R_BDH AND NOT 0x1F = v_reg (view ?h1) R_BDH AND NOT 0x1F"
    "divisor_of (view h2) = (if fits then 32 * q + (2 * unat (UartFreq E) div unat baud) mod 32 else divisor_of (view ?h1))"
    unfolding fits_def by (cases "1 \<le> q \<and> q \<le> 0x1FFF") auto
  have b5: "bit (v_reg (view h2) R_BDH) 5 = bit (v_reg (view h) R_BDH) 5"
    using arg_cong [OF h2(3), of "\<lambda>w. bit w 5"] by (simp add: bit_and_iff bit_not_iff CLR P)
  define h3 where d3: "h3 = conf_data_bits H (c1) h2"
  have h3: "view h3 = set_reg R_C1 (if c1 = 3 then v_reg (view h2) R_C1 AND NOT 0x10
      else if c1 = 2 then v_reg (view h2) R_C1 OR 0x10 else v_reg (view h2) R_C1) (view h2)"
    by (simp add: d3 conf_data_bits_def CLR ST P)
  define h4 where d4: "h4 = conf_parity H (c2) h3"
  have h4: "view h4 = set_reg R_C1 (if c2 = 0 then v_reg (view h3) R_C1 AND NOT 0x02
      else if c2 = 2 then (v_reg (view h3) R_C1 OR 0x02) AND NOT 0x01
      else if c2 = 1 then (v_reg (view h3) R_C1 OR 0x02) OR 0x01 else v_reg (view h3) R_C1) (view h3)"
    by (simp add: d4 conf_parity_def CLR ST P)
  define h5 where d5: "h5 = conf_stop_bits H (c2) h4"
  have h5: "view h5 = set_reg R_BDH (if c2 = 0 then v_reg (view h4) R_BDH AND NOT 0x20
      else if c2 = 1 then v_reg (view h4) R_BDH OR 0x20 else v_reg (view h4) R_BDH) (view h4)"
    by (simp add: d5 conf_stop_bits_def CLR ST P)
  define h6 where d6: "h6 = HW_SET H R_C2 0x0C h5"
  have h6: "view h6 = set_reg R_C2 (v_reg (view h5) R_C2 OR 0x0C) (view h5)" by (simp add: d6 ST P)
  have run: "echo_configure E junk t h = Some h6" using h2(1) b E by (simp add: echo_configure_def c d3 d4 d5 d6)
  have o: "v_reg (view h2) r = v_reg (view ?h1) r" if "r \<notin> {R_BDH, R_BDL, R_C4}" for r
    using that by (subst h2(2)) simp
  have f2: "v_tx (view h2) = v_tx (view h)" "v_rx (view h2) = v_rx (view h)" "v_out (view h2) = v_out (view h)"
    "v_in (view h2) = v_in (view h)" by (subst h2(2), simp add: CLR P)+
  have c12: "v_reg (view h2) R_C1 = v_reg (view h) R_C1" "v_reg (view h2) R_C2 = v_reg (view h) R_C2 AND NOT 0x0C"
    using o [of R_C1] o [of R_C2] by (simp_all add: CLR P)
  have C2: "v_reg (view h6) R_C2 = v_reg (view h) R_C2 OR 0x0C"
    by (simp add: h6 h5 h4 h3 c12 u8_masks)
  have C1: "v_reg (view h6) R_C1 = v_reg (view h4) R_C1" by (simp add: h6 h5)
  have B1: "bit (v_reg (view h6) R_C1) 4 = (if c1 = 3 then False else if c1 = 2 then True else bit (v_reg (view h) R_C1) 4)"
    by (simp add: C1 h4 h3 c12 bit_simps)
  have B2: "bit (v_reg (view h6) R_C1) 1 = (if c2 = 0 then False else if c2 = 1 \<or> c2 = 2 then True else bit (v_reg (view h) R_C1) 1)"
    by (simp add: C1 h4 h3 c12 bit_simps)
  have B3: "bit (v_reg (view h6) R_C1) 0 = (if c2 = 1 then True else if c2 = 2 then False else bit (v_reg (view h) R_C1) 0)"
    by (simp add: C1 h4 h3 c12 bit_simps)
  have B4: "v_reg (view h6) R_C1 AND 0xEC = v_reg (view h) R_C1 AND 0xEC"
    by (simp add: C1 h4 h3 c12 u8_masks)
  have S1: "bit (v_reg (view h6) R_BDH) 5 = (if c2 = 0 then False else if c2 = 1 then True else bit (v_reg (view h) R_BDH) 5)"
    by (simp add: h6 h5 h4 h3 b5 bit_simps)
  have D: "divisor_of (view h6) = divisor_of (view h2)" by (simp add: divisor_of_def h6 h5 h4 h3 u8_masks)
  have D1: "divisor_of (view ?h1) = divisor_of (view h)" by (simp add: divisor_of_def CLR P)
  have F: "v_tx (view h6) = v_tx (view h)" "v_rx (view h6) = v_rx (view h)" "v_out (view h6) = v_out (view h)"
    "v_in (view h6) = v_in (view h)" by (simp_all add: h6 h5 h4 h3 f2)
  have R: "\<forall>r. r \<notin> {R_C1, R_C2, R_C4, R_BDH, R_BDL} \<longrightarrow> v_reg (view h6) r = v_reg (view h) r"
    using o by (simp add: h6 h5 h4 h3 CLR P)
  have "line_set c1 c2 (divisor_of (view h6)) (view h) (view h6)"
    unfolding line_set_def using R by (simp only: F C2 B1 B2 B3 B4 S1 simp_thms)
  moreover have "divisor_of (view h6) = (if 1 \<le> q \<and> q \<le> 0x1FFF
      then 32 * q + (2 * unat (UartFreq E) div unat baud) mod 32 else divisor_of (view h))"
    by (simp add: D D1 h2(4) fits_def)
  ultimately show ?thesis using run unfolding c by (intro exI [of _ h6]) simp
qed

end
