(* ===== verification/EchoRecv.thy ===== *)
theory EchoRecv
  imports EchoProps
begin

text \<open>
  What \<open>echo_recv\<close> does with a data segment, and the properties of the application: the sending
  loop, the configuration packet, the data for the UART and the pointer the driver keeps. The last
  section is a concrete application on the K64F for their witnesses.
\<close>

section \<open>Data for the UART\<close>



lemma pb_len_data: "pb_data n b = Some bs \<Longrightarrow> unat (pb_len b) = length bs"
  by (auto simp: pb_data_def mem_read_def split: bind_splits option.splits if_splits)



lemma tcp_laws_sent:
  assumes "tcp_laws T Z B owned out"
  shows "owned (tcp_sent T pcb f t) = owned t" "out pcb (tcp_sent T pcb f t) = out pcb t"
  using assms unfolding tcp_laws_def by blast+

section \<open>Properties\<close>



text \<open>the configuration packet is not consumed: \<open>echo_recv\<close> keeps it as the data of the
  connection, and the next poll sends it back to the peer.\<close>

theorem config_packet_is_echoed:
  assumes L: "tcp_laws (tcp A) Z B owned out" and inv: "net_inv Z B (a_net s)"
    and es: "a_es s e = Some es" "es_state es = ES_ACCEPTED"
    and p: "pchain (a_net s) (Some p) [(p, b)]" "chain_ok [(p, b)]" "refs_ok [(p, b)]" "apart owned (a_tcp s) [(p, b)]"
      "pb_data (a_net s) b = Some bs" "length bs \<le> 4"
    and conf: "echo_configure (uenv A) (stack_word A) (bs @ drop (length bs) (stack_bytes A)) (hw (a_uart s)) \<noteq> None"
    and idle: "tx_flag (globals (a_dev s)) \<noteq> 1"
    and t1: "t1 = tcp_sent (tcp A) pcb (Some Fn_echo_sent) (a_tcp s)" "pb_len b \<le> tcp_sndbuf (tcp A) pcb t1"
      "fst (tcp_write (tcp A) pcb bs 1 (a_net s, t1)) = ERR_OK"
  shows "\<exists>s1 s2 es2. echo_recv A (Some e) pcb (Some p) ERR_OK s = Some (ERR_OK, s1) \<and> a_tcp s1 = a_tcp s \<and>
    echo_poll A (Some e) pcb s1 = Some (ERR_OK, s2) \<and> out pcb (a_tcp s2) = out pcb (a_tcp s) @ bs \<and>
    a_es s2 e = Some es2 \<and> es_p es2 = None"
proof -
  from conf obtain h' where h': "echo_configure (uenv A) (stack_word A) (bs @ drop (length bs) (stack_bytes A)) (hw (a_uart s)) = Some h'"
    by blast
  let ?es = "es\<lparr>es_state := ES_RECEIVED, es_p := Some p\<rparr>"
  define s1 where "s1 = s\<lparr>a_uart := (a_uart s)\<lparr>hw := h'\<rparr>, a_es := (a_es s)(e \<mapsto> ?es), uart_ready := 1\<rparr>"
  have r1: "echo_recv A (Some e) pcb (Some p) ERR_OK s = Some (ERR_OK, s1)"
    using es p h' by (simp add: echo_recv_def put_es_def s1_def)
  define dv where "dv = (a_dev s)\<lparr>globals := (globals (a_dev s))\<lparr>tx_buff_ready_flag := True\<rparr>\<rparr>"
  define s3 where "s3 = on_tcp (tcp_sent (tcp A) pcb (Some Fn_echo_sent)) (s1\<lparr>a_dev := dv\<rparr>)"
  have s3: "a_net s3 = a_net s" "a_tcp s3 = t1" "a_es s3 e = Some ?es" "a_es s3 = (a_es s)(e \<mapsto> ?es)"
    by (simp_all add: s3_def s1_def on_tcp_def t1)
  have own: "owned t1 = owned (a_tcp s)" "out pcb t1 = out pcb (a_tcp s)" using tcp_laws_sent [OF L] unfolding t1(1) by blast+
  have pre: "net_inv Z B (a_net s3)" "pchain (a_net s3) (es_p ?es) [(p, b)]" "apart owned (a_tcp s3) [(p, b)]"
    "chain_data (a_net s3) [(p, b)] = Some bs"
    using inv p own by (simp_all add: s3)
  from echo_send_spec [OF L pre(1) s3(3) pre(2) p(2,3) pre(3,4), of pcb] obtain s2 k q r where S: "echo_send A pcb e s3 = Some s2"
    "k \<le> length [(p, b)]" "a_es s2 = (a_es s3)(e \<mapsto> ?es\<lparr>es_p := q\<rparr>)" "pchain (a_net s2) q (drop k [(p, b)])"
    "chain_data (a_net s2) (drop k [(p, b)]) = Some r" "out pcb (a_tcp s2) @ r = out pcb (a_tcp s3) @ bs"
    and k: "[(p, b)] = (p, b) # [] \<and> pb_len b \<le> tcp_sndbuf (tcp A) pcb (a_tcp s3) \<and> pb_data (a_net s3) b = Some bs \<and>
       fst (tcp_write (tcp A) pcb bs 1 (a_net s3, a_tcp s3)) = ERR_OK \<longrightarrow> 0 < k" by blast
  have "0 < k" using k p(5) t1 by (simp add: s3)
  then have "k = 1" using S(2) by simp
  with S(4,5) have q: "q = None" "r = []" by simp_all
  have "echo_poll A (Some e) pcb s1 = Some (ERR_OK, s2)"
  proof -
    have "app_ReadInPoll A pcb s1 = Some (s1\<lparr>a_dev := dv\<rparr>)"
      using idle by (simp add: app_ReadInPoll_def ReadInPoll_def Let_def s1_def dv_def)
    moreover have "a_es (s1\<lparr>a_dev := dv\<rparr>) e = Some ?es" by (simp add: s1_def)
    ultimately show ?thesis using S(1) by (simp add: echo_poll_def s3_def [symmetric])
  qed
  then show ?thesis using r1 S(3,6) q own by (intro exI [of _ s1] exI [of _ s2]) (simp add: s1_def s3(2))
qed




section \<open>A concrete application\<close>

text \<open>TCP that accepts everything and remembers what it was given.\<close>

definition demo_tcp :: "u8 list tcp_fns" where
  "demo_tcp = \<lparr> tcp_new = (\<lambda>(n, t). (Some 0, n, t)), tcp_bind = (\<lambda>_ _ (n, t). (ERR_OK, n, t)),
     tcp_listen = (\<lambda>_ (n, t). (Some 0, n, t)), tcp_accept = (\<lambda>_ _ t. t), tcp_setprio = (\<lambda>_ _ t. t),
     tcp_arg = (\<lambda>_ _ t. t), tcp_recv = (\<lambda>_ _ t. t), tcp_sent = (\<lambda>_ _ t. t), tcp_err = (\<lambda>_ _ t. t),
     tcp_poll = (\<lambda>_ _ _ t. t), tcp_sndbuf = (\<lambda>_ _. 2000),
     tcp_write = (\<lambda>_ bs _ (n, t). (ERR_OK, n, t @ bs)), tcp_recved = (\<lambda>_ _ (n, t). (n, t)),
     tcp_close = (\<lambda>_ (n, t). (ERR_OK, n, t)), tcp_abort = (\<lambda>_ (n, t). (n, t)) \<rparr>"

lemma demo_tcp_laws: "tcp_laws demo_tcp Z B (\<lambda>_. {}) (\<lambda>_ t. t)"
  by (auto simp: tcp_laws_def demo_tcp_def keeps_def)

definition demo_env :: "addr \<Rightarrow> (k64_uart, u8 list) app_env" where
  "demo_env p = \<lparr> tcp = demo_tcp, cff = (\<lambda>_ _. None), uenv = k64_env, phys = (\<lambda>(a, off). nat off),
     locate = (\<lambda>x. Some (p, x)), stack_bytes = [0, 0, 0, 0], stack_word = 0 \<rparr>"

definition demo_dev :: dev where
  "demo_dev = \<lparr> CircBuffTx = fst (CircBuffInit (replicate 100 0) (replicate 100 0)),
     CircBuffRx = snd (CircBuffInit (replicate 100 0) (replicate 100 0)), tx_buffer = replicate 10 0,
     tx_uart = replicate 8 0, globals = cb_globals_init, pit_dev = pit_reset \<rparr>"

definition demo_app :: "net \<Rightarrow> k64_uart uart_sys \<Rightarrow> echo_states \<Rightarrow> addr option \<Rightarrow> (k64_uart, u8 list) app" where
  "demo_app n u st q = \<lparr> a_net = n, a_tcp = [], a_dev = demo_dev, a_uart = u,
     a_es = [0 \<mapsto> \<lparr> es_state = st, es_retries = 0, es_pcb = 0, es_p = q \<rparr>], uart_ready = 0, echo_pcb = None \<rparr>"

lemma demo_simps [simp]:
  "tcp (demo_env p) = demo_tcp" "uenv (demo_env p) = k64_env" "stack_bytes (demo_env p) = [0, 0, 0, 0]"
  "stack_word (demo_env p) = 0" "locate (demo_env p) x = Some (p, x)" "phys (demo_env p) (a, off) = nat off"
  "a_net (demo_app n u st q) = n" "a_tcp (demo_app n u st q) = []" "a_dev (demo_app n u st q) = demo_dev"
  "a_uart (demo_app n u st q) = u"
  "a_es (demo_app n u st q) = [0 \<mapsto> \<lparr> es_state = st, es_retries = 0, es_pcb = 0, es_p = q \<rparr>]"
  by (simp_all add: demo_env_def demo_app_def)

lemmas demo_defs = demo_tcp_def demo_env_def demo_app_def

lemma demo_packet:
  assumes "0 < length cs" "length cs \<le> 100"
  shows "\<exists>p b n. net_inv (\<lambda>_. 1536) 4096 n \<and> pchain n (Some p) [(p, b)] \<and> pbufs n p = Some b \<and> pb_next b = None \<and>
    pb_ref b = 1 \<and> \<not> is_custom (pb_flags b) \<and> pb_payload b = Some (p, 16) \<and> pb_data n b = Some cs"
proof -
  let ?Z = "\<lambda>_. 1536" and ?F = "memp_free_list (n_memp boot) MEMP_PBUF_POOL" and ?l = "of_nat (length cs) :: u16"
  note B = net_boot_inv [OF sizes_1536]
  have ul: "unat ?l = length cs" using assms(2) by (simp add: unat_of_nat take_bit_nat_eq_self)
  have "uint ?l = int (length cs)" by (simp only: uint_nat ul)
  then have n1: "pool_need PBUF_RAW ?l = 1" using assms ul by (simp add: pool_need_def align4_def tail_need_def)
  then have need: "pool_need PBUF_RAW ?l \<le> length ?F" using B(3) by simp
  from pbuf_alloc_pool_spec [OF B(1) refl, of PBUF_RAW ?l "\<lambda>_ _. None", unfolded if_P [OF need]]
  obtain a s xs where A: "net_inv ?Z 4096 s" "pchain s (Some a) xs" "totals_to 0 xs" "pb_tot_len (snd (hd xs)) = ?l"
    "pb_payload (snd (hd xs)) = Some (a, int (16 + align4 (layer_offset PBUF_RAW)))"
    "map fst xs = map MempAddr (take (pool_need PBUF_RAW ?l) ?F)" "all_one xs" "chain_room s xs"
    by (elim exE conjE) (rule that; assumption)
  have "length (map fst xs) = 1" using B(3) n1 by (simp add: A(6))
  then obtain x where "xs = [x]" by (cases xs) auto
  then obtain b where x: "xs = [(a, b)]" using A(2) by (cases x) auto
  let ?n = "s\<lparr>cells := (\<lambda>_ i. cs ! (i - 16))\<rparr>"
  have bl: "unat (pb_len b) = length cs" using A(3,4) x ul by simp
  have pl: "pb_payload b = Some (a, 16)" using A(5) x by (simp add: align4_def)
  obtain ex where ex: "extent s a = Some ex" "16 + int (unat (pb_len b)) \<le> int ex"
    using A(8) x pl by (auto simp: chain_room_def pb_room_def)
  have "16 + int (length cs) \<le> int ex" using ex(2) unfolding bl .
  then have "pb_data ?n b = Some cs" using ex(1) by (simp add: pb_data_def mem_read_def pl bl map_nth)
  moreover have "net_inv ?Z 4096 ?n"
    using A(1) pbuf_placed_cong [of ?n s] by (simp add: net_inv_def)
  moreover have "pchain ?n (Some a) [(a, b)]" "pbufs s a = Some b" "pb_next b = None" using A(2) x by simp_all
  ultimately show ?thesis using A(7) x pl
    by (intro exI [of _ a] exI [of _ b] exI [of _ ?n]) (simp add: all_one_def)
qed


lemma demo_conf:
  "\<exists>h'. echo_configure k64_env junk ([9, 3, 0, 0] @ drop 4 t) h = Some h' \<and>
    line_set 3 0 4166 (k64_view h) (k64_view h')"
  using conf_spec [OF k64.uart_chip_axioms k64_env_chip, of "[9, 3, 0, 0] @ drop 4 t" 57600 130 junk h]
  by (simp add: k64_env_def echo_baud_def)


theorem config_packet_is_echoed_witness:
  "\<exists>p n s1 s2. echo_recv (demo_env p) (Some 0) 0 (Some p) ERR_OK (demo_app n (k64_ready ten_bytes) ES_ACCEPTED None) = Some (ERR_OK, s1) \<and>
    a_tcp s1 = [] \<and> echo_poll (demo_env p) (Some 0) 0 s1 = Some (ERR_OK, s2) \<and> a_tcp s2 = [9, 3, 0, 0]"
proof -
  obtain p b n where P: "net_inv (\<lambda>_. 1536) 4096 n" "pchain n (Some p) [(p, b)]" "pb_ref b = 1" "\<not> is_custom (pb_flags b)"
    "pb_payload b = Some (p, 16)" "pb_data n b = Some [9, 3, 0, 0]" using demo_packet [of "[9, 3, 0, 0]"] by auto
  let ?s = "demo_app n (k64_ready ten_bytes) ES_ACCEPTED None"
  have len: "pb_len b = 4" using pb_len_data [OF P(6)] by (simp add: word_eq_unat)
  obtain h' where h': "echo_configure k64_env 0 [9, 3, 0, 0] (hw (k64_ready ten_bytes)) = Some h'"
    using demo_conf [of 0 "[]" "hw (k64_ready ten_bytes)"] by auto
  have pre: "tcp_laws (tcp (demo_env p)) (\<lambda>_. 1536) 4096 (\<lambda>_. {}) (\<lambda>_ t. t)" "net_inv (\<lambda>_. 1536) 4096 (a_net ?s)"
    "a_es ?s 0 = Some \<lparr> es_state = ES_ACCEPTED, es_retries = 0, es_pcb = 0, es_p = None \<rparr>"
    "es_state \<lparr> es_state = ES_ACCEPTED, es_retries = 0, es_pcb = 0, es_p = None \<rparr> = ES_ACCEPTED"
    "pchain (a_net ?s) (Some p) [(p, b)]" "chain_ok [(p, b)]" "refs_ok [(p, b)]"
    "apart (\<lambda>_. {}) (a_tcp ?s) [(p, b)]" "pb_data (a_net ?s) b = Some [9, 3, 0, 0]" "length [9, 3, 0, 0 :: u8] \<le> 4"
    "echo_configure (uenv (demo_env p)) (stack_word (demo_env p)) ([9, 3, 0, 0] @ drop (length [9, 3, 0, 0 :: u8]) (stack_bytes (demo_env p)))
      (hw (a_uart ?s)) \<noteq> None" "tx_flag (globals (a_dev ?s)) \<noteq> 1"
    using P h' by (simp_all add: demo_env_def demo_app_def demo_tcp_laws demo_dev_def cb_globals_init_def)
  from config_packet_is_echoed [OF pre refl, of 0] len show ?thesis by (auto simp: demo_defs)
qed







end
