(* ===== verification/ByteOrder.thy ===== *)
theory ByteOrder
  imports Prelude
begin

text \<open>
  The byte order functions of \<open>core/def.c\<close> (the little-endian build) and the byte view of
  the 16-bit and 32-bit objects the protocol code overlays on buffers.
\<close>

section \<open>Functions\<close>

definition lwip_htons :: "u16 \<Rightarrow> u16" where
  "lwip_htons n = (push_bit 8 (n AND 0xff)) OR (drop_bit 8 (n AND 0xff00))"

definition lwip_ntohs :: "u16 \<Rightarrow> u16" where
  "lwip_ntohs n = lwip_htons n"

definition lwip_htonl :: "u32 \<Rightarrow> u32" where
  "lwip_htonl n = (push_bit 24 (n AND 0xff)) OR (push_bit 8 (n AND 0xff00)) OR
     (drop_bit 8 (n AND 0xff0000)) OR (drop_bit 24 (n AND 0xff000000))"

definition lwip_ntohl :: "u32 \<Rightarrow> u32" where
  "lwip_ntohl n = lwip_htonl n"

text \<open>A little-endian load of a 16-bit and of a 32-bit object.\<close>

definition le16 :: "u8 \<Rightarrow> u8 \<Rightarrow> u32" where
  "le16 a b = ucast a + 256 * ucast b"

definition le32 :: "u8 \<Rightarrow> u8 \<Rightarrow> u8 \<Rightarrow> u8 \<Rightarrow> u32" where
  "le32 a b c d = ucast a + 256 * ucast b + 65536 * ucast c + 16777216 * ucast d"

section \<open>Lemmas\<close>

lemma unat_le16: "unat (le16 a b) = unat a + 256 * unat b"
  using unat_u8_lt [of a] unat_u8_lt [of b]
  by (simp add: le16_def unat_word_ariths unat_ucast_mod)

lemma unat_le32: "unat (le32 a b c d) =
    unat a + 256 * unat b + 65536 * unat c + 16777216 * unat d"
proof -
  have "unat a + 256 * unat b + 65536 * unat c + 16777216 * unat d < 4294967296"
    using unat_u8_lt [of a] unat_u8_lt [of b] unat_u8_lt [of c] unat_u8_lt [of d] by linarith
  moreover have "unat a mod 4294967296 = unat a" "unat b mod 4294967296 = unat b"
     "unat c mod 4294967296 = unat c" "unat d mod 4294967296 = unat d"
    using unat_u8_lt [of a] unat_u8_lt [of b] unat_u8_lt [of c] unat_u8_lt [of d] by simp_all
  ultimately show ?thesis
    by (simp add: le32_def unat_word_ariths unat_ucast_mod mod_simps)
qed

lemma byte_masks:
  "(0xff :: 'a::len word) = mask 8" "(0xff00 :: 'a word) = push_bit 8 (mask 8)"
  "(0xff0000 :: 'a word) = push_bit 16 (mask 8)" "(0xff000000 :: 'a word) = push_bit 24 (mask 8)"
  by (simp_all add: mask_eq_exp_minus_1 push_bit_eq_mult)

lemma bit_lwip_htons:
  "bit (lwip_htons n) i = (if i < 8 then bit n (i + 8) else i < 16 \<and> bit n (i - 8))"
  unfolding lwip_htons_def byte_masks
  by (cases "i < 8") (auto simp: bit_simps add.commute dest: bit_imp_le_length)

lemma lwip_htons_htons [simp]: "lwip_htons (lwip_htons n) = n"
  by (rule bit_word_eqI) (auto simp: bit_lwip_htons)

lemma unat_lwip_htons: "unat (lwip_htons n) = unat n mod 256 * 256 + unat n div 256"
proof -
  have eq: "lwip_htons n = push_bit 8 n OR drop_bit 8 n"
    by (rule bit_word_eqI) (auto simp: bit_lwip_htons bit_simps add.commute dest: bit_imp_le_length)
  have "push_bit 8 n AND drop_bit 8 n = (0 :: u16)"
    by (rule bit_word_eqI) (auto simp: bit_simps dest: bit_imp_le_length)
  then have "lwip_htons n = push_bit 8 n + drop_bit 8 n"
    by (simp add: eq disjunctive_add_eq_or)
  moreover have "unat (push_bit 8 n) = unat n mod 256 * 256"
    using mod_mult_mult2 [of "unat n" 256 256]
    by (simp add: push_bit_eq_mult unat_word_ariths)
  moreover have "unat (drop_bit 8 n) = unat n div 256"
    by (simp add: drop_bit_eq_div unat_div)
  ultimately show ?thesis
    using unat_u16_lt [of n] by (simp add: unat_u16_add)
qed

lemma bit_lwip_htonl:
  "bit (lwip_htonl n) i = (if i < 8 then bit n (i + 24) else if i < 16 then bit n (i + 8)
     else if i < 24 then bit n (i - 8) else i < 32 \<and> bit n (i - 24))"
proof -
  consider "i < 8" | "8 \<le> i" "i < 16" | "16 \<le> i" "i < 24" | "24 \<le> i" "i < 32" | "32 \<le> i" by linarith
  then show ?thesis
    unfolding lwip_htonl_def byte_masks
    by cases (auto simp: bit_simps add.commute dest: bit_imp_le_length)
qed

lemma lwip_htonl_htonl [simp]: "lwip_htonl (lwip_htonl n) = n"
  by (rule bit_word_eqI) (auto simp: bit_lwip_htonl)

end
