(* ===== verification/IpAddr.thy ===== *)
theory IpAddr
  imports ByteOrder
begin

text \<open>
  IPv4 addresses: \<open>core/ipv4/ip_addr.c\<close>. Addresses are in network byte order, as the code
  keeps them, so on this little-endian core the first octet is the lowest byte. Strings
  are the bytes of the object, and reading past them is a fault.
\<close>

section \<open>Predicates\<close>

record ip_netif =
  nif_ip_addr :: u32
  nif_netmask :: u32
  nif_flags :: u8

definition NETIF_FLAG_BROADCAST :: u8 where "NETIF_FLAG_BROADCAST = 0x02"

definition ip4_addr_isbroadcast :: "u32 \<Rightarrow> ip_netif \<Rightarrow> bool" where
  "ip4_addr_isbroadcast addr netif =
     (if NOT addr = 0 \<or> addr = 0 then True
      else if nif_flags netif AND NETIF_FLAG_BROADCAST = 0 then False
      else if addr = nif_ip_addr netif then False
      else if addr AND nif_netmask netif = nif_ip_addr netif AND nif_netmask netif \<and>
              addr AND NOT (nif_netmask netif) = 0xffffffff AND NOT (nif_netmask netif) then True
      else False)"

text \<open>The two loops of \<open>ip4_addr_netmask_valid\<close> over \<open>mask\<close>.\<close>

lemma drop_bit_1_less: "m \<noteq> 0 \<Longrightarrow> unat (drop_bit (Suc 0) m :: u32) < unat m"
  by (simp add: drop_bit_eq_div unat_div unat_gt_0)

function nm_first_zero :: "u32 \<Rightarrow> u32 \<Rightarrow> u32" where
  "nm_first_zero nm mk =
     (if mk \<noteq> 0 then if nm AND mk = 0 then mk else nm_first_zero nm (drop_bit 1 mk)
      else mk)"
  by pat_completeness auto
termination by (relation "measure (\<lambda>(nm, mk). unat mk)") (auto intro: drop_bit_1_less)

function nm_no_one :: "u32 \<Rightarrow> u32 \<Rightarrow> bool" where
  "nm_no_one nm mk =
     (if mk \<noteq> 0 then if nm AND mk \<noteq> 0 then False else nm_no_one nm (drop_bit 1 mk)
      else True)"
  by pat_completeness auto
termination by (relation "measure (\<lambda>(nm, mk). unat mk)") (auto intro: drop_bit_1_less)

declare nm_first_zero.simps [simp del] nm_no_one.simps [simp del]

definition ip4_addr_netmask_valid :: "u32 \<Rightarrow> bool" where
  "ip4_addr_netmask_valid netmask =
     (let nm = lwip_htonl netmask in nm_no_one nm (nm_first_zero nm (push_bit 31 1)))"

section \<open>Parsing\<close>

definition in_range :: "u8 \<Rightarrow> u8 \<Rightarrow> u8 \<Rightarrow> bool" where
  "in_range c lo up \<longleftrightarrow> c \<ge> lo \<and> c \<le> up"

definition isdigit :: "u8 \<Rightarrow> bool" where "isdigit c = in_range c 0x30 0x39"
definition isxdigit :: "u8 \<Rightarrow> bool" where
  "isxdigit c \<longleftrightarrow> isdigit c \<or> in_range c 0x61 0x66 \<or> in_range c 0x41 0x46"
definition islower :: "u8 \<Rightarrow> bool" where "islower c = in_range c 0x61 0x7a"
definition isspace :: "u8 \<Rightarrow> bool" where
  "isspace c \<longleftrightarrow> c = 0x20 \<or> c = 0x0c \<or> c = 0x0a \<or> c = 0x0d \<or> c = 0x09 \<or> c = 0x0b"

lemmas [c_def] = in_range_def isdigit_def isxdigit_def islower_def isspace_def

text \<open>The inner loop: \<open>c\<close> is the head of the remaining string.\<close>

fun aton_digits :: "u8 \<Rightarrow> u32 \<Rightarrow> u8 list \<Rightarrow> (u32 \<times> u8 list) option" where
  "aton_digits base val [] = None"
| "aton_digits base val (c # cp) =
     (if isdigit c then aton_digits base (val * ucast base + ucast (c - 0x30)) cp
      else if base = 16 \<and> isxdigit c
      then aton_digits base
             (push_bit 4 val OR (ucast c + 10 - (if islower c then 0x61 else 0x41))) cp
      else Some (val, c # cp))"

text \<open>The number at the start of a part: its base, then its digits.\<close>

definition aton_number :: "u8 list \<Rightarrow> (u32 \<times> u8 list) option" where
  "aton_number cp = (case cp of [] \<Rightarrow> None
     | c # cp' \<Rightarrow>
         if c = 0x30 then
           case cp' of [] \<Rightarrow> None
           | c2 # cp'' \<Rightarrow>
               if c2 = 0x78 \<or> c2 = 0x58 then
                 aton_digits 16 0 cp''
               else aton_digits 8 0 cp'
         else aton_digits 10 0 cp)"

text \<open>
  The outer loop. The inner \<^term>\<open>None\<close> is the code's \<open>return 0\<close>; otherwise the parts
  in front of the last one, the last value and the rest of the string.
\<close>

function aton_loop :: "u32 list \<Rightarrow> u8 list \<Rightarrow> (u32 list \<times> u32 \<times> u8 list) option option" where
  "aton_loop parts cp = (case cp of [] \<Rightarrow> None
     | c # _ \<Rightarrow>
         if \<not> isdigit c then Some None
         else do {
           (val, cp) \<leftarrow> aton_number cp;
           case cp of [] \<Rightarrow> None
           | c # cp' \<Rightarrow>
               if c = 0x2e then
                 if length parts \<ge> 3 then Some None else aton_loop (parts @ [val]) cp'
               else Some (Some (parts, val, cp)) })"
  by pat_completeness auto
termination by (relation "measure (\<lambda>(parts, cp). 4 - length parts)") auto

declare aton_loop.simps [simp del]

definition ipaddr_aton :: "u8 list \<Rightarrow> u32 option option" where
  "ipaddr_aton cp = do {
     r \<leftarrow> aton_loop [] cp;
     case r of None \<Rightarrow> Some None
     | Some (parts, val, cp) \<Rightarrow> do {
         c \<leftarrow> (case cp of [] \<Rightarrow> None | c # _ \<Rightarrow> Some c);
         if c \<noteq> 0 \<and> \<not> isspace c then Some None
         else case length parts of
             0 \<Rightarrow> Some (Some (lwip_htonl val))
           | Suc 0 \<Rightarrow>
               if val > 0xffffff then Some None
               else Some (Some (lwip_htonl (val OR push_bit 24 (parts ! 0))))
           | Suc (Suc 0) \<Rightarrow>
               if val > 0xffff then Some None
               else Some (Some (lwip_htonl (val OR (push_bit 24 (parts ! 0) OR push_bit 16 (parts ! 1)))))
           | Suc (Suc (Suc 0)) \<Rightarrow>
               if val > 0xff then Some None
               else Some (Some (lwip_htonl (val OR (push_bit 24 (parts ! 0) OR
                      push_bit 16 (parts ! 1) OR push_bit 8 (parts ! 2)))))
           | _ \<Rightarrow> None } }"

definition IPADDR_NONE :: u32 where "IPADDR_NONE = 0xffffffff"

definition ipaddr_addr :: "u8 list \<Rightarrow> u32 option" where
  "ipaddr_addr cp = do {
     r \<leftarrow> ipaddr_aton cp;
     Some (case r of Some val \<Rightarrow> val | None \<Rightarrow> IPADDR_NONE) }"

section \<open>Printing\<close>

text \<open>The \<open>do\<close>-\<open>while\<close> loop that fills \<open>inv\<close> with the digits, the last one first.\<close>

function inv_digits :: "u8 \<Rightarrow> u8 list" where
  "inv_digits ap = (0x30 + ap mod 10) # (if ap div 10 \<noteq> 0 then inv_digits (ap div 10) else [])"
  by pat_completeness auto
termination
proof (relation "measure unat")
  fix ap :: u8
  assume "ap div 10 \<noteq> 0"
  then have "0 < unat ap" by (auto simp: unat_gt_0)
  then show "(ap div 10, ap) \<in> measure unat" by (simp add: unat_div)
qed simp

declare inv_digits.simps [simp del]

text \<open>\<open>if (len++ >= buflen) return NULL; *rp++ = c\<close>.\<close>

fun ntoa_put :: "int \<Rightarrow> u8 list \<Rightarrow> u8 list \<Rightarrow> u8 list option" where
  "ntoa_put buflen buf [] = Some buf"
| "ntoa_put buflen buf (c # cs) =
     (if int (length buf) \<ge> buflen then None else ntoa_put buflen (buf @ [c]) cs)"

fun ntoa_octets :: "int \<Rightarrow> u8 list \<Rightarrow> u8 list \<Rightarrow> u8 list option" where
  "ntoa_octets buflen buf [] = Some buf"
| "ntoa_octets buflen buf (ap # aps) = do {
     buf \<leftarrow> ntoa_put buflen buf (rev (inv_digits ap));
     buf \<leftarrow> ntoa_put buflen buf [0x2e];
     ntoa_octets buflen buf aps }"

text \<open>
  \<open>ipaddr_ntoa_r\<close>: the string with its terminator, or \<open>NULL\<close> as \<^term>\<open>None\<close>.
\<close>

definition addr_octets :: "u32 \<Rightarrow> u8 list" where
  "addr_octets a = [ucast a, ucast (drop_bit 8 a), ucast (drop_bit 16 a), ucast (drop_bit 24 a)]"

definition ipaddr_ntoa_r :: "u32 \<Rightarrow> int \<Rightarrow> u8 list option" where
  "ipaddr_ntoa_r addr buflen = do {
     buf \<leftarrow> ntoa_octets buflen [] (addr_octets addr);
     Some (butlast buf @ [0]) }"

definition ipaddr_ntoa :: "u32 \<Rightarrow> u8 list option" where
  "ipaddr_ntoa addr = ipaddr_ntoa_r addr 16"


section \<open>Lemmas on printing and parsing\<close>

lemma byte_cases:
  assumes "\<And>n. n < 256 \<Longrightarrow> P (of_nat n)"
  shows "P (b :: u8)"
  using assms [OF unat_u8_lt [of b]] by simp

lemma unat_mod10: "unat (b mod 10 :: u8) = unat b mod 10" "unat (b div 10 :: u8) = unat b div 10"
  by (simp_all add: unat_mod unat_div)

lemma digit_char: "d < 10 \<Longrightarrow> isdigit (0x30 + d)" "d < 10 \<Longrightarrow> ucast (0x30 + d - 0x30 :: u8) = (ucast d :: u32)"
proof -
  assume "d < 10"
  then have "unat d < 10" by (simp add: word_less_nat_alt)
  then have "unat (0x30 + d) = 48 + unat d" by (simp add: unat_word_ariths)
  then show "isdigit (0x30 + d)" using \<open>unat d < 10\<close>
    by (simp add: c_def word_le_nat_alt)
qed simp

lemma mod10_less: "b mod 10 < (10 :: u8)"
  by (simp add: word_less_nat_alt unat_mod10)

text \<open>Reading back the digits of a byte appends its value to the number read so far.\<close>

lemma aton_digits_inv:
  "aton_digits 10 val (rev (inv_digits b) @ r) =
     aton_digits 10 (val * 10 ^ length (inv_digits b) + ucast b) r"
proof (induction b arbitrary: val r rule: inv_digits.induct)
  case (1 b)
  let ?d = "b mod 10" and ?q = "b div 10"
  have step: "aton_digits 10 v ((0x30 + ?d) # r) = aton_digits 10 (v * 10 + ucast ?d) r" for v
    using digit_char [OF mod10_less [of b]] by simp
  have ub: "ucast b = (ucast ?q * 10 + ucast ?d :: u32)"
  proof -
    have "unat (ucast b :: u32) = unat (ucast ?q * 10 + ucast ?d :: u32)"
      using unat_u8_lt [of b] by (simp add: unat_word_ariths unat_ucast_mod unat_mod10)
    then show ?thesis by (simp only: word_eq_unat)
  qed
  show ?case
  proof (cases "?q = 0")
    case True
    then have "inv_digits b = [0x30 + ?d]" by (subst inv_digits.simps) simp
    then show ?thesis using step [of val] ub True by simp
  next
    case False
    then have i: "inv_digits b = (0x30 + ?d) # inv_digits ?q" by (subst inv_digits.simps) simp
    then show ?thesis
      using step 1 [OF False, of val "(0x30 + ?d) # r"] by (simp add: ub algebra_simps)
  qed
qed

lemma inv_digits_len: "length (inv_digits b) \<le> 3" "inv_digits b \<noteq> []"
proof -
  have "unat (b div 10 div 10 div 10) = 0"
    using unat_u8_lt [of b] by (simp add: unat_mod10)
  then have "b div 10 div 10 div 10 = 0" by (simp add: unat_eq_zero)
  then show "length (inv_digits b) \<le> 3"
    by (subst inv_digits.simps, subst inv_digits.simps, subst inv_digits.simps) simp
qed (subst inv_digits.simps, simp)

lemma inv_digits_last: "b \<noteq> 0 \<Longrightarrow> last (inv_digits b) \<noteq> 0x30"
proof (induction b rule: inv_digits.induct)
  case (1 b)
  show ?case
  proof (cases "b div 10 = 0")
    case True
    then have "unat b div 10 = 0" by (metis unat_0 unat_mod10(2))
    then have "b mod 10 = b" by (simp add: word_eq_unat unat_mod10)
    with True 1(2) show ?thesis by (subst inv_digits.simps) simp
  next
    case False
    with 1 inv_digits_len(2) show ?thesis by (subst inv_digits.simps) simp
  qed
qed

lemma aton_digits_stop: "\<not> isdigit c \<Longrightarrow> aton_digits 10 val (c # cp) = Some (val, c # cp)"
  "\<not> isdigit c \<Longrightarrow> aton_digits 8 val (c # cp) = Some (val, c # cp)"
  by simp_all

lemma aton_number_inv:
  assumes "c = 0x2e \<or> c = 0"
  shows "aton_number (rev (inv_digits b) @ c # r) = Some (ucast b, c # r)"
proof -
  have nd: "\<not> isdigit c" using assms by (auto simp: c_def)
  show ?thesis
  proof (cases "b = 0")
    case True
    then show ?thesis using assms nd
      by (subst inv_digits.simps) (auto simp: aton_number_def isdigit_def in_range_def)
  next
    case False
    have ne: "inv_digits b \<noteq> []" by (rule inv_digits_len)
    then obtain ds where ds: "rev (inv_digits b) = last (inv_digits b) # ds"
      by (metis append_butlast_last_id rev.simps(2) rev_append rev_rev_ident append_Cons append_Nil)
    have "aton_number (rev (inv_digits b) @ c # r) = aton_digits 10 0 (rev (inv_digits b) @ c # r)"
      using inv_digits_last [OF False] unfolding ds by (simp add: aton_number_def)
    then show ?thesis using nd by (simp add: aton_digits_inv)
  qed
qed

lemma ntoa_put_eq: "int (length buf + length cs) \<le> buflen \<Longrightarrow> ntoa_put buflen buf cs = Some (buf @ cs)"
  by (induction cs arbitrary: buf) auto

fun octets_text :: "u8 list \<Rightarrow> u8 list" where
  "octets_text [] = []"
| "octets_text (b # bs) = rev (inv_digits b) @ [0x2e] @ octets_text bs"

lemma octets_text_len: "length (octets_text bs) \<le> 4 * length bs"
proof (induction bs)
  case (Cons b bs)
  then show ?case using inv_digits_len(1) [of b] by simp
qed simp

lemma ntoa_octets_eq:
  "int (length buf + length (octets_text bs)) \<le> buflen \<Longrightarrow>
   ntoa_octets buflen buf bs = Some (buf @ octets_text bs)"
  by (induction bs arbitrary: buf) (auto simp: ntoa_put_eq)


lemma inv_digits_isdigit: "isdigit (last (inv_digits b))"
proof (induction b rule: inv_digits.induct)
  case (1 b)
  show ?case
  proof (cases "b div 10 = 0")
    case True
    then show ?thesis using digit_char(1) [OF mod10_less [of b]] by (subst inv_digits.simps) simp
  next
    case False
    with 1 inv_digits_len(2) show ?thesis by (subst inv_digits.simps) simp
  qed
qed

lemma aton_loop_octet:
  assumes "c = 0x2e \<or> c = 0"
  shows "aton_loop parts (rev (inv_digits b) @ c # r) =
    (if c = 0x2e then if length parts \<ge> 3 then Some None else aton_loop (parts @ [ucast b]) r
     else Some (Some (parts, ucast b, c # r)))"
proof -
  obtain x ds where ds: "rev (inv_digits b) = x # ds" "isdigit x"
    using inv_digits_isdigit [of b] inv_digits_len(2) [of b]
    by (metis append_butlast_last_id rev.simps(2) rev_append rev_rev_ident append_Cons append_Nil)
  then show ?thesis
    using aton_number_inv [OF assms, of b r] by (subst aton_loop.simps) simp
qed

lemma octets_concat:
  "lwip_htonl (ucast d OR (push_bit 24 (ucast a) OR push_bit 16 (ucast b) OR push_bit 8 (ucast c))) = addr"
  if "addr_octets addr = [a, b, c, d]"
proof (rule bit_word_eqI)
  fix n
  assume "n < LENGTH(32)"
  then consider "n < 8" | "8 \<le> n" "n < 16" | "16 \<le> n" "n < 24" | "24 \<le> n" "n < 32" by fastforce
  then show "bit (lwip_htonl (ucast d OR (push_bit 24 (ucast a) OR push_bit 16 (ucast b) OR push_bit 8 (ucast c)))) n
      \<longleftrightarrow> bit addr n"
    using that by cases (auto simp: addr_octets_def bit_lwip_htonl bit_simps)
qed

section \<open>Lemmas on netmasks\<close>

lemma pow_mask:
  "i < 32 \<Longrightarrow> push_bit i (1 :: u32) \<noteq> 0"
  "nm AND push_bit i 1 = 0 \<longleftrightarrow> \<not> bit (nm :: u32) i"
  "drop_bit 1 (push_bit 0 (1 :: u32)) = 0"
  "Suc i < 32 \<Longrightarrow> drop_bit 1 (push_bit (Suc i) (1 :: u32)) = push_bit i 1"
proof -
  show "push_bit i (1 :: u32) \<noteq> 0" if "i < 32"
    using that by simp
  show "nm AND push_bit i 1 = 0 \<longleftrightarrow> \<not> bit nm i"
    by (metis and_exp_eq_0_iff_not_bit push_bit_of_1)
  show "drop_bit 1 (push_bit (Suc i) (1 :: u32)) = push_bit i 1" if "Suc i < 32"
    using that by (intro bit_word_eqI) (auto simp: bit_simps)
qed simp

lemma nm_no_one_pow: "i < 32 \<Longrightarrow> nm_no_one nm (push_bit i 1) \<longleftrightarrow> (\<forall>j \<le> i. \<not> bit nm j)"
proof (induction i)
  case 0
  have "nm_no_one nm 0" by (subst nm_no_one.simps) simp
  then show ?case
    by (subst nm_no_one.simps) (simp only: pow_mask zero_less_numeral, simp)
next
  case (Suc i)
  then show ?case
    by (subst nm_no_one.simps)
      (unfold pow_mask(2) pow_mask(4) [OF Suc(2)],
        use Suc pow_mask(1) [OF Suc(2)] in \<open>auto simp: le_Suc_eq\<close>)
qed

lemma nm_valid_pow:
  "i < 32 \<Longrightarrow> nm_no_one nm (nm_first_zero nm (push_bit i 1)) \<longleftrightarrow>
     (\<exists>k \<le> Suc i. \<forall>j \<le> i. bit nm j \<longleftrightarrow> k \<le> j)"
proof (induction i)
  case 0
  have "nm_no_one nm 0" "nm_first_zero nm 0 = 0"
    by (subst nm_no_one.simps, simp) (subst nm_first_zero.simps, simp)
  then have "nm_no_one nm (nm_first_zero nm (push_bit 0 1))"
    using nm_no_one_pow [of 0 nm]
    by (subst nm_first_zero.simps) (cases "bit nm 0"; simp only: pow_mask zero_less_numeral; simp)
  moreover have "\<exists>k \<le> Suc 0. \<forall>j \<le> 0. bit nm j \<longleftrightarrow> k \<le> j"
    by (rule exI [of _ "if bit nm 0 then 0 else 1"]) simp
  ultimately show ?case by simp
next
  case (Suc i)
  show ?case
  proof (cases "bit nm (Suc i)")
    case True
    then have "nm_first_zero nm (push_bit (Suc i) 1) = nm_first_zero nm (push_bit i 1)"
      by (subst nm_first_zero.simps)
        (unfold pow_mask(2) pow_mask(4) [OF Suc(2)], use pow_mask(1) [OF Suc(2)] in simp)
    then have "nm_no_one nm (nm_first_zero nm (push_bit (Suc i) 1)) \<longleftrightarrow>
        (\<exists>k \<le> Suc i. \<forall>j \<le> i. bit nm j \<longleftrightarrow> k \<le> j)" using Suc by simp
    also have "\<dots> \<longleftrightarrow> (\<exists>k \<le> Suc (Suc i). \<forall>j \<le> Suc i. bit nm j \<longleftrightarrow> k \<le> j)"
      using True by (metis le_Suc_eq order_refl)
    finally show ?thesis .
  next
    case False
    then have "nm_first_zero nm (push_bit (Suc i) 1) = push_bit (Suc i) 1"
      using Suc(2) by (subst nm_first_zero.simps) (simp only: pow_mask, simp)
    then have "nm_no_one nm (nm_first_zero nm (push_bit (Suc i) 1)) \<longleftrightarrow> (\<forall>j \<le> Suc i. \<not> bit nm j)"
      using Suc(2) by (simp only: nm_no_one_pow)
    also have "\<dots> \<longleftrightarrow> (\<exists>k \<le> Suc (Suc i). \<forall>j \<le> Suc i. bit nm j \<longleftrightarrow> k \<le> j)"
      using False by (metis le_Suc_eq not_less_eq_eq order_refl)
    finally show ?thesis .
  qed
qed

section \<open>Totality\<close>

lemma aton_digits_total:
  "0 \<in> set cp \<Longrightarrow> \<exists>val' cp'. aton_digits base val cp = Some (val', cp') \<and> 0 \<in> set cp'"
proof (induction base val cp rule: aton_digits.induct)
  case (2 base val c cp)
  show ?case
  proof (cases "c = 0")
    case True
    then show ?thesis by (simp add: c_def)
  next
    case False
    with 2 show ?thesis by simp
  qed
qed simp

lemma aton_number_total:
  "0 \<in> set cp \<Longrightarrow> cp = c # cs \<Longrightarrow> isdigit c \<Longrightarrow>
   \<exists>val' cp'. aton_number cp = Some (val', cp') \<and> 0 \<in> set cp'"
proof -
  assume a: "0 \<in> set cp" "cp = c # cs" "isdigit c"
  then have "0 \<in> set cs" by (auto simp: c_def)
  then show ?thesis
    using a aton_digits_total [of cp 10 0] aton_digits_total [of cs 8 0] aton_digits_total [of "tl cs" 16 0]
    by (cases cs) (auto simp: aton_number_def simp del: aton_digits.simps)
qed

lemma aton_loop_total:
  "0 \<in> set cp \<Longrightarrow> length parts \<le> 3 \<Longrightarrow>
   \<exists>r. aton_loop parts cp = Some r \<and>
     (\<forall>parts' val cp'. r = Some (parts', val, cp') \<longrightarrow> length parts' \<le> 3 \<and> cp' \<noteq> [])"
proof (induction parts cp rule: aton_loop.induct)
  case (1 parts cp)
  then obtain c cs where cp: "cp = c # cs" by (cases cp) auto
  show ?case
  proof (cases "isdigit c")
    case False
    then show ?thesis by (subst aton_loop.simps) (simp add: cp)
  next
    case True
    from aton_number_total [OF 1(2) cp True] obtain val d ds where
      n: "aton_number cp = Some (val, d # ds)" "0 \<in> set (d # ds)"
      by (metis list.set_cases)
    show ?thesis
    proof (cases "d = 0x2e \<and> length parts < 3")
      case rec: True
      with n have "0 \<in> set ds" by auto
      moreover have "aton_loop parts cp = aton_loop (parts @ [val]) ds"
        using True n rec by (subst aton_loop.simps) (simp add: cp)
      ultimately show ?thesis
        using 1(1) [of c cs, OF _ _ n(1)] cp True rec by simp
    next
      case False
      then show ?thesis using True n 1(3) by (subst aton_loop.simps) (auto simp: cp)
    qed
  qed
qed

section \<open>Properties\<close>

text \<open>C8: printing an address and parsing it back gives the address, for every address; the
  text always fits the 16 bytes of the static buffer of \<open>ipaddr_ntoa\<close>.\<close>

theorem ntoa_aton_roundtrip:
  "\<exists>s. ipaddr_ntoa addr = Some s \<and> length s \<le> 16 \<and> ipaddr_aton s = Some (Some addr)"
proof -
  obtain a b c d where o: "addr_octets addr = [a, b, c, d]" by (simp add: addr_octets_def)
  let ?t = "rev (inv_digits a) @ 0x2e # rev (inv_digits b) @ 0x2e # rev (inv_digits c) @ 0x2e # rev (inv_digits d)"
  have dotted: "octets_text (addr_octets addr) = ?t @ [0x2e]" by (simp add: o)
  have len: "length (octets_text (addr_octets addr)) \<le> 16"
    using octets_text_len [of "addr_octets addr"] by (simp add: o)
  then have nt: "ipaddr_ntoa addr = Some (?t @ [0])"
    using ntoa_octets_eq [of "[]" "addr_octets addr" 16] dotted
    by (simp add: ipaddr_ntoa_def ipaddr_ntoa_r_def butlast_append)
  have "aton_loop [] (?t @ [0]) = Some (Some ([ucast a, ucast b, ucast c], ucast d, [0]))"
    by (simp add: aton_loop_octet)
  moreover have "\<not> (ucast d :: u32) > 0xff"
    using unat_u8_lt [of d] by (simp add: word_less_nat_alt unat_ucast_mod)
  ultimately have "ipaddr_aton (?t @ [0]) = Some (Some addr)"
    using octets_concat [OF o] by (simp add: ipaddr_aton_def)
  moreover have "length (?t @ [0]) \<le> 16" using len by (simp add: dotted)
  ultimately show ?thesis using nt by blast
qed

text \<open>C9: \<open>ipaddr_aton\<close> returns for every terminated string, whatever its content: it never
  reads past the terminator, never stores a fourth part and never reaches the assertion at
  the end of its \<open>switch\<close>.\<close>

theorem aton_total:
  assumes "0 \<in> set cp"
  shows "\<exists>r. ipaddr_aton cp = Some r"
proof -
  from aton_loop_total [OF assms, of "[]"] obtain r where
    r: "aton_loop [] cp = Some r" "\<And>parts val cp'. r = Some (parts, val, cp') \<Longrightarrow> length parts \<le> 3 \<and> cp' \<noteq> []"
    by auto
  show ?thesis
  proof (cases r)
    case None
    with r show ?thesis by (simp add: ipaddr_aton_def)
  next
    case (Some t)
    then obtain parts val c cs where t: "r = Some (parts, val, c # cs)" "length parts \<le> 3"
      using r(2) by (metis list.exhaust prod_cases3)
    then have "length parts = 0 \<or> length parts = 1 \<or> length parts = 2 \<or> length parts = 3" by linarith
    then show ?thesis
      by (auto simp: ipaddr_aton_def r(1) t(1) numeral_eq_Suc)
  qed
qed

theorem aton_total_witness: "\<exists>r. ipaddr_aton [0x31, 0x2e, 0x78, 0] = Some r"
  using aton_total [of "[0x31, 0x2e, 0x78, 0]"] by simp

text \<open>\<open>ip4_addr_netmask_valid\<close> accepts exactly the masks that are a run of ones followed
  by zeros when read from the most significant bit in host order.\<close>

theorem netmask_valid_iff:
  "ip4_addr_netmask_valid nm \<longleftrightarrow> (\<exists>k \<le> 32. lwip_htonl nm = NOT (mask k))"
proof -
  let ?h = "lwip_htonl nm"
  have "ip4_addr_netmask_valid nm \<longleftrightarrow> (\<exists>k \<le> 32. \<forall>j < 32. bit ?h j \<longleftrightarrow> k \<le> j)"
    using nm_valid_pow [of 31 ?h] by (simp add: ip4_addr_netmask_valid_def Let_def flip: less_Suc_eq_le)
  also have "\<dots> \<longleftrightarrow> (\<exists>k \<le> 32. ?h = NOT (mask k))"
    by (intro ex_cong1 conj_cong refl) (auto simp: bit_eq_iff bit_simps)
  finally show ?thesis .
qed

text \<open>a part in front of the last one is not range checked: it is shifted into place and
  loses its high bits. The string "256.1" is accepted as 0.0.0.1, and "08" is read as
  octal, giving 0.0.0.8.\<close>

theorem aton_accepts_large_part:
  "ipaddr_aton [0x32, 0x35, 0x36, 0x2e, 0x31, 0] = Some (Some (lwip_htonl 1)) \<and>
   ipaddr_aton [0x30, 0x38, 0] = Some (Some (lwip_htonl 8))"
  by code_simp

end
