(* ===== verification/Timers.thy ===== *)
theory Timers
  imports Memp "HOL-Library.Multiset"
begin

text \<open>
  The timeouts of \<open>core/lwip_timers.c\<close> with \<open>NO_SYS\<close>: a list of pool elements in which every
  entry holds the milliseconds after the entry before it. The functions that the periodic
  timers call in the rest of the stack (\<open>tcp_tmr\<close>, \<open>ip_reass_tmr\<close>, \<open>etharp_tmr\<close>,
  \<open>dhcp_coarse_tmr\<close>, \<open>dhcp_fine_tmr\<close>), the test for TCP connections and the handlers of other
  modules are a parameter, and so is the rest of the stack's state.
\<close>

section \<open>Data\<close>

datatype handler = TCPIP_TCP_TIMER | IP_REASS_TIMER | ARP_TIMER | DHCP_TIMER_COARSE
  | DHCP_TIMER_FINE | USER_TIMER nat

record sys_timeo =
  to_next :: "nat option"
  to_time :: u32
  to_h :: "handler option"
  to_arg :: "nat option"

text \<open>
  \<open>time_now\<close> is the millisecond counter behind \<open>sys_now\<close>; \<open>stack\<close> is the rest of the stack.
\<close>

record 'st timers =
  tm_memp :: memp_state
  timeos :: "nat \<Rightarrow> sys_timeo option"
  next_timeout :: "nat option"
  timeouts_last_time :: u32
  tcpip_tcp_timer_active :: bool
  time_now :: u32
  stack :: 'st

record 'st stack_fns =
  tcp_tmr :: "'st \<Rightarrow> 'st"
  ip_reass_tmr :: "'st \<Rightarrow> 'st"
  etharp_tmr :: "'st \<Rightarrow> 'st"
  dhcp_coarse_tmr :: "'st \<Rightarrow> 'st"
  dhcp_fine_tmr :: "'st \<Rightarrow> 'st"
  tcp_has_pcbs :: "'st \<Rightarrow> bool"
  user_timer :: "nat \<Rightarrow> nat option \<Rightarrow> 'st \<Rightarrow> 'st"

definition TCP_TMR_INTERVAL :: u32 where "TCP_TMR_INTERVAL = 250"
definition IP_TMR_INTERVAL :: u32 where "IP_TMR_INTERVAL = 1000"
definition ARP_TMR_INTERVAL :: u32 where "ARP_TMR_INTERVAL = 5000"
definition DHCP_COARSE_TIMER_MSECS :: u32 where "DHCP_COARSE_TIMER_MSECS = 60000"
definition DHCP_FINE_TIMER_MSECS :: u32 where "DHCP_FINE_TIMER_MSECS = 500"

lemmas interval_defs = TCP_TMR_INTERVAL_def IP_TMR_INTERVAL_def ARP_TMR_INTERVAL_def
  DHCP_COARSE_TIMER_MSECS_def DHCP_FINE_TIMER_MSECS_def

section \<open>Scheduling\<close>

definition sys_now :: "'st timers \<Rightarrow> u32" where
  "sys_now s = time_now s"

definition put_timeo :: "nat \<Rightarrow> sys_timeo \<Rightarrow> 'st timers \<Rightarrow> 'st timers" where
  "put_timeo x b s = s\<lparr>timeos := (timeos s)(x \<mapsto> b)\<rparr>"

text \<open>The \<open>for\<close> loop of \<open>sys_timeout\<close>: \<open>t\<close> is the current entry, \<open>x\<close> the new one.\<close>

partial_function (option) timeout_insert :: "nat \<Rightarrow> nat \<Rightarrow> 'st timers \<Rightarrow> 'st timers option" where
  "timeout_insert x t s =
     Option.bind (timeos s t) (\<lambda>b. Option.bind (timeos s x) (\<lambda>xb.
       let xb = xb\<lparr>to_time := to_time xb - to_time b\<rparr>; s = put_timeo x xb s in
       case to_next b of
         None \<Rightarrow> Some (put_timeo t (b\<lparr>to_next := Some x\<rparr>) (put_timeo x (xb\<lparr>to_next := None\<rparr>) s))
       | Some n \<Rightarrow> Option.bind (timeos s n) (\<lambda>nb.
           if to_time nb > to_time xb then
             let s = put_timeo n (nb\<lparr>to_time := to_time nb - to_time xb\<rparr>) s;
                 s = put_timeo x (xb\<lparr>to_next := Some n\<rparr>) s
             in Some (put_timeo t (b\<lparr>to_next := Some x\<rparr>) s)
           else timeout_insert x n s)))"

definition sys_timeout :: "u32 \<Rightarrow> handler option \<Rightarrow> nat option \<Rightarrow> 'st timers \<Rightarrow> 'st timers option" where
  "sys_timeout msecs h arg s = do {
     (timeout, mp) \<leftarrow> memp_malloc MEMP_SYS_TIMEOUT (tm_memp s);
     x \<leftarrow> timeout;
     let s = s\<lparr>tm_memp := mp\<rparr>;
     let s = put_timeo x \<lparr>to_next = None, to_time = msecs, to_h = h, to_arg = arg\<rparr> s;
     case next_timeout s of
       None \<Rightarrow> Some (s\<lparr>next_timeout := Some x\<rparr>)
     | Some f \<Rightarrow> do {
         b \<leftarrow> timeos s f;
         if to_time b > msecs then do {
           let s = put_timeo f (b\<lparr>to_time := to_time b - msecs\<rparr>) s;
           xb \<leftarrow> timeos s x;
           let s = put_timeo x (xb\<lparr>to_next := Some f\<rparr>) s;
           Some (s\<lparr>next_timeout := Some x\<rparr>) }
         else timeout_insert x f s } }"

text \<open>
  The loop of \<open>sys_untimeout\<close>: \<open>prev\<close> is the entry before \<open>t\<close>. An element that goes back to
  its pool is no longer there.
\<close>

definition free_timeo :: "nat \<Rightarrow> 'st timers \<Rightarrow> 'st timers option" where
  "free_timeo x s = do {
     mp \<leftarrow> memp_free MEMP_SYS_TIMEOUT (Some x) (tm_memp s);
     Some (s\<lparr>tm_memp := mp, timeos := (timeos s)(x := None)\<rparr>) }"

partial_function (option) untimeout_loop ::
  "handler option \<Rightarrow> nat option \<Rightarrow> nat option \<Rightarrow> nat option \<Rightarrow> 'st timers \<Rightarrow> 'st timers option" where
  "untimeout_loop h arg prev t s = (case t of None \<Rightarrow> Some s
     | Some t \<Rightarrow> Option.bind (timeos s t) (\<lambda>b.
         if to_h b = h \<and> to_arg b = arg then
           Option.bind (case prev of
               None \<Rightarrow> Some (s\<lparr>next_timeout := to_next b\<rparr>)
             | Some p \<Rightarrow> Option.bind (timeos s p) (\<lambda>pb. Some (put_timeo p (pb\<lparr>to_next := to_next b\<rparr>) s))) (\<lambda>s.
           Option.bind (case to_next b of
               None \<Rightarrow> Some s
             | Some n \<Rightarrow> Option.bind (timeos s n) (\<lambda>nb. Some (put_timeo n (nb\<lparr>to_time := to_time nb + to_time b\<rparr>) s))) (\<lambda>s.
           free_timeo t s))
         else untimeout_loop h arg (Some t) (to_next b) s))"

definition sys_untimeout :: "handler option \<Rightarrow> nat option \<Rightarrow> 'st timers \<Rightarrow> 'st timers option" where
  "sys_untimeout h arg s = untimeout_loop h arg None (next_timeout s) s"

section \<open>The periodic timers\<close>

definition tcpip_tcp_timer :: "'st stack_fns \<Rightarrow> 'st timers \<Rightarrow> 'st timers option" where
  "tcpip_tcp_timer F s =
     (let s = s\<lparr>stack := tcp_tmr F (stack s)\<rparr> in
      if tcp_has_pcbs F (stack s) then sys_timeout TCP_TMR_INTERVAL (Some TCPIP_TCP_TIMER) None s
      else Some (s\<lparr>tcpip_tcp_timer_active := False\<rparr>))"

definition tcp_timer_needed :: "'st stack_fns \<Rightarrow> 'st timers \<Rightarrow> 'st timers option" where
  "tcp_timer_needed F s =
     (if \<not> tcpip_tcp_timer_active s \<and> tcp_has_pcbs F (stack s) then
        sys_timeout TCP_TMR_INTERVAL (Some TCPIP_TCP_TIMER) None (s\<lparr>tcpip_tcp_timer_active := True\<rparr>)
      else Some s)"

definition ip_reass_timer :: "'st stack_fns \<Rightarrow> 'st timers \<Rightarrow> 'st timers option" where
  "ip_reass_timer F s =
     sys_timeout IP_TMR_INTERVAL (Some IP_REASS_TIMER) None (s\<lparr>stack := ip_reass_tmr F (stack s)\<rparr>)"

definition arp_timer :: "'st stack_fns \<Rightarrow> 'st timers \<Rightarrow> 'st timers option" where
  "arp_timer F s =
     sys_timeout ARP_TMR_INTERVAL (Some ARP_TIMER) None (s\<lparr>stack := etharp_tmr F (stack s)\<rparr>)"

definition dhcp_timer_coarse :: "'st stack_fns \<Rightarrow> 'st timers \<Rightarrow> 'st timers option" where
  "dhcp_timer_coarse F s =
     sys_timeout DHCP_COARSE_TIMER_MSECS (Some DHCP_TIMER_COARSE) None (s\<lparr>stack := dhcp_coarse_tmr F (stack s)\<rparr>)"

definition dhcp_timer_fine :: "'st stack_fns \<Rightarrow> 'st timers \<Rightarrow> 'st timers option" where
  "dhcp_timer_fine F s =
     sys_timeout DHCP_FINE_TIMER_MSECS (Some DHCP_TIMER_FINE) None (s\<lparr>stack := dhcp_fine_tmr F (stack s)\<rparr>)"

text \<open>The call through the function pointer \<open>handler(arg)\<close>.\<close>

fun call_handler :: "'st stack_fns \<Rightarrow> handler \<Rightarrow> nat option \<Rightarrow> 'st timers \<Rightarrow> 'st timers option" where
  "call_handler F TCPIP_TCP_TIMER arg s = tcpip_tcp_timer F s"
| "call_handler F IP_REASS_TIMER arg s = ip_reass_timer F s"
| "call_handler F ARP_TIMER arg s = arp_timer F s"
| "call_handler F DHCP_TIMER_COARSE arg s = dhcp_timer_coarse F s"
| "call_handler F DHCP_TIMER_FINE arg s = dhcp_timer_fine F s"
| "call_handler F (USER_TIMER n) arg s = Some (s\<lparr>stack := user_timer F n arg (stack s)\<rparr>)"

definition sys_timeouts_init :: "'st timers \<Rightarrow> 'st timers option" where
  "sys_timeouts_init s = do {
     s \<leftarrow> sys_timeout IP_TMR_INTERVAL (Some IP_REASS_TIMER) None s;
     s \<leftarrow> sys_timeout ARP_TMR_INTERVAL (Some ARP_TIMER) None s;
     s \<leftarrow> sys_timeout DHCP_COARSE_TIMER_MSECS (Some DHCP_TIMER_COARSE) None s;
     s \<leftarrow> sys_timeout DHCP_FINE_TIMER_MSECS (Some DHCP_TIMER_FINE) None s;
     s \<leftarrow> sys_timeout TCP_TMR_INTERVAL (Some TCPIP_TCP_TIMER) None s;
     Some (s\<lparr>timeouts_last_time := sys_now s\<rparr>) }"

section \<open>Expiry\<close>

text \<open>The \<open>do\<close> loop of \<open>sys_check_timeouts\<close>.\<close>

partial_function (option) check_loop :: "'st stack_fns \<Rightarrow> u32 \<Rightarrow> u32 \<Rightarrow> 'st timers \<Rightarrow> 'st timers option" where
  "check_loop F now diff s = (case next_timeout s of None \<Rightarrow> Some s
     | Some t \<Rightarrow> Option.bind (timeos s t) (\<lambda>b.
         if to_time b \<le> diff then
           let s = s\<lparr>timeouts_last_time := now, next_timeout := to_next b\<rparr> in
           Option.bind (free_timeo t s) (\<lambda>s.
           Option.bind (case to_h b of None \<Rightarrow> Some s | Some h \<Rightarrow> call_handler F h (to_arg b) s) (\<lambda>s.
           check_loop F now (diff - to_time b) s))
         else Some s))"

definition sys_check_timeouts :: "'st stack_fns \<Rightarrow> 'st timers \<Rightarrow> 'st timers option" where
  "sys_check_timeouts F s =
     (if next_timeout s = None then Some s
      else let now = sys_now s in check_loop F now (now - timeouts_last_time s) s)"

definition sys_restart_timeouts :: "'st timers \<Rightarrow> 'st timers" where
  "sys_restart_timeouts s = s\<lparr>timeouts_last_time := sys_now s\<rparr>"

text \<open>\<open>time_isr\<close> of the port: one millisecond has passed.\<close>

definition time_tick :: "'st timers \<Rightarrow> 'st timers" where
  "time_tick s = s\<lparr>time_now := time_now s + 1\<rparr>"

section \<open>The list as a queue of deadlines\<close>

type_synonym tentry = "nat \<times> sys_timeo"

fun tlist :: "(nat \<Rightarrow> sys_timeo option) \<Rightarrow> nat option \<Rightarrow> tentry list \<Rightarrow> bool" where
  "tlist m p [] \<longleftrightarrow> p = None"
| "tlist m p ((x, b) # xs) \<longleftrightarrow> p = Some x \<and> m x = Some b \<and> tlist m (to_next b) xs"

type_synonym 'e queue = "(nat \<times> 'e) list"

fun deadlines :: "nat \<Rightarrow> tentry list \<Rightarrow> (handler option \<times> nat option) queue" where
  "deadlines c [] = []"
| "deadlines c ((x, b) # xs) =
     (c + unat (to_time b), to_h b, to_arg b) # deadlines (c + unat (to_time b)) xs"

text \<open>The specification of scheduling: entries with the same deadline stay in order.\<close>

fun q_insert :: "nat \<Rightarrow> 'e \<Rightarrow> 'e queue \<Rightarrow> 'e queue" where
  "q_insert d e [] = [(d, e)]"
| "q_insert d e ((d', e') # q) = (if d < d' then (d, e) # (d', e') # q else (d', e') # q_insert d e q)"

lemma tlist_cong: "tlist m p xs \<Longrightarrow> (\<And>x. x \<in> fst ` set xs \<Longrightarrow> m' x = m x) \<Longrightarrow> tlist m' p xs"
  by (induction m p xs rule: tlist.induct) auto

lemma tlist_lookup: "tlist m p xs \<Longrightarrow> (x, b) \<in> set xs \<Longrightarrow> m x = Some b"
  by (induction m p xs rule: tlist.induct) auto

lemma tlist_unique: "tlist m p xs \<Longrightarrow> tlist m p ys \<Longrightarrow> xs = ys"
proof (induction xs arbitrary: p ys)
  case Nil
  then show ?case by (cases ys) auto
next
  case (Cons e xs)
  obtain x b where e: "e = (x, b)" by (cases e)
  with Cons.prems(1) have p: "p = Some x" "m x = Some b" "tlist m (to_next b) xs" by simp_all
  with Cons.prems(2) obtain zs where "ys = (x, b) # zs" "tlist m (to_next b) zs" by (cases ys) auto
  with Cons.IH [OF p(3)] e show ?case by simp
qed

lemma tlist_suffix: "tlist m p (xs @ ys) \<Longrightarrow> \<exists>q. tlist m q ys"
  by (induction m p xs rule: tlist.induct) auto

lemma tlist_distinct: "tlist m p xs \<Longrightarrow> distinct (map fst xs)"
proof (induction m p xs rule: tlist.induct)
  case (2 m p x b xs)
  have pc: "p = Some x" "tlist m (to_next b) xs" "m x = Some b" using 2 by auto
  have "x \<notin> fst ` set xs"
  proof
    assume "x \<in> fst ` set xs"
    then obtain b' where b': "(x, b') \<in> set xs" by auto
    with tlist_lookup [OF pc(2)] pc(3) have eq: "b' = b" by fastforce
    from b' obtain us vs where xs: "xs = us @ (x, b') # vs" by (auto dest: split_list)
    with pc(2) tlist_suffix [of m "to_next b" us] obtain q where "tlist m q ((x, b') # vs)" by blast
    then have "tlist m (to_next b) vs" using eq by simp
    with tlist_unique [OF _ pc(2)] have "vs = xs" by blast
    with xs have "length xs = length us + Suc (length xs)" by simp
    then show False by simp
  qed
  with 2 show ?case by simp
qed simp

lemma deadlines_shift: "deadlines (c + k) xs = map (\<lambda>(d, e). (d + k, e)) (deadlines c xs)"
proof (induction c xs rule: deadlines.induct)
  case (2 c x b xs)
  have "deadlines (c + k + unat (to_time b)) xs = deadlines (c + unat (to_time b) + k) xs" by (simp add: ac_simps)
  then show ?case using 2 by simp
qed simp


lemma put_timeo_simps [simp]:
  "timeos (put_timeo x b s) = (timeos s)(x \<mapsto> b)" "next_timeout (put_timeo x b s) = next_timeout s"
  "tm_memp (put_timeo x b s) = tm_memp s"
  by (simp_all add: put_timeo_def)

lemma put_timeo_eq: "put_timeo x b s = s\<lparr>timeos := (timeos s)(x \<mapsto> b)\<rparr>"
  by (simp add: put_timeo_def)

lemma unat_u32_sub: "b \<le> a \<Longrightarrow> unat (a - b :: u32) = unat a - unat b"
  by (simp add: unat_sub)

lemma timeout_insert_spec:
  assumes "tlist (timeos s) (Some t) ((t, b) # xs)" "x \<notin> insert t (fst ` set xs)"
    "timeos s x = Some xb" "to_time b \<le> to_time xb"
  shows "\<exists>M b' xs'. timeout_insert x t s = Some (s\<lparr>timeos := M\<rparr>) \<and> tlist M (Some t) ((t, b') # xs') \<and>
    to_time b' = to_time b \<and>
    deadlines c ((t, b') # xs') = q_insert (c + unat (to_time xb)) (to_h xb, to_arg xb) (deadlines c ((t, b) # xs)) \<and>
    set (map fst ((t, b') # xs')) = insert x (insert t (fst ` set xs)) \<and>
    (\<forall>y. y \<notin> insert x (insert t (fst ` set xs)) \<longrightarrow> M y = timeos s y)"
  using assms
proof (induction xs arbitrary: t b s xb c)
  case Nil
  let ?xb = "xb\<lparr>to_time := to_time xb - to_time b, to_next := None\<rparr>"
  let ?M = "(timeos s)(x \<mapsto> ?xb, t \<mapsto> b\<lparr>to_next := Some x\<rparr>)"
  have u: "unat (to_time xb - to_time b) = unat (to_time xb) - unat (to_time b)" "unat (to_time b) \<le> unat (to_time xb)"
    using Nil by (simp_all add: unat_u32_sub word_le_nat_alt)
  have "timeout_insert x t s = Some (s\<lparr>timeos := ?M\<rparr>)"
    using Nil by (subst timeout_insert.simps) (simp add: Let_def put_timeo_eq)
  moreover have "tlist ?M (Some t) [(t, b\<lparr>to_next := Some x\<rparr>), (x, ?xb)]" using Nil by auto
  ultimately show ?case using u Nil by (intro exI [of _ ?M] exI [of _ "b\<lparr>to_next := Some x\<rparr>"] exI [of _ "[(x, ?xb)]"]) (auto simp: fun_upd_def)
next
  case (Cons e xs)
  obtain n nb where e: "e = (n, nb)" by (cases e)
  have T: "timeos s t = Some b" "to_next b = Some n" "timeos s n = Some nb"
    "tlist (timeos s) (Some n) ((n, nb) # xs)" "tlist (timeos s) (to_next nb) xs"
    using Cons.prems(1) e by auto
  have D: "distinct (map fst ((t, b) # (n, nb) # xs))" using tlist_distinct [OF Cons.prems(1)] e by simp
  have X: "x \<noteq> t" "x \<noteq> n" "x \<notin> fst ` set xs" using Cons.prems(2) e by auto
  let ?tm = "to_time xb - to_time b"
  have u: "unat ?tm = unat (to_time xb) - unat (to_time b)" "unat (to_time b) \<le> unat (to_time xb)"
    using Cons.prems by (simp_all add: unat_u32_sub word_le_nat_alt)
  show ?case
  proof (cases "to_time nb > ?tm")
    case True
    let ?xb = "xb\<lparr>to_time := ?tm, to_next := Some n\<rparr>" and ?nb = "nb\<lparr>to_time := to_time nb - ?tm\<rparr>"
    let ?M = "(timeos s)(n \<mapsto> ?nb, x \<mapsto> ?xb, t \<mapsto> b\<lparr>to_next := Some x\<rparr>)"
    have un: "unat (to_time nb - ?tm) = unat (to_time nb) - unat ?tm" "unat ?tm < unat (to_time nb)"
      using True unat_u32_sub [OF order.strict_implies_order [OF True]] by (simp_all add: word_less_nat_alt)
    have "timeout_insert x t s = Some (s\<lparr>timeos := ?M\<rparr>)"
      using True T X Cons.prems(3) D
      by (subst timeout_insert.simps) (simp add: Let_def put_timeo_eq fun_upd_twist)
    moreover have "tlist ?M (to_next nb) xs"
      using T(5) by (rule tlist_cong) (use D X in auto)
    then have "tlist ?M (Some t) ((t, b\<lparr>to_next := Some x\<rparr>) # (x, ?xb) # (n, ?nb) # xs)"
      using D X by auto
    moreover have "deadlines c ((t, b\<lparr>to_next := Some x\<rparr>) # (x, ?xb) # (n, ?nb) # xs) =
        q_insert (c + unat (to_time xb)) (to_h xb, to_arg xb) (deadlines c ((t, b) # (n, nb) # xs))"
    proof -
      have sel: "to_time (b\<lparr>to_next := Some x\<rparr>) = to_time b" "to_time ?xb = ?tm" "to_time ?nb = to_time nb - ?tm" by simp_all
      have e1: "c + unat (to_time b) + unat ?tm = c + unat (to_time xb)" using u by simp
      have e2: "c + unat (to_time xb) + unat (to_time nb - ?tm) = c + unat (to_time b) + unat (to_time nb)"
        using un u by simp
      have lt: "c + unat (to_time xb) < c + unat (to_time b) + unat (to_time nb)" using un u by simp
      have ge: "\<not> c + unat (to_time xb) < c + unat (to_time b)" using u by simp
      show ?thesis unfolding deadlines.simps sel e1 e2 q_insert.simps if_not_P [OF ge] if_P [OF lt] by simp
    qed
    ultimately show ?thesis using e by (intro exI [of _ ?M] exI [of _ "b\<lparr>to_next := Some x\<rparr>"] exI [of _ "(x, ?xb) # (n, ?nb) # xs"]) (auto simp: fun_upd_def)
  next
    case False
    let ?xb = "xb\<lparr>to_time := ?tm\<rparr>"
    let ?s = "s\<lparr>timeos := (timeos s)(x \<mapsto> ?xb)\<rparr>"
    have run: "timeout_insert x t s = timeout_insert x n ?s"
      using False T X Cons.prems(3) by (subst timeout_insert.simps) (simp add: Let_def put_timeo_eq)
    have P1: "tlist (timeos ?s) (Some n) ((n, nb) # xs)"
      using T(4) by (rule tlist_cong) (use X in auto)
    have P2: "x \<notin> insert n (fst ` set xs)" using X by simp
    have P3: "timeos ?s x = Some ?xb" by simp
    have P4: "to_time nb \<le> to_time ?xb" using False by simp
    from Cons.IH [OF P1 P2 P3 P4, of "c + unat (to_time b)"] obtain M b' xs' where IH: "timeout_insert x n ?s = Some (?s\<lparr>timeos := M\<rparr>)"
      "tlist M (Some n) ((n, b') # xs')" "to_time b' = to_time nb"
      "deadlines (c + unat (to_time b)) ((n, b') # xs') = q_insert (c + unat (to_time b) + unat (to_time ?xb)) (to_h ?xb, to_arg ?xb)
         (deadlines (c + unat (to_time b)) ((n, nb) # xs))"
      "set (map fst ((n, b') # xs')) = insert x (insert n (fst ` set xs))"
      "\<forall>y. y \<notin> insert x (insert n (fst ` set xs)) \<longrightarrow> M y = timeos ?s y"
      by (elim exE conjE) (rule that; assumption)
    have Mt: "M t = Some b" using IH(6) D X T by auto
    have "tlist M (Some t) ((t, b) # (n, b') # xs')" using IH(2) Mt T(2) by simp
    moreover have "timeout_insert x t s = Some (s\<lparr>timeos := M\<rparr>)" using run IH(1) by simp
    moreover have "deadlines c ((t, b) # (n, b') # xs') =
        q_insert (c + unat (to_time xb)) (to_h xb, to_arg xb) (deadlines c ((t, b) # (n, nb) # xs))"
      using IH(4) u by simp
    moreover have "set (map fst ((t, b) # (n, b') # xs')) = insert x (insert t (fst ` set (e # xs)))"
      using IH(5) e by auto
    moreover have "\<forall>y. y \<notin> insert x (insert t (fst ` set (e # xs))) \<longrightarrow> M y = timeos s y"
      using IH(6) e by auto
    ultimately show ?thesis unfolding e by blast
  qed
qed

definition tm_inv :: "(nat \<Rightarrow> nat) \<Rightarrow> nat \<Rightarrow> 'st timers \<Rightarrow> tentry list \<Rightarrow> bool" where
  "tm_inv Z B s xs \<longleftrightarrow> sizes_ok Z B \<and> memp_inv Z B (tm_memp s) \<and>
     tlist (timeos s) (next_timeout s) xs \<and> dom (timeos s) = fst ` set xs \<and>
     fst ` set xs \<subseteq> memp_live Z B MEMP_SYS_TIMEOUT (tm_memp s)"

definition tm_free :: "'st timers \<Rightarrow> nat list" where
  "tm_free s = memp_free_list (tm_memp s) MEMP_SYS_TIMEOUT"

text \<open>What scheduling leaves alone.\<close>

definition tm_rest :: "'st timers \<Rightarrow> u32 \<times> bool \<times> u32 \<times> 'st" where
  "tm_rest s = (timeouts_last_time s, tcpip_tcp_timer_active s, time_now s, stack s)"

lemma sys_timeout_idx: "MEMP_SYS_TIMEOUT < MEMP_MAX"
  by (simp add: MEMP_SYS_TIMEOUT_def MEMP_MAX_def)

lemma sys_timeout_spec:
  assumes inv: "tm_inv Z B s xs" and free: "tm_free s = x # F"
  shows "\<exists>s' xs'. sys_timeout msecs h arg s = Some s' \<and> tm_inv Z B s' xs' \<and> tm_free s' = F \<and>
    deadlines 0 xs' = q_insert (unat msecs) (h, arg) (deadlines 0 xs) \<and> tm_rest s' = tm_rest s"
proof -
  from inv have I: "sizes_ok Z B" "memp_inv Z B (tm_memp s)" "tlist (timeos s) (next_timeout s) xs"
    "dom (timeos s) = fst ` set xs" "fst ` set xs \<subseteq> memp_live Z B MEMP_SYS_TIMEOUT (tm_memp s)"
    by (auto simp: tm_inv_def)
  from memp_malloc_spec [OF I(1,2) sys_timeout_idx] free obtain mp where
    mp: "memp_malloc MEMP_SYS_TIMEOUT (tm_memp s) = Some (Some x, mp)" "memp_inv Z B mp"
    "memp_free_list mp MEMP_SYS_TIMEOUT = F" by (auto simp: tm_free_def)
  from memp_invE [OF I(2) sys_timeout_idx] free have xF: "distinct (x # F)"
    "set (x # F) \<subseteq> pool_elems Z B MEMP_SYS_TIMEOUT" unfolding tm_free_def by metis+
  have xn: "x \<notin> fst ` set xs" using I(5) free by (auto simp: memp_live_def tm_free_def)
  have live: "memp_live Z B MEMP_SYS_TIMEOUT mp = insert x (memp_live Z B MEMP_SYS_TIMEOUT (tm_memp s))"
    using mp(3) free xF by (auto simp: memp_live_def tm_free_def)
  let ?xb = "\<lparr>to_next = None, to_time = msecs, to_h = h, to_arg = arg\<rparr>"
  let ?s = "put_timeo x ?xb (s\<lparr>tm_memp := mp\<rparr>)"
  have sets: "fst ` set xs' \<subseteq> memp_live Z B MEMP_SYS_TIMEOUT mp" if "fst ` set xs' = insert x (fst ` set xs)" for xs' :: "tentry list"
    using that I(5) live by auto
  show ?thesis
  proof (cases xs)
    case Nil
    then have "next_timeout s = None" using I(3) by simp
    then have "sys_timeout msecs h arg s = Some (?s\<lparr>next_timeout := Some x\<rparr>)"
      using mp(1) by (simp add: sys_timeout_def)
    moreover have "tm_inv Z B (?s\<lparr>next_timeout := Some x\<rparr>) [(x, ?xb)]"
      using I Nil mp sets [of "[(x, ?xb)]"] by (auto simp: tm_inv_def put_timeo_eq)
    ultimately show ?thesis using Nil mp(3)
      by (intro exI [of _ "?s\<lparr>next_timeout := Some x\<rparr>"] exI [of _ "[(x, ?xb)]"])
        (simp add: tm_free_def tm_rest_def put_timeo_eq)
  next
    case (Cons e ys)
    obtain f b where e: "e = (f, b)" by (cases e)
    have T: "next_timeout s = Some f" "timeos s f = Some b" "tlist (timeos s) (to_next b) ys"
      using I(3) Cons e by auto
    have xf: "x \<noteq> f" "x \<notin> fst ` set ys" using xn Cons e by auto
    have D: "distinct (map fst ((f, b) # ys))" using tlist_distinct [OF I(3)] Cons e by simp
    show ?thesis
    proof (cases "to_time b > msecs")
      case True
      let ?b = "b\<lparr>to_time := to_time b - msecs\<rparr>"
      let ?M = "(timeos s)(x \<mapsto> ?xb\<lparr>to_next := Some f\<rparr>, f \<mapsto> ?b)"
      let ?t = "s\<lparr>tm_memp := mp, timeos := ?M, next_timeout := Some x\<rparr>"
      let ?xs = "(x, ?xb\<lparr>to_next := Some f\<rparr>) # (f, ?b) # ys"
      have un: "unat (to_time b - msecs) = unat (to_time b) - unat msecs" "unat msecs < unat (to_time b)"
        using True unat_u32_sub [OF order.strict_implies_order [OF True]] by (simp_all add: word_less_nat_alt)
      have run: "sys_timeout msecs h arg s = Some ?t"
        using mp(1) T True xf by (simp add: sys_timeout_def Let_def put_timeo_eq fun_upd_twist)
      have "tlist ?M (to_next b) ys" using T(3) by (rule tlist_cong) (use D xf in auto)
      then have tl: "tlist ?M (Some x) ?xs" using xf by simp
      have "dom ?M = fst ` set ?xs" using I(4) Cons e by auto
      moreover have "fst ` set ?xs = insert x (fst ` set xs)" using Cons e by simp
      ultimately have inv': "tm_inv Z B ?t ?xs"
        using I(1) mp(2) tl sets [of ?xs] by (simp add: tm_inv_def)
      have "deadlines 0 ?xs = q_insert (unat msecs) (h, arg) (deadlines 0 xs)"
        using un Cons e by simp
      then show ?thesis using run inv' mp(3) by (intro exI [of _ ?t] exI [of _ ?xs]) (simp add: tm_free_def tm_rest_def)
    next
      case False
      have P1: "tlist (timeos ?s) (Some f) ((f, b) # ys)"
      proof (rule tlist_cong)
        show "tlist (timeos s) (Some f) ((f, b) # ys)" using I(3) Cons e T(1) by simp
      qed (use xf in auto)
      have P2: "x \<notin> insert f (fst ` set ys)" using xf by simp
      have P3: "timeos ?s x = Some ?xb" by simp
      have P4: "to_time b \<le> to_time ?xb" using False by simp
      from timeout_insert_spec [OF P1 P2 P3 P4, of 0] obtain M b' xs' where
        A: "timeout_insert x f ?s = Some (?s\<lparr>timeos := M\<rparr>)" "tlist M (Some f) ((f, b') # xs')"
        "deadlines 0 ((f, b') # xs') = q_insert (0 + unat (to_time ?xb)) (to_h ?xb, to_arg ?xb) (deadlines 0 ((f, b) # ys))"
        "set (map fst ((f, b') # xs')) = insert x (insert f (fst ` set ys))"
        "\<forall>y. y \<notin> insert x (insert f (fst ` set ys)) \<longrightarrow> M y = timeos ?s y"
        by (elim exE conjE) (rule that; assumption)
      let ?t = "?s\<lparr>timeos := M\<rparr>"
      have run: "sys_timeout msecs h arg s = Some ?t"
        using mp(1) T False A(1) xf by (simp add: sys_timeout_def Let_def)
      have S: "fst ` set ((f, b') # xs') = insert x (fst ` set xs)" using A(4) Cons e by simp
      have "dom M = fst ` set ((f, b') # xs')"
      proof (rule set_eqI)
        fix y
        show "y \<in> dom M \<longleftrightarrow> y \<in> fst ` set ((f, b') # xs')"
        proof (cases "y \<in> fst ` set ((f, b') # xs')")
          case True
          then obtain p where "p \<in> set ((f, b') # xs')" "y = fst p" by blast
          with tlist_lookup [OF A(2), of "fst p" "snd p"] True show ?thesis by auto
        next
          case False
          then have "M y = timeos ?s y" "y \<noteq> x" using A(4,5) by auto
          moreover have "y \<notin> dom (timeos s)" using False S I(4) by auto
          ultimately have "M y = None" by (simp add: domIff)
          then show ?thesis using False by auto
        qed
      qed
      then have "tm_inv Z B ?t ((f, b') # xs')"
        using I(1) mp(2) A(2) T(1) sets [OF S] by (simp add: tm_inv_def)
      moreover have "deadlines 0 ((f, b') # xs') = q_insert (unat msecs) (h, arg) (deadlines 0 xs)"
        using A(3) Cons e by simp
      ultimately show ?thesis using run mp(3)
        by (intro exI [of _ ?t] exI [of _ "(f, b') # xs'"]) (simp add: tm_free_def tm_rest_def put_timeo_eq)
    qed
  qed
qed

section \<open>The specification of expiry\<close>

text \<open>
  A handler changes the stack and may schedule itself again after an interval.
\<close>

type_synonym tevent = "handler option \<times> nat option"

fun fire :: "'st stack_fns \<Rightarrow> tevent \<Rightarrow> 'st \<Rightarrow> 'st \<times> nat option" where
  "fire F (Some TCPIP_TCP_TIMER, arg) st =
     (let st = tcp_tmr F st in (st, if tcp_has_pcbs F st then Some 250 else None))"
| "fire F (Some IP_REASS_TIMER, arg) st = (ip_reass_tmr F st, Some 1000)"
| "fire F (Some ARP_TIMER, arg) st = (etharp_tmr F st, Some 5000)"
| "fire F (Some DHCP_TIMER_COARSE, arg) st = (dhcp_coarse_tmr F st, Some 60000)"
| "fire F (Some DHCP_TIMER_FINE, arg) st = (dhcp_fine_tmr F st, Some 500)"
| "fire F (Some (USER_TIMER n), arg) st = (user_timer F n arg st, None)"
| "fire F (None, arg) st = (st, None)"

lemma fire_positive: "fire F e st = (st', Some T) \<Longrightarrow> 0 < T"
  by (induction F e st rule: fire.induct) (auto simp: Let_def split: if_splits)

text \<open>
  The queue of deadlines up to time \<open>D\<close>: \<open>c\<close> is the deadline of the last entry that expired.
\<close>

definition q_again :: "nat \<Rightarrow> tevent \<Rightarrow> nat option \<Rightarrow> tevent queue \<Rightarrow> tevent queue" where
  "q_again d e r q = (case r of None \<Rightarrow> q | Some T \<Rightarrow> q_insert (d + T) (fst e, None) q)"

definition q_late :: "nat \<Rightarrow> 'e queue \<Rightarrow> nat" where
  "q_late D q = sum_list (map (\<lambda>(d, e). D + 1 - d) q)"

lemma q_late_insert: "q_late D (q_insert d e q) = (D + 1 - d) + q_late D q"
  by (induction d e q rule: q_insert.induct) (auto simp: q_late_def)

lemma q_late_again:
  assumes "d \<le> D" "fire F e st = (st', r)"
  shows "q_late D (q_again d e r q) < q_late D ((d, e) # q)"
proof (cases r)
  case None
  then show ?thesis using assms by (simp add: q_again_def q_late_def)
next
  case (Some T)
  then have "0 < T" using fire_positive [of F e st st' T] assms(2) by simp
  have "q_late D (q_again d e r q) = (D + 1 - (d + T)) + q_late D q"
    by (simp add: q_again_def q_late_insert Some)
  moreover have "q_late D ((d, e) # q) = (D + 1 - d) + q_late D q" by (simp add: q_late_def)
  ultimately show ?thesis using \<open>0 < T\<close> assms(1) by linarith
qed

function q_run :: "'st stack_fns \<Rightarrow> nat \<Rightarrow> nat \<Rightarrow> 'st \<Rightarrow> tevent queue \<Rightarrow> nat \<times> 'st \<times> tevent queue" where
  "q_run F D c st [] = (c, st, [])"
| "q_run F D c st ((d, e) # q) =
     (if d \<le> D then q_run F D d (fst (fire F e st)) (q_again d e (snd (fire F e st)) q)
      else (c, st, (d, e) # q))"
  by pat_completeness auto
termination
proof (relation "measure (\<lambda>(F, D, c, st, q). q_late D q)")
  fix F :: "'st stack_fns" and D c d :: nat and st e and q :: "tevent queue"
  assume "d \<le> D"
  then show "((F, D, d, fst (fire F e st), q_again d e (snd (fire F e st)) q), F, D, c, st, (d, e) # q)
      \<in> measure (\<lambda>(F, D, c, st, q). q_late D q)"
    using q_late_again [of d D F e st "fst (fire F e st)" "snd (fire F e st)"] by simp
qed simp

declare q_run.simps [simp del]

section \<open>The implementation of expiry\<close>

lemma free_timeo_spec:
  assumes inv: "tm_inv Z B s ((x, b) # xs)"
  shows "\<exists>s'. free_timeo x (s\<lparr>timeouts_last_time := now, next_timeout := to_next b\<rparr>) = Some s' \<and>
    tm_inv Z B s' xs \<and> tm_free s' = x # tm_free s \<and> tm_rest s' = (now, snd (tm_rest s))"
proof -
  from inv have I: "sizes_ok Z B" "memp_inv Z B (tm_memp s)" "tlist (timeos s) (next_timeout s) ((x, b) # xs)"
    "dom (timeos s) = insert x (fst ` set xs)" "insert x (fst ` set xs) \<subseteq> memp_live Z B MEMP_SYS_TIMEOUT (tm_memp s)"
    by (auto simp: tm_inv_def)
  from I(5) have "x \<in> memp_live Z B MEMP_SYS_TIMEOUT (tm_memp s)" by simp
  from memp_free_spec [OF I(1,2) sys_timeout_idx this] obtain m where
    m: "memp_free MEMP_SYS_TIMEOUT (Some x) (tm_memp s) = Some m" "memp_inv Z B m"
    "memp_free_list m MEMP_SYS_TIMEOUT = x # memp_free_list (tm_memp s) MEMP_SYS_TIMEOUT" by blast
  have D: "x \<notin> fst ` set xs" using tlist_distinct [OF I(3)] by simp
  have live: "fst ` set xs \<subseteq> memp_live Z B MEMP_SYS_TIMEOUT m"
    using I(5) D m(3) by (auto simp: memp_live_def)
  have "tlist (timeos s) (to_next b) xs" using I(3) by simp
  then have "tlist ((timeos s)(x := None)) (to_next b) xs" by (rule tlist_cong) (use D in auto)
  moreover have "dom ((timeos s)(x := None)) = fst ` set xs" using I(4) D by auto
  ultimately show ?thesis using m I(1) live by (simp add: free_timeo_def tm_inv_def tm_free_def tm_rest_def)
qed

lemma tm_inv_rest:
  "tm_inv Z B (s\<lparr>stack := st\<rparr>) xs = tm_inv Z B s xs" "tm_inv Z B (s\<lparr>tcpip_tcp_timer_active := a\<rparr>) xs = tm_inv Z B s xs"
  "tm_free (s\<lparr>stack := st\<rparr>) = tm_free s" "tm_free (s\<lparr>tcpip_tcp_timer_active := a\<rparr>) = tm_free s"
  by (simp_all add: tm_inv_def tm_free_def)

lemma periodic_spec:
  assumes inv: "tm_inv Z B s xs" and free: "tm_free s = x # L"
    and run: "f = sys_timeout ms (Some h) None (s\<lparr>stack := st\<rparr>)" and ms: "unat ms = T"
  shows "\<exists>s' xs'. f = Some s' \<and> tm_inv Z B s' xs' \<and> stack s' = st \<and> timeouts_last_time s' = timeouts_last_time s \<and>
    time_now s' = time_now s \<and> deadlines 0 xs' = q_insert T (Some h, None) (deadlines 0 xs)"
proof -
  from inv have "tm_inv Z B (s\<lparr>stack := st\<rparr>) xs" by (simp add: tm_inv_rest)
  from sys_timeout_spec [OF this, of x L ms "Some h" None] free obtain s' xs' where
    "f = Some s'" "tm_inv Z B s' xs'" "deadlines 0 xs' = q_insert (unat ms) (Some h, None) (deadlines 0 xs)"
    "tm_rest s' = tm_rest (s\<lparr>stack := st\<rparr>)" by (auto simp: run tm_inv_rest)
  then show ?thesis using ms by (auto simp: tm_rest_def)
qed

lemma call_handler_spec:
  assumes inv: "tm_inv Z B s xs" and free: "tm_free s = x # L"
  shows "\<exists>s' xs'. (case h of None \<Rightarrow> Some s | Some g \<Rightarrow> call_handler F g arg s) = Some s' \<and> tm_inv Z B s' xs' \<and>
    fire F (h, arg) (stack s) = (stack s', snd (fire F (h, arg) (stack s))) \<and>
    timeouts_last_time s' = timeouts_last_time s \<and> time_now s' = time_now s \<and>
    deadlines 0 xs' = q_again 0 (h, arg) (snd (fire F (h, arg) (stack s))) (deadlines 0 xs)"
proof (cases h)
  case None
  then show ?thesis using inv by (auto simp: q_again_def)
next
  case (Some g)
  note P = periodic_spec [OF inv free]
  show ?thesis
  proof (cases g)
    case TCPIP_TCP_TIMER
    let ?st = "tcp_tmr F (stack s)"
    show ?thesis
    proof (cases "tcp_has_pcbs F ?st")
      case True
      then have "call_handler F g arg s = sys_timeout TCP_TMR_INTERVAL (Some TCPIP_TCP_TIMER) None (s\<lparr>stack := ?st\<rparr>)"
        using TCPIP_TCP_TIMER by (simp add: tcpip_tcp_timer_def Let_def)
      from P [OF this, of 250] True Some TCPIP_TCP_TIMER show ?thesis
        by (auto simp: q_again_def interval_defs Let_def)
    next
      case False
      then show ?thesis using Some TCPIP_TCP_TIMER inv
        by (auto simp: q_again_def tcpip_tcp_timer_def Let_def tm_inv_rest intro!: exI [of _ xs])
    qed
  next
    case IP_REASS_TIMER
    then have "call_handler F g arg s = sys_timeout IP_TMR_INTERVAL (Some IP_REASS_TIMER) None (s\<lparr>stack := ip_reass_tmr F (stack s)\<rparr>)"
      by (simp add: ip_reass_timer_def)
    from P [OF this, of 1000] Some IP_REASS_TIMER show ?thesis by (auto simp: q_again_def interval_defs)
  next
    case ARP_TIMER
    then have "call_handler F g arg s = sys_timeout ARP_TMR_INTERVAL (Some ARP_TIMER) None (s\<lparr>stack := etharp_tmr F (stack s)\<rparr>)"
      by (simp add: arp_timer_def)
    from P [OF this, of 5000] Some ARP_TIMER show ?thesis by (auto simp: q_again_def interval_defs)
  next
    case DHCP_TIMER_COARSE
    then have "call_handler F g arg s = sys_timeout DHCP_COARSE_TIMER_MSECS (Some DHCP_TIMER_COARSE) None (s\<lparr>stack := dhcp_coarse_tmr F (stack s)\<rparr>)"
      by (simp add: dhcp_timer_coarse_def)
    from P [OF this, of 60000] Some DHCP_TIMER_COARSE show ?thesis by (auto simp: q_again_def interval_defs)
  next
    case DHCP_TIMER_FINE
    then have "call_handler F g arg s = sys_timeout DHCP_FINE_TIMER_MSECS (Some DHCP_TIMER_FINE) None (s\<lparr>stack := dhcp_fine_tmr F (stack s)\<rparr>)"
      by (simp add: dhcp_timer_fine_def)
    from P [OF this, of 500] Some DHCP_TIMER_FINE show ?thesis by (auto simp: q_again_def interval_defs)
  next
    case (USER_TIMER n)
    then show ?thesis using Some inv by (auto simp: q_again_def tm_inv_rest intro!: exI [of _ xs])
  qed
qed

lemma q_insert_shift:
  "map (\<lambda>(d, e). (d + k, e)) (q_insert d e q) = q_insert (d + k) e (map (\<lambda>(d, e). (d + k, e)) q)"
  by (induction d e q rule: q_insert.induct) auto

lemma deadlines_base: "deadlines c xs = map (\<lambda>(d, e). (d + c, e)) (deadlines 0 xs)"
  using deadlines_shift [of 0 c xs] by simp

lemma q_again_shift: "map (\<lambda>(d, e). (d + k, e)) (q_again 0 e r q) = q_again k e r (map (\<lambda>(d, e). (d + k, e)) q)"
  by (auto simp: q_again_def q_insert_shift ac_simps split: option.splits)

lemma check_loop_spec:
  assumes "tm_inv Z B s xs" "unat diff = D - c" "c \<le> D" "deadlines c xs = q"
  shows "\<exists>s' xs' c'. check_loop F now diff s = Some s' \<and> tm_inv Z B s' xs' \<and>
    q_run F D c (stack s) q = (c', stack s', deadlines c' xs') \<and> c' \<le> D \<and>
    time_now s' = time_now s \<and>
    timeouts_last_time s' = (if q \<noteq> [] \<and> fst (hd q) \<le> D then now else timeouts_last_time s)"
  using assms
proof (induction F D c "stack s" q arbitrary: s xs diff rule: q_run.induct)
  case (1 F D c)
  then have xs: "xs = []" by (cases xs) auto
  then have "next_timeout s = None" using 1(1) by (simp add: tm_inv_def)
  then show ?case using 1 xs
    by (subst check_loop.simps) (auto simp: q_run.simps intro!: exI [of _ "[]"] exI [of _ c])
next
  case (2 F D c d e q)
  from 2(5) obtain x b ys where xs: "xs = (x, b) # ys" by (cases xs) auto
  with 2(5) have q: "d = c + unat (to_time b)" "e = (to_h b, to_arg b)" "q = deadlines d ys" by auto
  have T: "next_timeout s = Some x" "timeos s x = Some b" using 2(2) xs by (auto simp: tm_inv_def)
  show ?case
  proof (cases "d \<le> D")
    case False
    then have "\<not> to_time b \<le> diff" using q(1) 2(3,4) by (simp add: word_le_nat_alt)
    then have "check_loop F now diff s = Some s" using T by (subst check_loop.simps) simp
    then show ?thesis using False 2(2-5) xs q by (auto simp: q_run.simps intro!: exI [of _ xs])
  next
    case True
    then have le: "to_time b \<le> diff" using q(1) 2(3,4) by (simp add: word_le_nat_alt)
    let ?s0 = "s\<lparr>timeouts_last_time := now, next_timeout := to_next b\<rparr>"
    from free_timeo_spec [OF 2(2) [unfolded xs], of now] obtain s1 where s1: "free_timeo x ?s0 = Some s1"
      "tm_inv Z B s1 ys" "tm_free s1 = x # tm_free s" "tm_rest s1 = (now, snd (tm_rest s))" by blast
    have st1: "stack s1 = stack s" "timeouts_last_time s1 = now" "time_now s1 = time_now s" using s1(4) by (simp_all add: tm_rest_def)
    from call_handler_spec [OF s1(2,3), where h = "to_h b" and F = F and arg = "to_arg b"] obtain s2 ys2 where s2:
      "(case to_h b of None \<Rightarrow> Some s1 | Some g \<Rightarrow> call_handler F g (to_arg b) s1) = Some s2" "tm_inv Z B s2 ys2"
      "fire F e (stack s) = (stack s2, snd (fire F e (stack s)))" "timeouts_last_time s2 = now" "time_now s2 = time_now s"
      "deadlines 0 ys2 = q_again 0 e (snd (fire F e (stack s))) (deadlines 0 ys)"
      unfolding st1 q(2) by blast
    have dl: "deadlines d ys2 = q_again d e (snd (fire F e (stack s))) q"
      unfolding deadlines_base [of d] s2(6) q_again_shift q(3) by simp
    have diff': "unat (diff - to_time b) = D - d" using le 2(3) q(1) by (simp add: unat_u32_sub)
    have stk: "fst (fire F e (stack s)) = stack s2" using s2(3) by (metis fst_conv)
    from 2(1) [OF True stk s2(2) diff' True dl] obtain s3 xs3 c3 where s3:
      "check_loop F now (diff - to_time b) s2 = Some s3" "tm_inv Z B s3 xs3"
      "q_run F D d (stack s2) (q_again d e (snd (fire F e (stack s))) q) = (c3, stack s3, deadlines c3 xs3)" "c3 \<le> D"
      "time_now s3 = time_now s2" "timeouts_last_time s3 = (if deadlines d ys2 \<noteq> [] \<and> fst (hd (deadlines d ys2)) \<le> D then now else timeouts_last_time s2)"
      unfolding stk dl by blast
    have "check_loop F now diff s = Some s3"
      using T le s1(1) s2(1) s3(1) by (subst check_loop.simps) (simp add: Let_def)
    moreover have "q_run F D c (stack s) ((d, e) # q) = (c3, stack s3, deadlines c3 xs3)"
      using True s3(3) stk by (simp add: q_run.simps)
    moreover have "timeouts_last_time s3 = now" using s3(6) s2(4) by simp
    ultimately show ?thesis using True s3(2,4,5) s2(5) by auto
  qed
qed

section \<open>Periodic timers\<close>




lemma length_deadlines: "length (deadlines c xs) = length xs"
  by (induction c xs rule: deadlines.induct) auto







section \<open>Start-up\<close>

definition timers_boot :: "(nat \<Rightarrow> nat) \<Rightarrow> nat \<Rightarrow> 'st \<Rightarrow> 'st timers" where
  "timers_boot Z B st = \<lparr> tm_memp = memp_init Z B memp_zero, timeos = (\<lambda>_. None), next_timeout = None,
     timeouts_last_time = 0, tcpip_tcp_timer_active = False, time_now = 0, stack = st \<rparr>"

lemma timers_boot_inv:
  assumes "sizes_ok Z B"
  shows "tm_inv Z B (timers_boot Z B st) []" "length (tm_free (timers_boot Z B st)) = 10"
proof -
  note M = memp_init_spec [OF assms, of memp_zero]
  let ?m = "memp_init Z B memp_zero"
  show "tm_inv Z B (timers_boot Z B st) []" using M assms by (simp add: tm_inv_def timers_boot_def)
  from memp_invE [OF conjunct1 [OF M] sys_timeout_idx] obtain F where F: "distinct F"
    "set F \<subseteq> pool_elems Z B MEMP_SYS_TIMEOUT" "memp_free_list ?m MEMP_SYS_TIMEOUT = F" by metis
  have "memp_live Z B MEMP_SYS_TIMEOUT ?m = {}" using M sys_timeout_idx by blast
  then have "set F = pool_elems Z B MEMP_SYS_TIMEOUT" using F by (auto simp: memp_live_def)
  moreover have "0 < Z MEMP_SYS_TIMEOUT" using assms sys_timeout_idx by (simp add: sizes_ok_def)
  ultimately have "length F = memp_num ! MEMP_SYS_TIMEOUT"
    using distinct_card [OF F(1)] pool_elems_card by simp
  then show "length (tm_free (timers_boot Z B st)) = 10"
    using F(3) by (simp add: tm_free_def timers_boot_def memp_num_def MEMP_SYS_TIMEOUT_def)
qed

lemma sys_timeout_len:
  assumes "tm_inv Z B s xs" "length (tm_free s) = Suc n"
  shows "\<exists>s' xs'. sys_timeout ms h arg s = Some s' \<and> tm_inv Z B s' xs' \<and> length (tm_free s') = n \<and>
    deadlines 0 xs' = q_insert (unat ms) (h, arg) (deadlines 0 xs) \<and> tm_rest s' = tm_rest s"
proof -
  obtain x L where "tm_free s = x # L" "length L = n" using assms(2) by (cases "tm_free s") auto
  with sys_timeout_spec [OF assms(1), of x L ms h arg] show ?thesis by fastforce
qed

text \<open>The five timers after \<open>sys_timeouts_init\<close>, in the order they expire.\<close>

definition init_queue :: "tevent queue" where
  "init_queue = [(250, Some TCPIP_TCP_TIMER, None), (500, Some DHCP_TIMER_FINE, None),
     (1000, Some IP_REASS_TIMER, None), (5000, Some ARP_TIMER, None), (60000, Some DHCP_TIMER_COARSE, None)]"

lemma sys_timeouts_init_spec:
  assumes "sizes_ok Z B"
  shows "\<exists>s xs. sys_timeouts_init (timers_boot Z B st) = Some s \<and> tm_inv Z B s xs \<and> length (tm_free s) = 5 \<and>
    deadlines 0 xs = init_queue \<and> tm_rest s = (0, False, 0, st)"
proof -
  let ?s = "timers_boot Z B st"
  note B = timers_boot_inv [OF assms, of st]
  have l: "length (tm_free ?s) = Suc 9" using B(2) by simp
  from sys_timeout_len [OF B(1) l] obtain s1 x1 where 1: "sys_timeout IP_TMR_INTERVAL (Some IP_REASS_TIMER) None ?s = Some s1"
    "tm_inv Z B s1 x1" "length (tm_free s1) = Suc 8" "deadlines 0 x1 = q_insert (unat IP_TMR_INTERVAL) (Some IP_REASS_TIMER, None) []"
    "tm_rest s1 = tm_rest ?s" by force
  from sys_timeout_len [OF 1(2,3)] obtain s2 x2 where 2: "sys_timeout ARP_TMR_INTERVAL (Some ARP_TIMER) None s1 = Some s2"
    "tm_inv Z B s2 x2" "length (tm_free s2) = Suc 7" "deadlines 0 x2 = q_insert (unat ARP_TMR_INTERVAL) (Some ARP_TIMER, None) (deadlines 0 x1)"
    "tm_rest s2 = tm_rest s1" by force
  from sys_timeout_len [OF 2(2,3)] obtain s3 x3 where 3: "sys_timeout DHCP_COARSE_TIMER_MSECS (Some DHCP_TIMER_COARSE) None s2 = Some s3"
    "tm_inv Z B s3 x3" "length (tm_free s3) = Suc 6" "deadlines 0 x3 = q_insert (unat DHCP_COARSE_TIMER_MSECS) (Some DHCP_TIMER_COARSE, None) (deadlines 0 x2)"
    "tm_rest s3 = tm_rest s2" by force
  from sys_timeout_len [OF 3(2,3)] obtain s4 x4 where 4: "sys_timeout DHCP_FINE_TIMER_MSECS (Some DHCP_TIMER_FINE) None s3 = Some s4"
    "tm_inv Z B s4 x4" "length (tm_free s4) = Suc 5" "deadlines 0 x4 = q_insert (unat DHCP_FINE_TIMER_MSECS) (Some DHCP_TIMER_FINE, None) (deadlines 0 x3)"
    "tm_rest s4 = tm_rest s3" by force
  from sys_timeout_len [OF 4(2,3)] obtain s5 x5 where 5: "sys_timeout TCP_TMR_INTERVAL (Some TCPIP_TCP_TIMER) None s4 = Some s5"
    "tm_inv Z B s5 x5" "length (tm_free s5) = 5" "deadlines 0 x5 = q_insert (unat TCP_TMR_INTERVAL) (Some TCPIP_TCP_TIMER, None) (deadlines 0 x4)"
    "tm_rest s5 = tm_rest s4" by force
  let ?t = "s5\<lparr>timeouts_last_time := sys_now s5\<rparr>"
  have "sys_timeouts_init ?s = Some ?t"
    unfolding sys_timeouts_init_def using 1(1) 2(1) 3(1) 4(1) 5(1) by simp
  moreover have "tm_inv Z B ?t x5" "length (tm_free ?t) = 5" using 5(2,3) by (simp_all add: tm_inv_def tm_free_def)
  moreover have "deadlines 0 x5 = init_queue"
    unfolding 5(4) 4(4) 3(4) 2(4) 1(4) init_queue_def by (simp add: interval_defs)
  moreover have "tm_rest ?t = (0, False, 0, st)"
    using 1(5) 2(5) 3(5) 4(5) 5(5) by (simp add: tm_rest_def timers_boot_def sys_now_def)
  ultimately show ?thesis by blast
qed

definition idle_fns :: "unit stack_fns" where
  "idle_fns = \<lparr> tcp_tmr = (\<lambda>st. st), ip_reass_tmr = (\<lambda>st. st), etharp_tmr = (\<lambda>st. st),
     dhcp_coarse_tmr = (\<lambda>st. st), dhcp_fine_tmr = (\<lambda>st. st), tcp_has_pcbs = (\<lambda>_. True),
     user_timer = (\<lambda>_ _ st. st) \<rparr>"

section \<open>Properties\<close>

text \<open>C19: \<open>sys_timeout\<close> implements insertion into the queue of deadlines: the new entry comes
  due after \<open>msecs\<close> and behind entries of the same deadline, and no other deadline moves.\<close>

theorem sys_timeout_is_insert:
  assumes "tm_inv Z B s xs" and "tm_free s \<noteq> []"
  shows "\<exists>s' xs'. sys_timeout msecs h arg s = Some s' \<and> tm_inv Z B s' xs' \<and> tm_free s' = tl (tm_free s) \<and>
    deadlines 0 xs' = q_insert (unat msecs) (h, arg) (deadlines 0 xs) \<and> tm_rest s' = tm_rest s"
  using sys_timeout_spec [OF assms(1)] assms(2) by (cases "tm_free s") auto

theorem sys_timeout_is_insert_witness:
  "\<exists>s xs s' xs'. sys_timeouts_init (timers_boot (\<lambda>_. 1536) 4096 ()) = Some s \<and>
    tm_inv (\<lambda>_. 1536) 4096 s xs \<and> sys_timeout 700 (Some (USER_TIMER 1)) None s = Some s' \<and>
    deadlines 0 xs' = q_insert 700 (Some (USER_TIMER 1), None) init_queue"
proof -
  have "sizes_ok (\<lambda>_. 1536) 4096" by (simp add: sizes_ok_def)
  from sys_timeouts_init_spec [OF this, of "()"] obtain s xs where
    s: "sys_timeouts_init (timers_boot (\<lambda>_. 1536) 4096 ()) = Some s" "tm_inv (\<lambda>_. 1536) 4096 s xs"
    "length (tm_free s) = 5" "deadlines 0 xs = init_queue" by blast
  then have "tm_free s \<noteq> []" by auto
  from sys_timeout_is_insert [OF s(2) this, of 700 "Some (USER_TIMER 1)" None] s show ?thesis
    by simp metis
qed

text \<open>C20: \<open>sys_check_timeouts\<close> returns, and implements the expiry of the queue of deadlines:
  every entry due within the time since the last expiry runs, in the order of the deadlines, and
  what is left keeps its distance to the last deadline that expired. If anything ran, the current
  time becomes the reference.\<close>

theorem sys_check_timeouts_refines:
  assumes "tm_inv Z B s xs" and "D = unat (time_now s - timeouts_last_time s)"
  shows "\<exists>s' xs' c. sys_check_timeouts F s = Some s' \<and> tm_inv Z B s' xs' \<and>
    q_run F D 0 (stack s) (deadlines 0 xs) = (c, stack s', deadlines c xs') \<and> c \<le> D \<and>
    timeouts_last_time s' = (if xs \<noteq> [] \<and> fst (hd (deadlines 0 xs)) \<le> D then time_now s
       else timeouts_last_time s)"
proof (cases xs)
  case Nil
  then have "next_timeout s = None" using assms(1) by (simp add: tm_inv_def)
  then show ?thesis using Nil assms(1)
    by (auto simp: sys_check_timeouts_def q_run.simps intro!: exI [of _ "[]"] exI [of _ 0])
next
  case (Cons e ys)
  then obtain y where "next_timeout s = Some y" using assms(1) by (cases e) (simp add: tm_inv_def)
  moreover have "deadlines 0 xs \<noteq> []" using Cons by (cases e) simp
  moreover from check_loop_spec [OF assms(1), of "time_now s - timeouts_last_time s" D 0 "deadlines 0 xs" F "time_now s"] assms(2)
  obtain s' xs' c where "check_loop F (time_now s) (time_now s - timeouts_last_time s) s = Some s'"
    "tm_inv Z B s' xs'" "q_run F D 0 (stack s) (deadlines 0 xs) = (c, stack s', deadlines c xs')" "c \<le> D"
    "timeouts_last_time s' = (if deadlines 0 xs \<noteq> [] \<and> fst (hd (deadlines 0 xs)) \<le> D then time_now s else timeouts_last_time s)"
    by auto
  ultimately show ?thesis using Cons
    by (intro exI [of _ s'] exI [of _ xs'] exI [of _ c]) (simp add: sys_check_timeouts_def sys_now_def Let_def)
qed

theorem sys_check_timeouts_refines_witness:
  "\<exists>s s' xs' c. sys_timeouts_init (timers_boot (\<lambda>_. 1536) 4096 ()) = Some s \<and>
    sys_check_timeouts idle_fns (s\<lparr>time_now := 600\<rparr>) = Some s' \<and>
    q_run idle_fns 600 0 () init_queue = (c, (), deadlines c xs')"
proof -
  have "sizes_ok (\<lambda>_. 1536) 4096" by (simp add: sizes_ok_def)
  from sys_timeouts_init_spec [OF this, of "()"] obtain s xs where
    s: "sys_timeouts_init (timers_boot (\<lambda>_. 1536) 4096 ()) = Some s" "tm_inv (\<lambda>_. 1536) 4096 s xs"
    "deadlines 0 xs = init_queue" "tm_rest s = (0, False, 0, ())" by blast
  have inv: "tm_inv (\<lambda>_. 1536) 4096 (s\<lparr>time_now := 600\<rparr>) xs" using s(2) by (simp add: tm_inv_def)
  have D: "600 = unat (time_now (s\<lparr>time_now := 600\<rparr>) - timeouts_last_time (s\<lparr>time_now := 600\<rparr>))"
    using s(4) by (simp add: tm_rest_def)
  from sys_check_timeouts_refines [OF inv D, of idle_fns] s show ?thesis by auto
qed




text \<open>a timer that runs late stays late: \<open>sys_check_timeouts\<close> makes the current time the
  reference although only the time up to the last expired deadline was accounted for. A timer of
  5000 ms that was due \<open>late\<close> ms ago is next due 5000 ms from now, \<open>late\<close> ms after its
  period.\<close>

theorem timers_drift:
  assumes "tm_inv Z B s [(x, b)]" and "to_h b = Some ARP_TIMER" and "to_arg b = None"
    and "time_now s = timeouts_last_time s + to_time b + late" and "late < 5000"
    and "unat (to_time b) + unat late < 2 ^ 32"
  shows "\<exists>s' x' b'. sys_check_timeouts F s = Some s' \<and> tm_inv Z B s' [(x', b')] \<and>
    to_h b' = Some ARP_TIMER \<and> timeouts_last_time s' = time_now s \<and> to_time b' = 5000"
proof -
  have D: "unat (time_now s - timeouts_last_time s) = unat (to_time b) + unat late"
    using assms(4,6) by (simp add: unat_word_ariths)
  have l: "unat late < 5000" using assms(5) by (simp add: word_less_nat_alt)
  let ?e = "(Some ARP_TIMER, None) :: tevent" and ?d = "unat (to_time b)"
  from check_loop_spec [OF assms(1), of "time_now s - timeouts_last_time s" "?d + unat late" 0 "[(?d, ?e)]" F "time_now s"] D assms(2,3)
  obtain s' xs' c where A: "check_loop F (time_now s) (time_now s - timeouts_last_time s) s = Some s'"
    "tm_inv Z B s' xs'" "q_run F (?d + unat late) 0 (stack s) [(?d, ?e)] = (c, stack s', deadlines c xs')"
    "timeouts_last_time s' = time_now s" by auto
  have "q_run F (?d + unat late) 0 (stack s) [(?d, ?e)] = (?d, etharp_tmr F (stack s), [(?d + 5000, ?e)])"
    using l by (simp add: q_run.simps q_again_def)
  with A(3) have c: "c = ?d" "deadlines c xs' = [(?d + 5000, ?e)]" by auto
  then have "length xs' = 1" using length_deadlines [of c xs'] by simp
  then obtain x' b' where xs': "xs' = [(x', b')]" by (cases xs') auto
  with c have b': "unat (to_time b') = 5000" "to_h b' = Some ARP_TIMER" by auto
  then have "to_time b' = 5000" by (simp add: word_eq_unat)
  moreover have "next_timeout s = Some x" using assms(1) by (simp add: tm_inv_def)
  ultimately show ?thesis using A(1,2,4) b' xs'
    by (intro exI [of _ s'] exI [of _ x'] exI [of _ b']) (simp add: sys_check_timeouts_def sys_now_def Let_def)
qed

lemma tm_inv_time: "tm_inv Z B (s\<lparr>time_now := n\<rparr>) xs = tm_inv Z B s xs"
  by (simp add: tm_inv_def)

theorem timers_drift_witness:
  "\<exists>s s' x' b'. sys_timeout 5000 (Some ARP_TIMER) None (timers_boot (\<lambda>_. 1536) 4096 ()) = Some s \<and>
    sys_check_timeouts idle_fns (s\<lparr>time_now := 7000\<rparr>) = Some s' \<and> tm_inv (\<lambda>_. 1536) 4096 s' [(x', b')] \<and>
    timeouts_last_time s' = 7000 \<and> to_time b' = 5000"
proof -
  have ok: "sizes_ok (\<lambda>_. 1536) 4096" by (simp add: sizes_ok_def)
  note B = timers_boot_inv [OF ok, of "()"]
  have "length (tm_free (timers_boot (\<lambda>_. 1536) 4096 ())) = Suc 9" using B(2) by simp
  from sys_timeout_len [OF B(1) this, of 5000 "Some ARP_TIMER" None] obtain s xs where
    s: "sys_timeout 5000 (Some ARP_TIMER) None (timers_boot (\<lambda>_. 1536) 4096 ()) = Some s"
    "tm_inv (\<lambda>_. 1536) 4096 s xs" "deadlines 0 xs = [(5000, Some ARP_TIMER, None)]"
    "tm_rest s = (0, False, 0, ())" by (auto simp: tm_rest_def timers_boot_def)
  have "length xs = 1" using arg_cong [OF s(3), of length] by (simp add: length_deadlines)
  then obtain x b where xs: "xs = [(x, b)]" by (cases xs) auto
  with s(3) have b: "unat (to_time b) = 5000" "to_h b = Some ARP_TIMER" "to_arg b = None" by auto
  then have tb: "to_time b = 5000" by (simp add: word_eq_unat)
  have inv: "tm_inv (\<lambda>_. 1536) 4096 (s\<lparr>time_now := 7000\<rparr>) [(x, b)]" using s(2) xs by (simp add: tm_inv_time)
  from timers_drift [OF inv b(2,3), of 2000 idle_fns] s(4) tb s(1) show ?thesis
    by (auto simp: tm_rest_def)
qed

text \<open>\<open>sys_timeouts_init\<close> starts the TCP timer but leaves the flag that records it cleared,
  so a connection that becomes active before the first TCP tick starts it a second time: from then
  on both run, and the TCP timers tick twice as fast.\<close>

theorem early_connection_doubles_tcp_timer:
  assumes "sizes_ok Z B" and "tcp_has_pcbs F st"
  shows "\<exists>s s' xs. sys_timeouts_init (timers_boot Z B st) = Some s \<and> tcp_timer_needed F s = Some s' \<and>
    tm_inv Z B s' xs \<and> tcpip_tcp_timer_active s' \<and>
    filter (\<lambda>(d, e). e = (Some TCPIP_TCP_TIMER, None)) (deadlines 0 xs) =
      [(250, Some TCPIP_TCP_TIMER, None), (250, Some TCPIP_TCP_TIMER, None)]"
proof -
  from sys_timeouts_init_spec [OF assms(1), of st] obtain s xs where
    s: "sys_timeouts_init (timers_boot Z B st) = Some s" "tm_inv Z B s xs" "length (tm_free s) = Suc 4"
    "deadlines 0 xs = init_queue" "tm_rest s = (0, False, 0, st)" by auto
  have inv: "tm_inv Z B (s\<lparr>tcpip_tcp_timer_active := True\<rparr>) xs"
    "length (tm_free (s\<lparr>tcpip_tcp_timer_active := True\<rparr>)) = Suc 4" using s(2,3) by (simp_all add: tm_inv_rest)
  from sys_timeout_len [OF inv, of TCP_TMR_INTERVAL "Some TCPIP_TCP_TIMER" None] obtain s' xs' where
    s': "sys_timeout TCP_TMR_INTERVAL (Some TCPIP_TCP_TIMER) None (s\<lparr>tcpip_tcp_timer_active := True\<rparr>) = Some s'"
    "tm_inv Z B s' xs'" "deadlines 0 xs' = q_insert 250 (Some TCPIP_TCP_TIMER, None) init_queue"
    "tm_rest s' = tm_rest (s\<lparr>tcpip_tcp_timer_active := True\<rparr>)" unfolding s(4) by (auto simp: interval_defs)
  have "tcp_timer_needed F s = Some s'" using s(5) assms(2) s'(1) by (simp add: tcp_timer_needed_def tm_rest_def)
  moreover have "tcpip_tcp_timer_active s'" using s'(4) by (simp add: tm_rest_def)
  moreover have "filter (\<lambda>(d, e). e = (Some TCPIP_TCP_TIMER, None)) (deadlines 0 xs') =
      [(250, Some TCPIP_TCP_TIMER, None), (250, Some TCPIP_TCP_TIMER, None)]"
    unfolding s'(3) by (simp add: init_queue_def)
  ultimately show ?thesis using s(1) s'(2) by blast
qed

theorem early_connection_doubles_tcp_timer_witness:
  "\<exists>s s'. sys_timeouts_init (timers_boot (\<lambda>_. 1536) 4096 ()) = Some s \<and>
    tcp_timer_needed idle_fns s = Some s' \<and> tcpip_tcp_timer_active s'"
proof -
  have "sizes_ok (\<lambda>_. 1536) 4096" by (simp add: sizes_ok_def)
  from early_connection_doubles_tcp_timer [OF this, of idle_fns "()"] show ?thesis
    by (auto simp: idle_fns_def)
qed

end
