(* ===== verification/InetChksum.thy ===== *)
theory InetChksum
  imports ByteOrder
begin

text \<open>
  The Internet checksum of \<open>core/ipv4/inet_chksum.c\<close>: the three versions of
  \<open>lwip_standard_chksum\<close> (the build uses the second) and the checksums over a pbuf chain,
  with and without the pseudo header. A buffer is its address, whose alignment the versions
  2 and 3 look at, and its bytes; a pbuf chain is the list of its payloads.
\<close>

section \<open>Helpers of \<open>inet_chksum.h\<close>\<close>

definition FOLD_U32T :: "u32 \<Rightarrow> u32" where
  "FOLD_U32T u = drop_bit 16 u + (u AND 0xffff)"

definition SWAP_BYTES_IN_WORD :: "u32 \<Rightarrow> u32" where
  "SWAP_BYTES_IN_WORD w = push_bit 8 (w AND 0xff) OR drop_bit 8 (w AND 0xff00)"

section \<open>Version 1\<close>

text \<open>The loop \<open>while (len > 1)\<close>: the accumulator and the octet that is left.\<close>

fun chksum1_loop :: "u32 \<Rightarrow> u8 list \<Rightarrow> u32 \<times> u8 list" where
  "chksum1_loop acc (a # b # r) =
     (let src = (push_bit 8 (ucast a) OR ucast b :: u16) in chksum1_loop (acc + ucast src) r)"
| "chksum1_loop acc r = (acc, r)"

definition lwip_standard_chksum_1 :: "u8 list \<Rightarrow> u16" where
  "lwip_standard_chksum_1 bs =
     (let (acc, r) = chksum1_loop 0 bs;
          acc = (case r of [] \<Rightarrow> acc | a # _ \<Rightarrow> acc + ucast (push_bit 8 (ucast a) :: u16));
          acc = drop_bit 16 acc + (acc AND 0xffff);
          acc = (if acc AND 0xffff0000 \<noteq> 0 then drop_bit 16 acc + (acc AND 0xffff) else acc)
      in lwip_htons (ucast acc))"

section \<open>Version 2\<close>

text \<open>\<open>while (len > 1) { sum += *ps++; len -= 2; }\<close>.\<close>

fun add_u16s :: "u32 \<Rightarrow> u8 list \<Rightarrow> u32 \<times> u8 list" where
  "add_u16s sm (a # b # r) = add_u16s (sm + le16 a b) r"
| "add_u16s sm r = (sm, r)"

text \<open>
  The two bytes of the object \<open>t\<close> are \<open>t0\<close> (the left-over byte) and \<open>t1\<close> (the byte in
  front of an odd address).
\<close>

definition lwip_standard_chksum_2 :: "nat \<Rightarrow> u8 list \<Rightarrow> u16" where
  "lwip_standard_chksum_2 addr bs =
     (let isodd = odd addr;
          (t1, bs) = (if isodd \<and> bs \<noteq> [] then (hd bs, tl bs) else (0, bs));
          (sm, r) = add_u16s 0 bs;
          t0 = (case r of [] \<Rightarrow> 0 | a # _ \<Rightarrow> a);
          sm = sm + le16 t0 t1;
          sm = FOLD_U32T sm;
          sm = FOLD_U32T sm;
          sm = (if isodd then SWAP_BYTES_IN_WORD sm else sm)
      in ucast sm)"

section \<open>Version 3\<close>

text \<open>The unrolled loop, two 32-bit additions with the carry added back.\<close>

definition add_carry :: "u32 \<Rightarrow> u32 \<Rightarrow> u32" where
  "add_carry sm x = (let tmp = sm + x in if tmp < sm then tmp + 1 else tmp)"

fun chksum3_loop :: "u32 \<Rightarrow> u8 list \<Rightarrow> u32 \<times> u8 list" where
  "chksum3_loop sm (a # b # c # d # e # f # g # h # r) =
     chksum3_loop (add_carry (add_carry sm (le32 a b c d)) (le32 e f g h)) r"
| "chksum3_loop sm r = (sm, r)"

definition lwip_standard_chksum_3 :: "nat \<Rightarrow> u8 list \<Rightarrow> u16" where
  "lwip_standard_chksum_3 addr bs =
     (let isodd = odd addr;
          (t1, bs, addr) = (if isodd \<and> bs \<noteq> [] then (hd bs, tl bs, addr + 1) else (0, bs, addr));
          (sm, bs) = (if addr mod 4 \<noteq> 0 \<and> length bs > 1
                       then (le16 (bs ! 0) (bs ! 1), drop 2 bs) else (0, bs));
          (sm, bs) = chksum3_loop sm bs;
          sm = FOLD_U32T sm;
          (sm, r) = add_u16s sm bs;
          t0 = (case r of [] \<Rightarrow> 0 | a # _ \<Rightarrow> a);
          sm = sm + le16 t0 t1;
          sm = FOLD_U32T sm;
          sm = FOLD_U32T sm;
          sm = (if isodd then SWAP_BYTES_IN_WORD sm else sm)
      in ucast sm)"

section \<open>Checksums over buffers and chains\<close>

definition inet_chksum :: "nat \<Rightarrow> u8 list \<Rightarrow> u16" where
  "inet_chksum addr bs = NOT (lwip_standard_chksum_2 addr bs)"

text \<open>The loop over the chain: the accumulator and \<open>swapped\<close>.\<close>

fun chksum_chain :: "u32 \<Rightarrow> bool \<Rightarrow> (nat \<times> u8 list) list \<Rightarrow> u32 \<times> bool" where
  "chksum_chain acc swapped [] = (acc, swapped)"
| "chksum_chain acc swapped ((payload, bs) # q) =
     (let acc = FOLD_U32T (acc + ucast (lwip_standard_chksum_2 payload bs)) in
      if odd (length bs) then chksum_chain (SWAP_BYTES_IN_WORD acc) (\<not> swapped) q
      else chksum_chain acc swapped q)"

definition inet_chksum_pbuf :: "(nat \<times> u8 list) list \<Rightarrow> u16" where
  "inet_chksum_pbuf p =
     (let (acc, swapped) = chksum_chain 0 False p;
          acc = (if swapped then SWAP_BYTES_IN_WORD acc else acc)
      in ucast (NOT (acc AND 0xffff)))"

text \<open>The pseudo header and the final folding, shared by the two functions that follow.\<close>

definition chksum_pseudo_end :: "u32 \<Rightarrow> u32 \<Rightarrow> u32 \<Rightarrow> u8 \<Rightarrow> u16 \<Rightarrow> u16" where
  "chksum_pseudo_end acc src dest proto proto_len =
     (let acc = acc + (src AND 0xffff);
          acc = acc + (drop_bit 16 src AND 0xffff);
          acc = acc + (dest AND 0xffff);
          acc = acc + (drop_bit 16 dest AND 0xffff);
          acc = acc + ucast (lwip_htons (ucast proto));
          acc = acc + ucast (lwip_htons proto_len);
          acc = FOLD_U32T acc;
          acc = FOLD_U32T acc
      in ucast (NOT (acc AND 0xffff)))"

definition inet_chksum_pseudo ::
  "(nat \<times> u8 list) list \<Rightarrow> u32 \<Rightarrow> u32 \<Rightarrow> u8 \<Rightarrow> u16 \<Rightarrow> u16" where
  "inet_chksum_pseudo p src dest proto proto_len =
     (let (acc, swapped) = chksum_chain 0 False p;
          acc = (if swapped then SWAP_BYTES_IN_WORD acc else acc)
      in chksum_pseudo_end acc src dest proto proto_len)"

text \<open>
  The loop of the partial version. The assertion \<open>chksum_len < 0x7fff\<close> after the
  subtraction halts the system, and the parity looked at is that of the whole pbuf.
\<close>

fun chksum_chain_partial ::
  "u32 \<Rightarrow> bool \<Rightarrow> u16 \<Rightarrow> (nat \<times> u8 list) list \<Rightarrow> (u32 \<times> bool) option" where
  "chksum_chain_partial acc swapped chksum_len [] = Some (acc, swapped)"
| "chksum_chain_partial acc swapped chksum_len ((payload, bs) # q) =
     (if chksum_len > 0 then
        let chklen = (if of_nat (length bs) > chksum_len then chksum_len else of_nat (length bs));
            acc = acc + ucast (lwip_standard_chksum_2 payload (take (unat chklen) bs));
            chksum_len = chksum_len - chklen
        in if chksum_len < 0x7fff then
             let acc = FOLD_U32T acc in
             if odd (length bs)
             then chksum_chain_partial (SWAP_BYTES_IN_WORD acc) (\<not> swapped) chksum_len q
             else chksum_chain_partial acc swapped chksum_len q
           else None
      else Some (acc, swapped))"

definition inet_chksum_pseudo_partial ::
  "(nat \<times> u8 list) list \<Rightarrow> u32 \<Rightarrow> u32 \<Rightarrow> u8 \<Rightarrow> u16 \<Rightarrow> u16 \<Rightarrow> u16 option" where
  "inet_chksum_pseudo_partial p src dest proto proto_len chksum_len = do {
     (acc, swapped) \<leftarrow> chksum_chain_partial 0 False chksum_len p;
     let acc = (if swapped then SWAP_BYTES_IN_WORD acc else acc);
     Some (chksum_pseudo_end acc src dest proto proto_len) }"


section \<open>The one's complement sum\<close>

text \<open>
  The little-endian sum of the 16-bit words of a buffer, and the representative of a sum in
  one's complement arithmetic: 0 only for 0, otherwise the residue modulo 65535 in 1..65535.
\<close>

fun lesum :: "u8 list \<Rightarrow> nat" where
  "lesum [] = 0"
| "lesum [a] = unat a"
| "lesum (a # b # r) = unat a + 256 * unat b + lesum r"

definition norm16 :: "nat \<Rightarrow> nat" where
  "norm16 s = (if s = 0 then 0 else (s - 1) mod 65535 + 1)"

lemma norm16_eq_iff: "norm16 s = norm16 t \<longleftrightarrow> s mod 65535 = t mod 65535 \<and> (s = 0 \<longleftrightarrow> t = 0)"
proof (cases "s = 0 \<or> t = 0")
  case False
  then obtain i j where "s = Suc i" "t = Suc j" by (metis not0_implies_Suc)
  then show ?thesis by (simp add: norm16_def mod_Suc)
qed (auto simp: norm16_def)

lemma norm16_zero [simp]: "norm16 0 = 0"
  by (simp add: norm16_def)

lemma norm16_le: "norm16 s \<le> 65535"
  by (simp add: norm16_def Suc_le_eq)

lemma norm16_small: "s \<le> 65535 \<Longrightarrow> norm16 s = s"
  by (simp add: norm16_def)

lemma norm16_idem [simp]: "norm16 (norm16 s) = norm16 s"
  by (rule norm16_small [OF norm16_le])

lemma norm16_mod: "norm16 s mod 65535 = s mod 65535" and norm16_0: "norm16 s = 0 \<longleftrightarrow> s = 0"
  using norm16_idem [of s] unfolding norm16_eq_iff by auto

lemma norm16_add_left [simp]: "norm16 (norm16 s + t) = norm16 (s + t)"
  unfolding norm16_eq_iff by (auto simp: norm16_0 norm16_mod intro: mod_add_cong)

lemma norm16_add_right [simp]: "norm16 (s + norm16 t) = norm16 (s + t)"
  using norm16_add_left [of t s] by (simp add: add.commute)

lemma norm16_mult [simp]: "norm16 (k * norm16 s) = norm16 (k * s)"
  unfolding norm16_eq_iff by (auto simp: norm16_0 norm16_mod intro: mod_mult_cong)

lemma norm16_65536: "norm16 (65536 * s) = norm16 s"
proof -
  have "65536 * s = s + 65535 * s" by simp
  then have "65536 * s mod 65535 = s mod 65535" by (metis mod_mult_self2)
  then show ?thesis unfolding norm16_eq_iff by simp
qed

lemma norm16_add_cong: "norm16 s = norm16 s' \<Longrightarrow> norm16 t = norm16 t' \<Longrightarrow> norm16 (s + t) = norm16 (s' + t')"
  by (metis norm16_add_left norm16_add_right)

lemma norm16_65536_add: "norm16 (65536 * s + t) = norm16 (s + t)"
  by (rule norm16_add_cong) (simp_all add: norm16_65536)

lemma norm16_mult_cong: "norm16 s = norm16 t \<Longrightarrow> norm16 (k * s) = norm16 (k * t)"
  by (metis norm16_mult)

subsection \<open>Folding and swapping\<close>

lemma unat_FOLD_U32T: "unat (FOLD_U32T x) = unat x div 65536 + unat x mod 65536"
proof -
  have "(0xffff :: u32) = mask 16" by (simp add: mask_eq_exp_minus_1)
  then have "x AND 0xffff = take_bit 16 x" by (simp add: take_bit_eq_mask)
  then have "unat (x AND 0xffff) = take_bit 16 (unat x)"
    by (simp only: unsigned_take_bit_eq)
  then have "unat (x AND 0xffff) = unat x mod 65536"
    by (simp add: take_bit_eq_mod)
  moreover have "unat (drop_bit 16 x) = unat x div 65536"
    by (simp add: drop_bit_eq_div unat_div)
  moreover have "unat x div 65536 + unat x mod 65536 < 4294967296"
    using unat_u32_lt [of x] by simp
  ultimately show ?thesis by (simp add: FOLD_U32T_def unat_word_ariths)
qed

lemma norm16_fold: "norm16 (n div 65536 + n mod 65536) = norm16 n"
  by (subst norm16_65536_add [symmetric]) simp

lemma norm16_FOLD [simp]: "norm16 (unat (FOLD_U32T x)) = norm16 (unat x)"
  by (simp add: unat_FOLD_U32T norm16_fold)

lemma fold_le: "n \<le> 131070 \<Longrightarrow> n div 65536 + n mod 65536 \<le> (65535 :: nat)"
proof -
  assume n: "n \<le> 131070"
  define q r where "q = n div 65536" and "r = n mod 65536"
  then have "n = 65536 * q + r" "r < 65536" by simp_all
  with n have "q = 0 \<or> q = 1 \<and> r \<le> 65534" by linarith
  with \<open>r < 65536\<close> show ?thesis by (auto simp flip: q_def r_def)
qed

lemma FOLD_twice: "unat (FOLD_U32T (FOLD_U32T x)) = norm16 (unat x)"
proof -
  let ?m = "unat (FOLD_U32T x)"
  have "?m \<le> 131070" using unat_u32_lt [of x] by (simp add: unat_FOLD_U32T)
  then have "?m div 65536 + ?m mod 65536 \<le> 65535" by (rule fold_le)
  then show ?thesis
    using norm16_FOLD [of "FOLD_U32T x"] norm16_FOLD [of x]
    by (simp add: unat_FOLD_U32T [of "FOLD_U32T x"] norm16_small)
qed

lemma FOLD_once: "unat x \<le> 131070 \<Longrightarrow> unat (FOLD_U32T x) = norm16 (unat x)"
proof -
  assume "unat x \<le> 131070"
  then have "unat x div 65536 + unat x mod 65536 \<le> 65535" by (rule fold_le)
  then show ?thesis using norm16_FOLD [of x] by (simp add: unat_FOLD_U32T norm16_small)
qed

lemma unat_SWAP: "unat x \<le> 65535 \<Longrightarrow> unat (SWAP_BYTES_IN_WORD x) = unat x mod 256 * 256 + unat x div 256"
proof -
  assume x: "unat x \<le> 65535"
  have u: "unat (ucast x :: u16) = unat x" using x by (simp add: unat_ucast_mod)
  have "SWAP_BYTES_IN_WORD x = ucast (lwip_htons (ucast x))"
    unfolding SWAP_BYTES_IN_WORD_def byte_masks
    by (rule bit_word_eqI) (auto simp: bit_lwip_htons bit_simps add.commute dest: bit_imp_le_length)
  then show ?thesis using u unat_lwip_htons [of "ucast x"] unat_u16_lt [of "lwip_htons (ucast x)"]
    by (simp add: unat_ucast_mod)
qed

lemma swap_norm: "n \<le> 65535 \<Longrightarrow> n mod 256 * 256 + n div 256 = norm16 (256 * n)"
proof -
  assume n: "n \<le> 65535"
  have "256 * n = 65536 * (n div 256) + n mod 256 * 256"
    using mult_div_mod_eq [of 256 n] by linarith
  then have "norm16 (256 * n) = norm16 (n div 256 + n mod 256 * 256)"
    by (simp only: norm16_65536_add)
  moreover have "n div 256 + n mod 256 * 256 \<le> 65535"
  proof -
    have "n mod 256 \<le> 255" "n div 256 \<le> 255" using n by simp_all
    then show ?thesis by linarith
  qed
  ultimately show ?thesis by (simp add: norm16_small)
qed

lemma SWAP_norm: "unat x \<le> 65535 \<Longrightarrow> unat (SWAP_BYTES_IN_WORD x) = norm16 (256 * unat x)"
  by (simp add: unat_SWAP swap_norm)

lemma htons_norm: "unat (lwip_htons x) = norm16 (256 * unat x)"
  using unat_u16_lt [of x] by (simp add: unat_lwip_htons swap_norm)


section \<open>The word sums\<close>

lemma lesum_Cons: "norm16 (lesum (a # r)) = norm16 (unat a + 256 * lesum r)"
proof (induction r arbitrary: a)
  case Nil
  then show ?case by simp
next
  case (Cons b r)
  have "norm16 (256 * lesum (b # r)) = norm16 (256 * (unat b + 256 * lesum r))"
    by (rule norm16_mult_cong) (rule Cons.IH)
  also have "\<dots> = norm16 (65536 * lesum r + 256 * unat b)"
    by (simp add: algebra_simps)
  also have "\<dots> = norm16 (256 * unat b + lesum r)"
    using norm16_65536_add [of "lesum r" "256 * unat b"] by (simp add: ac_simps)
  finally have "norm16 (256 * lesum (b # r)) = norm16 (256 * unat b + lesum r)" .
  from norm16_add_cong [OF refl this [symmetric], of "unat a"] show ?case
    by (simp add: add.assoc)
qed

lemma lesum_append: "norm16 (lesum (xs @ ys)) = norm16 (lesum xs + 256 ^ length xs * lesum ys)"
proof (induction xs)
  case Nil
  then show ?case by simp
next
  case (Cons x xs)
  have "norm16 (lesum ((x # xs) @ ys)) = norm16 (unat x + 256 * lesum (xs @ ys))"
    using lesum_Cons [of x "xs @ ys"] by simp
  also have "\<dots> = norm16 (unat x + 256 * (lesum xs + 256 ^ length xs * lesum ys))"
    by (intro norm16_add_cong norm16_mult_cong Cons.IH refl)
  also have "\<dots> = norm16 ((unat x + 256 * lesum xs) + 256 ^ length (x # xs) * lesum ys)"
    by (simp add: algebra_simps)
  also have "\<dots> = norm16 (lesum (x # xs) + 256 ^ length (x # xs) * lesum ys)"
    by (intro norm16_add_cong refl) (simp add: lesum_Cons)
  finally show ?case .
qed

lemma power_256_norm: "norm16 (256 ^ n * s) = norm16 (if odd n then 256 * s else s)"
proof (induction n arbitrary: s)
  case (Suc n)
  have "norm16 (256 ^ Suc n * s) = norm16 (256 ^ n * (256 * s))" by (simp add: ac_simps)
  also have "\<dots> = norm16 (if odd n then 65536 * s else 256 * s)" by (simp add: Suc)
  finally show ?case by (simp add: norm16_65536)
qed simp

lemma lesum_le: "lesum bs \<le> 65535 * ((length bs + 1) div 2)"
proof (induction bs rule: lesum.induct)
  case (2 a)
  then show ?case using unat_u8_lt [of a] by simp
next
  case (3 a b r)
  then show ?case using unat_u8_lt [of a] unat_u8_lt [of b] by simp
qed simp

lemma lesum_eq_0: "lesum bs = 0 \<longleftrightarrow> (\<forall>b \<in> set bs. b = 0)"
  by (induction bs rule: lesum.induct) (auto simp: unat_eq_zero)

lemma add_u16s_spec:
  assumes "add_u16s sm bs = (sm', r)" "unat sm + lesum bs < 4294967296"
  shows "unat sm' + lesum r = unat sm + lesum bs \<and> length r \<le> 1"
  using assms
proof (induction sm bs rule: add_u16s.induct)
  case (1 sm a b r0)
  have "unat (sm + le16 a b) = unat sm + unat a + 256 * unat b"
    using 1(3) by (simp add: unat_word_ariths unat_le16)
  with 1 show ?case by simp
qed auto

lemma left_over: "length r \<le> 1 \<Longrightarrow> unat (case r of [] \<Rightarrow> 0 | a # _ \<Rightarrow> a) = lesum r"
  by (cases r) auto

lemma bulk_and_ends:
  assumes "add_u16s sm bs = (sm', r)" "unat sm + lesum bs + 256 * unat t1 < 4294967296"
  shows "unat (sm' + le16 (case r of [] \<Rightarrow> 0 | a # _ \<Rightarrow> a) t1) = unat sm + lesum bs + 256 * unat t1"
proof -
  have "unat sm' + lesum r = unat sm + lesum bs" "length r \<le> 1"
    using add_u16s_spec [OF assms(1)] assms(2) by simp_all
  then show ?thesis using assms(2)
    by (simp add: unat_word_ariths unat_le16 left_over)
qed

lemma ucast16: "unat (x :: u32) \<le> 65535 \<Longrightarrow> unat (ucast x :: u16) = unat x"
  by (simp add: unat_ucast_mod)

lemma FOLD_ends:
  assumes "norm16 (unat x) = norm16 (if odd_addr then lesum (tl bs) + 256 * unat (hd bs) else lesum bs)"
    "bs \<noteq> [] \<or> \<not> odd_addr"
  shows "unat (ucast (if odd_addr then SWAP_BYTES_IN_WORD (FOLD_U32T (FOLD_U32T x))
      else FOLD_U32T (FOLD_U32T x)) :: u16) = norm16 (lesum bs)"
proof (cases odd_addr)
  case True
  with assms have ne: "bs = hd bs # tl bs" by simp
  have "norm16 (256 * (lesum (tl bs) + 256 * unat (hd bs))) =
      norm16 (65536 * unat (hd bs) + 256 * lesum (tl bs))" by (simp add: algebra_simps)
  also have "\<dots> = norm16 (lesum bs)"
    unfolding norm16_65536_add by (metis lesum_Cons ne)
  finally show ?thesis using True assms(1)
    by (simp add: ucast16 SWAP_norm FOLD_twice norm16_le)
next
  case False
  then show ?thesis using assms(1) by (simp add: ucast16 FOLD_twice norm16_le)
qed

lemma chksum_2_norm:
  assumes "length bs \<le> 0x20000"
  shows "unat (lwip_standard_chksum_2 addr bs) = norm16 (lesum bs)"
proof (cases "odd addr \<and> bs \<noteq> []")
  case True
  obtain sm r where a: "add_u16s 0 (tl bs) = (sm, r)" by fastforce
  have "lesum (tl bs) + 256 * unat (hd bs) < 4294967296"
    using lesum_le [of "tl bs"] unat_u8_lt [of "hd bs"] assms True by simp
  with bulk_and_ends [OF a, of "hd bs"] have
    "unat (sm + le16 (case r of [] \<Rightarrow> 0 | a # _ \<Rightarrow> a) (hd bs)) = lesum (tl bs) + 256 * unat (hd bs)"
    by simp
  with FOLD_ends [of _ "odd addr" bs] True a show ?thesis
    by (simp add: lwip_standard_chksum_2_def Let_def)
next
  case False
  obtain sm r where a: "add_u16s 0 bs = (sm, r)" by fastforce
  have "lesum bs < 4294967296" using lesum_le [of bs] assms by linarith
  with bulk_and_ends [OF a, of 0] have
    "unat (sm + le16 (case r of [] \<Rightarrow> 0 | a # _ \<Rightarrow> a) 0) = lesum bs" by simp
  with FOLD_ends [of _ False bs] False a show ?thesis
    by (auto simp: lwip_standard_chksum_2_def Let_def FOLD_twice SWAP_norm ucast16 norm16_le)
qed

subsection \<open>Versions 1 and 3\<close>

lemma chksum1_loop_spec:
  assumes "chksum1_loop acc bs = (acc', r)" "unat acc + 65535 * ((length bs + 1) div 2) < 4294967296"
  shows "length r \<le> 1 \<and> norm16 (unat acc' + 256 * lesum r) = norm16 (unat acc + 256 * lesum bs) \<and>
    unat acc' + 65535 * length r < 4294967296"
  using assms
proof (induction acc bs rule: chksum1_loop.induct)
  case (1 acc a b r0)
  let ?src = "push_bit 8 (ucast a) OR ucast b :: u16"
  have "push_bit 8 (ucast a) AND ucast b = (0 :: u16)"
    by (rule bit_word_eqI) (auto simp: bit_simps dest: bit_imp_le_length)
  then have "?src = 256 * ucast a + ucast b"
    by (simp add: disjunctive_add_eq_or push_bit_eq_mult flip: mult.commute)
  then have src: "unat ?src = 256 * unat a + unat b"
    using unat_u8_lt [of a] unat_u8_lt [of b] by (simp add: unat_word_ariths unat_ucast_mod)
  then have acc: "unat (acc + ucast ?src) = unat acc + (256 * unat a + unat b)"
    using 1(3) unat_u8_lt [of a] unat_u8_lt [of b] by (simp add: unat_word_ariths unat_ucast_mod)
  have "norm16 (256 * lesum (a # b # r0)) = norm16 (65536 * unat b + (256 * unat a + 256 * lesum r0))"
    by (simp add: algebra_simps)
  also have "\<dots> = norm16 (256 * unat a + unat b + 256 * lesum r0)"
    using norm16_65536_add [of "unat b" "256 * unat a + 256 * lesum r0"] by (simp add: ac_simps)
  finally have "norm16 (unat acc + 256 * lesum (a # b # r0)) =
      norm16 (unat (acc + ucast ?src) + 256 * lesum r0)"
    unfolding acc add.assoc by (intro norm16_add_cong refl) (simp add: add.assoc)
  moreover have "unat (acc + ucast ?src) + 65535 * ((length r0 + 1) div 2) < 4294967296"
    using 1(3) unat_u8_lt [of a] unat_u8_lt [of b] unfolding acc by simp
  ultimately show ?case using 1(1) [OF refl] 1(2) by (simp add: Let_def)
qed auto

lemma chksum_1_norm:
  assumes "length bs < 65536"
  shows "unat (lwip_standard_chksum_1 bs) = norm16 (lesum bs)"
proof -
  obtain acc r where l: "chksum1_loop 0 bs = (acc, r)" by fastforce
  have "65535 * ((length bs + 1) div 2) < 4294967296" using assms by simp
  with chksum1_loop_spec [OF l] have r: "length r \<le> 1"
    "norm16 (unat acc + 256 * lesum r) = norm16 (256 * lesum bs)" "unat acc + 65535 * length r < 4294967296"
    by simp_all
  define acc1 where "acc1 = (case r of [] \<Rightarrow> acc | a # _ \<Rightarrow> acc + ucast (push_bit 8 (ucast a) :: u16))"
  have "unat acc1 = unat acc + 256 * lesum r"
  proof (cases r)
    case (Cons a r')
    have "unat (ucast (push_bit 8 (ucast a) :: u16) :: u32) = 256 * unat a"
      using unat_u8_lt [of a] by (simp add: push_bit_eq_mult unat_ucast_mod unat_word_ariths)
    then show ?thesis using r(1,3) Cons unat_u8_lt [of a] by (simp add: acc1_def unat_word_ariths)
  qed (simp add: acc1_def)
  then have acc1: "norm16 (unat acc1) = norm16 (256 * lesum bs)" using r by simp
  define acc2 where "acc2 = FOLD_U32T acc1"
  have b2: "unat acc2 \<le> 131070" using unat_u32_lt [of acc1] by (simp add: acc2_def unat_FOLD_U32T)
  define acc3 where "acc3 = (if acc2 AND 0xffff0000 \<noteq> 0 then FOLD_U32T acc2 else acc2)"
  have "acc2 AND 0xffff0000 = 0 \<Longrightarrow> unat acc2 \<le> 65535"
  proof -
    assume z: "acc2 AND 0xffff0000 = 0"
    have "(0xffff0000 :: u32) = push_bit 16 (mask 16)"
      by (simp add: mask_eq_exp_minus_1 push_bit_eq_mult)
    with z have nb: "\<not> bit (acc2 AND push_bit 16 (mask 16)) n" for n by simp
    have "bit acc2 n \<Longrightarrow> n < 16" for n
      using nb [of n] bit_imp_le_length [of acc2 n] by (auto simp: bit_simps)
    then have "acc2 = take_bit 16 acc2"
      by (intro bit_word_eqI) (auto simp: bit_simps)
    then have "unat acc2 = take_bit 16 (unat acc2)" by (metis unsigned_take_bit_eq)
    then have "unat acc2 = unat acc2 mod 65536" by (simp add: take_bit_eq_mod)
    then show ?thesis by linarith
  qed
  then have "unat acc3 \<le> 65535" "norm16 (unat acc3) = norm16 (unat acc1)"
    using FOLD_once [OF b2] norm16_le by (auto simp: acc3_def acc2_def)
  then have "unat (lwip_htons (ucast acc3)) = norm16 (256 * (256 * lesum bs))"
    using norm16_mult_cong [of "unat acc3" "256 * lesum bs" 256] acc1 by (simp only: htons_norm ucast16)
  also have "\<dots> = norm16 (lesum bs)" by (simp add: norm16_65536)
  finally show ?thesis
    unfolding lwip_standard_chksum_1_def l Let_def split_conv acc1_def [symmetric]
      FOLD_U32T_def [symmetric] acc2_def [symmetric] acc3_def [symmetric] .
qed

lemma norm16_add_carry: "norm16 (unat (add_carry x y)) = norm16 (unat x + unat y)"
proof (cases "unat x + unat y < 4294967296")
  case True
  then have "unat (x + y) = unat x + unat y" by (simp add: unat_word_ariths)
  then show ?thesis by (simp add: add_carry_def word_less_nat_alt Let_def)
next
  case False
  define t where "t = unat x + unat y - 4294967296"
  have lt: "unat x < 4294967296" "unat y < 4294967296" by (rule unat_u32_lt)+
  have u: "unat (x + y) = t"
    using False lt by (simp add: unat_word_ariths t_def le_mod_geq)
  then have c: "x + y < x" using False lt by (simp add: word_less_nat_alt t_def)
  have "unat (x + y + 1) = t + 1"
    using False lt u by (simp add: unat_word_ariths t_def)
  then have "unat (add_carry x y) = 1 + t" using c by (simp add: add_carry_def Let_def)
  moreover have "unat x + unat y = 65536 * 65536 + t" using False by (simp add: t_def)
  moreover have "norm16 (65536 * 65536 + t) = norm16 (1 + t)"
    using norm16_65536_add [of 65536 t] norm16_65536_add [of 1 t] by simp
  ultimately show ?thesis by simp
qed

lemma norm16_le32: "norm16 (unat (le32 a b c d)) = norm16 (lesum [a, b, c, d])"
  using norm16_65536_add [of "unat c + 256 * unat d" "unat a + 256 * unat b"]
  by (simp add: unat_le32 algebra_simps)

lemma chksum3_loop_spec:
  assumes "chksum3_loop sm bs = (sm', r)"
  shows "length r \<le> 7 \<and> norm16 (unat sm' + lesum r) = norm16 (unat sm + lesum bs)"
  using assms
proof (induction sm bs rule: chksum3_loop.induct)
  case (1 sm a b c d e f g h r0)
  have "norm16 (unat (add_carry (add_carry sm (le32 a b c d)) (le32 e f g h))) =
      norm16 (unat sm + lesum [a, b, c, d] + lesum [e, f, g, h])"
    unfolding norm16_add_carry by (rule norm16_add_cong [OF _ norm16_le32],
      unfold norm16_add_carry, rule norm16_add_cong [OF refl norm16_le32])
  from norm16_add_cong [OF this, of "lesum r0"] 1 show ?case by (simp add: ac_simps)
qed auto


lemma chksum_3_norm: "unat (lwip_standard_chksum_3 addr bs) = norm16 (lesum bs)"
proof -
  define isodd where "isodd = (odd addr \<and> bs \<noteq> [])"
  define t1 where "t1 = (if isodd then hd bs else 0)"
  define bs1 where "bs1 = (if isodd then tl bs else bs)"
  define addr1 where "addr1 = (if isodd then addr + 1 else addr)"
  define two where "two = (addr1 mod 4 \<noteq> 0 \<and> length bs1 > 1)"
  define s2 where "s2 = (if two then le16 (bs1 ! 0) (bs1 ! 1) else 0)"
  define bs2 where "bs2 = (if two then drop 2 bs1 else bs1)"
  obtain s3 r3 where l3: "chksum3_loop s2 bs2 = (s3, r3)" by fastforce
  obtain s4 r4 where l4: "add_u16s (FOLD_U32T s3) r3 = (s4, r4)" by fastforce
  have "unat s2 + lesum bs2 = lesum bs1"
    by (cases bs1 rule: lesum.cases) (auto simp: s2_def bs2_def two_def unat_le16)
  then have r3: "length r3 \<le> 7" "norm16 (unat s3 + lesum r3) = norm16 (lesum bs1)"
    using chksum3_loop_spec [OF l3] by simp_all
  have f3: "unat (FOLD_U32T s3) \<le> 131070"
    using unat_u32_lt [of s3] by (simp add: unat_FOLD_U32T)
  have "lesum r3 \<le> 65535 * 4" using lesum_le [of r3] r3(1) by linarith
  then have "unat (FOLD_U32T s3) + lesum r3 + 256 * unat t1 < 4294967296"
    using f3 unat_u8_lt [of t1] by linarith
  from bulk_and_ends [OF l4 this]
  have u: "unat (s4 + le16 (case r4 of [] \<Rightarrow> 0 | a # _ \<Rightarrow> a) t1) = unat (FOLD_U32T s3) + lesum r3 + 256 * unat t1" .
  have "norm16 (unat (FOLD_U32T s3) + lesum r3 + 256 * unat t1) = norm16 (unat s3 + lesum r3 + 256 * unat t1)"
    by (intro norm16_add_cong) simp_all
  also have "\<dots> = norm16 (lesum bs1 + 256 * unat t1)"
    using r3(2) by (rule norm16_add_cong) simp
  finally have n: "norm16 (unat (s4 + le16 (case r4 of [] \<Rightarrow> 0 | a # _ \<Rightarrow> a) t1)) =
      norm16 (lesum bs1 + 256 * unat t1)" unfolding u .
  have def: "lwip_standard_chksum_3 addr bs = ucast (let x = FOLD_U32T (FOLD_U32T
      (s4 + le16 (case r4 of [] \<Rightarrow> 0 | a # _ \<Rightarrow> a) t1)) in if odd addr then SWAP_BYTES_IN_WORD x else x)"
  proof -
    have head: "(if odd addr \<and> bs \<noteq> [] then (hd bs, tl bs, addr + 1) else (0, bs, addr)) = (t1, bs1, addr1)"
      by (simp add: t1_def bs1_def addr1_def isodd_def)
    have word: "(if addr1 mod 4 \<noteq> 0 \<and> length bs1 > 1
        then (le16 (bs1 ! 0) (bs1 ! 1), drop 2 bs1) else (0, bs1)) = (s2, bs2)"
      by (simp add: s2_def bs2_def two_def)
    show ?thesis unfolding lwip_standard_chksum_3_def Let_def head split_conv word l3 l4 ..
  qed
  show ?thesis
  proof (cases isodd)
    case True
    with n FOLD_ends [of _ "odd addr" bs] show ?thesis
      by (simp add: def Let_def isodd_def bs1_def t1_def)
  next
    case False
    with n FOLD_ends [of _ False bs] show ?thesis
      by (auto simp: def Let_def isodd_def bs1_def t1_def FOLD_twice SWAP_norm ucast16 norm16_le norm16_0)
  qed
qed

section \<open>Chains\<close>

text \<open>
  The value of the accumulator of the chain loop once the closing swap is done, and what
  the loop adds to it.
\<close>

definition chain_k :: "bool \<Rightarrow> nat" where
  "chain_k swapped = (if swapped then 256 else 1)"

lemma chain_k_swap: "norm16 (chain_k (\<not> sw) * (256 * x)) = norm16 (chain_k sw * x)"
  by (simp add: chain_k_def norm16_65536)

lemma chksum_chain_spec:
  assumes "chksum_chain acc sw p = (acc', sw')" "\<forall>(a, bs) \<in> set p. length bs < 65536"
    "unat acc \<le> 65535"
  shows "unat acc' \<le> 65535 \<and> norm16 (chain_k sw' * unat acc') =
    norm16 (chain_k sw * (unat acc + lesum (concat (map snd p))))"
  using assms
proof (induction acc sw p rule: chksum_chain.induct)
  case (1 acc sw)
  then show ?case by simp
next
  case (2 acc sw addr bs q)
  let ?c = "lwip_standard_chksum_2 addr bs" and ?rest = "lesum (concat (map snd q))"
  define acc1 where "acc1 = FOLD_U32T (acc + ucast ?c)"
  have c: "unat ?c = norm16 (lesum bs)" using 2(4) by (simp add: chksum_2_norm)
  have "unat (acc + ucast ?c) = unat acc + norm16 (lesum bs)"
    using norm16_le [of "lesum bs"] 2(5) c by (simp add: unat_word_ariths unat_ucast_mod)
  then have acc1: "unat acc1 = norm16 (unat acc + lesum bs)"
    using FOLD_once [of "acc + ucast ?c"] norm16_le [of "lesum bs"] 2(5) by (simp add: acc1_def)
  have tot: "norm16 (chain_k sw * (unat acc + lesum (concat (map snd ((addr, bs) # q))))) =
      norm16 (chain_k sw * (unat acc + lesum bs + (if odd (length bs) then 256 * ?rest else ?rest)))"
    using norm16_add_cong [OF refl lesum_append [of bs "concat (map snd q)"], of "unat acc"]
      norm16_add_cong [OF refl power_256_norm [of "length bs" ?rest], of "unat acc + lesum bs"]
    by (intro norm16_mult_cong) (simp add: add.assoc)
  have len: "\<forall>(a, bs) \<in> set q. length bs < 65536" using 2(4) by simp
  show ?case
  proof (cases "odd (length bs)")
    case True
    have sw: "unat (SWAP_BYTES_IN_WORD acc1) = norm16 (256 * (unat acc + lesum bs))"
      using acc1 by (simp add: SWAP_norm norm16_le)
    have IH: "unat acc' \<le> 65535 \<and> norm16 (chain_k sw' * unat acc') =
        norm16 (chain_k (\<not> sw) * (unat (SWAP_BYTES_IN_WORD acc1) + ?rest))"
      using 2(1) [OF acc1_def True _ len] 2(3) True sw norm16_le by (simp add: acc1_def Let_def)
    have "norm16 (norm16 (256 * (unat acc + lesum bs)) + ?rest) =
        norm16 (256 * (unat acc + lesum bs + 256 * ?rest))"
      using norm16_65536_add [of ?rest "256 * (unat acc + lesum bs)"] by (simp add: algebra_simps)
    then have "norm16 (chain_k (\<not> sw) * (unat (SWAP_BYTES_IN_WORD acc1) + ?rest)) =
        norm16 (chain_k (\<not> sw) * (256 * (unat acc + lesum bs + 256 * ?rest)))"
      unfolding sw by (rule norm16_mult_cong)
    then show ?thesis using IH tot True by (simp only: chain_k_swap if_True simp_thms)
  next
    case False
    have IH: "unat acc' \<le> 65535 \<and> norm16 (chain_k sw' * unat acc') =
        norm16 (chain_k sw * (unat acc1 + ?rest))"
      using 2(2) [OF acc1_def False _ len] 2(3) False acc1 norm16_le by (simp add: acc1_def Let_def)
    have "norm16 (chain_k sw * (unat acc1 + ?rest)) = norm16 (chain_k sw * (unat acc + lesum bs + ?rest))"
      unfolding acc1 by (rule norm16_mult_cong) simp
    then show ?thesis using IH tot False by simp
  qed
qed

lemma chain_final:
  assumes "chksum_chain 0 False p = (acc, sw)" "\<forall>(a, bs) \<in> set p. length bs < 65536"
  shows "unat (if sw then SWAP_BYTES_IN_WORD acc else acc) = norm16 (lesum (concat (map snd p)))"
  using chksum_chain_spec [OF assms] by (auto simp: chain_k_def SWAP_norm norm16_small split: if_splits)

lemma ucast_not_low: "ucast (NOT (x AND 0xffff)) = NOT (ucast (x :: u32) :: u16)"
proof -
  have "(0xffff :: u32) = mask 16" by (simp add: mask_eq_exp_minus_1)
  then have "x AND 0xffff = take_bit 16 x" by (simp add: take_bit_eq_mask)
  moreover have "ucast (NOT (take_bit 16 x)) = NOT (ucast x :: u16)"
    by (rule bit_word_eqI) (auto simp: bit_simps)
  ultimately show ?thesis by simp
qed

lemma inet_chksum_pbuf_norm:
  assumes "\<forall>(a, bs) \<in> set p. length bs < 65536"
  shows "inet_chksum_pbuf p = NOT (of_nat (norm16 (lesum (concat (map snd p)))))"
proof -
  obtain acc sw where l: "chksum_chain 0 False p = (acc, sw)" by fastforce
  define x where "x = (if sw then SWAP_BYTES_IN_WORD acc else acc)"
  have "(ucast x :: u16) = of_nat (unat x)" by simp
  then have "ucast x = (of_nat (norm16 (lesum (concat (map snd p)))) :: u16)"
    using chain_final [OF l assms] by (simp only: x_def)
  then show ?thesis
    by (simp only: inet_chksum_pbuf_def l Let_def split_conv x_def [symmetric] ucast_not_low)
qed

lemma inet_chksum_norm:
  assumes "length bs \<le> 0x20000"
  shows "inet_chksum addr bs = NOT (of_nat (norm16 (lesum bs)))"
proof -
  have "lwip_standard_chksum_2 addr bs = of_nat (unat (lwip_standard_chksum_2 addr bs))" by simp
  then show ?thesis unfolding inet_chksum_def chksum_2_norm [OF assms] by simp
qed


subsection \<open>The pseudo header\<close>

text \<open>What the pseudo header adds to the sum.\<close>

definition pseudo_sum :: "u32 \<Rightarrow> u32 \<Rightarrow> u8 \<Rightarrow> u16 \<Rightarrow> nat" where
  "pseudo_sum src dest proto proto_len = unat src mod 65536 + unat src div 65536 +
     unat dest mod 65536 + unat dest div 65536 + 256 * unat proto + unat (lwip_htons proto_len)"

lemma low_half: "unat (x AND 0xffff :: u32) = unat x mod 65536"
proof -
  have "(0xffff :: u32) = mask 16" by (simp add: mask_eq_exp_minus_1)
  then have "x AND 0xffff = take_bit 16 x" by (simp add: take_bit_eq_mask)
  then have "unat (x AND 0xffff) = take_bit 16 (unat x)"
    by (simp only: unsigned_take_bit_eq)
  then show ?thesis by (simp add: take_bit_eq_mod)
qed

lemma high_half: "unat (drop_bit 16 x :: u32) mod 65536 = unat x div 65536"
  using unat_u32_lt [of x] by (simp add: drop_bit_eq_div unat_div)

lemma htons_proto: "unat (lwip_htons (ucast (proto :: u8))) = 256 * unat proto"
  using unat_u8_lt [of proto] by (simp add: unat_lwip_htons unat_ucast_mod)

lemma chksum_pseudo_end_norm:
  assumes "unat acc \<le> 65535"
  shows "chksum_pseudo_end acc src dest proto proto_len =
     NOT (of_nat (norm16 (unat acc + pseudo_sum src dest proto proto_len)))"
proof -
  let ?x = "acc + (src AND 0xffff) + (drop_bit 16 src AND 0xffff) + (dest AND 0xffff) +
      (drop_bit 16 dest AND 0xffff) + ucast (lwip_htons (ucast proto)) + ucast (lwip_htons proto_len)"
  have b: "unat src mod 65536 < 65536" "unat src div 65536 < 65536" "unat dest mod 65536 < 65536"
    "unat dest div 65536 < 65536" "256 * unat proto < 65536" "unat (lwip_htons proto_len) < 65536"
    using unat_u32_lt [of src] unat_u32_lt [of dest] unat_u8_lt [of proto] unat_u16_lt [of "lwip_htons proto_len"]
    by simp_all
  then have "unat ?x = unat acc + pseudo_sum src dest proto proto_len"
    using assms by (simp add: pseudo_sum_def unat_word_ariths unat_ucast_mod low_half high_half htons_proto)
  then have "unat (FOLD_U32T (FOLD_U32T ?x)) = norm16 (unat acc + pseudo_sum src dest proto proto_len)"
    by (simp only: FOLD_twice)
  moreover have "(ucast (FOLD_U32T (FOLD_U32T ?x)) :: u16) = of_nat (unat (FOLD_U32T (FOLD_U32T ?x)))"
    by simp
  ultimately show ?thesis
    unfolding chksum_pseudo_end_def Let_def ucast_not_low by (simp only:)
qed

lemma inet_chksum_pseudo_norm:
  assumes "\<forall>(a, bs) \<in> set p. length bs < 65536"
  shows "inet_chksum_pseudo p src dest proto proto_len =
     NOT (of_nat (norm16 (lesum (concat (map snd p)) + pseudo_sum src dest proto proto_len)))"
proof -
  obtain acc sw where l: "chksum_chain 0 False p = (acc, sw)" by fastforce
  define x where "x = (if sw then SWAP_BYTES_IN_WORD acc else acc)"
  have x: "unat x = norm16 (lesum (concat (map snd p)))"
    using chain_final [OF l assms] by (simp only: x_def)
  then show ?thesis
    unfolding inet_chksum_pseudo_def l Let_def split_conv x_def [symmetric]
    by (subst chksum_pseudo_end_norm) (simp_all only: x norm16_le norm16_add_left)
qed

subsection \<open>The partial checksum\<close>

lemma chksum_chain_partial_spec:
  assumes "\<forall>(a, bs) \<in> set p. length bs < 65536" "unat acc \<le> 65535" "n < 0x7fff"
  shows "\<exists>acc' sw'. chksum_chain_partial acc sw n p = Some (acc', sw') \<and> unat acc' \<le> 65535 \<and>
    norm16 (chain_k sw' * unat acc') =
    norm16 (chain_k sw * (unat acc + lesum (take (unat n) (concat (map snd p)))))"
  using assms
proof (induction acc sw n p rule: chksum_chain_partial.induct)
  case (1 acc sw n)
  then show ?case by simp
next
  case (2 acc sw n addr bs q)
  show ?case
  proof (cases "n > 0")
    case False
    with 2(4) show ?thesis by (simp add: word_less_nat_alt)
  next
    case True
    define k where "k = (if of_nat (length bs) > n then n else of_nat (length bs))"
    have lb: "length bs < 65536" using 2(3) by simp
    have k: "unat k = min (unat n) (length bs)"
      using lb by (auto simp: k_def word_less_nat_alt unat_of_nat_u16 min_def)
    define rest where "rest = lesum (take (unat n - length bs) (concat (map snd q)))"
    define acc1 where "acc1 = FOLD_U32T (acc + ucast (lwip_standard_chksum_2 addr (take (unat k) bs)))"
    define n' where "n' = n - k"
    have kn: "k \<le> n" by (simp add: word_le_nat_alt k)
    have n': "unat n' = unat n - length bs" "n' < 0x7fff"
      using 2(5) kn k by (auto simp: n'_def unat_sub word_less_nat_alt)
    have c: "unat (lwip_standard_chksum_2 addr (take (unat k) bs)) = norm16 (lesum (take (unat k) bs))"
      using lb by (simp add: chksum_2_norm)
    have "unat (acc + ucast (lwip_standard_chksum_2 addr (take (unat k) bs))) = unat acc + norm16 (lesum (take (unat k) bs))"
      using norm16_le [of "lesum (take (unat k) bs)"] 2(4) c by (simp add: unat_word_ariths unat_ucast_mod)
    then have acc1: "unat acc1 = norm16 (unat acc + lesum (take (unat k) bs))"
      using FOLD_once [of "acc + ucast (lwip_standard_chksum_2 addr (take (unat k) bs))"]
        norm16_le [of "lesum (take (unat k) bs)"] 2(4) by (simp add: acc1_def)
    let ?L = "unat acc + lesum (take (unat k) bs)"
    have tot: "norm16 (unat acc + lesum (take (unat n) (concat (map snd ((addr, bs) # q))))) =
        norm16 (?L + (if odd (length bs) then 256 * rest else rest))"
    proof (cases "unat n < length bs")
      case True
      then show ?thesis by (simp add: rest_def k)
    next
      case False
      then have "take (unat n) (bs @ concat (map snd q)) = bs @ take (unat n - length bs) (concat (map snd q))"
        "take (unat k) bs = bs" by (simp_all add: k)
      then show ?thesis
        using norm16_add_cong [OF refl lesum_append [of bs "take (unat n - length bs) (concat (map snd q))"], of "unat acc"]
          norm16_add_cong [OF refl power_256_norm [of "length bs" rest], of "unat acc + lesum bs"]
        by (simp add: add.assoc flip: rest_def)
    qed
    have len: "\<forall>(a, bs) \<in> set q. length bs < 65536" using 2(3) by simp
    have step: "chksum_chain_partial acc sw n ((addr, bs) # q) =
        (if odd (length bs) then chksum_chain_partial (SWAP_BYTES_IN_WORD acc1) (\<not> sw) n' q
         else chksum_chain_partial acc1 sw n' q)"
      using True n'(2) unfolding chksum_chain_partial.simps Let_def k_def [symmetric] acc1_def [symmetric] n'_def [symmetric]
      by simp
    show ?thesis
    proof (cases "odd (length bs)")
      case o: True
      have sw: "unat (SWAP_BYTES_IN_WORD acc1) = norm16 (256 * ?L)"
        using acc1 by (simp add: SWAP_norm norm16_le)
      have "norm16 (norm16 (256 * ?L) + rest) = norm16 (256 * (?L + 256 * rest))"
        using norm16_65536_add [of rest "256 * ?L"] by (simp add: algebra_simps)
      then have "norm16 (chain_k (\<not> sw) * (unat (SWAP_BYTES_IN_WORD acc1) + rest)) =
          norm16 (chain_k (\<not> sw) * (256 * (?L + 256 * rest)))"
        unfolding sw by (rule norm16_mult_cong)
      also have "\<dots> = norm16 (chain_k sw * (unat acc + lesum (take (unat n) (concat (map snd ((addr, bs) # q))))))"
        unfolding chain_k_swap using tot o by (intro norm16_mult_cong) simp
      finally have "norm16 (chain_k (\<not> sw) * (unat (SWAP_BYTES_IN_WORD acc1) + rest)) = \<dots>" .
      moreover have "\<exists>acc' sw'. chksum_chain_partial (SWAP_BYTES_IN_WORD acc1) (\<not> sw) n' q = Some (acc', sw') \<and>
          unat acc' \<le> 65535 \<and> norm16 (chain_k sw' * unat acc') =
          norm16 (chain_k (\<not> sw) * (unat (SWAP_BYTES_IN_WORD acc1) + rest))"
        unfolding rest_def n'(1) [symmetric] acc1_def n'_def k_def
        by (rule 2(1) [OF True refl refl refl _ refl o len])
          (use n' sw norm16_le in \<open>auto simp: acc1_def n'_def k_def\<close>)
      ultimately show ?thesis using o by (simp only: step if_True simp_thms)
    next
      case e: False
      have "norm16 (chain_k sw * (unat acc1 + rest)) =
          norm16 (chain_k sw * (unat acc + lesum (take (unat n) (concat (map snd ((addr, bs) # q))))))"
        using tot e acc1 by (intro norm16_mult_cong) simp
      moreover have "\<exists>acc' sw'. chksum_chain_partial acc1 sw n' q = Some (acc', sw') \<and>
          unat acc' \<le> 65535 \<and> norm16 (chain_k sw' * unat acc') = norm16 (chain_k sw * (unat acc1 + rest))"
        unfolding rest_def n'(1) [symmetric] acc1_def n'_def k_def
        by (rule 2(2) [OF True refl refl refl _ refl e len])
          (use n' acc1 norm16_le in \<open>auto simp: acc1_def n'_def k_def\<close>)
      ultimately show ?thesis using e by (simp only: step if_False simp_thms)
    qed
  qed
qed

lemma inet_chksum_pseudo_partial_norm:
  assumes "\<forall>(a, bs) \<in> set p. length bs < 65536" "n < 0x7fff"
  shows "inet_chksum_pseudo_partial p src dest proto proto_len n =
     Some (NOT (of_nat (norm16 (lesum (take (unat n) (concat (map snd p))) + pseudo_sum src dest proto proto_len))))"
proof -
  from chksum_chain_partial_spec [OF assms(1) _ assms(2), of 0 False] obtain acc sw where
    l: "chksum_chain_partial 0 False n p = Some (acc, sw)" "unat acc \<le> 65535"
    "norm16 (chain_k sw * unat acc) = norm16 (lesum (take (unat n) (concat (map snd p))))"
    by (auto simp: chain_k_def)
  define x where "x = (if sw then SWAP_BYTES_IN_WORD acc else acc)"
  have x: "unat x = norm16 (lesum (take (unat n) (concat (map snd p))))"
    using l(2,3) by (auto simp: x_def chain_k_def SWAP_norm norm16_small split: if_splits)
  show ?thesis
    unfolding inet_chksum_pseudo_partial_def l bind.bind_lunit Let_def split_conv x_def [symmetric]
    by (subst chksum_pseudo_end_norm) (simp_all only: x norm16_le norm16_add_left)
qed


section \<open>Inserting a checksum\<close>

text \<open>A 16-bit field stored at an even offset, in memory order.\<close>

definition u16_bytes :: "u16 \<Rightarrow> u8 list" where
  "u16_bytes w = [ucast w, ucast (drop_bit 8 w)]"

lemma lesum_u16_bytes: "lesum (u16_bytes w) = unat w"
proof -
  have "unat (ucast (drop_bit 8 w) :: u8) = unat w div 256"
    using unat_u16_lt [of w] by (simp add: unat_ucast_mod drop_bit_eq_div unat_div)
  then show ?thesis by (simp add: u16_bytes_def unat_ucast_mod)
qed

lemma lesum_field:
  assumes "even (length xs)"
  shows "norm16 (lesum (xs @ u16_bytes w @ ys)) = norm16 (lesum (xs @ [0, 0] @ ys) + unat w)"
proof -
  have app: "norm16 (lesum (xs @ zs)) = norm16 (lesum xs + lesum zs)" for zs
    using lesum_append [of xs zs] power_256_norm [of "length xs" "lesum zs"] assms
      norm16_add_cong [of "lesum xs" "lesum xs" "256 ^ length xs * lesum zs" "lesum zs"] by simp
  have "lesum (u16_bytes w @ ys) = unat w + lesum ys" "lesum ([0, 0] @ ys) = lesum ys"
    using lesum_u16_bytes [of w] by (simp_all add: u16_bytes_def)
  then have "norm16 (lesum (xs @ u16_bytes w @ ys)) = norm16 (lesum xs + (unat w + lesum ys))"
    "norm16 (lesum (xs @ [0, 0] @ ys)) = norm16 (lesum xs + lesum ys)"
    by (simp_all only: app)
  then show ?thesis
    using norm16_add_cong [of "lesum (xs @ [0, 0] @ ys)" "lesum xs + lesum ys" "unat w" "unat w"]
    by (simp add: ac_simps)
qed

lemma unat_NOT16: "unat (NOT (x :: u16)) = 65535 - unat x"
proof -
  have "NOT x = - 1 - x" by (simp add: not_eq_complement)
  moreover have "unat (- 1 - x) = unat (- 1 :: u16) - unat x" by (rule unat_sub) simp
  ultimately show ?thesis by (simp add: unsigned_minus_1_eq_mask mask_eq_exp_minus_1)
qed

lemma norm16_complement:
  "norm16 (s + unat (NOT (of_nat (norm16 s) :: u16))) = 65535"
proof -
  have u: "unat (of_nat (norm16 s) :: u16) = norm16 s"
    using norm16_le [of s] by (simp add: unat_of_nat_u16)
  have "norm16 (s + (65535 - norm16 s)) = norm16 (norm16 s + (65535 - norm16 s))" by simp
  also have "\<dots> = 65535" using norm16_le [of s] by (simp add: norm16_small)
  finally show ?thesis by (simp add: unat_NOT16 u)
qed

lemma zero_chksum: "norm16 s = 65535 \<Longrightarrow> NOT (of_nat (norm16 s)) = (0 :: u16)"
  by simp

section \<open>Properties\<close>

text \<open>C5: the three versions of \<open>lwip_standard_chksum\<close> compute the same sum of every
  buffer of a length a \<open>u16_t\<close> can give, wherever the buffer starts: the byte-wise big-endian
  loop, the 16-bit loop with its odd-address swap and the unrolled 32-bit loop with its
  end-around carries agree.\<close>

theorem chksum_versions_agree:
  assumes "length bs < 65536"
  shows "lwip_standard_chksum_1 bs = lwip_standard_chksum_2 addr bs \<and>
    lwip_standard_chksum_2 addr bs = lwip_standard_chksum_3 addr' bs"
  using assms by (simp add: word_eq_unat chksum_1_norm chksum_2_norm chksum_3_norm)

theorem chksum_versions_agree_witness:
  "lwip_standard_chksum_2 1 [0x45, 0x00, 0xff] = lwip_standard_chksum_3 6 [0x45, 0x00, 0xff]"
  using chksum_versions_agree [of "[0x45, 0x00, 0xff]" 1 6] by simp

text \<open>C6: the checksum of a pbuf chain does not depend on how the data is split: however many
  pbufs, of odd or even lengths and at any addresses, it is the checksum of the concatenated
  payloads.\<close>

theorem chksum_pbuf_is_flat:
  assumes "\<forall>(a, bs) \<in> set p. length bs < 65536" and "length (concat (map snd p)) \<le> 0x20000"
  shows "inet_chksum_pbuf p = inet_chksum addr (concat (map snd p))"
  using assms by (simp only: inet_chksum_pbuf_norm inet_chksum_norm)

theorem chksum_pbuf_is_flat_witness:
  "inet_chksum_pbuf [(3, [1, 2, 3]), (8, [4]), (5, [5, 6])] = inet_chksum 0 [1, 2, 3, 4, 5, 6]"
  using chksum_pbuf_is_flat [of "[(3, [1, 2, 3]), (8, [4]), (5, [5, 6])]" 0] by simp

text \<open>a header whose checksum field was zero when the checksum was computed, and then
  filled with it, verifies: \<open>inet_chksum\<close> over it is 0, which is what the receiving side
  tests.\<close>

theorem inet_chksum_verifies:
  assumes "even (length xs)" and "length (xs @ [0, 0] @ ys) \<le> 0x20000"
  shows "inet_chksum addr' (xs @ u16_bytes (inet_chksum addr (xs @ [0, 0] @ ys)) @ ys) = 0"
proof -
  let ?s = "lesum (xs @ [0, 0] @ ys)"
  have "length (xs @ u16_bytes w @ ys) \<le> 0x20000" for w
    using assms(2) by (simp add: u16_bytes_def)
  then show ?thesis
    unfolding inet_chksum_norm [OF assms(2)]
    by (simp only: inet_chksum_norm lesum_field [OF assms(1)] norm16_complement) simp
qed

theorem inet_chksum_verifies_witness:
  "inet_chksum 1 ([0x45, 0x00] @ u16_bytes (inet_chksum 0 [0x45, 0x00, 0, 0, 0x11]) @ [0x11]) = 0"
  using inet_chksum_verifies [of "[0x45, 0x00]" "[0x11]" 1 0] by simp

text \<open>C7: the same for a TCP or UDP segment with its pseudo header: if \<open>q\<close> is the chain
  \<open>p\<close> with the checksum stored in the zero field, split into pbufs in any way,
  \<open>inet_chksum_pseudo\<close> over \<open>q\<close> is 0.\<close>

theorem inet_chksum_pseudo_verifies:
  assumes "\<forall>(a, bs) \<in> set p. length bs < 65536" "\<forall>(a, bs) \<in> set q. length bs < 65536"
    and "even (length xs)" and "concat (map snd p) = xs @ [0, 0] @ ys"
    and "concat (map snd q) = xs @ u16_bytes (inet_chksum_pseudo p src dest proto proto_len) @ ys"
  shows "inet_chksum_pseudo q src dest proto proto_len = 0"
proof -
  let ?s = "lesum (xs @ [0, 0] @ ys) + pseudo_sum src dest proto proto_len"
  let ?c = "NOT (of_nat (norm16 ?s)) :: u16"
  have "norm16 (lesum (xs @ u16_bytes ?c @ ys) + pseudo_sum src dest proto proto_len) =
      norm16 (?s + unat ?c)"
    using norm16_add_cong [OF lesum_field [OF assms(3), of ?c ys] refl, of "pseudo_sum src dest proto proto_len"]
    by (simp add: ac_simps)
  then have "norm16 (lesum (xs @ u16_bytes ?c @ ys) + pseudo_sum src dest proto proto_len) = 65535"
    by (simp only: norm16_complement)
  then show ?thesis
    using assms(5) unfolding inet_chksum_pseudo_norm [OF assms(1)] inet_chksum_pseudo_norm [OF assms(2)]
    by (simp only: assms(4)) simp
qed

theorem inet_chksum_pseudo_verifies_witness:
  "let c = inet_chksum_pseudo [(0, [1, 2, 0, 0, 5])] 0x6402a8c0 0x6602a8c0 6 5 in
   inet_chksum_pseudo [(7, [1]), (2, 2 # u16_bytes c), (9, [5])] 0x6402a8c0 0x6602a8c0 6 5 = 0"
  using inet_chksum_pseudo_verifies [of "[(0, [1, 2, 0, 0, 5])]"
    "[(7, [1]), (2, 2 # u16_bytes (inet_chksum_pseudo [(0, [1, 2, 0, 0, 5])] 0x6402a8c0 0x6602a8c0 6 5)), (9, [5])]"
    "[1, 2]" "[5]" "0x6402a8c0" "0x6602a8c0" 6 5]
  by (simp add: u16_bytes_def Let_def)

text \<open>\<open>inet_chksum_pseudo_partial\<close> covers exactly the first \<open>chksum_len\<close> bytes of the
  chain, wherever the last pbuf it looks at is cut, for every coverage below the asserted
  bound 0x7fff.\<close>

theorem pseudo_partial_is_prefix:
  assumes "\<forall>(a, bs) \<in> set p. length bs < 65536" and "chksum_len < 0x7fff"
  shows "inet_chksum_pseudo_partial p src dest proto proto_len chksum_len =
    Some (inet_chksum_pseudo [(addr, take (unat chksum_len) (concat (map snd p)))] src dest proto proto_len)"
proof -
  have "length (take (unat chksum_len) (concat (map snd p))) < 65536"
    using unat_u16_lt [of chksum_len] by simp
  then show ?thesis
    unfolding inet_chksum_pseudo_partial_norm [OF assms] by (subst inet_chksum_pseudo_norm) simp_all
qed

theorem pseudo_partial_is_prefix_witness:
  "inet_chksum_pseudo_partial [(1, [1, 2, 3]), (4, [4, 5])] 7 8 17 13 4 =
    Some (inet_chksum_pseudo [(0, [1, 2, 3, 4])] 7 8 17 13)"
  using pseudo_partial_is_prefix [of "[(1, [1, 2, 3]), (4, [4, 5])]" 4 7 8 17 13 0] by simp

end
