(* ===== verification/TcpTypes.thy ===== *)
theory TcpTypes
  imports PbufAlloc PbufData ByteOrder InetChksum
begin

text \<open>
  The data of the TCP layer: the control blocks and segments of \<open>lwip/tcp.h\<close> and
  \<open>lwip/tcp_impl.h\<close>, the TCP header as the bytes of a packet buffer, sequence number
  comparison and the segment pool. A queue of segments (\<open>unsent\<close>, \<open>unacked\<close>) is the list of
  its segments, each with the pool element it lives in.
\<close>

section \<open>Constants of the build\<close>

definition TCP_MSS :: u16 where "TCP_MSS = 1460"
definition TCP_WND :: u16 where "TCP_WND = 2920"
definition TCP_SND_BUF :: u16 where "TCP_SND_BUF = 2920"
definition TCP_SND_QUEUELEN :: u16 where "TCP_SND_QUEUELEN = 12"
definition TCP_SNDQUEUELEN_OVERFLOW :: u16 where "TCP_SNDQUEUELEN_OVERFLOW = 0xfffc"
definition TCP_OVERSIZE :: nat where "TCP_OVERSIZE = 1460"
definition TCP_TTL :: u8 where "TCP_TTL = 255"
definition IP_PROTO_TCP :: u8 where "IP_PROTO_TCP = 6"
definition TCP_HLEN :: u16 where "TCP_HLEN = 20"

lemmas [c_def] = TCP_MSS_def TCP_WND_def TCP_SND_BUF_def TCP_SND_QUEUELEN_def
  TCP_SNDQUEUELEN_OVERFLOW_def TCP_OVERSIZE_def TCP_TTL_def IP_PROTO_TCP_def TCP_HLEN_def

definition TCP_FIN :: u8 where "TCP_FIN = 0x01"
definition TCP_SYN :: u8 where "TCP_SYN = 0x02"
definition TCP_RST :: u8 where "TCP_RST = 0x04"
definition TCP_PSH :: u8 where "TCP_PSH = 0x08"
definition TCP_ACK :: u8 where "TCP_ACK = 0x10"
definition TCP_FLAGS :: u16 where "TCP_FLAGS = 0x3f"

definition TF_ACK_DELAY :: u8 where "TF_ACK_DELAY = 0x01"
definition TF_ACK_NOW :: u8 where "TF_ACK_NOW = 0x02"
definition TF_INFR :: u8 where "TF_INFR = 0x04"
definition TF_RXCLOSED :: u8 where "TF_RXCLOSED = 0x10"
definition TF_FIN :: u8 where "TF_FIN = 0x20"
definition TF_NODELAY :: u8 where "TF_NODELAY = 0x40"
definition TF_NAGLEMEMERR :: u8 where "TF_NAGLEMEMERR = 0x80"

definition TF_SEG_OPTS_MSS :: u8 where "TF_SEG_OPTS_MSS = 0x01"
definition TF_SEG_OPTS_TS :: u8 where "TF_SEG_OPTS_TS = 0x02"

definition TCP_WRITE_FLAG_COPY :: u8 where "TCP_WRITE_FLAG_COPY = 0x01"
definition TCP_WRITE_FLAG_MORE :: u8 where "TCP_WRITE_FLAG_MORE = 0x02"

named_theorems tcp_flag "the values of the flag bits"

lemmas [tcp_flag] = TCP_FIN_def TCP_SYN_def TCP_RST_def TCP_PSH_def TCP_ACK_def TCP_FLAGS_def
  TF_ACK_DELAY_def TF_ACK_NOW_def TF_INFR_def TF_RXCLOSED_def TF_FIN_def TF_NODELAY_def
  TF_NAGLEMEMERR_def TF_SEG_OPTS_MSS_def TF_SEG_OPTS_TS_def TCP_WRITE_FLAG_COPY_def
  TCP_WRITE_FLAG_MORE_def

section \<open>Data\<close>

datatype tcp_state = CLOSED | LISTEN | SYN_SENT | SYN_RCVD | ESTABLISHED | FIN_WAIT_1 | FIN_WAIT_2
  | CLOSE_WAIT | CLOSING | LAST_ACK | TIME_WAIT

text \<open>The signed 16-bit fields are words read with \<^const>\<open>sint\<close>.\<close>

type_synonym s16 = "16 word"

record tcp_seg =
  sg_addr :: nat
  sg_p :: "addr option"
  sg_len :: u16
  sg_oversize_left :: u16
  sg_flags :: u8
  sg_tcphdr :: ptr

text \<open>\<open>struct tcp_pcb\<close>; \<open>'f\<close> is the type of the callback functions.\<close>

record 'f tcp_pcb =
  t_local_ip :: u32
  t_remote_ip :: u32
  t_so_options :: u8
  t_tos :: u8
  t_ttl :: u8
  t_callback_arg :: "nat option"
  t_accept :: "'f option"
  t_state :: tcp_state
  t_prio :: u8
  t_local_port :: u16
  t_remote_port :: u16
  t_flags :: u8
  t_polltmr :: u8
  t_pollinterval :: u8
  t_last_timer :: u8
  t_tmr :: u32
  t_rcv_nxt :: u32
  t_rcv_wnd :: u16
  t_rcv_ann_wnd :: u16
  t_rcv_ann_right_edge :: u32
  t_rtime :: s16
  t_mss :: u16
  t_rttest :: u32
  t_rtseq :: u32
  t_sa :: s16
  t_sv :: s16
  t_rto :: s16
  t_nrtx :: u8
  t_dupacks :: u8
  t_lastack :: u32
  t_cwnd :: u16
  t_ssthresh :: u16
  t_snd_nxt :: u32
  t_snd_wl1 :: u32
  t_snd_wl2 :: u32
  t_snd_lbb :: u32
  t_snd_wnd :: u16
  t_snd_wnd_max :: u16
  t_acked :: u16
  t_snd_buf :: u16
  t_snd_queuelen :: u16
  t_unsent_oversize :: u16
  t_unsent :: "tcp_seg list"
  t_unacked :: "tcp_seg list"
  t_refused_data :: "addr option"
  t_sent :: "'f option"
  t_recv :: "'f option"
  t_connected :: "'f option"
  t_poll :: "'f option"
  t_errf :: "'f option"
  t_keep_idle :: u32
  t_persist_cnt :: u8
  t_persist_backoff :: u8
  t_keep_cnt_sent :: u8

text \<open>
  A control block after \<open>memset(pcb, 0, sizeof(struct tcp_pcb))\<close>, and what \<open>tcp_alloc\<close> fills in:
  the retransmission times are in ticks of 500 ms.
\<close>

definition pcb_zero :: "'f tcp_pcb" where
  "pcb_zero = \<lparr> t_local_ip = 0, t_remote_ip = 0, t_so_options = 0, t_tos = 0, t_ttl = 0,
     t_callback_arg = None, t_accept = None, t_state = CLOSED, t_prio = 0, t_local_port = 0,
     t_remote_port = 0, t_flags = 0, t_polltmr = 0, t_pollinterval = 0, t_last_timer = 0, t_tmr = 0,
     t_rcv_nxt = 0, t_rcv_wnd = 0, t_rcv_ann_wnd = 0, t_rcv_ann_right_edge = 0, t_rtime = 0,
     t_mss = 0, t_rttest = 0, t_rtseq = 0, t_sa = 0, t_sv = 0, t_rto = 0, t_nrtx = 0, t_dupacks = 0,
     t_lastack = 0, t_cwnd = 0, t_ssthresh = 0, t_snd_nxt = 0, t_snd_wl1 = 0, t_snd_wl2 = 0,
     t_snd_lbb = 0, t_snd_wnd = 0, t_snd_wnd_max = 0, t_acked = 0, t_snd_buf = 0, t_snd_queuelen = 0,
     t_unsent_oversize = 0, t_unsent = [], t_unacked = [], t_refused_data = None, t_sent = None,
     t_recv = None, t_connected = None, t_poll = None, t_errf = None, t_keep_idle = 0,
     t_persist_cnt = 0, t_persist_backoff = 0, t_keep_cnt_sent = 0 \<rparr>"

definition tcp_pcb_init :: "u8 \<Rightarrow> u32 \<Rightarrow> u32 \<Rightarrow> u8 \<Rightarrow> 'f \<Rightarrow> 'f tcp_pcb" where
  "tcp_pcb_init prio iss ticks ctr recv = pcb_zero\<lparr> t_prio := prio, t_snd_buf := TCP_SND_BUF,
     t_snd_queuelen := 0, t_rcv_wnd := TCP_WND, t_rcv_ann_wnd := TCP_WND, t_tos := 0, t_ttl := TCP_TTL,
     t_mss := (if TCP_MSS > 536 then 536 else TCP_MSS), t_rto := 6, t_sa := 0, t_sv := 6, t_rtime := - 1,
     t_cwnd := 1, t_snd_wl2 := iss, t_snd_nxt := iss, t_lastack := iss, t_snd_lbb := iss,
     t_tmr := ticks, t_last_timer := ctr, t_polltmr := 0, t_recv := Some recv,
     t_keep_idle := 7200000, t_keep_cnt_sent := 0 \<rparr>"

text \<open>
  What TCP uses of the layers below: the route to an address gives a network interface (its
  address and MTU), \<open>ip_output\<close> sends a packet. Both are parameters over a state \<open>'w\<close> of their
  own; \<open>te_phys\<close> is the placement of the objects in memory, of which the checksum sees the parity.
\<close>

record netif =
  nif_ip_addr :: u32
  nif_mtu :: u16

record 'w low =
  l_net :: net
  l_ip :: 'w

record 'w tcp_env =
  te_cff :: "addr \<Rightarrow> net \<Rightarrow> net option"
  te_phys :: "ptr \<Rightarrow> nat"
  te_route :: "u32 \<Rightarrow> 'w \<Rightarrow> netif option"
  te_output :: "addr \<Rightarrow> u32 \<Rightarrow> u32 \<Rightarrow> u8 \<Rightarrow> u8 \<Rightarrow> u8 \<Rightarrow> 'w low \<Rightarrow> 'w low option"

text \<open>An operation that only touches the packet memory.\<close>

definition on_net :: "(net \<Rightarrow> ('a \<times> net) option) \<Rightarrow> 'w low \<Rightarrow> ('a \<times> 'w low) option" where
  "on_net f s = do { (x, n) \<leftarrow> f (l_net s); Some (x, s\<lparr>l_net := n\<rparr>) }"

definition on_net1 :: "(net \<Rightarrow> net option) \<Rightarrow> 'w low \<Rightarrow> 'w low option" where
  "on_net1 f s = do { n \<leftarrow> f (l_net s); Some (s\<lparr>l_net := n\<rparr>) }"

section \<open>Sequence numbers\<close>

definition TCP_SEQ_LT :: "u32 \<Rightarrow> u32 \<Rightarrow> bool" where "TCP_SEQ_LT a b \<longleftrightarrow> sint (a - b) < 0"
definition TCP_SEQ_LEQ :: "u32 \<Rightarrow> u32 \<Rightarrow> bool" where "TCP_SEQ_LEQ a b \<longleftrightarrow> sint (a - b) \<le> 0"
definition TCP_SEQ_GT :: "u32 \<Rightarrow> u32 \<Rightarrow> bool" where "TCP_SEQ_GT a b \<longleftrightarrow> sint (a - b) > 0"
definition TCP_SEQ_GEQ :: "u32 \<Rightarrow> u32 \<Rightarrow> bool" where "TCP_SEQ_GEQ a b \<longleftrightarrow> sint (a - b) \<ge> 0"

definition TCP_SEQ_BETWEEN :: "u32 \<Rightarrow> u32 \<Rightarrow> u32 \<Rightarrow> bool" where
  "TCP_SEQ_BETWEEN a b c \<longleftrightarrow> TCP_SEQ_GEQ a b \<and> TCP_SEQ_LEQ a c"

section \<open>The header in memory\<close>

text \<open>Loads and stores of the little-endian machine.\<close>

definition ld16 :: "net \<Rightarrow> ptr \<Rightarrow> u16 option" where
  "ld16 s p = map_option (\<lambda>bs. ucast (le16 (bs ! 0) (bs ! 1))) (mem_read s p 2)"

definition ld32 :: "net \<Rightarrow> ptr \<Rightarrow> u32 option" where
  "ld32 s p = map_option (\<lambda>bs. le32 (bs ! 0) (bs ! 1) (bs ! 2) (bs ! 3)) (mem_read s p 4)"

definition st16 :: "ptr \<Rightarrow> u16 \<Rightarrow> net \<Rightarrow> net option" where
  "st16 p v s = mem_write s p [ucast v, ucast (drop_bit 8 v)]"

definition st32 :: "ptr \<Rightarrow> u32 \<Rightarrow> net \<Rightarrow> net option" where
  "st32 p v s = mem_write s p
     [ucast v, ucast (drop_bit 8 v), ucast (drop_bit 16 v), ucast (drop_bit 24 v)]"

text \<open>The fields of \<open>struct tcp_hdr\<close>, by their offset.\<close>

abbreviation "h_src h \<equiv> ptr_add h 0"
abbreviation "h_dest h \<equiv> ptr_add h 2"
abbreviation "h_seqno h \<equiv> ptr_add h 4"
abbreviation "h_ackno h \<equiv> ptr_add h 8"
abbreviation "h_hrf h \<equiv> ptr_add h 12"
abbreviation "h_wnd h \<equiv> ptr_add h 14"
abbreviation "h_chksum h \<equiv> ptr_add h 16"
abbreviation "h_urgp h \<equiv> ptr_add h 18"

definition TCPH_HDRLEN :: "net \<Rightarrow> ptr \<Rightarrow> u16 option" where
  "TCPH_HDRLEN s h = do { x \<leftarrow> ld16 s (h_hrf h); Some (drop_bit 12 (lwip_ntohs x)) }"

definition TCPH_FLAGS :: "net \<Rightarrow> ptr \<Rightarrow> u8 option" where
  "TCPH_FLAGS s h = do { x \<leftarrow> ld16 s (h_hrf h); Some (ucast (lwip_ntohs x AND TCP_FLAGS)) }"

definition TCPH_FLAGS_SET :: "ptr \<Rightarrow> u8 \<Rightarrow> net \<Rightarrow> net option" where
  "TCPH_FLAGS_SET h fl s = do {
     x \<leftarrow> ld16 s (h_hrf h);
     st16 (h_hrf h) ((x AND lwip_htons (NOT TCP_FLAGS)) OR lwip_htons (ucast fl)) s }"

definition TCPH_HDRLEN_FLAGS_SET :: "ptr \<Rightarrow> u16 \<Rightarrow> u8 \<Rightarrow> net \<Rightarrow> net option" where
  "TCPH_HDRLEN_FLAGS_SET h len fl s = st16 (h_hrf h) (lwip_htons (push_bit 12 len OR ucast fl)) s"

definition TCPH_SET_FLAG :: "ptr \<Rightarrow> u8 \<Rightarrow> net \<Rightarrow> net option" where
  "TCPH_SET_FLAG h fl s = do {
     x \<leftarrow> ld16 s (h_hrf h);
     st16 (h_hrf h) (x OR lwip_htons (ucast fl)) s }"

text \<open>\<open>ntohl(seg->tcphdr->seqno)\<close> and \<open>TCP_TCPLEN(seg)\<close>\<close>

definition seg_seqno :: "net \<Rightarrow> tcp_seg \<Rightarrow> u32 option" where
  "seg_seqno s g = map_option lwip_ntohl (ld32 s (h_seqno (sg_tcphdr g)))"

definition TCP_TCPLEN :: "net \<Rightarrow> tcp_seg \<Rightarrow> u32 option" where
  "TCP_TCPLEN s g = do {
     fl \<leftarrow> TCPH_FLAGS s (sg_tcphdr g);
     Some (ucast (sg_len g) + (if fl AND (TCP_FIN OR TCP_SYN) \<noteq> 0 then 1 else 0)) }"

definition LWIP_TCP_OPT_LENGTH :: "u8 \<Rightarrow> u8" where
  "LWIP_TCP_OPT_LENGTH fl =
     (if fl AND TF_SEG_OPTS_MSS \<noteq> 0 then 4 else 0) + (if fl AND TF_SEG_OPTS_TS \<noteq> 0 then 12 else 0)"

definition TCP_BUILD_MSS_OPTION :: "u16 \<Rightarrow> u32" where
  "TCP_BUILD_MSS_OPTION m = lwip_htonl (0x02040000 OR ucast m)"

text \<open>The payloads of a chain as the checksum routine walks them.\<close>

partial_function (option) chksum_input ::
  "(ptr \<Rightarrow> nat) \<Rightarrow> net \<Rightarrow> addr option \<Rightarrow> (nat \<times> u8 list) list option" where
  "chksum_input ph s p = (case p of None \<Rightarrow> Some []
     | Some a \<Rightarrow> Option.bind (pbufs s a) (\<lambda>b. Option.bind (pb_payload b) (\<lambda>q.
         Option.bind (mem_read s q (unat (pb_len b))) (\<lambda>bs.
           Option.bind (chksum_input ph s (pb_next b)) (\<lambda>r. Some ((ph q, bs) # r))))))"

text \<open>\<open>tcphdr->chksum = inet_chksum_pseudo(p, src, dest, IP_PROTO_TCP, p->tot_len)\<close>\<close>

definition set_tcp_chksum :: "'w tcp_env \<Rightarrow> ptr \<Rightarrow> addr \<Rightarrow> u32 \<Rightarrow> u32 \<Rightarrow> net \<Rightarrow> net option" where
  "set_tcp_chksum E h p src dest s = do {
     b \<leftarrow> pbufs s p;
     bs \<leftarrow> chksum_input (te_phys E) s (Some p);
     st16 (h_chksum h) (inet_chksum_pseudo bs src dest IP_PROTO_TCP (pb_tot_len b)) s }"

section \<open>Segments\<close>

definition tcp_seg_free ::
  "(addr \<Rightarrow> net \<Rightarrow> net option) \<Rightarrow> tcp_seg \<Rightarrow> net \<Rightarrow> net option" where
  "tcp_seg_free cff g s = do {
     s \<leftarrow> (if sg_p g \<noteq> None then do { (_, s) \<leftarrow> pbuf_free cff (sg_p g) s; Some s } else Some s);
     mp \<leftarrow> memp_free MEMP_TCP_SEG (Some (sg_addr g)) (n_memp s);
     Some (s\<lparr>n_memp := mp\<rparr>) }"

fun tcp_segs_free ::
  "(addr \<Rightarrow> net \<Rightarrow> net option) \<Rightarrow> tcp_seg list \<Rightarrow> net \<Rightarrow> net option" where
  "tcp_segs_free cff [] s = Some s"
| "tcp_segs_free cff (g # segs) s = Option.bind (tcp_seg_free cff g s) (tcp_segs_free cff segs)"

text \<open>The size of the segments sent on a route is bounded by the MTU of its interface.\<close>

definition tcp_eff_send_mss :: "'w tcp_env \<Rightarrow> u16 \<Rightarrow> u32 \<Rightarrow> 'w \<Rightarrow> u16" where
  "tcp_eff_send_mss E sendmss a w = (case te_route E a w of None \<Rightarrow> sendmss
     | Some n \<Rightarrow> if nif_mtu n \<noteq> 0 then min sendmss (nif_mtu n - 20 - TCP_HLEN) else sendmss)"

end
