(* ===== verification/TcpOut.thy ===== *)
theory TcpOut
  imports TcpTypes
begin

text \<open>
  \<open>core/tcp_out.c\<close>: segments are built and queued by \<open>tcp_write\<close> and \<open>tcp_enqueue_flags\<close>, sent
  by \<open>tcp_output\<close>, requeued by the retransmission functions; empty acknowledgements, resets and
  probes are sent directly. A function works on the control block it is given and on the state
  of the layers below.
\<close>

type_synonym cff_fn = "addr \<Rightarrow> net \<Rightarrow> net option"

section \<open>Headers\<close>

definition set_hdr_common ::
  "ptr \<Rightarrow> u16 \<Rightarrow> u16 \<Rightarrow> u32 \<Rightarrow> net \<Rightarrow> net option" where
  "set_hdr_common h src dest seqno_be s = do {
     s \<leftarrow> st16 (h_src h) (lwip_htons src) s;
     s \<leftarrow> st16 (h_dest h) (lwip_htons dest) s;
     st32 (h_seqno h) seqno_be s }"

definition tcp_output_alloc_header ::
  "cff_fn \<Rightarrow> 'f tcp_pcb \<Rightarrow> u16 \<Rightarrow> u16 \<Rightarrow> u32 \<Rightarrow> net \<Rightarrow> ((addr \<times> ptr) option \<times> 'f tcp_pcb \<times> net) option" where
  "tcp_output_alloc_header cff pcb optlen datalen seqno_be s = do {
     (p, s) \<leftarrow> pbuf_alloc cff PBUF_IP (TCP_HLEN + optlen + datalen) PBUF_RAM s;
     case p of None \<Rightarrow> Some (None, pcb, s)
     | Some p \<Rightarrow> do {
         b \<leftarrow> pbufs s p;
         c_assert (unat (pb_len b) \<ge> unat TCP_HLEN + unat optlen);
         h \<leftarrow> pb_payload b;
         s \<leftarrow> set_hdr_common h (t_local_port pcb) (t_remote_port pcb) seqno_be s;
         s \<leftarrow> st32 (h_ackno h) (lwip_htonl (t_rcv_nxt pcb)) s;
         s \<leftarrow> TCPH_HDRLEN_FLAGS_SET h (5 + optlen div 4) TCP_ACK s;
         s \<leftarrow> st16 (h_wnd h) (lwip_htons (t_rcv_ann_wnd pcb)) s;
         s \<leftarrow> st16 (h_chksum h) 0 s;
         s \<leftarrow> st16 (h_urgp h) 0 s;
         Some (Some (p, h), pcb\<lparr>t_rcv_ann_right_edge := t_rcv_nxt pcb + ucast (t_rcv_ann_wnd pcb)\<rparr>, s) } }"

text \<open>The segment is filled in except for acknowledgement, window and checksum.\<close>

definition tcp_create_segment ::
  "cff_fn \<Rightarrow> 'f tcp_pcb \<Rightarrow> addr \<Rightarrow> u8 \<Rightarrow> u32 \<Rightarrow> u8 \<Rightarrow> net \<Rightarrow> (tcp_seg option \<times> net) option" where
  "tcp_create_segment cff pcb p fl seqno optflags s = (
     let optlen = LWIP_TCP_OPT_LENGTH optflags in do {
       (x, mp) \<leftarrow> memp_malloc MEMP_TCP_SEG (n_memp s);
       let s = s\<lparr>n_memp := mp\<rparr>;
       case x of
         None \<Rightarrow> do { (_, s) \<leftarrow> pbuf_free cff (Some p) s; Some (None, s) }
       | Some x \<Rightarrow> do {
           b \<leftarrow> pbufs s p;
           let g = \<lparr>sg_addr = x, sg_p = Some p, sg_len = pb_tot_len b - ucast optlen,
                      sg_oversize_left = 0, sg_flags = optflags, sg_tcphdr = (p, 0)\<rparr>;
           (r, s) \<leftarrow> pbuf_header (Some p) (TCP_HLEN) s;
           if r \<noteq> 0 then do { s \<leftarrow> tcp_seg_free cff g s; Some (None, s) }
           else do {
             b \<leftarrow> pbufs s p;
             h \<leftarrow> pb_payload b;
             s \<leftarrow> set_hdr_common h (t_local_port pcb) (t_remote_port pcb) (lwip_htonl seqno) s;
             s \<leftarrow> TCPH_HDRLEN_FLAGS_SET h (5 + ucast optlen div 4) fl s;
             s \<leftarrow> st16 (h_urgp h) 0 s;
             Some (Some (g\<lparr>sg_tcphdr := h\<rparr>), s) } } })"

section \<open>Queueing data\<close>

text \<open>
  The pbuf for \<open>len\<close> bytes, with room for more when more is likely to be added. The result is the
  pbuf and the number of spare bytes.
\<close>

definition prealloc_size :: "u16 \<Rightarrow> u16 \<Rightarrow> 'f tcp_pcb \<Rightarrow> u8 \<Rightarrow> bool \<Rightarrow> u16" where
  "prealloc_size len max_length pcb apiflags first_seg =
     (if len < max_length \<and> (apiflags AND TCP_WRITE_FLAG_MORE \<noteq> 0 \<or>
          (t_flags pcb AND TF_NODELAY = 0 \<and>
           (\<not> first_seg \<or> t_unsent pcb \<noteq> [] \<or> t_unacked pcb \<noteq> [])))
      then of_nat (min (unat max_length) (align4 (unat len + TCP_OVERSIZE)))
      else len)"

definition tcp_pbuf_prealloc ::
  "cff_fn \<Rightarrow> pbuf_layer \<Rightarrow> u16 \<Rightarrow> u16 \<Rightarrow> 'f tcp_pcb \<Rightarrow> u8 \<Rightarrow> bool \<Rightarrow> net \<Rightarrow>
     ((addr \<times> u16) option \<times> net) option" where
  "tcp_pbuf_prealloc cff layer len max_length pcb apiflags first_seg s = do {
     (p, s) \<leftarrow> pbuf_alloc cff layer (prealloc_size len max_length pcb apiflags first_seg) PBUF_RAM s;
     case p of None \<Rightarrow> Some (None, s)
     | Some p \<Rightarrow> do {
         b \<leftarrow> pbufs s p;
         c_assert (pb_next b = None);
         Some (Some (p, pb_len b - len), put_pbuf p (b\<lparr>pb_len := len, pb_tot_len := len\<rparr>) s) } }"

definition tcp_write_checks :: "'f tcp_pcb \<Rightarrow> u16 \<Rightarrow> (err_t \<times> 'f tcp_pcb) option" where
  "tcp_write_checks pcb len =
     (if t_state pcb \<noteq> ESTABLISHED \<and> t_state pcb \<noteq> CLOSE_WAIT \<and> t_state pcb \<noteq> SYN_SENT \<and>
         t_state pcb \<noteq> SYN_RCVD then Some (ERR_CONN, pcb)
      else if len = 0 then Some (ERR_OK, pcb)
      else if len > t_snd_buf pcb then Some (ERR_MEM, pcb\<lparr>t_flags := t_flags pcb OR TF_NAGLEMEMERR\<rparr>)
      else if t_snd_queuelen pcb \<ge> TCP_SND_QUEUELEN \<or> t_snd_queuelen pcb > TCP_SNDQUEUELEN_OVERFLOW
        then Some (ERR_MEM, pcb\<lparr>t_flags := t_flags pcb OR TF_NAGLEMEMERR\<rparr>)
      else do {
        c_assert (if t_snd_queuelen pcb \<noteq> 0 then t_unacked pcb \<noteq> [] \<or> t_unsent pcb \<noteq> []
                  else t_unacked pcb = [] \<and> t_unsent pcb = []);
        Some (ERR_OK, pcb) })"

text \<open>
  The local variables of \<open>tcp_write\<close> that its phases hand on: the position in the data, the spare
  room of the last segment, the bytes to be put in the room of the old last segment, the length of
  the queue, the pbuf to be chained to the old last segment, the new segments, and whether \<open>seg\<close>
  is the old last segment.
\<close>

record wr_loc =
  w_pos :: u16
  w_oversize :: u16
  w_oversize_used :: u16
  w_queuelen :: u16
  w_concat :: "addr option"
  w_queue :: "tcp_seg list"
  w_seg_last :: bool

text \<open>Release of what was built so far, at \<open>memerr\<close>.\<close>

definition wr_memerr ::
  "cff_fn \<Rightarrow> 'f tcp_pcb \<Rightarrow> wr_loc \<Rightarrow> net \<Rightarrow> (err_t \<times> 'f tcp_pcb \<times> net) option" where
  "wr_memerr cff pcb w s = do {
     let pcb = pcb\<lparr>t_flags := t_flags pcb OR TF_NAGLEMEMERR\<rparr>;
     s \<leftarrow> (case w_concat w of None \<Rightarrow> Some s
          | Some c \<Rightarrow> do { (_, s) \<leftarrow> pbuf_free cff (Some c) s; Some s });
     s \<leftarrow> tcp_segs_free cff (w_queue w) s;
     c_assert (t_snd_queuelen pcb \<noteq> 0 \<longrightarrow> t_unacked pcb \<noteq> [] \<or> t_unsent pcb \<noteq> []);
     Some (ERR_MEM, pcb, s) }"

text \<open>The tail of the unsent queue is replaced when one of its fields changes.\<close>

definition put_last :: "tcp_seg \<Rightarrow> 'f tcp_pcb \<Rightarrow> 'f tcp_pcb" where
  "put_last g pcb = pcb\<lparr>t_unsent := butlast (t_unsent pcb) @ [g]\<rparr>"

text \<open>\<open>MEMCPY\<close> from the caller's memory.\<close>

definition copy_data :: "ptr \<Rightarrow> ptr \<Rightarrow> u16 \<Rightarrow> net \<Rightarrow> net option" where
  "copy_data dst src n s = do { bs \<leftarrow> mem_read s src (unat n); mem_write s dst bs }"

definition wr_phase1 :: "tcp_seg \<Rightarrow> 'f tcp_pcb \<Rightarrow> u16 \<Rightarrow> wr_loc \<Rightarrow> wr_loc option" where
  "wr_phase1 last_unsent pcb len w = do {
     c_assert (t_unsent_oversize pcb = sg_oversize_left last_unsent);
     let oversize = t_unsent_oversize pcb;
     let used = (if oversize > 0 then min oversize len else 0);
     let w = w\<lparr>w_pos := w_pos w + used, w_oversize := oversize - used, w_oversize_used := used,
               w_seg_last := oversize > 0\<rparr>;
     c_assert (w_oversize w = 0 \<or> w_pos w = len);
     Some w }"

text \<open>
  A pbuf for the rest of the last segment. The result is \<open>None\<close> for \<open>goto memerr\<close>.
\<close>

definition wr_phase2 ::
  "cff_fn \<Rightarrow> ptr \<Rightarrow> u16 \<Rightarrow> u8 \<Rightarrow> u16 \<Rightarrow> tcp_seg \<Rightarrow> 'f tcp_pcb \<Rightarrow> wr_loc \<Rightarrow> net \<Rightarrow>
     (wr_loc option \<times> 'f tcp_pcb \<times> net) option" where
  "wr_phase2 cff arg len apiflags mss_local last_unsent pcb w s = (
     let space = mss_local - (sg_len last_unsent + ucast (LWIP_TCP_OPT_LENGTH (sg_flags last_unsent)))
                 - w_oversize_used w in
     if w_pos w < len \<and> space > 0 \<and> sg_len last_unsent > 0 then
       let seglen = min space (len - w_pos w); w = w\<lparr>w_seg_last := True\<rparr> in do {
         (r, pcb, oversize, s) \<leftarrow>
           (if apiflags AND TCP_WRITE_FLAG_COPY \<noteq> 0 then do {
              (r, s) \<leftarrow> tcp_pbuf_prealloc cff PBUF_RAW seglen space pcb apiflags True s;
              case r of None \<Rightarrow> Some (None, pcb, w_oversize w, s)
              | Some (c, oversize) \<Rightarrow> do {
                  b \<leftarrow> pbufs s c;
                  q \<leftarrow> pb_payload b;
                  s \<leftarrow> copy_data q (ptr_add arg (unat (w_pos w))) seglen s;
                  Some (Some c, put_last (last_unsent\<lparr>sg_oversize_left := sg_oversize_left last_unsent + oversize\<rparr>) pcb,
                        oversize, s) } }
            else do {
              (r, s) \<leftarrow> pbuf_alloc cff PBUF_RAW seglen PBUF_ROM s;
              case r of None \<Rightarrow> Some (None, pcb, w_oversize w, s)
              | Some c \<Rightarrow> do {
                  b \<leftarrow> pbufs s c;
                  Some (Some c, pcb, w_oversize w,
                        put_pbuf c (b\<lparr>pb_payload := Some (ptr_add arg (unat (w_pos w)))\<rparr>) s) } });
         case r of None \<Rightarrow> Some (None, pcb, s)
         | Some c \<Rightarrow> do {
             n \<leftarrow> pbuf_clen (Some c) s;
             Some (Some (w\<lparr>w_pos := w_pos w + seglen, w_oversize := oversize,
                           w_queuelen := w_queuelen w + ucast n, w_concat := Some c\<rparr>), pcb, s) } }
     else Some (Some w, pcb, s))"

text \<open>
  One round of the loop for new segments: the pbuf with the data of the segment and its spare room.
  \<open>optlen\<close> is 0 without timestamps.
\<close>

definition wr_seg_pbuf ::
  "cff_fn \<Rightarrow> ptr \<Rightarrow> u8 \<Rightarrow> u16 \<Rightarrow> u16 \<Rightarrow> 'f tcp_pcb \<Rightarrow> wr_loc \<Rightarrow> net \<Rightarrow> ((addr \<times> u16) option \<times> net) option" where
  "wr_seg_pbuf cff arg apiflags mss_local seglen pcb w s =
     (if apiflags AND TCP_WRITE_FLAG_COPY \<noteq> 0 then do {
        (r, s) \<leftarrow> tcp_pbuf_prealloc cff PBUF_TRANSPORT seglen mss_local pcb apiflags (w_queue w = []) s;
        case r of None \<Rightarrow> Some (None, s)
        | Some (p, oversize) \<Rightarrow> do {
            b \<leftarrow> pbufs s p;
            c_assert (pb_len b \<ge> seglen);
            q \<leftarrow> pb_payload b;
            s \<leftarrow> copy_data q (ptr_add arg (unat (w_pos w))) seglen s;
            Some (Some (p, oversize), s) } }
      else do {
        c_assert (w_oversize w = 0);
        (p2, s) \<leftarrow> pbuf_alloc cff PBUF_TRANSPORT seglen PBUF_ROM s;
        case p2 of None \<Rightarrow> Some (None, s)
        | Some p2 \<Rightarrow> do {
            b2 \<leftarrow> pbufs s p2;
            let s = put_pbuf p2 (b2\<lparr>pb_payload := Some (ptr_add arg (unat (w_pos w)))\<rparr>) s;
            (p, s) \<leftarrow> pbuf_alloc cff PBUF_TRANSPORT 0 PBUF_RAM s;
            case p of None \<Rightarrow> do { (_, s) \<leftarrow> pbuf_free cff (Some p2) s; Some (None, s) }
            | Some p \<Rightarrow> do {
                s \<leftarrow> pbuf_cat (Some p) (Some p2) s;
                Some (Some (p, w_oversize w), s) } } })"

partial_function (option) wr_phase3 ::
  "cff_fn \<Rightarrow> ptr \<Rightarrow> u16 \<Rightarrow> u8 \<Rightarrow> u16 \<Rightarrow> 'f tcp_pcb \<Rightarrow> wr_loc \<Rightarrow> net \<Rightarrow> (bool \<times> wr_loc \<times> net) option" where
  "wr_phase3 cff arg len apiflags mss_local pcb w s =
     (if w_pos w < len then
        let seglen = min (len - w_pos w) mss_local in
        Option.bind (wr_seg_pbuf cff arg apiflags mss_local seglen pcb w s) (\<lambda>(r, s).
          case r of None \<Rightarrow> Some (False, w, s)
          | Some (p, oversize) \<Rightarrow>
              Option.bind (pbuf_clen (Some p) s) (\<lambda>n.
                let queuelen = w_queuelen w + ucast n; w = w\<lparr>w_oversize := oversize\<rparr> in
                if queuelen > TCP_SND_QUEUELEN \<or> queuelen > TCP_SNDQUEUELEN_OVERFLOW then
                  Option.bind (pbuf_free cff (Some p) s) (\<lambda>(_, s). Some (False, w, s))
                else
                  Option.bind (tcp_create_segment cff pcb p 0 (t_snd_lbb pcb + ucast (w_pos w)) 0 s) (\<lambda>(r, s).
                    case r of None \<Rightarrow> Some (False, w, s)
                    | Some g \<Rightarrow>
                        wr_phase3 cff arg len apiflags mss_local pcb
                          (w\<lparr>w_pos := w_pos w + seglen, w_queuelen := queuelen,
                             w_queue := w_queue w @ [g\<lparr>sg_oversize_left := oversize\<rparr>]\<rparr>) s)))
      else Some (True, w, s))"

text \<open>The lengths along the chain and the bytes at its tail when the spare room is used.\<close>

partial_function (option) wr_bump :: "addr \<Rightarrow> ptr \<Rightarrow> u16 \<Rightarrow> net \<Rightarrow> net option" where
  "wr_bump p arg used s = Option.bind (pbufs s p) (\<lambda>b.
     let b = b\<lparr>pb_tot_len := pb_tot_len b + used\<rparr> in
     case pb_next b of
       Some n \<Rightarrow> wr_bump n arg used (put_pbuf p b s)
     | None \<Rightarrow> Option.bind (pb_payload b) (\<lambda>q.
         Option.bind (copy_data (ptr_add q (unat (pb_len b))) arg used s) (\<lambda>s.
           Some (put_pbuf p (b\<lparr>pb_len := pb_len b + used\<rparr>) s))))"

definition wr_commit1 :: "ptr \<Rightarrow> wr_loc \<Rightarrow> 'f tcp_pcb \<Rightarrow> net \<Rightarrow> ('f tcp_pcb \<times> net) option" where
  "wr_commit1 arg w pcb s = do {
     (pcb, s) \<leftarrow>
       (if w_oversize_used w > 0 then do {
          let last_unsent = last (t_unsent pcb);
          p \<leftarrow> sg_p last_unsent;
          s \<leftarrow> wr_bump p arg (w_oversize_used w) s;
          c_assert (sg_oversize_left last_unsent \<ge> w_oversize_used w);
          Some (put_last (last_unsent\<lparr>sg_len := sg_len last_unsent + w_oversize_used w,
                  sg_oversize_left := sg_oversize_left last_unsent - w_oversize_used w\<rparr>) pcb, s) }
        else Some (pcb, s));
     Some (pcb\<lparr>t_unsent_oversize := w_oversize w\<rparr>, s) }"

definition wr_commit2 :: "wr_loc \<Rightarrow> 'f tcp_pcb \<Rightarrow> net \<Rightarrow> ('f tcp_pcb \<times> net) option" where
  "wr_commit2 w pcb s = (case w_concat w of None \<Rightarrow> Some (pcb, s)
     | Some c \<Rightarrow> do {
         c_assert (t_unsent pcb \<noteq> []);
         let last_unsent = last (t_unsent pcb);
         s \<leftarrow> pbuf_cat (sg_p last_unsent) (Some c) s;
         b \<leftarrow> pbufs s c;
         Some (put_last (last_unsent\<lparr>sg_len := sg_len last_unsent + pb_tot_len b\<rparr>) pcb, s) })"

definition wr_commit ::
  "ptr \<Rightarrow> u16 \<Rightarrow> u8 \<Rightarrow> wr_loc \<Rightarrow> 'f tcp_pcb \<Rightarrow> net \<Rightarrow> (err_t \<times> 'f tcp_pcb \<times> net) option" where
  "wr_commit arg len apiflags w pcb s = do {
     (pcb, s) \<leftarrow> wr_commit1 arg w pcb s;
     (pcb, s) \<leftarrow> wr_commit2 w pcb s;
     let pcb = pcb\<lparr>t_unsent := t_unsent pcb @ w_queue w, t_snd_lbb := t_snd_lbb pcb + ucast len,
                   t_snd_buf := t_snd_buf pcb - len, t_snd_queuelen := w_queuelen w\<rparr>;
     c_assert (t_snd_queuelen pcb \<noteq> 0 \<longrightarrow> t_unacked pcb \<noteq> [] \<or> t_unsent pcb \<noteq> []);
     s \<leftarrow> (if (w_seg_last w \<or> w_queue w \<noteq> []) \<and> apiflags AND TCP_WRITE_FLAG_MORE = 0
          then TCPH_SET_FLAG (sg_tcphdr (last (t_unsent pcb))) TCP_PSH s else Some s);
     Some (ERR_OK, pcb, s) }"

definition tcp_write ::
  "cff_fn \<Rightarrow> 'f tcp_pcb \<Rightarrow> ptr option \<Rightarrow> u16 \<Rightarrow> u8 \<Rightarrow> net \<Rightarrow> (err_t \<times> 'f tcp_pcb \<times> net) option" where
  "tcp_write cff pcb arg len apiflags s = (
     let mss_local = min (t_mss pcb) (t_snd_wnd_max pcb div 2) in
     case arg of None \<Rightarrow> Some (ERR_ARG, pcb, s)
     | Some arg \<Rightarrow> do {
         (err, pcb) \<leftarrow> tcp_write_checks pcb len;
         if err \<noteq> ERR_OK then Some (err, pcb, s)
         else do {
           let w = \<lparr>w_pos = 0, w_oversize = 0, w_oversize_used = 0, w_queuelen = t_snd_queuelen pcb,
                    w_concat = None, w_queue = [], w_seg_last = False\<rparr>;
           (r, pcb, s) \<leftarrow>
             (if t_unsent pcb \<noteq> [] then do {
                let last_unsent = last (t_unsent pcb);
                w \<leftarrow> wr_phase1 last_unsent pcb len w;
                wr_phase2 cff arg len apiflags mss_local last_unsent pcb w s }
              else do { c_assert (t_unsent_oversize pcb = 0); Some (Some w, pcb, s) });
           case r of None \<Rightarrow> wr_memerr cff pcb w s
           | Some w \<Rightarrow> do {
               (ok, w, s) \<leftarrow> wr_phase3 cff arg len apiflags mss_local pcb w s;
               if ok then wr_commit arg len apiflags w pcb s else wr_memerr cff pcb w s } } })"

end
