(* ===== verification/TcpSend.thy ===== *)
theory TcpSend
  imports TcpOut
begin

text \<open>
  The rest of \<open>core/tcp_out.c\<close>: control segments, \<open>tcp_output\<close>, acknowledgements, resets,
  retransmission and probes.
\<close>

section \<open>Control segments\<close>

text \<open>The pbuf of a segment with a SYN or a FIN is allocated before the segment.\<close>

definition tcp_enqueue_flags ::
  "cff_fn \<Rightarrow> 'f tcp_pcb \<Rightarrow> u8 \<Rightarrow> net \<Rightarrow> (err_t \<times> 'f tcp_pcb \<times> net) option" where
  "tcp_enqueue_flags cff pcb fl s = do {
     c_assert (fl AND (TCP_SYN OR TCP_FIN) \<noteq> 0);
     let memerr = pcb\<lparr>t_flags := t_flags pcb OR TF_NAGLEMEMERR\<rparr>;
     if t_snd_queuelen pcb \<ge> TCP_SND_QUEUELEN \<or> t_snd_queuelen pcb > TCP_SNDQUEUELEN_OVERFLOW
     then Some (ERR_MEM, memerr, s)
     else (let optflags = (if fl AND TCP_SYN \<noteq> 0 then TF_SEG_OPTS_MSS else 0);
               optlen = LWIP_TCP_OPT_LENGTH optflags in
       if t_snd_buf pcb = 0 then Some (ERR_MEM, pcb, s)
       else do {
         (p, s) \<leftarrow> pbuf_alloc cff PBUF_TRANSPORT (ucast optlen) PBUF_RAM s;
         case p of None \<Rightarrow> Some (ERR_MEM, memerr, s)
         | Some p \<Rightarrow> do {
             b \<leftarrow> pbufs s p;
             c_assert (pb_len b \<ge> ucast optlen);
             (g, s) \<leftarrow> tcp_create_segment cff pcb p fl (t_snd_lbb pcb) optflags s;
             case g of None \<Rightarrow> Some (ERR_MEM, memerr, s)
             | Some g \<Rightarrow> do {
                 c_assert (sg_len g = 0);
                 let pcb = pcb\<lparr>t_unsent := t_unsent pcb @ [g], t_unsent_oversize := 0,
                               t_snd_lbb := t_snd_lbb pcb + 1, t_snd_buf := t_snd_buf pcb - 1,
                               t_flags := (if fl AND TCP_FIN \<noteq> 0 then t_flags pcb OR TF_FIN else t_flags pcb)\<rparr>;
                 n \<leftarrow> pbuf_clen (sg_p g) s;
                 Some (ERR_OK, pcb\<lparr>t_snd_queuelen := t_snd_queuelen pcb + ucast n\<rparr>, s) } } }) }"

definition tcp_send_fin ::
  "cff_fn \<Rightarrow> 'f tcp_pcb \<Rightarrow> net \<Rightarrow> (err_t \<times> 'f tcp_pcb \<times> net) option" where
  "tcp_send_fin cff pcb s =
     (if t_unsent pcb \<noteq> [] then do {
        let h = sg_tcphdr (last (t_unsent pcb));
        fl \<leftarrow> TCPH_FLAGS s h;
        if fl AND (TCP_SYN OR TCP_FIN OR TCP_RST) = 0 then do {
          s \<leftarrow> TCPH_SET_FLAG h TCP_FIN s;
          Some (ERR_OK, pcb\<lparr>t_flags := t_flags pcb OR TF_FIN\<rparr>, s) }
        else tcp_enqueue_flags cff pcb TCP_FIN s }
      else tcp_enqueue_flags cff pcb TCP_FIN s)"

section \<open>Segments without a queue\<close>

text \<open>The checksum, \<open>ip_output\<close> and the release of the pbuf.\<close>

definition send_and_free ::
  "'w tcp_env \<Rightarrow> addr \<Rightarrow> ptr \<Rightarrow> u32 \<Rightarrow> u32 \<Rightarrow> u8 \<Rightarrow> u8 \<Rightarrow> 'w low \<Rightarrow> 'w low option" where
  "send_and_free E p h src dest ttl tos s = do {
     s \<leftarrow> on_net1 (set_tcp_chksum E h p src dest) s;
     s \<leftarrow> te_output E p src dest ttl tos IP_PROTO_TCP s;
     (_, s) \<leftarrow> on_net (pbuf_free (te_cff E) (Some p)) s;
     Some s }"

definition tcp_send_empty_ack ::
  "'w tcp_env \<Rightarrow> 'f tcp_pcb \<Rightarrow> 'w low \<Rightarrow> (err_t \<times> 'f tcp_pcb \<times> 'w low) option" where
  "tcp_send_empty_ack E pcb s = do {
     (r, pcb, n) \<leftarrow> tcp_output_alloc_header (te_cff E) pcb 0 0 (lwip_htonl (t_snd_nxt pcb)) (l_net s);
     let s = s\<lparr>l_net := n\<rparr>;
     case r of None \<Rightarrow> Some (ERR_BUF, pcb, s)
     | Some (p, h) \<Rightarrow> do {
         let pcb = pcb\<lparr>t_flags := t_flags pcb AND NOT (TF_ACK_DELAY OR TF_ACK_NOW)\<rparr>;
         s \<leftarrow> send_and_free E p h (t_local_ip pcb) (t_remote_ip pcb) (t_ttl pcb) (t_tos pcb) s;
         Some (ERR_OK, pcb, s) } }"

definition tcp_rst ::
  "'w tcp_env \<Rightarrow> u32 \<Rightarrow> u32 \<Rightarrow> u32 \<Rightarrow> u32 \<Rightarrow> u16 \<Rightarrow> u16 \<Rightarrow> 'w low \<Rightarrow> 'w low option" where
  "tcp_rst E seqno ackno local_ip remote_ip local_port remote_port s = do {
     (p, s) \<leftarrow> on_net (pbuf_alloc (te_cff E) PBUF_IP TCP_HLEN PBUF_RAM) s;
     case p of None \<Rightarrow> Some s
     | Some p \<Rightarrow> do {
         b \<leftarrow> pbufs (l_net s) p;
         c_assert (pb_len b \<ge> TCP_HLEN);
         h \<leftarrow> pb_payload b;
         s \<leftarrow> on_net1 (set_hdr_common h local_port remote_port (lwip_htonl seqno)) s;
         s \<leftarrow> on_net1 (st32 (h_ackno h) (lwip_htonl ackno)) s;
         s \<leftarrow> on_net1 (TCPH_HDRLEN_FLAGS_SET h (TCP_HLEN div 4) (TCP_RST OR TCP_ACK)) s;
         s \<leftarrow> on_net1 (st16 (h_wnd h) (lwip_htons TCP_WND)) s;
         s \<leftarrow> on_net1 (st16 (h_chksum h) 0) s;
         s \<leftarrow> on_net1 (st16 (h_urgp h) 0) s;
         send_and_free E p h local_ip remote_ip TCP_TTL 0 s } }"

definition tcp_keepalive ::
  "'w tcp_env \<Rightarrow> 'f tcp_pcb \<Rightarrow> 'w low \<Rightarrow> ('f tcp_pcb \<times> 'w low) option" where
  "tcp_keepalive E pcb s = do {
     (r, pcb, n) \<leftarrow> tcp_output_alloc_header (te_cff E) pcb 0 0 (lwip_htonl (t_snd_nxt pcb - 1)) (l_net s);
     let s = s\<lparr>l_net := n\<rparr>;
     case r of None \<Rightarrow> Some (pcb, s)
     | Some (p, h) \<Rightarrow> do {
         s \<leftarrow> send_and_free E p h (t_local_ip pcb) (t_remote_ip pcb) (t_ttl pcb) 0 s;
         Some (pcb, s) } }"

text \<open>One byte of the oldest segment, or its FIN, into a closed window.\<close>

definition tcp_zero_window_probe ::
  "'w tcp_env \<Rightarrow> 'f tcp_pcb \<Rightarrow> 'w low \<Rightarrow> ('f tcp_pcb \<times> 'w low) option" where
  "tcp_zero_window_probe E pcb s = (case t_unacked pcb @ t_unsent pcb of [] \<Rightarrow> Some (pcb, s)
     | g # _ \<Rightarrow> do {
         fl \<leftarrow> TCPH_FLAGS (l_net s) (sg_tcphdr g);
         let is_fin = (fl AND TCP_FIN \<noteq> 0 \<and> sg_len g = 0);
         seqno_be \<leftarrow> ld32 (l_net s) (h_seqno (sg_tcphdr g));
         (r, pcb, n) \<leftarrow> tcp_output_alloc_header (te_cff E) pcb 0 (if is_fin then 0 else 1) seqno_be (l_net s);
         let s = s\<lparr>l_net := n\<rparr>;
         case r of None \<Rightarrow> Some (pcb, s)
         | Some (p, h) \<Rightarrow> do {
             s \<leftarrow> (if is_fin then on_net1 (TCPH_FLAGS_SET h (TCP_ACK OR TCP_FIN)) s
                  else do {
                    a \<leftarrow> sg_p g;
                    b \<leftarrow> pbufs (l_net s) a;
                    (_, d) \<leftarrow> pbuf_copy_partial (Some a) 1 (pb_tot_len b - sg_len g) (l_net s);
                    on_net1 (\<lambda>n. mem_write n (ptr_add h (unat TCP_HLEN)) d) s });
             s \<leftarrow> send_and_free E p h (t_local_ip pcb) (t_remote_ip pcb) (t_ttl pcb) 0 s;
             Some (pcb, s) } })"

section \<open>Output of the queue\<close>

text \<open>
  \<open>tcp_output_segment\<close> up to the test of the route, and the rest. The header of the segment is
  completed even when there is no route and nothing is sent. \<open>ticks\<close> is \<open>tcp_ticks\<close>.
\<close>

definition tcp_output_segment ::
  "'w tcp_env \<Rightarrow> u32 \<Rightarrow> tcp_seg \<Rightarrow> 'f tcp_pcb \<Rightarrow> 'w low \<Rightarrow> ('f tcp_pcb \<times> 'w low) option" where
  "tcp_output_segment E ticks g pcb s = do {
     let h = sg_tcphdr g;
     s \<leftarrow> on_net1 (st32 (h_ackno h) (lwip_htonl (t_rcv_nxt pcb))) s;
     s \<leftarrow> on_net1 (st16 (h_wnd h) (lwip_htons (t_rcv_ann_wnd pcb))) s;
     let pcb = pcb\<lparr>t_rcv_ann_right_edge := t_rcv_nxt pcb + ucast (t_rcv_ann_wnd pcb)\<rparr>;
     s \<leftarrow> (if sg_flags g AND TF_SEG_OPTS_MSS \<noteq> 0
          then on_net1 (st32 (ptr_add h 20)
                 (TCP_BUILD_MSS_OPTION (tcp_eff_send_mss E TCP_MSS (t_remote_ip pcb) (l_ip s)))) s
          else Some s);
     let pcb = (if t_rtime pcb = - 1 then pcb\<lparr>t_rtime := 0\<rparr> else pcb);
     case (if t_local_ip pcb = 0 then map_option nif_ip_addr (te_route E (t_remote_ip pcb) (l_ip s))
           else Some (t_local_ip pcb)) of
       None \<Rightarrow> Some (pcb, s)
     | Some ip \<Rightarrow> do {
         let pcb = pcb\<lparr>t_local_ip := ip\<rparr>;
         seqno \<leftarrow> seg_seqno (l_net s) g;
         let pcb = (if t_rttest pcb = 0 then pcb\<lparr>t_rttest := ticks, t_rtseq := seqno\<rparr> else pcb);
         p \<leftarrow> sg_p g;
         b \<leftarrow> pbufs (l_net s) p;
         (a, off) \<leftarrow> pb_payload b;
         c_assert (a = fst h);
         let len = (of_int (snd h - off) :: u16);
         let s = s\<lparr>l_net := put_pbuf p (b\<lparr>pb_len := pb_len b - len, pb_tot_len := pb_tot_len b - len,
                                          pb_payload := Some h\<rparr>) (l_net s)\<rparr>;
         s \<leftarrow> on_net1 (st16 (h_chksum h) 0) s;
         s \<leftarrow> on_net1 (set_tcp_chksum E h p (t_local_ip pcb) (t_remote_ip pcb)) s;
         s \<leftarrow> te_output E p (t_local_ip pcb) (t_remote_ip pcb) (t_ttl pcb) (t_tos pcb) IP_PROTO_TCP s;
         Some (pcb, s) } }"

definition tcp_do_output_nagle :: "'f tcp_pcb \<Rightarrow> bool" where
  "tcp_do_output_nagle pcb \<longleftrightarrow> t_unacked pcb = [] \<or> t_flags pcb AND (TF_NODELAY OR TF_INFR) \<noteq> 0 \<or>
     (case t_unsent pcb of [] \<Rightarrow> False | g # gs \<Rightarrow> gs \<noteq> [] \<or> sg_len g \<ge> t_mss pcb) \<or>
     t_snd_buf pcb = 0 \<or> t_snd_queuelen pcb \<ge> TCP_SND_QUEUELEN"

text \<open>The insertion in front of the first segment that is not before \<open>seqno\<close>.\<close>

fun seg_insert :: "net \<Rightarrow> tcp_seg \<Rightarrow> u32 \<Rightarrow> tcp_seg list \<Rightarrow> tcp_seg list option" where
  "seg_insert s g seqno [] = Some [g]"
| "seg_insert s g seqno (x # xs) = Option.bind (seg_seqno s x) (\<lambda>q.
     if TCP_SEQ_LT q seqno then map_option (Cons x) (seg_insert s g seqno xs)
     else Some (g # x # xs))"

text \<open>\<open>useg->next = seg\<close>: whatever followed \<open>useg\<close> is cut off.\<close>

fun link_after :: "nat \<Rightarrow> tcp_seg \<Rightarrow> tcp_seg list \<Rightarrow> tcp_seg list" where
  "link_after u g [] = []"
| "link_after u g (x # xs) = (if sg_addr x = u then [x, g] else x # link_after u g xs)"

text \<open>
  Where a segment that was sent goes: onto the queue of unacknowledged segments when it takes
  sequence space, else it is freed. \<open>useg\<close> is the tail of that queue as the loop knows it.
\<close>

definition queue_sent ::
  "cff_fn \<Rightarrow> tcp_seg \<Rightarrow> tcp_seg option \<Rightarrow> 'f tcp_pcb \<Rightarrow> net \<Rightarrow> (tcp_seg option \<times> 'f tcp_pcb \<times> net) option" where
  "queue_sent cff g useg pcb s = do {
     n \<leftarrow> TCP_TCPLEN s g;
     if n > 0 then
       if t_unacked pcb = [] then Some (Some g, pcb\<lparr>t_unacked := [g]\<rparr>, s)
       else do {
         u \<leftarrow> useg;
         gq \<leftarrow> seg_seqno s g;
         uq \<leftarrow> seg_seqno s u;
         if TCP_SEQ_LT gq uq then do {
           xs \<leftarrow> seg_insert s g gq (t_unacked pcb);
           Some (Some u, pcb\<lparr>t_unacked := xs\<rparr>, s) }
         else Some (Some g, pcb\<lparr>t_unacked := link_after (sg_addr u) g (t_unacked pcb)\<rparr>, s) }
     else do { s \<leftarrow> tcp_seg_free cff g s; Some (useg, pcb, s) } }"

text \<open>
  The loop of \<open>tcp_output\<close>: \<open>segs\<close> is \<open>pcb->unsent\<close> and its head is \<open>seg\<close>. It stops when the
  head does not fit into the window or when the Nagle algorithm holds it back.
\<close>

definition fits_wnd :: "net \<Rightarrow> tcp_seg \<Rightarrow> 'f tcp_pcb \<Rightarrow> bool option" where
  "fits_wnd s g pcb = do {
     q \<leftarrow> seg_seqno s g;
     Some (q - t_lastack pcb + ucast (sg_len g) \<le> ucast (min (t_snd_wnd pcb) (t_cwnd pcb))) }"

definition output_one ::
  "'w tcp_env \<Rightarrow> u32 \<Rightarrow> tcp_seg \<Rightarrow> tcp_seg list \<Rightarrow> tcp_seg option \<Rightarrow> 'f tcp_pcb \<Rightarrow> 'w low \<Rightarrow>
     (tcp_seg option \<times> 'f tcp_pcb \<times> 'w low) option" where
  "output_one E ticks g segs useg pcb s = do {
     let pcb = pcb\<lparr>t_unsent := segs\<rparr>;
     (pcb, s) \<leftarrow> (if t_state pcb \<noteq> SYN_SENT then do {
            s \<leftarrow> on_net1 (TCPH_SET_FLAG (sg_tcphdr g) TCP_ACK) s;
            Some (pcb\<lparr>t_flags := t_flags pcb AND NOT (TF_ACK_DELAY OR TF_ACK_NOW)\<rparr>, s) }
          else Some (pcb, s));
     (pcb, s) \<leftarrow> tcp_output_segment E ticks g pcb s;
     q \<leftarrow> seg_seqno (l_net s) g;
     n \<leftarrow> TCP_TCPLEN (l_net s) g;
     let snd_nxt = q + n;
     let pcb = (if TCP_SEQ_LT (t_snd_nxt pcb) snd_nxt then pcb\<lparr>t_snd_nxt := snd_nxt\<rparr> else pcb);
     (useg, pcb, n) \<leftarrow> queue_sent (te_cff E) g useg pcb (l_net s);
     Some (useg, pcb, s\<lparr>l_net := n\<rparr>) }"

fun tcp_output_loop ::
  "'w tcp_env \<Rightarrow> u32 \<Rightarrow> tcp_seg list \<Rightarrow> tcp_seg option \<Rightarrow> 'f tcp_pcb \<Rightarrow> 'w low \<Rightarrow> ('f tcp_pcb \<times> 'w low) option" where
  "tcp_output_loop E ticks [] useg pcb s = Some (pcb, s)"
| "tcp_output_loop E ticks (g # segs) useg pcb s = Option.bind (fits_wnd (l_net s) g pcb) (\<lambda>fits.
     if fits then Option.bind (TCPH_FLAGS (l_net s) (sg_tcphdr g)) (\<lambda>fl.
       if fl AND TCP_RST \<noteq> 0 then None
       else if \<not> tcp_do_output_nagle pcb \<and> t_flags pcb AND (TF_NAGLEMEMERR OR TF_FIN) = 0 then Some (pcb, s)
       else Option.bind (output_one E ticks g segs useg pcb s) (\<lambda>(useg, pcb, s).
         tcp_output_loop E ticks segs useg pcb s))
     else Some (pcb, s))"

text \<open>\<open>busy\<close> says that \<open>tcp_input\<close> is working on this control block.\<close>

definition tcp_output ::
  "'w tcp_env \<Rightarrow> u32 \<Rightarrow> bool \<Rightarrow> 'f tcp_pcb \<Rightarrow> 'w low \<Rightarrow> (err_t \<times> 'f tcp_pcb \<times> 'w low) option" where
  "tcp_output E ticks busy pcb s = do {
     c_assert (t_state pcb \<noteq> LISTEN);
     if busy then Some (ERR_OK, pcb, s)
     else do {
       blocked \<leftarrow> (if t_flags pcb AND TF_ACK_NOW = 0 then Some False
          else case t_unsent pcb of [] \<Rightarrow> Some True
             | g # _ \<Rightarrow> map_option Not (fits_wnd (l_net s) g pcb));
       if blocked then tcp_send_empty_ack E pcb s
       else do {
         (pcb, s) \<leftarrow> tcp_output_loop E ticks (t_unsent pcb)
           (if t_unacked pcb = [] then None else Some (last (t_unacked pcb))) pcb s;
         let pcb = (if t_unsent pcb = [] then pcb\<lparr>t_unsent_oversize := 0\<rparr> else pcb);
         Some (ERR_OK, pcb\<lparr>t_flags := t_flags pcb AND NOT TF_NAGLEMEMERR\<rparr>, s) } } }"

definition tcp_output_nagle ::
  "'w tcp_env \<Rightarrow> u32 \<Rightarrow> bool \<Rightarrow> 'f tcp_pcb \<Rightarrow> 'w low \<Rightarrow> (err_t \<times> 'f tcp_pcb \<times> 'w low) option" where
  "tcp_output_nagle E ticks busy pcb s =
     (if tcp_do_output_nagle pcb then tcp_output E ticks busy pcb s else Some (ERR_OK, pcb, s))"

section \<open>Retransmission\<close>

definition tcp_rexmit_rto ::
  "'w tcp_env \<Rightarrow> u32 \<Rightarrow> bool \<Rightarrow> 'f tcp_pcb \<Rightarrow> 'w low \<Rightarrow> ('f tcp_pcb \<times> 'w low) option" where
  "tcp_rexmit_rto E ticks busy pcb s =
     (if t_unacked pcb = [] then Some (pcb, s)
      else do {
        let pcb = pcb\<lparr>t_unsent := t_unacked pcb @ t_unsent pcb, t_unacked := [],
                      t_nrtx := t_nrtx pcb + 1, t_rttest := 0\<rparr>;
        (_, pcb, s) \<leftarrow> tcp_output E ticks busy pcb s;
        Some (pcb, s) })"

definition tcp_rexmit :: "'f tcp_pcb \<Rightarrow> net \<Rightarrow> 'f tcp_pcb option" where
  "tcp_rexmit pcb s = (case t_unacked pcb of [] \<Rightarrow> Some pcb
     | g # gs \<Rightarrow> do {
         q \<leftarrow> seg_seqno s g;
         xs \<leftarrow> seg_insert s g q (t_unsent pcb);
         Some (pcb\<lparr>t_unacked := gs, t_unsent := xs,
                   t_unsent_oversize := (if last xs = g then 0 else t_unsent_oversize pcb),
                   t_nrtx := t_nrtx pcb + 1, t_rttest := 0\<rparr>) })"

definition tcp_rexmit_fast :: "'f tcp_pcb \<Rightarrow> net \<Rightarrow> 'f tcp_pcb option" where
  "tcp_rexmit_fast pcb s =
     (if t_unacked pcb \<noteq> [] \<and> t_flags pcb AND TF_INFR = 0 then do {
        pcb \<leftarrow> tcp_rexmit pcb s;
        let ss = (if t_cwnd pcb > t_snd_wnd pcb then t_snd_wnd pcb div 2 else t_cwnd pcb div 2);
        let ss = (if unat ss < 2 * unat (t_mss pcb) then 2 * t_mss pcb else ss);
        Some (pcb\<lparr>t_ssthresh := ss, t_cwnd := ss + 3 * t_mss pcb, t_flags := t_flags pcb OR TF_INFR\<rparr>) }
      else Some pcb)"

end
