(* ===== verification/TcpMem.thy ===== *)
theory TcpMem
  imports TcpSend
begin

text \<open>
  Stores into the header of a segment and what they leave alone; frames: what a segment's bytes
  depend on.
\<close>

section \<open>Stores in a range of one object\<close>

text \<open>\<open>upd_in a l u s s'\<close>: only bytes \<open>l .. u - 1\<close> of object \<open>a\<close> may differ.\<close>

definition upd_in :: "addr \<Rightarrow> nat \<Rightarrow> nat \<Rightarrow> net \<Rightarrow> net \<Rightarrow> bool" where
  "upd_in a l u s s' \<longleftrightarrow> (\<exists>c. s' = s\<lparr>cells := c\<rparr> \<and> (\<forall>x. x \<noteq> a \<longrightarrow> c x = cells s x) \<and>
     (\<forall>i. i < l \<or> u \<le> i \<longrightarrow> c a i = cells s a i))"

lemma upd_in_refl [simp]: "upd_in a l u s s"
  unfolding upd_in_def by (intro exI [of _ "cells s"]) simp

lemma upd_in_trans:
  assumes "upd_in a l u s s'" "upd_in a l' u' s' s''" "L \<le> l" "L \<le> l'" "u \<le> U" "u' \<le> U"
  shows "upd_in a L U s s''"
  using assms by (force simp: upd_in_def)

lemma upd_in_simps:
  assumes "upd_in a l u s s'"
  shows "pbufs s' = pbufs s" "extent s' = extent s" "n_memp s' = n_memp s" "n_heap s' = n_heap s"
    "stale_flags s' = stale_flags s" "x \<noteq> a \<Longrightarrow> cells s' x = cells s x"
    "i < l \<or> u \<le> i \<Longrightarrow> cells s' a i = cells s a i"
  using assms by (auto simp: upd_in_def)

lemma net_inv_upd_in: "upd_in a l u s s' \<Longrightarrow> net_inv Z B s \<Longrightarrow> net_inv Z B s' \<and> net_live Z B s' = net_live Z B s"
proof -
  assume u: "upd_in a l u s s'" and i: "net_inv Z B s"
  note U = upd_in_simps [OF u]
  have "pbuf_placed Z B s' d c \<longleftrightarrow> pbuf_placed Z B s d c" for d c by (rule pbuf_placed_cong) (simp_all add: U)
  then show ?thesis using i by (simp add: net_inv_def net_live_def U)
qed

lemma mem_write_upd:
  assumes "extent s a = Some e" "l + length bs \<le> e"
  shows "\<exists>s'. mem_write s (a, int l) bs = Some s' \<and> upd_in a l (l + length bs) s s' \<and>
    mem_read s' (a, int l) (length bs) = Some bs"
proof -
  let ?c = "(cells s)(a := (\<lambda>i. if l \<le> i \<and> i < l + length bs then bs ! (i - l) else cells s a i))"
  have "mem_write s (a, int l) bs = Some (s\<lparr>cells := ?c\<rparr>)" using assms by (simp add: mem_write_def cong: if_cong)
  moreover have "upd_in a l (l + length bs) s (s\<lparr>cells := ?c\<rparr>)"
    unfolding upd_in_def by (intro exI [of _ ?c]) simp
  moreover have "map (\<lambda>k. ?c a (l + k)) [0..<length bs] = bs" by (rule nth_equalityI) simp_all
  then have "mem_read (s\<lparr>cells := ?c\<rparr>) (a, int l) (length bs) = Some bs"
    using assms by (simp add: mem_read_def)
  ultimately show ?thesis by blast
qed

lemma mem_read_upd:
  assumes "upd_in a l u s s'" "x \<noteq> a \<or> int u \<le> i \<or> i + int n \<le> int l"
  shows "mem_read s' (x, i) n = mem_read s (x, i) n"
proof -
  note U = upd_in_simps [OF assms(1)]
  have "cells s' x (nat i + k) = cells s x (nat i + k)" if "0 \<le> i" "k < n" for k
  proof (cases "x = a")
    case True
    then have "nat i + k < l \<or> u \<le> nat i + k" using assms(2) that by linarith
    then show ?thesis using True U(7) by simp
  qed (simp add: U(6))
  then have "map (\<lambda>k. cells s' x (nat i + k)) [0..<n] = map (\<lambda>k. cells s x (nat i + k)) [0..<n]" if "0 \<le> i"
    using that by simp
  then show ?thesis by (cases "0 \<le> i") (simp_all add: mem_read_def U(2) split: option.split)
qed

lemma ptr_add_pair [simp]: "ptr_add (a, int h) k = (a, int (h + k))"
  by (simp add: ptr_add_def)

section \<open>Loads and stores of the header fields\<close>

lemma unat_drop: "unat (drop_bit n v) = unat v div 2 ^ n"
  by (metis unat_drop_bit_eq drop_bit_eq_div)

lemma le16_bytes: "ucast (le16 (ucast v) (ucast (drop_bit 8 v))) = (v :: u16)"
proof -
  have "unat (ucast (le16 (ucast v) (ucast (drop_bit 8 v))) :: u16) = unat v"
    using unat_u16_lt [of v]
    by (simp add: unat_ucast_mod unat_le16 unat_drop)
  then show ?thesis by (simp add: word_eq_unat)
qed

lemma le32_bytes:
  "le32 (ucast v) (ucast (drop_bit 8 v)) (ucast (drop_bit 16 v)) (ucast (drop_bit 24 v)) = (v :: u32)"
proof -
  have "x mod 256 + 256 * (x div 256 mod 256) + 65536 * (x div 65536 mod 256) + 16777216 * (x div 16777216) = x"
    if "x < 4294967296" for x :: nat
  proof -
    have "x div 65536 = x div 256 div 256" "x div 16777216 = x div 65536 div 256"
      by (simp_all add: div_mult2_eq [symmetric])
    then have "x = x mod 256 + 256 * (x div 256)" "x div 256 = x div 256 mod 256 + 256 * (x div 65536)"
      "x div 65536 = x div 65536 mod 256 + 256 * (x div 16777216)" by presburger+
    moreover have "x div 16777216 mod 256 = x div 16777216" using that by simp
    ultimately show ?thesis by linarith
  qed
  note this [OF unat_u32_lt [of v]]
  moreover have "unat v div 16777216 mod 256 = unat v div 16777216"
    using unat_u32_lt [of v] by simp
  ultimately show ?thesis
    by (simp add: word_eq_unat unat_ucast_mod unat_le32 unat_drop)
qed

lemma ld_upd:
  assumes "upd_in a l u s s'"
  shows "u \<le> i \<or> i + 2 \<le> l \<Longrightarrow> ld16 s' (a, int i) = ld16 s (a, int i)"
    "u \<le> i \<or> i + 4 \<le> l \<Longrightarrow> ld32 s' (a, int i) = ld32 s (a, int i)"
  using mem_read_upd [OF assms, of a "int i" 2] mem_read_upd [OF assms, of a "int i" 4]
  by (auto simp: ld16_def ld32_def)

lemma st16_upd:
  assumes "extent s a = Some e" "u = i + 2" "u \<le> e"
  shows "\<exists>s'. st16 (a, int i) v s = Some s' \<and> upd_in a i u s s' \<and> ld16 s' (a, int i) = Some v"
proof -
  let ?bs = "[ucast v, ucast (drop_bit 8 v)] :: u8 list"
  have l: "length ?bs = 2" by simp
  from mem_write_upd [OF assms(1), of i ?bs, unfolded l] assms(2,3) show ?thesis
    by (auto simp: st16_def ld16_def le16_bytes simp del: int_ops)
qed

lemma st32_upd:
  assumes "extent s a = Some e" "u = i + 4" "u \<le> e"
  shows "\<exists>s'. st32 (a, int i) v s = Some s' \<and> upd_in a i u s s' \<and> ld32 s' (a, int i) = Some v"
proof -
  let ?bs = "[ucast v, ucast (drop_bit 8 v), ucast (drop_bit 16 v), ucast (drop_bit 24 v)] :: u8 list"
  have l: "length ?bs = 4" by simp
  from mem_write_upd [OF assms(1), of i ?bs, unfolded l] assms(2,3) show ?thesis
    by (auto simp: st32_def ld32_def le32_bytes simp del: int_ops)
qed

lemma ld_some:
  assumes "extent s a = Some e"
  shows "i + 2 \<le> e \<Longrightarrow> \<exists>v. ld16 s (a, int i) = Some v" "i + 4 \<le> e \<Longrightarrow> \<exists>v. ld32 s (a, int i) = Some v"
  using assms by (auto simp: ld16_def ld32_def mem_read_def)

lemma set_hdr_common_upd:
  assumes "extent s a = Some e" "h + 20 \<le> e"
  shows "\<exists>s'. set_hdr_common (a, int h) src dest q s = Some s' \<and> upd_in a h (h + 8) s s' \<and>
    ld32 s' (a, int (h + 4)) = Some q"
proof -
  have "h + 2 \<le> e" using assms(2) by simp
  from st16_upd [OF assms(1) refl this, of "lwip_htons src"] obtain s1 where
    1: "st16 (a, int h) (lwip_htons src) s = Some s1" "upd_in a h (h + 2) s s1" by auto
  have "extent s1 a = Some e" "h + 4 = (h + 2) + 2" "h + 4 \<le> e" using 1 assms by (simp_all add: upd_in_simps)
  from st16_upd [OF this, of "lwip_htons dest"] obtain s2 where
    2: "st16 (a, int (h + 2)) (lwip_htons dest) s1 = Some s2" "upd_in a (h + 2) (h + 4) s1 s2" by blast
  have "extent s2 a = Some e" "h + 8 = (h + 4) + 4" "h + 8 \<le> e" using 1 2 assms by (simp_all add: upd_in_simps)
  from st32_upd [OF this, of q] obtain s3 where
    3: "st32 (a, int (h + 4)) q s2 = Some s3" "upd_in a (h + 4) (h + 8) s2 s3" "ld32 s3 (a, int (h + 4)) = Some q"
    by blast
  have "upd_in a h (h + 8) s s2" by (rule upd_in_trans [OF 1(2) 2(2)]) simp_all
  then have "upd_in a h (h + 8) s s3" by (rule upd_in_trans [OF _ 3(2)]) simp_all
  then show ?thesis using 1(1) 2(1) 3 by (simp add: set_hdr_common_def del: of_nat_add)
qed

lemma TCPH_upd:
  assumes "extent s a = Some e" "h + 20 \<le> e"
  shows "\<exists>s'. TCPH_SET_FLAG (a, int h) fl s = Some s' \<and> upd_in a (h + 12) (h + 14) s s'"
    "\<exists>s'. TCPH_FLAGS_SET (a, int h) fl s = Some s' \<and> upd_in a (h + 12) (h + 14) s s'"
    "\<exists>s'. TCPH_HDRLEN_FLAGS_SET (a, int h) n fl s = Some s' \<and> upd_in a (h + 12) (h + 14) s s'"
    "\<exists>x. TCPH_FLAGS s (a, int h) = Some x"
proof -
  from ld_some(1) [OF assms(1), of "h + 12"] assms(2) obtain x where x: "ld16 s (a, int (h + 12)) = Some x" by auto
  have st: "\<exists>s'. st16 (a, int (h + 12)) v s = Some s' \<and> upd_in a (h + 12) (h + 14) s s'" for v
    using st16_upd [OF assms(1), of "h + 14" "h + 12" v] assms(2) by (auto simp del: of_nat_add)
  show "\<exists>s'. TCPH_SET_FLAG (a, int h) fl s = Some s' \<and> upd_in a (h + 12) (h + 14) s s'"
    "\<exists>s'. TCPH_FLAGS_SET (a, int h) fl s = Some s' \<and> upd_in a (h + 12) (h + 14) s s'"
    "\<exists>s'. TCPH_HDRLEN_FLAGS_SET (a, int h) n fl s = Some s' \<and> upd_in a (h + 12) (h + 14) s s'"
    "\<exists>x. TCPH_FLAGS s (a, int h) = Some x"
    using st x by (simp_all add: TCPH_SET_FLAG_def TCPH_FLAGS_SET_def TCPH_HDRLEN_FLAGS_SET_def TCPH_FLAGS_def)
qed

section \<open>Frames\<close>

definition same_obj :: "net \<Rightarrow> net \<Rightarrow> addr \<Rightarrow> bool" where
  "same_obj s s' a \<longleftrightarrow> pbufs s' a = pbufs s a \<and> extent s' a = extent s a \<and> cells s' a = cells s a"

lemma same_obj_refl [simp]: "same_obj s s a" by (simp add: same_obj_def)

lemma same_obj_trans: "same_obj s s' a \<Longrightarrow> same_obj s' s'' a \<Longrightarrow> same_obj s s'' a"
  by (simp add: same_obj_def)

lemma same_obj_upd: "upd_in a l u s s' \<Longrightarrow> x \<noteq> a \<Longrightarrow> same_obj s s' x"
  by (auto simp: same_obj_def upd_in_simps)

lemma same_obj_put: "x \<noteq> a \<Longrightarrow> same_obj s (put_pbuf a b s) x"
  by (simp add: same_obj_def)

lemma mem_read_same: "same_obj s s' a \<Longrightarrow> mem_read s' (a, i) n = mem_read s (a, i) n"
  by (simp add: same_obj_def mem_read_def cong: if_cong option.case_cong)

lemma pchain_same: "\<forall>a \<in> fst ` set xs. same_obj s s' a \<Longrightarrow> pchain s p xs \<Longrightarrow> pchain s' p xs"
  by (rule pchain_cong, assumption) (force simp: same_obj_def dest: pchain_lookup)

lemma chain_room_same: "\<forall>a \<in> fst ` set xs. same_obj s s' a \<Longrightarrow> chain_room s xs \<Longrightarrow> chain_room s' xs"
  by (erule chain_room_cong) (auto simp: same_obj_def)

lemma chain_data_same:
  "\<forall>a \<in> fst ` set xs. same_obj s s' a \<Longrightarrow> chain_room s xs \<Longrightarrow> chain_data s' xs = chain_data s xs"
proof (induction xs)
  case (Cons x xs)
  obtain a b where x: "x = (a, b)" by (cases x)
  with Cons.prems obtain off where "pb_payload b = Some (a, off)" by (auto simp: pb_room_def)
  moreover have "same_obj s s' a" using Cons.prems x by simp
  ultimately have "pb_data s' b = pb_data s b" by (simp add: pb_data_def mem_read_same)
  then show ?case using Cons x by simp
qed simp

end
