(* ===== verification/TcpQueue.thy ===== *)
theory TcpQueue
  imports TcpMem
begin

text \<open>
  What the queues of a control block mean: a segment with the chain that holds it, its sequence
  number and its data; a queue of such segments on chains of their own; the byte stream it carries.
\<close>

section \<open>Segments\<close>

abbreviation seg_optlen :: "tcp_seg \<Rightarrow> nat" where
  "seg_optlen g \<equiv> unat (LWIP_TCP_OPT_LENGTH (sg_flags g))"

text \<open>
  The head of the chain holds the header, after at most what the layers below put in front of it;
  the last \<open>sg_len\<close> bytes of the chain are the data.
\<close>

definition seg_rel :: "net \<Rightarrow> tcp_seg \<Rightarrow> chain \<Rightarrow> u32 \<Rightarrow> u8 list \<Rightarrow> bool" where
  "seg_rel s g xs q d \<longleftrightarrow> (\<exists>p b ys h off pre. sg_p g = Some p \<and> xs = (p, b) # ys \<and> pchain s (Some p) xs \<and>
     totals_to 0 xs \<and> all_one xs \<and> chain_room s xs \<and> sg_tcphdr g = (p, int h) \<and>
     chain_data s xs = Some (pre @ d) \<and> length d = unat (sg_len g) \<and>
     pb_payload b = Some (p, off) \<and> off + int (length pre) = int (h + 20 + seg_optlen g) \<and> off \<le> int h \<and>
     length pre \<le> unat (pb_len b) \<and> length pre \<le> 100 \<and> seg_seqno s g = Some q)"

lemma seg_relE:
  assumes "seg_rel s g xs q d"
  obtains p b ys h off pre where "sg_p g = Some p" "xs = (p, b) # ys" "pchain s (Some p) xs"
    "totals_to 0 xs" "all_one xs" "chain_room s xs" "sg_tcphdr g = (p, int h)"
    "chain_data s xs = Some (pre @ d)" "length d = unat (sg_len g)"
    "pb_payload b = Some (p, off)" "off + int (length pre) = int (h + 20 + seg_optlen g)" "off \<le> int h"
    "length pre \<le> unat (pb_len b)" "length pre \<le> 100" "seg_seqno s g = Some q"
  using assms unfolding seg_rel_def by (elim exE conjE) (rule that; assumption)

lemma seg_rel_same:
  assumes "seg_rel s g xs q d" "\<forall>a \<in> fst ` set xs. same_obj s s' a"
  shows "seg_rel s' g xs q d"
proof -
  from assms(1) show ?thesis
  proof (rule seg_relE)
    fix p b ys h off pre
    assume A: "sg_p g = Some p" "xs = (p, b) # ys" "pchain s (Some p) xs"
      "totals_to 0 xs" "all_one xs" "chain_room s xs" "sg_tcphdr g = (p, int h)"
      "chain_data s xs = Some (pre @ d)" "length d = unat (sg_len g)"
      "pb_payload b = Some (p, off)" "off + int (length pre) = int (h + 20 + seg_optlen g)" "off \<le> int h"
      "length pre \<le> unat (pb_len b)" "length pre \<le> 100" "seg_seqno s g = Some q"
    have p: "same_obj s s' p" using A(2) assms(2) by simp
    have "seg_seqno s' g = Some q" using A(7,15) mem_read_same [OF p] by (simp add: seg_seqno_def ld32_def ptr_add_def)
    moreover have "pchain s' (Some p) xs" "chain_room s' xs" "chain_data s' xs = Some (pre @ d)"
      using pchain_same [OF assms(2) A(3)] chain_room_same [OF assms(2) A(6)] chain_data_same [OF assms(2) A(6)] A(8)
      by simp_all
    ultimately show ?thesis unfolding seg_rel_def
      using A(1,2,4,5,7,9-14) by (intro exI [of _ p] exI [of _ b] exI [of _ ys] exI [of _ h] exI [of _ off] exI [of _ pre]) simp
  qed
qed

text \<open>A change of the book-keeping fields does not matter.\<close>

lemma seg_rel_fields:
  assumes "seg_rel s g xs q d" "sg_p g' = sg_p g" "sg_len g' = sg_len g" "sg_flags g' = sg_flags g"
    "sg_tcphdr g' = sg_tcphdr g"
  shows "seg_rel s g' xs q d"
  using assms by (simp add: seg_rel_def seg_seqno_def)

text \<open>Bytes of the header other than the sequence number may be written.\<close>

lemma seg_rel_hdr:
  assumes g: "seg_rel s g xs q d" and u: "sg_tcphdr g = (p, int h)" "upd_in p l r s s'" "h + 8 \<le> l" "r \<le> h + 20 + seg_optlen g"
  shows "seg_rel s' g xs q d"
  using g
proof (rule seg_relE)
  fix p' b ys h' off pre
  assume A: "sg_p g = Some p'" "xs = (p', b) # ys" "pchain s (Some p') xs"
    "totals_to 0 xs" "all_one xs" "chain_room s xs" "sg_tcphdr g = (p', int h')"
    "chain_data s xs = Some (pre @ d)" "length d = unat (sg_len g)"
    "pb_payload b = Some (p', off)" "off + int (length pre) = int (h' + 20 + seg_optlen g)" "off \<le> int h'"
    "length pre \<le> unat (pb_len b)" "length pre \<le> 100" "seg_seqno s g = Some q"
  note U = upd_in_simps [OF u(2)]
  have ph: "p' = p" "h' = h" using A(7) u(1) by simp_all
  have dist: "p \<notin> fst ` set ys" using pchain_distinct [OF A(3)] A(2) ph by simp
  have so: "\<forall>a \<in> fst ` set ys. same_obj s s' a" using dist same_obj_upd [OF u(2)] by metis
  from A(8) A(2) obtain d1 d2 where d12: "pb_data s b = Some d1" "chain_data s ys = Some d2" "d1 @ d2 = pre @ d"
    by (auto split: bind_splits)
  have l1: "length d1 = unat (pb_len b)" by (rule pb_data_length [OF d12(1)])
  have d2': "chain_data s' ys = Some d2" using chain_data_same [OF so] A(2,6) d12(2) by simp
  let ?n = "length pre"
  define m where "m = unat (pb_len b) - ?n"
  have m: "unat (pb_len b) = ?n + m" using A(13) by (simp add: m_def)
  from A(6,2) obtain e where e: "extent s p = Some e" "off + int (unat (pb_len b)) \<le> int e" "16 \<le> off"
    using A(10) ph by (auto simp: pb_room_def)
  define rd where "rd t i k = map (\<lambda>j. cells t p (nat i + j)) [0..<k]" for t :: net and i :: int and k :: nat
  have rdd: "pb_data t b = Some (rd t off ?n @ rd t (off + int ?n) m)" if "extent t p = Some e" for t
  proof -
    have "[0..<?n + m] = [0..<?n] @ map (\<lambda>j. ?n + j) [0..<m]"
      by (rule nth_equalityI) (auto simp: nth_append)
    moreover have "nat (off + int ?n) = nat off + ?n" using e(3) by simp
    ultimately have "rd t off (?n + m) = rd t off ?n @ rd t (off + int ?n) m"
      by (simp add: rd_def comp_def add.assoc)
    then show ?thesis using A(10) ph e that m by (simp add: pb_data_def mem_read_def rd_def)
  qed
  have "rd s' (off + int ?n) m = rd s (off + int ?n) m"
    unfolding rd_def
  proof (rule map_cong [OF refl])
    fix j assume "j \<in> set [0..<m]"
    have "nat (off + int ?n) = h + 20 + seg_optlen g" using A(11) ph by (simp only: nat_int)
    then show "cells s' p (nat (off + int ?n) + j) = cells s p (nat (off + int ?n) + j)"
      using u(4) by (intro U(7)) simp
  qed
  moreover define d1' where "d1' = rd s (off + int ?n) m"
  ultimately have D: "pb_data s b = Some (rd s off ?n @ d1')" "pb_data s' b = Some (rd s' off ?n @ d1')"
    using rdd e(1) by (simp_all add: U)
  have "rd s off ?n @ d1' @ d2 = pre @ d" using D(1) d12(1,3) by simp
  then have dd: "d1' @ d2 = d" by (subst (asm) append_eq_append_conv) (simp_all add: rd_def)
  have cd: "chain_data s' xs = Some (rd s' off ?n @ d)" using A(2) D(2) d2' dd by simp
  have sq: "seg_seqno s' g = Some q"
    using A(15) ld_upd(2) [OF u(2), of "h + 4"] u(1,3) by (simp add: seg_seqno_def)
  have pc: "pchain s' (Some p') xs" using A(3) pchain_cong_bufs [OF U(1)] by simp
  have cr: "chain_room s' xs" using A(6) by (rule chain_room_cong) (simp add: U)
  have ln: "length (rd s' off ?n) = ?n" by (simp add: rd_def)
  show "seg_rel s' g xs q d" unfolding seg_rel_def
    by (rule exI [of _ p'], rule exI [of _ b], rule exI [of _ ys], rule exI [of _ h'], rule exI [of _ off],
        rule exI [of _ "rd s' off ?n"])
      (use A(1,2,4,5,7,9-14) cd sq pc cr ln in simp)
qed

section \<open>The pool of segments\<close>

definition seg_live :: "(nat \<Rightarrow> nat) \<Rightarrow> nat \<Rightarrow> net \<Rightarrow> nat set" where
  "seg_live Z B s = memp_live Z B MEMP_TCP_SEG (n_memp s)"

lemma seg_idx: "MEMP_TCP_SEG < MEMP_MAX" "MEMP_TCP_SEG \<noteq> MEMP_PBUF" "MEMP_TCP_SEG \<noteq> MEMP_PBUF_POOL"
  by (simp_all add: MEMP_TCP_SEG_def MEMP_MAX_def MEMP_PBUF_def MEMP_PBUF_POOL_def)

lemma net_inv_memp:
  assumes "net_inv Z B s" "memp_inv Z B m"
    "memp_live Z B MEMP_PBUF_POOL m = memp_live Z B MEMP_PBUF_POOL (n_memp s)"
    "memp_live Z B MEMP_PBUF m = memp_live Z B MEMP_PBUF (n_memp s)"
  shows "net_inv Z B (s\<lparr>n_memp := m\<rparr>) \<and> net_live Z B (s\<lparr>n_memp := m\<rparr>) = net_live Z B s"
proof -
  have "pbuf_placed Z B (s\<lparr>n_memp := m\<rparr>) b a" if "pbuf_placed Z B s b a" for a b
    using that by (rule placed_more) (use assms(3,4) in auto)
  then show ?thesis using assms by (simp add: net_inv_def net_live_def)
qed

lemma seg_malloc:
  assumes inv: "net_inv Z B s"
  shows "memp_malloc MEMP_TCP_SEG (n_memp s) = Some (None, n_memp s) \<or>
    (\<exists>x m. memp_malloc MEMP_TCP_SEG (n_memp s) = Some (Some x, m) \<and> net_inv Z B (s\<lparr>n_memp := m\<rparr>) \<and>
      net_live Z B (s\<lparr>n_memp := m\<rparr>) = net_live Z B s \<and> x \<notin> seg_live Z B s \<and>
      seg_live Z B (s\<lparr>n_memp := m\<rparr>) = insert x (seg_live Z B s))"
proof (cases "memp_free_list (n_memp s) MEMP_TCP_SEG")
  case Nil
  from memp_malloc_spec [OF net_invD(1,2) [OF inv] seg_idx(1)] Nil show ?thesis by simp
next
  case (Cons x F)
  note I = net_invD [OF inv]
  from memp_malloc_spec [OF I(1,2) seg_idx(1)] Cons obtain m where m:
    "memp_malloc MEMP_TCP_SEG (n_memp s) = Some (Some x, m)" "memp_inv Z B m" "memp_free_list m MEMP_TCP_SEG = F"
    "\<forall>j < MEMP_MAX. j \<noteq> MEMP_TCP_SEG \<longrightarrow> memp_free_list m j = memp_free_list (n_memp s) j" by auto
  from memp_invE [OF I(2) seg_idx(1)] Cons have F: "distinct (x # F)" "set (x # F) \<subseteq> pool_elems Z B MEMP_TCP_SEG" by metis+
  have L: "memp_live Z B MEMP_PBUF_POOL m = memp_live Z B MEMP_PBUF_POOL (n_memp s)"
    "memp_live Z B MEMP_PBUF m = memp_live Z B MEMP_PBUF (n_memp s)"
    using m(4) seg_idx pbuf_idx by (simp_all add: memp_live_def)
  have "x \<notin> seg_live Z B s" "seg_live Z B (s\<lparr>n_memp := m\<rparr>) = insert x (seg_live Z B s)"
    using F Cons m(3) by (auto simp: seg_live_def memp_live_def)
  then show ?thesis using m(1) net_inv_memp [OF inv m(2) L] by blast
qed

lemma seg_release:
  assumes inv: "net_inv Z B s" and x: "x \<in> seg_live Z B s"
  shows "\<exists>m. memp_free MEMP_TCP_SEG (Some x) (n_memp s) = Some m \<and> net_inv Z B (s\<lparr>n_memp := m\<rparr>) \<and>
      net_live Z B (s\<lparr>n_memp := m\<rparr>) = net_live Z B s \<and> seg_live Z B (s\<lparr>n_memp := m\<rparr>) = seg_live Z B s - {x}"
proof -
  note I = net_invD [OF inv]
  from memp_free_spec [OF I(1,2) seg_idx(1)] x obtain m where m:
    "memp_free MEMP_TCP_SEG (Some x) (n_memp s) = Some m" "memp_inv Z B m"
    "memp_free_list m MEMP_TCP_SEG = x # memp_free_list (n_memp s) MEMP_TCP_SEG"
    "\<forall>j < MEMP_MAX. j \<noteq> MEMP_TCP_SEG \<longrightarrow> memp_free_list m j = memp_free_list (n_memp s) j"
    by (auto simp: seg_live_def)
  have L: "memp_live Z B MEMP_PBUF_POOL m = memp_live Z B MEMP_PBUF_POOL (n_memp s)"
    "memp_live Z B MEMP_PBUF m = memp_live Z B MEMP_PBUF (n_memp s)"
    using m(4) seg_idx pbuf_idx by (simp_all add: memp_live_def)
  have "seg_live Z B (s\<lparr>n_memp := m\<rparr>) = seg_live Z B s - {x}"
    using m(3) by (auto simp: seg_live_def memp_live_def)
  then show ?thesis using m(1) net_inv_memp [OF inv m(2) L] by blast
qed

section \<open>New pbufs\<close>

text \<open>A pbuf from the heap that nothing else refers to, with \<open>os\<close> spare bytes behind its payload.\<close>

definition fresh_buf :: "net \<Rightarrow> addr \<Rightarrow> pbuf \<Rightarrow> nat \<Rightarrow> u16 \<Rightarrow> nat \<Rightarrow> bool" where
  "fresh_buf s p b off len os \<longleftrightarrow> pbufs s p = Some b \<and> pb_next b = None \<and> pb_len b = len \<and> pb_tot_len b = len \<and>
     pb_payload b = Some (p, int off) \<and> 16 \<le> off \<and> pb_ref b = 1 \<and> \<not> is_custom (pb_flags b) \<and>
     pb_type b = PBUF_RAM \<and> (\<exists>e. extent s p = Some e \<and> off + unat len + os \<le> e)"

lemma fresh_buf_upd: "fresh_buf s p b off len os \<Longrightarrow> upd_in a l u s s' \<Longrightarrow> fresh_buf s' p b off len os"
  by (simp add: fresh_buf_def upd_in_simps)

lemma fresh_buf_chain:
  "fresh_buf s p b off len os \<Longrightarrow> pchain s (Some p) [(p, b)] \<and> totals_to 0 [(p, b)] \<and> all_one [(p, b)] \<and> chain_room s [(p, b)]"
proof -
  assume f: "fresh_buf s p b off len os"
  then obtain e where e: "extent s p = Some e" "off + unat len + os \<le> e" by (auto simp: fresh_buf_def)
  then have "int off + int (unat len) \<le> int e" by linarith
  then have "pb_room s p b" using f e by (auto simp: fresh_buf_def pb_room_def)
  then show ?thesis using f by (simp add: fresh_buf_def)
qed

lemma prealloc_size_bounds:
  "unat len \<le> unat max_length \<Longrightarrow> unat len \<le> unat (prealloc_size len max_length pcb fl first) \<and>
     unat (prealloc_size len max_length pcb fl first) \<le> unat max_length"
  using unat_u16_lt [of max_length] align4_ge(1) [of "unat len + 1460"]
  by (simp add: prealloc_size_def c_def unat_of_nat_u16)

lemma prealloc_spec:
  assumes inv: "net_inv Z B s" and le: "unat len \<le> unat max_length" "unat max_length \<le> 65000"
  shows "\<exists>r s'. tcp_pbuf_prealloc cff layer len max_length pcb fl first s = Some (r, s') \<and> net_inv Z B s' \<and>
    n_memp s' = n_memp s \<and>
    (case r of None \<Rightarrow> (\<forall>a. same_obj s s' a) \<and> net_live Z B s' = net_live Z B s
     | Some (p, os) \<Rightarrow> \<exists>b. fresh_buf s' p b (16 + align4 (layer_offset layer)) len (unat os) \<and>
         unat len + unat os \<le> unat max_length \<and>
         p \<notin> net_live Z B s \<and> net_live Z B s' = insert p (net_live Z B s) \<and> (\<forall>c. c \<noteq> p \<longrightarrow> same_obj s s' c))"
proof -
  define al where "al = prealloc_size len max_length pcb fl first"
  have al: "unat len \<le> unat al" "unat al \<le> unat max_length"
    using prealloc_size_bounds [OF le(1), of pcb fl first] by (simp_all add: al_def)
  have "ram_need layer al \<le> 65532"
    using al le align4_layer [of layer] by (simp add: ram_need_def) (simp add: align4_def)
  from pbuf_alloc_ram_spec [OF inv this, of cff] obtain r s1 where A:
    "pbuf_alloc cff layer al PBUF_RAM s = Some (r, s1)" "net_inv Z B s1" "cells s1 = cells s" "n_memp s1 = n_memp s"
    "case r of None \<Rightarrow> pbufs s1 = pbufs s \<and> net_live Z B s1 = net_live Z B s \<and> extent s1 = extent s
     | Some a \<Rightarrow> \<exists>b. pchain s1 (Some a) [(a, b)] \<and> pb_tot_len b = al \<and> pb_len b = al \<and>
         pb_payload b = Some (a, int (16 + align4 (layer_offset layer))) \<and> pb_type b = PBUF_RAM \<and>
         all_one [(a, b)] \<and> pb_room s1 a b \<and> a \<notin> net_live Z B s \<and>
         net_live Z B s1 = insert a (net_live Z B s) \<and>
         (\<forall>c. c \<noteq> a \<longrightarrow> pbufs s1 c = pbufs s c \<and> extent s1 c = extent s c)" by (elim exE conjE) (rule that; assumption)
  show ?thesis
  proof (cases r)
    case None
    then have "\<forall>a. same_obj s s1 a" using A by (simp add: same_obj_def)
    then show ?thesis using A None by (simp add: tcp_pbuf_prealloc_def al_def [symmetric])
  next
    case (Some p)
    with A(5) obtain b where b: "pbufs s1 p = Some b" "pb_next b = None" "pb_tot_len b = al" "pb_len b = al"
      "pb_payload b = Some (p, int (16 + align4 (layer_offset layer)))" "pb_type b = PBUF_RAM" "pb_ref b = 1"
      "\<not> is_custom (pb_flags b)" "pb_room s1 p b" "p \<notin> net_live Z B s" "net_live Z B s1 = insert p (net_live Z B s)"
      "\<forall>c. c \<noteq> p \<longrightarrow> pbufs s1 c = pbufs s c \<and> extent s1 c = extent s c" by auto
    define b' where "b' = b\<lparr>pb_len := len, pb_tot_len := len\<rparr>"
    have run: "tcp_pbuf_prealloc cff layer len max_length pcb fl first s = Some (Some (p, al - len), put_pbuf p b' s1)"
      using A(1) Some b by (simp add: tcp_pbuf_prealloc_def al_def [symmetric] b'_def)
    have os: "unat (al - len) = unat al - unat len" using al by (simp add: unat_u16_sub word_le_nat_alt)
    from b(5,9) obtain e where e: "extent s1 p = Some e" "int (16 + align4 (layer_offset layer)) + int (unat al) \<le> int e"
      using b(4) by (auto simp: pb_room_def)
    have "16 + align4 (layer_offset layer) + unat len + unat (al - len) \<le> e" using e(2) al os by linarith
    then have "fresh_buf (put_pbuf p b' s1) p b' (16 + align4 (layer_offset layer)) len (unat (al - len))"
      using b e by (simp add: fresh_buf_def b'_def)
    moreover have "net_inv Z B (put_pbuf p b' s1)" by (rule net_inv_put [OF A(2) b(1)]) (simp_all add: b'_def)
    moreover have "\<forall>c. c \<noteq> p \<longrightarrow> same_obj s (put_pbuf p b' s1) c" using b(12) A(3) by (simp add: same_obj_def)
    ultimately show ?thesis using run A(4) b(10,11) al os
      by (intro exI [of _ "Some (p, al - len)"] exI [of _ "put_pbuf p b' s1"]) auto
  qed
qed

lemma copy_data_spec:
  assumes f: "fresh_buf s p b off len os" and src: "mem_read s src (unat n) = Some d" and n: "l + unat n \<le> off + unat len + os"
  shows "\<exists>s'. copy_data (p, int l) src n s = Some s' \<and> upd_in p l (l + unat n) s s' \<and> mem_read s' (p, int l) (unat n) = Some d"
proof -
  from f obtain e where e: "extent s p = Some e" "off + unat len + os \<le> e" by (auto simp: fresh_buf_def)
  have ln: "length d = unat n" by (rule mem_read_length [OF src])
  from mem_write_upd [OF e(1), of l d] n e(2) ln show ?thesis by (simp add: copy_data_def src)
qed

text \<open>A pbuf that is released leaves the pool of segments alone.\<close>

lemma pbuf_dealloc_segs:
  assumes inv: "net_inv Z B s" and b: "pbufs s a = Some b" "\<not> is_custom (pb_flags b)"
    and run: "pbuf_dealloc cff a b s = Some s'"
  shows "seg_live Z B s' = seg_live Z B s"
proof -
  note I = net_invD [OF inv]
  have own: "pbuf_owned Z B s (pb_type b) a" using I(4) [OF b(1)] b(2) by (simp add: pbuf_placed_def)
  have nc: "pb_flags b AND PBUF_FLAG_IS_CUSTOM = 0" using b(2) by (simp add: is_custom_def)
  show ?thesis
  proof (cases "pb_type b = PBUF_RAM")
    case True
    then have "n_memp s' = n_memp s"
      using run nc by (auto simp: pbuf_dealloc_def Let_def split: addr.splits bind_splits)
    then show ?thesis by (simp add: seg_live_def)
  next
    case False
    define i where "i = (if pb_type b = PBUF_POOL then MEMP_PBUF_POOL else MEMP_PBUF)"
    obtain x where x: "a = MempAddr x" "x \<in> memp_live Z B i (n_memp s)"
      using own False by (cases "pb_type b") (auto simp: pbuf_owned_def i_def split: addr.splits)
    have i: "i < MEMP_MAX" "i \<noteq> MEMP_TCP_SEG" using pbuf_idx seg_idx by (auto simp: i_def)
    from memp_free_spec [OF I(1,2) i(1) x(2)] obtain m where m: "memp_free i (Some x) (n_memp s) = Some m"
      "\<forall>j < MEMP_MAX. j \<noteq> i \<longrightarrow> memp_free_list m j = memp_free_list (n_memp s) j" by blast
    have "n_memp s' = m"
      using run False x m(1) nc by (cases "pb_type b") (auto simp: pbuf_dealloc_def Let_def i_def)
    then show ?thesis using m(2) i seg_idx(1) by (simp add: seg_live_def memp_live_def)
  qed
qed

lemma pbuf_free_loop_segs:
  assumes "net_inv Z B s" "pchain s p xs" "chain_ok xs" "pbuf_free_loop cff p k s = Some (c, s')"
  shows "seg_live Z B s' = seg_live Z B s"
  using assms
proof (induction xs arbitrary: s p k)
  case Nil
  then show ?case by (subst (asm) pbuf_free_loop.simps) simp
next
  case (Cons x xs)
  obtain a b where x: "x = (a, b)" by (cases x)
  with Cons.prems have b: "p = Some a" "pbufs s a = Some b" "pchain s (pb_next b) xs"
    "pb_ref b \<noteq> 0" "\<not> is_custom (pb_flags b)" "chain_ok xs" by auto
  from pbuf_dealloc_spec [OF Cons.prems(1) b(2,5), of cff] obtain s1 where s1:
    "pbuf_dealloc cff a b s = Some s1" "net_inv Z B s1" "pbufs s1 = (pbufs s)(a := None)" by blast
  have "a \<notin> fst ` set xs" using pchain_distinct [OF Cons.prems(2)] x by simp
  then have pc: "pchain s1 (pb_next b) xs"
    using b(3) s1(3) by (intro pchain_cong [OF b(3)]) (auto simp: pchain_lookup image_iff)
  have "pbuf_free_loop cff p k s = (if pb_ref b = 1 then pbuf_free_loop cff (pb_next b) (k + 1) s1
      else Some (k, put_pbuf a (b\<lparr>pb_ref := pb_ref b - 1\<rparr>) s))"
    using b s1(1) by (subst pbuf_free_loop.simps) (simp add: Let_def)
  then show ?case
    using Cons.IH [OF s1(2) pc b(6)] Cons.prems(4) pbuf_dealloc_segs [OF Cons.prems(1) b(2,5) s1(1)]
    by (auto simp: seg_live_def split: if_splits)
qed

lemma pbuf_free_segs:
  "net_inv Z B s \<Longrightarrow> pchain s (Some p) xs \<Longrightarrow> chain_ok xs \<Longrightarrow> pbuf_free cff (Some p) s = Some (c, s') \<Longrightarrow>
   seg_live Z B s' = seg_live Z B s"
  by (rule pbuf_free_loop_segs [of Z B s "Some p" xs cff 0 c s']) (simp_all add: pbuf_free_def)

text \<open>The release of a chain that has no other owner.\<close>

lemma chain_free:
  assumes inv: "net_inv Z B s" and pc: "pchain s (Some p) xs" "all_one xs"
  shows "\<exists>c s'. pbuf_free cff (Some p) s = Some (c, s') \<and> net_inv Z B s' \<and>
    (\<forall>a \<in> fst ` set xs. pbufs s' a = None) \<and> net_live Z B s' = net_live Z B s - fst ` set xs \<and>
    seg_live Z B s' = seg_live Z B s \<and> (\<forall>a. a \<notin> fst ` set xs \<longrightarrow> same_obj s s' a)"
proof -
  note G = all_one_gone [OF pc(2)]
  from pbuf_free_spec [OF inv pc(1) conjunct2 [OF G], of cff] obtain s' where f:
    "pbuf_free cff (Some p) s = Some (of_nat (length xs), s')" "net_inv Z B s'" "pbufs s' = after_free xs (pbufs s)"
    "net_live Z B s' = net_live Z B s - fst ` set xs" "cells s' = cells s"
    "\<forall>a. a \<notin> fst ` set xs \<longrightarrow> extent s' a = extent s a" using G by auto
  have "pbufs s' = (\<lambda>a. if a \<in> fst ` set xs then None else pbufs s a)" using f(3) after_free_all [OF pc(2)] by simp
  then show ?thesis using f(1,2,4-6) pbuf_free_segs [OF inv pc(1) conjunct2 [OF G] f(1)]
    by (intro exI [of _ "of_nat (length xs)"] exI [of _ s']) (simp add: same_obj_def)
qed

text \<open>\<open>n\<close> spare bytes behind the payload of the last pbuf of a chain.\<close>

definition spare :: "net \<Rightarrow> chain \<Rightarrow> nat \<Rightarrow> bool" where
  "spare s xs n \<longleftrightarrow> (case last xs of (a, b) \<Rightarrow> \<exists>off e. pb_payload b = Some (a, int off) \<and> extent s a = Some e \<and>
     off + unat (pb_len b) + n \<le> e)"

lemma spare_same: "xs \<noteq> [] \<Longrightarrow> spare s xs n \<Longrightarrow> \<forall>a \<in> fst ` set xs. same_obj s s' a \<Longrightarrow> spare s' xs n"
proof -
  assume A: "xs \<noteq> []" "spare s xs n" "\<forall>a \<in> fst ` set xs. same_obj s s' a"
  obtain a b where l: "last xs = (a, b)" by (cases "last xs")
  then have "a \<in> fst ` set xs" using A(1) last_in_set [of xs] by (metis fst_conv image_eqI)
  then have "same_obj s s' a" using A(3) by blast
  then show "spare s' xs n" using A(2) l by (simp add: spare_def same_obj_def)
qed

lemma create_segment_spec:
  assumes inv: "net_inv Z B s" and f: "fresh_buf s p b 72 len os" and len: "unat len \<le> 65000"
    and d: "mem_read s (p, 72) (unat len) = Some (opts @ d)" "length opts = unat (LWIP_TCP_OPT_LENGTH optflags)"
  shows "\<exists>r s'. tcp_create_segment cff pcb p fl q optflags s = Some (r, s') \<and> net_inv Z B s' \<and>
    (\<forall>a. a \<noteq> p \<longrightarrow> same_obj s s' a) \<and>
    (case r of None \<Rightarrow> pbufs s' p = None \<and> net_live Z B s' = net_live Z B s - {p} \<and> seg_live Z B s' = seg_live Z B s
     | Some g \<Rightarrow> \<exists>b'. seg_rel s' g [(p, b')] q d \<and> spare s' [(p, b')] os \<and> sg_addr g \<notin> seg_live Z B s \<and>
         seg_live Z B s' = insert (sg_addr g) (seg_live Z B s) \<and> net_live Z B s' = net_live Z B s \<and>
         sg_flags g = optflags \<and> unat (sg_len g) = length d)"
proof -
  note F = f [unfolded fresh_buf_def]
  have ol: "unat (LWIP_TCP_OPT_LENGTH optflags) \<le> 16" by (simp add: LWIP_TCP_OPT_LENGTH_def)
  have lend: "length opts + length d = unat len" using mem_read_length [OF d(1)] by simp
  from F obtain e where e: "extent s p = Some e" "72 + unat len + os \<le> e" by auto
  from seg_malloc [OF inv] consider "memp_malloc MEMP_TCP_SEG (n_memp s) = Some (None, n_memp s)"
    | x m where "memp_malloc MEMP_TCP_SEG (n_memp s) = Some (Some x, m)" "net_inv Z B (s\<lparr>n_memp := m\<rparr>)"
      "net_live Z B (s\<lparr>n_memp := m\<rparr>) = net_live Z B s" "x \<notin> seg_live Z B s"
      "seg_live Z B (s\<lparr>n_memp := m\<rparr>) = insert x (seg_live Z B s)" by blast
  then show ?thesis
  proof cases
    case 1
    from fresh_buf_chain [OF f] chain_free [OF inv, of p "[(p, b)]" cff] obtain c s' where
      2: "pbuf_free cff (Some p) s = Some (c, s')"
      "net_inv Z B s'" "pbufs s' p = None" "net_live Z B s' = net_live Z B s - {p}" "seg_live Z B s' = seg_live Z B s"
      "\<forall>a. a \<noteq> p \<longrightarrow> same_obj s s' a" by auto
    then show ?thesis using 1 2 by (intro exI [of _ None] exI [of _ s']) (simp add: tcp_create_segment_def)
  next
    case (2 x m)
    let ?s1 = "s\<lparr>n_memp := m\<rparr>"
    let ?optlen = "LWIP_TCP_OPT_LENGTH optflags"
    define b' where "b' = b\<lparr>pb_payload := Some (p, 52), pb_len := len + 20, pb_tot_len := len + 20\<rparr>"
    define g where "g = \<lparr>sg_addr = x, sg_p = Some p, sg_len = len - ucast ?optlen, sg_oversize_left = 0,
      sg_flags = optflags, sg_tcphdr = (p, 52)\<rparr>"
    have l20: "unat (len + 20) = unat len + 20" using len by (simp add: unat_u16_add)
    let ?s2 = "put_pbuf p b' ?s1"
    have ph: "pbuf_header (Some p) TCP_HLEN ?s1 = Some (0, ?s2)"
      using F by (simp add: pbuf_header_def TCP_HLEN_def b'_def c_def)
    have i2: "net_inv Z B ?s2" by (rule net_inv_put [OF 2(2)]) (use F in \<open>auto simp: b'_def\<close>)
    have e2: "extent ?s2 p = Some e" using e by simp
    have "52 + 20 \<le> e" using e(2) by simp
    note H = set_hdr_common_upd [OF e2 this] 
    from H [of "t_local_port pcb" "t_remote_port pcb" "lwip_htonl q"] obtain s3 where
      3: "set_hdr_common (p, int 52) (t_local_port pcb) (t_remote_port pcb) (lwip_htonl q) ?s2 = Some s3"
      "upd_in p 52 (52 + 8) ?s2 s3" "ld32 s3 (p, int (52 + 4)) = Some (lwip_htonl q)" by blast
    have e3: "extent s3 p = Some e" using upd_in_simps(2) [OF 3(2)] e2 by simp
    from TCPH_upd(3) [OF e3 \<open>52 + 20 \<le> e\<close>, of "5 + ucast ?optlen div 4" fl] obtain s4 where
      4: "TCPH_HDRLEN_FLAGS_SET (p, int 52) (5 + ucast ?optlen div 4) fl s3 = Some s4" "upd_in p (52 + 12) (52 + 14) s3 s4"
      by blast
    have e4: "extent s4 p = Some e" using upd_in_simps(2) [OF 4(2)] e3 by simp
    have "52 + 20 = (52 + 18 :: nat) + 2" by simp
    from st16_upd [OF e4 this \<open>52 + 20 \<le> e\<close>, of 0] obtain s5 where
      5: "st16 (p, int (52 + 18)) 0 s4 = Some s5" "upd_in p (52 + 18) (52 + 20) s4 s5" by blast
    have u24: "upd_in p 52 72 ?s2 s4" by (rule upd_in_trans [OF 3(2) 4(2)]) simp_all
    have u: "upd_in p 52 72 ?s2 s5" by (rule upd_in_trans [OF u24 5(2)]) simp_all
    note U = upd_in_simps [OF u]
    have "ld32 s5 (p, int (52 + 4)) = ld32 s3 (p, int (52 + 4))"
      using ld_upd(2) [OF 4(2), of "52 + 4"] ld_upd(2) [OF 5(2), of "52 + 4"] by simp
    then have sq: "seg_seqno s5 g = Some q" using 3(3) by (simp add: seg_seqno_def g_def lwip_ntohl_def ptr_add_def)
    have run: "tcp_create_segment cff pcb p fl q optflags s = Some (Some g, s5)"
      using 2(1) F ph 3(1) 4(1) 5(1) by (simp add: tcp_create_segment_def Let_def b'_def g_def ptr_add_def)
    have so: "same_obj s s5 a" if "a \<noteq> p" for a
    proof -
      have "same_obj ?s2 s5 a" using same_obj_upd [OF u that] .
      then show ?thesis using that by (simp add: same_obj_def)
    qed
    have i5: "net_inv Z B s5" "net_live Z B s5 = net_live Z B s"
      using net_inv_upd_in [OF u i2] 2(3) by simp_all
    have sl: "seg_live Z B s5 = insert x (seg_live Z B s)" using 2(5) U(3) by (simp add: seg_live_def)
    have pb5: "pbufs s5 p = Some b'" using U(1) by simp
    have rd: "mem_read s5 (p, 72) (unat len) = Some (opts @ d)"
    proof -
      have "mem_read s5 (p, 72) (unat len) = mem_read ?s2 (p, 72) (unat len)"
        by (rule mem_read_upd [OF u]) simp
      also have "\<dots> = mem_read s (p, 72) (unat len)" using mem_read_cong [of ?s2 s] by simp
      finally show ?thesis using d(1) by simp
    qed
    have room: "pb_room s5 p b'"
    proof -
      have "int 52 + int (unat len + 20) \<le> int e" using e(2) by linarith
      then show ?thesis using e e2 U(2) l20 by (auto simp: pb_room_def b'_def)
    qed
    have lb: "unat (pb_len b') = 20 + unat len" using l20 by (simp add: b'_def)
    define hdr where "hdr = map (\<lambda>j. cells s5 p (52 + j)) [0..<20]"
    have cs: "map (\<lambda>j. cells s5 p (72 + j)) [0..<unat len] = opts @ d"
      using rd e U(2) e2 by (simp add: mem_read_def split: if_splits)
    have "[0..<20 + unat len] = [0..<20] @ map (\<lambda>j. 20 + j) [0..<unat len]"
      by (rule nth_equalityI) (auto simp: nth_append)
    then have "map (\<lambda>j. cells s5 p (52 + j)) [0..<20 + unat len] = hdr @ opts @ d"
      using cs by (simp add: hdr_def comp_def)
    moreover have "int 52 + int (20 + unat len) \<le> int e" using e(2) by linarith
    ultimately have "pb_data s5 b' = Some (hdr @ opts @ d)"
      using e U(2) e2 lb by (simp add: pb_data_def mem_read_def b'_def)
    then have cd: "chain_data s5 [(p, b')] = Some ((hdr @ opts) @ d)" by simp
    have lg: "unat (sg_len g) = length d"
      using lend d(2) ol by (simp add: g_def unat_u16_sub word_le_nat_alt unat_ucast_mod)
    have "seg_rel s5 g [(p, b')] q d" unfolding seg_rel_def
      by (rule exI [of _ p], rule exI [of _ b'], rule exI [of _ "[]"], rule exI [of _ 52], rule exI [of _ 52],
          rule exI [of _ "hdr @ opts"])
        (use pb5 F room cd lg sq lb d(2) lend ol in \<open>simp add: g_def b'_def hdr_def\<close>)
    moreover have "spare s5 [(p, b')] os"
      using e U(2) e2 lb by (auto simp: spare_def b'_def)
    moreover have "sg_addr g = x" "sg_flags g = optflags" by (simp_all add: g_def)
    ultimately show ?thesis using run so i5 sl 2(4) lg
      by (intro exI [of _ "Some g"] exI [of _ s5]) auto
  qed
qed

end
