(* ===== verification/TcpWrite.thy ===== *)
theory TcpWrite
  imports TcpQueue
begin

text \<open>
  \<open>tcp_write\<close> on a byte stream: queues of segments, their release, the loop that makes new
  segments, the room of the old last segment, and the whole function.
\<close>

section \<open>Queues\<close>

text \<open>The abstract view of a segment: its chain, its sequence number, its data.\<close>

type_synonym aseg = "chain \<times> u32 \<times> u8 list"

definition q_objs :: "aseg list \<Rightarrow> addr list" where
  "q_objs cs = concat (map (\<lambda>(xs, q, d). map fst xs) cs)"

definition q_data :: "aseg list \<Rightarrow> u8 list" where
  "q_data cs = concat (map (\<lambda>(xs, q, d). d) cs)"

lemma q_simps [simp]:
  "q_objs [] = []" "q_objs ((xs, q, d) # cs) = map fst xs @ q_objs cs" "q_objs (cs @ ds) = q_objs cs @ q_objs ds"
  "q_data [] = []" "q_data ((xs, q, d) # cs) = d @ q_data cs" "q_data (cs @ ds) = q_data cs @ q_data ds"
  by (simp_all add: q_objs_def q_data_def)

definition queue_rel :: "(nat \<Rightarrow> nat) \<Rightarrow> nat \<Rightarrow> net \<Rightarrow> tcp_seg list \<Rightarrow> aseg list \<Rightarrow> bool" where
  "queue_rel Z B s gs cs \<longleftrightarrow> list_all2 (\<lambda>g (xs, q, d). seg_rel s g xs q d) gs cs \<and> distinct (q_objs cs) \<and>
     distinct (map sg_addr gs) \<and> sg_addr ` set gs \<subseteq> seg_live Z B s"

lemma queue_rel_simps [simp]:
  "queue_rel Z B s [] cs \<longleftrightarrow> cs = []" "queue_rel Z B s gs [] \<longleftrightarrow> gs = []"
  by (auto simp: queue_rel_def list_all2_Nil list_all2_Nil2)

lemma queue_rel_Cons:
  "queue_rel Z B s (g # gs) ((xs, q, d) # cs) \<longleftrightarrow> seg_rel s g xs q d \<and> queue_rel Z B s gs cs \<and>
     distinct (map fst xs) \<and> fst ` set xs \<inter> set (q_objs cs) = {} \<and> sg_addr g \<notin> sg_addr ` set gs \<and>
     sg_addr g \<in> seg_live Z B s"
  by (auto simp: queue_rel_def)

lemma queue_rel_append:
  "length gs = length cs \<Longrightarrow> queue_rel Z B s (gs @ hs) (cs @ ds) \<longleftrightarrow> queue_rel Z B s gs cs \<and> queue_rel Z B s hs ds \<and>
     set (q_objs cs) \<inter> set (q_objs ds) = {} \<and> sg_addr ` set gs \<inter> sg_addr ` set hs = {}"
  unfolding queue_rel_def by (subst list_all2_append) auto

lemma queue_rel_length: "queue_rel Z B s gs cs \<Longrightarrow> length gs = length cs"
  by (auto simp: queue_rel_def dest: list_all2_lengthD)

lemma queue_rel_same:
  assumes "queue_rel Z B s gs cs" "\<forall>a \<in> set (q_objs cs). same_obj s s' a" "sg_addr ` set gs \<subseteq> seg_live Z B s'"
  shows "queue_rel Z B s' gs cs"
proof -
  have "list_all2 (\<lambda>g (xs, q, d). seg_rel s g xs q d) gs cs" using assms(1) by (simp add: queue_rel_def)
  then have "list_all2 (\<lambda>g (xs, q, d). seg_rel s' g xs q d) gs cs"
    using assms(2)
  proof (induction rule: list_all2_induct)
    case (Cons g gs c cs)
    obtain xs q d where c: "c = (xs, q, d)" by (cases c)
    have "seg_rel s' g xs q d" by (rule seg_rel_same) (use Cons c in auto)
    then show ?case using Cons c by simp
  qed simp
  then show ?thesis using assms(1,3) by (simp add: queue_rel_def)
qed

text \<open>The pbufs of a segment are live.\<close>

lemma owned_live: "pbuf_owned Z B s t a \<Longrightarrow> a \<in> net_live Z B s"
  by (auto simp: pbuf_owned_def net_live_def split: pbuf_type.splits addr.splits)

lemma chain_live:
  assumes "net_inv Z B s" "pchain s p xs" "all_one xs"
  shows "fst ` set xs \<subseteq> net_live Z B s"
proof
  fix a assume "a \<in> fst ` set xs"
  then obtain b where ab: "(a, b) \<in> set xs" by force
  have "pbuf_placed Z B s b a" by (rule net_invD(4) [OF assms(1) pchain_lookup [OF assms(2) ab]])
  moreover have "\<not> is_custom (pb_flags b)" using assms(3) ab by (auto simp: all_one_def)
  ultimately show "a \<in> net_live Z B s" by (auto simp: pbuf_placed_def owned_live)
qed

lemma queue_live:
  assumes "net_inv Z B s" "queue_rel Z B s gs cs"
  shows "set (q_objs cs) \<subseteq> net_live Z B s"
proof -
  have "list_all2 (\<lambda>g (xs, q, d). seg_rel s g xs q d) gs cs" using assms(2) by (simp add: queue_rel_def)
  then show ?thesis
  proof (induction rule: list_all2_induct)
    case (Cons g gs c cs)
    obtain xs q d where c: "c = (xs, q, d)" by (cases c)
    have "fst ` set xs \<subseteq> net_live Z B s"
      using Cons(1) c by (auto elim!: seg_relE intro: chain_live [OF assms(1), THEN subsetD])
    then show ?case using Cons c by simp
  qed simp
qed

text \<open>What a step leaves alone: every object that was live before it, and every foreign object.\<close>

definition outside :: "addr \<Rightarrow> bool" where
  "outside a \<longleftrightarrow> (\<exists>n. a = ExtAddr n)"

definition frame :: "(nat \<Rightarrow> nat) \<Rightarrow> nat \<Rightarrow> net \<Rightarrow> net \<Rightarrow> bool" where
  "frame Z B s s' \<longleftrightarrow> (\<forall>a. a \<in> net_live Z B s \<or> outside a \<longrightarrow> same_obj s s' a)"

lemma live_not_outside: "a \<in> net_live Z B s \<Longrightarrow> \<not> outside a"
  by (auto simp: net_live_def outside_def)

lemma frame_refl [simp]: "frame Z B s s" by (simp add: frame_def)

lemma frame_trans: "frame Z B s s' \<Longrightarrow> frame Z B s' s'' \<Longrightarrow> net_live Z B s \<subseteq> net_live Z B s' \<Longrightarrow> frame Z B s s''"
  by (auto simp: frame_def intro: same_obj_trans)

lemma frame_new: "\<forall>a. a \<noteq> p \<longrightarrow> same_obj s s' a \<Longrightarrow> p \<notin> net_live Z B s \<Longrightarrow> \<not> outside p \<Longrightarrow> frame Z B s s'"
  by (auto simp: frame_def)

lemma frame_queue:
  assumes "frame Z B s s'" "net_inv Z B s" "queue_rel Z B s gs cs" "seg_live Z B s \<subseteq> seg_live Z B s'"
  shows "queue_rel Z B s' gs cs"
  by (rule queue_rel_same [OF assms(3)])
    (use queue_live [OF assms(2,3)] assms in \<open>auto simp: frame_def queue_rel_def\<close>)

section \<open>Release of a queue\<close>

lemma tcp_seg_free_spec:
  assumes inv: "net_inv Z B s" and g: "seg_rel s g xs q d" "sg_addr g \<in> seg_live Z B s"
  shows "\<exists>s'. tcp_seg_free cff g s = Some s' \<and> net_inv Z B s' \<and> net_live Z B s' = net_live Z B s - fst ` set xs \<and>
    seg_live Z B s' = seg_live Z B s - {sg_addr g} \<and> (\<forall>a. a \<notin> fst ` set xs \<longrightarrow> same_obj s s' a)"
proof -
  from g(1) obtain p where p: "sg_p g = Some p" "pchain s (Some p) xs" "all_one xs" by (auto elim: seg_relE)
  from chain_free [OF inv p(2,3), of cff] obtain c s1 where 1: "pbuf_free cff (Some p) s = Some (c, s1)"
    "net_inv Z B s1" "net_live Z B s1 = net_live Z B s - fst ` set xs" "seg_live Z B s1 = seg_live Z B s"
    "\<forall>a. a \<notin> fst ` set xs \<longrightarrow> same_obj s s1 a" by blast
  from seg_release [OF 1(2)] g(2) 1(4) obtain m where m: "memp_free MEMP_TCP_SEG (Some (sg_addr g)) (n_memp s1) = Some m"
    "net_inv Z B (s1\<lparr>n_memp := m\<rparr>)" "net_live Z B (s1\<lparr>n_memp := m\<rparr>) = net_live Z B s1"
    "seg_live Z B (s1\<lparr>n_memp := m\<rparr>) = seg_live Z B s1 - {sg_addr g}" by blast
  then show ?thesis using 1 p(1)
    by (intro exI [of _ "s1\<lparr>n_memp := m\<rparr>"]) (simp add: tcp_seg_free_def same_obj_def)
qed

lemma tcp_segs_free_spec:
  assumes "net_inv Z B s" "queue_rel Z B s gs cs"
  shows "\<exists>s'. tcp_segs_free cff gs s = Some s' \<and> net_inv Z B s' \<and> net_live Z B s' = net_live Z B s - set (q_objs cs) \<and>
    seg_live Z B s' = seg_live Z B s - sg_addr ` set gs \<and> (\<forall>a. a \<notin> set (q_objs cs) \<longrightarrow> same_obj s s' a)"
  using assms
proof (induction gs arbitrary: s cs)
  case (Cons g gs)
  from queue_rel_length [OF Cons.prems(2)] obtain xs q d cs' where cs: "cs = (xs, q, d) # cs'"
    by (cases cs) auto
  from Cons.prems(2) cs have Q: "seg_rel s g xs q d" "queue_rel Z B s gs cs'" "fst ` set xs \<inter> set (q_objs cs') = {}"
    "sg_addr g \<notin> sg_addr ` set gs" "sg_addr g \<in> seg_live Z B s" by (auto simp: queue_rel_Cons)
  from tcp_seg_free_spec [OF Cons.prems(1) Q(1,5), of cff] obtain s1 where 1: "tcp_seg_free cff g s = Some s1"
    "net_inv Z B s1" "net_live Z B s1 = net_live Z B s - fst ` set xs" "seg_live Z B s1 = seg_live Z B s - {sg_addr g}"
    "\<forall>a. a \<notin> fst ` set xs \<longrightarrow> same_obj s s1 a" by blast
  have "\<forall>a \<in> set (q_objs cs'). same_obj s s1 a" using 1(5) Q(3) by blast
  moreover have "sg_addr ` set gs \<subseteq> seg_live Z B s1" 
    using Q(2,4) by (simp add: 1(4) subset_Diff_insert queue_rel_def)
  ultimately have "queue_rel Z B s1 gs cs'" by (rule queue_rel_same [OF Q(2)])
  from Cons.IH [OF 1(2) this] obtain s2 where 2: "tcp_segs_free cff gs s1 = Some s2" "net_inv Z B s2"
    "net_live Z B s2 = net_live Z B s1 - set (q_objs cs')" "seg_live Z B s2 = seg_live Z B s1 - sg_addr ` set gs"
    "\<forall>a. a \<notin> set (q_objs cs') \<longrightarrow> same_obj s1 s2 a" by blast
  have "\<forall>a. a \<notin> set (q_objs cs) \<longrightarrow> same_obj s s2 a" using 1(5) 2(5) cs by (auto intro: same_obj_trans)
  then show ?case using 1 2 cs by (intro exI [of _ s2]) auto
qed auto

section \<open>The loop for new segments\<close>

lemma fresh_clen: "fresh_buf s p b off len os \<Longrightarrow> pbuf_clen (Some p) s = Some 1"
  unfolding pbuf_clen_def
  by (subst pbuf_clen_loop.simps, subst pbuf_clen_loop.simps) (simp add: fresh_buf_def)

definition copying :: "u8 \<Rightarrow> bool" where "copying fl \<longleftrightarrow> fl AND TCP_WRITE_FLAG_COPY \<noteq> 0"

text \<open>The source of the data: an object that is live or outside the stack.\<close>

definition src_ok :: "(nat \<Rightarrow> nat) \<Rightarrow> nat \<Rightarrow> net \<Rightarrow> ptr \<Rightarrow> u8 list \<Rightarrow> bool" where
  "src_ok Z B s arg data \<longleftrightarrow> (fst arg \<in> net_live Z B s \<or> outside (fst arg)) \<and> mem_read s arg (length data) = Some data"

lemma src_ok_frame: "src_ok Z B s arg data \<Longrightarrow> frame Z B s s' \<Longrightarrow> net_live Z B s \<subseteq> net_live Z B s' \<Longrightarrow> src_ok Z B s' arg data"
  by (cases arg) (auto simp: src_ok_def frame_def mem_read_same)

lemma mem_read_slice:
  assumes "mem_read s (a, i) n = Some d" "j + k \<le> n"
  shows "mem_read s (a, i + int j) k = Some (take k (drop j d))"
proof -
  from assms(1) obtain e where e: "extent s a = Some e" "0 \<le> i" "i + int n \<le> int e"
    "d = map (\<lambda>x. cells s a (nat i + x)) [0..<n]" by (auto simp: mem_read_def split: option.splits if_splits)
  have "map (\<lambda>x. cells s a (nat (i + int j) + x)) [0..<k] = take k (drop j d)"
    by (rule nth_equalityI) (use e assms(2) in \<open>auto simp: nat_add_distrib add.assoc\<close>)
  then show ?thesis using e assms(2) by (simp add: mem_read_def)
qed

lemma src_part:
  "src_ok Z B s arg data \<Longrightarrow> j + k \<le> length data \<Longrightarrow> mem_read s (ptr_add arg j) k = Some (take k (drop j data))"
  by (cases arg) (auto simp: src_ok_def ptr_add_def intro: mem_read_slice)

lemma wr_seg_pbuf_spec:
  assumes inv: "net_inv Z B s" and c: "copying fl" and src: "src_ok Z B s arg data"
    and n: "unat (w_pos w) + unat n \<le> length data" "unat n \<le> unat m" "unat m \<le> 65000"
  shows "\<exists>r s'. wr_seg_pbuf cff arg fl m n pcb w s = Some (r, s') \<and> net_inv Z B s' \<and> seg_live Z B s' = seg_live Z B s \<and>
    frame Z B s s' \<and> net_live Z B s \<subseteq> net_live Z B s' \<and>
    (case r of None \<Rightarrow> net_live Z B s' = net_live Z B s
     | Some (p, os) \<Rightarrow> \<exists>b. fresh_buf s' p b 72 n (unat os) \<and> unat n + unat os \<le> unat m \<and> p \<notin> net_live Z B s \<and>
         mem_read s' (p, 72) (unat n) = Some (take (unat n) (drop (unat (w_pos w)) data)) \<and>
         net_live Z B s' = insert p (net_live Z B s))"
proof -
  from prealloc_spec [OF inv n(2,3), of cff PBUF_TRANSPORT pcb fl "w_queue w = []"] obtain r s1 where 1:
    "tcp_pbuf_prealloc cff PBUF_TRANSPORT n m pcb fl (w_queue w = []) s = Some (r, s1)" "net_inv Z B s1" "n_memp s1 = n_memp s"
    "case r of None \<Rightarrow> (\<forall>a. same_obj s s1 a) \<and> net_live Z B s1 = net_live Z B s
     | Some (p, os) \<Rightarrow> \<exists>b. fresh_buf s1 p b (16 + align4 (layer_offset PBUF_TRANSPORT)) n (unat os) \<and>
         unat n + unat os \<le> unat m \<and> p \<notin> net_live Z B s \<and> net_live Z B s1 = insert p (net_live Z B s) \<and>
         (\<forall>c. c \<noteq> p \<longrightarrow> same_obj s s1 c)" by blast
  have c': "fl AND TCP_WRITE_FLAG_COPY \<noteq> 0" using c by (simp add: copying_def)
  have sl: "seg_live Z B s1 = seg_live Z B s" using 1(3) by (simp add: seg_live_def)
  have off: "16 + align4 (layer_offset PBUF_TRANSPORT) = 72" by (simp add: align4_def)
  show ?thesis
  proof (cases r)
    case None
    then have "frame Z B s s1" using 1(4) by (auto simp: frame_def)
    then show ?thesis using None 1 sl c' by (intro exI [of _ None] exI [of _ s1]) (simp add: wr_seg_pbuf_def)
  next
    case (Some x)
    obtain p os where x: "x = (p, os)" by (cases x)
    from 1(4) Some x off obtain b where b: "fresh_buf s1 p b 72 n (unat os)" "unat n + unat os \<le> unat m"
      "p \<notin> net_live Z B s" "net_live Z B s1 = insert p (net_live Z B s)" "\<forall>c. c \<noteq> p \<longrightarrow> same_obj s s1 c" by auto
    have np: "\<not> outside p" using live_not_outside [of p Z B s1] b(4) by simp
    have f1: "frame Z B s s1" by (rule frame_new [OF b(5,3) np])
    have src1: "src_ok Z B s1 arg data" using src_ok_frame [OF src f1] b(4) by blast
    from src_part [OF src1 n(1)] have rd: "mem_read s1 (ptr_add arg (unat (w_pos w))) (unat n) =
        Some (take (unat n) (drop (unat (w_pos w)) data))" .
    from copy_data_spec [OF b(1) rd, of 72] obtain s2 where 2:
      "copy_data (p, int 72) (ptr_add arg (unat (w_pos w))) n s1 = Some s2" "upd_in p 72 (72 + unat n) s1 s2"
      "mem_read s2 (p, int 72) (unat n) = Some (take (unat n) (drop (unat (w_pos w)) data))" by auto
    have f12: "\<forall>c. c \<noteq> p \<longrightarrow> same_obj s s2 c" using b(5) same_obj_upd [OF 2(2)] by (metis same_obj_trans)
    have i2: "net_inv Z B s2" "net_live Z B s2 = net_live Z B s1" using net_inv_upd_in [OF 2(2) 1(2)] by simp_all
    have "wr_seg_pbuf cff arg fl m n pcb w s = Some (Some (p, os), s2)"
      using 1(1) Some x b(1) c' 2(1) by (simp add: wr_seg_pbuf_def fresh_buf_def)
    moreover have "seg_live Z B s2 = seg_live Z B s" using sl upd_in_simps(3) [OF 2(2)] by (simp add: seg_live_def)
    ultimately show ?thesis
      using i2 frame_new [OF f12 b(3) np] fresh_buf_upd [OF b(1) 2(2)] b(2-4) 2(3)
      by (intro exI [of _ "Some (p, os)"] exI [of _ s2]) auto
  qed
qed

text \<open>New segments: contiguous sequence numbers, one pbuf each.\<close>

fun seqs_from :: "u32 \<Rightarrow> aseg list \<Rightarrow> bool" where
  "seqs_from q [] \<longleftrightarrow> True"
| "seqs_from q ((xs, q', d) # cs) \<longleftrightarrow> q' = q \<and> seqs_from (q + of_nat (length d)) cs"

lemma seqs_from_append:
  "seqs_from q (cs @ ds) \<longleftrightarrow> seqs_from q cs \<and> seqs_from (q + of_nat (length (q_data cs))) ds"
  by (induction q cs rule: seqs_from.induct) (auto simp: add_ac)

text \<open>The spare room that the last segment of a queue claims is there and fits the segment.\<close>

definition tail_room :: "net \<Rightarrow> u16 \<Rightarrow> tcp_seg list \<Rightarrow> aseg list \<Rightarrow> bool" where
  "tail_room s m gs cs \<longleftrightarrow> (gs \<noteq> [] \<longrightarrow> spare s (fst (last cs)) (unat (sg_oversize_left (last gs))) \<and>
     unat (sg_len (last gs)) + seg_optlen (last gs) + unat (sg_oversize_left (last gs)) \<le> unat m)"

lemma ucast_add_u16:
  "unat a + unat b < 65536 \<Longrightarrow> (ucast (a + b :: u16) :: u32) = ucast a + of_nat (unat b)"
  by (simp add: word_eq_unat unat_ucast_mod unat_word_ariths unat_of_nat)

definition p3_result where
  "p3_result Z B m lbb len data cs w s ok w' s' ds hs \<longleftrightarrow>
     net_inv Z B s' \<and> frame Z B s s' \<and> net_live Z B s' = net_live Z B s \<union> set (q_objs ds) \<and>
     set (q_objs ds) \<inter> net_live Z B s = {} \<and> seg_live Z B s' = seg_live Z B s \<union> sg_addr ` set hs \<and>
     sg_addr ` set hs \<inter> seg_live Z B s = {} \<and> length hs = length ds \<and> w_queue w' = w_queue w @ hs \<and>
     queue_rel Z B s' (w_queue w @ hs) (cs @ ds) \<and> w_concat w' = w_concat w \<and>
     w_oversize_used w' = w_oversize_used w \<and> w_seg_last w' = w_seg_last w \<and>
     (ok \<longrightarrow> w_pos w' = len \<and> q_data ds = drop (unat (w_pos w)) data \<and> seqs_from (lbb + ucast (w_pos w)) ds \<and>
        unat (w_queuelen w') = unat (w_queuelen w) + length (q_objs ds) \<and> unat (w_queuelen w') \<le> 12 \<and>
        (if hs = [] then w_oversize w' = w_oversize w
         else w_oversize w' = sg_oversize_left (last hs) \<and> tail_room s' m hs ds))"

lemma p3_stop:
  assumes "net_inv Z B s" "queue_rel Z B s (w_queue w) cs" "\<not> ok"
    "net_inv Z B s'" "frame Z B s s'" "net_live Z B s' = net_live Z B s" "seg_live Z B s' = seg_live Z B s"
  shows "p3_result Z B m lbb len data cs w s ok (w\<lparr>w_oversize := os\<rparr>) s' [] []"
  using assms frame_queue [OF assms(5,1,2)] by (simp add: p3_result_def)

lemma queue_rel_last:
  assumes "queue_rel Z B s gs cs" "gs \<noteq> []"
  obtains cs' xs q d where "cs = cs' @ [(xs, q, d)]" "seg_rel s (last gs) xs q d"
    "queue_rel Z B s (butlast gs) cs'" "fst ` set xs \<inter> set (q_objs cs') = {}" "xs \<noteq> []"
    "sg_addr (last gs) \<notin> sg_addr ` set (butlast gs)" "sg_addr (last gs) \<in> seg_live Z B s"
proof -
  from queue_rel_length [OF assms(1)] assms(2) have "cs \<noteq> []" by auto
  then obtain cs' c where cs: "cs = cs' @ [c]" by (cases cs rule: rev_cases) auto
  obtain xs q d where c: "c = (xs, q, d)" by (cases c)
  have l: "length (butlast gs) = length cs'" using queue_rel_length [OF assms(1)] cs by simp
  have "queue_rel Z B s (butlast gs @ [last gs]) (cs' @ [(xs, q, d)])" using assms cs c by simp
  note R = this [unfolded queue_rel_append [OF l] queue_rel_Cons]
  then have "xs \<noteq> []" by (auto elim: seg_relE)
  then show thesis using R cs c by (intro that [of cs' xs q d]) auto
qed

lemma tail_room_frame:
  assumes "tail_room s m gs cs" "frame Z B s s'" "net_inv Z B s" "queue_rel Z B s gs cs"
  shows "tail_room s' m gs cs"
proof (cases "gs = []")
  case False
  from assms(4) False show ?thesis
  proof (rule queue_rel_last)
    fix cs' xs q d
    assume A: "cs = cs' @ [(xs, q, d)]" "xs \<noteq> []"
    then have "\<forall>a \<in> fst ` set xs. same_obj s s' a"
      using queue_live [OF assms(3,4)] assms(2) by (auto simp: frame_def)
    then show ?thesis using assms(1) A spare_same [OF A(2)] by (auto simp: tail_room_def)
  qed
qed (simp add: tail_room_def)

lemma wr_phase3_spec:
  assumes "net_inv Z B s" and c: "copying fl" and "src_ok Z B s arg data" and len: "length data = unat len"
    and m: "unat m \<le> 65000" and "unat (w_queuelen w) \<le> 12" "w_pos w \<le> len" "queue_rel Z B s (w_queue w) cs"
  shows "\<exists>ok w' s' ds hs. wr_phase3 cff arg len fl m pcb w s = Some (ok, w', s') \<and>
    p3_result Z B m (t_snd_lbb pcb) len data cs w s ok w' s' ds hs"
  using assms(1,3,6-8)
proof (induction "13 - unat (w_queuelen w)" arbitrary: w s cs rule: less_induct)
  case less
  note inv = less.prems(1) and src = less.prems(2) and ql = less.prems(3) and pos = less.prems(4) and Q = less.prems(5)
  show ?case
  proof (cases "w_pos w < len")
    case False
    then have "w_pos w = len" using pos by simp
    then have "p3_result Z B m (t_snd_lbb pcb) len data cs w s True w s [] []"
      using inv Q len ql by (simp add: p3_result_def)
    moreover have "wr_phase3 cff arg len fl m pcb w s = Some (True, w, s)"
      using False by (subst wr_phase3.simps) simp
    ultimately show ?thesis by blast
  next
    case True
    define n where "n = min (len - w_pos w) m"
    have un: "unat n = min (unat len - unat (w_pos w)) (unat m)"
      using True by (simp add: n_def unat_min_u16 unat_u16_sub)
    have pl: "unat (w_pos w) < unat len" using True by (simp add: word_less_nat_alt)
    have n: "unat (w_pos w) + unat n \<le> length data" "unat n \<le> unat m" using un pl len by auto
    let ?d = "take (unat n) (drop (unat (w_pos w)) data)"
    from wr_seg_pbuf_spec [OF inv c src n m, of cff pcb] obtain r s1 where 1:
      "wr_seg_pbuf cff arg fl m n pcb w s = Some (r, s1)" "net_inv Z B s1" "seg_live Z B s1 = seg_live Z B s"
      "frame Z B s s1" "net_live Z B s \<subseteq> net_live Z B s1"
      "case r of None \<Rightarrow> net_live Z B s1 = net_live Z B s
       | Some (p, os) \<Rightarrow> \<exists>b. fresh_buf s1 p b 72 n (unat os) \<and> unat n + unat os \<le> unat m \<and> p \<notin> net_live Z B s \<and>
         mem_read s1 (p, 72) (unat n) = Some ?d \<and> net_live Z B s1 = insert p (net_live Z B s)" by blast
    show ?thesis
    proof (cases r)
      case None
      have "wr_phase3 cff arg len fl m pcb w s = Some (False, w, s1)"
        using True 1(1) None by (subst wr_phase3.simps) (simp add: n_def [symmetric] Let_def)
      moreover have "p3_result Z B m (t_snd_lbb pcb) len data cs w s False (w\<lparr>w_oversize := w_oversize w\<rparr>) s1 [] []"
        by (rule p3_stop [OF inv Q]) (use 1 None in simp_all)
      ultimately show ?thesis by force
    next
      case (Some x)
      obtain p os where x: "x = (p, os)" by (cases x)
      with 1(6) Some obtain b where b: "fresh_buf s1 p b 72 n (unat os)" "unat n + unat os \<le> unat m"
        "p \<notin> net_live Z B s" "mem_read s1 (p, 72) (unat n) = Some ?d" "net_live Z B s1 = insert p (net_live Z B s)"
        by auto
      have np: "\<not> outside p" using live_not_outside [of p Z B s1] b(5) by simp
      note clen = fresh_clen [OF b(1)]
      let ?w1 = "w\<lparr>w_oversize := os\<rparr>"
      have q1: "unat (w_queuelen w + 1) = unat (w_queuelen w) + 1" using ql by (simp add: unat_u16_add)
      note fb = fresh_buf_chain [OF b(1)]
      show ?thesis
      proof (cases "w_queuelen w + 1 > 12")
        case big: True
        from chain_free [OF 1(2), of p "[(p, b)]" cff] fb obtain k s2 where 2: "pbuf_free cff (Some p) s1 = Some (k, s2)"
          "net_inv Z B s2" "net_live Z B s2 = net_live Z B s1 - {p}" "seg_live Z B s2 = seg_live Z B s1"
          "\<forall>a. a \<noteq> p \<longrightarrow> same_obj s1 s2 a" by auto
        have "net_live Z B s2 = net_live Z B s" using 2(3) b(3,5) by auto
        moreover have "frame Z B s s2"
          using 1(4) 2(5) b(3) np unfolding frame_def by (metis same_obj_trans)
        ultimately have "p3_result Z B m (t_snd_lbb pcb) len data cs w s False ?w1 s2 [] []"
          by (intro p3_stop [OF inv Q]) (use 1(3) 2 in simp_all)
        moreover have "wr_phase3 cff arg len fl m pcb w s = Some (False, ?w1, s2)"
          using True 1(1) Some x clen 2(1) big
          by (subst wr_phase3.simps) (simp add: n_def [symmetric] Let_def c_def)
        ultimately show ?thesis by blast
      next
        case small: False
        then have q12: "unat (w_queuelen w) + 1 \<le> 12" using q1 by (simp add: word_less_nat_alt)
        have lo: "length ([] :: u8 list) = unat (LWIP_TCP_OPT_LENGTH 0)" by (simp add: LWIP_TCP_OPT_LENGTH_def)
        have "unat n \<le> 65000" using n(2) m by simp
        from create_segment_spec [OF 1(2) b(1) this _ lo, of ?d cff pcb 0 "t_snd_lbb pcb + ucast (w_pos w)"] b(4)
        obtain r2 s2 where 2:
          "tcp_create_segment cff pcb p 0 (t_snd_lbb pcb + ucast (w_pos w)) 0 s1 = Some (r2, s2)" "net_inv Z B s2"
          "\<forall>a. a \<noteq> p \<longrightarrow> same_obj s1 s2 a"
          "case r2 of None \<Rightarrow> pbufs s2 p = None \<and> net_live Z B s2 = net_live Z B s1 - {p} \<and> seg_live Z B s2 = seg_live Z B s1
           | Some g \<Rightarrow> \<exists>b'. seg_rel s2 g [(p, b')] (t_snd_lbb pcb + ucast (w_pos w)) ?d \<and> spare s2 [(p, b')] (unat os) \<and>
               sg_addr g \<notin> seg_live Z B s1 \<and> seg_live Z B s2 = insert (sg_addr g) (seg_live Z B s1) \<and>
               net_live Z B s2 = net_live Z B s1 \<and> sg_flags g = 0 \<and> unat (sg_len g) = length ?d" by auto
        have fr: "frame Z B s s2"
          using 1(4) 2(3) b(3) np unfolding frame_def by (metis same_obj_trans)
        have unf: "wr_phase3 cff arg len fl m pcb w s = (case r2 of None \<Rightarrow> Some (False, ?w1, s2)
            | Some g \<Rightarrow> wr_phase3 cff arg len fl m pcb (?w1\<lparr>w_pos := w_pos w + n, w_queuelen := w_queuelen w + 1,
                w_queue := w_queue w @ [g\<lparr>sg_oversize_left := os\<rparr>]\<rparr>) s2)"
          using True 1(1) Some x clen 2(1) small
          by (subst wr_phase3.simps) (simp add: n_def [symmetric] Let_def c_def word_less_nat_alt q1 split: option.split)
        show ?thesis
        proof (cases r2)
          case None
          then have "net_live Z B s2 = net_live Z B s" using 2(4) b(3,5) by auto
          then have "p3_result Z B m (t_snd_lbb pcb) len data cs w s False ?w1 s2 [] []"
            by (intro p3_stop [OF inv Q]) (use 1(3) 2 None fr in simp_all)
          then show ?thesis using unf None by force
        next
          case (Some g)
          define q where "q = t_snd_lbb pcb + ucast (w_pos w)"
          define g' where "g' = g\<lparr>sg_oversize_left := os\<rparr>"
          define w2 where "w2 = ?w1\<lparr>w_pos := w_pos w + n, w_queuelen := w_queuelen w + 1, w_queue := w_queue w @ [g']\<rparr>"
          from 2(4) Some obtain b' where g: "seg_rel s2 g [(p, b')] q ?d" "spare s2 [(p, b')] (unat os)"
            "sg_addr g \<notin> seg_live Z B s1" "seg_live Z B s2 = insert (sg_addr g) (seg_live Z B s1)"
            "net_live Z B s2 = net_live Z B s1" "sg_flags g = 0" "unat (sg_len g) = length ?d" by (auto simp: q_def)
          let ?c = "([(p, b')], q, ?d)"
          have nl: "net_live Z B s2 = insert p (net_live Z B s)" using g(5) b(5) by simp
          have sl: "seg_live Z B s2 = insert (sg_addr g) (seg_live Z B s)" "sg_addr g \<notin> seg_live Z B s" using g(3,4) 1(3) by auto
          have Q2: "queue_rel Z B s2 (w_queue w) cs" by (rule frame_queue [OF fr inv Q]) (use sl in blast)
          have g': "seg_rel s2 g' [(p, b')] q ?d" by (rule seg_rel_fields [OF g(1)]) (simp_all add: g'_def)
          have Q1: "queue_rel Z B s2 [g'] [?c]"
            using g' sl(1) by (simp add: queue_rel_Cons g'_def)
          have dis: "p \<notin> set (q_objs cs)" "sg_addr g \<notin> sg_addr ` set (w_queue w)"
            using queue_live [OF inv Q] b(3) Q sl(2) by (auto simp: queue_rel_def)
          have Q3: "queue_rel Z B s2 (w_queue w @ [g']) (cs @ [?c])"
            using Q1 Q2 dis by (subst queue_rel_append [OF queue_rel_length [OF Q]]) (simp add: g'_def)
          have up: "unat (w_pos w + n) = unat (w_pos w) + unat n"
            using n(1) len unat_u16_lt [of len] by (simp add: unat_u16_add)
          have W: "w_pos w2 = w_pos w + n" "unat (w_queuelen w2) = unat (w_queuelen w) + 1" "w_queue w2 = w_queue w @ [g']"
            "w_oversize w2 = os" "w_concat w2 = w_concat w" "w_oversize_used w2 = w_oversize_used w" "w_seg_last w2 = w_seg_last w"
            using q1 by (simp_all add: w2_def)
          have "13 - unat (w_queuelen w2) < 13 - unat (w_queuelen w)" using W(2) ql by simp
          moreover have "src_ok Z B s2 arg data" using src_ok_frame [OF src fr] nl by blast
          moreover have "w_pos w2 \<le> len" using W(1) up n(1) len by (simp add: word_le_nat_alt)
          ultimately obtain ok w' s' ds hs where ih: "wr_phase3 cff arg len fl m pcb w2 s2 = Some (ok, w', s')"
            "p3_result Z B m (t_snd_lbb pcb) len data (cs @ [?c]) w2 s2 ok w' s' ds hs"
            using less.hyps [of w2 s2 "cs @ [?c]"] 2(2) W(2) q12 Q3 W(3) by auto
          note R = ih(2) [unfolded p3_result_def W]
          have dl: "length ?d = unat n" using n(1) by simp
          have tr: "tail_room s2 m [g'] [?c]"
            using g(2,6,7) b(2) dl by (simp add: tail_room_def g'_def LWIP_TCP_OPT_LENGTH_def)
          have tr': "tail_room s' m [g'] [?c]" by (rule tail_room_frame [OF tr _ 2(2) Q1]) (use R in blast)
          have tl: "tail_room s' m (g' # hs) (?c # ds)" if "hs = [] \<or> tail_room s' m hs ds"
            using that tr' R by (cases hs; cases ds) (auto simp: tail_room_def)
          have dat: "?d @ drop (unat (w_pos w + n)) data = drop (unat (w_pos w)) data"
            by (simp only: up) (metis append_take_drop_id drop_drop add.commute)
          have sq: "t_snd_lbb pcb + ucast (w_pos w + n) = q + of_nat (length ?d)"
            using ucast_add_u16 [of "w_pos w" n] n(1) len unat_u16_lt [of len] dl by (simp add: q_def)
          have "p3_result Z B m (t_snd_lbb pcb) len data cs w s ok w' s' (?c # ds) (g' # hs)"
            unfolding p3_result_def
          proof (intro conjI impI)
            show "frame Z B s s'" by (rule frame_trans [OF fr]) (use R nl in blast)+
            show "q_data (?c # ds) = drop (unat (w_pos w)) data" if ok using R that dat by simp
            show "seqs_from (t_snd_lbb pcb + ucast (w_pos w)) (?c # ds)" if ok
              using R that sq by (simp add: q_def [symmetric])
            show "if g' # hs = [] then w_oversize w' = w_oversize w
              else w_oversize w' = sg_oversize_left (last (g' # hs)) \<and> tail_room s' m (g' # hs) (?c # ds)" if ok
              using R that tl by (auto simp: g'_def split: if_splits)
          qed (use R nl sl b(3) in \<open>auto simp: g'_def\<close>)
          then show ?thesis using unf Some ih(1) by (auto simp: w2_def g'_def)
        qed
      qed
    qed
  qed
qed

end
