(* ===== verification/TcpTail.thy ===== *)
theory TcpTail
  imports TcpWrite
begin

text \<open>
  The two ways \<open>tcp_write\<close> extends the old last segment: its spare room is used, a pbuf is
  chained to it.
\<close>

section \<open>The spare room of a chain\<close>

lemma net_inv_bufs:
  assumes "net_inv Z B s" "n_memp s' = n_memp s" "n_heap s' = n_heap s" "stale_flags s' = stale_flags s"
    "\<And>a b'. pbufs s' a = Some b' \<Longrightarrow> \<exists>b. pbufs s a = Some b \<and> pb_type b' = pb_type b \<and> pb_flags b' = pb_flags b"
  shows "net_inv Z B s' \<and> net_live Z B s' = net_live Z B s \<and> seg_live Z B s' = seg_live Z B s"
proof -
  have "pbuf_placed Z B s' b' a" if "pbufs s' a = Some b'" for a b'
  proof -
    from assms(5) [OF that] obtain b where b: "pbufs s a = Some b" "pb_type b' = pb_type b" "pb_flags b' = pb_flags b"
      by blast
    then show ?thesis
      using net_invD(4) [OF assms(1) b(1)] pbuf_placed_cong [OF assms(2,3) b(2,3)] by simp
  qed
  then show ?thesis using assms(1-4) by (simp add: net_inv_def net_live_def seg_live_def)
qed

fun bump :: "u16 \<Rightarrow> chain \<Rightarrow> chain" where
  "bump u [] = []"
| "bump u [(a, b)] = [(a, b\<lparr>pb_tot_len := pb_tot_len b + u, pb_len := pb_len b + u\<rparr>)]"
| "bump u ((a, b) # y # xs) = (a, b\<lparr>pb_tot_len := pb_tot_len b + u\<rparr>) # bump u (y # xs)"

lemma bump_simps [simp]:
  "map fst (bump u xs) = map fst xs" "fst ` set (bump u xs) = fst ` set xs" "bump u xs = [] \<longleftrightarrow> xs = []"
proof -
  show m: "map fst (bump u xs) = map fst xs" by (induction u xs rule: bump.induct) auto
  then show "fst ` set (bump u xs) = fst ` set xs" by (metis list.set_map)
  show "bump u xs = [] \<longleftrightarrow> xs = []" by (induction u xs rule: bump.induct) auto
qed

lemma bump_all_one: "all_one (bump u xs) = all_one xs"
  by (induction u xs rule: bump.induct) auto

lemma bump_linked: "linked p (bump u xs) r = linked p xs r"
  by (induction u xs arbitrary: p rule: bump.induct) auto

lemma bump_totals:
  "totals_to 0 xs \<Longrightarrow> xs \<noteq> [] \<Longrightarrow> unat (pb_tot_len (snd (hd xs))) + unat u < 65536 \<Longrightarrow>
     totals_to 0 (bump u xs) \<and> unat (pb_tot_len (snd (hd (bump u xs)))) = unat (pb_tot_len (snd (hd xs))) + unat u"
proof (induction u xs rule: bump.induct)
  case (3 u a b y xs)
  obtain c d where y: "y = (c, d)" by (cases y)
  have t: "unat (pb_tot_len b) = unat (pb_len b) + unat (pb_tot_len d)" "totals_to 0 (y # xs)" using 3(2) y by auto
  then have "unat (pb_tot_len d) + unat u < 65536" using 3(4) by simp
  then have IH: "totals_to 0 (bump u (y # xs))" "unat (pb_tot_len (snd (hd (bump u (y # xs))))) = unat (pb_tot_len d) + unat u"
    using 3(1) t(2) y by auto
  obtain c' d' zs where z: "bump u (y # xs) = (c', d') # zs" using bump_simps(3) [of u "y # xs"] by (cases "bump u (y # xs)") auto
  show ?case using IH z t(1) 3(4) by (simp add: unat_u16_add)
qed (auto simp: unat_u16_add)

lemma bump_type:
  "(a, b') \<in> set (bump u xs) \<Longrightarrow> \<exists>b. (a, b) \<in> set xs \<and> pb_type b' = pb_type b \<and> pb_flags b' = pb_flags b"
  by (induction u xs rule: bump.induct) auto

lemma bump_hd:
  "xs = (a, b) # ys \<Longrightarrow> \<exists>b' zs. bump u xs = (a, b') # zs \<and> pb_payload b' = pb_payload b \<and>
     (unat (pb_len b') = unat (pb_len b) \<or> pb_len b' = pb_len b + u \<and> ys = [])"
  by (cases ys) auto

lemma upd_in_pbufs:
  assumes "upd_in a l u s s'"
  shows "upd_in a l u (s\<lparr>pbufs := f\<rparr>) (s'\<lparr>pbufs := f\<rparr>)"
proof -
  from assms obtain c where "s' = s\<lparr>cells := c\<rparr>" "\<forall>x. x \<noteq> a \<longrightarrow> c x = cells s x" "\<forall>i. i < l \<or> u \<le> i \<longrightarrow> c a i = cells s a i"
    by (auto simp: upd_in_def)
  then show ?thesis unfolding upd_in_def by (intro exI [of _ c]) simp
qed

lemma wr_bump_spec:
  assumes "pchain s (Some p) xs" "last xs = (a, b)" "pb_payload b = Some (a, int off)" "extent s a = Some e"
    "off + unat (pb_len b) + unat u \<le> e" "mem_read s arg (unat u) = Some bs"
  shows "\<exists>s'. wr_bump p arg u s = Some s' \<and>
    upd_in a (off + unat (pb_len b)) (off + unat (pb_len b) + unat u) (s\<lparr>pbufs := pbufs s ++ map_of (bump u xs)\<rparr>) s' \<and>
    mem_read s' (a, int (off + unat (pb_len b))) (unat u) = Some bs"
  using assms
proof (induction xs arbitrary: s p)
  case (Cons x xs)
  obtain c d where x: "x = (c, d)" by (cases x)
  with Cons.prems(1) have c: "p = c" "pbufs s c = Some d" "pchain s (pb_next d) xs" by auto
  let ?l = "off + unat (pb_len b)"
  show ?case
  proof (cases xs)
    case Nil
    with x Cons.prems(2) have cd: "c = a" "d = b" by auto
    have lb: "length bs = unat u" by (rule mem_read_length [OF Cons.prems(6)])
    from mem_write_upd [OF Cons.prems(4), of ?l bs] lb Cons.prems(5) obtain s1 where
      1: "mem_write s (a, int ?l) bs = Some s1" "upd_in a ?l (?l + unat u) s s1" "mem_read s1 (a, int ?l) (unat u) = Some bs"
      by auto
    let ?s' = "put_pbuf c (b\<lparr>pb_tot_len := pb_tot_len b + u, pb_len := pb_len b + u\<rparr>) s1"
    have "wr_bump p arg u s = Some ?s'"
      using c Nil cd Cons.prems(3,6) 1(1)
      by (subst wr_bump.simps) (simp add: copy_data_def ptr_add_def Let_def)
    moreover have "upd_in a ?l (?l + unat u) (s\<lparr>pbufs := pbufs s ++ map_of (bump u (x # xs))\<rparr>) ?s'"
      using upd_in_pbufs [OF 1(2)] upd_in_simps(1) [OF 1(2)] Nil x cd by (simp add: put_pbuf_def)
    moreover have "mem_read ?s' (a, int ?l) (unat u) = Some bs" using 1(3) mem_read_cong [of ?s' s1] by simp
    ultimately show ?thesis by blast
  next
    case (Cons y ys)
    obtain n where n: "pb_next d = Some n" using c(3) Cons by (cases y) auto
    define d' where "d' = d\<lparr>pb_tot_len := pb_tot_len d + u\<rparr>"
    let ?s1 = "put_pbuf c d' s"
    have dist: "c \<notin> fst ` set xs" using pchain_distinct [OF Cons.prems(1)] x by simp
    have pc: "pchain ?s1 (Some n) xs" using pchain_put_other [OF c(3) dist] n by simp
    have la: "last xs = (a, b)" using Cons.prems(2) Cons by simp
    have rd: "mem_read ?s1 arg (unat u) = Some bs" using Cons.prems(6) mem_read_cong [of ?s1 s] by simp
    have ex: "extent ?s1 a = Some e" using Cons.prems(4) by simp
    from Cons.IH [OF pc la Cons.prems(3) ex Cons.prems(5) rd] obtain s' where IH: "wr_bump n arg u ?s1 = Some s'"
      "upd_in a ?l (?l + unat u) (?s1\<lparr>pbufs := pbufs ?s1 ++ map_of (bump u xs)\<rparr>) s'"
      "mem_read s' (a, int ?l) (unat u) = Some bs" by blast
    have b: "bump u (x # xs) = (c, d') # bump u xs" using x Cons by (simp add: d'_def)
    have "c \<notin> dom (map_of (bump u xs))" using dist by (simp add: dom_map_of_conv_image_fst)
    then have "(pbufs s)(c \<mapsto> d') ++ map_of (bump u xs) = pbufs s ++ map_of (bump u (x # xs))"
      unfolding b by (auto simp: fun_eq_iff map_add_def split: option.split)
    then have "?s1\<lparr>pbufs := pbufs ?s1 ++ map_of (bump u xs)\<rparr> = s\<lparr>pbufs := pbufs s ++ map_of (bump u (x # xs))\<rparr>"
      by (simp add: put_pbuf_def)
    moreover have "wr_bump p arg u s = Some s'"
      using c n IH(1) by (subst wr_bump.simps) (simp add: Let_def d'_def)
    ultimately show ?thesis using IH(2,3) by auto
  qed
qed simp

lemma mem_read_glue:
  assumes "mem_read s (a, i) n = Some x" "mem_read s (a, i + int n) m = Some y"
  shows "mem_read s (a, i) (n + m) = Some (x @ y)"
proof -
  from assms obtain e where e: "extent s a = Some e" "0 \<le> i" "i + int n + int m \<le> int e"
    "x = map (\<lambda>k. cells s a (nat i + k)) [0..<n]" "y = map (\<lambda>k. cells s a (nat (i + int n) + k)) [0..<m]"
    by (auto simp: mem_read_def split: option.splits if_splits)
  have "map (\<lambda>k. cells s a (nat i + k)) [0..<n + m] = x @ y"
    by (rule nth_equalityI) (use e in \<open>auto simp: nth_append nat_add_distrib\<close>)
  then show ?thesis using e by (simp add: mem_read_def)
qed

lemma bump_last:
  "bump u (ys @ [(a, b)]) = map (\<lambda>(c, d). (c, d\<lparr>pb_tot_len := pb_tot_len d + u\<rparr>)) ys @
     [(a, b\<lparr>pb_tot_len := pb_tot_len b + u, pb_len := pb_len b + u\<rparr>)]"
proof (induction ys)
  case (Cons y ys)
  then show ?case by (cases y; cases ys) auto
qed simp

lemma chain_data_map_tot:
  "chain_data s (map (\<lambda>(c, d). (c, d\<lparr>pb_tot_len := f d\<rparr>)) ys) = chain_data s ys"
  by (rule chain_data_cong) auto

lemma chain_data_bump:
  assumes d: "chain_data s xs = Some D" and cr: "chain_room s xs" and dist: "distinct (map fst xs)"
    and l: "last xs = (a, b)" "xs \<noteq> []" "pb_payload b = Some (a, int off)"
    and lu: "unat (pb_len b + u) = unat (pb_len b) + unat u"
    and up: "upd_in a (off + unat (pb_len b)) r s s'" "mem_read s' (a, int (off + unat (pb_len b))) (unat u) = Some bs"
  shows "chain_data s' (bump u xs) = Some (D @ bs)"
proof -
  from l(1,2) obtain ys where xs: "xs = ys @ [(a, b)]" by (metis append_butlast_last_id)
  have "a \<notin> fst ` set ys" using dist xs by auto
  then have so: "\<forall>c \<in> fst ` set ys. same_obj s s' c" using same_obj_upd [OF up(1)] by metis
  from d xs obtain D1 D2 where D: "chain_data s ys = Some D1" "pb_data s b = Some D2" "D = D1 @ D2"
    by (auto simp: chain_data_append split: bind_splits)
  have ys': "chain_data s' ys = Some D1" using chain_data_same [OF so] cr xs D(1) by simp
  have "mem_read s' (a, int off) (unat (pb_len b)) = Some D2"
    using mem_read_upd [OF up(1), of a "int off" "unat (pb_len b)"] D(2) l(3) by (simp add: pb_data_def)
  from mem_read_glue [OF this] up(2) have "mem_read s' (a, int off) (unat (pb_len b) + unat u) = Some (D2 @ bs)"
    by simp
  then have "pb_data s' (b\<lparr>pb_tot_len := pb_tot_len b + u, pb_len := pb_len b + u\<rparr>) = Some (D2 @ bs)"
    using l(3) lu by (simp add: pb_data_def)
  then show ?thesis using xs ys' D(3) by (simp add: bump_last chain_data_append chain_data_map_tot)
qed

lemma wr_bump_seg:
  assumes inv: "net_inv Z B s" and g: "seg_rel s g xs q d" and sp: "spare s xs n" "unat u \<le> n"
    and src: "mem_read s arg (unat u) = Some bs" and le: "unat (sg_len g) + unat u \<le> 65000"
  shows "\<exists>p s'. sg_p g = Some p \<and> wr_bump p arg u s = Some s' \<and> net_inv Z B s' \<and> net_live Z B s' = net_live Z B s \<and>
    seg_live Z B s' = seg_live Z B s \<and> (\<forall>c. c \<notin> fst ` set xs \<longrightarrow> same_obj s s' c) \<and>
    (\<forall>g'. sg_p g' = sg_p g \<and> sg_len g' = sg_len g + u \<and> sg_flags g' = sg_flags g \<and> sg_tcphdr g' = sg_tcphdr g \<longrightarrow>
       seg_rel s' g' (bump u xs) q (d @ bs)) \<and> spare s' (bump u xs) (n - unat u)"
  using g
proof (rule seg_relE)
  fix p b ys h off pre
  assume A: "sg_p g = Some p" "xs = (p, b) # ys" "pchain s (Some p) xs"
      "totals_to 0 xs" "all_one xs" "chain_room s xs" "sg_tcphdr g = (p, int h)"
      "chain_data s xs = Some (pre @ d)" "length d = unat (sg_len g)"
      "pb_payload b = Some (p, off)" "off + int (length pre) = int (h + 20 + seg_optlen g)" "off \<le> int h"
      "length pre \<le> unat (pb_len b)" "length pre \<le> 100" "seg_seqno s g = Some q"
  obtain a l where l: "last xs = (a, l)" by (cases "last xs")
  have lin: "(a, l) \<in> set xs" using l A(2) last_in_set [of xs] by simp
  from sp(1) l obtain lo e where lo: "pb_payload l = Some (a, int lo)" "extent s a = Some e" "lo + unat (pb_len l) + n \<le> e"
    by (auto simp: spare_def)
  have tot: "unat (pb_tot_len (snd (hd xs))) = length (pre @ d)"
    using totals_sum [of 0 p b ys] chain_data_length [OF A(8)] A(2,4) by simp
  have t6: "unat (pb_tot_len (snd (hd xs))) + unat u < 65536" using tot A(9,14) le by simp
  have "unat (pb_len l) \<le> length (pre @ d)"
    using chain_data_length [OF A(8)] lin member_le_sum_list [of "unat (pb_len l)" "map (\<lambda>(a, b). unat (pb_len b)) xs"]
    by force
  then have lu: "unat (pb_len l + u) = unat (pb_len l) + unat u" using t6 tot by (simp add: unat_u16_add)
  let ?l = "lo + unat (pb_len l)"
  let ?s1 = "s\<lparr>pbufs := pbufs s ++ map_of (bump u xs)\<rparr>"
  have "?l + unat u \<le> e" using lo(3) sp(2) by simp
  from wr_bump_spec [OF A(3) l lo(1,2) this src] obtain s' where
    1: "wr_bump p arg u s = Some s'" "upd_in a ?l (?l + unat u) ?s1 s'" "mem_read s' (a, int ?l) (unat u) = Some bs"
    by blast
  note U = upd_in_simps [OF 1(2)]
  have dist: "distinct (map fst xs)" by (rule pchain_distinct [OF A(3)])
  have mo: "pbufs s' c = Some c'" if "(c, c') \<in> set (bump u xs)" for c c'
    using that dist by (simp add: U(1) map_of_chain)
  have other: "pbufs s' c = pbufs s c" if "c \<notin> fst ` set xs" for c
  proof -
    have "c \<notin> dom (map_of (bump u xs))" using that by (simp add: dom_map_of_conv_image_fst)
    then show ?thesis by (simp add: U(1) map_add_dom_app_simps)
  qed
  have I: "net_inv Z B s' \<and> net_live Z B s' = net_live Z B s \<and> seg_live Z B s' = seg_live Z B s"
  proof (rule net_inv_bufs [OF inv])
    fix c c' assume c: "pbufs s' c = Some c'"
    show "\<exists>b. pbufs s c = Some b \<and> pb_type c' = pb_type b \<and> pb_flags c' = pb_flags b"
    proof (cases "c \<in> fst ` set xs")
      case True
      then have "c \<in> fst ` set (bump u xs)" by simp
      then obtain c'' where "(c, c'') \<in> set (bump u xs)" by (metis imageE prod.collapse)
      moreover from this have "c'' = c'" using mo c by force
      ultimately show ?thesis using bump_type pchain_lookup [OF A(3)] by blast
    qed (use c other in auto)
  qed (simp_all add: U)
  have so: "same_obj s s' c" if "c \<notin> fst ` set xs" for c
  proof -
    have "c \<noteq> a" using that lin by force
    then show ?thesis using other [OF that] by (simp add: same_obj_def U)
  qed
  have up: "upd_in a ?l (?l + unat u) s (s'\<lparr>pbufs := pbufs s\<rparr>)" using upd_in_pbufs [OF 1(2), of "pbufs s"] by simp
  have cdc: "chain_data (s'\<lparr>pbufs := pbufs s\<rparr>) zs = chain_data s' zs" for zs by (rule chain_data_cong) simp_all
  have rdc: "mem_read (s'\<lparr>pbufs := pbufs s\<rparr>) = mem_read s'" by (rule mem_read_cong) simp_all
  have cd: "chain_data s' (bump u xs) = Some ((pre @ d) @ bs)"
    using chain_data_bump [OF A(8,6) dist l _ lo(1) lu up] 1(3) A(2) by (simp add: rdc cdc)
  have pc: "pchain s' (Some p) (bump u xs)"
    using A(3) mo by (auto simp: pchain_linked bump_linked)
  have T: "totals_to 0 (bump u xs)" using bump_totals [OF A(4) _ t6] A(2) by simp
  from bump_hd [OF A(2), of u] obtain b' zs where b': "bump u xs = (p, b') # zs" "pb_payload b' = pb_payload b"
    "unat (pb_len b') = unat (pb_len b) \<or> pb_len b' = pb_len b + u \<and> ys = []" by blast
  have lb': "length pre \<le> unat (pb_len b')"
    using b'(3) A(2,13) l lu by (cases ys) auto
  from l A(2) obtain ys' where xs: "xs = ys' @ [(a, l)]" by (metis append_butlast_last_id list.distinct(1))
  have lo16: "16 \<le> lo" using A(6) xs lo(1) by (auto simp: pb_room_def)
  have cr: "chain_room s' (bump u xs)"
  proof -
    have "chain_room s' (map (\<lambda>(c, d). (c, d\<lparr>pb_tot_len := pb_tot_len d + u\<rparr>)) ys')"
      using A(6) xs by (fastforce simp: chain_room_def pb_room_def U)
    moreover have "int lo + int (unat (pb_len l) + unat u) \<le> int e" using lo(3) sp(2) by linarith
    then have "pb_room s' a (l\<lparr>pb_tot_len := pb_tot_len l + u, pb_len := pb_len l + u\<rparr>)"
      using lo(1,2) lo16 lu by (simp add: pb_room_def U)
    ultimately show ?thesis using xs by (simp add: bump_last)
  qed
  have hl: "a = p \<Longrightarrow> h + 8 \<le> ?l"
  proof -
    assume "a = p"
    then have "l = b" using lin A(2) dist by (auto simp: image_iff)
    then have "int (lo + length pre) = int (h + 20 + seg_optlen g)" using A(10,11) lo(1) \<open>a = p\<close> by simp
    then have "lo + length pre = h + 20 + seg_optlen g" by (simp only: of_nat_eq_iff)
    then show ?thesis using A(13) \<open>l = b\<close> by simp
  qed
  have "int (h + 4) + int 4 \<le> int ?l" if "p = a" using hl [OF that [symmetric]] by linarith
  then have "p \<noteq> a \<or> int (?l + unat u) \<le> int (h + 4) \<or> int (h + 4) + int 4 \<le> int ?l" by blast
  from mem_read_upd [OF up this] have
    "mem_read (s'\<lparr>pbufs := pbufs s\<rparr>) (p, int (h + 4)) 4 = mem_read s (p, int (h + 4)) 4" .
  then have sq: "seg_seqno s' g = Some q" using A(7,15) by (simp add: seg_seqno_def ld32_def rdc)
  have sr: "seg_rel s' g' (bump u xs) q (d @ bs)"
    if "sg_p g' = sg_p g" "sg_len g' = sg_len g + u" "sg_flags g' = sg_flags g" "sg_tcphdr g' = sg_tcphdr g" for g'
  proof -
    have "seg_seqno s' g' = Some q" using sq that(4) by (simp add: seg_seqno_def)
    moreover have "length (d @ bs) = unat (sg_len g')"
      using that(2) A(9) le mem_read_length [OF src] by (simp add: unat_u16_add)
    moreover have "all_one (bump u xs)" using A(5) by (simp add: bump_all_one)
    ultimately show ?thesis unfolding seg_rel_def
      using that A(1,7,10,11,12,14) b' pc T cr cd lb'
      by (intro exI [of _ p] exI [of _ b'] exI [of _ zs] exI [of _ h] exI [of _ off] exI [of _ pre]) simp
  qed
  have "spare s' (bump u xs) (n - unat u)"
    using lo sp(2) lu xs by (simp add: spare_def bump_last U)
  then show ?thesis using A(1) 1(1) I so sr by (intro exI [of _ p] exI [of _ s']) blast
qed

section \<open>A pbuf chained to a segment\<close>

lemma cat_upd_type:
  "(a, b') \<in> set (cat_upd u t xs) \<Longrightarrow> \<exists>b. (a, b) \<in> set xs \<and> pb_type b' = pb_type b \<and> pb_flags b' = pb_flags b \<and>
     pb_payload b' = pb_payload b \<and> pb_len b' = pb_len b \<and> pb_ref b' = pb_ref b"
  by (induction u t xs rule: cat_upd.induct) auto

lemma wr_cat_seg:
  assumes inv: "net_inv Z B s" and g: "seg_rel s g xs q d" and f: "fresh_buf s c cb 16 n os"
    and e: "mem_read s (c, 16) (unat n) = Some e" and dj: "c \<notin> fst ` set xs" and le: "unat (sg_len g) + unat n \<le> 65000"
  shows "\<exists>s'. pbuf_cat (sg_p g) (Some c) s = Some s' \<and> net_inv Z B s' \<and> net_live Z B s' = net_live Z B s \<and>
    seg_live Z B s' = seg_live Z B s \<and> pbufs s' c = Some cb \<and> (\<forall>a. a \<notin> fst ` set xs \<longrightarrow> same_obj s s' a) \<and>
    (\<forall>g'. sg_p g' = sg_p g \<and> sg_len g' = sg_len g + n \<and> sg_flags g' = sg_flags g \<and> sg_tcphdr g' = sg_tcphdr g \<longrightarrow>
       seg_rel s' g' (cat_upd n c xs @ [(c, cb)]) q (d @ e)) \<and> spare s' (cat_upd n c xs @ [(c, cb)]) os"
  using g
proof (rule seg_relE)
  fix p b ys h off pre
  assume A: "sg_p g = Some p" "xs = (p, b) # ys" "pchain s (Some p) xs"
      "totals_to 0 xs" "all_one xs" "chain_room s xs" "sg_tcphdr g = (p, int h)"
      "chain_data s xs = Some (pre @ d)" "length d = unat (sg_len g)"
      "pb_payload b = Some (p, off)" "off + int (length pre) = int (h + 20 + seg_optlen g)" "off \<le> int h"
      "length pre \<le> unat (pb_len b)" "length pre \<le> 100" "seg_seqno s g = Some q"
  have tot: "unat (pb_tot_len (snd (hd xs))) = length (pre @ d)"
    using totals_sum [of 0 p b ys] chain_data_length [OF A(8)] A(2,4) by simp
  have F: "pb_tot_len cb = n" "pbufs s c = Some cb" "pb_payload cb = Some (c, 16)" "pb_len cb = n" "pb_ref cb = 1"
    "\<not> is_custom (pb_flags cb)" using f by (simp_all add: fresh_buf_def)
  note fc = fresh_buf_chain [OF f]
  have "unat (pb_tot_len (snd (hd xs))) + unat (pb_tot_len (snd (hd [(c, cb)]))) < 65536"
    using tot A(9,14) le F(1) by simp
  note fit = this
  have y: "pchain s (Some c) [(c, cb)]" "totals_to 0 [(c, cb)]" "fst ` set xs \<inter> fst ` set [(c, cb)] = {}"
    "n = pb_tot_len (snd (hd [(c, cb)]))" using fc dj F(1) by simp_all
  from pbuf_cat_spec [OF A(3,4) y(1,2,3) fit y(4)] obtain s' where
    1: "pbuf_cat (Some p) (Some c) s = Some s'" "s' = s\<lparr>pbufs := pbufs s ++ map_of (cat_upd n c xs)\<rparr>"
      "pchain s' (Some p) (cat_upd n c xs @ [(c, cb)])" "totals_to 0 (cat_upd n c xs @ [(c, cb)])" by blast
  let ?zs = "cat_upd n c xs @ [(c, cb)]"
  have dist: "distinct (map fst (cat_upd n c xs))" using pchain_distinct [OF A(3)] by simp
  have other: "pbufs s' a = pbufs s a" if "a \<notin> fst ` set xs" for a
  proof -
    have "a \<notin> dom (map_of (cat_upd n c xs))" using that by (simp add: dom_map_of_conv_image_fst)
    then show ?thesis by (simp add: 1(2) map_add_dom_app_simps)
  qed
  have I: "net_inv Z B s' \<and> net_live Z B s' = net_live Z B s \<and> seg_live Z B s' = seg_live Z B s"
  proof (rule net_inv_bufs [OF inv])
    fix a a' assume a: "pbufs s' a = Some a'"
    show "\<exists>b. pbufs s a = Some b \<and> pb_type a' = pb_type b \<and> pb_flags a' = pb_flags b"
    proof (cases "a \<in> fst ` set xs")
      case True
      then have "a \<in> fst ` set (cat_upd n c xs)" by simp
      then obtain a'' where a'': "(a, a'') \<in> set (cat_upd n c xs)" by (metis imageE prod.collapse)
      then have "a'' = a'" using map_of_chain [OF dist a'', of "pbufs s"] a by (simp add: 1(2))
      then show ?thesis using cat_upd_type [OF a''] pchain_lookup [OF A(3)] by blast
    qed (use a other in auto)
  qed (simp_all add: 1(2))
  have so: "\<forall>a. a \<notin> fst ` set xs \<longrightarrow> same_obj s s' a" using other by (simp add: same_obj_def 1(2))
  have cdx: "chain_data s' (cat_upd n c xs) = Some (pre @ d)"
    using chain_data_cong [of s' s "cat_upd n c xs" xs] cat_upd_same(1) A(8) 1(2) by simp
  moreover have "pb_data s' cb = Some e" using e F(3,4) mem_read_cong [of s' s] by (simp add: pb_data_def 1(2))
  ultimately have cd: "chain_data s' ?zs = Some (pre @ d @ e)" by (simp add: chain_data_append)
  have ao: "all_one ?zs"
    using A(5) F(5,6) cat_upd_type [of _ _ n c xs] by (fastforce simp: all_one_def)
  have cr: "chain_room s' ?zs"
  proof -
    have "pb_room s' a b'" if ab: "(a, b') \<in> set (cat_upd n c xs)" for a b'
    proof -
      from cat_upd_type [OF ab] obtain b0 where b0: "(a, b0) \<in> set xs" "pb_payload b' = pb_payload b0" "pb_len b' = pb_len b0" by blast
      then have "pb_room s a b0" using A(6) by (auto simp: chain_room_def)
      then show ?thesis using b0(2,3) by (simp add: pb_room_def 1(2))
    qed
    moreover have "pb_room s' c cb" using fc by (simp add: pb_room_def 1(2))
    ultimately show ?thesis by (auto simp: chain_room_def)
  qed
  have sq: "seg_seqno s' g = Some q"
    using A(15) mem_read_cong [of s' s] by (simp add: seg_seqno_def ld32_def 1(2))
  obtain b' zs where b': "cat_upd n c xs = (p, b') # zs" "pb_payload b' = pb_payload b" "pb_len b' = pb_len b"
    using A(2) by (cases ys) auto
  have "seg_rel s' g' ?zs q (d @ e)"
    if "sg_p g' = sg_p g" "sg_len g' = sg_len g + n" "sg_flags g' = sg_flags g" "sg_tcphdr g' = sg_tcphdr g" for g'
  proof -
    have "seg_seqno s' g' = Some q" using sq that(4) by (simp add: seg_seqno_def)
    moreover have "length (d @ e) = unat (sg_len g')"
      using that(2) A(9) le mem_read_length [OF e] by (simp add: unat_u16_add)
    ultimately show ?thesis unfolding seg_rel_def
      using that A(1,7,10-14) b' 1(3,4) ao cr cd
      by (intro exI [of _ p] exI [of _ b'] exI [of _ "zs @ [(c, cb)]"] exI [of _ h] exI [of _ off] exI [of _ pre]) simp
  qed
  moreover have "spare s' ?zs os" using f by (auto simp: spare_def fresh_buf_def 1(2))
  moreover have "pbufs s' c = Some cb" using other [OF dj] F(2) by simp
  ultimately show ?thesis using A(1) 1(1) I so by (intro exI [of _ s']) simp
qed

end
