(* ===== verification/TcpStream.thy ===== *)
theory TcpStream
  imports TcpTail
begin

text \<open>
  \<open>tcp_write\<close> as an append to the byte stream of a connection: all of the data is queued or
  nothing changes.
\<close>

section \<open>The first two phases\<close>

lemma prealloc_exact:
  "unat len = unat max_length \<Longrightarrow> prealloc_size len max_length pcb fl first = len"
  by (simp add: prealloc_size_def word_less_nat_alt)

lemma wr_phase1_eq:
  assumes "t_unsent_oversize pcb = sg_oversize_left g" "w_pos w = 0"
  shows "wr_phase1 g pcb len w = Some (w\<lparr>w_pos := min (sg_oversize_left g) len,
     w_oversize := sg_oversize_left g - min (sg_oversize_left g) len,
     w_oversize_used := min (sg_oversize_left g) len, w_seg_last := sg_oversize_left g > 0\<rparr>)"
  using assms by (auto simp: wr_phase1_def Let_def min_def word_gt_0)

text \<open>
  What phase 2 gives: no memory; nothing to do; or a pbuf \<open>c\<close> with the next bytes of the data, which
  has spare room only when it holds the rest of the data.
\<close>

definition p2_result where
  "p2_result Z B m g pcb data len w s r pcb' s' \<longleftrightarrow> net_inv Z B s' \<and> frame Z B s s' \<and> seg_live Z B s' = seg_live Z B s \<and>
     (case r of None \<Rightarrow> net_live Z B s' = net_live Z B s \<and> pcb' = pcb
      | Some w' \<Rightarrow> (w' = w \<and> pcb' = pcb \<and> s' = s) \<or>
         (\<exists>c cb n os. w' = w\<lparr>w_seg_last := True, w_pos := w_pos w + n, w_oversize := os,
              w_queuelen := w_queuelen w + 1, w_concat := Some c\<rparr> \<and>
            pcb' = put_last (g\<lparr>sg_oversize_left := sg_oversize_left g + os\<rparr>) pcb \<and>
            fresh_buf s' c cb 16 n (unat os) \<and> c \<notin> net_live Z B s \<and> net_live Z B s' = insert c (net_live Z B s) \<and>
            unat (w_pos w) + unat n \<le> unat len \<and> w_pos w < len \<and> (w_pos w + n \<noteq> len \<longrightarrow> os = 0) \<and>
            mem_read s' (c, 16) (unat n) = Some (take (unat n) (drop (unat (w_pos w)) data)) \<and>
            unat (sg_len g) + seg_optlen g + unat (w_oversize_used w) + unat n + unat os \<le> unat m))"

lemma wr_phase2_spec:
  assumes inv: "net_inv Z B s" and c: "copying fl" and src: "src_ok Z B s arg data" and len: "length data = unat len"
    and m: "unat m \<le> 65000" and room: "unat (sg_len g) + seg_optlen g + unat (w_oversize_used w) \<le> unat m"
  shows "\<exists>r pcb' s'. wr_phase2 cff arg len fl m g pcb w s = Some (r, pcb', s') \<and>
    p2_result Z B m g pcb data len w s r pcb' s'"
proof -
  define space where "space = m - (sg_len g + ucast (LWIP_TCP_OPT_LENGTH (sg_flags g))) - w_oversize_used w"
  have o16: "unat (ucast (LWIP_TCP_OPT_LENGTH (sg_flags g)) :: u16) = seg_optlen g"
    using unat_u8_lt [of "LWIP_TCP_OPT_LENGTH (sg_flags g)"] by (simp add: unat_ucast_mod)
  have a1: "unat (sg_len g + ucast (LWIP_TCP_OPT_LENGTH (sg_flags g))) = unat (sg_len g) + seg_optlen g"
    using room m o16 by (simp add: unat_u16_add)
  have a2: "unat (m - (sg_len g + ucast (LWIP_TCP_OPT_LENGTH (sg_flags g)))) = unat m - (unat (sg_len g) + seg_optlen g)"
    using room a1 by (simp add: unat_u16_sub word_le_nat_alt)
  have sp: "unat space = unat m - (unat (sg_len g) + seg_optlen g) - unat (w_oversize_used w)"
    unfolding space_def using room a2 by (subst unat_u16_sub) (simp_all add: word_le_nat_alt)
  show ?thesis
  proof (cases "w_pos w < len \<and> space > 0 \<and> sg_len g > 0")
    case False
    then have "wr_phase2 cff arg len fl m g pcb w s = Some (Some w, pcb, s)"
      by (simp only: wr_phase2_def Let_def space_def [symmetric] if_False)
    then show ?thesis using inv by (intro exI [of _ "Some w"] exI [of _ pcb] exI [of _ s]) (simp add: p2_result_def)
  next
    case True
    define n where "n = min space (len - w_pos w)"
    have un: "unat n = min (unat space) (unat len - unat (w_pos w))" "unat (w_pos w) < unat len"
      using True unat_u16_sub [of "w_pos w" len] by (simp_all add: n_def unat_min_u16 word_less_nat_alt word_le_nat_alt)
    have "unat n \<le> unat space" "unat space \<le> 65000" using un sp m by simp_all
    from prealloc_spec [OF inv this, of cff PBUF_RAW pcb fl True] obtain r s1 where 1:
      "tcp_pbuf_prealloc cff PBUF_RAW n space pcb fl True s = Some (r, s1)" "net_inv Z B s1" "n_memp s1 = n_memp s"
      "case r of None \<Rightarrow> (\<forall>a. same_obj s s1 a) \<and> net_live Z B s1 = net_live Z B s
       | Some (p, os) \<Rightarrow> \<exists>b. fresh_buf s1 p b (16 + align4 (layer_offset PBUF_RAW)) n (unat os) \<and>
         unat n + unat os \<le> unat space \<and> p \<notin> net_live Z B s \<and> net_live Z B s1 = insert p (net_live Z B s) \<and>
         (\<forall>c. c \<noteq> p \<longrightarrow> same_obj s s1 c)" by blast
    have c': "fl AND TCP_WRITE_FLAG_COPY \<noteq> 0" using c by (simp add: copying_def)
    have sl: "seg_live Z B s1 = seg_live Z B s" using 1(3) by (simp add: seg_live_def)
    show ?thesis
    proof (cases r)
      case None
      then have "frame Z B s s1" using 1(4) by (auto simp: frame_def)
      moreover have "wr_phase2 cff arg len fl m g pcb w s = Some (None, pcb, s1)"
        using True 1(1) None c' by (simp add: wr_phase2_def space_def [symmetric] n_def [symmetric] Let_def)
      ultimately show ?thesis using None 1 sl
        by (intro exI [of _ None] exI [of _ pcb] exI [of _ s1]) (simp add: p2_result_def)
    next
      case (Some x)
      obtain p os where x: "x = (p, os)" by (cases x)
      from 1(4) Some x obtain b where b: "fresh_buf s1 p b 16 n (unat os)" "unat n + unat os \<le> unat space"
        "p \<notin> net_live Z B s" "net_live Z B s1 = insert p (net_live Z B s)" "\<forall>c. c \<noteq> p \<longrightarrow> same_obj s s1 c"
        by (auto simp: align4_def)
      have np: "\<not> outside p" using live_not_outside [of p Z B s1] b(4) by simp
      have f1: "frame Z B s s1" by (rule frame_new [OF b(5,3) np])
      have src1: "src_ok Z B s1 arg data" using src_ok_frame [OF src f1] b(4) by blast
      have pn: "unat (w_pos w) + unat n \<le> length data" using un len by simp
      from src_part [OF src1 pn] have rd: "mem_read s1 (ptr_add arg (unat (w_pos w))) (unat n) =
          Some (take (unat n) (drop (unat (w_pos w)) data))" .
      from copy_data_spec [OF b(1) rd, of 16] obtain s2 where 2:
        "copy_data (p, int 16) (ptr_add arg (unat (w_pos w))) n s1 = Some s2" "upd_in p 16 (16 + unat n) s1 s2"
        "mem_read s2 (p, int 16) (unat n) = Some (take (unat n) (drop (unat (w_pos w)) data))" by auto
      have f12: "\<forall>c. c \<noteq> p \<longrightarrow> same_obj s s2 c" using b(5) same_obj_upd [OF 2(2)] by (metis same_obj_trans)
      have i2: "net_inv Z B s2" "net_live Z B s2 = net_live Z B s1" using net_inv_upd_in [OF 2(2) 1(2)] by simp_all
      have fb2: "fresh_buf s2 p b 16 n (unat os)" by (rule fresh_buf_upd [OF b(1) 2(2)])
      have cl: "pbuf_clen (Some p) s2 = Some 1" by (rule fresh_clen [OF fb2])
      let ?w' = "w\<lparr>w_seg_last := True, w_pos := w_pos w + n, w_oversize := os, w_queuelen := w_queuelen w + 1, w_concat := Some p\<rparr>"
      let ?pcb' = "put_last (g\<lparr>sg_oversize_left := sg_oversize_left g + os\<rparr>) pcb"
      have run: "wr_phase2 cff arg len fl m g pcb w s = Some (Some ?w', ?pcb', s2)"
        using True 1(1) Some x c' 2(1) b(1) cl
        by (simp add: wr_phase2_def space_def [symmetric] n_def [symmetric] Let_def fresh_buf_def)
      have os0: "os = 0" if "w_pos w + n \<noteq> len"
      proof -
        have "unat n = unat space"
        proof (rule ccontr)
          assume "unat n \<noteq> unat space"
          then have "unat n = unat len - unat (w_pos w)" using un by simp
          then have "unat (w_pos w + n) = unat len" using un unat_u16_lt [of len] by (simp add: unat_u16_add)
          then show False using that by (simp add: word_eq_unat)
        qed
        then show ?thesis using b(2) by (simp add: word_eq_unat)
      qed
      have "p2_result Z B m g pcb data len w s (Some ?w') ?pcb' s2"
        unfolding p2_result_def option.case
      proof (intro conjI disjI2)
        show "frame Z B s s2" by (rule frame_new [OF f12 b(3) np])
        show "seg_live Z B s2 = seg_live Z B s" using sl upd_in_simps(3) [OF 2(2)] by (simp add: seg_live_def)
        show "\<exists>c cb n' os'. ?w' = w\<lparr>w_seg_last := True, w_pos := w_pos w + n', w_oversize := os',
              w_queuelen := w_queuelen w + 1, w_concat := Some c\<rparr> \<and>
            ?pcb' = put_last (g\<lparr>sg_oversize_left := sg_oversize_left g + os'\<rparr>) pcb \<and>
            fresh_buf s2 c cb 16 n' (unat os') \<and> c \<notin> net_live Z B s \<and> net_live Z B s2 = insert c (net_live Z B s) \<and>
            unat (w_pos w) + unat n' \<le> unat len \<and> w_pos w < len \<and> (w_pos w + n' \<noteq> len \<longrightarrow> os' = 0) \<and>
            mem_read s2 (c, 16) (unat n') = Some (take (unat n') (drop (unat (w_pos w)) data)) \<and>
            unat (sg_len g) + seg_optlen g + unat (w_oversize_used w) + unat n' + unat os' \<le> unat m"
          using fb2 b(2-4) i2(2) pn len os0 2(3) True sp room
          by (intro exI [of _ p] exI [of _ b] exI [of _ n] exI [of _ os]) auto
      qed (rule i2)
      then show ?thesis using run by blast
    qed
  qed
qed

section \<open>The old last segment at the end\<close>

lemma wr_commit1_spec:
  assumes inv: "net_inv Z B s" and l: "t_unsent pcb \<noteq> []" "last (t_unsent pcb) = g"
    and g: "seg_rel s g xs q d" "spare s xs n" and u: "unat (w_oversize_used w) \<le> n"
      "w_oversize_used w \<le> sg_oversize_left g" "unat (sg_len g) + unat (w_oversize_used w) \<le> 65000"
    and src: "mem_read s arg (unat (w_oversize_used w)) = Some bs"
  shows "\<exists>s' xs' g'. wr_commit1 arg w pcb s =
      Some (pcb\<lparr>t_unsent := butlast (t_unsent pcb) @ [g'], t_unsent_oversize := w_oversize w\<rparr>, s') \<and>
    g' = g\<lparr>sg_len := sg_len g + w_oversize_used w, sg_oversize_left := sg_oversize_left g - w_oversize_used w\<rparr> \<and>
    net_inv Z B s' \<and> net_live Z B s' = net_live Z B s \<and> seg_live Z B s' = seg_live Z B s \<and>
    seg_rel s' g' xs' q (d @ bs) \<and> spare s' xs' (n - unat (w_oversize_used w)) \<and> map fst xs' = map fst xs \<and>
    (\<forall>a. a \<notin> fst ` set xs \<longrightarrow> same_obj s s' a)"
proof -
  let ?u = "w_oversize_used w"
  define g' where "g' = g\<lparr>sg_len := sg_len g + ?u, sg_oversize_left := sg_oversize_left g - ?u\<rparr>"
  show ?thesis
  proof (cases "?u = 0")
    case True
    then have gg: "g' = g" by (simp add: g'_def)
    have "bs = []" using src True mem_read_length [OF src] by simp
    moreover have "butlast (t_unsent pcb) @ [g] = t_unsent pcb" using l by (metis append_butlast_last_id)
    then have "wr_commit1 arg w pcb s = Some (pcb\<lparr>t_unsent := butlast (t_unsent pcb) @ [g'], t_unsent_oversize := w_oversize w\<rparr>, s)"
      using True gg by (simp add: wr_commit1_def)
    ultimately show ?thesis using True gg g inv
      by (intro exI [of _ s] exI [of _ xs] exI [of _ g']) (simp add: g'_def)
  next
    case False
    from wr_bump_seg [OF inv g u(1) src u(3)] obtain p s' where 1: "sg_p g = Some p" "wr_bump p arg ?u s = Some s'"
      "net_inv Z B s'" "net_live Z B s' = net_live Z B s" "seg_live Z B s' = seg_live Z B s"
      "\<forall>c. c \<notin> fst ` set xs \<longrightarrow> same_obj s s' c"
      "\<forall>g'. sg_p g' = sg_p g \<and> sg_len g' = sg_len g + ?u \<and> sg_flags g' = sg_flags g \<and> sg_tcphdr g' = sg_tcphdr g \<longrightarrow>
         seg_rel s' g' (bump ?u xs) q (d @ bs)" "spare s' (bump ?u xs) (n - unat ?u)" by blast
    have "wr_commit1 arg w pcb s = Some (pcb\<lparr>t_unsent := butlast (t_unsent pcb) @ [g'], t_unsent_oversize := w_oversize w\<rparr>, s')"
      using False 1(1,2) u(2) l(2) by (simp add: wr_commit1_def put_last_def g'_def word_gt_0)
    moreover have "seg_rel s' g' (bump ?u xs) q (d @ bs)" using 1(7) by (simp add: g'_def)
    ultimately show ?thesis using 1
      by (intro exI [of _ s'] exI [of _ "bump ?u xs"] exI [of _ g']) (simp add: g'_def)
  qed
qed

lemma wr_commit2_spec:
  assumes inv: "net_inv Z B s" and l: "t_unsent pcb \<noteq> []" "last (t_unsent pcb) = g"
    and g: "seg_rel s g xs q d" and c: "w_concat w = Some c" "fresh_buf s c cb 16 n os" "mem_read s (c, 16) (unat n) = Some e"
      "c \<notin> fst ` set xs" and le: "unat (sg_len g) + unat n \<le> 65000"
  shows "\<exists>s' xs' g'. wr_commit2 w pcb s = Some (pcb\<lparr>t_unsent := butlast (t_unsent pcb) @ [g']\<rparr>, s') \<and>
    g' = g\<lparr>sg_len := sg_len g + n\<rparr> \<and>
    net_inv Z B s' \<and> net_live Z B s' = net_live Z B s \<and> seg_live Z B s' = seg_live Z B s \<and>
    seg_rel s' g' xs' q (d @ e) \<and> spare s' xs' os \<and> map fst xs' = map fst xs @ [c] \<and>
    (\<forall>a. a \<notin> fst ` set xs \<longrightarrow> same_obj s s' a)"
proof -
  define g' where "g' = g\<lparr>sg_len := sg_len g + n\<rparr>"
  from wr_cat_seg [OF inv g c(2,3,4) le] obtain s' where 1: "pbuf_cat (sg_p g) (Some c) s = Some s'" "net_inv Z B s'"
    "net_live Z B s' = net_live Z B s" "seg_live Z B s' = seg_live Z B s" "pbufs s' c = Some cb"
    "\<forall>a. a \<notin> fst ` set xs \<longrightarrow> same_obj s s' a"
    "\<forall>g'. sg_p g' = sg_p g \<and> sg_len g' = sg_len g + n \<and> sg_flags g' = sg_flags g \<and> sg_tcphdr g' = sg_tcphdr g \<longrightarrow>
       seg_rel s' g' (cat_upd n c xs @ [(c, cb)]) q (d @ e)" "spare s' (cat_upd n c xs @ [(c, cb)]) os" by blast
  have "pb_tot_len cb = n" using c(2) by (simp add: fresh_buf_def)
  then have "wr_commit2 w pcb s = Some (pcb\<lparr>t_unsent := butlast (t_unsent pcb) @ [g']\<rparr>, s')"
    using c(1) l 1(1,5) by (simp add: wr_commit2_def put_last_def g'_def)
  moreover have "seg_rel s' g' (cat_upd n c xs @ [(c, cb)]) q (d @ e)" using 1(7) by (simp add: g'_def)
  ultimately show ?thesis using 1
    by (intro exI [of _ s'] exI [of _ "cat_upd n c xs @ [(c, cb)]"] exI [of _ g']) (simp add: g'_def)
qed

section \<open>Changes of one segment of a queue\<close>

lemma queue_rel_mid:
  assumes Q: "queue_rel Z B s (gs1 @ g # gs2) (cs1 @ (xs, q, d) # cs2)" and l: "length gs1 = length cs1"
    and g': "seg_rel s' g' xs' q d'" "sg_addr g' = sg_addr g" "distinct (map fst xs')"
    and N: "fst ` set xs' \<subseteq> fst ` set xs \<union> N" "N \<inter> set (q_objs (cs1 @ cs2)) = {}"
    and so: "\<forall>a. a \<notin> fst ` set xs \<longrightarrow> same_obj s s' a" and sl: "seg_live Z B s \<subseteq> seg_live Z B s'"
  shows "queue_rel Z B s' (gs1 @ g' # gs2) (cs1 @ (xs', q, d') # cs2)"
proof -
  note R = Q [unfolded queue_rel_append [OF l] queue_rel_Cons q_simps]
  have dj: "fst ` set xs \<inter> set (q_objs cs1) = {}" "fst ` set xs \<inter> set (q_objs cs2) = {}"
    using R by (simp_all add: Int_Un_distrib Int_commute)
  have so12: "\<forall>a \<in> set (q_objs cs1). same_obj s s' a" "\<forall>a \<in> set (q_objs cs2). same_obj s s' a"
    by (intro ballI so [rule_format], use dj in blast)+
  have 1: "queue_rel Z B s' gs1 cs1"
    by (rule queue_rel_same [OF _ so12(1)]) (use R sl in \<open>auto simp: queue_rel_def\<close>)
  have 2: "queue_rel Z B s' gs2 cs2"
    by (rule queue_rel_same [OF _ so12(2)]) (use R sl in \<open>auto simp: queue_rel_def\<close>)
  have apart: "fst ` set xs' \<inter> X = {}" if "fst ` set xs \<inter> X = {}" "N \<inter> X = {}" for X
    using N(1) that by blast
  have "fst ` set xs' \<inter> set (q_objs cs1) = {}" "fst ` set xs' \<inter> set (q_objs cs2) = {}"
    using N(2) by (intro apart dj; simp add: Int_Un_distrib)+
  then show ?thesis unfolding queue_rel_append [OF l] queue_rel_Cons q_simps
    using 1 2 g' R sl by auto
qed

lemma TCPH_SET_FLAG_seg:
  assumes inv: "net_inv Z B s" and g: "seg_rel s g xs q d" and sp: "spare s xs n"
  shows "\<exists>s'. TCPH_SET_FLAG (sg_tcphdr g) fl s = Some s' \<and> net_inv Z B s' \<and> net_live Z B s' = net_live Z B s \<and>
    seg_live Z B s' = seg_live Z B s \<and> seg_rel s' g xs q d \<and> spare s' xs n \<and>
    (\<forall>a. a \<notin> fst ` set xs \<longrightarrow> same_obj s s' a)"
  using g
proof (rule seg_relE)
  fix p b ys h off pre
  assume A: "xs = (p, b) # ys" "chain_room s xs" "sg_tcphdr g = (p, int h)"
    "pb_payload b = Some (p, off)" "off + int (length pre) = int (h + 20 + seg_optlen g)"
    "length pre \<le> unat (pb_len b)"
  from A(1,2,4) obtain e where e: "extent s p = Some e" "off + int (unat (pb_len b)) \<le> int e" by (auto simp: pb_room_def)
  have "h + 20 \<le> e" using A(5,6) e(2) by linarith
  from TCPH_upd(1) [OF e(1) this, of fl] obtain s' where
    1: "TCPH_SET_FLAG (p, int h) fl s = Some s'" "upd_in p (h + 12) (h + 14) s s'" by blast
  note U = upd_in_simps [OF 1(2)]
  have "seg_rel s' g xs q d" by (rule seg_rel_hdr [OF g A(3) 1(2)]) simp_all
  moreover have "spare s' xs n" using sp by (simp add: spare_def U)
  moreover have "\<forall>a. a \<notin> fst ` set xs \<longrightarrow> same_obj s s' a" using A(1) same_obj_upd [OF 1(2)] by (metis fst_conv image_insert insertI1 list.simps(15))
  moreover have "seg_live Z B s' = seg_live Z B s" by (simp add: seg_live_def U)
  ultimately show ?thesis using net_inv_upd_in [OF 1(2) inv] 1(1) A(3) by auto
qed

section \<open>The whole function\<close>

definition mss_local :: "'f tcp_pcb \<Rightarrow> u16" where
  "mss_local pcb = min (t_mss pcb) (t_snd_wnd_max pcb div 2)"

lemma mss_local_le: "unat (mss_local pcb) \<le> 32767"
proof -
  have "unat (t_snd_wnd_max pcb div 2) \<le> 32767" using unat_u16_lt [of "t_snd_wnd_max pcb"] by (simp add: unat_div)
  then show ?thesis by (simp add: mss_local_def unat_min_u16)
qed

text \<open>
  The queues of a connection that may be written to: \<open>us\<close> and \<open>ks\<close> are the segments that were not
  sent and not acknowledged.
\<close>

definition send_ok :: "(nat \<Rightarrow> nat) \<Rightarrow> nat \<Rightarrow> net \<Rightarrow> 'f tcp_pcb \<Rightarrow> aseg list \<Rightarrow> aseg list \<Rightarrow> bool" where
  "send_ok Z B s pcb us ks \<longleftrightarrow> net_inv Z B s \<and> queue_rel Z B s (t_unsent pcb @ t_unacked pcb) (us @ ks) \<and>
     length us = length (t_unsent pcb) \<and> tail_room s (mss_local pcb) (t_unsent pcb) us \<and>
     t_unsent_oversize pcb = (if t_unsent pcb = [] then 0 else sg_oversize_left (last (t_unsent pcb))) \<and>
     unat (t_snd_queuelen pcb) = length (q_objs (us @ ks)) \<and> length (q_objs (us @ ks)) \<le> 12"

text \<open>The old tail of the queue and what the first two phases prepared for it.\<close>

definition old_tail where
  "old_tail Z B s pcb w m data us n e \<longleftrightarrow>
     (if t_unsent pcb = [] then us = [] \<and> w_concat w = None \<and> w_oversize_used w = 0 \<and> w_oversize w = 0 \<and> w_pos w = 0 \<and> \<not> w_seg_last w
      else (let g = last (t_unsent pcb); u = w_oversize_used w in
        u \<le> sg_oversize_left g \<and> unat u \<le> n \<and> spare s (fst (last us)) n \<and> unat u \<le> length data \<and>
        w_oversize w = sg_oversize_left g - u \<and>
        (case w_concat w of
           None \<Rightarrow> w_pos w = u \<and> e = [] \<and> n = unat (sg_oversize_left g) \<and>
             unat (sg_len g) + seg_optlen g + unat (sg_oversize_left g) \<le> unat m
         | Some c \<Rightarrow> \<exists>cb k. fresh_buf s c cb 16 k (unat (w_oversize w)) \<and> c \<in> net_live Z B s \<and>
             mem_read s (c, 16) (unat k) = Some e \<and>
             unat (w_pos w) = unat u + unat k \<and> unat u + unat k \<le> length data \<and> e = take (unat k) (drop (unat u) data) \<and>
             unat (sg_len g) + seg_optlen g + unat u + unat k + unat (w_oversize w) \<le> unat m)))"

lemma wr_commit_tail:
  assumes inv: "net_inv Z B s" and Q: "queue_rel Z B s (t_unsent pcb @ t_unacked pcb) (us @ ks)"
    and l: "length us = length (t_unsent pcb)" and old: "old_tail Z B s pcb w m data us n e"
    and src: "mem_read s arg (unat (w_oversize_used w)) = Some (take (unat (w_oversize_used w)) data)"
    and c: "\<forall>c. w_concat w = Some c \<longrightarrow> c \<notin> set (q_objs (us @ ks))" and m: "unat m \<le> 65000"
  shows "\<exists>p1 s1 s' gs us'. wr_commit1 arg w pcb s = Some (p1, s1) \<and>
    wr_commit2 w p1 s1 = Some (pcb\<lparr>t_unsent := gs, t_unsent_oversize := w_oversize w\<rparr>, s') \<and>
    net_inv Z B s' \<and> net_live Z B s' = net_live Z B s \<and> seg_live Z B s' = seg_live Z B s \<and>
    queue_rel Z B s' (gs @ t_unacked pcb) (us' @ ks) \<and> length us' = length gs \<and>
    q_data us' = q_data us @ (if t_unsent pcb = [] then [] else take (unat (w_oversize_used w)) data @ e) \<and>
    length (q_objs us') = length (q_objs us) + (case w_concat w of None \<Rightarrow> 0 | Some _ \<Rightarrow> 1) \<and>
    tail_room s' m gs us' \<and> (gs \<noteq> [] \<longrightarrow> sg_oversize_left (last gs) = w_oversize w) \<and> (gs = [] \<longleftrightarrow> t_unsent pcb = []) \<and>
    map sg_addr gs = map sg_addr (t_unsent pcb) \<and> set (q_objs us') = set (q_objs us) \<union> set_option (w_concat w) \<and>
    (\<forall>q0. seqs_from q0 us \<longrightarrow> seqs_from q0 us') \<and> (\<forall>a. a \<notin> set (q_objs us) \<longrightarrow> same_obj s s' a)"
proof (cases "t_unsent pcb = []")
  case True
  with old have o: "us = []" "w_concat w = None" "w_oversize_used w = 0" by (simp_all add: old_tail_def)
  have "wr_commit1 arg w pcb s = Some (pcb\<lparr>t_unsent_oversize := w_oversize w\<rparr>, s)" using o by (simp add: wr_commit1_def)
  moreover have "wr_commit2 w (pcb\<lparr>t_unsent_oversize := w_oversize w\<rparr>) s =
      Some (pcb\<lparr>t_unsent := [], t_unsent_oversize := w_oversize w\<rparr>, s)" using o True by (simp add: wr_commit2_def)
  ultimately show ?thesis using o True Q inv
    by (intro exI [of _ "pcb\<lparr>t_unsent_oversize := w_oversize w\<rparr>"] exI [of _ s] exI [of _ "[]"])
      (simp add: tail_room_def)
next
  case False
  let ?u = "w_oversize_used w"
  define g where "g = last (t_unsent pcb)"
  from False l have Q1: "queue_rel Z B s (t_unsent pcb) us"
    using Q queue_rel_append [of "t_unsent pcb" us] by simp
  from queue_rel_last [OF Q1 False] obtain us0 xs q d where us: "us = us0 @ [(xs, q, d)]" "seg_rel s g xs q d"
    by (metis g_def)
  have gs: "t_unsent pcb = butlast (t_unsent pcb) @ [g]" using False by (simp add: g_def)
  have l0: "length (butlast (t_unsent pcb)) = length us0" using l us by simp
  from old False us have o: "?u \<le> sg_oversize_left g" "unat ?u \<le> n" "spare s xs n" "unat ?u \<le> length data"
    "w_oversize w = sg_oversize_left g - ?u" by (simp_all add: old_tail_def Let_def g_def)
  have QM: "queue_rel Z B s (butlast (t_unsent pcb) @ g # t_unacked pcb) (us0 @ (xs, q, d) # ks)"
    using Q gs us(1) by (metis append.assoc append_Cons append_Nil)
  note RM = QM [unfolded queue_rel_append [OF l0] queue_rel_Cons]
  have le1: "unat (sg_len g) + unat ?u \<le> unat m"
    using old False o(1) by (auto simp: old_tail_def Let_def g_def word_le_nat_alt split: option.splits)
  from wr_commit1_spec [OF inv False g_def [symmetric] us(2) o(3,2,1) _ src] le1 m obtain s1 xs1 g1 where
    1: "wr_commit1 arg w pcb s = Some (pcb\<lparr>t_unsent := butlast (t_unsent pcb) @ [g1], t_unsent_oversize := w_oversize w\<rparr>, s1)"
    "g1 = g\<lparr>sg_len := sg_len g + ?u, sg_oversize_left := sg_oversize_left g - ?u\<rparr>"
    "net_inv Z B s1" "net_live Z B s1 = net_live Z B s" "seg_live Z B s1 = seg_live Z B s"
    "seg_rel s1 g1 xs1 q (d @ take (unat ?u) data)" "spare s1 xs1 (n - unat ?u)" "map fst xs1 = map fst xs"
    "\<forall>a. a \<notin> fst ` set xs \<longrightarrow> same_obj s s1 a" by auto
  have fx: "fst ` set xs1 = fst ` set xs" using 1(8) by (metis list.set_map)
  have d1: "distinct (map fst xs1)" using RM 1(8) by simp
  have a1: "sg_addr g1 = sg_addr g" "sg_flags g1 = sg_flags g" using 1(2) by simp_all
  have lg1: "unat (sg_len g1) = unat (sg_len g) + unat ?u" using 1(2) le1 m by (simp add: unat_u16_add)
  have ol1: "sg_oversize_left g1 = w_oversize w" using 1(2) o(5) by simp
  have QM1: "queue_rel Z B s1 (butlast (t_unsent pcb) @ g1 # t_unacked pcb) (us0 @ (xs1, q, d @ take (unat ?u) data) # ks)"
    by (rule queue_rel_mid [OF QM l0 1(6) a1(1) d1, of "{}"]) (use fx 1(5,9) in simp_all)
  have so1: "\<forall>a. a \<notin> set (q_objs us) \<longrightarrow> same_obj s s1 a" using 1(9) us(1) by simp
  have ma: "map sg_addr (butlast (t_unsent pcb) @ [g']) = map sg_addr (t_unsent pcb)" if "sg_addr g' = sg_addr g" for g'
    using that gs by (metis list.simps(8,9) map_append)
  show ?thesis
  proof (cases "w_concat w")
    case None
    with old False have o2: "e = []" "n = unat (sg_oversize_left g)"
      "unat (sg_len g) + seg_optlen g + unat (sg_oversize_left g) \<le> unat m" by (simp_all add: old_tail_def Let_def g_def)
    have uo: "unat (sg_oversize_left g - ?u) = unat (sg_oversize_left g) - unat ?u" using o(1) by (simp add: unat_u16_sub)
    have "tail_room s1 m (butlast (t_unsent pcb) @ [g1]) (us0 @ [(xs1, q, d @ take (unat ?u) data)])"
      using 1(2,7) o2 uo lg1 o(1) by (simp add: tail_room_def word_le_nat_alt)
    moreover have "wr_commit2 w p1 s1 = Some (p1, s1)" for p1 using None by (simp add: wr_commit2_def)
    ultimately show ?thesis using 1(1,3-5) QM1 None o2 us(1) False so1 ol1 ma [OF a1(1)] l l0 fx 1(8)
      by (intro exI [of _ "pcb\<lparr>t_unsent := butlast (t_unsent pcb) @ [g1], t_unsent_oversize := w_oversize w\<rparr>"] exI [of _ s1]
            exI [of _ "butlast (t_unsent pcb) @ [g1]"] exI [of _ "us0 @ [(xs1, q, d @ take (unat ?u) data)]"])
        (simp add: arg_cong [OF 1(8), of length, simplified] seqs_from_append)
  next
    case (Some cc)
    with old False obtain cb k where k: "fresh_buf s cc cb 16 k (unat (w_oversize w))" "mem_read s (cc, 16) (unat k) = Some e"
      "unat (sg_len g) + seg_optlen g + unat ?u + unat k + unat (w_oversize w) \<le> unat m"
      by (auto simp: old_tail_def Let_def g_def)
    have cn: "cc \<notin> set (q_objs (us @ ks))" using c Some by blast
    then have cx: "cc \<notin> fst ` set xs" "cc \<notin> fst ` set xs1" using us(1) fx by simp_all
    have sc: "same_obj s s1 cc" using 1(9) cx(1) by blast
    have k1: "fresh_buf s1 cc cb 16 k (unat (w_oversize w))" "mem_read s1 (cc, 16) (unat k) = Some e"
      using k(1) sc mem_read_same [OF sc] k(2) by (simp_all add: fresh_buf_def same_obj_def)
    let ?p1 = "pcb\<lparr>t_unsent := butlast (t_unsent pcb) @ [g1], t_unsent_oversize := w_oversize w\<rparr>"
    have le2: "unat (sg_len g1) + unat k \<le> 65000" using lg1 k(3) m by simp
    have "t_unsent ?p1 \<noteq> []" "last (t_unsent ?p1) = g1" by simp_all
    from wr_commit2_spec [OF 1(3) this 1(6) Some k1 cx(2) le2] obtain s2 xs2 g2 where
      2: "wr_commit2 w ?p1 s1 = Some (?p1\<lparr>t_unsent := butlast (t_unsent ?p1) @ [g2]\<rparr>, s2)" "g2 = g1\<lparr>sg_len := sg_len g1 + k\<rparr>"
      "net_inv Z B s2" "net_live Z B s2 = net_live Z B s1" "seg_live Z B s2 = seg_live Z B s1"
      "seg_rel s2 g2 xs2 q ((d @ take (unat ?u) data) @ e)" "spare s2 xs2 (unat (w_oversize w))" "map fst xs2 = map fst xs1 @ [cc]"
      "\<forall>a. a \<notin> fst ` set xs1 \<longrightarrow> same_obj s1 s2 a" by blast
    have fx2: "fst ` set xs2 = fst ` set xs \<union> {cc}" using arg_cong [OF 2(8), of set] fx by auto
    have d2: "distinct (map fst xs2)" using 2(8) d1 cx(2) by simp
    have a2: "sg_addr g2 = sg_addr g1" "sg_flags g2 = sg_flags g" using 2(2) a1 by simp_all
    have lg2: "unat (sg_len g2) = unat (sg_len g) + unat ?u + unat k" using 2(2) le2 lg1 by (simp add: unat_u16_add)
    have QM2: "queue_rel Z B s2 (butlast (t_unsent pcb) @ g2 # t_unacked pcb) (us0 @ (xs2, q, (d @ take (unat ?u) data) @ e) # ks)"
      by (rule queue_rel_mid [OF QM1 l0 2(6) a2(1) d2, of "{cc}"]) (use fx fx2 2(5,9) cn us(1) in auto)
    have so2: "\<forall>a. a \<notin> set (q_objs us) \<longrightarrow> same_obj s s2 a"
      using so1 2(9) us(1) fx by (auto intro: same_obj_trans)
    have ol2: "sg_oversize_left g2 = w_oversize w" using 2(2) ol1 by simp
    have "tail_room s2 m (butlast (t_unsent pcb) @ [g2]) (us0 @ [(xs2, q, (d @ take (unat ?u) data) @ e)])"
      using 2(7) k(3) lg2 ol2 a2(2) by (simp add: tail_room_def)
    then show ?thesis using 1(1) 2(1,3-5) 1(4,5) QM2 Some us(1) False so2 ol2 ma [of g2] a2 a1 l l0 fx2 arg_cong [OF 2(8), of length] arg_cong [OF 1(8), of length]
      by (intro exI [of _ ?p1] exI [of _ s1] exI [of _ s2]
            exI [of _ "butlast (t_unsent pcb) @ [g2]"] exI [of _ "us0 @ [(xs2, q, (d @ take (unat ?u) data) @ e)]"])
        (auto simp: append_assoc seqs_from_append)
  qed
qed


text \<open>Both phases.\<close>

abbreviation wr_begin ::
  "cff_fn \<Rightarrow> ptr \<Rightarrow> u16 \<Rightarrow> u8 \<Rightarrow> u16 \<Rightarrow> 'f tcp_pcb \<Rightarrow> wr_loc \<Rightarrow> net \<Rightarrow> (wr_loc option \<times> 'f tcp_pcb \<times> net) option" where
  "wr_begin cff arg len fl m pcb w s \<equiv>
     (if t_unsent pcb \<noteq> [] then do {
        let last_unsent = last (t_unsent pcb);
        w \<leftarrow> wr_phase1 last_unsent pcb len w;
        wr_phase2 cff arg len fl m last_unsent pcb w s }
      else if t_unsent_oversize pcb = 0 then Some (Some w, pcb, s) else None)"

definition p12_result where
  "p12_result Z B m pcb us ks data len s r pcb' s' \<longleftrightarrow> net_inv Z B s' \<and> frame Z B s s' \<and> seg_live Z B s' = seg_live Z B s \<and>
     (case r of None \<Rightarrow> net_live Z B s' = net_live Z B s \<and> pcb' = pcb
      | Some w \<Rightarrow> (\<exists>gs n e. pcb' = pcb\<lparr>t_unsent := gs\<rparr> \<and> length gs = length us \<and> old_tail Z B s' pcb' w m data us n e \<and>
          queue_rel Z B s' (gs @ t_unacked pcb) (us @ ks) \<and>
          net_live Z B s' = net_live Z B s \<union> set_option (w_concat w) \<and> set_option (w_concat w) \<inter> net_live Z B s = {} \<and>
          w_queue w = [] \<and> w_pos w \<le> len \<and> (w_concat w \<noteq> None \<longrightarrow> 0 < unat len) \<and>
          unat (w_queuelen w) = length (q_objs (us @ ks)) + (case w_concat w of None \<Rightarrow> 0 | Some _ \<Rightarrow> 1) \<and>
          take (unat (w_oversize_used w)) data @ e = take (unat (w_pos w)) data \<and>
          (w_pos w \<noteq> len \<longrightarrow> gs = t_unsent pcb) \<and>
          (\<forall>c. w_concat w = Some c \<longrightarrow> (\<exists>b k os. fresh_buf s' c b 16 k os))))"

lemma wr_begin_spec:
  assumes ok: "send_ok Z B s pcb us ks" and src: "src_ok Z B s arg data" and len: "length data = unat len" and c: "copying fl"
      shows "\<exists>r pcb' s'. wr_begin cff arg len fl (mss_local pcb) pcb \<lparr>w_pos = 0, w_oversize = 0, w_oversize_used = 0,
      w_queuelen = t_snd_queuelen pcb, w_concat = None, w_queue = [], w_seg_last = False\<rparr> s = Some (r, pcb', s') \<and>
    p12_result Z B (mss_local pcb) pcb us ks data len s r pcb' s'"
proof -
  let ?w0 = "\<lparr>w_pos = 0, w_oversize = 0, w_oversize_used = 0,
      w_queuelen = t_snd_queuelen pcb, w_concat = None, w_queue = [], w_seg_last = False\<rparr>"
  let ?m = "mss_local pcb"
  note OK = ok [unfolded send_ok_def]
  show ?thesis
  proof (cases "t_unsent pcb = []")
    case True
    then have "us = []" "t_unsent_oversize pcb = 0" using OK by simp_all
    then have "p12_result Z B ?m pcb us ks data len s (Some ?w0) pcb s" unfolding p12_result_def option.case
      using OK True by (intro conjI exI [of _ "[]"] exI [of _ 0] exI [of _ "[]"]) (simp_all add: old_tail_def)
    moreover have "wr_begin cff arg len fl ?m pcb ?w0 s = Some (Some ?w0, pcb, s)"
      using True \<open>t_unsent_oversize pcb = 0\<close> by simp
    ultimately show ?thesis by blast
  next
    case False
    define g where "g = last (t_unsent pcb)"
    define ol where "ol = sg_oversize_left g"
    define u where "u = min ol len"
    define w1 where "w1 = ?w0\<lparr>w_pos := u, w_oversize := ol - u, w_oversize_used := u, w_seg_last := ol > 0\<rparr>"
    have W1: "w_pos w1 = u" "w_oversize w1 = ol - u" "w_oversize_used w1 = u" "w_queuelen w1 = t_snd_queuelen pcb"
      "w_concat w1 = None" "w_queue w1 = []" by (simp_all add: w1_def)
    have uo: "t_unsent_oversize pcb = ol" using OK False by (simp add: ol_def g_def)
    then have ph1: "wr_phase1 g pcb len ?w0 = Some w1"
      by (subst wr_phase1_eq) (simp_all add: ol_def w1_def u_def)
    have tr: "spare s (fst (last us)) (unat ol)" "unat (sg_len g) + seg_optlen g + unat ol \<le> unat ?m"
      using OK False by (simp_all add: tail_room_def g_def ol_def)
    have ule: "unat u \<le> unat ol" "unat u \<le> unat len" "u \<le> ol" by (simp_all add: u_def unat_min_u16)
    have m: "unat ?m \<le> 65000" using mss_local_le [of pcb] by simp
    have room: "unat (sg_len g) + seg_optlen g + unat (w_oversize_used w1) \<le> unat ?m" using tr(2) ule W1 by simp
    have inv: "net_inv Z B s" and Q: "queue_rel Z B s (t_unsent pcb @ t_unacked pcb) (us @ ks)"
      and lu: "length us = length (t_unsent pcb)" and ql: "length (q_objs (us @ ks)) \<le> 12" and qn: "unat (t_snd_queuelen pcb) = length (q_objs (us @ ks))"
      using OK by simp_all
    have une: "us \<noteq> []" using lu False by auto
    have live: "set (q_objs (us @ ks)) \<subseteq> net_live Z B s" by (rule queue_live [OF inv Q])
    have gs: "t_unsent pcb = butlast (t_unsent pcb) @ [g]" using False by (simp add: g_def)
    from wr_phase2_spec [OF inv c src len m room, of cff pcb] obtain r pcb' s' where 2:
      "wr_phase2 cff arg len fl ?m g pcb w1 s = Some (r, pcb', s')" "p2_result Z B ?m g pcb data len w1 s r pcb' s'" by blast
    have run: "wr_begin cff arg len fl ?m pcb ?w0 s = Some (r, pcb', s')" using False ph1 2(1) by (simp add: g_def)
    note R = 2(2) [unfolded p2_result_def]
    show ?thesis
    proof (cases r)
      case None
      then show ?thesis using run R by (intro exI [of _ r] exI [of _ pcb'] exI [of _ s']) (simp add: p12_result_def)
    next
      case (Some w')
      consider (none) "w' = w1" "pcb' = pcb" "s' = s" | (cat) c cb n os where
        "w' = w1\<lparr>w_seg_last := True, w_pos := w_pos w1 + n, w_oversize := os, w_queuelen := w_queuelen w1 + 1, w_concat := Some c\<rparr>"
        "pcb' = put_last (g\<lparr>sg_oversize_left := sg_oversize_left g + os\<rparr>) pcb"
        "fresh_buf s' c cb 16 n (unat os)" "c \<notin> net_live Z B s" "net_live Z B s' = insert c (net_live Z B s)"
        "unat (w_pos w1) + unat n \<le> unat len" "w_pos w1 < len" "w_pos w1 + n \<noteq> len \<longrightarrow> os = 0"
        "mem_read s' (c, 16) (unat n) = Some (take (unat n) (drop (unat (w_pos w1)) data))"
        "unat (sg_len g) + seg_optlen g + unat (w_oversize_used w1) + unat n + unat os \<le> unat ?m"
        using R unfolding Some option.case by (elim conjE disjE exE) (blast | metis)+
      then have "p12_result Z B ?m pcb us ks data len s r pcb' s'"
      proof cases
        case none
        have "old_tail Z B s pcb w1 ?m data us (unat ol) []"
          using False tr ule len uo W1 by (simp add: old_tail_def g_def [symmetric] ol_def [symmetric])
        then show ?thesis unfolding p12_result_def Some option.case
          using none W1 inv Q lu qn ule
          by (intro conjI exI [of _ "t_unsent pcb"] exI [of _ "unat ol"] exI [of _ "[]"])
            (simp_all add: word_le_nat_alt)
      next
        case cat
        let ?g = "g\<lparr>sg_oversize_left := sg_oversize_left g + os\<rparr>"
        let ?e = "take (unat n) (drop (unat (w_pos w1)) data)"
        have uol: "u = ol" using cat(7) W1 by (simp add: u_def min_def split: if_splits)
        have ov: "unat (ol + os) = unat ol + unat os"
          using cat(10) W1(3) uol m by (simp add: unat_u16_add)
        have w0: "w_pos w1 + n = len \<or> os = 0" using cat(8) by blast
        have up: "unat (u + n) = unat u + unat n" using cat(6) W1(1) unat_u16_lt [of len] by (simp add: unat_u16_add)
        have Q': "queue_rel Z B s' (t_unsent pcb @ t_unacked pcb) (us @ ks)"
          by (rule frame_queue [OF _ inv Q]) (use R in simp_all)
        have Q1: "queue_rel Z B s' (t_unsent pcb) us" using Q' lu queue_rel_append [of "t_unsent pcb" us] by simp
        from queue_rel_last [OF Q1 False] obtain us0 xs q d where us: "us = us0 @ [(xs, q, d)]" "seg_rel s' g xs q d"
          by (metis g_def)
        have l0: "length (butlast (t_unsent pcb)) = length us0" using lu us by simp
        have QM: "queue_rel Z B s' (butlast (t_unsent pcb) @ g # t_unacked pcb) (us0 @ (xs, q, d) # ks)"
          using Q' gs us(1) by (metis append.assoc append_Cons append_Nil)
        note RM = QM [unfolded queue_rel_append [OF l0] queue_rel_Cons]
        have QM2: "queue_rel Z B s' (butlast (t_unsent pcb) @ ?g # t_unacked pcb) (us0 @ (xs, q, d) # ks)"
          by (rule queue_rel_mid [OF QM l0 seg_rel_fields [OF us(2)], of ?g "{}"]) (use RM in \<open>simp_all add: same_obj_def\<close>)
        have sp: "spare s' (fst (last us)) (unat ol)"
        proof -
          have "xs \<noteq> []" using us(2) by (auto elim: seg_relE)
          moreover have "\<forall>a \<in> fst ` set xs. same_obj s s' a" using R live us(1) by (auto simp: frame_def)
          ultimately show ?thesis using tr(1) us(1) spare_same by auto
        qed
        have "old_tail Z B s' pcb' w' ?m data us (unat ol) ?e"
          using False sp uol cat W1 ule up len ov une
          by (simp add: old_tail_def put_last_def ol_def [symmetric] word_le_nat_alt)
            (intro exI [of _ cb] exI [of _ n], simp)
        moreover have "take (unat u) data @ ?e = take (unat (u + n)) data"
          using up W1(1) by (metis take_add)
        moreover have "unat (t_snd_queuelen pcb + 1) = unat (t_snd_queuelen pcb) + 1" using qn ql by (simp add: unat_u16_add)
        moreover have "butlast (t_unsent pcb) @ [?g] = t_unsent pcb" if "os = 0" using that gs by simp
        moreover have "0 < unat len" using cat(7) by (simp add: word_less_nat_alt)
        ultimately show ?thesis unfolding p12_result_def Some option.case
          using cat W1 R lu qn QM2 up us(1) False gs w0 uol
          by (intro conjI exI [of _ "butlast (t_unsent pcb) @ [?g]"] exI [of _ "unat ol"] exI [of _ ?e])
            (auto simp: put_last_def word_le_nat_alt)
      qed
      then show ?thesis using run by blast
    qed
  qed
qed

end
