(* ===== verification/TcpAppend.thy ===== *)
theory TcpAppend
  imports TcpStream
begin

text \<open>
  \<open>tcp_write\<close> as a whole: the data is appended to the byte stream of the connection, or nothing of
  the connection changes and every pbuf and segment taken is given back.
\<close>

section \<open>Queues that grow, and the push flag\<close>

lemma queue_rel_grow:
  assumes "queue_rel Z B s (gs @ uk) (us @ ks)" "length gs = length us" "queue_rel Z B s hs ds"
    "set (q_objs ds) \<inter> set (q_objs (us @ ks)) = {}" "sg_addr ` set hs \<inter> sg_addr ` set (gs @ uk) = {}"
  shows "queue_rel Z B s ((gs @ hs) @ uk) ((us @ ds) @ ks)"
proof -
  have "length (gs @ hs) = length (us @ ds)" using assms(2) queue_rel_length [OF assms(3)] by simp
  then show ?thesis using assms
    by (simp only: queue_rel_append [OF assms(2)] queue_rel_append q_simps set_append image_Un) blast
qed

lemma push_last:
  assumes inv: "net_inv Z B s" and Q: "queue_rel Z B s (gs @ uk) (us @ ks)" and l: "length gs = length us"
    and t: "tail_room s m gs us" and ne: "gs \<noteq> []"
  shows "\<exists>s'. TCPH_SET_FLAG (sg_tcphdr (last gs)) fl s = Some s' \<and> net_inv Z B s' \<and> net_live Z B s' = net_live Z B s \<and>
    seg_live Z B s' = seg_live Z B s \<and> queue_rel Z B s' (gs @ uk) (us @ ks) \<and> tail_room s' m gs us \<and>
    (\<forall>a. a \<notin> set (q_objs us) \<longrightarrow> same_obj s s' a)"
proof -
  have Q1: "queue_rel Z B s gs us" using Q queue_rel_append [OF l] by simp
  from queue_rel_last [OF Q1 ne] obtain us0 xs q d where us: "us = us0 @ [(xs, q, d)]" "seg_rel s (last gs) xs q d" by metis
  have l0: "length (butlast gs) = length us0" using l us by simp
  have gs: "gs = butlast gs @ [last gs]" using ne by simp
  have QM: "queue_rel Z B s (butlast gs @ last gs # uk) (us0 @ (xs, q, d) # ks)"
    using Q gs us(1) by (metis append.assoc append_Cons append_Nil)
  note RM = QM [unfolded queue_rel_append [OF l0] queue_rel_Cons]
  have sp: "spare s xs (unat (sg_oversize_left (last gs)))" using t ne us by (simp add: tail_room_def)
  from TCPH_SET_FLAG_seg [OF inv us(2) sp] obtain s' where 1: "TCPH_SET_FLAG (sg_tcphdr (last gs)) fl s = Some s'"
    "net_inv Z B s'" "net_live Z B s' = net_live Z B s" "seg_live Z B s' = seg_live Z B s"
    "seg_rel s' (last gs) xs q d" "spare s' xs (unat (sg_oversize_left (last gs)))"
    "\<forall>a. a \<notin> fst ` set xs \<longrightarrow> same_obj s s' a" by blast
  have "queue_rel Z B s' (butlast gs @ last gs # uk) (us0 @ (xs, q, d) # ks)"
    by (rule queue_rel_mid [OF QM l0 1(5) refl _, of "{}"]) (use RM 1(4,7) in simp_all)
  then have "queue_rel Z B s' (gs @ uk) (us @ ks)" using gs us(1) by (metis append.assoc append_Cons append_Nil)
  moreover have "tail_room s' m gs us" using t ne us 1(6) by (simp add: tail_room_def)
  ultimately show ?thesis using 1 us(1) by auto
qed

section \<open>The commit\<close>

lemma old_tail_frame:
  assumes old: "old_tail Z B s pcb w m data us n e" and inv: "net_inv Z B s" and Q: "queue_rel Z B s (t_unsent pcb) us"
    and f: "frame Z B s s'" "net_live Z B s \<subseteq> net_live Z B s'"
  shows "old_tail Z B s' pcb w m data us n e"
proof (cases "t_unsent pcb = []")
  case False
  from queue_rel_last [OF Q False] obtain us0 xs q d where us: "us = us0 @ [(xs, q, d)]" "xs \<noteq> []" by metis
  have "\<forall>a \<in> fst ` set xs. same_obj s s' a" using queue_live [OF inv Q] us(1) f(1) by (auto simp: frame_def)
  then have sp: "spare s xs n \<Longrightarrow> spare s' xs n" using spare_same [OF us(2)] by blast
  show ?thesis
  proof (cases "w_concat w")
    case None
    then show ?thesis using old False sp us(1) by (auto simp: old_tail_def Let_def)
  next
    case (Some c)
    with old False have c: "c \<in> net_live Z B s" by (auto simp: old_tail_def Let_def)
    then have sc: "same_obj s s' c" using f(1) by (simp add: frame_def)
    have fb: "fresh_buf s' c b 16 k os = fresh_buf s c b 16 k os" for b k os
      using sc by (auto simp: fresh_buf_def same_obj_def)
    have "c \<in> net_live Z B s'" using c f(2) by blast
    then show ?thesis using old sp
      unfolding old_tail_def Let_def if_not_P [OF False] Some option.case fb mem_read_same [OF sc] us(1) last_snoc fst_conv
      by blast
  qed
qed (use old in \<open>simp add: old_tail_def\<close>)

text \<open>What the third phase does to the local variables does not concern the first part of the commit.\<close>

lemma wr_commit1_other:
  "w_oversize_used w' = w_oversize_used w \<Longrightarrow> wr_commit1 arg w pcb s = Some (p1, s1) \<Longrightarrow>
     wr_commit1 arg w' pcb s = Some (p1\<lparr>t_unsent_oversize := w_oversize w'\<rparr>, s1)"
  by (auto simp: wr_commit1_def split: bind_splits if_splits)

lemma wr_commit2_other:
  "w_concat w' = w_concat w \<Longrightarrow> wr_commit2 w pcb s = Some (p2, s2) \<Longrightarrow>
     wr_commit2 w' (pcb\<lparr>t_unsent_oversize := v\<rparr>) s = Some (p2\<lparr>t_unsent_oversize := v\<rparr>, s2)"
  by (auto simp: wr_commit2_def put_last_def Let_def split: bind_splits option.splits)

definition seqs_at :: "u32 \<Rightarrow> 'f tcp_pcb \<Rightarrow> aseg list \<Rightarrow> bool" where
  "seqs_at q0 pcb us \<longleftrightarrow> seqs_from q0 us \<and> t_snd_lbb pcb = q0 + of_nat (length (q_data us))"


text \<open>What a successful call leaves.\<close>

definition appended where
  "appended Z B pcb us ks data len s pcb' s' us' \<longleftrightarrow>
     send_ok Z B s' pcb' us' ks \<and> q_data us' = q_data us @ data \<and>
     pcb' = pcb\<lparr>t_unsent := t_unsent pcb', t_unsent_oversize := t_unsent_oversize pcb',
       t_snd_lbb := t_snd_lbb pcb + ucast len, t_snd_buf := t_snd_buf pcb - len,
       t_snd_queuelen := t_snd_queuelen pcb'\<rparr> \<and>
     (\<forall>q0. seqs_at q0 pcb us \<longrightarrow> seqs_at q0 pcb' us') \<and>
     net_live Z B s \<subseteq> net_live Z B s' \<and> seg_live Z B s \<subseteq> seg_live Z B s' \<and>
     (\<forall>a. (a \<in> net_live Z B s \<or> outside a) \<and> a \<notin> set (q_objs us) \<longrightarrow> same_obj s s' a)"

lemma wr_commit_spec:
  fixes w w' :: wr_loc
  assumes ok: "send_ok Z B s pcb us ks" and len: "length data = unat len"
    and p12: "p12_result Z B (mss_local pcb) pcb us ks data len s (Some w) pcb2 s2"
    and p3: "p3_result Z B (mss_local pcb) (t_snd_lbb pcb) len data [] w s2 True w' s3 ds hs"
    and src: "src_ok Z B s arg data"
  shows "\<exists>pcb' s' us'. wr_commit arg len fl w' pcb2 s3 = Some (ERR_OK, pcb', s') \<and>
    appended Z B pcb us ks data len s pcb' s' us'"
proof -
  let ?m = "mss_local pcb"
  note OK = ok [unfolded send_ok_def]
  from p12 obtain gs0 n e where P: "pcb2 = pcb\<lparr>t_unsent := gs0\<rparr>" "length gs0 = length us"
    "old_tail Z B s2 pcb2 w ?m data us n e" "queue_rel Z B s2 (gs0 @ t_unacked pcb) (us @ ks)"
    "net_live Z B s2 = net_live Z B s \<union> set_option (w_concat w)" "set_option (w_concat w) \<inter> net_live Z B s = {}"
    "w_queue w = []" "w_pos w \<le> len" 
    "unat (w_queuelen w) = length (q_objs (us @ ks)) + (case w_concat w of None \<Rightarrow> 0 | Some _ \<Rightarrow> 1)"
    "take (unat (w_oversize_used w)) data @ e = take (unat (w_pos w)) data"
    "net_inv Z B s2" "frame Z B s s2" "seg_live Z B s2 = seg_live Z B s"
    unfolding p12_result_def option.case by blast
  note T = p3 [unfolded p3_result_def P(7) append_Nil]
  have T3: "net_inv Z B s3" "frame Z B s2 s3" "net_live Z B s3 = net_live Z B s2 \<union> set (q_objs ds)"
    "set (q_objs ds) \<inter> net_live Z B s2 = {}" "seg_live Z B s3 = seg_live Z B s2 \<union> sg_addr ` set hs"
    "sg_addr ` set hs \<inter> seg_live Z B s2 = {}" "length hs = length ds" "w_queue w' = hs" "queue_rel Z B s3 hs ds"
    "w_concat w' = w_concat w" "w_oversize_used w' = w_oversize_used w" "w_seg_last w' = w_seg_last w"
    "w_pos w' = len" "q_data ds = drop (unat (w_pos w)) data" "seqs_from (t_snd_lbb pcb + ucast (w_pos w)) ds"
    "unat (w_queuelen w') = unat (w_queuelen w) + length (q_objs ds)" "unat (w_queuelen w') \<le> 12"
    "if hs = [] then w_oversize w' = w_oversize w else w_oversize w' = sg_oversize_left (last hs) \<and> tail_room s3 ?m hs ds"
    using T by simp_all
  have m: "unat ?m \<le> 65000" using mss_local_le [of pcb] by simp
  have l2: "length us = length (t_unsent pcb2)" and u2: "t_unsent pcb2 = gs0" "t_unacked pcb2 = t_unacked pcb"
    using P(1,2) by simp_all
  have Q2: "queue_rel Z B s2 (t_unsent pcb2 @ t_unacked pcb2) (us @ ks)" using P(4) u2 by simp
  have Q2u: "queue_rel Z B s2 (t_unsent pcb2) us" using P(2,4) u2 queue_rel_append by blast
  have live2: "set (q_objs (us @ ks)) \<subseteq> net_live Z B s2" by (rule queue_live [OF P(11) Q2])
  have fr3: "frame Z B s s3" by (rule frame_trans [OF P(12) T3(2)]) (use P(5) in blast)
  have Q3: "queue_rel Z B s3 (t_unsent pcb2 @ t_unacked pcb2) (us @ ks)"
    by (rule frame_queue [OF T3(2) P(11) Q2]) (use T3(5) in blast)
  have old3: "old_tail Z B s3 pcb2 w ?m data us n e"
    by (rule old_tail_frame [OF P(3,11) Q2u T3(2)]) (use T3(3) in blast)
  have "src_ok Z B s3 arg data" by (rule src_ok_frame [OF src fr3]) (use T3(3) P(5) in blast)
  then have rd: "mem_read s3 arg (unat (w_oversize_used w)) = Some (take (unat (w_oversize_used w)) data)"
    using src_part [of Z B s3 arg data 0] old3 by (auto simp: old_tail_def Let_def ptr_add_def split: if_splits)
  have cn: "\<forall>c. w_concat w = Some c \<longrightarrow> c \<notin> set (q_objs (us @ ks))"
    using P(6) queue_live [of Z B s "t_unsent pcb @ t_unacked pcb" "us @ ks"] OK by auto
  from wr_commit_tail [OF T3(1) Q3 l2 old3 rd cn m] obtain p1 s1' s4 gs us' where C:
    "wr_commit1 arg w pcb2 s3 = Some (p1, s1')" 
    "wr_commit2 w p1 s1' = Some (pcb2\<lparr>t_unsent := gs, t_unsent_oversize := w_oversize w\<rparr>, s4)"
    "net_inv Z B s4" "net_live Z B s4 = net_live Z B s3" "seg_live Z B s4 = seg_live Z B s3"
    "queue_rel Z B s4 (gs @ t_unacked pcb2) (us' @ ks)" "length us' = length gs"
    "q_data us' = q_data us @ (if t_unsent pcb2 = [] then [] else take (unat (w_oversize_used w)) data @ e)"
    "length (q_objs us') = length (q_objs us) + (case w_concat w of None \<Rightarrow> 0 | Some _ \<Rightarrow> 1)"
    "tail_room s4 ?m gs us'" "gs \<noteq> [] \<longrightarrow> sg_oversize_left (last gs) = w_oversize w" "gs = [] \<longleftrightarrow> t_unsent pcb2 = []"
    "map sg_addr gs = map sg_addr (t_unsent pcb2)" "set (q_objs us') = set (q_objs us) \<union> set_option (w_concat w)"
    "\<forall>q0. seqs_from q0 us \<longrightarrow> seqs_from q0 us'" "\<forall>a. a \<notin> set (q_objs us) \<longrightarrow> same_obj s3 s4 a" by blast
  define o' where "o' = w_oversize w'"
  have C1: "wr_commit1 arg w' pcb2 s3 = Some (p1\<lparr>t_unsent_oversize := o'\<rparr>, s1')"
    "wr_commit2 w' (p1\<lparr>t_unsent_oversize := o'\<rparr>) s1' = Some (pcb2\<lparr>t_unsent := gs, t_unsent_oversize := o'\<rparr>, s4)"
    using wr_commit1_other [OF T3(11) C(1)] wr_commit2_other [OF T3(10) C(2), of o'] by (simp_all add: o'_def)
  have uq: "t_unacked pcb2 = t_unacked pcb" using P(1) by simp
  have dsj: "set (q_objs ds) \<inter> set (q_objs (us' @ ks)) = {}"
    using T3(4) live2 C(14) P(5) by auto
  have adj: "sg_addr ` set hs \<inter> sg_addr ` set (gs @ t_unacked pcb2) = {}"
  proof -
    have "sg_addr ` set gs = sg_addr ` set (t_unsent pcb2)" using C(13) by (metis list.set_map)
    moreover have "sg_addr ` set (t_unsent pcb2 @ t_unacked pcb2) \<subseteq> seg_live Z B s2" using Q2 by (simp add: queue_rel_def)
    ultimately have "sg_addr ` set (gs @ t_unacked pcb2) \<subseteq> seg_live Z B s2" by (simp add: image_Un)
    then show ?thesis using T3(6) by blast
  qed
  have so4: "\<forall>a \<in> set (q_objs ds). same_obj s3 s4 a" using C(16) dsj T3(4) live2 by auto
  have Q4: "queue_rel Z B s4 hs ds"
    by (rule queue_rel_same [OF T3(9) so4]) (use T3(9) C(5) in \<open>simp add: queue_rel_def\<close>)
  have QG: "queue_rel Z B s4 ((gs @ hs) @ t_unacked pcb) ((us' @ ds) @ ks)"
    using queue_rel_grow [OF C(6) C(7) [symmetric] Q4 dsj adj] uq by simp
  have lg: "length (gs @ hs) = length (us' @ ds)" using C(7) T3(7) by simp
  have tr: "tail_room s4 ?m (gs @ hs) (us' @ ds)"
  proof (cases "hs = []")
    case True
    then show ?thesis using C(10) T3(7) by simp
  next
    case False
    then have t3: "tail_room s3 ?m hs ds" using T3(18) by simp
    from queue_rel_last [OF T3(9) False] obtain ds0 xs q d where ds: "ds = ds0 @ [(xs, q, d)]" "xs \<noteq> []" by metis
    then show ?thesis using t3 False so4 spare_same [OF ds(2)] by (auto simp: tail_room_def)
  qed
  have ov: "o' = (if gs @ hs = [] then 0 else sg_oversize_left (last (gs @ hs)))"
  proof (cases "hs = []")
    case True
    then have "o' = w_oversize w" using T3(18) by (simp add: o'_def)
    moreover have "w_oversize w = 0" if "gs = []" using old3 C(12) that by (simp add: old_tail_def)
    ultimately show ?thesis using True C(11) by auto
  next
    case False
    then show ?thesis using T3(18) by (simp add: o'_def)
  qed
  have qd: "q_data (us' @ ds) = q_data us @ data"
  proof (cases "t_unsent pcb2 = []")
    case True
    then have "w_pos w = 0" using old3 by (simp add: old_tail_def)
    then show ?thesis using C(8) True T3(14) by simp
  next
    case False
    then show ?thesis using C(8) T3(14) P(10) by simp
  qed
  have ql: "unat (w_queuelen w') = length (q_objs ((us' @ ds) @ ks))"
    using T3(16) P(9) C(9) by simp
  let ?p3 = "pcb2\<lparr>t_unsent_oversize := o', t_unsent := gs @ hs, t_snd_lbb := t_snd_lbb pcb + ucast len,
      t_snd_buf := t_snd_buf pcb - len, t_snd_queuelen := w_queuelen w'\<rparr>"
  have as: "t_snd_queuelen ?p3 \<noteq> 0 \<longrightarrow> t_unacked ?p3 \<noteq> [] \<or> t_unsent ?p3 \<noteq> []"
  proof
    assume "t_snd_queuelen ?p3 \<noteq> 0"
    then have "(us' @ ds) @ ks \<noteq> []" using ql by (auto simp: word_eq_unat)
    then have "(gs @ hs) @ t_unacked pcb \<noteq> []" using queue_rel_length [OF QG] by force
    then show "t_unacked ?p3 \<noteq> [] \<or> t_unsent ?p3 \<noteq> []" using uq by auto
  qed
  have psh: "\<exists>s5. (if (w_seg_last w' \<or> w_queue w' \<noteq> []) \<and> fl AND TCP_WRITE_FLAG_MORE = 0
          then TCPH_SET_FLAG (sg_tcphdr (last (gs @ hs))) TCP_PSH s4 else Some s4) = Some s5 \<and>
      net_inv Z B s5 \<and> net_live Z B s5 = net_live Z B s4 \<and> seg_live Z B s5 = seg_live Z B s4 \<and>
      queue_rel Z B s5 ((gs @ hs) @ t_unacked pcb) ((us' @ ds) @ ks) \<and> tail_room s5 ?m (gs @ hs) (us' @ ds) \<and>
      (\<forall>a. a \<notin> set (q_objs (us' @ ds)) \<longrightarrow> same_obj s4 s5 a)"
  proof (cases "(w_seg_last w' \<or> w_queue w' \<noteq> []) \<and> fl AND TCP_WRITE_FLAG_MORE = 0")
    case True
    have "gs @ hs \<noteq> []"
    proof
      assume "gs @ hs = []"
      then have "\<not> w_seg_last w" using old3 C(12) by (simp add: old_tail_def)
      then show False using True T3(8,12) \<open>gs @ hs = []\<close> by simp
    qed
    from push_last [OF C(3) QG lg tr this, of TCP_PSH] True show ?thesis by simp
  next
    case False
    then show ?thesis using C(3) QG tr by (simp only: if_False) (intro exI [of _ s4], simp)
  qed
  then obtain s5 where S: "(if (w_seg_last w' \<or> w_queue w' \<noteq> []) \<and> fl AND TCP_WRITE_FLAG_MORE = 0
          then TCPH_SET_FLAG (sg_tcphdr (last (gs @ hs))) TCP_PSH s4 else Some s4) = Some s5"
    "net_inv Z B s5" "net_live Z B s5 = net_live Z B s4" "seg_live Z B s5 = seg_live Z B s4"
    "queue_rel Z B s5 ((gs @ hs) @ t_unacked pcb) ((us' @ ds) @ ks)" "tail_room s5 ?m (gs @ hs) (us' @ ds)"
    "\<forall>a. a \<notin> set (q_objs (us' @ ds)) \<longrightarrow> same_obj s4 s5 a" by blast
  have run: "wr_commit arg len fl w' pcb2 s3 = Some (ERR_OK, ?p3, s5)"
    using C1 S(1) as P(1) T3(8) by (simp add: wr_commit_def Let_def split del: if_split cong: if_cong)
  have sok: "send_ok Z B s5 ?p3 (us' @ ds) ks"
    unfolding send_ok_def
    using S lg ov ql T3(17) uq P(1) by (simp add: mss_local_def)
  have sq: "seqs_at q0 ?p3 (us' @ ds)" if "seqs_at q0 pcb us" for q0
  proof -
    have lq: "length (q_data us') = length (q_data us) + unat (w_pos w)"
      using C(8) P(10) P(8) len old3 by (auto simp: old_tail_def word_le_nat_alt)
    have "t_snd_lbb pcb + ucast (w_pos w) = q0 + of_nat (length (q_data us'))"
      using that lq by (simp add: seqs_at_def)
    then have "seqs_from (q0 + of_nat (length (q_data us'))) ds" using T3(15) by simp
    moreover have "seqs_from q0 us'" using that C(15) by (simp add: seqs_at_def)
    moreover have "of_nat (length data) = (ucast len :: u32)" using len by simp
    ultimately show ?thesis using that by (simp add: seqs_at_def seqs_from_append qd [simplified])
  qed
  have fr: "\<forall>a. (a \<in> net_live Z B s \<or> outside a) \<and> a \<notin> set (q_objs us) \<longrightarrow> same_obj s s5 a"
  proof (intro allI impI)
    fix a assume a: "(a \<in> net_live Z B s \<or> outside a) \<and> a \<notin> set (q_objs us)"
    have "a \<notin> set (q_objs ds) \<union> set_option (w_concat w)"
      using a T3(4) P(5,6) live_not_outside [of a Z B s3] T3(3) by auto
    then have "a \<notin> set (q_objs (us' @ ds))" using a C(14) by simp
    then show "same_obj s s5 a" using a fr3 C(16) S(7) unfolding frame_def by (metis same_obj_trans)
  qed
  have "appended Z B pcb us ks data len s ?p3 s5 (us' @ ds)"
    unfolding appended_def
  proof (intro conjI)
    show "send_ok Z B s5 ?p3 (us' @ ds) ks" by (rule sok)
    show "q_data (us' @ ds) = q_data us @ data" by (rule qd)
    show "net_live Z B s \<subseteq> net_live Z B s5" using S(3) C(4) T3(3) P(5) by auto
    show "seg_live Z B s \<subseteq> seg_live Z B s5" using S(4) C(5) T3(5) P(13) by auto
  qed (use P(1) sq fr in simp_all)
  then show ?thesis using run by blast
qed


section \<open>Giving up\<close>

lemma send_ok_frame:
  assumes "send_ok Z B s pcb us ks" "net_inv Z B s'" "frame Z B s s'" "seg_live Z B s' = seg_live Z B s"
  shows "send_ok Z B s' (pcb\<lparr>t_flags := f\<rparr>) us ks"
proof -
  note OK = assms(1) [unfolded send_ok_def]
  have Q: "queue_rel Z B s' (t_unsent pcb @ t_unacked pcb) (us @ ks)"
    by (rule frame_queue [OF assms(3)]) (use OK assms(4) in simp_all)
  have "queue_rel Z B s (t_unsent pcb) us" using OK queue_rel_append [of "t_unsent pcb" us] by simp
  then have "tail_room s' (mss_local pcb) (t_unsent pcb) us"
    using tail_room_frame [OF _ assms(3)] OK by blast
  then show ?thesis using OK Q assms(2) by (simp add: send_ok_def mss_local_def)
qed

definition unchanged where
  "unchanged Z B pcb us ks s pcb' s' \<longleftrightarrow> pcb' = pcb\<lparr>t_flags := t_flags pcb'\<rparr> \<and> send_ok Z B s' pcb' us ks \<and>
     net_live Z B s' = net_live Z B s \<and> seg_live Z B s' = seg_live Z B s \<and> frame Z B s s'"

lemma wr_memerr_spec:
  assumes ok: "send_ok Z B s pcb us ks" and i3: "net_inv Z B s3" and fr: "frame Z B s s3"
    and c: "\<forall>c. w_concat w = Some c \<longrightarrow> (\<exists>b k os. fresh_buf s3 c b 16 k os)" "set_option (w_concat w) \<inter> net_live Z B s = {}"
    and Q: "queue_rel Z B s3 (w_queue w) ds" "set (q_objs ds) \<inter> (net_live Z B s \<union> set_option (w_concat w)) = {}"
      "sg_addr ` set (w_queue w) \<inter> seg_live Z B s = {}"
    and l: "net_live Z B s3 = net_live Z B s \<union> set_option (w_concat w) \<union> set (q_objs ds)"
      "seg_live Z B s3 = seg_live Z B s \<union> sg_addr ` set (w_queue w)"
  shows "\<exists>pcb' s'. wr_memerr cff pcb w s3 = Some (ERR_MEM, pcb', s') \<and> unchanged Z B pcb us ks s pcb' s'"
proof -
  note OK = ok [unfolded send_ok_def]
  let ?p = "pcb\<lparr>t_flags := t_flags pcb OR TF_NAGLEMEMERR\<rparr>"
  have "\<exists>s4. (case w_concat w of None \<Rightarrow> Some s3 | Some c \<Rightarrow> do { (_, s) \<leftarrow> pbuf_free cff (Some c) s3; Some s }) = Some s4 \<and>
      net_inv Z B s4 \<and> net_live Z B s4 = net_live Z B s3 - set_option (w_concat w) \<and> seg_live Z B s4 = seg_live Z B s3 \<and>
      (\<forall>a. a \<notin> set_option (w_concat w) \<longrightarrow> same_obj s3 s4 a)"
  proof (cases "w_concat w")
    case (Some c)
    with c obtain b k os where "fresh_buf s3 c b 16 k os" by blast
    from chain_free [OF i3, of c "[(c, b)]" cff] fresh_buf_chain [OF this] obtain x s4 where
      "pbuf_free cff (Some c) s3 = Some (x, s4)" "net_inv Z B s4" "net_live Z B s4 = net_live Z B s3 - {c}"
      "seg_live Z B s4 = seg_live Z B s3" "\<forall>a. a \<noteq> c \<longrightarrow> same_obj s3 s4 a" by auto
    then show ?thesis using Some by simp
  qed (use i3 in \<open>simp add: same_obj_def\<close>)
  then obtain s4 where 4: "(case w_concat w of None \<Rightarrow> Some s3 | Some c \<Rightarrow> do { (_, s) \<leftarrow> pbuf_free cff (Some c) s3; Some s }) = Some s4"
    "net_inv Z B s4" "net_live Z B s4 = net_live Z B s3 - set_option (w_concat w)" "seg_live Z B s4 = seg_live Z B s3"
    "\<forall>a. a \<notin> set_option (w_concat w) \<longrightarrow> same_obj s3 s4 a" by blast
  have so: "\<forall>a \<in> set (q_objs ds). same_obj s3 s4 a" using 4(5) Q(2) by blast
  have Q4: "queue_rel Z B s4 (w_queue w) ds"
    by (rule queue_rel_same [OF Q(1) so]) (use Q(1) 4(4) in \<open>simp add: queue_rel_def\<close>)
  from tcp_segs_free_spec [OF 4(2) Q4, of cff] obtain s5 where 5: "tcp_segs_free cff (w_queue w) s4 = Some s5" "net_inv Z B s5"
    "net_live Z B s5 = net_live Z B s4 - set (q_objs ds)" "seg_live Z B s5 = seg_live Z B s4 - sg_addr ` set (w_queue w)"
    "\<forall>a. a \<notin> set (q_objs ds) \<longrightarrow> same_obj s4 s5 a" by blast
  have nl: "net_live Z B s5 = net_live Z B s"
    using 5(3) 4(3) l(1) c(2) Q(2) by blast
  have sl: "seg_live Z B s5 = seg_live Z B s" using 5(4) 4(4) l(2) Q(3) by blast
  have f5: "frame Z B s s5"
    unfolding frame_def
  proof (intro allI impI)
    fix a assume a: "a \<in> net_live Z B s \<or> outside a"
    then have "a \<notin> set (q_objs ds)" "a \<notin> set_option (w_concat w)"
      using Q(2) c(2) live_not_outside [of a Z B s3] l(1) by blast+
    then show "same_obj s s5 a" using a fr 4(5) 5(5) unfolding frame_def by (metis same_obj_trans)
  qed
  have as: "t_snd_queuelen ?p \<noteq> 0 \<longrightarrow> t_unacked ?p \<noteq> [] \<or> t_unsent ?p \<noteq> []"
  proof
    assume "t_snd_queuelen ?p \<noteq> 0"
    then have "us @ ks \<noteq> []" using OK by (auto simp: word_eq_unat)
    then show "t_unacked ?p \<noteq> [] \<or> t_unsent ?p \<noteq> []" using OK queue_rel_length [of Z B s "t_unsent pcb @ t_unacked pcb" "us @ ks"] by force
  qed
  have "wr_memerr cff pcb w s3 = Some (ERR_MEM, ?p, s5)"
    using 4(1) 5(1) as by (simp add: wr_memerr_def Let_def)
  moreover have "unchanged Z B pcb us ks s ?p s5"
    unfolding unchanged_def using send_ok_frame [OF ok 5(2) f5 sl] nl sl f5 by simp
  ultimately show ?thesis by blast
qed

section \<open>The whole function\<close>

definition write_checks_pass :: "'f tcp_pcb \<Rightarrow> u16 \<Rightarrow> bool" where
  "write_checks_pass pcb len \<longleftrightarrow> t_state pcb \<in> {ESTABLISHED, CLOSE_WAIT, SYN_SENT, SYN_RCVD} \<and>
     (len = 0 \<or> len \<le> t_snd_buf pcb \<and> unat (t_snd_queuelen pcb) < 12)"

lemma tcp_write_checks_spec:
  assumes "send_ok Z B s pcb us ks"
  shows "\<exists>e pcb'. tcp_write_checks pcb len = Some (e, pcb') \<and> pcb' = pcb\<lparr>t_flags := t_flags pcb'\<rparr> \<and>
    (e = ERR_OK \<longleftrightarrow> write_checks_pass pcb len) \<and> (e = ERR_OK \<longrightarrow> pcb' = pcb) \<and> e \<in> {ERR_OK, ERR_MEM, ERR_CONN}"
proof -
  note OK = assms [unfolded send_ok_def]
  have ne: "us @ ks \<noteq> [] \<longleftrightarrow> t_unacked pcb \<noteq> [] \<or> t_unsent pcb \<noteq> []"
    using OK queue_rel_length [of Z B s "t_unsent pcb @ t_unacked pcb" "us @ ks"] by force
  have "q_objs (us @ ks) \<noteq> []" if "us @ ks \<noteq> []"
  proof -
    from that obtain xs q d r where "us @ ks = (xs, q, d) # r" by (metis list.exhaust prod_cases3)
    moreover from this OK have "xs \<noteq> []"
      by (cases "t_unsent pcb @ t_unacked pcb") (auto simp: queue_rel_Cons elim: seg_relE)
    ultimately show ?thesis by simp
  qed
  then have "t_snd_queuelen pcb \<noteq> 0 \<longleftrightarrow> us @ ks \<noteq> []" using OK by (auto simp: word_eq_unat)
  with ne have as: "(if t_snd_queuelen pcb \<noteq> 0 then t_unacked pcb \<noteq> [] \<or> t_unsent pcb \<noteq> []
      else t_unacked pcb = [] \<and> t_unsent pcb = []) = True" by auto
  have big: "t_snd_queuelen pcb \<ge> TCP_SND_QUEUELEN \<or> t_snd_queuelen pcb > TCP_SNDQUEUELEN_OVERFLOW \<longleftrightarrow>
      \<not> unat (t_snd_queuelen pcb) < 12"
    by (auto simp: c_def word_le_nat_alt word_less_nat_alt)
  have "len > t_snd_buf pcb \<longleftrightarrow> \<not> len \<le> t_snd_buf pcb" by auto
  then show ?thesis
    unfolding tcp_write_checks_def write_checks_pass_def big as by auto
qed


abbreviation wr_start :: "'f tcp_pcb \<Rightarrow> wr_loc" where
  "wr_start pcb \<equiv> \<lparr>w_pos = 0, w_oversize = 0, w_oversize_used = 0, w_queuelen = t_snd_queuelen pcb,
     w_concat = None, w_queue = [], w_seg_last = False\<rparr>"

lemma tcp_write_run:
  assumes ok: "send_ok Z B s pcb us ks" and ch: "tcp_write_checks pcb len = Some (ERR_OK, pcb)"
    and w: "wr_begin cff arg len fl (mss_local pcb) pcb (wr_start pcb) s = Some (r, pcb2, s2)"
  shows "tcp_write cff pcb (Some arg) len fl s = (case r of None \<Rightarrow> wr_memerr cff pcb2 (wr_start pcb) s2
    | Some w \<Rightarrow> do {
        (ok, w, s) \<leftarrow> wr_phase3 cff arg len fl (mss_local pcb) pcb2 w s2;
        if ok then wr_commit arg len fl w pcb2 s else wr_memerr cff pcb2 w s })"
proof (cases "t_unsent pcb = []")
  case True
  then have o: "t_unsent_oversize pcb = 0" using ok by (simp add: send_ok_def)
  then have E: "r = Some (wr_start pcb)" "pcb2 = pcb" "s2 = s" using w True by auto
  show ?thesis unfolding E using ch True o by (simp add: tcp_write_def mss_local_def)
next
  case False
  then obtain w1 where "wr_phase1 (last (t_unsent pcb)) pcb len (wr_start pcb) = Some w1"
    "wr_phase2 cff arg len fl (min (t_mss pcb) (t_snd_wnd_max pcb div 2)) (last (t_unsent pcb)) pcb w1 s = Some (r, pcb2, s2)"
    using w by (auto simp: mss_local_def Let_def split: bind_splits)
  then show ?thesis using ch False
    by (simp add: tcp_write_def mss_local_def Let_def cong: option.case_cong)
qed

text \<open>The outcome of a call, and the part of it after the first two phases.\<close>

definition write_result where
  "write_result Z B pcb us ks data len s r \<longleftrightarrow> (\<exists>e pcb' s' us'. r = Some (e, pcb', s') \<and>
     (if e = ERR_OK then appended Z B pcb us ks data len s pcb' s' us'
      else e = ERR_MEM \<and> unchanged Z B pcb us ks s pcb' s'))"

lemma wr_finish:
  fixes w :: wr_loc
  assumes ok: "send_ok Z B s pcb us ks" and src: "src_ok Z B s arg data" and len: "length data = unat len" and c: "copying fl"
    and pass: "write_checks_pass pcb len" and p12: "p12_result Z B (mss_local pcb) pcb us ks data len s (Some w) pcb2 s2"
  shows "write_result Z B pcb us ks data len s (do {
    (ok, w, s) \<leftarrow> wr_phase3 cff arg len fl (mss_local pcb) pcb2 w s2;
    if ok then wr_commit arg len fl w pcb2 s else wr_memerr cff pcb2 w s })"
proof -
  let ?m = "mss_local pcb"
  from p12 obtain gs n e where P: "pcb2 = pcb\<lparr>t_unsent := gs\<rparr>"
    "net_live Z B s2 = net_live Z B s \<union> set_option (w_concat w)" "set_option (w_concat w) \<inter> net_live Z B s = {}"
    "w_queue w = []" "w_pos w \<le> len" "w_concat w \<noteq> None \<longrightarrow> 0 < unat len"
    "unat (w_queuelen w) = length (q_objs (us @ ks)) + (case w_concat w of None \<Rightarrow> 0 | Some _ \<Rightarrow> 1)"
    "w_pos w \<noteq> len \<longrightarrow> gs = t_unsent pcb" "\<forall>c. w_concat w = Some c \<longrightarrow> (\<exists>b k os. fresh_buf s2 c b 16 k os)"
    "net_inv Z B s2" "frame Z B s s2" "seg_live Z B s2 = seg_live Z B s"
    unfolding p12_result_def option.case by blast
  have q12: "unat (w_queuelen w) \<le> 12"
    using P(6,7) ok pass by (auto simp: write_checks_pass_def send_ok_def split: option.splits)
  have src2: "src_ok Z B s2 arg data" by (rule src_ok_frame [OF src P(11)]) (use P(2) in blast)
  have m: "unat ?m \<le> 65000" using mss_local_le [of pcb] by simp
  have "queue_rel Z B s2 (w_queue w) []" using P(4) by simp
  from wr_phase3_spec [OF P(10) c src2 len m q12 P(5) this, of cff pcb2] obtain ok3 w' s3 ds hs where 3:
    "wr_phase3 cff arg len fl ?m pcb2 w s2 = Some (ok3, w', s3)"
    "p3_result Z B ?m (t_snd_lbb pcb2) len data [] w s2 ok3 w' s3 ds hs" by blast
  have lbb: "t_snd_lbb pcb2 = t_snd_lbb pcb" using P(1) by simp
  show ?thesis
  proof (cases ok3)
    case True
    from wr_commit_spec [OF ok len p12 _ src] 3(2) True lbb obtain pcb' s' us' where
      "wr_commit arg len fl w' pcb2 s3 = Some (ERR_OK, pcb', s')" "appended Z B pcb us ks data len s pcb' s' us'"
      by metis
    then show ?thesis using 3(1) True by (auto simp: write_result_def)
  next
    case False
    note T = 3(2) [unfolded p3_result_def P(4) append_Nil]
    have "w_pos w \<noteq> len"
    proof
      assume "w_pos w = len"
      then have "wr_phase3 cff arg len fl ?m pcb2 w s2 = Some (True, w, s2)" by (subst wr_phase3.simps) simp
      then show False using 3(1) False by simp
    qed
    then have p2: "pcb2 = pcb" using P(1,8) by simp
    have f3: "frame Z B s s3" by (rule frame_trans [OF P(11)]) (use T P(2) in blast)+
    have c3: "\<forall>c. w_concat w' = Some c \<longrightarrow> (\<exists>b k os. fresh_buf s3 c b 16 k os)"
    proof (intro allI impI)
      fix c assume c: "w_concat w' = Some c"
      then obtain b k os where fb: "fresh_buf s2 c b 16 k os" using P(9) T by auto
      have "same_obj s2 s3 c" using T P(2) c by (auto simp: frame_def)
      then have "fresh_buf s3 c b 16 k os" using fb by (auto simp: fresh_buf_def same_obj_def)
      then show "\<exists>b k os. fresh_buf s3 c b 16 k os" by blast
    qed
    have "\<exists>pcb' s'. wr_memerr cff pcb w' s3 = Some (ERR_MEM, pcb', s') \<and> unchanged Z B pcb us ks s pcb' s'"
      by (rule wr_memerr_spec [OF ok _ f3 c3, of ds]) (use T P(2,3,12) in auto)
    then show ?thesis using 3(1) False p2 by (auto simp: write_result_def)
  qed
qed

text \<open>C30: a call of \<open>tcp_write\<close> with \<open>TCP_WRITE_FLAG_COPY\<close> on well-formed queues returns; with
  \<open>ERR_OK\<close> exactly the given bytes are appended to the byte stream of the unsent queue, the sequence numbers
  stay contiguous, \<open>snd_lbb\<close> and \<open>snd_buf\<close> move by the length, and the queues are well-formed
  again; with an error the queues, the stream, the live pbufs and the live segments are what they were.
  Other live memory keeps its contents.
\<close>

theorem tcp_write_appends:
  assumes ok: "send_ok Z B s pcb us ks" and src: "src_ok Z B s arg data" and len: "length data = unat len" and c: "copying fl"
  shows "\<exists>e pcb' s' us'. tcp_write cff pcb (Some arg) len fl s = Some (e, pcb', s') \<and>
    (if e = ERR_OK then write_checks_pass pcb len \<and> appended Z B pcb us ks data len s pcb' s' us'
     else e \<in> {ERR_MEM, ERR_CONN} \<and> us' = us \<and> unchanged Z B pcb us ks s pcb' s')"
proof -
  from tcp_write_checks_spec [OF ok] obtain e0 pcb0 where ch: "tcp_write_checks pcb len = Some (e0, pcb0)"
    "pcb0 = pcb\<lparr>t_flags := t_flags pcb0\<rparr>" "e0 = ERR_OK \<longleftrightarrow> write_checks_pass pcb len" "e0 = ERR_OK \<longrightarrow> pcb0 = pcb"
    "e0 \<in> {ERR_OK, ERR_MEM, ERR_CONN}" by blast
  show ?thesis
  proof (cases "e0 = ERR_OK")
    case False
    have "send_ok Z B s (pcb\<lparr>t_flags := t_flags pcb0\<rparr>) us ks" 
      by (rule send_ok_frame [OF ok]) (use ok in \<open>simp_all add: send_ok_def\<close>)
    then have "unchanged Z B pcb us ks s pcb0 s" using ch(2) by (simp add: unchanged_def)
    moreover have "tcp_write cff pcb (Some arg) len fl s = Some (e0, pcb0, s)" using ch(1) False by (simp add: tcp_write_def)
    ultimately show ?thesis using False ch(5) by (intro exI [of _ e0] exI [of _ pcb0] exI [of _ s] exI [of _ us]) auto
  next
    case True
    then have pass: "write_checks_pass pcb len" and p0: "tcp_write_checks pcb len = Some (ERR_OK, pcb)" using ch by simp_all
    from wr_begin_spec [OF ok src len c, of cff] obtain r pcb2 s2 where
      2: "wr_begin cff arg len fl (mss_local pcb) pcb (wr_start pcb) s = Some (r, pcb2, s2)"
      "p12_result Z B (mss_local pcb) pcb us ks data len s r pcb2 s2" by blast
    note unf = tcp_write_run [OF ok p0 2(1)]
    have "write_result Z B pcb us ks data len s (tcp_write cff pcb (Some arg) len fl s)"
    proof (cases r)
      case None
      note R = 2(2) [unfolded p12_result_def None option.case]
      from wr_memerr_spec [OF ok, of s2 "wr_start pcb" "[]" cff] R obtain pcb' s' where
        "wr_memerr cff pcb (wr_start pcb) s2 = Some (ERR_MEM, pcb', s')" "unchanged Z B pcb us ks s pcb' s'" by auto
      then show ?thesis using unf None R by (simp add: write_result_def)
    next
      case (Some w)
      then show ?thesis using unf wr_finish [OF ok src len c pass] 2(2) by simp
    qed
    then show ?thesis using pass by (auto simp: write_result_def split: if_splits)
  qed
qed

text \<open>Three bytes of the caller on a fresh connection.\<close>

lemma net_inv_ext:
  assumes "net_inv Z B s" "pbufs s = Map.empty"
  shows "net_inv Z B (s\<lparr>extent := e, cells := c\<rparr>)"
  using assms by (simp add: net_inv_def)

theorem tcp_write_appends_witness:
  "\<exists>e pcb' s' us'. tcp_write (\<lambda>_ _. None)
       ((tcp_pcb_init 64 1000 0 0 ())\<lparr>t_state := ESTABLISHED, t_snd_wnd_max := 2920\<rparr>) (Some (ExtAddr 0, 0)) 3 1
       (boot\<lparr>extent := [ExtAddr 0 \<mapsto> 3], cells := \<lambda>_ i. [10, 20, 30] ! i\<rparr>) = Some (e, pcb', s') \<and>
     q_data us' = (if e = ERR_OK then [10, 20, 30] else [])"
proof -
  let ?pcb = "(tcp_pcb_init 64 1000 0 0 ())\<lparr>t_state := ESTABLISHED, t_snd_wnd_max := 2920\<rparr>"
  let ?s = "boot\<lparr>extent := [ExtAddr 0 \<mapsto> 3], cells := \<lambda>_ i. [10, 20, 30] ! i\<rparr>"
  note b = net_boot_inv [OF sizes_1536]
  have i: "net_inv (\<lambda>_. 1536) 4096 ?s" by (rule net_inv_ext [OF b(1)]) (simp add: net_boot_def)
  have "send_ok (\<lambda>_. 1536) 4096 ?s ?pcb [] []"
    using i by (simp add: send_ok_def tcp_pcb_init_def pcb_zero_def tail_room_def)
  moreover have "src_ok (\<lambda>_. 1536) 4096 ?s (ExtAddr 0, 0) [10, 20, 30]"
    by (auto simp: src_ok_def outside_def mem_read_def numeral_3_eq_3 upt_rec)
  moreover have "copying 1" by (simp add: copying_def TCP_WRITE_FLAG_COPY_def)
  ultimately obtain e pcb' s' us' where "tcp_write (\<lambda>_ _. None) ?pcb (Some (ExtAddr 0, 0)) 3 1 ?s = Some (e, pcb', s')"
    "if e = ERR_OK then write_checks_pass ?pcb 3 \<and> appended (\<lambda>_. 1536) 4096 ?pcb [] [] [10, 20, 30] 3 ?s pcb' s' us'
     else e \<in> {ERR_MEM, ERR_CONN} \<and> us' = [] \<and> unchanged (\<lambda>_. 1536) 4096 ?pcb [] [] ?s pcb' s'"
    using tcp_write_appends [of "\<lambda>_. 1536" 4096 ?s ?pcb "[]" "[]" "(ExtAddr 0, 0)" "[10, 20, 30]" 3 1 "\<lambda>_ _. None"] by auto
  then show ?thesis by (intro exI [of _ e] exI [of _ pcb'] exI [of _ s'] exI [of _ us']) (auto simp: appended_def split: if_splits)
qed

end
