(* ===== verification/TcpPcb.thy ===== *)
theory TcpPcb
  imports TcpSend Timers
begin

text \<open>
  The connections of the stack: control blocks at their pool elements, linked by their
  \<open>next\<close> pointers into the four lists of \<open>core/tcp.c\<close>; registration and removal; allocation of a
  control block; binding, listening, and what the application sets.
\<close>

section \<open>State\<close>

text \<open>A callback is a function of the application or one of the two defaults of the stack.\<close>

datatype 'f tcp_cb = CB_recv_null | CB_accept_null | CB_user 'f

record 'f tcp_pcb_listen =
  lp_local_ip :: u32
  lp_so_options :: u8
  lp_tos :: u8
  lp_ttl :: u8
  lp_callback_arg :: "nat option"
  lp_accept :: "'f tcp_cb option"
  lp_state :: tcp_state
  lp_prio :: u8
  lp_local_port :: u16

datatype pcb_list = L_LISTEN | L_BOUND | L_ACTIVE | L_TW

text \<open>
  The variables that \<open>tcp_input\<close> shares with the functions it calls: \<open>inseg\<close>, the header, and what
  it read from it; \<open>current_iphdr_src\<close> and \<open>current_iphdr_dest\<close> are set by the IP layer.
\<close>

record tcp_in_vars =
  in_p :: "addr option"
  in_len :: u16
  in_hdr :: ptr
  in_seqno :: u32
  in_ackno :: u32
  in_flags :: u8
  in_tcplen :: u16
  in_recv_flags :: u8
  in_recv_data :: "addr option"
  in_src :: u32
  in_dest :: u32

text \<open>
  The state of the stack. A control block exists while its pool element is taken; \<open>k_next\<close> is the
  \<open>next\<close> field of both kinds of control block. \<open>k_tm\<close> are the timeouts, whose pool is in
  \<open>k_low\<close>; \<open>k_app\<close> is the state of the application.
\<close>

record ('f, 'w, 'a) stk =
  k_low :: "'w low"
  k_pcbs :: "nat \<Rightarrow> 'f tcp_cb tcp_pcb option"
  k_lpcbs :: "nat \<Rightarrow> 'f tcp_pcb_listen option"
  k_next :: "nat \<Rightarrow> nat option option"
  k_head :: "pcb_list \<Rightarrow> nat option"
  k_ticks :: u32
  k_timer :: u8
  k_timer_ctr :: u8
  k_changed :: bool
  k_input :: "nat option"
  k_port :: u16
  k_iss :: u32
  k_in :: tcp_in_vars
  k_tm :: "unit timers"
  k_app :: 'a

text \<open>The layers below and the functions of the application.\<close>

record ('f, 'w, 'a) stk_env =
  ce_low :: "'w tcp_env"
  ce_accept :: "'f \<Rightarrow> nat option \<Rightarrow> nat \<Rightarrow> err_t \<Rightarrow> ('f, 'w, 'a) stk \<Rightarrow> (err_t \<times> ('f, 'w, 'a) stk) option"
  ce_sent :: "'f \<Rightarrow> nat option \<Rightarrow> nat \<Rightarrow> u16 \<Rightarrow> ('f, 'w, 'a) stk \<Rightarrow> (err_t \<times> ('f, 'w, 'a) stk) option"
  ce_recv :: "'f \<Rightarrow> nat option \<Rightarrow> nat \<Rightarrow> addr option \<Rightarrow> err_t \<Rightarrow> ('f, 'w, 'a) stk \<Rightarrow> (err_t \<times> ('f, 'w, 'a) stk) option"
  ce_connected :: "'f \<Rightarrow> nat option \<Rightarrow> nat \<Rightarrow> err_t \<Rightarrow> ('f, 'w, 'a) stk \<Rightarrow> (err_t \<times> ('f, 'w, 'a) stk) option"
  ce_poll :: "'f \<Rightarrow> nat option \<Rightarrow> nat \<Rightarrow> ('f, 'w, 'a) stk \<Rightarrow> (err_t \<times> ('f, 'w, 'a) stk) option"
  ce_err :: "'f \<Rightarrow> nat option \<Rightarrow> err_t \<Rightarrow> ('f, 'w, 'a) stk \<Rightarrow> ('f, 'w, 'a) stk option"

abbreviation ce_cff :: "('f, 'w, 'a) stk_env \<Rightarrow> cff_fn" where "ce_cff E \<equiv> te_cff (ce_low E)"

definition MEMP_TCP_PCB_LISTEN :: memp_t where "MEMP_TCP_PCB_LISTEN = 3"

definition SOF_ACCEPTCONN :: u8 where "SOF_ACCEPTCONN = 0x02"
definition SOF_KEEPALIVE :: u8 where "SOF_KEEPALIVE = 0x08"
definition SOF_INHERITED :: u8 where "SOF_INHERITED = 0x8c"
definition TCP_PRIO_NORMAL :: u8 where "TCP_PRIO_NORMAL = 64"
definition TCP_PRIO_MAX :: u8 where "TCP_PRIO_MAX = 127"

lemmas [tcp_flag] = SOF_ACCEPTCONN_def SOF_KEEPALIVE_def SOF_INHERITED_def

section \<open>Access\<close>

definition put_pcb :: "nat \<Rightarrow> 'f tcp_cb tcp_pcb \<Rightarrow> ('f, 'w, 'a) stk \<Rightarrow> ('f, 'w, 'a) stk" where
  "put_pcb x p s = s\<lparr>k_pcbs := (k_pcbs s)(x \<mapsto> p)\<rparr>"

definition upd_pcb ::
  "nat \<Rightarrow> ('f tcp_cb tcp_pcb \<Rightarrow> 'f tcp_cb tcp_pcb) \<Rightarrow> ('f, 'w, 'a) stk \<Rightarrow> ('f, 'w, 'a) stk option" where
  "upd_pcb x f s = do { p \<leftarrow> k_pcbs s x; Some (put_pcb x (f p) s) }"

text \<open>A function of one control block and the layers below.\<close>

definition with_pcb ::
  "nat \<Rightarrow> ('f tcp_cb tcp_pcb \<Rightarrow> 'w low \<Rightarrow> ('b \<times> 'f tcp_cb tcp_pcb \<times> 'w low) option) \<Rightarrow> ('f, 'w, 'a) stk \<Rightarrow>
     ('b \<times> ('f, 'w, 'a) stk) option" where
  "with_pcb x f s = do {
     p \<leftarrow> k_pcbs s x;
     (r, p, l) \<leftarrow> f p (k_low s);
     Some (r, (put_pcb x p s)\<lparr>k_low := l\<rparr>) }"

definition with_pcb1 ::
  "nat \<Rightarrow> ('f tcp_cb tcp_pcb \<Rightarrow> 'w low \<Rightarrow> ('f tcp_cb tcp_pcb \<times> 'w low) option) \<Rightarrow> ('f, 'w, 'a) stk \<Rightarrow>
     ('f, 'w, 'a) stk option" where
  "with_pcb1 x f s = do {
     p \<leftarrow> k_pcbs s x;
     (p, l) \<leftarrow> f p (k_low s);
     Some ((put_pcb x p s)\<lparr>k_low := l\<rparr>) }"

definition on_low :: "('w low \<Rightarrow> 'w low option) \<Rightarrow> ('f, 'w, 'a) stk \<Rightarrow> ('f, 'w, 'a) stk option" where
  "on_low f s = do { l \<leftarrow> f (k_low s); Some (s\<lparr>k_low := l\<rparr>) }"

definition on_pk :: "(net \<Rightarrow> net option) \<Rightarrow> ('f, 'w, 'a) stk \<Rightarrow> ('f, 'w, 'a) stk option" where
  "on_pk f = on_low (on_net1 f)"

abbreviation k_net :: "('f, 'w, 'a) stk \<Rightarrow> net" where "k_net s \<equiv> l_net (k_low s)"

definition k_pbuf_free :: "('f, 'w, 'a) stk_env \<Rightarrow> addr option \<Rightarrow> ('f, 'w, 'a) stk \<Rightarrow> ('f, 'w, 'a) stk option" where
  "k_pbuf_free E p = on_pk (\<lambda>n. do { (_, n) \<leftarrow> pbuf_free (ce_cff E) p n; Some n })"

definition k_output :: "('f, 'w, 'a) stk_env \<Rightarrow> nat \<Rightarrow> ('f, 'w, 'a) stk \<Rightarrow> (err_t \<times> ('f, 'w, 'a) stk) option" where
  "k_output E x s = with_pcb x (TcpSend.tcp_output (ce_low E) (k_ticks s) (k_input s = Some x)) s"

text \<open>\<open>pcb->state\<close>, \<open>pcb->local_port\<close>, \<open>pcb->local_ip\<close> of either kind of control block.\<close>

definition pcb_state :: "('f, 'w, 'a) stk \<Rightarrow> nat \<Rightarrow> tcp_state option" where
  "pcb_state s x = (case k_pcbs s x of Some p \<Rightarrow> Some (t_state p) | None \<Rightarrow> map_option lp_state (k_lpcbs s x))"

definition pcb_local :: "('f, 'w, 'a) stk \<Rightarrow> nat \<Rightarrow> (u16 \<times> u32) option" where
  "pcb_local s x = (case k_pcbs s x of Some p \<Rightarrow> Some (t_local_port p, t_local_ip p)
     | None \<Rightarrow> map_option (\<lambda>l. (lp_local_port l, lp_local_ip l)) (k_lpcbs s x))"

text \<open>\<open>memp_free(MEMP_TCP_PCB, pcb)\<close> and the same for a listening one: the object is gone.\<close>

definition free_pcb :: "nat \<Rightarrow> ('f, 'w, 'a) stk \<Rightarrow> ('f, 'w, 'a) stk option" where
  "free_pcb x s = do {
     _ \<leftarrow> k_pcbs s x;
     s \<leftarrow> on_pk (\<lambda>n. do { mp \<leftarrow> memp_free MEMP_TCP_PCB (Some x) (n_memp n); Some (n\<lparr>n_memp := mp\<rparr>) }) s;
     Some (s\<lparr>k_pcbs := (k_pcbs s)(x := None), k_next := (k_next s)(x := None)\<rparr>) }"

definition free_lpcb :: "nat \<Rightarrow> ('f, 'w, 'a) stk \<Rightarrow> ('f, 'w, 'a) stk option" where
  "free_lpcb x s = do {
     _ \<leftarrow> k_lpcbs s x;
     s \<leftarrow> on_pk (\<lambda>n. do { mp \<leftarrow> memp_free MEMP_TCP_PCB_LISTEN (Some x) (n_memp n); Some (n\<lparr>n_memp := mp\<rparr>) }) s;
     Some (s\<lparr>k_lpcbs := (k_lpcbs s)(x := None), k_next := (k_next s)(x := None)\<rparr>) }"

section \<open>The lists\<close>

text \<open>\<open>tcp_timer_needed\<close> of the timeouts, whose test for connections looks at two of the lists.\<close>

definition pcb_fns :: "bool \<Rightarrow> unit stack_fns" where
  "pcb_fns b = \<lparr>tcp_tmr = id, ip_reass_tmr = id, etharp_tmr = id, dhcp_coarse_tmr = id,
     dhcp_fine_tmr = id, tcp_has_pcbs = \<lambda>_. b, user_timer = \<lambda>_ _. id\<rparr>"

definition k_timer_needed :: "('f, 'w, 'a) stk \<Rightarrow> ('f, 'w, 'a) stk option" where
  "k_timer_needed s = do {
     t \<leftarrow> tcp_timer_needed (pcb_fns (k_head s L_ACTIVE \<noteq> None \<or> k_head s L_TW \<noteq> None))
            ((k_tm s)\<lparr>tm_memp := n_memp (k_net s)\<rparr>);
     s \<leftarrow> on_pk (\<lambda>n. Some (n\<lparr>n_memp := tm_memp t\<rparr>)) s;
     Some (s\<lparr>k_tm := t\<rparr>) }"

definition TCP_REG :: "pcb_list \<Rightarrow> nat \<Rightarrow> ('f, 'w, 'a) stk \<Rightarrow> ('f, 'w, 'a) stk option" where
  "TCP_REG l x s = do {
     _ \<leftarrow> k_next s x;
     k_timer_needed (s\<lparr>k_next := (k_next s)(x \<mapsto> k_head s l), k_head := (k_head s)(l := Some x)\<rparr>) }"

text \<open>The loop of \<open>TCP_RMV\<close>: \<open>nx\<close> is \<open>npcb->next\<close>.\<close>

partial_function (option) rmv_walk ::
  "nat \<Rightarrow> nat option \<Rightarrow> nat option \<Rightarrow> ('f, 'w, 'a) stk \<Rightarrow> ('f, 'w, 'a) stk option" where
  "rmv_walk x nx t s = (case t of None \<Rightarrow> Some s
     | Some t \<Rightarrow> Option.bind (k_next s t) (\<lambda>tn.
         if tn = Some x then Some (s\<lparr>k_next := (k_next s)(t \<mapsto> nx)\<rparr>) else rmv_walk x nx tn s))"

definition TCP_RMV :: "pcb_list \<Rightarrow> nat \<Rightarrow> ('f, 'w, 'a) stk \<Rightarrow> ('f, 'w, 'a) stk option" where
  "TCP_RMV l x s = do {
     nx \<leftarrow> k_next s x;
     s \<leftarrow> (if k_head s l = Some x then Some (s\<lparr>k_head := (k_head s)(l := nx)\<rparr>)
          else rmv_walk x nx (k_head s l) s);
     Some (s\<lparr>k_next := (k_next s)(x \<mapsto> None)\<rparr>) }"

definition TCP_REG_ACTIVE :: "nat \<Rightarrow> ('f, 'w, 'a) stk \<Rightarrow> ('f, 'w, 'a) stk option" where
  "TCP_REG_ACTIVE x s = do { s \<leftarrow> TCP_REG L_ACTIVE x s; Some (s\<lparr>k_changed := True\<rparr>) }"

definition TCP_RMV_ACTIVE :: "nat \<Rightarrow> ('f, 'w, 'a) stk \<Rightarrow> ('f, 'w, 'a) stk option" where
  "TCP_RMV_ACTIVE x s = do { s \<leftarrow> TCP_RMV L_ACTIVE x s; Some (s\<lparr>k_changed := True\<rparr>) }"

text \<open>A walk along a list for the first element with a property.\<close>

partial_function (option) pcb_find ::
  "(nat \<Rightarrow> bool option) \<Rightarrow> (nat \<Rightarrow> nat option option) \<Rightarrow> nat option \<Rightarrow> nat option option" where
  "pcb_find P nx t = (case t of None \<Rightarrow> Some None
     | Some x \<Rightarrow> Option.bind (P x) (\<lambda>b.
         if b then Some (Some x) else Option.bind (nx x) (\<lambda>n. pcb_find P nx n)))"

text \<open>The loop over \<open>tcp_pcb_lists\<close>.\<close>

fun find_lists :: "(nat \<Rightarrow> bool option) \<Rightarrow> ('f, 'w, 'a) stk \<Rightarrow> pcb_list list \<Rightarrow> nat option option" where
  "find_lists P s [] = Some None"
| "find_lists P s (l # ls) = Option.bind (pcb_find P (k_next s) (k_head s l)) (\<lambda>r.
     if r = None then find_lists P s ls else Some r)"

definition tcp_pcb_lists :: "pcb_list list" where
  "tcp_pcb_lists = [L_LISTEN, L_BOUND, L_ACTIVE, L_TW]"

section \<open>Release\<close>

definition tcp_pcb_purge :: "('f, 'w, 'a) stk_env \<Rightarrow> nat \<Rightarrow> ('f, 'w, 'a) stk \<Rightarrow> ('f, 'w, 'a) stk option" where
  "tcp_pcb_purge E x s = do {
     st \<leftarrow> pcb_state s x;
     if st \<noteq> CLOSED \<and> st \<noteq> TIME_WAIT \<and> st \<noteq> LISTEN then do {
       p \<leftarrow> k_pcbs s x;
       s \<leftarrow> (if t_refused_data p \<noteq> None then do {
              s \<leftarrow> k_pbuf_free E (t_refused_data p) s;
              upd_pcb x (\<lambda>p. p\<lparr>t_refused_data := None\<rparr>) s }
            else Some s);
       s \<leftarrow> upd_pcb x (\<lambda>p. p\<lparr>t_rtime := - 1\<rparr>) s;
       s \<leftarrow> on_pk (tcp_segs_free (ce_cff E) (t_unsent p)) s;
       s \<leftarrow> on_pk (tcp_segs_free (ce_cff E) (t_unacked p)) s;
       upd_pcb x (\<lambda>p. p\<lparr>t_unacked := [], t_unsent := [], t_unsent_oversize := 0\<rparr>) s }
     else Some s }"

definition set_state :: "nat \<Rightarrow> tcp_state \<Rightarrow> ('f, 'w, 'a) stk \<Rightarrow> ('f, 'w, 'a) stk option" where
  "set_state x st s = (case k_pcbs s x of Some p \<Rightarrow> Some (put_pcb x (p\<lparr>t_state := st\<rparr>) s)
     | None \<Rightarrow> do { l \<leftarrow> k_lpcbs s x; Some (s\<lparr>k_lpcbs := (k_lpcbs s)(x \<mapsto> l\<lparr>lp_state := st\<rparr>)\<rparr>) })"

definition tcp_pcb_remove :: "('f, 'w, 'a) stk_env \<Rightarrow> pcb_list \<Rightarrow> nat \<Rightarrow> ('f, 'w, 'a) stk \<Rightarrow> ('f, 'w, 'a) stk option" where
  "tcp_pcb_remove E l x s = do {
     s \<leftarrow> TCP_RMV l x s;
     s \<leftarrow> tcp_pcb_purge E x s;
     st \<leftarrow> pcb_state s x;
     s \<leftarrow> (if st \<noteq> TIME_WAIT \<and> st \<noteq> LISTEN then do {
            p \<leftarrow> k_pcbs s x;
            if t_flags p AND TF_ACK_DELAY \<noteq> 0 then do {
              s \<leftarrow> upd_pcb x (\<lambda>p. p\<lparr>t_flags := t_flags p OR TF_ACK_NOW\<rparr>) s;
              (_, s) \<leftarrow> k_output E x s;
              Some s }
            else Some s }
          else Some s);
     _ \<leftarrow> (if st \<noteq> LISTEN then do {
            p \<leftarrow> k_pcbs s x;
            c_assert (t_unsent p = []);
            c_assert (t_unacked p = []) }
          else Some ());
     set_state x CLOSED s }"

definition TCP_PCB_REMOVE_ACTIVE :: "('f, 'w, 'a) stk_env \<Rightarrow> nat \<Rightarrow> ('f, 'w, 'a) stk \<Rightarrow> ('f, 'w, 'a) stk option" where
  "TCP_PCB_REMOVE_ACTIVE E x s = do { s \<leftarrow> tcp_pcb_remove E L_ACTIVE x s; Some (s\<lparr>k_changed := True\<rparr>) }"

text \<open>\<open>TCP_EVENT_ERR\<close>\<close>

definition EVENT_ERR ::
  "('f, 'w, 'a) stk_env \<Rightarrow> 'f tcp_cb option \<Rightarrow> nat option \<Rightarrow> err_t \<Rightarrow> ('f, 'w, 'a) stk \<Rightarrow> ('f, 'w, 'a) stk option" where
  "EVENT_ERR E errf arg e s = (case errf of None \<Rightarrow> Some s
     | Some (CB_user f) \<Rightarrow> ce_err E f arg e s | Some _ \<Rightarrow> None)"

definition k_rst :: "('f, 'w, 'a) stk_env \<Rightarrow> nat \<Rightarrow> ('f, 'w, 'a) stk \<Rightarrow> ('f, 'w, 'a) stk option" where
  "k_rst E x s = do {
     p \<leftarrow> k_pcbs s x;
     on_low (tcp_rst (ce_low E) (t_snd_nxt p) (t_rcv_nxt p) (t_local_ip p) (t_remote_ip p)
               (t_local_port p) (t_remote_port p)) s }"

text \<open>The queues are freed again although \<open>tcp_pcb_remove\<close> has emptied them.\<close>

definition tcp_abandon :: "('f, 'w, 'a) stk_env \<Rightarrow> nat \<Rightarrow> bool \<Rightarrow> ('f, 'w, 'a) stk \<Rightarrow> ('f, 'w, 'a) stk option" where
  "tcp_abandon E x reset s = do {
     st \<leftarrow> pcb_state s x;
     c_assert (st \<noteq> LISTEN);
     if st = TIME_WAIT then do {
       s \<leftarrow> tcp_pcb_remove E L_TW x s;
       free_pcb x s }
     else do {
       p \<leftarrow> k_pcbs s x;
       let seqno = t_snd_nxt p;
       let ackno = t_rcv_nxt p;
       let errf = t_errf p;
       let errf_arg = t_callback_arg p;
       s \<leftarrow> TCP_PCB_REMOVE_ACTIVE E x s;
       p \<leftarrow> k_pcbs s x;
       s \<leftarrow> (if t_unacked p \<noteq> [] then on_pk (tcp_segs_free (ce_cff E) (t_unacked p)) s else Some s);
       s \<leftarrow> (if t_unsent p \<noteq> [] then on_pk (tcp_segs_free (ce_cff E) (t_unsent p)) s else Some s);
       s \<leftarrow> (if reset then on_low (tcp_rst (ce_low E) seqno ackno (t_local_ip p) (t_remote_ip p)
                                    (t_local_port p) (t_remote_port p)) s
            else Some s);
       s \<leftarrow> free_pcb x s;
       EVENT_ERR E errf errf_arg ERR_ABRT s } }"

definition tcp_abort :: "('f, 'w, 'a) stk_env \<Rightarrow> nat \<Rightarrow> ('f, 'w, 'a) stk \<Rightarrow> ('f, 'w, 'a) stk option" where
  "tcp_abort E x = tcp_abandon E x True"

section \<open>Allocation\<close>

text \<open>
  The oldest control block of a list among those that qualify: the loops of \<open>tcp_kill_prio\<close> and
  \<open>tcp_kill_timewait\<close> with what they have found so far.
\<close>

partial_function (option) kill_prio_loop ::
  "u8 \<Rightarrow> u8 \<Rightarrow> u32 \<Rightarrow> nat option \<Rightarrow> nat option \<Rightarrow> ('f, 'w, 'a) stk \<Rightarrow> nat option option" where
  "kill_prio_loop prio mprio inactivity inactive t s = (case t of None \<Rightarrow> Some inactive
     | Some x \<Rightarrow> Option.bind (k_pcbs s x) (\<lambda>p. Option.bind (k_next s x) (\<lambda>n.
         if t_prio p \<le> prio \<and> t_prio p \<le> mprio \<and> k_ticks s - t_tmr p \<ge> inactivity
         then kill_prio_loop prio (t_prio p) (k_ticks s - t_tmr p) (Some x) n s
         else kill_prio_loop prio mprio inactivity inactive n s)))"

definition tcp_kill_prio :: "('f, 'w, 'a) stk_env \<Rightarrow> u8 \<Rightarrow> ('f, 'w, 'a) stk \<Rightarrow> ('f, 'w, 'a) stk option" where
  "tcp_kill_prio E prio s = do {
     r \<leftarrow> kill_prio_loop prio TCP_PRIO_MAX 0 None (k_head s L_ACTIVE) s;
     case r of None \<Rightarrow> Some s | Some x \<Rightarrow> tcp_abort E x s }"

partial_function (option) kill_timewait_loop ::
  "u32 \<Rightarrow> nat option \<Rightarrow> nat option \<Rightarrow> ('f, 'w, 'a) stk \<Rightarrow> nat option option" where
  "kill_timewait_loop inactivity inactive t s = (case t of None \<Rightarrow> Some inactive
     | Some x \<Rightarrow> Option.bind (k_pcbs s x) (\<lambda>p. Option.bind (k_next s x) (\<lambda>n.
         if k_ticks s - t_tmr p \<ge> inactivity
         then kill_timewait_loop (k_ticks s - t_tmr p) (Some x) n s
         else kill_timewait_loop inactivity inactive n s)))"

definition tcp_kill_timewait :: "('f, 'w, 'a) stk_env \<Rightarrow> ('f, 'w, 'a) stk \<Rightarrow> ('f, 'w, 'a) stk option" where
  "tcp_kill_timewait E s = do {
     r \<leftarrow> kill_timewait_loop 0 None (k_head s L_TW) s;
     case r of None \<Rightarrow> Some s | Some x \<Rightarrow> tcp_abort E x s }"

definition tcp_next_iss :: "('f, 'w, 'a) stk \<Rightarrow> u32 \<times> ('f, 'w, 'a) stk" where
  "tcp_next_iss s = (let iss = k_iss s + k_ticks s in (iss, s\<lparr>k_iss := iss\<rparr>))"

definition pcb_malloc :: "memp_t \<Rightarrow> ('f, 'w, 'a) stk \<Rightarrow> (nat option \<times> ('f, 'w, 'a) stk) option" where
  "pcb_malloc t s = do {
     (x, mp) \<leftarrow> memp_malloc t (n_memp (k_net s));
     s \<leftarrow> on_pk (\<lambda>n. Some (n\<lparr>n_memp := mp\<rparr>)) s;
     Some (x, s) }"

definition tcp_alloc :: "('f, 'w, 'a) stk_env \<Rightarrow> u8 \<Rightarrow> ('f, 'w, 'a) stk \<Rightarrow> (nat option \<times> ('f, 'w, 'a) stk) option" where
  "tcp_alloc E prio s = do {
     (x, s) \<leftarrow> pcb_malloc MEMP_TCP_PCB s;
     (x, s) \<leftarrow> (if x = None then do {
            s \<leftarrow> tcp_kill_timewait E s;
            (x, s) \<leftarrow> pcb_malloc MEMP_TCP_PCB s;
            if x = None then do {
              s \<leftarrow> tcp_kill_prio E prio s;
              pcb_malloc MEMP_TCP_PCB s }
            else Some (x, s) }
          else Some (x, s));
     case x of None \<Rightarrow> Some (None, s)
     | Some x \<Rightarrow>
         let (iss, s) = tcp_next_iss s in
         Some (Some x, (put_pcb x (tcp_pcb_init prio iss (k_ticks s) (k_timer_ctr s) CB_recv_null) s)
                         \<lparr>k_next := (k_next s)(x \<mapsto> None)\<rparr>) }"

definition tcp_new :: "('f, 'w, 'a) stk_env \<Rightarrow> ('f, 'w, 'a) stk \<Rightarrow> (nat option \<times> ('f, 'w, 'a) stk) option" where
  "tcp_new E = tcp_alloc E TCP_PRIO_NORMAL"

section \<open>Binding and listening\<close>

text \<open>
  \<open>tcp_new_port\<close>: \<open>n\<close> counts the ports found in use. A port in use is one that some control block of
  some list has.
\<close>

partial_function (option) tcp_new_port_loop :: "u16 \<Rightarrow> ('f, 'w, 'a) stk \<Rightarrow> (u16 \<times> ('f, 'w, 'a) stk) option" where
  "tcp_new_port_loop n s = (
     let port = (if k_port s = 0xffff then 0xc000 else k_port s + 1); s = s\<lparr>k_port := port\<rparr> in
     Option.bind (find_lists (\<lambda>x. map_option (\<lambda>(lp, _). lp = port) (pcb_local s x)) s tcp_pcb_lists) (\<lambda>r.
       if r = None then Some (port, s)
       else if n + 1 > 0x3fff then Some (0, s)
       else tcp_new_port_loop (n + 1) s))"

definition tcp_new_port :: "('f, 'w, 'a) stk \<Rightarrow> (u16 \<times> ('f, 'w, 'a) stk) option" where
  "tcp_new_port = tcp_new_port_loop 0"

definition ip_addr_isany :: "u32 option \<Rightarrow> bool" where
  "ip_addr_isany a \<longleftrightarrow> a = None \<or> a = Some 0"

definition port_taken :: "u16 \<Rightarrow> u32 option \<Rightarrow> ('f, 'w, 'a) stk \<Rightarrow> nat \<Rightarrow> bool option" where
  "port_taken port ip s x = map_option (\<lambda>(lp, lip).
     lp = port \<and> (lip = 0 \<or> ip_addr_isany ip \<or> ip = Some lip)) (pcb_local s x)"

definition tcp_bind :: "nat \<Rightarrow> u32 option \<Rightarrow> u16 \<Rightarrow> ('f, 'w, 'a) stk \<Rightarrow> (err_t \<times> ('f, 'w, 'a) stk) option" where
  "tcp_bind x ip port s = do {
     st \<leftarrow> pcb_state s x;
     c_assert (st = CLOSED);
     (port, s) \<leftarrow> (if port = 0 then tcp_new_port s else Some (port, s));
     if port = 0 then Some (ERR_BUF, s)
     else do {
       r \<leftarrow> find_lists (port_taken port ip s) s tcp_pcb_lists;
       if r \<noteq> None then Some (ERR_USE, s)
       else do {
         s \<leftarrow> (case ip of Some a \<Rightarrow> if a \<noteq> 0 then upd_pcb x (\<lambda>p. p\<lparr>t_local_ip := a\<rparr>) s else Some s
              | None \<Rightarrow> Some s);
         s \<leftarrow> upd_pcb x (\<lambda>p. p\<lparr>t_local_port := port\<rparr>) s;
         s \<leftarrow> TCP_REG L_BOUND x s;
         Some (ERR_OK, s) } } }"

definition tcp_listen_with_backlog :: "nat \<Rightarrow> ('f, 'w, 'a) stk \<Rightarrow> (nat option \<times> ('f, 'w, 'a) stk) option" where
  "tcp_listen_with_backlog x s = do {
     st \<leftarrow> pcb_state s x;
     c_assert (st = CLOSED);
     p \<leftarrow> k_pcbs s x;
     (l, s) \<leftarrow> pcb_malloc MEMP_TCP_PCB_LISTEN s;
     case l of None \<Rightarrow> Some (None, s)
     | Some l \<Rightarrow> do {
         let lp = \<lparr>lp_local_ip = t_local_ip p, lp_so_options = t_so_options p OR SOF_ACCEPTCONN,
                   lp_tos = t_tos p, lp_ttl = t_ttl p, lp_callback_arg = t_callback_arg p, lp_accept = None,
                   lp_state = LISTEN, lp_prio = t_prio p, lp_local_port = t_local_port p\<rparr>;
         let s = s\<lparr>k_next := (k_next s)(l \<mapsto> None)\<rparr>;
         s \<leftarrow> (if t_local_port p \<noteq> 0 then TCP_RMV L_BOUND x s else Some s);
         s \<leftarrow> free_pcb x s;
         let s = s\<lparr>k_lpcbs := (k_lpcbs s)(l \<mapsto> lp\<lparr>lp_accept := Some CB_accept_null\<rparr>)\<rparr>;
         s \<leftarrow> TCP_REG L_LISTEN l s;
         Some (Some l, s) } }"

section \<open>What the application sets\<close>

definition tcp_setprio :: "nat \<Rightarrow> u8 \<Rightarrow> ('f, 'w, 'a) stk \<Rightarrow> ('f, 'w, 'a) stk option" where
  "tcp_setprio x prio = upd_pcb x (\<lambda>p. p\<lparr>t_prio := prio\<rparr>)"

definition tcp_arg :: "nat \<Rightarrow> nat option \<Rightarrow> ('f, 'w, 'a) stk \<Rightarrow> ('f, 'w, 'a) stk option" where
  "tcp_arg x arg s = (case k_pcbs s x of Some p \<Rightarrow> Some (put_pcb x (p\<lparr>t_callback_arg := arg\<rparr>) s)
     | None \<Rightarrow> do { l \<leftarrow> k_lpcbs s x; Some (s\<lparr>k_lpcbs := (k_lpcbs s)(x \<mapsto> l\<lparr>lp_callback_arg := arg\<rparr>)\<rparr>) })"

definition tcp_accept :: "nat \<Rightarrow> 'f tcp_cb option \<Rightarrow> ('f, 'w, 'a) stk \<Rightarrow> ('f, 'w, 'a) stk option" where
  "tcp_accept x f s = (case k_pcbs s x of Some p \<Rightarrow> Some (put_pcb x (p\<lparr>t_accept := f\<rparr>) s)
     | None \<Rightarrow> do { l \<leftarrow> k_lpcbs s x; Some (s\<lparr>k_lpcbs := (k_lpcbs s)(x \<mapsto> l\<lparr>lp_accept := f\<rparr>)\<rparr>) })"

text \<open>The assertions against listening control blocks.\<close>

definition not_listen :: "nat \<Rightarrow> ('f, 'w, 'a) stk \<Rightarrow> unit option" where
  "not_listen x s = do { st \<leftarrow> pcb_state s x; c_assert (st \<noteq> LISTEN) }"

definition tcp_recv :: "nat \<Rightarrow> 'f tcp_cb option \<Rightarrow> ('f, 'w, 'a) stk \<Rightarrow> ('f, 'w, 'a) stk option" where
  "tcp_recv x f s = do { _ \<leftarrow> not_listen x s; upd_pcb x (\<lambda>p. p\<lparr>t_recv := f\<rparr>) s }"

definition tcp_sent :: "nat \<Rightarrow> 'f tcp_cb option \<Rightarrow> ('f, 'w, 'a) stk \<Rightarrow> ('f, 'w, 'a) stk option" where
  "tcp_sent x f s = do { _ \<leftarrow> not_listen x s; upd_pcb x (\<lambda>p. p\<lparr>t_sent := f\<rparr>) s }"

definition tcp_err :: "nat \<Rightarrow> 'f tcp_cb option \<Rightarrow> ('f, 'w, 'a) stk \<Rightarrow> ('f, 'w, 'a) stk option" where
  "tcp_err x f s = do { _ \<leftarrow> not_listen x s; upd_pcb x (\<lambda>p. p\<lparr>t_errf := f\<rparr>) s }"

definition tcp_poll :: "nat \<Rightarrow> 'f tcp_cb option \<Rightarrow> u8 \<Rightarrow> ('f, 'w, 'a) stk \<Rightarrow> ('f, 'w, 'a) stk option" where
  "tcp_poll x f interval s = do {
     _ \<leftarrow> not_listen x s; upd_pcb x (\<lambda>p. p\<lparr>t_poll := f, t_pollinterval := interval\<rparr>) s }"

end
