(* ===== verification/TcpCore.thy ===== *)
theory TcpCore
  imports TcpPcb
begin

text \<open>
  The connections as the application and the timers see them (\<open>core/tcp.c\<close>): the receive window,
  closing, connecting, data refused by the application, and the two timers.
\<close>

section \<open>The receive window\<close>

text \<open>The result is by how much the right edge of the announced window moves.\<close>

definition tcp_update_rcv_ann_wnd :: "'f tcp_pcb \<Rightarrow> (u32 \<times> 'f tcp_pcb) option" where
  "tcp_update_rcv_ann_wnd pcb = (
     let new_right_edge = t_rcv_nxt pcb + ucast (t_rcv_wnd pcb) in
     if TCP_SEQ_GEQ new_right_edge (t_rcv_ann_right_edge pcb + ucast (min (TCP_WND div 2) (t_mss pcb)))
     then Some (new_right_edge - t_rcv_ann_right_edge pcb, pcb\<lparr>t_rcv_ann_wnd := t_rcv_wnd pcb\<rparr>)
     else if TCP_SEQ_GT (t_rcv_nxt pcb) (t_rcv_ann_right_edge pcb) then Some (0, pcb\<lparr>t_rcv_ann_wnd := 0\<rparr>)
     else (let new_rcv_ann_wnd = t_rcv_ann_right_edge pcb - t_rcv_nxt pcb in
       if new_rcv_ann_wnd \<le> 0xffff then Some (0, pcb\<lparr>t_rcv_ann_wnd := ucast new_rcv_ann_wnd\<rparr>)
       else None))"

definition TCP_WND_UPDATE_THRESHOLD :: int where "TCP_WND_UPDATE_THRESHOLD = 730"

definition recved_wnd :: "u16 \<Rightarrow> 'f tcp_pcb \<Rightarrow> (int \<times> 'f tcp_pcb) option" where
  "recved_wnd len p = do {
     c_assert (unat len + unat (t_rcv_wnd p) \<le> 0xffff);
     let wnd = t_rcv_wnd p + len;
     (infl, p) \<leftarrow> tcp_update_rcv_ann_wnd (p\<lparr>t_rcv_wnd := min wnd TCP_WND\<rparr>);
     Some (sint infl, p) }"

definition tcp_recved :: "('f, 'w, 'a) stk_env \<Rightarrow> nat \<Rightarrow> u16 \<Rightarrow> ('f, 'w, 'a) stk \<Rightarrow> ('f, 'w, 'a) stk option" where
  "tcp_recved E x len s = do {
     _ \<leftarrow> not_listen x s;
     p \<leftarrow> k_pcbs s x;
     (wnd_inflation, p) \<leftarrow> recved_wnd len p;
     let s = put_pcb x p s;
     if wnd_inflation \<ge> TCP_WND_UPDATE_THRESHOLD then do {
       s \<leftarrow> upd_pcb x (\<lambda>p. p\<lparr>t_flags := t_flags p OR TF_ACK_NOW\<rparr>) s;
       (_, s) \<leftarrow> k_output E x s;
       Some s }
     else Some s }"

section \<open>Closing\<close>

text \<open>
  A FIN is sent in the states in which the peer knows of the connection; the state changes when
  the FIN could be queued.
\<close>

definition close_fin ::
  "('f, 'w, 'a) stk_env \<Rightarrow> nat \<Rightarrow> tcp_state \<Rightarrow> ('f, 'w, 'a) stk \<Rightarrow> (err_t \<times> ('f, 'w, 'a) stk) option" where
  "close_fin E x st s = do {
     (err, s) \<leftarrow> with_pcb x (\<lambda>p l. do {
        (err, p, n) \<leftarrow> tcp_send_fin (ce_cff E) p (l_net l);
        Some (err, p, l\<lparr>l_net := n\<rparr>) }) s;
     if err = ERR_OK then do {
       s \<leftarrow> set_state x st s;
       (_, s) \<leftarrow> k_output E x s;
       Some (err, s) }
     else Some (err, s) }"

text \<open>The reset when the application has not taken all data.\<close>

definition close_unread ::
  "('f, 'w, 'a) stk_env \<Rightarrow> nat \<Rightarrow> tcp_state \<Rightarrow> ('f, 'w, 'a) stk \<Rightarrow> (err_t \<times> ('f, 'w, 'a) stk) option" where
  "close_unread E x st s = do {
     p \<leftarrow> k_pcbs s x;
     c_assert (t_flags p AND TF_RXCLOSED \<noteq> 0);
     s \<leftarrow> k_rst E x s;
     s \<leftarrow> tcp_pcb_purge E x s;
     s \<leftarrow> TCP_RMV_ACTIVE x s;
     s \<leftarrow> (if st = ESTABLISHED then do { s \<leftarrow> set_state x TIME_WAIT s; TCP_REG L_TW x s }
          else free_pcb x s);
     Some (ERR_OK, s) }"

definition has_unread :: "'f tcp_pcb \<Rightarrow> bool" where
  "has_unread p \<longleftrightarrow> t_refused_data p \<noteq> None \<or> t_rcv_wnd p \<noteq> TCP_WND"

definition close_by_state ::
  "('f, 'w, 'a) stk_env \<Rightarrow> nat \<Rightarrow> tcp_state \<Rightarrow> ('f, 'w, 'a) stk \<Rightarrow> (err_t \<times> ('f, 'w, 'a) stk) option" where
  "close_by_state E x st s = (case st of
       CLOSED \<Rightarrow> do {
         p \<leftarrow> k_pcbs s x;
         s \<leftarrow> (if t_local_port p \<noteq> 0 then TCP_RMV L_BOUND x s else Some s);
         s \<leftarrow> free_pcb x s;
         Some (ERR_OK, s) }
     | LISTEN \<Rightarrow> do {
         s \<leftarrow> tcp_pcb_remove E L_LISTEN x s;
         s \<leftarrow> free_lpcb x s;
         Some (ERR_OK, s) }
     | SYN_SENT \<Rightarrow> do {
         s \<leftarrow> TCP_PCB_REMOVE_ACTIVE E x s;
         s \<leftarrow> free_pcb x s;
         Some (ERR_OK, s) }
     | SYN_RCVD \<Rightarrow> close_fin E x FIN_WAIT_1 s
     | ESTABLISHED \<Rightarrow> close_fin E x FIN_WAIT_1 s
     | CLOSE_WAIT \<Rightarrow> close_fin E x LAST_ACK s
     | _ \<Rightarrow> Some (ERR_OK, s))"

definition tcp_close_shutdown ::
  "('f, 'w, 'a) stk_env \<Rightarrow> nat \<Rightarrow> bool \<Rightarrow> ('f, 'w, 'a) stk \<Rightarrow> (err_t \<times> ('f, 'w, 'a) stk) option" where
  "tcp_close_shutdown E x rst_on_unacked_data s = do {
     st \<leftarrow> pcb_state s x;
     unread \<leftarrow> (if rst_on_unacked_data \<and> (st = ESTABLISHED \<or> st = CLOSE_WAIT)
               then map_option has_unread (k_pcbs s x) else Some False);
     if unread then close_unread E x st s else close_by_state E x st s }"

definition tcp_close :: "('f, 'w, 'a) stk_env \<Rightarrow> nat \<Rightarrow> ('f, 'w, 'a) stk \<Rightarrow> (err_t \<times> ('f, 'w, 'a) stk) option" where
  "tcp_close E x s = do {
     st \<leftarrow> pcb_state s x;
     s \<leftarrow> (if st \<noteq> LISTEN then upd_pcb x (\<lambda>p. p\<lparr>t_flags := t_flags p OR TF_RXCLOSED\<rparr>) s else Some s);
     tcp_close_shutdown E x True s }"

definition tcp_shutdown ::
  "('f, 'w, 'a) stk_env \<Rightarrow> nat \<Rightarrow> bool \<Rightarrow> bool \<Rightarrow> ('f, 'w, 'a) stk \<Rightarrow> (err_t \<times> ('f, 'w, 'a) stk) option" where
  "tcp_shutdown E x shut_rx shut_tx s = do {
     st \<leftarrow> pcb_state s x;
     if st = LISTEN then Some (ERR_CONN, s)
     else do {
       s \<leftarrow> (if shut_rx then upd_pcb x (\<lambda>p. p\<lparr>t_flags := t_flags p OR TF_RXCLOSED\<rparr>) s else Some s);
       if shut_rx \<and> shut_tx then tcp_close_shutdown E x True s
       else do {
         p \<leftarrow> k_pcbs s x;
         s \<leftarrow> (if shut_rx \<and> t_refused_data p \<noteq> None then do {
                s \<leftarrow> k_pbuf_free E (t_refused_data p) s;
                upd_pcb x (\<lambda>p. p\<lparr>t_refused_data := None\<rparr>) s }
              else Some s);
         if shut_tx then
           if st = SYN_RCVD \<or> st = ESTABLISHED \<or> st = CLOSE_WAIT then tcp_close_shutdown E x shut_rx s
           else Some (ERR_CONN, s)
         else Some (ERR_OK, s) } } }"

section \<open>Connecting\<close>

definition connect_init ::
  "'w tcp_env \<Rightarrow> u32 \<Rightarrow> u32 \<Rightarrow> 'f tcp_cb option \<Rightarrow> 'w low \<Rightarrow> 'f tcp_cb tcp_pcb \<Rightarrow> 'f tcp_cb tcp_pcb" where
  "connect_init L iss ip connected l p = (
     let mss = tcp_eff_send_mss L (if TCP_MSS > 536 then 536 else TCP_MSS) ip (l_ip l) in
     p\<lparr>t_rcv_nxt := 0, t_snd_nxt := iss, t_lastack := iss - 1, t_snd_lbb := iss - 1,
       t_rcv_wnd := TCP_WND, t_rcv_ann_wnd := TCP_WND, t_rcv_ann_right_edge := 0, t_snd_wnd := TCP_WND,
       t_mss := mss, t_cwnd := 1, t_ssthresh := mss * 10, t_connected := connected\<rparr>)"

definition tcp_connect ::
  "('f, 'w, 'a) stk_env \<Rightarrow> nat \<Rightarrow> u32 option \<Rightarrow> u16 \<Rightarrow> 'f tcp_cb option \<Rightarrow> ('f, 'w, 'a) stk \<Rightarrow>
     (err_t \<times> ('f, 'w, 'a) stk) option" where
  "tcp_connect E x ipaddr port connected s = do {
     st \<leftarrow> pcb_state s x;
     c_assert (st = CLOSED);
     case ipaddr of None \<Rightarrow> Some (ERR_VAL, s)
     | Some ip \<Rightarrow> do {
         s \<leftarrow> upd_pcb x (\<lambda>p. p\<lparr>t_remote_ip := ip, t_remote_port := port\<rparr>) s;
         p \<leftarrow> k_pcbs s x;
         case (if t_local_ip p = 0 then map_option nif_ip_addr (te_route (ce_low E) ip (l_ip (k_low s)))
               else Some (t_local_ip p)) of
           None \<Rightarrow> Some (ERR_RTE, s)
         | Some lip \<Rightarrow> do {
             s \<leftarrow> upd_pcb x (\<lambda>p. p\<lparr>t_local_ip := lip\<rparr>) s;
             let old_local_port = t_local_port p;
             (lport, s) \<leftarrow> (if old_local_port = 0 then tcp_new_port s else Some (old_local_port, s));
             s \<leftarrow> upd_pcb x (\<lambda>p. p\<lparr>t_local_port := lport\<rparr>) s;
             if lport = 0 then Some (ERR_BUF, s)
             else do {
               let (iss, s) = tcp_next_iss s;
               s \<leftarrow> upd_pcb x (connect_init (ce_low E) iss ip connected (k_low s)) s;
               (ret, s) \<leftarrow> with_pcb x (\<lambda>p l. do {
                  (ret, p, n) \<leftarrow> tcp_enqueue_flags (ce_cff E) p TCP_SYN (l_net l);
                  Some (ret, p, l\<lparr>l_net := n\<rparr>) }) s;
               if ret = ERR_OK then do {
                 s \<leftarrow> set_state x SYN_SENT s;
                 s \<leftarrow> (if old_local_port \<noteq> 0 then TCP_RMV L_BOUND x s else Some s);
                 s \<leftarrow> TCP_REG_ACTIVE x s;
                 (_, s) \<leftarrow> k_output E x s;
                 Some (ret, s) }
               else Some (ret, s) } } } }"

section \<open>Receiving by default\<close>

definition tcp_recv_null ::
  "('f, 'w, 'a) stk_env \<Rightarrow> nat \<Rightarrow> addr option \<Rightarrow> err_t \<Rightarrow> ('f, 'w, 'a) stk \<Rightarrow> (err_t \<times> ('f, 'w, 'a) stk) option" where
  "tcp_recv_null E x p err s = (case p of
       Some a \<Rightarrow> do {
         b \<leftarrow> pbufs (k_net s) a;
         s \<leftarrow> tcp_recved E x (pb_tot_len b) s;
         s \<leftarrow> k_pbuf_free E (Some a) s;
         Some (ERR_OK, s) }
     | None \<Rightarrow> if err = ERR_OK then tcp_close E x s else Some (ERR_OK, s))"

text \<open>\<open>TCP_EVENT_RECV\<close>, \<open>TCP_EVENT_CLOSED\<close>, \<open>TCP_EVENT_SENT\<close>, \<open>TCP_EVENT_POLL\<close>\<close>

definition call_recv ::
  "('f, 'w, 'a) stk_env \<Rightarrow> 'f tcp_cb \<Rightarrow> nat \<Rightarrow> addr option \<Rightarrow> err_t \<Rightarrow> ('f, 'w, 'a) stk \<Rightarrow> (err_t \<times> ('f, 'w, 'a) stk) option" where
  "call_recv E f x p err s = (case f of
       CB_recv_null \<Rightarrow> tcp_recv_null E x p err s
     | CB_user g \<Rightarrow> do { pcb \<leftarrow> k_pcbs s x; ce_recv E g (t_callback_arg pcb) x p err s }
     | CB_accept_null \<Rightarrow> None)"

definition EVENT_RECV ::
  "('f, 'w, 'a) stk_env \<Rightarrow> nat \<Rightarrow> addr option \<Rightarrow> err_t \<Rightarrow> ('f, 'w, 'a) stk \<Rightarrow> (err_t \<times> ('f, 'w, 'a) stk) option" where
  "EVENT_RECV E x p err s = do {
     pcb \<leftarrow> k_pcbs s x;
     case t_recv pcb of Some f \<Rightarrow> call_recv E f x p err s | None \<Rightarrow> tcp_recv_null E x p err s }"

definition EVENT_CLOSED ::
  "('f, 'w, 'a) stk_env \<Rightarrow> nat \<Rightarrow> ('f, 'w, 'a) stk \<Rightarrow> (err_t \<times> ('f, 'w, 'a) stk) option" where
  "EVENT_CLOSED E x s = do {
     pcb \<leftarrow> k_pcbs s x;
     case t_recv pcb of Some f \<Rightarrow> call_recv E f x None ERR_OK s | None \<Rightarrow> Some (ERR_OK, s) }"

definition EVENT_SENT ::
  "('f, 'w, 'a) stk_env \<Rightarrow> nat \<Rightarrow> u16 \<Rightarrow> ('f, 'w, 'a) stk \<Rightarrow> (err_t \<times> ('f, 'w, 'a) stk) option" where
  "EVENT_SENT E x space s = do {
     pcb \<leftarrow> k_pcbs s x;
     case t_sent pcb of None \<Rightarrow> Some (ERR_OK, s)
     | Some (CB_user f) \<Rightarrow> ce_sent E f (t_callback_arg pcb) x space s
     | Some _ \<Rightarrow> None }"

definition EVENT_POLL ::
  "('f, 'w, 'a) stk_env \<Rightarrow> nat \<Rightarrow> ('f, 'w, 'a) stk \<Rightarrow> (err_t \<times> ('f, 'w, 'a) stk) option" where
  "EVENT_POLL E x s = do {
     pcb \<leftarrow> k_pcbs s x;
     case t_poll pcb of None \<Rightarrow> Some (ERR_OK, s)
     | Some (CB_user f) \<Rightarrow> ce_poll E f (t_callback_arg pcb) x s
     | Some _ \<Rightarrow> None }"

text \<open>
  Data that the application refused is offered again. \<open>PBUF_FLAG_TCP_FIN\<close> says that it came
  with a FIN.
\<close>

definition PBUF_FLAG_TCP_FIN :: u8 where "PBUF_FLAG_TCP_FIN = 0x20"

definition wnd_for_fin :: "nat \<Rightarrow> ('f, 'w, 'a) stk \<Rightarrow> ('f, 'w, 'a) stk option" where
  "wnd_for_fin x = upd_pcb x (\<lambda>p. if t_rcv_wnd p \<noteq> TCP_WND then p\<lparr>t_rcv_wnd := t_rcv_wnd p + 1\<rparr> else p)"

definition tcp_process_refused_data ::
  "('f, 'w, 'a) stk_env \<Rightarrow> nat \<Rightarrow> ('f, 'w, 'a) stk \<Rightarrow> (err_t \<times> ('f, 'w, 'a) stk) option" where
  "tcp_process_refused_data E x s = do {
     p \<leftarrow> k_pcbs s x;
     a \<leftarrow> t_refused_data p;
     b \<leftarrow> pbufs (k_net s) a;
     let refused_flags = pb_flags b;
     s \<leftarrow> upd_pcb x (\<lambda>p. p\<lparr>t_refused_data := None\<rparr>) s;
     (err, s) \<leftarrow> EVENT_RECV E x (Some a) ERR_OK s;
     if err = ERR_OK then
       if refused_flags AND PBUF_FLAG_TCP_FIN \<noteq> 0 then do {
         s \<leftarrow> wnd_for_fin x s;
         (err, s) \<leftarrow> EVENT_CLOSED E x s;
         Some (if err = ERR_ABRT then ERR_ABRT else ERR_OK, s) }
       else Some (ERR_OK, s)
     else if err = ERR_ABRT then Some (ERR_ABRT, s)
     else do {
       s \<leftarrow> upd_pcb x (\<lambda>p. p\<lparr>t_refused_data := Some a\<rparr>) s;
       Some (ERR_OK, s) } }"

section \<open>The slow timer\<close>

definition TCP_MAXRTX :: u8 where "TCP_MAXRTX = 12"
definition TCP_SYNMAXRTX :: u8 where "TCP_SYNMAXRTX = 6"

definition tcp_backoff :: "nat list" where
  "tcp_backoff = [1, 2, 3, 4, 5, 6, 7, 7, 7, 7, 7, 7, 7]"

definition tcp_persist_backoff :: "u8 list" where
  "tcp_persist_backoff = [3, 6, 12, 24, 48, 96, 120]"

text \<open>An array access.\<close>

definition nth_opt :: "'b list \<Rightarrow> nat \<Rightarrow> 'b option" where
  "nth_opt xs i = (if i < length xs then Some (xs ! i) else None)"

text \<open>The persist timer of a connection whose window is closed.\<close>

definition slow_persist :: "('f, 'w, 'a) stk_env \<Rightarrow> nat \<Rightarrow> ('f, 'w, 'a) stk \<Rightarrow> ('f, 'w, 'a) stk option" where
  "slow_persist E x s = do {
     s \<leftarrow> upd_pcb x (\<lambda>p. p\<lparr>t_persist_cnt := t_persist_cnt p + 1\<rparr>) s;
     p \<leftarrow> k_pcbs s x;
     lim \<leftarrow> nth_opt tcp_persist_backoff (unat (t_persist_backoff p) - 1);
     if t_persist_cnt p \<ge> lim then do {
       s \<leftarrow> upd_pcb x (\<lambda>p. p\<lparr>t_persist_cnt := 0,
              t_persist_backoff := (if t_persist_backoff p < 7 then t_persist_backoff p + 1 else t_persist_backoff p)\<rparr>) s;
       with_pcb1 x (tcp_zero_window_probe (ce_low E)) s }
     else Some s }"

text \<open>The time-out, the threshold and the congestion window when the timer has expired.\<close>

definition rto_backoff :: "'f tcp_pcb \<Rightarrow> 'f tcp_pcb option" where
  "rto_backoff p = do {
     p \<leftarrow> (if t_state p \<noteq> SYN_SENT then do {
            b \<leftarrow> nth_opt tcp_backoff (unat (t_nrtx p));
            Some (p\<lparr>t_rto := of_int ((sint (t_sa p) div 8 + sint (t_sv p)) * 2 ^ b)\<rparr>) }
          else Some p);
     let eff_wnd = min (t_cwnd p) (t_snd_wnd p);
     let ss = eff_wnd div 2;
     let ss = (if unat ss < 2 * unat (t_mss p) then 2 * t_mss p else ss);
     Some (p\<lparr>t_rtime := 0, t_ssthresh := ss, t_cwnd := t_mss p\<rparr>) }"

definition slow_rtx :: "('f, 'w, 'a) stk_env \<Rightarrow> nat \<Rightarrow> ('f, 'w, 'a) stk \<Rightarrow> ('f, 'w, 'a) stk option" where
  "slow_rtx E x s = do {
     s \<leftarrow> upd_pcb x (\<lambda>p. if sint (t_rtime p) \<ge> 0 then p\<lparr>t_rtime := t_rtime p + 1\<rparr> else p) s;
     p \<leftarrow> k_pcbs s x;
     if t_unacked p \<noteq> [] \<and> sint (t_rtime p) \<ge> sint (t_rto p) then do {
       p \<leftarrow> rto_backoff p;
       with_pcb1 x (tcp_rexmit_rto (ce_low E) (k_ticks s) (k_input s = Some x)) (put_pcb x p s) }
     else Some s }"

text \<open>Whether the connection has used up its retransmissions; if not, its timers run.\<close>

definition slow_timers :: "('f, 'w, 'a) stk_env \<Rightarrow> nat \<Rightarrow> ('f, 'w, 'a) stk \<Rightarrow> (bool \<times> ('f, 'w, 'a) stk) option" where
  "slow_timers E x s = do {
     p \<leftarrow> k_pcbs s x;
     if t_state p = SYN_SENT \<and> t_nrtx p = TCP_SYNMAXRTX \<or> t_nrtx p = TCP_MAXRTX then Some (True, s)
     else do {
       s \<leftarrow> (if t_persist_backoff p > 0 then slow_persist E x s else slow_rtx E x s);
       Some (False, s) } }"

text \<open>How long a connection has been idle, in ticks, and the limits for the closing states.\<close>

definition idle_ticks :: "('f, 'w, 'a) stk \<Rightarrow> 'f tcp_cb tcp_pcb \<Rightarrow> u32" where
  "idle_ticks s p = k_ticks s - t_tmr p"

definition slow_stuck :: "('f, 'w, 'a) stk \<Rightarrow> 'f tcp_cb tcp_pcb \<Rightarrow> bool" where
  "slow_stuck s p \<longleftrightarrow>
     t_state p = FIN_WAIT_2 \<and> t_flags p AND TF_RXCLOSED \<noteq> 0 \<and> idle_ticks s p > 40 \<or>
     t_state p = SYN_RCVD \<and> idle_ticks s p > 40 \<or>
     t_state p = LAST_ACK \<and> idle_ticks s p > 240"

text \<open>The keepalive timer: the result says that the connection is to be reset and removed.\<close>

definition slow_keepalive :: "('f, 'w, 'a) stk_env \<Rightarrow> nat \<Rightarrow> ('f, 'w, 'a) stk \<Rightarrow> (bool \<times> ('f, 'w, 'a) stk) option" where
  "slow_keepalive E x s = do {
     p \<leftarrow> k_pcbs s x;
     if t_so_options p AND SOF_KEEPALIVE \<noteq> 0 \<and> (t_state p = ESTABLISHED \<or> t_state p = CLOSE_WAIT) then
       if idle_ticks s p > (t_keep_idle p + 9 * 75000) div 500 then Some (True, s)
       else if idle_ticks s p > (t_keep_idle p + ucast (t_keep_cnt_sent p) * 75000) div 500 then do {
         s \<leftarrow> with_pcb1 x (tcp_keepalive (ce_low E)) s;
         s \<leftarrow> upd_pcb x (\<lambda>p. p\<lparr>t_keep_cnt_sent := t_keep_cnt_sent p + 1\<rparr>) s;
         Some (False, s) }
       else Some (False, s)
     else Some (False, s) }"

text \<open>
  The work on one active control block: whether it is to be removed, and whether with a reset. The
  test of FIN-WAIT-2 comes before the keepalive timer in the code, the other two after it; the keepalive
  timer changes nothing that they look at.
\<close>

definition slow_pcb :: "('f, 'w, 'a) stk_env \<Rightarrow> nat \<Rightarrow> ('f, 'w, 'a) stk \<Rightarrow> (bool \<times> bool \<times> ('f, 'w, 'a) stk) option" where
  "slow_pcb E x s = do {
     s \<leftarrow> upd_pcb x (\<lambda>p. p\<lparr>t_last_timer := k_timer_ctr s\<rparr>) s;
     (r1, s) \<leftarrow> slow_timers E x s;
     (r2, s) \<leftarrow> slow_keepalive E x s;
     p \<leftarrow> k_pcbs s x;
     Some (r1 \<or> r2 \<or> slow_stuck s p, r2, s) }"

text \<open>A control block leaves the list: \<open>prev\<close> is the one before it.\<close>

definition unlink_pcb :: "pcb_list \<Rightarrow> nat option \<Rightarrow> nat \<Rightarrow> ('f, 'w, 'a) stk \<Rightarrow> ('f, 'w, 'a) stk option" where
  "unlink_pcb l prev x s = do {
     nx \<leftarrow> k_next s x;
     case prev of
       Some q \<Rightarrow> do {
         c_assert (k_head s l \<noteq> Some x);
         _ \<leftarrow> k_next s q;
         Some (s\<lparr>k_next := (k_next s)(q \<mapsto> nx)\<rparr>) }
     | None \<Rightarrow> do {
         c_assert (k_head s l = Some x);
         Some (s\<lparr>k_head := (k_head s)(l := nx)\<rparr>) } }"

text \<open>The removal, up to the callback: the result is the next control block.\<close>

definition slow_remove ::
  "('f, 'w, 'a) stk_env \<Rightarrow> nat option \<Rightarrow> nat \<Rightarrow> bool \<Rightarrow> ('f, 'w, 'a) stk \<Rightarrow> (nat option \<times> ('f, 'w, 'a) stk) option" where
  "slow_remove E prev x reset s = do {
     s \<leftarrow> tcp_pcb_purge E x s;
     s \<leftarrow> unlink_pcb L_ACTIVE prev x s;
     s \<leftarrow> (if reset then k_rst E x s else Some s);
     p \<leftarrow> k_pcbs s x;
     nx \<leftarrow> k_next s x;
     s \<leftarrow> free_pcb x s;
     s \<leftarrow> EVENT_ERR E (t_errf p) (t_callback_arg p) ERR_ABRT (s\<lparr>k_changed := False\<rparr>);
     Some (nx, s) }"

text \<open>The poll of the application: the result says that the loop has to start again.\<close>

definition slow_poll :: "('f, 'w, 'a) stk_env \<Rightarrow> nat \<Rightarrow> ('f, 'w, 'a) stk \<Rightarrow> (bool \<times> ('f, 'w, 'a) stk) option" where
  "slow_poll E x s = do {
     s \<leftarrow> upd_pcb x (\<lambda>p. p\<lparr>t_polltmr := t_polltmr p + 1\<rparr>) s;
     p \<leftarrow> k_pcbs s x;
     if t_polltmr p \<ge> t_pollinterval p then do {
       s \<leftarrow> upd_pcb x (\<lambda>p. p\<lparr>t_polltmr := 0\<rparr>) s;
       (err, s) \<leftarrow> EVENT_POLL E x (s\<lparr>k_changed := False\<rparr>);
       if k_changed s then Some (True, s)
       else if err = ERR_OK then do { (_, s) \<leftarrow> k_output E x s; Some (False, s) }
       else Some (False, s) }
     else Some (False, s) }"

partial_function (option) slow_loop ::
  "('f, 'w, 'a) stk_env \<Rightarrow> nat option \<Rightarrow> nat option \<Rightarrow> ('f, 'w, 'a) stk \<Rightarrow> ('f, 'w, 'a) stk option" where
  "slow_loop E prev t s = (case t of None \<Rightarrow> Some s
     | Some x \<Rightarrow> Option.bind (k_pcbs s x) (\<lambda>p. Option.bind (k_next s x) (\<lambda>nx.
         if t_state p = CLOSED \<or> t_state p = LISTEN \<or> t_state p = TIME_WAIT then None
         else if t_last_timer p = k_timer_ctr s then slow_loop E prev nx s
         else Option.bind (slow_pcb E x s) (\<lambda>(remove, reset, s).
           if remove then Option.bind (slow_remove E prev x reset s) (\<lambda>(nx, s).
             if k_changed s then slow_loop E None (k_head s L_ACTIVE) s else slow_loop E prev nx s)
           else Option.bind (k_next s x) (\<lambda>nx. Option.bind (slow_poll E x s) (\<lambda>(again, s).
             if again then slow_loop E None (k_head s L_ACTIVE) s else slow_loop E (Some x) nx s))))))"

text \<open>The list of the connections in TIME-WAIT.\<close>

partial_function (option) slow_tw_loop ::
  "('f, 'w, 'a) stk_env \<Rightarrow> nat option \<Rightarrow> nat option \<Rightarrow> ('f, 'w, 'a) stk \<Rightarrow> ('f, 'w, 'a) stk option" where
  "slow_tw_loop E prev t s = (case t of None \<Rightarrow> Some s
     | Some x \<Rightarrow> Option.bind (k_pcbs s x) (\<lambda>p. Option.bind (k_next s x) (\<lambda>nx.
         if t_state p \<noteq> TIME_WAIT then None
         else if idle_ticks s p > 240 then
           Option.bind (tcp_pcb_purge E x s) (\<lambda>s.
             Option.bind (unlink_pcb L_TW prev x s) (\<lambda>s.
               Option.bind (free_pcb x s) (\<lambda>s. slow_tw_loop E prev nx s)))
         else slow_tw_loop E (Some x) nx s)))"

definition tcp_slowtmr :: "('f, 'w, 'a) stk_env \<Rightarrow> ('f, 'w, 'a) stk \<Rightarrow> ('f, 'w, 'a) stk option" where
  "tcp_slowtmr E s = do {
     let s = s\<lparr>k_ticks := k_ticks s + 1, k_timer_ctr := k_timer_ctr s + 1\<rparr>;
     s \<leftarrow> slow_loop E None (k_head s L_ACTIVE) s;
     slow_tw_loop E None (k_head s L_TW) s }"

section \<open>The fast timer\<close>

text \<open>The delayed acknowledgement.\<close>

definition fast_ack :: "('f, 'w, 'a) stk_env \<Rightarrow> nat \<Rightarrow> ('f, 'w, 'a) stk \<Rightarrow> ('f, 'w, 'a) stk option" where
  "fast_ack E x s = do {
     p \<leftarrow> k_pcbs s x;
     if t_flags p AND TF_ACK_DELAY \<noteq> 0 then do {
       s \<leftarrow> upd_pcb x (\<lambda>p. p\<lparr>t_flags := t_flags p OR TF_ACK_NOW\<rparr>) s;
       (_, s) \<leftarrow> k_output E x s;
       upd_pcb x (\<lambda>p. p\<lparr>t_flags := t_flags p AND NOT (TF_ACK_DELAY OR TF_ACK_NOW)\<rparr>) s }
     else Some s }"

text \<open>The loop steps to the next control block only where it has processed one.\<close>

partial_function (option) fast_loop ::
  "('f, 'w, 'a) stk_env \<Rightarrow> nat option \<Rightarrow> ('f, 'w, 'a) stk \<Rightarrow> ('f, 'w, 'a) stk option" where
  "fast_loop E t s = (case t of None \<Rightarrow> Some s
     | Some x \<Rightarrow> Option.bind (k_pcbs s x) (\<lambda>p.
         if t_last_timer p \<noteq> k_timer_ctr s then
           Option.bind (fast_ack E x (put_pcb x (p\<lparr>t_last_timer := k_timer_ctr s\<rparr>) s)) (\<lambda>s.
             Option.bind (k_next s x) (\<lambda>nx. Option.bind (k_pcbs s x) (\<lambda>p.
               if t_refused_data p \<noteq> None then
                 Option.bind (tcp_process_refused_data E x (s\<lparr>k_changed := False\<rparr>)) (\<lambda>(_, s).
                   if k_changed s then fast_loop E (k_head s L_ACTIVE) s else fast_loop E nx s)
               else fast_loop E nx s)))
         else fast_loop E (Some x) s))"

definition tcp_fasttmr :: "('f, 'w, 'a) stk_env \<Rightarrow> ('f, 'w, 'a) stk \<Rightarrow> ('f, 'w, 'a) stk option" where
  "tcp_fasttmr E s = (let s = s\<lparr>k_timer_ctr := k_timer_ctr s + 1\<rparr> in fast_loop E (k_head s L_ACTIVE) s)"

definition tcp_tmr :: "('f, 'w, 'a) stk_env \<Rightarrow> ('f, 'w, 'a) stk \<Rightarrow> ('f, 'w, 'a) stk option" where
  "tcp_tmr E s = do {
     s \<leftarrow> tcp_fasttmr E s;
     let s = s\<lparr>k_timer := k_timer s + 1\<rparr>;
     if k_timer s AND 1 \<noteq> 0 then tcp_slowtmr E s else Some s }"

end
