(* ===== verification/TcpIn.thy ===== *)
theory TcpIn
  imports TcpCore IpAddr
begin

text \<open>
  \<open>core/tcp_in.c\<close>: an incoming segment is checked, given to the connection it belongs to, and
  processed by the state machine. The functions share the variables \<^typ>\<open>tcp_in_vars\<close>.
\<close>

definition TF_RESET :: u8 where "TF_RESET = 0x08"
definition TF_CLOSED :: u8 where "TF_CLOSED = 0x10"
definition TF_GOT_FIN :: u8 where "TF_GOT_FIN = 0x20"
definition PBUF_FLAG_PUSH :: u8 where "PBUF_FLAG_PUSH = 0x01"

lemmas [tcp_flag] = TF_RESET_def TF_CLOSED_def TF_GOT_FIN_def

section \<open>Options\<close>

text \<open>
  \<open>tcp_parseopt\<close>: \<open>opts\<close> are the options as they lie in memory. The length of an unknown option is
  read behind the option kind even when that is the last byte of the header.
\<close>

definition ld8 :: "net \<Rightarrow> ptr \<Rightarrow> u8 option" where
  "ld8 s p = map_option (\<lambda>bs. bs ! 0) (mem_read s p 1)"

text \<open>One option at \<open>c\<close>: the position of the next one, or \<open>None\<close> at the end; and the MSS it sets.\<close>

definition parse_one :: "net \<Rightarrow> ptr \<Rightarrow> u16 \<Rightarrow> u16 \<Rightarrow> (u16 option \<times> u16 option) option" where
  "parse_one s opts max_c c = do {
     opt \<leftarrow> ld8 s (ptr_add opts (unat c));
     if opt = 0 then Some (None, None)
     else if opt = 1 then Some (Some (c + 1), None)
     else do {
       n \<leftarrow> ld8 s (ptr_add opts (unat c + 1));
       if opt = 2 then
         if n \<noteq> 4 \<or> unat c + 4 > unat max_c then Some (None, None)
         else do {
           h \<leftarrow> ld8 s (ptr_add opts (unat c + 2));
           l \<leftarrow> ld8 s (ptr_add opts (unat c + 3));
           let mss = (push_bit 8 (ucast h) OR ucast l :: u16);
           Some (Some (c + 4), Some (if mss > TCP_MSS \<or> mss = 0 then TCP_MSS else mss)) }
       else if n = 0 then Some (None, None)
       else Some (Some (c + ucast n), None) } }"

partial_function (option) parse_loop :: "net \<Rightarrow> ptr \<Rightarrow> u16 \<Rightarrow> u16 \<Rightarrow> 'f tcp_pcb \<Rightarrow> 'f tcp_pcb option" where
  "parse_loop s opts max_c c pcb =
     (if c < max_c then
        Option.bind (parse_one s opts max_c c) (\<lambda>(c', m).
          let pcb = (case m of None \<Rightarrow> pcb | Some v \<Rightarrow> pcb\<lparr>t_mss := v\<rparr>) in
          case c' of None \<Rightarrow> Some pcb | Some c' \<Rightarrow> parse_loop s opts max_c c' pcb)
      else Some pcb)"

definition tcp_parseopt :: "net \<Rightarrow> ptr \<Rightarrow> 'f tcp_pcb \<Rightarrow> 'f tcp_pcb option" where
  "tcp_parseopt s tcphdr pcb = do {
     hl \<leftarrow> TCPH_HDRLEN s tcphdr;
     if hl > 5 then parse_loop s (ptr_add tcphdr (unat TCP_HLEN)) (push_bit 2 (hl - 5)) 0 pcb
     else Some pcb }"

section \<open>Acknowledgements\<close>

text \<open>The window of the peer.\<close>

definition rcv_window :: "u32 \<Rightarrow> u32 \<Rightarrow> u16 \<Rightarrow> 'f tcp_pcb \<Rightarrow> 'f tcp_pcb" where
  "rcv_window seqno ackno wnd pcb =
     (if TCP_SEQ_LT (t_snd_wl1 pcb) seqno \<or> t_snd_wl1 pcb = seqno \<and> TCP_SEQ_LT (t_snd_wl2 pcb) ackno \<or>
         t_snd_wl2 pcb = ackno \<and> wnd > t_snd_wnd pcb
      then (let pcb = pcb\<lparr>t_snd_wnd := wnd, t_snd_wnd_max := max (t_snd_wnd_max pcb) wnd,
                          t_snd_wl1 := seqno, t_snd_wl2 := ackno\<rparr> in
        if wnd = 0 then
          if t_persist_backoff pcb = 0 then pcb\<lparr>t_persist_cnt := 0, t_persist_backoff := 1\<rparr> else pcb
        else if t_persist_backoff pcb > 0 then pcb\<lparr>t_persist_backoff := 0\<rparr> else pcb)
      else pcb)"

text \<open>An acknowledgement of nothing new: \<open>right_wnd_edge\<close> is the right edge before the update.\<close>

definition is_dupack :: "u32 \<Rightarrow> u32 \<Rightarrow> u16 \<Rightarrow> 'f tcp_pcb \<Rightarrow> bool" where
  "is_dupack right_wnd_edge ackno tcplen pcb \<longleftrightarrow> tcplen = 0 \<and>
     t_snd_wl2 pcb + ucast (t_snd_wnd pcb) = right_wnd_edge \<and> sint (t_rtime pcb) \<ge> 0 \<and> t_lastack pcb = ackno"

definition rcv_dupack :: "u32 \<Rightarrow> u32 \<Rightarrow> u16 \<Rightarrow> 'f tcp_pcb \<Rightarrow> net \<Rightarrow> 'f tcp_pcb option" where
  "rcv_dupack right_wnd_edge ackno tcplen pcb s = (
     let pcb = pcb\<lparr>t_acked := 0\<rparr> in
     if is_dupack right_wnd_edge ackno tcplen pcb then
       let pcb = (if t_dupacks pcb + 1 > t_dupacks pcb then pcb\<lparr>t_dupacks := t_dupacks pcb + 1\<rparr> else pcb) in
       if t_dupacks pcb > 3 then
         Some (if t_cwnd pcb + t_mss pcb > t_cwnd pcb then pcb\<lparr>t_cwnd := t_cwnd pcb + t_mss pcb\<rparr> else pcb)
       else if t_dupacks pcb = 3 then tcp_rexmit_fast pcb s
       else Some pcb
     else Some (pcb\<lparr>t_dupacks := 0\<rparr>))"

text \<open>
  The counters and the congestion window when new data is acknowledged. A congestion window of 0
  would be divided by.
\<close>

definition sar :: "nat \<Rightarrow> s16 \<Rightarrow> int" where "sar k x = sint x div 2 ^ k"

definition grow_cwnd :: "'f tcp_pcb \<Rightarrow> 'f tcp_pcb option" where
  "grow_cwnd pcb =
     (if t_cwnd pcb < t_ssthresh pcb then
        Some (if t_cwnd pcb + t_mss pcb > t_cwnd pcb then pcb\<lparr>t_cwnd := t_cwnd pcb + t_mss pcb\<rparr> else pcb)
      else if t_cwnd pcb = 0 then None
      else (let new_cwnd = of_nat (unat (t_cwnd pcb) + unat (t_mss pcb) * unat (t_mss pcb) div unat (t_cwnd pcb)) in
        Some (if new_cwnd > t_cwnd pcb then pcb\<lparr>t_cwnd := new_cwnd\<rparr> else pcb)))"

definition acked_state :: "'f tcp_pcb \<Rightarrow> bool" where
  "acked_state pcb \<longleftrightarrow> t_state pcb \<notin> {CLOSED, LISTEN, SYN_SENT, SYN_RCVD}"

definition rcv_newack :: "u32 \<Rightarrow> 'f tcp_pcb \<Rightarrow> 'f tcp_pcb option" where
  "rcv_newack ackno pcb = (
     let pcb = (if t_flags pcb AND TF_INFR \<noteq> 0
                then pcb\<lparr>t_flags := t_flags pcb AND NOT TF_INFR, t_cwnd := t_ssthresh pcb\<rparr> else pcb);
         acked = ucast (ackno - t_lastack pcb);
         pcb = pcb\<lparr>t_nrtx := 0, t_rto := of_int (sar 3 (t_sa pcb) + sint (t_sv pcb)), t_acked := acked,
                   t_snd_buf := t_snd_buf pcb + acked, t_dupacks := 0, t_lastack := ackno\<rparr>
     in if acked_state pcb then grow_cwnd pcb else Some pcb)"

text \<open>
  A segment that is acknowledged leaves its queue: the rest of the queues is already in the control
  block. A FIN is not counted for the application.
\<close>

definition drop_acked :: "cff_fn \<Rightarrow> tcp_seg \<Rightarrow> 'f tcp_pcb \<Rightarrow> net \<Rightarrow> ('f tcp_pcb \<times> net) option" where
  "drop_acked cff g pcb s = do {
     n \<leftarrow> pbuf_clen (sg_p g) s;
     c_assert (t_snd_queuelen pcb \<ge> ucast n);
     fl \<leftarrow> (if t_acked pcb \<noteq> 0 then TCPH_FLAGS s (sg_tcphdr g) else Some 0);
     let pcb = (if fl AND TCP_FIN \<noteq> 0 then pcb\<lparr>t_acked := t_acked pcb - 1\<rparr> else pcb);
     let pcb = pcb\<lparr>t_snd_queuelen := t_snd_queuelen pcb - ucast n\<rparr>;
     s \<leftarrow> tcp_seg_free cff g s;
     c_assert (t_snd_queuelen pcb \<noteq> 0 \<longrightarrow> t_unacked pcb \<noteq> [] \<or> t_unsent pcb \<noteq> []);
     Some (pcb, s) }"

text \<open>The sequence number behind a segment.\<close>

definition seg_end :: "net \<Rightarrow> tcp_seg \<Rightarrow> u32 option" where
  "seg_end s g = do { q \<leftarrow> seg_seqno s g; n \<leftarrow> TCP_TCPLEN s g; Some (q + n) }"

text \<open>The loops over the head of \<open>unacked\<close> and of \<open>unsent\<close>.\<close>

fun free_unacked :: "cff_fn \<Rightarrow> u32 \<Rightarrow> tcp_seg list \<Rightarrow> 'f tcp_pcb \<Rightarrow> net \<Rightarrow> ('f tcp_pcb \<times> net) option" where
  "free_unacked cff ackno [] pcb s = Some (pcb, s)"
| "free_unacked cff ackno (g # gs) pcb s = Option.bind (seg_end s g) (\<lambda>e.
     if TCP_SEQ_LEQ e ackno then
       Option.bind (drop_acked cff g (pcb\<lparr>t_unacked := gs\<rparr>) s) (\<lambda>(pcb, s). free_unacked cff ackno gs pcb s)
     else Some (pcb, s))"

fun free_unsent :: "cff_fn \<Rightarrow> u32 \<Rightarrow> tcp_seg list \<Rightarrow> 'f tcp_pcb \<Rightarrow> net \<Rightarrow> ('f tcp_pcb \<times> net) option" where
  "free_unsent cff ackno [] pcb s = Some (pcb, s)"
| "free_unsent cff ackno (g # gs) pcb s = Option.bind (seg_end s g) (\<lambda>e.
     if TCP_SEQ_BETWEEN ackno e (t_snd_nxt pcb) then
       Option.bind (drop_acked cff g (pcb\<lparr>t_unsent := gs,
                      t_unsent_oversize := (if gs = [] then 0 else t_unsent_oversize pcb)\<rparr>) s)
         (\<lambda>(pcb, s). free_unsent cff ackno gs pcb s)
     else Some (pcb, s))"

text \<open>The estimate of the round-trip time.\<close>

definition rcv_rtt :: "u32 \<Rightarrow> u32 \<Rightarrow> 'f tcp_pcb \<Rightarrow> 'f tcp_pcb" where
  "rcv_rtt ticks ackno pcb =
     (if t_rttest pcb \<noteq> 0 \<and> TCP_SEQ_LT (t_rtseq pcb) ackno then
        let m = (ucast (ticks - t_rttest pcb) :: s16);
            m = of_int (sint m - sar 3 (t_sa pcb));
            pcb = pcb\<lparr>t_sa := t_sa pcb + m\<rparr>;
            m = (if sint m < 0 then - m else m);
            m = of_int (sint m - sar 2 (t_sv pcb));
            pcb = pcb\<lparr>t_sv := t_sv pcb + m\<rparr>
        in pcb\<lparr>t_rto := of_int (sar 3 (t_sa pcb) + sint (t_sv pcb)), t_rttest := 0\<rparr>
      else pcb)"

definition rcv_ack ::
  "cff_fn \<Rightarrow> u32 \<Rightarrow> tcp_in_vars \<Rightarrow> 'f tcp_pcb \<Rightarrow> net \<Rightarrow> ('f tcp_pcb \<times> net) option" where
  "rcv_ack cff ticks v pcb s = do {
     wnd \<leftarrow> ld16 s (h_wnd (in_hdr v));
     let ackno = in_ackno v;
     let right_wnd_edge = ucast (t_snd_wnd pcb) + t_snd_wl2 pcb;
     let pcb = rcv_window (in_seqno v) ackno wnd pcb;
     (pcb, s) \<leftarrow> (if TCP_SEQ_LEQ ackno (t_lastack pcb) then do {
            pcb \<leftarrow> rcv_dupack right_wnd_edge ackno (in_tcplen v) pcb s;
            Some (pcb, s) }
          else if TCP_SEQ_BETWEEN ackno (t_lastack pcb + 1) (t_snd_nxt pcb) then do {
            pcb \<leftarrow> rcv_newack ackno pcb;
            (pcb, s) \<leftarrow> free_unacked cff ackno (t_unacked pcb) pcb s;
            Some (pcb\<lparr>t_rtime := (if t_unacked pcb = [] then - 1 else 0), t_polltmr := 0\<rparr>, s) }
          else Some (pcb\<lparr>t_acked := 0\<rparr>, s));
     (pcb, s) \<leftarrow> free_unsent cff ackno (t_unsent pcb) pcb s;
     Some (rcv_rtt ticks ackno pcb, s) }"

section \<open>Data\<close>

text \<open>The pbufs in front of the new data become empty: \<open>off\<close> bytes are to be skipped.\<close>

partial_function (option) trim_loop :: "addr \<Rightarrow> int \<Rightarrow> u16 \<Rightarrow> net \<Rightarrow> (addr \<times> int \<times> net) option" where
  "trim_loop p off new_tot_len s = Option.bind (pbufs s p) (\<lambda>b.
     if int (unat (pb_len b)) < off then
       Option.bind (pb_next b) (\<lambda>n.
         trim_loop n (off - int (unat (pb_len b))) new_tot_len
           (put_pbuf p (b\<lparr>pb_tot_len := new_tot_len, pb_len := 0\<rparr>) s))
     else Some (p, off, s))"

definition rcv_trim :: "tcp_in_vars \<Rightarrow> 'f tcp_pcb \<Rightarrow> net \<Rightarrow> (tcp_in_vars \<times> net) option" where
  "rcv_trim v pcb s = (let off = sint (t_rcv_nxt pcb - in_seqno v) in do {
     a \<leftarrow> in_p v;
     c_assert (off < 0x7fff);
     b \<leftarrow> pbufs s a;
     (p, off, s) \<leftarrow> (if int (unat (pb_len b)) < off then do {
            c_assert (int (unat (pb_tot_len b)) \<ge> off);
            trim_loop a off (of_int (int (unat (pb_tot_len b)) - off)) s }
          else Some (a, off, s));
     (r, s) \<leftarrow> pbuf_header (Some p) (- of_int off) s;
     c_assert (r = 0);
     s \<leftarrow> st32 (h_seqno (in_hdr v)) (t_rcv_nxt pcb) s;
     Some (v\<lparr>in_len := in_len v - ucast (t_rcv_nxt pcb - in_seqno v), in_seqno := t_rcv_nxt pcb\<rparr>, s) })"

text \<open>\<open>TCP_TCPLEN(&inseg)\<close>\<close>

definition inseg_tcplen :: "tcp_in_vars \<Rightarrow> net \<Rightarrow> u16 option" where
  "inseg_tcplen v s = do {
     fl \<leftarrow> TCPH_FLAGS s (in_hdr v);
     Some (in_len v + (if fl AND (TCP_FIN OR TCP_SYN) \<noteq> 0 then 1 else 0)) }"

text \<open>A segment that is longer than the window loses its end.\<close>

definition rcv_cut :: "cff_fn \<Rightarrow> tcp_in_vars \<Rightarrow> 'f tcp_pcb \<Rightarrow> net \<Rightarrow> (tcp_in_vars \<times> net) option" where
  "rcv_cut cff v pcb s = do {
     n \<leftarrow> inseg_tcplen v s;
     let v = v\<lparr>in_tcplen := n\<rparr>;
     if n > t_rcv_wnd pcb then do {
       fl \<leftarrow> TCPH_FLAGS s (in_hdr v);
       s \<leftarrow> (if fl AND TCP_FIN \<noteq> 0 then TCPH_FLAGS_SET (in_hdr v) (fl AND NOT TCP_FIN) s else Some s);
       fl \<leftarrow> TCPH_FLAGS s (in_hdr v);
       let len = (if fl AND TCP_SYN \<noteq> 0 then t_rcv_wnd pcb - 1 else t_rcv_wnd pcb);
       let v = v\<lparr>in_len := len\<rparr>;
       s \<leftarrow> pbuf_realloc cff (in_p v) len s;
       n \<leftarrow> inseg_tcplen v s;
       let v = v\<lparr>in_tcplen := n\<rparr>;
       c_assert (in_seqno v + ucast n = t_rcv_nxt pcb + ucast (t_rcv_wnd pcb));
       Some (v, s) }
     else Some (v, s) }"

text \<open>\<open>tcp_ack\<close>: every second segment is acknowledged at once.\<close>

definition tcp_ack :: "'f tcp_pcb \<Rightarrow> 'f tcp_pcb" where
  "tcp_ack pcb = (if t_flags pcb AND TF_ACK_DELAY \<noteq> 0
     then pcb\<lparr>t_flags := (t_flags pcb AND NOT TF_ACK_DELAY) OR TF_ACK_NOW\<rparr>
     else pcb\<lparr>t_flags := t_flags pcb OR TF_ACK_DELAY\<rparr>)"

text \<open>\<open>tcp_ack_now\<close>\<close>

definition tcp_ack_now :: "'f tcp_pcb \<Rightarrow> 'f tcp_pcb" where
  "tcp_ack_now pcb = pcb\<lparr>t_flags := t_flags pcb OR TF_ACK_NOW\<rparr>"

text \<open>The next segment in sequence: its data and its FIN are for the application.\<close>

definition rcv_in_seq :: "cff_fn \<Rightarrow> tcp_in_vars \<Rightarrow> 'f tcp_pcb \<Rightarrow> net \<Rightarrow> (tcp_in_vars \<times> 'f tcp_pcb \<times> net) option" where
  "rcv_in_seq cff v pcb s = do {
     (v, s) \<leftarrow> rcv_cut cff v pcb s;
     let pcb = pcb\<lparr>t_rcv_nxt := in_seqno v + ucast (in_tcplen v)\<rparr>;
     c_assert (t_rcv_wnd pcb \<ge> in_tcplen v);
     let pcb = pcb\<lparr>t_rcv_wnd := t_rcv_wnd pcb - in_tcplen v\<rparr>;
     (_, pcb) \<leftarrow> tcp_update_rcv_ann_wnd pcb;
     a \<leftarrow> in_p v;
     b \<leftarrow> pbufs s a;
     let v = (if pb_tot_len b > 0 then v\<lparr>in_recv_data := Some a, in_p := None\<rparr> else v);
     fl \<leftarrow> TCPH_FLAGS s (in_hdr v);
     let v = (if fl AND TCP_FIN \<noteq> 0 then v\<lparr>in_recv_flags := in_recv_flags v OR TF_GOT_FIN\<rparr> else v);
     Some (v, tcp_ack pcb, s) }"

definition rcv_data ::
  "'w tcp_env \<Rightarrow> tcp_in_vars \<Rightarrow> 'f tcp_pcb \<Rightarrow> 'w low \<Rightarrow> (tcp_in_vars \<times> 'f tcp_pcb \<times> 'w low) option" where
  "rcv_data L v pcb s = (let nxt = t_rcv_nxt pcb in do {
     (v, pcb, s) \<leftarrow>
       (if TCP_SEQ_BETWEEN nxt (in_seqno v + 1) (in_seqno v + ucast (in_tcplen v) - 1) then do {
          (v, n) \<leftarrow> rcv_trim v pcb (l_net s);
          Some (v, pcb, s\<lparr>l_net := n\<rparr>) }
        else Some (v, if TCP_SEQ_LT (in_seqno v) nxt then tcp_ack_now pcb else pcb, s));
     if TCP_SEQ_BETWEEN (in_seqno v) nxt (nxt + ucast (t_rcv_wnd pcb) - 1) \<and> nxt = in_seqno v then do {
       (v, pcb, n) \<leftarrow> rcv_in_seq (te_cff L) v pcb (l_net s);
       Some (v, pcb, s\<lparr>l_net := n\<rparr>) }
     else do {
       (_, pcb, s) \<leftarrow> tcp_send_empty_ack L pcb s;
       Some (v, pcb, s) } })"

definition state_before_close_wait :: "tcp_state \<Rightarrow> bool" where
  "state_before_close_wait st \<longleftrightarrow> st \<notin> {CLOSE_WAIT, CLOSING, LAST_ACK, TIME_WAIT}"

definition tcp_receive ::
  "'w tcp_env \<Rightarrow> u32 \<Rightarrow> tcp_in_vars \<Rightarrow> 'f tcp_pcb \<Rightarrow> 'w low \<Rightarrow> (tcp_in_vars \<times> 'f tcp_pcb \<times> 'w low) option" where
  "tcp_receive L ticks v pcb s = do {
     c_assert (acked_state pcb);
     (pcb, s) \<leftarrow> (if in_flags v AND TCP_ACK \<noteq> 0 then do {
            (pcb, n) \<leftarrow> rcv_ack (te_cff L) ticks v pcb (l_net s);
            Some (pcb, s\<lparr>l_net := n\<rparr>) }
          else Some (pcb, s));
     if in_tcplen v > 0 \<and> state_before_close_wait (t_state pcb) then rcv_data L v pcb s
     else Some (v, if \<not> TCP_SEQ_BETWEEN (in_seqno v) (t_rcv_nxt pcb) (t_rcv_nxt pcb + ucast (t_rcv_wnd pcb) - 1)
                   then tcp_ack_now pcb else pcb, s) }"


section \<open>The state machine\<close>

text \<open>The control block and the shared variables of \<open>tcp_receive\<close>.\<close>

definition k_receive :: "('f, 'w, 'a) stk_env \<Rightarrow> nat \<Rightarrow> ('f, 'w, 'a) stk \<Rightarrow> ('f, 'w, 'a) stk option" where
  "k_receive E x s = do {
     (v, s) \<leftarrow> with_pcb x (tcp_receive (ce_low E) (k_ticks s) (k_in s)) s;
     Some (s\<lparr>k_in := v\<rparr>) }"

text \<open>The reset that answers the segment being processed.\<close>

definition rst_reply :: "('f, 'w, 'a) stk_env \<Rightarrow> ('f, 'w, 'a) stk \<Rightarrow> ('f, 'w, 'a) stk option" where
  "rst_reply E s = (let v = k_in s in do {
     dest \<leftarrow> ld16 (k_net s) (h_dest (in_hdr v));
     src \<leftarrow> ld16 (k_net s) (h_src (in_hdr v));
     on_low (tcp_rst (ce_low E) (in_ackno v) (in_seqno v + ucast (in_tcplen v)) (in_dest v) (in_src v) dest src) s })"

definition got_fin :: "('f, 'w, 'a) stk \<Rightarrow> bool" where
  "got_fin s \<longleftrightarrow> in_recv_flags (k_in s) AND TF_GOT_FIN \<noteq> 0"

definition in_flag :: "u8 \<Rightarrow> ('f, 'w, 'a) stk \<Rightarrow> bool" where
  "in_flag f s \<longleftrightarrow> in_flags (k_in s) AND f \<noteq> 0"

text \<open>An acceptable reset marks the connection as reset; any other is ignored.\<close>

definition rst_acceptable :: "tcp_in_vars \<Rightarrow> 'f tcp_pcb \<Rightarrow> bool" where
  "rst_acceptable v p = (if t_state p = SYN_SENT then in_ackno v = t_snd_nxt p
     else TCP_SEQ_BETWEEN (in_seqno v) (t_rcv_nxt p) (t_rcv_nxt p + ucast (t_rcv_wnd p)))"

definition process_rst :: "nat \<Rightarrow> 'f tcp_cb tcp_pcb \<Rightarrow> ('f, 'w, 'a) stk \<Rightarrow> (err_t \<times> ('f, 'w, 'a) stk) option" where
  "process_rst x p s =
     (if rst_acceptable (k_in s) p then do {
        c_assert (t_state p \<noteq> CLOSED);
        let s = s\<lparr>k_in := (k_in s)\<lparr>in_recv_flags := in_recv_flags (k_in s) OR TF_RESET\<rparr>\<rparr>;
        s \<leftarrow> upd_pcb x (\<lambda>p. p\<lparr>t_flags := t_flags p AND NOT TF_ACK_DELAY\<rparr>) s;
        Some (ERR_RST, s) }
      else Some (ERR_OK, s))"

text \<open>The SYN of this side is acknowledged: the control block of a new connection.\<close>

definition syn_sent_pcb :: "'w tcp_env \<Rightarrow> tcp_in_vars \<Rightarrow> u16 \<Rightarrow> 'w low \<Rightarrow> 'f tcp_pcb \<Rightarrow> 'f tcp_pcb" where
  "syn_sent_pcb L v wnd l p = (
     let mss = tcp_eff_send_mss L (t_mss p) (t_remote_ip p) (l_ip l) in
     p\<lparr>t_snd_buf := t_snd_buf p + 1, t_rcv_nxt := in_seqno v + 1, t_rcv_ann_right_edge := in_seqno v + 1,
       t_lastack := in_ackno v, t_snd_wnd := wnd, t_snd_wnd_max := wnd, t_snd_wl1 := in_seqno v - 1,
       t_state := ESTABLISHED, t_mss := mss, t_ssthresh := mss * 10,
       t_cwnd := (if t_cwnd p = 1 then mss * 2 else mss)\<rparr>)"

text \<open>The segment with the SYN leaves the queue.\<close>

definition syn_acked :: "cff_fn \<Rightarrow> 'f tcp_pcb \<Rightarrow> net \<Rightarrow> ('f tcp_pcb \<times> net) option" where
  "syn_acked cff p s = do {
     c_assert (t_snd_queuelen p > 0);
     case t_unacked p of [] \<Rightarrow> None
     | g # gs \<Rightarrow> do {
         s \<leftarrow> tcp_seg_free cff g s;
         let p = p\<lparr>t_snd_queuelen := t_snd_queuelen p - 1, t_unacked := gs\<rparr>;
         Some (if gs = [] then p\<lparr>t_rtime := - 1\<rparr> else p\<lparr>t_rtime := 0, t_nrtx := 0\<rparr>, s) } }"

definition EVENT_CONNECTED ::
  "('f, 'w, 'a) stk_env \<Rightarrow> nat \<Rightarrow> err_t \<Rightarrow> ('f, 'w, 'a) stk \<Rightarrow> (err_t \<times> ('f, 'w, 'a) stk) option" where
  "EVENT_CONNECTED E x e s = do {
     pcb \<leftarrow> k_pcbs s x;
     case t_connected pcb of None \<Rightarrow> Some (ERR_OK, s)
     | Some (CB_user f) \<Rightarrow> ce_connected E f (t_callback_arg pcb) x e s
     | Some _ \<Rightarrow> None }"

definition EVENT_ACCEPT ::
  "('f, 'w, 'a) stk_env \<Rightarrow> nat \<Rightarrow> err_t \<Rightarrow> ('f, 'w, 'a) stk \<Rightarrow> (err_t \<times> ('f, 'w, 'a) stk) option" where
  "EVENT_ACCEPT E x e s = do {
     pcb \<leftarrow> k_pcbs s x;
     case t_accept pcb of None \<Rightarrow> Some (ERR_ARG, s)
     | Some (CB_user f) \<Rightarrow> ce_accept E f (t_callback_arg pcb) x e s
     | Some CB_accept_null \<Rightarrow> Some (ERR_ABRT, s)
     | Some CB_recv_null \<Rightarrow> None }"

definition process_syn_sent ::
  "('f, 'w, 'a) stk_env \<Rightarrow> nat \<Rightarrow> ('f, 'w, 'a) stk \<Rightarrow> (err_t \<times> ('f, 'w, 'a) stk) option" where
  "process_syn_sent E x s = (let v = k_in s in do {
     p \<leftarrow> k_pcbs s x;
     mine \<leftarrow> (if in_flag TCP_ACK s \<and> in_flag TCP_SYN s then (case t_unacked p of [] \<Rightarrow> None
            | g # _ \<Rightarrow> map_option (\<lambda>q. in_ackno v = q + 1) (seg_seqno (k_net s) g))
          else Some False);
     if mine then do {
       wnd \<leftarrow> ld16 (k_net s) (h_wnd (in_hdr v));
       s \<leftarrow> with_pcb1 x (\<lambda>p l. do {
              (p, n) \<leftarrow> syn_acked (ce_cff E) (syn_sent_pcb (ce_low E) v wnd l p) (l_net l);
              Some (p, l\<lparr>l_net := n\<rparr>) }) s;
       (err, s) \<leftarrow> EVENT_CONNECTED E x ERR_OK s;
       if err = ERR_ABRT then Some (ERR_ABRT, s)
       else do { s \<leftarrow> upd_pcb x tcp_ack_now s; Some (ERR_OK, s) } }
     else if in_flag TCP_ACK s then do { s \<leftarrow> rst_reply E s; Some (ERR_OK, s) }
     else Some (ERR_OK, s) })"

definition process_accepted ::
  "('f, 'w, 'a) stk_env \<Rightarrow> nat \<Rightarrow> ('f, 'w, 'a) stk \<Rightarrow> (err_t \<times> ('f, 'w, 'a) stk) option" where
  "process_accepted E x s = do {
     s \<leftarrow> set_state x ESTABLISHED s;
     p \<leftarrow> k_pcbs s x;
     c_assert (t_accept p \<noteq> None);
     (err, s) \<leftarrow> EVENT_ACCEPT E x ERR_OK s;
     if err \<noteq> ERR_OK then do {
       s \<leftarrow> (if err \<noteq> ERR_ABRT then tcp_abort E x s else Some s);
       Some (ERR_ABRT, s) }
     else do {
       p \<leftarrow> k_pcbs s x;
       let old_cwnd = t_cwnd p;
       s \<leftarrow> k_receive E x s;
       s \<leftarrow> upd_pcb x (\<lambda>p. p\<lparr>t_acked := (if t_acked p \<noteq> 0 then t_acked p - 1 else 0),
              t_cwnd := (if old_cwnd = 1 then t_mss p * 2 else t_mss p)\<rparr>) s;
       s \<leftarrow> (if got_fin s then upd_pcb x (\<lambda>p. (tcp_ack_now p)\<lparr>t_state := CLOSE_WAIT\<rparr>) s else Some s);
       Some (ERR_OK, s) } }"

definition process_syn_rcvd ::
  "('f, 'w, 'a) stk_env \<Rightarrow> nat \<Rightarrow> ('f, 'w, 'a) stk \<Rightarrow> (err_t \<times> ('f, 'w, 'a) stk) option" where
  "process_syn_rcvd E x s = (let v = k_in s in do {
     p \<leftarrow> k_pcbs s x;
     if in_flag TCP_ACK s then
       if TCP_SEQ_BETWEEN (in_ackno v) (t_lastack p + 1) (t_snd_nxt p) then process_accepted E x s
       else do { s \<leftarrow> rst_reply E s; Some (ERR_OK, s) }
     else if in_flag TCP_SYN s \<and> in_seqno v = t_rcv_nxt p - 1 then do {
       p \<leftarrow> tcp_rexmit p (k_net s);
       Some (ERR_OK, put_pcb x p s) }
     else Some (ERR_OK, s) })"

text \<open>The connection is closed on both sides: it waits in the other list.\<close>

definition to_time_wait :: "('f, 'w, 'a) stk_env \<Rightarrow> nat \<Rightarrow> ('f, 'w, 'a) stk \<Rightarrow> ('f, 'w, 'a) stk option" where
  "to_time_wait E x s = do {
     s \<leftarrow> tcp_pcb_purge E x s;
     s \<leftarrow> TCP_RMV_ACTIVE x s;
     s \<leftarrow> set_state x TIME_WAIT s;
     TCP_REG L_TW x s }"

text \<open>The acknowledgement is for everything that was sent, the FIN included.\<close>

definition fin_acked :: "nat \<Rightarrow> ('f, 'w, 'a) stk \<Rightarrow> bool option" where
  "fin_acked x s = do { p \<leftarrow> k_pcbs s x; Some (in_flag TCP_ACK s \<and> in_ackno (k_in s) = t_snd_nxt p) }"

definition process_closing ::
  "('f, 'w, 'a) stk_env \<Rightarrow> nat \<Rightarrow> tcp_state \<Rightarrow> ('f, 'w, 'a) stk \<Rightarrow> ('f, 'w, 'a) stk option" where
  "process_closing E x st s = do {
     s \<leftarrow> k_receive E x s;
     acked \<leftarrow> fin_acked x s;
     case st of
       FIN_WAIT_1 \<Rightarrow>
         if got_fin s then do {
           s \<leftarrow> upd_pcb x tcp_ack_now s;
           if acked then to_time_wait E x s else set_state x CLOSING s }
         else if acked then set_state x FIN_WAIT_2 s else Some s
     | FIN_WAIT_2 \<Rightarrow>
         if got_fin s then do { s \<leftarrow> upd_pcb x tcp_ack_now s; to_time_wait E x s } else Some s
     | CLOSING \<Rightarrow> if acked then to_time_wait E x s else Some s
     | _ \<Rightarrow> if acked then Some (s\<lparr>k_in := (k_in s)\<lparr>in_recv_flags := in_recv_flags (k_in s) OR TF_CLOSED\<rparr>\<rparr>)
           else Some s }"

definition process_open ::
  "('f, 'w, 'a) stk_env \<Rightarrow> nat \<Rightarrow> ('f, 'w, 'a) stk \<Rightarrow> ('f, 'w, 'a) stk option" where
  "process_open E x s = do {
     s \<leftarrow> k_receive E x s;
     if got_fin s then upd_pcb x (\<lambda>p. (tcp_ack_now p)\<lparr>t_state := CLOSE_WAIT\<rparr>) s else Some s }"

definition tcp_process ::
  "('f, 'w, 'a) stk_env \<Rightarrow> nat \<Rightarrow> ('f, 'w, 'a) stk \<Rightarrow> (err_t \<times> ('f, 'w, 'a) stk) option" where
  "tcp_process E x s = do {
     p \<leftarrow> k_pcbs s x;
     if in_flag TCP_RST s then process_rst x p s
     else if in_flag TCP_SYN s \<and> t_state p \<noteq> SYN_SENT \<and> t_state p \<noteq> SYN_RCVD then do {
       s \<leftarrow> upd_pcb x tcp_ack_now s; Some (ERR_OK, s) }
     else do {
       p \<leftarrow> tcp_parseopt (k_net s) (in_hdr (k_in s))
              (p\<lparr>t_tmr := (if t_flags p AND TF_RXCLOSED = 0 then k_ticks s else t_tmr p), t_keep_cnt_sent := 0\<rparr>);
       let s = put_pcb x p s;
       case t_state p of
         SYN_SENT \<Rightarrow> process_syn_sent E x s
       | SYN_RCVD \<Rightarrow> process_syn_rcvd E x s
       | CLOSE_WAIT \<Rightarrow> do { s \<leftarrow> process_open E x s; Some (ERR_OK, s) }
       | ESTABLISHED \<Rightarrow> do { s \<leftarrow> process_open E x s; Some (ERR_OK, s) }
       | CLOSED \<Rightarrow> Some (ERR_OK, s)
       | LISTEN \<Rightarrow> Some (ERR_OK, s)
       | TIME_WAIT \<Rightarrow> Some (ERR_OK, s)
       | st \<Rightarrow> do { s \<leftarrow> process_closing E x st s; Some (ERR_OK, s) } } }"

section \<open>Listening and waiting\<close>

text \<open>The control block for a SYN.\<close>

definition listen_pcb ::
  "'f tcp_pcb_listen \<Rightarrow> tcp_in_vars \<Rightarrow> u16 \<Rightarrow> u16 \<Rightarrow> 'f tcp_cb tcp_pcb \<Rightarrow> 'f tcp_cb tcp_pcb" where
  "listen_pcb lp v src wnd p = p\<lparr>t_local_ip := in_dest v, t_local_port := lp_local_port lp, t_remote_ip := in_src v,
     t_remote_port := src, t_state := SYN_RCVD, t_rcv_nxt := in_seqno v + 1, t_rcv_ann_right_edge := in_seqno v + 1,
     t_snd_wnd := wnd, t_snd_wnd_max := wnd, t_ssthresh := wnd, t_snd_wl1 := in_seqno v - 1,
     t_callback_arg := lp_callback_arg lp, t_accept := lp_accept lp, t_so_options := lp_so_options lp AND SOF_INHERITED\<rparr>"

definition listen_syn ::
  "('f, 'w, 'a) stk_env \<Rightarrow> nat \<Rightarrow> ('f, 'w, 'a) stk \<Rightarrow> (err_t \<times> ('f, 'w, 'a) stk) option" where
  "listen_syn E l s = (let v = k_in s in do {
     lp \<leftarrow> k_lpcbs s l;
     (x, s) \<leftarrow> tcp_alloc E (lp_prio lp) s;
     case x of None \<Rightarrow> Some (ERR_MEM, s)
     | Some x \<Rightarrow> do {
         lp \<leftarrow> k_lpcbs s l;
         src \<leftarrow> ld16 (k_net s) (h_src (in_hdr v));
         wnd \<leftarrow> ld16 (k_net s) (h_wnd (in_hdr v));
         s \<leftarrow> upd_pcb x (listen_pcb lp v src wnd) s;
         s \<leftarrow> TCP_REG_ACTIVE x s;
         p \<leftarrow> k_pcbs s x;
         p \<leftarrow> tcp_parseopt (k_net s) (in_hdr v) p;
         let p = p\<lparr>t_mss := tcp_eff_send_mss (ce_low E) (t_mss p) (t_remote_ip p) (l_ip (k_low s))\<rparr>;
         (rc, s) \<leftarrow> with_pcb x (\<lambda>p l. do {
            (rc, p, n) \<leftarrow> tcp_enqueue_flags (ce_cff E) p (TCP_SYN OR TCP_ACK) (l_net l);
            Some (rc, p, l\<lparr>l_net := n\<rparr>) }) (put_pcb x p s);
         if rc \<noteq> ERR_OK then do { s \<leftarrow> tcp_abandon E x False s; Some (rc, s) }
         else k_output E x s } })"

definition tcp_listen_input ::
  "('f, 'w, 'a) stk_env \<Rightarrow> nat \<Rightarrow> ('f, 'w, 'a) stk \<Rightarrow> (err_t \<times> ('f, 'w, 'a) stk) option" where
  "tcp_listen_input E l s =
     (if in_flag TCP_RST s then Some (ERR_OK, s)
      else if in_flag TCP_ACK s then do { s \<leftarrow> rst_reply E s; Some (ERR_OK, s) }
      else if in_flag TCP_SYN s then listen_syn E l s
      else Some (ERR_OK, s))"

definition tcp_timewait_input ::
  "('f, 'w, 'a) stk_env \<Rightarrow> nat \<Rightarrow> ('f, 'w, 'a) stk \<Rightarrow> (err_t \<times> ('f, 'w, 'a) stk) option" where
  "tcp_timewait_input E x s = (let v = k_in s in
     if in_flag TCP_RST s then Some (ERR_OK, s)
     else do {
       p \<leftarrow> k_pcbs s x;
       if in_flag TCP_SYN s \<and>
          TCP_SEQ_BETWEEN (in_seqno v) (t_rcv_nxt p) (t_rcv_nxt p + ucast (t_rcv_wnd p)) then do {
         s \<leftarrow> rst_reply E s; Some (ERR_OK, s) }
       else do {
         s \<leftarrow> (if \<not> in_flag TCP_SYN s \<and> in_flag TCP_FIN s then upd_pcb x (\<lambda>p. p\<lparr>t_tmr := k_ticks s\<rparr>) s else Some s);
         if in_tcplen v > 0 then do {
           s \<leftarrow> upd_pcb x tcp_ack_now s;
           k_output E x s }
         else Some (ERR_OK, s) } })"

section \<open>Demultiplexing\<close>

text \<open>Whether a control block is the connection of the segment.\<close>

definition pcb_matches :: "('f, 'w, 'a) stk \<Rightarrow> u16 \<Rightarrow> u16 \<Rightarrow> 'f tcp_cb tcp_pcb \<Rightarrow> bool" where
  "pcb_matches s src dest p \<longleftrightarrow> t_remote_port p = src \<and> t_local_port p = dest \<and>
     t_remote_ip p = in_src (k_in s) \<and> t_local_ip p = in_dest (k_in s)"

text \<open>
  The loop over the active control blocks: the connection and the control block before it. The assertions
  are those of the loop.
\<close>

partial_function (option) find_active ::
  "('f, 'w, 'a) stk \<Rightarrow> u16 \<Rightarrow> u16 \<Rightarrow> nat option \<Rightarrow> nat option \<Rightarrow> (nat option \<times> nat) option option" where
  "find_active s src dest prev t = (case t of None \<Rightarrow> Some None
     | Some x \<Rightarrow> Option.bind (k_pcbs s x) (\<lambda>p.
         if t_state p = CLOSED \<or> t_state p = TIME_WAIT \<or> t_state p = LISTEN then None
         else if pcb_matches s src dest p then Some (Some (prev, x))
         else Option.bind (k_next s x) (\<lambda>n. find_active s src dest (Some x) n)))"

text \<open>The element found comes to the front of its list.\<close>

definition to_front :: "pcb_list \<Rightarrow> nat option \<Rightarrow> nat \<Rightarrow> ('f, 'w, 'a) stk \<Rightarrow> ('f, 'w, 'a) stk option" where
  "to_front l prev x s = (case prev of None \<Rightarrow> Some s
     | Some q \<Rightarrow> do {
         nx \<leftarrow> k_next s x;
         _ \<leftarrow> k_next s q;
         Some (s\<lparr>k_next := (k_next s)(q \<mapsto> nx, x \<mapsto> k_head s l), k_head := (k_head s)(l := Some x)\<rparr>) })"

definition cache_active :: "nat option \<Rightarrow> nat \<Rightarrow> ('f, 'w, 'a) stk \<Rightarrow> ('f, 'w, 'a) stk option" where
  "cache_active prev x s = do {
     c_assert (k_next s x \<noteq> Some (Some x));
     s \<leftarrow> to_front L_ACTIVE prev x s;
     c_assert (k_next s x \<noteq> Some (Some x));
     Some s }"

definition tw_matches :: "('f, 'w, 'a) stk \<Rightarrow> u16 \<Rightarrow> u16 \<Rightarrow> nat \<Rightarrow> bool option" where
  "tw_matches s src dest x = do {
     p \<leftarrow> k_pcbs s x;
     c_assert (t_state p = TIME_WAIT);
     Some (pcb_matches s src dest p) }"

partial_function (option) find_listen ::
  "('f, 'w, 'a) stk \<Rightarrow> u16 \<Rightarrow> nat option \<Rightarrow> nat option \<Rightarrow> (nat option \<times> nat) option option" where
  "find_listen s dest prev t = (case t of None \<Rightarrow> Some None
     | Some l \<Rightarrow> Option.bind (k_lpcbs s l) (\<lambda>lp.
         if lp_local_port lp = dest \<and> (lp_local_ip lp = in_dest (k_in s) \<or> lp_local_ip lp = 0)
         then Some (Some (prev, l))
         else Option.bind (k_next s l) (\<lambda>n. find_listen s dest (Some l) n)))"

section \<open>Delivery\<close>

text \<open>The end of the connection: the error callback, then the control block goes.\<close>

definition input_dead :: "('f, 'w, 'a) stk_env \<Rightarrow> nat \<Rightarrow> err_t option \<Rightarrow> ('f, 'w, 'a) stk \<Rightarrow> ('f, 'w, 'a) stk option" where
  "input_dead E x e s = do {
     p \<leftarrow> k_pcbs s x;
     s \<leftarrow> (case e of None \<Rightarrow> Some s | Some e \<Rightarrow> EVENT_ERR E (t_errf p) (t_callback_arg p) e s);
     s \<leftarrow> tcp_pcb_remove E L_ACTIVE x s;
     free_pcb x s }"

text \<open>The data goes to the application. The result says whether the control block is gone.\<close>

definition deliver_data ::
  "('f, 'w, 'a) stk_env \<Rightarrow> nat \<Rightarrow> ('f, 'w, 'a) stk \<Rightarrow> (bool \<times> ('f, 'w, 'a) stk) option" where
  "deliver_data E x s = (case in_recv_data (k_in s) of None \<Rightarrow> Some (False, s)
     | Some a \<Rightarrow> do {
         p \<leftarrow> k_pcbs s x;
         c_assert (t_refused_data p = None);
         if t_flags p AND TF_RXCLOSED \<noteq> 0 then do {
           s \<leftarrow> k_pbuf_free E (Some a) s;
           s \<leftarrow> tcp_abort E x s;
           Some (True, s) }
         else do {
           (err, s) \<leftarrow> EVENT_RECV E x (Some a) ERR_OK s;
           if err = ERR_ABRT then Some (True, s)
           else do {
             s \<leftarrow> (if err \<noteq> ERR_OK then upd_pcb x (\<lambda>p. p\<lparr>t_refused_data := Some a\<rparr>) s else Some s);
             Some (False, s) } } })"

definition deliver_fin ::
  "('f, 'w, 'a) stk_env \<Rightarrow> nat \<Rightarrow> ('f, 'w, 'a) stk \<Rightarrow> (bool \<times> ('f, 'w, 'a) stk) option" where
  "deliver_fin E x s =
     (if got_fin s then do {
        p \<leftarrow> k_pcbs s x;
        case t_refused_data p of
          Some a \<Rightarrow> do {
            s \<leftarrow> on_pk (\<lambda>n. do { b \<leftarrow> pbufs n a; Some (put_pbuf a (b\<lparr>pb_flags := pb_flags b OR PBUF_FLAG_TCP_FIN\<rparr>) n) }) s;
            Some (False, s) }
        | None \<Rightarrow> do {
            s \<leftarrow> wnd_for_fin x s;
            (err, s) \<leftarrow> EVENT_CLOSED E x s;
            Some (err = ERR_ABRT, s) } }
      else Some (False, s))"

definition input_deliver ::
  "('f, 'w, 'a) stk_env \<Rightarrow> nat \<Rightarrow> ('f, 'w, 'a) stk \<Rightarrow> ('f, 'w, 'a) stk option" where
  "input_deliver E x s = do {
     p \<leftarrow> k_pcbs s x;
     (err, s) \<leftarrow> (if t_acked p > 0 then EVENT_SENT E x (t_acked p) s else Some (ERR_OK, s));
     if t_acked p > 0 \<and> err = ERR_ABRT then Some s
     else do {
       (gone, s) \<leftarrow> deliver_data E x s;
       if gone then Some s
       else do {
         (gone, s) \<leftarrow> deliver_fin E x s;
         if gone then Some s
         else do {
           (_, s) \<leftarrow> k_output E x (s\<lparr>k_input := None\<rparr>);
           Some s } } } }"

text \<open>A segment of a connection.\<close>

definition input_pcb :: "('f, 'w, 'a) stk_env \<Rightarrow> nat \<Rightarrow> ('f, 'w, 'a) stk \<Rightarrow> ('f, 'w, 'a) stk option" where
  "input_pcb E x s = do {
     p \<leftarrow> k_pcbs s x;
     (drop, s) \<leftarrow> (if t_refused_data p \<noteq> None then do {
            (err, s) \<leftarrow> tcp_process_refused_data E x s;
            if err = ERR_ABRT then Some (True, s)
            else do {
              p \<leftarrow> k_pcbs s x;
              Some (t_refused_data p \<noteq> None \<and> in_tcplen (k_in s) > 0, s) } }
          else Some (False, s));
     s \<leftarrow> (if drop then Some s
          else do {
            (err, s) \<leftarrow> tcp_process E x (s\<lparr>k_input := Some x\<rparr>);
            if err = ERR_ABRT then Some s
            else if in_recv_flags (k_in s) AND TF_RESET \<noteq> 0 then input_dead E x (Some ERR_RST) s
            else if in_recv_flags (k_in s) AND TF_CLOSED \<noteq> 0 then do {
              p \<leftarrow> k_pcbs s x;
              input_dead E x (if t_flags p AND TF_RXCLOSED = 0 then Some ERR_CLSD else None) s }
            else input_deliver E x s });
     let s = s\<lparr>k_input := None, k_in := (k_in s)\<lparr>in_recv_data := None\<rparr>\<rparr>;
     case in_p (k_in s) of None \<Rightarrow> Some s
     | Some a \<Rightarrow> do {
         s \<leftarrow> k_pbuf_free E (Some a) s;
         Some (s\<lparr>k_in := (k_in s)\<lparr>in_p := None\<rparr>\<rparr>) } }"

text \<open>A segment of no connection.\<close>

definition input_none :: "('f, 'w, 'a) stk_env \<Rightarrow> addr \<Rightarrow> ('f, 'w, 'a) stk \<Rightarrow> ('f, 'w, 'a) stk option" where
  "input_none E p s = do {
     fl \<leftarrow> TCPH_FLAGS (k_net s) (in_hdr (k_in s));
     s \<leftarrow> (if fl AND TCP_RST = 0 then rst_reply E s else Some s);
     k_pbuf_free E (Some p) s }"

text \<open>The header is brought into the byte order of the host, in place.\<close>

definition hdr_to_host :: "ptr \<Rightarrow> net \<Rightarrow> net option" where
  "hdr_to_host h s = do {
     x \<leftarrow> ld16 s (h_src h); s \<leftarrow> st16 (h_src h) (lwip_ntohs x) s;
     x \<leftarrow> ld16 s (h_dest h); s \<leftarrow> st16 (h_dest h) (lwip_ntohs x) s;
     x \<leftarrow> ld32 s (h_seqno h); s \<leftarrow> st32 (h_seqno h) (lwip_ntohl x) s;
     x \<leftarrow> ld32 s (h_ackno h); s \<leftarrow> st32 (h_ackno h) (lwip_ntohl x) s;
     x \<leftarrow> ld16 s (h_wnd h); st16 (h_wnd h) (lwip_ntohs x) s }"

text \<open>
  The checks of the packet: its length, its destination, its checksum, the length of the TCP header.
  The result is the TCP header, or \<open>None\<close> for a packet that is dropped.
\<close>

definition ip_addr_ismulticast :: "u32 \<Rightarrow> bool" where
  "ip_addr_ismulticast a \<longleftrightarrow> a AND lwip_htonl 0xf0000000 = lwip_htonl 0xe0000000"

definition input_check ::
  "'w tcp_env \<Rightarrow> addr \<Rightarrow> ip_netif \<Rightarrow> u32 \<Rightarrow> u32 \<Rightarrow> net \<Rightarrow> (ptr option \<times> net) option" where
  "input_check L p inp src dest s = do {
     b \<leftarrow> pbufs s p;
     iphdr \<leftarrow> pb_payload b;
     vhl \<leftarrow> ld8 s iphdr;
     let hl = unat (vhl AND 0x0f) * 4;
     let tcphdr = ptr_add iphdr hl;
     (r, s) \<leftarrow> pbuf_header (Some p) (- of_nat hl) s;
     b \<leftarrow> pbufs s p;
     if r \<noteq> 0 \<or> pb_tot_len b < 20 then Some (None, s)
     else if ip4_addr_isbroadcast dest inp \<or> ip_addr_ismulticast dest then Some (None, s)
     else do {
       bs \<leftarrow> chksum_input (te_phys L) s (Some p);
       if inet_chksum_pseudo bs src dest IP_PROTO_TCP (pb_tot_len b) \<noteq> 0 then Some (None, s)
       else do {
         hdrlen \<leftarrow> TCPH_HDRLEN s tcphdr;
         (r, s) \<leftarrow> pbuf_header (Some p) (- (hdrlen * 4)) s;
         Some (if r \<noteq> 0 then None else Some tcphdr, s) } } }"

text \<open>What is known of the segment before it is given to a connection.\<close>

definition input_vars :: "addr \<Rightarrow> ptr \<Rightarrow> u32 \<Rightarrow> u32 \<Rightarrow> net \<Rightarrow> tcp_in_vars \<Rightarrow> tcp_in_vars option" where
  "input_vars p h src dest s v = do {
     seqno \<leftarrow> ld32 s (h_seqno h);
     ackno \<leftarrow> ld32 s (h_ackno h);
     fl \<leftarrow> TCPH_FLAGS s h;
     b \<leftarrow> pbufs s p;
     Some (v\<lparr>in_hdr := h, in_seqno := seqno, in_ackno := ackno, in_flags := fl,
       in_tcplen := pb_tot_len b + (if fl AND (TCP_FIN OR TCP_SYN) \<noteq> 0 then 1 else 0),
       in_src := src, in_dest := dest\<rparr>) }"

definition input_seg :: "addr \<Rightarrow> ('f, 'w, 'a) stk \<Rightarrow> ('f, 'w, 'a) stk option" where
  "input_seg p s = do {
     b \<leftarrow> pbufs (k_net s) p;
     let s = s\<lparr>k_in := (k_in s)\<lparr>in_len := pb_tot_len b, in_p := Some p, in_recv_data := None, in_recv_flags := 0\<rparr>\<rparr>;
     if in_flag TCP_PSH s
     then on_pk (\<lambda>n. Some (put_pbuf p (b\<lparr>pb_flags := pb_flags b OR PBUF_FLAG_PUSH\<rparr>) n)) s
     else Some s }"

definition input_demux ::
  "('f, 'w, 'a) stk_env \<Rightarrow> addr \<Rightarrow> ('f, 'w, 'a) stk \<Rightarrow> ('f, 'w, 'a) stk option" where
  "input_demux E p s = do {
     src \<leftarrow> ld16 (k_net s) (h_src (in_hdr (k_in s)));
     dest \<leftarrow> ld16 (k_net s) (h_dest (in_hdr (k_in s)));
     r \<leftarrow> find_active s src dest None (k_head s L_ACTIVE);
     case r of
       Some (prev, x) \<Rightarrow> do {
         s \<leftarrow> cache_active prev x s;
         s \<leftarrow> input_seg p s;
         input_pcb E x s }
     | None \<Rightarrow> do {
         r \<leftarrow> pcb_find (tw_matches s src dest) (k_next s) (k_head s L_TW);
         case r of
           Some x \<Rightarrow> do { (_, s) \<leftarrow> tcp_timewait_input E x s; k_pbuf_free E (Some p) s }
         | None \<Rightarrow> do {
             r \<leftarrow> find_listen s dest None (k_head s L_LISTEN);
             case r of
               Some (prev, l) \<Rightarrow> do {
                 s \<leftarrow> to_front L_LISTEN prev l s;
                 (_, s) \<leftarrow> tcp_listen_input E l s;
                 k_pbuf_free E (Some p) s }
             | None \<Rightarrow> input_none E p s } } }"

definition tcp_input ::
  "('f, 'w, 'a) stk_env \<Rightarrow> addr \<Rightarrow> ip_netif \<Rightarrow> u32 \<Rightarrow> u32 \<Rightarrow> ('f, 'w, 'a) stk \<Rightarrow> ('f, 'w, 'a) stk option" where
  "tcp_input E p inp src dest s = do {
     (h, n) \<leftarrow> input_check (ce_low E) p inp src dest (k_net s);
     s \<leftarrow> on_pk (\<lambda>_. Some n) s;
     case h of None \<Rightarrow> k_pbuf_free E (Some p) s
     | Some h \<Rightarrow> do {
         s \<leftarrow> on_pk (hdr_to_host h) s;
         v \<leftarrow> input_vars p h src dest (k_net s) (k_in s);
         input_demux E p (s\<lparr>k_in := v\<rparr>) } }"

end
