(* ===== verification/TcpFrame.thy ===== *)
theory TcpFrame
  imports TcpIn
begin

text \<open>
  What the functions of one connection leave alone: its state, its ports and the address of its peer.
  The functions of the stack that work on a control block through them keep the lists.
\<close>

section \<open>One control block\<close>

definition conn_key :: "'f tcp_pcb \<Rightarrow> tcp_state \<times> u16 \<times> u16 \<times> u32" where
  "conn_key p = (t_state p, t_local_port p, t_remote_port p, t_remote_ip p)"

lemma conn_key_upd [simp]:
  "conn_key (p\<lparr>t_local_ip := x0\<rparr>) = conn_key p"
  "conn_key (p\<lparr>t_so_options := x1\<rparr>) = conn_key p"
  "conn_key (p\<lparr>t_tos := x2\<rparr>) = conn_key p"
  "conn_key (p\<lparr>t_ttl := x3\<rparr>) = conn_key p"
  "conn_key (p\<lparr>t_callback_arg := x4\<rparr>) = conn_key p"
  "conn_key (p\<lparr>t_accept := x5\<rparr>) = conn_key p"
  "conn_key (p\<lparr>t_prio := x6\<rparr>) = conn_key p"
  "conn_key (p\<lparr>t_flags := x7\<rparr>) = conn_key p"
  "conn_key (p\<lparr>t_polltmr := x8\<rparr>) = conn_key p"
  "conn_key (p\<lparr>t_pollinterval := x9\<rparr>) = conn_key p"
  "conn_key (p\<lparr>t_last_timer := x10\<rparr>) = conn_key p"
  "conn_key (p\<lparr>t_tmr := x11\<rparr>) = conn_key p"
  "conn_key (p\<lparr>t_rcv_nxt := x12\<rparr>) = conn_key p"
  "conn_key (p\<lparr>t_rcv_wnd := x13\<rparr>) = conn_key p"
  "conn_key (p\<lparr>t_rcv_ann_wnd := x14\<rparr>) = conn_key p"
  "conn_key (p\<lparr>t_rcv_ann_right_edge := x15\<rparr>) = conn_key p"
  "conn_key (p\<lparr>t_rtime := x16\<rparr>) = conn_key p"
  "conn_key (p\<lparr>t_mss := x17\<rparr>) = conn_key p"
  "conn_key (p\<lparr>t_rttest := x18\<rparr>) = conn_key p"
  "conn_key (p\<lparr>t_rtseq := x19\<rparr>) = conn_key p"
  "conn_key (p\<lparr>t_sa := x20\<rparr>) = conn_key p"
  "conn_key (p\<lparr>t_sv := x21\<rparr>) = conn_key p"
  "conn_key (p\<lparr>t_rto := x22\<rparr>) = conn_key p"
  "conn_key (p\<lparr>t_nrtx := x23\<rparr>) = conn_key p"
  "conn_key (p\<lparr>t_dupacks := x24\<rparr>) = conn_key p"
  "conn_key (p\<lparr>t_lastack := x25\<rparr>) = conn_key p"
  "conn_key (p\<lparr>t_cwnd := x26\<rparr>) = conn_key p"
  "conn_key (p\<lparr>t_ssthresh := x27\<rparr>) = conn_key p"
  "conn_key (p\<lparr>t_snd_nxt := x28\<rparr>) = conn_key p"
  "conn_key (p\<lparr>t_snd_wl1 := x29\<rparr>) = conn_key p"
  "conn_key (p\<lparr>t_snd_wl2 := x30\<rparr>) = conn_key p"
  "conn_key (p\<lparr>t_snd_lbb := x31\<rparr>) = conn_key p"
  "conn_key (p\<lparr>t_snd_wnd := x32\<rparr>) = conn_key p"
  "conn_key (p\<lparr>t_snd_wnd_max := x33\<rparr>) = conn_key p"
  "conn_key (p\<lparr>t_acked := x34\<rparr>) = conn_key p"
  "conn_key (p\<lparr>t_snd_buf := x35\<rparr>) = conn_key p"
  "conn_key (p\<lparr>t_snd_queuelen := x36\<rparr>) = conn_key p"
  "conn_key (p\<lparr>t_unsent_oversize := x37\<rparr>) = conn_key p"
  "conn_key (p\<lparr>t_unsent := x38\<rparr>) = conn_key p"
  "conn_key (p\<lparr>t_unacked := x39\<rparr>) = conn_key p"
  "conn_key (p\<lparr>t_refused_data := x40\<rparr>) = conn_key p"
  "conn_key (p\<lparr>t_sent := x41\<rparr>) = conn_key p"
  "conn_key (p\<lparr>t_recv := x42\<rparr>) = conn_key p"
  "conn_key (p\<lparr>t_connected := x43\<rparr>) = conn_key p"
  "conn_key (p\<lparr>t_poll := x44\<rparr>) = conn_key p"
  "conn_key (p\<lparr>t_errf := x45\<rparr>) = conn_key p"
  "conn_key (p\<lparr>t_keep_idle := x46\<rparr>) = conn_key p"
  "conn_key (p\<lparr>t_persist_cnt := x47\<rparr>) = conn_key p"
  "conn_key (p\<lparr>t_persist_backoff := x48\<rparr>) = conn_key p"
  "conn_key (p\<lparr>t_keep_cnt_sent := x49\<rparr>) = conn_key p"
  by (simp_all add: conn_key_def)

lemma conn_key_eq: "conn_key q = conn_key p \<longleftrightarrow> t_state q = t_state p \<and> t_local_port q = t_local_port p \<and>
     t_remote_port q = t_remote_port p \<and> t_remote_ip q = t_remote_ip p"
  by (simp add: conn_key_def)

text \<open>What a function returns, when it returns: the proof follows the branches of the function.\<close>

lemma ret_all:
  "(\<And>x. a = Some x \<Longrightarrow> pred_option P (f x)) \<Longrightarrow> pred_option P (Option.bind a f)"
  "(b \<Longrightarrow> pred_option P m) \<Longrightarrow> (\<not> b \<Longrightarrow> pred_option P m') \<Longrightarrow> pred_option P (if b then m else m')"
  "(c = None \<Longrightarrow> pred_option P m) \<Longrightarrow> (\<And>y. c = Some y \<Longrightarrow> pred_option P (g y)) \<Longrightarrow>
     pred_option P (case c of None \<Rightarrow> m | Some y \<Rightarrow> g y)"
  "(\<And>y z. d = (y, z) \<Longrightarrow> pred_option P (h y z)) \<Longrightarrow> pred_option P (case d of (y, z) \<Rightarrow> h y z)"
  "(xs = [] \<Longrightarrow> pred_option P m) \<Longrightarrow> (\<And>y ys. xs = y # ys \<Longrightarrow> pred_option P (k y ys)) \<Longrightarrow>
     pred_option P (case xs of [] \<Rightarrow> m | y # ys \<Rightarrow> k y ys)"
  "P v \<Longrightarrow> pred_option P (Some v)"
  "pred_option P None"
  subgoal by (cases a) simp_all
  subgoal by simp
  subgoal by (cases c) simp_all
  subgoal by (cases d) simp_all
  subgoal by (cases xs) simp_all
  subgoal by simp
  subgoal by simp
  done

lemma ret_call: "(\<And>x. m = Some x \<Longrightarrow> P x) \<Longrightarrow> pred_option P m" by (cases m) auto

lemma ret_fst: "m = Some (x, y) \<Longrightarrow> pred_option (\<lambda>(x, _). P x) m \<Longrightarrow> P x" by simp
lemma ret_snd: "m = Some (x, y) \<Longrightarrow> pred_option (\<lambda>(_, y). P y) m \<Longrightarrow> P y" by simp
lemma ret_mid: "m = Some (x, y, z) \<Longrightarrow> pred_option (\<lambda>(_, y, _). P y) m \<Longrightarrow> P y" by simp
lemma ret_one: "m = Some x \<Longrightarrow> pred_option P m \<Longrightarrow> P x" by simp

named_theorems conn_frame

lemma alloc_header_conn [conn_frame]:
  "tcp_output_alloc_header cff p ol dl q n = Some (r, p', n') \<Longrightarrow> conn_key p' = conn_key p"
  by (erule ret_mid [where P = "\<lambda>q. conn_key q = conn_key p"], unfold tcp_output_alloc_header_def Let_def, intro ret_all)
    (auto intro!: ret_call simp: bind_eq_Some_conv split: if_splits dest!: conn_frame)

lemma enqueue_flags_conn [conn_frame]:
  "tcp_enqueue_flags cff p fl n = Some (r, p', n') \<Longrightarrow> conn_key p' = conn_key p"
  by (erule ret_mid [where P = "\<lambda>q. conn_key q = conn_key p"], unfold tcp_enqueue_flags_def Let_def, intro ret_all)
    (auto intro!: ret_call simp: bind_eq_Some_conv split: if_splits dest!: conn_frame)

lemma send_fin_conn [conn_frame]:
  "tcp_send_fin cff p n = Some (r, p', n') \<Longrightarrow> conn_key p' = conn_key p"
  by (erule ret_mid [where P = "\<lambda>q. conn_key q = conn_key p"], unfold tcp_send_fin_def Let_def, intro ret_all)
    (auto intro!: ret_call simp: bind_eq_Some_conv split: if_splits dest!: conn_frame)

lemma empty_ack_conn [conn_frame]:
  "tcp_send_empty_ack E p s = Some (r, p', s') \<Longrightarrow> conn_key p' = conn_key p"
  by (erule ret_mid [where P = "\<lambda>q. conn_key q = conn_key p"], unfold tcp_send_empty_ack_def Let_def, intro ret_all)
    (auto intro!: ret_call simp: bind_eq_Some_conv split: if_splits dest!: conn_frame)

lemma keepalive_conn [conn_frame]:
  "tcp_keepalive E p s = Some (p', s') \<Longrightarrow> conn_key p' = conn_key p"
  by (erule ret_fst [where P = "\<lambda>q. conn_key q = conn_key p"], unfold tcp_keepalive_def Let_def, intro ret_all)
    (auto intro!: ret_call simp: bind_eq_Some_conv split: if_splits dest!: conn_frame)

lemma probe_conn [conn_frame]:
  "tcp_zero_window_probe E p s = Some (p', s') \<Longrightarrow> conn_key p' = conn_key p"
  by (erule ret_fst [where P = "\<lambda>q. conn_key q = conn_key p"], unfold tcp_zero_window_probe_def Let_def, intro ret_all)
    (auto intro!: ret_call simp: bind_eq_Some_conv split: if_splits dest!: conn_frame)

lemma output_segment_conn [conn_frame]:
  "tcp_output_segment E k g p s = Some (p', s') \<Longrightarrow> conn_key p' = conn_key p"
  by (erule ret_fst [where P = "\<lambda>q. conn_key q = conn_key p"], unfold tcp_output_segment_def Let_def, intro ret_all)
    (auto intro!: ret_call simp: bind_eq_Some_conv split: if_splits dest!: conn_frame)

lemma queue_sent_conn [conn_frame]:
  "queue_sent cff g u p s = Some (u', p', s') \<Longrightarrow> conn_key p' = conn_key p"
  by (erule ret_mid [where P = "\<lambda>q. conn_key q = conn_key p"], unfold queue_sent_def Let_def, intro ret_all)
    (auto intro!: ret_call simp: bind_eq_Some_conv split: if_splits dest!: conn_frame)

lemma output_one_conn [conn_frame]:
  "output_one E k g segs u p s = Some (u', p', s') \<Longrightarrow> conn_key p' = conn_key p"
  by (erule ret_mid [where P = "\<lambda>q. conn_key q = conn_key p"], unfold output_one_def Let_def, intro ret_all)
    (auto intro!: ret_call simp: bind_eq_Some_conv split: if_splits dest!: conn_frame)

lemma output_loop_conn [conn_frame]:
  "tcp_output_loop E k gs u p s = Some (p', s') \<Longrightarrow> conn_key p' = conn_key p"
proof (induction gs arbitrary: u p s)
  case (Cons g gs)
  from Cons.prems show ?case
    by (auto simp: bind_eq_Some_conv split: if_splits dest!: conn_frame Cons.IH)
qed simp

lemma output_conn [conn_frame]:
  "tcp_output E k b p s = Some (r, p', s') \<Longrightarrow> conn_key p' = conn_key p"
  by (erule ret_mid [where P = "\<lambda>q. conn_key q = conn_key p"], unfold tcp_output_def Let_def, intro ret_all)
    (auto intro!: ret_call simp: bind_eq_Some_conv split: if_splits dest!: conn_frame)

lemma rexmit_rto_conn [conn_frame]:
  "tcp_rexmit_rto E k b p s = Some (p', s') \<Longrightarrow> conn_key p' = conn_key p"
  by (erule ret_fst [where P = "\<lambda>q. conn_key q = conn_key p"], unfold tcp_rexmit_rto_def Let_def, intro ret_all)
    (auto intro!: ret_call simp: bind_eq_Some_conv split: if_splits dest!: conn_frame)

lemma rexmit_conn [conn_frame]:
  "tcp_rexmit p s = Some p' \<Longrightarrow> conn_key p' = conn_key p"
  by (erule ret_one [where P = "\<lambda>q. conn_key q = conn_key p"], unfold tcp_rexmit_def Let_def, intro ret_all)
    (auto intro!: ret_call simp: bind_eq_Some_conv split: if_splits dest!: conn_frame)

lemma rexmit_fast_conn [conn_frame]:
  "tcp_rexmit_fast p s = Some p' \<Longrightarrow> conn_key p' = conn_key p"
  by (erule ret_one [where P = "\<lambda>q. conn_key q = conn_key p"], unfold tcp_rexmit_fast_def Let_def, intro ret_all)
    (auto intro!: ret_call simp: bind_eq_Some_conv split: if_splits dest!: conn_frame)

lemma ann_wnd_conn [conn_frame]:
  "tcp_update_rcv_ann_wnd p = Some (r, p') \<Longrightarrow> conn_key p' = conn_key p"
  by (erule ret_snd [where P = "\<lambda>q. conn_key q = conn_key p"], unfold tcp_update_rcv_ann_wnd_def Let_def, intro ret_all)
    (auto intro!: ret_call simp: bind_eq_Some_conv split: if_splits dest!: conn_frame)

lemma recved_wnd_conn [conn_frame]:
  "recved_wnd len p = Some (r, p') \<Longrightarrow> conn_key p' = conn_key p"
  by (erule ret_snd [where P = "\<lambda>q. conn_key q = conn_key p"], unfold recved_wnd_def Let_def, intro ret_all)
    (auto intro!: ret_call simp: bind_eq_Some_conv split: if_splits dest!: conn_frame)

lemma rto_backoff_conn [conn_frame]:
  "rto_backoff p = Some p' \<Longrightarrow> conn_key p' = conn_key p"
  by (erule ret_one [where P = "\<lambda>q. conn_key q = conn_key p"], unfold rto_backoff_def Let_def, intro ret_all)
    (auto intro!: ret_call simp: bind_eq_Some_conv split: if_splits dest!: conn_frame)

section \<open>Receiving\<close>

lemma parse_loop_conn [conn_frame]: "parse_loop s o' m c p = Some p' \<Longrightarrow> conn_key p' = conn_key p"
proof (rule parse_loop.raw_induct [where P = "\<lambda>_ _ _ _ p p'. conn_key p' = conn_key p"])
  fix f s o' m c and p q :: "'a tcp_pcb"
  assume IH: "\<And>s o' m c (p :: 'a tcp_pcb) q. f s o' m c p = Some q \<Longrightarrow> conn_key q = conn_key p"
    and q: "(if c < m then Option.bind (parse_one s o' m c) (\<lambda>(c', v).
       let p = case v of None \<Rightarrow> p | Some v \<Rightarrow> p\<lparr>t_mss := v\<rparr>
       in case c' of None \<Rightarrow> Some p | Some c' \<Rightarrow> f s o' m c' p) else Some p) = Some q"
  from q show "conn_key q = conn_key p"
    by (auto simp: Let_def bind_eq_Some_conv split: if_splits option.splits dest!: IH)
qed

lemma parseopt_conn [conn_frame]:
  "tcp_parseopt s h p = Some p' \<Longrightarrow> conn_key p' = conn_key p"
  by (erule ret_one [where P = "\<lambda>q. conn_key q = conn_key p"], unfold tcp_parseopt_def Let_def, intro ret_all)
    (auto intro!: ret_call simp: bind_eq_Some_conv split: if_splits dest!: conn_frame)

lemma drop_acked_conn [conn_frame]:
  "drop_acked cff g p s = Some (p', s') \<Longrightarrow> conn_key p' = conn_key p"
  by (erule ret_fst [where P = "\<lambda>q. conn_key q = conn_key p"], unfold drop_acked_def Let_def, intro ret_all)
    (auto intro!: ret_call simp: bind_eq_Some_conv split: if_splits dest!: conn_frame)

lemma free_unacked_conn [conn_frame]: "free_unacked cff a gs p s = Some (p', s') \<Longrightarrow> conn_key p' = conn_key p"
proof (induction gs arbitrary: p s)
  case (Cons g gs)
  from Cons.prems show ?case
    by (auto simp: bind_eq_Some_conv split: if_splits prod.splits dest!: conn_frame Cons.IH)
qed simp

lemma free_unsent_conn [conn_frame]: "free_unsent cff a gs p s = Some (p', s') \<Longrightarrow> conn_key p' = conn_key p"
proof (induction gs arbitrary: p s)
  case (Cons g gs)
  from Cons.prems show ?case
    by (auto simp: bind_eq_Some_conv split: if_splits prod.splits dest!: conn_frame Cons.IH)
qed simp

lemma rcv_window_conn [simp]: "conn_key (rcv_window q a w p) = conn_key p"
  by (simp add: rcv_window_def Let_def)

lemma rcv_rtt_conn [simp]: "conn_key (rcv_rtt k a p) = conn_key p"
  by (simp add: rcv_rtt_def Let_def)

lemma tcp_ack_conn [simp]: "conn_key (tcp_ack p) = conn_key p" "conn_key (tcp_ack_now p) = conn_key p"
  by (simp_all add: tcp_ack_def tcp_ack_now_def)

lemma rcv_dupack_conn [conn_frame]:
  "rcv_dupack r a t p s = Some p' \<Longrightarrow> conn_key p' = conn_key p"
  by (erule ret_one [where P = "\<lambda>q. conn_key q = conn_key p"], unfold rcv_dupack_def Let_def, intro ret_all)
    (auto intro!: ret_call simp: bind_eq_Some_conv split: if_splits dest!: conn_frame)

lemma rcv_newack_conn [conn_frame]:
  "rcv_newack a p = Some p' \<Longrightarrow> conn_key p' = conn_key p"
  by (erule ret_one [where P = "\<lambda>q. conn_key q = conn_key p"], unfold rcv_newack_def grow_cwnd_def Let_def, intro ret_all)
    (auto intro!: ret_call simp: bind_eq_Some_conv split: if_splits dest!: conn_frame)

lemma rcv_acks_conn:
  assumes "(if TCP_SEQ_LEQ a (t_lastack p) then Option.bind (rcv_dupack r a t p s) (\<lambda>p. Some (p, s))
    else if b then Option.bind (rcv_newack a p) (\<lambda>p. Option.bind (free_unacked cff a (t_unacked p) p s) (\<lambda>(p, s).
      Some (p\<lparr>t_rtime := (if t_unacked p = [] then - 1 else 0), t_polltmr := 0\<rparr>, s)))
    else Some (p\<lparr>t_acked := 0\<rparr>, s)) = Some (p', s')"
  shows "conn_key p' = conn_key p"
proof (cases "TCP_SEQ_LEQ a (t_lastack p)")
  case True
  with assms show ?thesis by (simp add: bind_eq_Some_conv) (auto dest: rcv_dupack_conn)
next
  case False
  show ?thesis
  proof (cases b)
    case True
    with assms False show ?thesis
      by (simp add: bind_eq_Some_conv) (auto dest!: rcv_newack_conn free_unacked_conn simp del: split_paired_Ex)
  qed (use assms False in auto)
qed

lemma rcv_ack_conn [conn_frame]:
  "rcv_ack cff k v p s = Some (p', s') \<Longrightarrow> conn_key p' = conn_key p"
  unfolding rcv_ack_def Let_def
  by (simp only: bind_eq_Some_conv, elim exE conjE, simp only: split_paired_all prod.case bind_eq_Some_conv, elim exE conjE)
    (auto dest!: free_unsent_conn rcv_acks_conn)

lemma rcv_in_seq_conn [conn_frame]:
  "rcv_in_seq cff v p s = Some (v', p', s') \<Longrightarrow> conn_key p' = conn_key p"
  by (erule ret_mid [where P = "\<lambda>q. conn_key q = conn_key p"], unfold rcv_in_seq_def Let_def, intro ret_all)
    (auto intro!: ret_call simp: bind_eq_Some_conv split: if_splits dest!: conn_frame)

lemma rcv_data_conn [conn_frame]:
  "rcv_data E v p s = Some (v', p', s') \<Longrightarrow> conn_key p' = conn_key p"
  by (erule ret_mid [where P = "\<lambda>q. conn_key q = conn_key p"], unfold rcv_data_def Let_def, intro ret_all)
    (auto intro!: ret_call simp: bind_eq_Some_conv split: if_splits dest!: conn_frame)

lemma receive_conn [conn_frame]:
  "tcp_receive E k v p s = Some (v', p', s') \<Longrightarrow> conn_key p' = conn_key p"
  by (erule ret_mid [where P = "\<lambda>q. conn_key q = conn_key p"], unfold tcp_receive_def Let_def, intro ret_all)
    (auto intro!: ret_call simp: bind_eq_Some_conv split: if_splits dest!: conn_frame)

end
