(* ===== verification/TcpLists.thy ===== *)
theory TcpLists
  imports TcpFrame
begin

text \<open>
  The lists of control blocks and the rules of \<open>tcp_impl.h\<close> for them: every control block that is not
  closed is in one of the lists, in one only, and the list fits its state.
\<close>

section \<open>Lists in memory\<close>

fun chained :: "(nat \<Rightarrow> nat option option) \<Rightarrow> nat option \<Rightarrow> nat list \<Rightarrow> bool" where
  "chained nx p [] \<longleftrightarrow> p = None"
| "chained nx p (x # xs) \<longleftrightarrow> p = Some x \<and> (case nx x of None \<Rightarrow> False | Some q \<Rightarrow> chained nx q xs)"

lemma chained_cong: "(\<And>x. x \<in> set xs \<Longrightarrow> nx' x = nx x) \<Longrightarrow> chained nx' p xs = chained nx p xs"
  by (induction xs arbitrary: p) (auto split: option.splits)

lemma chained_upd [simp]: "x \<notin> set xs \<Longrightarrow> chained (nx(x := v)) p xs = chained nx p xs"
  by (rule chained_cong) auto

lemma chained_unique: "chained nx p xs \<Longrightarrow> chained nx p ys \<Longrightarrow> xs = ys"
proof (induction xs arbitrary: p ys)
  case Nil
  then show ?case by (cases ys) auto
next
  case (Cons x xs)
  then show ?case by (cases ys) (auto split: option.splits)
qed

lemma chained_next: "chained nx p xs \<Longrightarrow> x \<in> set xs \<Longrightarrow> nx x \<noteq> None"
  by (induction xs arbitrary: p) (auto split: option.splits)

lemma chained_append:
  "chained nx p (xs @ y # ys) \<longleftrightarrow> chained (nx(y := Some None)) p (xs @ [y]) \<and> nx y \<noteq> None \<and> chained nx (the (nx y)) ys"
  if "distinct (xs @ y # ys)"
  using that by (induction xs arbitrary: p) (auto split: option.splits)

text \<open>The loop of \<open>TCP_RMV\<close> finds the control block in front and takes the one behind out.\<close>

lemma rmv_walk_spec:
  assumes "chained (k_next s) t xs" and "distinct xs" and "x \<notin> set xs \<or> nx = the (k_next s x)"
    and "t \<noteq> Some x" and "x \<in> set xs \<longrightarrow> k_next s x \<noteq> None"
  obtains s' where "rmv_walk x nx t s = Some s'" "\<exists>n. s' = s\<lparr>k_next := n\<rparr> \<and> dom n = dom (k_next s) \<and>
      (\<forall>y. y \<notin> set xs \<longrightarrow> n y = k_next s y) \<and> n x = k_next s x \<and>
      chained n t (removeAll x xs)"
proof -
  have "\<exists>n. rmv_walk x nx t s = Some (s\<lparr>k_next := n\<rparr>) \<and> dom n = dom (k_next s) \<and>
      (\<forall>y. y \<notin> set xs \<longrightarrow> n y = k_next s y) \<and> n x = k_next s x \<and> chained n t (removeAll x xs)"
    using assms
  proof (induction xs arbitrary: t)
    case Nil
    then show ?case by (subst rmv_walk.simps) (auto intro!: exI [of _ "k_next s"])
  next
    case (Cons y ys)
    from Cons.prems obtain q where t: "t = Some y" and q: "k_next s y = Some q" "chained (k_next s) q ys"
      by (auto split: option.splits)
    have yx: "y \<noteq> x" using Cons.prems(4) t by auto
    show ?case
    proof (cases "q = Some x")
      case True
      then obtain zs where ys: "ys = x # zs" using q(2) by (cases ys) auto
      with q(2) Cons.prems have nx: "k_next s x = Some nx" and zs: "chained (k_next s) nx zs"
        by (auto split: option.splits)
      show ?thesis
        by (subst rmv_walk.simps, rule exI [of _ "(k_next s)(y \<mapsto> nx)"])
          (use Cons.prems(2) t q True ys zs yx in \<open>auto simp: removeAll_id\<close>)
    next
      case False
      from Cons.IH [OF q(2) _ _ False] Cons.prems obtain n where n: "rmv_walk x nx q s = Some (s\<lparr>k_next := n\<rparr>)"
        "dom n = dom (k_next s)" "\<forall>y. y \<notin> set ys \<longrightarrow> n y = k_next s y" "n x = k_next s x" "chained n q (removeAll x ys)"
        by auto
      show ?thesis
        by (subst rmv_walk.simps, rule exI [of _ n]) (use n t q False yx Cons.prems(2) in auto)
    qed
  qed
  then show thesis using that by blast
qed

section \<open>The rules\<close>

abbreviation conn_state :: "('f, 'w, 'a) stk \<Rightarrow> nat \<Rightarrow> tcp_state option" where
  "conn_state s x \<equiv> map_option t_state (k_pcbs s x)"

abbreviation conn_port :: "('f, 'w, 'a) stk \<Rightarrow> nat \<Rightarrow> u16 option" where
  "conn_port s x \<equiv> map_option t_local_port (k_pcbs s x)"

fun fits_list :: "pcb_list \<Rightarrow> ('f, 'w, 'a) stk \<Rightarrow> nat \<Rightarrow> bool" where
  "fits_list L_LISTEN s x \<longleftrightarrow> map_option lp_state (k_lpcbs s x) = Some LISTEN"
| "fits_list L_BOUND s x \<longleftrightarrow> conn_state s x = Some CLOSED \<and> conn_port s x \<noteq> Some 0"
| "fits_list L_ACTIVE s x \<longleftrightarrow> (case conn_state s x of None \<Rightarrow> False | Some st \<Rightarrow> st \<notin> {CLOSED, LISTEN, TIME_WAIT})"
| "fits_list L_TW s x \<longleftrightarrow> conn_state s x = Some TIME_WAIT"

definition linked_lists :: "(pcb_list \<Rightarrow> nat list) \<Rightarrow> ('f, 'w, 'a) stk \<Rightarrow> bool" where
  "linked_lists f s \<longleftrightarrow> (\<forall>l. chained (k_next s) (k_head s l) (f l) \<and> distinct (f l)) \<and>
     (\<forall>l l'. l \<noteq> l' \<longrightarrow> set (f l) \<inter> set (f l') = {})"

text \<open>The rules for one control block; and the rules for all but those of a set, which are in no list.\<close>

definition placed :: "(pcb_list \<Rightarrow> nat list) \<Rightarrow> ('f, 'w, 'a) stk \<Rightarrow> nat \<Rightarrow> bool" where
  "placed f s x \<longleftrightarrow> (\<forall>l. x \<in> set (f l) \<longrightarrow> fits_list l s x) \<and>
     (\<forall>st. conn_state s x = Some st \<and> st \<noteq> CLOSED \<longrightarrow> (\<exists>l. x \<in> set (f l))) \<and>
     (k_lpcbs s x \<noteq> None \<longrightarrow> x \<in> set (f L_LISTEN)) \<and>
     (k_next s x = None \<longleftrightarrow> k_pcbs s x = None \<and> k_lpcbs s x = None) \<and>
     (k_pcbs s x = None \<or> k_lpcbs s x = None)"

definition lists_but :: "nat set \<Rightarrow> (pcb_list \<Rightarrow> nat list) \<Rightarrow> ('f, 'w, 'a) stk \<Rightarrow> bool" where
  "lists_but X f s \<longleftrightarrow> linked_lists f s \<and> (\<forall>y. y \<notin> X \<longrightarrow> placed f s y) \<and>
     (\<forall>x \<in> X. (\<forall>l. x \<notin> set (f l)) \<and> k_next s x \<noteq> None \<and> (k_pcbs s x = None \<or> k_lpcbs s x = None))"

abbreviation lists_ok :: "(pcb_list \<Rightarrow> nat list) \<Rightarrow> ('f, 'w, 'a) stk \<Rightarrow> bool" where
  "lists_ok \<equiv> lists_but {}"

section \<open>What does not touch the lists\<close>

definition outline :: "('f, 'w, 'a) stk \<Rightarrow> (nat \<Rightarrow> nat option option) \<times> (pcb_list \<Rightarrow> nat option) \<times>
    (nat \<Rightarrow> 'f tcp_pcb_listen option) \<times> (nat \<Rightarrow> (tcp_state \<times> u16 \<times> u16 \<times> u32) option)" where
  "outline s = (k_next s, k_head s, k_lpcbs s, \<lambda>x. map_option conn_key (k_pcbs s x))"

lemma outline_upd [simp]:
  "outline (s\<lparr>k_low := a1\<rparr>) = outline s" "outline (s\<lparr>k_ticks := a2\<rparr>) = outline s"
  "outline (s\<lparr>k_timer := a3\<rparr>) = outline s" "outline (s\<lparr>k_timer_ctr := a4\<rparr>) = outline s"
  "outline (s\<lparr>k_changed := a5\<rparr>) = outline s" "outline (s\<lparr>k_input := a6\<rparr>) = outline s"
  "outline (s\<lparr>k_port := a7\<rparr>) = outline s" "outline (s\<lparr>k_iss := a8\<rparr>) = outline s"
  "outline (s\<lparr>k_in := a9\<rparr>) = outline s" "outline (s\<lparr>k_tm := a10\<rparr>) = outline s"
  "outline (s\<lparr>k_app := a11\<rparr>) = outline s"
  by (simp_all add: outline_def)

lemma outline_put: "k_pcbs s x = Some p \<Longrightarrow> conn_key q = conn_key p \<Longrightarrow> outline (put_pcb x q s) = outline s"
  by (auto simp: outline_def put_pcb_def)

lemma outline_eq:
  assumes "outline s' = outline s"
  shows "k_next s' = k_next s" "k_head s' = k_head s" "k_lpcbs s' = k_lpcbs s"
    "(k_pcbs s' x = None) = (k_pcbs s x = None)" "conn_state s' x = conn_state s x"
    "conn_port s' x = conn_port s x"
proof -
  have key: "map_option conn_key (k_pcbs s' x) = map_option conn_key (k_pcbs s x)" for x
    using assms by (auto simp: outline_def fun_eq_iff)
  then show "(k_pcbs s' x = None) = (k_pcbs s x = None)" by (metis option.map_disc_iff)
  show "conn_state s' x = conn_state s x" "conn_port s' x = conn_port s x"
    using key [of x] by (cases "k_pcbs s' x"; cases "k_pcbs s x"; auto simp: conn_key_eq)+
qed (use assms in \<open>auto simp: outline_def\<close>)

lemma fits_outline:
  assumes "outline s' = outline s"
  shows "fits_list l s' x = fits_list l s x"
  by (cases l) (simp_all add: outline_eq [OF assms])

lemma placed_outline:
  assumes "outline s' = outline s"
  shows "placed f s' x = placed f s x"
  unfolding placed_def outline_eq [OF assms] fits_outline [OF assms] ..

lemma lists_outline:
  assumes "outline s' = outline s"
  shows "lists_but X f s' = lists_but X f s"
  unfolding lists_but_def linked_lists_def placed_outline [OF assms] outline_eq [OF assms] ..

named_theorems stk_frame

lemma upd_pcb_frame [stk_frame]:
  "upd_pcb x g s = Some s' \<Longrightarrow> (\<And>p. conn_key (g p) = conn_key p) \<Longrightarrow> outline s' = outline s"
  by (auto simp: upd_pcb_def bind_eq_Some_conv outline_put)

lemma with_pcb_frame [stk_frame]:
  "with_pcb x g s = Some (r, s') \<Longrightarrow> (\<And>p l r q l'. g p l = Some (r, q, l') \<Longrightarrow> conn_key q = conn_key p) \<Longrightarrow>
   outline s' = outline s"
  by (fastforce simp: with_pcb_def bind_eq_Some_conv outline_put)

lemma with_pcb1_frame [stk_frame]:
  "with_pcb1 x g s = Some s' \<Longrightarrow> (\<And>p l q l'. g p l = Some (q, l') \<Longrightarrow> conn_key q = conn_key p) \<Longrightarrow>
   outline s' = outline s"
  by (fastforce simp: with_pcb1_def bind_eq_Some_conv outline_put)

lemma on_low_frame [stk_frame]: "on_low g s = Some s' \<Longrightarrow> outline s' = outline s"
  "on_pk h s = Some s' \<Longrightarrow> outline s' = outline s"
  "k_pbuf_free E p s = Some s' \<Longrightarrow> outline s' = outline s"
  by (auto simp: on_pk_def k_pbuf_free_def on_low_def bind_eq_Some_conv)

lemma k_output_frame [stk_frame]: "k_output E x s = Some (r, s') \<Longrightarrow> outline s' = outline s"
  unfolding k_output_def by (erule with_pcb_frame) (rule output_conn)

lemma k_rst_frame [stk_frame]: "k_rst E x s = Some s' \<Longrightarrow> outline s' = outline s"
  by (auto simp: k_rst_def bind_eq_Some_conv dest: on_low_frame)

lemma purge_frame [stk_frame]: "tcp_pcb_purge E x s = Some s' \<Longrightarrow> outline s' = outline s"
  unfolding tcp_pcb_purge_def
  by (auto simp: bind_eq_Some_conv split: if_splits dest!: on_low_frame upd_pcb_frame)

lemma pcb_malloc_frame [stk_frame]: "pcb_malloc t s = Some (r, s') \<Longrightarrow> outline s' = outline s"
  by (auto simp: pcb_malloc_def bind_eq_Some_conv dest: on_low_frame)

lemma timer_needed_frame [stk_frame]: "k_timer_needed s = Some s' \<Longrightarrow> outline s' = outline s"
  by (auto simp: k_timer_needed_def bind_eq_Some_conv dest: on_low_frame)

section \<open>Registration and removal\<close>

lemma listsD:
  assumes "lists_but X f s"
  shows "chained (k_next s) (k_head s l) (f l)" "distinct (f l)" "y \<in> set (f l) \<Longrightarrow> y \<in> set (f l') \<Longrightarrow> l = l'"
    "y \<notin> X \<Longrightarrow> placed f s y"
    "x \<in> X \<Longrightarrow> x \<notin> set (f l)" "x \<in> X \<Longrightarrow> k_next s x \<noteq> None" "x \<in> X \<Longrightarrow> k_pcbs s x = None \<or> k_lpcbs s x = None"
proof -
  from assms have "\<forall>l. chained (k_next s) (k_head s l) (f l) \<and> distinct (f l)"
    "\<forall>l l'. l \<noteq> l' \<longrightarrow> set (f l) \<inter> set (f l') = {}" "\<forall>y. y \<notin> X \<longrightarrow> placed f s y"
    "\<forall>x \<in> X. (\<forall>l. x \<notin> set (f l)) \<and> k_next s x \<noteq> None"
    and e: "\<forall>x \<in> X. k_pcbs s x = None \<or> k_lpcbs s x = None"
    by (simp_all add: lists_but_def linked_lists_def)
  then show "chained (k_next s) (k_head s l) (f l)" "distinct (f l)" "y \<in> set (f l) \<Longrightarrow> y \<in> set (f l') \<Longrightarrow> l = l'"
    "y \<notin> X \<Longrightarrow> placed f s y" "x \<in> X \<Longrightarrow> x \<notin> set (f l)" "x \<in> X \<Longrightarrow> k_next s x \<noteq> None"
    by blast+
  show "x \<in> X \<Longrightarrow> k_pcbs s x = None \<or> k_lpcbs s x = None" using e by (rule bspec)
qed

lemma linkedI:
  assumes "\<And>l. chained (k_next s) (k_head s l) (f l)" and "\<And>l. distinct (f l)"
    and "\<And>l l' y. y \<in> set (f l) \<Longrightarrow> y \<in> set (f l') \<Longrightarrow> l = l'"
  shows "linked_lists f s"
  unfolding linked_lists_def using assms by blast

lemma lists_unique: "lists_but X f s \<Longrightarrow> lists_but Y g s \<Longrightarrow> f = g"
  by (rule ext, rule chained_unique) (rule listsD(1), assumption)+

text \<open>A control block is in the list that its state asks for.\<close>

lemma lists_in:
  assumes "lists_but X f s" and "x \<notin> X"
  shows "conn_state s x = Some TIME_WAIT \<longleftrightarrow> x \<in> set (f L_TW)"
    "conn_state s x = Some st \<and> st \<notin> {CLOSED, LISTEN, TIME_WAIT} \<Longrightarrow> x \<in> set (f L_ACTIVE)"
    "x \<in> set (f L_ACTIVE) \<Longrightarrow> \<exists>st. conn_state s x = Some st \<and> st \<notin> {CLOSED, LISTEN, TIME_WAIT}"
    "k_lpcbs s x \<noteq> None \<longleftrightarrow> x \<in> set (f L_LISTEN)"
    "x \<in> set (f L_BOUND) \<Longrightarrow> conn_state s x = Some CLOSED \<and> conn_port s x \<noteq> Some 0"
    "conn_state s x \<noteq> Some LISTEN"
proof -
  have P: "placed f s x" using listsD(4) [OF assms] .
  have fits: "x \<in> set (f l) \<Longrightarrow> fits_list l s x" for l using P by (auto simp: placed_def)
  have ex: "conn_state s x = Some st \<Longrightarrow> st \<noteq> CLOSED \<Longrightarrow> \<exists>l. x \<in> set (f l)" for st
    using P unfolding placed_def by blast
  have excl: "k_pcbs s x = None \<or> k_lpcbs s x = None" using P by (simp add: placed_def)
  have w: "x \<in> set (f l) \<Longrightarrow> conn_state s x = Some st \<Longrightarrow> fits_list l s x \<and> l \<noteq> L_LISTEN" for l st
    using fits [of l] excl by (cases l) auto
  show "conn_state s x = Some TIME_WAIT \<longleftrightarrow> x \<in> set (f L_TW)"
  proof
    assume c: "conn_state s x = Some TIME_WAIT"
    then obtain l where "x \<in> set (f l)" using ex by blast
    with w [OF this c] c show "x \<in> set (f L_TW)" by (cases l) auto
  qed (use fits [of L_TW] in auto)
  show "x \<in> set (f L_ACTIVE)" if c: "conn_state s x = Some st \<and> st \<notin> {CLOSED, LISTEN, TIME_WAIT}"
  proof -
    from c obtain l where "x \<in> set (f l)" using ex by blast
    with w [OF this conjunct1 [OF c]] c show ?thesis by (cases l) auto
  qed
  show "\<exists>st. conn_state s x = Some st \<and> st \<notin> {CLOSED, LISTEN, TIME_WAIT}" if "x \<in> set (f L_ACTIVE)"
    using fits [OF that] by (auto split: option.splits)
  show "k_lpcbs s x \<noteq> None \<longleftrightarrow> x \<in> set (f L_LISTEN)"
    using P fits [of L_LISTEN] by (auto simp: placed_def)
  show "conn_state s x = Some CLOSED \<and> conn_port s x \<noteq> Some 0" if "x \<in> set (f L_BOUND)" using fits [OF that] by simp
  show "conn_state s x \<noteq> Some LISTEN"
  proof
    assume c: "conn_state s x = Some LISTEN"
    then obtain l where "x \<in> set (f l)" using ex by blast
    with w [OF this c] c show False by (cases l) auto
  qed
qed

text \<open>The control blocks other than \<open>x\<close> stay where they are when \<open>x\<close> enters or leaves a list.\<close>

lemma placed_other:
  assumes "placed f s y" and "\<And>l. y \<in> set (g l) \<longleftrightarrow> y \<in> set (f l)"
    and "k_pcbs s' y = k_pcbs s y" "k_lpcbs s' y = k_lpcbs s y" "k_next s' y = None \<longleftrightarrow> k_next s y = None"
  shows "placed g s' y"
proof -
  have "fits_list l s' y = fits_list l s y" for l by (cases l) (simp_all add: assms)
  then show ?thesis using assms by (simp add: placed_def)
qed

lemma timer_needed_same:
  "k_timer_needed s = Some s' \<Longrightarrow> k_pcbs s' = k_pcbs s \<and> k_lpcbs s' = k_lpcbs s \<and> k_next s' = k_next s \<and>
     k_head s' = k_head s \<and> k_in s' = k_in s \<and> k_ticks s' = k_ticks s \<and> k_changed s' = k_changed s"
  by (auto simp: k_timer_needed_def on_pk_def on_low_def bind_eq_Some_conv)

lemma TCP_REG_lists:
  assumes L: "lists_but X f s" and x: "x \<in> X" and fits: "fits_list l s x"
    and own: "if l = L_LISTEN then k_pcbs s x = None else k_lpcbs s x = None"
    and r: "TCP_REG l x s = Some s'"
  shows "lists_but (X - {x}) (f(l := x # f l)) s'" "k_pcbs s' = k_pcbs s" "k_lpcbs s' = k_lpcbs s"
proof -
  let ?s = "s\<lparr>k_next := (k_next s)(x \<mapsto> k_head s l), k_head := (k_head s)(l := Some x)\<rparr>"
  let ?g = "f(l := x # f l)"
  from r have t: "k_timer_needed ?s = Some s'" by (auto simp: TCP_REG_def bind_eq_Some_conv)
  from timer_needed_same [OF t] show same: "k_pcbs s' = k_pcbs s" "k_lpcbs s' = k_lpcbs s" by auto
  note D = listsD [OF L]
  have link: "linked_lists ?g ?s"
    by (rule linkedI) (use D(1, 2) D(5) [OF x] in \<open>auto split: if_splits dest: D(3)\<close>)
  have px: "placed ?g ?s x"
  proof -
    have "fits_list l ?s x" using fits by (cases l) auto
    then show ?thesis using D(5) [OF x] own fits unfolding placed_def
      by (cases l) (auto split: if_splits option.splits)
  qed
  have po: "placed ?g ?s y" if "y \<notin> X" for y
    by (rule placed_other [OF D(4) [OF that]]) (use that x in auto)
  have "lists_but (X - {x}) ?g ?s"
    unfolding lists_but_def using link px po D(5, 6, 7) by (auto split: if_splits)
  then show "lists_but (X - {x}) ?g s'" using lists_outline [OF timer_needed_frame [OF t]] by blast
qed

text \<open>The removal does not look at the state of the control block.\<close>

lemma TCP_RMV_gen:
  assumes L: "linked_lists f s" and P: "\<And>y. y \<notin> insert x X \<Longrightarrow> placed f s y"
    and X: "\<And>y. y \<in> X \<Longrightarrow> (\<forall>l. y \<notin> set (f l)) \<and> k_next s y \<noteq> None \<and> (k_pcbs s y = None \<or> k_lpcbs s y = None)"
    and pl: "k_pcbs s x = None \<or> k_lpcbs s x = None" and only: "\<And>l'. l' \<noteq> l \<Longrightarrow> x \<notin> set (f l')"
    and r: "TCP_RMV l x s = Some s'"
  shows "lists_but (insert x X) (f(l := removeAll x (f l))) s'" "k_pcbs s' = k_pcbs s" "k_lpcbs s' = k_lpcbs s"
    "k_in s' = k_in s" "k_ticks s' = k_ticks s"
proof -
  have D: "chained (k_next s) (k_head s l) (f l)" "distinct (f l)" "y \<in> set (f l) \<Longrightarrow> y \<in> set (f l') \<Longrightarrow> l = l'" for l l' y
    using L unfolding linked_lists_def by blast+
  let ?g = "f(l := removeAll x (f l))"
  from r obtain nx where nx: "k_next s x = Some nx" by (auto simp: TCP_RMV_def bind_eq_Some_conv)
  have "\<exists>n h. s' = s\<lparr>k_next := n(x \<mapsto> None), k_head := (k_head s)(l := h)\<rparr> \<and> dom n = dom (k_next s) \<and>
      (\<forall>y. y \<notin> set (f l) \<longrightarrow> n y = k_next s y) \<and> chained n h (removeAll x (f l))"
  proof (cases "k_head s l = Some x")
    case True
    with D(1) [of l] nx obtain ys where ys: "f l = x # ys" "chained (k_next s) nx ys" by (cases "f l") auto
    with D(2) [of l] have "removeAll x (f l) = ys" by (auto simp: removeAll_id)
    with r True nx ys show ?thesis
      by (intro exI [of _ "k_next s"] exI [of _ nx]) (auto simp: TCP_RMV_def)
  next
    case False
    obtain s1 where s1: "rmv_walk x nx (k_head s l) s = Some s1" "\<exists>n. s1 = s\<lparr>k_next := n\<rparr> \<and> dom n = dom (k_next s) \<and>
        (\<forall>y. y \<notin> set (f l) \<longrightarrow> n y = k_next s y) \<and> n x = k_next s x \<and> chained n (k_head s l) (removeAll x (f l))"
      by (rule rmv_walk_spec [OF D(1) [of l] D(2), of x nx]) (use nx False in auto)
    with r nx False obtain n where n: "s' = s\<lparr>k_next := n(x \<mapsto> None)\<rparr>" "dom n = dom (k_next s)"
      "\<forall>y. y \<notin> set (f l) \<longrightarrow> n y = k_next s y" "chained n (k_head s l) (removeAll x (f l))"
      by (auto simp: TCP_RMV_def)
    then show ?thesis by (intro exI [of _ n] exI [of _ "k_head s l"]) auto
  qed
  then obtain n h where s': "s' = s\<lparr>k_next := n(x \<mapsto> None), k_head := (k_head s)(l := h)\<rparr>"
    and dom: "dom n = dom (k_next s)" and n: "\<And>y. y \<notin> set (f l) \<Longrightarrow> n y = k_next s y"
    and c: "chained n h (removeAll x (f l))" by auto
  show "k_pcbs s' = k_pcbs s" "k_lpcbs s' = k_lpcbs s" "k_in s' = k_in s" "k_ticks s' = k_ticks s"
    by (simp_all add: s')
  have ch: "chained (n(x \<mapsto> None)) (k_head s l') (f l')" if "l' \<noteq> l" for l'
  proof -
    have "chained (n(x \<mapsto> None)) (k_head s l') (f l') = chained (k_next s) (k_head s l') (f l')"
      by (rule chained_cong) (use only [OF that] n that in \<open>auto dest: D(3)\<close>)
    then show ?thesis using D(1) by simp
  qed
  have link: "linked_lists ?g s'"
    by (rule linkedI) (use c ch D(2) in \<open>auto simp: s' distinct_removeAll split: if_splits dest: D(3)\<close>)
  have nn: "k_next s' y = None \<longleftrightarrow> k_next s y = None" if "y \<noteq> x" for y
  proof -
    have "n y = None \<longleftrightarrow> k_next s y = None" using dom by (metis domIff)
    with that show ?thesis by (simp add: s')
  qed
  have po: "placed ?g s' y" if "y \<notin> insert x X" for y
    by (rule placed_other [of f s]) (use that nn P in \<open>auto simp: s'\<close>)
  show "lists_but (insert x X) ?g s'"
    unfolding lists_but_def
  proof (intro conjI ballI allI impI)
    fix y assume y: "y \<in> insert x X"
    show "y \<notin> set (?g l')" for l' using y only [of l'] X [of y] by (auto split: if_splits)
    show "k_next s' y \<noteq> None" using y X [of y] nn [of y] by (auto simp: s')
    show "k_pcbs s' y = None \<or> k_lpcbs s' y = None" using y X [of y] pl by (auto simp: s')
  qed (use link po in auto)
qed

lemma TCP_RMV_lists:
  assumes L: "lists_but X f s" and x: "x \<notin> X" and only: "\<And>l'. l' \<noteq> l \<Longrightarrow> x \<notin> set (f l')"
    and r: "TCP_RMV l x s = Some s'"
  shows "lists_but (insert x X) (f(l := removeAll x (f l))) s'" "k_pcbs s' = k_pcbs s" "k_lpcbs s' = k_lpcbs s"
    "k_in s' = k_in s" "k_ticks s' = k_ticks s"
proof -
  have pl: "k_pcbs s x = None \<or> k_lpcbs s x = None" using listsD(4) [OF L x] by (simp add: placed_def)
  note G = TCP_RMV_gen [of f s x X, OF _ _ _ pl only r]
  show "lists_but (insert x X) (f(l := removeAll x (f l))) s'" "k_pcbs s' = k_pcbs s" "k_lpcbs s' = k_lpcbs s"
    "k_in s' = k_in s" "k_ticks s' = k_ticks s"
    by (rule G; use L in \<open>auto simp: lists_but_def\<close>)+
qed

section \<open>A control block outside the lists\<close>

lemma free_pcb_lists:
  assumes L: "lists_but X f s" and x: "x \<in> X" and r: "free_pcb x s = Some s'"
  shows "lists_but (X - {x}) f s'"
proof -
  note D = listsD [OF L]
  from r obtain s1 p where p: "k_pcbs s x = Some p" and o: "outline s1 = outline s"
    and s': "s' = s1\<lparr>k_pcbs := (k_pcbs s1)(x := None), k_next := (k_next s1)(x := None)\<rparr>"
    by (auto simp: free_pcb_def bind_eq_Some_conv dest: on_low_frame)
  have L1: "lists_but X f s1" using lists_outline [OF o] L by blast
  note D1 = listsD [OF L1]
  have link: "linked_lists f s'"
    by (rule linkedI) (use D1(1, 2) D1(5) [OF x] in \<open>auto simp: s' dest: D1(3)\<close>)
  have px: "placed f s' x"
    using D1(5) [OF x] outline_eq(3) [OF o] D(7) [OF x] p by (auto simp: placed_def s')
  have po: "placed f s' y" if "y \<notin> X" for y
    by (rule placed_other [OF D1(4) [OF that]]) (use that x in \<open>auto simp: s'\<close>)
  show ?thesis
    unfolding lists_but_def using link px po D1(5, 6, 7) by (auto simp: s' split: if_splits)
qed

lemma free_lpcb_lists:
  assumes L: "lists_but X f s" and x: "x \<in> X" and r: "free_lpcb x s = Some s'"
  shows "lists_but (X - {x}) f s'"
proof -
  note D = listsD [OF L]
  from r obtain s1 p where p: "k_lpcbs s x = Some p" and o: "outline s1 = outline s"
    and s': "s' = s1\<lparr>k_lpcbs := (k_lpcbs s1)(x := None), k_next := (k_next s1)(x := None)\<rparr>"
    by (auto simp: free_lpcb_def bind_eq_Some_conv dest: on_low_frame)
  have L1: "lists_but X f s1" using lists_outline [OF o] L by blast
  note D1 = listsD [OF L1]
  have link: "linked_lists f s'"
    by (rule linkedI) (use D1(1, 2) D1(5) [OF x] in \<open>auto simp: s' dest: D1(3)\<close>)
  have px: "placed f s' x"
    using D1(5) [OF x] outline_eq(4) [OF o, of x] D(7) [OF x] p by (auto simp: placed_def s')
  have po: "placed f s' y" if "y \<notin> X" for y
    by (rule placed_other [OF D1(4) [OF that]]) (use that x in \<open>auto simp: s'\<close>)
  show ?thesis
    unfolding lists_but_def using link px po D1(5, 6, 7) by (auto simp: s' split: if_splits)
qed

lemma set_state_lists:
  assumes L: "lists_but X f s" and x: "x \<in> X" and r: "set_state x st s = Some s'"
  shows "lists_but X f s'" "k_pcbs s x \<noteq> None \<Longrightarrow> conn_state s' x = Some st"
    "(k_pcbs s' x = None) = (k_pcbs s x = None)" "(k_lpcbs s' x = None) = (k_lpcbs s x = None)"
proof -
  note D = listsD [OF L]
  from r have same: "k_next s' = k_next s" "k_head s' = k_head s" "\<And>y. y \<noteq> x \<Longrightarrow> k_pcbs s' y = k_pcbs s y"
    "\<And>y. y \<noteq> x \<Longrightarrow> k_lpcbs s' y = k_lpcbs s y" "(k_pcbs s' x = None) = (k_pcbs s x = None)"
    "(k_lpcbs s' x = None) = (k_lpcbs s x = None)"
    by (auto simp: set_state_def put_pcb_def bind_eq_Some_conv split: option.splits)
  show "(k_pcbs s' x = None) = (k_pcbs s x = None)" "(k_lpcbs s' x = None) = (k_lpcbs s x = None)" using same by auto
  show "conn_state s' x = Some st" if "k_pcbs s x \<noteq> None"
    using that r by (auto simp: set_state_def put_pcb_def)
  have po: "placed f s' y" if "y \<notin> X" for y
    by (rule placed_other [OF D(4) [OF that]]) (use that x same(1) same(3, 4) [of y] in auto)
  have link: "linked_lists f s'" by (rule linkedI) (use D(1, 2) in \<open>auto simp: same dest: D(3)\<close>)
  have "k_pcbs s' y = None \<or> k_lpcbs s' y = None" if "y \<in> X" for y
    using D(7) [OF that] same(3-6) by (cases "y = x") auto
  then show "lists_but X f s'"
    unfolding lists_but_def using link po D(5, 6) by (simp add: same)
qed

lemma closed_lists:
  assumes L: "lists_but X f s" and x: "x \<in> X" and c: "conn_state s x = Some CLOSED"
  shows "lists_but (X - {x}) f s"
proof -
  note D = listsD [OF L]
  have "placed f s x" using D(5, 6, 7) [OF x] c by (auto simp: placed_def)
  then show ?thesis using L by (auto simp: lists_but_def)
qed

lemma fresh_lists:
  assumes L: "lists_but X f s" and x: "k_next s x = None" "x \<notin> X" and k: "k_next s' = (k_next s)(x \<mapsto> None)"
    and p: "\<And>y. y \<noteq> x \<Longrightarrow> k_pcbs s' y = k_pcbs s y" "\<And>y. y \<noteq> x \<Longrightarrow> k_lpcbs s' y = k_lpcbs s y"
    and e: "k_pcbs s' x = None \<or> k_lpcbs s' x = None" and h: "k_head s' = k_head s"
  shows "lists_but (insert x X) f s'"
proof -
  note D = listsD [OF L]
  have nin: "x \<notin> set (f l)" for l using chained_next [OF D(1), of x l] x by auto
  have po: "placed f s' y" if "y \<notin> insert x X" for y
    by (rule placed_other [of f s]) (use that D(4) in \<open>auto simp: p k\<close>)
  have link: "linked_lists f s'" by (rule linkedI) (use D(1, 2) nin in \<open>auto simp: k h dest: D(3)\<close>)
  have "k_pcbs s' y = None \<or> k_lpcbs s' y = None" if "y \<in> X" for y
    using D(7) [OF that] p e by (cases "y = x") auto
  then show ?thesis
    unfolding lists_but_def using link po D(5, 6) nin e by (auto simp: k)
qed

end
