(* ===== verification/TcpListClose.thy ===== *)
theory TcpListClose
  imports TcpLists
begin

text \<open>
  The lists of control blocks when a connection is closed, shut down or aborted (\<open>tcp_close\<close>,
  \<open>tcp_shutdown\<close>, \<open>tcp_abandon\<close>) and when \<open>tcp_alloc\<close> makes room for a new one.
\<close>

section \<open>Leaving and changing state\<close>

lemma pcb_state_conn: "conn_state s x = Some st \<Longrightarrow> pcb_state s x = Some st"
  by (auto simp: pcb_state_def)

lemma pcb_state_other: "pcb_state s x = Some st \<Longrightarrow> lists_but X f s \<Longrightarrow> x \<notin> X \<Longrightarrow> st \<noteq> LISTEN \<Longrightarrow> conn_state s x = Some st"
  using lists_in(4) [of X f s x] listsD(4) [of X f s x]
  by (auto simp: pcb_state_def placed_def split: option.splits)

lemma pcb_state_listen:
  assumes "pcb_state s x = Some LISTEN" and "lists_but X f s" and "x \<notin> X"
  shows "k_pcbs s x = None" "x \<in> set (f L_LISTEN)"
proof -
  show p: "k_pcbs s x = None"
    using assms(1) lists_in(6) [OF assms(2, 3)] by (auto simp: pcb_state_def split: option.splits)
  show "x \<in> set (f L_LISTEN)"
    using assms(1) p lists_in(4) [OF assms(2, 3)] by (auto simp: pcb_state_def)
qed

lemma unlist_lists:
  assumes L: "lists_but X f s" and x: "x \<notin> X" and n: "\<And>l. x \<notin> set (f l)" and e: "k_pcbs s x \<noteq> None \<or> k_lpcbs s x \<noteq> None"
  shows "lists_but (insert x X) f s"
  using L x n e listsD(4) [OF L x] unfolding lists_but_def by (auto simp: placed_def)

text \<open>A control block changes where it is.\<close>

lemma put_placed:
  assumes L: "lists_but X f s" and x: "x \<notin> X" and p: "k_pcbs s x = Some p"
    and fit: "\<And>l. x \<in> set (f l) \<Longrightarrow> fits_list l (put_pcb x q s) x" and st: "t_state q \<noteq> CLOSED \<Longrightarrow> \<exists>l. x \<in> set (f l)"
  shows "lists_but X f (put_pcb x q s)"
proof -
  note D = listsD [OF L]
  have px: "placed f (put_pcb x q s) x"
    using fit st D(4) [OF x] p by (auto simp: placed_def put_pcb_def simp del: fits_list.simps)
  have po: "placed f (put_pcb x q s) y" if "y \<notin> X" "y \<noteq> x" for y
    by (rule placed_other [OF D(4) [OF that(1)]]) (use that in \<open>auto simp: put_pcb_def\<close>)
  have link: "linked_lists f (put_pcb x q s)"
    by (rule linkedI) (use D(1, 2) in \<open>auto simp: put_pcb_def dest: D(3)\<close>)
  show ?thesis
    unfolding lists_but_def using link px po D(5, 6, 7) x by (auto simp: put_pcb_def)
qed

lemma put_active:
  assumes L: "lists_but X f s" and x: "x \<notin> X" and a: "x \<in> set (f L_ACTIVE)" and st: "t_state q \<notin> {CLOSED, LISTEN, TIME_WAIT}"
  shows "lists_but X f (put_pcb x q s)"
proof -
  from lists_in(3) [OF L x a] obtain p where p: "k_pcbs s x = Some p" by auto
  show ?thesis
  proof (rule put_placed [OF L x p])
    fix l assume "x \<in> set (f l)"
    then have "l = L_ACTIVE" using listsD(3) [OF L _ a] by blast
    then show "fits_list l (put_pcb x q s) x" using st by (simp add: put_pcb_def)
  qed (use a in blast)
qed

lemma put_closed:
  assumes L: "lists_but X f s" and x: "x \<notin> X" and p: "k_pcbs s x = Some p" "t_state p = CLOSED"
    and q: "t_state q = CLOSED" "t_local_port q = 0 \<longrightarrow> t_local_port p = 0"
  shows "lists_but X f (put_pcb x q s)"
proof (rule put_placed [OF L x p(1)])
  fix l assume l: "x \<in> set (f l)"
  then have "fits_list l s x" "k_lpcbs s x = None" using listsD(4) [OF L x] p(1) by (auto simp: placed_def)
  then show "fits_list l (put_pcb x q s) x" using p q by (cases l) (auto simp: put_pcb_def)
qed (use q in simp)

lemma set_state_active:
  assumes L: "lists_but X f s" and x: "x \<notin> X" and r: "set_state x st s = Some s'"
    and st: "x \<in> set (f L_ACTIVE)" "st \<notin> {CLOSED, LISTEN, TIME_WAIT}"
  shows "lists_but X f s'" "conn_state s' x = Some st"
proof -
  from lists_in(3) [OF L x st(1)] obtain p where p: "k_pcbs s x = Some p" by auto
  then have s': "s' = put_pcb x (p\<lparr>t_state := st\<rparr>) s" using r by (simp add: set_state_def)
  show "lists_but X f s'" unfolding s' by (rule put_active [OF L x st(1)]) (use st in simp)
  show "conn_state s' x = Some st" by (simp add: s' put_pcb_def)
qed

lemma pcb_remove_lists:
  assumes L: "lists_but X f s" and x: "x \<notin> X" and only: "\<And>l'. l' \<noteq> l \<Longrightarrow> x \<notin> set (f l')"
    and r: "tcp_pcb_remove E l x s = Some s'"
  shows "lists_but (insert x X) (f(l := removeAll x (f l))) s'"
    "k_pcbs s x \<noteq> None \<Longrightarrow> conn_state s' x = Some CLOSED" "(k_pcbs s' x = None) = (k_pcbs s x = None)"
proof -
  let ?g = "f(l := removeAll x (f l))"
  from r obtain s1 s2 s3 where s1: "TCP_RMV l x s = Some s1" and s2: "tcp_pcb_purge E x s1 = Some s2"
    and s3: "outline s3 = outline s2" and s': "set_state x CLOSED s3 = Some s'"
    unfolding tcp_pcb_remove_def
    by (auto simp: bind_eq_Some_conv split: if_splits dest!: upd_pcb_frame k_output_frame)
  note R = TCP_RMV_lists [OF L x only s1]
  have o: "outline s3 = outline s1" using s3 purge_frame [OF s2] by simp
  have L3: "lists_but (insert x X) ?g s3" using R(1) lists_outline [OF o] by blast
  note S = set_state_lists [OF L3 _ s']
  show "lists_but (insert x X) ?g s'" using S(1) by simp
  show "(k_pcbs s' x = None) = (k_pcbs s x = None)" using S(3) outline_eq(4) [OF o, of x] R(2) by simp
  show "conn_state s' x = Some CLOSED" if "k_pcbs s x \<noteq> None"
    using S(2) outline_eq(4) [OF o, of x] R(2) that by simp
qed

lemma fun_upd_set_only:
  assumes "lists_but X f s" "x \<in> set (f l)"
  shows "l' \<noteq> l \<Longrightarrow> x \<notin> set (f l')"
  using listsD(3) [OF assms(1) _ assms(2)] by blast

lemma remove_free_lists:
  assumes L: "lists_ok f s" and x: "x \<in> set (f l)" and l: "l \<noteq> L_LISTEN"
    and r: "tcp_pcb_remove E l x s = Some s1" "free_pcb x s1 = Some s'"
  shows "lists_ok (f(l := removeAll x (f l))) s'"
proof -
  have "lists_but {x} (f(l := removeAll x (f l))) s1"
    using pcb_remove_lists(1) [OF L _ fun_upd_set_only [OF L x] r(1)] by simp
  from free_pcb_lists [OF this _ r(2)] show ?thesis by simp
qed

text \<open>The lists of a state that has them.\<close>

definition pcb_lists_ok :: "('f, 'w, 'a) stk \<Rightarrow> bool" where
  "pcb_lists_ok s \<longleftrightarrow> (\<exists>f. lists_ok f s)"

lemma pcb_lists_outline: "outline s' = outline s \<Longrightarrow> pcb_lists_ok s' = pcb_lists_ok s"
  unfolding pcb_lists_ok_def using lists_outline by blast

lemma to_time_wait_lists:
  assumes L: "lists_ok f s" and x: "x \<in> set (f L_ACTIVE)" and r: "to_time_wait E x s = Some s'"
  shows "lists_ok (f(L_ACTIVE := removeAll x (f L_ACTIVE), L_TW := x # f L_TW)) s'" "conn_state s' x = Some TIME_WAIT"
proof -
  from r obtain s1 s2 s3 where s1: "tcp_pcb_purge E x s = Some s1" and s2: "TCP_RMV L_ACTIVE x s1 = Some s2"
    and s3: "set_state x TIME_WAIT (s2\<lparr>k_changed := True\<rparr>) = Some s3" and s': "TCP_REG L_TW x s3 = Some s'"
    by (auto simp: to_time_wait_def TCP_RMV_ACTIVE_def bind_eq_Some_conv)
  note o = purge_frame [OF s1]
  have L1: "lists_ok f s1" using L lists_outline [OF o] by blast
  note R = TCP_RMV_lists [OF L1 _ fun_upd_set_only [OF L x] s2, simplified]
  have "lists_but {x} (f(L_ACTIVE := removeAll x (f L_ACTIVE))) (s2\<lparr>k_changed := True\<rparr>)"
    using R(1) lists_outline [of "s2\<lparr>k_changed := True\<rparr>" s2] by simp
  note S = set_state_lists [OF this _ s3, simplified]
  have p: "k_pcbs s2 x \<noteq> None" using lists_in(3) [OF L _ x] outline_eq(4) [OF o, of x] R(2) by auto
  then have c: "conn_state s3 x = Some TIME_WAIT" using S(2) by simp
  have np: "k_lpcbs s3 x = None" using S(1) p S(3) unfolding lists_but_def by auto
  have f: "fits_list L_TW s3 x" using c by simp
  note G = TCP_REG_lists [OF S(1) _ f _ s', simplified]
  show "lists_ok (f(L_ACTIVE := removeAll x (f L_ACTIVE), L_TW := x # f L_TW)) s'" using G(1) np by simp
  show "conn_state s' x = Some TIME_WAIT" using G(2) np c by simp
qed

section \<open>Closing\<close>

lemma close_unread_lists:
  assumes L: "lists_ok f s" and x: "x \<in> set (f L_ACTIVE)" and r: "close_unread E x st s = Some (r, s')"
  shows "pcb_lists_ok s'"
proof -
  from r obtain s1 where s1: "k_rst E x s = Some s1" and o1: "outline s1 = outline s"
    by (auto simp: close_unread_def bind_eq_Some_conv split: if_splits dest: k_rst_frame)
  have L1: "lists_ok f s1" using L lists_outline [OF o1] by blast
  show ?thesis
  proof (cases "st = ESTABLISHED")
    case True
    with r s1 have "to_time_wait E x s1 = Some s'"
      by (auto simp: close_unread_def to_time_wait_def bind_eq_Some_conv split: if_splits)
    from to_time_wait_lists [OF L1 x this] show ?thesis unfolding pcb_lists_ok_def by blast
  next
    case False
    with r s1 obtain s2 s3 where s2: "tcp_pcb_purge E x s1 = Some s2" and s3: "TCP_RMV L_ACTIVE x s2 = Some s3"
      and s': "free_pcb x (s3\<lparr>k_changed := True\<rparr>) = Some s'"
      by (auto simp: close_unread_def TCP_RMV_ACTIVE_def bind_eq_Some_conv split: if_splits)
    have L2: "lists_ok f s2" using L1 lists_outline [OF purge_frame [OF s2]] by blast
    have "lists_but {x} (f(L_ACTIVE := removeAll x (f L_ACTIVE))) (s3\<lparr>k_changed := True\<rparr>)"
      using TCP_RMV_lists(1) [OF L2 _ fun_upd_set_only [OF L x] s3] lists_outline [of "s3\<lparr>k_changed := True\<rparr>" s3] by simp
    from free_pcb_lists [OF this _ s'] show ?thesis unfolding pcb_lists_ok_def by auto
  qed
qed

lemma close_fin_lists:
  assumes L: "lists_ok f s" and x: "x \<in> set (f L_ACTIVE)" and st: "st \<notin> {CLOSED, LISTEN, TIME_WAIT}"
    and r: "close_fin E x st s = Some (r, s')"
  shows "lists_ok f s'"
proof -
  from r obtain e s1 where s1: "with_pcb x (\<lambda>p l. do {
        (err, p, n) \<leftarrow> tcp_send_fin (ce_cff E) p (l_net l); Some (err, p, l\<lparr>l_net := n\<rparr>) }) s = Some (e, s1)"
    and r1: "if e = ERR_OK then \<exists>s2 e2. set_state x st s1 = Some s2 \<and> k_output E x s2 = Some (e2, s') else s' = s1"
    unfolding close_fin_def by (fastforce simp: bind_eq_Some_conv split: if_splits)
  have "outline s1 = outline s"
    by (rule with_pcb_frame [OF s1]) (auto simp: bind_eq_Some_conv dest: send_fin_conn)
  then have L1: "lists_ok f s1" using L lists_outline by blast
  show ?thesis
  proof (cases "e = ERR_OK")
    case True
    with r1 obtain s2 e2 where s2: "set_state x st s1 = Some s2" "k_output E x s2 = Some (e2, s')" by auto
    show ?thesis
      using set_state_active(1) [OF L1 _ s2(1) x st] lists_outline [OF k_output_frame [OF s2(2)]] by auto
  qed (use r1 L1 in simp)
qed

lemma close_closed_lists:
  assumes L: "lists_but X f s" and x: "x \<notin> X" and c: "conn_state s x = Some CLOSED"
    and r: "k_pcbs s x = Some p" "(if t_local_port p \<noteq> 0 then TCP_RMV L_BOUND x s else Some s) = Some s1"
  shows "lists_but (insert x X) (f(L_BOUND := removeAll x (f L_BOUND))) s1" "k_pcbs s1 = k_pcbs s" "k_lpcbs s1 = k_lpcbs s"
proof -
  have only: "x \<notin> set (f l)" if "l \<noteq> L_BOUND" for l
    using lists_in(1, 3, 4) [OF L x] c that listsD(4) [OF L x]
    by (cases l) (auto simp: placed_def)
  show "lists_but (insert x X) (f(L_BOUND := removeAll x (f L_BOUND))) s1"
  proof (cases "t_local_port p = 0")
    case True
    then have "x \<notin> set (f l)" for l
      using only lists_in(5) [OF L x] r(1) by (cases "l = L_BOUND") auto
    moreover from this have "f(L_BOUND := removeAll x (f L_BOUND)) = f" by (simp add: fun_upd_idem)
    ultimately show ?thesis using unlist_lists [OF L x] r True by simp
  next
    case False
    then show ?thesis using TCP_RMV_lists(1) [OF L x only] r(2) by simp
  qed
  show "k_pcbs s1 = k_pcbs s" "k_lpcbs s1 = k_lpcbs s"
    using r(2) TCP_RMV_lists(2, 3) [OF L x only] by (auto split: if_splits)
qed

lemma close_shutdown_lists:
  assumes P: "pcb_lists_ok s" and r: "tcp_close_shutdown E x b s = Some (e, s')"
  shows "pcb_lists_ok s'"
proof -
  obtain f where L: "lists_ok f s" using P unfolding pcb_lists_ok_def by blast
  from r obtain st u where st: "pcb_state s x = Some st"
    and u: "(if b \<and> (st = ESTABLISHED \<or> st = CLOSE_WAIT) then map_option has_unread (k_pcbs s x) else Some False) = Some u"
    and r1: "(if u then close_unread E x st s else close_by_state E x st s) = Some (e, s')"
    by (auto simp: tcp_close_shutdown_def bind_eq_Some_conv)
  have act: "x \<in> set (f L_ACTIVE)" if "st \<notin> {CLOSED, LISTEN, TIME_WAIT}"
    using pcb_state_other [OF st L] lists_in(2) [OF L, of x st] that by auto
  show ?thesis
  proof (cases u)
    case True
    with u have "st = ESTABLISHED \<or> st = CLOSE_WAIT" by (auto split: if_splits)
    then show ?thesis using close_unread_lists [OF L act] r1 True by auto
  next
    case False
    with r1 have c: "close_by_state E x st s = Some (e, s')" by simp
    have fin: ?thesis if "close_fin E x st' s = Some (e, s')" "st' \<notin> {CLOSED, LISTEN, TIME_WAIT}" "st \<notin> {CLOSED, LISTEN, TIME_WAIT}" for st'
      using close_fin_lists [OF L act [OF that(3)] that(2, 1)] unfolding pcb_lists_ok_def by blast
    show ?thesis
    proof (cases st)
      case CLOSED
      with c obtain p s1 where p: "k_pcbs s x = Some p" "(if t_local_port p \<noteq> 0 then TCP_RMV L_BOUND x s else Some s) = Some s1"
        and s': "free_pcb x s1 = Some s'"
        by (auto simp: close_by_state_def bind_eq_Some_conv)
      have "conn_state s x = Some CLOSED" using pcb_state_other [OF st L] CLOSED by simp
      from free_pcb_lists [OF close_closed_lists(1) [OF L _ this p] _ s'] show ?thesis
        unfolding pcb_lists_ok_def by auto
    next
      case LISTEN
      with c obtain s1 where s1: "tcp_pcb_remove E L_LISTEN x s = Some s1" "free_lpcb x s1 = Some s'"
        by (auto simp: close_by_state_def bind_eq_Some_conv)
      have x: "x \<in> set (f L_LISTEN)" using pcb_state_listen(2) [OF _ L] st LISTEN by simp
      from free_lpcb_lists [OF pcb_remove_lists(1) [OF L _ fun_upd_set_only [OF L x] s1(1)] _ s1(2)] show ?thesis
        unfolding pcb_lists_ok_def by auto
    next
      case SYN_SENT
      with c obtain s1 where s1: "tcp_pcb_remove E L_ACTIVE x s = Some s1" "free_pcb x (s1\<lparr>k_changed := True\<rparr>) = Some s'"
        by (auto simp: close_by_state_def TCP_PCB_REMOVE_ACTIVE_def bind_eq_Some_conv)
      have x: "x \<in> set (f L_ACTIVE)" using act SYN_SENT by simp
      have "lists_but {x} (f(L_ACTIVE := removeAll x (f L_ACTIVE))) (s1\<lparr>k_changed := True\<rparr>)"
        using pcb_remove_lists(1) [OF L _ fun_upd_set_only [OF L x] s1(1)] lists_outline [of "s1\<lparr>k_changed := True\<rparr>" s1] by simp
      from free_pcb_lists [OF this _ s1(2)] show ?thesis unfolding pcb_lists_ok_def by auto
    qed (use c fin P in \<open>auto simp: close_by_state_def\<close>)
  qed
qed

lemma tcp_close_lists:
  assumes P: "pcb_lists_ok s" and r: "tcp_close E x s = Some (e, s')"
  shows "pcb_lists_ok s'"
proof -
  from r obtain s1 where s1: "outline s1 = outline s" "tcp_close_shutdown E x True s1 = Some (e, s')"
    unfolding tcp_close_def by (auto simp: bind_eq_Some_conv split: if_splits dest!: upd_pcb_frame)
  show ?thesis using close_shutdown_lists [OF _ s1(2)] pcb_lists_outline [OF s1(1)] P by blast
qed

lemma tcp_shutdown_lists:
  assumes P: "pcb_lists_ok s" and r: "tcp_shutdown E x rx tx s = Some (e, s')"
  shows "pcb_lists_ok s'"
proof -
  from r have "\<exists>s1 b. outline s1 = outline s \<and> (s' = s1 \<or> tcp_close_shutdown E x b s1 = Some (e, s'))"
    unfolding tcp_shutdown_def
    by (auto simp: bind_eq_Some_conv split: if_splits dest!: upd_pcb_frame on_low_frame(3))
  then obtain s1 b where s1: "outline s1 = outline s" "s' = s1 \<or> tcp_close_shutdown E x b s1 = Some (e, s')" by blast
  show ?thesis using close_shutdown_lists [of s1] pcb_lists_outline [OF s1(1)] P s1(2) by blast
qed

section \<open>Callbacks\<close>

text \<open>
  What the stack expects of the application: a callback leaves the lists in order and does not touch
  the segment that is being processed; the error callback changes nothing of the stack; a connection
  for which a callback returns anything but \<open>ERR_ABRT\<close> has not become closed again, and the one
  that was accepted has not left the active connections.
\<close>

definition callback_keeps :: "nat \<Rightarrow> tcp_state set \<Rightarrow> ('f, 'w, 'a) stk \<Rightarrow> (err_t \<times> ('f, 'w, 'a) stk) option \<Rightarrow> bool" where
  "callback_keeps x bad s r \<longleftrightarrow> (\<forall>e s'. pcb_lists_ok s \<and> conn_state s x \<noteq> Some CLOSED \<and> r = Some (e, s') \<longrightarrow>
     pcb_lists_ok s' \<and> k_in s' = k_in s \<and> (e \<noteq> ERR_ABRT \<longrightarrow> (\<forall>st \<in> bad. conn_state s' x \<noteq> Some st)))"

definition callbacks_ok :: "('f, 'w, 'a) stk_env \<Rightarrow> bool" where
  "callbacks_ok E \<longleftrightarrow>
     (\<forall>g arg e s s'. ce_err E g arg e s = Some s' \<longrightarrow> outline s' = outline s) \<and>
     (\<forall>g arg x e s. callback_keeps x {CLOSED, TIME_WAIT} s (ce_accept E g arg x e s)) \<and>
     (\<forall>g arg x n s. callback_keeps x {CLOSED} s (ce_sent E g arg x n s)) \<and>
     (\<forall>g arg x p e s. callback_keeps x {CLOSED} s (ce_recv E g arg x p e s)) \<and>
     (\<forall>g arg x e s. callback_keeps x {CLOSED} s (ce_connected E g arg x e s)) \<and>
     (\<forall>g arg x s. callback_keeps x {CLOSED} s (ce_poll E g arg x s))"

lemma event_err_frame: "callbacks_ok E \<Longrightarrow> EVENT_ERR E f arg e s = Some s' \<Longrightarrow> outline s' = outline s"
  unfolding callbacks_ok_def EVENT_ERR_def by (auto split: option.splits tcp_cb.splits)

section \<open>Aborting\<close>

lemma abandon_lists:
  assumes cb: "callbacks_ok E" and P: "pcb_lists_ok s" and st: "conn_state s x \<noteq> Some CLOSED"
    and r: "tcp_abandon E x b s = Some s'"
  shows "pcb_lists_ok s'"
proof -
  obtain f where L: "lists_ok f s" using P unfolding pcb_lists_ok_def by blast
  from r obtain st where s: "pcb_state s x = Some st" "st \<noteq> LISTEN"
    unfolding tcp_abandon_def by (auto simp: bind_eq_Some_conv split: if_splits)
  have cs: "conn_state s x = Some st" using pcb_state_other [OF s(1) L _ s(2)] by simp
  show ?thesis
  proof (cases "st = TIME_WAIT")
    case True
    with r s obtain s1 where s1: "tcp_pcb_remove E L_TW x s = Some s1" "free_pcb x s1 = Some s'"
      unfolding tcp_abandon_def by (auto simp: bind_eq_Some_conv)
    have "x \<in> set (f L_TW)" using lists_in(1) [OF L, of x] cs True by simp
    from remove_free_lists [OF L this _ s1] show ?thesis unfolding pcb_lists_ok_def by auto
  next
    case False
    have x: "x \<in> set (f L_ACTIVE)" using lists_in(2) [OF L, of x st] cs st False s(2) by auto
    from r s False obtain s1 s2 s3 g arg where s1: "tcp_pcb_remove E L_ACTIVE x s = Some s1"
      and s3: "free_pcb x s2 = Some s3" and s2: "outline s2 = outline (s1\<lparr>k_changed := True\<rparr>)"
      and s': "EVENT_ERR E g arg ERR_ABRT s3 = Some s'"
      unfolding tcp_abandon_def TCP_PCB_REMOVE_ACTIVE_def Let_def
      by (auto simp: bind_eq_Some_conv split: if_splits dest!: on_low_frame)
    have o: "outline s2 = outline s1" using s2 by simp
    have "lists_but {x} (f(L_ACTIVE := removeAll x (f L_ACTIVE))) s2"
      using pcb_remove_lists(1) [OF L _ fun_upd_set_only [OF L x] s1] lists_outline [OF o] by simp
    from free_pcb_lists [OF this _ s3] have "pcb_lists_ok s3" unfolding pcb_lists_ok_def by auto
    then show ?thesis using pcb_lists_outline [OF event_err_frame [OF cb s']] by simp
  qed
qed

lemma abort_lists:
  "callbacks_ok E \<Longrightarrow> pcb_lists_ok s \<Longrightarrow> conn_state s x \<noteq> Some CLOSED \<Longrightarrow> tcp_abort E x s = Some s' \<Longrightarrow> pcb_lists_ok s'"
  unfolding tcp_abort_def by (rule abandon_lists)

text \<open>The connection that has to make room for a new one is one of the list searched.\<close>

lemma kill_prio_in:
  "kill_prio_loop prio m i b t s = Some r \<Longrightarrow> chained (k_next s) t xs \<Longrightarrow> r = b \<or> (\<exists>x \<in> set xs. r = Some x)"
proof (induction xs arbitrary: m i b t)
  case Nil
  then show ?case by (subst (asm) kill_prio_loop.simps) simp
next
  case (Cons y ys)
  from Cons.prems(2) obtain q where q: "t = Some y" "k_next s y = Some q" "chained (k_next s) q ys"
    by (auto split: option.splits)
  from Cons.prems(1) q(1, 2) show ?case
    by (subst (asm) kill_prio_loop.simps) (auto simp: bind_eq_Some_conv split: if_splits dest!: Cons.IH [OF _ q(3)])
qed

lemma kill_timewait_in:
  "kill_timewait_loop i b t s = Some r \<Longrightarrow> chained (k_next s) t xs \<Longrightarrow> r = b \<or> (\<exists>x \<in> set xs. r = Some x)"
proof (induction xs arbitrary: i b t)
  case Nil
  then show ?case by (subst (asm) kill_timewait_loop.simps) simp
next
  case (Cons y ys)
  from Cons.prems(2) obtain q where q: "t = Some y" "k_next s y = Some q" "chained (k_next s) q ys"
    by (auto split: option.splits)
  from Cons.prems(1) q(1, 2) show ?case
    by (subst (asm) kill_timewait_loop.simps) (auto simp: bind_eq_Some_conv split: if_splits dest!: Cons.IH [OF _ q(3)])
qed

lemma kill_lists:
  assumes cb: "callbacks_ok E" and P: "pcb_lists_ok s"
  shows "tcp_kill_prio E prio s = Some s' \<Longrightarrow> pcb_lists_ok s'" "tcp_kill_timewait E s = Some s' \<Longrightarrow> pcb_lists_ok s'"
proof -
  obtain f where L: "lists_ok f s" using P unfolding pcb_lists_ok_def by blast
  note D = listsD(1) [OF L]
  show "pcb_lists_ok s'" if "tcp_kill_prio E prio s = Some s'"
  proof -
    from that obtain r where r: "kill_prio_loop prio TCP_PRIO_MAX 0 None (k_head s L_ACTIVE) s = Some r"
      and s': "case r of None \<Rightarrow> s' = s | Some x \<Rightarrow> tcp_abort E x s = Some s'"
      by (auto simp: tcp_kill_prio_def bind_eq_Some_conv split: option.splits)
    consider "r = None" | x where "x \<in> set (f L_ACTIVE)" "r = Some x" using kill_prio_in [OF r D] by blast
    then show ?thesis
    proof cases
      case (2 x)
      then have "conn_state s x \<noteq> Some CLOSED" using lists_in(3) [OF L, of x] by auto
      then show ?thesis using abort_lists [OF cb P, of x s'] s' 2 by simp
    qed (use s' P in simp)
  qed
  show "pcb_lists_ok s'" if "tcp_kill_timewait E s = Some s'"
  proof -
    from that obtain r where r: "kill_timewait_loop 0 None (k_head s L_TW) s = Some r"
      and s': "case r of None \<Rightarrow> s' = s | Some x \<Rightarrow> tcp_abort E x s = Some s'"
      by (auto simp: tcp_kill_timewait_def bind_eq_Some_conv split: option.splits)
    consider "r = None" | x where "x \<in> set (f L_TW)" "r = Some x" using kill_timewait_in [OF r D] by blast
    then show ?thesis
    proof cases
      case (2 x)
      then have "conn_state s x \<noteq> Some CLOSED" using lists_in(1) [OF L, of x] by auto
      then show ?thesis using abort_lists [OF cb P, of x s'] s' 2 by simp
    qed (use s' P in simp)
  qed
qed

section \<open>New control blocks\<close>

text \<open>
  A pool does not hand out an element that is in use: for the pool as it is, and for each of the three
  requests of \<open>tcp_alloc\<close>.
\<close>

definition pool_fresh :: "memp_t \<Rightarrow> ('f, 'w, 'a) stk \<Rightarrow> bool" where
  "pool_fresh t s \<longleftrightarrow> (\<forall>x s'. pcb_malloc t s = Some (Some x, s') \<longrightarrow> k_next s x = None)"

definition alloc_fresh :: "('f, 'w, 'a) stk_env \<Rightarrow> u8 \<Rightarrow> ('f, 'w, 'a) stk \<Rightarrow> bool" where
  "alloc_fresh E prio s \<longleftrightarrow> pool_fresh MEMP_TCP_PCB s \<and>
     (\<forall>s1 s2. pcb_malloc MEMP_TCP_PCB s = Some (None, s1) \<and> tcp_kill_timewait E s1 = Some s2 \<longrightarrow>
        pool_fresh MEMP_TCP_PCB s2 \<and>
        (\<forall>s3 s4. pcb_malloc MEMP_TCP_PCB s2 = Some (None, s3) \<and> tcp_kill_prio E prio s3 = Some s4 \<longrightarrow>
           pool_fresh MEMP_TCP_PCB s4))"

lemma pcb_malloc_fresh:
  "pcb_malloc t s = Some (r, s') \<Longrightarrow> pool_fresh t s \<Longrightarrow> r = Some x \<Longrightarrow> k_next s' x = None"
  using outline_eq(1) [OF pcb_malloc_frame, of t s r s'] unfolding pool_fresh_def by metis

text \<open>A new control block is closed and in no list.\<close>

lemma alloc_lists:
  assumes cb: "callbacks_ok E" and P: "pcb_lists_ok s" and fr: "alloc_fresh E prio s"
    and r: "tcp_alloc E prio s = Some (r, s')"
  shows "pcb_lists_ok s'" "\<And>x. r = Some x \<Longrightarrow> conn_state s' x = Some CLOSED \<and> conn_port s' x = Some 0"
proof -
  have "\<exists>s1. pcb_lists_ok s1 \<and> (case r of None \<Rightarrow> s' = s1 | Some x \<Rightarrow> k_next s1 x = None \<and>
      (let (iss, s1) = tcp_next_iss s1 in
       s' = (put_pcb x (tcp_pcb_init prio iss (k_ticks s1) (k_timer_ctr s1) CB_recv_null) s1)\<lparr>k_next := (k_next s1)(x \<mapsto> None)\<rparr>))"
  proof -
    obtain m1 s1 where m1: "pcb_malloc MEMP_TCP_PCB s = Some (m1, s1)"
      using r by (cases "pcb_malloc MEMP_TCP_PCB s") (auto simp: tcp_alloc_def)
    let ?R = "if m1 = None then do {
            s \<leftarrow> tcp_kill_timewait E s1;
            (x, s) \<leftarrow> pcb_malloc MEMP_TCP_PCB s;
            if x = None then do {
              s \<leftarrow> tcp_kill_prio E prio s;
              pcb_malloc MEMP_TCP_PCB s }
            else Some (x, s) }
          else Some (m1, s1)"
    let ?F = "\<lambda>(m, s). case m of None \<Rightarrow> Some (None, s) | Some x \<Rightarrow>
         let (iss, s) = tcp_next_iss s in
         Some (Some x, (put_pcb x (tcp_pcb_init prio iss (k_ticks s) (k_timer_ctr s) CB_recv_null) s)
                         \<lparr>k_next := (k_next s)(x \<mapsto> None)\<rparr>)"
    from r have rf: "Option.bind ?R ?F = Some (r, s')" unfolding tcp_alloc_def m1 by simp
    obtain z where z: "?R = Some z" "?F z = Some (r, s')" by (rule bindE [OF rf])
    obtain m s2 where ms: "z = (m, s2)" by (cases z)
    have m: "?R = Some (m, s2)" and fin: "?F (m, s2) = Some (r, s')" using z unfolding ms by blast+
    have P1: "pcb_lists_ok s1" using P pcb_lists_outline [OF pcb_malloc_frame [OF m1]] by simp
    have "pcb_lists_ok s2 \<and> (\<forall>x. m = Some x \<longrightarrow> k_next s2 x = None)"
    proof (cases m1)
      case (Some y)
      with m P1 pcb_malloc_fresh [OF m1, of y] fr show ?thesis by (auto simp: alloc_fresh_def)
    next
      case None
      with m obtain s3 m4 s4 where s3: "tcp_kill_timewait E s1 = Some s3" and m4: "pcb_malloc MEMP_TCP_PCB s3 = Some (m4, s4)"
        and m': "(if m4 = None then Option.bind (tcp_kill_prio E prio s4) (pcb_malloc MEMP_TCP_PCB) else Some (m4, s4)) = Some (m, s2)"
        by (auto simp: bind_eq_Some_conv)
      have F: "pool_fresh MEMP_TCP_PCB s3" "tcp_kill_prio E prio s4 = Some s5 \<Longrightarrow> m4 = None \<Longrightarrow> pool_fresh MEMP_TCP_PCB s5" for s5
        using fr m1 None s3 m4 unfolding alloc_fresh_def by blast+
      have P4: "pcb_lists_ok s4"
        using kill_lists(2) [OF cb P1 s3] pcb_lists_outline [OF pcb_malloc_frame [OF m4]] by simp
      show ?thesis
      proof (cases m4)
        case (Some y)
        with m' P4 pcb_malloc_fresh [OF m4 F(1)] show ?thesis by auto
      next
        case None
        with m' obtain s5 where s5: "tcp_kill_prio E prio s4 = Some s5" "pcb_malloc MEMP_TCP_PCB s5 = Some (m, s2)"
          by (auto simp: bind_eq_Some_conv)
        show ?thesis
          using kill_lists(1) [OF cb P4 s5(1)] pcb_lists_outline [OF pcb_malloc_frame [OF s5(2)]]
            pcb_malloc_fresh [OF s5(2) F(2) [OF s5(1) None]] by simp
      qed
    qed
    with fin show ?thesis by (intro exI [of _ s2]) (auto split: option.splits prod.splits)
  qed
  then obtain s1 where P1: "pcb_lists_ok s1" and s': "case r of None \<Rightarrow> s' = s1 | Some x \<Rightarrow> k_next s1 x = None \<and>
      (let (iss, s1) = tcp_next_iss s1 in
       s' = (put_pcb x (tcp_pcb_init prio iss (k_ticks s1) (k_timer_ctr s1) CB_recv_null) s1)\<lparr>k_next := (k_next s1)(x \<mapsto> None)\<rparr>)"
    by blast
  have c: "conn_state s' x = Some CLOSED \<and> conn_port s' x = Some 0" if "r = Some x" for x
    using s' that by (auto simp: tcp_next_iss_def put_pcb_def tcp_pcb_init_def pcb_zero_def)
  then show "\<And>x. r = Some x \<Longrightarrow> conn_state s' x = Some CLOSED \<and> conn_port s' x = Some 0" .
  show "pcb_lists_ok s'"
  proof (cases r)
    case None
    with s' P1 show ?thesis by simp
  next
    case (Some y)
    from P1 obtain f where L: "lists_ok f s1" unfolding pcb_lists_ok_def by blast
    from s' Some have n: "k_next s1 y = None" by simp
    then have e: "k_lpcbs s1 y = None" using listsD(4) [OF L, of y] by (simp add: placed_def)
    have "lists_but {y} f s'"
      by (rule fresh_lists [OF L n]) (use s' Some e in \<open>auto simp: tcp_next_iss_def put_pcb_def Let_def\<close>)
    from closed_lists [OF this] c [OF Some] show ?thesis unfolding pcb_lists_ok_def by auto
  qed
qed

end
