(* ===== verification/TcpListOpen.thy ===== *)
theory TcpListOpen
  imports TcpListClose
begin

text \<open>
  The lists of control blocks when one is bound, listens or connects (\<open>tcp_bind\<close>,
  \<open>tcp_listen_with_backlog\<close>, \<open>tcp_connect\<close>).
\<close>

section \<open>Binding, listening, connecting\<close>

lemma put_free:
  assumes L: "lists_but X f s" and x: "x \<in> X" and p: "k_pcbs s x = Some p"
  shows "lists_but X f (put_pcb x q s)"
proof -
  note D = listsD [OF L]
  have po: "placed f (put_pcb x q s) y" if "y \<notin> X" for y
    by (rule placed_other [OF D(4) [OF that]]) (use that x in \<open>auto simp: put_pcb_def\<close>)
  have link: "linked_lists f (put_pcb x q s)"
    by (rule linkedI) (use D(1, 2) in \<open>auto simp: put_pcb_def dest: D(3)\<close>)
  have "k_pcbs (put_pcb x q s) y = None \<or> k_lpcbs s y = None" if "y \<in> X" for y
    using D(7) [OF that] p by (auto simp: put_pcb_def)
  then show ?thesis
    unfolding lists_but_def using link po D(5, 6) by (auto simp: put_pcb_def)
qed

lemma new_port_frame: "tcp_new_port_loop n s = Some (r, s') \<Longrightarrow> outline s' = outline s"
proof -
  assume "tcp_new_port_loop n s = Some (r, s')"
  moreover have "tcp_new_port_loop n s = Some y \<Longrightarrow> outline (snd y) = outline s" for y
  proof (erule tcp_new_port_loop.raw_induct [where P = "\<lambda>n s y. outline (snd y) = outline s", rotated])
    fix g :: "u16 \<Rightarrow> ('a, 'b, 'c) stk \<Rightarrow> (u16 \<times> ('a, 'b, 'c) stk) option" and n s y
    assume IH: "\<And>n (s :: ('a, 'b, 'c) stk) y. g n s = Some y \<Longrightarrow> outline (snd y) = outline s"
    assume "(let port = if k_port s = 0xffff then 0xc000 else k_port s + 1; s = s\<lparr>k_port := port\<rparr>
         in Option.bind (find_lists (\<lambda>x. map_option (\<lambda>(lp, _). lp = port) (pcb_local s x)) s tcp_pcb_lists)
             (\<lambda>r. if r = None then Some (port, s) else if 0x3fff < n + 1 then Some (0, s) else g (n + 1) s)) = Some y"
    then show "outline (snd y) = outline s"
      by (auto simp: Let_def bind_eq_Some_conv split: if_splits dest!: IH)
  qed
  ultimately show ?thesis by fastforce
qed

lemma bind_lists:
  assumes P: "pcb_lists_ok s" and port: "conn_port s x = Some 0" and r: "tcp_bind x ip port s = Some (e, s')"
  shows "pcb_lists_ok s'"
proof -
  obtain f where L: "lists_ok f s" using P unfolding pcb_lists_ok_def by blast
  from r obtain pt s1 where st: "pcb_state s x = Some CLOSED"
    and s1: "(if port = 0 then tcp_new_port s else Some (port, s)) = Some (pt, s1)"
    and r1: "(if pt = 0 then Some (ERR_BUF, s1)
     else do {
       r \<leftarrow> find_lists (port_taken pt ip s1) s1 tcp_pcb_lists;
       if r \<noteq> None then Some (ERR_USE, s1)
       else do {
         s \<leftarrow> (case ip of Some a \<Rightarrow> if a \<noteq> 0 then upd_pcb x (\<lambda>p. p\<lparr>t_local_ip := a\<rparr>) s1 else Some s1
              | None \<Rightarrow> Some s1);
         s \<leftarrow> upd_pcb x (\<lambda>p. p\<lparr>t_local_port := pt\<rparr>) s;
         s \<leftarrow> TCP_REG L_BOUND x s;
         Some (ERR_OK, s) } }) = Some (e, s')"
    unfolding tcp_bind_def by (auto simp: bind_eq_Some_conv split: if_splits)
  have o1: "outline s1 = outline s"
    using s1 by (auto simp: tcp_new_port_def split: if_splits dest: new_port_frame)
  have L1: "lists_ok f s1" using L lists_outline [OF o1] by blast
  show ?thesis
  proof (cases "pt = 0 \<or> s' = s1")
    case True
    with r1 L1 show ?thesis unfolding pcb_lists_ok_def by (auto split: if_splits)
  next
    case False
    with r1 obtain s2 s3 where s2: "(case ip of Some a \<Rightarrow> if a \<noteq> 0 then upd_pcb x (\<lambda>p. p\<lparr>t_local_ip := a\<rparr>) s1 else Some s1
              | None \<Rightarrow> Some s1) = Some s2"
      and s3: "upd_pcb x (\<lambda>p. p\<lparr>t_local_port := pt\<rparr>) s2 = Some s3" and s': "TCP_REG L_BOUND x s3 = Some s'"
      by (auto simp: bind_eq_Some_conv split: if_splits)
    have o2: "outline s2 = outline s1" using s2 by (auto split: option.splits if_splits dest!: upd_pcb_frame)
    have L2: "lists_ok f s2" using L1 lists_outline [OF o2] by blast
    from s3 obtain p where p: "k_pcbs s2 x = Some p" and s3': "s3 = put_pcb x (p\<lparr>t_local_port := pt\<rparr>) s2"
      by (auto simp: upd_pcb_def bind_eq_Some_conv)
    have o: "outline s2 = outline s" using o1 o2 by simp
    have c: "t_state p = CLOSED" "t_local_port p = 0"
      using outline_eq(5, 6) [OF o, of x] p port pcb_state_other [OF st L] by auto
    have "lists_but {x} (f(L_BOUND := removeAll x (f L_BOUND))) s2"
      by (rule close_closed_lists(1) [OF L2 _ _ p, simplified]) (use c p in auto)
    from put_free [OF this _ p] have L3: "lists_but {x} (f(L_BOUND := removeAll x (f L_BOUND))) s3"
      unfolding s3' by simp
    have "k_lpcbs s3 x = None" using listsD(7) [OF L3, of x] by (simp add: s3' put_pcb_def)
    then have "\<exists>g. lists_ok g s'"
      using TCP_REG_lists(1) [OF L3 _ _ _ s'] False c by (auto simp: s3' put_pcb_def)
    then show ?thesis unfolding pcb_lists_ok_def .
  qed
qed

lemma put_lpcb_free:
  assumes L: "lists_but X f s" and x: "x \<in> X" and p: "k_pcbs s x = None"
  shows "lists_but X f (s\<lparr>k_lpcbs := (k_lpcbs s)(x \<mapsto> lp)\<rparr>)"
proof -
  note D = listsD [OF L]
  let ?s = "s\<lparr>k_lpcbs := (k_lpcbs s)(x \<mapsto> lp)\<rparr>"
  have po: "placed f ?s y" if "y \<notin> X" for y
    by (rule placed_other [OF D(4) [OF that]]) (use that x in auto)
  have link: "linked_lists f ?s" by (rule linkedI) (use D(1, 2) in \<open>auto dest: D(3)\<close>)
  have "k_pcbs s y = None \<or> k_lpcbs ?s y = None" if "y \<in> X" for y
    using D(7) [OF that] p by auto
  then show ?thesis unfolding lists_but_def using link po D(5, 6) by auto
qed

lemma listen_lists:
  assumes P: "pcb_lists_ok s" and fr: "pool_fresh MEMP_TCP_PCB_LISTEN s" and r: "tcp_listen_with_backlog x s = Some (lr, s')"
  shows "pcb_lists_ok s'"
proof -
  obtain f where L: "lists_ok f s" using P unfolding pcb_lists_ok_def by blast
  from r obtain p m s1 where st: "pcb_state s x = Some CLOSED" and p: "k_pcbs s x = Some p"
    and m: "pcb_malloc MEMP_TCP_PCB_LISTEN s = Some (m, s1)"
    and r1: "(case m of None \<Rightarrow> Some (None, s1)
     | Some l \<Rightarrow> do {
         let lp = \<lparr>lp_local_ip = t_local_ip p, lp_so_options = t_so_options p OR SOF_ACCEPTCONN,
                   lp_tos = t_tos p, lp_ttl = t_ttl p, lp_callback_arg = t_callback_arg p, lp_accept = None,
                   lp_state = LISTEN, lp_prio = t_prio p, lp_local_port = t_local_port p\<rparr>;
         let s = s1\<lparr>k_next := (k_next s1)(l \<mapsto> None)\<rparr>;
         s \<leftarrow> (if t_local_port p \<noteq> 0 then TCP_RMV L_BOUND x s else Some s);
         s \<leftarrow> free_pcb x s;
         let s = s\<lparr>k_lpcbs := (k_lpcbs s)(l \<mapsto> lp\<lparr>lp_accept := Some CB_accept_null\<rparr>)\<rparr>;
         s \<leftarrow> TCP_REG L_LISTEN l s;
         Some (Some l, s) }) = Some (lr, s')"
    unfolding tcp_listen_with_backlog_def by (auto simp: bind_eq_Some_conv split: if_splits)
  have o1: "outline s1 = outline s" by (rule pcb_malloc_frame [OF m])
  have L1: "lists_ok f s1" using L lists_outline [OF o1] by blast
  show ?thesis
  proof (cases m)
    case None
    with r1 L1 show ?thesis unfolding pcb_lists_ok_def by auto
  next
    case (Some l)
    let ?s1 = "s1\<lparr>k_next := (k_next s1)(l \<mapsto> None)\<rparr>"
    have n: "k_next s1 l = None" using pcb_malloc_fresh [OF m fr Some] .
    then have e: "k_pcbs s1 l = None" "k_lpcbs s1 l = None" using listsD(4) [OF L1, of l] by (auto simp: placed_def)
    have L2: "lists_but {l} f ?s1" by (rule fresh_lists [OF L1 n, simplified]) (use e in auto)
    from r1 [unfolded Some Let_def] obtain lp s2 s3 where s2: "(if t_local_port p \<noteq> 0 then TCP_RMV L_BOUND x ?s1 else Some ?s1) = Some s2"
      and s3: "free_pcb x s2 = Some s3"
      and s': "TCP_REG L_LISTEN l (s3\<lparr>k_lpcbs := (k_lpcbs s3)(l \<mapsto> lp)\<rparr>) = Some s'" and lp: "lp_state lp = LISTEN"
      by (auto simp: bind_eq_Some_conv)
    from outline_eq(4, 5) [OF o1, of x] p pcb_state_other [OF st L] obtain q where q: "k_pcbs s1 x = Some q" "t_state q = CLOSED"
      by auto
    have xl: "x \<noteq> l" using q e by auto
    have pq: "t_local_port q = t_local_port p" using outline_eq(6) [OF o1, of x] p q by simp
    let ?g = "f(L_BOUND := removeAll x (f L_BOUND))"
    have C1: "lists_but {x, l} ?g s2" "k_pcbs s2 = k_pcbs s1" "k_lpcbs s2 = k_lpcbs s1"
      using close_closed_lists [OF L2, of x q s2] q xl s2 pq by auto
    have L3: "lists_but {l} ?g s3"
      using free_pcb_lists [OF C1(1) _ s3] xl by (simp add: insert_Diff_if)
    have e3: "k_pcbs s3 l = None"
    proof -
      from s3 obtain s4 where "outline s4 = outline s2" "s3 = s4\<lparr>k_pcbs := (k_pcbs s4)(x := None), k_next := (k_next s4)(x := None)\<rparr>"
        by (auto simp: free_pcb_def bind_eq_Some_conv dest: on_low_frame)
      then show ?thesis using outline_eq(4) [of s4 s2 l] C1(2) e xl by simp
    qed
    have "lists_ok (?g(L_LISTEN := l # ?g L_LISTEN)) s'"
      using TCP_REG_lists(1) [OF put_lpcb_free [OF L3 _ e3] _ _ _ s'] lp e3 by simp
    then show ?thesis unfolding pcb_lists_ok_def by blast
  qed
qed

lemma move_active:
  assumes L: "lists_ok f s" and p: "k_pcbs s x = Some p" "t_state p = CLOSED" and b: "\<not> b \<Longrightarrow> x \<notin> set (f L_BOUND)"
    and r: "(if b then TCP_RMV L_BOUND x (put_pcb x q s) else Some (put_pcb x q s)) = Some s1"
  shows "lists_but {x} (f(L_BOUND := removeAll x (f L_BOUND))) s1" "k_pcbs s1 x = Some q" "k_lpcbs s1 x = None"
proof -
  note D = listsD [OF L]
  have only: "x \<notin> set (f l)" if "l \<noteq> L_BOUND" for l
    using lists_in(1, 3, 4) [OF L, of x] p that D(4) [of x] by (cases l) (auto simp: placed_def)
  have e: "k_lpcbs s x = None" using D(4) [of x] p by (simp add: placed_def)
  have "lists_but {x} (f(L_BOUND := removeAll x (f L_BOUND))) s1 \<and> k_pcbs s1 x = Some q \<and> k_lpcbs s1 x = None"
  proof (cases b)
    case True
    let ?s = "put_pcb x q s"
    have link: "linked_lists f ?s" by (rule linkedI) (use D(1, 2) in \<open>auto simp: put_pcb_def dest: D(3)\<close>)
    have po: "placed f ?s y" if "y \<notin> insert x {}" for y
      by (rule placed_other [OF D(4)]) (use that in \<open>auto simp: put_pcb_def\<close>)
    note G = TCP_RMV_gen [where X = "{}" and s' = s1, OF link po _ _ only, simplified]
    show ?thesis using G(1, 2, 3) r True e by (simp add: put_pcb_def)
  next
    case False
    have n: "x \<notin> set (f l)" for l using only b [OF False] by (cases "l = L_BOUND") auto
    then have "f(L_BOUND := removeAll x (f L_BOUND)) = f" by (simp add: fun_upd_idem)
    with put_free [OF unlist_lists [OF L _ n] _ p(1)] p r False e show ?thesis by (auto simp: put_pcb_def)
  qed
  then show "lists_but {x} (f(L_BOUND := removeAll x (f L_BOUND))) s1" "k_pcbs s1 x = Some q" "k_lpcbs s1 x = None"
    by auto
qed

lemma upd_closed_lists:
  assumes L: "lists_ok f s" and c: "conn_state s x = Some CLOSED" and r: "upd_pcb x g s = Some s'"
    and g: "\<And>p. k_pcbs s x = Some p \<Longrightarrow> t_state (g p) = t_state p \<and> (t_local_port (g p) = 0 \<longrightarrow> t_local_port p = 0)"
  shows "lists_ok f s'" "conn_state s' x = Some CLOSED"
proof -
  from r c obtain p where p: "k_pcbs s x = Some p" "t_state p = CLOSED" and s': "s' = put_pcb x (g p) s"
    by (auto simp: upd_pcb_def bind_eq_Some_conv)
  show "lists_ok f s'" unfolding s' by (rule put_closed [OF L _ p]) (use g [OF p(1)] p in auto)
  show "conn_state s' x = Some CLOSED" using g [OF p(1)] p by (simp add: s' put_pcb_def)
qed

text \<open>The end of \<open>tcp_connect\<close>: the SYN is queued, the control block becomes active.\<close>

lemma connect_end_lists:
  assumes L: "lists_ok f s" and c: "conn_state s x = Some CLOSED" and old: "old = 0 \<Longrightarrow> x \<notin> set (f L_BOUND)"
    and r: "(do {
       (ret, s) \<leftarrow> with_pcb x (\<lambda>p l. do {
          (ret, p, n) \<leftarrow> tcp_enqueue_flags cff p fl (l_net l);
          Some (ret, p, l\<lparr>l_net := n\<rparr>) }) s;
       if ret = ERR_OK then do {
         s \<leftarrow> set_state x SYN_SENT s;
         s \<leftarrow> (if old \<noteq> 0 then TCP_RMV L_BOUND x s else Some s);
         s \<leftarrow> TCP_REG_ACTIVE x s;
         (_, s) \<leftarrow> k_output E x s;
         Some (ret, s) }
       else Some (ret, s) }) = Some (e, s')"
  shows "pcb_lists_ok s'"
proof -
  from r obtain ret s1 where s1: "with_pcb x (\<lambda>p l. do {
          (ret, p, n) \<leftarrow> tcp_enqueue_flags cff p fl (l_net l);
          Some (ret, p, l\<lparr>l_net := n\<rparr>) }) s = Some (ret, s1)"
    and r1: "(if ret = ERR_OK then do {
         s \<leftarrow> set_state x SYN_SENT s1;
         s \<leftarrow> (if old \<noteq> 0 then TCP_RMV L_BOUND x s else Some s);
         s \<leftarrow> TCP_REG_ACTIVE x s;
         (_, s) \<leftarrow> k_output E x s;
         Some (ret, s) }
       else Some (ret, s1)) = Some (e, s')"
    by (rule bindE) auto
  have o1: "outline s1 = outline s"
    by (rule with_pcb_frame [OF s1]) (auto simp: bind_eq_Some_conv dest: enqueue_flags_conn)
  have L1: "lists_ok f s1" using L lists_outline [OF o1] by blast
  from outline_eq(5) [OF o1, of x] c obtain p where p: "k_pcbs s1 x = Some p" "t_state p = CLOSED" by auto
  show ?thesis
  proof (cases "ret = ERR_OK")
    case False
    with r1 L1 show ?thesis unfolding pcb_lists_ok_def by auto
  next
    case True
    let ?q = "p\<lparr>t_state := SYN_SENT\<rparr>"
    from r1 True p obtain s2 s3 s4 z where s2: "(if old \<noteq> 0 then TCP_RMV L_BOUND x (put_pcb x ?q s1) else Some (put_pcb x ?q s1)) = Some s2"
      and s3: "TCP_REG L_ACTIVE x s2 = Some s3" and s4: "k_output E x (s3\<lparr>k_changed := True\<rparr>) = Some (z, s')"
      by (auto simp: set_state_def TCP_REG_ACTIVE_def bind_eq_Some_conv)
    note M = move_active [OF L1 p old s2, simplified]
    from TCP_REG_lists(1) [OF M(1) _ _ _ s3] M(2, 3) have "pcb_lists_ok s3" unfolding pcb_lists_ok_def by auto
    moreover have "outline s' = outline s3" using k_output_frame [OF s4] by simp
    ultimately show ?thesis using pcb_lists_outline by blast
  qed
qed

lemma connect_lists:
  assumes P: "pcb_lists_ok s" and r: "tcp_connect E x ip port cb s = Some (e, s')"
  shows "pcb_lists_ok s'"
proof -
  obtain f where L: "lists_ok f s" using P unfolding pcb_lists_ok_def by blast
  from r have st: "pcb_state s x = Some CLOSED" unfolding tcp_connect_def by (auto simp: bind_eq_Some_conv split: if_splits)
  have c: "conn_state s x = Some CLOSED" using pcb_state_other [OF st L] by simp
  show ?thesis
  proof (cases ip)
    case None
    with r P show ?thesis unfolding tcp_connect_def by (auto simp: bind_eq_Some_conv split: if_splits)
  next
    case (Some a)
    with r st obtain s1 where s1: "upd_pcb x (\<lambda>p. p\<lparr>t_remote_ip := a, t_remote_port := port\<rparr>) s = Some s1"
      unfolding tcp_connect_def by (auto simp: bind_eq_Some_conv)
    have U1: "lists_ok f s1" "conn_state s1 x = Some CLOSED" by (rule upd_closed_lists [OF L c s1]; simp)+
    from U1(2) obtain p where p: "k_pcbs s1 x = Some p" "t_state p = CLOSED" by auto
    let ?old = "t_local_port p"
    let ?lip = "if t_local_ip p = 0 then map_option netif.nif_ip_addr (te_route (ce_low E) a (l_ip (k_low s1))) else Some (t_local_ip p)"
    show ?thesis
    proof (cases ?lip)
      case None
      with r st s1 p Some U1 show ?thesis unfolding tcp_connect_def pcb_lists_ok_def by (auto simp: bind_eq_Some_conv)
    next
      case lip: (Some lip)
      define cont where "cont = (\<lambda>(lport :: u16, s). do {
             s \<leftarrow> upd_pcb x (\<lambda>p. p\<lparr>t_local_port := lport\<rparr>) s;
             if lport = 0 then Some (ERR_BUF, s)
             else do {
               let (iss, s) = tcp_next_iss s;
               s \<leftarrow> upd_pcb x (connect_init (ce_low E) iss a cb (k_low s)) s;
               (ret, s) \<leftarrow> with_pcb x (\<lambda>p l. do {
                  (ret, p, n) \<leftarrow> tcp_enqueue_flags (ce_cff E) p TCP_SYN (l_net l);
                  Some (ret, p, l\<lparr>l_net := n\<rparr>) }) s;
               if ret = ERR_OK then do {
                 s \<leftarrow> set_state x SYN_SENT s;
                 s \<leftarrow> (if ?old \<noteq> 0 then TCP_RMV L_BOUND x s else Some s);
                 s \<leftarrow> TCP_REG_ACTIVE x s;
                 (_, s) \<leftarrow> k_output E x s;
                 Some (ret, s) }
               else Some (ret, s) } })"
      from r st s1 p Some lip obtain s2 where s2: "upd_pcb x (\<lambda>p. p\<lparr>t_local_ip := lip\<rparr>) s1 = Some s2"
        unfolding tcp_connect_def by (auto simp: bind_eq_Some_conv)
      have r2: "Option.bind (if ?old = 0 then tcp_new_port s2 else Some (?old, s2)) cont = Some (e, s')"
        using r st s1 p Some lip s2 unfolding tcp_connect_def cont_def Let_def by simp
      have U2: "lists_ok f s2" "conn_state s2 x = Some CLOSED" by (rule upd_closed_lists [OF U1 s2]; simp)+
      from r2 obtain lport s3 where s3: "(if ?old = 0 then tcp_new_port s2 else Some (?old, s2)) = Some (lport, s3)"
        and r3: "cont (lport, s3) = Some (e, s')" by (rule bindE) auto
      have o3: "outline s3 = outline s2" using s3 by (auto simp: tcp_new_port_def split: if_splits dest: new_port_frame)
      have L3: "lists_ok f s3" "conn_state s3 x = Some CLOSED" using U2 lists_outline [OF o3] outline_eq(5) [OF o3] by auto
      have port3: "conn_port s3 x = Some ?old"
        using outline_eq(6) [OF o3, of x] s2 p by (auto simp: upd_pcb_def put_pcb_def)
      from r3 obtain s4 where s4: "upd_pcb x (\<lambda>p. p\<lparr>t_local_port := lport\<rparr>) s3 = Some s4"
        unfolding cont_def by (auto simp: bind_eq_Some_conv)
      note U4 = upd_closed_lists [OF L3 s4]
      have L4: "lists_ok f s4" "conn_state s4 x = Some CLOSED"
        by (rule U4; use port3 s3 in \<open>auto split: if_splits\<close>)+
      show ?thesis
      proof (cases "lport = 0")
        case True
        with r3 s4 L4 show ?thesis unfolding cont_def pcb_lists_ok_def by auto
      next
        case False
        obtain iss s5 where iss: "tcp_next_iss s4 = (iss, s5)" by (cases "tcp_next_iss s4")
        then have o5: "outline s5 = outline s4" by (auto simp: tcp_next_iss_def Let_def)
        have L5: "lists_ok f s5" "conn_state s5 x = Some CLOSED" using L4 lists_outline [OF o5] outline_eq(5) [OF o5] by auto
        from r3 s4 False iss obtain s6 where s6: "upd_pcb x (connect_init (ce_low E) iss a cb (k_low s5)) s5 = Some s6"
          and r6: "do {
               (ret, s) \<leftarrow> with_pcb x (\<lambda>p l. do {
                  (ret, p, n) \<leftarrow> tcp_enqueue_flags (ce_cff E) p TCP_SYN (l_net l);
                  Some (ret, p, l\<lparr>l_net := n\<rparr>) }) s6;
               if ret = ERR_OK then do {
                 s \<leftarrow> set_state x SYN_SENT s;
                 s \<leftarrow> (if ?old \<noteq> 0 then TCP_RMV L_BOUND x s else Some s);
                 s \<leftarrow> TCP_REG_ACTIVE x s;
                 (_, s) \<leftarrow> k_output E x s;
                 Some (ret, s) }
               else Some (ret, s) } = Some (e, s')"
          unfolding cont_def by (auto simp: bind_eq_Some_conv)
        note U6 = upd_closed_lists [OF L5 s6]
        have L6: "lists_ok f s6" "conn_state s6 x = Some CLOSED"
          by (rule U6; simp add: connect_init_def Let_def)+
        have "x \<notin> set (f L_BOUND)" if "?old = 0"
          using lists_in(5) [OF U1(1), of x] p that by auto
        from connect_end_lists [OF L6 this r6] show ?thesis .
      qed
    qed
  qed
qed

end
