(* ===== verification/TcpListProc.thy ===== *)
theory TcpListProc
  imports TcpListOpen
begin

text \<open>
  The lists of control blocks under the state machine of \<open>tcp_process\<close>, with the callbacks that
  it makes; and what a segment that ends a connection leaves to \<open>tcp_input\<close>.
\<close>

section \<open>The state machine\<close>

definition is_active :: "('f, 'w, 'a) stk \<Rightarrow> nat \<Rightarrow> bool" where
  "is_active s x \<longleftrightarrow> (case conn_state s x of None \<Rightarrow> False | Some st \<Rightarrow> st \<notin> {CLOSED, LISTEN, TIME_WAIT})"

lemma is_active_outline: "outline s' = outline s \<Longrightarrow> is_active s' x = is_active s x"
  using outline_eq(5) [of s' s x] by (simp add: is_active_def)

lemma is_active_in: "lists_ok f s \<Longrightarrow> is_active s x \<longleftrightarrow> x \<in> set (f L_ACTIVE)"
  using lists_in(2, 3) [of "{}" f s x] by (auto simp: is_active_def split: option.splits)

lemma is_active_open: "is_active s x \<Longrightarrow> conn_state s x \<noteq> Some CLOSED"
  by (auto simp: is_active_def)

lemma put_active_ok:
  assumes "pcb_lists_ok s" "is_active s x" "t_state q \<notin> {CLOSED, LISTEN, TIME_WAIT}"
  shows "pcb_lists_ok (put_pcb x q s)" "is_active (put_pcb x q s) x"
proof -
  obtain f where L: "lists_ok f s" using assms(1) unfolding pcb_lists_ok_def by blast
  show "pcb_lists_ok (put_pcb x q s)"
    using put_active [OF L _ _ assms(3), of x] assms(2) is_active_in [OF L] unfolding pcb_lists_ok_def by auto
  show "is_active (put_pcb x q s) x" using assms(3) by (simp add: is_active_def put_pcb_def)
qed

lemma upd_active_ok:
  assumes "pcb_lists_ok s" "is_active s x" "upd_pcb x g s = Some s'" "\<And>p. t_state (g p) \<notin> {CLOSED, LISTEN, TIME_WAIT}"
  shows "pcb_lists_ok s'" "is_active s' x"
  using assms put_active_ok [OF assms(1, 2)] by (auto simp: upd_pcb_def bind_eq_Some_conv)

lemma set_state_active_ok:
  assumes "pcb_lists_ok s" "is_active s x" "set_state x st s = Some s'" "st \<notin> {CLOSED, LISTEN, TIME_WAIT}"
  shows "pcb_lists_ok s'" "is_active s' x"
proof -
  obtain p where "k_pcbs s x = Some p" using assms(2) by (auto simp: is_active_def split: option.splits)
  with assms(3) have s': "s' = put_pcb x (p\<lparr>t_state := st\<rparr>) s" by (simp add: set_state_def)
  show "pcb_lists_ok s'" "is_active s' x" unfolding s' using put_active_ok [OF assms(1, 2)] assms(4) by auto
qed

lemma to_time_wait_ok:
  assumes "pcb_lists_ok s" "is_active s x" "to_time_wait E x s = Some s'"
  shows "pcb_lists_ok s' \<and> conn_state s' x = Some TIME_WAIT"
proof -
  obtain f where L: "lists_ok f s" using assms(1) unfolding pcb_lists_ok_def by blast
  show ?thesis
    using to_time_wait_lists [OF L _ assms(3)] assms(2) is_active_in [OF L] unfolding pcb_lists_ok_def by blast
qed

lemma receive_frame [stk_frame]: "k_receive E x s = Some s' \<Longrightarrow> outline s' = outline s"
  by (auto simp: k_receive_def bind_eq_Some_conv dest!: with_pcb_frame [OF _ receive_conn])

lemma rst_reply_frame [stk_frame]: "rst_reply E s = Some s' \<Longrightarrow> outline s' = outline s"
  by (auto simp: rst_reply_def Let_def bind_eq_Some_conv dest!: on_low_frame)

lemma process_rst_frame [stk_frame]: "process_rst x p s = Some (e, s') \<Longrightarrow> outline s' = outline s"
  by (auto simp: process_rst_def Let_def bind_eq_Some_conv split: if_splits dest!: upd_pcb_frame)

text \<open>What a step of the state machine leaves: the lists in order, and the connection not closed.\<close>

abbreviation (input) step_ok :: "nat \<Rightarrow> err_t \<Rightarrow> ('f, 'w, 'a) stk \<Rightarrow> bool" where
  "step_ok x e s' \<equiv> pcb_lists_ok s' \<and> (e \<noteq> ERR_ABRT \<longrightarrow> conn_state s' x \<noteq> Some CLOSED)"

lemma step_ok_frame: "outline s' = outline s \<Longrightarrow> step_ok x e s \<Longrightarrow> step_ok x e s'"
  using pcb_lists_outline [of s' s] outline_eq(5) [of s' s x] by simp

lemma active_step_ok: "pcb_lists_ok s \<Longrightarrow> is_active s x \<Longrightarrow> step_ok x e s"
  by (auto simp: is_active_def)

lemma syn_acked_frame: "syn_acked cff r n = Some (q, n') \<Longrightarrow> t_state q = t_state r"
  by (erule ret_fst [where P = "\<lambda>q. t_state q = t_state r"], unfold syn_acked_def Let_def, intro ret_all) auto

lemma syn_acked_state: "syn_acked cff (syn_sent_pcb L v wnd l p) n = Some (q, n') \<Longrightarrow> t_state q = ESTABLISHED"
  by (drule syn_acked_frame) (simp add: syn_sent_pcb_def Let_def)

text \<open>A callback is a function of the application or one of the defaults.\<close>

lemma ret_cb:
  "(c = CB_recv_null \<Longrightarrow> pred_option P m) \<Longrightarrow> (c = CB_accept_null \<Longrightarrow> pred_option P n) \<Longrightarrow>
   (\<And>g. c = CB_user g \<Longrightarrow> pred_option P (h g)) \<Longrightarrow>
   pred_option P (case c of CB_recv_null \<Rightarrow> m | CB_accept_null \<Rightarrow> n | CB_user g \<Rightarrow> h g)"
  by (cases c) auto

lemma ret_pair: "m = Some (x, y) \<Longrightarrow> pred_option (\<lambda>(x, y). P x y) m \<Longrightarrow> P x y" by simp

lemma event_accept_cases:
  "EVENT_ACCEPT E x e0 s = Some (e, s') \<Longrightarrow> s' = s \<and> e \<noteq> ERR_OK \<or> (\<exists>g arg. ce_accept E g arg x e0 s = Some (e, s'))"
  by (erule ret_pair [where P = "\<lambda>e s'. s' = s \<and> e \<noteq> ERR_OK \<or> (\<exists>g arg. ce_accept E g arg x e0 s = Some (e, s'))"],
      unfold EVENT_ACCEPT_def, intro ret_all ret_cb) (auto intro!: ret_call)

lemma event_connected_cases:
  "EVENT_CONNECTED E x e0 s = Some (e, s') \<Longrightarrow> s' = s \<or> (\<exists>g arg. ce_connected E g arg x e0 s = Some (e, s'))"
  by (erule ret_pair [where P = "\<lambda>e s'. s' = s \<or> (\<exists>g arg. ce_connected E g arg x e0 s = Some (e, s'))"],
      unfold EVENT_CONNECTED_def, intro ret_all ret_cb) (auto intro!: ret_call)

lemma event_sent_cases:
  "EVENT_SENT E x n s = Some (e, s') \<Longrightarrow> s' = s \<or> (\<exists>g arg. ce_sent E g arg x n s = Some (e, s'))"
  by (erule ret_pair [where P = "\<lambda>e s'. s' = s \<or> (\<exists>g arg. ce_sent E g arg x n s = Some (e, s'))"],
      unfold EVENT_SENT_def, intro ret_all ret_cb) (auto intro!: ret_call)

lemma event_poll_cases:
  "EVENT_POLL E x s = Some (e, s') \<Longrightarrow> s' = s \<or> (\<exists>g arg. ce_poll E g arg x s = Some (e, s'))"
  by (erule ret_pair [where P = "\<lambda>e s'. s' = s \<or> (\<exists>g arg. ce_poll E g arg x s = Some (e, s'))"],
      unfold EVENT_POLL_def, intro ret_all ret_cb) (auto intro!: ret_call)

lemma event_recv_cases:
  "EVENT_RECV E x p e0 s = Some (e, s') \<Longrightarrow>
     tcp_recv_null E x p e0 s = Some (e, s') \<or> (\<exists>g arg. ce_recv E g arg x p e0 s = Some (e, s'))"
  by (erule ret_pair [where P = "\<lambda>e s'. tcp_recv_null E x p e0 s = Some (e, s') \<or> (\<exists>g arg. ce_recv E g arg x p e0 s = Some (e, s'))"],
      unfold EVENT_RECV_def call_recv_def, intro ret_all ret_cb) (auto intro!: ret_call)

lemma event_closed_cases:
  "EVENT_CLOSED E x s = Some (e, s') \<Longrightarrow>
     s' = s \<or> tcp_recv_null E x None ERR_OK s = Some (e, s') \<or> (\<exists>g arg. ce_recv E g arg x None ERR_OK s = Some (e, s'))"
  by (erule ret_pair [where P = "\<lambda>e s'. s' = s \<or> tcp_recv_null E x None ERR_OK s = Some (e, s') \<or>
        (\<exists>g arg. ce_recv E g arg x None ERR_OK s = Some (e, s'))"],
      unfold EVENT_CLOSED_def call_recv_def, intro ret_all ret_cb) (auto intro!: ret_call)

lemma callbacksD:
  assumes "callbacks_ok E" and "pcb_lists_ok s" and "conn_state s x \<noteq> Some CLOSED"
  shows "ce_accept E g arg x e0 s = Some (e, s') \<Longrightarrow> pcb_lists_ok s' \<and> k_in s' = k_in s \<and>
      (e \<noteq> ERR_ABRT \<longrightarrow> conn_state s' x \<noteq> Some CLOSED \<and> conn_state s' x \<noteq> Some TIME_WAIT)"
    "ce_sent E g arg x n s = Some (e, s') \<Longrightarrow> pcb_lists_ok s' \<and> k_in s' = k_in s \<and> (e \<noteq> ERR_ABRT \<longrightarrow> conn_state s' x \<noteq> Some CLOSED)"
    "ce_recv E g arg x p e0 s = Some (e, s') \<Longrightarrow> pcb_lists_ok s' \<and> k_in s' = k_in s \<and> (e \<noteq> ERR_ABRT \<longrightarrow> conn_state s' x \<noteq> Some CLOSED)"
    "ce_connected E g arg x e0 s = Some (e, s') \<Longrightarrow> pcb_lists_ok s' \<and> k_in s' = k_in s \<and> (e \<noteq> ERR_ABRT \<longrightarrow> conn_state s' x \<noteq> Some CLOSED)"
    "ce_poll E g arg x s = Some (e, s') \<Longrightarrow> pcb_lists_ok s' \<and> k_in s' = k_in s \<and> (e \<noteq> ERR_ABRT \<longrightarrow> conn_state s' x \<noteq> Some CLOSED)"
proof -
  have "callback_keeps x {CLOSED, TIME_WAIT} s (ce_accept E g arg x e0 s)" "callback_keeps x {CLOSED} s (ce_sent E g arg x n s)"
    "callback_keeps x {CLOSED} s (ce_recv E g arg x p e0 s)" "callback_keeps x {CLOSED} s (ce_connected E g arg x e0 s)"
    "callback_keeps x {CLOSED} s (ce_poll E g arg x s)"
    using assms(1) by (simp_all add: callbacks_ok_def)
  note K = this [unfolded callback_keeps_def, rule_format, OF conjI, OF assms(2) conjI, OF assms(3)]
  show "ce_accept E g arg x e0 s = Some (e, s') \<Longrightarrow> pcb_lists_ok s' \<and> k_in s' = k_in s \<and>
      (e \<noteq> ERR_ABRT \<longrightarrow> conn_state s' x \<noteq> Some CLOSED \<and> conn_state s' x \<noteq> Some TIME_WAIT)" using K(1) by blast
  show "ce_sent E g arg x n s = Some (e, s') \<Longrightarrow> pcb_lists_ok s' \<and> k_in s' = k_in s \<and> (e \<noteq> ERR_ABRT \<longrightarrow> conn_state s' x \<noteq> Some CLOSED)" using K(2) by blast
  show "ce_recv E g arg x p e0 s = Some (e, s') \<Longrightarrow> pcb_lists_ok s' \<and> k_in s' = k_in s \<and> (e \<noteq> ERR_ABRT \<longrightarrow> conn_state s' x \<noteq> Some CLOSED)" using K(3) by blast
  show "ce_connected E g arg x e0 s = Some (e, s') \<Longrightarrow> pcb_lists_ok s' \<and> k_in s' = k_in s \<and> (e \<noteq> ERR_ABRT \<longrightarrow> conn_state s' x \<noteq> Some CLOSED)" using K(4) by blast
  show "ce_poll E g arg x s = Some (e, s') \<Longrightarrow> pcb_lists_ok s' \<and> k_in s' = k_in s \<and> (e \<noteq> ERR_ABRT \<longrightarrow> conn_state s' x \<noteq> Some CLOSED)" using K(5) by blast
qed

lemma process_syn_sent_ok:
  assumes cb: "callbacks_ok E" and P: "pcb_lists_ok s" and a: "is_active s x"
    and r: "process_syn_sent E x s = Some (e, s')"
  shows "step_ok x e s'"
proof -
  have "outline s' = outline s \<or> (\<exists>wnd s1 s2 e1. with_pcb1 x (\<lambda>p l. do {
              (p, n) \<leftarrow> syn_acked (ce_cff E) (syn_sent_pcb (ce_low E) (k_in s) wnd l p) (l_net l);
              Some (p, l\<lparr>l_net := n\<rparr>) }) s = Some s1 \<and> EVENT_CONNECTED E x ERR_OK s1 = Some (e1, s2) \<and>
       (if e1 = ERR_ABRT then e = ERR_ABRT \<and> s' = s2 else upd_pcb x tcp_ack_now s2 = Some s'))"
    using r unfolding process_syn_sent_def Let_def
    by (auto simp: bind_eq_Some_conv split: if_splits dest!: rst_reply_frame)
  then show ?thesis
  proof
    assume "outline s' = outline s"
    then show ?thesis using step_ok_frame active_step_ok [OF P a] by blast
  next
    assume "\<exists>wnd s1 s2 e1. with_pcb1 x (\<lambda>p l. do {
              (p, n) \<leftarrow> syn_acked (ce_cff E) (syn_sent_pcb (ce_low E) (k_in s) wnd l p) (l_net l);
              Some (p, l\<lparr>l_net := n\<rparr>) }) s = Some s1 \<and> EVENT_CONNECTED E x ERR_OK s1 = Some (e1, s2) \<and>
       (if e1 = ERR_ABRT then e = ERR_ABRT \<and> s' = s2 else upd_pcb x tcp_ack_now s2 = Some s')"
    then obtain wnd s1 s2 e1 where s1: "with_pcb1 x (\<lambda>p l. do {
              (p, n) \<leftarrow> syn_acked (ce_cff E) (syn_sent_pcb (ce_low E) (k_in s) wnd l p) (l_net l);
              Some (p, l\<lparr>l_net := n\<rparr>) }) s = Some s1" and s2: "EVENT_CONNECTED E x ERR_OK s1 = Some (e1, s2)"
      and s': "if e1 = ERR_ABRT then e = ERR_ABRT \<and> s' = s2 else upd_pcb x tcp_ack_now s2 = Some s'" by blast
    from s1 obtain q l where s1': "s1 = (put_pcb x q s)\<lparr>k_low := l\<rparr>" and q: "t_state q = ESTABLISHED"
      by (auto simp: with_pcb1_def bind_eq_Some_conv dest!: syn_acked_state)
    have o: "outline s1 = outline (put_pcb x q s)" by (simp add: s1')
    have P1: "pcb_lists_ok s1" "is_active s1 x"
      using put_active_ok [OF P a, of q] q pcb_lists_outline [OF o] is_active_outline [OF o] by auto
    have K: "step_ok x e1 s2"
      using event_connected_cases [OF s2] callbacksD(4) [OF cb P1(1) is_active_open [OF P1(2)]] P1 is_active_open by blast
    show ?thesis
    proof (cases "e1 = ERR_ABRT")
      case False
      with s' have u: "upd_pcb x tcp_ack_now s2 = Some s'" by simp
      have o: "outline s' = outline s2" by (rule upd_pcb_frame [OF u]) simp
      show ?thesis using step_ok_frame [OF o] K False by blast
    qed (use K s' in simp)
  qed
qed

lemma event_accept_ok:
  assumes cb: "callbacks_ok E" and P: "pcb_lists_ok s" and a: "is_active s x"
    and r: "EVENT_ACCEPT E x e0 s = Some (e, s')"
  shows "pcb_lists_ok s'" "e \<noteq> ERR_ABRT \<Longrightarrow> conn_state s' x \<noteq> Some CLOSED \<and> conn_state s' x \<noteq> Some TIME_WAIT"
    "k_in s' = k_in s"
proof -
  have open_: "conn_state s x \<noteq> Some CLOSED \<and> conn_state s x \<noteq> Some TIME_WAIT"
    using a by (auto simp: is_active_def)
  have "pcb_lists_ok s' \<and> (e \<noteq> ERR_ABRT \<longrightarrow> conn_state s' x \<noteq> Some CLOSED \<and> conn_state s' x \<noteq> Some TIME_WAIT) \<and> k_in s' = k_in s"
    using event_accept_cases [OF r] callbacksD(1) [OF cb P conjunct1 [OF open_]] P open_ by blast
  then show "pcb_lists_ok s'" "e \<noteq> ERR_ABRT \<Longrightarrow> conn_state s' x \<noteq> Some CLOSED \<and> conn_state s' x \<noteq> Some TIME_WAIT"
    "k_in s' = k_in s" by auto
qed

lemma open_active:
  assumes "pcb_lists_ok s" "conn_state s x \<noteq> Some CLOSED" "conn_state s x \<noteq> Some TIME_WAIT" "k_pcbs s x \<noteq> None"
  shows "is_active s x"
proof -
  obtain f where L: "lists_ok f s" using assms(1) unfolding pcb_lists_ok_def by blast
  show ?thesis using assms lists_in(6) [OF L, of x] by (auto simp: is_active_def)
qed

text \<open>\<open>tcp_receive\<close>, and the change to CLOSE-WAIT when there was a FIN.\<close>

lemma to_close_wait_ok:
  assumes P: "pcb_lists_ok s" and a: "is_active s x"
    and r: "(if b then upd_pcb x (\<lambda>p. (tcp_ack_now p)\<lparr>t_state := CLOSE_WAIT\<rparr>) s else Some s) = Some s'"
  shows "pcb_lists_ok s'" "is_active s' x"
  using r upd_active_ok [OF P a] P a by (auto split: if_splits)

lemma process_accepted_ok:
  assumes cb: "callbacks_ok E" and P: "pcb_lists_ok s" and a: "is_active s x"
    and r: "process_accepted E x s = Some (e, s')"
  shows "step_ok x e s'"
proof -
  from r obtain s1 e1 s2 where s1: "set_state x ESTABLISHED s = Some s1" and s2: "EVENT_ACCEPT E x ERR_OK s1 = Some (e1, s2)"
    and rest: "(if e1 \<noteq> ERR_OK then do {
       s \<leftarrow> (if e1 \<noteq> ERR_ABRT then tcp_abort E x s2 else Some s2);
       Some (ERR_ABRT, s) }
     else do {
       p \<leftarrow> k_pcbs s2 x;
       let old_cwnd = t_cwnd p;
       s \<leftarrow> k_receive E x s2;
       s \<leftarrow> upd_pcb x (\<lambda>p. p\<lparr>t_acked := (if t_acked p \<noteq> 0 then t_acked p - 1 else 0),
              t_cwnd := (if old_cwnd = 1 then t_mss p * 2 else t_mss p)\<rparr>) s;
       s \<leftarrow> (if got_fin s then upd_pcb x (\<lambda>p. (tcp_ack_now p)\<lparr>t_state := CLOSE_WAIT\<rparr>) s else Some s);
       Some (ERR_OK, s) }) = Some (e, s')"
    unfolding process_accepted_def by (elim bindE, auto simp: bind_eq_Some_conv split: if_splits)
  note P1 = set_state_active_ok [OF P a s1, simplified]
  note A = event_accept_ok [OF cb P1 s2]
  show ?thesis
  proof (cases "e1 = ERR_OK")
    case False
    show ?thesis
    proof (cases "e1 = ERR_ABRT")
      case True
      with False rest A(1) show ?thesis by auto
    next
      case F: False
      with False rest obtain "tcp_abort E x s2 = Some s'" "e = ERR_ABRT" by (auto simp: bind_eq_Some_conv)
      with abort_lists [OF cb A(1)] A(2) [OF F] show ?thesis by blast
    qed
  next
    case True
    with rest obtain p s3 s4 where p: "k_pcbs s2 x = Some p" and s3: "k_receive E x s2 = Some s3"
      and s4: "upd_pcb x (\<lambda>q. q\<lparr>t_acked := (if t_acked q \<noteq> 0 then t_acked q - 1 else 0),
              t_cwnd := (if t_cwnd p = 1 then t_mss q * 2 else t_mss q)\<rparr>) s3 = Some s4"
      and s5: "(if got_fin s4 then upd_pcb x (\<lambda>p. (tcp_ack_now p)\<lparr>t_state := CLOSE_WAIT\<rparr>) s4 else Some s4) = Some s'"
      by (auto simp: bind_eq_Some_conv Let_def)
    have a2: "is_active s2 x" using open_active [OF A(1)] A(2) True p by auto
    have o: "outline s4 = outline s2" using upd_pcb_frame [OF s4] receive_frame [OF s3] by simp
    have "pcb_lists_ok s4" "is_active s4 x" using A(1) a2 pcb_lists_outline [OF o] is_active_outline [OF o] by auto
    from to_close_wait_ok [OF this s5] show ?thesis using active_step_ok by blast
  qed
qed

lemma process_syn_rcvd_ok:
  assumes cb: "callbacks_ok E" and P: "pcb_lists_ok s" and a: "is_active s x"
    and r: "process_syn_rcvd E x s = Some (e, s')"
  shows "step_ok x e s'"
proof -
  have "outline s' = outline s \<or> process_accepted E x s = Some (e, s')"
    using r unfolding process_syn_rcvd_def Let_def
    by (auto simp: bind_eq_Some_conv split: if_splits dest!: rst_reply_frame rexmit_conn intro: outline_put)
  then show ?thesis
    using process_accepted_ok [OF cb P a] step_ok_frame [OF _ active_step_ok [OF P a]] by blast
qed

lemma process_open_ok:
  assumes P: "pcb_lists_ok s" and a: "is_active s x" and r: "process_open E x s = Some s'"
  shows "pcb_lists_ok s'" "is_active s' x"
proof -
  from r obtain s1 where s1: "k_receive E x s = Some s1"
    and s': "(if got_fin s1 then upd_pcb x (\<lambda>p. (tcp_ack_now p)\<lparr>t_state := CLOSE_WAIT\<rparr>) s1 else Some s1) = Some s'"
    by (auto simp: process_open_def bind_eq_Some_conv)
  note o = receive_frame [OF s1]
  show "pcb_lists_ok s'" "is_active s' x"
    using to_close_wait_ok [OF _ _ s'] P a pcb_lists_outline [OF o] is_active_outline [OF o] by blast+
qed

lemma process_closing_ok:
  assumes P: "pcb_lists_ok s" and a: "is_active s x" and r: "process_closing E x st s = Some s'"
  shows "pcb_lists_ok s' \<and> conn_state s' x \<noteq> Some CLOSED"
proof -
  from r obtain s1 where s1: "k_receive E x s = Some s1" by (auto simp: process_closing_def bind_eq_Some_conv)
  note o = receive_frame [OF s1]
  have P1: "pcb_lists_ok s1" "is_active s1 x" using P a pcb_lists_outline [OF o] is_active_outline [OF o] by auto
  have ack: "pcb_lists_ok s2 \<and> is_active s2 x" if "upd_pcb x tcp_ack_now s1 = Some s2" for s2
    using upd_pcb_frame [OF that] P1 pcb_lists_outline is_active_outline by (metis tcp_ack_conn(2))
  have tw: "pcb_lists_ok s3 \<and> conn_state s3 x \<noteq> Some CLOSED" if "to_time_wait E x s2 = Some s3" "pcb_lists_ok s2 \<and> is_active s2 x" for s2 s3
    using to_time_wait_ok [OF _ _ that(1)] that(2) by auto
  have ss: "pcb_lists_ok s3 \<and> conn_state s3 x \<noteq> Some CLOSED"
    if "set_state x st' s2 = Some s3" "pcb_lists_ok s2 \<and> is_active s2 x" "st' \<notin> {CLOSED, LISTEN, TIME_WAIT}" for s2 s3 st'
    using set_state_active_ok [OF _ _ that(1, 3)] that(2) is_active_open by blast
  have id: "pcb_lists_ok s1 \<and> conn_state s1 x \<noteq> Some CLOSED" using P1 is_active_open by blast
  have fl: "pcb_lists_ok (s1\<lparr>k_in := v\<rparr>) \<and> conn_state (s1\<lparr>k_in := v\<rparr>) x \<noteq> Some CLOSED" for v
    using id pcb_lists_outline [of "s1\<lparr>k_in := v\<rparr>" s1] by simp
  from r s1 show ?thesis
    unfolding process_closing_def
    by (cases st; auto simp: bind_eq_Some_conv split: if_splits dest: ack tw ss intro: id fl; use id fl P1 ack tw ss in blast)
qed


lemma process_ok:
  assumes cb: "callbacks_ok E" and P: "pcb_lists_ok s" and a: "is_active s x"
    and r: "tcp_process E x s = Some (e, s')"
  shows "step_ok x e s'"
proof -
  from r obtain p where p: "k_pcbs s x = Some p" by (auto simp: tcp_process_def bind_eq_Some_conv)
  consider (rst) "process_rst x p s = Some (e, s')" | (syn) "upd_pcb x tcp_ack_now s = Some s'"
    | (run) q where "\<not> in_flag TCP_RST s" "\<not> (in_flag TCP_SYN s \<and> t_state p \<noteq> SYN_SENT \<and> t_state p \<noteq> SYN_RCVD)"
        "tcp_parseopt (k_net s) (in_hdr (k_in s))
              (p\<lparr>t_tmr := (if t_flags p AND TF_RXCLOSED = 0 then k_ticks s else t_tmr p), t_keep_cnt_sent := 0\<rparr>) = Some q"
    using r p unfolding tcp_process_def by (auto simp: bind_eq_Some_conv split: if_splits)
  then show ?thesis
  proof cases
    case rst
    from step_ok_frame [OF process_rst_frame [OF rst] active_step_ok [OF P a]] show ?thesis .
  next
    case syn
    from upd_pcb_frame [OF syn] step_ok_frame [OF _ active_step_ok [OF P a]] show ?thesis by simp
  next
    case (run q)
    let ?s = "put_pcb x q s"
    have o: "outline ?s = outline s" by (rule outline_put [OF p]) (use parseopt_conn [OF run(3)] in simp)
    have P1: "pcb_lists_ok ?s" "is_active ?s x" using P a pcb_lists_outline [OF o] is_active_outline [OF o] by auto
    have r1: "(case t_state q of
         SYN_SENT \<Rightarrow> process_syn_sent E x ?s
       | SYN_RCVD \<Rightarrow> process_syn_rcvd E x ?s
       | CLOSE_WAIT \<Rightarrow> do { s \<leftarrow> process_open E x ?s; Some (ERR_OK, s) }
       | ESTABLISHED \<Rightarrow> do { s \<leftarrow> process_open E x ?s; Some (ERR_OK, s) }
       | CLOSED \<Rightarrow> Some (ERR_OK, ?s)
       | LISTEN \<Rightarrow> Some (ERR_OK, ?s)
       | TIME_WAIT \<Rightarrow> Some (ERR_OK, ?s)
       | st \<Rightarrow> do { s \<leftarrow> process_closing E x st ?s; Some (ERR_OK, s) }) = Some (e, s')"
      using r run p unfolding tcp_process_def Let_def by simp
    have id: "step_ok x e ?s" by (rule active_step_ok [OF P1])
    have op: "step_ok x e s'" if "process_open E x ?s = Some s'"
      using process_open_ok [OF P1 that] active_step_ok by blast
    have cl: "step_ok x e s'" if "process_closing E x st ?s = Some s'" for st
      using process_closing_ok [OF P1 that] by blast
    show ?thesis
      using r1 id op cl process_syn_sent_ok [OF cb P1] process_syn_rcvd_ok [OF cb P1]
      by (cases "t_state q"; simp only: tcp_state.simps; auto simp: bind_eq_Some_conv)
  qed
qed

section \<open>The segment being processed\<close>

text \<open>
  The end of the connection is signalled by an acceptable reset and by the last acknowledgement only: in
  both cases the connection is where it was.
\<close>

definition end_flag :: "('f, 'w, 'a) stk \<Rightarrow> bool" where
  "end_flag s \<longleftrightarrow> in_recv_flags (k_in s) AND (TF_RESET OR TF_CLOSED) \<noteq> 0"

lemma rcv_cut_flags: "rcv_cut cff v p n = Some (v', n') \<Longrightarrow> in_recv_flags v' = in_recv_flags v"
  by (erule ret_fst [where P = "\<lambda>v'. in_recv_flags v' = in_recv_flags v"], unfold rcv_cut_def Let_def, intro ret_all) auto

lemma rcv_trim_flags: "rcv_trim v p n = Some (v', n') \<Longrightarrow> in_recv_flags v' = in_recv_flags v"
  by (erule ret_fst [where P = "\<lambda>v'. in_recv_flags v' = in_recv_flags v"], unfold rcv_trim_def Let_def, intro ret_all) auto

abbreviation (input) fin_only :: "u8 \<Rightarrow> u8 \<Rightarrow> bool" where
  "fin_only w w' \<equiv> w' = w \<or> w' = w OR TF_GOT_FIN"

lemma in_seq_flags:
  "rcv_in_seq cff v p n = Some (v', p', n') \<Longrightarrow> fin_only (in_recv_flags v) (in_recv_flags v')"
  by (erule ret_fst [where P = "\<lambda>v'. fin_only (in_recv_flags v) (in_recv_flags v')"], unfold rcv_in_seq_def Let_def, intro ret_all)
    (auto dest!: rcv_cut_flags)

lemma rcv_data_flags:
  "rcv_data L v p s = Some (v', p', s') \<Longrightarrow> fin_only (in_recv_flags v) (in_recv_flags v')"
  unfolding rcv_data_def Let_def
  by (auto simp: bind_eq_Some_conv split: if_splits dest!: in_seq_flags rcv_trim_flags)

lemma receive_flags:
  "tcp_receive L k v p s = Some (v', p', s') \<Longrightarrow> fin_only (in_recv_flags v) (in_recv_flags v')"
  by (erule ret_fst [where P = "\<lambda>v'. fin_only (in_recv_flags v) (in_recv_flags v')"], unfold tcp_receive_def Let_def, intro ret_all)
    (auto intro!: ret_call dest!: rcv_data_flags)

lemma k_receive_end: "k_receive E x s = Some s' \<Longrightarrow> end_flag s' = end_flag s"
proof -
  assume "k_receive E x s = Some s'"
  then have "in_recv_flags (k_in s') = in_recv_flags (k_in s) \<or> in_recv_flags (k_in s') = in_recv_flags (k_in s) OR TF_GOT_FIN"
    by (auto simp: k_receive_def with_pcb_def bind_eq_Some_conv dest!: receive_flags)
  moreover have "(w OR TF_GOT_FIN) AND (TF_RESET OR TF_CLOSED) = w AND (TF_RESET OR TF_CLOSED)" for w
    by (simp add: tcp_flag bit.conj_disj_distrib2)
  ultimately show ?thesis unfolding end_flag_def by metis
qed

named_theorems in_frame

lemma k_in_frames [in_frame]:
  "upd_pcb x g s = Some s1 \<Longrightarrow> k_in s1 = k_in s" "with_pcb1 x h s = Some s2 \<Longrightarrow> k_in s2 = k_in s"
  "with_pcb x h' s = Some (r, s7) \<Longrightarrow> k_in s7 = k_in s"
  "on_low h1 s = Some s3 \<Longrightarrow> k_in s3 = k_in s" "on_pk h2 s = Some s4 \<Longrightarrow> k_in s4 = k_in s"
  "k_pbuf_free E p s = Some s5 \<Longrightarrow> k_in s5 = k_in s" "set_state x st s = Some s6 \<Longrightarrow> k_in s6 = k_in s"
  by (auto simp: upd_pcb_def with_pcb1_def with_pcb_def on_pk_def on_low_def k_pbuf_free_def set_state_def put_pcb_def bind_eq_Some_conv
      split: option.splits)

lemma purge_in [in_frame]: "tcp_pcb_purge E x s = Some s' \<Longrightarrow> k_in s' = k_in s"
  unfolding tcp_pcb_purge_def by (auto simp: bind_eq_Some_conv split: if_splits dest!: k_in_frames)

lemma to_time_wait_in:
  assumes P: "pcb_lists_ok s" and a: "is_active s x" and r: "to_time_wait E x s = Some s'"
  shows "k_in s' = k_in s"
proof -
  obtain f where L: "lists_ok f s" using P unfolding pcb_lists_ok_def by blast
  from r obtain s1 s2 s3 where s1: "tcp_pcb_purge E x s = Some s1" and s2: "TCP_RMV L_ACTIVE x s1 = Some s2"
    and s3: "set_state x TIME_WAIT (s2\<lparr>k_changed := True\<rparr>) = Some s3" and s': "TCP_REG L_TW x s3 = Some s'"
    by (auto simp: to_time_wait_def TCP_RMV_ACTIVE_def bind_eq_Some_conv)
  have L1: "lists_ok f s1" using L lists_outline [OF purge_frame [OF s1]] by blast
  have x: "x \<in> set (f L_ACTIVE)" using a is_active_in [OF L] by simp
  have "k_in s2 = k_in s1" using TCP_RMV_lists(4) [OF L1 _ fun_upd_set_only [OF L1 x] s2] by simp
  moreover have "k_in s' = k_in s3"
    using s' by (auto simp: TCP_REG_def bind_eq_Some_conv dest!: timer_needed_same)
  ultimately show ?thesis using purge_in [OF s1] k_in_frames(7) [OF s3] by simp
qed

lemma rst_reply_in [in_frame]: "rst_reply E s = Some s' \<Longrightarrow> k_in s' = k_in s"
  by (auto simp: rst_reply_def Let_def bind_eq_Some_conv dest!: k_in_frames)

lemma end_same: "k_in s' = k_in s \<Longrightarrow> end_flag s' = end_flag s"
  by (simp add: end_flag_def)

lemma process_closing_end:
  assumes P: "pcb_lists_ok s" and a: "is_active s x"
    and r: "process_closing E x st s = Some s'" and n: "\<not> end_flag s" and e: "end_flag s'"
  shows "outline s' = outline s"
proof -
  from r obtain s1 where s1: "k_receive E x s = Some s1" by (auto simp: process_closing_def bind_eq_Some_conv)
  have n1: "\<not> end_flag s1" using n k_receive_end [OF s1] by simp
  have P1: "pcb_lists_ok s1" "is_active s1 x"
    using P a pcb_lists_outline [OF receive_frame [OF s1]] is_active_outline [OF receive_frame [OF s1]] by auto
  have ack: "pcb_lists_ok s2 \<and> is_active s2 x \<and> k_in s2 = k_in s1" if "upd_pcb x tcp_ack_now s1 = Some s2" for s2
    using upd_pcb_frame [OF that] P1 pcb_lists_outline is_active_outline k_in_frames(1) [OF that] by (metis tcp_ack_conn(2))
  have tw: "k_in s3 = k_in s2" if "to_time_wait E x s2 = Some s3" "pcb_lists_ok s2 \<and> is_active s2 x" for s2 s3
    using to_time_wait_in that by blast
  have "k_in s' = k_in s1 \<or> outline s' = outline s1"
    using r s1 P1 unfolding process_closing_def
    by (cases st) (auto simp: bind_eq_Some_conv split: if_splits dest!: ack tw k_in_frames(7))
  then show ?thesis using n1 e end_same [of s' s1] receive_frame [OF s1] by auto
qed

lemma process_syn_sent_in:
  assumes cb: "callbacks_ok E" and P: "pcb_lists_ok s" and a: "is_active s x"
    and r: "process_syn_sent E x s = Some (e, s')"
  shows "k_in s' = k_in s"
proof -
  have C: "k_in s2 = k_in s"
    if s1: "with_pcb1 x (\<lambda>p l. do {
              (p, n) \<leftarrow> syn_acked (ce_cff E) (syn_sent_pcb (ce_low E) (k_in s) wnd l p) (l_net l);
              Some (p, l\<lparr>l_net := n\<rparr>) }) s = Some s1" and s2: "EVENT_CONNECTED E x ERR_OK s1 = Some (e1, s2)" for wnd s1 s2 e1
  proof -
    from s1 obtain q l where s1': "s1 = (put_pcb x q s)\<lparr>k_low := l\<rparr>" and q: "t_state q = ESTABLISHED"
      by (auto simp: with_pcb1_def bind_eq_Some_conv dest!: syn_acked_state)
    have o: "outline s1 = outline (put_pcb x q s)" by (simp add: s1')
    have P1: "pcb_lists_ok s1" "is_active s1 x"
      using put_active_ok [OF P a, of q] q pcb_lists_outline [OF o] is_active_outline [OF o] by auto
    show ?thesis
      using event_connected_cases [OF s2] callbacksD(4) [OF cb P1(1) is_active_open [OF P1(2)]] k_in_frames(2) [OF s1] by metis
  qed
  from r show ?thesis
    unfolding process_syn_sent_def Let_def
    by (auto simp: bind_eq_Some_conv split: if_splits dest!: rst_reply_in k_in_frames(1) dest: C)
qed

lemma process_syn_rcvd_end:
  assumes cb: "callbacks_ok E" and P: "pcb_lists_ok s" and a: "is_active s x"
    and r: "process_syn_rcvd E x s = Some (e, s')" and e: "e \<noteq> ERR_ABRT"
  shows "end_flag s' = end_flag s"
proof -
  have acc: "end_flag s' = end_flag s" if r: "process_accepted E x s = Some (e, s')"
  proof -
    from r obtain s1 e1 s2 where s1: "set_state x ESTABLISHED s = Some s1" and s2: "EVENT_ACCEPT E x ERR_OK s1 = Some (e1, s2)"
      and rest: "(if e1 \<noteq> ERR_OK then do {
         s \<leftarrow> (if e1 \<noteq> ERR_ABRT then tcp_abort E x s2 else Some s2);
         Some (ERR_ABRT, s) }
       else do {
         p \<leftarrow> k_pcbs s2 x;
         let old_cwnd = t_cwnd p;
         s \<leftarrow> k_receive E x s2;
         s \<leftarrow> upd_pcb x (\<lambda>p. p\<lparr>t_acked := (if t_acked p \<noteq> 0 then t_acked p - 1 else 0),
                t_cwnd := (if old_cwnd = 1 then t_mss p * 2 else t_mss p)\<rparr>) s;
         s \<leftarrow> (if got_fin s then upd_pcb x (\<lambda>p. (tcp_ack_now p)\<lparr>t_state := CLOSE_WAIT\<rparr>) s else Some s);
         Some (ERR_OK, s) }) = Some (e, s')"
      unfolding process_accepted_def by (elim bindE, auto simp: bind_eq_Some_conv split: if_splits)
    have P1: "pcb_lists_ok s1" "is_active s1 x" using set_state_active_ok [OF P a s1] by auto
    note A = event_accept_ok [OF cb P1 s2]
    have "e1 = ERR_OK" using rest e by (auto simp: bind_eq_Some_conv split: if_splits)
    with rest obtain s3 s4 where s3: "k_receive E x s2 = Some s3" and s4: "k_in s4 = k_in s3"
      and s5: "(if got_fin s4 then upd_pcb x (\<lambda>p. (tcp_ack_now p)\<lparr>t_state := CLOSE_WAIT\<rparr>) s4 else Some s4) = Some s'"
      by (auto simp: bind_eq_Some_conv Let_def dest: k_in_frames(1))
    have "k_in s' = k_in s4" using s5 by (auto split: if_splits dest: k_in_frames(1))
    with s4 end_same k_receive_end [OF s3] have "end_flag s' = end_flag s2" by metis
    moreover have "k_in s2 = k_in s" using A(3) k_in_frames(7) [OF s1] by simp
    ultimately show ?thesis using end_same by metis
  qed
  have "k_in s' = k_in s \<or> process_accepted E x s = Some (e, s')"
    using r unfolding process_syn_rcvd_def Let_def
    by (auto simp: bind_eq_Some_conv put_pcb_def split: if_splits dest!: rst_reply_in)
  then show ?thesis using acc end_same by blast
qed

lemma process_open_end: "process_open E x s = Some s' \<Longrightarrow> end_flag s' = end_flag s"
  unfolding process_open_def
  by (auto simp: bind_eq_Some_conv end_flag_def split: if_splits dest!: k_receive_end k_in_frames(1))

lemma process_end:
  assumes cb: "callbacks_ok E" and P: "pcb_lists_ok s" and a: "is_active s x"
    and r: "tcp_process E x s = Some (e, s')" and e: "e \<noteq> ERR_ABRT" and n: "\<not> end_flag s" and n': "end_flag s'"
  shows "outline s' = outline s"
proof -
  from r obtain p where p: "k_pcbs s x = Some p" by (auto simp: tcp_process_def bind_eq_Some_conv)
  consider (rst) "process_rst x p s = Some (e, s')" | (syn) "upd_pcb x tcp_ack_now s = Some s'"
    | (run) q where "\<not> in_flag TCP_RST s" "\<not> (in_flag TCP_SYN s \<and> t_state p \<noteq> SYN_SENT \<and> t_state p \<noteq> SYN_RCVD)"
        "tcp_parseopt (k_net s) (in_hdr (k_in s))
              (p\<lparr>t_tmr := (if t_flags p AND TF_RXCLOSED = 0 then k_ticks s else t_tmr p), t_keep_cnt_sent := 0\<rparr>) = Some q"
    using r p unfolding tcp_process_def by (auto simp: bind_eq_Some_conv split: if_splits)
  then show ?thesis
  proof cases
    case rst
    then show ?thesis by (rule process_rst_frame)
  next
    case syn
    show ?thesis by (rule upd_pcb_frame [OF syn]) simp
  next
    case (run q)
    let ?s = "put_pcb x q s"
    have o: "outline ?s = outline s" by (rule outline_put [OF p]) (use parseopt_conn [OF run(3)] in simp)
    have P1: "pcb_lists_ok ?s" "is_active ?s x" using P a pcb_lists_outline [OF o] is_active_outline [OF o] by auto
    have ns: "\<not> end_flag ?s" using n by (simp add: end_flag_def put_pcb_def)
    have r1: "(case t_state q of
         SYN_SENT \<Rightarrow> process_syn_sent E x ?s
       | SYN_RCVD \<Rightarrow> process_syn_rcvd E x ?s
       | CLOSE_WAIT \<Rightarrow> do { s \<leftarrow> process_open E x ?s; Some (ERR_OK, s) }
       | ESTABLISHED \<Rightarrow> do { s \<leftarrow> process_open E x ?s; Some (ERR_OK, s) }
       | CLOSED \<Rightarrow> Some (ERR_OK, ?s)
       | LISTEN \<Rightarrow> Some (ERR_OK, ?s)
       | TIME_WAIT \<Rightarrow> Some (ERR_OK, ?s)
       | st \<Rightarrow> do { s \<leftarrow> process_closing E x st ?s; Some (ERR_OK, s) }) = Some (e, s')"
      using r run p unfolding tcp_process_def Let_def by simp
    have ss: "process_syn_sent E x ?s \<noteq> Some (e, s')" using process_syn_sent_in [OF cb P1] end_same ns n' by metis
    have sr: "process_syn_rcvd E x ?s \<noteq> Some (e, s')" using process_syn_rcvd_end [OF cb P1 _ e] ns n' by metis
    have op: "process_open E x ?s \<noteq> Some s'" using process_open_end ns n' by metis
    have cl: "outline s' = outline s" if "process_closing E x st ?s = Some s'" for st
      using process_closing_end [OF P1 that ns n'] o by simp
    show ?thesis
      using r1 ns n' ss sr op cl
      by (cases "t_state q"; simp only: tcp_state.simps; auto simp: bind_eq_Some_conv)
  qed
qed

end
