(* ===== verification/TcpListInput.thy ===== *)
theory TcpListInput
  imports TcpListProc
begin

text \<open>
  The lists of control blocks under \<open>tcp_input\<close>: demultiplexing, which moves the control block it
  finds to the front, passive opening, and the delivery to the application.
\<close>

section \<open>Delivery\<close>

lemma recved_frame [stk_frame]: "tcp_recved E x len s = Some s' \<Longrightarrow> outline s' = outline s"
  unfolding tcp_recved_def Let_def
  by (auto simp: bind_eq_Some_conv split: if_splits dest!: upd_pcb_frame k_output_frame recved_wnd_conn outline_put)

lemma recv_null_lists:
  assumes P: "pcb_lists_ok s" and r: "tcp_recv_null E x p e0 s = Some (e, s')"
  shows "pcb_lists_ok s'" "p \<noteq> None \<Longrightarrow> outline s' = outline s"
proof -
  have o: "outline s' = outline s" if "p \<noteq> None"
    using r that unfolding tcp_recv_null_def
    by (auto simp: bind_eq_Some_conv dest!: recved_frame on_low_frame(3))
  then show "p \<noteq> None \<Longrightarrow> outline s' = outline s" .
  show "pcb_lists_ok s'"
  proof (cases p)
    case None
    with r P tcp_close_lists [OF P] show ?thesis by (auto simp: tcp_recv_null_def split: if_splits)
  next
    case (Some a)
    with o P pcb_lists_outline show ?thesis by blast
  qed
qed

lemma event_recv_ok:
  assumes cb: "callbacks_ok E" and P: "pcb_lists_ok s" and c: "conn_state s x \<noteq> Some CLOSED"
    and r: "EVENT_RECV E x (Some a) e0 s = Some (e, s')"
  shows "step_ok x e s'"
  using event_recv_cases [OF r]
proof
  assume r: "tcp_recv_null E x (Some a) e0 s = Some (e, s')"
  from recv_null_lists(2) [OF P r] have o: "outline s' = outline s" by simp
  from step_ok_frame [OF o] P c show ?thesis by blast
qed (use callbacksD(3) [OF cb P c] in blast)

lemma event_closed_lists:
  assumes cb: "callbacks_ok E" and P: "pcb_lists_ok s" and c: "conn_state s x \<noteq> Some CLOSED"
    and r: "EVENT_CLOSED E x s = Some (e, s')"
  shows "pcb_lists_ok s'"
  using event_closed_cases [OF r] recv_null_lists(1) [OF P] callbacksD(3) [OF cb P c] P by blast

lemma event_sent_ok:
  assumes cb: "callbacks_ok E" and P: "pcb_lists_ok s" and c: "conn_state s x \<noteq> Some CLOSED"
    and r: "EVENT_SENT E x n s = Some (e, s')"
  shows "step_ok x e s'"
  using event_sent_cases [OF r] callbacksD(2) [OF cb P c] P c by blast

lemma deliver_data_ok:
  assumes cb: "callbacks_ok E" and P: "pcb_lists_ok s" and c: "conn_state s x \<noteq> Some CLOSED"
    and r: "deliver_data E x s = Some (dead, s')"
  shows "pcb_lists_ok s' \<and> (\<not> dead \<longrightarrow> conn_state s' x \<noteq> Some CLOSED)"
proof (cases "in_recv_data (k_in s)")
  case None
  with r P c show ?thesis by (simp add: deliver_data_def)
next
  case (Some a)
  with r obtain p where p: "k_pcbs s x = Some p" by (auto simp: deliver_data_def bind_eq_Some_conv)
  show ?thesis
  proof (cases "t_flags p AND TF_RXCLOSED \<noteq> 0")
    case True
    with r Some p obtain s1 where s1: "k_pbuf_free E (Some a) s = Some s1" "tcp_abort E x s1 = Some s'" "dead"
      by (auto simp: deliver_data_def bind_eq_Some_conv split: if_splits)
    note o = on_low_frame(3) [OF s1(1)]
    show ?thesis using abort_lists [OF cb _ _ s1(2)] P c pcb_lists_outline [OF o] outline_eq(5) [OF o, of x] s1(3) by simp
  next
    case False
    with r Some p obtain e s1 where s1: "EVENT_RECV E x (Some a) ERR_OK s = Some (e, s1)"
      and s': "if e = ERR_ABRT then dead \<and> s' = s1 else \<not> dead \<and> outline s' = outline s1"
      by (auto simp: deliver_data_def bind_eq_Some_conv split: if_splits dest: upd_pcb_frame)
    have K: "step_ok x e s1" by (rule event_recv_ok [OF cb P c s1])
    show ?thesis
    proof (cases "e = ERR_ABRT")
      case True
      with K s' show ?thesis by simp
    next
      case False
      with s' have o: "outline s' = outline s1" by simp
      from step_ok_frame [OF o] K False show ?thesis by blast
    qed
  qed
qed

lemma wnd_for_fin_frame [stk_frame]: "wnd_for_fin x s = Some s' \<Longrightarrow> outline s' = outline s"
  unfolding wnd_for_fin_def by (erule upd_pcb_frame) simp

lemma deliver_fin_lists:
  assumes cb: "callbacks_ok E" and P: "pcb_lists_ok s" and c: "conn_state s x \<noteq> Some CLOSED"
    and r: "deliver_fin E x s = Some (dead, s')"
  shows "pcb_lists_ok s'"
proof -
  have "outline s' = outline s \<or> (\<exists>s1 e. outline s1 = outline s \<and> EVENT_CLOSED E x s1 = Some (e, s'))"
    using r unfolding deliver_fin_def
    by (auto simp: bind_eq_Some_conv split: if_splits option.splits dest!: on_low_frame(2) wnd_for_fin_frame)
  then show ?thesis
  proof
    assume "\<exists>s1 e. outline s1 = outline s \<and> EVENT_CLOSED E x s1 = Some (e, s')"
    then obtain s1 e where s1: "outline s1 = outline s" "EVENT_CLOSED E x s1 = Some (e, s')" by blast
    show ?thesis using event_closed_lists [OF cb _ _ s1(2)] P c pcb_lists_outline [OF s1(1)] outline_eq(5) [OF s1(1), of x] by simp
  qed (use P pcb_lists_outline in blast)
qed

lemma input_deliver_lists:
  assumes cb: "callbacks_ok E" and P: "pcb_lists_ok s" and c: "conn_state s x \<noteq> Some CLOSED"
    and r: "input_deliver E x s = Some s'"
  shows "pcb_lists_ok s'"
proof -
  from r obtain p e s1 where p: "k_pcbs s x = Some p"
    and s1: "(if t_acked p > 0 then EVENT_SENT E x (t_acked p) s else Some (ERR_OK, s)) = Some (e, s1)"
    and r1: "(if t_acked p > 0 \<and> e = ERR_ABRT then Some s1
     else do {
       (dead, s) \<leftarrow> deliver_data E x s1;
       if dead then Some s
       else do {
         (dead, s) \<leftarrow> deliver_fin E x s;
         if dead then Some s
         else do {
           (_, s) \<leftarrow> k_output E x (s\<lparr>k_input := None\<rparr>);
           Some s } } }) = Some s'"
    unfolding input_deliver_def by (elim bindE) (auto elim!: bindE)
  have K: "step_ok x e s1" using s1 event_sent_ok [OF cb P c] P c by (auto split: if_splits)
  show ?thesis
  proof (cases "t_acked p > 0 \<and> e = ERR_ABRT")
    case True
    with r1 K show ?thesis by simp
  next
    case False
    have ne: "e \<noteq> ERR_ABRT" using False s1 by (auto split: if_splits)
    from r1 False obtain dead s2 where s2: "deliver_data E x s1 = Some (dead, s2)"
      and r2: "(if dead then Some s2
       else do {
         (g, s) \<leftarrow> deliver_fin E x s2;
         if g then Some s
         else do {
           (_, s) \<leftarrow> k_output E x (s\<lparr>k_input := None\<rparr>);
           Some s } }) = Some s'"
      by (auto elim!: bindE)
    note D = deliver_data_ok [OF cb _ _ s2]
    show ?thesis
    proof (cases dead)
      case True
      have "pcb_lists_ok s1" "conn_state s1 x \<noteq> Some CLOSED" using K ne by blast+
      from D [OF this] r2 True show ?thesis by simp
    next
      case F: False
      obtain g s3 where s3: "deliver_fin E x s2 = Some (g, s3)"
        using r2 F by (cases "deliver_fin E x s2") auto
      have r3: "(if g then Some s3 else do { (_, s) \<leftarrow> k_output E x (s3\<lparr>k_input := None\<rparr>); Some s }) = Some s'"
        using r2 F s3 by simp
      have o3: "outline s' = outline s3"
        using r3 by (cases g) (auto elim!: bindE dest!: k_output_frame)
      have "pcb_lists_ok s1" "conn_state s1 x \<noteq> Some CLOSED" using K ne by blast+
      from D [OF this] F have "pcb_lists_ok s2" "conn_state s2 x \<noteq> Some CLOSED" by blast+
      from deliver_fin_lists [OF cb this s3] pcb_lists_outline [OF o3] show ?thesis by blast
    qed
  qed
qed

lemma input_dead_lists:
  assumes cb: "callbacks_ok E" and P: "pcb_lists_ok s" and a: "is_active s x"
    and r: "input_dead E x e s = Some s'"
  shows "pcb_lists_ok s'"
proof -
  from r obtain s1 s2 where o: "outline s1 = outline s" and s2: "tcp_pcb_remove E L_ACTIVE x s1 = Some s2" "free_pcb x s2 = Some s'"
    unfolding input_dead_def by (auto simp: bind_eq_Some_conv split: option.splits dest!: event_err_frame [OF cb])
  from P o obtain f where L: "lists_ok f s1" using pcb_lists_outline unfolding pcb_lists_ok_def by metis
  have x: "x \<in> set (f L_ACTIVE)" using a is_active_outline [OF o] is_active_in [OF L] by simp
  show ?thesis using remove_free_lists [OF L x _ s2] unfolding pcb_lists_ok_def by auto
qed

text \<open>A segment of an active connection that holds no refused data.\<close>

lemma input_pcb_lists:
  assumes cb: "callbacks_ok E" and P: "pcb_lists_ok s" and a: "is_active s x" and n: "\<not> end_flag s"
    and nr: "map_option t_refused_data (k_pcbs s x) = Some None" and r: "input_pcb E x s = Some s'"
  shows "pcb_lists_ok s'"
proof -
  from nr obtain p where p: "k_pcbs s x = Some p" "t_refused_data p = None" by auto
    from r p obtain e s1 s2 where s1: "tcp_process E x (s\<lparr>k_input := Some x\<rparr>) = Some (e, s1)"
      and s2: "(if e = ERR_ABRT then Some s1
            else if in_recv_flags (k_in s1) AND TF_RESET \<noteq> 0 then input_dead E x (Some ERR_RST) s1
            else if in_recv_flags (k_in s1) AND TF_CLOSED \<noteq> 0 then do {
              p \<leftarrow> k_pcbs s1 x;
              input_dead E x (if t_flags p AND TF_RXCLOSED = 0 then Some ERR_CLSD else None) s1 }
            else input_deliver E x s1) = Some s2" and o: "outline s' = outline s2"
      unfolding input_pcb_def
      by (auto simp: bind_eq_Some_conv Let_def split: option.splits dest!: on_low_frame(3))
    let ?s = "s\<lparr>k_input := Some x\<rparr>"
    have P1: "pcb_lists_ok ?s" "is_active ?s x"
      using P a pcb_lists_outline [of ?s s] is_active_outline [of ?s s] by auto
    have K: "step_ok x e s1" by (rule process_ok [OF cb P1 s1])
    have "pcb_lists_ok s2"
    proof (cases "e = ERR_ABRT")
      case True
      with s2 K show ?thesis by simp
    next
      case False
      show ?thesis
      proof (cases "end_flag s1")
        case True
        have "\<not> end_flag ?s" using n by (simp add: end_flag_def)
        from process_end [OF cb P1 s1 False this True] have o1: "outline s1 = outline s" by simp
        have a1: "is_active s1 x" using a is_active_outline [OF o1] by simp
        from s2 False True obtain e' where "input_dead E x e' s1 = Some s2 \<or> input_deliver E x s1 = Some s2"
          by (auto simp: bind_eq_Some_conv split: if_splits)
        then show ?thesis using input_dead_lists [OF cb _ a1] input_deliver_lists [OF cb] K False by blast
      next
        case F: False
        then have "in_recv_flags (k_in s1) AND TF_RESET = 0" "in_recv_flags (k_in s1) AND TF_CLOSED = 0"
          by (auto simp: end_flag_def bit.conj_disj_distrib or_eq_0_iff)
        with s2 False have "input_deliver E x s1 = Some s2" by simp
        with input_deliver_lists [OF cb] K False show ?thesis by blast
      qed
    qed
    with pcb_lists_outline [OF o] show ?thesis by simp
qed

section \<open>Demultiplexing\<close>

lemma find_active_in:
  "find_active s src dest prev t = Some (Some (q, x)) \<Longrightarrow> chained (k_next s) t xs \<Longrightarrow>
     \<exists>ys zs. xs = ys @ x # zs \<and> q = (if ys = [] then prev else Some (last ys))"
proof (induction xs arbitrary: prev t)
  case Nil
  then show ?case by (subst (asm) find_active.simps) simp
next
  case (Cons y ys)
  from Cons.prems(2) obtain n where n: "t = Some y" "k_next s y = Some n" "chained (k_next s) n ys"
    by (auto split: option.splits)
  from Cons.prems(1) n(1, 2) consider "x = y" "q = prev" | "find_active s src dest (Some y) n = Some (Some (q, x))"
    by (subst (asm) find_active.simps) (auto simp: bind_eq_Some_conv split: if_splits)
  then show ?case
  proof cases
    case 1
    then show ?thesis by (intro exI [of _ "[]"] exI [of _ ys]) simp
  next
    case 2
    from Cons.IH [OF 2 n(3)] obtain us vs where "ys = us @ x # vs" "q = (if us = [] then Some y else Some (last us))" by blast
    then show ?thesis by (intro exI [of _ "y # us"] exI [of _ vs]) auto
  qed
qed

lemma find_listen_in:
  "find_listen s dest prev t = Some (Some (q, x)) \<Longrightarrow> chained (k_next s) t xs \<Longrightarrow>
     \<exists>ys zs. xs = ys @ x # zs \<and> q = (if ys = [] then prev else Some (last ys))"
proof (induction xs arbitrary: prev t)
  case Nil
  then show ?case by (subst (asm) find_listen.simps) simp
next
  case (Cons y ys)
  from Cons.prems(2) obtain n where n: "t = Some y" "k_next s y = Some n" "chained (k_next s) n ys"
    by (auto split: option.splits)
  from Cons.prems(1) n(1, 2) consider "x = y" "q = prev" | "find_listen s dest (Some y) n = Some (Some (q, x))"
    by (subst (asm) find_listen.simps) (auto simp: bind_eq_Some_conv split: if_splits)
  then show ?case
  proof cases
    case 1
    then show ?thesis by (intro exI [of _ "[]"] exI [of _ ys]) simp
  next
    case 2
    from Cons.IH [OF 2 n(3)] obtain us vs where "ys = us @ x # vs" "q = (if us = [] then Some y else Some (last us))" by blast
    then show ?thesis by (intro exI [of _ "y # us"] exI [of _ vs]) auto
  qed
qed

text \<open>The element that was found comes to the front; the others keep their order.\<close>

lemma chained_split:
  "chained nx p (ys @ x # zs) \<Longrightarrow> ys \<noteq> [] \<Longrightarrow> distinct (ys @ x # zs) \<Longrightarrow> \<exists>n. nx x = Some n \<and> chained (nx(last ys \<mapsto> n)) p (ys @ zs)"
proof (induction ys arbitrary: p)
  case (Cons y us)
  show ?case
  proof (cases "us = []")
    case True
    with Cons.prems obtain q n where "p = Some y" "nx y = Some (Some x)" "nx x = Some n" "chained nx n zs"
      by (auto split: option.splits)
    moreover have "chained (nx(y \<mapsto> n)) n zs = chained nx n zs" by (rule chained_upd) (use Cons.prems(3) in simp)
    ultimately show ?thesis using True by (simp del: fun_upd_apply) simp
  next
    case False
    from Cons.prems obtain q where q: "p = Some y" "nx y = Some q" "chained nx q (us @ x # zs)" by (auto split: option.splits)
    have "distinct (us @ x # zs)" using Cons.prems(3) by simp
    from Cons.IH [OF q(3) False this] obtain n where n: "nx x = Some n" "chained (nx(last us \<mapsto> n)) q (us @ zs)" by blast
    have "last us \<in> set us" using False by simp
    then have "y \<noteq> last us" using Cons.prems(3) by auto
    then show ?thesis using n q False by (intro exI [of _ n]) (simp del: fun_upd_apply add: fun_upd_other)
  qed
qed simp

lemma to_front_lists:
  assumes L: "lists_ok f s" and fl: "f l = ys @ x # zs" and r: "to_front l (if ys = [] then None else Some (last ys)) x s = Some s'"
  shows "lists_ok (f(l := x # ys @ zs)) s'" "k_pcbs s' = k_pcbs s" "k_lpcbs s' = k_lpcbs s" "k_in s' = k_in s" "k_low s' = k_low s"
    "dom (k_next s') = dom (k_next s)"
proof -
  note D = listsD [OF L]
  show "k_pcbs s' = k_pcbs s" "k_lpcbs s' = k_lpcbs s" "k_in s' = k_in s" "k_low s' = k_low s"
    using r by (auto simp: to_front_def bind_eq_Some_conv split: if_splits)
  show "dom (k_next s') = dom (k_next s)"
    using r by (auto simp: to_front_def bind_eq_Some_conv split: if_splits)
  show "lists_ok (f(l := x # ys @ zs)) s'"
  proof (cases "ys = []")
    case True
    with r fl have "s' = s" "f(l := x # ys @ zs) = f" by (auto simp: to_front_def)
    with L show ?thesis by simp
  next
    case False
    have dist: "distinct (ys @ x # zs)" using D(2) [of l] fl by simp
    from chained_split [OF _ False dist, of "k_next s" "k_head s l"] D(1) [of l] fl
    obtain n where n: "k_next s x = Some n" "chained ((k_next s)(last ys \<mapsto> n)) (k_head s l) (ys @ zs)" by auto
    have lx: "last ys \<noteq> x" "last ys \<in> set (f l)" using dist False fl by auto
    from r False n(1) obtain m where s': "s' = s\<lparr>k_next := (k_next s)(last ys \<mapsto> n, x \<mapsto> k_head s l), k_head := (k_head s)(l := Some x)\<rparr>"
      and m: "k_next s (last ys) = Some m"
      by (auto simp: to_front_def bind_eq_Some_conv)
    have sets: "set ((f(l := x # ys @ zs)) l') = set (f l')" for l' using fl by auto
    have link: "linked_lists (f(l := x # ys @ zs)) s'"
    proof (rule linkedI)
      fix l'
      show "chained (k_next s') (k_head s' l') ((f(l := x # ys @ zs)) l')"
      proof (cases "l' = l")
        case True
        have "x \<notin> set (ys @ zs)" using dist by auto
        with True n(2) show ?thesis by (simp add: s')
      next
        case F: False
        have "chained (k_next s') (k_head s l') (f l') = chained (k_next s) (k_head s l') (f l')"
        proof (rule chained_cong)
          fix y assume y: "y \<in> set (f l')"
          have "x \<in> set (f l)" using fl by simp
          with y lx(2) D(3) [of y l' l] F have "y \<noteq> x" "y \<noteq> last ys" by auto
          then show "k_next s' y = k_next s y" by (simp add: s')
        qed
        with F D(1) [of l'] show ?thesis by (simp add: s')
      qed
      show "distinct ((f(l := x # ys @ zs)) l')" using dist D(2) [of l'] by auto
    next
      fix l1 l2 y assume "y \<in> set ((f(l := x # ys @ zs)) l1)" "y \<in> set ((f(l := x # ys @ zs)) l2)"
      then show "l1 = l2" using D(3) [of y l1 l2] unfolding sets by blast
    qed
    have "placed (f(l := x # ys @ zs)) s' y" for y
    proof (rule placed_other [OF D(4) [of y]])
      show "(y \<in> set ((f(l := x # ys @ zs)) l')) = (y \<in> set (f l'))" for l' by (rule arg_cong [OF sets])
      show "(k_next s' y = None) = (k_next s y = None)" using n m by (auto simp: s')
    qed (simp_all add: s')
    with link show ?thesis by (simp add: lists_but_def)
  qed
qed

section \<open>Passive opening\<close>

text \<open>A new control block becomes an active one.\<close>

lemma new_active:
  assumes P: "pcb_lists_ok s" and c: "conn_state s x = Some CLOSED" "conn_port s x = Some 0"
    and q: "t_state q \<notin> {CLOSED, LISTEN, TIME_WAIT}" and r: "TCP_REG_ACTIVE x (put_pcb x q s) = Some s'"
  shows "pcb_lists_ok s'" "k_pcbs s' x = Some q"
proof -
  obtain f where L: "lists_ok f s" using P unfolding pcb_lists_ok_def by blast
  from c obtain p where p: "k_pcbs s x = Some p" "t_local_port p = 0" by auto
  have "lists_but {x} (f(L_BOUND := removeAll x (f L_BOUND))) s"
    using close_closed_lists(1) [OF L _ c(1) p(1)] p(2) by simp
  note L1 = put_free [OF this _ p(1), of q, simplified]
  from r obtain s1 where s1: "TCP_REG L_ACTIVE x (put_pcb x q s) = Some s1" and s': "s' = s1\<lparr>k_changed := True\<rparr>"
    by (auto simp: TCP_REG_ACTIVE_def bind_eq_Some_conv)
  have px: "k_pcbs (put_pcb x q s) x = Some q" by (simp add: put_pcb_def)
  have np: "k_lpcbs (put_pcb x q s) x = None" using listsD(7) [OF L1, of x] px by simp
  have fit: "fits_list L_ACTIVE (put_pcb x q s) x" using q px by simp
  note R = TCP_REG_lists [OF L1 _ fit _ s1]
  have "pcb_lists_ok s1" unfolding pcb_lists_ok_def using R(1) np by auto
  then show "pcb_lists_ok s'" using pcb_lists_outline [of s' s1] s' by simp
  show "k_pcbs s' x = Some q" using R(2) np px s' by simp
qed

lemma listen_syn_lists:
  assumes cb: "callbacks_ok E" and P: "pcb_lists_ok s" and fr: "\<And>prio. alloc_fresh E prio s"
    and r: "listen_syn E l s = Some (e, s')"
  shows "pcb_lists_ok s'"
proof -
  obtain lp where lp: "k_lpcbs s l = Some lp" using r unfolding listen_syn_def Let_def by (elim bindE)
  obtain m s1 where m: "tcp_alloc E (lp_prio lp) s = Some (m, s1)"
    using r lp by (cases "tcp_alloc E (lp_prio lp) s") (auto simp: listen_syn_def)
  note r1 = r [unfolded listen_syn_def Let_def lp bind.bind_lunit m prod.case]
  note A = alloc_lists [OF cb P fr m]
  show ?thesis
  proof (cases m)
    case None
    with r1 A(1) show ?thesis by simp
  next
    case (Some x)
    from r1 [unfolded Some option.case] show ?thesis
    proof (elim bindE, goal_cases)
      case (1 lp' src wnd sa s2 p p1 z)
      obtain rc s4 where z: "z = (rc, s4)" by (cases z)
      from 1(4) obtain p0 where sa: "sa = put_pcb x (listen_pcb lp' (k_in s) src wnd p0) s1"
        by (auto simp: upd_pcb_def bind_eq_Some_conv)
      have st: "t_state (listen_pcb lp' (k_in s) src wnd p0) \<notin> {CLOSED, LISTEN, TIME_WAIT}" by (simp add: listen_pcb_def)
      note N = new_active [OF A(1) _ _ st 1(5) [unfolded sa]]
      have P2: "pcb_lists_ok s2" and p: "t_state p = SYN_RCVD" using N A(2) [OF Some] 1(6) by (auto simp: listen_pcb_def)
      have k: "conn_key (p1\<lparr>t_mss := tcp_eff_send_mss (ce_low E) (t_mss p1) (t_remote_ip p1) (l_ip (k_low s2))\<rparr>) = conn_key p"
        using parseopt_conn [OF 1(7)] by simp
      have o4: "outline s4 = outline s2"
        unfolding outline_put [OF 1(6) k, symmetric]
        by (rule with_pcb_frame [OF 1(8) [unfolded z]]) (auto elim!: bindE dest: enqueue_flags_conn)
      have P4: "pcb_lists_ok s4" using P2 pcb_lists_outline [OF o4] by simp
      have c4: "conn_state s4 x \<noteq> Some CLOSED" using outline_eq(5) [OF o4, of x] 1(6) p by auto
      show ?case
      proof (cases "rc = ERR_OK")
        case True
        with 1(9) z k_output_frame [of E x s4 e s'] P4 pcb_lists_outline [of s' s4] show ?thesis by simp
      next
        case False
        with 1(9) z have "tcp_abandon E x False s4 = Some s'" by (auto elim!: bindE)
        from abandon_lists [OF cb P4 c4 this] show ?thesis .
      qed
    qed
  qed
qed

section \<open>A packet from the network\<close>

text \<open>
  No element of the pool of control blocks that is in use is handed out again: in the state \<open>s\<close> and
  in those that differ from it in the contents of memory and of the control blocks only.
\<close>

definition pools_fresh :: "('f, 'w, 'a) stk_env \<Rightarrow> ('f, 'w, 'a) stk \<Rightarrow> bool" where
  "pools_fresh E s \<longleftrightarrow> (\<forall>s1 prio. pcb_lists_ok s1 \<and> dom (k_next s1) = dom (k_next s) \<and>
     n_memp (k_net s1) = n_memp (k_net s) \<longrightarrow> alloc_fresh E prio s1)"

definition none_refused :: "('f, 'w, 'a) stk \<Rightarrow> bool" where
  "none_refused s \<longleftrightarrow> (\<forall>x p. k_pcbs s x = Some p \<longrightarrow> t_refused_data p = None)"

lemma listen_input_lists:
  assumes cb: "callbacks_ok E" and P: "pcb_lists_ok s" and fr: "\<And>prio. alloc_fresh E prio s"
    and r: "tcp_listen_input E l s = Some (e, s')"
  shows "pcb_lists_ok s'"
proof -
  from r consider "outline s' = outline s" | "listen_syn E l s = Some (e, s')"
    unfolding tcp_listen_input_def by (auto split: if_splits elim!: bindE dest!: rst_reply_frame)
  then show ?thesis using listen_syn_lists [OF cb P fr] pcb_lists_outline P by cases blast+
qed

lemma timewait_input_frame [stk_frame]: "tcp_timewait_input E x s = Some (e, s') \<Longrightarrow> outline s' = outline s"
  unfolding tcp_timewait_input_def Let_def
  by (auto elim!: bindE split: if_splits dest!: rst_reply_frame upd_pcb_frame k_output_frame)

lemma input_none_frame [stk_frame]: "input_none E p s = Some s' \<Longrightarrow> outline s' = outline s"
  unfolding input_none_def by (auto elim!: bindE split: if_splits dest!: rst_reply_frame on_low_frame(3))

lemma input_seg_frame:
  assumes "input_seg p s = Some s'"
  shows "outline s' = outline s" "k_pcbs s' = k_pcbs s" "in_recv_flags (k_in s') = 0"
  using assms unfolding input_seg_def Let_def
  by (auto elim!: bindE split: if_splits simp: on_pk_def on_low_def on_net1_def)

lemma cache_active_front:
  "cache_active q x s = Some s' \<Longrightarrow> to_front L_ACTIVE q x s = Some s'"
  unfolding cache_active_def by (auto elim!: bindE simp: c_assert_def split: if_splits)

lemma input_demux_lists:
  assumes cb: "callbacks_ok E" and P: "pcb_lists_ok s" and fr: "pools_fresh E s" and nr: "none_refused s"
    and r: "input_demux E p s = Some s'"
  shows "pcb_lists_ok s'"
proof -
  obtain f where L: "lists_ok f s" using P unfolding pcb_lists_ok_def by blast
  note D = listsD [OF L]
  from r obtain src dest w where w: "find_active s src dest None (k_head s L_ACTIVE) = Some w"
    and r1: "(case w of
       Some (prev, x) \<Rightarrow> do {
         s \<leftarrow> cache_active prev x s;
         s \<leftarrow> input_seg p s;
         input_pcb E x s }
     | None \<Rightarrow> do {
         r \<leftarrow> pcb_find (tw_matches s src dest) (k_next s) (k_head s L_TW);
         case r of
           Some x \<Rightarrow> do { (_, s) \<leftarrow> tcp_timewait_input E x s; k_pbuf_free E (Some p) s }
         | None \<Rightarrow> do {
             r \<leftarrow> find_listen s dest None (k_head s L_LISTEN);
             case r of
               Some (prev, l) \<Rightarrow> do {
                 s \<leftarrow> to_front L_LISTEN prev l s;
                 (_, s) \<leftarrow> tcp_listen_input E l s;
                 k_pbuf_free E (Some p) s }
             | None \<Rightarrow> input_none E p s } }) = Some s'"
    unfolding input_demux_def by (elim bindE) blast
  show ?thesis
  proof (cases w)
    case (Some q)
    then obtain prev x where q: "w = Some (prev, x)" by (cases q) auto
    with r1 obtain s1 s2 where s1: "cache_active prev x s = Some s1" and s2: "input_seg p s1 = Some s2"
      and s': "input_pcb E x s2 = Some s'" by (auto elim!: bindE)
    from find_active_in [OF w [unfolded q] D(1)] obtain ys zs where
      f: "f L_ACTIVE = ys @ x # zs" "prev = (if ys = [] then None else Some (last ys))" by blast
    note F = to_front_lists [OF L f(1) cache_active_front [OF s1, unfolded f(2)]]
    have P2: "pcb_lists_ok s2" using F(1) pcb_lists_outline [OF input_seg_frame(1) [OF s2]] unfolding pcb_lists_ok_def by blast
    have a: "is_active s x" using is_active_in [OF L] f(1) by simp
    then have a2: "is_active s2 x" using input_seg_frame(2) [OF s2] F(2) by (simp add: is_active_def)
    have "map_option t_refused_data (k_pcbs s2 x) = Some None"
      using a nr input_seg_frame(2) [OF s2] F(2) by (auto simp: is_active_def none_refused_def split: option.splits)
    from input_pcb_lists [OF cb P2 a2 _ this s'] input_seg_frame(3) [OF s2] show ?thesis by (simp add: end_flag_def)
  next
    case None
    with r1 obtain u where u: "(case u of
           Some x \<Rightarrow> do { (_, s) \<leftarrow> tcp_timewait_input E x s; k_pbuf_free E (Some p) s }
         | None \<Rightarrow> do {
             r \<leftarrow> find_listen s dest None (k_head s L_LISTEN);
             case r of
               Some (prev, l) \<Rightarrow> do {
                 s \<leftarrow> to_front L_LISTEN prev l s;
                 (_, s) \<leftarrow> tcp_listen_input E l s;
                 k_pbuf_free E (Some p) s }
             | None \<Rightarrow> input_none E p s }) = Some s'" by (auto elim!: bindE)
    then consider "outline s' = outline s"
      | prev l s1 e s2 where "find_listen s dest None (k_head s L_LISTEN) = Some (Some (prev, l))"
          "to_front L_LISTEN prev l s = Some s1" "tcp_listen_input E l s1 = Some (e, s2)" "outline s' = outline s2"
      by (cases u) (auto elim!: bindE split: option.splits dest!: timewait_input_frame input_none_frame on_low_frame(3))
    then show ?thesis
    proof cases
      case 1
      with P pcb_lists_outline show ?thesis by blast
    next
      case (2 prev l s1 e s2)
      from find_listen_in [OF 2(1) D(1)] obtain ys zs where
        f: "f L_LISTEN = ys @ l # zs" "prev = (if ys = [] then None else Some (last ys))" by blast
      note F = to_front_lists [OF L f(1) 2(2) [unfolded f(2)]]
      have P1: "pcb_lists_ok s1" using F(1) unfolding pcb_lists_ok_def by blast
      have "alloc_fresh E prio s1" for prio using fr P1 F(5, 6) unfolding pools_fresh_def by simp
      from listen_input_lists [OF cb P1 this 2(3)] pcb_lists_outline [OF 2(4)] show ?thesis by simp
    qed
  qed
qed

section \<open>The header\<close>

lemma header_memp: "pbuf_header q k n = Some (r, n') \<Longrightarrow> n_memp n' = n_memp n"
  unfolding pbuf_header_def Let_def by (auto elim!: bindE split: if_splits simp: put_pbuf_def)

lemma write_memp: "st16 a v n = Some n' \<Longrightarrow> n_memp n' = n_memp n" "st32 a w n = Some n' \<Longrightarrow> n_memp n' = n_memp n"
  by (auto simp: st16_def st32_def mem_write_def split: prod.splits option.splits if_splits)

lemma hdr_to_host_memp: "hdr_to_host h n = Some n' \<Longrightarrow> n_memp n' = n_memp n"
  unfolding hdr_to_host_def by (elim bindE) (simp add: write_memp)

lemma input_check_memp: "input_check L p inp src dest n = Some (h, n') \<Longrightarrow> n_memp n' = n_memp n"
  unfolding input_check_def Let_def
  by (auto elim!: bindE split: if_splits dest!: header_memp)

text \<open>The input routine keeps the lists, whatever the packet is.\<close>

lemma input_lists:
  assumes cb: "callbacks_ok E" and P: "pcb_lists_ok s" and fr: "pools_fresh E s" and nr: "none_refused s"
    and r: "tcp_input E p inp src dest s = Some s'"
  shows "pcb_lists_ok s'"
proof -
  from r obtain h n s1 where h: "input_check (ce_low E) p inp src dest (k_net s) = Some (h, n)" and s1: "on_pk (\<lambda>_. Some n) s = Some s1"
    and r1: "(case h of None \<Rightarrow> k_pbuf_free E (Some p) s1
     | Some h \<Rightarrow> do {
         s \<leftarrow> on_pk (hdr_to_host h) s1;
         v \<leftarrow> input_vars p h src dest (k_net s) (k_in s);
         input_demux E p (s\<lparr>k_in := v\<rparr>) }) = Some s'"
    unfolding tcp_input_def by (elim bindE) (auto elim!: bindE)
  have P1: "pcb_lists_ok s1" using P pcb_lists_outline [OF on_low_frame(2) [OF s1]] by simp
  show ?thesis
  proof (cases h)
    case None
    with r1 P1 pcb_lists_outline [of s' s1] on_low_frame(3) [of E "Some p" s1 s'] show ?thesis by simp
  next
    case (Some g)
    with r1 obtain s2 v where s2: "on_pk (hdr_to_host g) s1 = Some s2" and s': "input_demux E p (s2\<lparr>k_in := v\<rparr>) = Some s'"
      by (auto elim!: bindE)
    let ?s = "s2\<lparr>k_in := v\<rparr>"
    have same: "k_next ?s = k_next s" "k_pcbs ?s = k_pcbs s" "n_memp (k_net ?s) = n_memp (k_net s)"
      using s1 s2 input_check_memp [OF h] by (auto simp: on_pk_def on_low_def on_net1_def hdr_to_host_memp elim!: bindE)
    have "pcb_lists_ok ?s" using P1 pcb_lists_outline [OF on_low_frame(2) [OF s2]] pcb_lists_outline [of ?s s2] by simp
    moreover have "pools_fresh E ?s" using fr same unfolding pools_fresh_def by simp
    moreover have "none_refused ?s" using nr same unfolding none_refused_def by simp
    ultimately show ?thesis by (rule input_demux_lists [OF cb _ _ _ s'])
  qed
qed

end
