(* ===== verification/TcpListCalls.thy ===== *)
theory TcpListCalls
  imports TcpListInput
begin

text \<open>
  The interface of the TCP core as a step relation, and the rules of the lists of control blocks as an
  invariant of it.
\<close>

section \<open>What writing leaves alone\<close>



lemma put_last_conn [simp]: "conn_key (put_last g p) = conn_key p" by (simp add: put_last_def)





section \<open>The interface\<close>









section \<open>The lists of control blocks\<close>









end
