(* ===== verification/TcpWindow.thy ===== *)
theory TcpWindow
  imports TcpCore
begin

text \<open>
  The receive window: what \<open>tcp_recved\<close> announces after the application gave bytes back; and the loop of
  \<open>tcp_fasttmr\<close> that does not end.
\<close>

section \<open>Sequence numbers that are close\<close>

lemma sint_of_int32: "- 2147483648 \<le> k \<Longrightarrow> k < 2147483648 \<Longrightarrow> sint (of_int k :: u32) = k"
  by (simp add: signed_of_int signed_take_bit_int_eq_self)

lemma sint_minus32: "unat (a :: u32) < 2147483648 \<Longrightarrow> unat b < 2147483648 \<Longrightarrow> sint (a - b) = int (unat a) - int (unat b)"
proof -
  assume "unat a < 2147483648" "unat b < 2147483648"
  then have "sint (of_int (int (unat a) - int (unat b)) :: u32) = int (unat a) - int (unat b)"
    by (intro sint_of_int32) linarith+
  then show ?thesis by simp
qed

section \<open>The window\<close>

text \<open>How far the peer may send beyond what has been received.\<close>

definition announced :: "'f tcp_pcb \<Rightarrow> u32" where
  "announced p = t_rcv_ann_right_edge p - t_rcv_nxt p"

text \<open>C32: when the application gives received bytes back, the window grows by them, the announced right edge never
  moves back and never beyond the window, the result is exactly by how much it moved, and it moves by at least a segment (or half the window) or
  not at all.\<close>

theorem recved_window:
  assumes "unat (announced p) \<le> unat (t_rcv_wnd p)" and "unat len + unat (t_rcv_wnd p) \<le> unat TCP_WND"
  shows "\<exists>k q. recved_wnd len p = Some (int k, q) \<and> t_rcv_nxt q = t_rcv_nxt p \<and>
    unat (t_rcv_wnd q) = unat (t_rcv_wnd p) + unat len \<and>
    unat (t_rcv_ann_wnd q) = unat (announced p) + k \<and> unat (t_rcv_ann_wnd q) \<le> unat (t_rcv_wnd q) \<and>
    (k = 0 \<or> k \<ge> min (unat TCP_WND div 2) (unat (t_mss p)))"
proof -
  let ?W = "t_rcv_wnd p + len" and ?M = "min (TCP_WND div 2) (t_mss p)" and ?d = "announced p"
  let ?p = "p\<lparr>t_rcv_wnd := ?W\<rparr>"
  have tw: "unat TCP_WND = 2920" "unat (TCP_WND div 2) = 1460" by code_simp+
  have w: "unat ?W = unat (t_rcv_wnd p) + unat len" using assms(2) tw by (simp add: unat_u16_add)
  have W: "unat (ucast ?W :: u32) = unat ?W" and M: "unat (ucast ?M :: u32) = unat ?M"
    using unat_u16_lt [of ?W] unat_u16_lt [of ?M] by (simp_all add: unat_ucast_mod)
  have m: "unat ?M = min 1460 (unat (t_mss p))" using tw by (auto simp: min_def word_le_nat_alt)
  have d: "unat ?d \<le> 2920" using assms tw by simp
  have dM: "unat (?d + ucast ?M) = unat ?d + unat ?M" using d m M by (simp add: unat_word_ariths)
  have eq: "t_rcv_nxt p + ucast ?W - (t_rcv_ann_right_edge p + ucast ?M) = ucast ?W - (?d + ucast ?M)"
    "t_rcv_nxt p + ucast ?W - t_rcv_ann_right_edge p = ucast ?W - ?d" by (simp_all add: announced_def)
  have geq: "TCP_SEQ_GEQ (t_rcv_nxt p + ucast ?W) (t_rcv_ann_right_edge p + ucast ?M) \<longleftrightarrow> unat ?d + unat ?M \<le> unat ?W"
  proof -
    have "sint (ucast ?W - (?d + ucast ?M)) = int (unat ?W) - int (unat ?d + unat ?M)"
      using sint_minus32 [of "ucast ?W" "?d + ucast ?M"] W dM d m w assms(2) tw by (simp del: of_nat_unat)
    then show ?thesis unfolding TCP_SEQ_GEQ_def eq by linarith
  qed
  have gt: "\<not> TCP_SEQ_GT (t_rcv_nxt p) (t_rcv_ann_right_edge p)"
    using sint_minus32 [of 0 ?d] d by (simp add: TCP_SEQ_GT_def announced_def)
  have mn: "min ?W TCP_WND = ?W" using w assms(2) by (simp add: min_def word_le_nat_alt)
  have up: "recved_wnd len p = map_option (\<lambda>(i, q). (sint i, q)) (tcp_update_rcv_ann_wnd ?p)"
    using assms(2) tw by (simp add: recved_wnd_def mn bind_eq_Some_conv) (cases "tcp_update_rcv_ann_wnd ?p"; auto)
  show ?thesis
  proof (cases "unat ?d + unat ?M \<le> unat ?W")
    case True
    have "sint (ucast ?W - ?d) = int (unat ?W) - int (unat ?d)" using sint_minus32 [of "ucast ?W" ?d] d w W assms(2) tw by (simp del: of_nat_unat)
    then have "sint (ucast ?W - ?d) = int (unat ?W - unat ?d)" using True by (simp add: of_nat_diff)
    then show ?thesis using True geq up w m tw
      by (intro exI [of _ "unat ?W - unat ?d"] exI [of _ "?p\<lparr>t_rcv_ann_wnd := ?W\<rparr>"])
        (simp add: tcp_update_rcv_ann_wnd_def Let_def eq, linarith)
  next
    case False
    have "unat (ucast ?d :: u16) = unat ?d" using d by (simp add: unat_ucast_mod)
    moreover have "?d \<le> 0xffff" using d by (simp add: word_le_nat_alt)
    ultimately show ?thesis using False geq gt up w assms(1)
      by (intro exI [of _ 0] exI [of _ "?p\<lparr>t_rcv_ann_wnd := ucast ?d\<rparr>"])
        (simp add: tcp_update_rcv_ann_wnd_def Let_def announced_def [symmetric])
  qed
qed


theorem recved_window_witness:
  "\<exists>q. recved_wnd 1460 ((tcp_pcb_init 64 1000 0 0 ())\<lparr>t_rcv_nxt := 5000, t_rcv_ann_right_edge := 6460, t_rcv_wnd := 1460,
       t_mss := 1460\<rparr>) = Some (1460, q) \<and> t_rcv_ann_wnd q = 2920"
proof -
  let ?p = "(tcp_pcb_init 64 1000 0 0 ())\<lparr>t_rcv_nxt := 5000, t_rcv_ann_right_edge := 6460, t_rcv_wnd := 1460, t_mss := 1460\<rparr>"
  have t: "unat TCP_WND = 2920" by code_simp
  have a: "announced ?p = 1460" by (simp add: announced_def)
  from recved_window [of ?p 1460] obtain k q where r: "recved_wnd 1460 ?p = Some (int k, q)" "unat (t_rcv_ann_wnd q) = 1460 + k"
      "unat (t_rcv_ann_wnd q) \<le> 2920" "k = 0 \<or> 1460 \<le> k"
    by (auto simp: a t)
  have "TCP_SEQ_GEQ 7920 7920" "TCP_WND div 2 = 1460" "min (2920 :: u16) TCP_WND = 2920" by code_simp+
  then have "recved_wnd 1460 ?p = Some (1460, ?p\<lparr>t_rcv_wnd := 2920, t_rcv_ann_wnd := 2920\<rparr>)"
    by (simp add: recved_wnd_def tcp_update_rcv_ann_wnd_def)
  with r show ?thesis by auto
qed

section \<open>The fast timer\<close>

text \<open>At a control block that was already handled in this tick the loop stays for ever.\<close>

lemma fast_loop_never:
  assumes "fast_loop E t s = Some r"
  shows "\<not> (t = Some x \<and> (\<exists>p. k_pcbs s x = Some p \<and> t_last_timer p = k_timer_ctr s))"
proof (rule fast_loop.raw_induct [where P = "\<lambda>E t s r. \<not> (t = Some x \<and> (\<exists>p. k_pcbs s x = Some p \<and> t_last_timer p = k_timer_ctr s))", OF _ assms])
  fix fl :: "('a, 'b, 'c) stk_env \<Rightarrow> nat option \<Rightarrow> ('a, 'b, 'c) stk \<Rightarrow> ('a, 'b, 'c) stk option" and E t s r
  assume ih: "\<And>E t s r. fl E t s = Some r \<Longrightarrow> \<not> (t = Some x \<and> (\<exists>p. k_pcbs s x = Some p \<and> t_last_timer p = k_timer_ctr s))"
    and r: "(case t of None \<Rightarrow> Some s
     | Some x \<Rightarrow> Option.bind (k_pcbs s x) (\<lambda>p.
         if t_last_timer p \<noteq> k_timer_ctr s then
           Option.bind (fast_ack E x (put_pcb x (p\<lparr>t_last_timer := k_timer_ctr s\<rparr>) s)) (\<lambda>s.
             Option.bind (k_next s x) (\<lambda>nx. Option.bind (k_pcbs s x) (\<lambda>p.
               if t_refused_data p \<noteq> None then
                 Option.bind (tcp_process_refused_data E x (s\<lparr>k_changed := False\<rparr>)) (\<lambda>(_, s).
                   if k_changed s then fl E (k_head s L_ACTIVE) s else fl E nx s)
               else fl E nx s)))
         else fl E (Some x) s)) = Some r"
  show "\<not> (t = Some x \<and> (\<exists>p. k_pcbs s x = Some p \<and> t_last_timer p = k_timer_ctr s))"
    using r ih [of E t s r] by auto
qed

theorem fast_loop_hangs:
  "k_pcbs s x = Some p \<Longrightarrow> t_last_timer p = k_timer_ctr s \<Longrightarrow> fast_loop E (Some x) s = None"
  using fast_loop_never [of E "Some x" s _ x] by (cases "fast_loop E (Some x) s") auto

end
