(* ===== verification/LinkTypes.thy ===== *)
theory LinkTypes
  imports TcpIn
begin

text \<open>
  The state of the layers below TCP and UDP: the network interfaces (\<open>netif.h\<close>), the identifier of
  the IP layer, the ARP table (\<open>etharp.c\<close>) and the state of the Ethernet driver, a type variable. It
  takes the place of the state that the TCP theories leave open.
\<close>

section \<open>Interfaces\<close>

datatype eth_addr = EthAddr u8 u8 u8 u8 u8 u8

fun eth_bytes :: "eth_addr \<Rightarrow> u8 list" where
  "eth_bytes (EthAddr a b c d e f) = [a, b, c, d, e, f]"

definition eth_of :: "u8 list \<Rightarrow> eth_addr" where
  "eth_of bs = EthAddr (bs ! 0) (bs ! 1) (bs ! 2) (bs ! 3) (bs ! 4) (bs ! 5)"

text \<open>
  \<open>struct netif\<close>. The functions of an interface are those that \<open>ethernetif_init\<close> and \<open>main\<close> put
  there, so they are not fields; nothing starts DHCP, so \<open>dhcp\<close> is \<open>NULL\<close> throughout.
\<close>

record netdev =
  nd_ip_addr :: u32
  nd_netmask :: u32
  nd_gw :: u32
  nd_state :: "nat option"
  nd_mtu :: u16
  nd_hwaddr_len :: u8
  nd_hwaddr :: eth_addr
  nd_flags :: u8
  nd_name :: "u8 \<times> u8"
  nd_num :: u8

definition NETIF_FLAG_UP :: u8 where "NETIF_FLAG_UP = 0x01"
definition NETIF_FLAG_LINK_UP :: u8 where "NETIF_FLAG_LINK_UP = 0x10"
definition NETIF_FLAG_ETHARP :: u8 where "NETIF_FLAG_ETHARP = 0x20"

definition netif_is_up :: "netdev \<Rightarrow> bool" where
  "netif_is_up d \<longleftrightarrow> nd_flags d AND NETIF_FLAG_UP \<noteq> 0"

text \<open>What the predicates of \<open>ip_addr.c\<close> and the checks of \<open>tcp.c\<close> read of an interface.\<close>

definition addr_netif :: "netdev \<Rightarrow> ip_netif" where
  "addr_netif d = ip_netif.make (nd_ip_addr d) (nd_netmask d) (nd_flags d)"

definition mss_netif :: "netdev \<Rightarrow> netif" where
  "mss_netif d = netif.make (nd_ip_addr d) (nd_mtu d)"

section \<open>The ARP table\<close>

datatype etharp_state = ETHARP_STATE_EMPTY | ETHARP_STATE_PENDING | ETHARP_STATE_STABLE
  | ETHARP_STATE_STABLE_REREQUESTING

record etharp_entry =
  ae_q :: "addr option"
  ae_ipaddr :: u32
  ae_netif :: "nat option"
  ae_ethaddr :: eth_addr
  ae_state :: etharp_state
  ae_ctime :: u8

section \<open>UDP\<close>

text \<open>\<open>struct udp_pcb\<close>. A receive function is a number.\<close>

record udp_pcb =
  u_local_ip :: u32
  u_remote_ip :: u32
  u_so_options :: u8
  u_tos :: u8
  u_ttl :: u8
  u_flags :: u8
  u_local_port :: u16
  u_remote_port :: u16
  u_recv :: "nat option"
  u_recv_arg :: "nat option"

section \<open>Reassembly\<close>

text \<open>
  \<open>struct ip_reassdata\<close>, with the copy of the IP header as its bytes; and \<open>struct ip_reass_helper\<close>, which
  the code lays over the first bytes of a queued fragment and the model keeps beside it.
\<close>

record ip_reassdata =
  rd_next :: "nat option"
  rd_p :: "addr option"
  rd_iphdr :: "u8 list"
  rd_datagram_len :: u16
  rd_flags :: u8
  rd_timer :: u8

record ip_reass_helper =
  rh_next :: "addr option"
  rh_start :: u16
  rh_end :: u16

section \<open>State\<close>

text \<open>
  An interface is the address of its structure; \<open>i_list\<close> are those linked from \<open>netif_list\<close>. So with
  the UDP control blocks and \<open>udp_pcbs\<close>.
\<close>

record 'd ipst =
  i_netifs :: "nat \<Rightarrow> netdev option"
  i_list :: "nat list"
  i_default :: "nat option"
  i_num :: u8
  i_ip_id :: u16
  i_arp :: "etharp_entry list"
  i_cached :: u8
  i_udp :: "nat \<Rightarrow> udp_pcb option"
  i_udp_pcbs :: "nat list"
  i_udp_port :: u16
  i_reass :: "nat \<Rightarrow> ip_reassdata option"
  i_reassdatagrams :: "nat option"
  i_reass_pbufcount :: u16
  i_helper :: "addr \<Rightarrow> ip_reass_helper option"
  i_dev :: 'd

type_synonym 'd ip = "'d ipst low"

text \<open>
  The functions outside: \<open>custom_free_function\<close>, the address in memory of a pointer, the receive
  functions of UDP applications and the output of a frame by the driver.
\<close>

record 'd ip_env =
  ie_cff :: cff_fn
  ie_phys :: "ptr \<Rightarrow> nat"
  ie_udp_recv :: "nat \<Rightarrow> nat option \<Rightarrow> nat \<Rightarrow> addr \<Rightarrow> u32 \<Rightarrow> u16 \<Rightarrow> 'd ip \<Rightarrow> 'd ip option"
  ie_linkoutput :: "nat \<Rightarrow> addr \<Rightarrow> 'd ip \<Rightarrow> (err_t \<times> 'd ip) option"

definition get_netif :: "nat \<Rightarrow> 'd ip \<Rightarrow> netdev option" where
  "get_netif nif s = i_netifs (l_ip s) nif"

definition on_ip :: "('d ipst \<Rightarrow> 'd ipst) \<Rightarrow> 'd ip \<Rightarrow> 'd ip" where
  "on_ip f s = s\<lparr>l_ip := f (l_ip s)\<rparr>"

definition ip_pbuf :: "addr \<Rightarrow> 'd ip \<Rightarrow> pbuf option" where
  "ip_pbuf p s = pbufs (l_net s) p"

definition ip_pbuf_free :: "'d ip_env \<Rightarrow> addr \<Rightarrow> 'd ip \<Rightarrow> 'd ip option" where
  "ip_pbuf_free X p s = do { (_, s) \<leftarrow> on_net (pbuf_free (ie_cff X) (Some p)) s; Some s }"

text \<open>A read and a write of memory, and the two header fields \<open>SMEMCPY\<close> copies.\<close>

definition ip_read :: "ptr \<Rightarrow> nat \<Rightarrow> 'd ip \<Rightarrow> u8 list option" where
  "ip_read a n s = mem_read (l_net s) a n"

definition ip_write :: "ptr \<Rightarrow> u8 list \<Rightarrow> 'd ip \<Rightarrow> 'd ip option" where
  "ip_write a bs = on_net1 (\<lambda>n. mem_write n a bs)"

definition ip_copy :: "ptr \<Rightarrow> ptr \<Rightarrow> nat \<Rightarrow> 'd ip \<Rightarrow> 'd ip option" where
  "ip_copy dst src n s = do { bs \<leftarrow> ip_read src n s; ip_write dst bs s }"

section \<open>Addresses\<close>

definition ip_addr_netcmp :: "u32 \<Rightarrow> u32 \<Rightarrow> u32 \<Rightarrow> bool" where
  "ip_addr_netcmp a b m \<longleftrightarrow> a AND m = b AND m"

definition ip_addr_islinklocal :: "u32 \<Rightarrow> bool" where
  "ip_addr_islinklocal a \<longleftrightarrow> a AND lwip_htonl 0xffff0000 = lwip_htonl 0xa9fe0000"

end
