(* ===== verification/Etharp.thy ===== *)
theory Etharp
  imports LinkTypes
begin

text \<open>
  Address resolution: \<open>netif/etharp.c\<close> as configured (ten entries, no static entries, one packet
  queued per entry). The table is a list of ten entries; an access past it is a fault.
\<close>

section \<open>Constants\<close>

definition ARP_TABLE_SIZE :: nat where "ARP_TABLE_SIZE = 10"
definition ARP_MAXAGE :: u8 where "ARP_MAXAGE = 240"
definition ARP_AGE_REREQUEST_USED :: u8 where "ARP_AGE_REREQUEST_USED = 228"
definition ARP_MAXPENDING :: u8 where "ARP_MAXPENDING = 2"
definition ETHARP_FLAG_TRY_HARD :: u8 where "ETHARP_FLAG_TRY_HARD = 1"
definition ETHARP_FLAG_FIND_ONLY :: u8 where "ETHARP_FLAG_FIND_ONLY = 2"
definition ETHARP_HWADDR_LEN :: u8 where "ETHARP_HWADDR_LEN = 6"
definition SIZEOF_ETH_HDR :: nat where "SIZEOF_ETH_HDR = 14"
definition SIZEOF_ETHARP_PACKET :: u16 where "SIZEOF_ETHARP_PACKET = 42"
definition ETHTYPE_ARP :: u16 where "ETHTYPE_ARP = 0x0806"
definition ETHTYPE_IP :: u16 where "ETHTYPE_IP = 0x0800"
definition HWTYPE_ETHERNET :: u16 where "HWTYPE_ETHERNET = 1"
definition ARP_REQUEST :: u16 where "ARP_REQUEST = 1"
definition ARP_REPLY :: u16 where "ARP_REPLY = 2"
definition ethbroadcast :: eth_addr where "ethbroadcast = EthAddr 0xff 0xff 0xff 0xff 0xff 0xff"
definition ethzero :: eth_addr where "ethzero = EthAddr 0 0 0 0 0 0"

text \<open>The fields of \<open>struct eth_hdr\<close> and \<open>struct etharp_hdr\<close>, by their offset.\<close>

abbreviation (input) "eth_dest h \<equiv> ptr_add h 0"
abbreviation (input) "eth_src h \<equiv> ptr_add h 6"
abbreviation (input) "eth_type h \<equiv> ptr_add h 12"
abbreviation (input) "arp_hwtype h \<equiv> ptr_add h 0"
abbreviation (input) "arp_proto h \<equiv> ptr_add h 2"
abbreviation (input) "arp_hwlen h \<equiv> ptr_add h 4"
abbreviation (input) "arp_protolen h \<equiv> ptr_add h 5"
abbreviation (input) "arp_opcode h \<equiv> ptr_add h 6"
abbreviation (input) "arp_shwaddr h \<equiv> ptr_add h 8"
abbreviation (input) "arp_sipaddr h \<equiv> ptr_add h 14"
abbreviation (input) "arp_dhwaddr h \<equiv> ptr_add h 18"
abbreviation (input) "arp_dipaddr h \<equiv> ptr_add h 24"

section \<open>Entries\<close>

definition arp_at :: "nat \<Rightarrow> 'd ip \<Rightarrow> etharp_entry option" where
  "arp_at i s = (let t = i_arp (l_ip s) in if i < length t then Some (t ! i) else None)"

definition upd_arp :: "nat \<Rightarrow> (etharp_entry \<Rightarrow> etharp_entry) \<Rightarrow> 'd ip \<Rightarrow> 'd ip option" where
  "upd_arp i f s = do {
     e \<leftarrow> arp_at i s;
     Some (on_ip (\<lambda>w. w\<lparr>i_arp := (i_arp w)[i := f e]\<rparr>) s) }"

text \<open>\<open>state >= ETHARP_STATE_STABLE\<close>\<close>

definition is_stable :: "etharp_entry \<Rightarrow> bool" where
  "is_stable e \<longleftrightarrow> ae_state e = ETHARP_STATE_STABLE \<or> ae_state e = ETHARP_STATE_STABLE_REREQUESTING"

definition etharp_free_entry :: "'d ip_env \<Rightarrow> nat \<Rightarrow> 'd ip \<Rightarrow> 'd ip option" where
  "etharp_free_entry X i s = do {
     e \<leftarrow> arp_at i s;
     s \<leftarrow> (case ae_q e of None \<Rightarrow> Some s
          | Some q \<Rightarrow> do { s \<leftarrow> ip_pbuf_free X q s; upd_arp i (\<lambda>e. e\<lparr>ae_q := None\<rparr>) s });
     upd_arp i (\<lambda>e. e\<lparr>ae_state := ETHARP_STATE_EMPTY, ae_ctime := 0, ae_netif := None, ae_ipaddr := 0,
       ae_ethaddr := ethzero\<rparr>) s }"

section \<open>The timer\<close>

definition etharp_age :: "'d ip_env \<Rightarrow> nat \<Rightarrow> 'd ip \<Rightarrow> 'd ip option" where
  "etharp_age X i s = do {
     e \<leftarrow> arp_at i s;
     if ae_state e = ETHARP_STATE_EMPTY then Some s
     else do {
       s \<leftarrow> upd_arp i (\<lambda>e. e\<lparr>ae_ctime := ae_ctime e + 1\<rparr>) s;
       e \<leftarrow> arp_at i s;
       if ae_ctime e \<ge> ARP_MAXAGE \<or> (ae_state e = ETHARP_STATE_PENDING \<and> ae_ctime e \<ge> ARP_MAXPENDING)
       then etharp_free_entry X i s
       else if ae_state e = ETHARP_STATE_STABLE_REREQUESTING
       then upd_arp i (\<lambda>e. e\<lparr>ae_state := ETHARP_STATE_STABLE\<rparr>) s
       else Some s } }"

fun arp_loop :: "(nat \<Rightarrow> 'd ip \<Rightarrow> 'd ip option) \<Rightarrow> nat list \<Rightarrow> 'd ip \<Rightarrow> 'd ip option" where
  "arp_loop f [] s = Some s"
| "arp_loop f (i # is) s = Option.bind (f i s) (arp_loop f is)"

definition etharp_tmr :: "'d ip_env \<Rightarrow> 'd ip \<Rightarrow> 'd ip option" where
  "etharp_tmr X = arp_loop (etharp_age X) [0..<ARP_TABLE_SIZE]"

definition etharp_cleanup_netif :: "'d ip_env \<Rightarrow> nat \<Rightarrow> 'd ip \<Rightarrow> 'd ip option" where
  "etharp_cleanup_netif X nif = arp_loop (\<lambda>i s. do {
     e \<leftarrow> arp_at i s;
     if ae_state e \<noteq> ETHARP_STATE_EMPTY \<and> ae_netif e = Some nif then etharp_free_entry X i s else Some s })
     [0..<ARP_TABLE_SIZE]"

section \<open>Search\<close>

text \<open>
  The local variables of the search: the first empty entry and the oldest ones of each kind, \<open>None\<close>
  for \<open>ARP_TABLE_SIZE\<close>, with their ages.
\<close>

record find_acc =
  fa_empty :: "nat option"
  fa_pending :: "nat option"
  fa_stable :: "nat option"
  fa_queue :: "nat option"
  fa_age_pending :: u8
  fa_age_stable :: u8
  fa_age_queue :: u8

definition find_start :: find_acc where
  "find_start = \<lparr>fa_empty = None, fa_pending = None, fa_stable = None, fa_queue = None,
     fa_age_pending = 0, fa_age_stable = 0, fa_age_queue = 0\<rparr>"

definition find_oldest :: "nat \<Rightarrow> etharp_entry \<Rightarrow> find_acc \<Rightarrow> find_acc" where
  "find_oldest i e a =
     (if ae_state e = ETHARP_STATE_PENDING then
        if ae_q e \<noteq> None then
          if ae_ctime e \<ge> fa_age_queue a then a\<lparr>fa_queue := Some i, fa_age_queue := ae_ctime e\<rparr> else a
        else
          if ae_ctime e \<ge> fa_age_pending a then a\<lparr>fa_pending := Some i, fa_age_pending := ae_ctime e\<rparr> else a
      else if is_stable e then
        if ae_ctime e \<ge> fa_age_stable a then a\<lparr>fa_stable := Some i, fa_age_stable := ae_ctime e\<rparr> else a
      else a)"

text \<open>The loop: the entry of the address, or what else was found.\<close>

fun find_scan :: "u32 option \<Rightarrow> nat \<Rightarrow> etharp_entry list \<Rightarrow> find_acc \<Rightarrow> nat + find_acc" where
  "find_scan ipaddr i [] a = Inr a"
| "find_scan ipaddr i (e # es) a =
     (if fa_empty a = None \<and> ae_state e = ETHARP_STATE_EMPTY
      then find_scan ipaddr (Suc i) es (a\<lparr>fa_empty := Some i\<rparr>)
      else if ae_state e \<noteq> ETHARP_STATE_EMPTY then
        if ipaddr = Some (ae_ipaddr e) then Inl i
        else find_scan ipaddr (Suc i) es (find_oldest i e a)
      else find_scan ipaddr (Suc i) es a)"

text \<open>The entry that is given up when none is empty.\<close>

definition find_victim :: "find_acc \<Rightarrow> 'd ip \<Rightarrow> nat option option" where
  "find_victim a s = (case fa_stable a of
       Some i \<Rightarrow> do { e \<leftarrow> arp_at i s; c_assert (ae_q e = None); Some (Some i) }
     | None \<Rightarrow> (case fa_pending a of Some i \<Rightarrow> Some (Some i) | None \<Rightarrow> Some (fa_queue a)))"

text \<open>The index, or \<open>None\<close> for \<open>ERR_MEM\<close>.\<close>

definition etharp_find_entry :: "'d ip_env \<Rightarrow> u32 option \<Rightarrow> u8 \<Rightarrow> 'd ip \<Rightarrow> (nat option \<times> 'd ip) option" where
  "etharp_find_entry X ipaddr flags s = (case find_scan ipaddr 0 (i_arp (l_ip s)) find_start of
       Inl i \<Rightarrow> Some (Some i, s)
     | Inr a \<Rightarrow>
         if flags AND ETHARP_FLAG_FIND_ONLY \<noteq> 0 \<or> (fa_empty a = None \<and> flags AND ETHARP_FLAG_TRY_HARD = 0)
         then Some (None, s)
         else do {
           (i, s) \<leftarrow> (case fa_empty a of
                Some i \<Rightarrow> Some (Some i, s)
              | None \<Rightarrow> do {
                  v \<leftarrow> find_victim a s;
                  case v of None \<Rightarrow> Some (None, s)
                  | Some i \<Rightarrow> do { s \<leftarrow> etharp_free_entry X i s; Some (Some i, s) } });
           case i of None \<Rightarrow> Some (None, s)
           | Some i \<Rightarrow> do {
               e \<leftarrow> arp_at i s;
               c_assert (ae_state e = ETHARP_STATE_EMPTY);
               s \<leftarrow> (case ipaddr of None \<Rightarrow> Some s | Some a \<Rightarrow> upd_arp i (\<lambda>e. e\<lparr>ae_ipaddr := a\<rparr>) s);
               s \<leftarrow> upd_arp i (\<lambda>e. e\<lparr>ae_ctime := 0\<rparr>) s;
               Some (Some i, s) } })"

section \<open>Sending\<close>

definition etharp_send_ip :: "'d ip_env \<Rightarrow> nat \<Rightarrow> addr \<Rightarrow> eth_addr \<Rightarrow> 'd ip \<Rightarrow> (err_t \<times> 'd ip) option" where
  "etharp_send_ip X nif p dst s = do {
     b \<leftarrow> ip_pbuf p s;
     h \<leftarrow> pb_payload b;
     d \<leftarrow> get_netif nif s;
     c_assert (nd_hwaddr_len d = ETHARP_HWADDR_LEN);
     s \<leftarrow> ip_write (eth_dest h) (eth_bytes dst) s;
     s \<leftarrow> ip_write (eth_src h) (eth_bytes (nd_hwaddr d)) s;
     s \<leftarrow> on_net1 (st16 (eth_type h) (lwip_htons ETHTYPE_IP)) s;
     ie_linkoutput X nif p s }"

definition etharp_update_arp_entry ::
  "'d ip_env \<Rightarrow> nat \<Rightarrow> u32 \<Rightarrow> eth_addr \<Rightarrow> u8 \<Rightarrow> 'd ip \<Rightarrow> (err_t \<times> 'd ip) option" where
  "etharp_update_arp_entry X nif ipaddr ethaddr flags s = do {
     d \<leftarrow> get_netif nif s;
     c_assert (nd_hwaddr_len d = ETHARP_HWADDR_LEN);
     if ipaddr = 0 \<or> ip4_addr_isbroadcast ipaddr (addr_netif d) \<or> ip_addr_ismulticast ipaddr
     then Some (ERR_ARG, s)
     else do {
       (i, s) \<leftarrow> etharp_find_entry X (Some ipaddr) flags s;
       case i of None \<Rightarrow> Some (ERR_MEM, s)
       | Some i \<Rightarrow> do {
           s \<leftarrow> upd_arp i (\<lambda>e. e\<lparr>ae_state := ETHARP_STATE_STABLE, ae_netif := Some nif,
             ae_ethaddr := ethaddr, ae_ctime := 0\<rparr>) s;
           e \<leftarrow> arp_at i s;
           case ae_q e of None \<Rightarrow> Some (ERR_OK, s)
           | Some p \<Rightarrow> do {
               s \<leftarrow> upd_arp i (\<lambda>e. e\<lparr>ae_q := None\<rparr>) s;
               (_, s) \<leftarrow> etharp_send_ip X nif p ethaddr s;
               s \<leftarrow> ip_pbuf_free X p s;
               Some (ERR_OK, s) } } } }"

definition etharp_find_addr :: "'d ip_env \<Rightarrow> u32 \<Rightarrow> 'd ip \<Rightarrow> ((nat \<times> eth_addr \<times> u32) option \<times> 'd ip) option" where
  "etharp_find_addr X ipaddr s = do {
     (i, s) \<leftarrow> etharp_find_entry X (Some ipaddr) ETHARP_FLAG_FIND_ONLY s;
     case i of None \<Rightarrow> Some (None, s)
     | Some i \<Rightarrow> do {
         e \<leftarrow> arp_at i s;
         Some (if is_stable e then Some (i, ae_ethaddr e, ae_ipaddr e) else None, s) } }"

section \<open>Requests\<close>

definition etharp_raw ::
  "'d ip_env \<Rightarrow> nat \<Rightarrow> eth_addr \<Rightarrow> eth_addr \<Rightarrow> eth_addr \<Rightarrow> u32 \<Rightarrow> eth_addr \<Rightarrow> u32 \<Rightarrow> u16 \<Rightarrow> 'd ip \<Rightarrow>
     (err_t \<times> 'd ip) option" where
  "etharp_raw X nif ethsrc ethdst hwsrc ipsrc hwdst ipdst opcode s = do {
     (p, s) \<leftarrow> on_net (pbuf_alloc (ie_cff X) PBUF_RAW SIZEOF_ETHARP_PACKET PBUF_RAM) s;
     case p of None \<Rightarrow> Some (ERR_MEM, s)
     | Some p \<Rightarrow> do {
         b \<leftarrow> ip_pbuf p s;
         c_assert (pb_len b \<ge> SIZEOF_ETHARP_PACKET);
         eh \<leftarrow> pb_payload b;
         let h = ptr_add eh SIZEOF_ETH_HDR;
         s \<leftarrow> on_net1 (st16 (arp_opcode h) (lwip_htons opcode)) s;
         d \<leftarrow> get_netif nif s;
         c_assert (nd_hwaddr_len d = ETHARP_HWADDR_LEN);
         s \<leftarrow> ip_write (arp_shwaddr h) (eth_bytes hwsrc) s;
         s \<leftarrow> ip_write (arp_dhwaddr h) (eth_bytes hwdst) s;
         s \<leftarrow> ip_write (eth_dest eh) (eth_bytes ethdst) s;
         s \<leftarrow> ip_write (eth_src eh) (eth_bytes ethsrc) s;
         s \<leftarrow> on_net1 (st32 (arp_sipaddr h) ipsrc) s;
         s \<leftarrow> on_net1 (st32 (arp_dipaddr h) ipdst) s;
         s \<leftarrow> on_net1 (st16 (arp_hwtype h) (lwip_htons HWTYPE_ETHERNET)) s;
         s \<leftarrow> on_net1 (st16 (arp_proto h) (lwip_htons ETHTYPE_IP)) s;
         s \<leftarrow> ip_write (arp_hwlen h) [ETHARP_HWADDR_LEN] s;
         s \<leftarrow> ip_write (arp_protolen h) [4] s;
         s \<leftarrow> on_net1 (st16 (eth_type eh) (lwip_htons ETHTYPE_ARP)) s;
         (result, s) \<leftarrow> ie_linkoutput X nif p s;
         s \<leftarrow> ip_pbuf_free X p s;
         Some (result, s) } }"

definition etharp_request :: "'d ip_env \<Rightarrow> nat \<Rightarrow> u32 \<Rightarrow> 'd ip \<Rightarrow> (err_t \<times> 'd ip) option" where
  "etharp_request X nif ipaddr s = do {
     d \<leftarrow> get_netif nif s;
     etharp_raw X nif (nd_hwaddr d) ethbroadcast (nd_hwaddr d) (nd_ip_addr d) ethzero ipaddr ARP_REQUEST s }"

definition etharp_gratuitous :: "'d ip_env \<Rightarrow> nat \<Rightarrow> 'd ip \<Rightarrow> (err_t \<times> 'd ip) option" where
  "etharp_gratuitous X nif s = do { d \<leftarrow> get_netif nif s; etharp_request X nif (nd_ip_addr d) s }"

section \<open>Queries\<close>

text \<open>The first pbuf that is not a \<open>PBUF_ROM\<close>; with one the packet has to be copied.\<close>

partial_function (option) query_copy :: "net \<Rightarrow> addr option \<Rightarrow> addr option option" where
  "query_copy n p = (case p of None \<Rightarrow> Some None
     | Some a \<Rightarrow> Option.bind (pbufs n a) (\<lambda>b.
         if pb_len b = pb_tot_len b \<and> pb_next b \<noteq> None then None
         else if pb_type b \<noteq> PBUF_ROM then Some (Some a)
         else query_copy n (pb_next b)))"

text \<open>
  What is queued: a copy, or the packet itself with one more reference; \<open>None\<close> without memory. The
  copy has the total length of the pbuf at which the loop stopped.
\<close>

definition query_packet :: "'d ip_env \<Rightarrow> addr \<Rightarrow> 'd ip \<Rightarrow> (addr option \<times> 'd ip) option" where
  "query_packet X q s = do {
     r \<leftarrow> query_copy (l_net s) (Some q);
     case r of Some a \<Rightarrow> do {
       b \<leftarrow> ip_pbuf a s;
       (p, s) \<leftarrow> on_net (pbuf_alloc (ie_cff X) PBUF_RAW (pb_tot_len b) PBUF_RAM) s;
       case p of None \<Rightarrow> Some (None, s)
       | Some p \<Rightarrow> do {
           (e, s) \<leftarrow> on_net (pbuf_copy (Some p) (Some q)) s;
           if e \<noteq> ERR_OK then do { s \<leftarrow> ip_pbuf_free X p s; Some (None, s) }
           else Some (Some p, s) } }
     | None \<Rightarrow> do { s \<leftarrow> on_net1 (pbuf_ref (Some q)) s; Some (Some q, s) } }"

text \<open>The packet takes the place of the one queued before.\<close>

definition query_queue :: "'d ip_env \<Rightarrow> nat \<Rightarrow> addr \<Rightarrow> 'd ip \<Rightarrow> (err_t \<times> 'd ip) option" where
  "query_queue X i q s = do {
     (p, s) \<leftarrow> query_packet X q s;
     case p of None \<Rightarrow> Some (ERR_MEM, s)
     | Some p \<Rightarrow> do {
         e \<leftarrow> arp_at i s;
         s \<leftarrow> (case ae_q e of None \<Rightarrow> Some s | Some old \<Rightarrow> ip_pbuf_free X old s);
         s \<leftarrow> upd_arp i (\<lambda>e. e\<lparr>ae_q := Some p\<rparr>) s;
         Some (ERR_OK, s) } }"

definition set_cached :: "nat \<Rightarrow> 'd ip \<Rightarrow> 'd ip" where
  "set_cached i = on_ip (\<lambda>w. w\<lparr>i_cached := of_nat i\<rparr>)"

definition etharp_query :: "'d ip_env \<Rightarrow> nat \<Rightarrow> u32 \<Rightarrow> addr option \<Rightarrow> 'd ip \<Rightarrow> (err_t \<times> 'd ip) option" where
  "etharp_query X nif ipaddr q s = do {
     d \<leftarrow> get_netif nif s;
     if ip4_addr_isbroadcast ipaddr (addr_netif d) \<or> ip_addr_ismulticast ipaddr \<or> ipaddr = 0
     then Some (ERR_ARG, s)
     else do {
       (i, s) \<leftarrow> etharp_find_entry X (Some ipaddr) ETHARP_FLAG_TRY_HARD s;
       case i of None \<Rightarrow> Some (ERR_MEM, s)
       | Some i \<Rightarrow> do {
           e \<leftarrow> arp_at i s;
           s \<leftarrow> (if ae_state e = ETHARP_STATE_EMPTY then upd_arp i (\<lambda>e. e\<lparr>ae_state := ETHARP_STATE_PENDING\<rparr>) s
                else Some s);
           e \<leftarrow> arp_at i s;
           (result, s) \<leftarrow> (if ae_state e = ETHARP_STATE_PENDING \<or> q = None then etharp_request X nif ipaddr s
                          else Some (ERR_MEM, s));
           case q of None \<Rightarrow> Some (result, s)
           | Some q \<Rightarrow> do {
               e \<leftarrow> arp_at i s;
               if is_stable e then etharp_send_ip X nif q (ae_ethaddr e) (set_cached i s)
               else if ae_state e = ETHARP_STATE_PENDING then query_queue X i q s
               else Some (result, s) } } } }"

section \<open>Output\<close>

definition etharp_output_to_arp_index :: "'d ip_env \<Rightarrow> nat \<Rightarrow> addr \<Rightarrow> nat \<Rightarrow> 'd ip \<Rightarrow> (err_t \<times> 'd ip) option" where
  "etharp_output_to_arp_index X nif q i s = do {
     e \<leftarrow> arp_at i s;
     c_assert (is_stable e);
     s \<leftarrow> (if ae_state e = ETHARP_STATE_STABLE \<and> ae_ctime e \<ge> ARP_AGE_REREQUEST_USED then do {
            (r, s) \<leftarrow> etharp_request X nif (ae_ipaddr e) s;
            if r = ERR_OK then upd_arp i (\<lambda>e. e\<lparr>ae_state := ETHARP_STATE_STABLE_REREQUESTING\<rparr>) s
            else Some s }
          else Some s);
     e \<leftarrow> arp_at i s;
     etharp_send_ip X nif q (ae_ethaddr e) s }"

text \<open>The Ethernet address of an IP multicast group.\<close>

definition mcast_addr :: "u32 \<Rightarrow> eth_addr" where
  "mcast_addr a = EthAddr 0x01 0x00 0x5e (ucast (drop_bit 8 a) AND 0x7f) (ucast (drop_bit 16 a)) (ucast (drop_bit 24 a))"

text \<open>The address to resolve: the destination, or the gateway; \<open>None\<close> when there is no gateway.\<close>

definition next_hop :: "netdev \<Rightarrow> u32 \<Rightarrow> u32 option" where
  "next_hop d a = (if \<not> ip_addr_netcmp a (nd_ip_addr d) (nd_netmask d) \<and> \<not> ip_addr_islinklocal a
     then if nd_gw d \<noteq> 0 then Some (nd_gw d) else None else Some a)"

fun find_stable :: "u32 \<Rightarrow> nat \<Rightarrow> etharp_entry list \<Rightarrow> nat option" where
  "find_stable a i [] = None"
| "find_stable a i (e # es) = (if is_stable e \<and> a = ae_ipaddr e then Some i else find_stable a (Suc i) es)"

definition etharp_output_unicast :: "'d ip_env \<Rightarrow> nat \<Rightarrow> addr \<Rightarrow> u32 \<Rightarrow> 'd ip \<Rightarrow> (err_t \<times> 'd ip) option" where
  "etharp_output_unicast X nif q dst s = do {
     e \<leftarrow> arp_at (unat (i_cached (l_ip s))) s;
     if is_stable e \<and> dst = ae_ipaddr e then etharp_output_to_arp_index X nif q (unat (i_cached (l_ip s))) s
     else case find_stable dst 0 (take ARP_TABLE_SIZE (i_arp (l_ip s))) of
       Some i \<Rightarrow> etharp_output_to_arp_index X nif q i (set_cached i s)
     | None \<Rightarrow> etharp_query X nif dst (Some q) s }"

definition etharp_output :: "'d ip_env \<Rightarrow> nat \<Rightarrow> addr \<Rightarrow> u32 \<Rightarrow> 'd ip \<Rightarrow> (err_t \<times> 'd ip) option" where
  "etharp_output X nif q ipaddr s = do {
     d \<leftarrow> get_netif nif s;
     (r, s) \<leftarrow> on_net (pbuf_header (Some q) (of_nat SIZEOF_ETH_HDR)) s;
     if r \<noteq> 0 then Some (ERR_BUF, s)
     else if ip4_addr_isbroadcast ipaddr (addr_netif d) then etharp_send_ip X nif q ethbroadcast s
     else if ip_addr_ismulticast ipaddr then etharp_send_ip X nif q (mcast_addr ipaddr) s
     else case next_hop d ipaddr of None \<Rightarrow> Some (ERR_RTE, s)
       | Some dst \<Rightarrow> etharp_output_unicast X nif q dst s }"

section \<open>Packets\<close>

text \<open>The request becomes the reply, in place.\<close>

definition arp_reply :: "'d ip_env \<Rightarrow> nat \<Rightarrow> addr \<Rightarrow> ptr \<Rightarrow> 'd ip \<Rightarrow> 'd ip option" where
  "arp_reply X nif p eh s = do {
     d \<leftarrow> get_netif nif s;
     let h = ptr_add eh SIZEOF_ETH_HDR;
     s \<leftarrow> on_net1 (st16 (arp_opcode h) (lwip_htons ARP_REPLY)) s;
     s \<leftarrow> ip_copy (arp_dipaddr h) (arp_sipaddr h) 4 s;
     s \<leftarrow> on_net1 (st32 (arp_sipaddr h) (nd_ip_addr d)) s;
     c_assert (nd_hwaddr_len d = ETHARP_HWADDR_LEN);
     s \<leftarrow> ip_copy (arp_dhwaddr h) (arp_shwaddr h) 6 s;
     s \<leftarrow> ip_copy (eth_dest eh) (arp_shwaddr h) 6 s;
     s \<leftarrow> ip_write (arp_shwaddr h) (eth_bytes (nd_hwaddr d)) s;
     s \<leftarrow> ip_write (eth_src eh) (eth_bytes (nd_hwaddr d)) s;
     (_, s) \<leftarrow> ie_linkoutput X nif p s;
     Some s }"

definition etharp_arp_input :: "'d ip_env \<Rightarrow> nat \<Rightarrow> addr \<Rightarrow> 'd ip \<Rightarrow> 'd ip option" where
  "etharp_arp_input X nif p s = do {
     d \<leftarrow> get_netif nif s;
     b \<leftarrow> ip_pbuf p s;
     if pb_len b < SIZEOF_ETHARP_PACKET then ip_pbuf_free X p s
     else do {
       eh \<leftarrow> pb_payload b;
       let h = ptr_add eh SIZEOF_ETH_HDR;
       hwtype \<leftarrow> ld16 (l_net s) (arp_hwtype h);
       hwlen \<leftarrow> ld8 (l_net s) (arp_hwlen h);
       protolen \<leftarrow> ld8 (l_net s) (arp_protolen h);
       proto \<leftarrow> ld16 (l_net s) (arp_proto h);
       if hwtype \<noteq> lwip_htons HWTYPE_ETHERNET \<or> hwlen \<noteq> ETHARP_HWADDR_LEN \<or> protolen \<noteq> 4 \<or>
          proto \<noteq> lwip_htons ETHTYPE_IP
       then ip_pbuf_free X p s
       else do {
         sip \<leftarrow> ld32 (l_net s) (arp_sipaddr h);
         dip \<leftarrow> ld32 (l_net s) (arp_dipaddr h);
         sha \<leftarrow> ip_read (arp_shwaddr h) 6 s;
         let for_us = (nd_ip_addr d \<noteq> 0 \<and> dip = nd_ip_addr d);
         (_, s) \<leftarrow> etharp_update_arp_entry X nif sip (eth_of sha)
                    (if for_us then ETHARP_FLAG_TRY_HARD else ETHARP_FLAG_FIND_ONLY) s;
         opcode \<leftarrow> ld16 (l_net s) (arp_opcode h);
         s \<leftarrow> (if opcode = lwip_htons ARP_REQUEST \<and> for_us then arp_reply X nif p eh s else Some s);
         ip_pbuf_free X p s } } }"

end
