(* ===== verification/IpFrag.thy ===== *)
theory IpFrag
  imports Etharp "HOL-Library.Signed_Division"
begin

text \<open>
  The IP header in memory, and the sending half of \<open>core/ipv4/ip_frag.c\<close>: a packet larger than the MTU is cut into
  fragments that refer to its data with custom pbufs. \<open>pcr->original\<close> of the custom pbufs of a call is the map
  \<open>orig\<close>; a driver that keeps one after the call frees it with the \<open>custom_free_function\<close> of the environment.
\<close>

section \<open>The header\<close>

definition IP_HLEN :: nat where "IP_HLEN = 20"
definition IP_PROTO_ICMP :: u8 where "IP_PROTO_ICMP = 1"
definition IP_PROTO_UDP :: u8 where "IP_PROTO_UDP = 17"

abbreviation (input) "iph_vhl h \<equiv> ptr_add h 0"
abbreviation (input) "iph_tos h \<equiv> ptr_add h 1"
abbreviation (input) "iph_len h \<equiv> ptr_add h 2"
abbreviation (input) "iph_id h \<equiv> ptr_add h 4"
abbreviation (input) "iph_offset h \<equiv> ptr_add h 6"
abbreviation (input) "iph_ttl h \<equiv> ptr_add h 8"
abbreviation (input) "iph_proto h \<equiv> ptr_add h 9"
abbreviation (input) "iph_chksum h \<equiv> ptr_add h 10"
abbreviation (input) "iph_src h \<equiv> ptr_add h 12"
abbreviation (input) "iph_dest h \<equiv> ptr_add h 16"

text \<open>A byte and a halfword stored.\<close>

definition put8 :: "ptr \<Rightarrow> u8 \<Rightarrow> 'd ip \<Rightarrow> 'd ip option" where "put8 a v = ip_write a [v]"
definition put16 :: "ptr \<Rightarrow> u16 \<Rightarrow> 'd ip \<Rightarrow> 'd ip option" where "put16 a v = on_net1 (st16 a v)"
definition put32 :: "ptr \<Rightarrow> u32 \<Rightarrow> 'd ip \<Rightarrow> 'd ip option" where "put32 a v = on_net1 (st32 a v)"

definition IP_OFFMASK :: u16 where "IP_OFFMASK = 0x1fff"
definition IP_MF :: u16 where "IP_MF = 0x2000"

text \<open>\<open>inet_chksum\<close> over memory.\<close>

definition mem_chksum :: "'d ip_env \<Rightarrow> ptr \<Rightarrow> nat \<Rightarrow> 'd ip \<Rightarrow> u16 option" where
  "mem_chksum X a n s = do { bs \<leftarrow> ip_read a n s; Some (inet_chksum (ie_phys X a) bs) }"

section \<open>Custom pbufs\<close>

definition MEMP_FRAG_PBUF :: memp_t where "MEMP_FRAG_PBUF = 6"

type_synonym originals = "addr \<Rightarrow> addr option"

definition ip_frag_alloc_pbuf_custom_ref :: "net \<Rightarrow> (nat option \<times> net) option" where
  "ip_frag_alloc_pbuf_custom_ref s = do {
     (x, mp) \<leftarrow> memp_malloc MEMP_FRAG_PBUF (n_memp s); Some (x, s\<lparr>n_memp := mp\<rparr>) }"

definition ip_frag_free_pbuf_custom_ref :: "nat option \<Rightarrow> net \<Rightarrow> net option" where
  "ip_frag_free_pbuf_custom_ref p s = do {
     c_assert (p \<noteq> None);
     mp \<leftarrow> memp_free MEMP_FRAG_PBUF p (n_memp s); Some (s\<lparr>n_memp := mp\<rparr>) }"

definition ipfrag_free_pbuf_custom :: "cff_fn \<Rightarrow> originals \<Rightarrow> addr \<Rightarrow> net \<Rightarrow> net option" where
  "ipfrag_free_pbuf_custom cff orig p s = do {
     s \<leftarrow> (case orig p of None \<Rightarrow> Some s | Some q \<Rightarrow> do { (_, s) \<leftarrow> pbuf_free cff (Some q) s; Some s });
     case p of MempAddr x \<Rightarrow> ip_frag_free_pbuf_custom_ref (Some x) s | _ \<Rightarrow> None }"

text \<open>\<open>custom_free_function\<close> of a pbuf: that of a fragment, or the one it had before.\<close>

definition frag_cff :: "cff_fn \<Rightarrow> originals \<Rightarrow> cff_fn" where
  "frag_cff cff orig p s = (if orig p = None then cff p s else ipfrag_free_pbuf_custom cff orig p s)"

section \<open>Fragmentation\<close>

text \<open>
  The inner loop: \<open>left\<close> bytes from the pbuf \<open>p\<close> on are put behind \<open>rambuf\<close>. The result is \<open>ERR_MEM\<close>, or \<open>p\<close>, the size of the
  last piece and the originals.
\<close>

partial_function (option) frag_mirror ::
  "cff_fn \<Rightarrow> addr \<Rightarrow> addr option \<Rightarrow> u16 \<Rightarrow> u16 \<Rightarrow> originals \<Rightarrow> net \<Rightarrow>
    ((addr option \<times> u16 \<times> originals) option \<times> net) option" where
  "frag_mirror cff rambuf p left newpbuflen orig s = (
     if left = 0 then Some (Some (p, newpbuflen, orig), s)
     else case p of None \<Rightarrow> None
     | Some pa \<Rightarrow> Option.bind (pbufs s pa) (\<lambda>b.
         let newpbuflen = (if left < pb_len b then left else pb_len b) in
         if newpbuflen = 0 then frag_mirror cff rambuf (pb_next b) left newpbuflen orig s
         else Option.bind (ip_frag_alloc_pbuf_custom_ref s) (\<lambda>(pcr, s).
           case pcr of None \<Rightarrow>
             Option.bind (pbuf_free (frag_cff cff orig) (Some rambuf) s) (\<lambda>(_, s). Some (None, s))
           | Some x \<Rightarrow>
             Option.bind (pbuf_alloced_custom PBUF_RAW newpbuflen PBUF_REF (MempAddr x) (pb_payload b) newpbuflen s) (\<lambda>(newpbuf, s).
               case newpbuf of None \<Rightarrow>
                 Option.bind (ip_frag_free_pbuf_custom_ref (Some x) s) (\<lambda>s.
                 Option.bind (pbuf_free (frag_cff cff orig) (Some rambuf) s) (\<lambda>(_, s). Some (None, s)))
               | Some q \<Rightarrow>
                 Option.bind (pbuf_ref (Some pa) s) (\<lambda>s.
                 let orig = orig(q \<mapsto> pa) in
                 Option.bind (pbuf_cat (Some rambuf) (Some q) s) (\<lambda>s.
                 let left = left - newpbuflen in
                 Option.bind (pbufs s pa) (\<lambda>b.
                 frag_mirror cff rambuf (if left \<noteq> 0 then pb_next b else p) left newpbuflen orig s)))))))"

text \<open>The header of a fragment.\<close>

definition frag_header :: "'d ip_env \<Rightarrow> ptr \<Rightarrow> u16 \<Rightarrow> u16 \<Rightarrow> 'd ip \<Rightarrow> 'd ip option" where
  "frag_header X h tmp cop s = do {
     s \<leftarrow> put16 (iph_offset h) (lwip_htons tmp) s;
     s \<leftarrow> put16 (iph_len h) (lwip_htons (cop + of_nat IP_HLEN)) s;
     s \<leftarrow> put16 (iph_chksum h) 0 s;
     c \<leftarrow> mem_chksum X h IP_HLEN s;
     put16 (iph_chksum h) c s }"

text \<open>
  One pass of the outer loop: the fragment of \<open>cop\<close> bytes, sent and freed. The result is \<open>ERR_MEM\<close>, or what the next pass
  starts from.
\<close>

definition frag_one ::
  "'d ip_env \<Rightarrow> nat \<Rightarrow> u32 \<Rightarrow> ptr \<Rightarrow> u16 \<Rightarrow> u16 \<Rightarrow> addr option \<Rightarrow> u16 \<Rightarrow> u16 \<Rightarrow> originals \<Rightarrow> 'd ip \<Rightarrow>
    ((addr option \<times> u16 \<times> originals) option \<times> 'd ip) option" where
  "frag_one X nif dest original_iphdr tmp cop p poff newpbuflen orig s = do {
     (rambuf, s) \<leftarrow> on_net (pbuf_alloc (frag_cff (ie_cff X) orig) PBUF_LINK (of_nat IP_HLEN) PBUF_RAM) s;
     case rambuf of None \<Rightarrow> Some (None, s)
     | Some rambuf \<Rightarrow> do {
         p \<leftarrow> p;
         b \<leftarrow> ip_pbuf p s;
         c_assert (unat (pb_len b) \<ge> IP_HLEN);
         rb \<leftarrow> ip_pbuf rambuf s;
         iphdr \<leftarrow> pb_payload rb;
         s \<leftarrow> ip_copy iphdr original_iphdr IP_HLEN s;
         s \<leftarrow> on_net1 (\<lambda>n. Some (put_pbuf p (b\<lparr>pb_payload := map_option (\<lambda>a. ptr_add a (unat poff)) (pb_payload b),
                pb_len := pb_len b - poff\<rparr>) n)) s;
         (r, s) \<leftarrow> on_net (frag_mirror (ie_cff X) rambuf (Some p) cop newpbuflen orig) s;
         case r of None \<Rightarrow> Some (None, s)
         | Some (p, newpbuflen, orig) \<Rightarrow> do {
             s \<leftarrow> frag_header X iphdr tmp cop s;
             let X' = X\<lparr>ie_cff := frag_cff (ie_cff X) orig\<rparr>;
             (_, s) \<leftarrow> etharp_output X' nif rambuf dest s;
             s \<leftarrow> ip_pbuf_free X' rambuf s;
             Some (Some (p, newpbuflen, orig), s) } } }"

partial_function (option) frag_loop ::
  "'d ip_env \<Rightarrow> nat \<Rightarrow> u32 \<Rightarrow> ptr \<Rightarrow> u16 \<Rightarrow> u16 \<Rightarrow> u16 \<Rightarrow> addr option \<Rightarrow> u16 \<Rightarrow> u16 \<Rightarrow> u16 \<Rightarrow> u16 \<Rightarrow> originals \<Rightarrow> 'd ip \<Rightarrow>
    (err_t \<times> 'd ip) option" where
  "frag_loop X nif dest original_iphdr mtu nfb omf p ofo left poff newpbuflen orig s = (
     if left = 0 then Some (ERR_OK, s)
     else
       let last' = int (unat left) \<le> int (unat mtu) - int IP_HLEN;
           tmp = omf OR (IP_OFFMASK AND ofo);
           tmp = (if last' then tmp else tmp OR IP_MF);
           cop = (if last' then left else nfb * 8) in
       Option.bind (frag_one X nif dest original_iphdr tmp cop p poff newpbuflen orig s) (\<lambda>(r, s).
         case r of None \<Rightarrow> Some (ERR_MEM, s)
         | Some (p, newpbuflen, orig) \<Rightarrow>
             frag_loop X nif dest original_iphdr mtu nfb omf p (ofo + nfb) (left - cop) newpbuflen newpbuflen orig s))"

definition ip_frag :: "'d ip_env \<Rightarrow> addr \<Rightarrow> nat \<Rightarrow> u32 \<Rightarrow> 'd ip \<Rightarrow> (err_t \<times> 'd ip) option" where
  "ip_frag X p nif dest s = do {
     d \<leftarrow> get_netif nif s;
     let mtu = nd_mtu d;
     b \<leftarrow> ip_pbuf p s;
     original_iphdr \<leftarrow> pb_payload b;
     off \<leftarrow> ld16 (l_net s) (iph_offset original_iphdr);
     let tmp = lwip_ntohs off;
     let nfb = of_int ((int (unat mtu) - int IP_HLEN) sdiv 8);
     frag_loop X nif dest original_iphdr mtu nfb (tmp AND IP_MF) (Some p) (tmp AND IP_OFFMASK)
       (pb_tot_len b - of_nat IP_HLEN) (of_nat IP_HLEN) 0 Map.empty s }"

end
