(* ===== verification/IpOut.thy ===== *)
theory IpOut
  imports IpFrag
begin

text \<open>
  The sending half of \<open>core/ipv4/ip.c\<close>: routing and output. Packets larger than the MTU of the
  interface go to \<open>ip_frag\<close>.
\<close>

section \<open>Routing\<close>

fun route_in :: "(nat \<Rightarrow> netdev option) \<Rightarrow> u32 \<Rightarrow> nat list \<Rightarrow> nat option option" where
  "route_in f dest [] = Some None"
| "route_in f dest (x # xs) = do {
     d \<leftarrow> f x;
     if netif_is_up d \<and> ip_addr_netcmp dest (nd_ip_addr d) (nd_netmask d) then Some (Some x)
     else route_in f dest xs }"

definition ip_route :: "u32 \<Rightarrow> 'd ipst \<Rightarrow> nat option option" where
  "ip_route dest w = do {
     r \<leftarrow> route_in (i_netifs w) dest (i_list w);
     case r of Some x \<Rightarrow> Some (Some x)
     | None \<Rightarrow> (case i_default w of None \<Rightarrow> Some None
         | Some x \<Rightarrow> do { d \<leftarrow> i_netifs w x; Some (if netif_is_up d then Some x else None) }) }"

section \<open>Output\<close>

definition LWIP_MAKE_U16 :: "u8 \<Rightarrow> u8 \<Rightarrow> u32" where
  "LWIP_MAKE_U16 a b = (push_bit 8 (ucast a)) OR ucast b"

text \<open>
  The checksum that \<open>ip_output_if\<close> computes while it fills the header, from the values it stores:
  protocol, time to live, destination, type of service, version and length, length, identification and
  source. The halfwords are those in memory.
\<close>

definition out_chksum :: "u8 \<Rightarrow> u8 \<Rightarrow> u32 \<Rightarrow> u8 \<Rightarrow> u8 \<Rightarrow> u16 \<Rightarrow> u16 \<Rightarrow> u32 \<Rightarrow> u16" where
  "out_chksum proto ttl dest tos vhl len ident src =
     (let chk_sum = 0 + LWIP_MAKE_U16 proto ttl;
          chk_sum = chk_sum + (dest AND 0xffff);
          chk_sum = chk_sum + drop_bit 16 dest;
          chk_sum = chk_sum + LWIP_MAKE_U16 tos vhl;
          chk_sum = chk_sum + ucast len;
          chk_sum = chk_sum + ucast ident;
          chk_sum = chk_sum + (src AND 0xffff);
          chk_sum = chk_sum + drop_bit 16 src;
          chk_sum = drop_bit 16 chk_sum + (chk_sum AND 0xffff);
          chk_sum = drop_bit 16 chk_sum + chk_sum
      in ucast (NOT chk_sum))"

text \<open>The header of a packet whose source or destination are given.\<close>

definition out_header ::
  "ptr \<Rightarrow> u32 \<Rightarrow> u32 \<Rightarrow> u8 \<Rightarrow> u8 \<Rightarrow> u8 \<Rightarrow> u16 \<Rightarrow> 'd ip \<Rightarrow> 'd ip option" where
  "out_header h src dest ttl tos proto tot_len s = do {
     let vhl = 0x45;
     let len = lwip_htons tot_len;
     let ident = lwip_htons (i_ip_id (l_ip s));
     s \<leftarrow> put8 (iph_ttl h) ttl s;
     s \<leftarrow> put8 (iph_proto h) proto s;
     s \<leftarrow> put32 (iph_dest h) dest s;
     s \<leftarrow> put8 (iph_vhl h) vhl s;
     s \<leftarrow> put8 (iph_tos h) tos s;
     s \<leftarrow> put16 (iph_len h) len s;
     s \<leftarrow> put16 (iph_offset h) 0 s;
     s \<leftarrow> put16 (iph_id h) ident s;
     let s = on_ip (\<lambda>w. w\<lparr>i_ip_id := i_ip_id w + 1\<rparr>) s;
     s \<leftarrow> put32 (iph_src h) src s;
     put16 (iph_chksum h) (out_chksum proto ttl dest tos vhl len ident src) s }"

text \<open>\<open>dest\<close> is \<open>None\<close> for \<open>IP_HDRINCL\<close>.\<close>

definition ip_output_if ::
  "'d ip_env \<Rightarrow> addr \<Rightarrow> u32 option \<Rightarrow> u32 option \<Rightarrow> u8 \<Rightarrow> u8 \<Rightarrow> u8 \<Rightarrow> nat \<Rightarrow> 'd ip \<Rightarrow> (err_t \<times> 'd ip) option" where
  "ip_output_if X p src dest ttl tos proto nif s = do {
     b \<leftarrow> ip_pbuf p s;
     c_assert (pb_ref b = 1);
     d \<leftarrow> get_netif nif s;
     (r, dest, s) \<leftarrow> (case dest of
         Some dest \<Rightarrow> do {
           (r, s) \<leftarrow> on_net (pbuf_header (Some p) (of_nat IP_HLEN)) s;
           if r \<noteq> 0 then Some (r, dest, s)
           else do {
             b \<leftarrow> ip_pbuf p s;
             h \<leftarrow> pb_payload b;
             c_assert (unat (pb_len b) \<ge> IP_HLEN);
             let src = (if ip_addr_isany src then nd_ip_addr d else the src);
             s \<leftarrow> out_header h src dest ttl tos proto (pb_tot_len b) s;
             Some (0, dest, s) } }
       | None \<Rightarrow> do {
           h \<leftarrow> pb_payload b;
           dest \<leftarrow> ld32 (l_net s) (iph_dest h);
           Some (0, dest, s) });
     if r \<noteq> 0 then Some (ERR_BUF, s)
     else do {
       b \<leftarrow> ip_pbuf p s;
       if nd_mtu d \<noteq> 0 \<and> pb_tot_len b > nd_mtu d then ip_frag X p nif dest s
       else etharp_output X nif p dest s } }"

definition ip_output ::
  "'d ip_env \<Rightarrow> addr \<Rightarrow> u32 option \<Rightarrow> u32 \<Rightarrow> u8 \<Rightarrow> u8 \<Rightarrow> u8 \<Rightarrow> 'd ip \<Rightarrow> (err_t \<times> 'd ip) option" where
  "ip_output X p src dest ttl tos proto s = do {
     b \<leftarrow> ip_pbuf p s;
     c_assert (pb_ref b = 1);
     r \<leftarrow> ip_route dest (l_ip s);
     case r of None \<Rightarrow> Some (ERR_RTE, s)
     | Some nif \<Rightarrow> ip_output_if X p src (Some dest) ttl tos proto nif s }"

text \<open>The IP layer as TCP sees it.\<close>

definition tcp_ip_env :: "'d ip_env \<Rightarrow> 'd ipst tcp_env" where
  "tcp_ip_env X = \<lparr>te_cff = ie_cff X, te_phys = ie_phys X,
     te_route = \<lambda>dest w. (case ip_route dest w of Some (Some x) \<Rightarrow> map_option mss_netif (i_netifs w x) | _ \<Rightarrow> None),
     te_output = \<lambda>p src dest ttl tos proto s. map_option snd (ip_output X p (Some src) dest ttl tos proto s)\<rparr>"

end
