(* ===== verification/Icmp.thy ===== *)
theory Icmp
  imports IpOut
begin

text \<open>
  \<open>core/ipv4/icmp.c\<close>: echo requests are answered in place, or in a copy when there is no room in front
  of the packet for the link header; error messages quote the packet that caused them. \<open>src\<close> and
  \<open>dest\<close> are \<open>current_iphdr_src\<close> and \<open>current_iphdr_dest\<close>.
\<close>

definition ICMP_ER :: u8 where "ICMP_ER = 0"
definition ICMP_DUR :: u8 where "ICMP_DUR = 3"
definition ICMP_ECHO :: u8 where "ICMP_ECHO = 8"
definition ICMP_TE :: u8 where "ICMP_TE = 11"
definition ICMP_DUR_PROTO :: u8 where "ICMP_DUR_PROTO = 2"
definition ICMP_DUR_PORT :: u8 where "ICMP_DUR_PORT = 3"
definition ICMP_TE_FRAG :: u8 where "ICMP_TE_FRAG = 1"
definition ICMP_TTL :: u8 where "ICMP_TTL = 255"
definition SIZEOF_ICMP_ECHO_HDR :: nat where "SIZEOF_ICMP_ECHO_HDR = 8"
definition ICMP_DEST_UNREACH_DATASIZE :: nat where "ICMP_DEST_UNREACH_DATASIZE = 8"

abbreviation (input) "icmp_type h \<equiv> ptr_add h 0"
abbreviation (input) "icmp_code h \<equiv> ptr_add h 1"
abbreviation (input) "icmp_chksum h \<equiv> ptr_add h 2"
abbreviation (input) "icmp_id h \<equiv> ptr_add h 4"
abbreviation (input) "icmp_seqno h \<equiv> ptr_add h 6"

section \<open>Echo\<close>

text \<open>The checksum of the reply: the type goes from 8 to 0.\<close>

definition echo_chksum :: "u16 \<Rightarrow> u16" where
  "echo_chksum c = (if c \<ge> lwip_htons (0xffff - 0x0800) then c + lwip_htons 0x0800 + 1 else c + lwip_htons 0x0800)"

text \<open>
  The packet for the reply, with its payload at the ICMP header, and its IP header: the request itself, or
  a copy, for which the request is freed; \<open>None\<close> without memory.
\<close>

definition echo_packet :: "'d ip_env \<Rightarrow> addr \<Rightarrow> ptr \<Rightarrow> nat \<Rightarrow> 'd ip \<Rightarrow> ((addr \<times> ptr) option \<times> 'd ip) option" where
  "echo_packet X p iphdr hlen s = do {
     (r, s) \<leftarrow> on_net (pbuf_header (Some p) (of_nat (IP_HLEN + SIZEOF_ETH_HDR))) s;
     if r \<noteq> 0 then do {
       (r, s) \<leftarrow> on_net (pbuf_header (Some p) (of_nat hlen)) s;
       c_assert (r = 0);
       b \<leftarrow> ip_pbuf p s;
       (q, s) \<leftarrow> on_net (pbuf_alloc (ie_cff X) PBUF_LINK (pb_tot_len b) PBUF_RAM) s;
       case q of None \<Rightarrow> Some (None, s)
       | Some q \<Rightarrow> do {
           b \<leftarrow> ip_pbuf q s;
           c_assert (unat (pb_len b) \<ge> hlen + SIZEOF_ICMP_ECHO_HDR);
           (e, s) \<leftarrow> on_net (pbuf_copy (Some q) (Some p)) s;
           c_assert (e = ERR_OK);
           iphdr \<leftarrow> pb_payload b;
           (r, s) \<leftarrow> on_net (pbuf_header (Some q) (- of_nat hlen)) s;
           c_assert (r = 0);
           s \<leftarrow> ip_pbuf_free X p s;
           Some (Some (q, iphdr), s) } }
     else do {
       (r, s) \<leftarrow> on_net (pbuf_header (Some p) (- of_nat (IP_HLEN + SIZEOF_ETH_HDR))) s;
       c_assert (r = 0);
       Some (Some (p, iphdr), s) } }"

definition echo_reply ::
  "'d ip_env \<Rightarrow> addr \<Rightarrow> ptr \<Rightarrow> nat \<Rightarrow> nat \<Rightarrow> u32 \<Rightarrow> u32 \<Rightarrow> 'd ip \<Rightarrow> 'd ip option" where
  "echo_reply X p iphdr hlen inp src dest s = do {
     b \<leftarrow> ip_pbuf p s;
     iecho \<leftarrow> pb_payload b;
     s \<leftarrow> put32 (iph_src iphdr) dest s;
     s \<leftarrow> put32 (iph_dest iphdr) src s;
     s \<leftarrow> put8 (icmp_type iecho) ICMP_ER s;
     c \<leftarrow> ld16 (l_net s) (icmp_chksum iecho);
     s \<leftarrow> put16 (icmp_chksum iecho) (echo_chksum c) s;
     s \<leftarrow> put8 (iph_ttl iphdr) ICMP_TTL s;
     s \<leftarrow> put16 (iph_chksum iphdr) 0 s;
     c \<leftarrow> mem_chksum X iphdr IP_HLEN s;
     s \<leftarrow> put16 (iph_chksum iphdr) c s;
     (r, s) \<leftarrow> on_net (pbuf_header (Some p) (of_nat hlen)) s;
     c_assert (r = 0);
     (_, s) \<leftarrow> ip_output_if X p (Some dest) None ICMP_TTL 0 IP_PROTO_ICMP inp s;
     ip_pbuf_free X p s }"

definition icmp_echo ::
  "'d ip_env \<Rightarrow> addr \<Rightarrow> ptr \<Rightarrow> nat \<Rightarrow> nat \<Rightarrow> u32 \<Rightarrow> u32 \<Rightarrow> 'd ip \<Rightarrow> 'd ip option" where
  "icmp_echo X p iphdr hlen inp src dest s = do {
     d \<leftarrow> get_netif inp s;
     b \<leftarrow> ip_pbuf p s;
     if ip_addr_ismulticast dest \<or> ip4_addr_isbroadcast dest (addr_netif d) then ip_pbuf_free X p s
     else if unat (pb_tot_len b) < SIZEOF_ICMP_ECHO_HDR then ip_pbuf_free X p s
     else do {
       bs \<leftarrow> chksum_input (ie_phys X) (l_net s) (Some p);
       if inet_chksum_pbuf bs \<noteq> 0 then ip_pbuf_free X p s
       else do {
         (r, s) \<leftarrow> echo_packet X p iphdr hlen s;
         case r of None \<Rightarrow> ip_pbuf_free X p s
         | Some (p, iphdr) \<Rightarrow> echo_reply X p iphdr hlen inp src dest s } } }"

definition icmp_input :: "'d ip_env \<Rightarrow> addr \<Rightarrow> nat \<Rightarrow> u32 \<Rightarrow> u32 \<Rightarrow> 'd ip \<Rightarrow> 'd ip option" where
  "icmp_input X p inp src dest s = do {
     b \<leftarrow> ip_pbuf p s;
     iphdr \<leftarrow> pb_payload b;
     vhl \<leftarrow> ld8 (l_net s) (iph_vhl iphdr);
     let hlen = unat (vhl AND 0x0f) * 4;
     (r, s) \<leftarrow> on_net (pbuf_header (Some p) (- of_nat hlen)) s;
     b \<leftarrow> ip_pbuf p s;
     if r \<noteq> 0 \<or> pb_tot_len b < 4 then ip_pbuf_free X p s
     else do {
       h \<leftarrow> pb_payload b;
       type \<leftarrow> ld8 (l_net s) (icmp_type h);
       _ \<leftarrow> ld8 (l_net s) (icmp_code h);
       if type = ICMP_ECHO then icmp_echo X p iphdr hlen inp src dest s
       else ip_pbuf_free X p s } }"

section \<open>Errors\<close>

definition icmp_send_response :: "'d ip_env \<Rightarrow> addr \<Rightarrow> u8 \<Rightarrow> u8 \<Rightarrow> 'd ip \<Rightarrow> 'd ip option" where
  "icmp_send_response X p type code s = do {
     let size = SIZEOF_ICMP_ECHO_HDR + IP_HLEN + ICMP_DEST_UNREACH_DATASIZE;
     (q, s) \<leftarrow> on_net (pbuf_alloc (ie_cff X) PBUF_IP (of_nat size) PBUF_RAM) s;
     case q of None \<Rightarrow> Some s
     | Some q \<Rightarrow> do {
         qb \<leftarrow> ip_pbuf q s;
         c_assert (unat (pb_len qb) \<ge> size);
         b \<leftarrow> ip_pbuf p s;
         iphdr \<leftarrow> pb_payload b;
         h \<leftarrow> pb_payload qb;
         s \<leftarrow> put8 (icmp_type h) type s;
         s \<leftarrow> put8 (icmp_code h) code s;
         s \<leftarrow> put16 (icmp_id h) 0 s;
         s \<leftarrow> put16 (icmp_seqno h) 0 s;
         s \<leftarrow> ip_copy (ptr_add h SIZEOF_ICMP_ECHO_HDR) iphdr (IP_HLEN + ICMP_DEST_UNREACH_DATASIZE) s;
         s \<leftarrow> put16 (icmp_chksum h) 0 s;
         c \<leftarrow> mem_chksum X h (unat (pb_len qb)) s;
         s \<leftarrow> put16 (icmp_chksum h) c s;
         a \<leftarrow> ld32 (l_net s) (iph_src iphdr);
         (_, s) \<leftarrow> ip_output X q None a ICMP_TTL 0 IP_PROTO_ICMP s;
         ip_pbuf_free X q s } }"

definition icmp_dest_unreach :: "'d ip_env \<Rightarrow> addr \<Rightarrow> u8 \<Rightarrow> 'd ip \<Rightarrow> 'd ip option" where
  "icmp_dest_unreach X p t = icmp_send_response X p ICMP_DUR t"

definition icmp_time_exceeded :: "'d ip_env \<Rightarrow> addr \<Rightarrow> u8 \<Rightarrow> 'd ip \<Rightarrow> 'd ip option" where
  "icmp_time_exceeded X p t = icmp_send_response X p ICMP_TE t"

end
