(* ===== verification/Udp.thy ===== *)
theory Udp
  imports Icmp
begin

text \<open>
  \<open>core/udp.c\<close> as configured (no UDP-Lite, no multicast options, no address reuse). \<open>src\<close> and \<open>dest\<close>
  are \<open>current_iphdr_src\<close> and \<open>current_iphdr_dest\<close>.
\<close>

section \<open>Constants\<close>

definition MEMP_UDP_PCB :: memp_t where "MEMP_UDP_PCB = 1"
definition UDP_HLEN :: nat where "UDP_HLEN = 8"
definition UDP_TTL :: u8 where "UDP_TTL = 255"
definition UDP_FLAGS_NOCHKSUM :: u8 where "UDP_FLAGS_NOCHKSUM = 0x01"
definition UDP_FLAGS_CONNECTED :: u8 where "UDP_FLAGS_CONNECTED = 0x04"
definition UDP_LOCAL_PORT_RANGE_START :: u16 where "UDP_LOCAL_PORT_RANGE_START = 0xc000"
definition UDP_LOCAL_PORT_RANGE_END :: u16 where "UDP_LOCAL_PORT_RANGE_END = 0xffff"
definition DHCP_CLIENT_PORT :: u16 where "DHCP_CLIENT_PORT = 68"

abbreviation (input) "udp_src h \<equiv> ptr_add h 0"
abbreviation (input) "udp_dest h \<equiv> ptr_add h 2"
abbreviation (input) "udp_len h \<equiv> ptr_add h 4"
abbreviation (input) "udp_chksum h \<equiv> ptr_add h 6"

section \<open>Control blocks\<close>

definition get_udp :: "nat \<Rightarrow> 'd ip \<Rightarrow> udp_pcb option" where "get_udp x s = i_udp (l_ip s) x"

definition put_udp :: "nat \<Rightarrow> udp_pcb \<Rightarrow> 'd ip \<Rightarrow> 'd ip" where
  "put_udp x u = on_ip (\<lambda>w. w\<lparr>i_udp := (i_udp w)(x \<mapsto> u)\<rparr>)"

definition udp_new :: "'d ip \<Rightarrow> (nat option \<times> 'd ip) option" where
  "udp_new s = do {
     (x, mp) \<leftarrow> memp_malloc MEMP_UDP_PCB (n_memp (l_net s));
     let s = s\<lparr>l_net := (l_net s)\<lparr>n_memp := mp\<rparr>\<rparr>;
     case x of None \<Rightarrow> Some (None, s)
     | Some x \<Rightarrow> Some (Some x, put_udp x \<lparr>u_local_ip = 0, u_remote_ip = 0, u_so_options = 0, u_tos = 0,
         u_ttl = UDP_TTL, u_flags = 0, u_local_port = 0, u_remote_port = 0, u_recv = None, u_recv_arg = None\<rparr> s) }"

definition udp_remove :: "nat \<Rightarrow> 'd ip \<Rightarrow> 'd ip option" where
  "udp_remove x s = do {
     _ \<leftarrow> get_udp x s;
     mp \<leftarrow> memp_free MEMP_UDP_PCB (Some x) (n_memp (l_net s));
     Some (on_ip (\<lambda>w. w\<lparr>i_udp := (i_udp w)(x := None), i_udp_pcbs := remove1 x (i_udp_pcbs w)\<rparr>)
       (s\<lparr>l_net := (l_net s)\<lparr>n_memp := mp\<rparr>\<rparr>)) }"

definition udp_disconnect :: "nat \<Rightarrow> 'd ip \<Rightarrow> 'd ip option" where
  "udp_disconnect x s = do {
     u \<leftarrow> get_udp x s;
     Some (put_udp x (u\<lparr>u_remote_ip := 0, u_remote_port := 0, u_flags := u_flags u AND NOT UDP_FLAGS_CONNECTED\<rparr>) s) }"

definition udp_recv :: "nat \<Rightarrow> nat option \<Rightarrow> nat option \<Rightarrow> 'd ip \<Rightarrow> 'd ip option" where
  "udp_recv x recv arg s = do {
     u \<leftarrow> get_udp x s; Some (put_udp x (u\<lparr>u_recv := recv, u_recv_arg := arg\<rparr>) s) }"

section \<open>Ports\<close>

fun udp_port_used :: "(nat \<Rightarrow> udp_pcb option) \<Rightarrow> u16 \<Rightarrow> nat list \<Rightarrow> bool option" where
  "udp_port_used f port [] = Some False"
| "udp_port_used f port (x # xs) = do {
     u \<leftarrow> f x; if u_local_port u = port then Some True else udp_port_used f port xs }"

text \<open>\<open>n\<close> counts the ports found in use.\<close>

function udp_new_port_loop :: "nat \<Rightarrow> 'd ip \<Rightarrow> (u16 \<times> 'd ip) option" where
  "udp_new_port_loop n s = (
     let port = (if i_udp_port (l_ip s) = UDP_LOCAL_PORT_RANGE_END then UDP_LOCAL_PORT_RANGE_START
                 else i_udp_port (l_ip s) + 1);
         s = on_ip (\<lambda>w. w\<lparr>i_udp_port := port\<rparr>) s in
     case udp_port_used (i_udp (l_ip s)) port (i_udp_pcbs (l_ip s)) of None \<Rightarrow> None
     | Some False \<Rightarrow> Some (port, s)
     | Some True \<Rightarrow>
         if n + 1 > unat (UDP_LOCAL_PORT_RANGE_END - UDP_LOCAL_PORT_RANGE_START) then Some (0, s)
         else udp_new_port_loop (n + 1) s)"
  by auto
termination
  by (relation "measure (\<lambda>(n, s). unat (UDP_LOCAL_PORT_RANGE_END - UDP_LOCAL_PORT_RANGE_START) - n)") auto

declare udp_new_port_loop.simps [simp del]

definition udp_new_port :: "'d ip \<Rightarrow> (u16 \<times> 'd ip) option" where
  "udp_new_port = udp_new_port_loop 0"

text \<open>The loop of \<open>udp_bind\<close>: whether the control block is in the list, or \<open>None\<close> for \<open>ERR_USE\<close>.\<close>

fun bind_scan :: "(nat \<Rightarrow> udp_pcb option) \<Rightarrow> nat \<Rightarrow> u32 option \<Rightarrow> u16 \<Rightarrow> bool \<Rightarrow> nat list \<Rightarrow> bool option option" where
  "bind_scan f x ip port rebind [] = Some (Some rebind)"
| "bind_scan f x ip port rebind (y # ys) =
     (if x = y then if rebind then None else bind_scan f x ip port True ys
      else do {
        u \<leftarrow> f y;
        if u_local_port u = port \<and> (u_local_ip u = 0 \<or> ip_addr_isany ip \<or> Some (u_local_ip u) = ip)
        then Some None else bind_scan f x ip port rebind ys })"

definition udp_bind :: "nat \<Rightarrow> u32 option \<Rightarrow> u16 \<Rightarrow> 'd ip \<Rightarrow> (err_t \<times> 'd ip) option" where
  "udp_bind x ip port s = do {
     r \<leftarrow> bind_scan (i_udp (l_ip s)) x ip port False (i_udp_pcbs (l_ip s));
     case r of None \<Rightarrow> Some (ERR_USE, s)
     | Some rebind \<Rightarrow> do {
         u \<leftarrow> get_udp x s;
         let s = put_udp x (u\<lparr>u_local_ip := (case ip of None \<Rightarrow> 0 | Some a \<Rightarrow> a)\<rparr>) s;
         (port, s) \<leftarrow> (if port = 0 then udp_new_port s else Some (port, s));
         if port = 0 then Some (ERR_USE, s)
         else do {
           u \<leftarrow> get_udp x s;
           let s = put_udp x (u\<lparr>u_local_port := port\<rparr>) s;
           Some (ERR_OK, if rebind then s else on_ip (\<lambda>w. w\<lparr>i_udp_pcbs := x # i_udp_pcbs w\<rparr>) s) } } }"

definition udp_connect :: "nat \<Rightarrow> u32 option \<Rightarrow> u16 \<Rightarrow> 'd ip \<Rightarrow> (err_t \<times> 'd ip) option" where
  "udp_connect x ip port s = do {
     u \<leftarrow> get_udp x s;
     (e, s) \<leftarrow> (if u_local_port u = 0 then udp_bind x (Some (u_local_ip u)) 0 s else Some (ERR_OK, s));
     if e \<noteq> ERR_OK then Some (e, s)
     else do {
       u \<leftarrow> get_udp x s;
       let s = put_udp x (u\<lparr>u_remote_ip := (case ip of None \<Rightarrow> 0 | Some a \<Rightarrow> a), u_remote_port := port,
                 u_flags := u_flags u OR UDP_FLAGS_CONNECTED\<rparr>) s;
       Some (ERR_OK, if x \<in> set (i_udp_pcbs (l_ip s)) then s
                     else on_ip (\<lambda>w. w\<lparr>i_udp_pcbs := x # i_udp_pcbs w\<rparr>) s) } }"

section \<open>Sending\<close>

text \<open>The packet with room for the header: \<open>p\<close> itself, or a new pbuf in front of it.\<close>

definition udp_packet :: "'d ip_env \<Rightarrow> addr \<Rightarrow> 'd ip \<Rightarrow> (addr option \<times> 'd ip) option" where
  "udp_packet X p s = do {
     (r, s) \<leftarrow> on_net (pbuf_header (Some p) (of_nat UDP_HLEN)) s;
     if r = 0 then Some (Some p, s)
     else do {
       (q, s) \<leftarrow> on_net (pbuf_alloc (ie_cff X) PBUF_IP (of_nat UDP_HLEN) PBUF_RAM) s;
       case q of None \<Rightarrow> Some (None, s)
       | Some q \<Rightarrow> do {
           b \<leftarrow> ip_pbuf p s;
           s \<leftarrow> (if pb_tot_len b \<noteq> 0 then on_net1 (pbuf_chain (Some q) (Some p)) s else Some s);
           Some (Some q, s) } } }"

definition udp_sendto_if ::
  "'d ip_env \<Rightarrow> nat \<Rightarrow> addr \<Rightarrow> u32 \<Rightarrow> u16 \<Rightarrow> nat \<Rightarrow> 'd ip \<Rightarrow> (err_t \<times> 'd ip) option" where
  "udp_sendto_if X x p dst_ip dst_port nif s = do {
     u \<leftarrow> get_udp x s;
     (e, s) \<leftarrow> (if u_local_port u = 0 then udp_bind x (Some (u_local_ip u)) 0 s else Some (ERR_OK, s));
     if e \<noteq> ERR_OK then Some (e, s)
     else do {
       (q, s) \<leftarrow> udp_packet X p s;
       case q of None \<Rightarrow> Some (ERR_MEM, s)
       | Some q \<Rightarrow> do {
           b \<leftarrow> ip_pbuf q s;
           c_assert (unat (pb_len b) \<ge> UDP_HLEN);
           h \<leftarrow> pb_payload b;
           u \<leftarrow> get_udp x s;
           d \<leftarrow> get_netif nif s;
           s \<leftarrow> put16 (udp_src h) (lwip_htons (u_local_port u)) s;
           s \<leftarrow> put16 (udp_dest h) (lwip_htons dst_port) s;
           s \<leftarrow> put16 (udp_chksum h) 0 s;
           if u_local_ip u \<noteq> 0 \<and> u_local_ip u \<noteq> nd_ip_addr d then do {
             s \<leftarrow> (if q \<noteq> p then ip_pbuf_free X q s else Some s);
             Some (ERR_VAL, s) }
           else do {
             let src_ip = (if u_local_ip u = 0 then nd_ip_addr d else u_local_ip u);
             s \<leftarrow> put16 (udp_len h) (lwip_htons (pb_tot_len b)) s;
             s \<leftarrow> (if u_flags u AND UDP_FLAGS_NOCHKSUM = 0 then do {
                    bs \<leftarrow> chksum_input (ie_phys X) (l_net s) (Some q);
                    let c = inet_chksum_pseudo bs src_ip dst_ip IP_PROTO_UDP (pb_tot_len b);
                    put16 (udp_chksum h) (if c = 0 then 0xffff else c) s }
                  else Some s);
             (e, s) \<leftarrow> ip_output_if X q (Some src_ip) (Some dst_ip) (u_ttl u) (u_tos u) IP_PROTO_UDP nif s;
             s \<leftarrow> (if q \<noteq> p then ip_pbuf_free X q s else Some s);
             Some (e, s) } } } }"

definition udp_sendto :: "'d ip_env \<Rightarrow> nat \<Rightarrow> addr \<Rightarrow> u32 \<Rightarrow> u16 \<Rightarrow> 'd ip \<Rightarrow> (err_t \<times> 'd ip) option" where
  "udp_sendto X x p dst_ip dst_port s = do {
     r \<leftarrow> ip_route dst_ip (l_ip s);
     case r of None \<Rightarrow> Some (ERR_RTE, s)
     | Some nif \<Rightarrow> udp_sendto_if X x p dst_ip dst_port nif s }"

definition udp_send :: "'d ip_env \<Rightarrow> nat \<Rightarrow> addr \<Rightarrow> 'd ip \<Rightarrow> (err_t \<times> 'd ip) option" where
  "udp_send X x p s = do {
     u \<leftarrow> get_udp x s; udp_sendto X x p (u_remote_ip u) (u_remote_port u) s }"

section \<open>Receiving\<close>

definition udp_local_match :: "netdev \<Rightarrow> u16 \<Rightarrow> u32 \<Rightarrow> udp_pcb \<Rightarrow> bool" where
  "udp_local_match d port dest u \<longleftrightarrow> u_local_port u = port \<and>
     (let broadcast = ip4_addr_isbroadcast dest (addr_netif d) in
      (\<not> broadcast \<and> u_local_ip u = 0) \<or> u_local_ip u = dest \<or>
      (broadcast \<and> (u_local_ip u = 0 \<or> ip_addr_netcmp (u_local_ip u) dest (nd_netmask d))))"

text \<open>The loop: the control block that matches fully, and the first unconnected one that matches locally.\<close>

fun udp_scan ::
  "(nat \<Rightarrow> udp_pcb option) \<Rightarrow> netdev \<Rightarrow> u16 \<Rightarrow> u32 \<Rightarrow> u16 \<Rightarrow> u32 \<Rightarrow> nat option \<Rightarrow> nat list \<Rightarrow> (nat option \<times> nat option) option" where
  "udp_scan f d port dest sport src unc [] = Some (None, unc)"
| "udp_scan f d port dest sport src unc (x # xs) = do {
     u \<leftarrow> f x;
     let lm = udp_local_match d port dest u;
     let unc = (if lm \<and> unc = None \<and> u_flags u AND UDP_FLAGS_CONNECTED = 0 then Some x else unc);
     if lm \<and> u_remote_port u = sport \<and> (u_remote_ip u = 0 \<or> u_remote_ip u = src) then Some (Some x, unc)
     else udp_scan f d port dest sport src unc xs }"

definition udp_find :: "netdev \<Rightarrow> u16 \<Rightarrow> u32 \<Rightarrow> u16 \<Rightarrow> u32 \<Rightarrow> 'd ip \<Rightarrow> (nat option \<times> 'd ip) option" where
  "udp_find d port dest sport src s = (
     if port = DHCP_CLIENT_PORT then Some (None, s)
     else do {
       (x, unc) \<leftarrow> udp_scan (i_udp (l_ip s)) d port dest sport src None (i_udp_pcbs (l_ip s));
       case x of None \<Rightarrow> Some (unc, s)
       | Some x \<Rightarrow> Some (Some x, on_ip (\<lambda>w. w\<lparr>i_udp_pcbs := x # remove1 x (i_udp_pcbs w)\<rparr>) s) })"

definition udp_deliver ::
  "'d ip_env \<Rightarrow> addr \<Rightarrow> ptr \<Rightarrow> nat \<Rightarrow> netdev \<Rightarrow> nat option \<Rightarrow> u16 \<Rightarrow> u32 \<Rightarrow> u32 \<Rightarrow> 'd ip \<Rightarrow> 'd ip option" where
  "udp_deliver X p iphdr hlen d pcb sport src dest s = (case pcb of
       Some x \<Rightarrow> do {
         u \<leftarrow> get_udp x s;
         case u_recv u of Some f \<Rightarrow> ie_udp_recv X f (u_recv_arg u) x p src sport s
         | None \<Rightarrow> ip_pbuf_free X p s }
     | None \<Rightarrow> do {
         s \<leftarrow> (if \<not> ip4_addr_isbroadcast dest (addr_netif d) \<and> \<not> ip_addr_ismulticast dest then do {
                (_, s) \<leftarrow> on_net (pbuf_header (Some p) (of_nat (hlen + UDP_HLEN))) s;
                b \<leftarrow> ip_pbuf p s;
                c_assert (pb_payload b = Some iphdr);
                icmp_dest_unreach X p ICMP_DUR_PORT s }
              else Some s);
         ip_pbuf_free X p s })"

definition udp_input :: "'d ip_env \<Rightarrow> addr \<Rightarrow> nat \<Rightarrow> u32 \<Rightarrow> u32 \<Rightarrow> 'd ip \<Rightarrow> 'd ip option" where
  "udp_input X p inp src dest s = do {
     b \<leftarrow> ip_pbuf p s;
     iphdr \<leftarrow> pb_payload b;
     vhl \<leftarrow> ld8 (l_net s) (iph_vhl iphdr);
     let hlen = unat (vhl AND 0x0f) * 4;
     (r, s) \<leftarrow> (if unat (pb_tot_len b) < hlen + UDP_HLEN then Some (1, s)
               else on_net (pbuf_header (Some p) (- of_nat hlen)) s);
     if r \<noteq> 0 then ip_pbuf_free X p s
     else do {
       b \<leftarrow> ip_pbuf p s;
       h \<leftarrow> pb_payload b;
       d \<leftarrow> get_netif inp s;
       sport \<leftarrow> ld16 (l_net s) (udp_src h);
       port \<leftarrow> ld16 (l_net s) (udp_dest h);
       (pcb, s) \<leftarrow> udp_find d (lwip_ntohs port) dest (lwip_ntohs sport) src s;
       if pcb = None \<and> nd_ip_addr d \<noteq> dest then ip_pbuf_free X p s
       else do {
         c \<leftarrow> ld16 (l_net s) (udp_chksum h);
         bad \<leftarrow> (if c = 0 then Some False
                else do {
                  bs \<leftarrow> chksum_input (ie_phys X) (l_net s) (Some p);
                  Some (inet_chksum_pseudo bs src dest IP_PROTO_UDP (pb_tot_len b) \<noteq> 0) });
         if bad then ip_pbuf_free X p s
         else do {
           (r, s) \<leftarrow> on_net (pbuf_header (Some p) (- of_nat UDP_HLEN)) s;
           c_assert (r = 0);
           udp_deliver X p iphdr hlen d pcb (lwip_ntohs sport) src dest s } } } }"

end
