(* ===== verification/IpReass.thy ===== *)
theory IpReass
  imports Icmp
begin

text \<open>
  Reassembly of IP packets: the receiving half of \<open>core/ipv4/ip_frag.c\<close>. The list of datagrams is the
  chain of their \<open>next\<close> fields, as in the code; the fragments of a datagram are chained by the helpers.
\<close>

section \<open>Constants and headers\<close>

definition MEMP_REASSDATA :: memp_t where "MEMP_REASSDATA = 5"
definition IP_REASS_MAXAGE :: u8 where "IP_REASS_MAXAGE = 3"
definition IP_REASS_MAX_PBUFS :: nat where "IP_REASS_MAX_PBUFS = 10"
definition IP_REASS_FLAG_LASTFRAG :: u8 where "IP_REASS_FLAG_LASTFRAG = 0x01"

text \<open>The fields of an IP header given as its bytes.\<close>

definition hdr_hl :: "u8 list \<Rightarrow> nat" where "hdr_hl h = unat (h ! 0 AND 0x0f) * 4"
definition hdr_len :: "u8 list \<Rightarrow> u16" where "hdr_len h = lwip_ntohs (ucast (le16 (h ! 2) (h ! 3)))"
definition hdr_off :: "u8 list \<Rightarrow> u16" where "hdr_off h = lwip_ntohs (ucast (le16 (h ! 6) (h ! 7)))"
definition hdr_offset :: "u8 list \<Rightarrow> u16" where "hdr_offset h = (hdr_off h AND IP_OFFMASK) * 8"
definition hdr_data :: "u8 list \<Rightarrow> u16" where "hdr_data h = hdr_len h - of_nat (hdr_hl h)"

definition IP_ADDRESSES_AND_ID_MATCH :: "u8 list \<Rightarrow> u8 list \<Rightarrow> bool" where
  "IP_ADDRESSES_AND_ID_MATCH a b \<longleftrightarrow> take 8 (drop 12 a) = take 8 (drop 12 b) \<and> take 2 (drop 4 a) = take 2 (drop 4 b)"

section \<open>Access\<close>

definition get_rd :: "nat \<Rightarrow> 'd ip \<Rightarrow> ip_reassdata option" where "get_rd x s = i_reass (l_ip s) x"

definition upd_rd :: "nat \<Rightarrow> (ip_reassdata \<Rightarrow> ip_reassdata) \<Rightarrow> 'd ip \<Rightarrow> 'd ip option" where
  "upd_rd x f s = do {
     r \<leftarrow> get_rd x s; Some (on_ip (\<lambda>w. w\<lparr>i_reass := (i_reass w)(x \<mapsto> f r)\<rparr>) s) }"

definition get_helper :: "addr \<Rightarrow> 'd ip \<Rightarrow> ip_reass_helper option" where "get_helper a s = i_helper (l_ip s) a"

definition put_helper :: "addr \<Rightarrow> ip_reass_helper \<Rightarrow> 'd ip \<Rightarrow> 'd ip" where
  "put_helper a h = on_ip (\<lambda>w. w\<lparr>i_helper := (i_helper w)(a \<mapsto> h)\<rparr>)"

text \<open>A fragment is freed, and its helper with it.\<close>

definition free_frag :: "'d ip_env \<Rightarrow> addr \<Rightarrow> 'd ip \<Rightarrow> 'd ip option" where
  "free_frag X p s = do {
     s \<leftarrow> ip_pbuf_free X p s; Some (on_ip (\<lambda>w. w\<lparr>i_helper := (i_helper w)(p := None)\<rparr>) s) }"

section \<open>Giving up\<close>

definition ip_reass_dequeue_datagram :: "nat \<Rightarrow> nat option \<Rightarrow> 'd ip \<Rightarrow> 'd ip option" where
  "ip_reass_dequeue_datagram x prev s = do {
     r \<leftarrow> get_rd x s;
     s \<leftarrow> (if i_reassdatagrams (l_ip s) = Some x then Some (on_ip (\<lambda>w. w\<lparr>i_reassdatagrams := rd_next r\<rparr>) s)
          else do { q \<leftarrow> prev; upd_rd q (\<lambda>d. d\<lparr>rd_next := rd_next r\<rparr>) s });
     mp \<leftarrow> memp_free MEMP_REASSDATA (Some x) (n_memp (l_net s));
     Some (on_ip (\<lambda>w. w\<lparr>i_reass := (i_reass w)(x := None)\<rparr>) (s\<lparr>l_net := (l_net s)\<lparr>n_memp := mp\<rparr>\<rparr>)) }"

partial_function (option) free_frags :: "'d ip_env \<Rightarrow> addr option \<Rightarrow> nat \<Rightarrow> 'd ip \<Rightarrow> (nat \<times> 'd ip) option" where
  "free_frags X p freed s = (case p of None \<Rightarrow> Some (freed, s)
     | Some a \<Rightarrow> Option.bind (get_helper a s) (\<lambda>h.
         Option.bind (pbuf_clen (Some a) (l_net s)) (\<lambda>clen.
           if freed + unat clen > 0xffff then None
           else Option.bind (free_frag X a s) (\<lambda>s. free_frags X (rh_next h) (freed + unat clen) s))))"

text \<open>The first fragment is quoted in the message to the sender and goes first.\<close>

definition free_first :: "'d ip_env \<Rightarrow> nat \<Rightarrow> addr \<Rightarrow> ip_reass_helper \<Rightarrow> 'd ip \<Rightarrow> (nat \<times> 'd ip) option" where
  "free_first X x p h s = do {
     r \<leftarrow> get_rd x s;
     s \<leftarrow> upd_rd x (\<lambda>d. d\<lparr>rd_p := rh_next h\<rparr>) s;
     b \<leftarrow> ip_pbuf p s;
     a \<leftarrow> pb_payload b;
     s \<leftarrow> ip_write a (rd_iphdr r) s;
     s \<leftarrow> icmp_time_exceeded X p ICMP_TE_FRAG s;
     clen \<leftarrow> pbuf_clen (Some p) (l_net s);
     s \<leftarrow> free_frag X p s;
     Some (unat clen, s) }"

definition ip_reass_free_complete_datagram :: "'d ip_env \<Rightarrow> nat \<Rightarrow> nat option \<Rightarrow> 'd ip \<Rightarrow> (nat \<times> 'd ip) option" where
  "ip_reass_free_complete_datagram X x prev s = do {
     c_assert (prev \<noteq> Some x);
     _ \<leftarrow> (case prev of None \<Rightarrow> Some () | Some q \<Rightarrow> do { d \<leftarrow> get_rd q s; c_assert (rd_next d = Some x) });
     r \<leftarrow> get_rd x s;
     p \<leftarrow> rd_p r;
     h \<leftarrow> get_helper p s;
     (freed, s) \<leftarrow> (if rh_start h = 0 then free_first X x p h s else Some (0, s));
     r \<leftarrow> get_rd x s;
     (freed, s) \<leftarrow> free_frags X (rd_p r) freed s;
     s \<leftarrow> ip_reass_dequeue_datagram x prev s;
     c_assert (unat (i_reass_pbufcount (l_ip s)) \<ge> freed);
     Some (freed, on_ip (\<lambda>w. w\<lparr>i_reass_pbufcount := i_reass_pbufcount w - of_nat freed\<rparr>) s) }"

partial_function (option) reass_tmr_loop :: "'d ip_env \<Rightarrow> nat option \<Rightarrow> nat option \<Rightarrow> 'd ip \<Rightarrow> 'd ip option" where
  "reass_tmr_loop X r prev s = (case r of None \<Rightarrow> Some s
     | Some x \<Rightarrow> Option.bind (get_rd x s) (\<lambda>d.
         if rd_timer d > 0 then
           Option.bind (upd_rd x (\<lambda>d. d\<lparr>rd_timer := rd_timer d - 1\<rparr>) s) (reass_tmr_loop X (rd_next d) (Some x))
         else Option.bind (ip_reass_free_complete_datagram X x prev s) (\<lambda>(_, s).
           reass_tmr_loop X (rd_next d) prev s)))"

definition ip_reass_tmr :: "'d ip_env \<Rightarrow> 'd ip \<Rightarrow> 'd ip option" where
  "ip_reass_tmr X s = reass_tmr_loop X (i_reassdatagrams (l_ip s)) None s"

text \<open>
  The inner loop of \<open>ip_reass_remove_oldest_datagram\<close>: the oldest datagram other than that of the
  fragment, \<open>prev\<close>, and the number of the others.
\<close>

partial_function (option) oldest_scan ::
  "(nat \<Rightarrow> ip_reassdata option) \<Rightarrow> u8 list \<Rightarrow> nat option \<Rightarrow> nat option \<Rightarrow> nat option \<Rightarrow> nat \<Rightarrow>
     (nat option \<times> nat option \<times> nat) option" where
  "oldest_scan f fr r oldest prev others = (case r of None \<Rightarrow> Some (oldest, prev, others)
     | Some x \<Rightarrow> Option.bind (f x) (\<lambda>d.
         let other = (\<not> IP_ADDRESSES_AND_ID_MATCH (rd_iphdr d) fr);
             prev' = (if rd_next d \<noteq> None then Some x else prev) in
         if \<not> other then oldest_scan f fr (rd_next d) oldest prev' others
         else case oldest of None \<Rightarrow> oldest_scan f fr (rd_next d) (Some x) prev' (others + 1)
           | Some y \<Rightarrow> Option.bind (f y) (\<lambda>o'.
               oldest_scan f fr (rd_next d) (if rd_timer d \<le> rd_timer o' then Some x else Some y) prev' (others + 1))))"

partial_function (option) remove_oldest_loop :: "'d ip_env \<Rightarrow> u8 list \<Rightarrow> nat \<Rightarrow> nat \<Rightarrow> 'd ip \<Rightarrow> (nat \<times> 'd ip) option" where
  "remove_oldest_loop X fr needed freed s =
     Option.bind (oldest_scan (i_reass (l_ip s)) fr (i_reassdatagrams (l_ip s)) None None 0) (\<lambda>(oldest, prev, others).
       Option.bind (case oldest of None \<Rightarrow> Some (0, s) | Some x \<Rightarrow> ip_reass_free_complete_datagram X x prev s) (\<lambda>(n, s).
         if freed + n < needed \<and> others > 1 then remove_oldest_loop X fr needed (freed + n) s
         else Some (freed + n, s)))"

definition ip_reass_remove_oldest_datagram :: "'d ip_env \<Rightarrow> u8 list \<Rightarrow> nat \<Rightarrow> 'd ip \<Rightarrow> (nat \<times> 'd ip) option" where
  "ip_reass_remove_oldest_datagram X fr needed s = remove_oldest_loop X fr needed 0 s"

section \<open>New datagrams\<close>

definition reass_malloc :: "'d ip \<Rightarrow> (nat option \<times> 'd ip) option" where
  "reass_malloc s = do {
     (x, mp) \<leftarrow> memp_malloc MEMP_REASSDATA (n_memp (l_net s));
     Some (x, s\<lparr>l_net := (l_net s)\<lparr>n_memp := mp\<rparr>\<rparr>) }"

definition ip_reass_enqueue_new_datagram :: "'d ip_env \<Rightarrow> u8 list \<Rightarrow> nat \<Rightarrow> 'd ip \<Rightarrow> (nat option \<times> 'd ip) option" where
  "ip_reass_enqueue_new_datagram X fr clen s = do {
     (x, s) \<leftarrow> reass_malloc s;
     (x, s) \<leftarrow> (if x = None then do {
            (n, s) \<leftarrow> ip_reass_remove_oldest_datagram X fr clen s;
            if n \<ge> clen then reass_malloc s else Some (None, s) }
          else Some (x, s));
     case x of None \<Rightarrow> Some (None, s)
     | Some x \<Rightarrow> Some (Some x, on_ip (\<lambda>w. w\<lparr>i_reass := (i_reass w)(x \<mapsto>
         \<lparr>rd_next = i_reassdatagrams w, rd_p = None, rd_iphdr = fr, rd_datagram_len = 0, rd_flags = 0,
          rd_timer = IP_REASS_MAXAGE\<rparr>), i_reassdatagrams := Some x\<rparr>) s) }"

section \<open>Fragments\<close>

text \<open>
  The loop over the fragments of the datagram: the fragment behind the place of the new one, the one in
  front of it, and whether there was no gap up to there; the inner \<open>None\<close> for a fragment to be dropped.
\<close>

partial_function (option) frag_scan ::
  "(addr \<Rightarrow> ip_reass_helper option) \<Rightarrow> u16 \<Rightarrow> addr option \<Rightarrow> addr option \<Rightarrow> bool \<Rightarrow>
     (addr option \<times> addr option \<times> bool) option option" where
  "frag_scan f start q prev valid = (case q of None \<Rightarrow> Some (Some (None, prev, valid))
     | Some a \<Rightarrow> Option.bind (f a) (\<lambda>t.
         if start < rh_start t then Some (Some (Some a, prev, valid))
         else if start = rh_start t \<or> start < rh_end t then Some None
         else Option.bind (case prev of None \<Rightarrow> Some valid
                           | Some b \<Rightarrow> map_option (\<lambda>h. valid \<and> rh_end h = rh_start t) (f b))
           (\<lambda>valid. frag_scan f start (rh_next t) (Some a) valid)))"

text \<open>The new fragment is put in its place; the inner \<open>None\<close> when it overlaps.\<close>

definition frag_link ::
  "nat \<Rightarrow> addr \<Rightarrow> u16 \<Rightarrow> u16 \<Rightarrow> addr option \<times> addr option \<times> bool \<Rightarrow> 'd ip \<Rightarrow> (bool option \<times> 'd ip) option" where
  "frag_link x p start stop pos s = (case pos of
       (Some q, prev, valid) \<Rightarrow> do {
         t \<leftarrow> get_helper q s;
         let s = put_helper p \<lparr>rh_next = Some q, rh_start = start, rh_end = stop\<rparr> s;
         case prev of Some b \<Rightarrow> do {
             h \<leftarrow> get_helper b s;
             if start < rh_end h \<or> stop > rh_start t then Some (None, s)
             else Some (Some valid, put_helper b (h\<lparr>rh_next := Some p\<rparr>) s) }
         | None \<Rightarrow> do { s \<leftarrow> upd_rd x (\<lambda>d. d\<lparr>rd_p := Some p\<rparr>) s; Some (Some valid, s) } }
     | (None, Some b, valid) \<Rightarrow> do {
         let s = put_helper p \<lparr>rh_next = None, rh_start = start, rh_end = stop\<rparr> s;
         h \<leftarrow> get_helper b s;
         c_assert (rh_end h \<le> start);
         Some (Some (valid \<and> rh_end h = start), put_helper b (h\<lparr>rh_next := Some p\<rparr>) s) }
     | (None, None, valid) \<Rightarrow> do {
         let s = put_helper p \<lparr>rh_next = None, rh_start = start, rh_end = stop\<rparr> s;
         r \<leftarrow> get_rd x s;
         c_assert (rd_p r = None);
         s \<leftarrow> upd_rd x (\<lambda>d. d\<lparr>rd_p := Some p\<rparr>) s;
         Some (Some valid, s) })"

text \<open>The fragments from \<open>p\<close> on have no gap: the last one, or the inner \<open>None\<close> at a gap.\<close>

partial_function (option) frag_tail :: "(addr \<Rightarrow> ip_reass_helper option) \<Rightarrow> addr \<Rightarrow> addr option option" where
  "frag_tail f p = Option.bind (f p) (\<lambda>h. case rh_next h of None \<Rightarrow> Some (Some p)
     | Some q \<Rightarrow> Option.bind (f q) (\<lambda>t. if rh_end h \<noteq> rh_start t then Some None else frag_tail f q))"

text \<open>Whether the datagram is complete, once its last fragment has come.\<close>

definition frag_complete :: "nat \<Rightarrow> addr \<Rightarrow> bool \<Rightarrow> 'd ip \<Rightarrow> bool option" where
  "frag_complete x p valid s = do {
     r \<leftarrow> get_rd x s;
     if rd_flags r AND IP_REASS_FLAG_LASTFRAG = 0 \<or> \<not> valid then Some False
     else do {
       first \<leftarrow> rd_p r;
       h \<leftarrow> get_helper first s;
       if rh_start h \<noteq> 0 then Some False
       else do {
         t \<leftarrow> frag_tail (i_helper (l_ip s)) p;
         case t of None \<Rightarrow> Some False
         | Some z \<Rightarrow> do {
             c_assert (first \<noteq> z);
             l \<leftarrow> get_helper z s;
             c_assert (rh_next l = None);
             c_assert (rh_end l = rd_datagram_len r);
             Some True } } } }"

definition ip_reass_chain_frag_into_datagram_and_validate ::
  "'d ip_env \<Rightarrow> nat \<Rightarrow> addr \<Rightarrow> u8 list \<Rightarrow> 'd ip \<Rightarrow> (bool \<times> 'd ip) option" where
  "ip_reass_chain_frag_into_datagram_and_validate X x p fr s = do {
     let start = hdr_offset fr;
     let stop = start + hdr_data fr;
     r \<leftarrow> get_rd x s;
     pos \<leftarrow> frag_scan ((i_helper (l_ip s))(p \<mapsto> \<lparr>rh_next = None, rh_start = start, rh_end = stop\<rparr>)) start (rd_p r) None True;
     (v, s) \<leftarrow> (case pos of None \<Rightarrow> Some (None, s) | Some pos \<Rightarrow> frag_link x p start stop pos s);
     case v of Some valid \<Rightarrow> do { c \<leftarrow> frag_complete x p valid s; Some (c, s) }
     | None \<Rightarrow> do {
         clen \<leftarrow> pbuf_clen (Some p) (l_net s);
         let s = on_ip (\<lambda>w. w\<lparr>i_reass_pbufcount := i_reass_pbufcount w - ucast clen\<rparr>) s;
         s \<leftarrow> free_frag X p s;
         Some (False, s) } }"

section \<open>Reassembly\<close>

text \<open>The search for the datagram, with the one before it.\<close>

partial_function (option) find_datagram ::
  "(nat \<Rightarrow> ip_reassdata option) \<Rightarrow> u8 list \<Rightarrow> nat option \<Rightarrow> nat option \<Rightarrow> (nat option \<times> nat option) option" where
  "find_datagram f fr r prev = (case r of None \<Rightarrow> Some (None, prev)
     | Some x \<Rightarrow> Option.bind (f x) (\<lambda>d.
         if IP_ADDRESSES_AND_ID_MATCH (rd_iphdr d) fr then Some (Some x, prev)
         else find_datagram f fr (rd_next d) (Some x)))"

partial_function (option) cat_frags :: "addr \<Rightarrow> addr option \<Rightarrow> 'd ip \<Rightarrow> 'd ip option" where
  "cat_frags p r s = (case r of None \<Rightarrow> Some s
     | Some a \<Rightarrow> Option.bind (get_helper a s) (\<lambda>h.
         Option.bind (on_net (pbuf_header (Some a) (- of_nat IP_HLEN)) s) (\<lambda>(_, s).
           Option.bind (on_net1 (pbuf_cat (Some p) (Some a)) s) (\<lambda>s. cat_frags p (rh_next h) s))))"

text \<open>The complete packet: the header of the first fragment is that of the datagram.\<close>

definition reass_finish :: "'d ip_env \<Rightarrow> nat \<Rightarrow> nat option \<Rightarrow> 'd ip \<Rightarrow> (addr \<times> 'd ip) option" where
  "reass_finish X x prev s = do {
     s \<leftarrow> upd_rd x (\<lambda>d. d\<lparr>rd_datagram_len := rd_datagram_len d + of_nat IP_HLEN\<rparr>) s;
     r \<leftarrow> get_rd x s;
     p \<leftarrow> rd_p r;
     h \<leftarrow> get_helper p s;
     b \<leftarrow> ip_pbuf p s;
     fraghdr \<leftarrow> pb_payload b;
     s \<leftarrow> ip_write fraghdr (rd_iphdr r) s;
     s \<leftarrow> put16 (iph_len fraghdr) (lwip_htons (rd_datagram_len r)) s;
     s \<leftarrow> put16 (iph_offset fraghdr) 0 s;
     s \<leftarrow> put16 (iph_chksum fraghdr) 0 s;
     c \<leftarrow> mem_chksum X fraghdr IP_HLEN s;
     s \<leftarrow> put16 (iph_chksum fraghdr) c s;
     s \<leftarrow> cat_frags p (rh_next h) s;
     s \<leftarrow> ip_reass_dequeue_datagram x prev s;
     clen \<leftarrow> pbuf_clen (Some p) (l_net s);
     Some (p, on_ip (\<lambda>w. w\<lparr>i_reass_pbufcount := i_reass_pbufcount w - ucast clen\<rparr>) s) }"

definition reass_drop :: "'d ip_env \<Rightarrow> addr \<Rightarrow> 'd ip \<Rightarrow> (addr option \<times> 'd ip) option" where
  "reass_drop X p s = do { s \<leftarrow> ip_pbuf_free X p s; Some (None, s) }"

text \<open>Whether there is room for the pbufs of the fragment, after giving up older datagrams if need be.\<close>

definition reass_room :: "'d ip_env \<Rightarrow> u8 list \<Rightarrow> nat \<Rightarrow> 'd ip \<Rightarrow> (bool \<times> 'd ip) option" where
  "reass_room X fr clen s =
     (if unat (i_reass_pbufcount (l_ip s)) + clen > IP_REASS_MAX_PBUFS then do {
        (n, s) \<leftarrow> ip_reass_remove_oldest_datagram X fr clen s;
        Some (n \<noteq> 0 \<and> unat (i_reass_pbufcount (l_ip s)) + clen \<le> IP_REASS_MAX_PBUFS, s) }
      else Some (True, s))"

definition ip_reass :: "'d ip_env \<Rightarrow> addr \<Rightarrow> 'd ip \<Rightarrow> (addr option \<times> 'd ip) option" where
  "ip_reass X p s = do {
     b \<leftarrow> ip_pbuf p s;
     a \<leftarrow> pb_payload b;
     fr \<leftarrow> ip_read a IP_HLEN s;
     if hdr_hl fr \<noteq> IP_HLEN then reass_drop X p s
     else do {
       clen \<leftarrow> pbuf_clen (Some p) (l_net s);
       (room, s) \<leftarrow> reass_room X fr (unat clen) s;
       if \<not> room then reass_drop X p s
       else do {
         (x, prev) \<leftarrow> find_datagram (i_reass (l_ip s)) fr (i_reassdatagrams (l_ip s)) None;
         (x, s) \<leftarrow> (case x of None \<Rightarrow> ip_reass_enqueue_new_datagram X fr (unat clen) s
           | Some x \<Rightarrow> do {
               s \<leftarrow> upd_rd x (\<lambda>d. if hdr_off fr AND IP_OFFMASK = 0 \<and> hdr_off (rd_iphdr d) AND IP_OFFMASK \<noteq> 0
                                 then d\<lparr>rd_iphdr := fr\<rparr> else d) s;
               Some (Some x, s) });
         case x of None \<Rightarrow> reass_drop X p s
         | Some x \<Rightarrow> do {
             let s = on_ip (\<lambda>w. w\<lparr>i_reass_pbufcount := i_reass_pbufcount w + ucast clen\<rparr>) s;
             s \<leftarrow> (if hdr_off fr AND IP_MF = 0 then
                    upd_rd x (\<lambda>d. d\<lparr>rd_flags := rd_flags d OR IP_REASS_FLAG_LASTFRAG,
                                    rd_datagram_len := hdr_offset fr + hdr_data fr\<rparr>) s
                  else Some s);
             (v, s) \<leftarrow> ip_reass_chain_frag_into_datagram_and_validate X x p fr s;
             if v then do { (q, s) \<leftarrow> reass_finish X x prev s; Some (Some q, s) }
             else Some (None, s) } } } }"

end
