(* ===== verification/IpInput.thy ===== *)
theory IpInput
  imports Udp IpReass
begin

text \<open>
  The receiving half of \<open>core/ipv4/ip.c\<close> and \<open>ethernet_input\<close>: a frame goes to ARP or to IP, a packet
  to reassembly and then to UDP, TCP or ICMP. The state is that of the TCP theories with the state of the
  layers below in its place. No raw control blocks exist in the program, so \<open>raw_input\<close> never takes a
  packet.
\<close>

section \<open>IP\<close>

text \<open>The interface that a packet is for: the one it came in on, then those of the list.\<close>

fun accept_in :: "(nat \<Rightarrow> netdev option) \<Rightarrow> u32 \<Rightarrow> nat list \<Rightarrow> nat option option" where
  "accept_in f dest [] = Some None"
| "accept_in f dest (x # xs) = do {
     d \<leftarrow> f x;
     if netif_is_up d \<and> nd_ip_addr d \<noteq> 0 \<and> (dest = nd_ip_addr d \<or> ip4_addr_isbroadcast dest (addr_netif d))
     then Some (Some x) else accept_in f dest xs }"

text \<open>A DHCP answer is let through while the interface has no address.\<close>

definition link_layer_addressed :: "ptr \<Rightarrow> nat \<Rightarrow> 'd ip \<Rightarrow> bool option" where
  "link_layer_addressed iphdr hlen s = do {
     proto \<leftarrow> ld8 (l_net s) (iph_proto iphdr);
     if proto = IP_PROTO_UDP then do {
       port \<leftarrow> ld16 (l_net s) (udp_dest (ptr_add iphdr hlen));
       Some (port = lwip_ntohs DHCP_CLIENT_PORT) }
     else Some False }"

text \<open>
  The checks: the IP header with source and destination address, or \<open>None\<close> for a packet that was dropped.
\<close>

definition ip_accept :: "'d ip_env \<Rightarrow> addr \<Rightarrow> nat \<Rightarrow> 'd ip \<Rightarrow> ((ptr \<times> u32 \<times> u32) option \<times> 'd ip) option" where
  "ip_accept X p inp s = do {
     b \<leftarrow> ip_pbuf p s;
     iphdr \<leftarrow> pb_payload b;
     vhl \<leftarrow> ld8 (l_net s) (iph_vhl iphdr);
     if drop_bit 4 vhl \<noteq> 4 then do { s \<leftarrow> ip_pbuf_free X p s; Some (None, s) }
     else do {
       let hlen = unat (vhl AND 0x0f) * 4;
       len \<leftarrow> ld16 (l_net s) (iph_len iphdr);
       let len = lwip_ntohs len;
       if hlen > unat (pb_len b) \<or> len > pb_tot_len b then do { s \<leftarrow> ip_pbuf_free X p s; Some (None, s) }
       else do {
         c \<leftarrow> mem_chksum X iphdr hlen s;
         if c \<noteq> 0 then do { s \<leftarrow> ip_pbuf_free X p s; Some (None, s) }
         else do {
           s \<leftarrow> on_net1 (pbuf_realloc (ie_cff X) (Some p) len) s;
           dest \<leftarrow> ld32 (l_net s) (iph_dest iphdr);
           src \<leftarrow> ld32 (l_net s) (iph_src iphdr);
           d \<leftarrow> get_netif inp s;
           to \<leftarrow> accept_in (i_netifs (l_ip s)) dest (inp # filter (\<lambda>x. x \<noteq> inp) (i_list (l_ip s)));
           dhcp \<leftarrow> (if to = None then link_layer_addressed iphdr hlen s else Some False);
           if \<not> dhcp \<and> src \<noteq> 0 \<and> (ip4_addr_isbroadcast src (addr_netif d) \<or> ip_addr_ismulticast src)
           then do { s \<leftarrow> ip_pbuf_free X p s; Some (None, s) }
           else if to = None \<and> \<not> dhcp then do { s \<leftarrow> ip_pbuf_free X p s; Some (None, s) }
           else Some (Some (iphdr, src, dest), s) } } } }"

text \<open>The whole packet: the packet itself, or what reassembly returns.\<close>

definition ip_whole :: "'d ip_env \<Rightarrow> addr \<Rightarrow> ptr \<Rightarrow> 'd ip \<Rightarrow> ((addr \<times> ptr) option \<times> 'd ip) option" where
  "ip_whole X p iphdr s = do {
     off \<leftarrow> ld16 (l_net s) (iph_offset iphdr);
     if off AND lwip_htons (IP_OFFMASK OR IP_MF) \<noteq> 0 then do {
       (r, s) \<leftarrow> ip_reass X p s;
       case r of None \<Rightarrow> Some (None, s)
       | Some p \<Rightarrow> do { b \<leftarrow> ip_pbuf p s; h \<leftarrow> pb_payload b; Some (Some (p, h), s) } }
     else Some (Some (p, iphdr), s) }"

definition ip_unknown :: "'d ip_env \<Rightarrow> addr \<Rightarrow> ptr \<Rightarrow> netdev \<Rightarrow> u32 \<Rightarrow> 'd ip \<Rightarrow> 'd ip option" where
  "ip_unknown X p iphdr d dest s = do {
     s \<leftarrow> (if \<not> ip4_addr_isbroadcast dest (addr_netif d) \<and> \<not> ip_addr_ismulticast dest then do {
            b \<leftarrow> ip_pbuf p s;
            icmp_dest_unreach X p ICMP_DUR_PROTO (s\<lparr>l_net := put_pbuf p (b\<lparr>pb_payload := Some iphdr\<rparr>) (l_net s)\<rparr>) }
          else Some s);
     ip_pbuf_free X p s }"

text \<open>A function of the layers below that also returns a value.\<close>

definition at_low :: "('w low \<Rightarrow> ('b \<times> 'w low) option) \<Rightarrow> ('f, 'w, 'a) stk \<Rightarrow> ('b \<times> ('f, 'w, 'a) stk) option" where
  "at_low f s = do { (r, l) \<leftarrow> f (k_low s); Some (r, s\<lparr>k_low := l\<rparr>) }"

definition ip_input ::
  "'d ip_env \<Rightarrow> ('f, 'd ipst, 'a) stk_env \<Rightarrow> addr \<Rightarrow> nat \<Rightarrow> ('f, 'd ipst, 'a) stk \<Rightarrow> ('f, 'd ipst, 'a) stk option" where
  "ip_input X E p inp s = do {
     (r, s) \<leftarrow> at_low (ip_accept X p inp) s;
     case r of None \<Rightarrow> Some s
     | Some (iphdr, src, dest) \<Rightarrow> do {
         (w, s) \<leftarrow> at_low (ip_whole X p iphdr) s;
         case w of None \<Rightarrow> Some s
         | Some (p, iphdr) \<Rightarrow> do {
             d \<leftarrow> get_netif inp (k_low s);
             proto \<leftarrow> ld8 (k_net s) (iph_proto iphdr);
             if proto = IP_PROTO_UDP then on_low (udp_input X p inp src dest) s
             else if proto = IP_PROTO_TCP then tcp_input E p (addr_netif d) src dest s
             else if proto = IP_PROTO_ICMP then on_low (icmp_input X p inp src dest) s
             else on_low (ip_unknown X p iphdr d dest) s } } }"

section \<open>Frames\<close>

definition PBUF_FLAG_LLBCAST :: u8 where "PBUF_FLAG_LLBCAST = 0x08"
definition PBUF_FLAG_LLMCAST :: u8 where "PBUF_FLAG_LLMCAST = 0x10"

text \<open>What the destination of a frame adds to the flags of its pbuf.\<close>

definition ll_flags :: "u8 list \<Rightarrow> u8" where
  "ll_flags a = (if a ! 0 AND 1 = 0 then 0
     else if a ! 0 = 0x01 then (if a ! 1 = 0x00 \<and> a ! 2 = 0x5e then PBUF_FLAG_LLMCAST else 0)
     else if a = eth_bytes ethbroadcast then PBUF_FLAG_LLBCAST else 0)"

definition ethernet_input ::
  "'d ip_env \<Rightarrow> ('f, 'd ipst, 'a) stk_env \<Rightarrow> addr \<Rightarrow> nat \<Rightarrow> ('f, 'd ipst, 'a) stk \<Rightarrow> ('f, 'd ipst, 'a) stk option" where
  "ethernet_input X E p nif s = do {
     b \<leftarrow> pbufs (k_net s) p;
     if unat (pb_len b) \<le> SIZEOF_ETH_HDR then on_low (ip_pbuf_free X p) s
     else do {
       ethhdr \<leftarrow> pb_payload b;
       type \<leftarrow> ld16 (k_net s) (eth_type ethhdr);
       dst \<leftarrow> mem_read (k_net s) (eth_dest ethhdr) 6;
       s \<leftarrow> on_pk (\<lambda>n. Some (put_pbuf p (b\<lparr>pb_flags := pb_flags b OR ll_flags dst\<rparr>) n)) s;
       d \<leftarrow> get_netif nif (k_low s);
       if type = lwip_htons ETHTYPE_IP then
         if nd_flags d AND NETIF_FLAG_ETHARP = 0 then on_low (ip_pbuf_free X p) s
         else do {
           (r, s) \<leftarrow> at_low (on_net (pbuf_header (Some p) (- of_nat SIZEOF_ETH_HDR))) s;
           c_assert (r = 0);
           ip_input X E p nif s }
       else if type = lwip_htons ETHTYPE_ARP then
         if nd_flags d AND NETIF_FLAG_ETHARP = 0 then on_low (ip_pbuf_free X p) s
         else on_low (etharp_arp_input X nif p) s
       else on_low (ip_pbuf_free X p) s } }"

end
