(* ===== verification/Netif.thy ===== *)
theory Netif
  imports IpInput
begin

text \<open>
  \<open>core/netif.c\<close>: the list of interfaces and their configuration. The function that \<open>netif_add\<close> calls to
  initialise an interface is an argument, as in the code. Status callbacks are not configured, and DHCP is
  not started.
\<close>

definition upd_netif :: "nat \<Rightarrow> (netdev \<Rightarrow> netdev) \<Rightarrow> ('f, 'd ipst, 'a) stk \<Rightarrow> ('f, 'd ipst, 'a) stk option" where
  "upd_netif x f = on_low (\<lambda>l. do {
     d \<leftarrow> get_netif x l; Some (on_ip (\<lambda>w. w\<lparr>i_netifs := (i_netifs w)(x \<mapsto> f d)\<rparr>) l) })"

section \<open>Addresses\<close>

text \<open>A new address aborts the connections of the old one; listening control blocks follow it.\<close>

partial_function (option) abort_local ::
  "('f, 'w, 'a) stk_env \<Rightarrow> u32 \<Rightarrow> nat option \<Rightarrow> ('f, 'w, 'a) stk \<Rightarrow> ('f, 'w, 'a) stk option" where
  "abort_local E ip t s = (case t of None \<Rightarrow> Some s
     | Some x \<Rightarrow> Option.bind (k_pcbs s x) (\<lambda>p. Option.bind (k_next s x) (\<lambda>n.
         if t_local_ip p = ip then Option.bind (tcp_abort E x s) (abort_local E ip n)
         else abort_local E ip n s)))"

partial_function (option) move_listen ::
  "u32 \<Rightarrow> u32 \<Rightarrow> nat option \<Rightarrow> ('f, 'w, 'a) stk \<Rightarrow> ('f, 'w, 'a) stk option" where
  "move_listen old ip t s = (case t of None \<Rightarrow> Some s
     | Some x \<Rightarrow> Option.bind (k_lpcbs s x) (\<lambda>l. Option.bind (k_next s x) (\<lambda>n.
         move_listen old ip n (if lp_local_ip l \<noteq> 0 \<and> lp_local_ip l = old
                               then s\<lparr>k_lpcbs := (k_lpcbs s)(x \<mapsto> l\<lparr>lp_local_ip := ip\<rparr>)\<rparr> else s))))"

definition netif_set_ipaddr ::
  "('f, 'd ipst, 'a) stk_env \<Rightarrow> nat \<Rightarrow> u32 option \<Rightarrow> ('f, 'd ipst, 'a) stk \<Rightarrow> ('f, 'd ipst, 'a) stk option" where
  "netif_set_ipaddr E nif ip s = do {
     d \<leftarrow> get_netif nif (k_low s);
     s \<leftarrow> (case ip of None \<Rightarrow> Some s
          | Some a \<Rightarrow> if a = nd_ip_addr d then Some s
              else do {
                s \<leftarrow> abort_local E (nd_ip_addr d) (k_head s L_ACTIVE) s;
                move_listen (nd_ip_addr d) a (k_head s L_LISTEN) s });
     upd_netif nif (\<lambda>d. d\<lparr>nd_ip_addr := (case ip of None \<Rightarrow> 0 | Some a \<Rightarrow> a)\<rparr>) s }"

definition netif_set_netmask :: "nat \<Rightarrow> u32 option \<Rightarrow> ('f, 'd ipst, 'a) stk \<Rightarrow> ('f, 'd ipst, 'a) stk option" where
  "netif_set_netmask nif m = upd_netif nif (\<lambda>d. d\<lparr>nd_netmask := (case m of None \<Rightarrow> 0 | Some a \<Rightarrow> a)\<rparr>)"

definition netif_set_gw :: "nat \<Rightarrow> u32 option \<Rightarrow> ('f, 'd ipst, 'a) stk \<Rightarrow> ('f, 'd ipst, 'a) stk option" where
  "netif_set_gw nif g = upd_netif nif (\<lambda>d. d\<lparr>nd_gw := (case g of None \<Rightarrow> 0 | Some a \<Rightarrow> a)\<rparr>)"

definition netif_set_addr ::
  "('f, 'd ipst, 'a) stk_env \<Rightarrow> nat \<Rightarrow> u32 option \<Rightarrow> u32 option \<Rightarrow> u32 option \<Rightarrow> ('f, 'd ipst, 'a) stk \<Rightarrow>
     ('f, 'd ipst, 'a) stk option" where
  "netif_set_addr E nif ip m g s = do {
     s \<leftarrow> netif_set_ipaddr E nif ip s; s \<leftarrow> netif_set_netmask nif m s; netif_set_gw nif g s }"

section \<open>Up and down\<close>

definition netif_set_up :: "'d ip_env \<Rightarrow> nat \<Rightarrow> ('f, 'd ipst, 'a) stk \<Rightarrow> ('f, 'd ipst, 'a) stk option" where
  "netif_set_up X nif s = do {
     d \<leftarrow> get_netif nif (k_low s);
     if nd_flags d AND NETIF_FLAG_UP \<noteq> 0 then Some s
     else do {
       s \<leftarrow> upd_netif nif (\<lambda>d. d\<lparr>nd_flags := nd_flags d OR NETIF_FLAG_UP\<rparr>) s;
       if nd_flags d AND NETIF_FLAG_LINK_UP \<noteq> 0 \<and> nd_flags d AND NETIF_FLAG_ETHARP \<noteq> 0
       then do { (_, s) \<leftarrow> at_low (etharp_gratuitous X nif) s; Some s }
       else Some s } }"

definition netif_set_down :: "'d ip_env \<Rightarrow> nat \<Rightarrow> ('f, 'd ipst, 'a) stk \<Rightarrow> ('f, 'd ipst, 'a) stk option" where
  "netif_set_down X nif s = do {
     d \<leftarrow> get_netif nif (k_low s);
     if nd_flags d AND NETIF_FLAG_UP = 0 then Some s
     else do {
       s \<leftarrow> upd_netif nif (\<lambda>d. d\<lparr>nd_flags := nd_flags d AND NOT NETIF_FLAG_UP\<rparr>) s;
       if nd_flags d AND NETIF_FLAG_ETHARP \<noteq> 0 then on_low (etharp_cleanup_netif X nif) s else Some s } }"

definition netif_set_link_up :: "'d ip_env \<Rightarrow> nat \<Rightarrow> ('f, 'd ipst, 'a) stk \<Rightarrow> ('f, 'd ipst, 'a) stk option" where
  "netif_set_link_up X nif s = do {
     d \<leftarrow> get_netif nif (k_low s);
     if nd_flags d AND NETIF_FLAG_LINK_UP \<noteq> 0 then Some s
     else do {
       s \<leftarrow> upd_netif nif (\<lambda>d. d\<lparr>nd_flags := nd_flags d OR NETIF_FLAG_LINK_UP\<rparr>) s;
       if nd_flags d AND NETIF_FLAG_UP \<noteq> 0 \<and> nd_flags d AND NETIF_FLAG_ETHARP \<noteq> 0
       then do { (_, s) \<leftarrow> at_low (etharp_gratuitous X nif) s; Some s }
       else Some s } }"

definition netif_set_link_down :: "nat \<Rightarrow> ('f, 'd ipst, 'a) stk \<Rightarrow> ('f, 'd ipst, 'a) stk option" where
  "netif_set_link_down nif = upd_netif nif (\<lambda>d. d\<lparr>nd_flags := nd_flags d AND NOT NETIF_FLAG_LINK_UP\<rparr>)"

section \<open>The list\<close>

definition netif_set_default :: "nat option \<Rightarrow> ('f, 'd ipst, 'a) stk \<Rightarrow> ('f, 'd ipst, 'a) stk option" where
  "netif_set_default nif = on_low (\<lambda>l. Some (on_ip (\<lambda>w. w\<lparr>i_default := nif\<rparr>) l))"

definition netif_add ::
  "('f, 'd ipst, 'a) stk_env \<Rightarrow> (nat \<Rightarrow> ('f, 'd ipst, 'a) stk \<Rightarrow> (err_t \<times> ('f, 'd ipst, 'a) stk) option) \<Rightarrow>
     nat \<Rightarrow> u32 option \<Rightarrow> u32 option \<Rightarrow> u32 option \<Rightarrow> nat option \<Rightarrow> ('f, 'd ipst, 'a) stk \<Rightarrow>
     (nat option \<times> ('f, 'd ipst, 'a) stk) option" where
  "netif_add E init nif ip m g state s = do {
     let num = i_num (l_ip (k_low s));
     s \<leftarrow> upd_netif nif (\<lambda>d. d\<lparr>nd_ip_addr := 0, nd_netmask := 0, nd_gw := 0, nd_flags := 0, nd_state := state,
           nd_num := num\<rparr>) s;
     s \<leftarrow> on_low (\<lambda>l. Some (on_ip (\<lambda>w. w\<lparr>i_num := i_num w + 1\<rparr>) l)) s;
     s \<leftarrow> netif_set_addr E nif ip m g s;
     (e, s) \<leftarrow> init nif s;
     if e \<noteq> ERR_OK then Some (None, s)
     else do {
       s \<leftarrow> on_low (\<lambda>l. Some (on_ip (\<lambda>w. w\<lparr>i_list := nif # i_list w\<rparr>) l)) s;
       Some (Some nif, s) } }"

definition netif_remove :: "'d ip_env \<Rightarrow> nat option \<Rightarrow> ('f, 'd ipst, 'a) stk \<Rightarrow> ('f, 'd ipst, 'a) stk option" where
  "netif_remove X nif s = (case nif of None \<Rightarrow> Some s
     | Some x \<Rightarrow> do {
         d \<leftarrow> get_netif x (k_low s);
         s \<leftarrow> (if netif_is_up d then netif_set_down X x s else Some s);
         if x \<notin> set (i_list (l_ip (k_low s))) then Some s
         else do {
           s \<leftarrow> on_low (\<lambda>l. Some (on_ip (\<lambda>w. w\<lparr>i_list := remove1 x (i_list w)\<rparr>) l)) s;
           if i_default (l_ip (k_low s)) = Some x then netif_set_default None s else Some s } })"

text \<open>A name is two letters and a digit.\<close>

fun find_netif :: "(nat \<Rightarrow> netdev option) \<Rightarrow> u8 \<Rightarrow> u8 \<times> u8 \<Rightarrow> nat list \<Rightarrow> nat option option" where
  "find_netif f num name [] = Some None"
| "find_netif f num name (x # xs) = do {
     d \<leftarrow> f x; if num = nd_num d \<and> name = nd_name d then Some (Some x) else find_netif f num name xs }"

definition netif_find :: "(u8 \<times> u8 \<times> u8) option \<Rightarrow> ('f, 'd ipst, 'a) stk \<Rightarrow> nat option option" where
  "netif_find name s = (case name of None \<Rightarrow> Some None
     | Some (a, b, c) \<Rightarrow> find_netif (i_netifs (l_ip (k_low s))) (c - 48) (a, b) (i_list (l_ip (k_low s))))"

end
