(* ===== verification/ArpTable.thy ===== *)
theory ArpTable
  imports Netif
begin

text \<open>
  The invariant of the ARP table and what a lookup finds after an update. The driver is assumed to leave
  the table alone; everything else of its behaviour is open.
\<close>

section \<open>The invariant\<close>

definition entry_ok :: "etharp_entry \<Rightarrow> bool" where
  "entry_ok e = (case ae_state e of
     ETHARP_STATE_EMPTY \<Rightarrow> ae_q e = None \<and> ae_ctime e = 0
   | ETHARP_STATE_PENDING \<Rightarrow> ae_ctime e < ARP_MAXPENDING
   | _ \<Rightarrow> ae_q e = None \<and> ae_ctime e < ARP_MAXAGE)"

definition used :: "etharp_entry \<Rightarrow> bool" where "used e \<longleftrightarrow> ae_state e \<noteq> ETHARP_STATE_EMPTY"

text \<open>No address has two entries.\<close>

definition addrs_ok :: "etharp_entry list \<Rightarrow> bool" where
  "addrs_ok t \<longleftrightarrow> (\<forall>i < length t. \<forall>j < length t. i \<noteq> j \<longrightarrow> used (t ! i) \<longrightarrow> used (t ! j) \<longrightarrow>
     ae_ipaddr (t ! i) \<noteq> ae_ipaddr (t ! j))"

definition arp_ok :: "'d ipst \<Rightarrow> bool" where
  "arp_ok w \<longleftrightarrow> length (i_arp w) = ARP_TABLE_SIZE \<and> unat (i_cached w) < ARP_TABLE_SIZE \<and>
     (\<forall>e \<in> set (i_arp w). entry_ok e) \<and> addrs_ok (i_arp w)"

definition same_arp :: "'d ip \<Rightarrow> 'd ip \<Rightarrow> bool" where
  "same_arp s s' \<longleftrightarrow> i_arp (l_ip s') = i_arp (l_ip s) \<and> i_cached (l_ip s') = i_cached (l_ip s)"

text \<open>The driver does not write the table.\<close>

definition driver_ok :: "'d ip_env \<Rightarrow> bool" where
  "driver_ok X \<longleftrightarrow> (\<forall>nif p s r s'. ie_linkoutput X nif p s = Some (r, s') \<longrightarrow> same_arp s s')"

lemma same_arp_refl [simp]: "same_arp s s" by (simp add: same_arp_def)

lemma same_arp_trans: "same_arp s t \<Longrightarrow> same_arp t u \<Longrightarrow> same_arp s u" by (simp add: same_arp_def)

lemma same_arp_ok: "same_arp s s' \<Longrightarrow> arp_ok (l_ip s') = arp_ok (l_ip s)" by (simp add: same_arp_def arp_ok_def)

lemma link_same: "driver_ok X \<Longrightarrow> ie_linkoutput X nif p s = Some (r, s') \<Longrightarrow> same_arp s s'"
  by (auto simp: driver_ok_def)

section \<open>What leaves the table alone\<close>

lemma net_same: "on_net f s = Some (r, s') \<Longrightarrow> same_arp s s'" "on_net1 g s = Some s' \<Longrightarrow> same_arp s s'"
  "ip_write a bs s = Some s' \<Longrightarrow> same_arp s s'" "ip_copy a b n s = Some s' \<Longrightarrow> same_arp s s'"
  "ip_pbuf_free X p s = Some s' \<Longrightarrow> same_arp s s'"
  by (auto simp: on_net_def on_net1_def ip_write_def ip_copy_def ip_pbuf_free_def same_arp_def bind_eq_Some_conv)

lemma etharp_send_ip_same: "driver_ok X \<Longrightarrow> etharp_send_ip X nif p a s = Some (r, s') \<Longrightarrow> same_arp s s'"
  by (auto simp: etharp_send_ip_def bind_eq_Some_conv split: if_splits dest!: net_same link_same elim!: same_arp_trans)

lemma etharp_raw_same:
  assumes d: "driver_ok X" and r: "etharp_raw X nif a b c e f g op s = Some (r, s')"
  shows "same_arp s s'"
proof -
  from r obtain p s1 where a: "on_net (pbuf_alloc (ie_cff X) PBUF_RAW SIZEOF_ETHARP_PACKET PBUF_RAM) s = Some (p, s1)"
    by (auto simp: etharp_raw_def bind_eq_Some_conv)
  show ?thesis
  proof (cases p)
    case None
    with r a show ?thesis by (auto simp: etharp_raw_def dest: net_same)
  next
    case (Some q)
    from r a Some show ?thesis
      by (auto simp: etharp_raw_def Let_def bind_eq_Some_conv split: if_splits dest!: net_same link_same [OF d] elim!: same_arp_trans)
  qed
qed

lemma etharp_request_same: "driver_ok X \<Longrightarrow> etharp_request X nif a s = Some (r, s') \<Longrightarrow> same_arp s s'"
  by (auto simp: etharp_request_def bind_eq_Some_conv dest: etharp_raw_same)


section \<open>Writes\<close>

lemma i_arp_on_ip [simp]: "l_ip (on_ip f s) = f (l_ip s)" by (simp add: on_ip_def)

lemma arp_at_iff: "arp_at i s = Some e \<longleftrightarrow> i < length (i_arp (l_ip s)) \<and> e = i_arp (l_ip s) ! i"
  by (auto simp: arp_at_def Let_def)

lemma upd_arp_iff: "upd_arp i f s = Some s' \<longleftrightarrow> i < length (i_arp (l_ip s)) \<and>
    s' = on_ip (\<lambda>w. w\<lparr>i_arp := (i_arp w)[i := f (i_arp (l_ip s) ! i)]\<rparr>) s"
  by (auto simp: upd_arp_def bind_eq_Some_conv arp_at_iff)

text \<open>The table after the entry \<open>i\<close> was written.\<close>

definition wrote :: "nat \<Rightarrow> etharp_entry \<Rightarrow> 'd ip \<Rightarrow> 'd ip \<Rightarrow> bool" where
  "wrote i e s s' \<longleftrightarrow> i < length (i_arp (l_ip s)) \<and> i_arp (l_ip s') = (i_arp (l_ip s))[i := e] \<and>
     i_cached (l_ip s') = i_cached (l_ip s)"

lemma upd_wrote: "upd_arp i f s = Some s' \<Longrightarrow> wrote i (f (i_arp (l_ip s) ! i)) s s'"
  by (simp add: upd_arp_iff wrote_def)

lemma wrote_same: "wrote i e s t \<Longrightarrow> same_arp t u \<Longrightarrow> wrote i e s u"
  "same_arp s t \<Longrightarrow> wrote i e t u \<Longrightarrow> wrote i e s u"
  by (simp_all add: wrote_def same_arp_def)

lemma wrote_wrote: "wrote i e s t \<Longrightarrow> wrote i e' t u \<Longrightarrow> wrote i e' s u"
  by (simp add: wrote_def)

lemma wrote_nth: "wrote i e s t \<Longrightarrow> i_arp (l_ip t) ! i = e" "wrote i e s t \<Longrightarrow> j \<noteq> i \<Longrightarrow> i_arp (l_ip t) ! j = i_arp (l_ip s) ! j"
  by (auto simp: wrote_def)

lemma wrote_length: "wrote i e s t \<Longrightarrow> i < length (i_arp (l_ip t))"
  unfolding wrote_def by (metis length_list_update)

text \<open>An entry may be written when it is well formed and its address has no other entry.\<close>

definition fits :: "nat \<Rightarrow> etharp_entry \<Rightarrow> 'd ip \<Rightarrow> bool" where
  "fits i e s \<longleftrightarrow> entry_ok e \<and> (used e \<longrightarrow>
     (\<forall>j < length (i_arp (l_ip s)). j \<noteq> i \<longrightarrow> used (i_arp (l_ip s) ! j) \<longrightarrow> ae_ipaddr (i_arp (l_ip s) ! j) \<noteq> ae_ipaddr e))"

lemma wrote_ok: "arp_ok (l_ip s) \<Longrightarrow> wrote i e s s' \<Longrightarrow> fits i e s \<Longrightarrow> arp_ok (l_ip s')"
  by (auto simp: arp_ok_def wrote_def fits_def addrs_ok_def nth_list_update dest!: set_update_subset_insert [THEN subsetD])

lemma fits_self: "arp_ok (l_ip s) \<Longrightarrow> i < length (i_arp (l_ip s)) \<Longrightarrow> entry_ok e \<Longrightarrow>
    (used e \<Longrightarrow> used (i_arp (l_ip s) ! i) \<and> ae_ipaddr e = ae_ipaddr (i_arp (l_ip s) ! i)) \<Longrightarrow> fits i e s"
  by (auto simp: fits_def arp_ok_def addrs_ok_def)

lemma nth_ok: "arp_ok (l_ip s) \<Longrightarrow> i < length (i_arp (l_ip s)) \<Longrightarrow> entry_ok (i_arp (l_ip s) ! i)"
  by (simp add: arp_ok_def)

definition free_entry :: etharp_entry where
  "free_entry = \<lparr>ae_q = None, ae_ipaddr = 0, ae_netif = None, ae_ethaddr = ethzero, ae_state = ETHARP_STATE_EMPTY, ae_ctime = 0\<rparr>"

lemma free_entry_ok [simp]: "entry_ok free_entry" "\<not> used free_entry" "fits i free_entry s"
  by (simp_all add: entry_ok_def free_entry_def used_def fits_def)

lemma etharp_free_entry_wrote:
  assumes "etharp_free_entry X i s = Some s'"
  shows "wrote i free_entry s s'"
proof -
  from assms obtain s1 where s1: "(case ae_q (i_arp (l_ip s) ! i) of None \<Rightarrow> Some s
      | Some q \<Rightarrow> do { s \<leftarrow> ip_pbuf_free X q s; upd_arp i (\<lambda>e. e\<lparr>ae_q := None\<rparr>) s }) = Some s1"
    and u: "upd_arp i (\<lambda>e. e\<lparr>ae_state := ETHARP_STATE_EMPTY, ae_ctime := 0, ae_netif := None, ae_ipaddr := 0,
       ae_ethaddr := ethzero\<rparr>) s1 = Some s'" and i: "i < length (i_arp (l_ip s))"
    by (auto simp: etharp_free_entry_def bind_eq_Some_conv arp_at_iff)
  have w: "wrote i ((i_arp (l_ip s) ! i)\<lparr>ae_q := None\<rparr>) s s1"
  proof (cases "ae_q (i_arp (l_ip s) ! i)")
    case None
    then have "(i_arp (l_ip s) ! i)\<lparr>ae_q := None\<rparr> = i_arp (l_ip s) ! i" by (cases "i_arp (l_ip s) ! i") simp
    moreover from s1 None have "s1 = s" by simp
    ultimately show ?thesis using i by (simp add: wrote_def)
  next
    case (Some q)
    with s1 obtain t where "ip_pbuf_free X q s = Some t" "upd_arp i (\<lambda>e. e\<lparr>ae_q := None\<rparr>) t = Some s1"
      by (auto simp: bind_eq_Some_conv)
    then show ?thesis using net_same(5) [of X q s t] upd_wrote [of i _ t s1] by (auto simp: same_arp_def wrote_def)
  qed
  from wrote_wrote [OF w upd_wrote [OF u]] wrote_nth(1) [OF w] show ?thesis
    by (cases "i_arp (l_ip s) ! i") (simp add: free_entry_def)
qed

section \<open>The timer\<close>

lemma etharp_free_entry_ok: "etharp_free_entry X i s = Some s' \<Longrightarrow> arp_ok (l_ip s) \<Longrightarrow> arp_ok (l_ip s')"
  by (rule wrote_ok [OF _ etharp_free_entry_wrote]) simp_all

lemma arp_loop_ok:
  assumes "\<And>i s s'. f i s = Some s' \<Longrightarrow> arp_ok (l_ip s) \<Longrightarrow> arp_ok (l_ip s')"
  shows "arp_loop f is s = Some s' \<Longrightarrow> arp_ok (l_ip s) \<Longrightarrow> arp_ok (l_ip s')"
  by (induction "is" arbitrary: s) (auto simp: bind_eq_Some_conv dest: assms)

lemma etharp_age_ok:
  assumes r: "etharp_age X i s = Some s'" and ok: "arp_ok (l_ip s)"
  shows "arp_ok (l_ip s')"
proof -
  let ?e = "i_arp (l_ip s) ! i"
  have i: "i < length (i_arp (l_ip s))" using r by (auto simp: etharp_age_def bind_eq_Some_conv arp_at_iff)
  show ?thesis
  proof (cases "ae_state ?e = ETHARP_STATE_EMPTY")
    case True
    with r ok i show ?thesis by (simp add: etharp_age_def arp_at_def)
  next
    case False
    let ?e1 = "?e\<lparr>ae_ctime := ae_ctime ?e + 1\<rparr>"
    from i obtain s1 where u: "upd_arp i (\<lambda>e. e\<lparr>ae_ctime := ae_ctime e + 1\<rparr>) s = Some s1" by (simp add: upd_arp_iff)
    from upd_wrote [OF u] have w: "wrote i ?e1 s s1" .
    have a: "arp_at i s = Some ?e" "arp_at i s1 = Some ?e1" using i w by (simp_all add: arp_at_def wrote_def)
    from r have c: "(if ae_ctime ?e1 \<ge> ARP_MAXAGE \<or> (ae_state ?e = ETHARP_STATE_PENDING \<and> ae_ctime ?e1 \<ge> ARP_MAXPENDING)
         then etharp_free_entry X i s1
         else if ae_state ?e = ETHARP_STATE_STABLE_REREQUESTING
         then upd_arp i (\<lambda>e. e\<lparr>ae_state := ETHARP_STATE_STABLE\<rparr>) s1 else Some s1) = Some s'"
      by (simp add: etharp_age_def a u False cong: if_cong)
    note e1 = wrote_nth(1) [OF w]
    have e: "entry_ok ?e" using nth_ok [OF ok i] .
    consider (f) "etharp_free_entry X i s1 = Some s'"
      | (u) e2 where "wrote i e2 s s'" "ae_ctime ?e1 < ARP_MAXAGE" "ae_state ?e = ETHARP_STATE_PENDING \<longrightarrow> ae_ctime ?e1 < ARP_MAXPENDING"
          "e2 = ?e1 \<or> ae_state ?e = ETHARP_STATE_STABLE_REREQUESTING \<and> e2 = ?e1\<lparr>ae_state := ETHARP_STATE_STABLE\<rparr>"
      using c w upd_wrote [of i _ s1 s'] wrote_wrote [OF w, of _ s'] unfolding e1
      by (fastforce split: if_splits simp: not_le)
    then show ?thesis
    proof cases
      case f
      then show ?thesis using wrote_ok [OF ok wrote_wrote [OF w etharp_free_entry_wrote]] by simp
    next
      case u
      have "entry_ok e2" using e u(2-4) False by (auto simp: entry_ok_def split: etharp_state.splits)
      then have "fits i e2 s" using u(4) False by (intro fits_self [OF ok i]) (auto simp: used_def)
      then show ?thesis by (rule wrote_ok [OF ok u(1)])
    qed
  qed
qed

lemma etharp_tmr_ok: "etharp_tmr X s = Some s' \<Longrightarrow> arp_ok (l_ip s) \<Longrightarrow> arp_ok (l_ip s')"
  unfolding etharp_tmr_def by (rule arp_loop_ok [where f = "etharp_age X", OF etharp_age_ok])

lemma etharp_cleanup_netif_ok: "etharp_cleanup_netif X nif s = Some s' \<Longrightarrow> arp_ok (l_ip s) \<Longrightarrow> arp_ok (l_ip s')"
  unfolding etharp_cleanup_netif_def
  by (erule arp_loop_ok [rotated -1]) (auto simp: bind_eq_Some_conv split: if_splits dest: etharp_free_entry_ok)


section \<open>Search\<close>

lemma find_scan_Inl: "find_scan a i es acc = Inl j \<Longrightarrow>
    \<exists>k < length es. j = i + k \<and> used (es ! k) \<and> a = Some (ae_ipaddr (es ! k))"
  by (induction a i es acc rule: find_scan.induct) (force simp: used_def nth_Cons' split: if_splits)+

lemma fa_empty_oldest [simp]: "fa_empty (find_oldest i e acc) = fa_empty acc" by (simp add: find_oldest_def)

lemma find_scan_absent: "find_scan a i es acc = Inr acc' \<Longrightarrow> e \<in> set es \<Longrightarrow> used e \<Longrightarrow> a \<noteq> Some (ae_ipaddr e)"
  by (induction a i es acc rule: find_scan.induct) (auto simp: used_def split: if_splits)

lemma find_scan_first: "find_scan a i es acc = Inr acc' \<Longrightarrow> fa_empty acc = Some k \<Longrightarrow> fa_empty acc' = Some k"
  by (induction a i es acc rule: find_scan.induct) (auto split: if_splits)

lemma find_scan_empty: "find_scan a i es acc = Inr acc' \<Longrightarrow> fa_empty acc = None \<Longrightarrow> fa_empty acc' = Some k \<Longrightarrow>
    i \<le> k \<and> k < i + length es \<and> \<not> used (es ! (k - i))"
proof (induction a i es acc rule: find_scan.induct)
  case (2 a i e es acc)
  show ?case
  proof (cases "used e")
    case True
    then have "find_scan a (Suc i) es (find_oldest i e acc) = Inr acc'" using 2(4) by (simp add: used_def split: if_splits)
    moreover have "a \<noteq> Some (ae_ipaddr e)" using True 2(4) by (auto simp: used_def)
    ultimately show ?thesis using 2(2) [OF _ _ _ \<open>find_scan a (Suc i) es (find_oldest i e acc) = Inr acc'\<close>] 2(5,6) True
      by (auto simp: used_def nth_Cons')
  next
    case False
    with 2(4,5) have "find_scan a (Suc i) es (acc\<lparr>fa_empty := Some i\<rparr>) = Inr acc'" by (simp add: used_def)
    from find_scan_first [OF this] 2(6) False show ?thesis by simp
  qed
qed simp

lemma find_entry_cases:
  assumes r: "etharp_find_entry X (Some a) fl s = Some (r, s')" and ok: "arp_ok (l_ip s)"
  obtains (found) i where "r = Some i" "s' = s" "i < length (i_arp (l_ip s))" "used (i_arp (l_ip s) ! i)"
      "ae_ipaddr (i_arp (l_ip s) ! i) = a"
  | (new) i e where "r = Some i" "wrote i e s s'" "\<not> used e" "entry_ok e" "ae_ipaddr e = a"
      "\<forall>e \<in> set (i_arp (l_ip s)). used e \<longrightarrow> ae_ipaddr e \<noteq> a"
  | (none) "r = None" "s' = s"
proof (cases "find_scan (Some a) 0 (i_arp (l_ip s)) find_start")
  case (Inl i)
  with find_scan_Inl [OF Inl] r found show ?thesis by (auto simp: etharp_find_entry_def)
next
  case (Inr acc)
  note sc = find_scan_absent [OF Inr] find_scan_empty [OF Inr]
  have new': thesis if "r = Some i" "wrote i e0 s s1" "\<not> used e0" "entry_ok e0"
    "upd_arp i (\<lambda>e. e\<lparr>ae_ipaddr := a\<rparr>) s1 = Some s2" "upd_arp i (\<lambda>e. e\<lparr>ae_ctime := 0\<rparr>) s2 = Some s'" for i e0 s1 s2
  proof (rule new)
    show "wrote i (e0\<lparr>ae_ipaddr := a, ae_ctime := 0\<rparr>) s s'"
      using wrote_wrote [OF wrote_wrote [OF that(2) upd_wrote [OF that(5)]] upd_wrote [OF that(6)]]
        wrote_nth(1) [OF that(2)] wrote_nth(1) [OF upd_wrote [OF that(5)]] by simp
  qed (use that(1,3,4) sc in \<open>auto simp: entry_ok_def used_def\<close>)
  show ?thesis
  proof (cases "fl AND ETHARP_FLAG_FIND_ONLY \<noteq> 0 \<or> fa_empty acc = None \<and> fl AND ETHARP_FLAG_TRY_HARD = 0")
    case True
    with r Inr none show ?thesis by (simp add: etharp_find_entry_def)
  next
    case False
    show ?thesis
    proof (cases "fa_empty acc")
      case (Some i)
      with sc have i: "i < length (i_arp (l_ip s))" "\<not> used (i_arp (l_ip s) ! i)" by (auto simp: find_start_def)
      then have "wrote i (i_arp (l_ip s) ! i) s s" by (simp add: wrote_def)
      moreover from r Inr False Some obtain s1 where "r = Some i" "upd_arp i (\<lambda>e. e\<lparr>ae_ipaddr := a\<rparr>) s = Some s1"
          "upd_arp i (\<lambda>e. e\<lparr>ae_ctime := 0\<rparr>) s1 = Some s'"
        by (auto simp: etharp_find_entry_def bind_eq_Some_conv split: if_splits)
      ultimately show ?thesis using i nth_ok [OF ok i(1)] by (intro new')
    next
      case None
      with r Inr False obtain v where "find_victim acc s = Some v" and v: "v = None \<and> r = None \<and> s' = s \<or>
          (\<exists>i s1 s2. v = Some i \<and> r = Some i \<and> etharp_free_entry X i s = Some s1 \<and> upd_arp i (\<lambda>e. e\<lparr>ae_ipaddr := a\<rparr>) s1 = Some s2 \<and>
             upd_arp i (\<lambda>e. e\<lparr>ae_ctime := 0\<rparr>) s2 = Some s')"
        by (auto simp: etharp_find_entry_def bind_eq_Some_conv split: option.splits if_splits)
      from v show ?thesis using none by (auto dest: etharp_free_entry_wrote intro: new')
    qed
  qed
qed

section \<open>Updates\<close>

definition stable_entry :: "nat \<Rightarrow> u32 \<Rightarrow> eth_addr \<Rightarrow> etharp_entry" where
  "stable_entry nif a h = \<lparr>ae_q = None, ae_ipaddr = a, ae_netif = Some nif, ae_ethaddr = h,
     ae_state = ETHARP_STATE_STABLE, ae_ctime = 0\<rparr>"

lemma fits_new: "\<forall>e \<in> set (i_arp (l_ip s)). used e \<longrightarrow> ae_ipaddr e \<noteq> a \<Longrightarrow> entry_ok e \<Longrightarrow> ae_ipaddr e = a \<Longrightarrow> fits i e s"
  by (auto simp: fits_def)

lemma find_entry_fits:
  assumes "etharp_find_entry X (Some a) fl s = Some (Some i, s')" "arp_ok (l_ip s)"
  shows "wrote i (i_arp (l_ip s') ! i) s s'" "ae_ipaddr (i_arp (l_ip s') ! i) = a" "entry_ok (i_arp (l_ip s') ! i)"
    "\<And>e. entry_ok e \<Longrightarrow> ae_ipaddr e = a \<Longrightarrow> fits i e s" "arp_ok (l_ip s')"
  by (rule find_entry_cases [OF assms]; use assms(2) in \<open>auto simp: wrote_nth intro: fits_new fits_self nth_ok wrote_ok simp: wrote_def\<close>)+


text \<open>An update writes one entry, or nothing.\<close>

lemma update_arp_entry:
  assumes d: "driver_ok X" and r: "etharp_update_arp_entry X nif a h fl s = Some (e, s')" and ok: "arp_ok (l_ip s)"
  shows "(\<exists>i t. e = ERR_OK \<and> wrote i (stable_entry nif a h) s s' \<and> fits i (stable_entry nif a h) s \<and>
      etharp_find_entry X (Some a) fl s = Some (Some i, t)) \<or> e \<noteq> ERR_OK \<and> same_arp s s'"
proof -
  from r obtain n where "get_netif nif s = Some n"
    and r: "(if a = 0 \<or> ip4_addr_isbroadcast a (addr_netif n) \<or> ip_addr_ismulticast a then Some (ERR_ARG, s)
      else do {
       (i, s) \<leftarrow> etharp_find_entry X (Some a) fl s;
       case i of None \<Rightarrow> Some (ERR_MEM, s)
       | Some i \<Rightarrow> do {
           s \<leftarrow> upd_arp i (\<lambda>e. e\<lparr>ae_state := ETHARP_STATE_STABLE, ae_netif := Some nif, ae_ethaddr := h, ae_ctime := 0\<rparr>) s;
           e \<leftarrow> arp_at i s;
           case ae_q e of None \<Rightarrow> Some (ERR_OK, s)
           | Some p \<Rightarrow> do {
               s \<leftarrow> upd_arp i (\<lambda>e. e\<lparr>ae_q := None\<rparr>) s;
               (_, s) \<leftarrow> etharp_send_ip X nif p h s;
               s \<leftarrow> ip_pbuf_free X p s;
               Some (ERR_OK, s) } } }) = Some (e, s')"
    by (auto simp: etharp_update_arp_entry_def bind_eq_Some_conv split: if_splits)
  show ?thesis
  proof (cases "a = 0 \<or> ip4_addr_isbroadcast a (addr_netif n) \<or> ip_addr_ismulticast a")
    case True
    with r show ?thesis by (simp split: if_splits)
  next
    case False
    with r obtain j t where f: "etharp_find_entry X (Some a) fl s = Some (j, t)" by (auto simp: bind_eq_Some_conv)
    show ?thesis
    proof (cases j)
      case None
      then have "t = s" by (cases rule: find_entry_cases [OF f ok]) simp_all
      moreover from r have "e = ERR_MEM \<and> s' = t" by (simp add: if_not_P [OF False] f None)
      ultimately show ?thesis by simp
    next
      case (Some i)
      note fe = find_entry_fits [OF f [unfolded Some] ok]
      let ?e = "(i_arp (l_ip t) ! i)\<lparr>ae_state := ETHARP_STATE_STABLE, ae_netif := Some nif, ae_ethaddr := h, ae_ctime := 0\<rparr>"
      have "i < length (i_arp (l_ip t))" using fe(1) by (rule wrote_length)
      then obtain t1 where u: "upd_arp i (\<lambda>e. e\<lparr>ae_state := ETHARP_STATE_STABLE, ae_netif := Some nif,
             ae_ethaddr := h, ae_ctime := 0\<rparr>) t = Some t1" by (simp add: upd_arp_iff)
      then have w: "wrote i ?e s t1" using wrote_wrote [OF fe(1) upd_wrote] by blast
      have at: "arp_at i t1 = Some ?e" using wrote_nth(1) [OF w] wrote_length [OF w] by (simp add: arp_at_iff)
      from r have c: "(case ae_q ?e of None \<Rightarrow> Some (ERR_OK, t1) | Some p \<Rightarrow> do {
               s \<leftarrow> upd_arp i (\<lambda>e. e\<lparr>ae_q := None\<rparr>) t1;
               (_, s) \<leftarrow> etharp_send_ip X nif p h s;
               s \<leftarrow> ip_pbuf_free X p s;
               Some (ERR_OK, s) }) = Some (e, s')"
        by (simp only: if_not_P [OF False] f Some bind.bind_lunit prod.case option.case u at)
      have eq: "?e\<lparr>ae_q := None\<rparr> = stable_entry nif a h" using fe(2) by (simp add: stable_entry_def)
      have "e = ERR_OK \<and> wrote i (stable_entry nif a h) s s'"
      proof (cases "ae_q ?e")
        case None
        then have "?e = ?e\<lparr>ae_q := None\<rparr>" by simp
        with c None w eq show ?thesis by (metis Pair_inject option.inject option.simps(4))
      next
        case (Some q)
        with c obtain t2 b t3 where t: "upd_arp i (\<lambda>e. e\<lparr>ae_q := None\<rparr>) t1 = Some t2" "etharp_send_ip X nif q h t2 = Some (b, t3)"
            "ip_pbuf_free X q t3 = Some s'" "e = ERR_OK"
          by (auto simp: bind_eq_Some_conv)
        have "wrote i (?e\<lparr>ae_q := None\<rparr>) s t2" using wrote_wrote [OF w upd_wrote [OF t(1)]] wrote_nth(1) [OF w] by simp
        then show ?thesis unfolding eq
          using t(4) etharp_send_ip_same [OF d t(2)] net_same(5) [OF t(3)] by (auto intro: wrote_same)
      qed
      moreover have "fits i (stable_entry nif a h) s" by (rule fe(4)) (simp_all add: stable_entry_def entry_ok_def ARP_MAXAGE_def)
      ultimately show ?thesis using f Some by blast
    qed
  qed
qed

lemma update_arp_entry_ok: "driver_ok X \<Longrightarrow> etharp_update_arp_entry X nif a h fl s = Some (e, s') \<Longrightarrow> arp_ok (l_ip s) \<Longrightarrow>
    arp_ok (l_ip s')"
  using update_arp_entry [of X nif a h fl s e s'] wrote_ok [of s] same_arp_ok [of s s'] by blast

section \<open>Queries and output\<close>

lemma set_cached_ok: "arp_ok (l_ip s) \<Longrightarrow> i < length (i_arp (l_ip s)) \<Longrightarrow> arp_ok (l_ip (set_cached i s))"
  by (simp add: arp_ok_def set_cached_def ARP_TABLE_SIZE_def unat_of_nat)

lemma query_packet_same: "query_packet X q s = Some (p, s') \<Longrightarrow> same_arp s s'"
  by (auto simp: query_packet_def bind_eq_Some_conv split: option.splits if_splits dest!: net_same elim!: same_arp_trans)

text \<open>A packet may be queued at a pending entry.\<close>

lemma query_queue_ok:
  assumes r: "query_queue X i q s = Some (e, s')" and ok: "arp_ok (l_ip s)"
    and p: "ae_state (i_arp (l_ip s) ! i) = ETHARP_STATE_PENDING"
  shows "arp_ok (l_ip s')"
proof -
  from r obtain p t where t: "query_packet X q s = Some (p, t)" by (auto simp: query_queue_def bind_eq_Some_conv)
  note same = query_packet_same [OF t]
  show ?thesis
  proof (cases p)
    case None
    with r t same ok show ?thesis by (simp add: query_queue_def same_arp_ok)
  next
    case (Some a)
    with r t obtain y :: etharp_entry and t1 where "(case ae_q y of None \<Rightarrow> Some t | Some old \<Rightarrow> ip_pbuf_free X old t) = Some t1"
      and u: "upd_arp i (\<lambda>e. e\<lparr>ae_q := Some a\<rparr>) t1 = Some s'"
      by (auto simp: query_queue_def bind_eq_Some_conv)
    then have "same_arp t t1" by (auto split: option.splits dest: net_same)
    then have st: "same_arp s t1" using same by (blast intro: same_arp_trans)
    then have i: "i < length (i_arp (l_ip t1))" and e: "i_arp (l_ip t1) ! i = i_arp (l_ip s) ! i" and ok1: "arp_ok (l_ip t1)"
      using u ok by (auto simp: upd_arp_iff same_arp_def arp_ok_def)
    show ?thesis
      using fits_self [OF ok1 i] nth_ok [OF ok1 i] p
      by (intro wrote_ok [OF ok1 upd_wrote [OF u]]) (auto simp: e entry_ok_def used_def)
  qed
qed


lemma etharp_query_ok:
  assumes d: "driver_ok X" and r: "etharp_query X nif a q s = Some (e, s')" and ok: "arp_ok (l_ip s)"
  shows "arp_ok (l_ip s')"
proof -
  from r obtain n where "get_netif nif s = Some n"
    and r: "(if ip4_addr_isbroadcast a (addr_netif n) \<or> ip_addr_ismulticast a \<or> a = 0 then Some (ERR_ARG, s)
     else do {
       (i, s) \<leftarrow> etharp_find_entry X (Some a) ETHARP_FLAG_TRY_HARD s;
       case i of None \<Rightarrow> Some (ERR_MEM, s)
       | Some i \<Rightarrow> do {
           e \<leftarrow> arp_at i s;
           s \<leftarrow> (if ae_state e = ETHARP_STATE_EMPTY then upd_arp i (\<lambda>e. e\<lparr>ae_state := ETHARP_STATE_PENDING\<rparr>) s
                else Some s);
           e \<leftarrow> arp_at i s;
           (result, s) \<leftarrow> (if ae_state e = ETHARP_STATE_PENDING \<or> q = None then etharp_request X nif a s
                          else Some (ERR_MEM, s));
           case q of None \<Rightarrow> Some (result, s)
           | Some q \<Rightarrow> do {
               e \<leftarrow> arp_at i s;
               if is_stable e then etharp_send_ip X nif q (ae_ethaddr e) (set_cached i s)
               else if ae_state e = ETHARP_STATE_PENDING then query_queue X i q s
               else Some (result, s) } } }) = Some (e, s')"
    by (auto simp: etharp_query_def bind_eq_Some_conv)
  show ?thesis
  proof (cases "ip4_addr_isbroadcast a (addr_netif n) \<or> ip_addr_ismulticast a \<or> a = 0")
    case True
    with r ok show ?thesis by (simp split: if_splits)
  next
    case False
    with r obtain j t where f: "etharp_find_entry X (Some a) ETHARP_FLAG_TRY_HARD s = Some (j, t)" by (auto simp: bind_eq_Some_conv)
    show ?thesis
    proof (cases j)
      case None
      then have "t = s" by (cases rule: find_entry_cases [OF f ok]) simp_all
      with r ok show ?thesis by (simp add: if_not_P [OF False] f None)
    next
      case (Some i)
      note fe = find_entry_fits [OF f [unfolded Some] ok]
      note w = fe(1)
      note i = wrote_length [OF w]
      have ti: "arp_at i t = Some (i_arp (l_ip t) ! i)" using i by (simp add: arp_at_iff)
      from r obtain t1 where t1: "(if ae_state (i_arp (l_ip t) ! i) = ETHARP_STATE_EMPTY
             then upd_arp i (\<lambda>e. e\<lparr>ae_state := ETHARP_STATE_PENDING\<rparr>) t else Some t) = Some t1"
        and r: "do { e \<leftarrow> arp_at i t1;
             (result, s) \<leftarrow> (if ae_state e = ETHARP_STATE_PENDING \<or> q = None then etharp_request X nif a t1
                          else Some (ERR_MEM, t1));
             case q of None \<Rightarrow> Some (result, s)
             | Some q \<Rightarrow> do {
               e \<leftarrow> arp_at i s;
               if is_stable e then etharp_send_ip X nif q (ae_ethaddr e) (set_cached i s)
               else if ae_state e = ETHARP_STATE_PENDING then query_queue X i q s
               else Some (result, s) } } = Some (e, s')"
        by (simp only: if_not_P [OF False] f Some bind.bind_lunit prod.case option.case ti) (auto simp: bind_eq_Some_conv)
      have "\<exists>e1. wrote i e1 s t1 \<and> fits i e1 s"
      proof (cases "ae_state (i_arp (l_ip t) ! i) = ETHARP_STATE_EMPTY")
        case True
        with t1 have "wrote i ((i_arp (l_ip t) ! i)\<lparr>ae_state := ETHARP_STATE_PENDING\<rparr>) s t1"
          using wrote_wrote [OF w upd_wrote] by auto
        moreover have "fits i ((i_arp (l_ip t) ! i)\<lparr>ae_state := ETHARP_STATE_PENDING\<rparr>) s"
          using fe(2,3) True by (intro fe(4)) (simp_all add: entry_ok_def ARP_MAXPENDING_def)
        ultimately show ?thesis by blast
      next
        case False
        with t1 w fe(2,3) fe(4) show ?thesis by auto
      qed
      then have ok1: "arp_ok (l_ip t1)" using wrote_ok [OF ok] by blast
      from r obtain e1 :: etharp_entry and res t2 where "(if ae_state e1 = ETHARP_STATE_PENDING \<or> q = None then etharp_request X nif a t1
                          else Some (ERR_MEM, t1)) = Some (res, t2)"
        and r: "(case q of None \<Rightarrow> Some (res, t2) | Some q \<Rightarrow> do {
               e \<leftarrow> arp_at i t2;
               if is_stable e then etharp_send_ip X nif q (ae_ethaddr e) (set_cached i t2)
               else if ae_state e = ETHARP_STATE_PENDING then query_queue X i q t2
               else Some (res, t2) }) = Some (e, s')"
        by (auto simp: bind_eq_Some_conv)
      then have "same_arp t1 t2" by (auto split: if_splits dest: etharp_request_same [OF d])
      with ok1 have ok2: "arp_ok (l_ip t2)" by (simp add: same_arp_ok)
      from r ok2 show ?thesis
        by (auto simp: bind_eq_Some_conv arp_at_iff split: option.splits if_splits intro: query_queue_ok
            dest!: etharp_send_ip_same [OF d] same_arp_ok intro: set_cached_ok)
    qed
  qed
qed

lemma output_to_arp_index_ok:
  assumes d: "driver_ok X" and r: "etharp_output_to_arp_index X nif q i s = Some (e, s')" and ok: "arp_ok (l_ip s)"
  shows "arp_ok (l_ip s')"
proof -
  let ?e = "i_arp (l_ip s) ! i"
  from r [unfolded etharp_output_to_arp_index_def] obtain s1 and e1 :: etharp_entry where i: "i < length (i_arp (l_ip s))" and st: "is_stable ?e"
    and q: "(if ae_state ?e = ETHARP_STATE_STABLE \<and> ae_ctime ?e \<ge> ARP_AGE_REREQUEST_USED then do {
            (r, s) \<leftarrow> etharp_request X nif (ae_ipaddr ?e) s;
            if r = ERR_OK then upd_arp i (\<lambda>e. e\<lparr>ae_state := ETHARP_STATE_STABLE_REREQUESTING\<rparr>) s
            else Some s } else Some s) = Some s1" and z: "etharp_send_ip X nif q (ae_ethaddr e1) s1 = Some (e, s')"
    by (elim bindE) (simp add: arp_at_iff)
  have "arp_ok (l_ip s1)"
  proof (cases "same_arp s s1")
    case True
    with ok show ?thesis by (simp add: same_arp_ok)
  next
    case False
    with q obtain t where t: "same_arp s t" and u: "upd_arp i (\<lambda>e. e\<lparr>ae_state := ETHARP_STATE_STABLE_REREQUESTING\<rparr>) t = Some s1"
        and "ae_state ?e = ETHARP_STATE_STABLE"
      by (auto simp: bind_eq_Some_conv split: if_splits dest: etharp_request_same [OF d])
    then have "wrote i (?e\<lparr>ae_state := ETHARP_STATE_STABLE_REREQUESTING\<rparr>) s s1"
      using wrote_same(2) [OF t upd_wrote [OF u]] by (simp add: same_arp_def)
    moreover have "fits i (?e\<lparr>ae_state := ETHARP_STATE_STABLE_REREQUESTING\<rparr>) s"
      using nth_ok [OF ok i] \<open>ae_state ?e = _\<close> by (intro fits_self [OF ok i]) (simp_all add: entry_ok_def used_def)
    ultimately show ?thesis by (rule wrote_ok [OF ok])
  qed
  with etharp_send_ip_same [OF d z] show ?thesis by (simp add: same_arp_ok)
qed

lemma find_stable_less: "find_stable a i es = Some j \<Longrightarrow> j < i + length es"
  by (induction a i es rule: find_stable.induct) (auto split: if_splits)

lemma etharp_output_ok:
  assumes d: "driver_ok X" and r: "etharp_output X nif q a s = Some (e, s')" and ok: "arp_ok (l_ip s)"
  shows "arp_ok (l_ip s')"
proof -
  have u: "arp_ok (l_ip t')" if "etharp_output_unicast X nif q dst t = Some (e, t')" "arp_ok (l_ip t)" for dst t t' e
    using that find_stable_less [of dst 0 "take ARP_TABLE_SIZE (i_arp (l_ip t))"]
    by (auto simp: etharp_output_unicast_def bind_eq_Some_conv split: if_splits option.splits
        intro: output_to_arp_index_ok [OF d] etharp_query_ok [OF d] set_cached_ok)
  from r obtain c s1 n where "on_net (pbuf_header (Some q) (of_nat SIZEOF_ETH_HDR)) s = Some (c, s1)"
    and r: "(if c \<noteq> 0 then Some (ERR_BUF, s1)
     else if ip4_addr_isbroadcast a (addr_netif n) then etharp_send_ip X nif q ethbroadcast s1
     else if ip_addr_ismulticast a then etharp_send_ip X nif q (mcast_addr a) s1
     else case next_hop n a of None \<Rightarrow> Some (ERR_RTE, s1)
       | Some dst \<Rightarrow> etharp_output_unicast X nif q dst s1) = Some (e, s')"
    by (auto simp: etharp_output_def bind_eq_Some_conv)
  from net_same(1) [OF this(1)] ok have "arp_ok (l_ip s1)" by (simp add: same_arp_ok)
  with r u show ?thesis
    by (auto split: if_splits option.splits dest!: etharp_send_ip_same [OF d] same_arp_ok)
qed


section \<open>Packets\<close>

lemma arp_reply_same:
  assumes d: "driver_ok X" and r: "arp_reply X nif p eh s = Some s'"
  shows "same_arp s s'"
  using r by (auto simp: arp_reply_def Let_def bind_eq_Some_conv split: if_splits dest!: net_same link_same [OF d] elim!: same_arp_trans)

lemma etharp_arp_input_ok:
  assumes d: "driver_ok X" and r: "etharp_arp_input X nif p s = Some s'" and ok: "arp_ok (l_ip s)"
  shows "arp_ok (l_ip s')"
proof (cases "ip_pbuf_free X p s = Some s'")
  case True
  with ok show ?thesis by (auto dest: net_same simp: same_arp_ok)
next
  case False
  with r obtain a h fl e s1 s2 eh where u: "etharp_update_arp_entry X nif a h fl s = Some (e, s1)"
    and t: "s2 = s1 \<or> arp_reply X nif p eh s1 = Some s2" and f: "ip_pbuf_free X p s2 = Some s'"
    by (auto simp: etharp_arp_input_def Let_def bind_eq_Some_conv split: if_splits) blast+
  from update_arp_entry_ok [OF d u ok] t net_same(5) [OF f] show ?thesis
    by (auto dest: arp_reply_same [OF d] simp: same_arp_ok)
qed

lemma etharp_find_addr_ok: "etharp_find_addr X a s = Some (r, s') \<Longrightarrow> s' = s"
  by (auto simp: etharp_find_addr_def etharp_find_entry_def ETHARP_FLAG_FIND_ONLY_def bind_eq_Some_conv split: option.splits sum.splits)

section \<open>Runs\<close>

text \<open>The operations on the table, in any order, and whatever else the program does in between.\<close>

inductive arp_step :: "'d ip_env \<Rightarrow> 'd ip \<Rightarrow> 'd ip \<Rightarrow> bool" for X where
  tick: "etharp_tmr X s = Some s' \<Longrightarrow> arp_step X s s'"
| frame: "etharp_arp_input X nif p s = Some s' \<Longrightarrow> arp_step X s s'"
| send: "etharp_output X nif p a s = Some (e, s') \<Longrightarrow> arp_step X s s'"
| query: "etharp_query X nif a q s = Some (e, s') \<Longrightarrow> arp_step X s s'"
| request: "etharp_request X nif a s = Some (e, s') \<Longrightarrow> arp_step X s s'"
| lookup: "etharp_find_addr X a s = Some (r, s') \<Longrightarrow> arp_step X s s'"
| down: "etharp_cleanup_netif X nif s = Some s' \<Longrightarrow> arp_step X s s'"
| rest: "same_arp s s' \<Longrightarrow> arp_step X s s'"

inductive arp_run :: "'d ip_env \<Rightarrow> 'd ip \<Rightarrow> 'd ip \<Rightarrow> bool" for X s where
  arp_stay: "arp_run X s s"
| arp_more: "arp_run X s t \<Longrightarrow> arp_step X t u \<Longrightarrow> arp_run X s u"

lemma arp_step_ok: "arp_step X s s' \<Longrightarrow> driver_ok X \<Longrightarrow> arp_ok (l_ip s) \<Longrightarrow> arp_ok (l_ip s')"
  by (induction rule: arp_step.induct)
    (auto intro: etharp_tmr_ok etharp_arp_input_ok etharp_output_ok etharp_query_ok etharp_cleanup_netif_ok
      dest: etharp_request_same etharp_find_addr_ok simp: same_arp_ok)

definition arp_start :: "'d ipst \<Rightarrow> bool" where
  "arp_start w \<longleftrightarrow> i_arp w = replicate ARP_TABLE_SIZE free_entry \<and> i_cached w = 0"

lemma arp_start_ok: "arp_start w \<Longrightarrow> arp_ok w"
  by (simp add: arp_start_def arp_ok_def ARP_TABLE_SIZE_def addrs_ok_def)

text \<open>C34: whatever frames arrive, packets are sent and time passes, the ARP table keeps its invariant: ten
  entries, no address twice, an empty entry without packet and age, a pending entry younger than two ticks and a stable
  one younger than 240 and without queued packet; and the cached index stays inside the table.\<close>

theorem arp_table_kept:
  assumes "driver_ok X" and "arp_start (l_ip s)" and "arp_run X s s'"
  shows "arp_ok (l_ip s')"
  using assms(3) by induction (use assms(1,2) in \<open>auto intro: arp_start_ok arp_step_ok\<close>)


text \<open>A driver that sends nothing, an interface, and a heap without a free byte.\<close>

definition arp_env0 :: "unit ip_env" where
  "arp_env0 = \<lparr>ie_cff = \<lambda>_ _. None, ie_phys = \<lambda>_. 0,
     ie_udp_recv = \<lambda>_ _ _ _ _ _ s. Some s, ie_linkoutput = \<lambda>_ _ s. Some (ERR_OK, s)\<rparr>"

definition netdev0 :: netdev where
  "netdev0 = \<lparr>nd_ip_addr = 0x0100000a, nd_netmask = 0x00ffffff, nd_gw = 0, nd_state = None, nd_mtu = 1500, nd_hwaddr_len = 6,
     nd_hwaddr = EthAddr 2 0 0 0 0 1, nd_flags = 0x31, nd_name = (101, 110), nd_num = 0\<rparr>"

definition ipst0 :: "unit ipst" where
  "ipst0 = \<lparr>i_netifs = [0 \<mapsto> netdev0], i_list = [0], i_default = Some 0, i_num = 1, i_ip_id = 0,
     i_arp = replicate ARP_TABLE_SIZE free_entry, i_cached = 0, i_udp = Map.empty, i_udp_pcbs = [], i_udp_port = 0xc000,
     i_reass = Map.empty, i_reassdatagrams = None, i_reass_pbufcount = 0, i_helper = Map.empty, i_dev = ()\<rparr>"

definition full_heap :: "unit ip" where
  "full_heap = \<lparr>l_net = boot\<lparr>n_heap := \<lparr>hdrs = Map.empty, lfree = MEM_SIZE_ALIGNED\<rparr>\<rparr>, l_ip = ipst0\<rparr>"

lemma full_heap_alloc: "pbuf_alloc f PBUF_RAW SIZEOF_ETHARP_PACKET PBUF_RAM (l_net full_heap) = Some (None, l_net full_heap)"
proof -
  have "align4 16 = 16" "align4 42 = 44" by (simp_all add: align4_def)
  moreover have "\<not> n < n - k" for n k :: nat by simp
  ultimately show ?thesis
    by (simp add: pbuf_alloc_def pbuf_alloc_ram_def c_def full_heap_def SIZEOF_ETHARP_PACKET_def Let_def
      mem_malloc_def mem_scan.simps)
qed

lemma full_heap_request: "l_net s = l_net full_heap \<Longrightarrow> get_netif 0 s = Some netdev0 \<Longrightarrow>
    etharp_request arp_env0 0 a s = Some (ERR_MEM, s)"
  by (simp add: etharp_request_def etharp_raw_def on_net_def full_heap_alloc)

theorem arp_table_kept_witness:
  "\<exists>s s'. arp_start (l_ip s) \<and> arp_run arp_env0 s s' \<and> arp_ok (l_ip s') \<and>
     map ae_state (i_arp (l_ip s')) = ETHARP_STATE_PENDING # replicate 9 ETHARP_STATE_EMPTY"
proof -
  let ?e = "free_entry\<lparr>ae_ipaddr := 0x0200000a, ae_state := ETHARP_STATE_PENDING\<rparr>"
  let ?s = "full_heap\<lparr>l_ip := ipst0\<lparr>i_arp := ?e # replicate 9 free_entry\<rparr>\<rparr>"
  have t: "i_arp (l_ip full_heap) = free_entry # replicate 9 free_entry"
    by (simp add: full_heap_def ipst0_def ARP_TABLE_SIZE_def numeral_eq_Suc)
  have "find_scan (Some 0x0200000a) 0 (i_arp (l_ip full_heap)) find_start = Inr (find_start\<lparr>fa_empty := Some 0\<rparr>)"
    by (simp add: t numeral_eq_Suc find_start_def free_entry_def)
  then have f: "etharp_find_entry arp_env0 (Some 0x0200000a) ETHARP_FLAG_TRY_HARD full_heap = Some (Some 0, full_heap\<lparr>l_ip :=
      ipst0\<lparr>i_arp := free_entry\<lparr>ae_ipaddr := 0x0200000a\<rparr> # replicate 9 free_entry\<rparr>\<rparr>)"
    by (simp add: etharp_find_entry_def ETHARP_FLAG_TRY_HARD_def ETHARP_FLAG_FIND_ONLY_def arp_at_def upd_arp_def t on_ip_def
      find_start_def free_entry_def) (simp add: full_heap_def)
  have b: "\<not> (ip4_addr_isbroadcast 0x0200000a (addr_netif netdev0) \<or> ip_addr_ismulticast 0x0200000a \<or> (0x0200000a :: u32) = 0)"
    by code_simp
  have g: "get_netif 0 full_heap = Some netdev0" "get_netif 0 ?s = Some netdev0"
    by (simp_all add: full_heap_def get_netif_def ipst0_def)
  have q: "etharp_query arp_env0 0 0x0200000a None full_heap = Some (ERR_MEM, ?s)"
    using full_heap_request [of ?s] g b f
    by (simp add: etharp_query_def arp_at_def upd_arp_def on_ip_def free_entry_def)
  have d: "driver_ok arp_env0" by (simp add: driver_ok_def arp_env0_def)
  have st: "arp_start (l_ip full_heap)" by (simp add: arp_start_def full_heap_def ipst0_def)
  have r: "arp_run arp_env0 full_heap ?s" by (rule arp_more [OF arp_stay arp_step.query [OF q]])
  from arp_table_kept [OF d st r] have "arp_ok (l_ip ?s)" .
  moreover have "map ae_state (i_arp (l_ip ?s)) = ETHARP_STATE_PENDING # replicate 9 ETHARP_STATE_EMPTY"
    by (simp add: free_entry_def)
  ultimately show ?thesis using st r by (intro exI [of _ full_heap] exI [of _ ?s] conjI)
qed

section \<open>Lookup after update\<close>

text \<open>What the table resolves, and which entries resolve it.\<close>

definition resolves :: "'d ip_env \<Rightarrow> 'd ip \<Rightarrow> u32 \<Rightarrow> eth_addr option" where
  "resolves X s a = (case etharp_find_addr X a s of Some (Some (i, h, b), t) \<Rightarrow> Some h | _ \<Rightarrow> None)"

lemma find_scan_hit: "k < length es \<Longrightarrow> used (es ! k) \<Longrightarrow> \<exists>j. find_scan (Some (ae_ipaddr (es ! k))) i es acc = Inl j"
  using find_scan_absent [of "Some (ae_ipaddr (es ! k))" i es acc _ "es ! k"]
  by (cases "find_scan (Some (ae_ipaddr (es ! k))) i es acc") auto

lemma stable_used: "is_stable e \<Longrightarrow> used e" by (auto simp: is_stable_def used_def)

lemma addrs_ok_unique: "addrs_ok t \<Longrightarrow> i < length t \<Longrightarrow> j < length t \<Longrightarrow> used (t ! i) \<Longrightarrow> used (t ! j) \<Longrightarrow>
    ae_ipaddr (t ! i) = ae_ipaddr (t ! j) \<Longrightarrow> i = j"
  unfolding addrs_ok_def by blast

lemma find_addr_hit:
  assumes ok: "arp_ok (l_ip s)" and i: "i < length (i_arp (l_ip s))" "is_stable (i_arp (l_ip s) ! i)"
    and a: "ae_ipaddr (i_arp (l_ip s) ! i) = a"
  shows "etharp_find_addr X a s = Some (Some (i, ae_ethaddr (i_arp (l_ip s) ! i), a), s)"
proof -
  from find_scan_hit [OF i(1) stable_used [OF i(2)]] a obtain j where
    j: "find_scan (Some a) 0 (i_arp (l_ip s)) find_start = Inl j" by auto
  from find_scan_Inl [OF j] have "j = i"
    using addrs_ok_unique [of "i_arp (l_ip s)" i j] ok i stable_used [OF i(2)] a by (auto simp: arp_ok_def)
  with j i a show ?thesis by (simp add: etharp_find_addr_def etharp_find_entry_def arp_at_def)
qed

lemma resolves_iff:
  assumes ok: "arp_ok (l_ip s)"
  shows "resolves X s a = Some h \<longleftrightarrow>
    (\<exists>i < length (i_arp (l_ip s)). is_stable (i_arp (l_ip s) ! i) \<and> ae_ipaddr (i_arp (l_ip s) ! i) = a \<and> ae_ethaddr (i_arp (l_ip s) ! i) = h)"
proof
  assume "resolves X s a = Some h"
  then obtain i b t where "etharp_find_addr X a s = Some (Some (i, h, b), t)"
    by (auto simp: resolves_def split: option.splits)
  then show "\<exists>i < length (i_arp (l_ip s)). is_stable (i_arp (l_ip s) ! i) \<and> ae_ipaddr (i_arp (l_ip s) ! i) = a \<and> ae_ethaddr (i_arp (l_ip s) ! i) = h"
    using find_scan_Inl [of "Some a" 0 "i_arp (l_ip s)" find_start]
    by (cases "find_scan (Some a) 0 (i_arp (l_ip s)) find_start")
      (auto simp: etharp_find_addr_def etharp_find_entry_def ETHARP_FLAG_FIND_ONLY_def arp_at_def split: if_splits)
next
  assume "\<exists>i < length (i_arp (l_ip s)). is_stable (i_arp (l_ip s) ! i) \<and> ae_ipaddr (i_arp (l_ip s) ! i) = a \<and> ae_ethaddr (i_arp (l_ip s) ! i) = h"
  with find_addr_hit [OF ok] show "resolves X s a = Some h" by (auto simp: resolves_def)
qed

lemma find_oldest_stable:
  "fa_stable (find_oldest i e acc) = (if is_stable e \<and> ae_ctime e \<ge> fa_age_stable acc then Some i else fa_stable acc)"
  "fa_age_stable (find_oldest i e acc) = (if is_stable e \<and> ae_ctime e \<ge> fa_age_stable acc then ae_ctime e else fa_age_stable acc)"
  by (auto simp: find_oldest_def is_stable_def)

lemma find_scan_age: "find_scan a i es acc = Inr acc' \<Longrightarrow> fa_age_stable acc \<le> fa_age_stable acc' \<and>
    (\<forall>e \<in> set es. is_stable e \<longrightarrow> ae_ctime e \<le> fa_age_stable acc')"
proof (induction a i es acc rule: find_scan.induct)
  case (2 a i e es acc)
  have "is_stable e \<Longrightarrow> ae_state e \<noteq> ETHARP_STATE_EMPTY" by (auto simp: is_stable_def)
  with 2 show ?case by (auto simp: find_oldest_stable split: if_splits intro: order.trans)
qed simp

text \<open>A step of the search that does not end it.\<close>

lemma find_scan_Cons:
  assumes "find_scan a i (e # es) acc = Inr acc'"
  obtains acc1 where "find_scan a (Suc i) es acc1 = Inr acc'"
    "fa_stable acc1 = (if is_stable e \<and> ae_ctime e \<ge> fa_age_stable acc then Some i else fa_stable acc)"
    "fa_age_stable acc1 = (if is_stable e \<and> ae_ctime e \<ge> fa_age_stable acc then ae_ctime e else fa_age_stable acc)"
proof (cases "used e")
  case True
  with assms that [of "find_oldest i e acc"] show ?thesis by (auto simp: used_def find_oldest_stable split: if_splits)
next
  case False
  then have "\<not> is_stable e" by (auto simp: used_def is_stable_def)
  with assms False that [of acc] that [of "acc\<lparr>fa_empty := Some i\<rparr>"] show ?thesis by (auto simp: used_def split: if_splits)
qed

lemma find_scan_stable: "find_scan a i es acc = Inr acc' \<Longrightarrow> fa_stable acc' = Some k \<Longrightarrow>
    fa_stable acc = Some k \<and> fa_age_stable acc' = fa_age_stable acc \<or>
    i \<le> k \<and> k - i < length es \<and> is_stable (es ! (k - i)) \<and> ae_ctime (es ! (k - i)) = fa_age_stable acc'"
proof (induction es arbitrary: i acc)
  case (Cons e es)
  from Cons.prems(1) obtain acc1 where s: "find_scan a (Suc i) es acc1 = Inr acc'"
    and o: "fa_stable acc1 = (if is_stable e \<and> ae_ctime e \<ge> fa_age_stable acc then Some i else fa_stable acc)"
    "fa_age_stable acc1 = (if is_stable e \<and> ae_ctime e \<ge> fa_age_stable acc then ae_ctime e else fa_age_stable acc)"
    by (rule find_scan_Cons)
  from Cons.IH [OF s Cons.prems(2)] show ?case
    by (elim disjE conjE) (auto simp: o nth_Cons' split: if_splits)
qed simp

lemma find_scan_no_stable: "find_scan a i es acc = Inr acc' \<Longrightarrow> fa_stable acc' = None \<Longrightarrow>
    fa_stable acc = None \<and> (\<forall>e \<in> set es. \<not> is_stable e \<or> ae_ctime e < fa_age_stable acc)"
proof (induction es arbitrary: i acc)
  case (Cons e es)
  from Cons.prems(1) obtain acc1 where s: "find_scan a (Suc i) es acc1 = Inr acc'"
    and o: "fa_stable acc1 = (if is_stable e \<and> ae_ctime e \<ge> fa_age_stable acc then Some i else fa_stable acc)"
    "fa_age_stable acc1 = (if is_stable e \<and> ae_ctime e \<ge> fa_age_stable acc then ae_ctime e else fa_age_stable acc)"
    by (rule find_scan_Cons)
  from Cons.IH [OF s Cons.prems(2)] show ?case by (auto simp: o split: if_splits)
qed simp

lemma find_scan_no_empty: "find_scan a i es acc = Inr acc' \<Longrightarrow> fa_empty acc' = None \<Longrightarrow> e \<in> set es \<Longrightarrow> used e"
  by (induction a i es acc rule: find_scan.induct) (auto simp: used_def split: if_splits dest: find_scan_first)

text \<open>The entry that is given up: only a full table loses one, and then the oldest stable entry if there is one.\<close>

lemma find_entry_victim:
  assumes r: "etharp_find_entry X (Some a) fl s = Some (Some i, t)" and u: "used (i_arp (l_ip s) ! i)"
    and a: "ae_ipaddr (i_arp (l_ip s) ! i) \<noteq> a"
  shows "fl AND ETHARP_FLAG_TRY_HARD \<noteq> 0" "\<forall>e \<in> set (i_arp (l_ip s)). used e"
    "\<forall>e \<in> set (i_arp (l_ip s)). is_stable e \<longrightarrow> is_stable (i_arp (l_ip s) ! i) \<and> ae_ctime e \<le> ae_ctime (i_arp (l_ip s) ! i)"
proof -
  obtain acc where sc: "find_scan (Some a) 0 (i_arp (l_ip s)) find_start = Inr acc"
    using r a find_scan_Inl [of "Some a" 0 "i_arp (l_ip s)" find_start i]
    by (cases "find_scan (Some a) 0 (i_arp (l_ip s)) find_start") (auto simp: etharp_find_entry_def)
  have e: "fa_empty acc = None"
    using r sc u find_scan_empty [OF sc, of i]
    by (cases "fa_empty acc") (auto simp: etharp_find_entry_def bind_eq_Some_conv find_start_def split: if_splits)
  then show "\<forall>e \<in> set (i_arp (l_ip s)). used e" using find_scan_no_empty [OF sc] by blast
  show "fl AND ETHARP_FLAG_TRY_HARD \<noteq> 0" using r sc e by (auto simp: etharp_find_entry_def split: if_splits)
  have v: "find_victim acc s = Some (Some i)"
    using r sc e by (auto simp: etharp_find_entry_def bind_eq_Some_conv split: if_splits option.splits)
  show "\<forall>e \<in> set (i_arp (l_ip s)). is_stable e \<longrightarrow> is_stable (i_arp (l_ip s) ! i) \<and> ae_ctime e \<le> ae_ctime (i_arp (l_ip s) ! i)"
  proof (cases "fa_stable acc")
    case None
    from find_scan_no_stable [OF sc None] show ?thesis by (auto simp: find_start_def)
  next
    case (Some k)
    with v have "k = i" by (auto simp: find_victim_def bind_eq_Some_conv split: if_splits)
    with find_scan_stable [OF sc Some] find_scan_age [OF sc] show ?thesis by (auto simp: find_start_def)
  qed
qed


lemma wrote_resolves:
  assumes ok: "arp_ok (l_ip s)" and w: "wrote i (stable_entry nif a h) s s'" and f: "fits i (stable_entry nif a h) s"
  shows "resolves X s' = (let old = i_arp (l_ip s) ! i in
     (if used old then (resolves X s)(ae_ipaddr old := None) else resolves X s)(a \<mapsto> h))"
proof
  fix b
  note ok' = wrote_ok [OF ok w f]
  let ?t = "i_arp (l_ip s)" and ?old = "i_arp (l_ip s) ! i"
  have i: "i < length ?t" and t': "i_arp (l_ip s') = ?t[i := stable_entry nif a h]" using w by (simp_all add: wrote_def)
  have st: "is_stable (stable_entry nif a h)" by (simp add: is_stable_def stable_entry_def)
  have u: "used (stable_entry nif a h)" using stable_used [OF st] .
  have ai: "ae_ipaddr (stable_entry nif a h) = a" by (simp add: stable_entry_def)
  have ext: "(\<And>g. x = Some g \<longleftrightarrow> y = Some g) \<Longrightarrow> x = y" for x y :: "eth_addr option" by (cases x; cases y) auto
  have other: "j < length ?t \<Longrightarrow> j \<noteq> i \<Longrightarrow> is_stable (?t ! j) \<Longrightarrow> ae_ipaddr (?t ! j) \<noteq> a" for j
    using f u stable_used by (auto simp: fits_def stable_entry_def)
  have mine: "j < length ?t \<Longrightarrow> used ?old \<Longrightarrow> is_stable (?t ! j) \<Longrightarrow> ae_ipaddr (?t ! j) = ae_ipaddr ?old \<Longrightarrow> j = i" for j
    using ok i addrs_ok_unique [of ?t j i] stable_used by (auto simp: arp_ok_def)
  show "resolves X s' b = (let old = ?old in
     (if used old then (resolves X s)(ae_ipaddr old := None) else resolves X s)(a \<mapsto> h)) b"
  proof (cases "b = a")
    case True
    have "resolves X s' a = Some h" unfolding resolves_iff [OF ok'] t'
      using i st by (intro exI [of _ i]) (simp add: stable_entry_def)
    with True show ?thesis by (simp add: Let_def)
  next
    case False
    have "resolves X s' b = (if used ?old \<and> b = ae_ipaddr ?old then None else resolves X s b)"
    proof (rule ext)
      fix g
      have "resolves X s' b = Some g \<longleftrightarrow> (\<exists>j < length ?t. j \<noteq> i \<and> is_stable (?t ! j) \<and> ae_ipaddr (?t ! j) = b \<and> ae_ethaddr (?t ! j) = g)"
        unfolding resolves_iff [OF ok'] t' length_list_update using False i ai
        by (metis nth_list_update_eq nth_list_update_neq)
      also have "\<dots> \<longleftrightarrow> (if used ?old \<and> b = ae_ipaddr ?old then None else resolves X s b) = Some g"
        using resolves_iff [OF ok, of X b g] mine stable_used by auto
      finally show "resolves X s' b = Some g \<longleftrightarrow> (if used ?old \<and> b = ae_ipaddr ?old then None else resolves X s b) = Some g" .
    qed
    with False show ?thesis by (simp add: Let_def)
  qed
qed

text \<open>C35: after the sender of a frame was entered, its address resolves to the hardware address given, every
  other address resolves as before, and only a full table forgets an address: the one of the oldest stable entry, or of
  a pending one when no entry is stable.\<close>

theorem arp_learns:
  assumes "driver_ok X" and "arp_ok (l_ip s)" and "etharp_update_arp_entry X nif a h fl s = Some (ERR_OK, s')"
  shows "\<exists>i < ARP_TABLE_SIZE. let old = i_arp (l_ip s) ! i in
    resolves X s' = (if used old then (resolves X s)(ae_ipaddr old := None) else resolves X s)(a \<mapsto> h) \<and>
    (used old \<and> ae_ipaddr old \<noteq> a \<longrightarrow> fl AND ETHARP_FLAG_TRY_HARD \<noteq> 0 \<and> (\<forall>e \<in> set (i_arp (l_ip s)). used e) \<and>
       (\<forall>e \<in> set (i_arp (l_ip s)). is_stable e \<longrightarrow> is_stable old \<and> ae_ctime e \<le> ae_ctime old))"
proof -
  from update_arp_entry [OF assms(1,3,2)] obtain i t where w: "wrote i (stable_entry nif a h) s s'"
    and f: "fits i (stable_entry nif a h) s" and r: "etharp_find_entry X (Some a) fl s = Some (Some i, t)" by auto
  have "i < ARP_TABLE_SIZE" using w assms(2) by (simp add: wrote_def arp_ok_def)
  then show ?thesis
    using wrote_resolves [OF assms(2) w f, of X] find_entry_victim [OF r] by (intro exI [of _ i]) (simp add: Let_def)
qed

theorem arp_learns_witness:
  "\<exists>s'. etharp_update_arp_entry arp_env0 0 0x0200000a (EthAddr 2 0 0 0 0 9) ETHARP_FLAG_TRY_HARD full_heap = Some (ERR_OK, s') \<and>
     (\<exists>i < ARP_TABLE_SIZE. let old = i_arp (l_ip full_heap) ! i in
       resolves arp_env0 s' = (if used old then (resolves arp_env0 full_heap)(ae_ipaddr old := None) else resolves arp_env0 full_heap)
         (0x0200000a \<mapsto> EthAddr 2 0 0 0 0 9))"
proof -
  let ?a = "0x0200000a :: u32"
  have b: "\<not> (?a = 0 \<or> ip4_addr_isbroadcast ?a (addr_netif netdev0) \<or> ip_addr_ismulticast ?a)" by code_simp
  have g: "get_netif 0 full_heap = Some netdev0" by (simp add: full_heap_def get_netif_def ipst0_def)
  have t: "i_arp (l_ip full_heap) = free_entry # replicate 9 free_entry"
    by (simp add: full_heap_def ipst0_def ARP_TABLE_SIZE_def numeral_eq_Suc)
  have "find_scan (Some ?a) 0 (i_arp (l_ip full_heap)) find_start = Inr (find_start\<lparr>fa_empty := Some 0\<rparr>)"
    by (simp add: t numeral_eq_Suc find_start_def free_entry_def)
  then obtain s' where u: "etharp_update_arp_entry arp_env0 0 ?a (EthAddr 2 0 0 0 0 9) ETHARP_FLAG_TRY_HARD full_heap = Some (ERR_OK, s')"
    using b by (simp add: etharp_update_arp_entry_def etharp_find_entry_def g ETHARP_FLAG_TRY_HARD_def ETHARP_FLAG_FIND_ONLY_def
      arp_at_def upd_arp_def t on_ip_def find_start_def free_entry_def netdev0_def ETHARP_HWADDR_LEN_def)
  have "driver_ok arp_env0" "arp_ok (l_ip full_heap)"
    by (simp_all add: driver_ok_def arp_env0_def arp_start_ok arp_start_def full_heap_def ipst0_def)
  from u arp_learns [OF this u] show ?thesis by (auto simp: Let_def)
qed

end
