(* ===== verification/IpFragProps.thy ===== *)
theory IpFragProps
  imports ArpTable
begin

text \<open>
  Reassembly: fragments that arrive in order are put together; three of the ways in which it goes wrong.
\<close>

section \<open>The chain of fragments\<close>

fun frags_at :: "(addr \<Rightarrow> ip_reass_helper option) \<Rightarrow> addr option \<Rightarrow> (addr \<times> u16 \<times> u16) list \<Rightarrow> bool" where
  "frags_at f r [] = (r = None)"
| "frags_at f r ((a, b, e) # ps) = (r = Some a \<and>
     (\<exists>n. f a = Some \<lparr>rh_next = n, rh_start = b, rh_end = e\<rparr> \<and> frags_at f n ps))"

text \<open>The fragments cover the bytes from \<open>m\<close> to \<open>e\<close> without a gap.\<close>

fun tiles :: "u16 \<Rightarrow> (addr \<times> u16 \<times> u16) list \<Rightarrow> u16 \<Rightarrow> bool" where
  "tiles m [] e = (m = e)"
| "tiles m ((a, b, c) # ps) e = (b = m \<and> b < c \<and> tiles c ps e)"

lemma tiles_le: "tiles m ps e \<Longrightarrow> m \<le> e"
  by (induction m ps e rule: tiles.induct) auto

lemma tiles_append: "tiles m (ps @ qs) e \<longleftrightarrow> (\<exists>k. tiles m ps k \<and> tiles k qs e)"
  by (induction m ps e rule: tiles.induct) auto

lemma frags_at_cong: "(\<And>a. a \<in> fst ` set ps \<Longrightarrow> f a = g a) \<Longrightarrow> frags_at f r ps = frags_at g r ps"
  by (induction f r ps rule: frags_at.induct) auto

lemma frags_at_appendD: "frags_at f r (ps @ qs) \<Longrightarrow> \<exists>q. frags_at f q qs"
  by (induction f r ps rule: frags_at.induct) auto

text \<open>A new fragment behind the others.\<close>

lemma frags_at_snoc:
  "frags_at f r (ps @ [(b, m, k)]) \<Longrightarrow> distinct (map fst (ps @ [(b, m, k)])) \<Longrightarrow> p \<notin> fst ` set (ps @ [(b, m, k)]) \<Longrightarrow>
   frags_at (f(p \<mapsto> \<lparr>rh_next = None, rh_start = k, rh_end = e\<rparr>, b \<mapsto> \<lparr>rh_next = Some p, rh_start = m, rh_end = k\<rparr>)) r
     (ps @ [(b, m, k), (p, k, e)])"
proof (induction ps arbitrary: r)
  case (Cons x ps)
  then show ?case by (cases x) (auto split del: if_split simp: image_iff)
qed simp

lemma frag_scan_end:
  "frags_at f q ps \<Longrightarrow> tiles m ps e \<Longrightarrow> (\<And>b. prev = Some b \<Longrightarrow> \<exists>h. f b = Some h \<and> rh_end h = m) \<Longrightarrow>
   frag_scan f e q prev True = Some (Some (None, if ps = [] then prev else Some (fst (last ps)), True))"
proof (induction ps arbitrary: q prev m)
  case Nil
  then show ?case by (subst frag_scan.simps) simp
next
  case (Cons x ps)
  obtain a b c where x: "x = (a, b, c)" by (cases x)
  from Cons.prems(1) x obtain n where q: "q = Some a" and a: "f a = Some \<lparr>rh_next = n, rh_start = b, rh_end = c\<rparr>" and n: "frags_at f n ps"
    by auto
  have t: "b = m" "b < c" "tiles c ps e" using Cons.prems(2) x by auto
  note ce = tiles_le [OF t(3)]
  have v: "(case prev of None \<Rightarrow> Some True | Some b \<Rightarrow> map_option (\<lambda>h. True \<and> rh_end h = rh_start \<lparr>rh_next = n, rh_start = m, rh_end = c\<rparr>) (f b)) = Some True"
    using Cons.prems(3) by (auto split: option.splits)
  have "frag_scan f e n (Some a) True = Some (Some (None, if ps = [] then Some a else Some (fst (last ps)), True))"
    by (rule Cons.IH [OF n t(3)]) (simp add: a)
  then show ?case using t(1,2) ce v
    by (subst frag_scan.simps) (auto simp: q a x)
qed

section \<open>Fragments in order\<close>

lemma helper_put [simp]: "i_helper (l_ip (put_helper p h s)) = (i_helper (l_ip s))(p \<mapsto> h)"
  "get_helper a (put_helper p h s) = (if a = p then Some h else get_helper a s)"
  "get_rd x (put_helper p h s) = get_rd x s" "l_net (put_helper p h s) = l_net s"
  by (simp_all add: put_helper_def on_ip_def get_helper_def get_rd_def)

text \<open>C39: when the fragments of a datagram that have come cover its beginning without a gap, a fragment that goes
  on where they end is put behind them, and the datagram counts as complete exactly when its last fragment has been
  seen.\<close>

theorem fragment_in_order:
  assumes r: "get_rd x s = Some r" and c: "frags_at (i_helper (l_ip s)) (rd_p r) (ps @ [(b, m, k)])"
    and d: "distinct (map fst (ps @ [(b, m, k)]))" and p: "p \<notin> fst ` set (ps @ [(b, m, k)])"
    and t: "tiles 0 (ps @ [(b, m, k)]) (hdr_offset fr)" and e: "hdr_offset fr < hdr_offset fr + hdr_data fr"
    and l: "rd_flags r AND IP_REASS_FLAG_LASTFRAG \<noteq> 0 \<Longrightarrow> rd_datagram_len r = hdr_offset fr + hdr_data fr"
  shows "\<exists>s'. ip_reass_chain_frag_into_datagram_and_validate X x p fr s =
      Some (rd_flags r AND IP_REASS_FLAG_LASTFRAG \<noteq> 0, s') \<and> get_rd x s' = Some r \<and> l_net s' = l_net s \<and>
      frags_at (i_helper (l_ip s')) (rd_p r) (ps @ [(b, m, k), (p, hdr_offset fr, hdr_offset fr + hdr_data fr)]) \<and>
      tiles 0 (ps @ [(b, m, k), (p, hdr_offset fr, hdr_offset fr + hdr_data fr)]) (hdr_offset fr + hdr_data fr)"
proof -
  let ?o = "hdr_offset fr" and ?e = "hdr_offset fr + hdr_data fr" and ?f = "i_helper (l_ip s)"
  let ?h = "\<lparr>rh_next = None, rh_start = ?o, rh_end = ?e\<rparr>" and ?b = "\<lparr>rh_next = None, rh_start = m, rh_end = k\<rparr>"
  have c': "frags_at (?f(p \<mapsto> ?h)) (rd_p r) (ps @ [(b, m, k)])"
    using c p by (subst frags_at_cong [where g = ?f]) auto
  have k: "k = ?o" using t by (auto simp: tiles_append)
  have sc: "frag_scan (?f(p \<mapsto> ?h)) ?o (rd_p r) None True = Some (Some (None, Some b, True))"
    using frag_scan_end [OF c' t, of None] by simp
  have hb: "?f b = Some ?b" using frags_at_appendD [OF c] by auto
  have pb: "p \<noteq> b" using p by auto
  let ?s = "put_helper b (?b\<lparr>rh_next := Some p\<rparr>) (put_helper p ?h s)"
  have lk: "frag_link x p ?o ?e (None, Some b, True) s = Some (Some True, ?s)"
    using hb pb k by (simp add: frag_link_def Let_def get_helper_def)
  have fa: "frags_at (i_helper (l_ip ?s)) (rd_p r) (ps @ [(b, m, k), (p, ?o, ?e)])"
    using frags_at_snoc [OF c d p, of ?e] k by simp
  obtain a q where first: "rd_p r = Some a" "a \<noteq> p" "get_helper a ?s = Some q" "rh_start q = 0"
    using fa t p by (cases ps) (auto simp: get_helper_def split: if_splits)
  have "frag_tail (i_helper (l_ip ?s)) p = Some (Some p)"
    using pb by (subst frag_tail.simps) simp
  then have cp: "frag_complete x p True ?s = Some (rd_flags r AND IP_REASS_FLAG_LASTFRAG \<noteq> 0)"
    using first r l pb by (simp add: frag_complete_def)
  show ?thesis
    using sc lk cp fa t e k r by (simp add: ip_reass_chain_frag_into_datagram_and_validate_def tiles_append Let_def)
qed


section \<open>Gaps and assertions\<close>





text \<open>
  A fragment put between two others is not compared with the end of the one in front of it: with a hole before
  it the datagram still counts as complete.
\<close>

theorem gap_accepted:
  assumes r: "get_rd x s = Some r" and c: "frags_at (i_helper (l_ip s)) (rd_p r) [(a, 0, i), (z, j, k)]"
    and d: "distinct [a, z, p]" and i: "0 < i" "i < hdr_offset fr" "hdr_offset fr < j" "j < k" and e: "hdr_offset fr + hdr_data fr = j"
    and l: "rd_flags r AND IP_REASS_FLAG_LASTFRAG \<noteq> 0" "rd_datagram_len r = k"
  shows "\<exists>s'. ip_reass_chain_frag_into_datagram_and_validate X x p fr s = Some (True, s') \<and>
    frags_at (i_helper (l_ip s')) (rd_p r) [(a, 0, i), (p, hdr_offset fr, j), (z, j, k)]"
proof -
  let ?o = "hdr_offset fr" and ?f = "i_helper (l_ip s)"
  have f: "rd_p r = Some a" "?f a = Some \<lparr>rh_next = Some z, rh_start = 0, rh_end = i\<rparr>" "?f z = Some \<lparr>rh_next = None, rh_start = j, rh_end = k\<rparr>"
    using c by auto
  have ne: "a \<noteq> z" "a \<noteq> p" "z \<noteq> p" "p \<noteq> a" "p \<noteq> z" "z \<noteq> a" using d by auto
  have o: "\<not> ?o < 0" "?o \<noteq> 0" "\<not> ?o < i" using i by auto
  have sc: "frag_scan (?f(p \<mapsto> \<lparr>rh_next = None, rh_start = ?o, rh_end = j\<rparr>)) ?o (Some a) None True = Some (Some (Some z, Some a, True))"
    using ne o i by (subst frag_scan.simps, simp add: f) (subst frag_scan.simps, simp add: f)
  let ?s = "put_helper a \<lparr>rh_next = Some p, rh_start = 0, rh_end = i\<rparr> (put_helper p \<lparr>rh_next = Some z, rh_start = ?o, rh_end = j\<rparr> s)"
  have lk: "frag_link x p ?o j (Some z, Some a, True) s = Some (Some True, ?s)"
    using ne o by (simp add: frag_link_def get_helper_def f Let_def)
  have ta: "frag_tail (i_helper (l_ip ?s)) p = Some (Some z)"
    using ne by (subst frag_tail.simps, simp add: f) (subst frag_tail.simps, simp add: f)
  have "frag_complete x p True ?s = Some True"
    using r l ne ta by (simp add: frag_complete_def f get_helper_def)
  with sc lk r e f ne show ?thesis
    by (simp add: ip_reass_chain_frag_into_datagram_and_validate_def Let_def)
qed

text \<open>
  When the last datagram of the list is that of the fragment and the one before it is the oldest other one, the
  search for room passes the oldest datagram as its own predecessor, and the assertion on it fails.
\<close>

theorem no_room_halts:
  assumes "ip_pbuf p s = Some b" "pb_payload b = Some h" "ip_read h IP_HLEN s = Some fr" "hdr_hl fr = IP_HLEN"
    "pbuf_clen (Some p) (l_net s) = Some n" "unat (i_reass_pbufcount (l_ip s)) + unat n > IP_REASS_MAX_PBUFS"
    and "i_reassdatagrams (l_ip s) = Some x" "i_reass (l_ip s) x = Some d" "rd_next d = Some y" "\<not> IP_ADDRESSES_AND_ID_MATCH (rd_iphdr d) fr"
    "i_reass (l_ip s) y = Some d'" "rd_next d' = None" "IP_ADDRESSES_AND_ID_MATCH (rd_iphdr d') fr"
  shows "ip_reass X p s = None"
proof -
  have "oldest_scan (i_reass (l_ip s)) fr (i_reassdatagrams (l_ip s)) None None 0 = Some (Some x, Some x, 1)"
    using assms(7-) by (subst oldest_scan.simps, simp) (subst oldest_scan.simps, simp, subst oldest_scan.simps, simp)
  then have "ip_reass_remove_oldest_datagram X fr (unat n) s = None"
    unfolding ip_reass_remove_oldest_datagram_def
    by (subst remove_oldest_loop.simps) (simp add: ip_reass_free_complete_datagram_def)
  with assms(1-6) show ?thesis by (simp add: ip_reass_def reass_room_def)
qed


section \<open>Sending fragments\<close>

text \<open>A fragment that ends in a pbuf of fewer than 20 bytes stops the program at the next one: the assertion in the loop of
  \<open>ip_frag\<close> is about the pbuf where the data goes on, not about the one with the header.\<close>

lemma frag_short_pbuf_halts:
  assumes "left \<noteq> 0" and "on_net (pbuf_alloc (frag_cff (ie_cff X) orig) PBUF_LINK (of_nat IP_HLEN) PBUF_RAM) s = Some (Some rambuf, s1)"
    and "ip_pbuf p s1 = Some b" and "unat (pb_len b) < IP_HLEN"
  shows "frag_loop X nif dest h mtu nfb omf (Some p) ofo left poff n orig s = None"
proof -
  have "frag_one X nif dest h tmp cop (Some p) poff n orig s = None" for tmp cop
    using assms(2-4) by (simp add: frag_one_def c_assert_def)
  with assms(1) show ?thesis by (subst frag_loop.simps) (simp add: Let_def)
qed

text \<open>With an MTU below 28 a fragment has no data: every pass leaves \<open>left\<close> as it is.\<close>

lemma frag_without_data:
  assumes "20 \<le> unat mtu" and "unat mtu < 28"
  shows "of_int ((int (unat mtu) - int IP_HLEN) sdiv 8) * 8 = (0 :: u16)"
proof -
  obtain k where k: "unat mtu = 20 + k" "k < 8" using assms le_Suc_ex by force
  have "int k sdiv 8 = 0" using k(2) by (simp add: signed_divide_int_def sgn_if)
  with k(1) have "(int (unat mtu) - int IP_HLEN) sdiv 8 = 0" by (simp add: IP_HLEN_def del: of_nat_unat)
  then show ?thesis by simp
qed

section \<open>Instances\<close>

text \<open>The header of a fragment of eight bytes, and a datagram of which some fragments have come.\<close>

definition frag_hdr :: "u8 \<Rightarrow> u8 \<Rightarrow> u8 list" where
  "frag_hdr mf off = [0x45, 0, 0, 28, 0, 7, mf, off, 64, 17, 0, 0, 10, 0, 0, 2, 10, 0, 0, 1]"

definition datagram :: "u8 \<Rightarrow> u16 \<Rightarrow> ip_reassdata" where
  "datagram flags len = \<lparr>rd_next = None, rd_p = Some (RamAddr 8), rd_iphdr = frag_hdr 0x20 0, rd_datagram_len = len, rd_flags = flags, rd_timer = 3\<rparr>"

definition reass_state :: "ip_reassdata \<Rightarrow> (addr \<Rightarrow> ip_reass_helper option) \<Rightarrow> unit ip" where
  "reass_state d f = full_heap\<lparr>l_ip := ipst0\<lparr>i_reass := [0 \<mapsto> d], i_reassdatagrams := Some 0, i_helper := f\<rparr>\<rparr>"

lemma frag_hdr_values: "hdr_data (frag_hdr mf off) = 8" "hdr_offset (frag_hdr 0 1) = 8" "hdr_offset (frag_hdr 0x20 0) = 0"
  by (simp_all add: hdr_data_def frag_hdr_def) code_simp+

theorem fragment_in_order_witness:
  "\<exists>s'. ip_reass_chain_frag_into_datagram_and_validate arp_env0 0 (RamAddr 80) (frag_hdr 0 1)
      (reass_state (datagram 1 16) [RamAddr 8 \<mapsto> \<lparr>rh_next = None, rh_start = 0, rh_end = 8\<rparr>]) = Some (True, s') \<and>
    frags_at (i_helper (l_ip s')) (Some (RamAddr 8)) [(RamAddr 8, 0, 8), (RamAddr 80, 8, 16)]"
  using fragment_in_order [of 0 "reass_state (datagram 1 16) [RamAddr 8 \<mapsto> \<lparr>rh_next = None, rh_start = 0, rh_end = 8\<rparr>]" "datagram 1 16"
      "[]" "RamAddr 8" 0 8 "RamAddr 80" "frag_hdr 0 1" arp_env0]
  by (simp add: frag_hdr_values reass_state_def datagram_def get_rd_def IP_REASS_FLAG_LASTFRAG_def) blast


end
