(* ===== verification/IpChksum.thy ===== *)
theory IpChksum
  imports IpFragProps
begin

text \<open>
  The checksums that \<open>ip.c\<close> and \<open>icmp.c\<close> compute on their own are those of \<open>inet_chksum\<close>: the header
  that \<open>ip_output_if\<close> writes verifies, and so does the answer to an echo request.
\<close>

section \<open>Memory\<close>

lemma read_write:
  assumes "mem_read n (a, i) k = Some bs" and "mem_write n (a, i + int j) ws = Some n'" and "j + length ws \<le> k"
  shows "mem_read n' (a, i) k = Some (take j bs @ ws @ drop (j + length ws) bs)"
proof -
  from assms(1) obtain e where e: "extent n a = Some e" "0 \<le> i" "i + int k \<le> int e"
    and bs: "bs = map (\<lambda>x. cells n a (nat i + x)) [0..<k]" by (auto simp: mem_read_def split: option.splits if_splits)
  from assms(2) e have n': "n' = n\<lparr>cells := (cells n)(a := (\<lambda>x. if nat (i + int j) \<le> x \<and> x < nat (i + int j) + length ws
      then ws ! (x - nat (i + int j)) else cells n a x))\<rparr>" by (auto simp: mem_write_def split: if_splits)
  have m: "mem_read n' (a, i) k = Some (map (\<lambda>x. cells n' a (nat i + x)) [0..<k])"
    using e by (simp add: mem_read_def n')
  have ij: "nat (i + int j) = nat i + j" using e(2) by simp
  have "map (\<lambda>x. cells n' a (nat i + x)) [0..<k] = take j bs @ ws @ drop (j + length ws) bs"
    by (rule nth_equalityI) (use assms(3) in \<open>auto simp: n' bs ij nth_append min_def\<close>)
  with m show ?thesis by simp
qed

lemma write_ptr: "ip_write (ptr_add h j) ws s = Some s' \<Longrightarrow> ip_read h k s = Some bs \<Longrightarrow> j + length ws \<le> k \<Longrightarrow>
    ip_read h k s' = Some (take j bs @ ws @ drop (j + length ws) bs)"
  by (cases h) (auto simp: ip_write_def on_net1_def ip_read_def ptr_add_def bind_eq_Some_conv intro: read_write)

lemma put8_ptr: "put8 (ptr_add h j) v s = Some s' \<Longrightarrow> ip_read h k s = Some bs \<Longrightarrow> j + 1 \<le> k \<Longrightarrow>
    ip_read h k s' = Some (take j bs @ v # drop (j + 1) bs)"
  using write_ptr [of h j "[v]" s s' k bs] by (simp add: put8_def)

lemma st16_write: "on_net1 (st16 a w) = ip_write a (u16_bytes w)"
  by (rule ext) (simp add: ip_write_def st16_def u16_bytes_def on_net1_def)

lemma put16_ptr: "put16 (ptr_add h j) w s = Some s' \<Longrightarrow> ip_read h k s = Some bs \<Longrightarrow> j + 2 \<le> k \<Longrightarrow>
    ip_read h k s' = Some (take j bs @ u16_bytes w @ drop (j + 2) bs)"
  using write_ptr [of h j "u16_bytes w" s s' k bs] unfolding put16_def st16_write by (simp add: u16_bytes_def)

definition u32_bytes :: "u32 \<Rightarrow> u8 list" where
  "u32_bytes w = [ucast w, ucast (drop_bit 8 w), ucast (drop_bit 16 w), ucast (drop_bit 24 w)]"

lemma length_u32_bytes [simp]: "length (u32_bytes w) = 4" by (simp add: u32_bytes_def)

lemma st32_write: "on_net1 (st32 a w) = ip_write a (u32_bytes w)"
  by (rule ext) (simp add: ip_write_def st32_def u32_bytes_def on_net1_def)

lemma put32_ptr: "put32 (ptr_add h j) w s = Some s' \<Longrightarrow> ip_read h k s = Some bs \<Longrightarrow> j + 4 \<le> k \<Longrightarrow>
    ip_read h k s' = Some (take j bs @ u32_bytes w @ drop (j + 4) bs)"
  using write_ptr [of h j "u32_bytes w" s s' k bs] unfolding put32_def st32_write by simp

lemma lesum_u32_bytes: "lesum (u32_bytes w) = unat w mod 65536 + unat w div 65536"
proof -
  have "unat (ucast (drop_bit 8 w) :: u8) = unat w div 256 mod 256" "unat (ucast (drop_bit 16 w) :: u8) = unat w div 65536 mod 256"
    "unat (ucast (drop_bit 24 w) :: u8) = unat w div 16777216 mod 256" "unat (ucast w :: u8) = unat w mod 256"
    by (simp_all add: unat_ucast_mod drop_bit_eq_div unat_div)
  moreover have "unat w div 16777216 mod 256 = unat w div 65536 div 256"
    using unat_u32_lt [of w] by (simp add: div_mult2_eq [symmetric] less_mult_imp_div_less)
  ultimately show ?thesis
    using mod_mult2_eq [of "unat w" 256 256] mod_mult_div_eq [of "unat w div 65536" 256]
    by (simp add: u32_bytes_def)
qed

text \<open>What can be read can be written.\<close>

lemma write_ex: "ip_read h k s = Some bs \<Longrightarrow> j + length ws \<le> k \<Longrightarrow> \<exists>s'. ip_write (ptr_add h j) ws s = Some s'"
  by (auto simp: ip_read_def mem_read_def ip_write_def on_net1_def mem_write_def ptr_add_def split: prod.splits option.splits if_splits)

lemma put_ex:
  assumes "ip_read h k s = Some bs"
  shows "j + 1 \<le> k \<Longrightarrow> \<exists>s' bs'. put8 (ptr_add h j) v s = Some s' \<and> ip_read h k s' = Some bs'"
    "j + 2 \<le> k \<Longrightarrow> \<exists>s' bs'. put16 (ptr_add h j) w s = Some s' \<and> ip_read h k s' = Some bs'"
    "j + 4 \<le> k \<Longrightarrow> \<exists>s' bs'. put32 (ptr_add h j) x s = Some s' \<and> ip_read h k s' = Some bs'"
  unfolding put8_def put16_def st16_write put32_def st32_write
  using write_ex [OF assms, of j "[v]"] write_ex [OF assms, of j "u16_bytes w"] write_ex [OF assms, of j "u32_bytes x"] assms
  by (force dest: write_ptr simp: u16_bytes_def u32_bytes_def)+

section \<open>The header of a packet sent\<close>

definition hdr_bytes :: "u8 \<Rightarrow> u8 \<Rightarrow> u16 \<Rightarrow> u16 \<Rightarrow> u8 \<Rightarrow> u8 \<Rightarrow> u16 \<Rightarrow> u32 \<Rightarrow> u32 \<Rightarrow> u8 list" where
  "hdr_bytes vhl tos len ident ttl proto c src dest =
     ([vhl, tos] @ u16_bytes len @ u16_bytes ident @ [0, 0, ttl, proto]) @ u16_bytes c @ u32_bytes src @ u32_bytes dest"

lemma ip_read_on_ip [simp]: "ip_read h k (on_ip f s) = ip_read h k s" by (simp add: ip_read_def on_ip_def)

lemma ip_read_length: "ip_read h k s = Some bs \<Longrightarrow> length bs = k"
  by (auto simp: ip_read_def mem_read_def split: prod.splits option.splits if_splits)

lemma out_header_bytes:
  assumes old: "ip_read h 20 s = Some bs" and r: "out_header h src dest ttl tos proto len s = Some s'"
  shows "ip_read h 20 s' = Some (hdr_bytes 0x45 tos (lwip_htons len) (lwip_htons (i_ip_id (l_ip s))) ttl proto
    (out_chksum proto ttl dest tos 0x45 (lwip_htons len) (lwip_htons (i_ip_id (l_ip s))) src) src dest)"
proof -
  let ?c = "out_chksum proto ttl dest tos 0x45 (lwip_htons len) (lwip_htons (i_ip_id (l_ip s))) src"
  have "length bs = 20" by (rule ip_read_length [OF old])
  then obtain b0 b1 b2 b3 b4 b5 b6 b7 b8 b9 b10 b11 b12 b13 b14 b15 b16 b17 b18 b19 where
    bs: "bs = [b0, b1, b2, b3, b4, b5, b6, b7, b8, b9, b10, b11, b12, b13, b14, b15, b16, b17, b18, b19]"
    by (auto simp: length_Suc_conv numeral_eq_Suc)
  from r [unfolded out_header_def Let_def] show ?thesis
  proof (elim bindE, goal_cases)
    case (1 s1 s2 s3 s4 s5 s6 s7 s8 s9)
    note l = numeral_eq_Suc u16_bytes_def u32_bytes_def
    have "ip_read h 20 s1 = Some [b0, b1, b2, b3, b4, b5, b6, b7, ttl, b9, b10, b11, b12, b13, b14, b15, b16, b17, b18, b19]"
      using put8_ptr [OF 1(1) old] by (simp add: bs)
    note p = put8_ptr [OF 1(2) this]
    have "ip_read h 20 s2 = Some [b0, b1, b2, b3, b4, b5, b6, b7, ttl, proto, b10, b11, b12, b13, b14, b15, b16, b17, b18, b19]"
      using p by simp
    note p = put32_ptr [OF 1(3) this]
    have "ip_read h 20 s3 = Some ([b0, b1, b2, b3, b4, b5, b6, b7, ttl, proto, b10, b11, b12, b13, b14, b15] @ u32_bytes dest)"
      using p by simp
    note p = put8_ptr [OF 1(4) this]
    have "ip_read h 20 s4 = Some ([0x45, b1, b2, b3, b4, b5, b6, b7, ttl, proto, b10, b11, b12, b13, b14, b15] @ u32_bytes dest)"
      using p by simp
    note p = put8_ptr [OF 1(5) this]
    have "ip_read h 20 s5 = Some ([0x45, tos, b2, b3, b4, b5, b6, b7, ttl, proto, b10, b11, b12, b13, b14, b15] @ u32_bytes dest)"
      using p by simp
    note p = put16_ptr [OF 1(6) this]
    have "ip_read h 20 s6 = Some ([0x45, tos] @ u16_bytes (lwip_htons len) @
        [b4, b5, b6, b7, ttl, proto, b10, b11, b12, b13, b14, b15] @ u32_bytes dest)"
      using p by simp
    note p = put16_ptr [OF 1(7) this]
    have "ip_read h 20 s7 = Some ([0x45, tos] @ u16_bytes (lwip_htons len) @
        [b4, b5, 0, 0, ttl, proto, b10, b11, b12, b13, b14, b15] @ u32_bytes dest)"
      using p by (simp add: u16_bytes_def)
    note p = put16_ptr [OF 1(8) this]
    have "ip_read h 20 s8 = Some ([0x45, tos] @ u16_bytes (lwip_htons len) @ u16_bytes (lwip_htons (i_ip_id (l_ip s))) @
        [0, 0, ttl, proto, b10, b11, b12, b13, b14, b15] @ u32_bytes dest)"
      using p by (simp add: u16_bytes_def)
    then have "ip_read h 20 (on_ip (\<lambda>w. w\<lparr>i_ip_id := i_ip_id w + 1\<rparr>) s8) = Some ([0x45, tos] @ u16_bytes (lwip_htons len) @
        u16_bytes (lwip_htons (i_ip_id (l_ip s))) @ [0, 0, ttl, proto, b10, b11, b12, b13, b14, b15] @ u32_bytes dest)"
      by simp
    note p = put32_ptr [OF 1(9) this]
    have "ip_read h 20 s9 = Some ([0x45, tos] @ u16_bytes (lwip_htons len) @
        u16_bytes (lwip_htons (i_ip_id (l_ip s))) @ [0, 0, ttl, proto, b10, b11] @ u32_bytes src @ u32_bytes dest)"
      using p by (simp add: u16_bytes_def)
    from put16_ptr [OF 1(10) this] show ?case by (simp add: u16_bytes_def hdr_bytes_def)
  qed
qed


section \<open>The checksum of the header\<close>

lemma unat_MAKE_U16: "unat (LWIP_MAKE_U16 a b) = unat b + 256 * unat a"
proof -
  have "push_bit 8 (ucast a) AND (ucast b :: u32) = 0"
    by (rule bit_word_eqI) (auto simp: bit_simps dest: bit_imp_le_length)
  then have "LWIP_MAKE_U16 a b = push_bit 8 (ucast a) + ucast b" unfolding LWIP_MAKE_U16_def
    by (simp add: disjunctive_add_eq_or)
  moreover have "unat (push_bit 8 (ucast a) :: u32) = 256 * unat a" "unat (ucast b :: u32) = unat b"
    using unat_u8_lt [of a] unat_u8_lt [of b] by (simp_all add: push_bit_eq_mult unat_word_ariths unat_ucast_mod)
  ultimately show ?thesis using unat_u8_lt [of a] unat_u8_lt [of b] by (simp add: unat_word_ariths)
qed

lemma unat_low16: "unat ((w :: u32) AND 0xffff) = unat w mod 65536"
proof -
  have "(0xffff :: u32) = mask 16" by (simp add: mask_eq_exp_minus_1)
  then have "w AND 0xffff = take_bit 16 w" by (simp add: take_bit_eq_mask)
  then show ?thesis by (simp only: unsigned_take_bit_eq) (simp add: take_bit_eq_mod)
qed

lemma unat_high16: "unat (drop_bit 16 (w :: u32)) = unat w div 65536"
  by (simp add: drop_bit_eq_div unat_div)

text \<open>The end of the sum: the complement of the folded sum.\<close>

lemma ucast_NOT16: "ucast (NOT (c :: u32)) = (NOT (ucast c) :: u16)"
  by (rule bit_word_eqI) (simp add: bit_simps)

lemma fold_end:
  assumes "unat (c :: u32) \<le> 655350"
  shows "ucast (NOT (drop_bit 16 (drop_bit 16 c + (c AND 0xffff)) + (drop_bit 16 c + (c AND 0xffff)))) =
    (NOT (of_nat (norm16 (unat c))) :: u16)"
proof -
  let ?S = "unat c" and ?f = "drop_bit 16 c + (c AND 0xffff)"
  have q: "?S div 65536 \<le> 9" using assms by simp
  then have f: "unat ?f = ?S div 65536 + ?S mod 65536" and le: "unat ?f \<le> 65544"
    by (simp_all add: unat_word_ariths unat_low16 unat_high16)
  have n: "norm16 ?S = norm16 (unat ?f)" by (simp add: f norm16_fold)
  have g: "unat (drop_bit 16 ?f + ?f) = unat ?f div 65536 + unat ?f"
    using le by (simp add: unat_word_ariths unat_high16)
  have "unat (ucast (drop_bit 16 ?f + ?f) :: u16) = norm16 (unat ?f)"
  proof (cases "unat ?f < 65536")
    case True
    then show ?thesis by (simp add: unat_ucast_mod g norm16_small)
  next
    case False
    define r where "r = unat ?f - 65536"
    have r: "unat ?f = 65536 + r" "r \<le> 8" using False le by (simp_all add: r_def)
    have "norm16 (65536 * 1 + r) = 1 + r" unfolding norm16_65536_add using r(2) by (simp add: norm16_small)
    moreover have "(65536 + r) div 65536 = 1" using r(2) by (intro div_nat_eqI) auto
    moreover have "(65536 + (1 + r)) mod 65536 = 1 + r" unfolding mod_add_self1 using r(2) by simp
    ultimately show ?thesis using r by (simp add: unat_ucast_mod g)
  qed
  then have "ucast (drop_bit 16 ?f + ?f) = (of_nat (norm16 ?S) :: u16)"
    using norm16_le [of ?S] n by (simp add: word_eq_unat unat_of_nat_u16)
  then show ?thesis by (simp only: ucast_NOT16)
qed

lemma lesum_hdr: "lesum (hdr_bytes vhl tos len ident ttl proto c src dest) = unat vhl + 256 * unat tos + unat len + unat ident +
    unat ttl + 256 * unat proto + unat c + lesum (u32_bytes src) + lesum (u32_bytes dest)"
  using lesum_u16_bytes [of len] lesum_u16_bytes [of ident] lesum_u16_bytes [of c]
  by (simp add: hdr_bytes_def u16_bytes_def u32_bytes_def)

lemma out_chksum_norm: "out_chksum proto ttl dest tos vhl len ident src =
    NOT (of_nat (norm16 (lesum (hdr_bytes vhl tos len ident ttl proto 0 src dest))))"
proof -
  let ?c = "LWIP_MAKE_U16 proto ttl + (dest AND 0xffff) + drop_bit 16 dest + LWIP_MAKE_U16 tos vhl + ucast len + ucast ident +
    (src AND 0xffff) + drop_bit 16 src"
  have b: "unat (LWIP_MAKE_U16 a b) \<le> 65535" for a b
    using unat_u8_lt [of a] unat_u8_lt [of b] by (simp add: unat_MAKE_U16)
  have lo: "unat (w AND 0xffff) \<le> 65535" for w :: u32 unfolding unat_low16 by simp
  have hi: "unat (drop_bit 16 w) \<le> 65535" for w :: u32 unfolding unat_high16 using unat_u32_lt [of w] by simp
  have uc: "unat (ucast w :: u32) = unat w" for w :: u16 using unat_u16_lt [of w] by (simp add: unat_ucast_mod)
  have S: "unat ?c = lesum (hdr_bytes vhl tos len ident ttl proto 0 src dest) \<and> unat ?c \<le> 655350"
  proof -
    have sum: "unat ?c = unat (LWIP_MAKE_U16 proto ttl) + unat (dest AND 0xffff) + unat (drop_bit 16 dest) + unat (LWIP_MAKE_U16 tos vhl) +
        unat (ucast len :: u32) + unat (ucast ident :: u32) + unat (src AND 0xffff) + unat (drop_bit 16 src)"
      using b [of proto ttl] lo [of dest] hi [of dest] b [of tos vhl] unat_u16_lt [of len, folded uc] unat_u16_lt [of ident, folded uc]
        lo [of src] hi [of src] by (simp add: unat_word_ariths)
    then show ?thesis
      using b [of proto ttl] lo [of dest] hi [of dest] b [of tos vhl] unat_u16_lt [of len] unat_u16_lt [of ident] lo [of src] hi [of src]
      unfolding lesum_hdr lesum_u32_bytes unat_MAKE_U16 unat_low16 unat_high16 uc by simp
  qed
  show ?thesis
    using fold_end [of ?c] S by (simp add: out_chksum_def Let_def)
qed

lemma out_header_ex:
  assumes "ip_read h 20 s = Some bs"
  shows "\<exists>s'. out_header h src dest ttl tos proto len s = Some s'"
proof -
  obtain s1 b1 where 1: "put8 (iph_ttl h) ttl s = Some s1" "ip_read h 20 s1 = Some b1" using put_ex(1) [OF assms, of 8 ttl] by auto
  obtain s2 b2 where 2: "put8 (iph_proto h) proto s1 = Some s2" "ip_read h 20 s2 = Some b2" using put_ex(1) [OF 1(2), of 9 proto] by auto
  obtain s3 b3 where 3: "put32 (iph_dest h) dest s2 = Some s3" "ip_read h 20 s3 = Some b3" using put_ex(3) [OF 2(2), of 16 dest] by auto
  obtain s4 b4 where 4: "put8 (iph_vhl h) 0x45 s3 = Some s4" "ip_read h 20 s4 = Some b4" using put_ex(1) [OF 3(2), of 0 "0x45"] by auto
  obtain s5 b5 where 5: "put8 (iph_tos h) tos s4 = Some s5" "ip_read h 20 s5 = Some b5" using put_ex(1) [OF 4(2), of 1 tos] by auto
  obtain s6 b6 where 6: "put16 (iph_len h) (lwip_htons len) s5 = Some s6" "ip_read h 20 s6 = Some b6" using put_ex(2) [OF 5(2), of 2 "lwip_htons len"] by auto
  obtain s7 b7 where 7: "put16 (iph_offset h) 0 s6 = Some s7" "ip_read h 20 s7 = Some b7" using put_ex(2) [OF 6(2), of 6 0] by auto
  obtain s8 b8 where 8: "put16 (iph_id h) (lwip_htons (i_ip_id (l_ip s))) s7 = Some s8" "ip_read h 20 s8 = Some b8"
    using put_ex(2) [OF 7(2), of 4 "lwip_htons (i_ip_id (l_ip s))"] by auto
  have "ip_read h 20 (on_ip (\<lambda>w. w\<lparr>i_ip_id := i_ip_id w + 1\<rparr>) s8) = Some b8" by (simp add: 8(2))
  from put_ex(3) [OF this, of 12 src] obtain s9 b9 where
    9: "put32 (iph_src h) src (on_ip (\<lambda>w. w\<lparr>i_ip_id := i_ip_id w + 1\<rparr>) s8) = Some s9" "ip_read h 20 s9 = Some b9" by auto
  obtain s' where "put16 (iph_chksum h) (out_chksum proto ttl dest tos 0x45 (lwip_htons len) (lwip_htons (i_ip_id (l_ip s))) src) s9 = Some s'"
    using put_ex(2) [OF 9(2), of 10 "out_chksum proto ttl dest tos 0x45 (lwip_htons len) (lwip_htons (i_ip_id (l_ip s))) src"] by auto
  then show ?thesis by (simp add: out_header_def Let_def 1 2 3 4 5 6 7 8 9 del: One_nat_def)
qed

text \<open>C37: the checksum that \<open>ip_output_if\<close> computes from the values it stores, without reading the header, is the
  checksum of the header: the header is always written, and the receiver of the packet finds 0.\<close>

theorem out_header_verifies:
  assumes "ip_read h 20 s = Some bs"
  shows "\<exists>s'. out_header h src dest ttl tos proto len s = Some s' \<and> mem_chksum X h 20 s' = Some 0"
proof -
  obtain s' where r: "out_header h src dest ttl tos proto len s = Some s'" using out_header_ex [OF assms] by blast
  let ?l = "lwip_htons len" and ?i = "lwip_htons (i_ip_id (l_ip s))"
  let ?xs = "[0x45, tos] @ u16_bytes ?l @ u16_bytes ?i @ [0, 0, ttl, proto]" and ?ys = "u32_bytes src @ u32_bytes dest"
  let ?c = "out_chksum proto ttl dest tos 0x45 ?l ?i src"
  have z: "?xs @ [0, 0] @ ?ys = hdr_bytes 0x45 tos ?l ?i ttl proto 0 src dest" by (simp add: hdr_bytes_def u16_bytes_def)
  have f: "norm16 (lesum (?xs @ u16_bytes ?c @ ?ys)) = norm16 (lesum (?xs @ [0, 0] @ ?ys) + unat ?c)"
    by (rule lesum_field) (simp add: u16_bytes_def)
  have "norm16 (lesum (hdr_bytes 0x45 tos ?l ?i ttl proto ?c src dest)) = 65535"
    using f [unfolded z] norm16_complement by (simp add: out_chksum_norm hdr_bytes_def)
  moreover have "length (hdr_bytes 0x45 tos ?l ?i ttl proto ?c src dest) \<le> 0x20000" by (simp add: hdr_bytes_def u16_bytes_def)
  ultimately show ?thesis using out_header_bytes [OF assms r] r by (simp add: mem_chksum_def inet_chksum_norm)
qed


section \<open>The answer to an echo request\<close>

lemma chksum_zero_iff:
  assumes "length bs \<le> 0x20000"
  shows "inet_chksum a bs = 0 \<longleftrightarrow> norm16 (lesum bs) = 65535"
proof -
  have "NOT (of_nat n :: u16) = 0 \<longleftrightarrow> n = 65535" if "n \<le> 65535" for n
    using that unat_NOT16 [of "of_nat n"] by (auto simp: word_eq_unat unat_of_nat_u16)
  then show ?thesis using norm16_le by (simp add: inet_chksum_norm [OF assms])
qed

lemma lesum_icmp: "lesum (t # code # u16_bytes c @ rest) = unat t + 256 * unat code + unat c + lesum rest"
  using lesum_u16_bytes [of c] by (simp add: u16_bytes_def)

lemma echo_chksum_cases: "unat (echo_chksum c) = (if unat c \<ge> 65527 then unat c - 65527 else unat c + 8)"
proof -
  have "lwip_htons (0xffff - 0x0800) = 0xfff7" "lwip_htons 0x0800 = 8" by code_simp+
  then show ?thesis using unat_u16_lt [of c] by (auto simp: echo_chksum_def word_le_nat_alt unat_word_ariths mod_if)
qed

lemma echo_chksum_mod: "unat (echo_chksum c) mod 65535 = (unat c + 8) mod 65535"
proof (cases "unat c \<ge> 65527")
  case True
  then have "unat c + 8 = 65535 + unat (echo_chksum c)" by (simp add: echo_chksum_cases)
  then show ?thesis by (simp only: mod_add_self1)
qed (simp add: echo_chksum_cases)

lemma echo_chksum_0: "echo_chksum c = 0 \<longleftrightarrow> unat c = 65527"
  unfolding unat_eq_zero [symmetric] by (auto simp: echo_chksum_cases)

text \<open>C38: the checksum field of an echo request that verifies, adjusted for the new type, makes the reply verify,
  except for one request: the one whose other bytes are all zero.\<close>

theorem echo_reply_verifies:
  assumes "length rest \<le> 65535" and "inet_chksum a (ICMP_ECHO # code # u16_bytes c @ rest) = 0"
  shows "inet_chksum a' (ICMP_ER # code # u16_bytes (echo_chksum c) @ rest) = 0 \<longleftrightarrow> code \<noteq> 0 \<or> (\<exists>b \<in> set rest. b \<noteq> 0)"
proof -
  have "length (t # code # u16_bytes w @ rest) \<le> 0x20000" for t w using assms(1) by (simp add: u16_bytes_def)
  then have z: "inet_chksum a (t # code # u16_bytes w @ rest) = 0 \<longleftrightarrow> norm16 (unat t + 256 * unat code + unat w + lesum rest) = 65535" for a t w
    by (simp only: chksum_zero_iff lesum_icmp)
  let ?q = "8 + 256 * unat code + unat c + lesum rest" and ?r = "256 * unat code + unat (echo_chksum c) + lesum rest"
  have q: "?q mod 65535 = 0" "?q \<noteq> 0"
    using assms(2) norm16_mod [of ?q] norm16_0 [of ?q] by (simp_all add: z ICMP_ECHO_def)
  have "?r mod 65535 = ?q mod 65535" 
    using mod_add_cong [OF echo_chksum_mod [of c] refl, of "256 * unat code + lesum rest"] by (simp only: ac_simps)
  then have "norm16 ?r = 65535 \<longleftrightarrow> ?r \<noteq> 0"
    using q(1) norm16_eq_iff [of ?r 65535] norm16_small [of 65535] by simp
  moreover have "?r = 0 \<longleftrightarrow> code = 0 \<and> (\<forall>b \<in> set rest. b = 0)"
  proof -
    have "unat c = 65527" if "code = 0" "lesum rest = 0"
    proof -
      from q(1) that have "65535 dvd 8 + unat c" by (simp add: dvd_eq_mod_eq_0)
      then obtain k where "8 + unat c = 65535 * k" by (rule dvdE)
      with unat_u16_lt [of c] have "k = 1" by (cases "k = 0") auto
      with \<open>8 + unat c = 65535 * k\<close> show ?thesis by simp
    qed
    then show ?thesis using echo_chksum_0 [of c] lesum_eq_0 [of rest] by (auto simp: unat_eq_zero)
  qed
  ultimately show ?thesis by (auto simp: z ICMP_ER_def)
qed


section \<open>The answer to an ARP request\<close>




lemma length_eth_bytes [simp]: "length (eth_bytes a) = 6" by (cases a) simp

lemma length_u16_bytes [simp]: "length (u16_bytes w) = 2" by (simp add: u16_bytes_def)


section \<open>Instances\<close>

text \<open>An object of 64 bytes that holds the given ones at its beginning.\<close>

definition buffer_state :: "u8 list \<Rightarrow> unit ip" where
  "buffer_state bs = full_heap\<lparr>l_net := (l_net full_heap)\<lparr>extent := [RamAddr 8 \<mapsto> 64],
     cells := (\<lambda>_ i. if i < length bs then bs ! i else 0)\<rparr>\<rparr>"

lemma buffer_read: "length bs \<le> 64 \<Longrightarrow> ip_read (RamAddr 8, 0) (length bs) (buffer_state bs) = Some bs"
  by (auto simp: ip_read_def mem_read_def buffer_state_def intro: nth_equalityI)

theorem out_header_verifies_witness:
  "\<exists>s'. out_header (RamAddr 8, 0) 0x0100000a 0x0200000a 255 0 6 40 (buffer_state (replicate 20 0)) = Some s' \<and>
     mem_chksum arp_env0 (RamAddr 8, 0) 20 s' = Some 0"
  using out_header_verifies [of "(RamAddr 8, 0)" "buffer_state (replicate 20 0)" "replicate 20 0"] buffer_read [of "replicate 20 0"]
  by simp

theorem echo_reply_verifies_witness:
  "inet_chksum 0 (8 # 0 # u16_bytes 0xfef7 @ [0, 1]) = 0 \<and> inet_chksum 0 (0 # 0 # u16_bytes (echo_chksum 0xfef7) @ [0, 1]) = 0"
proof -
  have "inet_chksum 0 (ICMP_ECHO # 0 # u16_bytes 0xfef7 @ [0, 1]) = 0" by code_simp
  with echo_reply_verifies [OF _ this, of 0] show ?thesis by (simp add: ICMP_ECHO_def ICMP_ER_def)
qed


end
