(* ===== verification/UdpPorts.thy ===== *)
theory UdpPorts
  imports ArpTable
begin

text \<open>
  The UDP control blocks: the ones in the list are bound, no two of them to the same port unless to different
  addresses, and so a packet to one address has at most one receiver.
\<close>

section \<open>The invariant\<close>

definition ports_apart :: "(nat \<Rightarrow> udp_pcb option) \<Rightarrow> nat list \<Rightarrow> bool" where
  "ports_apart f L \<longleftrightarrow> (\<forall>x \<in> set L. \<forall>y \<in> set L. \<forall>u v. x \<noteq> y \<longrightarrow> f x = Some u \<longrightarrow> f y = Some v \<longrightarrow>
     u_local_port u = u_local_port v \<longrightarrow> u_local_ip u \<noteq> 0 \<and> u_local_ip v \<noteq> 0 \<and> u_local_ip u \<noteq> u_local_ip v)"

definition pcbs_ok :: "(nat \<Rightarrow> udp_pcb option) \<Rightarrow> nat list \<Rightarrow> bool" where
  "pcbs_ok f L \<longleftrightarrow> set L \<subseteq> dom f \<and> distinct L \<and> (\<forall>x u. f x = Some u \<longrightarrow> (u_local_port u \<noteq> 0 \<longleftrightarrow> x \<in> set L)) \<and> ports_apart f L"

text \<open>The control blocks are the elements that the pool has handed out.\<close>

definition pool_ok :: "(memp_t \<Rightarrow> nat) \<Rightarrow> nat \<Rightarrow> 'd ip \<Rightarrow> bool" where
  "pool_ok Z B s \<longleftrightarrow> memp_inv Z B (n_memp (l_net s)) \<and> dom (i_udp (l_ip s)) = memp_live Z B MEMP_UDP_PCB (n_memp (l_net s))"

definition udp_ok :: "(memp_t \<Rightarrow> nat) \<Rightarrow> nat \<Rightarrow> 'd ip \<Rightarrow> bool" where
  "udp_ok Z B s \<longleftrightarrow> pool_ok Z B s \<and> pcbs_ok (i_udp (l_ip s)) (i_udp_pcbs (l_ip s)) \<and> 0xc000 \<le> i_udp_port (l_ip s)"

lemma udp_idx: "MEMP_UDP_PCB < MEMP_MAX" by (simp add: MEMP_UDP_PCB_def MEMP_MAX_def)

text \<open>There are never more than six.\<close>

lemma pcbs_length: "udp_ok Z B s \<Longrightarrow> length (i_udp_pcbs (l_ip s)) \<le> 6"
proof -
  assume ok: "udp_ok Z B s"
  let ?L = "i_udp_pcbs (l_ip s)"
  have "set ?L \<subseteq> pool_elems Z B MEMP_UDP_PCB" "distinct ?L"
    using ok by (auto simp: udp_ok_def pool_ok_def pcbs_ok_def memp_live_def)
  then have "length ?L \<le> card (pool_elems Z B MEMP_UDP_PCB)"
    by (metis card_mono distinct_card finite_imageI finite_lessThan pool_elems_def)
  also have "\<dots> \<le> 6" unfolding pool_elems_def
    by (rule order.trans [OF card_image_le]) (simp_all add: MEMP_UDP_PCB_def memp_num_def)
  finally show ?thesis .
qed

section \<open>Ports\<close>

lemma port_used_iff: "set L \<subseteq> dom f \<Longrightarrow> udp_port_used f p L = Some (\<exists>x \<in> set L. \<exists>u. f x = Some u \<and> u_local_port u = p)"
  by (induction L) (auto simp: bind_eq_Some_conv)

definition next_port :: "nat \<Rightarrow> nat" where
  "next_port m = (if m = 65535 then 49152 else m + 1)"

lemma next_ports: "49152 \<le> m \<Longrightarrow> m \<le> 65535 \<Longrightarrow> (next_port ^^ k) m = 49152 + (m - 49152 + k) mod 16384"
proof (induction k)
  case (Suc k)
  let ?j = "(m - 49152 + k) mod 16384"
  have "(m - 49152 + Suc k) mod 16384 = (if ?j = 16383 then 0 else ?j + 1)"
    by (simp add: mod_Suc)
  then show ?case using Suc by (simp add: next_port_def)
qed simp

lemma new_port_loop:
  assumes "set (i_udp_pcbs (l_ip s)) \<subseteq> dom (i_udp (l_ip s))" "0xc000 \<le> i_udp_port (l_ip s)"
  shows "\<exists>p q. udp_new_port_loop n s = Some (p, on_ip (\<lambda>w. w\<lparr>i_udp_port := q\<rparr>) s) \<and> 0xc000 \<le> q \<and>
    (p \<noteq> 0 \<longrightarrow> udp_port_used (i_udp (l_ip s)) p (i_udp_pcbs (l_ip s)) = Some False) \<and>
    (p = 0 \<longrightarrow> (\<forall>k. 1 \<le> k \<and> k + n \<le> 16384 \<longrightarrow> (\<exists>x \<in> set (i_udp_pcbs (l_ip s)). \<exists>u. i_udp (l_ip s) x = Some u \<and>
       unat (u_local_port u) = (next_port ^^ k) (unat (i_udp_port (l_ip s))))))"
  using assms
proof (induction n s rule: udp_new_port_loop.induct)
  case (1 n s)
  let ?f = "i_udp (l_ip s)" and ?L = "i_udp_pcbs (l_ip s)" and ?q = "i_udp_port (l_ip s)"
  define port where "port = (if ?q = UDP_LOCAL_PORT_RANGE_END then UDP_LOCAL_PORT_RANGE_START else ?q + 1)"
  define t where "t = on_ip (\<lambda>w. w\<lparr>i_udp_port := port\<rparr>) s"
  note d = UDP_LOCAL_PORT_RANGE_END_def UDP_LOCAL_PORT_RANGE_START_def
  have up: "unat port = next_port (unat ?q)" using unat_u16_lt [of ?q]
    by (auto simp: port_def d next_port_def unat_u16_add word_eq_unat)
  have ge: "0xc000 \<le> port" using 1(3) up unat_u16_lt [of ?q] by (auto simp: word_le_nat_alt next_port_def)
  then have nz: "port \<noteq> 0" by (auto simp: word_le_nat_alt)
  have rng: "unat (UDP_LOCAL_PORT_RANGE_END - UDP_LOCAL_PORT_RANGE_START) = 16383" by (simp add: d)
  let ?u = "\<exists>x \<in> set ?L. \<exists>u. ?f x = Some u \<and> u_local_port u = port"
  have si: "i_udp (l_ip t) = ?f" "i_udp_pcbs (l_ip t) = ?L" "i_udp_port (l_ip t) = port" by (simp_all add: t_def)
  have pu: "udp_port_used ?f port ?L = Some ?u" by (rule port_used_iff [OF 1(2)])
  have st: "udp_new_port_loop n s = (if \<not> ?u then Some (port, t) else if n + 1 > 16383 then Some (0, t) else udp_new_port_loop (n + 1) t)"
    by (subst udp_new_port_loop.simps) (simp add: Let_def port_def [symmetric] t_def [symmetric] si pu rng split: bool.split, blast)
  show ?case
  proof (cases ?u)
    case False
    then show ?thesis using st ge nz pu t_def by (intro exI [of _ port] exI [of _ port]) simp
  next
    case True
    then have u1: "\<exists>x \<in> set ?L. \<exists>u. ?f x = Some u \<and> unat (u_local_port u) = (next_port ^^ 1) (unat ?q)" using up by fastforce
    show ?thesis
    proof (cases "n + 1 > 16383")
      case True
      have "k = 1" if "1 \<le> k \<and> k + n \<le> 16384" for k using that True by linarith
      with u1 have "\<forall>k. 1 \<le> k \<and> k + n \<le> 16384 \<longrightarrow> (\<exists>x \<in> set ?L. \<exists>u. ?f x = Some u \<and>
          unat (u_local_port u) = (next_port ^^ k) (unat ?q))" by blast
      moreover have "udp_new_port_loop n s = Some (0, t)" using st \<open>?u\<close> True by simp
      ultimately show ?thesis using ge unfolding t_def by blast
    next
      case False
      have e: "on_ip (\<lambda>w. w\<lparr>i_udp_port := q\<rparr>) t = on_ip (\<lambda>w. w\<lparr>i_udp_port := q\<rparr>) s" for q by (simp add: t_def on_ip_def)
      have "\<exists>p q. udp_new_port_loop (n + 1) t = Some (p, on_ip (\<lambda>w. w\<lparr>i_udp_port := q\<rparr>) s) \<and> 0xc000 \<le> q \<and>
        (p \<noteq> 0 \<longrightarrow> udp_port_used ?f p ?L = Some False) \<and>
        (p = 0 \<longrightarrow> (\<forall>k. 1 \<le> k \<and> k + (n + 1) \<le> 16384 \<longrightarrow> (\<exists>x \<in> set ?L. \<exists>u. ?f x = Some u \<and>
           unat (u_local_port u) = (next_port ^^ k) (unat port))))"
        using 1(1) [OF port_def t_def, of True] pu \<open>?u\<close> False rng 1(2) ge by (simp add: si e)
      then obtain p q where r: "udp_new_port_loop (n + 1) t = Some (p, on_ip (\<lambda>w. w\<lparr>i_udp_port := q\<rparr>) s)" "0xc000 \<le> q"
          "p \<noteq> 0 \<longrightarrow> udp_port_used ?f p ?L = Some False"
        and z: "p = 0 \<Longrightarrow> 1 \<le> k \<Longrightarrow> k + (n + 1) \<le> 16384 \<Longrightarrow> \<exists>x \<in> set ?L. \<exists>u. ?f x = Some u \<and>
           unat (u_local_port u) = (next_port ^^ k) (unat port)" for k by blast
      have "\<exists>x \<in> set ?L. \<exists>u. ?f x = Some u \<and> unat (u_local_port u) = (next_port ^^ k) (unat ?q)"
        if "p = 0" "1 \<le> k" "k + n \<le> 16384" for k
      proof (cases "k = 1")
        case True
        with u1 show ?thesis by simp
      next
        case False
        with that(2) obtain j where j: "k = Suc j" "1 \<le> j" by (metis One_nat_def Suc_le_D not_less_eq_eq nat_less_le le_antisym)
        with z [OF that(1) j(2)] that(3) show ?thesis by (simp add: up funpow_swap1 del: funpow.simps) (simp add: funpow_swap1)
      qed
      with r show ?thesis using st \<open>?u\<close> False by (intro exI [of _ p] exI [of _ q]) simp
    qed
  qed
qed


lemma next_port_inj:
  assumes m: "49152 \<le> m" "m \<le> 65535"
  shows "inj_on (\<lambda>k. (next_port ^^ k) m) {1..7}"
proof (rule inj_onI)
  fix i j :: nat
  assume a: "i \<in> {1..7}" "j \<in> {1..7}" "(next_port ^^ i) m = (next_port ^^ j) m"
  have c: "(next_port ^^ k) m = (if m + k < 65536 then m + k else m + k - 16384)" if "k \<le> 7" for k
  proof -
    have "(m - 49152 + k) mod 16384 = (if m + k < 65536 then m - 49152 + k else m - 49152 + k - 16384)"
      using that m by (simp add: le_mod_geq)
    with m show ?thesis unfolding next_ports [OF m] by (simp split: if_splits)
  qed
  then have "(if m + i < 65536 then m + i else m + i - 16384) = (if m + j < 65536 then m + j else m + j - 16384)"
    using a by (metis atLeastAtMost_iff)
  with a(1,2) m show "i = j" by (simp split: if_splits)
qed

lemma udp_ok_dom: "udp_ok Z B s \<Longrightarrow> set (i_udp_pcbs (l_ip s)) \<subseteq> dom (i_udp (l_ip s))"
  by (simp add: udp_ok_def pcbs_ok_def)

text \<open>A port is always found, and it is free.\<close>

lemma udp_new_port_free:
  assumes dom: "set (i_udp_pcbs (l_ip s)) \<subseteq> dom (i_udp (l_ip s))" and ge: "0xc000 \<le> i_udp_port (l_ip s)"
    and six: "length (i_udp_pcbs (l_ip s)) \<le> 6"
  shows "\<exists>p q. udp_new_port s = Some (p, on_ip (\<lambda>w. w\<lparr>i_udp_port := q\<rparr>) s) \<and> 0xc000 \<le> q \<and> p \<noteq> 0 \<and>
    (\<forall>x \<in> set (i_udp_pcbs (l_ip s)). \<forall>u. i_udp (l_ip s) x = Some u \<longrightarrow> u_local_port u \<noteq> p)"
proof -
  let ?f = "i_udp (l_ip s)" and ?L = "i_udp_pcbs (l_ip s)" and ?q = "unat (i_udp_port (l_ip s))"
  from new_port_loop [OF dom ge, of 0] obtain p q where
    r: "udp_new_port s = Some (p, on_ip (\<lambda>w. w\<lparr>i_udp_port := q\<rparr>) s)" "0xc000 \<le> q"
      "p \<noteq> 0 \<longrightarrow> udp_port_used ?f p ?L = Some False"
    and z: "p = 0 \<longrightarrow> (\<forall>k. 1 \<le> k \<and> k + 0 \<le> 16384 \<longrightarrow> (\<exists>x \<in> set ?L. \<exists>u. ?f x = Some u \<and>
       unat (u_local_port u) = (next_port ^^ k) ?q))" unfolding udp_new_port_def by blast
  have "p \<noteq> 0"
  proof
    assume "p = 0"
    let ?P = "(\<lambda>x. unat (u_local_port (the (?f x)))) ` set ?L" and ?h = "\<lambda>k. (next_port ^^ k) ?q"
    have m: "49152 \<le> ?q" "?q \<le> 65535" using ge unat_u16_le [of "i_udp_port (l_ip s)"] by (simp_all add: word_le_nat_alt)
    have "?h ` {1..7} \<subseteq> ?P"
    proof
      fix v assume "v \<in> ?h ` {1..7}"
      then obtain k where "v = ?h k" "1 \<le> k" "k \<le> 7" by auto
      with z \<open>p = 0\<close> obtain x u where "x \<in> set ?L" "?f x = Some u" "unat (u_local_port u) = v" by force
      then show "v \<in> ?P" by (intro image_eqI [of _ _ x]) simp_all
    qed
    then have "card {1..7 :: nat} \<le> card ?P" using next_port_inj [OF m] by (metis card_image card_mono finite_imageI finite_set)
    also have "\<dots> \<le> card (set ?L)" by (rule card_image_le) simp
    also have "\<dots> \<le> 6" using card_length [of ?L] six by linarith
    finally show False by simp
  qed
  with r show ?thesis using port_used_iff [OF dom, of p] by auto
qed

section \<open>Binding\<close>

lemma bind_scan_ok:
  "bind_scan f x ip port rb L = Some (Some r) \<Longrightarrow> (r \<longleftrightarrow> rb \<or> x \<in> set L) \<and>
   (\<forall>y \<in> set L. y \<noteq> x \<longrightarrow> (\<exists>u. f y = Some u \<and> (u_local_port u = port \<longrightarrow>
      u_local_ip u \<noteq> 0 \<and> \<not> ip_addr_isany ip \<and> Some (u_local_ip u) \<noteq> ip)))"
  by (induction L arbitrary: rb) (auto split: if_splits simp: bind_eq_Some_conv)

lemma ports_apart_sub:
  "ports_apart f L \<Longrightarrow> (\<And>y u. y \<in> set M \<Longrightarrow> g y = Some u \<Longrightarrow> y \<in> set L \<and> f y = Some u) \<Longrightarrow> ports_apart g M"
  unfolding ports_apart_def by blast

text \<open>A control block gets an address and a port that the others leave free.\<close>

lemma pcbs_ok_bind:
  assumes ok: "pcbs_ok f L" and x: "x \<in> dom f" and u: "u_local_port u \<noteq> 0"
    and a: "\<And>y v. y \<in> set L \<Longrightarrow> y \<noteq> x \<Longrightarrow> f y = Some v \<Longrightarrow> u_local_port v = u_local_port u \<Longrightarrow>
      u_local_ip v \<noteq> 0 \<and> u_local_ip u \<noteq> 0 \<and> u_local_ip v \<noteq> u_local_ip u"
  shows "pcbs_ok (f(x \<mapsto> u)) (if x \<in> set L then L else x # L)"
proof -
  have b: "\<And>y v. y \<in> set L \<Longrightarrow> y \<noteq> x \<Longrightarrow> f y = Some v \<Longrightarrow> u_local_port u = u_local_port v \<Longrightarrow>
      u_local_ip v \<noteq> 0 \<and> u_local_ip u \<noteq> 0 \<and> u_local_ip u \<noteq> u_local_ip v" using a by metis
  have p: "\<And>y z v w. y \<in> set L \<Longrightarrow> z \<in> set L \<Longrightarrow> y \<noteq> z \<Longrightarrow> f y = Some v \<Longrightarrow> f z = Some w \<Longrightarrow>
      u_local_port v = u_local_port w \<Longrightarrow> u_local_ip v \<noteq> 0 \<and> u_local_ip w \<noteq> 0 \<and> u_local_ip v \<noteq> u_local_ip w"
    using ok unfolding pcbs_ok_def ports_apart_def by blast
  have "ports_apart (f(x \<mapsto> u)) (x # L)"
    unfolding ports_apart_def using a b p by (auto 0 0 split: if_splits)
  then have "ports_apart (f(x \<mapsto> u)) (if x \<in> set L then L else x # L)" by (auto simp: ports_apart_def)
  with ok x u show ?thesis unfolding pcbs_ok_def by auto
qed

lemma udp_okI:
  assumes "udp_ok Z B s" "l_net s' = l_net s" "dom (i_udp (l_ip s')) = dom (i_udp (l_ip s))"
    "pcbs_ok (i_udp (l_ip s')) (i_udp_pcbs (l_ip s'))" "0xc000 \<le> i_udp_port (l_ip s')"
  shows "udp_ok Z B s'"
  using assms by (simp add: udp_ok_def pool_ok_def)

lemma l_net_on_ip [simp]: "l_net (on_ip f s) = l_net s" by (simp add: on_ip_def)

lemma put_udp_simps [simp]: "i_udp (l_ip (put_udp x u s)) = (i_udp (l_ip s))(x \<mapsto> u)"
  "i_udp_pcbs (l_ip (put_udp x u s)) = i_udp_pcbs (l_ip s)" "i_udp_port (l_ip (put_udp x u s)) = i_udp_port (l_ip s)"
  "l_net (put_udp x u s) = l_net s"
  by (simp_all add: put_udp_def)

lemma on_ip_udp_simps [simp]:
  "i_udp (l_ip (on_ip (\<lambda>w. w\<lparr>i_udp_port := q\<rparr>) s)) = i_udp (l_ip s)"
  "i_udp_pcbs (l_ip (on_ip (\<lambda>w. w\<lparr>i_udp_port := q\<rparr>) s)) = i_udp_pcbs (l_ip s)"
  "i_udp_port (l_ip (on_ip (\<lambda>w. w\<lparr>i_udp_port := q\<rparr>) s)) = q"
  "i_udp (l_ip (on_ip (\<lambda>w. w\<lparr>i_udp_pcbs := L\<rparr>) s)) = i_udp (l_ip s)"
  "i_udp_pcbs (l_ip (on_ip (\<lambda>w. w\<lparr>i_udp_pcbs := g w\<rparr>) s)) = g (l_ip s)"
  "i_udp (l_ip (on_ip (\<lambda>w. w\<lparr>i_udp_pcbs := g w\<rparr>) s)) = i_udp (l_ip s)"
  "i_udp_port (l_ip (on_ip (\<lambda>w. w\<lparr>i_udp_pcbs := g w\<rparr>) s)) = i_udp_port (l_ip s)"
  by (simp_all add: on_ip_def)

text \<open>What \<open>udp_bind\<close> does when it succeeds: the port and address are stored, and the control block is in the list.\<close>

lemma udp_bind_cases:
  assumes r: "udp_bind x ip port s = Some (e, s')" and ok: "udp_ok Z B s"
  shows "(e = ERR_USE \<and> s' = s) \<or>
    (\<exists>u p. e = ERR_OK \<and> i_udp (l_ip s) x = Some u \<and> p \<noteq> 0 \<and>
       (let v = u\<lparr>u_local_ip := (case ip of None \<Rightarrow> 0 | Some a \<Rightarrow> a), u_local_port := p\<rparr> in
        i_udp (l_ip s') = (i_udp (l_ip s))(x \<mapsto> v) \<and>
        i_udp_pcbs (l_ip s') = (if x \<in> set (i_udp_pcbs (l_ip s)) then i_udp_pcbs (l_ip s) else x # i_udp_pcbs (l_ip s)) \<and>
        (\<forall>y \<in> set (i_udp_pcbs (l_ip s)). \<forall>w. y \<noteq> x \<longrightarrow> i_udp (l_ip s) y = Some w \<longrightarrow> u_local_port w = p \<longrightarrow>
           u_local_ip w \<noteq> 0 \<and> u_local_ip v \<noteq> 0 \<and> u_local_ip w \<noteq> u_local_ip v)) \<and>
       l_net s' = l_net s \<and> 0xc000 \<le> i_udp_port (l_ip s'))"
proof -
  let ?f = "i_udp (l_ip s)" and ?L = "i_udp_pcbs (l_ip s)"
  from r obtain b where b: "bind_scan ?f x ip port False ?L = Some b" by (auto simp: udp_bind_def bind_eq_Some_conv)
  show ?thesis
  proof (cases b)
    case None
    with r b show ?thesis by (simp add: udp_bind_def)
  next
    case (Some rebind)
    note sc = bind_scan_ok [OF b [unfolded Some]]
    let ?ip = "case ip of None \<Rightarrow> 0 | Some a \<Rightarrow> a"
    from r b Some obtain u where u: "?f x = Some u" by (auto simp: udp_bind_def bind_eq_Some_conv get_udp_def)
    let ?s = "put_udp x (u\<lparr>u_local_ip := ?ip\<rparr>) s"
    have dom: "set ?L \<subseteq> dom ?f" and ge: "0xc000 \<le> i_udp_port (l_ip s)" using ok by (auto simp: udp_ok_def pcbs_ok_def)
    show ?thesis
    proof (cases "port = 0")
      case True
      have "\<exists>p q. udp_new_port ?s = Some (p, on_ip (\<lambda>w. w\<lparr>i_udp_port := q\<rparr>) ?s) \<and> 0xc000 \<le> q \<and> p \<noteq> 0 \<and>
          (\<forall>y \<in> set (i_udp_pcbs (l_ip ?s)). \<forall>w. i_udp (l_ip ?s) y = Some w \<longrightarrow> u_local_port w \<noteq> p)"
        using dom ge pcbs_length [OF ok] by (intro udp_new_port_free) auto
      then obtain p q where n: "udp_new_port ?s = Some (p, on_ip (\<lambda>w. w\<lparr>i_udp_port := q\<rparr>) ?s)" "0xc000 \<le> q" "p \<noteq> 0"
        "\<forall>y \<in> set ?L. \<forall>w. (?f(x \<mapsto> u\<lparr>u_local_ip := ?ip\<rparr>)) y = Some w \<longrightarrow> u_local_port w \<noteq> p" by auto
      then have fr: "\<forall>y \<in> set ?L. \<forall>w. y \<noteq> x \<longrightarrow> ?f y = Some w \<longrightarrow> u_local_port w \<noteq> p" by simp
      from r b Some u True n(1) n(3) have "e = ERR_OK" and s': "s' = (let s = put_udp x (u\<lparr>u_local_ip := ?ip, u_local_port := p\<rparr>)
          (on_ip (\<lambda>w. w\<lparr>i_udp_port := q\<rparr>) ?s) in if rebind then s else on_ip (\<lambda>w. w\<lparr>i_udp_pcbs := x # i_udp_pcbs w\<rparr>) s)"
        by (simp_all add: udp_bind_def get_udp_def Let_def)
      with u n(2,3) fr sc show ?thesis by (intro disjI2 exI [of _ u] exI [of _ p]) (auto simp: Let_def)
    next
      case False
      with r b Some u have "e = ERR_OK" and s': "s' = (let s = put_udp x (u\<lparr>u_local_ip := ?ip, u_local_port := port\<rparr>)
          ?s in if rebind then s else on_ip (\<lambda>w. w\<lparr>i_udp_pcbs := x # i_udp_pcbs w\<rparr>) s)"
        by (simp_all add: udp_bind_def get_udp_def Let_def)
      moreover have "\<forall>y \<in> set ?L. \<forall>w. y \<noteq> x \<longrightarrow> ?f y = Some w \<longrightarrow> u_local_port w = port \<longrightarrow>
          u_local_ip w \<noteq> 0 \<and> ?ip \<noteq> 0 \<and> u_local_ip w \<noteq> ?ip"
        using sc by (cases ip) (force simp: ip_addr_isany_def)+
      ultimately show ?thesis using u False ge sc by (intro disjI2 exI [of _ u] exI [of _ port]) (auto simp: Let_def)
    qed
  qed
qed

lemma udp_bind_ok:
  assumes r: "udp_bind x ip port s = Some (e, s')" and ok: "udp_ok Z B s"
  shows "udp_ok Z B s'"
proof -
  let ?f = "i_udp (l_ip s)" and ?L = "i_udp_pcbs (l_ip s)"
  have P: "pcbs_ok ?f ?L" using ok by (simp add: udp_ok_def)
  from udp_bind_cases [OF r ok] show ?thesis
  proof (elim disjE exE conjE, goal_cases)
    case 1 then show ?case using ok by simp
  next
    case (2 u p)
    let ?v = "u\<lparr>u_local_ip := (case ip of None \<Rightarrow> 0 | Some a \<Rightarrow> a), u_local_port := p\<rparr>"
    have "pcbs_ok (?f(x \<mapsto> ?v)) (if x \<in> set ?L then ?L else x # ?L)"
      using 2 by (intro pcbs_ok_bind [OF P]) (auto simp: Let_def)
    with 2 show ?case by (intro udp_okI [OF ok]) (auto simp: Let_def)
  qed
qed

section \<open>The other operations\<close>

lemma udp_okD: "udp_ok Z B s \<Longrightarrow> pcbs_ok (i_udp (l_ip s)) (i_udp_pcbs (l_ip s))" "udp_ok Z B s \<Longrightarrow> 0xc000 \<le> i_udp_port (l_ip s)"
  by (simp_all add: udp_ok_def)

text \<open>Fields other than the local address and port do not matter, nor does the order of the list.\<close>

lemma pcbs_ok_upd:
  assumes "pcbs_ok f L" "f x = Some u" "u_local_port v = u_local_port u" "u_local_ip v = u_local_ip u"
  shows "pcbs_ok (f(x \<mapsto> v)) L"
proof -
  have a: "\<exists>w. f y = Some w \<and> u_local_port w = u_local_port z \<and> u_local_ip w = u_local_ip z" if "(f(x \<mapsto> v)) y = Some z" for y z
    using that assms by (cases "y = x") auto
  have p: "\<And>y z v w. y \<in> set L \<Longrightarrow> z \<in> set L \<Longrightarrow> y \<noteq> z \<Longrightarrow> f y = Some v \<Longrightarrow> f z = Some w \<Longrightarrow>
      u_local_port v = u_local_port w \<Longrightarrow> u_local_ip v \<noteq> 0 \<and> u_local_ip w \<noteq> 0 \<and> u_local_ip v \<noteq> u_local_ip w"
    using assms(1) unfolding pcbs_ok_def ports_apart_def by blast
  have "ports_apart (f(x \<mapsto> v)) L" unfolding ports_apart_def
  proof (intro ballI allI impI)
    fix y z g h assume c: "y \<in> set L" "z \<in> set L" "y \<noteq> z" "(f(x \<mapsto> v)) y = Some g" "(f(x \<mapsto> v)) z = Some h" "u_local_port g = u_local_port h"
    from a [OF c(4)] a [OF c(5)] obtain g' h' where "f y = Some g'" "u_local_port g' = u_local_port g" "u_local_ip g' = u_local_ip g"
      "f z = Some h'" "u_local_port h' = u_local_port h" "u_local_ip h' = u_local_ip h" by blast
    with p [OF c(1-3)] c(6) show "u_local_ip g \<noteq> 0 \<and> u_local_ip h \<noteq> 0 \<and> u_local_ip g \<noteq> u_local_ip h" by metis
  qed
  with assms show ?thesis unfolding pcbs_ok_def by auto
qed

lemma pcbs_ok_order: "pcbs_ok f L \<Longrightarrow> x \<in> set L \<Longrightarrow> pcbs_ok f (x # remove1 x L)"
proof -
  assume ok: "pcbs_ok f L" and x: "x \<in> set L"
  then have d: "distinct L" by (simp add: pcbs_ok_def)
  with x have "set (x # remove1 x L) = set L" "distinct (x # remove1 x L)" by auto
  with ok show ?thesis unfolding pcbs_ok_def ports_apart_def by simp
qed

lemma udp_disconnect_ok: "udp_disconnect x s = Some s' \<Longrightarrow> udp_ok Z B s \<Longrightarrow> udp_ok Z B s'"
  by (auto simp: udp_disconnect_def get_udp_def bind_eq_Some_conv dest: udp_okD intro!: udp_okI [of Z B s] pcbs_ok_upd split: if_splits)

lemma udp_recv_ok: "udp_recv x g a s = Some s' \<Longrightarrow> udp_ok Z B s \<Longrightarrow> udp_ok Z B s'"
  by (auto simp: udp_recv_def get_udp_def bind_eq_Some_conv dest: udp_okD intro!: udp_okI [of Z B s] pcbs_ok_upd split: if_splits)

lemma udp_connect_ok:
  assumes r: "udp_connect x ip port s = Some (e, s')" and ok: "udp_ok Z B s"
  shows "udp_ok Z B s'"
proof -
  from r obtain u e1 s1 where u: "i_udp (l_ip s) x = Some u"
    and b: "(if u_local_port u = 0 then udp_bind x (Some (u_local_ip u)) 0 s else Some (ERR_OK, s)) = Some (e1, s1)"
    by (auto simp: udp_connect_def get_udp_def bind_eq_Some_conv)
  have ok1: "udp_ok Z B s1" using b ok udp_bind_ok by (auto split: if_splits)
  show ?thesis
  proof (cases "e1 = ERR_OK")
    case False
    with r u b ok1 show ?thesis by (simp add: udp_connect_def get_udp_def)
  next
    case True
    then obtain v where v: "i_udp (l_ip s1) x = Some v" "u_local_port v \<noteq> 0"
    proof (cases "u_local_port u = 0")
      case True
      with b udp_bind_cases [OF _ ok, of x "Some (u_local_ip u)" 0 e1 s1] \<open>e1 = ERR_OK\<close> that show ?thesis
        by (auto simp: Let_def)
    qed (use b u in auto)
    let ?v = "v\<lparr>u_remote_ip := (case ip of None \<Rightarrow> 0 | Some a \<Rightarrow> a), u_remote_port := port, u_flags := u_flags v OR UDP_FLAGS_CONNECTED\<rparr>"
    have x: "x \<in> set (i_udp_pcbs (l_ip s1))" using udp_okD(1) [OF ok1] v by (auto simp: pcbs_ok_def)
    then have "s' = put_udp x ?v s1" using r u b v True by (simp add: udp_connect_def get_udp_def Let_def)
    with v udp_okD [OF ok1] show ?thesis by (auto intro!: udp_okI [OF ok1] pcbs_ok_upd split: if_splits)
  qed
qed

lemma udp_new_ok:
  assumes z: "sizes_ok Z B" and r: "udp_new s = Some (x, s')" and ok: "udp_ok Z B s"
  shows "udp_ok Z B s'"
proof -
  let ?m = "n_memp (l_net s)"
  have idx: "memp_idx MEMP_UDP_PCB = MEMP_UDP_PCB" using udp_idx by (simp add: memp_idx_def)
  have inv: "memp_inv Z B ?m" and dom: "dom (i_udp (l_ip s)) = memp_live Z B MEMP_UDP_PCB ?m"
    and P: "pcbs_ok (i_udp (l_ip s)) (i_udp_pcbs (l_ip s))" using ok by (simp_all add: udp_ok_def pool_ok_def)
  from memp.alloc_law [of Z B ?m MEMP_UDP_PCB] z inv obtain r mp where m: "memp_malloc MEMP_UDP_PCB ?m = Some (r, mp)"
    "memp_inv Z B mp" "case r of None \<Rightarrow> memp_live Z B MEMP_UDP_PCB mp = memp_live Z B MEMP_UDP_PCB ?m
       | Some a \<Rightarrow> a \<notin> memp_live Z B MEMP_UDP_PCB ?m \<and> memp_live Z B MEMP_UDP_PCB mp = insert a (memp_live Z B MEMP_UDP_PCB ?m)"
    unfolding idx by blast
  show ?thesis
  proof (cases r)
    case None
    with r m have "s' = s\<lparr>l_net := (l_net s)\<lparr>n_memp := mp\<rparr>\<rparr>" by (simp add: udp_new_def)
    with None m ok show ?thesis by (simp add: udp_ok_def pool_ok_def)
  next
    case (Some a)
    with m(3) dom have a: "a \<notin> dom (i_udp (l_ip s))" by simp
    with P have "a \<notin> set (i_udp_pcbs (l_ip s))" by (auto simp: pcbs_ok_def)
    moreover have "pcbs_ok ((i_udp (l_ip s))(a \<mapsto> u)) (i_udp_pcbs (l_ip s))" if "u_local_port u = 0" for u
    proof -
      have "ports_apart ((i_udp (l_ip s))(a \<mapsto> u)) (i_udp_pcbs (l_ip s)) = ports_apart (i_udp (l_ip s)) (i_udp_pcbs (l_ip s))"
        unfolding ports_apart_def using \<open>a \<notin> set _\<close> by (intro ball_cong refl) auto
      with P that \<open>a \<notin> set _\<close> show ?thesis unfolding pcbs_ok_def by auto
    qed
    moreover have "s' = put_udp a \<lparr>u_local_ip = 0, u_remote_ip = 0, u_so_options = 0, u_tos = 0, u_ttl = UDP_TTL, u_flags = 0,
        u_local_port = 0, u_remote_port = 0, u_recv = None, u_recv_arg = None\<rparr> (s\<lparr>l_net := (l_net s)\<lparr>n_memp := mp\<rparr>\<rparr>)"
      using r m Some by (simp add: udp_new_def)
    ultimately show ?thesis using m ok dom Some unfolding udp_ok_def pool_ok_def by simp
  qed
qed

lemma udp_remove_ok:
  assumes z: "sizes_ok Z B" and r: "udp_remove x s = Some s'" and ok: "udp_ok Z B s"
  shows "udp_ok Z B s'"
proof -
  let ?m = "n_memp (l_net s)" and ?f = "i_udp (l_ip s)" and ?L = "i_udp_pcbs (l_ip s)"
  have idx: "memp_idx MEMP_UDP_PCB = MEMP_UDP_PCB" using udp_idx by (simp add: memp_idx_def)
  have inv: "memp_inv Z B ?m" and dom: "dom ?f = memp_live Z B MEMP_UDP_PCB ?m"
    and P: "pcbs_ok ?f ?L" using ok by (simp_all add: udp_ok_def pool_ok_def)
  from r have x: "x \<in> dom ?f" by (auto simp: udp_remove_def get_udp_def bind_eq_Some_conv)
  with memp.release_law [of Z B ?m x MEMP_UDP_PCB] z inv dom obtain mp where m: "memp_free MEMP_UDP_PCB (Some x) ?m = Some mp"
    "memp_inv Z B mp" "memp_live Z B MEMP_UDP_PCB mp = memp_live Z B MEMP_UDP_PCB ?m - {x}"
    unfolding idx by blast
  have s': "s' = on_ip (\<lambda>w. w\<lparr>i_udp := (i_udp w)(x := None), i_udp_pcbs := remove1 x (i_udp_pcbs w)\<rparr>) (s\<lparr>l_net := (l_net s)\<lparr>n_memp := mp\<rparr>\<rparr>)"
    using r m(1) by (clarsimp simp: udp_remove_def bind_eq_Some_conv)
  have d: "distinct ?L" using P by (simp add: pcbs_ok_def)
  have e: "set (remove1 x ?L) = set ?L - {x}" using d by simp
  have "ports_apart (?f(x := None)) (remove1 x ?L)"
    using P unfolding pcbs_ok_def by (elim conjE ports_apart_sub) (simp add: e)
  moreover have "set (remove1 x ?L) \<subseteq> dom (?f(x := None))" using P unfolding pcbs_ok_def e by auto
  moreover have "u_local_port u \<noteq> 0 \<longleftrightarrow> y \<in> set (remove1 x ?L)" if "(?f(x := None)) y = Some u" for y u
    using P that unfolding pcbs_ok_def e by (auto split: if_splits)
  moreover have "distinct (remove1 x ?L)" using d by simp
  ultimately have "pcbs_ok (?f(x := None)) (remove1 x ?L)" unfolding pcbs_ok_def by blast
  with ok m dom show ?thesis by (simp add: s' udp_ok_def pool_ok_def on_ip_def)
qed

text \<open>The search finds a control block that matches.\<close>

lemma udp_scan_spec:
  assumes "set xs \<subseteq> dom f"
  shows "\<exists>x v. udp_scan f d port dest sport src unc xs = Some (x, v) \<and>
    (\<forall>y. x = Some y \<longrightarrow> y \<in> set xs \<and> (\<exists>u. f y = Some u \<and> udp_local_match d port dest u)) \<and>
    (\<forall>y. v = Some y \<longrightarrow> unc = Some y \<or> y \<in> set xs \<and> (\<exists>u. f y = Some u \<and> udp_local_match d port dest u)) \<and>
    (x = None \<and> v = None \<longrightarrow> unc = None \<and> (\<forall>y \<in> set xs. \<forall>u. f y = Some u \<longrightarrow> udp_local_match d port dest u \<longrightarrow>
       u_flags u AND UDP_FLAGS_CONNECTED \<noteq> 0 \<and> (u_remote_port u \<noteq> sport \<or> u_remote_ip u \<noteq> src)))"
  using assms
proof (induction xs arbitrary: unc)
  case (Cons y ys)
  then obtain u where u: "f y = Some u" by auto
  let ?lm = "udp_local_match d port dest u"
  let ?unc = "if ?lm \<and> unc = None \<and> u_flags u AND UDP_FLAGS_CONNECTED = 0 then Some y else unc"
  show ?case
  proof (cases "?lm \<and> u_remote_port u = sport \<and> (u_remote_ip u = 0 \<or> u_remote_ip u = src)")
    case True
    with u show ?thesis by (intro exI [of _ "Some y"] exI [of _ ?unc]) (simp add: Let_def)
  next
    case False
    from Cons.IH [of ?unc] Cons.prems obtain x v where r: "udp_scan f d port dest sport src ?unc ys = Some (x, v)"
      "\<forall>y. x = Some y \<longrightarrow> y \<in> set ys \<and> (\<exists>u. f y = Some u \<and> udp_local_match d port dest u)"
      "\<forall>y. v = Some y \<longrightarrow> ?unc = Some y \<or> y \<in> set ys \<and> (\<exists>u. f y = Some u \<and> udp_local_match d port dest u)"
      "x = None \<and> v = None \<longrightarrow> ?unc = None \<and> (\<forall>y \<in> set ys. \<forall>u. f y = Some u \<longrightarrow> udp_local_match d port dest u \<longrightarrow>
       u_flags u AND UDP_FLAGS_CONNECTED \<noteq> 0 \<and> (u_remote_port u \<noteq> sport \<or> u_remote_ip u \<noteq> src))" by auto
    moreover from r(1) u False have "udp_scan f d port dest sport src unc (y # ys) = Some (x, v)"
      by (simp add: Let_def) blast
    ultimately show ?thesis using u False by (intro exI [of _ x] exI [of _ v]) (auto split: if_splits)
  qed
qed simp

lemma udp_find_ok:
  assumes r: "udp_find d port dest sport src s = Some (x, s')" and ok: "udp_ok Z B s"
  shows "udp_ok Z B s'"
proof -
  from udp_scan_spec [OF udp_ok_dom [OF ok]] obtain y v where
    sc: "udp_scan (i_udp (l_ip s)) d port dest sport src None (i_udp_pcbs (l_ip s)) = Some (y, v)"
    and y: "\<And>z. y = Some z \<Longrightarrow> z \<in> set (i_udp_pcbs (l_ip s))" by metis
  show ?thesis
  proof (cases y)
    case None
    with r sc ok show ?thesis by (auto simp: udp_find_def split: if_splits)
  next
    case (Some z)
    show ?thesis
    proof (cases "port = DHCP_CLIENT_PORT")
      case False
      with r sc Some have "s' = on_ip (\<lambda>w. w\<lparr>i_udp_pcbs := z # remove1 z (i_udp_pcbs w)\<rparr>) s" by (simp add: udp_find_def)
      with Some y udp_okD [OF ok] show ?thesis by (intro udp_okI [OF ok]) (auto intro: pcbs_ok_order)
    qed (use r ok in \<open>simp add: udp_find_def\<close>)
  qed
qed

section \<open>Runs\<close>

text \<open>What the rest of the program leaves alone.\<close>

definition same_udp :: "(memp_t \<Rightarrow> nat) \<Rightarrow> nat \<Rightarrow> 'd ip \<Rightarrow> 'd ip \<Rightarrow> bool" where
  "same_udp Z B s s' \<longleftrightarrow> i_udp (l_ip s') = i_udp (l_ip s) \<and> i_udp_pcbs (l_ip s') = i_udp_pcbs (l_ip s) \<and>
     i_udp_port (l_ip s') = i_udp_port (l_ip s) \<and> memp_inv Z B (n_memp (l_net s')) \<and>
     memp_live Z B MEMP_UDP_PCB (n_memp (l_net s')) = memp_live Z B MEMP_UDP_PCB (n_memp (l_net s))"

inductive udp_step :: "(memp_t \<Rightarrow> nat) \<Rightarrow> nat \<Rightarrow> 'd ip \<Rightarrow> 'd ip \<Rightarrow> bool" for Z B where
  udp_create: "udp_new s = Some (x, s') \<Longrightarrow> udp_step Z B s s'"
| udp_delete: "udp_remove x s = Some s' \<Longrightarrow> udp_step Z B s s'"
| udp_binds: "udp_bind x ip port s = Some (e, s') \<Longrightarrow> udp_step Z B s s'"
| udp_connects: "udp_connect x ip port s = Some (e, s') \<Longrightarrow> udp_step Z B s s'"
| udp_disconnects: "udp_disconnect x s = Some s' \<Longrightarrow> udp_step Z B s s'"
| udp_callback: "udp_recv x g a s = Some s' \<Longrightarrow> udp_step Z B s s'"
| udp_demux: "udp_find d port dest sport src s = Some (x, s') \<Longrightarrow> udp_step Z B s s'"
| udp_rest: "same_udp Z B s s' \<Longrightarrow> udp_step Z B s s'"

inductive udp_run :: "(memp_t \<Rightarrow> nat) \<Rightarrow> nat \<Rightarrow> 'd ip \<Rightarrow> 'd ip \<Rightarrow> bool" for Z B s where
  udp_stay: "udp_run Z B s s"
| udp_more: "udp_run Z B s t \<Longrightarrow> udp_step Z B t u \<Longrightarrow> udp_run Z B s u"

lemma same_udp_ok: "same_udp Z B s s' \<Longrightarrow> udp_ok Z B s \<Longrightarrow> udp_ok Z B s'"
  by (simp add: same_udp_def udp_ok_def pool_ok_def)

lemma udp_step_ok: "udp_step Z B s s' \<Longrightarrow> sizes_ok Z B \<Longrightarrow> udp_ok Z B s \<Longrightarrow> udp_ok Z B s'"
  by (induction rule: udp_step.induct)
    (auto intro: udp_new_ok udp_remove_ok udp_bind_ok udp_connect_ok udp_disconnect_ok udp_recv_ok udp_find_ok same_udp_ok)

definition udp_start :: "(memp_t \<Rightarrow> nat) \<Rightarrow> nat \<Rightarrow> 'd ip \<Rightarrow> bool" where
  "udp_start Z B s \<longleftrightarrow> memp_inv Z B (n_memp (l_net s)) \<and> memp_live Z B MEMP_UDP_PCB (n_memp (l_net s)) = {} \<and>
     i_udp (l_ip s) = Map.empty \<and> i_udp_pcbs (l_ip s) = [] \<and> i_udp_port (l_ip s) = 0xc000"

lemma udp_start_ok: "udp_start Z B s \<Longrightarrow> udp_ok Z B s"
  by (simp add: udp_start_def udp_ok_def pool_ok_def pcbs_ok_def ports_apart_def)

lemma udp_run_ok: "udp_run Z B s s' \<Longrightarrow> sizes_ok Z B \<Longrightarrow> udp_ok Z B s \<Longrightarrow> udp_ok Z B s'"
  by (induction rule: udp_run.induct) (auto intro: udp_step_ok)

section \<open>One receiver\<close>

text \<open>The control blocks bound to a port and address.\<close>

definition receivers :: "netdev \<Rightarrow> u16 \<Rightarrow> u32 \<Rightarrow> 'd ip \<Rightarrow> nat set" where
  "receivers d port dest s = {x \<in> set (i_udp_pcbs (l_ip s)). \<exists>u. i_udp (l_ip s) x = Some u \<and> udp_local_match d port dest u}"

lemma receivers_unique:
  assumes ok: "udp_ok Z B s" and b: "\<not> ip4_addr_isbroadcast dest (addr_netif d)"
    and x: "x \<in> receivers d port dest s" and y: "y \<in> receivers d port dest s"
  shows "x = y"
proof (rule ccontr)
  assume n: "x \<noteq> y"
  from x y obtain u v where u: "i_udp (l_ip s) x = Some u" "udp_local_match d port dest u" "x \<in> set (i_udp_pcbs (l_ip s))"
    and v: "i_udp (l_ip s) y = Some v" "udp_local_match d port dest v" "y \<in> set (i_udp_pcbs (l_ip s))"
    by (auto simp: receivers_def)
  then have "u_local_port u = u_local_port v" by (simp add: udp_local_match_def)
  with u v n udp_okD(1) [OF ok] have "u_local_ip u \<noteq> 0 \<and> u_local_ip v \<noteq> 0 \<and> u_local_ip u \<noteq> u_local_ip v"
    unfolding pcbs_ok_def ports_apart_def by blast
  with u(2) v(2) b show False by (simp add: udp_local_match_def Let_def)
qed

text \<open>C33: whatever control blocks are made, bound, connected, disconnected and removed and whatever packets arrive, a
  datagram to one address finds at most one control block bound to its port: the search returns it, and if
  it returns none, then none is bound or the one that is bound is connected to another peer.\<close>

theorem udp_one_receiver:
  assumes "sizes_ok Z B" and "udp_start Z B s" and "udp_run Z B s s'"
    and "\<not> ip4_addr_isbroadcast dest (addr_netif d)" and "port \<noteq> DHCP_CLIENT_PORT"
  shows "\<exists>r t. udp_find d port dest sport src s' = Some (r, t) \<and>
    (case r of Some x \<Rightarrow> receivers d port dest s' = {x}
     | None \<Rightarrow> receivers d port dest s' = {} \<or> (\<exists>x u. receivers d port dest s' = {x} \<and> i_udp (l_ip s') x = Some u \<and>
         u_flags u AND UDP_FLAGS_CONNECTED \<noteq> 0 \<and> (u_remote_port u \<noteq> sport \<or> u_remote_ip u \<noteq> src)))"
proof -
  have ok: "udp_ok Z B s'" using udp_run_ok assms(1-3) udp_start_ok by blast
  note one = receivers_unique [OF ok assms(4)]
  let ?f = "i_udp (l_ip s')" and ?L = "i_udp_pcbs (l_ip s')"
  from udp_scan_spec [OF udp_ok_dom [OF ok], of d port dest sport src None] obtain y v where
    sc: "udp_scan ?f d port dest sport src None ?L = Some (y, v)"
    and yv: "\<forall>z. y = Some z \<longrightarrow> z \<in> set ?L \<and> (\<exists>u. ?f z = Some u \<and> udp_local_match d port dest u)"
      "\<forall>z. v = Some z \<longrightarrow> None = Some z \<or> z \<in> set ?L \<and> (\<exists>u. ?f z = Some u \<and> udp_local_match d port dest u)"
    and n: "y = None \<and> v = None \<longrightarrow> None = (None :: nat option) \<and> (\<forall>z \<in> set ?L. \<forall>u. ?f z = Some u \<longrightarrow> udp_local_match d port dest u \<longrightarrow>
       u_flags u AND UDP_FLAGS_CONNECTED \<noteq> 0 \<and> (u_remote_port u \<noteq> sport \<or> u_remote_ip u \<noteq> src))"
    by (elim exE conjE)
  have y: "\<And>z. y = Some z \<Longrightarrow> z \<in> receivers d port dest s'" and v: "\<And>z. v = Some z \<Longrightarrow> z \<in> receivers d port dest s'"
    using yv by (simp_all add: receivers_def)
  have e: "receivers d port dest s' = {z}" if "z \<in> receivers d port dest s'" for z using one that by blast
  show ?thesis
  proof (cases "case y of Some x \<Rightarrow> Some x | None \<Rightarrow> v")
    case (Some x)
    then have "\<exists>t. udp_find d port dest sport src s' = Some (Some x, t)" using sc assms(5)
      by (auto simp: udp_find_def split: option.splits)
    moreover have "receivers d port dest s' = {x}" using Some y v e by (auto split: option.splits)
    ultimately show ?thesis by auto
  next
    case None
    then have none: "y = None" "v = None" by (auto split: option.splits)
    then have f: "udp_find d port dest sport src s' = Some (None, s')" using sc assms(5) by (simp add: udp_find_def)
    show ?thesis
    proof (cases "receivers d port dest s' = {}")
      case False
      then obtain z u where z: "z \<in> receivers d port dest s'" "z \<in> set (i_udp_pcbs (l_ip s'))" "i_udp (l_ip s') z = Some u"
        "udp_local_match d port dest u" by (auto simp: receivers_def)
      with none n have "u_flags u AND UDP_FLAGS_CONNECTED \<noteq> 0 \<and> (u_remote_port u \<noteq> sport \<or> u_remote_ip u \<noteq> src)" by blast
      with f e [OF z(1)] z(3) show ?thesis by (intro exI [of _ None] exI [of _ s']) auto
    qed (use f in simp)
  qed
qed

text \<open>One control block made and bound to port 7 of any address.\<close>

theorem udp_one_receiver_witness:
  "\<exists>s s' x t. udp_start (\<lambda>_. 32) 4096 s \<and> udp_run (\<lambda>_. 32) 4096 s (s' :: unit ip) \<and>
     udp_find netdev0 7 0x0100000a 9 0x0200000a s' = Some (Some x, t)"
proof -
  let ?Z = "\<lambda>_ :: memp_t. 32 :: nat" and ?B = "4096 :: nat"
  let ?mp = "memp_init ?Z ?B memp_zero"
  let ?s = "full_heap\<lparr>l_net := (l_net full_heap)\<lparr>n_memp := ?mp\<rparr>\<rparr>"
  have z: "sizes_ok ?Z ?B" by (simp add: sizes_ok_def)
  have idx: "memp_idx MEMP_UDP_PCB = MEMP_UDP_PCB" using udp_idx by (simp add: memp_idx_def)
  from memp_init_spec [OF z] have inv: "memp_inv ?Z ?B ?mp" and l0: "memp_live ?Z ?B MEMP_UDP_PCB ?mp = {}"
    using udp_idx by auto
  have st: "udp_start ?Z ?B ?s" by (simp add: udp_start_def inv l0) (simp add: full_heap_def ipst0_def)
  from memp.alloc_law [of ?Z ?B ?mp MEMP_UDP_PCB] z inv obtain r mp where m: "memp_malloc MEMP_UDP_PCB ?mp = Some (r, mp)"
    unfolding idx by blast
  with memp.alloc_room [of ?Z ?B ?mp MEMP_UDP_PCB r mp] z inv l0 obtain x where x: "r = Some x"
    unfolding idx by (auto simp: MEMP_UDP_PCB_def memp_num_def)
  let ?u = "\<lparr>u_local_ip = 0, u_remote_ip = 0, u_so_options = 0, u_tos = 0, u_ttl = UDP_TTL, u_flags = 0,
        u_local_port = 0, u_remote_port = 0, u_recv = None, u_recv_arg = None\<rparr>"
  let ?s1 = "put_udp x ?u (?s\<lparr>l_net := (l_net ?s)\<lparr>n_memp := mp\<rparr>\<rparr>)"
  let ?s2 = "on_ip (\<lambda>w. w\<lparr>i_udp_pcbs := x # i_udp_pcbs w\<rparr>) (put_udp x (?u\<lparr>u_local_port := 7\<rparr>) (put_udp x (?u\<lparr>u_local_ip := 0\<rparr>) ?s1))"
  have n: "udp_new ?s = Some (Some x, ?s1)" using m x by (simp add: udp_new_def)
  have L: "i_udp_pcbs (l_ip ?s) = []" by (simp add: full_heap_def ipst0_def)
  have b: "udp_bind x None 7 ?s1 = Some (ERR_OK, ?s2)" by (simp add: udp_bind_def get_udp_def L [simplified])
  have run: "udp_run ?Z ?B ?s ?s2"
    by (rule udp_more [OF udp_more [OF udp_stay udp_create [OF n]] udp_binds [OF b]])
  have nb: "\<not> ip4_addr_isbroadcast 0x0100000a (addr_netif netdev0)" by code_simp
  have f: "i_udp (l_ip ?s2) x = Some (?u\<lparr>u_local_port := 7\<rparr>)" and rx: "x \<in> receivers netdev0 7 0x0100000a ?s2"
    using nb by (simp_all add: receivers_def udp_local_match_def Let_def)
  have "\<exists>t. udp_find netdev0 7 0x0100000a 9 0x0200000a ?s2 = Some (Some x, t)"
    using udp_one_receiver [OF z st run nb, of 7 9 "0x0200000a"] rx f by (auto simp: DHCP_CLIENT_PORT_def split: option.splits)
  with st run show ?thesis by blast
qed

end
