(* ===== verification/Spec2Isabelle.thy ===== *)
theory Spec2Isabelle
  imports EchoRecv IpAddr Timers TcpAppend TcpListCalls TcpWindow IpChksum UdpPorts
begin

text \<open>
  The firmware of a TCP/UART converter for the FRDM-K64F board.

  The program. One TCP connection on port 7 is bridged to UART0. The application \<open>echo.c\<close> (under
  \<open>demos/lwip_tcpecho_demo/tcpecho_bm/src\<close>) runs without an operating system: \<open>main\<close> polls the
  Ethernet controller, the UART status and the timeouts of the lwIP stack in an endless loop; the
  stack calls the application back; the UART and the PIT timer interrupt it. Bytes from the UART
  go through the ring \<open>CircBuffTx\<close> (\<open>CircBuf.c\<close>) into \<open>tx_buffer\<close> and from there to \<open>tcp_write\<close> when
  TCP polls the connection; the idle timer (\<open>TimeoutTimer.c\<close> on the PIT driver) flushes a partial
  block. The first segment of a connection configures the UART; every other one is handed to the
  UART driver and queued in \<open>CircBuffRx\<close>.

  Conventions. A function of the program is a function of the model with the same name that
  returns \<open>None\<close> where the code faults: an access outside an object or through a null pointer, a
  failed assertion, or a loop that does not return (\<open>partial_function (option)\<close>). Machine integers
  are words of their width. Interrupts are events between the steps of the code; the handlers are
  functions of their own.

  Theories.
  \<^item> \<open>Prelude\<close>: words, options, the collection \<open>c_def\<close>.
  \<^item> \<open>CircBuf\<close>, \<open>PitDriver\<close>, \<open>TimeoutTimer\<close>, \<open>Bridge\<close>: the two rings and \<open>ReadUARTdata\<close>; the PIT
    registers, driver and interrupt; the idle timer; the data path as runs of a device over the
    events loop pass, timer interrupt, poll and received segment. The rings are an interpretation
    of the queue interface. Shown: no byte is lost or reordered on the way from the UART to
    \<open>tcp_write\<close> while the ring has room; a partial block is flushed; the ring towards the UART
    faults at the thirteenth block of eight.
  \<^item> \<open>UartHal\<close>, \<open>UartDriver\<close>: every function of \<open>fsl_uart_hal.[ch]\<close> and \<open>fsl_uart_driver.c\<close> over a
    record of register accesses, with the semaphores of \<open>fsl_os_abstraction_bm.c\<close>. \<open>UartChip\<close> states
    what the registers and FIFOs do as the locale \<open>uart_chip\<close> and interprets it on the UART of the
    K64F with eight entries per FIFO. \<open>UartConfig\<close>: baud rate, initialisation, status flags.
    \<open>UartTransfer\<close>: transmissions and receptions under every interleaving of transmitter, receiver
    and interrupt handler.
  \<^item> \<open>EchoApp\<close>, \<open>EchoProps\<close>, \<open>EchoRecv\<close>: all callbacks of \<open>echo.c\<close>, the configuration of the UART and
    the pass of the main loop, over the packet buffers, the ring device and the UART driver.
  \<^item> \<open>ByteOrder\<close>, \<open>InetChksum\<close>, \<open>IpAddr\<close>: \<open>def.c\<close>, \<open>inet_chksum.c\<close> (all three loops and the chains) and
    \<open>ip_addr.c\<close> of lwIP.
  \<^item> \<open>Allocator\<close>: what a client needs of an allocator, as locales; \<open>Memp\<close> and \<open>Mem\<close> (\<open>memp.c\<close>, \<open>mem.c\<close>)
    interpret them. \<open>Pbuf\<close>, \<open>PbufChain\<close>, \<open>PbufAlloc\<close>, \<open>PbufData\<close>: \<open>pbuf.c\<close> over one memory of pools, heap
    and packet buffers, with the invariant \<open>net_inv\<close>.
  \<^item> \<open>Timers\<close>: the delta list of \<open>lwip_timers.c\<close> refined to a queue of deadlines.
  \<^item> \<open>TcpTypes\<close>, \<open>TcpOut\<close>, \<open>TcpSend\<close>, \<open>TcpPcb\<close>, \<open>TcpCore\<close>, \<open>TcpIn\<close>: every function of \<open>tcp_out.c\<close>, \<open>tcp.c\<close> and
    \<open>tcp_in.c\<close> over one state: the memory of the packet buffers, the control blocks with their four linked lists,
    and the variables of \<open>tcp_in.c\<close>. The segment queues of a control block are lists; everything the code writes
    into a packet is written byte by byte.
  \<^item> \<open>TcpMem\<close>, \<open>TcpQueue\<close>, \<open>TcpWrite\<close>, \<open>TcpTail\<close>, \<open>TcpStream\<close>, \<open>TcpAppend\<close>: \<open>tcp_write\<close> refined to appending to a stream
    of bytes with contiguous sequence numbers, through its three phases; an error changes nothing.
  \<^item> \<open>TcpFrame\<close>, \<open>TcpLists\<close>, \<open>TcpListClose\<close>, \<open>TcpListOpen\<close>, \<open>TcpListProc\<close>, \<open>TcpListInput\<close>, \<open>TcpListCalls\<close>: the rules of the
    four lists of control blocks (closed, without repetition, apart, each with its states) and that every call of
    the application and every packet keeps them, callbacks included.
  \<^item> \<open>TcpWindow\<close>: what \<open>tcp_recved\<close> announces, and the loop of \<open>tcp_fasttmr\<close> that does not end.
  \<^item> \<open>LinkTypes\<close>, \<open>Etharp\<close>, \<open>IpOut\<close>, \<open>Icmp\<close>, \<open>Udp\<close>, \<open>IpReass\<close>, \<open>IpInput\<close>, \<open>Netif\<close>: the layers below TCP, \<open>etharp.c\<close>, \<open>ip.c\<close>,
    \<open>icmp.c\<close>, \<open>udp.c\<close>, \<open>ip_frag.c\<close> and \<open>netif.c\<close>, over the packet buffers and a record of their variables.
    \<open>ArpTable\<close>: the invariant of the ARP table over any run, what an update makes it resolve, and the reply to a
    request. \<open>IpFragProps\<close>: reassembly of fragments that arrive in order, and the packets that trip its assertions.
    \<open>IpChksum\<close>: the checksums that \<open>ip_output_if\<close> and \<open>icmp_input\<close> compute incrementally. \<open>UdpPorts\<close>: the UDP control
    blocks, and that a datagram has at most one receiver.

  Parameters. \<open>stack_fns\<close> (the periodic functions the timers call), \<open>tcp_fns\<close> (the TCP functions the
  application calls, with the laws \<open>tcp_laws\<close>), \<open>uart_hw\<close> (register accesses, with the laws
  \<open>uart_chip\<close>), the free function of custom pbufs, the receive callback of the UART driver (none is
  installed by the program, and the UART properties assume none), the passing of time in busy
  waits, the placement of objects in memory and the contents of uninitialised locals. TCP takes
  \<open>tcp_env\<close> (fields \<open>te_\<close>: route and output of IP, the maximum segment size of the interface, the addresses of
  packets) and \<open>stk_env\<close> (fields \<open>ce_\<close>: the callbacks of the application). The layers below take \<open>ip_env\<close> (fields \<open>ie_\<close>:
  the addresses of packets, the receive functions of UDP applications and \<open>linkoutput\<close> of the
  Ethernet driver), and what IP hands to TCP is a value of their results.

  Bounds. The recursions over linked lists and the loops that may not end are partial functions, and their
  termination is part of the statements (the result is \<open>Some\<close>); no fuel is used. Pools have the sizes of
  \<open>lwipopts.h\<close>; their element sizes and base addresses are arbitrary up to \<open>sizes_ok\<close>.

  Not modelled: DHCP, which is compiled but never started; the Ethernet driver and the port of lwIP to it, whose
  behaviour is that of a DMA engine and a PHY (\<open>linkoutput\<close> stands for them); modules of
  lwIP that the configuration leaves out; start-up,
  clocks and pins, which only set registers; peripherals the program does not use; RTCS and MQX,
  which it does not link; the C# program that builds the configuration packet.
\<close>

end
